(* ===== verification/Prelude.thy ===== *)
theory Prelude
  imports Main "HOL-Library.Word"
begin

unbundle bit_operations_syntax

text \<open>
  The vocabulary the components share. C integers are words of their width or \<open>nat\<close> and \<open>int\<close>
  where the surrounding code keeps them small; a byte buffer is a \<open>byte list\<close> written with
  \<open>write_at\<close>, the model of an assignment or \<open>memcpy\<close> to a position of a buffer.

  Every function of the program that can fail returns an \<open>int\<close> that is negative on failure and
  usually sets the message that \<open>last_error\<close> returns (\<open>ERR_RETURN\<close>, \<open>OK_OR_RETURN\<close>,
  \<open>ERR_CLEANUP_MSG\<close> of \<open>util.h\<close>). Here a failure is an \<open>error\<close> value: \<open>Msg m\<close> carries the
  format string of the message, \<open>Quiet\<close> is a failure that sets no message, and \<open>Undefined w\<close> is
  not a failure the C code reports: it marks an execution whose behaviour C leaves undefined
  (an access outside an array, a signed overflow). A function without state returns
  \<open>'a res\<close>; one that changes state is an action, and it returns the state also when it fails,
  because the C code keeps the changes it made before the failure.
\<close>

named_theorems buf_simps \<open>rewrite rules for reads of written buffers\<close>
named_theorems res_simps \<open>rewrite rules for results and actions\<close>

type_synonym byte = "8 word"
type_synonym u16 = "16 word"
type_synonym u32 = "32 word"
type_synonym u64 = "64 word"

datatype error = Quiet | Msg string | Undefined string

type_synonym 'a res = "error + 'a"
type_synonym ('s, 'a) action = "'s \<Rightarrow> 'a res \<times> 's"

section \<open>Results and actions\<close>

definition bind_res :: "'a res \<Rightarrow> ('a \<Rightarrow> 'b res) \<Rightarrow> 'b res" where
  "bind_res r f = (case r of Inl e \<Rightarrow> Inl e | Inr x \<Rightarrow> f x)"

definition ok_then :: "('s, 'a) action \<Rightarrow> ('a \<Rightarrow> ('s, 'b) action) \<Rightarrow> ('s, 'b) action" where
  "ok_then m f = (\<lambda>s. case m s of (Inl e, s') \<Rightarrow> (Inl e, s') | (Inr x, s') \<Rightarrow> f x s')"

definition from_res :: "'a res \<Rightarrow> ('s, 'a) action" where
  "from_res r = (\<lambda>s. (r, s))"

definition is_ok :: "'a res \<Rightarrow> bool" where
  "is_ok r = (case r of Inl _ \<Rightarrow> False | Inr _ \<Rightarrow> True)"

text \<open>
  \<open>OK_OR_RETURN_MSG\<close> and \<open>OK_OR_CLEANUP_MSG\<close>: a failure is reported under a message of the caller's.
\<close>

definition with_msg :: "string \<Rightarrow> 'a res \<Rightarrow> 'a res" where
  "with_msg m r = (case r of Inl (Undefined w) \<Rightarrow> Inl (Undefined w) | Inl _ \<Rightarrow> Inl (Msg m) | Inr x \<Rightarrow> Inr x)"

lemma with_msg_Inr [simp, res_simps]: "with_msg m (Inr x) = Inr x" "with_msg m r = Inr x \<longleftrightarrow> r = Inr x"
  by (auto simp: with_msg_def split: sum.splits error.splits)

lemma bind_res_Inr [simp, res_simps]: "bind_res (Inr x) f = f x"
  by (simp add: bind_res_def)

lemma bind_res_Inl [simp, res_simps]: "bind_res (Inl e) f = Inl e"
  by (simp add: bind_res_def)

lemma bind_res_eq_Inr [res_simps]:
  "bind_res r f = Inr y \<longleftrightarrow> (\<exists>x. r = Inr x \<and> f x = Inr y)"
  by (cases r) auto

lemma bind_res_assoc [res_simps]: "bind_res (bind_res m f) g = bind_res m (\<lambda>x. bind_res (f x) g)"
  by (cases m) auto

lemma ok_then_Inr_E:
  assumes "ok_then m f s = (Inr y, t)"
  obtains x u where "m s = (Inr x, u)" and "f x u = (Inr y, t)"
  using assms by (auto simp: ok_then_def split: prod.splits sum.splits)

lemma from_res_then: "ok_then (from_res r) f s = (case r of Inl e \<Rightarrow> (Inl e, s) | Inr x \<Rightarrow> f x s)"
  by (simp add: ok_then_def from_res_def)

lemma is_ok_simps [simp, res_simps]: "is_ok (Inr x)" "\<not> is_ok (Inl e)"
  by (simp_all add: is_ok_def)

lemma is_ok_iff: "is_ok r \<longleftrightarrow> (\<exists>x. r = Inr x)"
  by (cases r) auto

section \<open>Buffers\<close>

definition write_at :: "nat \<Rightarrow> 'a list \<Rightarrow> 'a list \<Rightarrow> 'a list" where
  "write_at i xs buf = take i buf @ xs @ drop (i + length xs) buf"

lemma length_write_at [simp]:
  "i + length xs \<le> length buf \<Longrightarrow> length (write_at i xs buf) = length buf"
  by (simp add: write_at_def)

lemma nth_write_at [buf_simps]:
  assumes "i + length xs \<le> length buf" and "j < length buf"
  shows "write_at i xs buf ! j = (if i \<le> j \<and> j < i + length xs then xs ! (j - i) else buf ! j)"
proof -
  consider "j < i" | "i \<le> j \<and> j < i + length xs" | "i + length xs \<le> j" by linarith
  then show ?thesis
    using assms by cases (auto simp: write_at_def nth_append min_def)
qed

definition read_at :: "nat \<Rightarrow> nat \<Rightarrow> 'a list \<Rightarrow> 'a list" where
  "read_at i n buf = take n (drop i buf)"

lemma length_read_at [simp]: "i + n \<le> length buf \<Longrightarrow> length (read_at i n buf) = n"
  by (simp add: read_at_def)

lemma nth_read_at [buf_simps]:
  "i + n \<le> length buf \<Longrightarrow> j < n \<Longrightarrow> read_at i n buf ! j = buf ! (i + j)"
  by (simp add: read_at_def)

lemma read_at_write_at_same [buf_simps]:
  assumes "i + length xs \<le> length buf" and "n = length xs"
  shows "read_at i n (write_at i xs buf) = xs"
  using assms by (simp add: read_at_def write_at_def)

lemma read_at_write_at_other [buf_simps]:
  assumes "i + length xs \<le> length buf" and "k + n \<le> length buf"
    and "k + n \<le> i \<or> i + length xs \<le> k"
  shows "read_at k n (write_at i xs buf) = read_at k n buf"
proof (rule nth_equalityI)
  show "length (read_at k n (write_at i xs buf)) = length (read_at k n buf)"
    using assms by simp
next
  fix j assume "j < length (read_at k n (write_at i xs buf))"
  then have j: "j < n" using assms by simp
  then show "read_at k n (write_at i xs buf) ! j = read_at k n buf ! j"
    using assms by (auto simp: nth_read_at nth_write_at)
qed

lemma list_update_Cons_numeral [simp, buf_simps]:
  "(x # xs)[numeral v := y] = x # xs[pred_numeral v := y]"
  by (simp add: numeral_eq_Suc)

lemma read_at_append_left [buf_simps]:
  "i + n \<le> length xs \<Longrightarrow> read_at i n (xs @ ys) = read_at i n xs"
  by (simp add: read_at_def)

lemma read_at_append_right [buf_simps]:
  "length xs \<le> i \<Longrightarrow> read_at i n (xs @ ys) = read_at (i - length xs) n ys"
  by (simp add: read_at_def)

lemma read_at_all [buf_simps]: "n = length xs \<Longrightarrow> read_at 0 n xs = xs"
  by (simp add: read_at_def)

lemma upt_4: "[0..<4] = [0, 1, 2, 3 :: nat]"
  by code_simp

lemma take_as_map_nth: "n \<le> length xs \<Longrightarrow> take n xs = map ((!) xs) [0..<n]"
  by (simp add: list_eq_iff_nth_eq)

lemma length_concat_same: "\<forall>x \<in> set xs. length (f x) = n \<Longrightarrow> length (concat (map f xs)) = n * length xs"
  by (induction xs) auto

lemma list_all_update:
  "list_all P xs \<Longrightarrow> P y \<Longrightarrow> list_all P (xs[i := y])"
  by (auto simp: list_all_iff dest!: set_update_subset_insert [THEN subsetD])

section \<open>Words\<close>

lemma mask8: "(255 :: 'a::len word) = mask 8"
  by (simp add: mask_eq_exp_minus_1)

lemma mask4: "(15 :: 'a::len word) = mask 4"
  by (simp add: mask_eq_exp_minus_1)

lemma unat_ucast_u32 [simp]: "unat (ucast (w :: u32) :: u64) = unat w"
proof -
  have "unat w < 2 ^ 32" using unsigned_less [of w, where 'a = nat] by simp
  then show ?thesis by (simp add: unsigned_ucast_eq take_bit_eq_mod)
qed

lemma unat_byte_less: "unat (b :: byte) < 256"
  using unsigned_less [of b, where 'a = nat] by simp

end
