(* ===== verification/CLib.thy ===== *)
theory CLib
  imports Prelude
begin

text \<open>
  What the sources use of the C library and of libconfuse. A C string is a \<open>string\<close> without its
  terminating NUL, so \<open>*s == 0\<close> is \<open>s = []\<close>. Integers follow the LP64 model: \<open>long\<close>,
  \<open>long long\<close>, \<open>size_t\<close> and \<open>off_t\<close> have 64 bits, \<open>int\<close> has 32.

  \<open>strtoull\<close> and \<open>strtoll\<close> are always called with base 0: white space, a sign, then a
  hexadecimal, octal or decimal number by its prefix. They return the value, the rest of the
  string (\<open>endptr\<close>) and whether they set \<open>errno\<close> to \<open>ERANGE\<close>.

  libconfuse is not part of the repository. A section of a parsed configuration is a value of
  type \<open>cfg\<close>: the answers of the library's getters, and a parameter of every definition that
  uses it.
\<close>

section \<open>Characters and numbers\<close>

definition isspace :: "char \<Rightarrow> bool" where
  "isspace c = (let n = of_char c :: nat in n = 32 \<or> (9 \<le> n \<and> n \<le> 13))"

definition isdigit :: "char \<Rightarrow> bool" where
  "isdigit c = (let n = of_char c :: nat in 48 \<le> n \<and> n \<le> 57)"

definition isalnum :: "char \<Rightarrow> bool" where
  "isalnum c = (let n = of_char c :: nat in
     (48 \<le> n \<and> n \<le> 57) \<or> (65 \<le> n \<and> n \<le> 90) \<or> (97 \<le> n \<and> n \<le> 122))"

definition digit_val :: "char \<Rightarrow> nat" where
  "digit_val c = (let n = of_char c :: nat in
     if 48 \<le> n \<and> n \<le> 57 then n - 48
     else if 65 \<le> n \<and> n \<le> 90 then n - 55
     else if 97 \<le> n \<and> n \<le> 122 then n - 87
     else 255)"

fun take_digits :: "nat \<Rightarrow> nat \<Rightarrow> string \<Rightarrow> nat \<times> string" where
  "take_digits b acc [] = (acc, [])"
| "take_digits b acc (c # cs) =
     (if digit_val c < b then take_digits b (acc * b + digit_val c) cs else (acc, c # cs))"

definition starts_digit :: "nat \<Rightarrow> string \<Rightarrow> bool" where
  "starts_digit b s = (case s of [] \<Rightarrow> False | c # _ \<Rightarrow> digit_val c < b)"

definition hex_prefix :: "string \<Rightarrow> bool" where
  "hex_prefix s = (take 2 s \<in> {''0x'', ''0X''} \<and> starts_digit 16 (drop 2 s))"

definition magnitude :: "string \<Rightarrow> (nat \<times> string) option" where
  "magnitude s =
     (if hex_prefix s then Some (take_digits 16 0 (drop 2 s))
      else if take 1 s = ''0'' then Some (take_digits 8 0 s)
      else if starts_digit 10 s then Some (take_digits 10 0 s)
      else None)"

definition signed_magnitude :: "string \<Rightarrow> (bool \<times> nat \<times> string) option" where
  "signed_magnitude s0 =
     (let s = dropWhile isspace s0 in
      case s of [] \<Rightarrow> None
      | c # cs \<Rightarrow>
          if c = CHR ''-'' then map_option (Pair True) (magnitude cs)
          else if c = CHR ''+'' then map_option (Pair False) (magnitude cs)
          else map_option (Pair False) (magnitude s))"

definition strtoull :: "string \<Rightarrow> u64 \<times> string \<times> bool" where
  "strtoull s =
     (case signed_magnitude s of
        None \<Rightarrow> (0, s, False)
      | Some (neg, n, rest) \<Rightarrow>
          if n \<ge> 2 ^ 64 then (- 1, rest, True)
          else ((if neg then - of_nat n else of_nat n), rest, False))"

definition strtoll :: "string \<Rightarrow> int \<times> string \<times> bool" where
  "strtoll s =
     (case signed_magnitude s of
        None \<Rightarrow> (0, s, False)
      | Some (neg, n, rest) \<Rightarrow>
          (let v = (if neg then - int n else int n) in
           if v > 2 ^ 63 - 1 then (2 ^ 63 - 1, rest, True)
           else if v < - (2 ^ 63) then (- (2 ^ 63), rest, True)
           else (v, rest, False)))"

definition to_int32 :: "int \<Rightarrow> int" where
  "to_int32 v = sint (word_of_int v :: u32)"

text \<open>Signed 64 bit arithmetic: overflow is undefined.\<close>

definition int64 :: "int \<Rightarrow> int res" where
  "int64 v = (if - (2 ^ 63) \<le> v \<and> v \<le> 2 ^ 63 - 1 then Inr v
     else Inl (Undefined ''signed integer overflow''))"

definition digit_char :: "nat \<Rightarrow> char" where
  "digit_char d = char_of (48 + d)"

fun show_nat :: "nat \<Rightarrow> string" where
  "show_nat n = (if n < 10 then [digit_char n] else show_nat (n div 10) @ [digit_char (n mod 10)])"

declare show_nat.simps [simp del]

definition show_int :: "int \<Rightarrow> string" where
  "show_int v = (if v < 0 then CHR ''-'' # show_nat (nat (- v)) else show_nat (nat v))"

text \<open>The digits that \<open>printf("%x")\<close> writes.\<close>

definition hex_digit_char :: "nat \<Rightarrow> char" where
  "hex_digit_char d = (if d < 10 then char_of (48 + d) else char_of (87 + d))"

fun show_hex :: "nat \<Rightarrow> string" where
  "show_hex n = (if n < 16 then [hex_digit_char n] else show_hex (n div 16) @ [hex_digit_char (n mod 16)])"

declare show_hex.simps [simp del]

definition string_bytes :: "string \<Rightarrow> byte list" where
  "string_bytes s = map of_char s"

definition bytes_string :: "byte list \<Rightarrow> string" where
  "bytes_string bs = map (\<lambda>b. char_of (unat b)) bs"

text \<open>\<open>strndup\<close> on a pointer into a buffer: up to \<open>n\<close> bytes, or up to the first NUL.\<close>

definition strndup :: "byte list \<Rightarrow> nat \<Rightarrow> string" where
  "strndup s n = bytes_string (take n (takeWhile (\<lambda>b. b \<noteq> 0) s))"

definition has_prefix :: "string \<Rightarrow> string \<Rightarrow> bool" where
  "has_prefix p s = (take (length p) s = p)"

lemma unat_of_char: "unat (of_char c :: byte) = of_char c"
proof -
  have "(of_char c :: byte) = of_nat (of_char c)" by (simp only: of_nat_of_char)
  moreover have "(of_char c :: nat) < 256" by simp
  ultimately show ?thesis by (simp only: unsigned_of_nat take_bit_eq_mod) simp
qed

lemma bytes_string_string_bytes [simp]: "bytes_string (string_bytes s) = s"
  by (simp add: bytes_string_def string_bytes_def comp_def unat_of_char)

lemma length_string_bytes [simp]: "length (string_bytes s) = length s" "length (bytes_string b) = length b"
  by (simp_all add: string_bytes_def bytes_string_def)

section \<open>Configuration sections\<close>

datatype cfg = Cfg
  (cfg_title: string)
  (cfg_getint: "string \<Rightarrow> int")
  (cfg_ints: "string \<Rightarrow> int list")
  (cfg_getstr: "string \<Rightarrow> string option")
  (cfg_strs: "string \<Rightarrow> string list")
  (cfg_getbool: "string \<Rightarrow> bool")
  (cfg_secs: "string \<Rightarrow> cfg list")

definition cfg_getnsec :: "cfg \<Rightarrow> string \<Rightarrow> nat \<Rightarrow> cfg option" where
  "cfg_getnsec c k i = (if i < length (cfg_secs c k) then Some (cfg_secs c k ! i) else None)"

definition cfg_gettsec :: "cfg \<Rightarrow> string \<Rightarrow> string \<Rightarrow> cfg option" where
  "cfg_gettsec c k t = find (\<lambda>s. cfg_title s = t) (cfg_secs c k)"

definition cfg_getsec :: "cfg \<Rightarrow> string \<Rightarrow> cfg option" where
  "cfg_getsec c k = cfg_getnsec c k 0"

definition cfg_setstr :: "cfg \<Rightarrow> string \<Rightarrow> string \<Rightarrow> cfg" where
  "cfg_setstr c k v = Cfg (cfg_title c) (cfg_getint c) (cfg_ints c) ((cfg_getstr c)(k := Some v))
     (cfg_strs c) (cfg_getbool c) (cfg_secs c)"

definition cfg_setbool :: "cfg \<Rightarrow> string \<Rightarrow> bool \<Rightarrow> cfg" where
  "cfg_setbool c k v = Cfg (cfg_title c) (cfg_getint c) (cfg_ints c) (cfg_getstr c)
     (cfg_strs c) ((cfg_getbool c)(k := v)) (cfg_secs c)"

lemma cfg_setstr_sel [simp]:
  "cfg_title (cfg_setstr c k v) = cfg_title c" "cfg_getint (cfg_setstr c k v) = cfg_getint c"
  "cfg_getstr (cfg_setstr c k v) = (cfg_getstr c)(k := Some v)"
  "cfg_getbool (cfg_setstr c k v) = cfg_getbool c" "cfg_secs (cfg_setstr c k v) = cfg_secs c"
  by (simp_all add: cfg_setstr_def)

lemma cfg_setbool_sel [simp]:
  "cfg_title (cfg_setbool c k b) = cfg_title c" "cfg_getint (cfg_setbool c k b) = cfg_getint c"
  "cfg_getstr (cfg_setbool c k b) = cfg_getstr c"
  "cfg_getbool (cfg_setbool c k b) = (cfg_getbool c)(k := b)" "cfg_secs (cfg_setbool c k b) = cfg_secs c"
  by (simp_all add: cfg_setbool_def)

section \<open>Printing and parsing decimal numbers\<close>

lemma of_char_digit_char: "d < 10 \<Longrightarrow> (of_char (digit_char d) :: nat) = 48 + d"
  by (simp add: digit_char_def take_bit_eq_mod)

lemma digit_val_digit_char [simp]: "d < 10 \<Longrightarrow> digit_val (digit_char d) = d"
  by (simp add: digit_val_def of_char_digit_char Let_def)

lemma digit_char_no_space_sign [simp]:
  assumes "d < 10"
  shows "\<not> isspace (digit_char d)" and "digit_char d \<noteq> CHR ''-''" and "digit_char d \<noteq> CHR ''+''"
proof -
  have n: "(of_char (digit_char d) :: nat) = 48 + d" by (rule of_char_digit_char [OF assms])
  show "\<not> isspace (digit_char d)" using n assms by (simp add: isspace_def Let_def)
  show "digit_char d \<noteq> CHR ''-''" using n by auto
  show "digit_char d \<noteq> CHR ''+''" using n by auto
qed

lemma digit_char_inj: "c < 10 \<Longrightarrow> d < 10 \<Longrightarrow> digit_char c = digit_char d \<Longrightarrow> c = d"
  by (metis digit_val_digit_char)

lemma digit_char_0: "digit_char 0 = CHR ''0''"
  by code_simp

lemma show_nat_Nil [simp]: "show_nat n \<noteq> []"
  by (subst show_nat.simps) simp

lemma hd_show_nat: "0 < n \<Longrightarrow> \<exists>d. 0 < d \<and> d < 10 \<and> hd (show_nat n) = digit_char d"
proof (induction n rule: show_nat.induct)
  case (1 n)
  show ?case
  proof (cases "n < 10")
    case True
    then show ?thesis using "1.prems" by (subst show_nat.simps) auto
  next
    case False
    then have "0 < n div 10" by simp
    with False "1.IH" show ?thesis by (subst show_nat.simps) simp
  qed
qed

lemma show_nat_Cons: "0 < n \<Longrightarrow> \<exists>d cs. 0 < d \<and> d < 10 \<and> show_nat n = digit_char d # cs"
  using hd_show_nat [of n] by (metis list.exhaust_sel show_nat_Nil)

lemma take_digits_show_nat:
  "take_digits 10 acc (show_nat n @ rest) =
     take_digits 10 (acc * 10 ^ length (show_nat n) + n) rest"
proof (induction n arbitrary: acc rest rule: show_nat.induct)
  case (1 n)
  show ?case
  proof (cases "n < 10")
    case True
    then show ?thesis by (simp add: show_nat.simps [of n])
  next
    case False
    have eq: "show_nat n = show_nat (n div 10) @ [digit_char (n mod 10)]"
      using False by (simp add: show_nat.simps [of n])
    have "take_digits 10 acc (show_nat n @ rest) =
        take_digits 10 (acc * 10 ^ length (show_nat (n div 10)) + n div 10)
          (digit_char (n mod 10) # rest)"
      using "1.IH" [OF False, of acc "digit_char (n mod 10) # rest"] by (simp add: eq)
    also have "\<dots> = take_digits 10 ((acc * 10 ^ length (show_nat (n div 10)) + n div 10) * 10
        + n mod 10) rest"
      by simp
    also have "(acc * 10 ^ length (show_nat (n div 10)) + n div 10) * 10 + n mod 10 =
        acc * 10 ^ length (show_nat n) + n"
      by (simp add: eq algebra_simps)
    finally show ?thesis .
  qed
qed

lemma take_digits_stop: "\<not> starts_digit b s \<Longrightarrow> take_digits b acc s = (acc, s)"
  by (cases s) (auto simp: starts_digit_def)

definition ends_number :: "string \<Rightarrow> bool" where
  "ends_number s = (case s of [] \<Rightarrow> True
     | c # _ \<Rightarrow> \<not> digit_val c < 10 \<and> c \<noteq> CHR ''x'' \<and> c \<noteq> CHR ''X'')"

lemma magnitude_show_nat:
  assumes "ends_number rest"
  shows "magnitude (show_nat n @ rest) = Some (n, rest)"
proof (cases "n = 0")
  case True
  have s: "show_nat 0 = ''0''" by (simp add: show_nat.simps [of 0] digit_char_0)
  have nx: "\<not> hex_prefix (''0'' @ rest)"
    using assms by (cases rest) (auto simp: hex_prefix_def ends_number_def)
  have z: "digit_val CHR ''0'' = 0" using digit_val_digit_char [of 0] by (simp add: digit_char_0)
  have "\<not> starts_digit 8 rest"
    using assms by (auto simp: starts_digit_def ends_number_def split: list.splits)
  then show ?thesis using nx True z by (simp add: magnitude_def s take_digits_stop)
next
  case False
  then obtain d cs where d: "0 < d" "d < 10" and s: "show_nat n = digit_char d # cs"
    using show_nat_Cons by blast
  have ne: "digit_char d \<noteq> CHR ''0''" using d digit_char_inj [of d 0] by (auto simp: digit_char_0)
  have "\<not> starts_digit 10 rest"
    using assms by (auto simp: starts_digit_def ends_number_def split: list.splits)
  then have "take_digits 10 0 (show_nat n @ rest) = (n, rest)"
    by (simp add: take_digits_show_nat take_digits_stop)
  then show ?thesis
    using d ne by (simp add: magnitude_def s hex_prefix_def starts_digit_def)
qed

lemma show_nat_first: "\<exists>d cs. d < 10 \<and> show_nat n = digit_char d # cs"
proof (cases "n = 0")
  case True
  then show ?thesis by (intro exI [of _ 0] exI [of _ "[]"]) (simp add: show_nat.simps [of 0])
next
  case False
  then show ?thesis using show_nat_Cons [of n] by blast
qed

lemma signed_magnitude_show_nat:
  assumes "ends_number rest"
  shows "signed_magnitude (show_nat n @ rest) = Some (False, n, rest)"
proof -
  obtain d cs where d: "d < 10" and s: "show_nat n = digit_char d # cs"
    using show_nat_first by blast
  have "magnitude (digit_char d # cs @ rest) = Some (n, rest)"
    using magnitude_show_nat [OF assms, of n] by (simp add: s)
  then show ?thesis using d by (simp add: signed_magnitude_def s)
qed

lemma strtoull_show_nat:
  assumes "ends_number rest" and "n < 2 ^ 64"
  shows "strtoull (show_nat n @ rest) = (of_nat n, rest, False)"
  using assms by (simp add: strtoull_def signed_magnitude_show_nat)

lemma strtoll_show_nat:
  assumes "ends_number rest" and "n < 2 ^ 63"
  shows "strtoll (show_nat n @ rest) = (int n, rest, False)"
  using assms by (simp add: strtoll_def signed_magnitude_show_nat)

lemma strtoll_progress:
  assumes "strtoll s = (v, rest, e)"
  shows "rest = s \<or> length rest < length s"
proof -
  have td: "length (snd (take_digits b acc t)) \<le> length t" for b acc t
    by (induction b acc t rule: take_digits.induct) auto
  have mag: "length r < length t" if mg: "magnitude t = Some (m, r)" for t m r
  proof -
    consider "hex_prefix t" | "\<not> hex_prefix t" "take 1 t = ''0''"
      | "\<not> hex_prefix t" "take 1 t \<noteq> ''0''" "starts_digit 10 t"
      using mg by (auto simp: magnitude_def split: if_splits)
    then show ?thesis
    proof cases
      case 1
      have "r = snd (take_digits 16 0 (drop 2 t))" using mg 1 by (simp add: magnitude_def)
      moreover have "drop 2 t \<noteq> []" using 1 by (auto simp: hex_prefix_def starts_digit_def)
      ultimately show ?thesis using td [of 16 0 "drop 2 t"] by auto
    next
      case 2
      then obtain cs where t: "t = CHR ''0'' # cs" by (cases t) auto
      have z: "digit_val CHR ''0'' = 0" using digit_val_digit_char [of 0] by (simp add: digit_char_0)
      have "r = snd (take_digits 8 0 cs)" using mg 2 by (simp add: magnitude_def t z)
      then show ?thesis using td [of 8 0 cs] by (simp add: t)
    next
      case 3
      then obtain c cs where t: "t = c # cs" and c: "digit_val c < 10"
        by (cases t) (auto simp: starts_digit_def)
      have "r = snd (take_digits 10 (digit_val c) cs)" using mg 3 c by (simp add: magnitude_def t)
      then show ?thesis using td [of 10 "digit_val c" cs] by (simp add: t)
    qed
  qed
  have dw: "length (dropWhile isspace s) \<le> length s" by (rule length_dropWhile_le)
  show ?thesis
  proof (cases "signed_magnitude s")
    case None
    then show ?thesis using assms by (simp add: strtoll_def)
  next
    case (Some p)
    obtain neg m r where p: "p = (neg, m, r)" by (cases p)
    then have r: "rest = r" using assms Some by (auto simp: strtoll_def Let_def split: if_splits)
    from Some p have "length r < length (dropWhile isspace s)"
      by (auto simp: signed_magnitude_def Let_def dest!: mag split: list.splits if_splits)
    then show ?thesis using dw r by simp
  qed
qed

lemma show_nat_inject: "show_nat m = show_nat n \<Longrightarrow> m = n"
  using magnitude_show_nat [of "[]" m] magnitude_show_nat [of "[]" n]
  by (simp add: ends_number_def)

section \<open>Printing and parsing hexadecimal numbers\<close>

lemma digit_val_hex_digit_char [simp]: "d < 16 \<Longrightarrow> digit_val (hex_digit_char d) = d"
  by (auto simp: digit_val_def hex_digit_char_def Let_def take_bit_eq_mod)

lemma take_digits_show_hex:
  "take_digits 16 acc (show_hex n @ rest) =
     take_digits 16 (acc * 16 ^ length (show_hex n) + n) rest"
proof (induction n arbitrary: acc rest rule: show_hex.induct)
  case (1 n)
  show ?case
  proof (cases "n < 16")
    case True
    then show ?thesis by (simp add: show_hex.simps [of n])
  next
    case False
    have eq: "show_hex n = show_hex (n div 16) @ [hex_digit_char (n mod 16)]"
      using False by (simp add: show_hex.simps [of n])
    have "(acc * 16 ^ length (show_hex (n div 16)) + n div 16) * 16 + n mod 16 =
        acc * 16 ^ length (show_hex n) + n"
      by (simp add: eq algebra_simps)
    then show ?thesis
      using "1.IH" [OF False, of acc "hex_digit_char (n mod 16) # rest"]
      by (simp add: eq algebra_simps)
  qed
qed

lemma starts_digit_show_hex: "starts_digit 16 (show_hex n)"
proof (induction n rule: show_hex.induct)
  case (1 n)
  then show ?case
    by (subst show_hex.simps) (auto simp: starts_digit_def split: list.splits)
qed

lemma strtoull_show_hex:
  assumes "n < 2 ^ 64"
  shows "strtoull (''0x'' @ show_hex n) = (of_nat n, [], False)"
proof -
  have "magnitude (''0x'' @ show_hex n) = Some (n, [])"
    using take_digits_show_hex [of 0 n "[]"]
    by (simp add: magnitude_def hex_prefix_def starts_digit_show_hex)
  then show ?thesis
    using assms by (simp add: strtoull_def signed_magnitude_def isspace_def)
qed

end
