(* ===== verification/Util.thy ===== *)
theory Util
  imports CLib
begin

text \<open>
  \<open>src/src/util.c\<close>: hexadecimal strings, little-endian stores, UUIDs and their nicknames, the
  names of resources inside an archive, unit selection and framed output; and
  \<open>resource_name_to_archive_path\<close> of \<open>src/src/fwup_create.c\<close>, the inverse of
  \<open>archive_filename_to_resource\<close>. Buffers that the C functions fill are returned as lists.
\<close>

section \<open>Hexadecimal strings\<close>

definition nul :: char where
  "nul = char_of (0 :: nat)"

definition char_at :: "string \<Rightarrow> nat \<Rightarrow> char" where
  "char_at s i = (if i < length s then s ! i else nul)"

definition hexchar_to_int :: "char \<Rightarrow> byte" where
  "hexchar_to_int c =
     (case map_of
        [(CHR ''0'', 0), (CHR ''1'', 1), (CHR ''2'', 2), (CHR ''3'', 3), (CHR ''4'', 4),
         (CHR ''5'', 5), (CHR ''6'', 6), (CHR ''7'', 7), (CHR ''8'', 8), (CHR ''9'', 9),
         (CHR ''a'', 10), (CHR ''A'', 10), (CHR ''b'', 11), (CHR ''B'', 11),
         (CHR ''c'', 12), (CHR ''C'', 12), (CHR ''d'', 13), (CHR ''D'', 13),
         (CHR ''e'', 14), (CHR ''E'', 14), (CHR ''f'', 15), (CHR ''F'', 15)] c of
        Some v \<Rightarrow> v | None \<Rightarrow> 255)"

definition nibble_to_hexchar :: "byte \<Rightarrow> char" where
  "nibble_to_hexchar n =
     (if n < 16 then ''0123456789abcdef'' ! unat n else CHR ''0'')"

definition two_hex_to_byte :: "string \<Rightarrow> byte res" where
  "two_hex_to_byte s =
     (let sixteens = hexchar_to_int (char_at s 0); ones = hexchar_to_int (char_at s 1) in
      if sixteens = 255 \<or> ones = 255 then Inl (Msg ''Invalid character in hex string'')
      else Inr (push_bit 4 sixteens OR ones))"

fun hex_loop :: "nat \<Rightarrow> string \<Rightarrow> byte list res" where
  "hex_loop 0 s = Inr []"
| "hex_loop (Suc n) s =
     bind_res (two_hex_to_byte s) (\<lambda>b. bind_res (hex_loop n (drop 2 s)) (\<lambda>bs. Inr (b # bs)))"

definition hex_to_bytes :: "string \<Rightarrow> nat \<Rightarrow> byte list res" where
  "hex_to_bytes s numbytes =
     (if length s \<noteq> numbytes * 2 then Inl (Msg ''hex string should have length'')
      else hex_loop numbytes s)"

fun bytes_to_hex :: "byte list \<Rightarrow> string" where
  "bytes_to_hex [] = []"
| "bytes_to_hex (b # bs) =
     nibble_to_hexchar (drop_bit 4 b) # nibble_to_hexchar (b AND 15) # bytes_to_hex bs"

section \<open>Little-endian stores\<close>

definition copy_le16 :: "u16 \<Rightarrow> byte list" where
  "copy_le16 v = [ucast (v AND 255), ucast (drop_bit 8 v AND 255)]"

definition copy_le32 :: "u32 \<Rightarrow> byte list" where
  "copy_le32 v = [ucast (v AND 255), ucast (drop_bit 8 v AND 255),
     ucast (drop_bit 16 v AND 255), ucast (drop_bit 24 v AND 255)]"

definition copy_le64 :: "u64 \<Rightarrow> byte list" where
  "copy_le64 v = [ucast (v AND 255), ucast (drop_bit 8 v AND 255),
     ucast (drop_bit 16 v AND 255), ucast (drop_bit 24 v AND 255),
     ucast (drop_bit 32 v AND 255), ucast (drop_bit 40 v AND 255),
     ucast (drop_bit 48 v AND 255), ucast (drop_bit 56 v AND 255)]"

definition ascii_to_utf16le :: "byte list \<Rightarrow> byte list" where
  "ascii_to_utf16le s = concat (map (\<lambda>c. [c, 0]) s)"

section \<open>UUIDs\<close>

definition word34567_words :: string where
  "word34567_words =
     ''actableaboutabsentabandonaddawayaisleadviceaddressaimbestangerannualanalyst'' @
     ''allbonearmorassumeapologyarmcakebeachbarrelaverageaskchatblessbitterbargain'' @
     ''barclubbrickbronzeblanketbidcorncabincameracapitalboydashchalkcasualcertain'' @
     ''candicecivilcherrycoconutcatdripcloudcolumnconductcupeastcraftcreditcrucial'' @
     ''dayfallcurvedebriscushiondryfinedreamdependdespaireggfoilearthdinnerdilemma'' @
     ''eragainentrydragondynamicfangladexistenergyemotionfewgritfieldestateessence'' @
     ''fixheadfocusexpireexhibitfoghoodgaugefingerfatiguefoxideaglovefossilforward'' @
     ''gapjumpgruntgarlicgenuinehatkiwihelloguitargravityhiplazyinnerhorrorillness'' @
     ''icelinklaborindoorinitialjoblooplightinvestjealouskeymathmaplelaptoplecture'' @
     ''kidmindmimiclonelylotterylabnamenastymarginmentionmadnoseoffermiddlemonitor'' @
     ''mixopenownermotionnetworknetpasspianonephewobservenutplugpoweronlineostrich'' @
     ''oakpulppursepalacepeasantoilrampreadyphrasepopularoneringroundpraisepresent'' @
     ''pensafescrapreasonprogrampigseedshockreliefpuddingrawsignskillresistraccoon'' @
     ''rugslotsnackripplereleaserunsoonspawnsalutesatisfysaystepsprayselectsession'' @
     ''shytapestillsilverslenderspytextsuperspherestomachtagtinytablestreetsupreme'' @
     ''tiptriptiredsymbolthundertoeundotradetickettriggertoyvisatruthtraveluncover'' @
     ''twowaspvagueunfoldutilityvanwildvividvalleyvibrantwebyardzebravoyageweather'' @
     ''zoo''"

definition word34567 :: "nat \<Rightarrow> nat \<times> nat" where
  "word34567 index = (let m = index mod 5 in ((index div 5) * 25 + m * (m + 5) div 2, m + 3))"

definition nickname_word :: "byte \<Rightarrow> string" where
  "nickname_word b = (let (off, len) = word34567 (unat b) in read_at off len word34567_words)"

definition uuid_to_nickname :: "byte list \<Rightarrow> string" where
  "uuid_to_nickname uuid = nickname_word (uuid ! 0) @ ''-'' @ nickname_word (uuid ! 1)"

definition uuid_to_string_be :: "byte list \<Rightarrow> string" where
  "uuid_to_string_be u =
     bytes_to_hex (read_at 0 4 u) @ ''-'' @ bytes_to_hex (read_at 4 2 u) @ ''-'' @
     bytes_to_hex (read_at 6 2 u) @ ''-'' @ bytes_to_hex (read_at 8 2 u) @ ''-'' @
     bytes_to_hex (read_at 10 6 u)"

text \<open>
  \<open>uuid_fields\<close> lists the tests of \<open>string_to_uuid_me\<close> in the order of the conjunction: a pair of
  hexadecimal digits at a position of the string with the index of the byte it is stored to,
  or (\<open>None\<close>) a hyphen.
\<close>

definition uuid_fields :: "(nat \<times> nat option) list" where
  "uuid_fields =
     [(0, Some 3), (2, Some 2), (4, Some 1), (6, Some 0), (8, None),
      (9, Some 5), (11, Some 4), (13, None),
      (14, Some 7), (16, Some 6), (18, None),
      (19, Some 8), (21, Some 9), (23, None),
      (24, Some 10), (26, Some 11), (28, Some 12), (30, Some 13), (32, Some 14), (34, Some 15)]"

fun uuid_scan :: "(nat \<times> nat option) list \<Rightarrow> string \<Rightarrow> byte list \<Rightarrow> byte list res" where
  "uuid_scan [] s uuid = Inr uuid"
| "uuid_scan ((pos, Some ix) # fs) s uuid =
     bind_res (two_hex_to_byte (drop pos s)) (\<lambda>b. uuid_scan fs s (uuid[ix := b]))"
| "uuid_scan ((pos, None) # fs) s uuid =
     (if char_at s pos = CHR ''-'' then uuid_scan fs s uuid else Inl Quiet)"

definition string_to_uuid_me :: "string \<Rightarrow> byte list res" where
  "string_to_uuid_me s =
     (if length s \<ge> 32 + 4 then uuid_scan uuid_fields s (replicate 16 0) else Inl Quiet)"

definition fwup_uuid :: "byte list" where
  "fwup_uuid = [0x20, 0x53, 0xdf, 0xfb, 0xd5, 0x1e, 0x43, 0x10,
     0xb9, 0x3b, 0x95, 0x6d, 0xa8, 0x9f, 0x9f, 0x34]"

definition calculate_fwup_uuid :: "(byte list \<Rightarrow> byte list) \<Rightarrow> byte list \<Rightarrow> string \<times> string" where
  "calculate_fwup_uuid blake2b data =
     (let hash = blake2b (fwup_uuid @ data);
          hash' = hash[6 := ((hash ! 6) AND 0x0f) OR 0x50]
      in (uuid_to_string_be hash', uuid_to_nickname hash'))"

section \<open>Names of resources in an archive\<close>

definition FWFILE_MAX_ARCHIVE_PATH :: nat where
  "FWFILE_MAX_ARCHIVE_PATH = 512"

definition archive_filename_to_resource :: "string \<Rightarrow> nat \<Rightarrow> string res" where
  "archive_filename_to_resource name maxlength =
     (let result = (if has_prefix ''data/'' name then drop 5 name else ''/'' @ name) in
      if length result \<ge> maxlength then Inl (Msg ''Bad path found in archive'') else Inr result)"

definition resource_name_to_archive_path :: "string \<Rightarrow> string res" where
  "resource_name_to_archive_path n =
     (if length n + 6 > FWFILE_MAX_ARCHIVE_PATH then Inl (Msg ''resource name is too long'')
      else if length n = 0 then Inl (Msg ''resource name can't be empty'')
      else if n ! (length n - 1) = CHR ''/'' then Inl (Msg ''resource name can't end in a slash'')
      else if n ! 0 = CHR ''/'' then
        (if char_at n 1 = nul then Inl (Msg ''resource name can't be the root directory'')
         else if n = ''/meta.conf'' then Inl (Msg ''resources can't be named /meta.conf'')
         else if has_prefix ''/data/'' n \<or> n = ''/data''
           then Inl (Msg ''use a normal resource name rather than specifying /data'')
         else Inr (drop 1 n))
      else Inr (''data/'' @ n))"

section \<open>Units and output\<close>

definition ONE_KB :: int where "ONE_KB = 1000"
definition ONE_MB :: int where "ONE_MB = 1000 * ONE_KB"
definition ONE_GB :: int where "ONE_GB = 1000 * ONE_MB"
definition ONE_TB :: int where "ONE_TB = 1000 * ONE_GB"
definition ONE_KiB :: int where "ONE_KiB = 1024"
definition ONE_MiB :: int where "ONE_MiB = 1024 * ONE_KiB"
definition ONE_GiB :: int where "ONE_GiB = 1024 * ONE_MiB"
definition ONE_TiB :: int where "ONE_TiB = 1024 * ONE_GiB"

definition units_to_string :: "int \<Rightarrow> string" where
  "units_to_string units =
     (if units = 1 then ''bytes''
      else if units = ONE_KiB then ''KiB'' else if units = ONE_MiB then ''MiB''
      else if units = ONE_GiB then ''GiB'' else if units = ONE_TiB then ''TiB''
      else if units = ONE_KB then ''KB'' else if units = ONE_MB then ''MB''
      else if units = ONE_GB then ''GB'' else if units = ONE_TB then ''TB''
      else ''?'')"

definition find_natural_units :: "int \<Rightarrow> int" where
  "find_natural_units amount =
     (if amount \<ge> ONE_TB then ONE_TB else if amount \<ge> ONE_GB then ONE_GB
      else if amount \<ge> ONE_MB then ONE_MB else if amount \<ge> ONE_KB then ONE_KB else 1)"

text \<open>
  The bytes \<open>fwup_output\<close> sends to standard output: with framing, a big-endian length that counts
  the two-byte type, the two-byte code and the text, then these; without it, an escape sequence
  that clears the progress bar, when there is one, and the text.
\<close>

definition to_bigendian32 :: "u32 \<Rightarrow> byte list" where
  "to_bigendian32 v = rev (copy_le32 v)"

definition to_bigendian16 :: "u16 \<Rightarrow> byte list" where
  "to_bigendian16 v = rev (copy_le16 v)"

definition fwup_output :: "bool \<Rightarrow> bool \<Rightarrow> byte list \<Rightarrow> u16 \<Rightarrow> byte list \<Rightarrow> byte list" where
  "fwup_output framing progress_normal type code str =
     (if framing
      then to_bigendian32 (of_nat (length str + 4)) @ take 2 type @ to_bigendian16 code
      else if progress_normal \<and> length str > 0 then [0x0d, 0x1b, 0x5b, 0x4b] else [])
     @ str"

section \<open>Little-endian loads\<close>

text \<open>
  The expression \<open>b[0] | (b[1] << 8) | (b[2] << 16) | (b[3] << 24)\<close> that \<open>read_partition\<close> and
  \<open>uboot_env_decode\<close> write out: it reads back what \<open>copy_le32\<close> stored.
\<close>

definition load_le32 :: "byte list \<Rightarrow> u32" where
  "load_le32 b = ucast (b ! 0) OR push_bit 8 (ucast (b ! 1)) OR push_bit 16 (ucast (b ! 2))
     OR push_bit 24 (ucast (b ! 3))"

definition load_le64 :: "byte list \<Rightarrow> u64" where
  "load_le64 b = ucast (load_le32 (take 4 b)) OR push_bit 32 (ucast (load_le32 (drop 4 b)))"

text \<open>
  The mixed-endian order of a GPT GUID: the first three fields of the printed UUID are reversed.
\<close>

definition me_swap :: "byte list \<Rightarrow> byte list" where
  "me_swap u = [u!3, u!2, u!1, u!0, u!5, u!4, u!7, u!6, u!8, u!9, u!10, u!11, u!12, u!13, u!14, u!15]"

section \<open>Properties\<close>

lemma length_copy_le [simp]:
  "length (copy_le16 a) = 2" "length (copy_le32 b) = 4" "length (copy_le64 c) = 8"
  by (simp_all add: copy_le16_def copy_le32_def copy_le64_def)

lemma hex_loop_length: "hex_loop n s = Inr bs \<Longrightarrow> length bs = n"
  by (induction n s arbitrary: bs rule: hex_loop.induct) (auto simp: res_simps)

lemma load_copy_le32 [simp]: "load_le32 (copy_le32 v) = v"
proof (rule bit_word_eqI)
  fix n assume "n < LENGTH(32)"
  then have "n < 32" by simp
  then consider "n < 8" | "8 \<le> n \<and> n < 16" | "16 \<le> n \<and> n < 24" | "24 \<le> n \<and> n < 32" by linarith
  then show "bit (load_le32 (copy_le32 v)) n = bit v n"
    by cases (auto simp: load_le32_def copy_le32_def mask8 bit_simps)
qed

lemma load_copy_le64 [simp]: "load_le64 (copy_le64 v) = v"
proof -
  have "take 4 (copy_le64 v) = copy_le32 (ucast v)" "drop 4 (copy_le64 v) = copy_le32 (ucast (drop_bit 32 v))"
    by (auto simp: copy_le64_def copy_le32_def mask8 bit_eq_iff bit_simps)
  then have "load_le64 (copy_le64 v) = (ucast (ucast v :: u32) OR push_bit 32 (ucast (ucast (drop_bit 32 v) :: u32)) :: u64)"
    by (simp add: load_le64_def)
  also have "\<dots> = v"
  proof (rule bit_word_eqI)
    fix n assume "n < LENGTH(64)"
    then show "bit (ucast (ucast v :: u32) OR push_bit 32 (ucast (ucast (drop_bit 32 v) :: u32)) :: u64) n = bit v n"
      by (cases "n < 32") (auto simp: bit_simps)
  qed
  finally show ?thesis .
qed

lemma split_nibbles: "push_bit 4 (drop_bit 4 b) OR (b AND 15) = (b :: byte)"
proof (rule bit_word_eqI)
  fix n assume "n < LENGTH(8)"
  then show "bit (push_bit 4 (drop_bit 4 b) OR (b AND 15)) n = bit b n"
    by (auto simp: mask4 bit_simps)
qed

lemma hexchar_nibble: "n < 16 \<Longrightarrow> hexchar_to_int (nibble_to_hexchar n) = n"
proof -
  assume n: "n < 16"
  have "unat n < 16" using n by (simp add: word_less_nat_alt)
  then have "unat n \<in> set [0..<16]" by simp
  moreover have "\<forall>k \<in> set [0..<16]. hexchar_to_int (''0123456789abcdef'' ! k) = of_nat k"
    by code_simp
  ultimately show ?thesis using n by (simp add: nibble_to_hexchar_def)
qed

lemma nibble_bounds: "drop_bit 4 b < (16 :: byte)" "b AND 15 < (16 :: byte)"
proof -
  have "unat (drop_bit 4 b) = unat b div 16" by (simp add: unat_drop_bit_eq drop_bit_nat_def)
  then have "unat (drop_bit 4 b) < 16"
    using unsigned_less [of b, where 'a = nat] by simp
  then show "drop_bit 4 b < (16 :: byte)" by (simp add: word_less_nat_alt)
  have "b AND 15 \<le> (15 :: byte)" by (rule word_and_le1)
  then show "b AND 15 < (16 :: byte)" by (simp add: word_less_nat_alt word_le_nat_alt)
qed
lemma length_bytes_to_hex [simp]: "length (bytes_to_hex bs) = 2 * length bs"
  by (induction bs) auto

lemma two_hex_of_byte:
  "two_hex_to_byte (nibble_to_hexchar (drop_bit 4 b) # nibble_to_hexchar (b AND 15) # s) = Inr b"
proof -
  have ne: "n \<noteq> 255" if "n < (16 :: byte)" for n using that by auto
  show ?thesis
    using ne [OF nibble_bounds(1)] ne [OF nibble_bounds(2)]
    by (simp add: two_hex_to_byte_def char_at_def hexchar_nibble nibble_bounds split_nibbles Let_def)
qed

lemma hex_loop_bytes_to_hex: "hex_loop (length bs) (bytes_to_hex bs @ s) = Inr bs"
  by (induction bs) (auto simp: two_hex_of_byte)

text \<open>
  Parsing the hexadecimal string that \<open>bytes_to_hex\<close> prints gives the bytes back.
\<close>

theorem hex_roundtrip: "hex_to_bytes (bytes_to_hex bs) (length bs) = Inr bs"
  using hex_loop_bytes_to_hex [of bs "[]"] by (simp add: hex_to_bytes_def)

lemma hex_loop_Inr_iff:
  "length s = 2 * n \<Longrightarrow>
   is_ok (hex_loop n s) \<longleftrightarrow> (\<forall>c \<in> set s. hexchar_to_int c \<noteq> 255)"
proof (induction n arbitrary: s)
  case 0
  then show ?case by simp
next
  case (Suc n)
  then obtain a b t where s: "s = a # b # t" and t: "length t = 2 * n"
    by (cases s; cases "tl s") auto
  show ?case
    using Suc.IH [OF t]
    by (auto simp: s two_hex_to_byte_def char_at_def Let_def bind_res_def is_ok_def split: sum.splits)
qed

text \<open>
  \<open>hex_to_bytes\<close> succeeds exactly on strings of the requested length whose characters are
  all hexadecimal digits (upper or lower case).
\<close>

theorem hex_to_bytes_ok_iff:
  "is_ok (hex_to_bytes s n) \<longleftrightarrow> length s = 2 * n \<and> list_all (\<lambda>c. hexchar_to_int c \<noteq> 255) s"
  using hex_loop_Inr_iff [of s n] by (auto simp: hex_to_bytes_def mult.commute list_all_iff)

lemma archive_path_inverse:
  assumes "resource_name_to_archive_path n = Inr p"
  shows "archive_filename_to_resource p FWFILE_MAX_ARCHIVE_PATH = Inr n"
proof (cases "n ! 0 = CHR ''/''")
  case True
  then have p: "p = drop 1 n" and l: "length n + 6 \<le> 512" "n \<noteq> []"
    and nd: "\<not> has_prefix ''/data/'' n"
    using assms by (auto simp: resource_name_to_archive_path_def FWFILE_MAX_ARCHIVE_PATH_def split: if_splits)
  then have n: "n = CHR ''/'' # p" using True by (cases n) auto
  then have "\<not> has_prefix ''data/'' p" using nd by (auto simp: has_prefix_def)
  then show ?thesis using n l
    by (simp add: archive_filename_to_resource_def FWFILE_MAX_ARCHIVE_PATH_def)
next
  case False
  then have p: "p = ''data/'' @ n" and l: "length n + 6 \<le> 512" "n \<noteq> []"
    using assms by (auto simp: resource_name_to_archive_path_def FWFILE_MAX_ARCHIVE_PATH_def split: if_splits)
  then show ?thesis
    by (simp add: archive_filename_to_resource_def FWFILE_MAX_ARCHIVE_PATH_def has_prefix_def)
qed

text \<open>
  A resource name that \<open>resource_name_to_archive_path\<close> accepts when the archive is created
  is the name that \<open>archive_filename_to_resource\<close> computes when the archive is applied.
\<close>

theorem archive_path_roundtrip:
  assumes "resource_name_to_archive_path n = Inr p"
  shows "archive_filename_to_resource p FWFILE_MAX_ARCHIVE_PATH = Inr n"
  by (rule archive_path_inverse [OF assms])

theorem archive_path_roundtrip_witness:
  "archive_filename_to_resource ''data/rootfs.img'' FWFILE_MAX_ARCHIVE_PATH = Inr ''rootfs.img''"
  by (rule archive_path_roundtrip) (simp add: resource_name_to_archive_path_def FWFILE_MAX_ARCHIVE_PATH_def)

lemma length_words: "length word34567_words = 1278"
  by (simp add: word34567_words_def)

lemma word34567_range:
  "let (off, len) = word34567 (unat (b :: byte)) in
     3 \<le> len \<and> len \<le> 7 \<and> off + len \<le> length word34567_words"
proof -
  define i where "i = unat b"
  have i: "i < 256" using unsigned_less [of b, where 'a = nat] by (simp add: i_def)
  have "i mod 5 \<in> {0, 1, 2, 3, 4}" by auto
  moreover have "i div 5 < 51 \<or> (i div 5 = 51 \<and> i mod 5 = 0)" using i by presburger
  ultimately show ?thesis
    unfolding i_def [symmetric] by (auto simp: word34567_def length_words Let_def)
qed

lemma length_nickname_word: "length (nickname_word b) \<le> 7"
  using word34567_range [of b] by (auto simp: nickname_word_def read_at_def Let_def split: prod.splits)

text \<open>
  Every byte of a UUID selects a word that lies inside the word list, of three to seven
  letters, and the nickname with its terminator fits the 16 byte buffer.
\<close>

theorem nickname_in_bounds:
  "(let (off, len) = word34567 (unat (b :: byte)) in
      3 \<le> len \<and> len \<le> 7 \<and> off + len \<le> length word34567_words)
   \<and> length (uuid_to_nickname uuid) + 1 \<le> 16"
  using word34567_range [of b] length_nickname_word [of "uuid ! 0"] length_nickname_word [of "uuid ! 1"]
  by (simp add: uuid_to_nickname_def)

lemma string_to_uuid_me_be:
  assumes "length u = 16"
  shows "string_to_uuid_me (uuid_to_string_be u) = Inr (me_swap u)"
proof -
  obtain a0 a1 a2 a3 a4 a5 a6 a7 a8 a9 a10 a11 a12 a13 a14 a15 where
    u: "u = [a0, a1, a2, a3, a4, a5, a6, a7, a8, a9, a10, a11, a12, a13, a14, a15]"
    using assms by (auto simp: numeral_eq_Suc length_Suc_conv)
  have r: "replicate 16 (0 :: byte) = [0, 0, 0, 0, 0, 0, 0, 0, 0, 0, 0, 0, 0, 0, 0, 0]"
    by (simp add: numeral_eq_Suc)
  show ?thesis
    by (simp add: u string_to_uuid_me_def uuid_to_string_be_def uuid_fields_def read_at_def
        two_hex_of_byte me_swap_def char_at_def r)
qed

text \<open>
  Parsing a printed UUID in mixed-endian form gives its bytes with the first three fields
  reversed.
\<close>

theorem uuid_roundtrip:
  assumes "length u = 16"
  shows "string_to_uuid_me (uuid_to_string_be u) = Inr (me_swap u)"
  using assms by (rule string_to_uuid_me_be)

theorem uuid_roundtrip_witness:
  "string_to_uuid_me (uuid_to_string_be fwup_uuid) = Inr (me_swap fwup_uuid)"
  by (rule uuid_roundtrip) (simp add: fwup_uuid_def)

end
