(* ===== verification/Crc32.thy ===== *)
theory Crc32
  imports Util
begin

text \<open>
  \<open>src/src/crc32.c\<close>: the table-driven CRC-32 that the GPT headers and the U-Boot environment use.
  The comment in the source says that the table holds the results of eight shift/xor operations
  of the feedback shift register, and that working on eight-bit chunks is an optimisation of it.
  \<open>crc_shift\<close> is one step of the register for the polynomial named in the source,
  \<open>crc_reference\<close> the bit-by-bit checksum, and the table-driven \<open>crc32buf\<close> is shown equal to it.
\<close>

definition crc_32_tab :: "u32 list" where
  "crc_32_tab =
     [0x00000000, 0x77073096, 0xee0e612c, 0x990951ba, 0x076dc419, 0x706af48f, 0xe963a535,
      0x9e6495a3, 0x0edb8832, 0x79dcb8a4, 0xe0d5e91e, 0x97d2d988, 0x09b64c2b, 0x7eb17cbd,
      0xe7b82d07, 0x90bf1d91, 0x1db71064, 0x6ab020f2, 0xf3b97148, 0x84be41de, 0x1adad47d,
      0x6ddde4eb, 0xf4d4b551, 0x83d385c7, 0x136c9856, 0x646ba8c0, 0xfd62f97a, 0x8a65c9ec,
      0x14015c4f, 0x63066cd9, 0xfa0f3d63, 0x8d080df5, 0x3b6e20c8, 0x4c69105e, 0xd56041e4,
      0xa2677172, 0x3c03e4d1, 0x4b04d447, 0xd20d85fd, 0xa50ab56b, 0x35b5a8fa, 0x42b2986c,
      0xdbbbc9d6, 0xacbcf940, 0x32d86ce3, 0x45df5c75, 0xdcd60dcf, 0xabd13d59, 0x26d930ac,
      0x51de003a, 0xc8d75180, 0xbfd06116, 0x21b4f4b5, 0x56b3c423, 0xcfba9599, 0xb8bda50f,
      0x2802b89e, 0x5f058808, 0xc60cd9b2, 0xb10be924, 0x2f6f7c87, 0x58684c11, 0xc1611dab,
      0xb6662d3d, 0x76dc4190, 0x01db7106, 0x98d220bc, 0xefd5102a, 0x71b18589, 0x06b6b51f,
      0x9fbfe4a5, 0xe8b8d433, 0x7807c9a2, 0x0f00f934, 0x9609a88e, 0xe10e9818, 0x7f6a0dbb,
      0x086d3d2d, 0x91646c97, 0xe6635c01, 0x6b6b51f4, 0x1c6c6162, 0x856530d8, 0xf262004e,
      0x6c0695ed, 0x1b01a57b, 0x8208f4c1, 0xf50fc457, 0x65b0d9c6, 0x12b7e950, 0x8bbeb8ea,
      0xfcb9887c, 0x62dd1ddf, 0x15da2d49, 0x8cd37cf3, 0xfbd44c65, 0x4db26158, 0x3ab551ce,
      0xa3bc0074, 0xd4bb30e2, 0x4adfa541, 0x3dd895d7, 0xa4d1c46d, 0xd3d6f4fb, 0x4369e96a,
      0x346ed9fc, 0xad678846, 0xda60b8d0, 0x44042d73, 0x33031de5, 0xaa0a4c5f, 0xdd0d7cc9,
      0x5005713c, 0x270241aa, 0xbe0b1010, 0xc90c2086, 0x5768b525, 0x206f85b3, 0xb966d409,
      0xce61e49f, 0x5edef90e, 0x29d9c998, 0xb0d09822, 0xc7d7a8b4, 0x59b33d17, 0x2eb40d81,
      0xb7bd5c3b, 0xc0ba6cad, 0xedb88320, 0x9abfb3b6, 0x03b6e20c, 0x74b1d29a, 0xead54739,
      0x9dd277af, 0x04db2615, 0x73dc1683, 0xe3630b12, 0x94643b84, 0x0d6d6a3e, 0x7a6a5aa8,
      0xe40ecf0b, 0x9309ff9d, 0x0a00ae27, 0x7d079eb1, 0xf00f9344, 0x8708a3d2, 0x1e01f268,
      0x6906c2fe, 0xf762575d, 0x806567cb, 0x196c3671, 0x6e6b06e7, 0xfed41b76, 0x89d32be0,
      0x10da7a5a, 0x67dd4acc, 0xf9b9df6f, 0x8ebeeff9, 0x17b7be43, 0x60b08ed5, 0xd6d6a3e8,
      0xa1d1937e, 0x38d8c2c4, 0x4fdff252, 0xd1bb67f1, 0xa6bc5767, 0x3fb506dd, 0x48b2364b,
      0xd80d2bda, 0xaf0a1b4c, 0x36034af6, 0x41047a60, 0xdf60efc3, 0xa867df55, 0x316e8eef,
      0x4669be79, 0xcb61b38c, 0xbc66831a, 0x256fd2a0, 0x5268e236, 0xcc0c7795, 0xbb0b4703,
      0x220216b9, 0x5505262f, 0xc5ba3bbe, 0xb2bd0b28, 0x2bb45a92, 0x5cb36a04, 0xc2d7ffa7,
      0xb5d0cf31, 0x2cd99e8b, 0x5bdeae1d, 0x9b64c2b0, 0xec63f226, 0x756aa39c, 0x026d930a,
      0x9c0906a9, 0xeb0e363f, 0x72076785, 0x05005713, 0x95bf4a82, 0xe2b87a14, 0x7bb12bae,
      0x0cb61b38, 0x92d28e9b, 0xe5d5be0d, 0x7cdcefb7, 0x0bdbdf21, 0x86d3d2d4, 0xf1d4e242,
      0x68ddb3f8, 0x1fda836e, 0x81be16cd, 0xf6b9265b, 0x6fb077e1, 0x18b74777, 0x88085ae6,
      0xff0f6a70, 0x66063bca, 0x11010b5c, 0x8f659eff, 0xf862ae69, 0x616bffd3, 0x166ccf45,
      0xa00ae278, 0xd70dd2ee, 0x4e048354, 0x3903b3c2, 0xa7672661, 0xd06016f7, 0x4969474d,
      0x3e6e77db, 0xaed16a4a, 0xd9d65adc, 0x40df0b66, 0x37d83bf0, 0xa9bcae53, 0xdebb9ec5,
      0x47b2cf7f, 0x30b5ffe9, 0xbdbdf21c, 0xcabac28a, 0x53b39330, 0x24b4a3a6, 0xbad03605,
      0xcdd70693, 0x54de5729, 0x23d967bf, 0xb3667a2e, 0xc4614ab8, 0x5d681b02, 0x2a6f2b94,
      0xb40bbe37, 0xc30c8ea1, 0x5a05df1b, 0x2d02ef8d]"

definition UPDC32 :: "byte \<Rightarrow> u32 \<Rightarrow> u32" where
  "UPDC32 octet crc = crc_32_tab ! unat ((crc XOR ucast octet) AND 255) XOR drop_bit 8 crc"

fun crc32_loop :: "u32 \<Rightarrow> byte list \<Rightarrow> u32" where
  "crc32_loop crc [] = crc"
| "crc32_loop crc (b # bs) = crc32_loop (UPDC32 b crc) bs"

definition crc32buf :: "byte list \<Rightarrow> u32" where
  "crc32buf buf = NOT (crc32_loop 0xFFFFFFFF buf)"

section \<open>The reference: a feedback shift register\<close>

definition crc_shift :: "u32 \<Rightarrow> u32" where
  "crc_shift c = (if bit c 0 then drop_bit 1 c XOR 0xedb88320 else drop_bit 1 c)"

definition crc_octet :: "byte \<Rightarrow> u32 \<Rightarrow> u32" where
  "crc_octet octet crc = (crc_shift ^^ 8) (crc XOR ucast octet)"

definition crc_reference :: "byte list \<Rightarrow> u32" where
  "crc_reference buf = NOT (fold crc_octet buf 0xFFFFFFFF)"

text \<open>One doubling step of the table: entries for the next power of two.\<close>

definition crc_double :: "u32 \<Rightarrow> u32 list \<Rightarrow> u32 list" where
  "crc_double t xs = xs @ map (\<lambda>x. t XOR x) xs"

section \<open>The table and the checksum\<close>

lemma crc_shift_xor: "crc_shift (a XOR b) = crc_shift a XOR crc_shift b"
  by (auto simp: crc_shift_def bit_simps drop_bit_xor ac_simps)

lemma crc_shift_pow_xor: "(crc_shift ^^ n) (a XOR b) = (crc_shift ^^ n) a XOR (crc_shift ^^ n) b"
  by (induction n) (simp_all add: crc_shift_xor)

lemma crc_shift_pow_high:
  "(\<forall>i < n. \<not> bit c i) \<Longrightarrow> (crc_shift ^^ n) c = drop_bit n c"
proof (induction n)
  case 0
  then show ?case by simp
next
  case (Suc n)
  then have "(crc_shift ^^ n) c = drop_bit n c" by simp
  moreover have "\<not> bit (drop_bit n c) 0" using Suc.prems by (simp add: bit_drop_bit_eq)
  ultimately show ?case by (simp add: crc_shift_def [of "drop_bit n c"])
qed

lemma crc_table_doubling:
  "crc_32_tab = fold crc_double
     [0x77073096, 0xee0e612c, 0x076dc419, 0x0edb8832, 0x1db71064, 0x3b6e20c8, 0x76dc4190, 0xedb88320]
     [0]"
  by (simp add: crc_32_tab_def crc_double_def)

lemma of_nat_exp_add:
  assumes "j < 2 ^ m" and "m < 32"
  shows "(of_nat (2 ^ m + j) :: u32) = of_nat (2 ^ m) XOR of_nat j"
proof -
  have nb: "\<not> bit j m" using assms(1)
    by (metis bit_take_bit_iff less_irrefl_nat take_bit_nat_eq_self)
  have "(of_nat (2 ^ m) :: u32) AND of_nat j = 0"
  proof (rule bit_word_eqI)
    fix n assume "n < LENGTH(32)"
    then show "bit ((of_nat (2 ^ m) :: u32) AND of_nat j) n = bit (0 :: u32) n"
      using nb by (auto simp: bit_simps bit_exp_iff)
  qed
  then show ?thesis by (simp add: disjunctive_add_eq_xor)
qed

lemma doubling_table:
  fixes F :: "u32 \<Rightarrow> u32"
  assumes lin: "\<And>a b. F (a XOR b) = F a XOR F b"
  shows "n \<le> 32 \<Longrightarrow> fold crc_double (map (\<lambda>m. F (of_nat (2 ^ m))) [0..<n]) [F 0] =
    map (\<lambda>k. F (of_nat k)) [0..<2 ^ n]"
proof (induction n)
  case 0
  show ?case by simp
next
  case (Suc n)
  let ?T = "map (\<lambda>k. F (of_nat k)) [0..<2 ^ n]"
  have IH: "fold crc_double (map (\<lambda>m. F (of_nat (2 ^ m))) [0..<n]) [F 0] = ?T"
    using Suc by simp
  have upper: "map (\<lambda>x. F (of_nat (2 ^ n)) XOR x) ?T = map (\<lambda>k. F (of_nat k)) [2 ^ n..<2 ^ Suc n]"
    using Suc.prems
    by (intro nth_equalityI) (auto simp: of_nat_exp_add lin simp del: of_nat_add of_nat_power)
  have "[0..<2 ^ Suc n] = [0..<2 ^ n] @ [2 ^ n..<2 ^ Suc n]"
    using upt_add_eq_append [of 0 "2 ^ n" "2 ^ n"] by (simp add: mult_2)
  then show ?case using IH upper by (simp add: crc_double_def [of "F (2 ^ n)"])
qed

lemma crc_seeds:
  "map (\<lambda>m. (crc_shift ^^ 8) (of_nat (2 ^ m))) [0..<8] =
     [0x77073096, 0xee0e612c, 0x076dc419, 0x0edb8832, 0x1db71064, 0x3b6e20c8, 0x76dc4190, 0xedb88320]"
  by code_simp

lemma crc_table: "crc_32_tab = map (\<lambda>k. (crc_shift ^^ 8) (of_nat k)) [0..<256]"
proof -
  have z: "(crc_shift ^^ 8) 0 = 0" by code_simp
  show ?thesis
    using doubling_table [of "crc_shift ^^ 8" 8]
    by (simp only: crc_shift_pow_xor crc_seeds z crc_table_doubling) simp
qed

lemma crc_table_nth:
  assumes "i < (256 :: u32)"
  shows "crc_32_tab ! unat i = (crc_shift ^^ 8) i"
proof -
  have "unat i < 256" using assms by (simp add: word_less_nat_alt)
  then show ?thesis by (simp add: crc_table)
qed

lemma UPDC32_crc_octet: "UPDC32 b crc = crc_octet b crc"
proof -
  define c where "c = crc XOR (ucast b :: u32)"
  have lt: "c AND 255 < 256"
    using word_and_le1 [of c 255] by (simp add: word_less_nat_alt word_le_nat_alt)
  have split: "c = (c AND 255) XOR (c AND NOT 255)"
    by (rule bit_word_eqI) (auto simp: bit_simps)
  have high: "(crc_shift ^^ 8) (c AND NOT 255) = drop_bit 8 (c AND NOT 255)"
    by (rule crc_shift_pow_high) (auto simp: mask8 bit_simps)
  have dr: "drop_bit 8 (c AND NOT 255) = drop_bit 8 crc"
    by (rule bit_word_eqI) (auto simp: c_def mask8 bit_simps dest: bit_imp_le_length)
  have "crc_octet b crc = (crc_shift ^^ 8) c" by (simp add: crc_octet_def c_def)
  also have "\<dots> = (crc_shift ^^ 8) ((c AND 255) XOR (c AND NOT 255))" using split by metis
  also have "\<dots> = crc_32_tab ! unat (c AND 255) XOR drop_bit 8 crc"
    by (simp only: crc_shift_pow_xor high dr crc_table_nth [OF lt])
  finally show ?thesis by (simp add: UPDC32_def c_def)
qed

text \<open>
  C39: the table-driven CRC-32 equals the bit-by-bit feedback shift register on every buffer.
\<close>

theorem crc32buf_reference: "crc32buf buf = crc_reference buf"
proof -
  have "crc32_loop c bs = fold crc_octet bs c" for c bs
    by (induction bs arbitrary: c) (simp_all add: UPDC32_crc_octet)
  then show ?thesis by (simp add: crc32buf_def crc_reference_def)
qed

text \<open>The standard check value of this CRC, of the digits 1 to 9.\<close>

lemma crc32_check: "crc32buf [0x31, 0x32, 0x33, 0x34, 0x35, 0x36, 0x37, 0x38, 0x39] = 0xCBF43926"
  by code_simp

end
