(* ===== verification/Eval_Math.thy ===== *)
theory Eval_Math
  imports Util
begin

text \<open>
  \<open>src/src/eval_math.c\<close>: the expression evaluator behind \<open>define-eval\<close>, a shunting-yard machine
  with a stack of at most 16 arguments and a stack of at most 16 operators. Both stacks are
  lists with their top at the head; \<open>next_arg\<close> and \<open>next_op\<close> are their lengths. The function
  pointer \<open>parse\<close> is a value of \<open>parser\<close>, the function pointer of an operator token a value of
  \<open>op_fun\<close>. Signed overflow of \<open>int64_t\<close> is undefined behaviour in C and so is a write past
  the operator array, which \<open>push_operator\<close> does not exclude.
\<close>

definition EVAL_STACK_SIZE :: nat where
  "EVAL_STACK_SIZE = 16"

datatype associativity = ASSOC_LEFT | ASSOC_RIGHT

datatype op_fun = do_add | do_subtract | do_multiply | do_divide | do_unary_minus | do_power
  | LEFT_PAREN

record operator_token =
  token_fun :: op_fun
  prec :: nat

datatype parser = parse_whitespace_before_number_state | parse_number_state | parse_operator_state

record eval_state =
  parse :: parser
  str :: string
  args :: "int list"
  operator_stack :: "operator_token list"

definition trunc_div :: "int \<Rightarrow> int \<Rightarrow> int" where
  "trunc_div a b = sgn a * sgn b * (\<bar>a\<bar> div \<bar>b\<bar>)"

section \<open>Operators\<close>

fun power_loop :: "int \<Rightarrow> nat \<Rightarrow> int \<Rightarrow> int res" where
  "power_loop base 0 result = Inr result"
| "power_loop base (Suc exponent) result =
     bind_res (int64 (result * base)) (power_loop base exponent)"

definition binary_op :: "op_fun \<Rightarrow> int \<Rightarrow> int \<Rightarrow> int res" where
  "binary_op f a b =
     (case f of
        do_add \<Rightarrow> int64 (a + b)
      | do_subtract \<Rightarrow> int64 (a - b)
      | do_multiply \<Rightarrow> int64 (a * b)
      | do_divide \<Rightarrow> if b = 0 then Inl (Msg ''div by 0'') else int64 (trunc_div a b)
      | do_power \<Rightarrow> if b < 0 \<or> b > 63 then Inl (Msg ''exponents out of range'')
          else power_loop a (nat b) 1
      | _ \<Rightarrow> Inl Quiet)"

definition run_op :: "op_fun \<Rightarrow> int list \<Rightarrow> int list res" where
  "run_op f as =
     (if f = do_unary_minus then
        (case as of a # rest \<Rightarrow> bind_res (int64 (- a)) (\<lambda>v. Inr (v # rest)) | [] \<Rightarrow> Inl Quiet)
      else
        (case as of b # a # rest \<Rightarrow> bind_res (binary_op f a b) (\<lambda>v. Inr (v # rest))
         | _ \<Rightarrow> Inl Quiet))"

definition pop_operator :: "eval_state \<Rightarrow> eval_state res" where
  "pop_operator s =
     (case operator_stack s of
        [] \<Rightarrow> Inl Quiet
      | tok # rest \<Rightarrow>
          if token_fun tok = LEFT_PAREN then Inl (Msg ''extra left paren'')
          else bind_res (run_op (token_fun tok) (args s))
            (\<lambda>as. Inr (s\<lparr>args := as, operator_stack := rest\<rparr>)))"

lemma pop_operator_stack:
  "pop_operator s = Inr s' \<Longrightarrow> length (operator_stack s') < length (operator_stack s)"
  by (auto simp: pop_operator_def bind_res_eq_Inr split: list.splits if_splits)

function handle_right_paren :: "eval_state \<Rightarrow> eval_state res" where
  "handle_right_paren s =
     (case operator_stack s of
        [] \<Rightarrow> Inl (Msg ''extra right paren'')
      | tok # rest \<Rightarrow>
          if token_fun tok = LEFT_PAREN then Inr (s\<lparr>operator_stack := rest\<rparr>)
          else (case pop_operator s of Inl e \<Rightarrow> Inl e | Inr s' \<Rightarrow> handle_right_paren s'))"
  by pat_completeness auto
termination
  by (relation "measure (\<lambda>s. length (operator_stack s))") (auto dest: pop_operator_stack)

definition handle_left_paren :: "eval_state \<Rightarrow> eval_state res" where
  "handle_left_paren s =
     (if length (operator_stack s) \<ge> EVAL_STACK_SIZE then Inl (Msg ''too many ops'')
      else Inr (s\<lparr>operator_stack := \<lparr>token_fun = LEFT_PAREN, prec = 1\<rparr> # operator_stack s\<rparr>))"

definition binds_tighter :: "associativity \<Rightarrow> nat \<Rightarrow> operator_token \<Rightarrow> bool" where
  "binds_tighter assoc precedence tok =
     ((assoc = ASSOC_LEFT \<and> precedence > prec tok) \<or>
      (assoc = ASSOC_RIGHT \<and> precedence \<ge> prec tok))"

function pop_higher :: "associativity \<Rightarrow> nat \<Rightarrow> eval_state \<Rightarrow> eval_state res" where
  "pop_higher assoc precedence s =
     (case operator_stack s of
        [] \<Rightarrow> Inr s
      | tok # rest \<Rightarrow>
          if binds_tighter assoc precedence tok then Inr s
          else (case pop_operator s of Inl e \<Rightarrow> Inl e
                | Inr s' \<Rightarrow> pop_higher assoc precedence s'))"
  by pat_completeness auto
termination
  by (relation "measure (\<lambda>(a, p, s). length (operator_stack s))") (auto dest: pop_operator_stack)

definition push_operator :: "op_fun \<Rightarrow> associativity \<Rightarrow> nat \<Rightarrow> eval_state \<Rightarrow> eval_state res" where
  "push_operator f assoc precedence s =
     bind_res (pop_higher assoc precedence s)
       (\<lambda>s'. if length (operator_stack s') \<ge> EVAL_STACK_SIZE
              then Inl (Undefined ''write past operator_stack'')
              else Inr (s'\<lparr>operator_stack :=
                     \<lparr>token_fun = f, prec = precedence\<rparr> # operator_stack s'\<rparr>))"

definition handle_suffix :: "int \<Rightarrow> eval_state \<Rightarrow> eval_state res" where
  "handle_suffix multiplier s =
     (case args s of
        [] \<Rightarrow> Inl Quiet
      | a # rest \<Rightarrow> bind_res (int64 (a * multiplier)) (\<lambda>v. Inr (s\<lparr>args := v # rest\<rparr>)))"

section \<open>Parsing\<close>

definition blank :: "char \<Rightarrow> bool" where
  "blank c = (c = CHR '' '' \<or> c = CHR 0x09 \<or> c = CHR 0x0D \<or> c = CHR 0x0A)"

definition parse_number :: "eval_state \<Rightarrow> eval_state res" where
  "parse_number s =
     (let (result, endptr, _) = strtoll (str s) in
      if endptr = str s then Inl (Msg ''parse error'')
      else if length (args s) \<ge> EVAL_STACK_SIZE then Inl (Msg ''argument overflow'')
      else Inr (s\<lparr>args := result # args s, parse := parse_operator_state, str := endptr\<rparr>))"

definition parse_whitespace_before_number :: "eval_state \<Rightarrow> eval_state res" where
  "parse_whitespace_before_number s =
     (let c = char_at (str s) 0; advance = (\<lambda>s'. Inr (s'\<lparr>str := drop 1 (str s')\<rparr>)) in
      if blank c then advance s
      else if c = CHR ''('' then bind_res (handle_left_paren s) advance
      else if c = CHR '')'' then bind_res (handle_right_paren s) advance
      else if c = CHR ''-'' then bind_res (push_operator do_unary_minus ASSOC_RIGHT 4 s) advance
      else parse_number (s\<lparr>parse := parse_number_state\<rparr>))"

definition parse_operator :: "eval_state \<Rightarrow> eval_state res" where
  "parse_operator s =
     (let c = char_at (str s) 0; b = (char_at (str s) 1 = CHR ''B'');
          advance = (\<lambda>n s'. Inr (s'\<lparr>str := drop n (str s')\<rparr>));
          operand = (\<lambda>s'. Inr (s'\<lparr>parse := parse_whitespace_before_number_state,
                                  str := drop 1 (str s')\<rparr>)) in
      if blank c then advance 1 s
      else if c = CHR ''+'' then bind_res (push_operator do_add ASSOC_LEFT 2 s) operand
      else if c = CHR ''-'' then bind_res (push_operator do_subtract ASSOC_LEFT 2 s) operand
      else if c = CHR ''*'' then bind_res (push_operator do_multiply ASSOC_LEFT 3 s) operand
      else if c = CHR ''/'' then bind_res (push_operator do_divide ASSOC_LEFT 3 s) operand
      else if c = CHR ''^'' then bind_res (push_operator do_power ASSOC_RIGHT 4 s) operand
      else if c = CHR ''('' then bind_res (handle_left_paren s) (advance 1)
      else if c = CHR '')'' then bind_res (handle_right_paren s) (advance 1)
      else if c = CHR ''c'' then bind_res (handle_suffix 1 s) (advance 1)
      else if c = CHR ''w'' then bind_res (handle_suffix 2 s) (advance 1)
      else if c = CHR ''b'' then bind_res (handle_suffix 512 s) (advance 1)
      else if c = CHR ''k'' then
        (if b then bind_res (handle_suffix 1000 s) (advance 2) else Inl Quiet)
      else if c = CHR ''K'' then bind_res (handle_suffix 1024 s) (advance 1)
      else if c = CHR ''M'' then
        (if b then bind_res (handle_suffix (1000 * 1000) s) (advance 2)
         else bind_res (handle_suffix (1024 * 1024) s) (advance 1))
      else if c = CHR ''G'' then
        (if b then bind_res (handle_suffix (1000 * 1000 * 1000) s) (advance 2)
         else bind_res (handle_suffix (1024 * 1024 * 1024) s) (advance 1))
      else Inl (Msg ''invalid character''))"

definition parse_step :: "eval_state \<Rightarrow> eval_state res" where
  "parse_step s =
     (case parse s of
        parse_whitespace_before_number_state \<Rightarrow> parse_whitespace_before_number s
      | parse_number_state \<Rightarrow> parse_number s
      | parse_operator_state \<Rightarrow> parse_operator s)"

declare handle_right_paren.simps [simp del] pop_higher.simps [simp del]

text \<open>Every successful step consumes at least one character, so the parse loop ends.\<close>

lemma pop_operator_str: "pop_operator s = Inr s' \<Longrightarrow> str s' = str s"
  by (auto simp: pop_operator_def bind_res_eq_Inr split: list.splits if_splits)

lemma handle_right_paren_str: "handle_right_paren s = Inr s' \<Longrightarrow> str s' = str s"
proof (induction s rule: handle_right_paren.induct)
  case (1 s)
  then show ?case
    by (auto simp: handle_right_paren.simps [of s] split: list.splits if_splits sum.splits
        dest: pop_operator_str)
qed

lemma pop_higher_str: "pop_higher a p s = Inr s' \<Longrightarrow> str s' = str s"
proof (induction a p s rule: pop_higher.induct)
  case (1 a p s)
  then show ?case
    by (auto simp: pop_higher.simps [of a p s] split: list.splits if_splits sum.splits
        dest: pop_operator_str)
qed

lemma push_operator_str: "push_operator f a p s = Inr s' \<Longrightarrow> str s' = str s"
  by (auto simp: push_operator_def bind_res_eq_Inr split: if_splits dest: pop_higher_str)

lemma handle_left_paren_str: "handle_left_paren s = Inr s' \<Longrightarrow> str s' = str s"
  by (auto simp: handle_left_paren_def split: if_splits)

lemma handle_suffix_str: "handle_suffix m s = Inr s' \<Longrightarrow> str s' = str s"
  by (auto simp: handle_suffix_def bind_res_eq_Inr split: list.splits)

lemmas stack_ops_str = handle_right_paren_str push_operator_str handle_left_paren_str
  handle_suffix_str

lemma parse_number_consumes:
  "parse_number s = Inr s' \<Longrightarrow> length (str s') < length (str s)"
  using strtoll_progress [of "str s"]
  by (auto simp: parse_number_def Let_def split: prod.splits if_splits)

lemma parse_step_consumes:
  assumes "parse_step s = Inr s'" and "str s \<noteq> []"
  shows "length (str s') < length (str s)"
proof -
  have ws: "length (str u) < length (str s)" if "parse_whitespace_before_number s = Inr u" for u
    using that assms(2)
    by (auto simp: parse_whitespace_before_number_def Let_def bind_res_eq_Inr
        split: if_splits dest!: stack_ops_str dest: parse_number_consumes)
  have op: "length (str u) < length (str s)" if "parse_operator s = Inr u" for u
    using that assms(2)
    by (auto simp: parse_operator_def Let_def bind_res_eq_Inr split: if_splits dest!: stack_ops_str)
  show ?thesis
    using assms(1) ws op parse_number_consumes by (auto simp: parse_step_def split: parser.splits)
qed

function parse_loop :: "eval_state \<Rightarrow> eval_state res" where
  "parse_loop s =
     (if str s = [] then Inr s
      else (case parse_step s of Inl e \<Rightarrow> Inl e | Inr s' \<Rightarrow> parse_loop s'))"
  by pat_completeness auto
termination
  by (relation "measure (\<lambda>s. length (str s))") (auto dest: parse_step_consumes)

function pop_all :: "eval_state \<Rightarrow> eval_state res" where
  "pop_all s =
     (if operator_stack s = [] then Inr s
      else (case pop_operator s of Inl e \<Rightarrow> Inl e | Inr s' \<Rightarrow> pop_all s'))"
  by pat_completeness auto
termination
  by (relation "measure (\<lambda>s. length (operator_stack s))") (auto dest: pop_operator_stack)

declare parse_loop.simps [simp del] pop_all.simps [simp del]

definition eval_math :: "string \<Rightarrow> int res" where
  "eval_math s =
     bind_res (parse_loop \<lparr>parse = parse_whitespace_before_number_state, str = s,
                 args = [], operator_stack = []\<rparr>)
       (\<lambda>st. bind_res (pop_all st)
          (\<lambda>st'. case args st' of [v] \<Rightarrow> Inr v | _ \<Rightarrow> Inl (Msg ''eval error'')))"

definition eval_math_str :: "string \<Rightarrow> nat \<Rightarrow> string res" where
  "eval_math_str s result_str_len =
     bind_res (eval_math s)
       (\<lambda>v. if length (show_int v) \<ge> result_str_len then Inl Quiet else Inr (show_int v))"

section \<open>The specification: values of fully parenthesised expressions\<close>

text \<open>
  \<open>expr_value\<close> is the value of an expression by recursion on its structure, with the same
  operators and failures; \<open>fits a p e\<close> says that the 16 entry stacks suffice for \<open>e\<close> when they
  already hold \<open>a\<close> arguments and \<open>p\<close> operators, and that its literals fit an \<open>int64_t\<close>.
\<close>

datatype binop = Plus | Minus | Times | Divide | Power

fun binop_fun :: "binop \<Rightarrow> op_fun" where
  "binop_fun Plus = do_add" | "binop_fun Minus = do_subtract" | "binop_fun Times = do_multiply"
| "binop_fun Divide = do_divide" | "binop_fun Power = do_power"

fun binop_char :: "binop \<Rightarrow> char" where
  "binop_char Plus = CHR ''+''" | "binop_char Minus = CHR ''-''" | "binop_char Times = CHR ''*''"
| "binop_char Divide = CHR ''/''" | "binop_char Power = CHR ''^''"

datatype expr = Num nat | Bin binop expr expr

fun show_expr :: "expr \<Rightarrow> string" where
  "show_expr (Num n) = show_nat n"
| "show_expr (Bin b l r) = ''('' @ show_expr l @ [binop_char b] @ show_expr r @ '')''"

fun expr_value :: "expr \<Rightarrow> int res" where
  "expr_value (Num n) = Inr (int n)"
| "expr_value (Bin b l r) =
     bind_res (expr_value l) (\<lambda>x. bind_res (expr_value r) (\<lambda>y. binary_op (binop_fun b) x y))"

fun fits :: "nat \<Rightarrow> nat \<Rightarrow> expr \<Rightarrow> bool" where
  "fits a p (Num n) = (a < 16 \<and> n < 2 ^ 63)"
| "fits a p (Bin b l r) = (p < 15 \<and> fits a (p + 1) l \<and> fits (a + 1) (p + 2) r)"

text \<open>The states before an operand and after one, and the tokens on the operator stack.\<close>

definition at_operand :: "string \<Rightarrow> int list \<Rightarrow> operator_token list \<Rightarrow> eval_state" where
  "at_operand t as ops = \<lparr>parse = parse_whitespace_before_number_state, str = t, args = as,
     operator_stack = ops\<rparr>"

definition at_operator :: "string \<Rightarrow> int list \<Rightarrow> operator_token list \<Rightarrow> eval_state" where
  "at_operator t as ops = \<lparr>parse = parse_operator_state, str = t, args = as,
     operator_stack = ops\<rparr>"

definition paren_token :: operator_token where
  "paren_token = \<lparr>token_fun = LEFT_PAREN, prec = 1\<rparr>"

definition binop_token :: "binop \<Rightarrow> operator_token" where
  "binop_token b = \<lparr>token_fun = binop_fun b,
     prec = (case b of Plus \<Rightarrow> 2 | Minus \<Rightarrow> 2 | Times \<Rightarrow> 3 | Divide \<Rightarrow> 3 | Power \<Rightarrow> 4)\<rparr>"

definition stacks_ok :: "eval_state \<Rightarrow> bool" where
  "stacks_ok s = (length (args s) \<le> EVAL_STACK_SIZE \<and> length (operator_stack s) \<le> EVAL_STACK_SIZE)"

section \<open>Evaluation agrees with the specification\<close>

lemma digit_char_not_special:
  assumes "d < 10"
  shows "\<not> blank (digit_char d)" "digit_char d \<noteq> CHR ''(''" "digit_char d \<noteq> CHR '')''"
proof -
  have n: "(of_char (digit_char d) :: nat) = 48 + d" by (rule of_char_digit_char [OF assms])
  show "\<not> blank (digit_char d)" using n assms by (auto simp: blank_def)
  show "digit_char d \<noteq> CHR ''(''" using n by auto
  show "digit_char d \<noteq> CHR '')''" using n by auto
qed

lemma operand_number:
  assumes "ends_number rest" and "n < 2 ^ 63" and "length as < 16"
  shows "parse_step (at_operand (show_nat n @ rest) as ops) = Inr (at_operator rest (int n # as) ops)"
proof -
  obtain d cs where d: "d < 10" and sn: "show_nat n = digit_char d # cs"
    using show_nat_first by blast
  have "char_at (show_nat n @ rest) 0 = digit_char d" by (simp add: sn char_at_def)
  moreover have "strtoll (show_nat n @ rest) = (int n, rest, False)"
    using assms(1-2) by (rule strtoll_show_nat)
  ultimately show ?thesis
    using d assms(3) digit_char_not_special [OF d]
    by (simp add: parse_step_def at_operand_def at_operator_def parse_whitespace_before_number_def
        parse_number_def EVAL_STACK_SIZE_def Let_def)
qed

lemma operand_left_paren:
  "length ops < 16 \<Longrightarrow>
   parse_step (at_operand (CHR ''('' # t) as ops) = Inr (at_operand t as (paren_token # ops))"
  by (simp add: parse_step_def at_operand_def parse_whitespace_before_number_def char_at_def
      blank_def handle_left_paren_def EVAL_STACK_SIZE_def paren_token_def)

lemma operator_binop:
  "length ops < 15 \<Longrightarrow>
   parse_step (at_operator (binop_char b # t) as (paren_token # ops)) =
     Inr (at_operand t as (binop_token b # paren_token # ops))"
  by (cases b) (simp_all add: parse_step_def at_operand_def at_operator_def parse_operator_def
      char_at_def blank_def push_operator_def pop_higher.simps binds_tighter_def
      EVAL_STACK_SIZE_def binop_token_def paren_token_def)

lemma operator_right_paren:
  "parse_step (at_operator (CHR '')'' # t) (y # x # as) (binop_token b # paren_token # ops)) =
     bind_res (binary_op (binop_fun b) x y) (\<lambda>v. Inr (at_operator t (v # as) ops))"
proof -
  have nb: "binop_fun b \<noteq> LEFT_PAREN" "binop_fun b \<noteq> do_unary_minus" by (cases b; simp)+
  then show ?thesis
    by (cases "binary_op (binop_fun b) x y")
       (simp_all add: parse_step_def at_operator_def parse_operator_def char_at_def blank_def
        binop_token_def paren_token_def pop_operator_def run_op_def handle_right_paren.simps)
qed

lemma ends_number_binop: "ends_number (binop_char b # t)" "ends_number (CHR '')'' # t)"
  by (cases b; simp add: ends_number_def digit_val_def)+

lemma parse_loop_step:
  "parse_loop (at_operand (c # t) as ops) = bind_res (parse_step (at_operand (c # t) as ops)) parse_loop"
  "parse_loop (at_operator (c # t) as ops) = bind_res (parse_step (at_operator (c # t) as ops)) parse_loop"
  by (subst parse_loop.simps, simp add: bind_res_def at_operand_def at_operator_def)+

lemma parse_loop_expr:
  assumes "ends_number rest" and "fits (length as) (length ops) e"
  shows "parse_loop (at_operand (show_expr e @ rest) as ops) =
    bind_res (expr_value e) (\<lambda>v. parse_loop (at_operator rest (v # as) ops))"
  using assms
proof (induction e arbitrary: as ops rest)
  case (Num n)
  obtain d cs where sn: "show_nat n = d # cs" by (meson neq_Nil_conv show_nat_Nil)
  have "parse_loop (at_operand (show_nat n @ rest) as ops) =
      bind_res (parse_step (at_operand (show_nat n @ rest) as ops)) parse_loop"
    by (simp add: sn parse_loop_step)
  then show ?case using Num by (simp add: operand_number)
next
  case (Bin b l r)
  let ?t = "show_expr r @ CHR '')'' # rest"
  have "parse_loop (at_operand (show_expr (Bin b l r) @ rest) as ops) =
      parse_loop (at_operand (show_expr l @ binop_char b # ?t) as (paren_token # ops))"
    using Bin.prems by (simp add: parse_loop_step operand_left_paren)
  also have "\<dots> = bind_res (expr_value l)
      (\<lambda>x. parse_loop (at_operator (binop_char b # ?t) (x # as) (paren_token # ops)))"
    using Bin.prems by (intro Bin.IH(1)) (simp_all add: ends_number_binop)
  also have "\<dots> = bind_res (expr_value l)
      (\<lambda>x. parse_loop (at_operand ?t (x # as) (binop_token b # paren_token # ops)))"
    using Bin.prems by (simp add: parse_loop_step operator_binop)
  also have "\<dots> = bind_res (expr_value l) (\<lambda>x. bind_res (expr_value r)
      (\<lambda>y. parse_loop (at_operator (CHR '')'' # rest) (y # x # as) (binop_token b # paren_token # ops))))"
    using Bin.prems by (subst Bin.IH(2)) (simp_all add: ends_number_binop)
  finally show ?case by (simp add: parse_loop_step operator_right_paren bind_res_assoc)
qed



section \<open>The stacks\<close>

lemma run_op_length: "run_op f as = Inr as' \<Longrightarrow> length as' \<le> length as"
  by (auto simp: run_op_def bind_res_eq_Inr split: if_splits list.splits)

lemma pop_operator_ok: "pop_operator s = Inr s' \<Longrightarrow> stacks_ok s \<Longrightarrow> stacks_ok s'"
  by (auto simp: pop_operator_def bind_res_eq_Inr stacks_ok_def split: list.splits if_splits
      dest: run_op_length)

lemma handle_right_paren_ok: "handle_right_paren s = Inr s' \<Longrightarrow> stacks_ok s \<Longrightarrow> stacks_ok s'"
proof (induction s rule: handle_right_paren.induct)
  case (1 s)
  show ?case
  proof (cases "operator_stack s")
    case Nil
    then show ?thesis using "1.prems" by (simp add: handle_right_paren.simps [of s])
  next
    case (Cons tok rest)
    then show ?thesis using 1 pop_operator_ok
      by (auto simp: handle_right_paren.simps [of s] stacks_ok_def split: if_splits sum.splits)
  qed
qed

lemma pop_higher_ok: "pop_higher a p s = Inr s' \<Longrightarrow> stacks_ok s \<Longrightarrow> stacks_ok s'"
proof (induction a p s rule: pop_higher.induct)
  case (1 a p s)
  then show ?case using pop_operator_ok
    by (auto simp: pop_higher.simps [of a p s] split: list.splits if_splits sum.splits)
qed

lemma push_operator_ok: "push_operator f a p s = Inr s' \<Longrightarrow> stacks_ok s \<Longrightarrow> stacks_ok s'"
  by (auto simp: push_operator_def bind_res_eq_Inr stacks_ok_def split: if_splits
      dest!: pop_higher_ok)

lemma handle_left_paren_ok: "handle_left_paren s = Inr s' \<Longrightarrow> stacks_ok s \<Longrightarrow> stacks_ok s'"
  by (auto simp: handle_left_paren_def stacks_ok_def split: if_splits)

lemma handle_suffix_ok: "handle_suffix m s = Inr s' \<Longrightarrow> stacks_ok s \<Longrightarrow> stacks_ok s'"
  by (auto simp: handle_suffix_def bind_res_eq_Inr stacks_ok_def split: list.splits)

lemma parse_number_ok: "parse_number s = Inr s' \<Longrightarrow> stacks_ok s \<Longrightarrow> stacks_ok s'"
  by (auto simp: parse_number_def stacks_ok_def Let_def split: prod.splits if_splits)

lemma stacks_ok_update [simp]:
  "stacks_ok (s\<lparr>str := t\<rparr>) = stacks_ok s" "stacks_ok (s\<lparr>parse := q\<rparr>) = stacks_ok s"
  by (simp_all add: stacks_ok_def)

lemmas stack_ops_ok = handle_right_paren_ok push_operator_ok handle_left_paren_ok
  handle_suffix_ok parse_number_ok

lemma parse_step_ok:
  assumes "parse_step s = Inr s'" and "stacks_ok s"
  shows "stacks_ok s'"
proof -
  have ws: "stacks_ok u" if "parse_whitespace_before_number s = Inr u" for u
    using that assms(2)
    by (auto simp: parse_whitespace_before_number_def Let_def bind_res_eq_Inr
        split: if_splits dest: stack_ops_ok)
  have op: "stacks_ok u" if "parse_operator s = Inr u" for u
    using that assms(2)
    by (auto simp: parse_operator_def Let_def bind_res_eq_Inr split: if_splits dest: stack_ops_ok)
  show ?thesis
    using assms ws op parse_number_ok by (auto simp: parse_step_def split: parser.splits)
qed

text \<open>
  Every state the parser reaches without undefined behaviour holds at most 16 arguments and
  at most 16 operators.
\<close>

theorem parse_loop_stacks_ok:
  assumes "parse_loop s = Inr s'" and "stacks_ok s"
  shows "stacks_ok s'"
  using assms
proof (induction s rule: parse_loop.induct)
  case (1 s)
  then show ?case
    by (auto simp: parse_loop.simps [of s] split: if_splits sum.splits dest: parse_step_ok)
qed

theorem parse_loop_stacks_ok_witness:
  "stacks_ok (at_operator [] [1] [])"
proof (rule parse_loop_stacks_ok)
  show "parse_loop (at_operand ''1'' [] []) = Inr (at_operator [] [1] [])" by code_simp
  show "stacks_ok (at_operand ''1'' [] [])" by (simp add: stacks_ok_def at_operand_def)
qed

text \<open>
  The operator stack is not protected: \<open>handle_left_paren\<close> checks for room but
  \<open>push_operator\<close> does not, and seventeen unary minus signs, which never pop each other, write
  past the end of \<open>operator_stack\<close>.
\<close>

theorem unary_minus_overflows_stack:
  "eval_math (replicate 17 (CHR ''-'') @ ''1'') = Inl (Undefined ''write past operator_stack'')"
  by code_simp

end
