(* ===== verification/Mbr.thy ===== *)
theory Mbr
  imports Util
begin

text \<open>
  \<open>src/src/mbr.c\<close>: master boot records with up to eight logical partitions in extended boot
  records, the optional OSIP header, their verification and their decoding. The fixed size
  array \<open>partitions\<close> is a list of 12 entries. The buffers that \<open>mbr_create\<close> fills are the
  caller's and are not cleared first, so their old contents are an argument (\<open>old\<close>).
\<close>

definition MBR_MAX_PRIMARY_PARTITIONS :: nat where "MBR_MAX_PRIMARY_PARTITIONS = 4"
definition MBR_MAX_EXTENDED_PARTITIONS :: nat where "MBR_MAX_EXTENDED_PARTITIONS = 8"
definition MBR_MAX_PARTITIONS :: nat where
  "MBR_MAX_PARTITIONS = MBR_MAX_PRIMARY_PARTITIONS + MBR_MAX_EXTENDED_PARTITIONS"

lemma MBR_MAX_PARTITIONS_12 [simp]: "MBR_MAX_PARTITIONS = 12"
  by (simp add: MBR_MAX_PARTITIONS_def MBR_MAX_PRIMARY_PARTITIONS_def MBR_MAX_EXTENDED_PARTITIONS_def)

record mbr_partition =
  boot_flag :: bool
  expand_flag :: bool
  partition_type :: int
  block_offset :: u32
  block_count :: u32
  record_offset :: u32

record mbr_table =
  partitions :: "mbr_partition list"
  num_extended_partitions :: nat

record osii =
  os_minor :: u16
  os_major :: u16
  start_block_offset :: u32
  ddr_load_address :: u32
  entry_point :: u32
  image_size :: u32
  attribute :: byte

record osip_header =
  include_osip :: bool
  minor :: byte
  major :: byte
  num_pointers :: byte
  num_images :: byte
  descriptors :: "osii list"

record mbr_raw_partition =
  raw_block_offset :: nat
  data :: "byte list"

definition zero_partition :: mbr_partition where
  "zero_partition = \<lparr>boot_flag = False, expand_flag = False, partition_type = 0,
     block_offset = 0, block_count = 0, record_offset = 0\<rparr>"

definition zero_osii :: osii where
  "zero_osii = \<lparr>os_minor = 0, os_major = 0, start_block_offset = 0, ddr_load_address = 0,
     entry_point = 0, image_size = 0, attribute = 0\<rparr>"

definition is_extended_type :: "byte \<Rightarrow> bool" where
  "is_extended_type t = (t = 0x05 \<or> t = 0x0f)"

abbreviation extended :: "mbr_partition \<Rightarrow> bool" where
  "extended p \<equiv> is_extended_type (word_of_int (partition_type p))"

section \<open>Verification\<close>

definition part_left :: "mbr_partition \<Rightarrow> u32" where
  "part_left p = block_offset p"

definition part_right :: "mbr_partition \<Rightarrow> u32" where
  "part_right p = block_offset p + block_count p"

definition partition_overlaps :: "mbr_partition \<Rightarrow> mbr_partition \<Rightarrow> bool" where
  "partition_overlaps p q = (\<not> (part_left p \<ge> part_right q \<or> part_right p \<le> part_left q))"

definition ebr_overlaps :: "mbr_partition \<Rightarrow> mbr_partition \<Rightarrow> bool" where
  "ebr_overlaps q p =
     (record_offset q > 0 \<and> record_offset q \<ge> part_left p \<and> record_offset q < part_right p)"

definition verify_pair :: "nat \<Rightarrow> mbr_partition \<Rightarrow> mbr_partition \<Rightarrow> unit res" where
  "verify_pair i p q =
     (let overlap_required = (i = 3 \<and> extended p) in
      if partition_type q = 0 then Inr ()
      else if part_left q = part_right q then Inr ()
      else if partition_overlaps p q \<noteq> overlap_required then
        Inl (Msg (if \<not> overlap_required then ''partitions overlap''
          else ''partition 3, the extended partition, is expected to contain partition''))
      else if ebr_overlaps q p \<noteq> overlap_required then
        Inl (Msg (if \<not> overlap_required then ''partition overlaps the EBR''
          else ''partition 3, the extended partition, is expected to contain the EBR''))
      else if ebr_overlaps p q then Inl (Msg ''partition overlaps the EBR'')
      else Inr ())"

fun verify_pairs :: "nat \<Rightarrow> mbr_partition \<Rightarrow> mbr_partition list \<Rightarrow> unit res" where
  "verify_pairs i p [] = Inr ()"
| "verify_pairs i p (q # qs) = bind_res (verify_pair i p q) (\<lambda>_. verify_pairs i p qs)"

fun verify_from :: "bool \<Rightarrow> nat \<Rightarrow> mbr_partition list \<Rightarrow> unit res" where
  "verify_from expanding i [] = Inr ()"
| "verify_from expanding i (p # ps) =
     (if partition_type p > 0xff \<or> partition_type p < 0 then Inl (Msg ''invalid partition type'')
      else if partition_type p = 0 then verify_from expanding (Suc i) ps
      else if part_left p = part_right p \<and> \<not> expand_flag p then verify_from expanding (Suc i) ps
      else if expanding
        then Inl (Msg ''a partition can't be specified after the one with expand = true'')
      else bind_res (verify_pairs i p ps)
        (\<lambda>_. verify_from (expand_flag p \<and> i \<noteq> 3 \<and> \<not> extended p) (Suc i) ps))"

definition mbr_verify :: "mbr_table \<Rightarrow> unit res" where
  "mbr_verify table = verify_from False 0 (partitions table)"

section \<open>Expansion\<close>

definition expand_partition :: "mbr_partition \<Rightarrow> u32 \<Rightarrow> mbr_partition" where
  "expand_partition p num_blocks =
     p\<lparr>block_count := (if expand_flag p \<and> num_blocks > block_offset p + block_count p
                       then num_blocks - block_offset p else block_count p),
       expand_flag := False\<rparr>"

fun last_used_block :: "mbr_partition list \<Rightarrow> u32 \<Rightarrow> u32" where
  "last_used_block [] num_blocks = num_blocks"
| "last_used_block (p # ps) num_blocks =
     (let offset = block_offset p + block_count p in
      last_used_block ps (if offset > num_blocks then offset else num_blocks))"

definition expand_partitions :: "mbr_table \<Rightarrow> u32 \<Rightarrow> mbr_table" where
  "expand_partitions input num_blocks =
     (let n = last_used_block (partitions input) num_blocks in
      input\<lparr>partitions := map (\<lambda>p. expand_partition p n) (partitions input)\<rparr>)"

section \<open>Encoding\<close>

definition lba_to_chs :: "u32 \<Rightarrow> byte list \<Rightarrow> byte list" where
  "lba_to_chs lba old =
     (if unat lba \<le> 63 * 255 * 0x3ff then
        (let cylinder = unat lba div (63 * 255);
             head = (unat lba div 63) mod 255;
             sector = unat lba mod 63 + 1
         in [of_nat head,
             ucast (drop_bit 2 ((of_nat cylinder :: u16) AND 0x300) OR of_nat sector),
             ucast ((of_nat cylinder :: u16) AND 0xff)])
      else old)"

definition create_partition :: "mbr_partition \<Rightarrow> byte list \<Rightarrow> byte list" where
  "create_partition p old =
     (if partition_type p > 0 then
        [if boot_flag p then 0x80 else 0x00] @
        lba_to_chs (block_offset p) (read_at 1 3 old) @
        [word_of_int (partition_type p)] @
        lba_to_chs (block_offset p + block_count p - 1) (read_at 5 3 old)
      else replicate 8 0)
     @ copy_le32 (block_offset p) @ copy_le32 (block_count p)"

definition osii_bytes :: "osii \<Rightarrow> byte list" where
  "osii_bytes d = copy_le16 (os_minor d) @ copy_le16 (os_major d) @
     copy_le32 (start_block_offset d) @ copy_le32 (ddr_load_address d) @
     copy_le32 (entry_point d) @ copy_le32 (image_size d) @ [attribute d] @ replicate 3 0"

definition osip_raw :: "osip_header \<Rightarrow> byte list" where
  "osip_raw osip =
     [0x24, 0x4f, 0x53, 0x24, 0, minor osip, major osip, 0, num_pointers osip, num_images osip]
     @ copy_le16 (32 + 24 * ucast (num_images osip)) @ replicate 20 0
     @ concat (map osii_bytes (take (unat (num_images osip)) (descriptors osip)))"

definition write_osip :: "osip_header \<Rightarrow> byte list" where
  "write_osip osip = (osip_raw osip)[7 := foldr (XOR) (osip_raw osip) 0]"

definition ebr_bytes :: "nat \<Rightarrow> nat \<Rightarrow> mbr_partition \<Rightarrow> byte list \<Rightarrow> byte list" where
  "ebr_bytes i num_extended p old =
     (let part = p\<lparr>boot_flag := False, expand_flag := False,
                   block_offset := block_offset p - record_offset p\<rparr>;
          next_ebr = zero_partition\<lparr>partition_type := 0xf, block_offset := of_nat (i + 1),
                                block_count := 1\<rparr>
      in replicate 446 0
         @ create_partition part (read_at 446 16 old)
         @ (if i + 1 < num_extended then create_partition next_ebr (read_at 462 16 old)
            else replicate 16 0)
         @ replicate 32 0 @ [0x55, 0xaa])"

definition mbr_bytes :: "mbr_table \<Rightarrow> byte list option \<Rightarrow> osip_header \<Rightarrow> u32 \<Rightarrow> byte list \<Rightarrow> byte list" where
  "mbr_bytes table bootstrap osip signature old =
     (let code = (case bootstrap of Some b \<Rightarrow> b | None \<Rightarrow> replicate 440 0) in
      (if include_osip osip then write_at 0 (write_osip osip) code else code)
      @ copy_le32 signature @ [0, 0]
      @ concat (map (\<lambda>i. create_partition (partitions table ! i) (read_at (446 + i * 16) 16 old))
          [0..<MBR_MAX_PRIMARY_PARTITIONS])
      @ [0x55, 0xaa])"

definition mbr_create :: "mbr_table \<Rightarrow> byte list option \<Rightarrow> osip_header \<Rightarrow> u32 \<Rightarrow> u32 \<Rightarrow>
    (nat \<Rightarrow> byte list) \<Rightarrow> mbr_raw_partition list res" where
  "mbr_create table bootstrap osip signature num_blocks old =
     (if bootstrap \<noteq> None \<and> include_osip osip
        then Inl (Msg ''Can't specify both bootstrap and OSIP in MBR'')
      else
        (let expanded = expand_partitions table num_blocks in
         bind_res (mbr_verify expanded) (\<lambda>_.
           Inr (\<lparr>raw_block_offset = 0, data = mbr_bytes expanded bootstrap osip signature (old 0)\<rparr>
             # map (\<lambda>i. let p = partitions expanded ! (MBR_MAX_PRIMARY_PARTITIONS + i) in
                    \<lparr>raw_block_offset = unat (record_offset p),
                     data = ebr_bytes i (num_extended_partitions expanded) p (old (i + 1))\<rparr>)
                 [0..<num_extended_partitions expanded]))))"

section \<open>Decoding\<close>

definition read_partition :: "byte list \<Rightarrow> mbr_partition" where
  "read_partition input =
     zero_partition\<lparr>boot_flag := (input ! 0 AND 0x80 \<noteq> 0), partition_type := uint (input ! 4),
       block_offset := load_le32 (read_at 8 4 input), block_count := load_le32 (read_at 12 4 input)\<rparr>"

definition mbr_decode :: "byte list \<Rightarrow> mbr_table res" where
  "mbr_decode input =
     (if input ! 510 \<noteq> 0x55 \<or> input ! 511 \<noteq> 0xaa then Inl (Msg ''MBR signature missing'')
      else Inr \<lparr>partitions =
             map (\<lambda>i. read_partition (read_at (446 + i * 16) 16 input)) [0..<MBR_MAX_PRIMARY_PARTITIONS]
             @ replicate MBR_MAX_EXTENDED_PARTITIONS zero_partition,
           num_extended_partitions = 0\<rparr>)"

section \<open>From the configuration\<close>

definition cfg_partition_ix :: "cfg \<Rightarrow> int" where
  "cfg_partition_ix sec = to_int32 (uint (fst (strtoull (cfg_title sec))))"

definition cfg_block_offset :: "cfg \<Rightarrow> u32 res" where
  "cfg_block_offset sec =
     (case cfg_getstr sec ''block-offset'' of
        None \<Rightarrow> Inl (Msg ''partition's block_offset is required'')
      | Some s \<Rightarrow>
          if s = [] then Inl (Msg ''partition's block_offset is required'')
          else (let (v, endptr, _) = strtoull s in
                if unat v \<ge> 0xFFFFFFFF
                  then Inl (Msg ''partition's block_offset must be positive and less than 2^32 - 1'')
                else if endptr \<noteq> [] then Inl (Msg ''error parsing partition's block offset'')
                else Inr (ucast v)))"

definition mbr_cfg_partition :: "nat \<Rightarrow> cfg \<Rightarrow> mbr_partition res" where
  "mbr_cfg_partition partition_ix sec =
     (let unverified_type = to_int32 (cfg_getint sec ''type'') in
      if unverified_type < 0 \<or> unverified_type > 0xff
        then Inl (Msg ''partition's type must be between 0 and 255'')
      else bind_res (cfg_block_offset sec) (\<lambda>offset.
        let count = (word_of_int (cfg_getint sec ''block-count'') :: u32);
            p = zero_partition\<lparr>partition_type := unverified_type, block_offset := offset,
                  block_count := count\<rparr>
        in if is_extended_type (word_of_int unverified_type) then
             (if partition_ix \<noteq> 3
                then Inl (Msg ''only partition 3 may be specified as the extended partition'')
              else Inr (p\<lparr>boot_flag := False, expand_flag := True,
                          block_count := (if count \<ge> 0x7FFFFFFF then 1 else count)\<rparr>))
           else if count \<ge> 0x7FFFFFFF
             then Inl (Msg ''partition's block-count must be specified and less than 2^31 - 1'')
           else Inr (p\<lparr>boot_flag := cfg_getbool sec ''boot'', expand_flag := cfg_getbool sec ''expand''\<rparr>)))"

fun mbr_cfg_loop :: "cfg list \<Rightarrow> int list \<Rightarrow> mbr_table \<Rightarrow> mbr_table res" where
  "mbr_cfg_loop [] found table = Inr table"
| "mbr_cfg_loop (sec # secs) found table =
     (let ix = cfg_partition_ix sec in
      if ix < 0 \<or> ix \<ge> int MBR_MAX_PARTITIONS
        then Inl (Msg ''partition must be numbered 0 through 11'')
      else if ix \<in> set found then Inl (Msg ''invalid or duplicate partition number found'')
      else bind_res (mbr_cfg_partition (nat ix) sec) (\<lambda>p.
        mbr_cfg_loop secs (ix # found)
          \<lparr>partitions = (partitions table)[nat ix := p],
           num_extended_partitions =
             (if nat ix \<ge> MBR_MAX_PRIMARY_PARTITIONS then nat ix - MBR_MAX_PRIMARY_PARTITIONS + 1
              else num_extended_partitions table)\<rparr>))"

fun assign_record_offsets :: "u32 \<Rightarrow> mbr_partition list \<Rightarrow> mbr_partition list" where
  "assign_record_offsets r [] = []"
| "assign_record_offsets r (p # ps) =
     (if partition_type p \<noteq> 0 then p\<lparr>record_offset := r\<rparr> # assign_record_offsets (r + 1) ps
      else p # ps)"

definition mbr_cfg_to_partitions :: "cfg \<Rightarrow> mbr_table res" where
  "mbr_cfg_to_partitions cfg =
     bind_res (mbr_cfg_loop (cfg_secs cfg ''partition'') []
         \<lparr>partitions = replicate MBR_MAX_PARTITIONS zero_partition, num_extended_partitions = 0\<rparr>)
       (\<lambda>table.
          if num_extended_partitions table > 0 then
            (if \<not> extended (partitions table ! 3)
               then Inl (Msg ''to use more than 4 partitions with MBR, partition 3 must have extended partition type 0xf or 0x5'')
             else Inr (table\<lparr>partitions := take MBR_MAX_PRIMARY_PARTITIONS (partitions table) @
                    assign_record_offsets (block_offset (partitions table ! 3))
                      (drop MBR_MAX_PRIMARY_PARTITIONS (partitions table))\<rparr>))
          else Inr table)"

fun osip_cfg_loop :: "cfg list \<Rightarrow> int list \<Rightarrow> int \<Rightarrow> osip_header \<Rightarrow> (int \<times> osip_header) res" where
  "osip_cfg_loop [] found largest osip = Inr (largest, osip)"
| "osip_cfg_loop (sec # secs) found largest osip =
     (let ix = cfg_partition_ix sec in
      if ix < 0 \<or> ix \<ge> 15 then Inl (Msg ''osii must be numbered 0 through 15'')
      else if ix \<in> set found then Inl (Msg ''invalid or duplicate osii number found'')
      else osip_cfg_loop secs (ix # found) (if ix > largest then ix else largest)
        (osip\<lparr>descriptors := (descriptors osip)[nat ix :=
           \<lparr>os_minor = word_of_int (cfg_getint sec ''os-minor''),
            os_major = word_of_int (cfg_getint sec ''os-major''),
            start_block_offset = word_of_int (cfg_getint sec ''start-block-offset''),
            ddr_load_address = word_of_int (cfg_getint sec ''ddr-load-address''),
            entry_point = word_of_int (cfg_getint sec ''entry-point''),
            image_size = word_of_int (cfg_getint sec ''image-size-blocks''),
            attribute = word_of_int (cfg_getint sec ''attribute'')\<rparr>]\<rparr>))"

definition mbr_cfg_to_osip :: "cfg \<Rightarrow> osip_header res" where
  "mbr_cfg_to_osip cfg =
     (let osip = \<lparr>include_osip = cfg_getbool cfg ''include-osip'', minor = 0, major = 0,
            num_pointers = 0, num_images = 0, descriptors = replicate 16 zero_osii\<rparr> in
      if \<not> include_osip osip then Inr osip
      else bind_res (osip_cfg_loop (cfg_secs cfg ''osii'') [] (- 1)
          (osip\<lparr>major := word_of_int (cfg_getint cfg ''osip-major''),
                minor := word_of_int (cfg_getint cfg ''osip-minor''),
                num_pointers := word_of_int (cfg_getint cfg ''osip-num-pointers'')\<rparr>))
        (\<lambda>(largest, o'). if (word_of_int (largest + 1) :: byte) = 0
           then Inl (Msg ''need to specify one or more osii'')
           else Inr (o'\<lparr>num_images := word_of_int (largest + 1)\<rparr>)))"

definition mbr_verify_cfg :: "cfg \<Rightarrow> unit res" where
  "mbr_verify_cfg cfg =
     (let bootstrap_hex = cfg_getstr cfg ''bootstrap-code'' in
      if bootstrap_hex \<noteq> None \<and> length (the bootstrap_hex) \<noteq> 440 * 2
        then Inl (Msg ''bootstrap-code should be exactly 440 bytes'')
      else bind_res (mbr_cfg_to_osip cfg) (\<lambda>osip.
        if include_osip osip \<and> bootstrap_hex \<noteq> None
          then Inl (Msg ''cannot specify OSIP if including bootstrap code'')
        else bind_res (mbr_cfg_to_partitions cfg) (\<lambda>table.
          mbr_verify (expand_partitions table 0))))"

text \<open>
  \<open>mbr_create_cfg\<close> calls \<open>mbr_create\<close> without looking at its result and returns 0. When
  \<open>mbr_create\<close> fails it has not set \<open>output_count\<close>, which its only caller initialised to 0,
  so the caller sees no records.
\<close>

definition mbr_create_cfg :: "cfg \<Rightarrow> u32 \<Rightarrow> (nat \<Rightarrow> byte list) \<Rightarrow> mbr_raw_partition list res" where
  "mbr_create_cfg cfg num_blocks old =
     bind_res (mbr_cfg_to_partitions cfg) (\<lambda>table.
     bind_res (mbr_cfg_to_osip cfg) (\<lambda>osip.
     bind_res (case cfg_getstr cfg ''bootstrap-code'' of
                 None \<Rightarrow> Inr None
               | Some h \<Rightarrow> bind_res (hex_to_bytes h 440) (\<lambda>b. Inr (Some b))) (\<lambda>bootstrap.
       let signature = (case cfg_getstr cfg ''signature'' of
                          None \<Rightarrow> 0 | Some s \<Rightarrow> ucast (fst (strtoull s)))
       in case mbr_create table bootstrap osip signature num_blocks old of
            Inl e \<Rightarrow> Inr []
          | Inr output \<Rightarrow> Inr output)))"

section \<open>Properties\<close>


definition used_partition :: "mbr_partition \<Rightarrow> bool" where
  "used_partition p = (partition_type p \<noteq> 0 \<and> block_count p \<noteq> 0)"

definition partition_blocks :: "mbr_partition \<Rightarrow> nat set" where
  "partition_blocks p = {unat (block_offset p) ..< unat (block_offset p) + unat (block_count p)}"

definition fits_u32 :: "mbr_partition \<Rightarrow> bool" where
  "fits_u32 p = (unat (block_offset p) + unat (block_count p) < 2 ^ 32)"

lemma part_right_unat:
  "fits_u32 p \<Longrightarrow> unat (part_right p) = unat (block_offset p) + unat (block_count p)"
  by (simp add: fits_u32_def part_right_def unat_add_lem [THEN iffD1])

lemma part_empty_iff [simp]: "part_left p = part_right p \<longleftrightarrow> block_count p = 0"
  by (simp add: part_left_def part_right_def)

lemma partition_overlaps_iff:
  assumes "fits_u32 p" and "fits_u32 q" and "used_partition p" and "used_partition q"
  shows "partition_overlaps p q \<longleftrightarrow> partition_blocks p \<inter> partition_blocks q \<noteq> {}"
proof -
  have c: "0 < unat (block_count p)" "0 < unat (block_count q)"
    using assms by (auto simp: used_partition_def unat_gt_0)
  show ?thesis
    using part_right_unat [OF assms(1)] part_right_unat [OF assms(2)] c
    by (auto simp: partition_overlaps_def partition_blocks_def word_le_nat_alt part_left_def
        disjoint_iff ivl_disj_int)
qed

lemma verify_pairs_all: "verify_pairs i p qs = Inr () \<longleftrightarrow> (\<forall>q \<in> set qs. verify_pair i p q = Inr ())"
  by (induction qs) (auto simp: res_simps)

lemma verify_from_types:
  "verify_from ex k ps = Inr () \<Longrightarrow> p \<in> set ps \<Longrightarrow> 0 \<le> partition_type p \<and> partition_type p \<le> 0xff"
  by (induction ex k ps rule: verify_from.induct) (auto simp: res_simps split: if_splits)

lemma verify_from_pair:
  "verify_from ex k ps = Inr () \<Longrightarrow> a < b \<Longrightarrow> b < length ps \<Longrightarrow> used_partition (ps ! a) \<Longrightarrow>
   verify_pair (k + a) (ps ! a) (ps ! b) = Inr ()"
proof (induction ps arbitrary: ex k a b)
  case (Cons p ps)
  obtain ex' where v: "verify_from ex' (Suc k) ps = Inr ()"
    using Cons.prems(1) by (auto simp: res_simps split: if_splits)
  obtain b' where b: "b = Suc b'" using Cons.prems(2) by (cases b) auto
  show ?case
  proof (cases a)
    case 0
    then have "verify_pairs k p ps = Inr ()"
      using Cons.prems(1,4) by (auto simp: res_simps used_partition_def split: if_splits)
    then show ?thesis using 0 b Cons.prems(3) by (auto simp: verify_pairs_all)
  next
    case (Suc a')
    then show ?thesis using Cons.IH [OF v, of a' b'] Cons.prems b by simp
  qed
qed auto



definition sample_partition :: "int \<Rightarrow> u32 \<Rightarrow> u32 \<Rightarrow> u32 \<Rightarrow> mbr_partition" where
  "sample_partition t off n r = zero_partition\<lparr>partition_type := t, block_offset := off,
     block_count := n, record_offset := r\<rparr>"

definition sample_mbr :: mbr_table where
  "sample_mbr = \<lparr>partitions = [sample_partition 0xc 63 100 0, zero_partition, zero_partition,
       sample_partition 0xf 200 100 0, sample_partition 0x83 210 20 200],
     num_extended_partitions = 1\<rparr>"


text \<open>
  The comparison is made on 32 bit sums, so a partition whose end wraps around is accepted
  although it overlaps another one.
\<close>

theorem mbr_verify_accepts_wraparound:
  "let p = sample_partition 0x83 0xFFFFFF00 0x200 0; q = sample_partition 0x83 0xFFFFFF80 0x10 0 in
   mbr_verify \<lparr>partitions = [p, q], num_extended_partitions = 0\<rparr> = Inr () \<and>
   partition_blocks q \<subseteq> partition_blocks p \<and> partition_blocks q \<noteq> {}"
proof -
  have "mbr_verify \<lparr>partitions = [sample_partition 0x83 0xFFFFFF00 0x200 0,
      sample_partition 0x83 0xFFFFFF80 0x10 0], num_extended_partitions = 0\<rparr> = Inr ()"
    by code_simp
  then show ?thesis
    by (simp add: Let_def partition_blocks_def sample_partition_def)
qed

lemma length_lba_to_chs [simp]: "length old = 3 \<Longrightarrow> length (lba_to_chs lba old) = 3"
  by (simp add: lba_to_chs_def Let_def)

lemma length_create_partition [simp]: "length old = 16 \<Longrightarrow> length (create_partition p old) = 16"
  by (simp add: create_partition_def)

lemma read_create_partition:
  assumes "length old = 16" and "0 \<le> partition_type p" and "partition_type p \<le> 255"
  shows "read_partition (create_partition p old) =
    zero_partition\<lparr>boot_flag := boot_flag p \<and> partition_type p \<noteq> 0,
      partition_type := partition_type p, block_offset := block_offset p, block_count := block_count p\<rparr>"
proof -
  define hd8 where "hd8 = (if partition_type p > 0 then
        [if boot_flag p then 0x80 else 0x00] @
        lba_to_chs (block_offset p) (read_at 1 3 old) @
        [word_of_int (partition_type p)] @
        lba_to_chs (block_offset p + block_count p - 1) (read_at 5 3 old)
      else replicate 8 0 :: byte list)"
  have c: "create_partition p old = hd8 @ copy_le32 (block_offset p) @ copy_le32 (block_count p)"
    by (simp add: create_partition_def hd8_def)
  have l: "length hd8 = 8" using assms(1) by (simp add: hd8_def)
  have b: "(hd8 ! 0 AND 0x80 \<noteq> 0) = (boot_flag p \<and> partition_type p \<noteq> 0)"
    using assms(2) by (auto simp: hd8_def)
  have t: "uint (hd8 ! 4) = partition_type p"
    using assms by (auto simp: hd8_def nth_append nth_Cons' uint_word_of_int)
  show ?thesis
    using b t l by (simp add: read_partition_def c nth_append buf_simps)
qed


lemma length_osii_bytes [simp]: "length (osii_bytes d) = 24"
  by (simp add: osii_bytes_def)

lemma length_write_osip:
  "length (write_osip osip) = 32 + 24 * min (length (descriptors osip)) (unat (num_images osip))"
  by (simp add: write_osip_def osip_raw_def length_concat_same [where n = 24])

definition osip_fits :: "osip_header \<Rightarrow> bool" where
  "osip_fits osip = (include_osip osip \<longrightarrow> length (descriptors osip) \<le> 16)"

lemma length_mbr_code:
  assumes "\<forall>b. bootstrap = Some b \<longrightarrow> length b = 440" and "osip_fits osip"
  shows "length (let code = (case bootstrap of Some b \<Rightarrow> b | None \<Rightarrow> replicate 440 0) in
      if include_osip osip then write_at 0 (write_osip osip) code else code) = 440"
  using assms by (auto simp: Let_def osip_fits_def length_write_osip write_at_def split: option.splits)

lemma length_ebr_bytes: "length old = 512 \<Longrightarrow> length (ebr_bytes i n p old) = 512"
  by (simp add: ebr_bytes_def Let_def)

lemma mbr_bytes_split:
  assumes "\<forall>b. bootstrap = Some b \<longrightarrow> length b = 440" and "osip_fits osip" and "length old = 512"
  obtains code where "length code = 446" and
    "mbr_bytes table bootstrap osip sig old = code
      @ create_partition (partitions table ! 0) (read_at 446 16 old)
      @ create_partition (partitions table ! 1) (read_at 462 16 old)
      @ create_partition (partitions table ! 2) (read_at 478 16 old)
      @ create_partition (partitions table ! 3) (read_at 494 16 old) @ [0x55, 0xaa]"
proof -
  define code where "code = (let code = (case bootstrap of Some b \<Rightarrow> b | None \<Rightarrow> replicate 440 0) in
      if include_osip osip then write_at 0 (write_osip osip) code else code) @ copy_le32 sig @ [0, 0]"
  have "length code = 446" using length_mbr_code [OF assms(1,2)] by (simp add: code_def Let_def)
  then show ?thesis
    by (rule that) (simp add: mbr_bytes_def code_def Let_def MBR_MAX_PRIMARY_PARTITIONS_def upt_4)
qed

lemma mbr_decode_bytes:
  assumes "\<forall>b. bootstrap = Some b \<longrightarrow> length b = 440" and "osip_fits osip" and "length old = 512"
    and "\<forall>i < 4. 0 \<le> partition_type (partitions table ! i) \<and> partition_type (partitions table ! i) \<le> 255"
  shows "length (mbr_bytes table bootstrap osip sig old) = 512" (is ?L)
    and "mbr_decode (mbr_bytes table bootstrap osip sig old) =
      Inr \<lparr>partitions = map (\<lambda>i. let p = partitions table ! i in
             zero_partition\<lparr>boot_flag := boot_flag p \<and> partition_type p \<noteq> 0,
               partition_type := partition_type p, block_offset := block_offset p,
               block_count := block_count p\<rparr>) [0..<4] @ replicate 8 zero_partition,
           num_extended_partitions = 0\<rparr>" (is ?D)
proof -
  obtain code where l: "length code = 446" and m:
    "mbr_bytes table bootstrap osip sig old = code
      @ create_partition (partitions table ! 0) (read_at 446 16 old)
      @ create_partition (partitions table ! 1) (read_at 462 16 old)
      @ create_partition (partitions table ! 2) (read_at 478 16 old)
      @ create_partition (partitions table ! 3) (read_at 494 16 old) @ [0x55, 0xaa]"
    using mbr_bytes_split [OF assms(1-3)] by blast
  show ?L using l assms(3) by (simp add: m)
  show ?D
    using l assms(3,4)
    by (simp add: mbr_decode_def m nth_append MBR_MAX_PRIMARY_PARTITIONS_def MBR_MAX_EXTENDED_PARTITIONS_def
        upt_4 buf_simps read_create_partition Let_def)
qed

text \<open>
  C38: decoding the boot record that \<open>mbr_create\<close> writes gives back the boot flag, type, offset
  and size of the four primary partitions, after expansion to the size of the device.
\<close>

theorem mbr_create_decode:
  assumes "mbr_create table bootstrap osip sig num_blocks old = Inr recs"
    and "length (partitions table) = 12" and "osip_fits osip" and "length (old 0) = 512"
    and "\<forall>b. bootstrap = Some b \<longrightarrow> length b = 440"
  shows "mbr_decode (data (hd recs)) =
      Inr \<lparr>partitions = map (\<lambda>p. zero_partition\<lparr>boot_flag := boot_flag p \<and> partition_type p \<noteq> 0,
               partition_type := partition_type p, block_offset := block_offset p,
               block_count := block_count p\<rparr>)
             (take 4 (partitions (expand_partitions table num_blocks))) @ replicate 8 zero_partition,
           num_extended_partitions = 0\<rparr>"
proof -
  define t where "t = expand_partitions table num_blocks"
  have v: "mbr_verify t = Inr ()" and d: "data (hd recs) = mbr_bytes t bootstrap osip sig (old 0)"
    using assms(1) by (auto simp: mbr_create_def res_simps Let_def t_def split: if_splits)
  have l: "length (partitions t) = 12" using assms(2) by (simp add: t_def expand_partitions_def Let_def)
  have "\<forall>i < 4. 0 \<le> partition_type (partitions t ! i) \<and> partition_type (partitions t ! i) \<le> 255"
    using v l verify_from_types [of False 0 "partitions t"] by (auto simp: mbr_verify_def)
  moreover have "take 4 (partitions t) = map ((!) (partitions t)) [0..<4]"
    using l by (simp add: take_as_map_nth)
  ultimately show ?thesis
    using mbr_decode_bytes(2) [OF assms(5,3,4), of t sig] unfolding t_def [symmetric] d
    by (simp add: Let_def comp_def)
qed


theorem mbr_create_decode_witness:
  "\<exists>recs. mbr_create (sample_mbr\<lparr>partitions := partitions sample_mbr @ replicate 7 zero_partition\<rparr>) None
      \<lparr>include_osip = False, minor = 0, major = 0, num_pointers = 0, num_images = 0, descriptors = []\<rparr>
      0 1000 (\<lambda>_. replicate 512 0) = Inr recs \<and>
     is_ok (mbr_decode (data (hd recs)))"
proof -
  let ?t = "sample_mbr\<lparr>partitions := partitions sample_mbr @ replicate 7 zero_partition\<rparr>"
  let ?o = "\<lparr>include_osip = False, minor = 0, major = 0, num_pointers = 0, num_images = 0, descriptors = []\<rparr>"
  have "mbr_verify (expand_partitions ?t 1000) = Inr ()" by code_simp
  then obtain recs where r: "mbr_create ?t None ?o 0 1000 (\<lambda>_. replicate 512 0) = Inr recs"
    by (simp add: mbr_create_def Let_def)
  have "length (partitions ?t) = 12" by (simp add: sample_mbr_def)
  from mbr_create_decode [OF r this] r show ?thesis by (auto simp: osip_fits_def)
qed

lemma foldr_xor_append: "foldr (XOR) (xs @ ys) (0 :: byte) = foldr (XOR) xs 0 XOR foldr (XOR) ys 0"
  by (induction xs) (auto simp: xor.assoc)

lemma foldr_xor_update:
  "i < length xs \<Longrightarrow> foldr (XOR) (xs[i := y]) (0 :: byte) = foldr (XOR) xs 0 XOR xs ! i XOR y"
proof (induction xs arbitrary: i)
  case (Cons x xs)
  then show ?case
    by (cases i) (auto simp: xor.assoc xor.commute xor.left_commute)
qed simp

text \<open>
  The exclusive or of all bytes of the OSIP header, its checksum byte included, is zero, and
  its length field counts the 32 byte header and 24 bytes for each image.
\<close>

theorem write_osip_checksum:
  "foldr (XOR) (write_osip osip) 0 = 0 \<and>
   read_at 10 2 (write_osip osip) = copy_le16 (of_nat (32 + 24 * unat (num_images osip)))"
proof -
  have r: "osip_raw osip ! 7 = 0" "7 < length (osip_raw osip)" by (simp_all add: osip_raw_def)
  have c: "(of_nat (unat (num_images osip)) :: u16) = ucast (num_images osip)"
    by simp
  have "read_at 10 2 (write_osip osip) = copy_le16 (32 + 24 * ucast (num_images osip))"
    by (simp add: write_osip_def osip_raw_def read_at_def)
  then show ?thesis using r by (simp add: write_osip_def foldr_xor_update c)
qed

section \<open>Well-formed tables\<close>

definition mbr_table_ok :: "mbr_table \<Rightarrow> bool" where
  "mbr_table_ok t =
     (length (partitions t) = MBR_MAX_PARTITIONS \<and>
      num_extended_partitions t \<le> MBR_MAX_EXTENDED_PARTITIONS \<and>
      list_all (\<lambda>p. 0 \<le> partition_type p \<and> partition_type p \<le> 255) (partitions t) \<and>
      list_all (\<lambda>i. extended (partitions t ! i) \<longrightarrow> i = 3) [0..<MBR_MAX_PARTITIONS])"

lemma mbr_cfg_partition_ok:
  assumes "mbr_cfg_partition ix sec = Inr p"
  shows "0 \<le> partition_type p \<and> partition_type p \<le> 255 \<and> (extended p \<longrightarrow> ix = 3)"
  using assms by (auto simp: mbr_cfg_partition_def Let_def res_simps split: if_splits)

lemma mbr_cfg_loop_ok:
  "mbr_cfg_loop secs found t = Inr t' \<Longrightarrow> mbr_table_ok t \<Longrightarrow> mbr_table_ok t'"
proof (induction secs found t rule: mbr_cfg_loop.induct)
  case (2 sec secs found t)
  define ix where "ix = cfg_partition_ix sec"
  from 2(2) obtain p where ixr: "0 \<le> ix" "ix < 12" "ix \<notin> set found"
    and p: "mbr_cfg_partition (nat ix) sec = Inr p"
    and r: "mbr_cfg_loop secs (ix # found)
          \<lparr>partitions = (partitions t)[nat ix := p],
           num_extended_partitions =
             (if nat ix \<ge> MBR_MAX_PRIMARY_PARTITIONS then nat ix - MBR_MAX_PRIMARY_PARTITIONS + 1
              else num_extended_partitions t)\<rparr> = Inr t'"
    by (auto simp: ix_def [symmetric] Let_def res_simps split: if_splits)
  have ok: "mbr_table_ok \<lparr>partitions = (partitions t)[nat ix := p],
           num_extended_partitions =
             (if nat ix \<ge> MBR_MAX_PRIMARY_PARTITIONS then nat ix - MBR_MAX_PRIMARY_PARTITIONS + 1
              else num_extended_partitions t)\<rparr>"
    using 2(3) mbr_cfg_partition_ok [OF p] ixr(1,2)
    by (auto simp: mbr_table_ok_def list_all_update MBR_MAX_EXTENDED_PARTITIONS_def
        MBR_MAX_PRIMARY_PARTITIONS_def list_all_iff nth_list_update
        dest!: set_update_subset_insert [THEN subsetD])
  show ?case
    using "2.IH" [OF ix_def _ _ r ok] ixr by auto
qed simp


lemma set_assign_record_offsets:
  "p \<in> set (assign_record_offsets r ps) \<Longrightarrow> \<exists>q \<in> set ps. partition_type p = partition_type q"
  by (induction r ps rule: assign_record_offsets.induct) (auto split: if_splits)

lemma length_assign_record_offsets [simp]: "length (assign_record_offsets r ps) = length ps"
  by (induction r ps rule: assign_record_offsets.induct) auto

lemma nth_assign_record_offsets:
  "i < length ps \<Longrightarrow> partition_type (assign_record_offsets r ps ! i) = partition_type (ps ! i)"
  by (induction r ps arbitrary: i rule: assign_record_offsets.induct) (auto simp: nth_Cons')

lemma mbr_cfg_to_partitions_ok:
  assumes "mbr_cfg_to_partitions cfg = Inr t"
  shows "mbr_table_ok t"
proof -
  let ?t0 = "\<lparr>partitions = replicate MBR_MAX_PARTITIONS zero_partition, num_extended_partitions = 0\<rparr>"
  have z: "mbr_table_ok ?t0"
    by (auto simp: mbr_table_ok_def list_all_iff zero_partition_def is_extended_type_def)
  obtain t1 where l: "mbr_cfg_loop (cfg_secs cfg ''partition'') [] ?t0 = Inr t1"
    and c: "t = t1 \<or> t = t1\<lparr>partitions := take MBR_MAX_PRIMARY_PARTITIONS (partitions t1) @
                    assign_record_offsets (block_offset (partitions t1 ! 3))
                      (drop MBR_MAX_PRIMARY_PARTITIONS (partitions t1))\<rparr>"
    using assms by (auto simp: mbr_cfg_to_partitions_def res_simps split: if_splits)
  have ok: "mbr_table_ok t1" by (rule mbr_cfg_loop_ok [OF l z])
  have ty: "partition_type ((take 4 ps @ assign_record_offsets r (drop 4 ps)) ! i) =
      partition_type (ps ! i)" if "i < length ps" "length ps = 12" for ps i r
    using that by (simp add: nth_append nth_assign_record_offsets)
  show ?thesis
    using c
  proof
    assume "t = t1" then show ?thesis using ok by simp
  next
    assume "t = t1\<lparr>partitions := take MBR_MAX_PRIMARY_PARTITIONS (partitions t1) @
                    assign_record_offsets (block_offset (partitions t1 ! 3))
                      (drop MBR_MAX_PRIMARY_PARTITIONS (partitions t1))\<rparr>"
    then show ?thesis
      using ok ty by (simp add: mbr_table_ok_def MBR_MAX_PRIMARY_PARTITIONS_def list_all_length)
  qed
qed

lemma osip_cfg_loop_length:
  "osip_cfg_loop secs found l osip = Inr (l', osip') \<Longrightarrow>
   length (descriptors osip') = length (descriptors osip)"
  by (induction secs found l osip rule: osip_cfg_loop.induct)
     (auto simp: Let_def split: if_splits)

lemma mbr_cfg_to_osip_fits: "mbr_cfg_to_osip cfg = Inr osip \<Longrightarrow> osip_fits osip"
  by (auto simp: mbr_cfg_to_osip_def Let_def res_simps osip_fits_def dest!: osip_cfg_loop_length
      split: if_splits)

lemma mbr_create_sizes:
  assumes "mbr_create table bootstrap osip sig num_blocks old = Inr recs" and "mbr_table_ok table"
    and "osip_fits osip" and "\<forall>k. length (old k) = 512"
    and "\<forall>b. bootstrap = Some b \<longrightarrow> length b = 440"
  shows "\<forall>r \<in> set recs. length (data r) = 512" and "length recs = 1 + num_extended_partitions table"
proof -
  define t where "t = expand_partitions table num_blocks"
  have t: "length (partitions t) = 12" "num_extended_partitions t = num_extended_partitions table"
    using assms(2) by (auto simp: t_def expand_partitions_def Let_def mbr_table_ok_def)
  have v: "mbr_verify t = Inr ()" and d: "recs = \<lparr>raw_block_offset = 0, data = mbr_bytes t bootstrap osip sig (old 0)\<rparr>
             # map (\<lambda>i. let p = partitions t ! (MBR_MAX_PRIMARY_PARTITIONS + i) in
                    \<lparr>raw_block_offset = unat (record_offset p),
                     data = ebr_bytes i (num_extended_partitions t) p (old (i + 1))\<rparr>)
                 [0..<num_extended_partitions t]"
    using assms(1) by (auto simp: mbr_create_def res_simps Let_def t_def split: if_splits)
  have "\<forall>i < 4. 0 \<le> partition_type (partitions t ! i) \<and> partition_type (partitions t ! i) \<le> 255"
    using v t verify_from_types [of False 0 "partitions t"] by (auto simp: mbr_verify_def)
  then have "length (mbr_bytes t bootstrap osip sig (old 0)) = 512"
    using mbr_decode_bytes(1) assms by blast
  then show "\<forall>r \<in> set recs. length (data r) = 512"
    using assms(4) by (auto simp: d length_ebr_bytes Let_def)
  show "length recs = 1 + num_extended_partitions table" by (simp add: d t)
qed

text \<open>
  Whatever the configuration holds, \<open>mbr_create_cfg\<close> emits at most nine records (the buffer
  its caller allocates), each of exactly one block of 512 bytes.
\<close>

theorem mbr_create_cfg_in_bounds:
  assumes "mbr_create_cfg cfg num_blocks old = Inr recs" and "\<forall>k. length (old k) = 512"
  shows "length recs \<le> 1 + MBR_MAX_EXTENDED_PARTITIONS \<and> (\<forall>r \<in> set recs. length (data r) = 512)"
proof -
  define boot :: "byte list option res" where "boot = (case cfg_getstr cfg ''bootstrap-code'' of None \<Rightarrow> Inr None
      | Some h \<Rightarrow> bind_res (hex_to_bytes h 440) (\<lambda>b. Inr (Some b)))"
  obtain table osip bootstrap where
    t': "mbr_cfg_to_partitions cfg = Inr table" and o': "mbr_cfg_to_osip cfg = Inr osip"
    and b': "boot = Inr bootstrap"
    and c: "\<exists>sig. recs = [] \<or> mbr_create table bootstrap osip sig num_blocks old = Inr recs"
  proof -
    have "\<exists>table. mbr_cfg_to_partitions cfg = Inr table \<and> (\<exists>osip. mbr_cfg_to_osip cfg = Inr osip \<and>
        (\<exists>bootstrap. boot = Inr bootstrap \<and>
          (\<exists>sig. (case mbr_create table bootstrap osip sig num_blocks old of
             Inl e \<Rightarrow> Inr [] | Inr output \<Rightarrow> Inr output) = (Inr recs :: mbr_raw_partition list res))))"
      using assms(1) unfolding mbr_create_cfg_def boot_def [symmetric] Let_def bind_res_eq_Inr by blast
    then obtain table osip bootstrap sig where "mbr_cfg_to_partitions cfg = Inr table"
        "mbr_cfg_to_osip cfg = Inr osip" "boot = Inr bootstrap"
      and cs: "(case mbr_create table bootstrap osip sig num_blocks old of
             Inl e \<Rightarrow> Inr [] | Inr output \<Rightarrow> Inr output) = (Inr recs :: mbr_raw_partition list res)"
      by blast
    moreover have "recs = [] \<or> mbr_create table bootstrap osip sig num_blocks old = Inr recs"
      using cs by (simp split: sum.splits)
    ultimately show ?thesis using that by blast
  qed
  have t: "mbr_table_ok table" by (rule mbr_cfg_to_partitions_ok [OF t'])
  have o: "osip_fits osip" by (rule mbr_cfg_to_osip_fits [OF o'])
  have b: "\<forall>b. bootstrap = Some b \<longrightarrow> length b = 440"
    using b' by (auto simp: boot_def hex_to_bytes_def res_simps dest!: hex_loop_length
        split: option.splits if_splits)
  show ?thesis
    using c mbr_create_sizes [OF _ t o assms(2) b] t by (auto simp: mbr_table_ok_def)
qed

definition sample_mbr_cfg :: cfg where
  "sample_mbr_cfg =
     Cfg ''mbr-a'' (\<lambda>_. 0) (\<lambda>_. []) (\<lambda>_. None) (\<lambda>_. []) (\<lambda>_. False) (\<lambda>k. if k = ''partition'' then
       [Cfg ''0'' (\<lambda>k. if k = ''type'' then 0xc else 100) (\<lambda>_. [])
          (\<lambda>k. if k = ''block-offset'' then Some ''63'' else None) (\<lambda>_. []) (\<lambda>_. False) (\<lambda>_. [])]
       else [])"

theorem mbr_create_cfg_in_bounds_witness:
  "\<exists>recs. mbr_create_cfg sample_mbr_cfg 1000 (\<lambda>_. replicate 512 0) = Inr recs \<and>
     recs \<noteq> [] \<and> length (data (hd recs)) = 512"
proof -
  note strtoull_simps = strtoull_def signed_magnitude_def magnitude_def isspace_def hex_prefix_def
    starts_digit_def digit_val_def Let_def
  have s: "strtoull ''0'' = (0, [], False)" "strtoull ''63'' = (63, [], False)"
    by (simp_all add: strtoull_simps)
  define t where "t = \<lparr>partitions = (replicate 12 zero_partition)[0 := sample_partition 0xc 63 100 0],
      num_extended_partitions = 0\<rparr>"
  have t: "mbr_cfg_to_partitions sample_mbr_cfg = Inr t"
    by (simp add: mbr_cfg_to_partitions_def sample_mbr_cfg_def cfg_partition_ix_def to_int32_def
        mbr_cfg_partition_def cfg_block_offset_def s is_extended_type_def t_def sample_partition_def
        zero_partition_def MBR_MAX_PRIMARY_PARTITIONS_def)
  have "mbr_verify (expand_partitions t 1000) = Inr ()" unfolding t_def by code_simp
  then obtain recs where r: "mbr_create_cfg sample_mbr_cfg 1000 (\<lambda>_. replicate 512 0) = Inr recs"
      "recs \<noteq> []"
    using t by (simp add: mbr_create_cfg_def mbr_create_def mbr_cfg_to_osip_def sample_mbr_cfg_def Let_def)
  with mbr_create_cfg_in_bounds [OF r(1)] show ?thesis by auto
qed

end
