(* ===== verification/Gpt.thy ===== *)
theory Gpt
  imports Crc32
begin

text \<open>
  \<open>src/src/gpt.c\<close>: GUID partition tables. Both copies of the table are written into buffers that
  \<open>gpt_create_cfg\<close> clears first, so an entry or a header is the list of its bytes. Block numbers
  are computed on 32 bits and widened when they are stored.
\<close>

definition GPT_MAX_PARTITIONS :: nat where "GPT_MAX_PARTITIONS = 16"
definition GPT_PARTITION_SIZE :: nat where "GPT_PARTITION_SIZE = 128"
definition GPT_PARTITION_TABLE_BLOCKS :: nat where "GPT_PARTITION_TABLE_BLOCKS = 32"
definition GPT_SIZE_BLOCKS :: nat where "GPT_SIZE_BLOCKS = 1 + GPT_PARTITION_TABLE_BLOCKS"
definition GPT_SIZE :: nat where "GPT_SIZE = GPT_SIZE_BLOCKS * 512"

lemmas gpt_sizes = GPT_MAX_PARTITIONS_def GPT_PARTITION_SIZE_def GPT_PARTITION_TABLE_BLOCKS_def
  GPT_SIZE_BLOCKS_def GPT_SIZE_def

record gpt_partition =
  gpt_block_offset :: u32
  gpt_block_count :: u32
  gpt_flags :: u64
  gpt_type :: "byte list"
  gpt_guid :: "byte list"
  gpt_name :: "byte list"
  gpt_expand_flag :: bool
  gpt_valid :: bool

record gpt_header =
  current_lba :: u64
  backup_lba :: u64
  first_usable_lba :: u64
  last_usable_lba :: u64
  disk_guid :: "byte list"
  partition_lba :: u64
  num_partitions :: u32
  partition_crc :: u32

definition zero_gpt_partition :: gpt_partition where
  "zero_gpt_partition = \<lparr>gpt_block_offset = 0, gpt_block_count = 0, gpt_flags = 0,
     gpt_type = replicate 16 0, gpt_guid = replicate 16 0, gpt_name = replicate 72 0,
     gpt_expand_flag = False, gpt_valid = False\<rparr>"

section \<open>Verification\<close>

definition gpt_left :: "gpt_partition \<Rightarrow> u32" where
  "gpt_left p = gpt_block_offset p"

definition gpt_right :: "gpt_partition \<Rightarrow> u32" where
  "gpt_right p = gpt_block_offset p + gpt_block_count p"

definition gpt_overlaps :: "gpt_partition \<Rightarrow> gpt_partition \<Rightarrow> bool" where
  "gpt_overlaps p q =
     ((gpt_left p \<ge> gpt_left q \<and> gpt_left p < gpt_right q) \<or>
      (gpt_right p > gpt_left q \<and> gpt_right p \<le> gpt_right q))"

fun gpt_verify_against :: "nat \<Rightarrow> gpt_partition \<Rightarrow> nat \<Rightarrow> gpt_partition list \<Rightarrow> unit res" where
  "gpt_verify_against i p j [] = Inr ()"
| "gpt_verify_against i p j (q # qs) =
     (if \<not> gpt_valid q \<or> j = i then gpt_verify_against i p (Suc j) qs
      else if gpt_overlaps p q then Inl (Msg ''partitions overlap'')
      else gpt_verify_against i p (Suc j) qs)"

fun gpt_verify_from :: "gpt_partition list \<Rightarrow> bool \<Rightarrow> nat \<Rightarrow> gpt_partition list \<Rightarrow> unit res" where
  "gpt_verify_from all expanding i [] = Inr ()"
| "gpt_verify_from all expanding i (p # ps) =
     (if \<not> gpt_valid p then gpt_verify_from all expanding (Suc i) ps
      else if gpt_left p = gpt_right p \<and> \<not> gpt_expand_flag p
        then gpt_verify_from all expanding (Suc i) ps
      else if expanding
        then Inl (Msg ''a partition can't be specified after the one with expand = true'')
      else bind_res (gpt_verify_against i p 0 all)
        (\<lambda>_. gpt_verify_from all (gpt_expand_flag p) (Suc i) ps))"

definition gpt_verify_partitions :: "gpt_partition list \<Rightarrow> unit res" where
  "gpt_verify_partitions partitions = gpt_verify_from partitions False 0 partitions"

section \<open>Encoding\<close>

definition create_protective_mbr :: "u32 \<Rightarrow> byte list" where
  "create_protective_mbr num_blocks =
     replicate 446 0 @ [0, 0, 0x02, 0, 0xee, 0xff, 0xff, 0xff] @ copy_le32 1
     @ copy_le32 (num_blocks - 1) @ replicate 48 0 @ [0x55, 0xaa]"

definition expanded_block_count :: "gpt_partition \<Rightarrow> u32 \<Rightarrow> u32" where
  "expanded_block_count p num_blocks =
     (if gpt_expand_flag p \<and>
         num_blocks > gpt_block_offset p + gpt_block_count p + of_nat GPT_SIZE_BLOCKS
      then num_blocks - of_nat GPT_SIZE_BLOCKS - 1 - gpt_block_offset p
      else gpt_block_count p)"

definition gpt_first_lba :: "gpt_partition \<Rightarrow> u64" where
  "gpt_first_lba p = ucast (gpt_block_offset p)"

definition gpt_last_lba :: "gpt_partition \<Rightarrow> u32 \<Rightarrow> u64" where
  "gpt_last_lba p num_blocks = ucast (gpt_block_offset p + expanded_block_count p num_blocks - 1)"

definition gpt_create_partition :: "gpt_partition \<Rightarrow> u32 \<Rightarrow> byte list" where
  "gpt_create_partition p num_blocks =
     gpt_type p @ gpt_guid p @ copy_le64 (gpt_first_lba p) @ copy_le64 (gpt_last_lba p num_blocks)
     @ copy_le64 (gpt_flags p) @ gpt_name p"

definition create_partitions :: "gpt_partition list \<Rightarrow> u32 \<Rightarrow> byte list" where
  "create_partitions partitions num_blocks =
     concat (map (\<lambda>p. if gpt_valid p then gpt_create_partition p num_blocks
                      else replicate GPT_PARTITION_SIZE 0) partitions)"

definition gpt_header_bytes :: "gpt_header \<Rightarrow> u32 \<Rightarrow> byte list" where
  "gpt_header_bytes h crc =
     string_bytes ''EFI PART'' @ copy_le32 0x00010000 @ copy_le32 92 @ copy_le32 crc
     @ replicate 4 0 @ copy_le64 (current_lba h) @ copy_le64 (backup_lba h)
     @ copy_le64 (first_usable_lba h) @ copy_le64 (last_usable_lba h) @ disk_guid h
     @ copy_le64 (partition_lba h) @ copy_le32 (num_partitions h)
     @ copy_le32 (of_nat GPT_PARTITION_SIZE) @ copy_le32 (partition_crc h)"

definition create_gpt_header :: "gpt_header \<Rightarrow> byte list" where
  "create_gpt_header h =
     gpt_header_bytes h (crc32buf (gpt_header_bytes h 0)) @ replicate (512 - 92) 0"

section \<open>From the configuration\<close>

definition gpt_cfg_offset :: "cfg \<Rightarrow> u32 res" where
  "gpt_cfg_offset sec =
     (case cfg_getstr sec ''block-offset'' of
        None \<Rightarrow> Inl (Msg ''partition's block_offset is required'')
      | Some s \<Rightarrow>
          if s = [] then Inl (Msg ''partition's block_offset is required'')
          else (let (v, endptr, _) = strtoull s in
                if unat v \<ge> 0xFFFFFFFF
                  then Inl (Msg ''partition's block_offset must be positive and less than 2^32 - 1'')
                else if endptr \<noteq> [] then Inl (Msg ''error parsing partition's block offset'')
                else Inr (ucast v)))"

text \<open>
  \<open>errno\<close> is not cleared before \<open>strtoull\<close>; \<open>stale\<close> says whether it was nonzero before. When
  \<open>boot\<close> is set the flag is moved into the section's \<open>flags\<close>, which the archive's \<open>meta.conf\<close> is
  printed from: the updated section is part of the result.
\<close>

definition gpt_cfg_flags :: "bool \<Rightarrow> cfg \<Rightarrow> u64 res" where
  "gpt_cfg_flags stale sec =
     (case cfg_getstr sec ''flags'' of
        None \<Rightarrow> Inr 0
      | Some s \<Rightarrow>
          (let (v, endptr, erange) = strtoull s in
           if (v = - 1 \<and> (stale \<or> erange)) \<or> endptr \<noteq> [] then Inl (Msg ''error parsing partition's flags'')
           else Inr v))"

definition gpt_uuid_field :: "cfg \<Rightarrow> string \<Rightarrow> string \<Rightarrow> byte list res" where
  "gpt_uuid_field sec key message =
     (case cfg_getstr sec key of
        None \<Rightarrow> Inl (Msg message)
      | Some s \<Rightarrow> (case string_to_uuid_me s of Inl _ \<Rightarrow> Inl (Msg message) | Inr u \<Rightarrow> Inr u))"

definition gpt_cfg_name :: "cfg \<Rightarrow> byte list res" where
  "gpt_cfg_name sec =
     (case cfg_getstr sec ''name'' of
        None \<Rightarrow> Inl (Undefined ''strlen(NULL)'')
      | Some s \<Rightarrow>
          (let n = ascii_to_utf16le (string_bytes (take 36 s)) in Inr (n @ replicate (72 - length n) 0)))"

definition gpt_cfg_partition :: "bool \<Rightarrow> cfg \<Rightarrow> (gpt_partition \<times> cfg) res" where
  "gpt_cfg_partition stale sec =
     bind_res (gpt_uuid_field sec ''type'' ''partition's type must set to a UUID'') (\<lambda>ty.
     bind_res (gpt_uuid_field sec ''guid'' ''partition must have a valid guid'') (\<lambda>guid.
     bind_res (gpt_cfg_name sec) (\<lambda>name.
     bind_res (gpt_cfg_offset sec) (\<lambda>offset.
       let count = (word_of_int (cfg_getint sec ''block-count'') :: u32) in
       if count \<ge> 0x7FFFFFFF
         then Inl (Msg ''partition's block-count must be specified and less than 2^31 - 1'')
       else bind_res (gpt_cfg_flags stale sec) (\<lambda>flags.
         let boot = cfg_getbool sec ''boot'';
             flags' = (if boot then flags OR 0x4 else flags);
             sec' = (if boot
                     then cfg_setbool (cfg_setstr sec ''flags'' (''0x'' @ show_hex (unat flags'))) ''boot'' False
                     else sec)
         in Inr (\<lparr>gpt_block_offset = offset, gpt_block_count = count, gpt_flags = flags',
                  gpt_type = ty, gpt_guid = guid, gpt_name = name,
                  gpt_expand_flag = cfg_getbool sec ''expand'', gpt_valid = True\<rparr>, sec'))))))"

text \<open>
  The loop over the partition sections. It returns the table, the set of the numbers found (a bit
  mask in the source) and the updated sections.
\<close>

fun gpt_cfg_loop :: "bool \<Rightarrow> cfg list \<Rightarrow> nat list \<Rightarrow> gpt_partition list \<Rightarrow>
    (gpt_partition list \<times> nat list \<times> cfg list) res" where
  "gpt_cfg_loop stale [] found partitions = Inr (partitions, found, [])"
| "gpt_cfg_loop stale (sec # secs) found partitions =
     (let partition_ix = unat (fst (strtoull (cfg_title sec))) in
      if partition_ix \<ge> GPT_MAX_PARTITIONS
        then Inl (Msg ''partition must be numbered 0 through 15'')
      else if partition_ix \<in> set found then Inl (Msg ''invalid or duplicate partition number found'')
      else bind_res (gpt_cfg_partition stale sec) (\<lambda>(p, sec').
        bind_res (gpt_cfg_loop stale secs (partition_ix # found) (partitions[partition_ix := p]))
          (\<lambda>(ps, f, secs'). Inr (ps, f, sec' # secs'))))"

definition gpt_cfg_to_partitions :: "bool \<Rightarrow> cfg list \<Rightarrow> (gpt_partition list \<times> nat list \<times> cfg list) res" where
  "gpt_cfg_to_partitions stale secs =
     gpt_cfg_loop stale secs [] (replicate GPT_MAX_PARTITIONS zero_gpt_partition)"

definition gpt_verify_cfg :: "bool \<Rightarrow> cfg \<Rightarrow> unit res" where
  "gpt_verify_cfg stale cfg =
     bind_res (gpt_uuid_field cfg ''guid'' ''GPT must have a valid disk guid'') (\<lambda>_.
     bind_res (gpt_cfg_to_partitions stale (cfg_secs cfg ''partition'')) (\<lambda>(partitions, found, _).
       if found = [] then Inl (Msg ''empty partition table?'')
       else gpt_verify_partitions partitions))"

fun max_last_block :: "gpt_partition list \<Rightarrow> u32 \<Rightarrow> u32" where
  "max_last_block [] num_blocks = num_blocks"
| "max_last_block (p # ps) num_blocks =
     max_last_block ps
       (if gpt_valid p \<and> gpt_block_offset p + gpt_block_count p > num_blocks
        then gpt_block_offset p + gpt_block_count p else num_blocks)"

definition compute_num_blocks :: "gpt_partition list \<Rightarrow> u32" where
  "compute_num_blocks partitions = max_last_block partitions 0 + of_nat (GPT_SIZE_BLOCKS + 1)"

definition gpt_primary_header :: "byte list \<Rightarrow> u32 \<Rightarrow> u32 \<Rightarrow> gpt_header" where
  "gpt_primary_header guid crc num_blocks =
     \<lparr>current_lba = 1, backup_lba = ucast (num_blocks - 1),
      first_usable_lba = of_nat (1 + GPT_SIZE_BLOCKS),
      last_usable_lba = ucast (num_blocks - of_nat GPT_SIZE_BLOCKS - 1), disk_guid = guid,
      partition_lba = 2,
      num_partitions = of_nat (GPT_PARTITION_TABLE_BLOCKS * 512 div GPT_PARTITION_SIZE),
      partition_crc = crc\<rparr>"

definition gpt_secondary_header :: "byte list \<Rightarrow> u32 \<Rightarrow> u32 \<Rightarrow> gpt_header" where
  "gpt_secondary_header guid crc num_blocks =
     (gpt_primary_header guid crc num_blocks)
       \<lparr>current_lba := ucast (num_blocks - 1), backup_lba := 1,
        partition_lba := ucast (num_blocks - of_nat GPT_SIZE_BLOCKS)\<rparr>"

text \<open>
  The partition table of a copy: the sixteen entries and zeros up to 32 blocks. The result of
  \<open>gpt_create_cfg\<close> is the boot record with the primary table, the secondary table and the byte
  offset to write the latter at.
\<close>

definition gpt_table_bytes :: "gpt_partition list \<Rightarrow> u32 \<Rightarrow> byte list" where
  "gpt_table_bytes partitions num_blocks =
     (let e = create_partitions partitions num_blocks in
      e @ replicate (GPT_PARTITION_TABLE_BLOCKS * 512 - length e) 0)"

definition gpt_create_cfg :: "bool \<Rightarrow> cfg \<Rightarrow> u32 \<Rightarrow> (byte list \<times> byte list \<times> u64) res" where
  "gpt_create_cfg stale cfg num_blocks0 =
     bind_res (gpt_cfg_to_partitions stale (cfg_secs cfg ''partition'')) (\<lambda>(partitions, _, _).
       let num_blocks = (if num_blocks0 = 0 then compute_num_blocks partitions else num_blocks0);
           table = gpt_table_bytes partitions num_blocks;
           crc = crc32buf table
       in bind_res (case gpt_uuid_field cfg ''guid'' [] of Inl _ \<Rightarrow> Inl Quiet | Inr g \<Rightarrow> Inr g) (\<lambda>guid.
         Inr (create_protective_mbr num_blocks @ create_gpt_header (gpt_primary_header guid crc num_blocks) @ table,
              table @ create_gpt_header (gpt_secondary_header guid crc num_blocks),
              partition_lba (gpt_secondary_header guid crc num_blocks) * 512)))"

section \<open>Properties\<close>

definition gpt_used :: "gpt_partition \<Rightarrow> bool" where
  "gpt_used p = (gpt_valid p \<and> gpt_block_count p \<noteq> 0)"

definition gpt_fits :: "gpt_partition \<Rightarrow> bool" where
  "gpt_fits p = (unat (gpt_block_offset p) + unat (gpt_block_count p) < 2 ^ 32)"

definition gpt_blocks :: "gpt_partition \<Rightarrow> nat set" where
  "gpt_blocks p = {unat (gpt_block_offset p) ..< unat (gpt_block_offset p) + unat (gpt_block_count p)}"

lemma gpt_right_unat:
  "gpt_fits p \<Longrightarrow> unat (gpt_right p) = unat (gpt_block_offset p) + unat (gpt_block_count p)"
  by (simp add: gpt_fits_def gpt_right_def unat_add_lem [THEN iffD1])

lemma gpt_empty_iff [simp]: "gpt_left p = gpt_right p \<longleftrightarrow> gpt_block_count p = 0"
  by (simp add: gpt_left_def gpt_right_def)

lemma gpt_verify_against_nth:
  "gpt_verify_against i p k qs = Inr () \<Longrightarrow> j < length qs \<Longrightarrow> gpt_valid (qs ! j) \<Longrightarrow> k + j \<noteq> i \<Longrightarrow>
   \<not> gpt_overlaps p (qs ! j)"
proof (induction qs arbitrary: k j)
  case (Cons q qs)
  then show ?case
    by (cases j) (force split: if_splits)+
qed simp

lemma gpt_verify_from_against:
  "gpt_verify_from all ex k ps = Inr () \<Longrightarrow> a < length ps \<Longrightarrow> gpt_used (ps ! a) \<Longrightarrow>
   gpt_verify_against (k + a) (ps ! a) 0 all = Inr ()"
proof (induction ps arbitrary: ex k a)
  case (Cons p ps)
  show ?case
  proof (cases a)
    case 0
    then show ?thesis using Cons.prems by (auto simp: res_simps gpt_used_def split: if_splits)
  next
    case (Suc a')
    obtain ex' where "gpt_verify_from all ex' (Suc k) ps = Inr ()"
      using Cons.prems(1) by (auto simp: res_simps split: if_splits)
    from Cons.IH [OF this, of a'] show ?thesis using Suc Cons.prems by simp
  qed
qed simp

lemma gpt_disjoint:
  assumes "\<not> gpt_overlaps p q" and "\<not> gpt_overlaps q p" and "gpt_fits p" and "gpt_fits q"
  shows "gpt_blocks p \<inter> gpt_blocks q = {}"
  using assms gpt_right_unat [of p] gpt_right_unat [of q]
  by (auto simp: gpt_overlaps_def gpt_blocks_def word_le_nat_alt word_less_nat_alt gpt_left_def)

text \<open>
  When \<open>gpt_verify_partitions\<close> accepts a table, two partitions in use whose ends do not wrap
  around 32 bits share no block.
\<close>

theorem gpt_verify_sound:
  assumes "gpt_verify_partitions ps = Inr ()" and "i < length ps" and "j < length ps" and "i \<noteq> j"
    and "gpt_used (ps ! i)" and "gpt_used (ps ! j)" and "gpt_fits (ps ! i)" and "gpt_fits (ps ! j)"
  shows "gpt_blocks (ps ! i) \<inter> gpt_blocks (ps ! j) = {}"
proof -
  have "\<not> gpt_overlaps (ps ! a) (ps ! b)"
    if "a < length ps" "b < length ps" "a \<noteq> b" "gpt_used (ps ! a)" "gpt_used (ps ! b)" for a b
    using gpt_verify_from_against [of ps False 0 ps a] gpt_verify_against_nth [of a "ps ! a" 0 ps b] that assms(1)
    by (simp add: gpt_verify_partitions_def gpt_used_def)
  then show ?thesis using gpt_disjoint assms by metis
qed

definition sample_gpt :: "u32 \<Rightarrow> u32 \<Rightarrow> bool \<Rightarrow> gpt_partition" where
  "sample_gpt off n ex = zero_gpt_partition\<lparr>gpt_block_offset := off, gpt_block_count := n,
     gpt_expand_flag := ex, gpt_valid := True\<rparr>"

theorem gpt_verify_sound_witness:
  "gpt_blocks (sample_gpt 34 100 False) \<inter> gpt_blocks (sample_gpt 200 50 True) = {}"
proof -
  have v: "gpt_verify_partitions [sample_gpt 34 100 False, sample_gpt 200 50 True] = Inr ()" by code_simp
  show ?thesis
    using gpt_verify_sound [OF v, of 0 1]
    by (simp add: gpt_used_def gpt_fits_def sample_gpt_def zero_gpt_partition_def)
qed

text \<open>
  The table is verified before the expandable partition grows, and only the order of the
  partition numbers is checked: a table that is accepted gives an expanded entry that covers
  another partition.
\<close>

theorem gpt_expand_overlaps:
  "let p = sample_gpt 1000 100 False; q = sample_gpt 100 50 True in
   gpt_verify_partitions [p, q] = Inr () \<and>
   gpt_first_lba q \<le> gpt_first_lba p \<and> gpt_last_lba p 100000 \<le> gpt_last_lba q 100000"
proof -
  have "gpt_verify_partitions [sample_gpt 1000 100 False, sample_gpt 100 50 True] = Inr ()" by code_simp
  then show ?thesis
    by (simp add: Let_def gpt_first_lba_def gpt_last_lba_def expanded_block_count_def gpt_sizes
        sample_gpt_def)
qed

section \<open>Layout of the tables\<close>

definition gpt_partition_ok :: "gpt_partition \<Rightarrow> bool" where
  "gpt_partition_ok p = (length (gpt_type p) = 16 \<and> length (gpt_guid p) = 16 \<and> length (gpt_name p) = 72)"

lemma length_gpt_create_partition [simp]:
  "gpt_partition_ok p \<Longrightarrow> length (gpt_create_partition p n) = 128"
  by (simp add: gpt_create_partition_def gpt_partition_ok_def)

lemma length_create_partitions:
  "list_all gpt_partition_ok ps \<Longrightarrow> length (create_partitions ps n) = 128 * length ps"
  by (induction ps) (auto simp: create_partitions_def gpt_sizes)

lemma read_create_partitions:
  "list_all gpt_partition_ok ps \<Longrightarrow> i < length ps \<Longrightarrow> gpt_valid (ps ! i) \<Longrightarrow>
   read_at (128 * i) 128 (create_partitions ps n) = gpt_create_partition (ps ! i) n"
proof (induction ps arbitrary: i)
  case (Cons p ps)
  have c: "create_partitions (p # ps) n = create_partitions [p] n @ create_partitions ps n"
    by (simp add: create_partitions_def)
  have l: "length (create_partitions [p] n) = 128"
    using length_create_partitions [of "[p]" n] Cons.prems by simp
  show ?case
  proof (cases i)
    case 0
    then show ?thesis using Cons.prems by (simp add: c create_partitions_def read_at_def)
  next
    case (Suc k)
    then show ?thesis using Cons.IH [of k] Cons.prems l
      by (simp add: c read_at_append_right)
  qed
qed simp

lemma uuid_scan_length: "uuid_scan fs s u = Inr v \<Longrightarrow> length v = length u"
  by (induction fs s u rule: uuid_scan.induct) (auto simp: res_simps split: if_splits)

lemma gpt_uuid_field_length: "gpt_uuid_field sec k m = Inr u \<Longrightarrow> length u = 16"
  by (auto simp: gpt_uuid_field_def string_to_uuid_me_def dest!: uuid_scan_length
      split: option.splits sum.splits if_splits)

lemma length_ascii_to_utf16le [simp]: "length (ascii_to_utf16le s) = 2 * length s"
  by (induction s) (auto simp: ascii_to_utf16le_def)

lemma gpt_cfg_name_length: "gpt_cfg_name sec = Inr n \<Longrightarrow> length n = 72"
  by (auto simp: gpt_cfg_name_def Let_def string_bytes_def split: option.splits)

lemma gpt_cfg_partition_ok: "gpt_cfg_partition stale sec = Inr (p, sec') \<Longrightarrow> gpt_partition_ok p"
  by (auto simp: gpt_cfg_partition_def res_simps Let_def gpt_partition_ok_def
      dest!: gpt_uuid_field_length gpt_cfg_name_length split: if_splits)

lemma gpt_cfg_loop_ok:
  "gpt_cfg_loop stale secs found ps = Inr (ps', f, secs') \<Longrightarrow> list_all gpt_partition_ok ps \<Longrightarrow>
   list_all gpt_partition_ok ps' \<and> length ps' = length ps"
proof (induction stale secs found ps arbitrary: f secs' rule: gpt_cfg_loop.induct)
  case (2 stale sec secs found ps)
  then show ?case
    by (fastforce simp: Let_def res_simps list_all_update gpt_cfg_partition_ok split: if_splits)
qed simp

lemma gpt_cfg_to_partitions_ok:
  assumes "gpt_cfg_to_partitions stale secs = Inr (ps, f, secs')"
  shows "list_all gpt_partition_ok ps" and "length ps = 16"
proof -
  have "list_all gpt_partition_ok (replicate GPT_MAX_PARTITIONS zero_gpt_partition)"
    by (auto simp: list_all_iff gpt_partition_ok_def zero_gpt_partition_def)
  from gpt_cfg_loop_ok [OF assms [unfolded gpt_cfg_to_partitions_def] this]
  show "list_all gpt_partition_ok ps" "length ps = 16" by (simp_all add: gpt_sizes)
qed

lemma length_gpt_header_bytes: "length (disk_guid h) = 16 \<Longrightarrow> length (gpt_header_bytes h c) = 92"
  by (simp add: gpt_header_bytes_def)


definition gpt_header_valid :: "byte list \<Rightarrow> byte list \<Rightarrow> bool" where
  "gpt_header_valid h table =
     (take 8 h = string_bytes ''EFI PART'' \<and>
      load_le32 (read_at 16 4 h) = crc32buf (write_at 16 [0, 0, 0, 0] (take 92 h)) \<and>
      load_le32 (read_at 88 4 h) = crc32buf table)"

lemma gpt_header_split:
  assumes "length (disk_guid h) = 16"
  obtains rest where "\<And>c. gpt_header_bytes h c = string_bytes ''EFI PART'' @ copy_le32 0x00010000 @ copy_le32 92
      @ copy_le32 c @ replicate 4 0 @ copy_le64 (current_lba h) @ copy_le64 (backup_lba h) @ rest @
      copy_le32 (partition_crc h)" and "length rest = 48"
proof -
  show ?thesis
    by (rule that [of "copy_le64 (first_usable_lba h) @ copy_le64 (last_usable_lba h) @ disk_guid h
         @ copy_le64 (partition_lba h) @ copy_le32 (num_partitions h) @ copy_le32 (of_nat GPT_PARTITION_SIZE)"])
       (simp_all add: gpt_header_bytes_def assms)
qed

lemma copy_le32_0: "copy_le32 0 = [0, 0, 0, 0]"
  by (simp add: copy_le32_def)

lemma create_gpt_header_valid:
  assumes "length (disk_guid h) = 16" and "partition_crc h = crc32buf table"
  shows "gpt_header_valid (create_gpt_header h) table"
proof -
  obtain rest where b: "\<And>c. gpt_header_bytes h c = string_bytes ''EFI PART'' @ copy_le32 0x00010000 @ copy_le32 92
      @ copy_le32 c @ replicate 4 0 @ copy_le64 (current_lba h) @ copy_le64 (backup_lba h) @ rest @
      copy_le32 (partition_crc h)" and l: "length rest = 48"
    using gpt_header_split [OF assms(1)] by blast
  show ?thesis
    using l by (simp add: gpt_header_valid_def create_gpt_header_def b assms(2) read_at_append_left
        read_at_append_right read_at_def write_at_def copy_le32_0)
qed

lemma create_gpt_header_lbas:
  assumes "length (disk_guid h) = 16"
  shows "read_at 24 8 (create_gpt_header h) = copy_le64 (current_lba h)"
    and "read_at 32 8 (create_gpt_header h) = copy_le64 (backup_lba h)"
    and "length (create_gpt_header h) = 512"
proof -
  obtain rest where b: "\<And>c. gpt_header_bytes h c = string_bytes ''EFI PART'' @ copy_le32 0x00010000 @ copy_le32 92
      @ copy_le32 c @ replicate 4 0 @ copy_le64 (current_lba h) @ copy_le64 (backup_lba h) @ rest @
      copy_le32 (partition_crc h)" and l: "length rest = 48"
    using gpt_header_split [OF assms(1)] by blast
  show "read_at 24 8 (create_gpt_header h) = copy_le64 (current_lba h)"
    "read_at 32 8 (create_gpt_header h) = copy_le64 (backup_lba h)"
    "length (create_gpt_header h) = 512"
    using l by (simp_all add: create_gpt_header_def b read_at_def)
qed

lemma length_protective_mbr [simp]: "length (create_protective_mbr n) = 512"
  by (simp add: create_protective_mbr_def)

lemma gpt_create_cfg_E:
  assumes "gpt_create_cfg stale cfg num_blocks0 = Inr (primary, secondary, off)"
  obtains ps f secs' num_blocks guid crc table where
    "gpt_cfg_to_partitions stale (cfg_secs cfg ''partition'') = Inr (ps, f, secs')"
    "num_blocks = (if num_blocks0 = 0 then compute_num_blocks ps else num_blocks0)"
    "table = gpt_table_bytes ps num_blocks" "crc = crc32buf table" "length guid = 16"
    "primary = create_protective_mbr num_blocks @ create_gpt_header (gpt_primary_header guid crc num_blocks) @ table"
    "secondary = table @ create_gpt_header (gpt_secondary_header guid crc num_blocks)"
    "off = ucast (num_blocks - of_nat GPT_SIZE_BLOCKS) * 512" "length table = 16384"
proof -
  from assms obtain ps f secs' where c: "gpt_cfg_to_partitions stale (cfg_secs cfg ''partition'') = Inr (ps, f, secs')"
    by (auto simp: gpt_create_cfg_def res_simps)
  obtain guid where g: "gpt_uuid_field cfg ''guid'' [] = Inr guid"
    using assms c by (auto simp: gpt_create_cfg_def Let_def bind_res_eq_Inr split: sum.splits)
  have "length (create_partitions ps n) = 2048" for n
    using gpt_cfg_to_partitions_ok [OF c] by (simp add: length_create_partitions)
  then have l: "length (gpt_table_bytes ps n) = 16384" for n
    by (simp add: gpt_table_bytes_def Let_def gpt_sizes)
  show ?thesis
    by (rule that [OF c refl refl refl gpt_uuid_field_length [OF g] _ _ _ l])
       (use assms c g in \<open>auto simp: gpt_create_cfg_def Let_def gpt_secondary_header_def\<close>)
qed


text \<open>
  A partition that fits the device in front of the secondary table, expandable or not, gets an
  entry whose last block is at least its own last block and at most the last usable block of the
  header; an expandable one ends at most one block short of it.
\<close>

theorem gpt_expand_in_bounds:
  assumes "unat (gpt_block_offset p) + unat (gpt_block_count p) + 34 \<le> unat num_blocks"
    and "gpt_block_count p \<noteq> 0"
  shows "unat (gpt_block_offset p) + unat (gpt_block_count p) - 1 \<le> unat (gpt_last_lba p num_blocks) \<and>
    gpt_last_lba p num_blocks \<le> last_usable_lba (gpt_primary_header guid crc num_blocks) \<and>
    (gpt_expand_flag p \<longrightarrow> unat (gpt_last_lba p num_blocks) + 35 = unat num_blocks)"
proof -
  let ?o = "unat (gpt_block_offset p)" and ?c = "unat (gpt_block_count p)" and ?n = "unat num_blocks"
  have n: "?n < 2 ^ 32" using unsigned_less [of num_blocks, where 'a = nat] by simp
  have c0: "0 < ?c" using assms(2) by (simp add: unat_gt_0)
  have e: "unat (expanded_block_count p num_blocks) = (if gpt_expand_flag p then ?n - 34 - ?o else ?c)"
  proof (cases "gpt_expand_flag p")
    case True
    have "unat (gpt_block_offset p + gpt_block_count p + 33) = ?o + ?c + 33"
      using assms(1) n by (simp add: unat_word_ariths)
    then have "num_blocks > gpt_block_offset p + gpt_block_count p + 33"
      using assms(1) by (simp add: word_less_nat_alt)
    moreover have "num_blocks - 33 - 1 - gpt_block_offset p = of_nat (?n - 34 - ?o)"
      using assms(1) by (simp add: of_nat_diff)
    ultimately show ?thesis using True n by (simp add: expanded_block_count_def gpt_sizes unat_of_nat)
  next
    case False
    then show ?thesis by (simp add: expanded_block_count_def)
  qed
  let ?e = "unat (expanded_block_count p num_blocks)"
  have eb: "0 < ?e" "?o + ?e + 34 \<le> ?n" "?c \<le> ?e"
    using e assms(1) c0 by (auto split: if_splits)
  have w: "gpt_block_offset p + expanded_block_count p num_blocks - 1 = of_nat (?o + ?e - 1)"
    using eb by (simp add: of_nat_diff)
  have "unat (gpt_block_offset p + expanded_block_count p num_blocks - 1) = ?o + ?e - 1"
    unfolding w by (subst unat_of_nat) (use eb n in simp)
  then have l: "unat (gpt_last_lba p num_blocks) = ?o + ?e - 1"
    by (simp add: gpt_last_lba_def)
  have "num_blocks - 33 - 1 = of_nat (?n - 34)" using assms(1) by (simp add: of_nat_diff)
  then have u: "unat (last_usable_lba (gpt_primary_header guid crc num_blocks)) = ?n - 34"
    using n by (simp add: gpt_primary_header_def gpt_sizes unat_of_nat)
  show ?thesis
    using l u eb e c0 by (auto simp: word_le_nat_alt split: if_splits)
qed

theorem gpt_expand_in_bounds_witness:
  "unat (gpt_last_lba (sample_gpt 100 50 True) 1000) + 35 = unat (1000 :: u32)"
  using gpt_expand_in_bounds [of "sample_gpt 100 50 True" 1000] by (simp add: sample_gpt_def)

text \<open>
  Entry \<open>i\<close> of the primary table holds the fields of partition \<open>i\<close> of the configuration at
  their offsets: type, GUID, first block, last block, flags and name.
\<close>

theorem gpt_create_cfg_entry:
  assumes "gpt_create_cfg stale cfg num_blocks = Inr (primary, secondary, off)"
    and "gpt_cfg_to_partitions stale (cfg_secs cfg ''partition'') = Inr (ps, found, secs')"
    and "num_blocks \<noteq> 0" and "i < 16" and "gpt_valid (ps ! i)"
    and "e = read_at (1024 + 128 * i) 128 primary"
  shows "read_at 0 16 e = gpt_type (ps ! i) \<and> read_at 16 16 e = gpt_guid (ps ! i) \<and>
    load_le64 (read_at 32 8 e) = gpt_first_lba (ps ! i) \<and>
    load_le64 (read_at 40 8 e) = gpt_last_lba (ps ! i) num_blocks \<and>
    load_le64 (read_at 48 8 e) = gpt_flags (ps ! i) \<and> read_at 56 72 e = gpt_name (ps ! i)"
proof -
  obtain guid crc where p: "length guid = 16"
      "primary = create_protective_mbr num_blocks @ create_gpt_header (gpt_primary_header guid crc num_blocks)
        @ gpt_table_bytes ps num_blocks"
    by (rule gpt_create_cfg_E [OF assms(1)]) (use assms(2,3) in auto)
  note ok = gpt_cfg_to_partitions_ok [OF assms(2)]
  have oki: "gpt_partition_ok (ps ! i)" using ok assms(4) by (simp add: list_all_length)
  have h: "length (create_gpt_header (gpt_primary_header guid crc num_blocks)) = 512"
    using create_gpt_header_lbas(3) [of "gpt_primary_header guid crc num_blocks"] p(1)
    by (simp add: gpt_primary_header_def)
  have "e = read_at (128 * i) 128 (create_partitions ps num_blocks)"
    using assms(4) h ok length_create_partitions [OF ok(1), of num_blocks]
    by (simp add: assms(6) p(2) read_at_append_right gpt_table_bytes_def Let_def read_at_append_left)
  also have "\<dots> = gpt_create_partition (ps ! i) num_blocks"
    using read_create_partitions [OF ok(1), of i] ok(2) assms(4,5) by simp
  finally show ?thesis
    using oki by (simp add: gpt_create_partition_def gpt_partition_ok_def read_at_def)
qed


definition sample_gpt_cfg :: cfg where
  "sample_gpt_cfg =
     Cfg ''gpt-a'' (\<lambda>_. 0) (\<lambda>_. []) (\<lambda>k. Some (uuid_to_string_be fwup_uuid)) (\<lambda>_. []) (\<lambda>_. False)
       (\<lambda>k. [Cfg ''0'' (\<lambda>_. 100) (\<lambda>_. [])
          (\<lambda>k. if k = ''block-offset'' then Some ''63'' else if k = ''flags'' then Some ''0''
                else Some (uuid_to_string_be fwup_uuid)) (\<lambda>_. []) (\<lambda>k. k = ''boot'') (\<lambda>_. [])])"

lemma sample_gpt_cfg_partitions:
  "\<exists>p secs'. gpt_cfg_to_partitions False (cfg_secs sample_gpt_cfg ''partition'') =
     Inr ((replicate 16 zero_gpt_partition)[0 := p], [0], secs') \<and> gpt_valid p"
proof -
  note strtoull_simps = strtoull_def signed_magnitude_def magnitude_def isspace_def hex_prefix_def
    starts_digit_def digit_val_def Let_def
  have s: "strtoull ''0'' = (0, [], False)" "strtoull ''63'' = (63, [], False)"
    by (simp_all add: strtoull_simps)
  have u: "string_to_uuid_me (uuid_to_string_be fwup_uuid) = Inr (me_swap fwup_uuid)"
    by (rule string_to_uuid_me_be) (simp add: fwup_uuid_def)
  show ?thesis
    by (simp add: gpt_cfg_to_partitions_def sample_gpt_cfg_def s u gpt_cfg_partition_def gpt_uuid_field_def
        gpt_cfg_name_def gpt_cfg_offset_def gpt_cfg_flags_def Let_def gpt_sizes,
        rule exI, rule conjI, rule refl, simp)
qed

lemma sample_gpt_cfg_created: "\<exists>r. gpt_create_cfg False sample_gpt_cfg n = Inr r"
proof -
  have u: "string_to_uuid_me (uuid_to_string_be fwup_uuid) = Inr (me_swap fwup_uuid)"
    by (rule string_to_uuid_me_be) (simp add: fwup_uuid_def)
  have "gpt_uuid_field sample_gpt_cfg ''guid'' [] = Inr (me_swap fwup_uuid)"
    by (simp add: gpt_uuid_field_def sample_gpt_cfg_def u)
  then show ?thesis using sample_gpt_cfg_partitions by (auto simp: gpt_create_cfg_def Let_def)
qed


theorem gpt_create_cfg_entry_witness:
  "\<exists>primary secondary off (p :: gpt_partition). gpt_create_cfg False sample_gpt_cfg 1000 = Inr (primary, secondary, off) \<and>
     gpt_valid p \<and> load_le64 (read_at 48 8 (read_at 1024 128 primary)) = gpt_flags p"
proof -
  obtain primary secondary off where r: "gpt_create_cfg False sample_gpt_cfg 1000 = Inr (primary, secondary, off)"
    using sample_gpt_cfg_created [of 1000] by (metis prod.exhaust)
  obtain p secs' where c: "gpt_cfg_to_partitions False (cfg_secs sample_gpt_cfg ''partition'') =
     Inr ((replicate 16 zero_gpt_partition)[0 := p], [0], secs')" and v: "gpt_valid p"
    using sample_gpt_cfg_partitions by blast
  have "load_le64 (read_at 48 8 (read_at 1024 128 primary)) = gpt_flags p"
    using gpt_create_cfg_entry [OF r c, of 0] v by simp
  then show ?thesis using v r by blast
qed

section \<open>The rewritten configuration\<close>

lemma gpt_cfg_partition_rewritten:
  assumes "gpt_cfg_partition False sec = Inr (p, sec')"
  shows "gpt_cfg_partition False sec' = Inr (p, sec') \<and> cfg_title sec' = cfg_title sec"
proof (cases "cfg_getbool sec ''boot''")
  case False
  then have "sec' = sec" using assms by (auto simp: gpt_cfg_partition_def res_simps Let_def split: if_splits)
  then show ?thesis using assms by simp
next
  case True
  have "unat w < 2 ^ 64" for w :: u64 using unsigned_less [of w, where 'a = nat] by simp
  then have x: "strtoull (CHR ''0'' # CHR ''x'' # show_hex (unat w)) = (w, [], False)" for w :: u64
    using strtoull_show_hex [of "unat w"] by simp
  have k: "gpt_uuid_field sec' ''type'' m = gpt_uuid_field sec ''type'' m"
      "gpt_uuid_field sec' ''guid'' m = gpt_uuid_field sec ''guid'' m"
      "gpt_cfg_name sec' = gpt_cfg_name sec" "gpt_cfg_offset sec' = gpt_cfg_offset sec"
      "gpt_cfg_flags False sec' = Inr w" "cfg_getbool sec' = (cfg_getbool sec)(''boot'' := False)"
      "cfg_getint sec' = cfg_getint sec" "cfg_title sec' = cfg_title sec"
    if "sec' = cfg_setbool (cfg_setstr sec ''flags'' (''0x'' @ show_hex (unat w))) ''boot'' False" for w m
    by (simp_all add: that x gpt_uuid_field_def gpt_cfg_name_def gpt_cfg_offset_def gpt_cfg_flags_def)
  obtain w where w: "sec' = cfg_setbool (cfg_setstr sec ''flags'' (''0x'' @ show_hex (unat w))) ''boot'' False"
      "gpt_flags p = w"
    using assms True by (auto simp: gpt_cfg_partition_def bind_res_eq_Inr Let_def split: if_splits)
  show ?thesis
    using assms True w(2) k [OF w(1)]
    by (auto simp: gpt_cfg_partition_def bind_res_eq_Inr Let_def split: if_splits)
qed

lemma gpt_cfg_loop_rewritten:
  "gpt_cfg_loop False secs found ps = Inr (ps', f, secs') \<Longrightarrow>
   gpt_cfg_loop False secs' found ps = Inr (ps', f, secs')"
proof (induction secs arbitrary: found ps ps' f secs')
  case (Cons sec secs)
  define ix where "ix = unat (fst (strtoull (cfg_title sec)))"
  obtain p sec' secs'' where r: "ix < GPT_MAX_PARTITIONS" "ix \<notin> set found"
      "gpt_cfg_partition False sec = Inr (p, sec')"
      "gpt_cfg_loop False secs (ix # found) (ps[ix := p]) = Inr (ps', f, secs'')" "secs' = sec' # secs''"
    using Cons.prems by (auto simp: Let_def ix_def [symmetric] res_simps split: if_splits)
  then show ?case
    using Cons.IH [OF r(4)] gpt_cfg_partition_rewritten [OF r(3)] by (simp add: ix_def)
qed simp

text \<open>
  Parsing moves the \<open>boot\<close> option of a partition into the text of its \<open>flags\<close> for older
  versions of the program; parsing the rewritten configuration gives the same partitions and
  changes nothing more.
\<close>

theorem gpt_boot_rewrite_idempotent:
  assumes "gpt_cfg_to_partitions False secs = Inr (ps, found, secs')"
  shows "gpt_cfg_to_partitions False secs' = Inr (ps, found, secs')"
  using assms gpt_cfg_loop_rewritten by (simp add: gpt_cfg_to_partitions_def)

theorem gpt_boot_rewrite_idempotent_witness:
  "\<exists>ps secs'. gpt_cfg_to_partitions False (cfg_secs sample_gpt_cfg ''partition'') = Inr (ps, [0], secs') \<and>
     gpt_cfg_to_partitions False secs' = Inr (ps, [0], secs')"
  using sample_gpt_cfg_partitions gpt_boot_rewrite_idempotent by meson

end
