(* ===== verification/Block_Store.thy ===== *)
theory Block_Store
  imports Prelude
begin

text \<open>
  The interface between the block cache and its clients (raw writes, partition tables, the U-Boot
  environment, file systems): an array of bytes that is read and written in ranges. A client
  relies on two laws, that a read returns the contents and changes nothing, and that a write of
  whole 512 byte blocks replaces a range. Both speak of operations that succeed, and of the
  addresses that the medium has.
\<close>

definition store_bytes :: "byte list \<Rightarrow> nat \<Rightarrow> (nat \<Rightarrow> byte) \<Rightarrow> nat \<Rightarrow> byte" where
  "store_bytes buf offset m = (\<lambda>a. if offset \<le> a \<and> a < offset + length buf then buf ! (a - offset) else m a)"

lemma store_bytes_other:
  "a < offset \<or> offset + length buf \<le> a \<Longrightarrow> store_bytes buf offset m a = m a"
  by (auto simp: store_bytes_def)

lemma map_store_bytes_same: "map (store_bytes buf offset m) [offset..<offset + length buf] = buf"
  by (rule nth_equalityI) (auto simp: store_bytes_def)

fun run_writes :: "(byte list \<Rightarrow> nat \<Rightarrow> ('s, unit) action) \<Rightarrow> (byte list \<times> nat) list \<Rightarrow> ('s, unit) action" where
  "run_writes wr [] s = (Inr (), s)"
| "run_writes wr ((buf, off) # ws) s =
     (case wr buf off s of (Inl e, t) \<Rightarrow> (Inl e, t) | (Inr _, t) \<Rightarrow> run_writes wr ws t)"

definition aligned_write :: "byte list \<times> nat \<Rightarrow> bool" where
  "aligned_write w = (512 dvd snd w \<and> 512 dvd length (fst w))"

lemma fold_store_cong:
  "m a = m' a \<Longrightarrow> fold (\<lambda>(buf, off). store_bytes buf off) ws m a = fold (\<lambda>(buf, off). store_bytes buf off) ws m' a"
proof (induction ws arbitrary: m m')
  case (Cons w ws)
  obtain buf off where w: "w = (buf, off)" by (cases w)
  have "store_bytes buf off m a = store_bytes buf off m' a" by (simp add: store_bytes_def Cons.prems)
  from Cons.IH [of "store_bytes buf off m" "store_bytes buf off m'", OF this] show ?case by (simp add: w)
qed simp

locale block_store =
  fixes ok :: "'s \<Rightarrow> bool"
    and contents :: "'s \<Rightarrow> nat \<Rightarrow> byte"
    and addressable :: "'s \<Rightarrow> nat \<Rightarrow> bool"
    and rd :: "nat \<Rightarrow> nat \<Rightarrow> ('s, byte list) action"
    and wr :: "byte list \<Rightarrow> nat \<Rightarrow> ('s, unit) action"
  assumes rd_law: "rd n off s = (Inr out, t) \<Longrightarrow> ok s \<Longrightarrow>
      (\<forall>a. off \<le> a \<and> a < off + n \<longrightarrow> addressable s a) \<Longrightarrow>
      ok t \<and> addressable t = addressable s \<and> (\<forall>a. addressable s a \<longrightarrow> contents t a = contents s a) \<and>
      out = map (contents s) [off..<off + n]"
    and wr_law: "wr buf off s = (Inr u, t) \<Longrightarrow> ok s \<Longrightarrow> 512 dvd off \<Longrightarrow> 512 dvd length buf \<Longrightarrow>
      ok t \<and> addressable t = addressable s \<and>
      (\<forall>a. addressable s a \<longrightarrow> contents t a = store_bytes buf off (contents s) a)"
begin

lemma run_writes_law:
  "run_writes wr ws s = (Inr u, t) \<Longrightarrow> ok s \<Longrightarrow> list_all aligned_write ws \<Longrightarrow>
   ok t \<and> addressable t = addressable s \<and>
   (\<forall>a. addressable s a \<longrightarrow> contents t a = fold (\<lambda>(buf, off). store_bytes buf off) ws (contents s) a)"
proof (induction ws arbitrary: s)
  case (Cons w ws)
  obtain buf off where w: "w = (buf, off)" by (cases w)
  obtain s1 where s1: "wr buf off s = (Inr (), s1)" and r: "run_writes wr ws s1 = (Inr u, t)"
    using Cons.prems(1) by (auto simp: w split: prod.splits sum.splits)
  have "aligned_write w" and als: "list_all aligned_write ws" using Cons.prems(3) by simp_all
  then have al: "512 dvd off" "512 dvd length buf" by (simp_all add: w aligned_write_def)
  note l = wr_law [OF s1 Cons.prems(2) al]
  have IH: "ok t" "addressable t = addressable s1"
    "\<forall>a. addressable s1 a \<longrightarrow> contents t a = fold (\<lambda>(buf, off). store_bytes buf off) ws (contents s1) a"
    using Cons.IH [OF r _ als] l by blast+
  have "contents t a = fold (\<lambda>(buf, off). store_bytes buf off) (w # ws) (contents s) a" if "addressable s a" for a
    using that IH(3) l fold_store_cong [of "contents s1" a "store_bytes buf off (contents s)" ws] by (simp add: w)
  then show ?case using IH l by simp
qed simp

lemma read_back:
  assumes "wr buf off s = (Inr u, t)" and "rd (length buf) off t = (Inr out, v)" and "ok s"
    and "512 dvd off" and "512 dvd length buf"
    and "\<forall>a. off \<le> a \<and> a < off + length buf \<longrightarrow> addressable s a"
  shows "out = buf"
proof -
  note w = wr_law [OF assms(1,3-5)]
  have "out = map (contents t) [off..<off + length buf]" using rd_law [OF assms(2)] w assms(6) by auto
  also have "\<dots> = map (store_bytes buf off (contents s)) [off..<off + length buf]"
    using w assms(6) by simp
  finally show ?thesis by (simp add: map_store_bytes_same)
qed

lemma write_frame:
  assumes "wr buf off s = (Inr u, t)" and "rd n a t = (Inr out, v)" and "ok s"
    and "512 dvd off" and "512 dvd length buf"
    and "\<forall>b. a \<le> b \<and> b < a + n \<longrightarrow> addressable s b"
    and "a + n \<le> off \<or> off + length buf \<le> a"
  shows "out = map (contents s) [a..<a + n]"
proof -
  note w = wr_law [OF assms(1,3-5)]
  have "out = map (contents t) [a..<a + n]" using rd_law [OF assms(2)] w assms(6) by auto
  also have "\<dots> = map (contents s) [a..<a + n]"
    using w assms(6,7) by (auto simp: store_bytes_other)
  finally show ?thesis .
qed

end

end
