(* ===== verification/Block_Cache.thy ===== *)
theory Block_Cache
  imports Util Block_Store
begin

text \<open>
  \<open>src/src/block_cache.c\<close>: the write-back cache of 128 KiB segments between all operations and the
  destination. \<open>block_cache\<close> is the C structure; its file descriptor \<open>fd\<close> is a \<open>device\<close>, the
  operating system's side of \<open>pread\<close> and \<open>pwrite\<close>: contents, size, and the faults it may have.
  Offsets are non-negative. The contents of a segment and of the device are functions from
  positions to bytes; the flags of a segment are the 64 bytes with two bits per block of the
  source; the array of trim bits is a function from segment numbers to bits, of which those of
  the first \<open>trimmed_len\<close> bytes exist: an access past them is \<open>Undefined\<close>. The temporary buffers
  \<open>read_temp\<close> and \<open>verify_temp\<close> carry nothing from one call to the next and are local here.

  Both builds are covered. Without threads (\<open>use_pthreads = False\<close>) a write happens when it is
  requested. With them, \<open>do_async_write\<close> leaves the segment in \<open>seg_to_write\<close> for the worker,
  \<open>writer_step\<close> is one turn of the worker's loop, and the functions that wait for the worker
  run it. The worker may also run at any time between two operations (\<open>cache_step\<close> below).
\<close>

definition BLOCK_CACHE_SEGMENT_SIZE :: nat where "BLOCK_CACHE_SEGMENT_SIZE = 128 * 1024"
definition FWUP_BLOCK_SIZE :: nat where "FWUP_BLOCK_SIZE = 512"
definition BLOCK_CACHE_BLOCKS_PER_SEGMENT :: nat where
  "BLOCK_CACHE_BLOCKS_PER_SEGMENT = BLOCK_CACHE_SEGMENT_SIZE div FWUP_BLOCK_SIZE"

lemma segment_size [simp]: "BLOCK_CACHE_SEGMENT_SIZE = 131072"
  by (simp add: BLOCK_CACHE_SEGMENT_SIZE_def)

lemma block_size [simp]: "FWUP_BLOCK_SIZE = 512"
  by (simp add: FWUP_BLOCK_SIZE_def)

lemma blocks_per_segment [simp]: "BLOCK_CACHE_BLOCKS_PER_SEGMENT = 256"
  by (simp add: BLOCK_CACHE_BLOCKS_PER_SEGMENT_def)

definition segment_floor :: "nat \<Rightarrow> nat" where
  "segment_floor offset = offset - offset mod BLOCK_CACHE_SEGMENT_SIZE"

definition segment_ceil :: "nat \<Rightarrow> nat" where
  "segment_ceil offset = segment_floor (offset + BLOCK_CACHE_SEGMENT_SIZE - 1)"

section \<open>The device\<close>

text \<open>
  \<open>dev_read_ok\<close> says whether a read at an offset succeeds, \<open>dev_write_limit\<close> how many bytes a write
  at an offset completes, \<open>dev_store\<close> what the medium really keeps of a byte written to an address
  (the identity on a good medium), \<open>dev_after_trim\<close> what it holds once trimmed. A write past the
  end of a file extends it, and the gap reads as zeros. \<open>dev_log\<close> lists the offsets and lengths of the writes, the most recent first.
\<close>

record device =
  dev_bytes :: "nat \<Rightarrow> byte"
  dev_size :: nat
  dev_read_ok :: "nat \<Rightarrow> bool"
  dev_write_limit :: "nat \<Rightarrow> nat"
  dev_store :: "nat \<Rightarrow> byte \<Rightarrow> byte"
  dev_after_trim :: "nat \<Rightarrow> byte"
  dev_log :: "(nat \<times> nat) list"

definition dev_pread :: "device \<Rightarrow> nat \<Rightarrow> nat \<Rightarrow> nat option" where
  "dev_pread d count offset =
     (if dev_read_ok d offset then Some (min count (dev_size d - offset)) else None)"

definition dev_pwrite :: "(nat \<Rightarrow> byte) \<Rightarrow> nat \<Rightarrow> nat \<Rightarrow> device \<Rightarrow> nat \<times> device" where
  "dev_pwrite data count offset d =
     (let n = min count (dev_write_limit d offset) in
      (n, d\<lparr>dev_bytes := (\<lambda>a. if offset \<le> a \<and> a < offset + n then dev_store d a (data (a - offset))
                               else if n > 0 \<and> a \<ge> dev_size d then 0 else dev_bytes d a),
            dev_size := (if n > 0 then max (dev_size d) (offset + n) else dev_size d),
            dev_log := (offset, count) # dev_log d\<rparr>))"

definition mmc_trim :: "nat \<Rightarrow> nat \<Rightarrow> device \<Rightarrow> device" where
  "mmc_trim offset count d =
     d\<lparr>dev_bytes := (\<lambda>a. if offset \<le> a \<and> a < offset + count then dev_after_trim d a else dev_bytes d a)\<rparr>"

section \<open>Data\<close>

record block_cache_segment =
  in_use :: bool
  seg_data :: "nat \<Rightarrow> byte"
  seg_offset :: nat
  last_access :: u32
  streamed :: bool
  seg_flags :: "byte list"

record block_cache =
  fd :: device
  verify_writes :: bool
  minimize_writes :: bool
  timestamp :: u32
  segments :: "block_cache_segment list"
  trimmed_len :: nat
  trimmed_end_offset :: nat
  trimmed :: "nat \<Rightarrow> bool"
  trimmed_remainder :: bool
  hw_trim_enabled :: bool
  end_offset :: nat
  is_soft_end_offset :: bool
  decrypt_callback :: "((nat \<Rightarrow> byte) \<Rightarrow> nat \<Rightarrow> nat \<Rightarrow> nat \<Rightarrow> byte) option"
  use_pthreads :: bool
  seg_to_write :: "nat option"
  bad_offset :: "nat option"

abbreviation seg_at :: "block_cache \<Rightarrow> nat \<Rightarrow> block_cache_segment" where
  "seg_at bc i \<equiv> segments bc ! i"

definition upd_seg :: "nat \<Rightarrow> (block_cache_segment \<Rightarrow> block_cache_segment) \<Rightarrow> block_cache \<Rightarrow> block_cache" where
  "upd_seg i f bc = bc\<lparr>segments := (segments bc)[i := f (seg_at bc i)]\<rparr>"

section \<open>Trim bits\<close>

definition enlarge_trim_bitvector :: "nat \<Rightarrow> block_cache \<Rightarrow> block_cache" where
  "enlarge_trim_bitvector ix bc =
     (let newlength = (ix + 4095) - (ix + 4095) mod 4096 in
      bc\<lparr>trimmed := (\<lambda>s. if s div 8 < trimmed_len bc then trimmed bc s else trimmed_remainder bc),
         trimmed_len := newlength\<rparr>)"

definition is_trimmed :: "block_cache \<Rightarrow> nat \<Rightarrow> bool" where
  "is_trimmed bc offset =
     (let segment_ix = offset div BLOCK_CACHE_SEGMENT_SIZE in
      if segment_ix div 8 \<ge> trimmed_len bc then trimmed_remainder bc else trimmed bc segment_ix)"

definition clear_trimmed :: "nat \<Rightarrow> (block_cache, unit) action" where
  "clear_trimmed offset bc =
     (let segment_ix = offset div BLOCK_CACHE_SEGMENT_SIZE; bit_ix = segment_ix div 8 in
      if bit_ix \<ge> trimmed_len bc \<and> \<not> trimmed_remainder bc then (Inr (), bc)
      else
        (let bc' = (if bit_ix \<ge> trimmed_len bc then enlarge_trim_bitvector bit_ix bc else bc) in
         if bit_ix \<ge> trimmed_len bc' then (Inl (Undefined ''trimmed[bit_ix]''), bc')
         else (Inr (), bc'\<lparr>trimmed := (trimmed bc')(segment_ix := False)\<rparr>)))"

section \<open>Flags of a segment\<close>

definition set_dirty :: "nat \<Rightarrow> block_cache_segment \<Rightarrow> block_cache_segment" where
  "set_dirty block seg =
     seg\<lparr>seg_flags := (seg_flags seg)[block div 4 := seg_flags seg ! (block div 4) OR
       push_bit (2 * (block mod 4)) 0x3]\<rparr>"

definition clear_all_dirty :: "block_cache_segment \<Rightarrow> block_cache_segment" where
  "clear_all_dirty seg = seg\<lparr>seg_flags := map (\<lambda>f. f AND 0xaa) (seg_flags seg)\<rparr>"

definition is_segment_dirty :: "block_cache_segment \<Rightarrow> bool" where
  "is_segment_dirty seg = (fold (OR) (seg_flags seg) 0 AND 0x55 \<noteq> 0)"

definition is_segment_completely_dirty :: "block_cache_segment \<Rightarrow> bool" where
  "is_segment_completely_dirty seg = (fold (AND) (seg_flags seg) 0x55 = 0x55)"

definition check_segment_validity :: "block_cache_segment \<Rightarrow> bool \<times> bool" where
  "check_segment_validity seg =
     (let andflags = fold (AND) (seg_flags seg) 0xaa; orflags = fold (OR) (seg_flags seg) 0 in
      (andflags = 0xaa, orflags AND 0xaa = 0))"

definition set_valid :: "nat \<Rightarrow> block_cache_segment \<Rightarrow> block_cache_segment" where
  "set_valid block seg =
     seg\<lparr>seg_flags := (seg_flags seg)[block div 4 := seg_flags seg ! (block div 4) OR
       push_bit (2 * (block mod 4)) 0x2]\<rparr>"

definition set_all_valid :: "block_cache_segment \<Rightarrow> block_cache_segment" where
  "set_all_valid seg = seg\<lparr>seg_flags := replicate 64 0xaa\<rparr>"

definition is_valid :: "block_cache_segment \<Rightarrow> nat \<Rightarrow> bool" where
  "is_valid seg block =
     (seg_flags seg ! (block div 4) AND push_bit (2 * (block mod 4)) 0x2 \<noteq> 0)"

definition init_segment :: "nat \<Rightarrow> nat \<Rightarrow> block_cache \<Rightarrow> block_cache" where
  "init_segment offset i bc =
     (upd_seg i (\<lambda>seg. \<lparr>in_use = True, seg_data = seg_data seg, seg_offset = offset,
        last_access = timestamp bc, streamed = True, seg_flags = replicate 64 0\<rparr>) bc)
       \<lparr>timestamp := timestamp bc + 1\<rparr>"

section \<open>Input and output of segments\<close>

definition calculate_io_size :: "nat \<Rightarrow> (block_cache, nat) action" where
  "calculate_io_size offset bc =
     (let last_offset = offset + BLOCK_CACHE_SEGMENT_SIZE in
      if end_offset bc > 0 \<and> \<not> is_soft_end_offset bc then
        (if last_offset \<le> end_offset bc then (Inr BLOCK_CACHE_SEGMENT_SIZE, bc)
         else if offset \<le> end_offset bc then (Inr (end_offset bc - offset), bc)
         else (Inl (Msg ''read/write failed since past end of media''), bc))
      else (Inr BLOCK_CACHE_SEGMENT_SIZE,
            if is_soft_end_offset bc \<and> end_offset bc > 0 \<and> last_offset > end_offset bc
            then bc\<lparr>end_offset := last_offset\<rparr> else bc))"

definition read_segment :: "nat \<Rightarrow> (block_cache, nat \<Rightarrow> byte) action" where
  "read_segment offset bc =
     (if is_trimmed bc offset then (Inr (\<lambda>_. 0), bc)
      else ok_then (calculate_io_size offset) (\<lambda>count bc.
        case dev_pread (fd bc) count offset of
          None \<Rightarrow> (Inl (Msg ''unexpected error reading''), bc)
        | Some bytes_read \<Rightarrow>
            (let data = (\<lambda>k. if k < bytes_read then dev_bytes (fd bc) (offset + k) else 0) in
             (Inr (case decrypt_callback bc of None \<Rightarrow> data | Some f \<Rightarrow> f data count offset), bc))) bc)"

text \<open>The loop that merges the blocks read into the blocks that are not valid.\<close>

definition merge_block :: "(nat \<Rightarrow> byte) \<Rightarrow> nat \<Rightarrow> block_cache_segment \<Rightarrow> block_cache_segment" where
  "merge_block temp i seg =
     (if is_valid seg i then seg
      else set_valid i (seg\<lparr>seg_data := (\<lambda>k. if i * FWUP_BLOCK_SIZE \<le> k \<and> k < (i + 1) * FWUP_BLOCK_SIZE
                                               then temp k else seg_data seg k)\<rparr>))"

definition make_segment_valid :: "nat \<Rightarrow> (block_cache, unit) action" where
  "make_segment_valid i bc =
     (let (all_valid, all_invalid) = check_segment_validity (seg_at bc i) in
      if all_invalid then
        ok_then (read_segment (seg_offset (seg_at bc i))) (\<lambda>data bc.
          (Inr (), upd_seg i (\<lambda>seg. set_all_valid (seg\<lparr>seg_data := data\<rparr>)) bc)) bc
      else if \<not> all_valid then
        ok_then (read_segment (seg_offset (seg_at bc i))) (\<lambda>temp bc.
          (Inr (), upd_seg i (fold (merge_block temp) [0..<BLOCK_CACHE_BLOCKS_PER_SEGMENT]) bc)) bc
      else (Inr (), bc))"

definition same_on_device :: "block_cache \<Rightarrow> (nat \<Rightarrow> byte) \<Rightarrow> nat \<Rightarrow> nat \<Rightarrow> bool" where
  "same_on_device bc data count offset =
     list_all (\<lambda>k. data k = dev_bytes (fd bc) (offset + k)) [0..<count]"

definition verified_segment_write :: "nat \<Rightarrow> (block_cache, unit) action" where
  "verified_segment_write i bc =
     (let offset = seg_offset (seg_at bc i); data = seg_data (seg_at bc i) in
      ok_then (calculate_io_size offset) (\<lambda>count bc.
        if minimize_writes bc \<and> dev_pread (fd bc) count offset = Some count \<and>
           same_on_device bc data count offset then (Inr (), bc)
        else
          (let (written, d) = dev_pwrite data count offset (fd bc); bc' = bc\<lparr>fd := d\<rparr> in
           if written \<noteq> count then (Inl (Msg ''writing failed. Check media size.''), bc')
           else if verify_writes bc then
             (if dev_pread d count offset \<noteq> Some count then (Inl (Msg ''read back failed''), bc')
              else if \<not> same_on_device bc' data count offset
                then (Inl (Msg ''write verification failed''), bc')
              else (Inr (), bc'))
           else (Inr (), bc'))) bc)"

section \<open>The writer thread\<close>

definition writer_step :: "block_cache \<Rightarrow> block_cache" where
  "writer_step bc =
     (case seg_to_write bc of
        None \<Rightarrow> bc
      | Some i \<Rightarrow>
          (if bad_offset bc = None then
             (case verified_segment_write i bc of
                (Inl _, bc') \<Rightarrow> bc'\<lparr>bad_offset := Some (seg_offset (seg_at bc i)), seg_to_write := None\<rparr>
              | (Inr _, bc') \<Rightarrow> bc'\<lparr>seg_to_write := None\<rparr>)
           else bc\<lparr>seg_to_write := None\<rparr>))"

definition check_async_error :: "(block_cache, unit) action" where
  "check_async_error bc =
     (if bad_offset bc \<noteq> None then (Inl (Msg ''write failed. Check media size.''), bc) else (Inr (), bc))"

definition wait_for_write_completion :: "nat \<Rightarrow> block_cache \<Rightarrow> block_cache" where
  "wait_for_write_completion i bc =
     (if use_pthreads bc \<and> seg_to_write bc = Some i then writer_step bc else bc)"

definition do_sync_write :: "nat \<Rightarrow> (block_cache, unit) action" where
  "do_sync_write i bc =
     (if \<not> use_pthreads bc then verified_segment_write i bc
      else ok_then check_async_error (\<lambda>_ bc.
        if seg_to_write bc = Some i then check_async_error (writer_step bc)
        else (case verified_segment_write i bc of
                (Inl e, bc') \<Rightarrow> (Inl e, bc'\<lparr>bad_offset := Some (seg_offset (seg_at bc i))\<rparr>)
              | (Inr _, bc') \<Rightarrow> (Inr (), bc'))) bc)"

definition do_async_write :: "nat \<Rightarrow> (block_cache, unit) action" where
  "do_async_write i bc =
     (if \<not> use_pthreads bc then do_sync_write i bc
      else ok_then check_async_error (\<lambda>_ bc.
        check_async_error ((writer_step bc)\<lparr>seg_to_write := Some i\<rparr>)) bc)"

section \<open>Operations\<close>

definition flush_segment :: "nat \<Rightarrow> (block_cache, unit) action" where
  "flush_segment i bc =
     (if \<not> in_use (seg_at bc i) \<or> \<not> is_segment_dirty (seg_at bc i) then (Inr (), bc)
      else
        (let (rc, bc') = ok_then (make_segment_valid i) (\<lambda>_. do_sync_write i) bc;
             (c, bc'') = clear_trimmed (seg_offset (seg_at bc i)) (upd_seg i clear_all_dirty bc')
         in (case c of Inl u \<Rightarrow> Inl u | Inr _ \<Rightarrow> rc, bc'')))"

fun find_segment :: "nat \<Rightarrow> nat \<Rightarrow> block_cache_segment list \<Rightarrow> nat option" where
  "find_segment offset i [] = None"
| "find_segment offset i (seg # segs) =
     (if in_use seg \<and> seg_offset seg = offset then Some i else find_segment offset (Suc i) segs)"

text \<open>The search for an unused segment (\<open>Inl\<close>) or the least recently used one (\<open>Inr\<close>).\<close>

fun find_victim :: "nat \<Rightarrow> u32 \<Rightarrow> nat \<Rightarrow> block_cache_segment list \<Rightarrow> nat + nat" where
  "find_victim lru lru_access i [] = Inr lru"
| "find_victim lru lru_access i (seg # segs) =
     (if \<not> in_use seg then Inl i
      else if last_access seg < lru_access then find_victim i (last_access seg) (Suc i) segs
      else find_victim lru lru_access (Suc i) segs)"

definition get_segment :: "nat \<Rightarrow> (block_cache, nat) action" where
  "get_segment offset bc =
     (case find_segment offset 0 (segments bc) of
        Some i \<Rightarrow>
          (let bc' = wait_for_write_completion i bc in
           (Inr i, (upd_seg i (\<lambda>seg. seg\<lparr>last_access := timestamp bc'\<rparr>) bc')
              \<lparr>timestamp := timestamp bc' + 1\<rparr>))
      | None \<Rightarrow>
          if \<not> in_use (seg_at bc 0) then (Inr 0, init_segment offset 0 bc)
          else (case find_victim 0 (last_access (seg_at bc 0)) 1 (tl (segments bc)) of
                  Inl i \<Rightarrow> (Inr i, init_segment offset i bc)
                | Inr lru \<Rightarrow> ok_then (flush_segment lru) (\<lambda>_ bc. (Inr lru, init_segment offset lru bc)) bc))"

text \<open>
  \<open>block_cache_trim\<close>. The range of trim bits is set in three parts like in the source: the rest
  of the first byte, whole bytes, and the start of the last byte.
\<close>

definition set_bits :: "nat \<Rightarrow> nat \<Rightarrow> (nat \<Rightarrow> bool) \<Rightarrow> nat \<Rightarrow> bool" where
  "set_bits lo hi t = (\<lambda>s. t s \<or> (lo \<le> s \<and> s < hi))"

definition set_trimmed_range :: "nat \<Rightarrow> nat \<Rightarrow> (block_cache, unit) action" where
  "set_trimmed_range begin_segment_ix end_segment_ix bc =
     (let b = begin_segment_ix div 8; e = end_segment_ix div 8;
          outside = (if b = e then begin_segment_ix mod 8 < end_segment_ix mod 8 \<and> b \<ge> trimmed_len bc
                     else b \<ge> trimmed_len bc \<or> e > trimmed_len bc \<or>
                          (end_segment_ix mod 8 > 0 \<and> e \<ge> trimmed_len bc))
      in if outside then (Inl (Undefined ''trimmed[begin_bit_ix]''), bc)
         else if b = e then
           (Inr (), bc\<lparr>trimmed := set_bits (8 * b + begin_segment_ix mod 8) (8 * b + end_segment_ix mod 8) (trimmed bc)\<rparr>)
         else
           (Inr (), bc\<lparr>trimmed :=
              set_bits (8 * e) (8 * e + end_segment_ix mod 8)
                (set_bits (8 * (b + 1)) (8 * e)
                  (set_bits (8 * b + begin_segment_ix mod 8) (8 * b + 8) (trimmed bc)))\<rparr>))"

fun discard_segments :: "(nat \<Rightarrow> bool) \<Rightarrow> nat list \<Rightarrow> block_cache \<Rightarrow> block_cache" where
  "discard_segments P [] bc = bc"
| "discard_segments P (i # is) bc =
     discard_segments P is
       (if in_use (seg_at bc i) \<and> P (seg_offset (seg_at bc i))
        then upd_seg i (\<lambda>seg. seg\<lparr>in_use := False\<rparr>) (wait_for_write_completion i bc)
        else bc)"

definition block_cache_trim :: "nat \<Rightarrow> nat \<Rightarrow> bool \<Rightarrow> (block_cache, unit) action" where
  "block_cache_trim offset count0 hwtrim bc =
     (let aligned_offset = segment_ceil offset;
          count = segment_floor (count0 - (aligned_offset - offset)) in
      if count = 0 then (Inr (), bc)
      else
        (let finish = (\<lambda>bc. (Inr (), if hw_trim_enabled bc \<and> hwtrim
                                  then bc\<lparr>fd := mmc_trim aligned_offset count (fd bc)\<rparr> else bc))
         in if \<not> offset < trimmed_end_offset bc then finish bc
            else
              (let adjusted_count = (if offset + count \<le> trimmed_end_offset bc then count
                                     else trimmed_end_offset bc - offset);
                   begin_ix = aligned_offset div BLOCK_CACHE_SEGMENT_SIZE;
                   end_ix = begin_ix + adjusted_count div BLOCK_CACHE_SEGMENT_SIZE;
                   expand = end_ix div 8 > trimmed_len bc;
                   end_ix' = (if expand \<and> trimmed_remainder bc then trimmed_len bc * 8 else end_ix);
                   bc' = (if expand \<and> \<not> trimmed_remainder bc
                          then enlarge_trim_bitvector (end_ix div 8) bc else bc)
               in if expand \<and> trimmed_remainder bc \<and> begin_ix div 8 > trimmed_len bc then (Inr (), bc)
                  else ok_then (set_trimmed_range begin_ix end_ix') (\<lambda>_ bc.
                    finish (discard_segments (\<lambda>off. aligned_offset \<le> off \<and> off < aligned_offset + count)
                      [0..<length (segments bc)] bc)) bc')))"

definition block_cache_trim_after :: "nat \<Rightarrow> bool \<Rightarrow> (block_cache, unit) action" where
  "block_cache_trim_after offset hwtrim bc =
     (if offset > trimmed_end_offset bc then (Inr (), bc)
      else
        (let bc' = discard_segments (\<lambda>off. off \<ge> offset) [0..<length (segments bc)]
                     (bc\<lparr>trimmed_remainder := True\<rparr>)
         in block_cache_trim offset (trimmed_end_offset bc' - offset) hwtrim bc'))"

definition block_cache_init :: "device \<Rightarrow> nat \<Rightarrow> bool \<Rightarrow> bool \<Rightarrow> bool \<Rightarrow> bool \<Rightarrow> nat \<Rightarrow> bool \<Rightarrow>
    unit res \<times> block_cache" where
  "block_cache_init d end_off is_soft enable_trim verify minimize cache_size_mb pthreads =
     (let mb = (if cache_size_mb = 0 then 8 else cache_size_mb);
          n = mb * 1024 * 1024 div BLOCK_CACHE_SEGMENT_SIZE;
          bc = \<lparr>fd = d, verify_writes = verify, minimize_writes = minimize, timestamp = 0,
            segments = replicate (if n < 8 then 8 else n)
              \<lparr>in_use = False, seg_data = (\<lambda>_. 0), seg_offset = 0, last_access = 0, streamed = False,
               seg_flags = replicate 64 0\<rparr>,
            trimmed_len = 64 * 1024, trimmed_end_offset = 64 * 1024 * 8 * BLOCK_CACHE_SEGMENT_SIZE,
            trimmed = (\<lambda>_. False), trimmed_remainder = False, hw_trim_enabled = enable_trim,
            end_offset = end_off, is_soft_end_offset = is_soft, decrypt_callback = None,
            use_pthreads = pthreads, seg_to_write = None, bad_offset = None\<rparr>
      in if \<not> is_soft \<and> end_off > 0 then block_cache_trim_after (segment_ceil end_off) False bc
         else (Inr (), bc))"

definition block_cache_set_decrypt ::
  "((nat \<Rightarrow> byte) \<Rightarrow> nat \<Rightarrow> nat \<Rightarrow> nat \<Rightarrow> byte) option \<Rightarrow> block_cache \<Rightarrow> block_cache" where
  "block_cache_set_decrypt f bc = bc\<lparr>decrypt_callback := f\<rparr>"

definition block_cache_reset :: "block_cache \<Rightarrow> block_cache" where
  "block_cache_reset bc =
     (discard_segments (\<lambda>_. True) [0..<length (segments bc)] bc)\<lparr>bad_offset := None\<rparr>"

text \<open>The order of \<open>lrucompare\<close>: segments in use by \<open>last_access\<close>, then the others.\<close>

definition lru_key :: "block_cache \<Rightarrow> nat \<Rightarrow> nat" where
  "lru_key bc i = (if in_use (seg_at bc i) then unat (last_access (seg_at bc i)) else 2 ^ 32)"

fun flush_segments :: "nat list \<Rightarrow> (block_cache, unit) action" where
  "flush_segments [] bc = (Inr (), bc)"
| "flush_segments (i # is) bc =
     (case flush_segment i bc of (Inl e, bc') \<Rightarrow> (Inl e, bc') | (Inr _, bc') \<Rightarrow> flush_segments is bc')"

definition block_cache_flush :: "(block_cache, unit) action" where
  "block_cache_flush bc = flush_segments (sort_key (lru_key bc) [0..<length (segments bc)]) bc"

definition block_cache_free :: "(block_cache, unit) action" where
  "block_cache_free bc =
     (let bc' = (if use_pthreads bc then writer_step bc else bc) in
      (Inr (), bc'\<lparr>segments := map (\<lambda>seg. seg\<lparr>in_use := False\<rparr>) (segments bc')\<rparr>))"

section \<open>Reads and writes\<close>

definition block_segment_pwrite :: "nat \<Rightarrow> byte list \<Rightarrow> nat \<Rightarrow> bool \<Rightarrow> (block_cache, unit) action" where
  "block_segment_pwrite i buf offset_into_segment strm bc =
     (let block_start = offset_into_segment div FWUP_BLOCK_SIZE;
          block_end = block_start + length buf div FWUP_BLOCK_SIZE;
          bc' = upd_seg i (\<lambda>seg. fold set_dirty [block_start..<block_end]
                  (seg\<lparr>seg_data := store_bytes buf offset_into_segment (seg_data seg)\<rparr>)) bc
      in if strm \<and> streamed (seg_at bc' i) \<and> is_segment_completely_dirty (seg_at bc' i) then
           ok_then (do_async_write i) (\<lambda>_ bc.
             let bc'' = upd_seg i (\<lambda>seg. seg\<lparr>seg_flags := replicate 64 0xaa\<rparr>) bc
             in clear_trimmed (seg_offset (seg_at bc'' i)) bc'') bc'
         else (Inr (), if strm then bc' else upd_seg i (\<lambda>seg. seg\<lparr>streamed := False\<rparr>) bc'))"

function pwrite_loop :: "byte list \<Rightarrow> nat \<Rightarrow> bool \<Rightarrow> (block_cache, unit) action" where
  "pwrite_loop buf offset strm bc =
     (if buf = [] then (Inr (), bc)
      else case get_segment offset bc of
        (Inl e, bc') \<Rightarrow> (Inl e, bc')
      | (Inr i, bc') \<Rightarrow>
          (case block_segment_pwrite i (take BLOCK_CACHE_SEGMENT_SIZE buf) 0 strm bc' of
             (Inl e, bc'') \<Rightarrow> (Inl e, bc'')
           | (Inr _, bc'') \<Rightarrow>
               pwrite_loop (drop BLOCK_CACHE_SEGMENT_SIZE buf)
                 (offset + min (length buf) BLOCK_CACHE_SEGMENT_SIZE) strm bc''))"
  by pat_completeness auto
termination
  by (relation "measure (\<lambda>(buf, _, _, _). length buf)") auto

declare pwrite_loop.simps [simp del]

definition block_cache_pwrite :: "byte list \<Rightarrow> nat \<Rightarrow> bool \<Rightarrow> (block_cache, unit) action" where
  "block_cache_pwrite buf offset strm bc =
     (let first = segment_floor offset in
      if first \<noteq> offset then
        (let offset_into_segment = offset - first;
             segcount = min (length buf) (BLOCK_CACHE_SEGMENT_SIZE - offset_into_segment) in
         ok_then (get_segment first) (\<lambda>i.
         ok_then (block_segment_pwrite i (take segcount buf) offset_into_segment strm) (\<lambda>_.
           pwrite_loop (drop segcount buf) (offset + segcount) strm)) bc)
      else pwrite_loop buf offset strm bc)"

definition block_segment_pread :: "nat \<Rightarrow> nat \<Rightarrow> nat \<Rightarrow> (block_cache, byte list) action" where
  "block_segment_pread i count offset_into_segment =
     ok_then (make_segment_valid i) (\<lambda>_ bc.
       (Inr (map (seg_data (seg_at bc i)) [offset_into_segment..<offset_into_segment + count]), bc))"

function pread_loop :: "nat \<Rightarrow> nat \<Rightarrow> (block_cache, byte list) action" where
  "pread_loop count offset bc =
     (if count = 0 then (Inr [], bc)
      else case get_segment offset bc of
        (Inl e, bc') \<Rightarrow> (Inl e, bc')
      | (Inr i, bc') \<Rightarrow>
          (case block_segment_pread i (min count BLOCK_CACHE_SEGMENT_SIZE) 0 bc' of
             (Inl e, bc'') \<Rightarrow> (Inl e, bc'')
           | (Inr part, bc'') \<Rightarrow>
               (case pread_loop (count - min count BLOCK_CACHE_SEGMENT_SIZE)
                       (offset + min count BLOCK_CACHE_SEGMENT_SIZE) bc'' of
                  (Inl e, bc3) \<Rightarrow> (Inl e, bc3)
                | (Inr rest, bc3) \<Rightarrow> (Inr (part @ rest), bc3))))"
  by pat_completeness auto
termination
  by (relation "measure (\<lambda>(count, _, _). count)") auto

declare pread_loop.simps [simp del]

definition block_cache_pread :: "nat \<Rightarrow> nat \<Rightarrow> (block_cache, byte list) action" where
  "block_cache_pread count offset bc =
     (let first = segment_floor offset in
      if first \<noteq> offset then
        (let offset_into_segment = offset - first;
             segcount = min count (BLOCK_CACHE_SEGMENT_SIZE - offset_into_segment) in
         ok_then (get_segment first) (\<lambda>i.
         ok_then (block_segment_pread i segcount offset_into_segment) (\<lambda>part.
         ok_then (pread_loop (count - segcount) (offset + segcount)) (\<lambda>rest bc.
           (Inr (part @ rest), bc)))) bc)
      else pread_loop count offset bc)"

section \<open>The flags of a segment, bit by bit\<close>

definition blk_dirty :: "block_cache_segment \<Rightarrow> nat \<Rightarrow> bool" where
  "blk_dirty seg b = bit (seg_flags seg ! (b div 4)) (2 * (b mod 4))"

definition blk_valid :: "block_cache_segment \<Rightarrow> nat \<Rightarrow> bool" where
  "blk_valid seg b = bit (seg_flags seg ! (b div 4)) (2 * (b mod 4) + 1)"

lemma byte_const_bits:
  fixes n :: nat
  shows "bit (0xaa :: byte) n \<longleftrightarrow> n < 8 \<and> odd n" "bit (0x55 :: byte) n \<longleftrightarrow> n < 8 \<and> even n"
  "bit (3 :: byte) n \<longleftrightarrow> n = 0 \<or> n = 1" "bit (2 :: byte) n \<longleftrightarrow> n = 1"
proof -
  have out: "\<not> bit (w :: byte) n" if "8 \<le> n" for w using that by (simp add: impossible_bit)
  have cs: "n = 0 \<or> n = 1 \<or> n = 2 \<or> n = 3 \<or> n = 4 \<or> n = 5 \<or> n = 6 \<or> n = 7" if "n < 8"
    using that by linarith
  show "bit (0xaa :: byte) n \<longleftrightarrow> n < 8 \<and> odd n" using out cs by (cases "n < 8") auto
  show "bit (0x55 :: byte) n \<longleftrightarrow> n < 8 \<and> even n" using out cs by (cases "n < 8") auto
  show "bit (3 :: byte) n \<longleftrightarrow> n = 0 \<or> n = 1" using out cs by (cases "n < 8") auto
  show "bit (2 :: byte) n \<longleftrightarrow> n = 1" using out cs by (cases "n < 8") auto
qed

lemma byte_nonzero: "(w :: byte) \<noteq> 0 \<longleftrightarrow> (\<exists>n. bit w n)"
  by (metis bit_0_eq bot_apply bot_bool_def bit_word_eqI)

declare bit_numeral_word_iff [simp del]

lemma bit_fold_or: "bit (fold (OR) xs (a :: byte)) n \<longleftrightarrow> bit a n \<or> (\<exists>x \<in> set xs. bit x n)"
  by (induction xs arbitrary: a) (auto simp: bit_simps)

lemma bit_fold_and: "bit (fold (AND) xs (a :: byte)) n \<longleftrightarrow> bit a n \<and> (\<forall>x \<in> set xs. bit x n)"
  by (induction xs arbitrary: a) (auto simp: bit_simps)

lemma block_index:
  fixes b :: nat
  assumes "b < 256"
  shows "b div 4 < 64" and "2 * (b mod 4) + 1 < 8"
  using assms by (auto simp: div_less_iff_less_mult)

lemma same_block_index: "b div 4 = c div 4 \<Longrightarrow> b mod 4 = c mod 4 \<longleftrightarrow> b = (c :: nat)"
  by (metis div_mult_mod_eq)

lemma flags_set_dirty:
  assumes "length (seg_flags seg) = 64" and "b < 256" and "c < 256"
  shows "blk_dirty (set_dirty b seg) c \<longleftrightarrow> c = b \<or> blk_dirty seg c"
    and "blk_valid (set_dirty b seg) c \<longleftrightarrow> c = b \<or> blk_valid seg c"
proof -
  have l: "b div 4 < 64" "c div 4 < 64" and m: "2 * (c mod 4) + 1 < 8" using block_index assms by blast+
  have par: "Suc (2 * x) \<noteq> 2 * y" "2 * x \<noteq> Suc (2 * y)" for x y :: nat by presburger+
  show "blk_dirty (set_dirty b seg) c \<longleftrightarrow> c = b \<or> blk_dirty seg c"
    using l m assms(1) same_block_index [of b c] par
    by (cases "b div 4 = c div 4") (auto simp: blk_dirty_def set_dirty_def bit_simps byte_const_bits)
  show "blk_valid (set_dirty b seg) c \<longleftrightarrow> c = b \<or> blk_valid seg c"
    using l m assms(1) same_block_index [of b c] par
    by (cases "b div 4 = c div 4") (auto simp: blk_valid_def set_dirty_def bit_simps byte_const_bits)
qed

lemma flags_set_valid:
  assumes "length (seg_flags seg) = 64" and "b < 256" and "c < 256"
  shows "blk_dirty (set_valid b seg) c \<longleftrightarrow> blk_dirty seg c"
    and "blk_valid (set_valid b seg) c \<longleftrightarrow> c = b \<or> blk_valid seg c"
proof -
  have l: "b div 4 < 64" "c div 4 < 64" and m: "2 * (c mod 4) + 1 < 8" using block_index assms by blast+
  have par: "Suc (2 * x) \<noteq> 2 * y" "2 * x \<noteq> Suc (2 * y)" for x y :: nat by presburger+
  show "blk_dirty (set_valid b seg) c \<longleftrightarrow> blk_dirty seg c"
    using l m assms(1) same_block_index [of b c] par
    by (cases "b div 4 = c div 4") (auto simp: blk_dirty_def set_valid_def bit_simps byte_const_bits)
  show "blk_valid (set_valid b seg) c \<longleftrightarrow> c = b \<or> blk_valid seg c"
    using l m assms(1) same_block_index [of b c] par
    by (cases "b div 4 = c div 4") (auto simp: blk_valid_def set_valid_def bit_simps byte_const_bits)
qed

lemma flags_clear_all_dirty:
  assumes "length (seg_flags seg) = 64" and "c < 256"
  shows "\<not> blk_dirty (clear_all_dirty seg) c" and "blk_valid (clear_all_dirty seg) c \<longleftrightarrow> blk_valid seg c"
  using block_index [OF assms(2)] assms(1)
  by (auto simp: blk_dirty_def blk_valid_def clear_all_dirty_def bit_simps byte_const_bits)

lemma flags_all_aa:
  assumes "seg_flags seg = replicate 64 0xaa" and "c < 256"
  shows "\<not> blk_dirty seg c" and "blk_valid seg c"
  using block_index [OF assms(2)] assms(1)
  by (auto simp: blk_dirty_def blk_valid_def byte_const_bits)

lemma flags_all_zero:
  assumes "seg_flags seg = replicate 64 0" and "c < 256"
  shows "\<not> blk_dirty seg c" and "\<not> blk_valid seg c"
  using block_index [OF assms(2)] assms(1)
  by (auto simp: blk_dirty_def blk_valid_def)

lemma is_valid_iff:
  assumes "c < 256"
  shows "is_valid seg c \<longleftrightarrow> blk_valid seg c"
proof
  assume "is_valid seg c"
  then obtain n where n: "bit (seg_flags seg ! (c div 4)) n" "2 * (c mod 4) \<le> n" "n - 2 * (c mod 4) = 1"
    by (auto simp: is_valid_def byte_nonzero bit_simps byte_const_bits)
  then have "n = 2 * (c mod 4) + 1" by linarith
  then show "blk_valid seg c" using n by (simp add: blk_valid_def)
next
  assume "blk_valid seg c"
  then have "bit (seg_flags seg ! (c div 4) AND push_bit (2 * (c mod 4)) 2) (2 * (c mod 4) + 1)"
    using block_index(2) [OF assms] by (simp add: blk_valid_def bit_simps byte_const_bits)
  then show "is_valid seg c" unfolding is_valid_def byte_nonzero by blast
qed

lemma all_flag_bits:
  assumes "length (seg_flags seg) = 64"
  shows "(\<forall>x \<in> set (seg_flags seg). \<forall>n. n < 8 \<and> odd n \<longrightarrow> P (bit x n)) \<longleftrightarrow> (\<forall>b < 256. P (blk_valid seg b))"
    and "(\<forall>x \<in> set (seg_flags seg). \<forall>n. n < 8 \<and> even n \<longrightarrow> P (bit x n)) \<longleftrightarrow> (\<forall>b < 256. P (blk_dirty seg b))"
proof -
  have ix: "\<exists>b < 256. b div 4 = i \<and> b mod 4 = n div 2" if "i < 64" "n < 8" for i n :: nat
    by (rule exI [of _ "4 * i + n div 2"]) (use that in auto)
  show "(\<forall>x \<in> set (seg_flags seg). \<forall>n. n < 8 \<and> odd n \<longrightarrow> P (bit x n)) \<longleftrightarrow> (\<forall>b < 256. P (blk_valid seg b))"
  proof (intro iffI allI ballI impI)
    fix b :: nat assume "\<forall>x \<in> set (seg_flags seg). \<forall>n. n < 8 \<and> odd n \<longrightarrow> P (bit x n)" "b < 256"
    then show "P (blk_valid seg b)" using block_index [of b] assms by (simp add: blk_valid_def)
  next
    fix x :: byte and n :: nat assume a: "\<forall>b < 256. P (blk_valid seg b)" "x \<in> set (seg_flags seg)" "n < 8 \<and> odd n"
    then obtain i where i: "i < 64" "x = seg_flags seg ! i" by (metis assms in_set_conv_nth)
    with ix [of i n] a(3) obtain b where "b < 256" "b div 4 = i" "b mod 4 = n div 2" by auto
    then show "P (bit x n)" using a i by (force simp: blk_valid_def)
  qed
  show "(\<forall>x \<in> set (seg_flags seg). \<forall>n. n < 8 \<and> even n \<longrightarrow> P (bit x n)) \<longleftrightarrow> (\<forall>b < 256. P (blk_dirty seg b))"
  proof (intro iffI allI ballI impI)
    fix b :: nat assume "\<forall>x \<in> set (seg_flags seg). \<forall>n. n < 8 \<and> even n \<longrightarrow> P (bit x n)" "b < 256"
    then show "P (blk_dirty seg b)" using block_index [of b] assms by (simp add: blk_dirty_def)
  next
    fix x :: byte and n :: nat assume a: "\<forall>b < 256. P (blk_dirty seg b)" "x \<in> set (seg_flags seg)" "n < 8 \<and> even n"
    then obtain i where i: "i < 64" "x = seg_flags seg ! i" by (metis assms in_set_conv_nth)
    with ix [of i n] a(3) obtain b where "b < 256" "b div 4 = i" "b mod 4 = n div 2" by auto
    then show "P (bit x n)" using a i by (force simp: blk_dirty_def)
  qed
qed

lemma is_segment_dirty_iff:
  assumes "length (seg_flags seg) = 64"
  shows "is_segment_dirty seg \<longleftrightarrow> (\<exists>b < 256. blk_dirty seg b)"
proof -
  have "\<not> is_segment_dirty seg \<longleftrightarrow> (\<forall>x \<in> set (seg_flags seg). \<forall>n. n < 8 \<and> even n \<longrightarrow> \<not> bit x n)"
    by (auto simp: is_segment_dirty_def bit_eq_iff bit_simps bit_fold_or byte_const_bits)
  then show ?thesis using all_flag_bits(2) [OF assms, of Not] by blast
qed

lemma is_segment_completely_dirty_iff:
  assumes "length (seg_flags seg) = 64"
  shows "is_segment_completely_dirty seg \<longleftrightarrow> (\<forall>b < 256. blk_dirty seg b)"
proof -
  have "is_segment_completely_dirty seg \<longleftrightarrow> (\<forall>x \<in> set (seg_flags seg). \<forall>n. n < 8 \<and> even n \<longrightarrow> bit x n)"
    by (auto simp: is_segment_completely_dirty_def bit_eq_iff bit_fold_and byte_const_bits)
  then show ?thesis using all_flag_bits(2) [OF assms, of "\<lambda>x. x"] by blast
qed

lemma check_segment_validity_iff:
  assumes "length (seg_flags seg) = 64"
  shows "check_segment_validity seg = (\<forall>b < 256. blk_valid seg b, \<forall>b < 256. \<not> blk_valid seg b)"
proof -
  have "fst (check_segment_validity seg) \<longleftrightarrow> (\<forall>x \<in> set (seg_flags seg). \<forall>n. n < 8 \<and> odd n \<longrightarrow> bit x n)"
    by (auto simp: check_segment_validity_def bit_eq_iff bit_fold_and byte_const_bits Let_def)
  moreover have "snd (check_segment_validity seg) \<longleftrightarrow> (\<forall>x \<in> set (seg_flags seg). \<forall>n. n < 8 \<and> odd n \<longrightarrow> \<not> bit x n)"
    by (auto simp: check_segment_validity_def bit_eq_iff bit_simps bit_fold_or byte_const_bits Let_def)
  ultimately show ?thesis
    using all_flag_bits(1) [OF assms, of "\<lambda>x. x"] all_flag_bits(1) [OF assms, of Not]
    by (simp only: prod_eq_iff fst_conv snd_conv)
qed

declare bit_numeral_word_iff [simp]

end
