(* ===== verification/Cache_Refinement.thy ===== *)
theory Cache_Refinement
  imports Block_Cache
begin

text \<open>
  The contract of the block cache: a cache is a byte array. \<open>view\<close> is the array that a cache in
  some state represents: the valid blocks of its segments over the \<open>base\<close>, which is zero where the
  destination is trimmed or ends and the device's contents elsewhere. \<open>cache_ok\<close> is the invariant:
  its structure, and coherence (a block that is valid and not dirty equals the base, so that it
  may be forgotten). A successful operation keeps the invariant; reads return the view, writes
  update it, and eviction, read-modify-write and flushing leave it as it is. The refinement is
  for the build without threads, for a cache without decryption and a medium that keeps what is
  written to it or is verified (\<open>verify_writes\<close>), on the addresses in front of the end of the medium.
\<close>

definition hard_end :: "block_cache \<Rightarrow> bool" where
  "hard_end bc = (end_offset bc > 0 \<and> \<not> is_soft_end_offset bc)"

definition in_range :: "block_cache \<Rightarrow> nat \<Rightarrow> bool" where
  "in_range bc a = (hard_end bc \<longrightarrow> a < end_offset bc)"

definition raw :: "block_cache \<Rightarrow> nat \<Rightarrow> byte" where
  "raw bc a = (if in_range bc a \<and> a < dev_size (fd bc) then dev_bytes (fd bc) a else 0)"

definition base :: "block_cache \<Rightarrow> nat \<Rightarrow> byte" where
  "base bc a = (if is_trimmed bc a then 0 else raw bc a)"

definition seg_view :: "block_cache \<Rightarrow> block_cache_segment \<Rightarrow> nat \<Rightarrow> byte" where
  "seg_view bc seg k =
     (if blk_valid seg (k div 512) then seg_data seg k else base bc (seg_offset seg + k))"

definition view :: "block_cache \<Rightarrow> nat \<Rightarrow> byte" where
  "view bc a =
     (case find_segment (segment_floor a) 0 (segments bc) of
        None \<Rightarrow> base bc a
      | Some i \<Rightarrow> seg_view bc (seg_at bc i) (a mod 131072))"

definition seg_ok :: "block_cache_segment \<Rightarrow> bool" where
  "seg_ok seg =
     (length (seg_flags seg) = 64 \<and>
      (in_use seg \<longrightarrow> 131072 dvd seg_offset seg \<and> (\<forall>b < 256. blk_dirty seg b \<longrightarrow> blk_valid seg b)))"

definition struct_ok :: "block_cache \<Rightarrow> bool" where
  "struct_ok bc =
     (segments bc \<noteq> [] \<and> (\<forall>i < length (segments bc). seg_ok (seg_at bc i)) \<and>
      (\<forall>i < length (segments bc). \<forall>j < length (segments bc).
         in_use (seg_at bc i) \<and> in_use (seg_at bc j) \<and> seg_offset (seg_at bc i) = seg_offset (seg_at bc j) \<longrightarrow> i = j))"

definition clean_ok :: "block_cache \<Rightarrow> block_cache_segment \<Rightarrow> bool" where
  "clean_ok bc seg =
     (\<forall>k < 131072. in_range bc (seg_offset seg + k) \<and> blk_valid seg (k div 512) \<and> \<not> blk_dirty seg (k div 512)
        \<longrightarrow> seg_data seg k = base bc (seg_offset seg + k))"

definition coherent :: "block_cache \<Rightarrow> bool" where
  "coherent bc = (\<forall>i < length (segments bc). in_use (seg_at bc i) \<longrightarrow> clean_ok bc (seg_at bc i))"

definition plain :: "block_cache \<Rightarrow> bool" where
  "plain bc = (\<not> use_pthreads bc \<and> decrypt_callback bc = None \<and>
     (verify_writes bc \<or> (\<forall>a b. dev_store (fd bc) a b = b)))"

definition cache_ok :: "block_cache \<Rightarrow> bool" where
  "cache_ok bc = (struct_ok bc \<and> coherent bc \<and> plain bc)"

definition same_view :: "block_cache \<Rightarrow> block_cache \<Rightarrow> bool" where
  "same_view bc bc' =
     (in_range bc' = in_range bc \<and> (\<forall>a. in_range bc a \<longrightarrow> view bc' a = view bc a))"

lemma same_view_refl [simp]: "same_view bc bc"
  by (simp add: same_view_def)

lemma same_view_trans: "same_view a b \<Longrightarrow> same_view b c \<Longrightarrow> same_view a c"
  by (auto simp: same_view_def)

section \<open>Addresses and segments\<close>

lemma segment_floor_add: "131072 dvd off \<Longrightarrow> k < 131072 \<Longrightarrow> segment_floor (off + k) = off"
  by (auto simp: segment_floor_def dvd_def)

lemma segment_floor_dvd [simp]: "131072 dvd segment_floor a"
  by (simp add: segment_floor_def minus_mod_eq_mult_div)

lemma segment_floor_le: "segment_floor a \<le> a"
  by (simp add: segment_floor_def)

lemma segment_floor_mod: "segment_floor a + a mod 131072 = a"
  by (simp add: segment_floor_def)

lemma segment_floor_eq_iff: "segment_floor a = off \<longleftrightarrow> a = off + a mod 131072"
  using segment_floor_mod [of a] by auto

lemma div_add_segment: "131072 dvd off \<Longrightarrow> k < 131072 \<Longrightarrow> (off + k) div 131072 = off div (131072 :: nat)"
  by (auto simp: dvd_def)

lemma is_trimmed_segment: "131072 dvd off \<Longrightarrow> k < 131072 \<Longrightarrow> is_trimmed bc (off + k) = is_trimmed bc off"
  by (simp add: is_trimmed_def div_add_segment)

lemma find_segment_SomeD:
  "find_segment off k segs = Some i \<Longrightarrow>
   k \<le> i \<and> i - k < length segs \<and> in_use (segs ! (i - k)) \<and> seg_offset (segs ! (i - k)) = off"
proof (induction off k segs rule: find_segment.induct)
  case (2 offset k seg segs)
  show ?case
  proof (cases "in_use seg \<and> seg_offset seg = offset")
    case True
    then show ?thesis using 2(2) by auto
  next
    case False
    from 2(1) [OF False] 2(2) False have "Suc k \<le> i" "i - Suc k < length segs"
      "in_use (segs ! (i - Suc k))" "seg_offset (segs ! (i - Suc k)) = offset" by auto
    then show ?thesis by (auto simp: nth_Cons' Suc_diff_Suc)
  qed
qed simp

lemma find_segment_NoneD:
  "find_segment off k segs = None \<Longrightarrow> j < length segs \<Longrightarrow> in_use (segs ! j) \<Longrightarrow> seg_offset (segs ! j) \<noteq> off"
proof (induction off k segs arbitrary: j rule: find_segment.induct)
  case (2 offset k seg segs)
  then show ?case by (cases j) (auto split: if_splits)
qed simp

lemma find_segment_unique:
  assumes "struct_ok bc" and "i < length (segments bc)" and "in_use (seg_at bc i)"
  shows "find_segment (seg_offset (seg_at bc i)) 0 (segments bc) = Some i"
proof (cases "find_segment (seg_offset (seg_at bc i)) 0 (segments bc)")
  case None
  then show ?thesis using find_segment_NoneD assms by blast
next
  case (Some j)
  then show ?thesis using find_segment_SomeD [OF Some] assms by (auto simp: struct_ok_def)
qed

lemma view_hit:
  assumes "struct_ok bc" and "i < length (segments bc)" and "in_use (seg_at bc i)" and "k < 131072"
  shows "view bc (seg_offset (seg_at bc i) + k) = seg_view bc (seg_at bc i) k"
proof -
  have d: "131072 dvd seg_offset (seg_at bc i)" using assms by (simp add: struct_ok_def seg_ok_def)
  then have "(seg_offset (seg_at bc i) + k) mod 131072 = k" using assms(4) by (auto simp: dvd_def)
  then show ?thesis
    using find_segment_unique [OF assms(1-3)] d assms(4) by (simp add: view_def segment_floor_add)
qed

lemma view_miss:
  assumes "\<And>i. i < length (segments bc) \<Longrightarrow> in_use (seg_at bc i) \<Longrightarrow> seg_offset (seg_at bc i) \<noteq> segment_floor a"
  shows "view bc a = base bc a"
proof (cases "find_segment (segment_floor a) 0 (segments bc)")
  case (Some i)
  then show ?thesis using find_segment_SomeD [OF Some] assms by auto
qed (simp add: view_def)

section \<open>Replacing one segment\<close>

lemma struct_ok_replace:
  assumes "struct_ok bc" and "i < length (segments bc)" and "segments bc' = (segments bc)[i := s']"
    and "in_use (seg_at bc i)" and "in_use s'" and "seg_offset s' = seg_offset (seg_at bc i)" and "seg_ok s'"
  shows "struct_ok bc'"
proof -
  have n: "seg_at bc' j = (if j = i then s' else seg_at bc j)" for j
    using assms(2,3) by (cases "j = i") auto
  have l: "length (segments bc') = length (segments bc)" using assms(3) by simp
  have u: "\<And>j k. j < length (segments bc) \<Longrightarrow> k < length (segments bc) \<Longrightarrow> in_use (seg_at bc j) \<Longrightarrow>
      in_use (seg_at bc k) \<Longrightarrow> seg_offset (seg_at bc j) = seg_offset (seg_at bc k) \<Longrightarrow> j = k"
    using assms(1) by (simp add: struct_ok_def)
  show ?thesis
    unfolding struct_ok_def
  proof (intro conjI allI impI)
    show "segments bc' \<noteq> []" using assms(2) l by auto
    show "seg_ok (seg_at bc' j)" if "j < length (segments bc')" for j
      using that assms(1,7) by (simp add: n l struct_ok_def)
    show "j = k" if "j < length (segments bc')" "k < length (segments bc')"
      "in_use (seg_at bc' j) \<and> in_use (seg_at bc' k) \<and> seg_offset (seg_at bc' j) = seg_offset (seg_at bc' k)" for j k
      using that assms(2,4,6) u [of j k] u [of i k] u [of j i] by (auto simp: n l split: if_splits)
  qed
qed

lemma view_replace:
  assumes "struct_ok bc" and "i < length (segments bc)" and "segments bc' = (segments bc)[i := s']"
    and "in_use (seg_at bc i)" and "in_use s'" and "seg_offset s' = seg_offset (seg_at bc i)" and "seg_ok s'"
    and other: "\<And>a. segment_floor a \<noteq> seg_offset s' \<Longrightarrow> base bc' a = base bc a"
  shows "view bc' a =
    (if segment_floor a = seg_offset s' then seg_view bc' s' (a mod 131072) else view bc a)"
proof (cases "segment_floor a = seg_offset s'")
  case True
  have st: "struct_ok bc'" by (rule struct_ok_replace [OF assms(1-7)])
  have "a = seg_offset s' + a mod 131072" using True segment_floor_mod [of a] by simp
  then show ?thesis
    using view_hit [OF st, of i "a mod 131072"] True assms(2,3,5) by simp
next
  case False
  have st: "struct_ok bc'" by (rule struct_ok_replace [OF assms(1-7)])
  show ?thesis
  proof (cases "find_segment (segment_floor a) 0 (segments bc)")
    case None
    then have "\<And>j. j < length (segments bc') \<Longrightarrow> in_use (seg_at bc' j) \<Longrightarrow> seg_offset (seg_at bc' j) \<noteq> segment_floor a"
      using find_segment_NoneD [OF None] False assms(2,3) by (auto simp: nth_list_update split: if_splits)
    then have "view bc' a = base bc' a" by (rule view_miss)
    then show ?thesis using None other False by (simp add: view_def)
  next
    case (Some j)
    then have j: "j < length (segments bc)" "in_use (seg_at bc j)" "seg_offset (seg_at bc j) = segment_floor a"
      using find_segment_SomeD [OF Some] by auto
    then have ne: "j \<noteq> i" using False assms(6) by auto
    then have j': "seg_at bc' j = seg_at bc j" using assms(3) by simp
    have "find_segment (seg_offset (seg_at bc' j)) 0 (segments bc') = Some j"
      by (rule find_segment_unique [OF st]) (use j j' assms(3) in auto)
    then have "find_segment (segment_floor a) 0 (segments bc') = Some j" using j j' by simp
    moreover have "base bc' (seg_offset (seg_at bc j) + a mod 131072) = base bc (seg_offset (seg_at bc j) + a mod 131072)"
      using other [of a] False j segment_floor_mod [of a] by simp
    ultimately show ?thesis using Some False j' by (simp add: view_def seg_view_def)
  qed
qed

lemma clean_ok_cong:
  assumes "clean_ok bc seg" and "131072 dvd seg_offset seg" and "in_range bc' = in_range bc"
    and "\<And>a. segment_floor a = seg_offset seg \<Longrightarrow> base bc' a = base bc a"
  shows "clean_ok bc' seg"
  using assms by (auto simp: clean_ok_def segment_floor_add)

lemma coherent_replace:
  assumes "struct_ok bc" and "coherent bc" and "i < length (segments bc)" and "in_use (seg_at bc i)"
    and "segments bc' = (segments bc)[i := s']" and "in_range bc' = in_range bc" and "clean_ok bc' s'"
    and "\<And>a. segment_floor a \<noteq> seg_offset (seg_at bc i) \<Longrightarrow> base bc' a = base bc a"
  shows "coherent bc'"
  unfolding coherent_def
proof (intro allI impI)
  fix j assume j: "j < length (segments bc')" "in_use (seg_at bc' j)"
  show "clean_ok bc' (seg_at bc' j)"
  proof (cases "j = i")
    case True
    then show ?thesis using assms by simp
  next
    case False
    then have e: "seg_at bc' j = seg_at bc j" "j < length (segments bc)" using j assms(5) by auto
    then have ne: "seg_offset (seg_at bc j) \<noteq> seg_offset (seg_at bc i)" "131072 dvd seg_offset (seg_at bc j)"
      using assms(1,3,4) j False unfolding struct_ok_def seg_ok_def by auto
    have "clean_ok bc (seg_at bc j)" using assms(2) e j by (auto simp: coherent_def)
    then show ?thesis
      unfolding e by (rule clean_ok_cong) (use ne assms(6,8) in auto)
  qed
qed

section \<open>Input and output\<close>

text \<open>
  What \<open>calculate_io_size\<close> may change: the soft end of a file, which no address depends on.
\<close>

definition end_moved :: "block_cache \<Rightarrow> block_cache \<Rightarrow> bool" where
  "end_moved bc bc' = (\<exists>e. bc' = bc\<lparr>end_offset := e\<rparr> \<and> in_range bc' = in_range bc)"

lemma end_movedD:
  assumes "end_moved bc bc'"
  shows "segments bc' = segments bc" "fd bc' = fd bc" "is_trimmed bc' = is_trimmed bc"
    "in_range bc' = in_range bc" "raw bc' = raw bc" "base bc' = base bc" "plain bc' = plain bc"
    "trimmed_len bc' = trimmed_len bc" "trimmed_remainder bc' = trimmed_remainder bc"
    "minimize_writes bc' = minimize_writes bc" "verify_writes bc' = verify_writes bc"
    "use_pthreads bc' = use_pthreads bc" "decrypt_callback bc' = decrypt_callback bc"
proof -
  obtain e where b: "bc' = bc\<lparr>end_offset := e\<rparr>" and r: "in_range bc' = in_range bc"
    using assms by (auto simp: end_moved_def)
  show "in_range bc' = in_range bc" by (rule r)
  show t: "is_trimmed bc' = is_trimmed bc" by (simp add: b is_trimmed_def fun_eq_iff)
  have f: "fd bc' = fd bc" by (simp add: b)
  then show w: "raw bc' = raw bc" by (simp add: raw_def fun_eq_iff r)
  then show "base bc' = base bc" by (simp add: base_def fun_eq_iff t)
qed (use assms in \<open>auto simp: end_moved_def plain_def\<close>)

lemma end_moved_refl [simp]: "end_moved bc bc"
  unfolding end_moved_def by (rule exI [of _ "end_offset bc"]) simp

lemma calculate_io_size_ok:
  assumes "calculate_io_size off bc = (Inr n, bc')"
  shows "end_moved bc bc'" and "n \<le> 131072" and "\<And>k. k < 131072 \<Longrightarrow> in_range bc (off + k) \<longleftrightarrow> k < n"
proof -
  have "end_moved bc bc' \<and> n \<le> 131072 \<and> (\<forall>k < 131072. in_range bc (off + k) \<longleftrightarrow> k < n)"
  proof (cases "hard_end bc")
    case True
    then have "bc' = bc" and n: "n \<le> 131072" "\<forall>k < 131072. off + k < end_offset bc \<longleftrightarrow> k < n"
      using assms by (auto simp: calculate_io_size_def Let_def hard_end_def split: if_splits)
    then show ?thesis using True n by (simp add: in_range_def)
  next
    case False
    then have n: "n = 131072"
      and b: "bc' = bc\<lparr>end_offset := (if is_soft_end_offset bc \<and> end_offset bc > 0 \<and> off + 131072 > end_offset bc
                 then off + 131072 else end_offset bc)\<rparr>" (is "_ = bc\<lparr>end_offset := ?e\<rparr>")
      using assms by (auto simp: calculate_io_size_def Let_def hard_end_def split: if_splits)
    have "\<not> hard_end bc'" using False by (auto simp: b hard_end_def)
    then have "in_range bc' = in_range bc" using False by (simp add: in_range_def fun_eq_iff)
    then have "end_moved bc bc'" unfolding end_moved_def using b by blast
    then show ?thesis using n False by (simp add: in_range_def)
  qed
  then show "end_moved bc bc'" and "n \<le> 131072" and "\<And>k. k < 131072 \<Longrightarrow> in_range bc (off + k) \<longleftrightarrow> k < n"
    by blast+
qed

lemma read_segment_ok:
  assumes "read_segment off bc = (Inr data, bc')" and "131072 dvd off" and "decrypt_callback bc = None"
  shows "end_moved bc bc'" and "\<And>k. k < 131072 \<Longrightarrow> data k = base bc (off + k)"
proof -
  show "end_moved bc bc'" "\<And>k. k < 131072 \<Longrightarrow> data k = base bc (off + k)"
  proof (atomize (full), cases "is_trimmed bc off")
    case True
    then show "end_moved bc bc' \<and> (\<forall>k. k < 131072 \<longrightarrow> data k = base bc (off + k))"
      using assms is_trimmed_segment [OF assms(2), of _ bc]
      by (auto simp: read_segment_def base_def)
  next
    case False
    then obtain n where c: "calculate_io_size off bc = (Inr n, bc')"
      and r: "dev_read_ok (fd bc') off" and d: "data = (\<lambda>k. if k < min n (dev_size (fd bc') - off) then dev_bytes (fd bc') (off + k) else 0)"
      using assms(1) by (auto simp: read_segment_def ok_then_def dev_pread_def split: prod.splits sum.splits option.splits if_splits
         dest: calculate_io_size_ok(1) [THEN end_movedD(13)] simp: assms(3))
    note e = end_movedD [OF calculate_io_size_ok(1) [OF c]]
    show "end_moved bc bc' \<and> (\<forall>k. k < 131072 \<longrightarrow> data k = base bc (off + k))"
      using calculate_io_size_ok [OF c] False is_trimmed_segment [OF assms(2), of _ bc]
      by (auto simp: d base_def raw_def e)
  qed
qed

section \<open>Making a segment valid\<close>

lemma merge_loop:
  fixes temp :: "nat \<Rightarrow> byte"
  assumes "length (seg_flags seg) = 64" and "n \<le> 256"
  defines "seg' \<equiv> fold (merge_block temp) [0..<n] seg"
  shows "length (seg_flags seg') = 64 \<and> in_use seg' = in_use seg \<and> seg_offset seg' = seg_offset seg \<and>
    streamed seg' = streamed seg \<and> last_access seg' = last_access seg \<and>
    (\<forall>b < 256. blk_valid seg' b \<longleftrightarrow> b < n \<or> blk_valid seg b) \<and>
    (\<forall>b < 256. blk_dirty seg' b \<longleftrightarrow> blk_dirty seg b) \<and>
    (\<forall>k < 131072. seg_data seg' k = (if k div 512 < n \<and> \<not> blk_valid seg (k div 512) then temp k else seg_data seg k))"
  using assms(2) unfolding seg'_def
proof (induction n)
  case 0
  then show ?case using assms(1) by simp
next
  case (Suc n)
  define t where "t = fold (merge_block temp) [0..<n] seg"
  have IH: "length (seg_flags t) = 64" "in_use t = in_use seg" "seg_offset t = seg_offset seg"
    "streamed t = streamed seg" "last_access t = last_access seg"
    "\<forall>b < 256. blk_valid t b \<longleftrightarrow> b < n \<or> blk_valid seg b"
    "\<forall>b < 256. blk_dirty t b \<longleftrightarrow> blk_dirty seg b"
    "\<forall>k < 131072. seg_data t k = (if k div 512 < n \<and> \<not> blk_valid seg (k div 512) then temp k else seg_data seg k)"
    using Suc by (auto simp: t_def)
  have n: "n < 256" using Suc.prems by simp
  have st: "fold (merge_block temp) [0..<Suc n] seg = merge_block temp n t" by (simp add: t_def)
  define d where "d = t\<lparr>seg_data := (\<lambda>k. if n * 512 \<le> k \<and> k < (n + 1) * 512 then temp k else seg_data t k)\<rparr>"
  have dl: "length (seg_flags d) = 64" using IH by (simp add: d_def)
  have fl: "blk_valid d b = blk_valid t b" "blk_dirty d b = blk_dirty t b" for b
    by (simp_all add: blk_valid_def blk_dirty_def d_def)
  have kd: "(n * 512 \<le> k \<and> k < (n + 1) * 512) \<longleftrightarrow> k div 512 = n" for k by auto
  show ?case
  proof (cases "blk_valid t n")
    case True
    then have "merge_block temp n t = t" using is_valid_iff [OF n] by (simp add: merge_block_def)
    moreover have "blk_valid seg n" using True IH(6) n by simp
    ultimately show ?thesis using IH unfolding st by (auto simp: less_Suc_eq)
  next
    case False
    then have m: "merge_block temp n t = set_valid n d" using is_valid_iff [OF n] by (simp add: merge_block_def d_def)
    have nv: "\<not> blk_valid seg n" using False IH(6) n by simp
    have f: "\<forall>b < 256. blk_valid (set_valid n d) b \<longleftrightarrow> b < Suc n \<or> blk_valid seg b"
      "\<forall>b < 256. blk_dirty (set_valid n d) b \<longleftrightarrow> blk_dirty seg b"
      using flags_set_valid [OF dl n] IH by (auto simp: fl less_Suc_eq)
    have "seg_data (set_valid n d) k =
        (if k div 512 < Suc n \<and> \<not> blk_valid seg (k div 512) then temp k else seg_data seg k)" if "k < 131072" for k
    proof (cases "k div 512 = n")
      case True
      then have "seg_data (set_valid n d) k = temp k" using kd [of k] by (simp add: set_valid_def d_def)
      then show ?thesis using True nv by simp
    next
      case False
      then have "seg_data (set_valid n d) k = seg_data t k" using kd [of k] by (auto simp: set_valid_def d_def)
      then show ?thesis using False IH(8) that by (simp add: less_Suc_eq)
    qed
    then show ?thesis unfolding st m using IH(1-5) f by (simp add: set_valid_def d_def)
  qed
qed

lemma plain_cong:
  "plain bc \<Longrightarrow> segments bc' = s \<Longrightarrow> fd bc' = fd bc \<Longrightarrow> use_pthreads bc' = use_pthreads bc \<Longrightarrow>
   decrypt_callback bc' = decrypt_callback bc \<Longrightarrow> verify_writes bc' = verify_writes bc \<Longrightarrow> plain bc'"
  by (simp add: plain_def)

text \<open>
  The result of reading a segment in: the invariant and the view are kept, the segment is fully
  valid, and nothing else of the cache has changed but the soft end.
\<close>

definition valid_from :: "block_cache \<Rightarrow> nat \<Rightarrow> block_cache \<Rightarrow> bool" where
  "valid_from bc i bc' =
     (\<exists>bc1 s. end_moved bc bc1 \<and> bc' = bc1\<lparr>segments := (segments bc)[i := s]\<rparr> \<and>
        in_use s = in_use (seg_at bc i) \<and> seg_offset s = seg_offset (seg_at bc i) \<and> length (seg_flags s) = 64 \<and>
        streamed s = streamed (seg_at bc i) \<and> last_access s = last_access (seg_at bc i) \<and>
        (\<forall>b < 256. blk_valid s b \<and> (blk_dirty s b \<longleftrightarrow> blk_dirty (seg_at bc i) b)) \<and>
        (\<forall>k < 131072. seg_data s k = seg_view bc (seg_at bc i) k))"

lemma make_segment_valid_from:
  assumes "make_segment_valid i bc = (Inr u, bc')" and "struct_ok bc" and "i < length (segments bc)"
    and "in_use (seg_at bc i)" and "decrypt_callback bc = None"
  shows "valid_from bc i bc'"
proof -
  let ?s = "seg_at bc i"
  have ok: "seg_ok ?s" using assms by (simp add: struct_ok_def)
  then have l: "length (seg_flags ?s) = 64" and dv: "131072 dvd seg_offset ?s"
    and di: "\<forall>b < 256. blk_dirty ?s b \<longrightarrow> blk_valid ?s b"
    using assms(4) by (auto simp: seg_ok_def)
  note c = check_segment_validity_iff [OF l]
  have kb: "k div 512 < 256" if "k < 131072" for k :: nat using that by (simp add: div_less_iff_less_mult)
  consider (none) "\<forall>b < 256. \<not> blk_valid ?s b" | (all) "\<forall>b < 256. blk_valid ?s b" "\<not> (\<forall>b < 256. \<not> blk_valid ?s b)"
    | (mixed) "\<not> (\<forall>b < 256. blk_valid ?s b)" "\<not> (\<forall>b < 256. \<not> blk_valid ?s b)" by blast
  then show ?thesis
  proof cases
    case none
    then obtain data bc1 where r: "read_segment (seg_offset ?s) bc = (Inr data, bc1)"
      and b: "bc' = upd_seg i (\<lambda>seg. set_all_valid (seg\<lparr>seg_data := data\<rparr>)) bc1"
      using assms(1) by (auto simp: make_segment_valid_def c elim!: ok_then_Inr_E)
    note rs = read_segment_ok [OF r dv assms(5)]
    note e = end_movedD [OF rs(1)]
    let ?n = "set_all_valid (?s\<lparr>seg_data := data\<rparr>)"
    have f: "\<not> blk_dirty ?n b" "blk_valid ?n b" if "b < 256" for b
      using flags_all_aa [of ?n b] that by (simp_all add: set_all_valid_def)
    show ?thesis unfolding valid_from_def
      by (rule exI [of _ bc1], rule exI [of _ ?n])
         (use rs e none di f kb in \<open>auto simp: b upd_seg_def seg_view_def set_all_valid_def\<close>)
  next
    case all
    have "(\<forall>b < 256. blk_valid ?s b) = True" "(\<forall>b < 256. \<not> blk_valid ?s b) = False" using all by argo+
    then have "check_segment_validity ?s = (True, False)" using c by (simp only:)
    then have "bc' = bc" using assms(1) by (simp add: make_segment_valid_def)
    then show ?thesis unfolding valid_from_def using all l kb
      by (intro exI [of _ bc] exI [of _ ?s]) (auto simp: seg_view_def)
  next
    case mixed
    then have "check_segment_validity ?s = (False, False)" using c by (simp only: simp_thms)
    then obtain temp bc1 where r: "read_segment (seg_offset ?s) bc = (Inr temp, bc1)"
      and b: "bc' = upd_seg i (fold (merge_block temp) [0..<256]) bc1"
      using assms(1) by (auto simp: make_segment_valid_def elim!: ok_then_Inr_E)
    note rs = read_segment_ok [OF r dv assms(5)]
    note e = end_movedD [OF rs(1)]
    note ml = merge_loop [OF l, where n = 256 and temp = temp]
    show ?thesis unfolding valid_from_def
      by (rule exI [of _ bc1], rule exI [of _ "fold (merge_block temp) [0..<256] ?s"])
         (use rs e ml kb in \<open>auto simp: b upd_seg_def seg_view_def\<close>)
  qed
qed

section \<open>Writing a segment\<close>

lemma same_on_device_iff:
  "same_on_device bc data n off \<longleftrightarrow> (\<forall>k < n. data k = dev_bytes (fd bc) (off + k))"
  by (auto simp: same_on_device_def list_all_iff)

text \<open>
  A successful write puts the contents of the segment on the device, as far as the medium
  reaches, and leaves all other addresses alone. With \<open>verify_writes\<close> this holds for every device.
\<close>

lemma dev_pwrite_effect:
  assumes "dev_pwrite data n off d = (n, d')"
  shows "\<And>k. k < n \<Longrightarrow> off + k < dev_size d' \<and> dev_bytes d' (off + k) = dev_store d (off + k) (data k)"
    and "\<And>a. \<not> (off \<le> a \<and> a < off + n) \<Longrightarrow>
      (if a < dev_size d' then dev_bytes d' a else 0) = (if a < dev_size d then dev_bytes d a else 0)"
    and "dev_store d' = dev_store d" and "dev_size d \<le> dev_size d'"
proof -
  define m where "m = min n (dev_write_limit d off)"
  have "(m, d\<lparr>dev_bytes := (\<lambda>a. if off \<le> a \<and> a < off + m then dev_store d a (data (a - off))
        else if m > 0 \<and> a \<ge> dev_size d then 0 else dev_bytes d a),
      dev_size := (if m > 0 then max (dev_size d) (off + m) else dev_size d), dev_log := (off, n) # dev_log d\<rparr>)
      = (n, d')"
    using assms by (simp only: dev_pwrite_def Let_def m_def)
  then have d: "d' = d\<lparr>dev_bytes := (\<lambda>a. if off \<le> a \<and> a < off + n then dev_store d a (data (a - off))
        else if n > 0 \<and> a \<ge> dev_size d then 0 else dev_bytes d a),
      dev_size := (if n > 0 then max (dev_size d) (off + n) else dev_size d), dev_log := (off, n) # dev_log d\<rparr>"
    by (elim Pair_inject) (simp only:)
  show "\<And>k. k < n \<Longrightarrow> off + k < dev_size d' \<and> dev_bytes d' (off + k) = dev_store d (off + k) (data k)"
    "\<And>a. \<not> (off \<le> a \<and> a < off + n) \<Longrightarrow>
      (if a < dev_size d' then dev_bytes d' a else 0) = (if a < dev_size d then dev_bytes d a else 0)"
    "dev_store d' = dev_store d" "dev_size d \<le> dev_size d'"
    by (auto simp: d)
qed

lemma verified_segment_write_effect:
  assumes "verified_segment_write i bc = (Inr u, bc')" and "plain bc" and "off = seg_offset (seg_at bc i)"
  shows "\<exists>bc1 d. end_moved bc bc1 \<and> bc' = bc1\<lparr>fd := d\<rparr>"
    and "plain bc'" and "in_range bc' = in_range bc"
    and "\<And>k. k < 131072 \<Longrightarrow> in_range bc (off + k) \<Longrightarrow> raw bc' (off + k) = seg_data (seg_at bc i) k"
    and "\<And>a. \<not> (off \<le> a \<and> a < off + 131072) \<Longrightarrow> raw bc' a = raw bc a"
proof -
  let ?data = "seg_data (seg_at bc i)"
  obtain n bc1 where c: "calculate_io_size off bc = (Inr n, bc1)"
    and w: "(if minimize_writes bc1 \<and> dev_pread (fd bc1) n off = Some n \<and> same_on_device bc1 ?data n off
        then (Inr (), bc1)
        else
          (let (written, d) = dev_pwrite ?data n off (fd bc1); bc2 = bc1\<lparr>fd := d\<rparr> in
           if written \<noteq> n then (Inl (Msg ''writing failed. Check media size.''), bc2)
           else if verify_writes bc1 then
             (if dev_pread d n off \<noteq> Some n then (Inl (Msg ''read back failed''), bc2)
              else if \<not> same_on_device bc2 ?data n off
                then (Inl (Msg ''write verification failed''), bc2)
              else (Inr (), bc2))
           else (Inr (), bc2))) = (Inr u, bc')"
    using assms(1,3) unfolding verified_segment_write_def Let_def by (elim ok_then_Inr_E) blast
  note io = calculate_io_size_ok [OF c]
  note e = end_movedD [OF io(1)]
  have pr: "dev_pread d n off = Some n \<Longrightarrow> k < n \<Longrightarrow> off + k < dev_size d" for d k
    by (auto simp: dev_pread_def split: if_splits)
  have "\<exists>d. bc' = bc1\<lparr>fd := d\<rparr> \<and> dev_store d = dev_store (fd bc) \<and>
      (\<forall>k < n. off + k < dev_size d \<and> dev_bytes d (off + k) = ?data k) \<and>
      (\<forall>a. \<not> (off \<le> a \<and> a < off + n) \<longrightarrow>
         (if a < dev_size d then dev_bytes d a else 0) =
         (if a < dev_size (fd bc) then dev_bytes (fd bc) a else 0))"
  proof (cases "minimize_writes bc1 \<and> dev_pread (fd bc1) n off = Some n \<and> same_on_device bc1 ?data n off")
    case True
    then have "bc' = bc1\<lparr>fd := fd bc1\<rparr>" using w by simp
    then show ?thesis using True pr [of "fd bc1"] by (intro exI [of _ "fd bc1"]) (auto simp: same_on_device_iff e)
  next
    case False
    obtain m d where p: "dev_pwrite ?data n off (fd bc1) = (m, d)" by force
    then have m: "m = n" and b: "bc' = bc1\<lparr>fd := d\<rparr>"
      and v: "verify_writes bc \<longrightarrow> same_on_device (bc1\<lparr>fd := d\<rparr>) ?data n off"
      using w False by (auto simp: e Let_def split: if_splits)
    note pe = dev_pwrite_effect [OF p [unfolded m]]
    have "\<forall>k < n. dev_bytes d (off + k) = ?data k"
      using v pe(1) assms(2) by (auto simp: same_on_device_iff plain_def e)
    then show ?thesis using b pe by (intro exI [of _ d]) (auto simp: e)
  qed
  then obtain d where d: "bc' = bc1\<lparr>fd := d\<rparr>" "dev_store d = dev_store (fd bc)"
      "\<And>k. k < n \<Longrightarrow> off + k < dev_size d \<and> dev_bytes d (off + k) = ?data k"
      "\<And>a. \<not> (off \<le> a \<and> a < off + n) \<Longrightarrow>
         (if a < dev_size d then dev_bytes d a else 0) = (if a < dev_size (fd bc) then dev_bytes (fd bc) a else 0)"
    by blast
  show "\<exists>bc1 d. end_moved bc bc1 \<and> bc' = bc1\<lparr>fd := d\<rparr>" using io(1) d(1) by blast
  show ir: "in_range bc' = in_range bc" using e(4) by (simp add: d(1) in_range_def hard_end_def fun_eq_iff)
  show "plain bc'" using assms(2) e d(2) by (simp add: d(1) plain_def)
  show "raw bc' (off + k) = ?data k" if "k < 131072" "in_range bc (off + k)" for k
    using that io(3) [OF that(1)] d(3) [of k] by (simp add: raw_def ir) (simp add: d(1))
  show "raw bc' a = raw bc a" if "\<not> (off \<le> a \<and> a < off + 131072)" for a
  proof -
    have "\<not> (off \<le> a \<and> a < off + n)" using that io(2) by auto
    moreover have "fd bc' = d" by (simp add: d(1))
    ultimately show ?thesis using d(4) [of a] by (auto simp: raw_def ir split: if_splits)
  qed
qed

section \<open>Trim bits\<close>

definition trim_bit :: "block_cache \<Rightarrow> nat \<Rightarrow> bool" where
  "trim_bit bc s = (if trimmed_len bc \<le> s div 8 then trimmed_remainder bc else trimmed bc s)"

lemma is_trimmed_bit: "is_trimmed bc a = trim_bit bc (a div 131072)"
  by (simp add: is_trimmed_def trim_bit_def Let_def)

lemma trim_bit_enlarge:
  assumes "trimmed_len bc \<le> ix"
  shows "trim_bit (enlarge_trim_bitvector ix bc) = trim_bit bc"
proof -
  have "trimmed_len bc \<le> (ix + 4095) - (ix + 4095) mod 4096"
    using assms by (simp add: minus_mod_eq_mult_div)
  then show ?thesis
    by (auto simp: fun_eq_iff trim_bit_def enlarge_trim_bitvector_def Let_def)
qed

lemma trim_bit_clear:
  "s div 8 < trimmed_len bc \<Longrightarrow> trim_bit (bc\<lparr>trimmed := (trimmed bc)(s := False)\<rparr>) r \<longleftrightarrow> trim_bit bc r \<and> r \<noteq> s"
  by (auto simp: trim_bit_def)

lemma clear_trimmed_ok:
  assumes "clear_trimmed off bc = (Inr u, bc')"
  shows "\<exists>t n. bc' = bc\<lparr>trimmed := t, trimmed_len := n\<rparr>"
    and "is_trimmed bc' a \<longleftrightarrow> is_trimmed bc a \<and> a div 131072 \<noteq> off div 131072"
proof -
  define s where "s = off div 131072"
  have "(\<exists>t n. bc' = bc\<lparr>trimmed := t, trimmed_len := n\<rparr>) \<and>
      (\<forall>r. trim_bit bc' r \<longleftrightarrow> trim_bit bc r \<and> r \<noteq> s)"
  proof (cases "trimmed_len bc \<le> s div 8 \<and> \<not> trimmed_remainder bc")
    case True
    then have b: "bc' = bc\<lparr>trimmed := trimmed bc, trimmed_len := trimmed_len bc\<rparr>"
      using assms by (simp add: clear_trimmed_def s_def)
    have "\<not> trim_bit bc s" using True by (simp add: trim_bit_def)
    then have "\<forall>r. trim_bit bc' r \<longleftrightarrow> trim_bit bc r \<and> r \<noteq> s" using b by auto
    then show ?thesis using b by blast
  next
    case False
    define bc1 where "bc1 = (if trimmed_len bc \<le> s div 8 then enlarge_trim_bitvector (s div 8) bc else bc)"
    have l: "s div 8 < trimmed_len bc1" and b: "bc' = bc1\<lparr>trimmed := (trimmed bc1)(s := False)\<rparr>"
      using assms False by (auto simp: clear_trimmed_def Let_def s_def [symmetric] bc1_def [symmetric] not_le split: if_splits)
    have t: "trim_bit bc1 = trim_bit bc" using trim_bit_enlarge by (simp add: bc1_def)
    have "\<exists>t n. bc' = bc\<lparr>trimmed := t, trimmed_len := n\<rparr>"
      unfolding b by (rule exI [of _ "(trimmed bc1)(s := False)"], rule exI [of _ "trimmed_len bc1"])
        (simp add: bc1_def enlarge_trim_bitvector_def Let_def)
    then show ?thesis using trim_bit_clear [OF l] t b by auto
  qed
  then show "\<exists>t n. bc' = bc\<lparr>trimmed := t, trimmed_len := n\<rparr>"
    "is_trimmed bc' a \<longleftrightarrow> is_trimmed bc a \<and> a div 131072 \<noteq> off div 131072"
    unfolding is_trimmed_bit s_def by blast+
qed

section \<open>Operations on one segment\<close>

lemma is_trimmed_cong:
  "trimmed_len bc' = trimmed_len bc \<Longrightarrow> trimmed_remainder bc' = trimmed_remainder bc \<Longrightarrow>
   trimmed bc' = trimmed bc \<Longrightarrow> is_trimmed bc' = is_trimmed bc"
  by (simp add: fun_eq_iff is_trimmed_def)

lemma raw_cong: "in_range bc' = in_range bc \<Longrightarrow> fd bc' = fd bc \<Longrightarrow> raw bc' = raw bc"
  by (simp add: fun_eq_iff raw_def)

lemma in_range_cong:
  "end_offset bc' = end_offset bc \<Longrightarrow> is_soft_end_offset bc' = is_soft_end_offset bc \<Longrightarrow> in_range bc' = in_range bc"
  by (simp add: fun_eq_iff in_range_def hard_end_def)

lemma kblock: "k < 131072 \<Longrightarrow> k div 512 < (256 :: nat)"
  by (simp add: div_less_iff_less_mult)

lemma cache_ok_seg:
  assumes "cache_ok bc" and "i < length (segments bc)"
  shows "struct_ok bc" and "coherent bc" and "plain bc" and "length (seg_flags (seg_at bc i)) = 64"
    and "in_use (seg_at bc i) \<Longrightarrow> 131072 dvd seg_offset (seg_at bc i)"
    and "in_use (seg_at bc i) \<Longrightarrow> b < 256 \<Longrightarrow> blk_dirty (seg_at bc i) b \<Longrightarrow> blk_valid (seg_at bc i) b"
    and "in_use (seg_at bc i) \<Longrightarrow> clean_ok bc (seg_at bc i)"
  using assms by (auto simp: cache_ok_def struct_ok_def seg_ok_def coherent_def)

lemma view_in_segment:
  assumes "struct_ok bc" and "i < length (segments bc)" and "in_use (seg_at bc i)"
    and "segment_floor a = seg_offset (seg_at bc i)"
  shows "view bc a = seg_view bc (seg_at bc i) (a mod 131072)"
  using view_hit [OF assms(1-3), of "a mod 131072"] segment_floor_mod [of a] assms(4) by simp

lemma valid_from_ok:
  assumes v: "valid_from bc i bc'" and "cache_ok bc" and "i < length (segments bc)" and "in_use (seg_at bc i)"
  shows "cache_ok bc'" and "same_view bc bc'" and "length (segments bc') = length (segments bc)"
    and "in_use (seg_at bc' i)" and "seg_offset (seg_at bc' i) = seg_offset (seg_at bc i)"
    and "\<And>j. j \<noteq> i \<Longrightarrow> seg_at bc' j = seg_at bc j"
    and "\<And>b. b < 256 \<Longrightarrow> blk_valid (seg_at bc' i) b"
proof -
  obtain bc1 s where e1: "end_moved bc bc1" and b: "bc' = bc1\<lparr>segments := (segments bc)[i := s]\<rparr>"
    and s: "in_use s = in_use (seg_at bc i)" "seg_offset s = seg_offset (seg_at bc i)" "length (seg_flags s) = 64"
      "\<forall>b < 256. blk_valid s b \<and> (blk_dirty s b \<longleftrightarrow> blk_dirty (seg_at bc i) b)"
      "\<forall>k < 131072. seg_data s k = seg_view bc (seg_at bc i) k"
    using v by (auto simp: valid_from_def)
  note e = end_movedD [OF e1]
  note ok = cache_ok_seg [OF assms(2,3)]
  have ir: "in_range bc' = in_range bc" using e(4) in_range_cong [of bc' bc1] by (simp add: b)
  have "is_trimmed bc' = is_trimmed bc1" by (rule is_trimmed_cong) (simp_all add: b)
  then have "is_trimmed bc' = is_trimmed bc" using e(3) by simp
  moreover have "raw bc' = raw bc" by (rule raw_cong [OF ir]) (simp add: b e(2))
  ultimately have ba: "base bc' = base bc" by (simp add: base_def fun_eq_iff)
  have sok: "seg_ok s" using s ok(5,6) assms(4) by (auto simp: seg_ok_def)
  have sg: "segments bc' = (segments bc)[i := s]" by (simp add: b)
  have us: "in_use s" using s assms(4) by simp
  note rep = struct_ok_replace [OF ok(1) assms(3) sg assms(4) us s(2) sok]
    and vrep = view_replace [OF ok(1) assms(3) sg assms(4) us s(2) sok]
  have v: "view bc' a = view bc a" for a
  proof (cases "segment_floor a = seg_offset s")
    case True
    then have "view bc' a = seg_view bc' s (a mod 131072)" using vrep [of a] ba by simp
    also have "\<dots> = seg_view bc (seg_at bc i) (a mod 131072)"
      using s kblock [of "a mod 131072"] by (simp add: seg_view_def [of bc'])
    also have "\<dots> = view bc a" using view_in_segment [OF ok(1) assms(3,4)] True s(2) by simp
    finally show ?thesis .
  next
    case False
    then show ?thesis using vrep [of a] ba by simp
  qed
  show "same_view bc bc'" by (simp add: same_view_def ir v)
  have cl: "clean_ok bc' s"
  proof -
    have "seg_data s k = base bc (seg_offset s + k)"
      if k: "k < 131072" "in_range bc (seg_offset s + k)" "\<not> blk_dirty s (k div 512)" for k
    proof -
      have "\<not> blk_dirty (seg_at bc i) (k div 512)" using s kblock [OF k(1)] k(3) by simp
      then show ?thesis
        using k s ok(7) [OF assms(4)] by (auto simp: clean_ok_def seg_view_def)
    qed
    then show ?thesis by (simp add: clean_ok_def ir ba)
  qed
  have "coherent bc'"
    by (rule coherent_replace [OF ok(1,2) assms(3,4) sg ir cl]) (simp add: ba)
  moreover have "plain bc'" using ok(3) e(2,11-13) by (simp add: plain_def b)
  ultimately show "cache_ok bc'" using rep by (simp add: cache_ok_def)
  show "length (segments bc') = length (segments bc)" by (simp add: sg)
  show "in_use (seg_at bc' i)" "seg_offset (seg_at bc' i) = seg_offset (seg_at bc i)"
    "\<And>b. b < 256 \<Longrightarrow> blk_valid (seg_at bc' i) b" "\<And>j. j \<noteq> i \<Longrightarrow> seg_at bc' j = seg_at bc j"
    using s us assms(3) by (auto simp: sg)
qed

lemma div_segment_eq_iff:
  "131072 dvd off \<Longrightarrow> a div 131072 = off div (131072 :: nat) \<longleftrightarrow> segment_floor a = off"
  by (auto simp: segment_floor_def minus_mod_eq_mult_div)

lemma write_back:
  assumes "cache_ok bc" and "i < length (segments bc)" and "in_use (seg_at bc i)"
    and "\<And>b. b < 256 \<Longrightarrow> blk_valid (seg_at bc i) b"
    and w: "verified_segment_write i bc = (Inr u, bc1)"
    and f: "f (seg_at bc i) = s" "s = (seg_at bc i)\<lparr>seg_flags := seg_flags s\<rparr>" "length (seg_flags s) = 64"
      "\<And>b. b < 256 \<Longrightarrow> blk_valid s b" "\<And>b. b < 256 \<Longrightarrow> \<not> blk_dirty s b"
    and c: "clear_trimmed (seg_offset (seg_at bc i)) (upd_seg i f bc1) = (Inr u', bc')"
  shows "cache_ok bc'" and "same_view bc bc'" and "segments bc' = (segments bc)[i := s]"
    and "\<And>a. in_range bc a \<Longrightarrow> segment_floor a = seg_offset (seg_at bc i) \<Longrightarrow>
           base bc' a = seg_data (seg_at bc i) (a mod 131072)"
    and "\<And>a. segment_floor a \<noteq> seg_offset (seg_at bc i) \<Longrightarrow> base bc' a = base bc a"
proof -
  let ?off = "seg_offset (seg_at bc i)"
  note ok = cache_ok_seg [OF assms(1,2)]
  note dv = ok(5) [OF assms(3)]
  note we = verified_segment_write_effect [OF w ok(3) refl]
  obtain bcx d where x: "end_moved bc bcx" "bc1 = bcx\<lparr>fd := d\<rparr>" using we(1) by blast
  note e = end_movedD [OF x(1)]
  obtain t n where t: "bc' = (upd_seg i f bc1)\<lparr>trimmed := t, trimmed_len := n\<rparr>"
    using clear_trimmed_ok(1) [OF c] by blast
  have sg1: "segments bc1 = segments bc" using e(1) by (simp add: x(2))
  then show sg: "segments bc' = (segments bc)[i := s]" using f(1) by (simp add: t upd_seg_def)
  have ir: "in_range bc' = in_range bc"
    using we(3) in_range_cong [of bc' bc1] by (simp add: t upd_seg_def)
  have rw: "raw bc' = raw bc1"
    by (rule raw_cong) (use ir we(3) in \<open>simp_all add: t upd_seg_def\<close>)
  have "is_trimmed (upd_seg i f bc1) = is_trimmed bcx"
    by (rule is_trimmed_cong) (simp_all add: x(2) upd_seg_def)
  then have "is_trimmed (upd_seg i f bc1) = is_trimmed bc" using e(3) by simp
  then have tr: "is_trimmed bc' a \<longleftrightarrow> is_trimmed bc a \<and> segment_floor a \<noteq> ?off" for a
    using clear_trimmed_ok(2) [OF c, of a] div_segment_eq_iff [OF dv, of a] by simp
  show other: "base bc' a = base bc a" if a: "segment_floor a \<noteq> ?off" for a
  proof -
    have "\<not> (?off \<le> a \<and> a < ?off + 131072)"
    proof
      assume "?off \<le> a \<and> a < ?off + 131072"
      then have "segment_floor (?off + (a - ?off)) = ?off" by (intro segment_floor_add [OF dv]) auto
      then show False using a \<open>?off \<le> a \<and> a < ?off + 131072\<close> by simp
    qed
    then show ?thesis using we(5) [of a] tr [of a] a rw by (simp add: base_def)
  qed
  have here: "base bc' (?off + k) = seg_data (seg_at bc i) k" if "k < 131072" "in_range bc (?off + k)" for k
    using that we(4) [OF that] tr [of "?off + k"] segment_floor_add [OF dv that(1)] rw by (simp add: base_def)
  then show "base bc' a = seg_data (seg_at bc i) (a mod 131072)"
    if "in_range bc a" "segment_floor a = ?off" for a
  proof -
    have "?off + a mod 131072 = a" using segment_floor_mod [of a] that(2) by simp
    moreover have "a mod 131072 < 131072" by simp
    ultimately show ?thesis using here that(1) by metis
  qed
  have s: "in_use s" "seg_offset s = ?off" "seg_data s = seg_data (seg_at bc i)"
    using assms(3) f(2) by (metis block_cache_segment.select_convs(1,2,3) block_cache_segment.surjective block_cache_segment.update_convs(6))+
  have sok: "seg_ok s" using s f(3-5) dv by (simp add: seg_ok_def)
  have vrep: "view bc' a = (if segment_floor a = seg_offset s then seg_view bc' s (a mod 131072) else view bc a)" for a
    by (rule view_replace [OF ok(1) assms(2) sg assms(3) s(1,2) sok]) (use other s in auto)
  have v: "view bc' a = view bc a" for a
  proof (cases "segment_floor a = ?off")
    case True
    then have "view bc' a = seg_data (seg_at bc i) (a mod 131072)"
      using vrep [of a] s f(4) kblock [of "a mod 131072"] by (simp add: seg_view_def)
    then show ?thesis
      using view_in_segment [OF ok(1) assms(2,3) True] assms(4) kblock [of "a mod 131072"] by (simp add: seg_view_def)
  next
    case False
    then show ?thesis using vrep [of a] s by simp
  qed
  show "same_view bc bc'" by (simp add: same_view_def ir v)
  have cl: "clean_ok bc' s" using here s by (simp add: clean_ok_def ir)
  have "coherent bc'" by (rule coherent_replace [OF ok(1,2) assms(2,3) sg ir cl other])
  moreover have "plain bc'" using we(2) by (simp add: t upd_seg_def plain_def)
  ultimately show "cache_ok bc'"
    using struct_ok_replace [OF ok(1) assms(2) sg assms(3) s(1,2) sok] by (simp add: cache_ok_def)
qed

lemma flush_segment_ok:
  assumes "flush_segment i bc = (Inr u, bc')" and "cache_ok bc" and "i < length (segments bc)"
  shows "cache_ok bc'" and "same_view bc bc'" and "length (segments bc') = length (segments bc)"
    and "\<And>j. j \<noteq> i \<Longrightarrow> seg_at bc' j = seg_at bc j"
    and "in_use (seg_at bc' i) = in_use (seg_at bc i)" and "seg_offset (seg_at bc' i) = seg_offset (seg_at bc i)"
    and "\<And>b. in_use (seg_at bc' i) \<Longrightarrow> b < 256 \<Longrightarrow> \<not> blk_dirty (seg_at bc' i) b"
proof -
  note ok = cache_ok_seg [OF assms(2,3)]
  have "cache_ok bc' \<and> same_view bc bc' \<and> length (segments bc') = length (segments bc) \<and>
    (\<forall>j. j \<noteq> i \<longrightarrow> seg_at bc' j = seg_at bc j) \<and>
    in_use (seg_at bc' i) = in_use (seg_at bc i) \<and> seg_offset (seg_at bc' i) = seg_offset (seg_at bc i) \<and>
    (\<forall>b < 256. in_use (seg_at bc' i) \<longrightarrow> \<not> blk_dirty (seg_at bc' i) b)"
  proof (cases "in_use (seg_at bc i) \<and> is_segment_dirty (seg_at bc i)")
    case False
    then have "bc' = bc" using assms(1) by (auto simp: flush_segment_def)
    then show ?thesis using False assms(2) is_segment_dirty_iff [OF ok(4)] by auto
  next
    case True
    then have use: "in_use (seg_at bc i)" by simp
    obtain rc bc2 where r: "ok_then (make_segment_valid i) (\<lambda>_. do_sync_write i) bc = (rc, bc2)" by force
    obtain c bc3 where c: "clear_trimmed (seg_offset (seg_at bc i)) (upd_seg i clear_all_dirty bc2) = (c, bc3)" by force
    have fin: "rc = Inr u" "\<exists>u'. c = Inr u'" "bc3 = bc'"
      using assms(1) True by (auto simp: flush_segment_def r c split: sum.splits)
    then obtain bc1 where v: "make_segment_valid i bc = (Inr (), bc1)" and w: "do_sync_write i bc1 = (Inr u, bc2)"
      using r by (auto elim!: ok_then_Inr_E)
    have vf: "valid_from bc i bc1"
      by (rule make_segment_valid_from [OF v ok(1) assms(3) use]) (use ok(3) in \<open>simp add: plain_def\<close>)
    note v1 = valid_from_ok [OF vf assms(2,3) use]
    have i1: "i < length (segments bc1)" using v1(3) assms(3) by simp
    note ok1 = cache_ok_seg [OF v1(1) i1]
    have w': "verified_segment_write i bc1 = (Inr u, bc2)"
      using w ok1(3) by (simp add: do_sync_write_def plain_def)
    obtain u' where c': "clear_trimmed (seg_offset (seg_at bc1 i)) (upd_seg i clear_all_dirty bc2) = (Inr u', bc')"
      using c fin v1(5) by auto
    let ?s = "clear_all_dirty (seg_at bc1 i)"
    note wb = write_back [OF v1(1) i1 v1(4) v1(7) w' refl _ _ _ _ c']
    have fl: "?s = (seg_at bc1 i)\<lparr>seg_flags := seg_flags ?s\<rparr>" "length (seg_flags ?s) = 64"
      using ok1(4) by (simp_all add: clear_all_dirty_def)
    have fd: "blk_valid ?s b" "\<not> blk_dirty ?s b" if "b < 256" for b
      using flags_clear_all_dirty [OF ok1(4) that] v1(7) [OF that] by simp_all
    have sg: "segments bc' = (segments bc1)[i := ?s]" by (rule wb(3)) (use fl fd in auto)
    have "cache_ok bc'" "same_view bc1 bc'" using wb(1,2) fl fd by blast+
    moreover have "same_view bc bc'" using calculation(2) v1(2) same_view_trans by blast
    ultimately show ?thesis
      using sg v1 i1 fd use by (simp add: clear_all_dirty_def)
  qed
  then show "cache_ok bc'" "same_view bc bc'" "length (segments bc') = length (segments bc)"
    "\<And>j. j \<noteq> i \<Longrightarrow> seg_at bc' j = seg_at bc j"
    "in_use (seg_at bc' i) = in_use (seg_at bc i)" "seg_offset (seg_at bc' i) = seg_offset (seg_at bc i)"
    "\<And>b. in_use (seg_at bc' i) \<Longrightarrow> b < 256 \<Longrightarrow> \<not> blk_dirty (seg_at bc' i) b"
    by blast+
qed

section \<open>Finding a segment\<close>

lemma cache_cong:
  assumes "cache_ok bc" and "i < length (segments bc)"
    and b: "bc' = (upd_seg i (\<lambda>seg. seg\<lparr>last_access := x seg, streamed := y seg\<rparr>) bc)\<lparr>timestamp := t\<rparr>"
  shows "cache_ok bc'" and "view bc' = view bc" and "in_range bc' = in_range bc" and "base bc' = base bc"
proof -
  let ?f = "\<lambda>seg. seg\<lparr>last_access := x seg, streamed := y seg\<rparr>"
  have n: "seg_at bc' j = seg_at bc j \<or> (\<exists>l z. seg_at bc' j = (seg_at bc j)\<lparr>last_access := l, streamed := z\<rparr>)" for j
    using assms(2) by (cases "j = i") (auto simp: b upd_seg_def)
  have q: "in_use (seg_at bc' j) = in_use (seg_at bc j)" "seg_offset (seg_at bc' j) = seg_offset (seg_at bc j)"
    "seg_data (seg_at bc' j) = seg_data (seg_at bc j)" "seg_flags (seg_at bc' j) = seg_flags (seg_at bc j)" for j
    using n [of j] by auto
  have d: "blk_dirty (seg_at bc' j) = blk_dirty (seg_at bc j)" "blk_valid (seg_at bc' j) = blk_valid (seg_at bc j)" for j
    by (simp_all add: fun_eq_iff blk_dirty_def blk_valid_def q)
  have l: "length (segments bc') = length (segments bc)" by (simp add: b upd_seg_def)
  show ir: "in_range bc' = in_range bc" by (rule in_range_cong) (simp_all add: b upd_seg_def)
  have tr: "is_trimmed bc' = is_trimmed bc" by (rule is_trimmed_cong) (simp_all add: b upd_seg_def)
  have rw: "raw bc' = raw bc" by (rule raw_cong [OF ir]) (simp add: b upd_seg_def)
  show ba: "base bc' = base bc" by (simp add: base_def fun_eq_iff rw tr)
  have st: "struct_ok bc'" using assms(1) by (simp add: cache_ok_def struct_ok_def seg_ok_def q d l length_greater_0_conv [symmetric] del: length_greater_0_conv)
  have "coherent bc'" using assms(1) by (simp add: cache_ok_def coherent_def clean_ok_def q d l ir ba)
  moreover have "plain bc'" using assms(1) by (simp add: cache_ok_def plain_def b upd_seg_def)
  ultimately show "cache_ok bc'" using st by (simp add: cache_ok_def)
  have so: "struct_ok bc" using assms(1) by (simp add: cache_ok_def)
  show "view bc' = view bc"
  proof
    fix a
    show "view bc' a = view bc a"
    proof (cases "find_segment (segment_floor a) 0 (segments bc)")
      case None
      then have "view bc' a = base bc' a"
        using find_segment_NoneD [OF None] by (intro view_miss) (simp add: q l)
      then show ?thesis using None by (simp add: view_def ba)
    next
      case (Some j)
      note j = find_segment_SomeD [OF Some, simplified]
      have "view bc' a = seg_view bc' (seg_at bc' j) (a mod 131072)"
        by (rule view_in_segment [OF st]) (use j in \<open>simp_all add: q l\<close>)
      moreover have "view bc a = seg_view bc (seg_at bc j) (a mod 131072)"
        by (rule view_in_segment [OF so]) (use j in simp_all)
      ultimately show ?thesis by (simp add: seg_view_def q d ba)
    qed
  qed
qed

lemma init_segment_ok:
  assumes "cache_ok bc" and "i < length (segments bc)" and "131072 dvd off"
    and "find_segment off 0 (segments bc) = None"
    and "\<And>b. in_use (seg_at bc i) \<Longrightarrow> b < 256 \<Longrightarrow> \<not> blk_dirty (seg_at bc i) b"
    and b: "bc' = init_segment off i bc"
  shows "cache_ok bc'" and "same_view bc bc'" and "length (segments bc') = length (segments bc)"
    and "in_use (seg_at bc' i)" and "seg_offset (seg_at bc' i) = off"
proof -
  note ok = cache_ok_seg [OF assms(1,2)]
  define s where "s = \<lparr>in_use = True, seg_data = seg_data (seg_at bc i), seg_offset = off,
        last_access = timestamp bc, streamed = True, seg_flags = replicate 64 0\<rparr>"
  have sg: "segments bc' = (segments bc)[i := s]" by (simp add: b init_segment_def upd_seg_def s_def)
  have n: "seg_at bc' j = (if j = i then s else seg_at bc j)" for j using assms(2) by (simp add: sg)
  have l: "length (segments bc') = length (segments bc)" by (simp add: sg)
  have ns: "\<not> blk_dirty s c" "\<not> blk_valid s c" if "c < 256" for c
    using flags_all_zero [of s c] that by (simp_all add: s_def)
  have free: "seg_offset (seg_at bc j) \<noteq> off" if "j < length (segments bc)" "in_use (seg_at bc j)" for j
    using find_segment_NoneD [OF assms(4)] that by blast
  have ir: "in_range bc' = in_range bc" by (rule in_range_cong) (simp_all add: b init_segment_def upd_seg_def)
  have tr: "is_trimmed bc' = is_trimmed bc" by (rule is_trimmed_cong) (simp_all add: b init_segment_def upd_seg_def)
  have rw: "raw bc' = raw bc" by (rule raw_cong [OF ir]) (simp add: b init_segment_def upd_seg_def)
  have ba: "base bc' = base bc" by (simp add: base_def fun_eq_iff rw tr)
  have so: "in_use s" "seg_offset s = off" by (simp_all add: s_def)
  have sok: "seg_ok s" using ns assms(3) by (simp add: seg_ok_def s_def)
  have u: "\<And>j k. j < length (segments bc) \<Longrightarrow> k < length (segments bc) \<Longrightarrow> in_use (seg_at bc j) \<Longrightarrow>
      in_use (seg_at bc k) \<Longrightarrow> seg_offset (seg_at bc j) = seg_offset (seg_at bc k) \<Longrightarrow> j = k"
    using ok(1) by (simp add: struct_ok_def)
  have st: "struct_ok bc'"
    unfolding struct_ok_def
  proof (intro conjI allI impI)
    show "segments bc' \<noteq> []" using assms(2) l by auto
    show "seg_ok (seg_at bc' j)" if "j < length (segments bc')" for j
      using that ok(1) sok by (simp add: n l struct_ok_def)
    show "j = k" if "j < length (segments bc')" "k < length (segments bc')"
      "in_use (seg_at bc' j) \<and> in_use (seg_at bc' k) \<and> seg_offset (seg_at bc' j) = seg_offset (seg_at bc' k)" for j k
      using that so u [of j k] free [of j] free [of k] by (auto simp: n l split: if_splits)
  qed
  have co: "coherent bc'"
    unfolding coherent_def
  proof (intro allI impI)
    fix j assume j: "j < length (segments bc')" "in_use (seg_at bc' j)"
    show "clean_ok bc' (seg_at bc' j)"
    proof (cases "j = i")
      case True
      then show ?thesis using ns kblock by (auto simp: n clean_ok_def)
    next
      case False
      then have "clean_ok bc (seg_at bc j)" using j ok(2) by (simp add: n l coherent_def)
      then show ?thesis using False by (simp add: n clean_ok_def ir ba)
    qed
  qed
  have "plain bc'" using ok(3) by (simp add: plain_def b init_segment_def upd_seg_def)
  then show "cache_ok bc'" using st co by (simp add: cache_ok_def)
  have v: "view bc' a = view bc a" if r: "in_range bc a" for a
  proof -
    consider (new) "segment_floor a = off"
      | (old) "segment_floor a \<noteq> off" "in_use (seg_at bc i)" "segment_floor a = seg_offset (seg_at bc i)"
      | (other) "segment_floor a \<noteq> off" "\<not> (in_use (seg_at bc i) \<and> segment_floor a = seg_offset (seg_at bc i))"
      by blast
    then show ?thesis
    proof cases
      case new
      have "view bc' a = seg_view bc' (seg_at bc' i) (a mod 131072)"
        by (rule view_in_segment [OF st]) (use new so assms(2) in \<open>simp_all add: n l\<close>)
      also have "\<dots> = base bc a"
        using ns [OF kblock, of "a mod 131072"] so new segment_floor_mod [of a] by (simp add: n seg_view_def ba)
      also have "\<dots> = view bc a" using new free by (intro view_miss [symmetric]) auto
      finally show ?thesis .
    next
      case old
      have "view bc' a = base bc' a"
      proof (rule view_miss)
        fix j assume "j < length (segments bc')" "in_use (seg_at bc' j)"
        then show "seg_offset (seg_at bc' j) \<noteq> segment_floor a"
          using old so u [of j i] assms(2) by (auto simp: n l split: if_splits)
      qed
      moreover have "view bc a = base bc a"
      proof -
        have k: "a mod 131072 < 131072" and ka: "seg_offset (seg_at bc i) + a mod 131072 = a"
          using segment_floor_mod [of a] old by simp_all
        have "seg_data (seg_at bc i) (a mod 131072) = base bc a" if "blk_valid (seg_at bc i) (a mod 131072 div 512)"
        proof -
          have "\<not> blk_dirty (seg_at bc i) (a mod 131072 div 512)" using assms(5) old(2) kblock [OF k] by blast
          then show ?thesis using ok(7) [OF old(2)] k ka that r unfolding clean_ok_def by (metis (no_types))
        qed
        then show ?thesis
          using view_in_segment [OF ok(1) assms(2) old(2,3)] ka by (simp add: seg_view_def)
      qed
      ultimately show ?thesis by (simp add: ba)
    next
      case other
      show ?thesis
      proof (cases "find_segment (segment_floor a) 0 (segments bc)")
        case None
        have "view bc' a = base bc' a"
        proof (rule view_miss)
          fix j assume "j < length (segments bc')" "in_use (seg_at bc' j)"
          then show "seg_offset (seg_at bc' j) \<noteq> segment_floor a"
            using other so find_segment_NoneD [OF None] by (auto simp: n l split: if_splits)
        qed
        then show ?thesis using None by (simp add: view_def ba)
      next
        case (Some j)
        note j = find_segment_SomeD [OF Some, simplified]
        have ji: "j \<noteq> i" using j other by auto
        have "view bc' a = seg_view bc' (seg_at bc' j) (a mod 131072)"
          by (rule view_in_segment [OF st]) (use j ji in \<open>simp_all add: n l\<close>)
        moreover have "view bc a = seg_view bc (seg_at bc j) (a mod 131072)"
          by (rule view_in_segment [OF ok(1)]) (use j in simp_all)
        ultimately show ?thesis using ji by (simp add: n seg_view_def ba)
      qed
    qed
  qed
  then show "same_view bc bc'" by (simp add: same_view_def ir)
  show "length (segments bc') = length (segments bc)" by (rule l)
  show "in_use (seg_at bc' i)" "seg_offset (seg_at bc' i) = off" using so by (simp_all add: n)
qed

lemma find_victim_bounds:
  "find_victim lru acc k segs = Inl i \<Longrightarrow> k \<le> i \<and> i < k + length segs \<and> \<not> in_use (segs ! (i - k))"
  "find_victim lru acc k segs = Inr i \<Longrightarrow> i = lru \<or> (k \<le> i \<and> i < k + length segs)"
proof (induction lru acc k segs rule: find_victim.induct)
  case (2 lru acc k seg segs)
  { case 1
    then show ?case using 2(1,3) by (fastforce simp: nth_Cons' split: if_splits) }
  { case 2
    then show ?case using "2.IH" by (fastforce split: if_splits) }
qed auto

lemma get_segment_ok:
  assumes "get_segment off bc = (Inr i, bc')" and "cache_ok bc" and "131072 dvd off"
  shows "cache_ok bc' \<and> same_view bc bc' \<and> i < length (segments bc') \<and> in_use (seg_at bc' i) \<and>
    seg_offset (seg_at bc' i) = off \<and> length (segments bc') = length (segments bc)"
proof (cases "find_segment off 0 (segments bc)")
  case (Some j)
  note j = find_segment_SomeD [OF Some, simplified]
  have "\<not> use_pthreads bc" using assms(2) by (simp add: cache_ok_def plain_def)
  then have r: "i = j" and b: "bc' = (upd_seg j (\<lambda>seg. seg\<lparr>last_access := timestamp bc, streamed := streamed seg\<rparr>) bc)
      \<lparr>timestamp := timestamp bc + 1\<rparr>"
    using assms(1) Some by (auto simp: get_segment_def wait_for_write_completion_def)
  note c = cache_cong [OF assms(2) j [THEN conjunct1] b]
  show ?thesis
    using c j r by (auto simp: same_view_def) (simp_all add: b upd_seg_def)
next
  case None
  have ne: "segments bc \<noteq> []" using assms(2) by (simp add: cache_ok_def struct_ok_def)
  then have l0: "0 < length (segments bc)" by simp
  show ?thesis
  proof (cases "in_use (seg_at bc 0)")
    case False
    then have r: "i = 0" "bc' = init_segment off 0 bc" using assms(1) None by (simp_all add: get_segment_def)
    then show ?thesis
      using init_segment_ok [OF assms(2) l0 assms(3) None _ r(2)] False l0 by simp
  next
    case use0: True
    have tl: "segments bc = seg_at bc 0 # tl (segments bc)" using ne by (cases "segments bc") auto
    show ?thesis
    proof (cases "find_victim 0 (last_access (seg_at bc 0)) 1 (tl (segments bc))")
      case (Inl v)
      then have r: "i = v" "bc' = init_segment off v bc"
        using assms(1) None use0 by (auto simp: get_segment_def)
      have v: "v < length (segments bc)" "\<not> in_use (seg_at bc v)"
        using find_victim_bounds(1) [OF Inl] ne by (auto simp: nth_tl)
      then show ?thesis
        using init_segment_ok [OF assms(2) v(1) assms(3) None _ r(2)] r(1) by simp
    next
      case (Inr lru)
      have lru: "lru < length (segments bc)" using find_victim_bounds(2) [OF Inr] l0 by auto
      obtain u bc1 where f: "flush_segment lru bc = (Inr u, bc1)" and r: "i = lru" "bc' = init_segment off lru bc1"
        using assms(1) None use0 Inr by (auto simp: get_segment_def elim!: ok_then_Inr_E)
      note fo = flush_segment_ok [OF f assms(2) lru]
      have "find_segment off 0 (segments bc1) = None"
      proof (cases "find_segment off 0 (segments bc1)")
        case (Some j)
        note j = find_segment_SomeD [OF Some, simplified]
        have "in_use (seg_at bc j) \<and> seg_offset (seg_at bc j) = off"
          using j fo(4-6) by (cases "j = lru") auto
        then show ?thesis using find_segment_NoneD [OF None] j fo(3) by auto
      qed
      then have io: "cache_ok bc'" "same_view bc1 bc'" "length (segments bc') = length (segments bc1)"
          "in_use (seg_at bc' lru)" "seg_offset (seg_at bc' lru) = off"
        using init_segment_ok [OF fo(1) _ assms(3) _ _ r(2)] lru fo(3,7) by auto
      then show ?thesis using fo(2,3) same_view_trans lru r(1) by auto
    qed
  qed
qed

section \<open>Reads\<close>

lemma block_segment_pread_ok:
  assumes "block_segment_pread i n o1 bc = (Inr out, bc')" and "cache_ok bc" and "i < length (segments bc)"
    and "in_use (seg_at bc i)" and "o1 + n \<le> 131072"
  shows "cache_ok bc' \<and> same_view bc bc' \<and> length (segments bc') = length (segments bc) \<and>
    out = map (view bc) [seg_offset (seg_at bc i) + o1..<seg_offset (seg_at bc i) + o1 + n]"
proof -
  note ok = cache_ok_seg [OF assms(2,3)]
  obtain u where m: "make_segment_valid i bc = (Inr u, bc')" and out: "out = map (seg_data (seg_at bc' i)) [o1..<o1 + n]"
    using assms(1) by (auto simp: block_segment_pread_def elim!: ok_then_Inr_E)
  have vf: "valid_from bc i bc'"
    by (rule make_segment_valid_from [OF m ok(1) assms(3,4)]) (use ok(3) in \<open>simp add: plain_def\<close>)
  note v = valid_from_ok [OF vf assms(2-4)]
  obtain s where "seg_at bc' i = s" "\<forall>k < 131072. seg_data s k = seg_view bc (seg_at bc i) k"
    using vf assms(3) by (auto simp: valid_from_def)
  then have "\<forall>k < 131072. seg_data (seg_at bc' i) k = view bc (seg_offset (seg_at bc i) + k)"
    using view_hit [OF ok(1) assms(3,4)] by simp
  then have "out = map (\<lambda>k. view bc (seg_offset (seg_at bc i) + k)) [o1..<o1 + n]"
    using assms(5) by (simp add: out)
  also have "\<dots> = map (view bc) [seg_offset (seg_at bc i) + o1..<seg_offset (seg_at bc i) + o1 + n]"
    by (simp add: list_eq_iff_nth_eq add.assoc)
  finally show ?thesis using v by simp
qed

text \<open>All addresses of a range are in front of the end of the medium.\<close>

definition range_ok :: "block_cache \<Rightarrow> nat \<Rightarrow> nat \<Rightarrow> bool" where
  "range_ok bc off n = (\<forall>a. off \<le> a \<and> a < off + n \<longrightarrow> in_range bc a)"

lemma same_view_map:
  assumes "same_view bc bc'" and "range_ok bc off n"
  shows "map (view bc') [off..<off + n] = map (view bc) [off..<off + n]"
  using assms by (auto simp: same_view_def range_ok_def)

lemma range_ok_split: "range_ok bc off (m + n) \<longleftrightarrow> range_ok bc off m \<and> range_ok bc (off + m) n"
proof
  assume h: "range_ok bc off m \<and> range_ok bc (off + m) n"
  show "range_ok bc off (m + n)"
    unfolding range_ok_def
  proof (intro allI impI)
    fix a assume "off \<le> a \<and> a < off + (m + n)"
    then show "in_range bc a" using h by (cases "a < off + m") (simp_all add: range_ok_def)
  qed
qed (simp add: range_ok_def)

lemma range_ok_same: "same_view bc bc' \<Longrightarrow> range_ok bc' off n = range_ok bc off n"
  by (simp add: same_view_def range_ok_def)

lemma upt_split_map: "map f [off..<off + (m + n)] = map f [off..<off + m] @ map f [off + m..<off + m + n]"
  using upt_add_eq_append [of off "off + m" n] by (simp only: add.assoc map_append le_add1)

lemma pread_loop_ok:
  "pread_loop n off bc = (Inr out, bc') \<Longrightarrow> cache_ok bc \<Longrightarrow> 131072 dvd off \<or> n = 0 \<Longrightarrow> range_ok bc off n \<Longrightarrow>
   cache_ok bc' \<and> same_view bc bc' \<and> out = map (view bc) [off..<off + n]"
proof (induction n off bc arbitrary: out bc' rule: pread_loop.induct)
  case (1 n off bc)
  show ?case
  proof (cases "n = 0")
    case True
    then show ?thesis using "1.prems" by (simp add: pread_loop.simps [of 0])
  next
    case False
    let ?m = "min n 131072"
    obtain i bc1 part bc2 rest where g: "get_segment off bc = (Inr i, bc1)"
      and p: "block_segment_pread i ?m 0 bc1 = (Inr part, bc2)"
      and l: "pread_loop (n - ?m) (off + ?m) bc2 = (Inr rest, bc')" and o: "out = part @ rest"
      using "1.prems"(1) False by (auto simp: pread_loop.simps [of n] split: prod.splits sum.splits)
    have p': "(Inr part, bc2) = block_segment_pread i (min n BLOCK_CACHE_SEGMENT_SIZE) 0 bc1" using p by simp
    have d: "131072 dvd off" using "1.prems"(3) False by simp
    have d': "131072 dvd off + ?m \<or> n - ?m = 0" using d by (auto simp: min_def)
    note go = get_segment_ok [OF g "1.prems"(2) d]
    have po: "cache_ok bc2 \<and> same_view bc1 bc2 \<and> part = map (view bc1) [off..<off + ?m]"
      using block_segment_pread_ok [OF p] go by auto
    have sv: "same_view bc bc2" using go po same_view_trans by blast
    have mn: "?m + (n - ?m) = n" by simp
    have ro: "range_ok bc off ?m" "range_ok bc (off + ?m) (n - ?m)"
      using "1.prems"(4) range_ok_split [of bc off ?m "n - ?m"] mn by auto
    have "cache_ok bc' \<and> same_view bc2 bc' \<and> rest = map (view bc2) [off + ?m..<off + ?m + (n - ?m)]"
      using "1.IH" [OF False g [symmetric] refl p' refl] l po d' range_ok_same [OF sv] ro(2) by simp
    then have c: "cache_ok bc'" "same_view bc2 bc'" "rest = map (view bc2) [off + ?m..<off + ?m + (n - ?m)]"
      by blast+
    have r: "cache_ok bc'" "same_view bc bc'" "rest = map (view bc) [off + ?m..<off + ?m + (n - ?m)]"
      using c(1) same_view_trans [OF sv c(2)] c(3) [unfolded same_view_map [OF sv ro(2)]] by blast+
    have "part = map (view bc) [off..<off + ?m]" using po same_view_map [OF _ ro(1), of bc1] go by metis
    then have "out = map (view bc) [off..<off + (?m + (n - ?m))]"
      unfolding upt_split_map o r(3) by (rule arg_cong)
    then show ?thesis unfolding mn using r(1,2) by blast
  qed
qed

lemma block_cache_pread_ok:
  assumes "block_cache_pread n off bc = (Inr out, bc')" and "cache_ok bc" and "range_ok bc off n"
  shows "cache_ok bc' \<and> same_view bc bc' \<and> out = map (view bc) [off..<off + n]"
proof (cases "segment_floor off = off")
  case True
  have "131072 dvd segment_floor off" by simp
  then have "131072 dvd off" using True by simp
  then show ?thesis using pread_loop_ok assms True by (auto simp: block_cache_pread_def)
next
  case False
  let ?f = "segment_floor off" and ?m = "min n (131072 - (off - segment_floor off))"
  have fl: "off mod 131072 < 131072" "off = ?f + off mod 131072" "off - ?f = off mod 131072"
    using segment_floor_mod [of off] by (simp, linarith, linarith)
  obtain i bc1 part bc2 rest where g: "get_segment ?f bc = (Inr i, bc1)"
    and p: "block_segment_pread i ?m (off - ?f) bc1 = (Inr part, bc2)"
    and l: "pread_loop (n - ?m) (off + ?m) bc2 = (Inr rest, bc')" and o: "out = part @ rest"
    using assms(1) False by (auto simp: block_cache_pread_def Let_def elim!: ok_then_Inr_E)
  note go = get_segment_ok [OF g assms(2) segment_floor_dvd]
  have po: "cache_ok bc2 \<and> same_view bc1 bc2 \<and> part = map (view bc1) [off..<off + ?m]"
    using block_segment_pread_ok [OF p] go fl by auto
  have sv: "same_view bc bc2" using go po same_view_trans by auto
  have mn: "?m + (n - ?m) = n" by simp
  have ro: "range_ok bc off ?m" "range_ok bc (off + ?m) (n - ?m)"
    using assms(3) range_ok_split [of bc off ?m "n - ?m"] mn by auto
  have d': "131072 dvd off + ?m \<or> n - ?m = 0"
  proof (cases "n \<le> 131072 - (off - ?f)")
    case False
    then have "off + ?m = ?f + 131072" using fl by linarith
    then show ?thesis by simp
  qed simp
  have "cache_ok bc' \<and> same_view bc2 bc' \<and> rest = map (view bc2) [off + ?m..<off + ?m + (n - ?m)]"
    using pread_loop_ok [OF l] po d' range_ok_same [OF sv] ro(2) by simp
  then have c: "cache_ok bc'" "same_view bc2 bc'" "rest = map (view bc2) [off + ?m..<off + ?m + (n - ?m)]"
    by blast+
  have r: "cache_ok bc'" "same_view bc bc'" "rest = map (view bc) [off + ?m..<off + ?m + (n - ?m)]"
    using c(1) same_view_trans [OF sv c(2)] c(3) [unfolded same_view_map [OF sv ro(2)]] by blast+
  have "part = map (view bc) [off..<off + ?m]" using po same_view_map [OF _ ro(1), of bc1] go by metis
  then have "out = map (view bc) [off..<off + (?m + (n - ?m))]"
    unfolding upt_split_map o r(3) by (rule arg_cong)
  then show ?thesis unfolding mn using r(1,2) by blast
qed

section \<open>Writes\<close>

text \<open>The effect of writing a buffer at an offset on what the cache represents.\<close>

definition wrote :: "block_cache \<Rightarrow> byte list \<Rightarrow> nat \<Rightarrow> block_cache \<Rightarrow> bool" where
  "wrote bc buf off bc' =
     (in_range bc' = in_range bc \<and>
      (\<forall>a. in_range bc a \<longrightarrow> view bc' a = store_bytes buf off (view bc) a))"

lemma wrote_same: "wrote bc buf off bc1 \<Longrightarrow> same_view bc1 bc' \<Longrightarrow> wrote bc buf off bc'"
  by (simp add: wrote_def same_view_def)

lemma same_wrote: "same_view bc bc1 \<Longrightarrow> wrote bc1 buf off bc' \<Longrightarrow> wrote bc buf off bc'"
  by (simp add: wrote_def same_view_def store_bytes_def)

lemma wrote_append:
  "wrote bc b1 off bc1 \<Longrightarrow> wrote bc1 b2 (off + length b1) bc' \<Longrightarrow> wrote bc (b1 @ b2) off bc'"
  by (auto simp: wrote_def store_bytes_def nth_append)

lemma wrote_Nil: "wrote bc [] off bc"
  by (auto simp add: wrote_def store_bytes_def)

lemma set_dirty_loop:
  assumes "length (seg_flags seg) = 64" and "m \<le> n" and "n \<le> 256"
  shows "let seg' = fold set_dirty [m..<n] seg in
    length (seg_flags seg') = 64 \<and> in_use seg' = in_use seg \<and> seg_offset seg' = seg_offset seg \<and>
    seg_data seg' = seg_data seg \<and> streamed seg' = streamed seg \<and>
    (\<forall>b < 256. blk_valid seg' b \<longleftrightarrow> (m \<le> b \<and> b < n) \<or> blk_valid seg b) \<and>
    (\<forall>b < 256. blk_dirty seg' b \<longleftrightarrow> (m \<le> b \<and> b < n) \<or> blk_dirty seg b)"
  using assms(2,3)
proof (induction n rule: dec_induct)
  case base
  then show ?case using assms(1) by (auto simp add: Let_def)
next
  case (step n)
  define t where "t = fold set_dirty [m..<n] seg"
  have IH: "length (seg_flags t) = 64" "in_use t = in_use seg" "seg_offset t = seg_offset seg"
    "seg_data t = seg_data seg" "streamed t = streamed seg"
    "\<forall>b < 256. blk_valid t b \<longleftrightarrow> (m \<le> b \<and> b < n) \<or> blk_valid seg b"
    "\<forall>b < 256. blk_dirty t b \<longleftrightarrow> (m \<le> b \<and> b < n) \<or> blk_dirty seg b"
    using step by (simp_all add: t_def Let_def)
  have n: "n < 256" using step.prems by simp
  have st: "fold set_dirty [m..<Suc n] seg = set_dirty n t" using step.hyps by (simp add: t_def)
  have sf: "length (seg_flags (set_dirty n t)) = 64" "in_use (set_dirty n t) = in_use seg"
    "seg_offset (set_dirty n t) = seg_offset seg" "seg_data (set_dirty n t) = seg_data seg"
    "streamed (set_dirty n t) = streamed seg"
    using IH(1-5) by (simp_all add: set_dirty_def)
  have "\<forall>b < 256. blk_valid (set_dirty n t) b \<longleftrightarrow> (m \<le> b \<and> b < Suc n) \<or> blk_valid seg b"
    "\<forall>b < 256. blk_dirty (set_dirty n t) b \<longleftrightarrow> (m \<le> b \<and> b < Suc n) \<or> blk_dirty seg b"
    using flags_set_dirty [OF IH(1) n] IH(6,7) step.hyps(1) by (auto simp: less_Suc_eq)
  then show ?case unfolding Let_def st using sf by blast
qed

lemma copy_into_segment:
  assumes "cache_ok bc" and "i < length (segments bc)" and "in_use (seg_at bc i)"
    and "512 dvd o1" and "512 dvd length buf" and "o1 + length buf \<le> 131072"
    and b: "bc' = upd_seg i (\<lambda>seg. fold set_dirty [o1 div 512..<o1 div 512 + length buf div 512]
                  (seg\<lparr>seg_data := store_bytes buf o1 (seg_data seg)\<rparr>)) bc"
  shows "cache_ok bc'" and "wrote bc buf (seg_offset (seg_at bc i) + o1) bc'"
    and "length (segments bc') = length (segments bc)" and "in_use (seg_at bc' i)"
    and "seg_offset (seg_at bc' i) = seg_offset (seg_at bc i)" and "base bc' = base bc"
proof -
  note ok = cache_ok_seg [OF assms(1,2)]
  let ?off = "seg_offset (seg_at bc i)" and ?s0 = "(seg_at bc i)\<lparr>seg_data := store_bytes buf o1 (seg_data (seg_at bc i))\<rparr>"
  let ?m = "o1 div 512" and ?n = "o1 div 512 + length buf div 512"
  define s where "s = fold set_dirty [?m..<?n] ?s0"
  obtain p q where pq: "o1 = 512 * p" "length buf = 512 * q" using assms(4,5) by (auto simp: dvd_def)
  have n256: "?n \<le> 256" using assms(6) pq by simp
  have z: "blk_valid ?s0 = blk_valid (seg_at bc i)" "blk_dirty ?s0 = blk_dirty (seg_at bc i)"
    by (simp_all add: fun_eq_iff blk_valid_def blk_dirty_def)
  have sd: "length (seg_flags s) = 64" "in_use s = in_use (seg_at bc i)" "seg_offset s = ?off"
    "seg_data s = store_bytes buf o1 (seg_data (seg_at bc i))"
    "\<forall>b < 256. blk_valid s b \<longleftrightarrow> (?m \<le> b \<and> b < ?n) \<or> blk_valid (seg_at bc i) b"
    "\<forall>b < 256. blk_dirty s b \<longleftrightarrow> (?m \<le> b \<and> b < ?n) \<or> blk_dirty (seg_at bc i) b"
    using set_dirty_loop [of ?s0 ?m ?n] ok(4) n256 by (simp_all add: s_def Let_def z)
  have inside: "(?m \<le> k div 512 \<and> k div 512 < ?n) \<longleftrightarrow> (o1 \<le> k \<and> k < o1 + length buf)" for k
    using pq by (auto simp: less_eq_div_iff_mult_less_eq div_less_iff_less_mult)
  have sg: "segments bc' = (segments bc)[i := s]" by (simp add: b upd_seg_def s_def)
  have us: "in_use s" using sd assms(3) by simp
  have ir: "in_range bc' = in_range bc" by (rule in_range_cong) (simp_all add: b upd_seg_def)
  have tr: "is_trimmed bc' = is_trimmed bc" by (rule is_trimmed_cong) (simp_all add: b upd_seg_def)
  have rw: "raw bc' = raw bc" by (rule raw_cong [OF ir]) (simp add: b upd_seg_def)
  show ba: "base bc' = base bc" by (simp add: base_def fun_eq_iff rw tr)
  have sok: "seg_ok s" using sd ok(5,6) assms(3) by (auto simp: seg_ok_def)
  have vrep: "view bc' a = (if segment_floor a = seg_offset s then seg_view bc' s (a mod 131072) else view bc a)" for a
    by (rule view_replace [OF ok(1) assms(2) sg assms(3) us sd(3) sok]) (simp add: ba)
  have "view bc' a = store_bytes buf (?off + o1) (view bc) a" for a
  proof (cases "segment_floor a = ?off")
    case True
    let ?k = "a mod 131072"
    have ka: "a = ?off + ?k" using segment_floor_mod [of a] True by simp
    have inb: "(?off + o1 \<le> a \<and> a < ?off + o1 + length buf) \<longleftrightarrow> (o1 \<le> ?k \<and> ?k < o1 + length buf)"
      "a - (?off + o1) = ?k - o1" using ka by linarith+
    have "view bc' a = seg_view bc' s ?k" using vrep [of a] True sd(3) by simp
    moreover have "view bc a = seg_view bc (seg_at bc i) ?k"
      by (rule view_in_segment [OF ok(1) assms(2,3) True])
    ultimately show ?thesis
      using sd inside [of ?k] kblock [of ?k] inb by (auto simp: seg_view_def store_bytes_def ba)
  next
    case False
    have "\<not> (?off + o1 \<le> a \<and> a < ?off + o1 + length buf)"
    proof
      assume h: "?off + o1 \<le> a \<and> a < ?off + o1 + length buf"
      then have "segment_floor (?off + (a - ?off)) = ?off"
        using assms(6) by (intro segment_floor_add [OF ok(5) [OF assms(3)]]) auto
      then show False using False h by simp
    qed
    then show ?thesis using vrep [of a] False sd(3) by (auto simp: store_bytes_def)
  qed
  then show "wrote bc buf (?off + o1) bc'" by (simp add: wrote_def ir)
  have cl: "clean_ok bc' s"
    unfolding clean_ok_def ir ba
  proof (intro allI impI)
    fix k :: nat assume k: "k < 131072" and h: "in_range bc (seg_offset s + k) \<and> blk_valid s (k div 512) \<and> \<not> blk_dirty s (k div 512)"
    then have "\<not> (o1 \<le> k \<and> k < o1 + length buf)" "blk_valid (seg_at bc i) (k div 512)" "\<not> blk_dirty (seg_at bc i) (k div 512)"
      using sd(5,6) kblock [OF k] inside [of k] by auto
    then show "seg_data s k = base bc (seg_offset s + k)"
      using ok(7) [OF assms(3)] k h sd(3,4) by (auto simp: clean_ok_def store_bytes_def)
  qed
  have "coherent bc'" by (rule coherent_replace [OF ok(1,2) assms(2,3) sg ir cl]) (simp add: ba)
  moreover have "plain bc'" using ok(3) by (simp add: plain_def b upd_seg_def)
  ultimately show "cache_ok bc'"
    using struct_ok_replace [OF ok(1) assms(2) sg assms(3) us sd(3) sok] by (simp add: cache_ok_def)
  show "length (segments bc') = length (segments bc)" "in_use (seg_at bc' i)" "seg_offset (seg_at bc' i) = ?off"
    using us sd(3) assms(2) by (simp_all add: sg)
qed

lemma block_segment_pwrite_ok:
  assumes "block_segment_pwrite i buf o1 strm bc = (Inr u, bc')" and "cache_ok bc" and "i < length (segments bc)"
    and "in_use (seg_at bc i)" and "512 dvd o1" and "512 dvd length buf" and "o1 + length buf \<le> 131072"
  shows "cache_ok bc' \<and> wrote bc buf (seg_offset (seg_at bc i) + o1) bc'"
proof -
  define bc1 where "bc1 = upd_seg i (\<lambda>seg. fold set_dirty [o1 div 512..<o1 div 512 + length buf div 512]
                  (seg\<lparr>seg_data := store_bytes buf o1 (seg_data seg)\<rparr>)) bc"
  note ci = copy_into_segment [OF assms(2-7) bc1_def]
  have i1: "i < length (segments bc1)" using ci(3) assms(3) by simp
  note ok1 = cache_ok_seg [OF ci(1) i1]
  show ?thesis
  proof (cases "strm \<and> streamed (seg_at bc1 i) \<and> is_segment_completely_dirty (seg_at bc1 i)")
    case True
    then obtain u1 bc2 where w: "do_async_write i bc1 = (Inr u1, bc2)"
      and c: "clear_trimmed (seg_offset (seg_at (upd_seg i (\<lambda>seg. seg\<lparr>seg_flags := replicate 64 0xaa\<rparr>) bc2) i))
               (upd_seg i (\<lambda>seg. seg\<lparr>seg_flags := replicate 64 0xaa\<rparr>) bc2) = (Inr u, bc')"
      using assms(1) by (auto simp: block_segment_pwrite_def Let_def bc1_def elim!: ok_then_Inr_E)
    have w': "verified_segment_write i bc1 = (Inr u1, bc2)"
      using w ok1(3) by (simp add: do_async_write_def do_sync_write_def plain_def)
    have "segments bc2 = segments bc1"
      using verified_segment_write_effect(1) [OF w' ok1(3) refl] by (auto simp: end_moved_def)
    then have c': "clear_trimmed (seg_offset (seg_at bc1 i)) (upd_seg i (\<lambda>seg. seg\<lparr>seg_flags := replicate 64 0xaa\<rparr>) bc2) = (Inr u, bc')"
      using c i1 by (simp add: upd_seg_def)
    have v: "blk_valid (seg_at bc1 i) b" if "b < 256" for b
      using True is_segment_completely_dirty_iff [OF ok1(4)] ok1(6) [OF ci(4) that] that by blast
    have fl: "blk_valid ((seg_at bc1 i)\<lparr>seg_flags := replicate 64 0xaa\<rparr>) b"
      "\<not> blk_dirty ((seg_at bc1 i)\<lparr>seg_flags := replicate 64 0xaa\<rparr>) b" if "b < 256" for b
      using flags_all_aa [OF _ that, of "(seg_at bc1 i)\<lparr>seg_flags := replicate 64 0xaa\<rparr>"] by simp_all
    have "cache_ok bc'" "same_view bc1 bc'"
      using write_back(1,2) [OF ci(1) i1 ci(4) v w' refl _ _ _ _ c'] fl by simp_all
    then show ?thesis using wrote_same [OF ci(2)] by blast
  next
    case False
    then have "bc' = bc1 \<or> bc' = upd_seg i (\<lambda>seg. seg\<lparr>streamed := False\<rparr>) bc1"
      using assms(1) unfolding block_segment_pwrite_def Let_def block_size bc1_def [symmetric] by (auto split: if_splits)
    then show ?thesis
    proof
      assume "bc' = bc1" then show ?thesis using ci by simp
    next
      assume "bc' = upd_seg i (\<lambda>seg. seg\<lparr>streamed := False\<rparr>) bc1"
      then have "bc' = (upd_seg i (\<lambda>seg. seg\<lparr>last_access := last_access seg, streamed := False\<rparr>) bc1)\<lparr>timestamp := timestamp bc1\<rparr>"
        by (simp add: upd_seg_def)
      from cache_cong [OF ci(1) i1 this] have "cache_ok bc'" "same_view bc1 bc'" by (simp_all add: same_view_def)
      then show ?thesis using wrote_same [OF ci(2)] by blast
    qed
  qed
qed

lemma add_le_of_le_diff: "m \<le> n - k \<Longrightarrow> k \<le> n \<Longrightarrow> k + m \<le> (n :: nat)"
  by simp

lemma pwrite_loop_ok:
  "pwrite_loop buf off strm bc = (Inr u, bc') \<Longrightarrow> cache_ok bc \<Longrightarrow> 131072 dvd off \<or> buf = [] \<Longrightarrow> 512 dvd length buf \<Longrightarrow>
   cache_ok bc' \<and> wrote bc buf off bc'"
proof (induction buf off strm bc arbitrary: u bc' rule: pwrite_loop.induct)
  case (1 buf off strm bc)
  show ?case
  proof (cases "buf = []")
    case True
    then show ?thesis using "1.prems" wrote_Nil by (simp add: pwrite_loop.simps [of "[]"])
  next
    case False
    let ?a = "take 131072 buf" and ?b = "drop 131072 buf" and ?m = "min (length buf) 131072"
    obtain i bc1 u1 bc2 where g: "get_segment off bc = (Inr i, bc1)"
      and p: "block_segment_pwrite i ?a 0 strm bc1 = (Inr u1, bc2)"
      and l: "pwrite_loop ?b (off + ?m) strm bc2 = (Inr u, bc')"
      using "1.prems"(1) False by (auto simp: pwrite_loop.simps [of buf] split: prod.splits sum.splits)
    have p': "(Inr u1, bc2) = block_segment_pwrite i (take BLOCK_CACHE_SEGMENT_SIZE buf) 0 strm bc1" using p by simp
    have d: "131072 dvd off" using "1.prems"(3) False by simp
    have d': "131072 dvd off + ?m \<or> ?b = []" using d by (auto simp: min_def)
    have da: "512 dvd length ?a" "512 dvd length ?b" using "1.prems"(4) by (auto simp: min_def)
    note go = get_segment_ok [OF g "1.prems"(2) d]
    have po: "cache_ok bc2" "wrote bc1 ?a off bc2"
      using block_segment_pwrite_ok [OF p] go da(1) by auto
    have w1: "wrote bc ?a off bc2" using same_wrote po(2) go by blast
    have "cache_ok bc' \<and> wrote bc2 ?b (off + ?m) bc'"
      using "1.IH" [OF False g [symmetric] refl p' refl] l po(1) d' da(2) by simp
    then have c: "cache_ok bc'" "wrote bc2 ?b (off + length ?a) bc'" by (simp_all add: min.commute)
    have "wrote bc (?a @ ?b) off bc'" by (rule wrote_append [OF w1 c(2)])
    then show ?thesis using c(1) by simp
  qed
qed

lemma block_cache_pwrite_ok:
  assumes "block_cache_pwrite buf off strm bc = (Inr u, bc')" and "cache_ok bc"
    and "512 dvd off" and "512 dvd length buf"
  shows "cache_ok bc' \<and> wrote bc buf off bc'"
proof (cases "segment_floor off = off")
  case True
  have "131072 dvd segment_floor off" by simp
  then have "131072 dvd off" using True by simp
  then show ?thesis using pwrite_loop_ok assms True by (auto simp: block_cache_pwrite_def)
next
  case False
  let ?f = "segment_floor off" and ?m = "min (length buf) (131072 - (off - segment_floor off))"
  have fl: "off mod 131072 < 131072" "off = ?f + off mod 131072" "off - ?f = off mod 131072"
    using segment_floor_mod [of off] by (simp, linarith, linarith)
  have d5: "512 dvd off - ?f" using assms(3) fl(3) by (simp add: dvd_mod)
  obtain i bc1 u1 bc2 where g: "get_segment ?f bc = (Inr i, bc1)"
    and p: "block_segment_pwrite i (take ?m buf) (off - ?f) strm bc1 = (Inr u1, bc2)"
    and l: "pwrite_loop (drop ?m buf) (off + ?m) strm bc2 = (Inr u, bc')"
    using assms(1) False by (auto simp: block_cache_pwrite_def Let_def elim!: ok_then_Inr_E)
  note go = get_segment_ok [OF g assms(2) segment_floor_dvd]
  have "512 dvd 131072 - (off - ?f)" by (rule dvd_diff_nat [OF _ d5]) simp
  then have dm: "512 dvd ?m" using assms(4) by (cases "length buf \<le> 131072 - (off - ?f)") (simp_all only: min_def if_True if_False)
  have lt: "length (take ?m buf) = ?m" by (simp only: length_take min.left_idem min.commute)
  have "512 dvd length (drop ?m buf)" unfolding length_drop by (rule dvd_diff_nat [OF assms(4) dm])
  then have da: "512 dvd length (take ?m buf)" "512 dvd length (drop ?m buf)" "length (take ?m buf) = ?m"
    using dm lt by simp_all
  have po: "cache_ok bc2" "wrote bc1 (take ?m buf) off bc2"
  proof -
    have "?m \<le> 131072 - (off - ?f)" "off - ?f \<le> 131072" using fl(1,3) by (simp_all only: min.cobounded2 less_imp_le)
    then have le: "off - ?f + length (take ?m buf) \<le> 131072"
      unfolding lt by (rule add_le_of_le_diff)
    have "i < length (segments bc1)" "in_use (seg_at bc1 i)" "cache_ok bc1" "seg_offset (seg_at bc1 i) + (off - ?f) = off"
      using go segment_floor_le [of off] by simp_all
    then show "cache_ok bc2" "wrote bc1 (take ?m buf) off bc2"
      using block_segment_pwrite_ok [OF p _ _ _ d5 da(1) le] by simp_all
  qed
  have w1: "wrote bc (take ?m buf) off bc2" using same_wrote po(2) go by blast
  have d': "131072 dvd off + ?m \<or> drop ?m buf = []"
  proof (cases "length buf \<le> 131072 - (off - ?f)")
    case False
    then have "off + ?m = ?f + 131072" using fl by linarith
    then show ?thesis by simp
  qed simp
  have "cache_ok bc' \<and> wrote bc2 (drop ?m buf) (off + ?m) bc'"
    using pwrite_loop_ok [OF l po(1) d' da(2)] by simp
  then have c: "cache_ok bc'" "wrote bc2 (drop ?m buf) (off + length (take ?m buf)) bc'"
    unfolding da(3) by blast+
  have "wrote bc (take ?m buf @ drop ?m buf) off bc'" by (rule wrote_append [OF w1 c(2)])
  then show ?thesis using c(1) by (simp only: append_take_drop_id simp_thms)
qed

section \<open>Flushing\<close>

lemma flush_segments_ok:
  "flush_segments is bc = (Inr u, bc') \<Longrightarrow> cache_ok bc \<Longrightarrow> set is \<subseteq> {..<length (segments bc)} \<Longrightarrow>
   cache_ok bc' \<and> same_view bc bc' \<and> length (segments bc') = length (segments bc) \<and>
   (\<forall>i. i \<notin> set is \<longrightarrow> seg_at bc' i = seg_at bc i) \<and>
   (\<forall>i \<in> set is. in_use (seg_at bc' i) \<longrightarrow> (\<forall>b < 256. \<not> blk_dirty (seg_at bc' i) b))"
proof (induction "is" arbitrary: bc)
  case (Cons i "is")
  obtain bc1 where f: "flush_segment i bc = (Inr (), bc1)" and r: "flush_segments is bc1 = (Inr u, bc')"
    using Cons.prems(1) by (auto split: prod.splits sum.splits)
  have i: "i < length (segments bc)" using Cons.prems(3) by simp
  note fo = flush_segment_ok [OF f Cons.prems(2) i]
  have IH: "cache_ok bc'" "same_view bc1 bc'" "length (segments bc') = length (segments bc1)"
    "\<forall>j. j \<notin> set is \<longrightarrow> seg_at bc' j = seg_at bc1 j"
    "\<forall>j \<in> set is. in_use (seg_at bc' j) \<longrightarrow> (\<forall>b < 256. \<not> blk_dirty (seg_at bc' j) b)"
    using Cons.IH [OF r fo(1)] Cons.prems(3) fo(3) by auto
  have "\<forall>j \<in> set (i # is). in_use (seg_at bc' j) \<longrightarrow> (\<forall>b < 256. \<not> blk_dirty (seg_at bc' j) b)"
    using IH(4,5) fo(7) by (cases "i \<in> set is") auto
  then show ?case using IH fo same_view_trans by auto
qed simp

lemma clean_view:
  assumes "cache_ok bc" and "in_range bc a"
    and "\<And>i b. i < length (segments bc) \<Longrightarrow> in_use (seg_at bc i) \<Longrightarrow> b < 256 \<Longrightarrow> \<not> blk_dirty (seg_at bc i) b"
  shows "view bc a = base bc a"
proof (cases "find_segment (segment_floor a) 0 (segments bc)")
  case (Some i)
  note i = find_segment_SomeD [OF Some, simplified]
  note ok = cache_ok_seg [OF assms(1) i [THEN conjunct1]]
  have k: "a mod 131072 < 131072" and ka: "seg_offset (seg_at bc i) + a mod 131072 = a"
    using segment_floor_mod [of a] i by simp_all
  have "seg_data (seg_at bc i) (a mod 131072) = base bc a" if "blk_valid (seg_at bc i) (a mod 131072 div 512)"
    using ok(7) i k ka that assms(2) assms(3) [of i "a mod 131072 div 512"] kblock [OF k] unfolding clean_ok_def
    by metis
  moreover have "view bc a = seg_view bc (seg_at bc i) (a mod 131072)"
    by (rule view_in_segment [OF ok(1)]) (use i in simp_all)
  ultimately show ?thesis using ka by (simp add: seg_view_def)
qed (simp add: view_def)

lemma block_cache_flush_ok:
  assumes "block_cache_flush bc = (Inr u, bc')" and "cache_ok bc"
  shows "cache_ok bc' \<and> same_view bc bc' \<and> (\<forall>a. in_range bc a \<longrightarrow> base bc' a = view bc a)"
proof -
  have f: "cache_ok bc'" "same_view bc bc'" "length (segments bc') = length (segments bc)"
    "\<forall>i < length (segments bc). in_use (seg_at bc' i) \<longrightarrow> (\<forall>b < 256. \<not> blk_dirty (seg_at bc' i) b)"
    using flush_segments_ok [OF assms(1) [unfolded block_cache_flush_def] assms(2)] by (auto simp: atLeast0LessThan)
  have "base bc' a = view bc a" if "in_range bc a" for a
    using clean_view [OF f(1), of a] that f(2-4) by (simp add: same_view_def)
  then show ?thesis using f by blast
qed

section \<open>The cache is a block store\<close>

interpretation cache: block_store cache_ok view in_range block_cache_pread
  "\<lambda>buf off. block_cache_pwrite buf off strm" for strm
proof
  fix n off s out t
  assume h: "block_cache_pread n off s = (Inr out, t)" "cache_ok s"
    "\<forall>a. off \<le> a \<and> a < off + n \<longrightarrow> in_range s a"
  show "cache_ok t \<and> in_range t = in_range s \<and> (\<forall>a. in_range s a \<longrightarrow> view t a = view s a) \<and>
      out = map (view s) [off..<off + n]"
    using block_cache_pread_ok [OF h(1,2)] h(3) by (simp add: range_ok_def same_view_def)
next
  fix buf off s u t
  assume "block_cache_pwrite buf off strm s = (Inr u, t)" "cache_ok s" "512 dvd off" "512 dvd length buf"
  then show "cache_ok t \<and> in_range t = in_range s \<and>
      (\<forall>a. in_range s a \<longrightarrow> view t a = store_bytes buf off (view s) a)"
    using block_cache_pwrite_ok by (simp add: wrote_def)
qed

end
