(* ===== verification/Cache_Trim.thy ===== *)
theory Cache_Trim
  imports Cache_Refinement
begin

text \<open>
  Trimming, initialising and resetting the block cache: what these operations do to the contents
  that the cache represents. \<open>trim_ok\<close> relates the tracked range to the array of trim bits.
\<close>

definition trim_ok :: "block_cache \<Rightarrow> bool" where
  "trim_ok bc = (131072 dvd trimmed_end_offset bc \<and>
     trimmed_end_offset bc \<le> trimmed_len bc * 8 * 131072)"

section \<open>Setting a range of bits\<close>

lemma byte_range:
  "8 * p + r = b \<Longrightarrow> r < 8 \<Longrightarrow> p < q \<Longrightarrow> 8 * q + s = e \<Longrightarrow>
   8 * (p + 1) \<le> 8 * q \<and> b < 8 * p + 8 \<and> 8 * q \<le> (e :: nat)"
  by presburger

lemma set_trimmed_range_ok:
  assumes "b \<le> e" and "e \<le> 8 * trimmed_len bc"
  shows "set_trimmed_range b e bc = (Inr (), bc\<lparr>trimmed := set_bits b e (trimmed bc)\<rparr>)"
proof -
  have b8: "8 * (b div 8) + b mod 8 = b" and e8: "8 * (e div 8) + e mod 8 = e" by simp_all
  show ?thesis
  proof (cases "b div 8 = e div 8")
    case True
    then have "\<not> (b mod 8 < e mod 8 \<and> b div 8 \<ge> trimmed_len bc)" using assms b8 e8 by linarith
    moreover have "8 * (b div 8) + e mod 8 = e" using True e8 by simp
    ultimately show ?thesis using True b8 by (simp add: set_trimmed_range_def Let_def)
  next
    case False
    then have lt: "b div 8 < e div 8" using assms(1) by (simp add: div_le_mono le_neq_implies_less)
    then have "\<not> (b div 8 \<ge> trimmed_len bc \<or> e div 8 > trimmed_len bc \<or> (e mod 8 > 0 \<and> e div 8 \<ge> trimmed_len bc))"
      using assms(2) e8 by linarith
    moreover have "set_bits (8 * (e div 8)) (8 * (e div 8) + e mod 8)
        (set_bits (8 * (b div 8 + 1)) (8 * (e div 8)) (set_bits (8 * (b div 8) + b mod 8) (8 * (b div 8) + 8) t))
      = set_bits b e t" for t
      unfolding b8 e8
    proof
      fix s
      have "b mod 8 < 8" by simp
      then have "8 * (b div 8 + 1) \<le> 8 * (e div 8) \<and> b < 8 * (b div 8) + 8 \<and> 8 * (e div 8) \<le> e"
        using byte_range [OF b8 _ lt e8] by simp
      then show "set_bits (8 * (e div 8)) e
        (set_bits (8 * (b div 8 + 1)) (8 * (e div 8)) (set_bits b (8 * (b div 8) + 8) t)) s = set_bits b e t s"
        by (auto simp: set_bits_def)
    qed
    ultimately show ?thesis using False by (simp add: set_trimmed_range_def Let_def)
  qed
qed

section \<open>Discarding segments\<close>

lemma discard_segments_ok:
  assumes "\<not> use_pthreads bc"
  shows "\<exists>segs. discard_segments P is bc = bc\<lparr>segments := segs\<rparr> \<and> length segs = length (segments bc) \<and>
    (\<forall>i < length segs. segs ! i = (if i \<in> set is \<and> in_use (seg_at bc i) \<and> P (seg_offset (seg_at bc i))
       then (seg_at bc i)\<lparr>in_use := False\<rparr> else seg_at bc i))"
  using assms
proof (induction "is" arbitrary: bc)
  case Nil
  then show ?case by (intro exI [of _ "segments bc"]) simp
next
  case (Cons i "is")
  define bc1 where "bc1 = (if in_use (seg_at bc i) \<and> P (seg_offset (seg_at bc i))
    then upd_seg i (\<lambda>seg. seg\<lparr>in_use := False\<rparr>) bc else bc)"
  have d: "discard_segments P (i # is) bc = discard_segments P is bc1"
    using Cons.prems by (simp add: bc1_def wait_for_write_completion_def)
  have "\<not> use_pthreads bc1" using Cons.prems by (simp add: bc1_def upd_seg_def)
  from Cons.IH [OF this] obtain segs where s: "discard_segments P is bc1 = bc1\<lparr>segments := segs\<rparr>"
    "length segs = length (segments bc1)"
    "\<forall>j < length segs. segs ! j = (if j \<in> set is \<and> in_use (seg_at bc1 j) \<and> P (seg_offset (seg_at bc1 j))
       then (seg_at bc1 j)\<lparr>in_use := False\<rparr> else seg_at bc1 j)" by blast
  have b1: "bc1\<lparr>segments := segs\<rparr> = bc\<lparr>segments := segs\<rparr>" "length (segments bc1) = length (segments bc)"
    by (simp_all add: bc1_def upd_seg_def)
  have "seg_at bc1 j = (if j = i \<and> in_use (seg_at bc i) \<and> P (seg_offset (seg_at bc i))
      then (seg_at bc i)\<lparr>in_use := False\<rparr> else seg_at bc j)" if "j < length (segments bc)" for j
    using that by (auto simp: bc1_def upd_seg_def)
  then show ?case using s b1 d by (intro exI [of _ segs]) auto
qed

text \<open>
  Discarding the segments of a region of whole segments, with whatever it makes of the trim bits
  and the device there: outside of the region nothing changes.
\<close>

lemma discard_region:
  assumes "cache_ok bc" and "length segs = length (segments bc)"
    and n: "\<And>i. i < length segs \<Longrightarrow> segs ! i = (if in_use (seg_at bc i) \<and> R (seg_offset (seg_at bc i))
         then (seg_at bc i)\<lparr>in_use := False\<rparr> else seg_at bc i)"
    and "segments bc' = segs" and "in_range bc' = in_range bc" and "plain bc'"
    and ba: "\<And>a. \<not> R (segment_floor a) \<Longrightarrow> base bc' a = base bc a"
  shows "cache_ok bc'" and "\<And>a. view bc' a = (if R (segment_floor a) then base bc' a else view bc a)"
proof -
  have st: "struct_ok bc" and co: "coherent bc" using assms(1) by (simp_all add: cache_ok_def)
  have l: "length (segments bc') = length (segments bc)" using assms(2,4) by simp
  have seg: "seg_at bc' i = (if in_use (seg_at bc i) \<and> R (seg_offset (seg_at bc i))
         then (seg_at bc i)\<lparr>in_use := False\<rparr> else seg_at bc i)" if "i < length (segments bc)" for i
    using n [of i] that assms(2,4) by simp
  have use: "in_use (seg_at bc' i) \<longleftrightarrow> in_use (seg_at bc i) \<and> \<not> R (seg_offset (seg_at bc i))"
    "in_use (seg_at bc' i) \<Longrightarrow> seg_at bc' i = seg_at bc i" if "i < length (segments bc)" for i
    using seg [OF that] by auto
  have st': "struct_ok bc'"
    unfolding struct_ok_def
  proof (intro conjI allI impI)
    show "segments bc' \<noteq> []" using st l by (auto simp: struct_ok_def)
    show "seg_ok (seg_at bc' i)" if "i < length (segments bc')" for i
    proof -
      have "seg_ok (seg_at bc i)" using st that l by (simp add: struct_ok_def)
      then show ?thesis using seg [of i] that l by (auto simp: seg_ok_def)
    qed
    show "i = j" if "i < length (segments bc')" "j < length (segments bc')" "in_use (seg_at bc' i) \<and> in_use (seg_at bc' j) \<and>
        seg_offset (seg_at bc' i) = seg_offset (seg_at bc' j)" for i j
    proof -
      have b: "i < length (segments bc)" "j < length (segments bc)" using that l by simp_all
      have "in_use (seg_at bc i)" "in_use (seg_at bc j)" "seg_at bc' i = seg_at bc i" "seg_at bc' j = seg_at bc j"
        using use [OF b(1)] use [OF b(2)] that(3) by blast+
      then show ?thesis using st b that(3) by (simp add: struct_ok_def)
    qed
  qed
  have co': "coherent bc'"
    unfolding coherent_def
  proof (intro allI impI)
    fix i assume i: "i < length (segments bc')" "in_use (seg_at bc' i)"
    have il: "i < length (segments bc)" using i(1) l by simp
    have u: "in_use (seg_at bc i)" "\<not> R (seg_offset (seg_at bc i))" "seg_at bc' i = seg_at bc i"
      using use [OF il] i(2) by blast+
    have "clean_ok bc (seg_at bc i)" "131072 dvd seg_offset (seg_at bc i)"
      using co st u i l by (simp_all add: coherent_def struct_ok_def seg_ok_def)
    then show "clean_ok bc' (seg_at bc' i)"
      unfolding u(3) by (rule clean_ok_cong) (use assms(5) ba u(2) in auto)
  qed
  show "cache_ok bc'" using st' co' assms(6) by (simp add: cache_ok_def)
  show "view bc' a = (if R (segment_floor a) then base bc' a else view bc a)" for a
  proof (cases "R (segment_floor a)")
    case True
    have "view bc' a = base bc' a"
    proof (rule view_miss)
      fix i assume "i < length (segments bc')" "in_use (seg_at bc' i)"
      then show "seg_offset (seg_at bc' i) \<noteq> segment_floor a" using use [of i] True l by metis
    qed
    then show ?thesis using True by simp
  next
    case False
    show ?thesis
    proof (cases "find_segment (segment_floor a) 0 (segments bc)")
      case None
      have "view bc' a = base bc' a"
      proof (rule view_miss)
        fix i assume "i < length (segments bc')" "in_use (seg_at bc' i)"
        then show "seg_offset (seg_at bc' i) \<noteq> segment_floor a"
          using use [of i] find_segment_NoneD [OF None, of i] l by metis
      qed
      then show ?thesis using False ba None by (simp add: view_def)
    next
      case (Some i)
      note i = find_segment_SomeD [OF Some, simplified]
      have u: "in_use (seg_at bc' i)" "seg_at bc' i = seg_at bc i" using use [of i] i False by metis+
      have "view bc' a = seg_view bc' (seg_at bc' i) (a mod 131072)"
        by (rule view_in_segment [OF st']) (use i u l in simp_all)
      moreover have "view bc a = seg_view bc (seg_at bc i) (a mod 131072)"
        by (rule view_in_segment [OF st]) (use i in simp_all)
      moreover have "base bc' (seg_offset (seg_at bc i) + a mod 131072) = base bc (seg_offset (seg_at bc i) + a mod 131072)"
        using ba [OF False] i segment_floor_mod [of a] by simp
      ultimately show ?thesis using False u(2) by (simp add: seg_view_def)
    qed
  qed
qed

section \<open>Trimming\<close>

lemma segment_ceil_ge: "off \<le> segment_ceil off" and segment_ceil_dvd: "131072 dvd segment_ceil off"
  and segment_ceil_less: "segment_ceil off < off + 131072"
proof -
  have m: "(off + 131071) mod 131072 < 131072" by simp
  show "131072 dvd segment_ceil off" by (simp add: segment_ceil_def)
  show "off \<le> segment_ceil off" "segment_ceil off < off + 131072"
    using m segment_floor_mod [of "off + 131071"] by (simp_all add: segment_ceil_def add.commute)
qed

lemma trimmed_region_end:
  assumes "131072 dvd t" and "off < t" and "131072 dvd c"
  shows "131072 * (segment_ceil off div 131072 + (if off + c \<le> t then c else t - off) div 131072) =
      (if off + c \<le> t then segment_ceil off + c else t)"
proof -
  obtain x where x: "segment_ceil off = 131072 * x" using segment_ceil_dvd by (auto simp: dvd_def)
  obtain y where y: "t = 131072 * y" using assms(1) by (auto simp: dvd_def)
  obtain z where z: "c = 131072 * z" using assms(3) by (auto simp: dvd_def)
  have o: "off \<le> 131072 * x" "131072 * x < off + 131072"
    using segment_ceil_ge [of off] segment_ceil_less [of off] by (simp_all add: x)
  have xy: "x \<le> y" using o assms(2) y by linarith
  have "t - off = 131072 * (y - x) + (131072 * x - off)"
    using o xy y assms(2) by (simp add: diff_mult_distrib2)
  moreover have "131072 * x - off < 131072" using o by linarith
  ultimately have "(t - off) div 131072 = y - x" by simp
  moreover have "131072 * x + 131072 * (y - x) = 131072 * y" using xy by (simp add: diff_mult_distrib2)
  ultimately show ?thesis by (simp add: x y z distrib_left)
qed

lemma region_floor:
  assumes "131072 dvd al" and "131072 dvd c"
  shows "al \<le> segment_floor a \<and> segment_floor a < al + c \<longleftrightarrow> al \<le> a \<and> a < al + (c :: nat)"
proof -
  obtain x z where xz: "al = 131072 * x" "c = 131072 * z" using assms by (auto simp: dvd_def)
  have f: "segment_floor a = 131072 * (a div 131072)" by (simp add: segment_floor_def minus_mod_eq_mult_div)
  have "al \<le> segment_floor a \<longleftrightarrow> x \<le> a div 131072" "segment_floor a < al + c \<longleftrightarrow> a div 131072 < x + z"
    by (simp_all add: xz f distrib_left [symmetric] del: distrib_left_numeral)
  moreover have "x \<le> a div 131072 \<longleftrightarrow> al \<le> a" "a div 131072 < x + z \<longleftrightarrow> a < al + c"
    by (simp_all add: xz less_eq_div_iff_mult_less_eq div_less_iff_less_mult mult.commute distrib_right)
  ultimately show ?thesis by simp
qed

lemma trim_region:
  assumes "131072 dvd t" and "off < t" and "131072 dvd c" and "al = segment_ceil off"
    and "e = al div 131072 + (if off + c \<le> t then c else t - off) div 131072"
  shows "al div 131072 \<le> e" and "131072 * e \<le> t" and "131072 * e \<le> al + c"
    and "\<And>a. al \<le> a \<Longrightarrow> a < al + c \<Longrightarrow> a < t \<Longrightarrow> a < 131072 * e"
proof -
  have e: "131072 * e = (if off + c \<le> t then al + c else t)"
    using trimmed_region_end [OF assms(1-3)] by (simp add: assms(4,5))
  have al: "off \<le> al" "al < off + 131072" using segment_ceil_ge segment_ceil_less by (simp_all add: assms(4))
  obtain x y z where "al = 131072 * x" "t = 131072 * y" "c = 131072 * z"
    using segment_ceil_dvd [of off] assms(1,3,4) by (auto simp: dvd_def)
  note xyz = this
  have "al + c \<le> t" if "off + c \<le> t"
  proof -
    have "131072 * (x + z) < 131072 * (y + 1)" using that al xyz by simp
    then have "x + z < y + 1" by (simp only: mult_less_cancel1)
    then have "x + z \<le> y" by simp
    then show ?thesis using xyz by simp
  qed
  then show "131072 * e \<le> t" using e by (cases "off + c \<le> t") simp_all
  show "131072 * e \<le> al + c" using e al by simp
  show "al div 131072 \<le> e" by (simp add: assms(5))
  show "\<And>a. al \<le> a \<Longrightarrow> a < al + c \<Longrightarrow> a < t \<Longrightarrow> a < 131072 * e" using e by simp
qed

lemma block_cache_trim_law:
  assumes "cache_ok bc" and "trim_ok bc" and "off < trimmed_end_offset bc"
    and "al = segment_ceil off" and "c = segment_floor (n - (al - off))"
  shows "\<exists>bc'. block_cache_trim off n hw bc = (Inr (), bc') \<and> cache_ok bc' \<and> trim_ok bc' \<and>
     in_range bc' = in_range bc \<and>
     (\<forall>a. view bc' a = (if al \<le> a \<and> a < al + c then base bc' a else view bc a)) \<and>
     (\<forall>a. al \<le> a \<and> a < al + c \<and> a < trimmed_end_offset bc \<longrightarrow> base bc' a = 0)"
proof (cases "c = 0")
  case True
  then have "block_cache_trim off n hw bc = (Inr (), bc)"
    using assms(4,5) by (simp add: block_cache_trim_def Let_def)
  moreover have "\<not> (al \<le> a \<and> a < al + c)" for a using True by simp
  ultimately show ?thesis using assms(1,2) by auto
next
  case False
  define e where "e = al div 131072 + (if off + c \<le> trimmed_end_offset bc then c else trimmed_end_offset bc - off) div 131072"
  have dc: "131072 dvd c" "131072 dvd al" using segment_ceil_dvd by (simp_all add: assms(4,5))
  have td: "131072 dvd trimmed_end_offset bc" using assms(2) by (simp add: trim_ok_def)
  note tr = trim_region [OF td assms(3) dc(1) assms(4) e_def]
  have e8: "e \<le> 8 * trimmed_len bc" using tr(2) assms(2) by (simp add: trim_ok_def)
  then have "e div 8 \<le> 8 * trimmed_len bc div 8" by (rule div_le_mono)
  then have nexp: "\<not> e div 8 > trimmed_len bc" by simp
  define bc1 where "bc1 = bc\<lparr>trimmed := set_bits (al div 131072) e (trimmed bc)\<rparr>"
  have sr: "set_trimmed_range (al div 131072) e bc = (Inr (), bc1)"
    using set_trimmed_range_ok [OF tr(1) e8] by (simp add: bc1_def)
  have np: "\<not> use_pthreads bc1" using assms(1) by (simp add: cache_ok_def plain_def bc1_def)
  obtain segs where ds: "discard_segments (\<lambda>o'. al \<le> o' \<and> o' < al + c) [0..<length (segments bc1)] bc1 = bc1\<lparr>segments := segs\<rparr>"
      "length segs = length (segments bc1)"
      "\<forall>i < length segs. segs ! i = (if i \<in> set [0..<length (segments bc1)] \<and> in_use (seg_at bc1 i) \<and>
         (al \<le> seg_offset (seg_at bc1 i) \<and> seg_offset (seg_at bc1 i) < al + c)
       then (seg_at bc1 i)\<lparr>in_use := False\<rparr> else seg_at bc1 i)"
    using discard_segments_ok [OF np] by blast
  define bc2 where "bc2 = bc1\<lparr>segments := segs\<rparr>"
  define bc3 where "bc3 = (if hw_trim_enabled bc2 \<and> hw then bc2\<lparr>fd := mmc_trim al c (fd bc2)\<rparr> else bc2)"
  have run: "block_cache_trim off n hw bc = (Inr (), bc3)"
    unfolding block_cache_trim_def Let_def segment_size assms(4) [symmetric] assms(5) [symmetric] e_def [symmetric]
    using False assms(3) nexp sr ds(1) by (simp add: ok_then_def bc2_def bc3_def)
  have f3: "segments bc3 = segs" "trimmed_len bc3 = trimmed_len bc" "trimmed_remainder bc3 = trimmed_remainder bc"
    "trimmed bc3 = set_bits (al div 131072) e (trimmed bc)" "trimmed_end_offset bc3 = trimmed_end_offset bc"
    "end_offset bc3 = end_offset bc" "is_soft_end_offset bc3 = is_soft_end_offset bc"
    by (simp_all add: bc3_def bc2_def bc1_def)
  have fd3: "dev_size (fd bc3) = dev_size (fd bc)" "dev_store (fd bc3) = dev_store (fd bc)"
    "\<And>a. \<not> (al \<le> a \<and> a < al + c) \<Longrightarrow> dev_bytes (fd bc3) a = dev_bytes (fd bc) a"
    by (auto simp: bc3_def bc2_def bc1_def mmc_trim_def)
  have ir: "in_range bc3 = in_range bc" by (rule in_range_cong) (simp_all add: f3)
  have pl: "plain bc3" using assms(1) fd3(2) by (simp add: cache_ok_def plain_def) (simp add: bc3_def bc2_def bc1_def)
  have rf: "(al \<le> segment_floor a \<and> segment_floor a < al + c) \<longleftrightarrow> (al \<le> a \<and> a < al + c)" for a
    by (rule region_floor [OF dc(2,1)])
  have tb: "trim_bit bc3 s \<longleftrightarrow> trim_bit bc s \<or> (al div 131072 \<le> s \<and> s < e)" for s
    using e8 by (auto simp: trim_bit_def f3 set_bits_def)
  have ix: "(al div 131072 \<le> a div 131072 \<and> a div 131072 < e) \<longleftrightarrow> (al \<le> a \<and> a < 131072 * e)" for a
    using dc(2) by (auto simp: dvd_def less_eq_div_iff_mult_less_eq div_less_iff_less_mult mult.commute)
  have ba: "base bc3 a = base bc a" if "\<not> (al \<le> segment_floor a \<and> segment_floor a < al + c)" for a
    using that tb [of "a div 131072"] ix [of a] tr(3) fd3(1,3)
    by (auto simp: rf base_def is_trimmed_bit raw_def ir)
  have n: "segs ! i = (if in_use (seg_at bc i) \<and> (al \<le> seg_offset (seg_at bc i) \<and> seg_offset (seg_at bc i) < al + c)
      then (seg_at bc i)\<lparr>in_use := False\<rparr> else seg_at bc i)" if "i < length segs" for i
    using ds(2,3) that by (simp add: bc1_def)
  have l: "length segs = length (segments bc)" using ds(2) by (simp add: bc1_def)
  note dr = discard_region [where R = "\<lambda>o'. al \<le> o' \<and> o' < al + c", OF assms(1) l n f3(1) ir pl ba]
  have z: "base bc3 a = 0" if "al \<le> a \<and> a < al + c \<and> a < trimmed_end_offset bc" for a
    using that tr(4) [of a] tb [of "a div 131072"] ix [of a] by (simp add: base_def is_trimmed_bit)
  have "trim_ok bc3" using assms(2) by (simp add: trim_ok_def f3)
  then show ?thesis using run dr z ir unfolding rf by blast
qed

section \<open>Initialising and resetting\<close>

text \<open>A cache without a segment in use represents the device.\<close>

lemma idle_ok:
  assumes "segments bc \<noteq> []" and "\<forall>i < length (segments bc). \<not> in_use (seg_at bc i) \<and> length (seg_flags (seg_at bc i)) = 64"
    and "plain bc"
  shows "cache_ok bc" and "view bc = base bc"
proof -
  show "cache_ok bc" using assms by (simp add: cache_ok_def struct_ok_def seg_ok_def coherent_def)
  show "view bc = base bc" by (rule ext, rule view_miss) (use assms(2) in auto)
qed

lemma block_cache_trim_after_idle:
  assumes "cache_ok bc" and "trim_ok bc" and "131072 dvd off"
    and "\<forall>i < length (segments bc). \<not> in_use (seg_at bc i)"
  shows "\<exists>bc'. block_cache_trim_after off False bc = (Inr (), bc') \<and> cache_ok bc' \<and> trim_ok bc' \<and>
     in_range bc' = in_range bc \<and> (\<forall>a < off. a < trimmed_end_offset bc \<longrightarrow> view bc' a = view bc a)"
proof (cases "off > trimmed_end_offset bc")
  case True
  then show ?thesis using assms(1,2) by (simp add: block_cache_trim_after_def)
next
  case False
  define bc1 where "bc1 = bc\<lparr>trimmed_remainder := True\<rparr>"
  have "discard_segments P is bc1 = bc1" if "set is \<subseteq> {..<length (segments bc)}" for P "is"
    using that assms(4) by (induction "is") (simp_all add: bc1_def)
  then have run: "block_cache_trim_after off False bc = block_cache_trim off (trimmed_end_offset bc1 - off) False bc1"
    using False by (simp add: block_cache_trim_after_def bc1_def [symmetric] Let_def atLeast0LessThan)
  have s1: "segments bc1 = segments bc" "trimmed_end_offset bc1 = trimmed_end_offset bc" by (simp_all add: bc1_def)
  have pl: "plain bc1" using assms(1) by (simp add: cache_ok_def plain_def bc1_def)
  have ne: "segments bc \<noteq> []" "\<forall>i < length (segments bc). length (seg_flags (seg_at bc i)) = 64"
    using assms(1) by (auto simp: cache_ok_def struct_ok_def seg_ok_def)
  have "cache_ok bc1" "view bc1 = base bc1" using idle_ok [of bc1] pl ne assms(4) by (simp_all add: s1)
  have "plain bc" using assms(1) by (simp add: cache_ok_def)
  have vb: "view bc = base bc" using idle_ok(2) [of bc] ne assms(4) \<open>plain bc\<close> by simp
  have ir: "in_range bc1 = in_range bc" by (rule in_range_cong) (simp_all add: bc1_def)
  have rw: "raw bc1 = raw bc" by (rule raw_cong [OF ir]) (simp add: bc1_def)
  have t1: "trim_ok bc1" using assms(2) by (simp add: trim_ok_def bc1_def)
  have same: "view bc1 a = view bc a" if "a < trimmed_end_offset bc" for a
  proof -
    have "a div 131072 < 8 * trimmed_len bc" using that assms(2) by (simp add: trim_ok_def div_less_iff_less_mult)
    then have "a div 131072 div 8 < trimmed_len bc" by (subst div_less_iff_less_mult) simp_all
    then have "is_trimmed bc1 a = is_trimmed bc a" by (simp add: is_trimmed_bit trim_bit_def bc1_def)
    then show ?thesis using \<open>view bc1 = base bc1\<close> vb rw by (simp add: base_def)
  qed
  show ?thesis
  proof (cases "off < trimmed_end_offset bc1")
    case True
    have ce: "segment_ceil off = off" using segment_floor_add [OF assms(3), of 131071] by (simp add: segment_ceil_def add.commute)
    from block_cache_trim_law [OF \<open>cache_ok bc1\<close> t1 True refl refl, of "trimmed_end_offset bc1 - off" False]
    show ?thesis unfolding run ce using ir same by (auto simp: s1(2))
  next
    case False
    have "segment_floor (0 - k) = 0" for k by (simp add: segment_floor_def)
    then have "block_cache_trim off (trimmed_end_offset bc1 - off) False bc1 = (Inr (), bc1)"
      using False by (simp add: block_cache_trim_def Let_def)
    then show ?thesis using run \<open>cache_ok bc1\<close> t1 ir same by auto
  qed
qed

lemma initial_cache:
  assumes "\<not> pthreads" and "verify \<or> (\<forall>a b. dev_store d a b = b)"
  shows "\<exists>bc. block_cache_init d end_off soft trim verify minimize mb pthreads = (Inr (), bc) \<and>
    cache_ok bc \<and> trim_ok bc \<and>
    (\<forall>a. in_range bc a \<longleftrightarrow> (end_off > 0 \<and> \<not> soft \<longrightarrow> a < end_off)) \<and>
    (\<forall>a. in_range bc a \<and> a < 2 ^ 36 \<longrightarrow> view bc a = (if a < dev_size d then dev_bytes d a else 0))"
proof -
  define n where "n = (if mb = 0 then 8 else mb) * 1024 * 1024 div BLOCK_CACHE_SEGMENT_SIZE"
  define bc where "bc = \<lparr>fd = d, verify_writes = verify, minimize_writes = minimize, timestamp = 0,
            segments = replicate (if n < 8 then 8 else n)
              \<lparr>in_use = False, seg_data = (\<lambda>_. 0), seg_offset = 0, last_access = 0, streamed = False,
               seg_flags = replicate 64 0\<rparr>,
            trimmed_len = 64 * 1024, trimmed_end_offset = 64 * 1024 * 8 * BLOCK_CACHE_SEGMENT_SIZE,
            trimmed = (\<lambda>_. False), trimmed_remainder = False, hw_trim_enabled = trim,
            end_offset = end_off, is_soft_end_offset = soft, decrypt_callback = None,
            use_pthreads = pthreads, seg_to_write = None, bad_offset = None\<rparr>"
  have i: "block_cache_init d end_off soft trim verify minimize mb pthreads =
      (if \<not> soft \<and> end_off > 0 then block_cache_trim_after (segment_ceil end_off) False bc else (Inr (), bc))"
    by (simp add: block_cache_init_def Let_def bc_def n_def)
  have "segments bc \<noteq> []" "\<forall>i < length (segments bc). \<not> in_use (seg_at bc i) \<and> length (seg_flags (seg_at bc i)) = 64"
    by (simp_all add: bc_def)
  moreover have "plain bc" using assms by (auto simp: plain_def bc_def)
  ultimately have ok: "cache_ok bc" "view bc = base bc" "\<forall>i < length (segments bc). \<not> in_use (seg_at bc i)"
    using idle_ok [of bc] by simp_all
  have t: "trim_ok bc" by (simp add: trim_ok_def bc_def)
  have ir: "in_range bc a \<longleftrightarrow> (end_off > 0 \<and> \<not> soft \<longrightarrow> a < end_off)" for a
    by (simp add: in_range_def hard_end_def bc_def)
  have "\<not> is_trimmed bc a" for a by (simp add: is_trimmed_bit trim_bit_def bc_def)
  then have v: "view bc a = (if a < dev_size d then dev_bytes d a else 0)" if "in_range bc a" for a
    using that by (simp add: ok(2) base_def raw_def) (simp add: bc_def)
  have tend: "trimmed_end_offset bc = 2 ^ 36" by (simp add: bc_def)
  show ?thesis
  proof (cases "\<not> soft \<and> end_off > 0")
    case True
    obtain bc' where b: "block_cache_trim_after (segment_ceil end_off) False bc = (Inr (), bc')" "cache_ok bc'" "trim_ok bc'"
      "in_range bc' = in_range bc" "\<forall>a < segment_ceil end_off. a < trimmed_end_offset bc \<longrightarrow> view bc' a = view bc a"
      using block_cache_trim_after_idle [OF ok(1) t segment_ceil_dvd ok(3)] by blast
    have "view bc' a = (if a < dev_size d then dev_bytes d a else 0)" if "in_range bc a" "a < 2 ^ 36" for a
    proof -
      have "a < segment_ceil end_off" using that(1) ir True segment_ceil_ge [of end_off] by (meson less_le_trans)
      then show ?thesis using b(5) v that tend by simp
    qed
    then show ?thesis using i b True ir by auto
  next
    case False
    then show ?thesis using i ok t v ir by auto
  qed
qed

section \<open>Properties\<close>

text \<open>
  C1: a write of whole blocks through the cache that succeeds keeps the invariant and replaces
  exactly the bytes of the range in the contents that the cache represents, whatever it had to
  read, evict or write back to do so.
\<close>

theorem block_cache_pwrite_refines:
  assumes "block_cache_pwrite buf off strm bc = (Inr u, bc')" and "cache_ok bc"
    and "512 dvd off" and "512 dvd length buf" and "in_range bc a"
  shows "cache_ok bc' \<and>
    view bc' a = (if off \<le> a \<and> a < off + length buf then buf ! (a - off) else view bc a)"
  using cache.wr_law [OF assms(1-4)] assms(5) by (simp add: store_bytes_def)

text \<open>
  A read through the cache that succeeds returns the contents that the cache represents and
  does not change them.
\<close>

theorem block_cache_pread_refines:
  assumes "block_cache_pread n off bc = (Inr out, bc')" and "cache_ok bc"
    and "list_all (in_range bc) [off..<off + n]"
  shows "cache_ok bc' \<and> out = map (view bc) [off..<off + n] \<and>
    (\<forall>a. in_range bc a \<longrightarrow> view bc' a = view bc a)"
  using cache.rd_law [OF assms(1,2)] assms(3) by (auto simp: list_all_iff)


text \<open>
  What is written through the cache is read back from it.
\<close>

theorem block_cache_read_back:
  assumes "block_cache_pwrite buf off strm bc = (Inr u, bc1)"
    and "block_cache_pread (length buf) off bc1 = (Inr out, bc2)" and "cache_ok bc"
    and "512 dvd off" and "512 dvd length buf" and "list_all (in_range bc) [off..<off + length buf]"
  shows "out = buf"
  using cache.read_back [OF assms(1-5)] assms(6) by (simp add: list_all_iff)

text \<open>
  Initialising a cache on a device succeeds and establishes the invariant, and the cache then
  represents the device's contents, zero past its end, up to the 64 GiB that are tracked.
\<close>

theorem block_cache_init_refines:
  assumes "verify \<or> (\<forall>a b. dev_store d a b = b)"
  shows "\<exists>bc. block_cache_init d end_off soft trim verify minimize mb False = (Inr (), bc) \<and> cache_ok bc \<and>
    (\<forall>a. in_range bc a \<and> a < 2 ^ 36 \<longrightarrow> view bc a = (if a < dev_size d then dev_bytes d a else 0))"
  using initial_cache [OF _ assms, of False end_off soft trim minimize mb] by blast

text \<open>
  A trim that starts in the tracked range never accesses a trim bit outside of the array and
  succeeds; what it covers in whole segments reads as zeros afterwards and the rest of the
  contents is as before, whether or not a hardware trim is issued.
\<close>

theorem block_cache_trim_refines:
  assumes "cache_ok bc" and "trim_ok bc" and "off < trimmed_end_offset bc" and "in_range bc a"
    and "al = segment_ceil off" and "c = segment_floor (n - (al - off))"
  shows "\<exists>bc'. block_cache_trim off n hw bc = (Inr (), bc') \<and> cache_ok bc' \<and> trim_ok bc' \<and>
    (if al \<le> a \<and> a < al + c then a < trimmed_end_offset bc \<longrightarrow> view bc' a = 0
     else view bc' a = view bc a)"
  using block_cache_trim_law [OF assms(1-3,5,6), of hw] by (metis (no_types, lifting))

section \<open>A concrete cache\<close>

definition sample_device :: device where
  "sample_device = \<lparr>dev_bytes = (\<lambda>a. of_nat a), dev_size = 4096, dev_read_ok = (\<lambda>_. True),
     dev_write_limit = (\<lambda>_. 131072), dev_store = (\<lambda>_ b. b), dev_after_trim = (\<lambda>_. 0), dev_log = []\<rparr>"

definition sample_cache :: block_cache where
  "sample_cache = snd (block_cache_init sample_device 0 False False False False 1 False)"

lemmas sample_cache_simps = sample_cache_def block_cache_init_def sample_device_def

lemma sample_cache_ok: "cache_ok sample_cache" "trim_ok sample_cache" "in_range sample_cache a"
  "trimmed_end_offset sample_cache = 2 ^ 36"
proof -
  obtain bc where b: "block_cache_init sample_device 0 False False False False 1 False = (Inr (), bc)"
    "cache_ok bc" "trim_ok bc" "\<forall>a. in_range bc a \<longleftrightarrow> (0 > (0::nat) \<and> \<not> False \<longrightarrow> a < 0)"
    using initial_cache [of False False sample_device 0 False False False 1] by (auto simp: sample_device_def)
  then show "cache_ok sample_cache" "trim_ok sample_cache" "in_range sample_cache a" by (simp_all add: sample_cache_def)
  show "trimmed_end_offset sample_cache = 2 ^ 36" by (simp add: sample_cache_simps)
qed

lemma find_segment_idle: "\<forall>s \<in> set segs. \<not> in_use s \<Longrightarrow> find_segment off k segs = None"
  by (induction off k segs rule: find_segment.induct) auto

lemma sample_segments:
  "segments sample_cache = replicate 8 \<lparr>in_use = False, seg_data = (\<lambda>_. 0), seg_offset = 0, last_access = 0,
     streamed = False, seg_flags = replicate 64 0\<rparr>"
  by (simp add: sample_cache_simps)

lemma sample_get: "get_segment off sample_cache = (Inr 0, init_segment off 0 sample_cache)"
  by (simp add: get_segment_def sample_segments find_segment_idle)

lemma sample_write: "\<exists>bc1. block_cache_pwrite (replicate 512 7) 1024 False sample_cache = (Inr (), bc1)"
  by (simp add: block_cache_pwrite_def segment_floor_def sample_get block_segment_pwrite_def ok_then_def pwrite_loop.simps Let_def)

text \<open>Reads succeed on a device without faults and without a hard end.\<close>

lemma make_segment_valid_total:
  assumes "\<not> hard_end bc" and "\<forall>a. dev_read_ok (fd bc) a"
  shows "\<exists>bc'. make_segment_valid i bc = (Inr (), bc')"
proof -
  have r: "\<exists>data bc1. read_segment off bc = (Inr data, bc1)" for off
    using assms by (auto simp: read_segment_def ok_then_def calculate_io_size_def hard_end_def Let_def dev_pread_def)
  obtain data bc2 where "read_segment (seg_offset (seg_at bc i)) bc = (Inr data, bc2)" using r by blast
  then show ?thesis
    by (auto simp: make_segment_valid_def ok_then_def split: prod.split)
qed

lemma pread_single_total:
  assumes "get_segment (segment_floor off) bc = (Inr i, bc1)" and "\<not> hard_end bc1" and "\<forall>a. dev_read_ok (fd bc1) a"
    and "segment_floor off \<noteq> off" and "off mod 131072 + n \<le> 131072"
  shows "\<exists>out bc2. block_cache_pread n off bc = (Inr out, bc2)"
proof -
  have "off - segment_floor off = off mod 131072" using segment_floor_mod [of off] by linarith
  then have m: "n \<le> 131072 - (off - segment_floor off)" using assms(5) by simp
  obtain bc2 where "make_segment_valid i bc1 = (Inr (), bc2)" using make_segment_valid_total [OF assms(2,3)] by blast
  then show ?thesis
    using assms(1,4) by (simp add: block_cache_pread_def Let_def m ok_then_def block_segment_pread_def pread_loop.simps)
qed

lemma sample_read: "\<exists>out bc2. block_cache_pread 512 1024 sample_cache = (Inr out, bc2)"
proof (rule pread_single_total)
  show "get_segment (segment_floor 1024) sample_cache = (Inr 0, init_segment 0 0 sample_cache)"
    by (simp add: segment_floor_def sample_get)
  show "\<not> hard_end (init_segment 0 0 sample_cache)" "\<forall>a. dev_read_ok (fd (init_segment 0 0 sample_cache)) a"
    by (simp_all add: hard_end_def init_segment_def upd_seg_def sample_cache_simps)
qed (simp_all add: segment_floor_def)

lemma replicate_8: "replicate 8 x = x # replicate 7 x"
  by (simp add: numeral_eq_Suc)

lemma sample_write_read:
  "\<exists>bc1 out bc2. block_cache_pwrite (replicate 512 7) 1024 False sample_cache = (Inr (), bc1) \<and>
     block_cache_pread 512 1024 bc1 = (Inr out, bc2)"
proof -
  define bc1 where "bc1 = upd_seg 0 (\<lambda>seg. seg\<lparr>streamed := False\<rparr>) (upd_seg 0 (\<lambda>seg. set_dirty 2
      (seg\<lparr>seg_data := store_bytes (replicate 512 7) 1024 (seg_data seg)\<rparr>)) (init_segment 0 0 sample_cache))"
  have w: "block_cache_pwrite (replicate 512 7) 1024 False sample_cache = (Inr (), bc1)"
    by (simp add: block_cache_pwrite_def segment_floor_def sample_get block_segment_pwrite_def ok_then_def
        pwrite_loop.simps Let_def bc1_def)
  have g: "find_segment 0 0 (segments bc1) = Some 0" "use_pthreads bc1 = False" "end_offset bc1 = 0"
    "dev_read_ok (fd bc1) a" for a
    by (simp_all add: bc1_def upd_seg_def init_segment_def sample_segments replicate_8 set_dirty_def)
       (simp_all add: sample_cache_simps)
  have "\<exists>out bc2. block_cache_pread 512 1024 bc1 = (Inr out, bc2)"
  proof (rule pread_single_total)
    show "get_segment (segment_floor 1024) bc1 = (Inr 0, (upd_seg 0 (\<lambda>seg. seg\<lparr>last_access := timestamp bc1\<rparr>) bc1)
        \<lparr>timestamp := timestamp bc1 + 1\<rparr>)" (is "_ = (Inr 0, ?b)")
      by (simp add: segment_floor_def get_segment_def wait_for_write_completion_def g Let_def)
    show "\<not> hard_end ?b" "\<forall>a. dev_read_ok (fd ?b) a" by (simp_all add: hard_end_def upd_seg_def g)
  qed (simp_all add: segment_floor_def)
  then show ?thesis using w by blast
qed

theorem block_cache_pwrite_refines_witness:
  "\<exists>bc'. block_cache_pwrite (replicate 512 7) 1024 False sample_cache = (Inr (), bc') \<and> view bc' 1100 = 7"
proof -
  obtain bc' where w: "block_cache_pwrite (replicate 512 7) 1024 False sample_cache = (Inr (), bc')" using sample_write by blast
  from block_cache_pwrite_refines [OF w sample_cache_ok(1) _ _ sample_cache_ok(3) [of 1100]] w show ?thesis by auto
qed

theorem block_cache_pread_refines_witness:
  "\<exists>out bc'. block_cache_pread 512 1024 sample_cache = (Inr out, bc') \<and> out = map (view sample_cache) [1024..<1024 + 512]"
proof -
  obtain out bc' where r: "block_cache_pread 512 1024 sample_cache = (Inr out, bc')" using sample_read by blast
  have "list_all (in_range sample_cache) [1024..<1024 + 512]" by (simp add: list_all_iff sample_cache_ok(3))
  from block_cache_pread_refines [OF r sample_cache_ok(1) this] r show ?thesis by blast
qed

theorem block_cache_read_back_witness:
  "\<exists>bc1 out bc2. block_cache_pwrite (replicate 512 7) 1024 False sample_cache = (Inr (), bc1) \<and>
     block_cache_pread 512 1024 bc1 = (Inr out, bc2) \<and> out = replicate 512 7"
proof -
  obtain bc1 out bc2 where r: "block_cache_pwrite (replicate 512 7) 1024 False sample_cache = (Inr (), bc1)"
      "block_cache_pread (length (replicate 512 (7 :: byte))) 1024 bc1 = (Inr out, bc2)"
    using sample_write_read by auto
  have l: "list_all (in_range sample_cache) [1024..<1024 + length (replicate 512 (7 :: byte))]"
    by (simp add: list_all_iff sample_cache_ok(3))
  have "512 dvd (1024 :: nat)" "512 dvd length (replicate 512 (7 :: byte))" by simp_all
  from block_cache_read_back [OF r sample_cache_ok(1) this l] r show ?thesis by auto
qed


theorem block_cache_init_refines_witness:
  "\<exists>bc. block_cache_init sample_device 4096 False False False False 1 False = (Inr (), bc) \<and> cache_ok bc"
  using block_cache_init_refines [of False sample_device 4096 False False False 1] by (auto simp: sample_device_def)

theorem block_cache_trim_refines_witness:
  "\<exists>bc'. block_cache_trim 0 131072 False sample_cache = (Inr (), bc') \<and> view bc' 5 = 0"
  using block_cache_trim_refines [where off = 0 and a = 5 and al = 0 and c = 131072 and n = 131072 and hw = False,
      OF sample_cache_ok(1,2) _ sample_cache_ok(3)]
  by (auto simp: sample_cache_ok(4) segment_ceil_def segment_floor_def)

end
