(* ===== verification/Cache_Writer.thy ===== *)
theory Cache_Writer
  imports Cache_Trim
begin

text \<open>
  The block cache with its writer thread. \<open>cache_step\<close> is the system: the main thread performs an
  operation, whatever its result, and the worker may take its turn between two operations.
  Shown are what the thread's error flag guarantees (once a write of the worker has failed, no
  byte of the device changes any more until the cache is reset), and two behaviours that follow
  from the code and that its comments do not intend: a segment that is still waiting to be
  written can be recycled, and the failure of the last streamed write is not reported by a flush.
\<close>

inductive cache_step :: "block_cache \<Rightarrow> block_cache \<Rightarrow> bool" where
  step_write: "block_cache_pwrite buf off strm bc = (r, bc') \<Longrightarrow> cache_step bc bc'"
| step_read: "block_cache_pread n off bc = (r', bc') \<Longrightarrow> cache_step bc bc'"
| step_flush: "block_cache_flush bc = (r, bc') \<Longrightarrow> cache_step bc bc'"
| step_trim: "block_cache_trim off n False bc = (r, bc') \<Longrightarrow> cache_step bc bc'"
| step_worker: "cache_step bc (writer_step bc)"

inductive_cases cache_stepE: "cache_step bc bc'"

section \<open>After an error of the worker\<close>

definition failed :: "block_cache \<Rightarrow> bool" where
  "failed bc = (use_pthreads bc \<and> bad_offset bc \<noteq> None)"

definition frozen :: "block_cache \<Rightarrow> block_cache \<Rightarrow> bool" where
  "frozen bc bc' = (fd bc' = fd bc \<and> bad_offset bc' = bad_offset bc \<and> use_pthreads bc' = use_pthreads bc)"

definition freezes :: "(block_cache, 'a) action \<Rightarrow> bool" where
  "freezes m = (\<forall>bc. failed bc \<longrightarrow> frozen bc (snd (m bc)))"

named_theorems freeze_intros \<open>actions that leave the device alone after an error\<close>

lemma frozen_refl [simp]: "frozen bc bc"
  by (simp add: frozen_def)

lemma frozen_trans: "frozen a b \<Longrightarrow> frozen b c \<Longrightarrow> frozen a c"
  by (simp add: frozen_def)

lemma frozen_failed: "frozen a b \<Longrightarrow> failed a \<Longrightarrow> failed b"
  by (simp add: frozen_def failed_def)

lemma frozen_upd_seg [simp]: "frozen bc (upd_seg i f bc)"
  by (simp add: frozen_def upd_seg_def)

lemma freezes_ok_then [freeze_intros]:
  assumes "freezes m" and "\<And>x. freezes (f x)"
  shows "freezes (ok_then m f)"
  unfolding freezes_def
proof (intro allI impI)
  fix bc assume f: "failed bc"
  obtain r bc1 where m: "m bc = (r, bc1)" by force
  have fr: "frozen bc bc1" using assms(1) f m by (metis freezes_def snd_conv)
  show "frozen bc (snd (ok_then m f bc))"
  proof (cases r)
    case (Inl e)
    then show ?thesis using m fr by (simp add: ok_then_def)
  next
    case (Inr x)
    then have "frozen bc1 (snd (f x bc1))" using assms(2) frozen_failed [OF fr f] by (simp add: freezes_def)
    then show ?thesis using m fr Inr by (auto simp: ok_then_def intro: frozen_trans)
  qed
qed

lemma freezesI: "(\<And>bc. failed bc \<Longrightarrow> frozen bc (snd (m bc))) \<Longrightarrow> freezes m"
  by (simp add: freezes_def)

lemma freezesD: "freezes m \<Longrightarrow> failed bc \<Longrightarrow> m bc = (r, bc') \<Longrightarrow> frozen bc bc'"
  by (metis freezes_def snd_conv)

lemma freezes_snd: "freezes m \<Longrightarrow> failed bc \<Longrightarrow> frozen bc (snd (m bc))"
  by (simp add: freezes_def)

lemma frozen_calculate_io_size [freeze_intros]: "freezes (calculate_io_size off)"
  by (rule freezesI) (simp add: calculate_io_size_def Let_def frozen_def)

lemma frozen_read_segment [freeze_intros]: "freezes (read_segment off)"
proof -
  have f: "freezes (ok_then (calculate_io_size off) (\<lambda>count bc.
        case dev_pread (fd bc) count off of
          None \<Rightarrow> (Inl (Msg ''unexpected error reading''), bc)
        | Some bytes_read \<Rightarrow>
            (let data = (\<lambda>k. if k < bytes_read then dev_bytes (fd bc) (off + k) else 0) in
             (Inr (case decrypt_callback bc of None \<Rightarrow> data | Some f \<Rightarrow> f data count off), bc))))"
    by (rule freezes_ok_then [OF frozen_calculate_io_size], rule freezesI)
       (simp add: Let_def split: option.split)
  show ?thesis by (rule freezesI) (use f in \<open>simp add: read_segment_def freezes_def\<close>)
qed

lemma frozen_make_segment_valid [freeze_intros]: "freezes (make_segment_valid i)"
proof (rule freezesI)
  fix bc assume f: "failed bc"
  have "freezes (ok_then (read_segment (seg_offset (seg_at bc i))) (\<lambda>data bc.
          (Inr (), upd_seg i (\<lambda>seg. set_all_valid (seg\<lparr>seg_data := data\<rparr>)) bc)))"
    "freezes (ok_then (read_segment (seg_offset (seg_at bc i))) (\<lambda>temp bc.
          (Inr (), upd_seg i (fold (merge_block temp) [0..<BLOCK_CACHE_BLOCKS_PER_SEGMENT]) bc)))"
    by (rule freezes_ok_then [OF frozen_read_segment], rule freezesI, simp)+
  then show "frozen bc (snd (make_segment_valid i bc))"
    using f by (simp add: make_segment_valid_def freezes_def split: prod.split)
qed

lemma frozen_writer_step: "failed bc \<Longrightarrow> frozen bc (writer_step bc)"
  by (auto simp: writer_step_def failed_def frozen_def split: option.split)

lemma frozen_wait: "failed bc \<Longrightarrow> frozen bc (wait_for_write_completion i bc)"
  by (simp add: wait_for_write_completion_def frozen_writer_step)

lemma frozen_do_sync_write [freeze_intros]: "freezes (do_sync_write i)"
  by (rule freezesI) (simp add: do_sync_write_def failed_def ok_then_def check_async_error_def)

lemma frozen_do_async_write [freeze_intros]: "freezes (do_async_write i)"
  by (rule freezesI) (simp add: do_async_write_def failed_def ok_then_def check_async_error_def)

lemma frozen_clear_trimmed [freeze_intros]: "freezes (clear_trimmed off)"
  by (rule freezesI) (simp add: clear_trimmed_def Let_def frozen_def enlarge_trim_bitvector_def)

lemma frozen_flush_segment [freeze_intros]: "freezes (flush_segment i)"
proof (rule freezesI)
  fix bc assume f: "failed bc"
  obtain rc bc1 where r: "ok_then (make_segment_valid i) (\<lambda>_. do_sync_write i) bc = (rc, bc1)" by force
  obtain c bc2 where c: "clear_trimmed (seg_offset (seg_at bc i)) (upd_seg i clear_all_dirty bc1) = (c, bc2)" by force
  have "freezes (ok_then (make_segment_valid i) (\<lambda>_. do_sync_write i))" by (intro freeze_intros)
  from freezesD [OF this f r] have b1: "frozen bc bc1" .
  have b2: "frozen bc1 (upd_seg i clear_all_dirty bc1)" by simp
  have f2: "failed (upd_seg i clear_all_dirty bc1)" using frozen_failed [OF b2] frozen_failed [OF b1 f] by blast
  from freezesD [OF frozen_clear_trimmed f2 c] have "frozen bc bc2" using b1 b2 frozen_trans by blast
  then show "frozen bc (snd (flush_segment i bc))" by (simp add: flush_segment_def r c)
qed

lemma frozen_init_segment [simp]: "frozen bc (init_segment off i bc)"
  by (simp add: frozen_def init_segment_def upd_seg_def)

lemma frozen_get_segment [freeze_intros]: "freezes (get_segment off)"
proof (rule freezesI)
  fix bc assume f: "failed bc"
  have w: "frozen bc (wait_for_write_completion i bc)" for i by (rule frozen_wait [OF f])
  have "freezes (ok_then (flush_segment lru) (\<lambda>_ bc. (Inr lru, init_segment off lru bc)))" for lru
    by (rule freezes_ok_then [OF frozen_flush_segment], rule freezesI) simp
  then have l: "frozen bc (snd (ok_then (flush_segment lru) (\<lambda>_ bc. (Inr lru, init_segment off lru bc)) bc))" for lru
    using f by (simp add: freezes_def)
  show "frozen bc (snd (get_segment off bc))"
    using w l by (simp add: get_segment_def Let_def frozen_def upd_seg_def init_segment_def split: option.split sum.split)
qed

lemma frozen_block_segment_pwrite [freeze_intros]: "freezes (block_segment_pwrite i buf o1 strm)"
proof (rule freezesI)
  fix bc assume f: "failed bc"
  define bc1 where "bc1 = upd_seg i (\<lambda>seg. fold set_dirty [o1 div 512..<o1 div 512 + length buf div 512]
                  (seg\<lparr>seg_data := store_bytes buf o1 (seg_data seg)\<rparr>)) bc"
  have b1: "frozen bc bc1" by (simp add: bc1_def)
  have "freezes (ok_then (do_async_write i) (\<lambda>_ bc.
             let bc'' = upd_seg i (\<lambda>seg. seg\<lparr>seg_flags := replicate 64 0xaa\<rparr>) bc
             in clear_trimmed (seg_offset (seg_at bc'' i)) bc''))"
  proof (rule freezes_ok_then [OF frozen_do_async_write], rule freezesI)
    fix bc assume "failed bc"
    let ?b = "upd_seg i (\<lambda>seg. seg\<lparr>seg_flags := replicate 64 0xaa\<rparr>) bc"
    have "failed ?b" using \<open>failed bc\<close> frozen_failed frozen_upd_seg by blast
    then have "frozen ?b (snd (clear_trimmed (seg_offset (seg_at ?b i)) ?b))" using frozen_clear_trimmed by (simp add: freezes_def)
    then show "frozen bc (snd (let bc'' = ?b in clear_trimmed (seg_offset (seg_at bc'' i)) bc''))"
      unfolding Let_def using frozen_upd_seg frozen_trans by blast
  qed
  then have a: "frozen bc (snd (ok_then (do_async_write i) (\<lambda>_ bc.
             let bc'' = upd_seg i (\<lambda>seg. seg\<lparr>seg_flags := replicate 64 0xaa\<rparr>) bc
             in clear_trimmed (seg_offset (seg_at bc'' i)) bc'') bc1))"
    using frozen_trans [OF b1] freezes_snd frozen_failed [OF b1 f] by blast
  have "frozen bc (upd_seg i (\<lambda>seg. seg\<lparr>streamed := False\<rparr>) bc1)" using b1 frozen_trans frozen_upd_seg by blast
  then show "frozen bc (snd (block_segment_pwrite i buf o1 strm bc))"
    using a b1 unfolding block_segment_pwrite_def block_size Let_def bc1_def [symmetric]
    by (cases "strm \<and> streamed (seg_at bc1 i) \<and> is_segment_completely_dirty (seg_at bc1 i)"; cases strm)
       (simp_all only: if_True if_False snd_conv simp_thms)
qed

lemma frozen_pwrite_loop [freeze_intros]: "freezes (pwrite_loop buf off strm)"
proof (rule freezesI)
  fix bc assume "failed bc"
  then show "frozen bc (snd (pwrite_loop buf off strm bc))"
  proof (induction buf off strm bc rule: pwrite_loop.induct)
    case (1 buf off strm bc)
    show ?case
    proof (cases "buf = []")
      case True
      then show ?thesis by (simp add: pwrite_loop.simps)
    next
      case False
      obtain g bc1 where g: "get_segment off bc = (g, bc1)" by force
      have b1: "frozen bc bc1" by (rule freezesD [OF frozen_get_segment "1.prems" g])
      show ?thesis
      proof (cases g)
        case (Inl e)
        then show ?thesis using False g b1 by (simp add: pwrite_loop.simps [of buf])
      next
        case (Inr i)
        obtain p bc2 where p: "block_segment_pwrite i (take BLOCK_CACHE_SEGMENT_SIZE buf) 0 strm bc1 = (p, bc2)" by force
        have f1: "failed bc1" by (rule frozen_failed [OF b1 "1.prems"])
        have b2: "frozen bc bc2" using freezesD [OF frozen_block_segment_pwrite f1 p] b1 frozen_trans by blast
        show ?thesis
        proof (cases p)
          case (Inl e)
          then show ?thesis using False g b2 p Inr by (simp add: pwrite_loop.simps [of buf])
        next
          case (Inr u)
          have "frozen bc2 (snd (pwrite_loop (drop BLOCK_CACHE_SEGMENT_SIZE buf)
              (off + min (length buf) BLOCK_CACHE_SEGMENT_SIZE) strm bc2))"
            by (rule "1.IH" [OF False g [symmetric] \<open>g = Inr i\<close> p [symmetric] Inr frozen_failed [OF b2 "1.prems"]])
          then show ?thesis using False g p \<open>g = Inr i\<close> Inr b2
            by (auto simp: pwrite_loop.simps [of buf] intro: frozen_trans)
        qed
      qed
    qed
  qed
qed

lemma frozen_pwrite: "freezes (block_cache_pwrite buf off strm)"
proof (rule freezesI)
  fix bc assume f: "failed bc"
  have "freezes (ok_then (get_segment (segment_floor off)) (\<lambda>i.
         ok_then (block_segment_pwrite i b1 o1 strm) (\<lambda>_. pwrite_loop b2 o2 strm)))" for b1 o1 b2 o2
    by (intro freeze_intros)
  from freezes_snd [OF this f] freezes_snd [OF frozen_pwrite_loop f]
  show "frozen bc (snd (block_cache_pwrite buf off strm bc))" by (simp add: block_cache_pwrite_def Let_def)
qed

lemma frozen_block_segment_pread [freeze_intros]: "freezes (block_segment_pread i n o1)"
  unfolding block_segment_pread_def by (rule freezes_ok_then [OF frozen_make_segment_valid], rule freezesI) simp

lemma frozen_pread_loop [freeze_intros]: "freezes (pread_loop n off)"
proof (rule freezesI)
  fix bc assume "failed bc"
  then show "frozen bc (snd (pread_loop n off bc))"
  proof (induction n off bc rule: pread_loop.induct)
    case (1 n off bc)
    show ?case
    proof (cases "n = 0")
      case True
      then show ?thesis by (simp add: pread_loop.simps)
    next
      case False
      obtain g bc1 where g: "get_segment off bc = (g, bc1)" by force
      have b1: "frozen bc bc1" by (rule freezesD [OF frozen_get_segment "1.prems" g])
      show ?thesis
      proof (cases g)
        case (Inl e)
        then show ?thesis using False g b1 by (simp add: pread_loop.simps [of n])
      next
        case (Inr i)
        obtain p bc2 where p: "block_segment_pread i (min n BLOCK_CACHE_SEGMENT_SIZE) 0 bc1 = (p, bc2)" by force
        have f1: "failed bc1" by (rule frozen_failed [OF b1 "1.prems"])
        have b2: "frozen bc bc2" using freezesD [OF frozen_block_segment_pread f1 p] b1 frozen_trans by blast
        show ?thesis
        proof (cases p)
          case (Inl e)
          then show ?thesis using False g b2 p Inr by (simp add: pread_loop.simps [of n])
        next
          case (Inr part)
          have "frozen bc2 (snd (pread_loop (n - min n BLOCK_CACHE_SEGMENT_SIZE)
              (off + min n BLOCK_CACHE_SEGMENT_SIZE) bc2))"
            by (rule "1.IH" [OF False g [symmetric] \<open>g = Inr i\<close> p [symmetric] Inr frozen_failed [OF b2 "1.prems"]])
          then show ?thesis using False g p \<open>g = Inr i\<close> Inr b2
            by (auto simp: pread_loop.simps [of n] intro: frozen_trans split: prod.split sum.split)
        qed
      qed
    qed
  qed
qed

lemma frozen_pread: "freezes (block_cache_pread n off)"
proof (rule freezesI)
  fix bc assume f: "failed bc"
  have p: "freezes (ok_then (pread_loop n2 o2) (\<lambda>rest bc. (Inr (part @ rest), bc)))" for n2 o2 part
    by (rule freezes_ok_then [OF frozen_pread_loop], rule freezesI) simp
  have "freezes (ok_then (get_segment (segment_floor off)) (\<lambda>i. ok_then (block_segment_pread i n1 o1) (\<lambda>part.
         ok_then (pread_loop n2 o2) (\<lambda>rest bc. (Inr (part @ rest), bc)))))" for n1 o1 n2 o2
    by (rule freezes_ok_then [OF frozen_get_segment], rule freezes_ok_then [OF frozen_block_segment_pread], rule p)
  from freezes_snd [OF this f] freezes_snd [OF frozen_pread_loop f]
  show "frozen bc (snd (block_cache_pread n off bc))" by (simp add: block_cache_pread_def Let_def)
qed

lemma frozen_flush: "freezes block_cache_flush"
proof -
  have "failed bc \<Longrightarrow> frozen bc (snd (flush_segments is bc))" for bc "is"
  proof (induction "is" arbitrary: bc)
    case (Cons i "is")
    obtain r bc1 where r: "flush_segment i bc = (r, bc1)" by force
    have b1: "frozen bc bc1" by (rule freezesD [OF frozen_flush_segment Cons.prems r])
    have "frozen bc1 (snd (flush_segments is bc1))" by (rule Cons.IH [OF frozen_failed [OF b1 Cons.prems]])
    then show ?case using r b1 by (auto intro: frozen_trans split: sum.split)
  qed simp
  then show ?thesis by (simp add: freezes_def block_cache_flush_def)
qed

lemma frozen_discard: "failed bc \<Longrightarrow> frozen bc (discard_segments P is bc)"
proof (induction "is" arbitrary: bc)
  case (Cons i "is")
  let ?b = "if in_use (seg_at bc i) \<and> P (seg_offset (seg_at bc i))
        then upd_seg i (\<lambda>seg. seg\<lparr>in_use := False\<rparr>) (wait_for_write_completion i bc) else bc"
  have "frozen bc ?b" using frozen_trans [OF frozen_wait [OF Cons.prems] frozen_upd_seg] by simp
  note b = this
  show ?case unfolding discard_segments.simps
    by (rule frozen_trans [OF b Cons.IH [OF frozen_failed [OF b Cons.prems]]])
qed simp

lemma frozen_trim: "freezes (block_cache_trim off n False)"
proof (rule freezesI)
  fix bc assume f: "failed bc"
  have s: "freezes (set_trimmed_range b e)" for b e
    by (rule freezesI) (simp add: set_trimmed_range_def Let_def frozen_def)
  have d: "freezes (\<lambda>bc. (Inr (), discard_segments P [0..<length (segments bc)] bc))" for P
    by (rule freezesI) (simp add: frozen_discard)
  have t: "frozen bc (snd (ok_then (set_trimmed_range b e) (\<lambda>_ bc. (Inr (), discard_segments P [0..<length (segments bc)] bc)) bc1))"
    if "frozen bc bc1" for b e P bc1
    by (rule frozen_trans [OF that freezes_snd [OF freezes_ok_then [OF s d] frozen_failed [OF that f]]])
  have e: "frozen bc (enlarge_trim_bitvector k bc)" for k by (simp add: frozen_def enlarge_trim_bitvector_def Let_def)
  show "frozen bc (snd (block_cache_trim off n False bc))"
    using t [OF frozen_refl] t [OF e] unfolding block_cache_trim_def Let_def by (simp split: if_split)
qed

lemma cache_step_frozen: "cache_step bc bc' \<Longrightarrow> failed bc \<Longrightarrow> frozen bc bc'"
proof (induction rule: cache_step.induct)
  case step_write
  then show ?case using freezesD [OF frozen_pwrite] by blast
next
  case step_read
  then show ?case using freezesD [OF frozen_pread] by blast
next
  case step_flush
  then show ?case using freezesD [OF frozen_flush] by blast
next
  case step_trim
  then show ?case using freezesD [OF frozen_trim] by blast
next
  case step_worker
  then show ?case by (rule frozen_writer_step)
qed


section \<open>Two behaviours of the threaded build\<close>

definition dead_device :: device where
  "dead_device = sample_device\<lparr>dev_write_limit := (\<lambda>_. 0)\<rparr>"

definition threaded_cache :: block_cache where
  "threaded_cache = snd (block_cache_init dead_device 0 False False False False 1 True)"

definition whole_segment :: "byte list" where
  "whole_segment = replicate 131072 7"

definition streamed_state :: block_cache where
  "streamed_state =
     (let bc1 = upd_seg 0 (\<lambda>seg. fold set_dirty [0..<256] (seg\<lparr>seg_data := store_bytes whole_segment 0 (seg_data seg)\<rparr>))
                  (init_segment 0 0 threaded_cache);
          bc2 = upd_seg 0 (\<lambda>seg. seg\<lparr>seg_flags := replicate 64 0xaa\<rparr>) (bc1\<lparr>seg_to_write := Some 0\<rparr>)
      in bc2\<lparr>trimmed := (trimmed bc2)(0 := False)\<rparr>)"

lemma threaded_segments:
  "segments threaded_cache = replicate 8 \<lparr>in_use = False, seg_data = (\<lambda>_. 0), seg_offset = 0, last_access = 0,
     streamed = False, seg_flags = replicate 64 0\<rparr>"
  by (simp add: threaded_cache_def block_cache_init_def)

lemma threaded_fields:
  "use_pthreads threaded_cache" "bad_offset threaded_cache = None" "seg_to_write threaded_cache = None"
  "trimmed_len threaded_cache = 65536" "fd threaded_cache = dead_device" "end_offset threaded_cache = 0"
  "is_soft_end_offset threaded_cache = False" "minimize_writes threaded_cache = False"
  by (simp_all add: threaded_cache_def block_cache_init_def)

lemma segment_of_streamed:
  "seg_at (upd_seg 0 f (init_segment 0 0 threaded_cache)) 0 = f \<lparr>in_use = True, seg_data = (\<lambda>_. 0), seg_offset = 0,
     last_access = timestamp threaded_cache, streamed = True, seg_flags = replicate 64 0\<rparr>"
  by (simp add: upd_seg_def init_segment_def threaded_segments)

lemma streamed_pwrite: "block_cache_pwrite whole_segment 0 True threaded_cache = (Inr (), streamed_state)"
proof -
  define g where "g = (\<lambda>seg. fold set_dirty [0..<256] (seg\<lparr>seg_data := store_bytes whole_segment 0 (seg_data seg)\<rparr>))"
  define bc1 where "bc1 = upd_seg 0 g (init_segment 0 0 threaded_cache)"
  let ?s = "\<lparr>in_use = True, seg_data = store_bytes whole_segment 0 (\<lambda>_. 0), seg_offset = 0,
     last_access = timestamp threaded_cache, streamed = True, seg_flags = replicate 64 0\<rparr>"
  have s1: "seg_at bc1 0 = fold set_dirty [0..<256] ?s" by (simp add: bc1_def segment_of_streamed g_def)
  have dl: "length (seg_flags (seg_at bc1 0)) = 64" "streamed (seg_at bc1 0)" "seg_offset (seg_at bc1 0) = 0"
    "\<forall>b < 256. blk_dirty (seg_at bc1 0) b"
    using set_dirty_loop [of ?s 0 256] by (simp_all add: s1 Let_def)
  have full: "is_segment_completely_dirty (seg_at bc1 0)" using is_segment_completely_dirty_iff [OF dl(1)] dl(4) by blast
  have f1: "use_pthreads bc1" "bad_offset bc1 = None" "seg_to_write bc1 = None" "trimmed_len bc1 = 65536"
    "length (segments bc1) = 8"
    by (simp_all add: bc1_def upd_seg_def init_segment_def threaded_fields) (simp add: threaded_segments)
  have async: "do_async_write 0 bc1 = (Inr (), bc1\<lparr>seg_to_write := Some 0\<rparr>)"
    by (simp add: do_async_write_def ok_then_def check_async_error_def writer_step_def f1)
  have get: "get_segment 0 threaded_cache = (Inr 0, init_segment 0 0 threaded_cache)"
    by (simp add: get_segment_def threaded_segments find_segment_idle)
  have len: "length whole_segment = 131072" "whole_segment \<noteq> []"
    by (simp_all add: whole_segment_def)
  let ?b2 = "upd_seg 0 (\<lambda>seg. seg\<lparr>seg_flags := replicate 64 0xaa\<rparr>) (bc1\<lparr>seg_to_write := Some 0\<rparr>)"
  have off2: "seg_offset (seg_at ?b2 0) = 0" "trimmed_len ?b2 = 65536"
    using dl(3) f1 by (simp_all add: upd_seg_def)
  have "block_segment_pwrite 0 whole_segment 0 True (init_segment 0 0 threaded_cache) = clear_trimmed 0 ?b2"
    unfolding block_segment_pwrite_def Let_def using full dl(2) len(1)
    by (simp add: g_def [symmetric] bc1_def [symmetric] async ok_then_def off2)
  also have "\<dots> = (Inr (), streamed_state)"
    using off2(2) by (simp add: clear_trimmed_def Let_def streamed_state_def bc1_def g_def)
  finally show ?thesis
    using len get by (simp add: block_cache_pwrite_def segment_floor_def pwrite_loop.simps [of whole_segment]
        pwrite_loop.simps [of "[]"])
qed

lemma streamed_segments:
  "\<exists>d l. segments streamed_state = \<lparr>in_use = True, seg_data = d, seg_offset = 0, last_access = l, streamed = True,
       seg_flags = replicate 64 0xaa\<rparr> # replicate 7 \<lparr>in_use = False, seg_data = (\<lambda>_. 0), seg_offset = 0,
       last_access = 0, streamed = False, seg_flags = replicate 64 0\<rparr>"
proof -
  let ?s = "\<lparr>in_use = True, seg_data = store_bytes whole_segment 0 (\<lambda>_. 0), seg_offset = 0,
     last_access = timestamp threaded_cache, streamed = True, seg_flags = replicate 64 0\<rparr>"
  obtain t where t: "fold set_dirty [0..<256] ?s = t" "in_use t" "seg_offset t = 0" "streamed t"
    using set_dirty_loop [of ?s 0 256] by (simp add: Let_def)
  then show ?thesis
    by (cases t) (simp add: streamed_state_def Let_def upd_seg_def init_segment_def threaded_segments replicate_8)
qed

text \<open>
  On a device where every write fails, writing a whole segment as a stream, flushing the cache
  and freeing it all report success: a flush looks only at dirty segments and at their errors, and
  the segment handed to the worker is no longer dirty.
\<close>

theorem lost_stream_write_error:
  "\<exists>bc bc'. block_cache_pwrite whole_segment 0 True threaded_cache = (Inr (), bc) \<and>
     block_cache_flush bc = (Inr (), bc) \<and> block_cache_free bc = (Inr (), bc') \<and>
     bad_offset bc' = Some 0 \<and> dev_bytes (fd bc') = dev_bytes dead_device"
proof -
  obtain d l where sg: "segments streamed_state = \<lparr>in_use = True, seg_data = d, seg_offset = 0, last_access = l, streamed = True,
       seg_flags = replicate 64 0xaa\<rparr> # replicate 7 \<lparr>in_use = False, seg_data = (\<lambda>_. 0), seg_offset = 0,
       last_access = 0, streamed = False, seg_flags = replicate 64 0\<rparr>" using streamed_segments by blast
  have f: "use_pthreads streamed_state" "bad_offset streamed_state = None" "seg_to_write streamed_state = Some 0"
    "fd streamed_state = dead_device" "end_offset streamed_state = 0" "minimize_writes streamed_state = False"
    "is_soft_end_offset streamed_state = False"
    by (simp_all add: streamed_state_def Let_def upd_seg_def init_segment_def threaded_fields)
  have clean: "\<not> is_segment_dirty \<lparr>in_use = True, seg_data = d, seg_offset = 0, last_access = l, streamed = True,
       seg_flags = replicate 64 0xaa\<rparr>" by (simp add: is_segment_dirty_iff flags_all_aa)
  have "flush_segment i streamed_state = (Inr (), streamed_state)" if "i < 8" for i
    using that clean by (cases i) (simp_all add: flush_segment_def sg)
  then have "flush_segments is streamed_state = (Inr (), streamed_state)" if "set is \<subseteq> {..<8}" for "is"
    using that by (induction "is") simp_all
  then have flush: "block_cache_flush streamed_state = (Inr (), streamed_state)"
    by (simp add: block_cache_flush_def sg atLeast0LessThan)
  have "\<exists>bc'. block_cache_free streamed_state = (Inr (), bc') \<and> bad_offset bc' = Some 0 \<and>
      dev_bytes (fd bc') = dev_bytes dead_device"
    by (simp add: block_cache_free_def writer_step_def f sg verified_segment_write_def ok_then_def calculate_io_size_def
        Let_def dev_pwrite_def dead_device_def)
  then show ?thesis using streamed_pwrite flush by blast
qed

definition busy_cache :: block_cache where
  "busy_cache = threaded_cache\<lparr>fd := sample_device, seg_to_write := Some 0, timestamp := 8,
     segments := map (\<lambda>i. \<lparr>in_use = True, seg_data = (\<lambda>_. of_nat i + 1), seg_offset = i * 131072,
       last_access = of_nat i, streamed = True, seg_flags = replicate 64 0xaa\<rparr>) [0..<8]\<rparr>"

lemma upt_8: "[0..<8] = [0, 1, 2, 3, 4, 5, 6, 7 :: nat]"
  by code_simp

text \<open>
  A miss takes the least recently used segment also when that segment still waits for the
  worker, because it is not dirty any more and nothing waits for it: the worker then writes the
  segment's data at the offset of the new segment, and the old offset is never written.
\<close>

theorem pending_segment_recycled:
  "\<exists>bc'. get_segment (8 * 131072) busy_cache = (Inr 0, bc') \<and> seg_to_write bc' = Some 0 \<and>
     seg_offset (seg_at bc' 0) = 8 * 131072 \<and>
     dev_bytes (fd (writer_step bc')) (8 * 131072) = seg_data (seg_at busy_cache 0) 0 \<and>
     dev_bytes (fd (writer_step bc')) 0 = dev_bytes (fd busy_cache) 0"
proof -
  have f: "use_pthreads busy_cache" "bad_offset busy_cache = None" "end_offset busy_cache = 0"
    "is_soft_end_offset busy_cache = False" "minimize_writes busy_cache = False" "verify_writes busy_cache = False"
    "fd busy_cache = sample_device" "seg_to_write busy_cache = Some 0"
    by (simp_all add: busy_cache_def threaded_fields) (simp add: threaded_cache_def block_cache_init_def)
  have clean: "\<not> is_segment_dirty (seg_at busy_cache 0)"
    by (simp add: busy_cache_def is_segment_dirty_iff flags_all_aa)
  have "get_segment (8 * 131072) busy_cache = ok_then (flush_segment 0) (\<lambda>_ bc. (Inr 0, init_segment (8 * 131072) 0 bc)) busy_cache"
    by (simp add: get_segment_def busy_cache_def upt_8)
  also have "\<dots> = (Inr 0, init_segment (8 * 131072) 0 busy_cache)"
    using clean by (simp add: ok_then_def flush_segment_def)
  finally have g: "get_segment (8 * 131072) busy_cache = (Inr 0, init_segment (8 * 131072) 0 busy_cache)" .
  have s0: "seg_at (init_segment (8 * 131072) 0 busy_cache) 0 = \<lparr>in_use = True, seg_data = (\<lambda>_. 1), seg_offset = 8 * 131072,
      last_access = 8, streamed = True, seg_flags = replicate 64 0\<rparr>"
    by (simp add: init_segment_def upd_seg_def busy_cache_def upt_8)
  have fi: "use_pthreads (init_segment o' 0 busy_cache)" "bad_offset (init_segment o' 0 busy_cache) = None"
    "end_offset (init_segment o' 0 busy_cache) = 0" "is_soft_end_offset (init_segment o' 0 busy_cache) = False"
    "minimize_writes (init_segment o' 0 busy_cache) = False" "verify_writes (init_segment o' 0 busy_cache) = False"
    "fd (init_segment o' 0 busy_cache) = sample_device" "seg_to_write (init_segment o' 0 busy_cache) = Some 0" for o'
    by (simp_all add: init_segment_def upd_seg_def f)
  have d0: "seg_data (seg_at busy_cache 0) 0 = 1" by (simp add: busy_cache_def upt_8)
  have w: "fd (writer_step (init_segment (8 * 131072) 0 busy_cache)) =
      snd (dev_pwrite (\<lambda>_. 1) 131072 (8 * 131072) sample_device)"
    using s0 by (simp add: writer_step_def fi verified_segment_write_def ok_then_def calculate_io_size_def Let_def
        split: prod.split)
  have "dev_bytes (snd (dev_pwrite (\<lambda>_. 1) 131072 (8 * 131072) sample_device)) (8 * 131072) = 1"
    "dev_bytes (snd (dev_pwrite (\<lambda>_. 1) 131072 (8 * 131072) sample_device)) 0 = dev_bytes sample_device 0"
    by (simp_all add: dev_pwrite_def Let_def sample_device_def)
  then show ?thesis using g s0 w by (auto simp: fi f d0)
qed

definition small_cache :: block_cache where
  "small_cache = sample_cache\<lparr>end_offset := 0x100000, trimmed_remainder := True,
     trimmed := set_bits 8 524288 (\<lambda>_. False)\<rparr>"

lemma discard_idle:
  "\<forall>i \<in> set is. \<not> in_use (seg_at bc i) \<Longrightarrow> discard_segments P is bc = bc"
  by (induction "is") simp_all

lemma small_cache_init:
  "block_cache_init sample_device 0x100000 False False False False 1 False = (Inr (), small_cache)"
proof -
  define bc where "bc = sample_cache\<lparr>end_offset := 0x100000\<rparr>"
  have i: "block_cache_init sample_device 0x100000 False False False False 1 False =
      block_cache_trim_after 0x100000 False bc"
    by (simp add: block_cache_init_def Let_def bc_def sample_cache_def segment_ceil_def segment_floor_def)
  let ?b = "bc\<lparr>trimmed_remainder := True\<rparr>"
  have segs: "segments ?b = segments sample_cache" by (simp add: bc_def)
  have d: "discard_segments P [0..<8] ?b = ?b" for P
    by (rule discard_idle) (simp add: segs sample_segments)
  have d': "discard_segments P [0..<8] (?b\<lparr>trimmed := t\<rparr>) = ?b\<lparr>trimmed := t\<rparr>" for P t
    by (rule discard_idle) (simp add: bc_def sample_segments)
  have len: "length (segments sample_cache) = 8" by (simp add: sample_segments)
  have f: "trimmed_end_offset ?b = 2 ^ 36" "trimmed_len ?b = 65536" "hw_trim_enabled bc = False" "trimmed ?b = (\<lambda>_. False)"
    by (simp_all add: bc_def sample_cache_simps)
  have sr: "set_trimmed_range 8 524288 ?b = (Inr (), ?b\<lparr>trimmed := set_bits 8 524288 (\<lambda>_. False)\<rparr>)"
    using set_trimmed_range_ok [of 8 524288 ?b] f by simp
  have "block_cache_trim_after 0x100000 False bc = block_cache_trim 0x100000 (2 ^ 36 - 0x100000) False ?b"
    using f len segs d by (simp add: block_cache_trim_after_def)
  also have "\<dots> = (Inr (), ?b\<lparr>trimmed := set_bits 8 524288 (\<lambda>_. False)\<rparr>)"
    using f sr d' len by (simp add: block_cache_trim_def Let_def segment_ceil_def segment_floor_def ok_then_def bc_def)
  finally show ?thesis unfolding i by (simp add: bc_def small_cache_def)
qed

lemma small_cache_fields:
  "segments small_cache = segments sample_cache" "trimmed_len small_cache = 65536" "trimmed_remainder small_cache"
  "use_pthreads small_cache = False" "decrypt_callback small_cache = None" "end_offset small_cache = 0x100000"
  "is_soft_end_offset small_cache = False"
  by (simp_all add: small_cache_def) (simp_all add: sample_cache_simps)

text \<open>
  Enlarging the array of trim bits for an index that is a multiple of 4096 does not make room
  for that index. On a medium of 1 MiB, writing one block at 64 GiB succeeds in the cache, and
  the flush that cannot write it back clears a bit outside of the array.
\<close>

theorem trim_bits_out_of_bounds:
  "\<exists>bc bc1 bc2. block_cache_init sample_device 0x100000 False False False False 1 False = (Inr (), bc) \<and>
     block_cache_pwrite (replicate 512 7) (2 ^ 36 + 512) False bc = (Inr (), bc1) \<and>
     block_cache_flush bc1 = (Inl (Undefined ''trimmed[bit_ix]''), bc2)"
proof -
  define seg where "seg = \<lparr>in_use = True, seg_data = store_bytes (replicate 512 7) 512 (\<lambda>_. 0), seg_offset = 2 ^ 36,
     last_access = timestamp small_cache, streamed = False, seg_flags = (replicate 64 0)[0 := 12]\<rparr>"
  define idle where "idle = \<lparr>in_use = False, seg_data = (\<lambda>_. 0), seg_offset = 0, last_access = 0,
     streamed = False, seg_flags = replicate 64 (0 :: byte)\<rparr>"
  define bc1 where "bc1 = small_cache\<lparr>segments := seg # replicate 7 idle, timestamp := timestamp small_cache + 1\<rparr>"
  have si: "segments small_cache = replicate 8 idle" by (simp add: small_cache_fields sample_segments idle_def)
  have g: "get_segment (2 ^ 36) small_cache = (Inr 0, init_segment (2 ^ 36) 0 small_cache)"
    by (simp add: get_segment_def si idle_def find_segment_idle)
  have w: "block_cache_pwrite (replicate 512 7) (2 ^ 36 + 512) False small_cache = (Inr (), bc1)"
    by (simp add: block_cache_pwrite_def segment_floor_def g [simplified] block_segment_pwrite_def ok_then_def Let_def
        pwrite_loop.simps upd_seg_def init_segment_def si replicate_8 set_dirty_def bc1_def seg_def idle_def)
  have v: "check_segment_validity seg = (False, False)" "is_segment_dirty seg"
    by (simp_all add: seg_def check_segment_validity_def is_segment_dirty_def) code_simp+
  have tr: "is_trimmed bc1 (2 ^ 36)" by (simp add: is_trimmed_def bc1_def small_cache_fields)
  have s0: "seg_at bc1 0 = seg" by (simp add: bc1_def)
  define bc2 where "bc2 = upd_seg 0 (fold (merge_block (\<lambda>_. 0)) [0..<256]) bc1"
  have m: "make_segment_valid 0 bc1 = (Inr (), bc2)"
    using v tr by (simp add: make_segment_valid_def s0 ok_then_def read_segment_def seg_def bc2_def)
  have so: "seg_offset (seg_at bc2 0) = 2 ^ 36"
    using merge_loop [of seg 256 "\<lambda>_. 0"] by (simp add: bc2_def upd_seg_def bc1_def) (simp add: seg_def)
  have wr: "do_sync_write 0 bc2 = (Inl (Msg ''read/write failed since past end of media''), bc2)"
    by (simp add: do_sync_write_def verified_segment_write_def so ok_then_def calculate_io_size_def Let_def)
       (simp add: bc2_def bc1_def upd_seg_def small_cache_fields)
  have ct: "\<exists>bc3. clear_trimmed (2 ^ 36) (upd_seg 0 clear_all_dirty bc2) = (Inl (Undefined ''trimmed[bit_ix]''), bc3)"
    by (simp add: clear_trimmed_def Let_def enlarge_trim_bitvector_def bc2_def bc1_def upd_seg_def small_cache_fields)
  then obtain bc3 where ct: "clear_trimmed (2 ^ 36) (upd_seg 0 clear_all_dirty bc2) = (Inl (Undefined ''trimmed[bit_ix]''), bc3)" by blast
  have fl: "flush_segment 0 bc1 = (Inl (Undefined ''trimmed[bit_ix]''), bc3)"
    using v(2) m wr ct by (simp add: flush_segment_def s0 ok_then_def) (simp add: seg_def)
  have so8: "sort_key (lru_key bc1) [0..<8] = [0..<8]"
    by (simp add: lru_key_def bc1_def upt_8 seg_def idle_def small_cache_def sample_cache_simps)
  have "length (segments bc1) = 8" by (simp add: bc1_def)
  then have "block_cache_flush bc1 = flush_segments [0..<8] bc1" by (simp only: block_cache_flush_def so8)
  then have "block_cache_flush bc1 = (Inl (Undefined ''trimmed[bit_ix]''), bc3)"
    using fl by (simp add: upt_8)
  then show ?thesis using small_cache_init w by blast
qed

definition failed_cache :: block_cache where
  "failed_cache = threaded_cache\<lparr>bad_offset := Some 0\<rparr>"


end
