(* ===== verification/Dictionary.thy ===== *)
theory Dictionary
  imports Prelude
begin

text \<open>
  The interface of a store of named values: a lookup, an operation that sets a name, and one that
  removes it. Its clients rely on the two laws that connect them, and on an invariant that every
  operation keeps for the names and values that are allowed.
\<close>

datatype ('k, 'v) edit = Put 'k 'v | Remove 'k

fun edit_map :: "('k, 'v) edit \<Rightarrow> ('k \<Rightarrow> 'v option) \<Rightarrow> 'k \<Rightarrow> 'v option" where
  "edit_map (Put k v) m = m(k \<mapsto> v)"
| "edit_map (Remove k) m = m(k := None)"

fun run_edit :: "('k \<Rightarrow> 'v \<Rightarrow> 's \<Rightarrow> 's) \<Rightarrow> ('k \<Rightarrow> 's \<Rightarrow> 's) \<Rightarrow> ('k, 'v) edit \<Rightarrow> 's \<Rightarrow> 's" where
  "run_edit put remove (Put k v) s = put k v s"
| "run_edit put remove (Remove k) s = remove k s"

fun edit_ok :: "('k \<Rightarrow> 'v \<Rightarrow> bool) \<Rightarrow> ('k, 'v) edit \<Rightarrow> bool" where
  "edit_ok allowed (Put k v) = allowed k v"
| "edit_ok allowed (Remove k) = True"

locale dictionary =
  fixes ok :: "'s \<Rightarrow> bool"
    and allowed :: "'k \<Rightarrow> 'v \<Rightarrow> bool"
    and entry :: "'s \<Rightarrow> 'k \<Rightarrow> 'v option"
    and put :: "'k \<Rightarrow> 'v \<Rightarrow> 's \<Rightarrow> 's"
    and remove :: "'k \<Rightarrow> 's \<Rightarrow> 's"
  assumes put_law: "ok s \<Longrightarrow> entry (put k v s) = (entry s)(k \<mapsto> v)"
    and remove_law: "ok s \<Longrightarrow> entry (remove k s) = (entry s)(k := None)"
    and put_ok: "ok s \<Longrightarrow> allowed k v \<Longrightarrow> ok (put k v s)"
    and remove_ok: "ok s \<Longrightarrow> ok (remove k s)"
begin

lemma edit_law: "ok s \<Longrightarrow> entry (run_edit put remove e s) = edit_map e (entry s)"
  by (cases e) (simp_all add: put_law remove_law)

lemma edit_preserves: "ok s \<Longrightarrow> edit_ok allowed e \<Longrightarrow> ok (run_edit put remove e s)"
  by (cases e) (simp_all add: put_ok remove_ok)

lemma edits_law:
  "ok s \<Longrightarrow> list_all (edit_ok allowed) es \<Longrightarrow>
   ok (fold (run_edit put remove) es s) \<and> entry (fold (run_edit put remove) es s) = fold edit_map es (entry s)"
proof (induction es arbitrary: s)
  case (Cons e es)
  have s: "ok (run_edit put remove e s)" using Cons.prems edit_preserves by simp
  show ?case using Cons.IH [OF s] Cons.prems edit_law [OF Cons.prems(1)] by simp
qed simp

lemma put_idempotent: "ok s \<Longrightarrow> allowed k v \<Longrightarrow> entry (put k v (put k v s)) = entry (put k v s)"
  by (simp add: put_law put_ok)

lemma remove_absent: "ok s \<Longrightarrow> entry s k = None \<Longrightarrow> entry (remove k s) = entry s"
  by (simp add: remove_law fun_upd_idem_iff)

end

end
