(* ===== verification/Cache_Total.thy ===== *)
theory Cache_Total
  imports Cache_Trim
begin

text \<open>
  The operations of the cache succeed on a file without faults: the refinement lemmas speak of
  operations that return successfully, here it is shown that they do. The cache is
  the single-threaded one on a regular file (no hard end, nothing trimmed past the trim bits), and
  the device completes every read and write and keeps what is written.
\<close>

definition faultless :: "device \<Rightarrow> bool" where
  "faultless d = ((\<forall>a. dev_read_ok d a) \<and> (\<forall>a. dev_write_limit d a \<ge> BLOCK_CACHE_SEGMENT_SIZE) \<and>
     (\<forall>a b. dev_store d a b = b))"

definition healthy :: "block_cache \<Rightarrow> bool" where
  "healthy bc = (faultless (fd bc) \<and> \<not> use_pthreads bc \<and> \<not> trimmed_remainder bc \<and>
     \<not> (end_offset bc > 0 \<and> \<not> is_soft_end_offset bc))"

definition succeeds :: "(block_cache, 'a) action \<Rightarrow> bool" where
  "succeeds m = (\<forall>bc. healthy bc \<longrightarrow> (\<exists>x bc'. m bc = (Inr x, bc') \<and> healthy bc'))"

named_theorems succ_intros \<open>operations that succeed on a healthy cache\<close>

lemma succeedsD:
  assumes "succeeds m" and "healthy bc"
  obtains x bc' where "m bc = (Inr x, bc')" and "healthy bc'"
  using assms by (auto simp: succeeds_def)

lemma succeeds_ok_then [succ_intros]:
  assumes "succeeds m" and "\<And>x. succeeds (f x)"
  shows "succeeds (ok_then m f)"
  unfolding succeeds_def
proof (intro allI impI)
  fix bc assume "healthy bc"
  with assms(1) obtain x b where m: "m bc = (Inr x, b)" and b: "healthy b" by (rule succeedsD)
  obtain y c where "f x b = (Inr y, c)" "healthy c" using assms(2) b by (rule succeedsD)
  then show "\<exists>x bc'. ok_then m f bc = (Inr x, bc') \<and> healthy bc'" by (simp add: ok_then_def m)
qed

lemma healthy_upd [simp]:
  "healthy (upd_seg i f bc) = healthy bc" "healthy (bc\<lparr>timestamp := t\<rparr>) = healthy bc"
  "healthy (bc\<lparr>trimmed := tr\<rparr>) = healthy bc" "healthy (bc\<lparr>segments := sg\<rparr>) = healthy bc"
  "healthy (init_segment off i bc) = healthy bc"
  by (simp_all add: healthy_def upd_seg_def init_segment_def)

lemma calculate_io_size_succeeds:
  assumes "healthy bc"
  obtains bc' where "calculate_io_size off bc = (Inr BLOCK_CACHE_SEGMENT_SIZE, bc')" and "healthy bc'"
    and "fd bc' = fd bc" "segments bc' = segments bc"
  using assms by (auto simp: calculate_io_size_def healthy_def Let_def)

lemma read_segment_succeeds [succ_intros]: "succeeds (read_segment off)"
  unfolding succeeds_def
proof (intro allI impI)
  fix bc assume h: "healthy bc"
  then obtain b where b: "calculate_io_size off bc = (Inr BLOCK_CACHE_SEGMENT_SIZE, b)" "healthy b"
    by (rule calculate_io_size_succeeds)
  then have "dev_read_ok (fd b) off" by (simp add: healthy_def faultless_def)
  then show "\<exists>x bc'. read_segment off bc = (Inr x, bc') \<and> healthy bc'"
    using h b by (simp add: read_segment_def ok_then_def dev_pread_def Let_def)
qed

lemma clear_trimmed_succeeds [succ_intros]: "succeeds (clear_trimmed off)"
  by (auto simp: succeeds_def clear_trimmed_def Let_def healthy_def)

lemma return_succeeds [succ_intros]: "(\<And>bc. healthy (f bc) = healthy bc) \<Longrightarrow> succeeds (\<lambda>bc. (Inr (x bc), f bc))"
  by (simp add: succeeds_def)

lemma succeeds_cases: "(\<And>bc. succeeds (m bc)) \<Longrightarrow> succeeds (\<lambda>bc. m bc bc)"
  by (auto simp: succeeds_def)

lemma make_segment_valid_succeeds [succ_intros]: "succeeds (make_segment_valid i)"
proof -
  have "succeeds (ok_then (read_segment off) (\<lambda>d bc. (Inr (), upd_seg i (f d) bc)))" for f off
    by (intro succ_intros healthy_upd)
  then show ?thesis
    by (auto simp: succeeds_def make_segment_valid_def split: prod.split)
qed

lemma faultless_pwrite:
  assumes "faultless d" and "dev_pwrite data BLOCK_CACHE_SEGMENT_SIZE off d = (n, d')"
  shows "n = BLOCK_CACHE_SEGMENT_SIZE \<and> faultless d' \<and> off + BLOCK_CACHE_SEGMENT_SIZE \<le> dev_size d' \<and>
    (\<forall>k < BLOCK_CACHE_SEGMENT_SIZE. dev_bytes d' (off + k) = data k)"
proof -
  have l: "min BLOCK_CACHE_SEGMENT_SIZE (dev_write_limit d off) = BLOCK_CACHE_SEGMENT_SIZE"
    using assms(1) by (simp add: faultless_def)
  show ?thesis using assms by (auto simp: dev_pwrite_def l Let_def faultless_def)
qed

lemma verified_segment_write_succeeds [succ_intros]: "succeeds (verified_segment_write i)"
  unfolding succeeds_def
proof (intro allI impI)
  fix bc assume h: "healthy bc"
  let ?off = "seg_offset (seg_at bc i)" and ?data = "seg_data (seg_at bc i)" and ?n = BLOCK_CACHE_SEGMENT_SIZE
  obtain b where b: "calculate_io_size ?off bc = (Inr ?n, b)" "healthy b"
    using h by (rule calculate_io_size_succeeds)
  obtain n d where w: "dev_pwrite ?data ?n ?off (fd b) = (n, d)" by fastforce
  have f: "n = ?n" "faultless d" "?off + ?n \<le> dev_size d" "\<forall>k < ?n. dev_bytes d (?off + k) = ?data k"
    using faultless_pwrite [OF _ w] b(2) by (auto simp: healthy_def)
  have r: "dev_pread d ?n ?off = Some ?n" using f by (simp add: dev_pread_def faultless_def)
  have s: "same_on_device (b\<lparr>fd := d\<rparr>) ?data ?n ?off" using f by (simp add: same_on_device_def list_all_iff)
  have "healthy (b\<lparr>fd := d\<rparr>)" using b(2) f(2) by (simp add: healthy_def)
  then show "\<exists>x bc'. verified_segment_write i bc = (Inr x, bc') \<and> healthy bc'"
    using b w f(1) r s by (simp add: verified_segment_write_def ok_then_def Let_def)
qed

lemma do_sync_write_succeeds [succ_intros]: "succeeds (do_sync_write i)" "succeeds (do_async_write i)"
  using verified_segment_write_succeeds [of i]
  by (simp_all add: succeeds_def do_sync_write_def do_async_write_def healthy_def)

lemma flush_segment_succeeds [succ_intros]: "succeeds (flush_segment i)"
  unfolding succeeds_def
proof (intro allI impI)
  fix bc assume h: "healthy bc"
  have "succeeds (ok_then (make_segment_valid i) (\<lambda>_. do_sync_write i))" by (intro succ_intros)
  then obtain b where b: "ok_then (make_segment_valid i) (\<lambda>_. do_sync_write i) bc = (Inr (), b)" "healthy b"
    using h by (auto elim: succeedsD)
  then have "healthy (upd_seg i clear_all_dirty b)" by simp
  with clear_trimmed_succeeds obtain c where
    "clear_trimmed (seg_offset (seg_at bc i)) (upd_seg i clear_all_dirty b) = (Inr (), c)" "healthy c"
    by (rule succeedsD) auto
  then show "\<exists>x bc'. flush_segment i bc = (Inr x, bc') \<and> healthy bc'"
    using h b by (simp add: flush_segment_def)
qed

lemma get_segment_succeeds [succ_intros]: "succeeds (get_segment off)"
  unfolding succeeds_def
proof (intro allI impI)
  fix bc assume h: "healthy bc"
  have p: "\<not> use_pthreads bc" using h by (simp add: healthy_def)
  have fl: "\<exists>x bc'. ok_then (flush_segment l) (\<lambda>_ bc. (Inr l, init_segment off l bc)) bc = (Inr x, bc') \<and> healthy bc'" for l
  proof -
    have "succeeds (ok_then (flush_segment l) (\<lambda>_ bc. (Inr l, init_segment off l bc)))"
      by (intro succ_intros) simp
    then show ?thesis using h by (auto simp: succeeds_def)
  qed
  show "\<exists>x bc'. get_segment off bc = (Inr x, bc') \<and> healthy bc'"
    using h p fl by (auto simp: get_segment_def wait_for_write_completion_def Let_def split: option.split sum.split)
qed

lemma block_segment_pwrite_succeeds [succ_intros]: "succeeds (block_segment_pwrite i buf o' strm)"
proof -
  have s: "succeeds (ok_then (do_async_write i) (\<lambda>_ bc. let b = upd_seg i (\<lambda>seg. seg\<lparr>seg_flags := replicate 64 0xaa\<rparr>) bc
             in clear_trimmed (seg_offset (seg_at b i)) b))"
  proof (rule succeeds_ok_then [OF do_sync_write_succeeds(2)])
    show "succeeds (\<lambda>bc. let b = upd_seg i (\<lambda>seg. seg\<lparr>seg_flags := replicate 64 0xaa\<rparr>) bc
             in clear_trimmed (seg_offset (seg_at b i)) b)"
      unfolding succeeds_def Let_def
    proof (intro allI impI)
      fix bc assume "healthy bc"
      then have "healthy (upd_seg i (\<lambda>seg. seg\<lparr>seg_flags := replicate 64 0xaa\<rparr>) bc)" by simp
      then show "\<exists>x bc'. clear_trimmed (seg_offset (seg_at (upd_seg i (\<lambda>seg. seg\<lparr>seg_flags := replicate 64 0xaa\<rparr>) bc) i))
          (upd_seg i (\<lambda>seg. seg\<lparr>seg_flags := replicate 64 0xaa\<rparr>) bc) = (Inr x, bc') \<and> healthy bc'"
        using clear_trimmed_succeeds unfolding succeeds_def by blast
    qed
  qed
  show ?thesis unfolding succeeds_def
  proof (intro allI impI)
    fix bc assume h: "healthy bc"
    define b where "b = upd_seg i (\<lambda>seg. fold set_dirty [o' div FWUP_BLOCK_SIZE..<o' div FWUP_BLOCK_SIZE + length buf div FWUP_BLOCK_SIZE]
                  (seg\<lparr>seg_data := store_bytes buf o' (seg_data seg)\<rparr>)) bc"
    have "healthy b" using h by (simp add: b_def)
    with s obtain x c where "ok_then (do_async_write i) (\<lambda>_ bc. let b = upd_seg i (\<lambda>seg. seg\<lparr>seg_flags := replicate 64 0xaa\<rparr>) bc
             in clear_trimmed (seg_offset (seg_at b i)) b) b = (Inr x, c)" "healthy c" by (rule succeedsD)
    moreover have "block_segment_pwrite i buf o' strm bc =
        (if strm \<and> streamed (seg_at b i) \<and> is_segment_completely_dirty (seg_at b i) then
           ok_then (do_async_write i) (\<lambda>_ bc. let b = upd_seg i (\<lambda>seg. seg\<lparr>seg_flags := replicate 64 0xaa\<rparr>) bc
             in clear_trimmed (seg_offset (seg_at b i)) b) b
         else (Inr (), if strm then b else upd_seg i (\<lambda>seg. seg\<lparr>streamed := False\<rparr>) b))"
      by (simp only: block_segment_pwrite_def Let_def b_def)
    ultimately show "\<exists>x bc'. block_segment_pwrite i buf o' strm bc = (Inr x, bc') \<and> healthy bc'"
      using \<open>healthy b\<close> by (simp only:) (simp split: if_split)
  qed
qed

lemma pwrite_loop_succeeds [succ_intros]: "succeeds (pwrite_loop buf off strm)"
  unfolding succeeds_def
proof (intro allI impI)
  fix bc assume "healthy bc"
  then show "\<exists>x bc'. pwrite_loop buf off strm bc = (Inr x, bc') \<and> healthy bc'"
  proof (induction buf off strm bc rule: pwrite_loop.induct)
    case (1 buf off strm bc)
    show ?case
    proof (cases "buf = []")
      case True
      then show ?thesis using "1.prems" by (simp add: pwrite_loop.simps)
    next
      case False
      obtain i b where g: "get_segment off bc = (Inr i, b)" "healthy b"
        using get_segment_succeeds "1.prems" by (rule succeedsD)
      obtain u c where w: "block_segment_pwrite i (take BLOCK_CACHE_SEGMENT_SIZE buf) 0 strm b = (Inr u, c)" "healthy c"
        using block_segment_pwrite_succeeds g(2) by (rule succeedsD)
      show ?thesis using "1.IH" [OF False g(1) [symmetric] refl w(1) [symmetric] refl w(2)] g w False
        by (subst pwrite_loop.simps) simp
    qed
  qed
qed

lemma block_segment_pread_succeeds [succ_intros]: "succeeds (block_segment_pread i n o')"
  unfolding block_segment_pread_def by (intro succ_intros) simp

lemma pread_loop_succeeds [succ_intros]: "succeeds (pread_loop n off)"
  unfolding succeeds_def
proof (intro allI impI)
  fix bc assume "healthy bc"
  then show "\<exists>x bc'. pread_loop n off bc = (Inr x, bc') \<and> healthy bc'"
  proof (induction n off bc rule: pread_loop.induct)
    case (1 n off bc)
    show ?case
    proof (cases "n = 0")
      case True
      then show ?thesis using "1.prems" by (simp add: pread_loop.simps)
    next
      case False
      obtain i b where g: "get_segment off bc = (Inr i, b)" "healthy b"
        using get_segment_succeeds "1.prems" by (rule succeedsD)
      obtain u c where w: "block_segment_pread i (min n BLOCK_CACHE_SEGMENT_SIZE) 0 b = (Inr u, c)" "healthy c"
        using block_segment_pread_succeeds g(2) by (rule succeedsD)
      obtain x d where "pread_loop (n - min n BLOCK_CACHE_SEGMENT_SIZE) (off + min n BLOCK_CACHE_SEGMENT_SIZE) c = (Inr x, d)"
          "healthy d"
        using "1.IH" [OF False g(1) [symmetric] refl w(1) [symmetric] refl w(2)] by auto
      then show ?thesis using g w False by (subst pread_loop.simps) simp
    qed
  qed
qed

lemma flush_segments_succeeds [succ_intros]: "succeeds (flush_segments is)"
  unfolding succeeds_def
proof (intro allI impI)
  fix bc assume "healthy bc"
  then show "\<exists>x bc'. flush_segments is bc = (Inr x, bc') \<and> healthy bc'"
  proof (induction "is" arbitrary: bc)
    case (Cons i "is")
    obtain u b where "flush_segment i bc = (Inr u, b)" "healthy b"
      using flush_segment_succeeds Cons.prems by (rule succeedsD)
    then show ?case using Cons.IH by simp
  qed simp
qed

lemma block_cache_pwrite_succeeds [succ_intros]: "succeeds (block_cache_pwrite buf off strm)"
proof (cases "segment_floor off = off")
  case True
  then show ?thesis using pwrite_loop_succeeds by (simp add: block_cache_pwrite_def succeeds_def)
next
  case False
  have "succeeds (ok_then (get_segment first) (\<lambda>i. ok_then (block_segment_pwrite i (take c buf) o' strm)
      (\<lambda>_. pwrite_loop (drop c buf) (off + c) strm)))" for first c o'
    by (intro succ_intros)
  then show ?thesis using False by (simp add: block_cache_pwrite_def succeeds_def Let_def)
qed

lemma block_cache_pread_succeeds [succ_intros]: "succeeds (block_cache_pread n off)"
proof (cases "segment_floor off = off")
  case True
  then show ?thesis using pread_loop_succeeds by (simp add: block_cache_pread_def succeeds_def)
next
  case False
  have "succeeds (ok_then (get_segment first) (\<lambda>i. ok_then (block_segment_pread i c o')
      (\<lambda>part. ok_then (pread_loop (n - c) (off + c)) (\<lambda>rest bc. (Inr (part @ rest), bc)))))" for first c o'
    by (intro succ_intros) simp
  then show ?thesis using False by (simp add: block_cache_pread_def succeeds_def Let_def)
qed

lemma block_cache_flush_succeeds [succ_intros]: "succeeds block_cache_flush"
  using flush_segments_succeeds by (simp add: succeeds_def block_cache_flush_def)

section \<open>The result\<close>

text \<open>
  On a regular file without faults the three operations of the cache that its clients use
  always return successfully, and leave the cache in a state where they do so again: no read,
  eviction or write-back can get stuck or fail.
\<close>

theorem block_cache_total:
  assumes "healthy bc"
  shows "(\<exists>bc'. block_cache_pwrite buf off strm bc = (Inr (), bc') \<and> healthy bc') \<and>
    (\<exists>out bc'. block_cache_pread n off bc = (Inr out, bc') \<and> healthy bc') \<and>
    (\<exists>bc'. block_cache_flush bc = (Inr (), bc') \<and> healthy bc')"
  using block_cache_pwrite_succeeds block_cache_pread_succeeds block_cache_flush_succeeds assms
  by (auto simp: succeeds_def)

definition plain_file :: "(nat \<Rightarrow> byte) \<Rightarrow> nat \<Rightarrow> device" where
  "plain_file bytes n = \<lparr>dev_bytes = bytes, dev_size = n, dev_read_ok = (\<lambda>_. True),
     dev_write_limit = (\<lambda>_. BLOCK_CACHE_SEGMENT_SIZE), dev_store = (\<lambda>_ b. b), dev_after_trim = (\<lambda>_. 0), dev_log = []\<rparr>"

definition file_cache :: "(nat \<Rightarrow> byte) \<Rightarrow> nat \<Rightarrow> block_cache" where
  "file_cache bytes n = snd (block_cache_init (plain_file bytes n) 0 False False False False 1 False)"

lemma file_cache_healthy: "healthy (file_cache bytes n)"
  by (simp add: file_cache_def block_cache_init_def healthy_def faultless_def plain_file_def Let_def)

lemma file_cache_ok:
  "cache_ok (file_cache bytes n)" "in_range (file_cache bytes n) a"
  "a < 2 ^ 36 \<Longrightarrow> view (file_cache bytes n) a = (if a < n then bytes a else 0)"
proof -
  have d: "\<forall>a b. dev_store (plain_file bytes n) a b = b" by (simp add: plain_file_def)
  obtain bc where b: "block_cache_init (plain_file bytes n) 0 False False False False 1 False = (Inr (), bc)"
    and ok: "cache_ok bc"
    and r: "\<forall>a. in_range bc a \<longleftrightarrow> (0 > (0::nat) \<and> \<not> False \<longrightarrow> a < 0)"
    and v: "\<forall>a. in_range bc a \<and> a < 2 ^ 36 \<longrightarrow>
        view bc a = (if a < dev_size (plain_file bytes n) then dev_bytes (plain_file bytes n) a else 0)"
    using initial_cache [of False False "plain_file bytes n" 0 False False False 1] d by auto
  have e: "file_cache bytes n = bc" by (simp only: file_cache_def b snd_conv)
  show "cache_ok (file_cache bytes n)" "in_range (file_cache bytes n) a" using ok r by (simp_all add: e)
  show "view (file_cache bytes n) a = (if a < n then bytes a else 0)" if "a < 2 ^ 36"
    using v r that by (simp add: e plain_file_def)
qed

theorem block_cache_total_witness:
  "\<exists>bc'. block_cache_pwrite (replicate 512 7) 1024 True (file_cache (\<lambda>_. 0) 0) = (Inr (), bc') \<and> healthy bc'"
  using block_cache_total [OF file_cache_healthy] by blast

end
