(* ===== verification/Uboot_Env.thy ===== *)
theory Uboot_Env
  imports Dictionary Crc32 Util Cache_Total "HOL-Library.List_Lexorder" "HOL-Library.Char_ord"
begin

text \<open>
  The U-Boot environment (\<open>uboot_env.c\<close>): a list of named values that is stored, with a checksum,
  in one or, when it is redundant, two areas of the device. The functions read and write through
  the block cache; their state is the cache together with the environment in memory.
\<close>

section \<open>State\<close>

record uboot_env =
  env_block_offset :: int
  env_block_count :: nat
  env_size :: nat
  use_redundant :: bool
  redundant_block_offset :: int
  write_primary :: bool
  write_secondary :: bool
  env_flags :: byte
  env_vars :: "(string \<times> string) list"

section \<open>The configuration\<close>

text \<open>
  \<open>cfg_get_off_t\<close> looks at \<open>errno\<close> without clearing it first: its first argument says whether
  \<open>errno\<close> is \<open>ERANGE\<close> already. It returns what it stored to \<open>*result\<close>, whether it succeeded, and
  whether \<open>errno\<close> is \<open>ERANGE\<close> afterwards.
\<close>

definition cfg_get_off_t :: "bool \<Rightarrow> cfg \<Rightarrow> string \<Rightarrow> int option \<times> bool \<times> bool" where
  "cfg_get_off_t erange cfg key =
     (case cfg_getstr cfg key of
        None \<Rightarrow> (None, False, erange)
      | Some v \<Rightarrow>
          (let (result, endptr, e) = strtoull v
           in (Some (sint result), endptr = [] \<and> \<not> (erange \<or> e), erange \<or> e)))"

definition uboot_env_verify_cfg :: "bool \<Rightarrow> cfg \<Rightarrow> unit res" where
  "uboot_env_verify_cfg erange cfg =
     (case cfg_get_off_t erange cfg ''block-offset'' of
        (Some off, True, e) \<Rightarrow>
          (let block_count = to_int32 (cfg_getint cfg ''block-count'') in
           if block_count \<le> 0 \<or> block_count \<ge> 0xFFFF
             then Inl (Msg ''block-count must be specified, greater than 0 and less than 2^16 - 1'')
           else (case cfg_get_off_t e cfg ''block-offset-redund'' of
               (Some redundant_left, True, _) \<Rightarrow>
                 bind_res (int64 (redundant_left + block_count)) (\<lambda>redundant_right.
                   if redundant_left \<ge> off \<or> redundant_right > off then
                     bind_res (int64 (off + block_count)) (\<lambda>right.
                       if (redundant_left \<ge> off \<and> redundant_left < right) \<or>
                          (redundant_right > off \<and> redundant_right < right)
                       then Inl (Msg ''block-offset-redund can't overlap primary U-Boot environment'')
                       else Inr ())
                   else Inr ())
             | _ \<Rightarrow> Inr ()))
      | _ \<Rightarrow> Inl (Msg ''block-offset must be specified''))"

definition uboot_env_block_count :: "bool \<Rightarrow> cfg \<Rightarrow> int" where
  "uboot_env_block_count erange cfg =
     (let block_count = to_int32 (cfg_getint cfg ''block-count'') in
      if fst (snd (cfg_get_off_t erange cfg ''block-offset-redund'')) then block_count * 2 else block_count)"

definition uboot_env_create_cfg :: "bool \<Rightarrow> cfg \<Rightarrow> uboot_env res" where
  "uboot_env_create_cfg erange cfg =
     (let (off, _, e) = cfg_get_off_t erange cfg ''block-offset'';
          count = unat (word_of_int (cfg_getint cfg ''block-count'') :: u64);
          block_offset = (case off of None \<Rightarrow> 0 | Some v \<Rightarrow> v);
          env = \<lparr>env_block_offset = block_offset, env_block_count = count,
                 env_size = count * 512 mod 2 ^ 64, use_redundant = False,
                 redundant_block_offset = block_offset, write_primary = True, write_secondary = False,
                 env_flags = 0, env_vars = []\<rparr>;
          env' = (case cfg_get_off_t e cfg ''block-offset-redund'' of
                    (Some r, True, _) \<Rightarrow>
                      env\<lparr>use_redundant := True, redundant_block_offset := r, write_secondary := True\<rparr>
                  | _ \<Rightarrow> env)
      in if count = 0 \<or> count \<ge> 0xFFFF then Inl (Msg ''invalid u-boot environment block count'')
         else Inr env')"

section \<open>Variables\<close>

fun replace_var :: "string \<Rightarrow> string \<Rightarrow> (string \<times> string) list \<Rightarrow> (string \<times> string) list option" where
  "replace_var name v [] = None"
| "replace_var name v ((n, w) # ps) =
     (if n = name then Some ((n, v) # ps) else map_option (Cons (n, w)) (replace_var name v ps))"

definition uboot_env_setenv :: "string \<Rightarrow> string \<Rightarrow> uboot_env \<Rightarrow> uboot_env" where
  "uboot_env_setenv name v env =
     env\<lparr>env_vars := (case replace_var name v (env_vars env) of
        Some ps \<Rightarrow> ps | None \<Rightarrow> (name, v) # env_vars env)\<rparr>"

fun remove_var :: "string \<Rightarrow> (string \<times> string) list \<Rightarrow> (string \<times> string) list" where
  "remove_var name [] = []"
| "remove_var name ((n, w) # ps) = (if n = name then ps else (n, w) # remove_var name ps)"

definition uboot_env_unsetenv :: "string \<Rightarrow> uboot_env \<Rightarrow> uboot_env" where
  "uboot_env_unsetenv name env = env\<lparr>env_vars := remove_var name (env_vars env)\<rparr>"

definition uboot_env_getenv :: "string \<Rightarrow> uboot_env \<Rightarrow> string res" where
  "uboot_env_getenv name env =
     (case map_of (env_vars env) name of None \<Rightarrow> Inl (Msg ''variable not found'') | Some v \<Rightarrow> Inr v)"

definition uboot_env_free :: "uboot_env \<Rightarrow> uboot_env" where
  "uboot_env_free env = env\<lparr>env_vars := []\<rparr>"

text \<open>
  \<open>qsort\<close> by \<open>strcmp\<close> on the names: strings are ordered lexicographically by their bytes. Names are
  distinct in an environment that \<open>setenv\<close> built (\<open>vars_ok\<close> below); C leaves the order of equal
  names open, here they keep their order.
\<close>

definition uboot_env_sort :: "uboot_env \<Rightarrow> uboot_env" where
  "uboot_env_sort env = env\<lparr>env_vars := sort_key fst (env_vars env)\<rparr>"

section \<open>The stored form\<close>

text \<open>
  \<open>scan_name\<close> is the loop that looks for the equals sign of a name, \<open>scan_value\<close> the one that
  looks for the NUL of a value; both return how far they went, or fail at the end of the area.
  The length given to \<open>strndup\<close> for a value is \<open>value - endvalue\<close>, a negative difference that is
  converted to \<open>size_t\<close>.
\<close>

fun scan_name :: "byte list \<Rightarrow> nat option" where
  "scan_name [] = None"
| "scan_name (c # cs) = (if c = 0 then None else if c = 0x3d then Some 0 else map_option Suc (scan_name cs))"

fun scan_value :: "byte list \<Rightarrow> nat option" where
  "scan_value [] = None"
| "scan_value (c # cs) = (if c = 0 then Some 0 else map_option Suc (scan_value cs))"

function decode_loop :: "byte list \<Rightarrow> (uboot_env, unit) action" where
  "decode_loop name env =
     (case name of
        [] \<Rightarrow> (Inr (), env)
      | c # cs \<Rightarrow>
          if c = 0 then (Inr (), env)
          else (case scan_name cs of
              None \<Rightarrow> (Inl (Msg ''Invalid U-boot environment''), env)
            | Some n \<Rightarrow>
                (let v = drop (Suc n) cs in
                 case scan_value v of
                   None \<Rightarrow> (Inl (Msg ''Invalid U-boot environment''), env)
                 | Some m \<Rightarrow>
                     decode_loop (drop (Suc m) v)
                       (env\<lparr>env_vars := (strndup name (Suc n), strndup v (unat (- of_nat m :: u64))) # env_vars env\<rparr>))))"
  by pat_completeness auto
termination
  by (relation "measure (\<lambda>(name, _). length name)") auto

declare decode_loop.simps [simp del]

definition data_offset :: "uboot_env \<Rightarrow> nat" where
  "data_offset env = (if use_redundant env then 5 else 4)"

definition uboot_env_decode :: "byte list \<Rightarrow> (uboot_env, unit) action" where
  "uboot_env_decode buffer env0 =
     (let env = uboot_env_free env0;
          expected_crc32 = load_le32 (take 4 buffer);
          actual_crc32 = crc32buf (read_at (data_offset env) (env_size env - data_offset env) buffer)
      in if expected_crc32 \<noteq> actual_crc32 then (Inl (Msg ''U-boot environment CRC32 mismatch''), env)
         else decode_loop (drop (data_offset env) (take (env_size env) buffer)) env)"

fun encode_vars :: "nat \<Rightarrow> nat \<Rightarrow> (string \<times> string) list \<Rightarrow> byte list res" where
  "encode_vars p end [] = Inr []"
| "encode_vars p end ((n, v) # ps) =
     (if p + length n + 1 + length v \<ge> end then Inl (Msg ''Not enough room in U-boot environment'')
      else bind_res (encode_vars (p + length n + 1 + length v + 1) end ps)
        (\<lambda>rest. Inr (string_bytes n @ [0x3d] @ string_bytes v @ [0] @ rest)))"

definition env_image :: "uboot_env \<Rightarrow> byte list \<Rightarrow> byte list" where
  "env_image env body =
     (let n = env_size env - data_offset env;
          payload = body @ [0] @ replicate (n - length body - 1) 0xff
      in copy_le32 (crc32buf payload) @ replicate (data_offset env - 4) 0xff @ payload)"

definition uboot_env_encode :: "(uboot_env, byte list) action" where
  "uboot_env_encode env0 =
     (let env = uboot_env_sort env0 in
      (bind_res (encode_vars (data_offset env) (env_size env - 2) (env_vars env))
         (\<lambda>body. Inr (env_image env body)), env))"

section \<open>Reading and writing the device\<close>

text \<open>
  The byte offset \<open>block_offset * FWUP_BLOCK_SIZE\<close> of an area. The model of the cache has addresses
  from zero on; a negative or overflowing product is left undefined.
\<close>

definition byte_offset :: "int \<Rightarrow> nat res" where
  "byte_offset b = (if 0 \<le> b \<and> b * 512 < 2 ^ 63 then Inr (nat (b * 512))
     else Inl (Undefined ''block_offset * FWUP_BLOCK_SIZE''))"

definition env_pread :: "string \<Rightarrow> uboot_env \<Rightarrow> int \<Rightarrow> (block_cache, byte list) action" where
  "env_pread message env b bc =
     (case byte_offset b of
        Inl e \<Rightarrow> (Inl e, bc)
      | Inr off \<Rightarrow> (let (r, bc') = block_cache_pread (env_size env) off bc in (with_msg message r, bc')))"

definition env_pwrite :: "string \<Rightarrow> byte list \<Rightarrow> int \<Rightarrow> (block_cache, unit) action" where
  "env_pwrite message buffer b bc =
     (case byte_offset b of
        Inl e \<Rightarrow> (Inl e, bc)
      | Inr off \<Rightarrow> (let (r, bc') = block_cache_pwrite buffer off False bc in (with_msg message r, bc')))"

definition uboot_env_read_non_redundant :: "(block_cache \<times> uboot_env, unit) action" where
  "uboot_env_read_non_redundant = (\<lambda>(bc, env0).
     (let env = env0\<lparr>write_primary := True, write_secondary := False, env_flags := 0\<rparr> in
      case env_pread ''unexpected error reading uboot environment'' env (env_block_offset env) bc of
        (Inl e, bc') \<Rightarrow> (Inl e, (bc', env))
      | (Inr buffer, bc') \<Rightarrow>
          (let (r, env') = uboot_env_decode buffer env in (r, (bc', env')))))"

text \<open>
  The choice between the two copies: the counters in their fifth byte say which one was written
  last; that one is decoded first, the other one is the fallback, and the copy to be written next
  is the one that was not read (or both, when none was good).
\<close>

definition choose_env :: "byte list \<Rightarrow> byte list \<Rightarrow> (uboot_env, unit) action" where
  "choose_env buffer1 buffer2 env =
     (let flag1 = buffer1 ! 4; flag2 = buffer2 ! 4; delta = flag2 - flag1 in
      if delta = 0 \<or> delta \<ge> 128 then
        (case uboot_env_decode buffer1 env of
           (Inr _, env1) \<Rightarrow> (Inr (), env1\<lparr>env_flags := flag1, write_secondary := True\<rparr>)
         | (Inl _, env1) \<Rightarrow>
             (case uboot_env_decode buffer2 (env1\<lparr>env_flags := flag2, write_primary := True\<rparr>) of
                (Inr _, env2) \<Rightarrow> (Inr (), env2)
              | (Inl e, env2) \<Rightarrow> (Inl e, env2\<lparr>write_secondary := True\<rparr>)))
      else
        (case uboot_env_decode buffer2 env of
           (Inr _, env1) \<Rightarrow> (Inr (), env1\<lparr>env_flags := flag2, write_primary := True\<rparr>)
         | (Inl _, env1) \<Rightarrow>
             (case uboot_env_decode buffer1 (env1\<lparr>env_flags := flag1, write_secondary := True\<rparr>) of
                (Inr _, env2) \<Rightarrow> (Inr (), env2)
              | (Inl e, env2) \<Rightarrow> (Inl e, env2\<lparr>write_primary := True\<rparr>))))"

definition uboot_env_read_redundant :: "(block_cache \<times> uboot_env, unit) action" where
  "uboot_env_read_redundant = (\<lambda>(bc, env0).
     (let env = env0\<lparr>write_primary := False, write_secondary := False, env_flags := 0\<rparr> in
      case env_pread ''unexpected error reading primary uboot environment'' env (env_block_offset env) bc of
        (Inl e, bc1) \<Rightarrow> (Inl e, (bc1, env))
      | (Inr buffer1, bc1) \<Rightarrow>
          (case env_pread ''unexpected error reading redundant uboot environment'' env
                  (redundant_block_offset env) bc1 of
             (Inl e, bc2) \<Rightarrow> (Inl e, (bc2, env))
           | (Inr buffer2, bc2) \<Rightarrow>
               (let (r, env') = choose_env buffer1 buffer2 env in (r, (bc2, env'))))))"

definition uboot_env_read :: "(block_cache \<times> uboot_env, unit) action" where
  "uboot_env_read = (\<lambda>(bc, env).
     if use_redundant env then uboot_env_read_redundant (bc, env)
     else uboot_env_read_non_redundant (bc, env))"

definition uboot_env_write :: "(block_cache \<times> uboot_env, unit) action" where
  "uboot_env_write = (\<lambda>(bc, env0).
     (case uboot_env_encode env0 of
        (Inl e, env) \<Rightarrow> (Inl e, (bc, env))
      | (Inr buffer0, env) \<Rightarrow>
          (let buffer = (if use_redundant env then buffer0[4 := env_flags env + 1] else buffer0);
               (r, bc') = ok_then
                 (\<lambda>bc. if write_primary env then
                      env_pwrite ''unexpected error writing uboot environment'' buffer (env_block_offset env) bc
                    else (Inr (), bc))
                 (\<lambda>_ bc. if write_secondary env then
                      env_pwrite ''unexpected error writing redundant uboot environment'' buffer
                        (redundant_block_offset env) bc
                    else (Inr (), bc)) bc
           in (r, (bc', env)))))"

section \<open>The stored form is read back\<close>

text \<open>
  Names that can be stored: not empty, without NUL, and without an equals sign after their first
  character (the decoder does not look at the first one). Values are without NUL.
\<close>

definition name_ok :: "string \<Rightarrow> bool" where
  "name_ok n = (n \<noteq> [] \<and> CHR 0x00 \<notin> set n \<and> CHR ''='' \<notin> set (tl n))"

definition vars_ok :: "(string \<times> string) list \<Rightarrow> bool" where
  "vars_ok ps = (distinct (map fst ps) \<and> list_all (\<lambda>(n, v). name_ok n \<and> CHR 0x00 \<notin> set v) ps)"

lemma of_char_byte_eq: "(of_char c :: byte) = of_nat k \<longleftrightarrow> c = char_of k" if "k < 256"
proof -
  have "(of_char c :: byte) = of_nat k \<longleftrightarrow> unat (of_char c :: byte) = unat (of_nat k :: byte)"
    by (rule word_unat_eq_iff)
  also have "\<dots> \<longleftrightarrow> (of_char c :: nat) = k" using that by (simp add: unat_of_char unsigned_of_nat take_bit_eq_mod)
  also have "\<dots> \<longleftrightarrow> c = char_of k" using that by (metis char_of_char mod_less of_char_of)
  finally show ?thesis .
qed

lemma of_char_byte_special [simp]:
  "(of_char c :: byte) = 0 \<longleftrightarrow> c = CHR 0x00" "(of_char c :: byte) = 0x3d \<longleftrightarrow> c = CHR ''=''"
proof -
  have "char_of (0 :: nat) = CHR 0x00" "char_of (61 :: nat) = CHR ''=''" by code_simp+
  then show "(of_char c :: byte) = 0 \<longleftrightarrow> c = CHR 0x00" "(of_char c :: byte) = 0x3d \<longleftrightarrow> c = CHR ''=''"
    using of_char_byte_eq [of 0 c] of_char_byte_eq [of 61 c] by simp_all
qed

lemma scan_name_stored:
  "CHR 0x00 \<notin> set n \<Longrightarrow> CHR ''='' \<notin> set n \<Longrightarrow> scan_name (string_bytes n @ 0x3d # r) = Some (length n)"
  by (induction n) (auto simp: string_bytes_def)

lemma scan_value_stored: "CHR 0x00 \<notin> set v \<Longrightarrow> scan_value (string_bytes v @ 0 # r) = Some (length v)"
  by (induction v) (auto simp: string_bytes_def)

lemma takeWhile_stored:
  "CHR 0x00 \<notin> set v \<Longrightarrow> takeWhile (\<lambda>b. b \<noteq> 0) (string_bytes v @ b # r) =
     string_bytes v @ takeWhile (\<lambda>b. b \<noteq> 0) (b # r)"
  by (induction v) (auto simp: string_bytes_def)

lemma unat_negative_length:
  assumes "m < 2 ^ 63"
  shows "m \<le> unat (- of_nat m :: u64)"
proof (cases "m = 0")
  case False
  have "(of_nat (2 ^ 64 - m) :: u64) = of_nat (2 ^ 64) - of_nat m" using assms by (intro of_nat_diff) simp
  also have "(of_nat (2 ^ 64) :: u64) = 0" by simp
  finally have "(- of_nat m :: u64) = of_nat (2 ^ 64 - m)" by simp
  then have "unat (- of_nat m :: u64) = (2 ^ 64 - m) mod 2 ^ 64"
    by (simp only: unsigned_of_nat take_bit_eq_mod) simp
  then show ?thesis using assms False by simp
qed simp

lemma strndup_value:
  assumes "CHR 0x00 \<notin> set v" and "length v < 2 ^ 63"
  shows "strndup (string_bytes v @ 0 # r) (unat (- of_nat (length v) :: u64)) = v"
  using unat_negative_length [OF assms(2)] assms(1) by (simp add: strndup_def takeWhile_stored)

lemma strndup_name:
  assumes "CHR 0x00 \<notin> set n"
  shows "strndup (string_bytes n @ 0x3d # r) (length n) = n"
  using assms by (simp add: strndup_def takeWhile_stored)

lemma decode_loop_pair:
  assumes "name_ok n" and "CHR 0x00 \<notin> set v" and "length v < 2 ^ 63"
  shows "decode_loop (string_bytes n @ [0x3d] @ string_bytes v @ [0] @ r) env =
    decode_loop r (env\<lparr>env_vars := (n, v) # env_vars env\<rparr>)"
proof -
  obtain c cs where n: "n = c # cs" using assms(1) by (cases n) (auto simp: name_ok_def)
  then have c: "of_char c \<noteq> (0 :: byte)" and cs: "CHR 0x00 \<notin> set cs" "CHR ''='' \<notin> set cs" "CHR 0x00 \<notin> set n"
    using assms(1) by (auto simp: name_ok_def)
  let ?v = "string_bytes v @ 0 # r"
  have s: "string_bytes n @ [0x3d] @ string_bytes v @ [0] @ r = of_char c # string_bytes cs @ 0x3d # ?v"
    by (simp add: n string_bytes_def)
  have d: "drop (Suc (length cs)) (string_bytes cs @ 0x3d # ?v) = ?v" by simp
  have dv: "drop (Suc (length v)) ?v = r" by simp
  have nm: "strndup (of_char c # string_bytes cs @ 0x3d # ?v) (Suc (length cs)) = n"
    using strndup_name [OF cs(3), of ?v] by (simp add: n string_bytes_def)
  show ?thesis unfolding s
    by (subst decode_loop.simps)
       (simp only: list.case c if_False scan_name_stored [OF cs(1,2)] option.case d Let_def
         scan_value_stored [OF assms(2)] nm strndup_value [OF assms(2,3)] dv)
qed

lemma decode_encode_vars:
  assumes "encode_vars p e ps = Inr body" and "list_all (\<lambda>(n, v). name_ok n \<and> CHR 0x00 \<notin> set v) ps"
    and "e \<le> 2 ^ 63"
  shows "decode_loop (body @ 0 # r) env = (Inr (), env\<lparr>env_vars := rev ps @ env_vars env\<rparr>)"
  using assms
proof (induction ps arbitrary: p body env)
  case Nil
  then show ?case by (subst decode_loop.simps) simp
next
  case (Cons x ps)
  obtain n v where x: "x = (n, v)" by (cases x)
  obtain rest where fit: "p + length n + 1 + length v < e"
    and rest: "encode_vars (p + length n + 1 + length v + 1) e ps = Inr rest"
    and body: "body = string_bytes n @ [0x3d] @ string_bytes v @ [0] @ rest"
    using Cons.prems(1) by (auto simp: x res_simps split: if_splits)
  have ok: "name_ok n" "CHR 0x00 \<notin> set v" "length v < 2 ^ 63"
    using Cons.prems(2,3) fit by (simp_all add: x)
  have "decode_loop (body @ 0 # r) env = decode_loop (rest @ 0 # r) (env\<lparr>env_vars := (n, v) # env_vars env\<rparr>)"
    using decode_loop_pair [OF ok, of "rest @ 0 # r" env] by (simp add: body)
  also have "\<dots> = (Inr (), env\<lparr>env_vars := rev ps @ (n, v) # env_vars env\<rparr>)"
    using Cons.IH [OF rest _ Cons.prems(3)] Cons.prems(2) by simp
  finally show ?case by (simp add: x)
qed

lemma encode_vars_length:
  assumes "encode_vars p e ps = Inr body" and "p \<le> e"
  shows "p + length body \<le> e"
  using assms
  by (induction p e ps arbitrary: body rule: encode_vars.induct) (fastforce simp: res_simps split: if_splits)+

lemma env_image_props:
  assumes "length body + data_offset env + 2 \<le> env_size env"
  shows "length (env_image env body) = env_size env"
    and "take 4 (env_image env body) = copy_le32 (crc32buf (drop (data_offset env) (env_image env body)))"
    and "\<exists>r. drop (data_offset env) (env_image env body) = body @ 0 # r"
proof -
  have o: "4 \<le> data_offset env" "length (copy_le32 c @ replicate (data_offset env - 4) (0xff :: byte)) = data_offset env" for c
    by (auto simp: data_offset_def)
  show "length (env_image env body) = env_size env" using assms o by (simp add: env_image_def Let_def)
  show "take 4 (env_image env body) = copy_le32 (crc32buf (drop (data_offset env) (env_image env body)))"
    using o by (simp add: env_image_def Let_def)
  show "\<exists>r. drop (data_offset env) (env_image env body) = body @ 0 # r"
    using o by (simp add: env_image_def Let_def)
qed

lemma uboot_env_decode_image:
  assumes "length buf = env_size env" and "take 4 buf = copy_le32 (crc32buf (drop (data_offset env) buf))"
  shows "uboot_env_decode buf env = decode_loop (drop (data_offset env) buf) (uboot_env_free env)"
  using assms by (simp add: uboot_env_decode_def read_at_def uboot_env_free_def data_offset_def Let_def)

lemma map_of_permuted:
  assumes "distinct (map fst xs)" and "distinct (map fst ys)" and "set xs = set ys"
  shows "map_of xs = map_of ys"
  using assms by (metis map_of_inject_set)

lemma vars_ok_sort:
  assumes "vars_ok ps"
  shows "vars_ok (sort_key fst ps)" "vars_ok (rev (sort_key fst ps))" "map_of (rev (sort_key fst ps)) = map_of ps"
proof -
  have d: "distinct (map fst (sort_key fst ps))"
    using assms by (simp add: vars_ok_def distinct_map)
  then show "vars_ok (sort_key fst ps)" "vars_ok (rev (sort_key fst ps))"
    using assms by (auto simp: vars_ok_def list_all_iff rev_map [symmetric])
  then show "map_of (rev (sort_key fst ps)) = map_of ps"
    using assms by (intro map_of_permuted) (auto simp: vars_ok_def)
qed

lemma encode_fits:
  assumes "uboot_env_encode env = (Inr buf, env1)" and "7 \<le> env_size env"
  obtains body where "env1 = uboot_env_sort env" and "buf = env_image env1 body"
    and "encode_vars (data_offset env1) (env_size env1 - 2) (env_vars env1) = Inr body"
    and "length body + data_offset env1 + 2 \<le> env_size env1"
proof -
  have s: "data_offset (uboot_env_sort env) = data_offset env" "env_size (uboot_env_sort env) = env_size env"
    by (simp_all add: uboot_env_sort_def data_offset_def)
  obtain body where b: "env1 = uboot_env_sort env" "buf = env_image env1 body"
    "encode_vars (data_offset env1) (env_size env1 - 2) (env_vars env1) = Inr body"
    using assms(1) by (auto simp: uboot_env_encode_def Let_def res_simps)
  have "data_offset env1 \<le> 5" by (simp add: data_offset_def)
  then have "data_offset env1 \<le> env_size env1 - 2" using assms(2) s(2) unfolding b(1) by linarith
  then have "length body + data_offset env1 + 2 \<le> env_size env1"
    using encode_vars_length [OF b(3)] assms(2) s(2) unfolding b(1) by linarith
  then show thesis using that b by blast
qed

lemma decode_encoded:
  assumes "uboot_env_encode env = (Inr buf, env1)" and "vars_ok (env_vars env)"
    and "7 \<le> env_size env" and "env_size env \<le> 2 ^ 63"
    and "buf' = (if use_redundant env then buf[4 := counter] else buf)"
    and "use_redundant e = use_redundant env" and "env_size e = env_size env"
  shows "length buf' = env_size env \<and>
    uboot_env_decode buf' e = (Inr (), e\<lparr>env_vars := rev (sort_key fst (env_vars env))\<rparr>)"
proof -
  obtain body where b: "env1 = uboot_env_sort env" "buf = env_image env1 body"
    "encode_vars (data_offset env1) (env_size env1 - 2) (env_vars env1) = Inr body"
    "length body + data_offset env1 + 2 \<le> env_size env1"
    using encode_fits [OF assms(1,3)] .
  have f: "env_size env1 = env_size env" "use_redundant env1 = use_redundant env"
    "env_vars env1 = sort_key fst (env_vars env)" by (simp_all add: b(1) uboot_env_sort_def)
  have do: "data_offset e = data_offset env1" by (simp add: data_offset_def f assms(6))
  note img = env_image_props [OF b(4), folded b(2)]
  obtain r where r: "drop (data_offset env1) buf = body @ 0 # r" using img(3) by blast
  have d: "drop (data_offset env1) buf' = drop (data_offset env1) buf" "take 4 buf' = take 4 buf"
    by (simp_all add: assms(5) data_offset_def f)
  have l: "length buf' = env_size e" using img(1) by (simp add: assms(5,7) f)
  have ok: "list_all (\<lambda>(n, v). name_ok n \<and> CHR 0x00 \<notin> set v) (env_vars env1)"
    using vars_ok_sort(1) [OF assms(2)] by (simp add: f vars_ok_def)
  have "uboot_env_decode buf' e = decode_loop (body @ 0 # r) (uboot_env_free e)"
    using uboot_env_decode_image [OF l] img(2) d r do by simp
  also have "\<dots> = (Inr (), e\<lparr>env_vars := rev (env_vars env1)\<rparr>)"
    using decode_encode_vars [OF b(3) ok] assms(4) by (simp add: uboot_env_free_def f)
  finally show ?thesis using l assms(7) by (simp add: f)
qed

text \<open>
  C25: decoding the area that \<open>uboot_env_encode\<close> produces succeeds and gives the variables back,
  in reverse order and so as the same mapping from names to values; the area has the size of the
  environment, and the counter byte of a redundant environment is outside of the checksum.
\<close>

theorem uboot_env_roundtrip:
  assumes "uboot_env_encode env = (Inr buf, env1)" and "vars_ok (env_vars env)"
    and "7 \<le> env_size env" and "env_size env \<le> 2 ^ 63"
    and "buf' = (if use_redundant env then buf[4 := counter] else buf)"
  shows "length buf' = env_size env \<and>
    (\<exists>env2. uboot_env_decode buf' env1 = (Inr (), env2) \<and> env2 = env1\<lparr>env_vars := rev (env_vars env1)\<rparr> \<and>
       map_of (env_vars env2) = map_of (env_vars env))"
proof -
  have e: "env1 = uboot_env_sort env" using encode_fits [OF assms(1,3)] by blast
  then have "use_redundant env1 = use_redundant env" "env_size env1 = env_size env"
    "env_vars env1 = sort_key fst (env_vars env)" by (simp_all add: uboot_env_sort_def)
  with decode_encoded [OF assms, of env1] show ?thesis using vars_ok_sort(3) [OF assms(2)] by simp
qed

section \<open>The variables are a dictionary\<close>

lemma replace_var_cases:
  "replace_var n v ps = None \<longleftrightarrow> map_of ps n = None"
  "replace_var n v ps = Some qs \<Longrightarrow> map_of qs = (map_of ps)(n \<mapsto> v) \<and> map fst qs = map fst ps \<and> set qs \<subseteq> insert (n, v) (set ps)"
  by (induction n v ps arbitrary: qs rule: replace_var.induct) (auto split: if_splits)

lemma remove_var_set: "set (remove_var n ps) \<subseteq> set ps"
  by (induction n ps rule: remove_var.induct) auto

lemma remove_var_distinct:
  "distinct (map fst ps) \<Longrightarrow> distinct (map fst (remove_var n ps)) \<and> map_of (remove_var n ps) = (map_of ps)(n := None)"
proof (induction n ps rule: remove_var.induct)
  case (2 name n w ps)
  have "n \<notin> fst ` set (remove_var name ps)" using 2(2) remove_var_set [of name ps] by auto
  moreover have "map_of ps n = None" using 2(2) by (simp add: map_of_eq_None_iff)
  ultimately show ?case using 2 by (auto simp: fun_upd_twist)
qed auto

lemma setenv_ok:
  assumes "vars_ok (env_vars env)" and "name_ok k" and "CHR 0x00 \<notin> set v"
  shows "vars_ok (env_vars (uboot_env_setenv k v env))"
proof (cases "replace_var k v (env_vars env)")
  case None
  then have "k \<notin> fst ` set (env_vars env)" by (simp add: replace_var_cases(1) map_of_eq_None_iff)
  then show ?thesis using assms None by (simp add: uboot_env_setenv_def vars_ok_def)
next
  case (Some qs)
  then show ?thesis using assms replace_var_cases(2) [OF Some]
    by (fastforce simp: uboot_env_setenv_def vars_ok_def list_all_iff)
qed

lemma setenv_lookup: "map_of (env_vars (uboot_env_setenv k v env)) = (map_of (env_vars env))(k \<mapsto> v)"
  using replace_var_cases(2) [of k v "env_vars env"] by (auto simp: uboot_env_setenv_def split: option.split)

interpretation uenv: dictionary "\<lambda>env. vars_ok (env_vars env)" "\<lambda>k v. name_ok k \<and> CHR 0x00 \<notin> set v"
  "\<lambda>env. map_of (env_vars env)" uboot_env_setenv uboot_env_unsetenv
proof
  fix s :: uboot_env and k v
  assume ok: "vars_ok (env_vars s)"
  show "map_of (env_vars (uboot_env_setenv k v s)) = (map_of (env_vars s))(k \<mapsto> v)"
    by (rule setenv_lookup)
  show "map_of (env_vars (uboot_env_unsetenv k s)) = (map_of (env_vars s))(k := None)"
    using ok remove_var_distinct by (simp add: uboot_env_unsetenv_def vars_ok_def)
  show "vars_ok (env_vars (uboot_env_unsetenv k s))"
    using ok remove_var_distinct [of "env_vars s" k] remove_var_set [of k "env_vars s"]
    by (auto simp: uboot_env_unsetenv_def vars_ok_def list_all_iff)
  show "vars_ok (env_vars (uboot_env_setenv k v s))" if "name_ok k \<and> CHR 0x00 \<notin> set v"
    using ok that setenv_ok by blast
qed

text \<open>
  After any sequence of \<open>setenv\<close> and \<open>unsetenv\<close> calls, \<open>getenv\<close> returns what the same edits of
  a mathematical map give, and the names are still distinct and can be stored.
\<close>

theorem uboot_env_edits:
  assumes "vars_ok (env_vars env)"
    and "list_all (edit_ok (\<lambda>k v. name_ok k \<and> CHR 0x00 \<notin> set v)) es"
    and "env' = fold (run_edit uboot_env_setenv uboot_env_unsetenv) es env"
  shows "vars_ok (env_vars env') \<and>
    uboot_env_getenv k env' =
      (case fold edit_map es (map_of (env_vars env)) k of
         None \<Rightarrow> Inl (Msg ''variable not found'') | Some v \<Rightarrow> Inr v)"
  using uenv.edits_law [OF assms(1,2)] by (simp add: assms(3) uboot_env_getenv_def)

section \<open>The redundant environment\<close>

lemma decode_loop_frame: "(snd (decode_loop name env))\<lparr>env_vars := []\<rparr> = env\<lparr>env_vars := []\<rparr>"
proof (induction name env rule: decode_loop.induct)
  case (1 name env)
  show ?case
  proof (cases name)
    case Nil
    then show ?thesis by (simp add: decode_loop.simps)
  next
    case (Cons c cs)
    show ?thesis
    proof (cases "c = 0 \<or> scan_name cs = None")
      case True
      then show ?thesis by (auto simp: Cons decode_loop.simps [of "c # cs"])
    next
      case False
      then obtain n where c: "c \<noteq> 0" and n: "scan_name cs = Some n" by auto
      let ?v = "drop (Suc n) cs"
      show ?thesis
      proof (cases "scan_value ?v")
        case None
        then show ?thesis by (simp add: Cons decode_loop.simps [of "c # cs"] c n)
      next
        case (Some m)
        then show ?thesis using "1.IH" [OF Cons c n refl Some]
          by (simp add: Cons decode_loop.simps [of "c # cs"] c n Let_def del: drop_drop)
      qed
    qed
  qed
qed

lemma decode_frame:
  assumes "uboot_env_decode buf env = (r, env')"
  shows "env'\<lparr>env_vars := []\<rparr> = env\<lparr>env_vars := []\<rparr>"
proof -
  have "(snd (uboot_env_decode buf env))\<lparr>env_vars := []\<rparr> = env\<lparr>env_vars := []\<rparr>"
    using decode_loop_frame by (simp add: uboot_env_decode_def uboot_env_free_def Let_def)
  then show ?thesis by (simp add: assms)
qed

lemma decode_frame_sel:
  assumes "uboot_env_decode buf env = (r, env')"
  shows "env_block_offset env' = env_block_offset env" "env_size env' = env_size env"
    "use_redundant env' = use_redundant env" "redundant_block_offset env' = redundant_block_offset env"
    "write_primary env' = write_primary env" "write_secondary env' = write_secondary env" "env_flags env' = env_flags env"
  using decode_frame [OF assms] by (cases env; cases env'; simp)+

definition same_place :: "uboot_env \<Rightarrow> uboot_env \<Rightarrow> bool" where
  "same_place e f = (env_block_offset f = env_block_offset e \<and> env_size f = env_size e \<and>
     use_redundant f = use_redundant e \<and> redundant_block_offset f = redundant_block_offset e)"

lemma same_place_upd [simp]:
  "same_place e (f\<lparr>env_vars := vs\<rparr>) = same_place e f" "same_place e (f\<lparr>env_flags := fl\<rparr>) = same_place e f"
  "same_place e (f\<lparr>write_primary := b\<rparr>) = same_place e f" "same_place e (f\<lparr>write_secondary := b\<rparr>) = same_place e f"
  by (simp_all add: same_place_def)

lemma choose_env_ok:
  assumes "choose_env b1 b2 env = (Inr (), env1)" and "\<not> write_primary env" and "\<not> write_secondary env"
  shows "same_place env env1 \<and> write_primary env1 \<noteq> write_secondary env1 \<and>
    env_flags env1 = (if write_secondary env1 then b1 ! 4 else b2 ! 4)"
proof -
  obtain r1 e1 where d1: "uboot_env_decode b1 env = (r1, e1)" by fastforce
  obtain r2 e2 where d2: "uboot_env_decode b2 env = (r2, e2)" by fastforce
  obtain r3 e3 where d3: "uboot_env_decode b2 (e1\<lparr>env_flags := b2 ! 4, write_primary := True\<rparr>) = (r3, e3)" by fastforce
  obtain r4 e4 where d4: "uboot_env_decode b1 (e2\<lparr>env_flags := b1 ! 4, write_secondary := True\<rparr>) = (r4, e4)" by fastforce
  note f = decode_frame_sel [OF d1] decode_frame_sel [OF d2] decode_frame_sel [OF d3] decode_frame_sel [OF d4]
  show ?thesis using assms f
    by (auto simp: choose_env_def Let_def d1 d2 d3 d4 same_place_def split: if_splits sum.splits)
qed

text \<open>
  Where the two copies lie: \<open>n\<close> bytes from \<open>o1\<close> and from \<open>o2\<close> on, whole blocks that do not overlap
  and are inside of the medium.
\<close>

definition env_areas :: "block_cache \<Rightarrow> uboot_env \<Rightarrow> nat \<Rightarrow> nat \<Rightarrow> nat \<Rightarrow> bool" where
  "env_areas bc env n o1 o2 = (use_redundant env \<and> n = env_size env \<and> 7 \<le> n \<and> n \<le> 2 ^ 63 \<and>
     byte_offset (env_block_offset env) = Inr o1 \<and> byte_offset (redundant_block_offset env) = Inr o2 \<and>
     512 dvd n \<and> 512 dvd o1 \<and> 512 dvd o2 \<and> (o1 + n \<le> o2 \<or> o2 + n \<le> o1) \<and>
     list_all (in_range bc) [o1..<o1 + n] \<and> list_all (in_range bc) [o2..<o2 + n])"

lemma areas_in_range:
  assumes "env_areas bc env n o1 o2"
  shows "\<forall>a. o1 \<le> a \<and> a < o1 + n \<longrightarrow> in_range bc a" "\<forall>a. o2 \<le> a \<and> a < o2 + n \<longrightarrow> in_range bc a"
  using assms by (simp_all add: env_areas_def list_all_iff)

lemma read_redundant_inv:
  assumes "uboot_env_read (bc, env) = (Inr (), (bc1, env1))" and "env_areas bc env n o1 o2"
  obtains b1 c1 b2 where "block_cache_pread n o1 bc = (Inr b1, c1)" and "block_cache_pread n o2 c1 = (Inr b2, bc1)"
    and "choose_env b1 b2 (env\<lparr>write_primary := False, write_secondary := False, env_flags := 0\<rparr>) = (Inr (), env1)"
  using assms
  by (auto simp: uboot_env_read_def uboot_env_read_redundant_def env_areas_def env_pread_def Let_def
      split: prod.splits sum.splits)

lemma read_redundant_intro:
  assumes "env_areas bc env n o1 o2" and "block_cache_pread n o1 bc2 = (Inr b1, c)" and "block_cache_pread n o2 c = (Inr b2, d)"
    and "choose_env b1 b2 (env\<lparr>write_primary := False, write_secondary := False, env_flags := 0\<rparr>) = (Inr (), env1)"
  shows "uboot_env_read (bc2, env) = (Inr (), (d, env1))"
  using assms
  by (simp add: uboot_env_read_def uboot_env_read_redundant_def env_areas_def env_pread_def Let_def)

text \<open>What one write of a redundant environment that was read before does to the two copies.\<close>

lemma write_redundant_inv:
  assumes "uboot_env_write (bc, env) = (Inr (), (bc2, env2))" and "env_areas bc0 env n o1 o2"
    and "write_primary env \<noteq> write_secondary env"
  obtains buf where "uboot_env_encode env = (Inr buf, env2)"
    and "block_cache_pwrite (buf[4 := env_flags env + 1]) (if write_primary env then o1 else o2) False bc = (Inr (), bc2)"
    and "env2 = uboot_env_sort env"
proof -
  obtain buf where e: "uboot_env_encode env = (Inr buf, uboot_env_sort env)" "env2 = uboot_env_sort env"
    using assms(1) by (auto simp: uboot_env_write_def uboot_env_encode_def Let_def split: prod.splits sum.splits)
  have f: "use_redundant (uboot_env_sort env)" "write_primary (uboot_env_sort env) = write_primary env"
    "write_secondary (uboot_env_sort env) = write_secondary env" "env_flags (uboot_env_sort env) = env_flags env"
    "byte_offset (env_block_offset (uboot_env_sort env)) = Inr o1"
    "byte_offset (redundant_block_offset (uboot_env_sort env)) = Inr o2"
    using assms(2) by (simp_all add: uboot_env_sort_def env_areas_def)
  have "block_cache_pwrite (buf[4 := env_flags env + 1]) (if write_primary env then o1 else o2) False bc = (Inr (), bc2)"
    using assms(1,3) by (cases "write_primary env")
      (auto simp: uboot_env_write_def e f ok_then_def env_pwrite_def Let_def split: prod.splits sum.splits)
  then show thesis using that e by blast
qed

lemma counter_delta: "c - (c + 1) = (- 1 :: byte)" "(c + 1) - c = (1 :: byte)" "(- 1 :: byte) \<ge> 128" "\<not> (1 :: byte) \<ge> 128"
proof -
  show "\<not> (1 :: byte) \<ge> 128" by (simp add: word_le_nat_alt)
qed simp_all

lemma redundant_written:
  assumes "uboot_env_read (bc, env) = (Inr (), (bc1, env1))"
    and "uboot_env_write (bc1, env1\<lparr>env_vars := vs\<rparr>) = (Inr (), (bc2, env2))"
    and "env_areas bc env n o1 o2" and "cache_ok bc" and "vars_ok vs"
  shows "\<exists>buf old. length buf = n \<and> length old = n \<and> buf ! 4 = env_flags env1 + 1 \<and> old ! 4 = env_flags env1 \<and>
    (\<forall>e. use_redundant e \<and> env_size e = n \<longrightarrow>
          uboot_env_decode buf e = (Inr (), e\<lparr>env_vars := rev (sort_key fst vs)\<rparr>)) \<and>
    write_primary env1 \<noteq> write_secondary env1 \<and> cache_ok bc2 \<and> in_range bc2 = in_range bc \<and>
    map (view bc2) [o1..<o1 + n] = (if write_primary env1 then buf else old) \<and>
    map (view bc2) [o2..<o2 + n] = (if write_primary env1 then old else buf) \<and>
    (\<forall>a. in_range bc a \<and> (if write_primary env1 then a < o1 \<or> o1 + n \<le> a else a < o2 \<or> o2 + n \<le> a) \<longrightarrow>
          view bc2 a = view bc a) \<and>
    env2 = env1\<lparr>env_vars := sort_key fst vs\<rparr> \<and> same_place env env1"
proof -
  note ir = areas_in_range [OF assms(3)]
  obtain b1 c1 b2 where p: "block_cache_pread n o1 bc = (Inr b1, c1)" "block_cache_pread n o2 c1 = (Inr b2, bc1)"
    and ch: "choose_env b1 b2 (env\<lparr>write_primary := False, write_secondary := False, env_flags := 0\<rparr>) = (Inr (), env1)"
    using read_redundant_inv [OF assms(1,3)] .
  have k: "same_place env env1" "write_primary env1 \<noteq> write_secondary env1"
    "env_flags env1 = (if write_secondary env1 then b1 ! 4 else b2 ! 4)"
    using choose_env_ok [OF ch] by (simp_all add: same_place_def)
  note r1 = cache.rd_law [OF p(1) assms(4) ir(1)]
  have ir2: "\<forall>a. o2 \<le> a \<and> a < o2 + n \<longrightarrow> in_range c1 a" using ir(2) r1 by simp
  note r2 = cache.rd_law [OF p(2) conjunct1 [OF r1] ir2]
  have b1: "b1 = map (view bc) [o1..<o1 + n]" using r1 by blast
  have b2: "b2 = map (view bc) [o2..<o2 + n]" using r1 r2 ir(2) by simp
  have bc1: "cache_ok bc1" "in_range bc1 = in_range bc" "\<And>a. in_range bc a \<Longrightarrow> view bc1 a = view bc a"
    using r1 r2 by simp_all
  have ar: "env_areas bc (env1\<lparr>env_vars := vs\<rparr>) n o1 o2"
    using assms(3) k(1) by (auto simp: env_areas_def same_place_def)
  have wk: "write_primary (env1\<lparr>env_vars := vs\<rparr>) \<noteq> write_secondary (env1\<lparr>env_vars := vs\<rparr>)" using k(2) by simp
  obtain buf0 where e: "uboot_env_encode (env1\<lparr>env_vars := vs\<rparr>) = (Inr buf0, env2)"
    and w: "block_cache_pwrite (buf0[4 := env_flags env1 + 1]) (if write_primary env1 then o1 else o2) False bc1 = (Inr (), bc2)"
    and e2: "env2 = env1\<lparr>env_vars := sort_key fst vs\<rparr>"
    by (rule write_redundant_inv [OF assms(2) ar wk]) (simp add: uboot_env_sort_def)
  define buf where "buf = buf0[4 := env_flags env1 + 1]"
  have sz: "7 \<le> n" "n \<le> 2 ^ 63" "512 dvd n" "512 dvd o1" "512 dvd o2" "o1 + n \<le> o2 \<or> o2 + n \<le> o1"
    and n: "env_size env1 = n" "use_redundant env1"
    using assms(3) ar by (auto simp: env_areas_def)
  have dec: "length buf = n \<and> uboot_env_decode buf e = (Inr (), e\<lparr>env_vars := rev (sort_key fst vs)\<rparr>)"
    if "use_redundant e" "env_size e = n" for e
    using decode_encoded [OF e _ _ _ refl, of e "env_flags env1 + 1"] assms(5) sz n that by (simp add: buf_def)
  have l: "length buf = n" using dec [of env1] n by simp
  have "512 dvd (if write_primary env1 then o1 else o2)" using sz by simp
  moreover have "512 dvd length (buf0[4 := env_flags env1 + 1])" using l sz by (simp add: buf_def)
  ultimately have wl: "cache_ok bc2 \<and> in_range bc2 = in_range bc1 \<and>
      (\<forall>a. in_range bc1 a \<longrightarrow> view bc2 a = store_bytes buf (if write_primary env1 then o1 else o2) (view bc1) a)"
    unfolding buf_def by (rule cache.wr_law [OF w bc1(1)])
  have v: "view bc2 a = store_bytes buf (if write_primary env1 then o1 else o2) (view bc) a" if "in_range bc a" for a
    using wl that bc1 by (simp add: store_bytes_def)
  have new: "map (view bc2) [x..<x + n] = buf" if "x = (if write_primary env1 then o1 else o2)" for x
  proof -
    have "map (view bc2) [x..<x + n] = map (store_bytes buf x (view bc)) [x..<x + length buf]"
      using v ir that l by (auto split: if_splits)
    then show ?thesis by (simp add: map_store_bytes_same)
  qed
  have old: "map (view bc2) [x..<x + n] = map (view bc) [x..<x + n]" if "x = (if write_primary env1 then o2 else o1)" for x
    using v ir that l sz(6) by (auto simp: store_bytes_other split: if_splits)
  have m: "map (view bc2) [o1..<o1 + n] = (if write_primary env1 then buf else if write_primary env1 then b2 else b1)"
    "map (view bc2) [o2..<o2 + n] = (if write_primary env1 then if write_primary env1 then b2 else b1 else buf)"
    using new [of o1] old [of o1] new [of o2] old [of o2] b1 b2 by auto
  have keep: "\<forall>a. in_range bc a \<and> (if write_primary env1 then a < o1 \<or> o1 + n \<le> a else a < o2 \<or> o2 + n \<le> a) \<longrightarrow>
      view bc2 a = view bc a"
    using v l by (auto simp: store_bytes_other split: if_splits)
  have "buf ! 4 = env_flags env1 + 1" using l sz by (simp add: buf_def)
  moreover have "(if write_primary env1 then b2 else b1) ! 4 = env_flags env1" using k by auto
  moreover have "length (if write_primary env1 then b2 else b1) = n" by (simp add: b1 b2)
  moreover have "cache_ok bc2" "in_range bc2 = in_range bc" using wl bc1(2) by simp_all
  ultimately show ?thesis using l dec k(1,2) e2 m keep
    by (intro exI [of _ buf] exI [of _ "if write_primary env1 then b2 else b1"] conjI) blast+
qed

lemma choose_new:
  assumes "buf ! 4 = c + 1" and "old ! 4 = c" and "\<not> write_primary e" and "\<not> write_secondary e"
    and "uboot_env_decode buf e = (Inr (), e\<lparr>env_vars := vs\<rparr>)"
  shows "\<exists>e'. choose_env (if first then buf else old) (if first then old else buf) e = (Inr (), e') \<and>
    env_vars e' = vs \<and> env_flags e' = c + 1 \<and> write_primary e' = (\<not> first) \<and> write_secondary e' = first"
  using assms counter_delta by (cases first) (simp_all add: choose_env_def Let_def)

text \<open>
  C24: when the variables of a redundant environment that was read are written back and read again,
  the read finds the new variables, under the next counter value and also when the counter wraps
  around, and the next write goes to the other copy.
\<close>

theorem uboot_env_update_redundant:
  assumes "uboot_env_read (bc, env) = (Inr (), (bc1, env1))"
    and "uboot_env_write (bc1, env1\<lparr>env_vars := vs\<rparr>) = (Inr (), (bc2, env2))"
    and "block_cache_pread n o1 bc2 = (Inr b1, bc3)" and "block_cache_pread n o2 bc3 = (Inr b2, bc4)"
    and "env_areas bc env n o1 o2" and "cache_ok bc" and "vars_ok vs"
  shows "\<exists>env3. uboot_env_read (bc2, env2) = (Inr (), (bc4, env3)) \<and> map_of (env_vars env3) = map_of vs \<and>
    env_flags env3 = env_flags env1 + 1 \<and> write_primary env3 = (\<not> write_primary env1)"
proof -
  obtain buf old where w: "buf ! 4 = env_flags env1 + 1" "old ! 4 = env_flags env1"
    and dec: "\<forall>e. use_redundant e \<and> env_size e = n \<longrightarrow>
          uboot_env_decode buf e = (Inr (), e\<lparr>env_vars := rev (sort_key fst vs)\<rparr>)"
    and k: "write_primary env1 \<noteq> write_secondary env1" and bc2: "cache_ok bc2" "in_range bc2 = in_range bc"
    and m: "map (view bc2) [o1..<o1 + n] = (if write_primary env1 then buf else old)"
      "map (view bc2) [o2..<o2 + n] = (if write_primary env1 then old else buf)"
    and keep: "\<forall>a. in_range bc a \<and> (if write_primary env1 then a < o1 \<or> o1 + n \<le> a else a < o2 \<or> o2 + n \<le> a) \<longrightarrow>
          view bc2 a = view bc a"
    and e2: "env2 = env1\<lparr>env_vars := sort_key fst vs\<rparr>" and pl: "same_place env env1"
    using redundant_written [OF assms(1,2,5-7)] by blast
  have ar: "env_areas bc2 env2 n o1 o2" using assms(5) e2 pl bc2(2) by (auto simp: env_areas_def same_place_def)
  note ir = areas_in_range [OF ar]
  note r1 = cache.rd_law [OF assms(3) bc2(1) ir(1)]
  have "\<forall>a. o2 \<le> a \<and> a < o2 + n \<longrightarrow> in_range bc3 a" using ir(2) r1 by simp
  note r2 = cache.rd_law [OF assms(4) conjunct1 [OF r1] this]
  have b: "b1 = (if write_primary env1 then buf else old)" "b2 = (if write_primary env1 then old else buf)"
    using r1 r2 m ir(2) by auto
  define e where "e = env2\<lparr>write_primary := False, write_secondary := False, env_flags := 0\<rparr>"
  have "use_redundant e" "env_size e = n" using ar by (simp_all add: e_def env_areas_def)
  then obtain e3 where e3: "choose_env b1 b2 e = (Inr (), e3)" "env_vars e3 = rev (sort_key fst vs)"
      "env_flags e3 = env_flags env1 + 1" "write_primary e3 = (\<not> write_primary env1)"
    using choose_new [OF w _ _ dec [rule_format], of e "write_primary env1"] b by (auto simp: e_def)
  then show ?thesis
    using read_redundant_intro [OF ar assms(3,4)] vars_ok_sort(3) [OF assms(7)] by (auto simp: e_def)
qed

text \<open>
  Writing a redundant environment that was read touches one of the two copies only: the area
  that holds the variables read, and everything else on the device, is unchanged, so that an
  interrupted write leaves a good copy.
\<close>

theorem uboot_env_write_keeps_copy:
  assumes "uboot_env_read (bc, env) = (Inr (), (bc1, env1))"
    and "uboot_env_write (bc1, env1\<lparr>env_vars := vs\<rparr>) = (Inr (), (bc2, env2))"
    and "env_areas bc env n o1 o2" and "cache_ok bc" and "vars_ok vs" and "in_range bc a"
    and "start = (if write_primary env1 then o1 else o2)" and "a < start \<or> start + n \<le> a"
  shows "write_primary env1 \<noteq> write_secondary env1 \<and> view bc2 a = view bc a"
proof -
  obtain buf old where w: "buf ! 4 = env_flags env1 + 1" "old ! 4 = env_flags env1"
    and dec: "\<forall>e. use_redundant e \<and> env_size e = n \<longrightarrow>
          uboot_env_decode buf e = (Inr (), e\<lparr>env_vars := rev (sort_key fst vs)\<rparr>)"
    and k: "write_primary env1 \<noteq> write_secondary env1" and bc2: "cache_ok bc2" "in_range bc2 = in_range bc"
    and m: "map (view bc2) [o1..<o1 + n] = (if write_primary env1 then buf else old)"
      "map (view bc2) [o2..<o2 + n] = (if write_primary env1 then old else buf)"
    and keep: "\<forall>a. in_range bc a \<and> (if write_primary env1 then a < o1 \<or> o1 + n \<le> a else a < o2 \<or> o2 + n \<le> a) \<longrightarrow>
          view bc2 a = view bc a"
    and e2: "env2 = env1\<lparr>env_vars := sort_key fst vs\<rparr>" and pl: "same_place env env1"
    using redundant_written [OF assms(1-5)] by blast
  show ?thesis using k keep assms(6-8) by auto
qed
section \<open>The configuration keeps the two areas apart\<close>

lemma to_int32_small:
  assumes "unat (word_of_int v :: u64) = c" and "c < 2 ^ 31"
  shows "to_int32 v = int c"
proof -
  have "int c = v mod 2 ^ 64" unfolding assms(1) [symmetric] by (simp add: unsigned_of_int take_bit_eq_mod)
  then have "int c mod 2 ^ 32 = v mod 2 ^ 32" by (simp add: mod_mod_cancel)
  then have "(word_of_int v :: u32) = word_of_int (int c)" by (simp only: word_of_int_eq_iff take_bit_eq_mod) simp
  then have "to_int32 v = signed_take_bit (LENGTH(32) - Suc 0) (int c)" by (simp only: to_int32_def signed_of_int of_int_eq_id id_apply)
  also have "\<dots> = int c" using assms(2) by (intro signed_take_bit_int_eq_self) simp_all
  finally show ?thesis .
qed

text \<open>
  A redundant environment whose configuration passed \<open>uboot_env_verify_cfg\<close> when the archive
  was made has two areas without a common block when it is created from the same configuration.
\<close>

theorem uboot_env_areas_disjoint:
  assumes "uboot_env_verify_cfg erange cfg = Inr ()" and "uboot_env_create_cfg erange' cfg = Inr env"
    and "use_redundant env"
    and "area = (\<lambda>start. {start..<start + int (env_block_count env)})"
  shows "0 < env_block_count env \<and> env_block_count env < 0xFFFF \<and>
    area (env_block_offset env) \<inter> area (redundant_block_offset env) = {}"
proof -
  define c where "c = unat (word_of_int (cfg_getint cfg ''block-count'') :: u64)"
  have c: "0 < c" "c < 0xFFFF" "env_block_count env = c"
    using assms(2) by (auto simp: uboot_env_create_cfg_def Let_def c_def split: prod.splits if_splits option.splits bool.splits)
  have i: "to_int32 (cfg_getint cfg ''block-count'') = int c"
    using to_int32_small [OF c_def [symmetric]] c(2) by simp
  obtain o1 e1 where o1: "cfg_get_off_t erange cfg ''block-offset'' = (Some o1, True, e1)"
    using assms(1) by (auto simp: uboot_env_verify_cfg_def split: prod.splits option.splits bool.splits)
  have b1: "env_block_offset env = o1"
    using assms(2) o1 by (auto simp: uboot_env_create_cfg_def cfg_get_off_t_def Let_def split: prod.splits if_splits option.splits bool.splits)
  obtain v2 r2 where r: "cfg_getstr cfg ''block-offset-redund'' = Some v2" "strtoull v2 = (r2, [], False)"
    and b2: "redundant_block_offset env = sint r2"
    using assms(2,3)
    by (auto simp: uboot_env_create_cfg_def cfg_get_off_t_def Let_def split: prod.splits if_splits option.splits bool.splits)
  have "\<not> e1" using o1 by (auto simp: cfg_get_off_t_def split: option.splits prod.splits)
  then have g2: "cfg_get_off_t e1 cfg ''block-offset-redund'' = (Some (sint r2), True, False)"
    by (simp add: cfg_get_off_t_def r)
  have "bind_res (int64 (sint r2 + int c)) (\<lambda>redundant_right.
      if sint r2 \<ge> o1 \<or> redundant_right > o1 then
        bind_res (int64 (o1 + int c)) (\<lambda>right.
          if (sint r2 \<ge> o1 \<and> sint r2 < right) \<or> (redundant_right > o1 \<and> redundant_right < right)
          then Inl (Msg ''block-offset-redund can't overlap primary U-Boot environment'') else Inr ())
      else Inr ()) = Inr ()"
    using assms(1) c(1,2) by (simp add: uboot_env_verify_cfg_def o1 i g2 Let_def split: if_splits)
  then have "\<not> (sint r2 \<ge> o1 \<and> sint r2 < o1 + int c) \<and> \<not> (sint r2 + int c > o1 \<and> sint r2 + int c < o1 + int c)"
    by (auto simp: res_simps int64_def split: if_splits)
  then have "{o1..<o1 + int c} \<inter> {sint r2..<sint r2 + int c} = {}" by auto
  then show ?thesis using c b1 b2 by (simp add: assms(4))
qed

section \<open>A concrete environment\<close>

definition sample_env_cfg :: cfg where
  "sample_env_cfg = Cfg [] (\<lambda>k. if k = ''block-count'' then 16 else 0) (\<lambda>_. [])
     (\<lambda>k. if k = ''block-offset'' then Some ''16'' else if k = ''block-offset-redund'' then Some ''0x20'' else None)
     (\<lambda>_. []) (\<lambda>_. False) (\<lambda>_. [])"

lemma sample_env_strtoull: "strtoull ''16'' = (16, [], False)" "strtoull ''0x20'' = (32, [], False)"
proof -
  have "signed_magnitude ''16'' = Some (False, 16, [])" "signed_magnitude ''0x20'' = Some (False, 32, [])"
    by code_simp+
  then show "strtoull ''16'' = (16, [], False)" "strtoull ''0x20'' = (32, [], False)" by (simp_all add: strtoull_def)
qed

theorem uboot_env_areas_disjoint_witness:
  "\<exists>env. uboot_env_verify_cfg False sample_env_cfg = Inr () \<and> uboot_env_create_cfg False sample_env_cfg = Inr env \<and>
     {env_block_offset env..<env_block_offset env + 16} \<inter> {redundant_block_offset env..<redundant_block_offset env + 16} = {}"
proof -
  have o: "cfg_get_off_t False sample_env_cfg ''block-offset'' = (Some 16, True, False)"
    "cfg_get_off_t False sample_env_cfg ''block-offset-redund'' = (Some 32, True, False)"
    by (simp_all add: cfg_get_off_t_def sample_env_cfg_def sample_env_strtoull)
  have i: "cfg_getint sample_env_cfg ''block-count'' = 16" by (simp add: sample_env_cfg_def)
  have v: "uboot_env_verify_cfg False sample_env_cfg = Inr ()"
    by (simp add: uboot_env_verify_cfg_def o i to_int32_def int64_def)
  obtain env where c: "uboot_env_create_cfg False sample_env_cfg = Inr env" and e: "use_redundant env" "env_block_count env = 16"
    by (simp add: uboot_env_create_cfg_def o i)
  from uboot_env_areas_disjoint [OF v c e(1) refl] v c e(2) show ?thesis by auto
qed

definition sample_env :: uboot_env where
  "sample_env = \<lparr>env_block_offset = 0, env_block_count = 1, env_size = 512, use_redundant = True,
     redundant_block_offset = 1, write_primary = True, write_secondary = True, env_flags = 0,
     env_vars = [(''b'', ''2''), (''a'', ''1'')]\<rparr>"

lemma sample_vars_ok: "vars_ok (env_vars sample_env)"
  by (simp add: vars_ok_def name_ok_def sample_env_def)

lemma sample_encode: "\<exists>buf. uboot_env_encode sample_env = (Inr buf, uboot_env_sort sample_env)"
  by (simp add: uboot_env_encode_def uboot_env_sort_def data_offset_def sample_env_def Let_def)

theorem uboot_env_roundtrip_witness:
  "\<exists>buf env1 env2. uboot_env_encode sample_env = (Inr buf, env1) \<and>
     uboot_env_decode (buf[4 := 9]) env1 = (Inr (), env2) \<and> map_of (env_vars env2) ''a'' = Some ''1''"
proof -
  obtain buf where e: "uboot_env_encode sample_env = (Inr buf, uboot_env_sort sample_env)" using sample_encode by blast
  have "buf[4 := 9] = (if use_redundant sample_env then buf[4 := 9] else buf)" by (simp add: sample_env_def)
  from uboot_env_roundtrip [OF e sample_vars_ok _ _ this] e show ?thesis
    by (auto simp: sample_env_def)
qed

theorem uboot_env_edits_witness:
  "uboot_env_getenv ''c'' (fold (run_edit uboot_env_setenv uboot_env_unsetenv)
      [Put ''c'' ''3'', Remove ''a'', Put ''c'' ''4''] sample_env) = Inr ''4''"
  by (subst uboot_env_edits [OF sample_vars_ok _ refl, THEN conjunct2]) (simp_all add: name_ok_def)

lemma map_range_eq: "length xs = n \<Longrightarrow> (\<And>i. i < n \<Longrightarrow> v (off + i) = xs ! i) \<Longrightarrow> map v [off..<off + n] = xs"
  by (auto simp: list_eq_iff_nth_eq)

text \<open>A file whose first two blocks both hold the sample environment, and what a read of it gives.\<close>

lemma sample_redundant:
  obtains bc bc1 env1 bc2 env2 b1 b2 bc3 bc4 where
    "uboot_env_read (bc, sample_env) = (Inr (), (bc1, env1))" and "cache_ok bc" and "env_areas bc sample_env 512 0 512"
    and "uboot_env_write (bc1, env1\<lparr>env_vars := [(''c'', ''3'')]\<rparr>) = (Inr (), (bc2, env2))"
    and "block_cache_pread 512 0 bc2 = (Inr b1, bc3)" and "block_cache_pread 512 512 bc3 = (Inr b2, bc4)"
    and "in_range bc 100" and "\<not> write_primary env1"
proof -
  obtain buf where e: "uboot_env_encode sample_env = (Inr buf, uboot_env_sort sample_env)" using sample_encode by blast
  note dec = decode_encoded [OF e sample_vars_ok _ _ refl]
  define img where "img = buf[4 := 0]"
  define bc where "bc = file_cache (\<lambda>a. img ! (a mod 512)) 1024"
  have sz: "env_size sample_env = 512" "use_redundant sample_env" by (simp_all add: sample_env_def)
  have "length (if use_redundant sample_env then buf[4 := 0] else buf) = env_size sample_env"
    using dec [of sample_env 0] by (simp add: sz)
  then have img1: "length img = 512" by (simp add: sz img_def)
  have img2: "uboot_env_decode img e = (Inr (), e\<lparr>env_vars := rev (sort_key fst (env_vars sample_env))\<rparr>)"
    if "use_redundant e" "env_size e = 512" for e
    using dec [of e 0] that by (simp add: sz img_def)
  have bc: "healthy bc" "cache_ok bc" "\<And>a. in_range bc a" "\<And>a. a < 1024 \<Longrightarrow> view bc a = img ! (a mod 512)"
    using file_cache_healthy file_cache_ok [where bytes = "\<lambda>a. img ! (a mod 512)" and n = 1024] by (simp_all add: bc_def)
  have ar: "env_areas bc sample_env 512 0 512"
    using bc(3) by (simp add: env_areas_def sample_env_def byte_offset_def list_all_iff)
  obtain b1 c1 where p1: "block_cache_pread 512 0 bc = (Inr b1, c1)" "healthy c1"
    using block_cache_pread_succeeds bc(1) by (rule succeedsD)
  obtain b2 bc1 where p2: "block_cache_pread 512 512 c1 = (Inr b2, bc1)" "healthy bc1"
    using block_cache_pread_succeeds p1(2) by (rule succeedsD)
  have all: "\<forall>a. x \<le> a \<and> a < y \<longrightarrow> in_range bc a" for x y using bc(3) by blast
  note r1 = cache.rd_law [OF p1(1) bc(2) all]
  have "\<forall>a. 512 \<le> a \<and> a < 512 + 512 \<longrightarrow> in_range c1 a" using r1 bc(3) by metis
  note r2 = cache.rd_law [OF p2(1) conjunct1 [OF r1] this]
  have v1: "view c1 a = view bc a" for a using r1 bc(3) by blast
  have b: "b1 = img" "b2 = img"
  proof -
    have "map (view bc) [0..<0 + 512] = img" by (rule map_range_eq [OF img1]) (simp add: bc(4))
    then show "b1 = img" using r1 by metis
    have "map (view c1) [512..<512 + 512] = img" by (rule map_range_eq [OF img1]) (simp add: v1 bc(4))
    then show "b2 = img" using r2 by metis
  qed
  define e0 where "e0 = sample_env\<lparr>write_primary := False, write_secondary := False, env_flags := 0\<rparr>"
  define vs where "vs = rev (sort_key fst (env_vars sample_env))"
  have d: "uboot_env_decode img e0 = (Inr (), e0\<lparr>env_vars := vs\<rparr>)"
    unfolding vs_def by (rule img2) (simp_all add: e0_def sz)
  define env1 where "env1 = e0\<lparr>env_vars := vs, env_flags := img ! 4, write_secondary := True\<rparr>"
  have ch: "choose_env b1 b2 e0 = (Inr (), env1)" by (simp add: choose_env_def b d env1_def)
  have read: "uboot_env_read (bc, sample_env) = (Inr (), (bc1, env1))"
    using read_redundant_intro [OF ar p1(1) p2(1)] ch by (simp add: e0_def)
  let ?env = "env1\<lparr>env_vars := [(''c'', ''3'')]\<rparr>"
  obtain nbuf where ne: "uboot_env_encode ?env = (Inr nbuf, ?env)"
    by (simp add: uboot_env_encode_def uboot_env_sort_def data_offset_def env1_def e0_def sample_env_def Let_def)
  obtain u bc2 where w: "block_cache_pwrite (nbuf[4 := env_flags ?env + 1]) 512 False bc1 = (Inr u, bc2)" "healthy bc2"
    using block_cache_pwrite_succeeds p2(2) by (rule succeedsD)
  have wr: "uboot_env_write (bc1, ?env) = (Inr (), (bc2, ?env))"
  proof -
    have "use_redundant ?env" "\<not> write_primary ?env" "write_secondary ?env"
      "byte_offset (redundant_block_offset ?env) = Inr 512"
      by (simp_all add: env1_def e0_def sample_env_def byte_offset_def)
    then show ?thesis using w(1) by (simp add: uboot_env_write_def ne ok_then_def env_pwrite_def)
  qed
  obtain x1 bc3 where q1: "block_cache_pread 512 0 bc2 = (Inr x1, bc3)" "healthy bc3"
    using block_cache_pread_succeeds w(2) by (rule succeedsD)
  obtain x2 bc4 where q2: "block_cache_pread 512 512 bc3 = (Inr x2, bc4)" "healthy bc4"
    using block_cache_pread_succeeds q1(2) by (rule succeedsD)
  show thesis using that [OF read bc(2) ar wr q1(1) q2(1) bc(3)] by (simp add: env1_def e0_def)
qed

lemma sample_new_vars_ok: "vars_ok [(''c'', ''3'')]"
  by (simp add: vars_ok_def name_ok_def)

theorem uboot_env_update_redundant_witness:
  "\<exists>bc1 env1 s s'. uboot_env_write (bc1, env1\<lparr>env_vars := [(''c'', ''3'')]\<rparr>) = (Inr (), s) \<and>
     uboot_env_read s = (Inr (), s') \<and> map_of (env_vars (snd s')) = [''c'' \<mapsto> ''3'']"
proof -
  obtain bc bc1 env1 bc2 env2 b1 b2 bc3 bc4 where
    r: "uboot_env_read (bc, sample_env) = (Inr (), (bc1, env1))" and c: "cache_ok bc" and a: "env_areas bc sample_env 512 0 512"
    and w: "uboot_env_write (bc1, env1\<lparr>env_vars := [(''c'', ''3'')]\<rparr>) = (Inr (), (bc2, env2))"
    and p: "block_cache_pread 512 0 bc2 = (Inr b1, bc3)" "block_cache_pread 512 512 bc3 = (Inr b2, bc4)"
    using sample_redundant .
  from uboot_env_update_redundant [OF r w p a c sample_new_vars_ok] obtain env3 where
    "uboot_env_read (bc2, env2) = (Inr (), (bc4, env3))" "map_of (env_vars env3) = map_of [(''c'', ''3'')]" by blast
  with w show ?thesis
    by (intro exI [of _ bc1] exI [of _ env1] exI [of _ "(bc2, env2)"] exI [of _ "(bc4, env3)"]) simp
qed

theorem uboot_env_write_keeps_copy_witness:
  "\<exists>bc bc1 env1 bc2 env2. uboot_env_read (bc, sample_env) = (Inr (), (bc1, env1)) \<and>
     uboot_env_write (bc1, env1\<lparr>env_vars := [(''c'', ''3'')]\<rparr>) = (Inr (), (bc2, env2)) \<and> view bc2 100 = view bc 100"
proof -
  obtain bc bc1 env1 bc2 env2 b1 b2 bc3 bc4 where
    r: "uboot_env_read (bc, sample_env) = (Inr (), (bc1, env1))" and c: "cache_ok bc" and a: "env_areas bc sample_env 512 0 512"
    and w: "uboot_env_write (bc1, env1\<lparr>env_vars := [(''c'', ''3'')]\<rparr>) = (Inr (), (bc2, env2))"
    and i: "in_range bc 100" and s: "\<not> write_primary env1"
    using sample_redundant .
  have "view bc2 100 = view bc 100"
    using uboot_env_write_keeps_copy [OF r w a c sample_new_vars_ok i refl] s by simp
  then show ?thesis using r w by blast
qed
end
