(* ===== verification/Base64.thy ===== *)
theory Base64
  imports CLib
begin

text \<open>
  The Base64 coding of keys (\<open>3rdparty/base64.c\<close>, \<open>3rdparty/base64.h\<close>). A buffer is a string: its
  end stands for the NUL that follows it. The comparisons in constant time are those of the
  macros, on 32 bit words, and the accumulator wraps around. That what \<open>to_base64\<close> prints
  \<open>from_base64\<close> reads back is shown for every list of bytes, with any padding behind it.
\<close>

unbundle bit_operations_syntax

section \<open>Characters\<close>

definition EQ :: "u32 \<Rightarrow> u32 \<Rightarrow> u32" where
  "EQ x y = (drop_bit 8 (0 - (x XOR y)) AND 0xFF) XOR 0xFF"

definition GT :: "u32 \<Rightarrow> u32 \<Rightarrow> u32" where
  "GT x y = drop_bit 8 (y - x) AND 0xFF"

definition GE :: "u32 \<Rightarrow> u32 \<Rightarrow> u32" where
  "GE x y = GT y x XOR 0xFF"

definition LT :: "u32 \<Rightarrow> u32 \<Rightarrow> u32" where
  "LT x y = GT y x"

definition LE :: "u32 \<Rightarrow> u32 \<Rightarrow> u32" where
  "LE x y = GE y x"

definition b64_byte_to_char :: "u32 \<Rightarrow> char" where
  "b64_byte_to_char x =
     char_of (unat ((LT x 26 AND (x + 65)) OR
       (GE x 26 AND LT x 52 AND (x + (97 - 26))) OR
       (GE x 52 AND LT x 62 AND (x + (48 - 52))) OR (EQ x 62 AND 43) OR
       (EQ x 63 AND 47)))"

text \<open>A \<open>char\<close> is signed: one above 127 becomes a negative \<open>int\<close>.\<close>

definition b64_char_to_byte :: "char \<Rightarrow> u32" where
  "b64_char_to_byte ch =
     (let c = scast (of_char ch :: byte);
          x = (GE c 65 AND LE c 90 AND (c - 65)) OR
              (GE c 97 AND LE c 122 AND (c - (97 - 26))) OR
              (GE c 48 AND LE c 57 AND (c - (48 - 52))) OR (EQ c 43 AND 62) OR
              (EQ c 47 AND 63)
      in x OR (EQ x 0 AND (EQ c 65 XOR 0xFF)))"

section \<open>Lengths\<close>

definition base64_raw_to_encoded_count :: "nat \<Rightarrow> nat" where
  "base64_raw_to_encoded_count len = (len + 2) div 3 * 4"

definition base64_raw_to_unpadded_count :: "nat \<Rightarrow> nat" where
  "base64_raw_to_unpadded_count len =
     (let groups = len div 3; normal_bytes = groups * 3;
          extras = (if normal_bytes \<noteq> len then len - normal_bytes + 1 else 0)
      in groups * 4 + extras)"

section \<open>Encoding\<close>

text \<open>The inner loop: as long as six bits are left. The result is what is printed and the bits that remain.\<close>

fun b64_emit :: "u32 \<Rightarrow> nat \<Rightarrow> string \<times> nat" where
  "b64_emit acc acc_len =
     (if acc_len \<ge> 6
      then (let (s, left) = b64_emit acc (acc_len - 6) in (b64_byte_to_char (drop_bit (acc_len - 6) acc AND 0x3F) # s, left))
      else ([], acc_len))"

declare b64_emit.simps [simp del]

fun encode_loop :: "u32 \<Rightarrow> nat \<Rightarrow> byte list \<Rightarrow> string" where
  "encode_loop acc acc_len [] =
     (if acc_len > 0 then [b64_byte_to_char (push_bit (6 - acc_len) acc AND 0x3F)] else [])"
| "encode_loop acc acc_len (b # buf) =
     (let acc' = push_bit 8 acc + ucast b; (s, left) = b64_emit acc' (acc_len + 8) in s @ encode_loop acc' left buf)"

definition encoded_length :: "nat \<Rightarrow> nat" where
  "encoded_length src_len = (src_len div 3) * 4 + (case src_len mod 3 of 0 \<Rightarrow> 0 | Suc 0 \<Rightarrow> 2 | _ \<Rightarrow> 3)"

definition to_base64 :: "nat \<Rightarrow> byte list \<Rightarrow> string option" where
  "to_base64 dst_len src = (if dst_len \<le> encoded_length (length src) then None else Some (encode_loop 0 0 src))"

section \<open>Decoding\<close>

text \<open>The loop: the bytes, what is left of the source, the accumulator and how many of its bits are not used.\<close>

fun decode_loop :: "nat \<Rightarrow> u32 \<Rightarrow> nat \<Rightarrow> string \<Rightarrow> (byte list \<times> string \<times> u32 \<times> nat) option" where
  "decode_loop room acc acc_len [] = Some ([], [], acc, acc_len)"
| "decode_loop room acc acc_len (c # src) =
     (let d = b64_char_to_byte c; acc' = push_bit 6 acc + d; n = acc_len + 6 in
      if d = 0xFF then Some ([], c # src, acc, acc_len)
      else if n \<ge> 8 then
        (case room of 0 \<Rightarrow> None
         | Suc r \<Rightarrow> map_option (\<lambda>(buf, rest). (ucast (drop_bit (n - 8) acc' AND 0xFF) # buf, rest)) (decode_loop r acc' (n - 8) src))
      else decode_loop room acc' n src)"

definition from_base64 :: "nat \<Rightarrow> string \<Rightarrow> (byte list \<times> string) option" where
  "from_base64 dst_len src =
     (case decode_loop dst_len 0 0 src of
        None \<Rightarrow> None
      | Some (buf, rest, acc, acc_len) \<Rightarrow>
          if acc_len > 4 \<or> acc AND (push_bit acc_len 1 - 1) \<noteq> 0 then None else Some (buf, rest))"

section \<open>What is printed is read back\<close>

lemma of_nat_mod_256: "(of_nat (unat (x :: u32) mod 256) :: byte) = ucast x"
proof -
  have "(of_nat (unat x mod 256) :: byte) = of_nat (unat x)" unfolding word_of_nat_eq_iff by (simp add: take_bit_eq_mod)
  then show ?thesis by simp
qed

lemma of_char_of_unat: "(of_char (char_of (unat (x :: u32))) :: byte) = ucast x"
proof -
  have "(of_char (char_of (unat x)) :: byte) = of_nat (of_char (char_of (unat x)))" by (simp only: of_nat_of_char)
  also have "\<dots> = of_nat (unat x mod 256)" by simp
  also have "\<dots> = ucast x" by (simp add: of_nat_mod_256)
  finally show ?thesis .
qed

definition sextets :: "u32 list" where
  "sextets = [0, 1, 2, 3, 4, 5, 6, 7, 8, 9, 10, 11, 12, 13, 14, 15, 16, 17, 18, 19, 20, 21, 22, 23, 24, 25, 26, 27, 28, 29, 30, 31, 32, 33, 34, 35, 36, 37, 38, 39, 40, 41, 42, 43, 44, 45, 46, 47, 48, 49, 50, 51, 52, 53, 54, 55, 56, 57, 58, 59, 60, 61, 62, 63]"

lemma less_64_sextets: "n < 64 \<Longrightarrow> word_of_nat n \<in> set sextets"
proof -
  have "list_all (\<lambda>n. word_of_nat n \<in> set sextets) [0..<64]" unfolding sextets_def by code_simp
  then show "n < 64 \<Longrightarrow> word_of_nat n \<in> set sextets" by (simp add: list_all_iff)
qed

lemma b64_chars: "list_all (\<lambda>x. b64_char_to_byte (b64_byte_to_char x) = x) sextets"
  by (simp add: sextets_def b64_char_to_byte_def b64_byte_to_char_def of_char_of_unat EQ_def GT_def LT_def GE_def LE_def mask_numeral)

lemma b64_char_inverse: "b64_char_to_byte (b64_byte_to_char (x AND 0x3F)) = x AND 0x3F"
proof -
  have m: "x AND 0x3F = take_bit 6 x" by (simp add: take_bit_eq_mask mask_eq_exp_minus_1)
  have "unat (x AND 0x3F) < 64" unfolding m unsigned_take_bit_eq by (simp add: take_bit_eq_mod)
  from less_64_sextets [OF this] b64_chars show ?thesis by (simp add: list_all_iff)
qed

text \<open>The accumulator keeps old bits above those that count; they never come back.\<close>

lemma push_add_or: "push_bit 8 acc + ucast (b :: byte) = (push_bit 8 acc OR ucast b :: u32)"
  by (rule disjunctive_add) (auto simp: bit_simps dest: bit_imp_le_length)

lemma push_add_or_6: "push_bit 6 acc + (x AND 0x3F) = (push_bit 6 acc OR take_bit 6 x :: u32)"
proof -
  have "push_bit 6 acc + take_bit 6 x = (push_bit 6 acc OR take_bit 6 x :: u32)"
    by (rule disjunctive_add) (auto simp: bit_simps)
  then show ?thesis by (simp add: take_bit_eq_mask mask_eq_exp_minus_1)
qed

lemma b64_not_end: "x AND 0x3F \<noteq> (0xFF :: u32)"
proof -
  have "\<not> bit (x AND 0x3F) 7" "bit (0xFF :: u32) 7" by (simp_all add: bit_and_iff)
  then show ?thesis by metis
qed

lemma encode_triple:
  "encode_loop acc 0 (a # b # c # buf) =
     (let acc1 = push_bit 8 acc OR ucast a; acc2 = push_bit 8 acc1 OR ucast b; acc3 = push_bit 8 acc2 OR ucast c in
      b64_byte_to_char (drop_bit 2 acc1 AND 0x3F) # b64_byte_to_char (drop_bit 4 acc2 AND 0x3F) #
      b64_byte_to_char (drop_bit 6 acc3 AND 0x3F) # b64_byte_to_char (acc3 AND 0x3F) # encode_loop acc3 0 buf)"
  by (simp add: b64_emit.simps push_add_or Let_def)

lemma decode_step:
  "decode_loop room acc n (b64_byte_to_char (x AND 0x3F) # src) =
     (let acc' = push_bit 6 acc OR take_bit 6 x in
      if n + 6 \<ge> 8 then
        (case room of 0 \<Rightarrow> None
         | Suc r \<Rightarrow> map_option (\<lambda>(buf, rest). (ucast (drop_bit (n + 6 - 8) acc' AND 0xFF) # buf, rest)) (decode_loop r acc' (n + 6 - 8) src))
      else decode_loop room acc' (n + 6) src)"
  by (simp only: decode_loop.simps b64_char_inverse b64_not_end push_add_or_6 Let_def if_False)

lemma decode_four:
  "decode_loop (Suc (Suc (Suc room))) acc 0
     (b64_byte_to_char (x1 AND 0x3F) # b64_byte_to_char (x2 AND 0x3F) # b64_byte_to_char (x3 AND 0x3F) # b64_byte_to_char (x4 AND 0x3F) # src) =
   (let acc2 = push_bit 6 (push_bit 6 acc OR take_bit 6 x1) OR take_bit 6 x2; acc3 = push_bit 6 acc2 OR take_bit 6 x3;
        acc4 = push_bit 6 acc3 OR take_bit 6 x4 in
    map_option (\<lambda>(buf, rest). (ucast (drop_bit 4 acc2 AND 0xFF) # ucast (drop_bit 2 acc3 AND 0xFF) # ucast (acc4 AND 0xFF) # buf, rest))
      (decode_loop room acc4 0 src))"
  by (simp add: decode_step Let_def option.map_comp comp_def case_prod_unfold del: decode_loop.simps)

lemma low_byte: "(ucast (x AND 0xFF :: u32) :: byte) = ucast x"
  by (rule bit_word_eqI) (simp add: bit_simps bit_numeral_rec mask8)

lemma byte_bits: "n < 8 \<Longrightarrow> n = 0 \<or> n = 1 \<or> n = 2 \<or> n = 3 \<or> n = 4 \<or> n = 5 \<or> n = 6 \<or> n = (7 :: nat)"
  by linarith

lemma bit_above_byte: "8 \<le> n \<Longrightarrow> \<not> bit (b :: byte) n"
  by (auto dest: bit_imp_le_length)

lemmas byte_simps = bit_simps bit_above_byte
lemmas bit_numbers = numeral_2_eq_2 numeral_3_eq_3

text \<open>The three bytes of a group. Of the accumulators only the bits that a byte takes part in are spelled out.\<close>

lemma first_byte:
  "ucast (drop_bit 4 (push_bit 6 (push_bit 6 d OR take_bit 6 (drop_bit 2 (push_bit 8 acc OR ucast a))) OR
     take_bit 6 (drop_bit 4 (push_bit 8 (push_bit 8 acc OR ucast a) OR ucast (b :: byte)))) :: u32) = (a :: byte)"
  by (rule bit_word_eqI, auto simp: byte_simps dest!: byte_bits; simp add: bit_numbers)

lemma second_byte:
  "ucast (drop_bit 2 (push_bit 6 (push_bit 6 d OR take_bit 6 (drop_bit 4 (push_bit 8 acc OR ucast b))) OR
     take_bit 6 (drop_bit 6 (push_bit 8 (push_bit 8 acc OR ucast b) OR ucast (c :: byte)))) :: u32) = (b :: byte)"
  by (rule bit_word_eqI, auto simp: byte_simps dest!: byte_bits; simp add: bit_numbers)

lemma third_byte:
  "ucast (push_bit 6 (push_bit 6 d OR take_bit 6 (drop_bit 6 (push_bit 8 acc OR ucast c))) OR
     take_bit 6 (push_bit 8 acc OR ucast c) :: u32) = (c :: byte)"
  by (rule bit_word_eqI, auto simp: byte_simps dest!: byte_bits; simp add: bit_numbers)

text \<open>At the end one or two bytes are left over: two or three characters, whose last bits are zero.\<close>

lemma last_of_one:
  "ucast (drop_bit 4 (push_bit 6 (push_bit 6 d OR take_bit 6 (drop_bit 2 (push_bit 8 acc OR ucast a))) OR
     take_bit 6 (push_bit 4 (push_bit 8 acc OR ucast a))) :: u32) = (a :: byte)"
  by (rule bit_word_eqI, auto simp: byte_simps dest!: byte_bits; simp add: bit_numbers)

lemma last_of_two:
  "ucast (drop_bit 2 (push_bit 6 (push_bit 6 d OR take_bit 6 (drop_bit 4 (push_bit 8 acc OR ucast b))) OR
     take_bit 6 (push_bit 2 (push_bit 8 acc OR ucast b))) :: u32) = (b :: byte)"
  by (rule bit_word_eqI, auto simp: byte_simps dest!: byte_bits; simp add: bit_numbers)

lemma last_bits_zero:
  "take_bit 4 (push_bit 6 d OR take_bit 6 (push_bit 4 acc)) = (0 :: u32)"
  "take_bit 2 (push_bit 6 d OR take_bit 6 (push_bit 2 acc)) = (0 :: u32)"
  by (rule bit_word_eqI, simp add: byte_simps)+

lemma encode_one:
  "encode_loop acc 0 [a] = (let acc1 = push_bit 8 acc OR ucast a in
     [b64_byte_to_char (drop_bit 2 acc1 AND 0x3F), b64_byte_to_char (push_bit 4 acc1 AND 0x3F)])"
  by (simp add: b64_emit.simps push_add_or Let_def)

lemma encode_two:
  "encode_loop acc 0 [a, b] = (let acc1 = push_bit 8 acc OR ucast a; acc2 = push_bit 8 acc1 OR ucast b in
     [b64_byte_to_char (drop_bit 2 acc1 AND 0x3F), b64_byte_to_char (drop_bit 4 acc2 AND 0x3F),
      b64_byte_to_char (push_bit 2 acc2 AND 0x3F)])"
  by (simp add: b64_emit.simps push_add_or Let_def)

lemma decode_two:
  "decode_loop (Suc room) acc 0 (b64_byte_to_char (x1 AND 0x3F) # b64_byte_to_char (x2 AND 0x3F) # src) =
   (let acc2 = push_bit 6 (push_bit 6 acc OR take_bit 6 x1) OR take_bit 6 x2 in
    map_option (\<lambda>(buf, rest). (ucast (drop_bit 4 acc2 AND 0xFF) # buf, rest)) (decode_loop room acc2 4 src))"
  by (simp add: decode_step Let_def del: decode_loop.simps)

lemma decode_three:
  "decode_loop (Suc room) acc 4 (b64_byte_to_char (x3 AND 0x3F) # src) =
   (let acc3 = push_bit 6 acc OR take_bit 6 x3 in
    map_option (\<lambda>(buf, rest). (ucast (drop_bit 2 acc3 AND 0xFF) # buf, rest)) (decode_loop room acc3 2 src))"
  by (simp add: decode_step Let_def del: decode_loop.simps)

text \<open>Behind the encoded bytes may come anything that does not start with a character of Base64.\<close>

definition ends_base64 :: "string \<Rightarrow> bool" where
  "ends_base64 s \<longleftrightarrow> s = [] \<or> b64_char_to_byte (hd s) = 0xFF"

lemma ends_base64_padding: "ends_base64 (replicate n (CHR ''=''))"
  by (cases n) (simp_all add: ends_base64_def b64_char_to_byte_def EQ_def GT_def LT_def GE_def LE_def mask_numeral)

lemma decode_end: "ends_base64 s \<Longrightarrow> decode_loop room acc n s = Some ([], s, acc, n)"
  by (cases s) (simp_all add: ends_base64_def)

definition clean_end :: "u32 \<Rightarrow> nat \<Rightarrow> bool" where
  "clean_end acc n \<longleftrightarrow> n \<le> 4 \<and> acc AND (push_bit n 1 - 1) = 0"

lemma low_bits: "(acc :: u32) AND (push_bit n 1 - 1) = take_bit n acc"
  by (simp add: take_bit_eq_mask mask_eq_exp_minus_1 push_bit_eq_mult)

lemma induct_list_by_three [case_names Nil One Two Three]:
  assumes "P []" and "\<And>a. P [a]" and "\<And>a b. P [a, b]" and "\<And>a b c xs. P xs \<Longrightarrow> P (a # b # c # xs)"
  shows "P xs"
proof (induction xs rule: length_induct)
  case (1 xs)
  then show ?case using assms by (cases xs; cases "tl xs"; cases "tl (tl xs)") auto
qed

lemma decode_encode:
  assumes "length src \<le> room" and "ends_base64 s"
  shows "\<exists>acc2 n. decode_loop room acc' 0 (encode_loop acc 0 src @ s) = Some (src, s, acc2, n) \<and> clean_end acc2 n"
  using assms(1)
proof (induction src arbitrary: acc acc' room rule: induct_list_by_three)
  case Nil
  then show ?case using assms(2) by (simp add: decode_end clean_end_def)
next
  case (One a)
  then obtain r where r: "room = Suc r" by (cases room) auto
  show ?case
    unfolding r encode_one decode_two Let_def append.simps decode_end [OF assms(2)] low_byte last_of_one option.map prod.case
    by (intro exI conjI, rule refl) (simp only: clean_end_def low_bits last_bits_zero, simp)
next
  case (Two a b)
  then obtain r where r: "room = Suc (Suc r)" by (cases room; cases "room - 1") auto
  show ?case
    unfolding r encode_two decode_two decode_three Let_def append.simps decode_end [OF assms(2)] low_byte first_byte last_of_two option.map prod.case
    by (intro exI conjI, rule refl) (simp only: clean_end_def low_bits last_bits_zero, simp)
next
  case (Three a b c src)
  then obtain r where r: "room = Suc (Suc (Suc r))" "length src \<le> r" by (cases room; cases "room - 1"; cases "room - 2") auto
  let ?acc3 = "push_bit 8 (push_bit 8 (push_bit 8 acc OR ucast a) OR ucast b) OR ucast c"
  obtain acc2 n where IH: "\<And>acc'. \<exists>acc2 n. decode_loop r acc' 0 (encode_loop ?acc3 0 src @ s) = Some (src, s, acc2, n) \<and> clean_end acc2 n"
    using Three.IH [OF r(2)] by blast
  show ?case
    unfolding r(1) encode_triple decode_four Let_def append.simps low_byte first_byte second_byte third_byte
    using IH by fastforce
qed

lemma encode_loop_length: "length (encode_loop acc 0 src) = encoded_length (length src)"
proof (induction src arbitrary: acc rule: induct_list_by_three)
  case (Three a b c src)
  have "Suc (Suc (Suc (length src))) div 3 = Suc (length src div 3)" "Suc (Suc (Suc (length src))) mod 3 = length src mod 3" by presburger+
  then show ?case by (simp add: encode_triple Let_def Three.IH encoded_length_def del: encode_loop.simps)
qed (simp_all add: encoded_length_def encode_one encode_two Let_def del: encode_loop.simps(2))

lemma unpadded_count: "base64_raw_to_unpadded_count n = encoded_length n"
proof -
  consider "n mod 3 = 0" | "n mod 3 = 1" | "n mod 3 = 2" by linarith
  moreover have "n = n div 3 * 3 + n mod 3" by simp
  ultimately show ?thesis by cases (auto simp: base64_raw_to_unpadded_count_def encoded_length_def Let_def)
qed

theorem from_to_base64:
  assumes "to_base64 dst_len src = Some text" and "length src \<le> room" and "ends_base64 padding"
  shows "from_base64 room (text @ padding) = Some (src, padding)"
proof -
  have "text = encode_loop 0 0 src" using assms(1) by (simp add: to_base64_def split: if_splits)
  then show ?thesis using decode_encode [OF assms(2,3), of 0 0] by (auto simp: from_base64_def clean_end_def)
qed

end
