(* ===== verification/Disk_Crypto.thy ===== *)
theory Disk_Crypto
  imports Util Base64
begin

text \<open>
  Encryption of the blocks that are written (\<open>disk_crypto.c\<close>). The ciphers come from a vendored
  library and are parameters: \<open>aes\<close> holds its four functions on the key, the initialisation
  vector (or data unit) and one block.
\<close>

section \<open>Ciphers\<close>

record aes =
  cbc_encrypt :: "byte list \<Rightarrow> byte list \<Rightarrow> byte list \<Rightarrow> byte list"
  cbc_decrypt :: "byte list \<Rightarrow> byte list \<Rightarrow> byte list \<Rightarrow> byte list"
  xts_encrypt :: "byte list \<Rightarrow> byte list \<Rightarrow> byte list \<Rightarrow> byte list"
  xts_decrypt :: "byte list \<Rightarrow> byte list \<Rightarrow> byte list \<Rightarrow> byte list"

datatype disk_crypto_fun = aes_cbc_plain | aes_xts_plain64

record disk_crypto =
  dc_cipher :: disk_crypto_fun
  dc_key :: "byte list"
  base_offset :: nat

definition AES_KEYLEN :: nat where "AES_KEYLEN = 32"
definition AES_XTS_KEYLEN :: nat where "AES_XTS_KEYLEN = 64"
definition MAX_CIPHER_LEN :: nat where "MAX_CIPHER_LEN = 32"
definition MAX_SECRET_LEN :: nat where "MAX_SECRET_LEN = 128"

definition aes_cbc_plain_encrypt :: "aes \<Rightarrow> byte list \<Rightarrow> u64 \<Rightarrow> byte list \<Rightarrow> byte list" where
  "aes_cbc_plain_encrypt lib key lba input =
     cbc_encrypt lib (take AES_KEYLEN key) (copy_le32 (ucast lba) @ replicate 12 0) input"

definition aes_cbc_plain_decrypt :: "aes \<Rightarrow> byte list \<Rightarrow> u64 \<Rightarrow> byte list \<Rightarrow> byte list" where
  "aes_cbc_plain_decrypt lib key lba input =
     cbc_decrypt lib (take AES_KEYLEN key) (copy_le32 (ucast lba) @ replicate 12 0) input"

definition aes_xts_plain64_data_unit :: "u64 \<Rightarrow> byte list" where
  "aes_xts_plain64_data_unit lba = map (\<lambda>i. ucast (drop_bit (8 * i) lba)) [0..<8] @ replicate 8 0"

definition aes_xts_plain64_encrypt :: "aes \<Rightarrow> byte list \<Rightarrow> u64 \<Rightarrow> byte list \<Rightarrow> byte list" where
  "aes_xts_plain64_encrypt lib key lba input =
     xts_encrypt lib (take AES_XTS_KEYLEN key) (aes_xts_plain64_data_unit lba) input"

definition aes_xts_plain64_decrypt :: "aes \<Rightarrow> byte list \<Rightarrow> u64 \<Rightarrow> byte list \<Rightarrow> byte list" where
  "aes_xts_plain64_decrypt lib key lba input =
     xts_decrypt lib (take AES_XTS_KEYLEN key) (aes_xts_plain64_data_unit lba) input"

text \<open>The calls \<open>dc->encrypt\<close> and \<open>dc->decrypt\<close> through the function pointers.\<close>

definition dc_encrypt :: "aes \<Rightarrow> disk_crypto \<Rightarrow> u64 \<Rightarrow> byte list \<Rightarrow> byte list" where
  "dc_encrypt lib dc = (case dc_cipher dc of
     aes_cbc_plain \<Rightarrow> aes_cbc_plain_encrypt lib (dc_key dc) | aes_xts_plain64 \<Rightarrow> aes_xts_plain64_encrypt lib (dc_key dc))"

definition dc_decrypt :: "aes \<Rightarrow> disk_crypto \<Rightarrow> u64 \<Rightarrow> byte list \<Rightarrow> byte list" where
  "dc_decrypt lib dc = (case dc_cipher dc of
     aes_cbc_plain \<Rightarrow> aes_cbc_plain_decrypt lib (dc_key dc) | aes_xts_plain64 \<Rightarrow> aes_xts_plain64_decrypt lib (dc_key dc))"

section \<open>Initialisation\<close>

text \<open>What follows the part of the secret that is Base64 is not looked at.\<close>

definition aes_cbc_plain_init :: "string \<Rightarrow> byte list res" where
  "aes_cbc_plain_init secret_key =
     (case hex_to_bytes secret_key AES_KEYLEN of
        Inr key \<Rightarrow> Inr (key @ replicate 32 0)
      | Inl _ \<Rightarrow>
          (case from_base64 AES_KEYLEN secret_key of
             Some (key, _) \<Rightarrow> if length key = AES_KEYLEN then Inr (key @ replicate 32 0)
                         else Inl (Msg ''aes-cbc-plain requires a hex-encoded 256-bit key'')
           | None \<Rightarrow> Inl (Msg ''aes-cbc-plain requires a hex-encoded 256-bit key'')))"

text \<open>A key that is given in Base64 is the key that is used: its text is too short to be taken for hexadecimal.\<close>

lemma aes_cbc_plain_base64:
  assumes "length key = AES_KEYLEN" and "to_base64 n key = Some secret"
  shows "aes_cbc_plain_init secret = Inr (key @ replicate 32 0)"
proof -
  have "length secret = 43" using assms by (auto simp: to_base64_def encode_loop_length encoded_length_def AES_KEYLEN_def split: if_splits)
  then have "\<not> is_ok (hex_to_bytes secret AES_KEYLEN)" by (simp add: hex_to_bytes_def AES_KEYLEN_def)
  then obtain e where e: "hex_to_bytes secret AES_KEYLEN = Inl e" by (cases "hex_to_bytes secret AES_KEYLEN") auto
  have "from_base64 AES_KEYLEN (secret @ []) = Some (key, [])"
    using from_to_base64 [OF assms(2), of AES_KEYLEN "[]"] assms(1) by (simp add: ends_base64_def)
  then show ?thesis by (simp add: aes_cbc_plain_init_def e assms(1))
qed

definition aes_xts_plain64_init :: "string \<Rightarrow> byte list res" where
  "aes_xts_plain64_init secret_key =
     (case hex_to_bytes secret_key AES_XTS_KEYLEN of
        Inr key \<Rightarrow> Inr key
      | Inl _ \<Rightarrow> Inl (Msg ''aes-xts-plain64 requires a hex-encoded 512-bit key''))"

text \<open>
  \<open>split_value\<close> takes the value of an option and the text after the comma, if there is one.
  \<open>strncpy\<close> into a buffer that was cleared once: it does not terminate the string, so a second
  value for the same option replaces the start of the first one.
\<close>

definition split_value :: "string \<Rightarrow> string \<times> string option" where
  "split_value v = (let a = takeWhile (\<lambda>c. c \<noteq> CHR '','') v in
     (a, if length a < length v then Some (drop (length a + 1) v) else None))"

definition strncpy :: "string \<Rightarrow> string \<Rightarrow> nat \<Rightarrow> string" where
  "strncpy old v n = take n v @ drop n old"

function parse_option :: "string \<Rightarrow> string \<times> string \<Rightarrow> (string \<times> string) res" where
  "parse_option key (cipher, secret) =
     (let at_eq = dropWhile (\<lambda>c. c \<noteq> CHR ''='') key in
      if at_eq = [] then Inl (Msg ''Expecting '=' for in parameter'')
      else (let (v, next_key) = split_value (tl at_eq);
                opts = (if has_prefix ''cipher='' key then Inr (strncpy cipher v (min MAX_CIPHER_LEN (length v)), secret)
                        else if has_prefix ''secret='' key then Inr (cipher, strncpy secret v (min MAX_SECRET_LEN (length v)))
                        else Inl (Msg ''Unexpected parameter''))
            in case opts of
                 Inl e \<Rightarrow> Inl e
               | Inr o' \<Rightarrow> (case next_key of None \<Rightarrow> Inr o' | Some k \<Rightarrow> parse_option k o')))"
  by pat_completeness auto
termination
proof (relation "measure (\<lambda>(key, _). length key)", goal_cases)
  case (2 key cipher secret at_eq p v next_key opts o' k)
  have "length at_eq \<le> length key" using 2(1) length_dropWhile_le by metis
  moreover have "length k < length (tl at_eq)" using 2(3,4,7) by (auto simp: split_value_def Let_def split: if_splits)
  ultimately show ?case using 2(2) by (cases at_eq) auto
qed simp

fun parse_option_list :: "string list \<Rightarrow> string \<times> string \<Rightarrow> (string \<times> string) res" where
  "parse_option_list [] opts = Inr opts"
| "parse_option_list (arg # args) opts = bind_res (parse_option arg opts) (parse_option_list args)"

definition parse_options :: "string list \<Rightarrow> (string \<times> string) res" where
  "parse_options argv =
     bind_res (parse_option_list argv ([], [])) (\<lambda>(cipher, secret).
       if (cipher \<noteq> [] \<and> secret = []) \<or> (secret \<noteq> [] \<and> cipher = [])
       then Inl (Msg ''Both a cipher and secret are required if one is supplied'')
       else Inr (cipher, secret))"

definition disk_crypto_init :: "nat \<Rightarrow> string list \<Rightarrow> disk_crypto res" where
  "disk_crypto_init base argv =
     bind_res (parse_options argv) (\<lambda>(cipher, secret).
       if cipher = ''aes-cbc-plain'' then
         bind_res (aes_cbc_plain_init secret)
           (\<lambda>key. Inr \<lparr>dc_cipher = aes_cbc_plain, dc_key = key, base_offset = base\<rparr>)
       else if cipher = ''aes-xts-plain64'' then
         bind_res (aes_xts_plain64_init secret)
           (\<lambda>key. Inr \<lparr>dc_cipher = aes_xts_plain64, dc_key = key, base_offset = base\<rparr>)
       else Inl (Msg ''Unsupported disk encryption''))"

section \<open>Ranges of blocks\<close>

text \<open>
  \<open>(offset - base_offset) / FWUP_BLOCK_SIZE\<close>, a signed division that is converted to an unsigned
  number. The result is what the output buffer holds: the blocks that the loop wrote, and its old
  contents after them.
\<close>

definition dc_lba :: "disk_crypto \<Rightarrow> nat \<Rightarrow> u64" where
  "dc_lba dc offset =
     (if base_offset dc \<le> offset then of_nat ((offset - base_offset dc) div 512)
      else - of_nat ((base_offset dc - offset) div 512))"

function crypt_loop :: "(u64 \<Rightarrow> byte list \<Rightarrow> byte list) \<Rightarrow> u64 \<Rightarrow> u64 \<Rightarrow> byte list \<Rightarrow> byte list" where
  "crypt_loop f lba last_lba input =
     (if lba < last_lba then f lba (take 512 input) @ crypt_loop f (lba + 1) last_lba (drop 512 input) else [])"
  by pat_completeness auto
termination
proof (relation "measure (\<lambda>(_, lba, last_lba, _). unat last_lba - unat lba)", goal_cases)
  case (2 f lba last_lba input)
  then have "unat lba < unat last_lba" by (simp add: word_less_nat_alt)
  moreover have "unat last_lba < 2 ^ 64" using unsigned_less [of last_lba, where 'a = nat] by simp
  ultimately have "unat (lba + 1) = unat lba + 1" by (simp add: unat_word_ariths(1))
  with \<open>unat lba < unat last_lba\<close> show ?case by simp
qed simp

declare crypt_loop.simps [simp del]

definition crypt_range :: "(u64 \<Rightarrow> byte list \<Rightarrow> byte list) \<Rightarrow> disk_crypto \<Rightarrow> byte list \<Rightarrow> byte list \<Rightarrow> nat \<Rightarrow> byte list" where
  "crypt_range f dc input output offset =
     (let lba = dc_lba dc offset;
          out = crypt_loop f lba (lba + of_nat (length input div 512)) input
      in out @ drop (length out) output)"

definition disk_crypto_encrypt :: "aes \<Rightarrow> disk_crypto \<Rightarrow> byte list \<Rightarrow> byte list \<Rightarrow> nat \<Rightarrow> byte list" where
  "disk_crypto_encrypt lib dc = crypt_range (dc_encrypt lib dc) dc"

definition disk_crypto_decrypt :: "aes \<Rightarrow> disk_crypto \<Rightarrow> byte list \<Rightarrow> byte list \<Rightarrow> nat \<Rightarrow> byte list" where
  "disk_crypto_decrypt lib dc = crypt_range (dc_decrypt lib dc) dc"

section \<open>What the code relies on\<close>

text \<open>
  The documented behaviour of the cipher library: the two directions are inverse on blocks of
  512 bytes and keep their length.
\<close>

definition aes_ok :: "aes \<Rightarrow> bool" where
  "aes_ok lib = (\<forall>key iv b. length b = 512 \<longrightarrow>
     length (cbc_encrypt lib key iv b) = 512 \<and> cbc_decrypt lib key iv (cbc_encrypt lib key iv b) = b \<and>
     length (xts_encrypt lib key iv b) = 512 \<and> xts_decrypt lib key iv (xts_encrypt lib key iv b) = b)"

lemma dc_inverse:
  assumes "aes_ok lib" and "length b = 512"
  shows "length (dc_encrypt lib dc lba b) = 512" "dc_decrypt lib dc lba (dc_encrypt lib dc lba b) = b"
  using assms
  by (simp_all add: aes_ok_def dc_encrypt_def dc_decrypt_def aes_cbc_plain_encrypt_def aes_cbc_plain_decrypt_def
      aes_xts_plain64_encrypt_def aes_xts_plain64_decrypt_def split: disk_crypto_fun.split)

text \<open>No address of the range has a block number of 64 bits or more relative to the base.\<close>

definition lba_fits :: "disk_crypto \<Rightarrow> nat \<Rightarrow> nat \<Rightarrow> bool" where
  "lba_fits dc offset n = (base_offset dc \<le> offset \<and> (offset - base_offset dc) div 512 + n div 512 < 2 ^ 64)"

lemma crypt_loop_blocks:
  assumes "length input = 512 * k" and "lba + k < 2 ^ 64" and "l = of_nat lba" and "e = of_nat (lba + k)"
  shows "crypt_loop f l e input = concat (map (\<lambda>i. f (of_nat (lba + i)) (read_at (512 * i) 512 input)) [0..<k])"
  using assms
proof (induction k arbitrary: lba input l)
  case 0
  then show ?case by (simp add: crypt_loop.simps)
next
  case (Suc k)
  have u: "unat l = lba" "unat e = lba + Suc k"
    using Suc.prems(2) unfolding Suc.prems(3,4) by (simp_all only: unsigned_of_nat take_bit_eq_mod) simp_all
  then have "l < e" by (simp add: word_less_nat_alt)
  moreover have "crypt_loop f (l + 1) e (drop 512 input) =
      concat (map (\<lambda>i. f (of_nat (lba + 1 + i)) (read_at (512 * i) 512 (drop 512 input))) [0..<k])"
    using Suc.prems by (intro Suc.IH) simp_all
  moreover have "[0..<Suc k] = 0 # map Suc [0..<k]" by (simp add: upt_conv_Cons map_Suc_upt)
  ultimately show ?case
    using Suc.prems(3) by (subst crypt_loop.simps) (simp add: comp_def read_at_def add_ac)
qed

text \<open>
  The range functions work block by block: \<open>crypt_blocks\<close> is the result for \<open>k\<close> whole blocks.
\<close>

definition crypt_blocks :: "(u64 \<Rightarrow> byte list \<Rightarrow> byte list) \<Rightarrow> nat \<Rightarrow> nat \<Rightarrow> byte list \<Rightarrow> byte list" where
  "crypt_blocks f lba k input = concat (map (\<lambda>i. f (of_nat (lba + i)) (read_at (512 * i) 512 input)) [0..<k])"

lemma crypt_range_blocks:
  assumes "length input = 512 * k" and "lba_fits dc offset (length input)"
    and "\<And>l b. length b = 512 \<Longrightarrow> length (f l b) = 512" and "length output = length input"
  shows "crypt_range f dc input output offset = crypt_blocks f ((offset - base_offset dc) div 512) k input"
proof -
  let ?l = "(offset - base_offset dc) div 512"
  have b: "dc_lba dc offset = of_nat ?l" using assms(2) by (simp add: dc_lba_def lba_fits_def)
  have "crypt_loop f (dc_lba dc offset) (dc_lba dc offset + of_nat (length input div 512)) input = crypt_blocks f ?l k input"
    unfolding b crypt_blocks_def using assms(1,2)
    by (intro crypt_loop_blocks) (simp_all add: lba_fits_def)
  moreover have "length (crypt_blocks f ?l k input) = 512 * k"
    unfolding crypt_blocks_def using assms(1,3) by (subst length_concat_same [where n = 512]) simp_all
  ultimately show ?thesis using assms(1,4) by (simp add: crypt_range_def)
qed

lemma length_crypt_blocks:
  assumes "length input = 512 * k" and "\<And>l b. length b = 512 \<Longrightarrow> length (f l b) = 512"
  shows "length (crypt_blocks f lba k input) = 512 * k"
  unfolding crypt_blocks_def using assms by (subst length_concat_same [where n = 512]) simp_all

lemma crypt_blocks_Suc:
  "crypt_blocks f lba (Suc k) input = f (of_nat lba) (take 512 input) @ crypt_blocks f (Suc lba) k (drop 512 input)"
proof -
  have "[0..<Suc k] = 0 # map Suc [0..<k]" by (simp add: upt_conv_Cons map_Suc_upt)
  then show ?thesis by (simp add: crypt_blocks_def comp_def read_at_def add_ac del: upt_Suc)
qed

lemma crypt_blocks_inverse:
  assumes "length input = 512 * k" and "\<And>l b. length b = 512 \<Longrightarrow> length (f l b) = 512 \<and> g l (f l b) = b"
  shows "crypt_blocks g lba k (crypt_blocks f lba k input) = input"
  using assms(1)
proof (induction k arbitrary: lba input)
  case (Suc k)
  have "length (take 512 input) = 512" using Suc.prems by simp
  then have "length (f (of_nat lba) (take 512 input)) = 512"
    "g (of_nat lba) (f (of_nat lba) (take 512 input)) = take 512 input" using assms(2) by blast+
  moreover have "crypt_blocks g (Suc lba) k (crypt_blocks f (Suc lba) k (drop 512 input)) = drop 512 input"
    using Suc.prems by (intro Suc.IH) simp
  ultimately show ?case by (simp add: crypt_blocks_Suc)
qed (simp add: crypt_blocks_def)

lemma crypt_blocks_append:
  assumes "length a = 512 * k"
  shows "crypt_blocks f lba (k + n) (a @ b) = crypt_blocks f lba k a @ crypt_blocks f (lba + k) n b"
  using assms
proof (induction k arbitrary: lba a)
  case (Suc k)
  then have "crypt_blocks f (Suc lba) (k + n) (drop 512 a @ b) =
      crypt_blocks f (Suc lba) k (drop 512 a) @ crypt_blocks f (Suc lba + k) n b"
    by (intro Suc.IH) simp
  then show ?case using Suc.prems by (simp add: crypt_blocks_Suc)
qed (simp add: crypt_blocks_def)

lemma disk_crypto_encrypt_blocks:
  assumes "aes_ok lib" and "length input = 512 * k" and "lba_fits dc offset (length input)" and "length out = length input"
  shows "disk_crypto_encrypt lib dc input out offset =
    crypt_blocks (dc_encrypt lib dc) ((offset - base_offset dc) div 512) k input"
  unfolding disk_crypto_encrypt_def
  by (intro crypt_range_blocks assms(2-4)) (rule dc_inverse [OF assms(1)])

section \<open>Properties\<close>

text \<open>
  Decryption inverts encryption. For whole blocks at an address not below the base
  offset, decrypting at the same address what was encrypted gives the input back, whatever the
  output buffers held, as long as the cipher library's two directions are inverse on a block.
\<close>

theorem disk_crypto_roundtrip:
  assumes "aes_ok lib" and "512 dvd length input" and "lba_fits dc offset (length input)"
    and "length out = length input" and "length out' = length input"
  shows "disk_crypto_decrypt lib dc (disk_crypto_encrypt lib dc input out offset) out' offset = input"
proof -
  from assms(2) obtain k where k: "length input = 512 * k" by (auto elim: dvdE)
  let ?l = "(offset - base_offset dc) div 512"
  let ?enc = "crypt_blocks (dc_encrypt lib dc) ?l k input"
  have f: "length (dc_encrypt lib dc l b) = 512 \<and> dc_decrypt lib dc l (dc_encrypt lib dc l b) = b" if "length b = 512" for l b
    using dc_inverse [OF assms(1) that] by blast
  have e: "disk_crypto_encrypt lib dc input out offset = ?enc"
    by (rule disk_crypto_encrypt_blocks [OF assms(1) k assms(3,4)])
  have len: "length ?enc = 512 * k" using length_crypt_blocks [OF k] f by blast
  have b: "dc_lba dc offset = of_nat ?l" using assms(3) by (simp add: dc_lba_def lba_fits_def)
  have "crypt_loop (dc_decrypt lib dc) (of_nat ?l) (of_nat ?l + of_nat k) ?enc = crypt_blocks (dc_decrypt lib dc) ?l k ?enc"
    unfolding crypt_blocks_def [of "dc_decrypt lib dc"] using assms(3) len k
    by (intro crypt_loop_blocks) (simp_all add: lba_fits_def)
  also have "\<dots> = input" by (rule crypt_blocks_inverse [OF k f])
  finally show ?thesis
    using k assms(5) len by (simp add: e b disk_crypto_decrypt_def crypt_range_def)
qed

text \<open>
  The result does not depend on how the data is cut into writes. Encrypting a
  piece of whole blocks and then the next one at the address where the first ended gives the same
  bytes as encrypting both at once, so the block number that selects the initialisation vector
  is that of the block on the disk.
\<close>

theorem disk_crypto_append:
  assumes "aes_ok lib" and "512 dvd length a" and "512 dvd length b"
    and "lba_fits dc offset (length a + length b)" and "length out = length a + length b"
  shows "disk_crypto_encrypt lib dc (a @ b) out offset =
    disk_crypto_encrypt lib dc a a offset @ disk_crypto_encrypt lib dc b b (offset + length a)"
proof -
  from assms(2,3) obtain k n where k: "length a = 512 * k" and n: "length b = 512 * n" by (auto elim!: dvdE)
  have fits: "lba_fits dc offset (length a)" "lba_fits dc (offset + length a) (length b)"
    "lba_fits dc offset (length (a @ b))"
    using assms(4) k n by (auto simp: lba_fits_def)
  have l: "(offset + length a - base_offset dc) div 512 = (offset - base_offset dc) div 512 + k"
  proof -
    have "offset + length a - base_offset dc = (offset - base_offset dc) + 512 * k"
      using fits(1) k by (simp add: lba_fits_def)
    then show ?thesis by simp
  qed
  have "disk_crypto_encrypt lib dc (a @ b) out offset =
      crypt_blocks (dc_encrypt lib dc) ((offset - base_offset dc) div 512) (k + n) (a @ b)"
    using assms(5) k n by (intro disk_crypto_encrypt_blocks [OF assms(1) _ fits(3)]) simp_all
  then show ?thesis
    using disk_crypto_encrypt_blocks [OF assms(1) k fits(1) refl] disk_crypto_encrypt_blocks [OF assms(1) n fits(2) refl]
    by (simp add: crypt_blocks_append [OF k] l)
qed

text \<open>A cipher that a witness can compute: exclusive or with the first byte of the vector and of the key.\<close>

definition toy_aes :: aes where
  "toy_aes = (let f = (\<lambda>key iv. map (\<lambda>b :: byte. b XOR hd key XOR hd iv)) in
     \<lparr>cbc_encrypt = f, cbc_decrypt = f, xts_encrypt = f, xts_decrypt = f\<rparr>)"

lemma toy_aes_ok: "aes_ok toy_aes"
proof -
  have "b XOR c XOR d XOR c XOR d = b" for b c d :: byte
    by (simp add: xor.assoc xor.left_commute)
  then show ?thesis by (simp add: aes_ok_def toy_aes_def Let_def comp_def xor.assoc xor.left_commute)
qed

definition sample_dc :: disk_crypto where
  "sample_dc = \<lparr>dc_cipher = aes_xts_plain64, dc_key = replicate 64 7, base_offset = 1024\<rparr>"

theorem disk_crypto_roundtrip_witness:
  "disk_crypto_decrypt toy_aes sample_dc
     (disk_crypto_encrypt toy_aes sample_dc (replicate 1024 5) (replicate 1024 0) 4096) (replicate 1024 0) 4096 =
   replicate 1024 5"
  by (rule disk_crypto_roundtrip [OF toy_aes_ok]) (simp_all add: lba_fits_def sample_dc_def)

theorem disk_crypto_append_witness:
  "disk_crypto_encrypt toy_aes sample_dc (replicate 512 5 @ replicate 1024 6) (replicate 1536 0) 4096 =
   disk_crypto_encrypt toy_aes sample_dc (replicate 512 5) (replicate 512 5) 4096 @
   disk_crypto_encrypt toy_aes sample_dc (replicate 1024 6) (replicate 1024 6) (4096 + length (replicate 512 (5 :: byte)))"
  by (rule disk_crypto_append [OF toy_aes_ok]) (simp_all add: lba_fits_def sample_dc_def)

end
