(* ===== verification/Pad_Writer.thy ===== *)
theory Pad_Writer
  imports Disk_Crypto Cache_Total
begin

text \<open>
  The writer that turns chunks of any size and address into writes of whole blocks
  (\<open>pad_to_block_writer.c\<close>), with encryption on the way to the cache. The state is the cache and
  the \<open>struct pad_to_block_writer\<close>; its pointer to the cache is the first component of the pair.
\<close>

section \<open>The writer\<close>

record pad_to_block_writer =
  pbuf :: "byte list"
  pindex :: nat
  poffset :: nat
  pdc :: "disk_crypto option"

type_synonym 'a writer = "(block_cache \<times> pad_to_block_writer, 'a) action"

definition on_cache :: "(block_cache, 'a) action \<Rightarrow> 'a writer" where
  "on_cache m = (\<lambda>(bc, w). case m bc of (r, bc') \<Rightarrow> (r, (bc', w)))"

definition crypt_buf :: "aes \<Rightarrow> disk_crypto option \<Rightarrow> byte list \<Rightarrow> nat \<Rightarrow> byte list" where
  "crypt_buf lib d buf offset = (case d of None \<Rightarrow> buf | Some dc \<Rightarrow> disk_crypto_encrypt lib dc buf buf offset)"

text \<open>
  Both calls of \<open>encrypt_and_pwrite\<close> pass the writer's own buffer, which is encrypted in place,
  its size and its offset.
\<close>

definition encrypt_and_pwrite :: "aes \<Rightarrow> unit writer" where
  "encrypt_and_pwrite lib = (\<lambda>(bc, w).
     let b = crypt_buf lib (pdc w) (pbuf w) (poffset w)
     in on_cache (block_cache_pwrite b (poffset w) True) (bc, w\<lparr>pbuf := b\<rparr>))"

definition encrypt_and_pwrite_const :: "aes \<Rightarrow> byte list \<Rightarrow> nat \<Rightarrow> unit writer" where
  "encrypt_and_pwrite_const lib buf offset = (\<lambda>(bc, w).
     on_cache (block_cache_pwrite (crypt_buf lib (pdc w) buf offset) offset True) (bc, w))"

definition ptbw_init :: "byte list \<Rightarrow> disk_crypto option \<Rightarrow> pad_to_block_writer" where
  "ptbw_init garbage dc = \<lparr>pbuf = garbage, pindex = 0, poffset = 0, pdc = dc\<rparr>"

definition ptbw_flush :: "aes \<Rightarrow> unit writer" where
  "ptbw_flush lib = (\<lambda>(bc, w).
     if pindex w > 0 then
       ok_then (encrypt_and_pwrite lib) (\<lambda>_ (bc, w). (Inr (), (bc, w\<lparr>pindex := 0\<rparr>)))
         (bc, w\<lparr>pbuf := write_at (pindex w) (replicate (512 - pindex w) 0) (pbuf w)\<rparr>)
     else (Inr (), (bc, w)))"

text \<open>
  The first part of \<open>ptbw_pwrite\<close>, when the buffer holds bytes. \<open>None\<close> is the early return; else
  the bytes that remain and their address.
\<close>

definition fill_hole :: "nat \<Rightarrow> pad_to_block_writer \<Rightarrow> pad_to_block_writer" where
  "fill_hole offset w =
     (let current_index = poffset w + pindex w in
      if offset > current_index \<and> offset < poffset w + 512 then
        w\<lparr>pbuf := write_at (pindex w) (replicate (offset - current_index) 0) (pbuf w),
          pindex := pindex w + (offset - current_index)\<rparr>
      else w)"

definition add_leftover :: "byte list \<Rightarrow> pad_to_block_writer \<Rightarrow> pad_to_block_writer" where
  "add_leftover buf w = w\<lparr>pbuf := write_at (pindex w) buf (pbuf w), pindex := pindex w + length buf\<rparr>"

definition ptbw_leftovers :: "aes \<Rightarrow> byte list \<Rightarrow> nat \<Rightarrow> (byte list \<times> nat) option writer" where
  "ptbw_leftovers lib buf offset = (\<lambda>(bc, w0).
     if pindex w0 = 0 then (Inr (Some (buf, offset)), (bc, w0))
     else if offset < poffset w0 + pindex w0 then (Inl (Undefined ''assertion failed''), (bc, w0))
     else
       (let w = fill_hole offset w0 in
        if poffset w + pindex w = offset then
          (let to_copy = min (512 - pindex w) (length buf); w' = add_leftover (take to_copy buf) w in
           if pindex w' = 512 then
             ok_then (encrypt_and_pwrite lib)
               (\<lambda>_ (bc, w). (Inr (Some (drop to_copy buf, offset + to_copy)), (bc, w\<lparr>pindex := 0\<rparr>))) (bc, w')
           else (Inr None, (bc, w')))
        else ok_then (ptbw_flush lib) (\<lambda>_ s. (Inr (Some (buf, offset)), s)) (bc, w)))"

text \<open>The last part: whole blocks straight to the cache, and the rest into the buffer.\<close>

definition keep_rest :: "byte list \<Rightarrow> nat \<Rightarrow> unit writer" where
  "keep_rest buf offset = (\<lambda>(bc, w).
     if length buf > 0 then (Inr (), (bc, w\<lparr>pbuf := write_at 0 buf (pbuf w), pindex := length buf, poffset := offset\<rparr>))
     else (Inr (), (bc, w)))"

definition ptbw_blocks :: "aes \<Rightarrow> byte list \<Rightarrow> nat \<Rightarrow> unit writer" where
  "ptbw_blocks lib buf offset =
     (if length buf > 512 then
        (let to_copy = length buf div 512 * 512 in
         ok_then (encrypt_and_pwrite_const lib (take to_copy buf) offset)
           (\<lambda>_. keep_rest (drop to_copy buf) (offset + to_copy)))
      else keep_rest buf offset)"

definition pad_start :: "nat \<Rightarrow> pad_to_block_writer \<Rightarrow> pad_to_block_writer" where
  "pad_start offset w = w\<lparr>pbuf := write_at 0 (replicate (offset mod 512) 0) (pbuf w), pindex := offset mod 512,
     poffset := offset - offset mod 512\<rparr>"

definition synced :: "nat \<Rightarrow> pad_to_block_writer \<Rightarrow> bool" where
  "synced offset w = (0 < pindex w \<and> pindex w < 512 \<and> 512 dvd poffset w \<and> poffset w + pindex w = offset)"

lemma leftovers_synced:
  assumes "ptbw_leftovers lib buf offset (bc, w) = (Inr (Some (buf', offset')), s')" and "synced offset w"
  shows "512 dvd offset'"
proof -
  let ?w' = "add_leftover (take (min (512 - pindex w) (length buf)) buf) w"
  have "pindex ?w' = 512" and o: "offset' = offset + min (512 - pindex w) (length buf)"
    using assms by (auto simp: ptbw_leftovers_def synced_def fill_hole_def Let_def elim!: ok_then_Inr_E split: if_splits)
  then have "offset' = poffset w + 512" using assms(2) by (auto simp: add_leftover_def synced_def)
  then show ?thesis using assms(2) by (simp add: synced_def)
qed

function ptbw_pwrite :: "aes \<Rightarrow> byte list \<Rightarrow> nat \<Rightarrow> unit writer" where
  "ptbw_pwrite lib buf offset (bc, w) =
     (case ptbw_leftovers lib buf offset (bc, w) of
        (Inl e, s) \<Rightarrow> (Inl e, s)
      | (Inr None, s) \<Rightarrow> (Inr (), s)
      | (Inr (Some (buf', offset')), (bc', w')) \<Rightarrow>
          if offset' mod 512 \<noteq> 0 then ptbw_pwrite lib buf' offset' (bc', pad_start offset' w')
          else ptbw_blocks lib buf' offset' (bc', w'))"
  by pat_completeness auto
termination
proof (relation "measure (\<lambda>(_, _, offset, _, w). if synced offset w then 0 else 1)", goal_cases)
  case (2 lib buf offset bc w x s y s' buf' offset' bc' w')
  from 2(6) have "synced offset' (pad_start offset' w')" by (simp add: synced_def pad_start_def dvd_minus_mod)
  moreover have "\<not> synced offset w"
    using leftovers_synced [of lib buf offset bc w buf' offset'] 2 by (metis mod_0_imp_dvd dvd_imp_mod_0)
  ultimately show ?case by simp
qed simp

declare ptbw_pwrite.simps [simp del]

section \<open>Rules for sequences of calls\<close>

text \<open>
  A call meets its postcondition when it returns successfully, and it does return successfully if
  the file has no faults.
\<close>

definition returns :: "'a writer \<Rightarrow> ('a \<Rightarrow> block_cache \<times> pad_to_block_writer \<Rightarrow> bool) \<Rightarrow>
    block_cache \<times> pad_to_block_writer \<Rightarrow> bool" where
  "returns m Q s = (case m s of (Inl _, _) \<Rightarrow> \<not> healthy (fst s)
     | (Inr x, t) \<Rightarrow> Q x t \<and> (healthy (fst s) \<longrightarrow> healthy (fst t)))"

definition meets :: "(block_cache \<times> pad_to_block_writer \<Rightarrow> bool) \<Rightarrow> 'a writer \<Rightarrow>
    ('a \<Rightarrow> block_cache \<times> pad_to_block_writer \<Rightarrow> bool) \<Rightarrow> bool" where
  "meets P m Q = (\<forall>s. P s \<longrightarrow> returns m Q s)"

lemma returnsI:
  assumes "\<And>x t. m s = (Inr x, t) \<Longrightarrow> Q x t \<and> (healthy (fst s) \<longrightarrow> healthy (fst t))"
    and "\<And>e t. m s = (Inl e, t) \<Longrightarrow> \<not> healthy (fst s)"
  shows "returns m Q s"
proof (cases "m s" rule: prod.exhaust)
  case (Pair r t)
  then show ?thesis using assms(1) [of _ t] assms(2) [of _ t] by (cases r) (auto simp: returns_def)
qed

lemma meetsI:
  assumes "\<And>bc w x t. P (bc, w) \<Longrightarrow> m (bc, w) = (Inr x, t) \<Longrightarrow> Q x t \<and> (healthy bc \<longrightarrow> healthy (fst t))"
    and "\<And>bc w e t. P (bc, w) \<Longrightarrow> m (bc, w) = (Inl e, t) \<Longrightarrow> \<not> healthy bc"
  shows "meets P m Q"
  unfolding meets_def
proof (intro allI impI returnsI)
  fix s x t assume "P s" "m s = (Inr x, t)"
  then show "Q x t \<and> (healthy (fst s) \<longrightarrow> healthy (fst t))" using assms(1) [of "fst s" "snd s"] by simp
next
  fix s e t assume "P s" "m s = (Inl e, t)"
  then show "\<not> healthy (fst s)" using assms(2) [of "fst s" "snd s"] by simp
qed

lemma returns_ok_then:
  assumes "returns m Q s" and "\<And>x t. Q x t \<Longrightarrow> returns (f x) R t"
  shows "returns (ok_then m f) R s"
proof (cases "m s" rule: prod.exhaust)
  case (Pair r t)
  show ?thesis
  proof (cases r)
    case (Inr x)
    have "Q x t" "healthy (fst s) \<longrightarrow> healthy (fst t)" using assms(1) Pair Inr by (simp_all add: returns_def)
    moreover have "returns (f x) R t" using assms(2) \<open>Q x t\<close> .
    ultimately show ?thesis using Pair Inr by (auto simp: returns_def ok_then_def split: prod.splits sum.splits)
  qed (use assms(1) Pair in \<open>simp add: ok_then_def returns_def split: prod.splits\<close>)
qed

lemma meets_ok_then:
  assumes "meets P m Q" and "\<And>x. meets (Q x) (f x) R"
  shows "meets P (ok_then m f) R"
  using assms returns_ok_then unfolding meets_def by blast

lemma meets_weaken:
  assumes "meets P m Q" and "\<And>s. P' s \<Longrightarrow> P s" and "\<And>x s. Q x s \<Longrightarrow> Q' x s"
  shows "meets P' m Q'"
  using assms unfolding meets_def returns_def by (fastforce split: prod.splits sum.splits)

lemma meets_pure: "(\<And>bc w. P (bc, w) \<Longrightarrow> Q x (bc, g bc w)) \<Longrightarrow> meets P (\<lambda>(bc, w). (Inr x, (bc, g bc w))) Q"
  by (auto simp: meets_def returns_def)

text \<open>The cache operation that the writer uses, with the laws of the block store.\<close>

lemma meets_pwrite:
  assumes "\<And>bc w. P (bc, w) \<Longrightarrow> cache_ok bc" and "512 dvd offset" and "512 dvd length buf"
    and "\<And>bc w bc'. P (bc, w) \<Longrightarrow> cache_ok bc' \<Longrightarrow> in_range bc' = in_range bc \<Longrightarrow>
        (\<And>a. in_range bc a \<Longrightarrow> view bc' a = store_bytes buf offset (view bc) a) \<Longrightarrow> Q () (bc', w)"
  shows "meets P (on_cache (block_cache_pwrite buf offset True)) Q"
proof (rule meetsI)
  fix bc w x t assume p: "P (bc, w)" and e: "on_cache (block_cache_pwrite buf offset True) (bc, w) = (Inr x, t)"
  then obtain bc' where w: "block_cache_pwrite buf offset True bc = (Inr x, bc')" and t: "t = (bc', w)"
    by (auto simp: on_cache_def split: prod.splits)
  have "healthy bc \<longrightarrow> healthy bc'"
    using block_cache_pwrite_succeeds [of buf offset True] w by (auto simp: succeeds_def)
  moreover have "Q () t"
    using assms(4) [OF p] cache.wr_law [OF w assms(1) [OF p] assms(2,3)] by (simp add: t)
  ultimately show "Q x t \<and> (healthy bc \<longrightarrow> healthy (fst t))" by (simp add: t)
next
  fix bc w e t assume "on_cache (block_cache_pwrite buf offset True) (bc, w) = (Inl e, t)"
  then show "\<not> healthy bc"
    using block_cache_pwrite_succeeds [of buf offset True] by (force simp: on_cache_def succeeds_def split: prod.splits)
qed

section \<open>What the medium holds\<close>

text \<open>
  \<open>coded\<close> is the byte that the medium has at an address of a block that was written, when the
  plain contents are \<open>f\<close>: the byte itself, or that of the encrypted block.
\<close>

definition code_block :: "aes \<Rightarrow> disk_crypto option \<Rightarrow> nat \<Rightarrow> byte list \<Rightarrow> byte list" where
  "code_block lib d L b = (case d of None \<Rightarrow> b
     | Some dc \<Rightarrow> dc_encrypt lib dc (of_nat ((512 * L - base_offset dc) div 512)) b)"

definition coded :: "aes \<Rightarrow> disk_crypto option \<Rightarrow> (nat \<Rightarrow> byte) \<Rightarrow> nat \<Rightarrow> byte" where
  "coded lib d f a = code_block lib d (a div 512) (map f [512 * (a div 512)..<512 * (a div 512) + 512]) ! (a mod 512)"

definition crypto_ok :: "aes \<Rightarrow> disk_crypto option \<Rightarrow> nat \<Rightarrow> nat \<Rightarrow> bool" where
  "crypto_ok lib d lo hi = (case d of None \<Rightarrow> True
     | Some dc \<Rightarrow> aes_ok lib \<and> base_offset dc \<le> lo \<and> hi < 2 ^ 63)"

lemma coded_cong:
  assumes "\<And>b. b div 512 = a div 512 \<Longrightarrow> f b = g b"
  shows "coded lib d f a = coded lib d g a"
proof -
  have "map f [512 * (a div 512)..<512 * (a div 512) + 512] = map g [512 * (a div 512)..<512 * (a div 512) + 512]"
    using assms by (intro map_cong refl) (auto simp: div_nat_eqI)
  then show ?thesis by (simp only: coded_def)
qed

lemma coded_None [simp]: "coded lib None f a = f a"
  by (simp add: coded_def code_block_def)

lemma crypt_blocks_nth:
  assumes "length input = 512 * k" and "\<And>l b. length b = 512 \<Longrightarrow> length (f l b) = 512" and "j < 512 * k"
  shows "crypt_blocks f l k input ! j = f (of_nat (l + j div 512)) (read_at (512 * (j div 512)) 512 input) ! (j mod 512)"
  using assms(1,3)
proof (induction k arbitrary: l input j)
  case (Suc k)
  have len: "length (f (of_nat l) (take 512 input)) = 512" using Suc.prems(1) by (intro assms(2)) simp
  show ?case
  proof (cases "j < 512")
    case True
    then show ?thesis using len by (simp add: crypt_blocks_Suc nth_append read_at_def)
  next
    case False
    then obtain i where j: "j = 512 + i" using le_Suc_ex by (metis not_less)
    have "crypt_blocks f (Suc l) k (drop 512 input) ! i =
        f (of_nat (Suc l + i div 512)) (read_at (512 * (i div 512)) 512 (drop 512 input)) ! (i mod 512)"
      using Suc.prems j by (intro Suc.IH) simp_all
    moreover have "(512 + i) div 512 = Suc (i div 512)" by simp
    ultimately show ?thesis using len by (simp add: crypt_blocks_Suc nth_append j read_at_def add_ac del: add_Suc_right)
  qed
qed simp

lemma read_at_map_upt:
  assumes "i + n \<le> m"
  shows "read_at i n (map f [o'..<o' + m]) = map f [o' + i..<o' + i + n]"
  using assms by (intro nth_equalityI) (simp_all add: nth_read_at add_ac)

lemma crypt_buf_coded:
  assumes "crypto_ok lib d offset (offset + length buf)" and "512 dvd offset" and "512 dvd length buf"
    and "buf = map f [offset..<offset + length buf]"
  shows "crypt_buf lib d buf offset = map (coded lib d f) [offset..<offset + length buf]"
proof (cases d)
  case None
  have "coded lib None f = f" by (rule ext) simp
  then show ?thesis using assms(4) by (simp only: None crypt_buf_def option.case)
next
  case (Some dc)
  from assms(2,3) obtain L k where L: "offset = 512 * L" and k: "length buf = 512 * k" by (auto elim!: dvdE)
  have c: "aes_ok lib" "base_offset dc \<le> 512 * L" "512 * L + 512 * k < 2 ^ 63"
    using assms(1) Some L k by (simp_all add: crypto_ok_def)
  let ?f = "dc_encrypt lib dc" and ?l = "(offset - base_offset dc) div 512"
  have len: "\<And>l b. length b = 512 \<Longrightarrow> length (?f l b) = 512" using dc_inverse [OF c(1)] by blast
  have fits: "lba_fits dc offset (length buf)"
    using c(2,3) k by (simp add: lba_fits_def L)
  have e: "crypt_buf lib d buf offset = crypt_blocks ?f ?l k buf"
    using disk_crypto_encrypt_blocks [OF c(1) k fits refl] by (simp add: crypt_buf_def Some)
  show ?thesis unfolding e
  proof (rule nth_equalityI)
    show "length (crypt_blocks ?f ?l k buf) = length (map (coded lib d f) [offset..<offset + length buf])"
      using length_crypt_blocks [OF k len] k by simp
  next
    fix j assume "j < length (crypt_blocks ?f ?l k buf)"
    then have j: "j < 512 * k" using length_crypt_blocks [OF k len] by simp
    have "j div 512 < k" using j by (simp add: less_mult_imp_div_less mult.commute)
    then have r: "512 * (j div 512) + 512 \<le> 512 * k" by simp
    have b: "read_at (512 * (j div 512)) 512 buf = map f [offset + 512 * (j div 512)..<offset + 512 * (j div 512) + 512]"
      by (subst assms(4)) (use read_at_map_upt [OF r, of f offset] k in simp)
    have q: "(offset + j) div 512 = L + j div 512" "(offset + j) mod 512 = j mod 512" by (simp_all add: L)
    have "(512 * (L + j div 512) - base_offset dc) div 512 = ?l + j div 512"
    proof -
      have "512 * (L + j div 512) - base_offset dc = (offset - base_offset dc) + 512 * (j div 512)" using c(2) by (simp add: L)
      then show ?thesis by simp
    qed
    then have "crypt_blocks ?f ?l k buf ! j = coded lib d f (offset + j)"
      using crypt_blocks_nth [where l = ?l, OF k len j] by (simp add: coded_def code_block_def Some q b L distrib_left)
    then show "crypt_blocks ?f ?l k buf ! j = map (coded lib d f) [offset..<offset + length buf] ! j"
      using j k by simp
  qed
qed

section \<open>The state between calls\<close>

text \<open>
  \<open>T\<close> is the set of blocks that were written to so far, \<open>f\<close> their plain contents (zero where
  nothing was written), and everything that was written is below \<open>e\<close>. All blocks of \<open>T\<close>
  but the one that waits in the buffer are on the medium; the rest of the medium is as before.
\<close>

definition ptbw_inv :: "aes \<Rightarrow> disk_crypto option \<Rightarrow> nat \<Rightarrow> nat \<Rightarrow> (nat \<Rightarrow> bool) \<Rightarrow> (nat \<Rightarrow> byte) \<Rightarrow>
    nat set \<Rightarrow> (nat \<Rightarrow> byte) \<Rightarrow> nat \<Rightarrow> block_cache \<times> pad_to_block_writer \<Rightarrow> bool" where
  "ptbw_inv lib d lo hi R m0 T f e = (\<lambda>(bc, w).
     cache_ok bc \<and> in_range bc = R \<and> pdc w = d \<and> length (pbuf w) = 512 \<and> pindex w \<le> 512 \<and>
     (\<forall>a. R a \<longrightarrow> view bc a = (if a div 512 \<in> T \<and> \<not> (pindex w > 0 \<and> a div 512 = poffset w div 512)
                               then coded lib d f a else m0 a)) \<and>
     (\<forall>L \<in> T. 512 * L + 512 \<le> e \<or> (pindex w > 0 \<and> L = poffset w div 512)) \<and>
     (\<forall>a. f a \<noteq> 0 \<longrightarrow> a < e \<and> a div 512 \<in> T) \<and>
     (pindex w > 0 \<longrightarrow> 512 dvd poffset w \<and> poffset w div 512 \<in> T \<and> poffset w + pindex w = e \<and>
        take (pindex w) (pbuf w) = map f [poffset w..<e] \<and> lo \<le> poffset w \<and> poffset w + 512 \<le> hi))"

definition touched :: "nat \<Rightarrow> nat \<Rightarrow> nat set" where
  "touched offset n = (\<lambda>a. a div 512) ` {offset..<offset + n}"

lemma touched_0 [simp]: "touched offset 0 = {}"
  by (simp add: touched_def)

lemma touched_split: "touched offset (m + n) = touched offset m \<union> touched (offset + m) n"
proof -
  have "{offset..<offset + (m + n)} = {offset..<offset + m} \<union> {offset + m..<offset + m + n}" by auto
  then show ?thesis by (simp add: touched_def image_Un)
qed

lemma touched_in_block:
  assumes "512 dvd p" and "p \<le> offset" and "offset + n \<le> p + 512"
  shows "touched offset n \<subseteq> {p div 512}"
  using assms by (auto simp: touched_def intro!: div_nat_eqI elim!: dvdE)

lemma start_touched: "0 < n \<Longrightarrow> offset div 512 \<in> touched offset n"
  by (force simp: touched_def)

lemma store_bytes_Nil [simp]: "store_bytes [] offset f = f"
  by (rule ext) (auto simp: store_bytes_def)

lemma store_bytes_append:
  "store_bytes b (offset + length a) (store_bytes a offset f) = store_bytes (a @ b) offset f"
  by (rule ext) (auto simp: store_bytes_def nth_append)

lemma store_bytes_take_drop:
  "n \<le> length buf \<Longrightarrow> store_bytes (drop n buf) (offset + n) (store_bytes (take n buf) offset f) = store_bytes buf offset f"
  using store_bytes_append [of "drop n buf" offset "take n buf" f] by simp

lemma store_map:
  "store_bytes (map g [offset..<offset + n]) offset m a = (if offset \<le> a \<and> a < offset + n then g a else m a)"
proof (cases "offset \<le> a \<and> a < offset + n")
  case True
  then have "[offset..<offset + n] ! (a - offset) = a" by (subst nth_upt) auto
  then show ?thesis using True by (auto simp: store_bytes_def)
qed (auto simp: store_bytes_def)

lemma store_zeros: "(\<And>a. offset \<le> a \<Longrightarrow> a < offset + n \<Longrightarrow> f a = 0) \<Longrightarrow> store_bytes (replicate n 0) offset f = f"
  by (rule ext) (auto simp: store_bytes_def)

lemma map_store_bytes_split:
  assumes "p \<le> o'"
  shows "map (store_bytes xs o' f) [p..<o' + length xs] = map f [p..<o'] @ xs"
proof -
  have "[p..<o' + length xs] = [p..<o'] @ [o'..<o' + length xs]" using assms by (rule upt_add_eq_append)
  then show ?thesis by (simp add: map_store_bytes_same store_bytes_other)
qed

lemma div_block: "512 dvd p \<Longrightarrow> a div 512 = p div 512 \<longleftrightarrow> p \<le> a \<and> a < p + (512 :: nat)"
  by (auto elim!: dvdE simp: div_nat_eqI)

text \<open>Bytes that are appended to the block in the buffer.\<close>

lemma inv_add_leftover:
  assumes "ptbw_inv lib d lo hi R m0 T f e (bc, w)" and "0 < pindex w" and "pindex w + length xs \<le> 512"
  shows "ptbw_inv lib d lo hi R m0 T (store_bytes xs e f) (e + length xs) (bc, add_leftover xs w)"
proof -
  let ?p = "poffset w" and ?f = "store_bytes xs e f"
  note I = assms(1) [unfolded ptbw_inv_def, simplified]
  have p: "512 dvd ?p" "?p div 512 \<in> T" "?p + pindex w = e" "take (pindex w) (pbuf w) = map f [?p..<e]"
    "lo \<le> ?p" "?p + 512 \<le> hi" using I assms(2) by auto
  have same: "f a = ?f a" if "a div 512 \<noteq> ?p div 512" for a
    using that p assms(3) by (auto simp: div_block store_bytes_def)
  have c: "coded lib d ?f a = coded lib d f a" if "a div 512 \<noteq> ?p div 512" for a
    using that same by (intro coded_cong) simp
  have b: "take (pindex w + length xs) (write_at (pindex w) xs (pbuf w)) = map ?f [?p..<e + length xs]"
    using I assms(3) p(3,4) by (simp add: write_at_def map_store_bytes_split)
  have z: "\<forall>a. ?f a \<noteq> 0 \<longrightarrow> a < e + length xs \<and> a div 512 \<in> T"
  proof (intro allI impI)
    fix a assume a: "?f a \<noteq> 0"
    show "a < e + length xs \<and> a div 512 \<in> T"
    proof (cases "a div 512 = ?p div 512")
      case True
      then show ?thesis using a I p by (auto simp: store_bytes_def split: if_splits)
    next
      case False
      then have "f a \<noteq> 0" using a same by simp
      then show ?thesis using I by (auto intro: trans_less_add1)
    qed
  qed
  have v: "\<forall>a. R a \<longrightarrow> view bc a = (if a div 512 \<in> T \<and> a div 512 \<noteq> ?p div 512 then coded lib d ?f a else m0 a)"
    using I c assms(2) by auto
  have t: "\<forall>L \<in> T. 512 * L + 512 \<le> e + length xs \<or> L = ?p div 512" using I by (auto intro: trans_le_add1)
  show ?thesis unfolding ptbw_inv_def prod.case
    using I assms(2,3) p b z v t by (simp add: add_leftover_def)
qed

lemma inv_fill:
  assumes "ptbw_inv lib d lo hi R m0 T f e (bc, w)" and "0 < pindex w" and "pindex w + n \<le> 512"
  shows "ptbw_inv lib d lo hi R m0 T f (e + n) (bc, add_leftover (replicate n 0) w)"
proof -
  have "f a = 0" if "e \<le> a" for a
    using assms(1) that by (fastforce simp: ptbw_inv_def)
  then have "store_bytes (replicate n 0) e f = f" by (intro store_zeros)
  then show ?thesis using inv_add_leftover [OF assms(1,2), of "replicate n 0"] assms(3) by simp
qed

text \<open>A new block in the buffer, and a later bound.\<close>

lemma inv_start:
  assumes "ptbw_inv lib d lo hi R m0 T f e (bc, w)" and "pindex w = 0" and "512 dvd p" and "e \<le> p + length xs"
    and "p div 512 \<notin> T" and "0 < length xs" and "length xs \<le> 512" and "lo \<le> p" and "p + 512 \<le> hi"
  shows "ptbw_inv lib d lo hi R m0 (insert (p div 512) T) (store_bytes xs p f) (p + length xs)
    (bc, w\<lparr>pbuf := write_at 0 xs (pbuf w), pindex := length xs, poffset := p\<rparr>)"
proof -
  note I = assms(1) [unfolded ptbw_inv_def, simplified]
  let ?f = "store_bytes xs p f"
  have same: "f a = ?f a" if "a div 512 \<noteq> p div 512" for a
    using that assms(3,7) by (auto simp: div_block store_bytes_def)
  have c: "coded lib d ?f a = coded lib d f a" if "a div 512 \<noteq> p div 512" for a
    using that same by (intro coded_cong) simp
  have z: "\<forall>a. ?f a \<noteq> 0 \<longrightarrow> a < p + length xs \<and> (a div 512 = p div 512 \<or> a div 512 \<in> T)"
  proof (intro allI impI)
    fix a assume a: "?f a \<noteq> 0"
    show "a < p + length xs \<and> (a div 512 = p div 512 \<or> a div 512 \<in> T)"
    proof (cases "f a = 0")
      case True
      then have "p \<le> a \<and> a < p + length xs" using a by (auto simp: store_bytes_def split: if_splits)
      then show ?thesis using assms(3,7) by (simp add: div_block)
    next
      case False
      then show ?thesis using I assms(4) by (auto intro: less_le_trans)
    qed
  qed
  have v: "\<forall>a. R a \<longrightarrow> view bc a =
      (if a div 512 \<in> insert (p div 512) T \<and> a div 512 \<noteq> p div 512 then coded lib d ?f a else m0 a)"
    using I c assms(2,5) by auto
  have t: "\<forall>L \<in> T. 512 * L + 512 \<le> p + length xs" using I assms(2,4) by (auto intro: le_trans)
  have b: "take (length xs) (write_at 0 xs (pbuf w)) = map ?f [p..<p + length xs]"
    by (simp add: write_at_def map_store_bytes_same)
  show ?thesis unfolding ptbw_inv_def prod.case
    using I assms(3,6-9) z v t b by simp
qed

lemma inv_later:
  assumes "ptbw_inv lib d lo hi R m0 T f e (bc, w)" and "pindex w = 0" and "e \<le> e'"
  shows "ptbw_inv lib d lo hi R m0 T f e' (bc, w)"
  using assms by (fastforce simp: ptbw_inv_def)

section \<open>Writes to the cache\<close>

lemma meets_each:
  assumes "\<And>bc w. P (bc, w) \<Longrightarrow> meets (\<lambda>t. t = (bc, w)) m Q"
  shows "meets P m Q"
proof -
  have "meets (\<lambda>t. t = s) m Q" if "P s" for s using assms [of "fst s" "snd s"] that by simp
  then show ?thesis by (simp only: meets_def) blast
qed

lemma meets_at:
  assumes "m s = m' s'" and "fst s = fst s'" and "meets (\<lambda>t. t = s') m' Q"
  shows "meets (\<lambda>t. t = s) m Q"
proof -
  have "returns m' Q s'" using assms(3) by (simp add: meets_def)
  then have "returns m Q s" using assms(1,2)
    by (cases "m' s'" rule: prod.exhaust; cases "fst (m' s')") (auto simp: returns_def)
  then show ?thesis by (simp add: meets_def)
qed

lemma crypto_ok_mono: "crypto_ok lib d lo hi \<Longrightarrow> lo \<le> x \<Longrightarrow> y \<le> hi \<Longrightarrow> crypto_ok lib d x y"
  by (auto simp: crypto_ok_def split: option.splits)

lemma flush_pending:
  assumes "crypto_ok lib d lo hi"
  shows "meets (\<lambda>(bc, w). ptbw_inv lib d lo hi R m0 T f e (bc, w) \<and> pindex w = 512)
    (encrypt_and_pwrite lib) (\<lambda>_ (bc, w). ptbw_inv lib d lo hi R m0 T f e (bc, w\<lparr>pindex := 0\<rparr>))"
proof (rule meets_each, simp only: prod.case)
  fix bc w assume "ptbw_inv lib d lo hi R m0 T f e (bc, w) \<and> pindex w = 512"
  then have inv: "ptbw_inv lib d lo hi R m0 T f e (bc, w)" and i: "pindex w = 512" by simp_all
  note I = inv [unfolded ptbw_inv_def, simplified]
  let ?p = "poffset w" and ?b = "map (coded lib d f) [poffset w..<poffset w + 512]"
  have p: "512 dvd ?p" "?p div 512 \<in> T" "?p + 512 = e" "pbuf w = map f [?p..<?p + 512]" "lo \<le> ?p" "?p + 512 \<le> hi"
    using I i by auto
  have b: "crypt_buf lib d (pbuf w) ?p = ?b"
    using crypt_buf_coded [of lib d ?p "pbuf w" f] crypto_ok_mono [OF assms p(5,6)] p(1,4) I by simp
  let ?w = "w\<lparr>pbuf := ?b\<rparr>"
  have e: "encrypt_and_pwrite lib (bc, w) = on_cache (block_cache_pwrite ?b ?p True) (bc, ?w)"
    using I b by (simp add: encrypt_and_pwrite_def Let_def)
  show "meets (\<lambda>t. t = (bc, w)) (encrypt_and_pwrite lib)
      (\<lambda>_ (bc, w). ptbw_inv lib d lo hi R m0 T f e (bc, w\<lparr>pindex := 0\<rparr>))"
  proof (rule meets_at, rule e, simp only: fst_conv, rule meets_pwrite)
    fix bc1 w1 bc' assume s: "(bc1, w1) = (bc, ?w)" and ok: "cache_ok bc'" "in_range bc' = in_range bc1"
      and v: "\<And>a. in_range bc1 a \<Longrightarrow> view bc' a = store_bytes ?b ?p (view bc1) a"
    have "view bc' a = (if a div 512 \<in> T then coded lib d f a else m0 a)" if "R a" for a
    proof -
      have "view bc' a = store_bytes ?b ?p (view bc) a" using v that s I by simp
      moreover have "a div 512 = ?p div 512 \<longleftrightarrow> ?p \<le> a \<and> a < ?p + 512" by (rule div_block [OF p(1)])
      ultimately show ?thesis using I i p(2) that by (cases "a div 512 = ?p div 512") (auto simp: store_bytes_def)
    qed
    moreover have "\<forall>L \<in> T. 512 * L + 512 \<le> e"
    proof
      fix L assume "L \<in> T"
      then have "512 * L + 512 \<le> e \<or> L = ?p div 512" using I by auto
      then show "512 * L + 512 \<le> e" using p(1,3) by auto
    qed
    ultimately have "ptbw_inv lib d lo hi R m0 T f e (bc', w1\<lparr>pindex := 0\<rparr>)"
      unfolding ptbw_inv_def prod.case using I s ok by simp
    then show "case (bc', w1) of (bc, w) \<Rightarrow> ptbw_inv lib d lo hi R m0 T f e (bc, w\<lparr>pindex := 0\<rparr>)" by simp
  qed (use I p(1) in simp_all)
qed

lemma write_through:
  assumes "crypto_ok lib d lo hi" and "512 dvd offset" and "512 dvd length buf" and "lo \<le> offset" and "offset + length buf \<le> hi"
    and "e \<le> offset"
  shows "meets (\<lambda>(bc, w). ptbw_inv lib d lo hi R m0 T f e (bc, w) \<and> pindex w = 0)
    (encrypt_and_pwrite_const lib buf offset)
    (\<lambda>_ (bc, w). ptbw_inv lib d lo hi R m0 (T \<union> touched offset (length buf)) (store_bytes buf offset f)
        (offset + length buf) (bc, w) \<and> pindex w = 0)"
proof (rule meets_each, simp only: prod.case)
  fix bc w assume "ptbw_inv lib d lo hi R m0 T f e (bc, w) \<and> pindex w = 0"
  then have inv: "ptbw_inv lib d lo hi R m0 T f e (bc, w)" and i: "pindex w = 0" by simp_all
  note I = inv [unfolded ptbw_inv_def, simplified]
  let ?f = "store_bytes buf offset f" and ?n = "length buf" and ?T = "T \<union> touched offset (length buf)"
  let ?b = "map (coded lib d ?f) [offset..<offset + length buf]"
  have m: "buf = map ?f [offset..<offset + ?n]" by (simp add: map_store_bytes_same)
  have b: "crypt_buf lib d buf offset = ?b"
    using crypt_buf_coded [OF crypto_ok_mono [OF assms(1,4,5)] assms(2,3) m] .
  have e: "encrypt_and_pwrite_const lib buf offset (bc, w) = on_cache (block_cache_pwrite ?b offset True) (bc, w)"
    using I b by (simp add: encrypt_and_pwrite_const_def)
  have inside: "a div 512 \<in> touched offset ?n \<longleftrightarrow> offset \<le> a \<and> a < offset + ?n" for a
  proof
    assume "a div 512 \<in> touched offset ?n"
    then obtain c where c: "offset \<le> c" "c < offset + ?n" "a div 512 = c div 512" by (auto simp: touched_def)
    obtain L k where L: "offset = 512 * L" and k: "?n = 512 * k" using assms(2,3) by (auto elim!: dvdE)
    have "L \<le> c div 512" using c(1) L by simp
    moreover have "c div 512 < L + k" using c(2) L k by (simp add: less_mult_imp_div_less)
    moreover have "a = 512 * (a div 512) + a mod 512" "a mod 512 < 512" by simp_all
    ultimately show "offset \<le> a \<and> a < offset + ?n" unfolding L k using c(3) by linarith
  qed (auto simp: touched_def)
  have c: "coded lib d ?f a = coded lib d f a" if "a div 512 \<notin> touched offset ?n" for a
  proof (rule coded_cong)
    fix b :: nat assume "b div 512 = a div 512"
    then have "b div 512 \<notin> touched offset ?n" using that by simp
    then show "?f b = f b" using inside [of b] by (auto simp: store_bytes_def)
  qed
  have tl: "\<forall>L \<in> ?T. 512 * L + 512 \<le> offset + ?n"
  proof
    fix L assume "L \<in> ?T"
    then show "512 * L + 512 \<le> offset + ?n"
    proof
      assume "L \<in> T"
      then have "512 * L + 512 \<le> e" using I i by simp
      then show ?thesis using assms(6) by simp
    next
      assume "L \<in> touched offset ?n"
      then have "(512 * L + 511) div 512 \<in> touched offset ?n" by simp
      then have "512 * L + 511 < offset + ?n" using inside by blast
      then show ?thesis by simp
    qed
  qed
  have z: "\<forall>a. ?f a \<noteq> 0 \<longrightarrow> a < offset + ?n \<and> a div 512 \<in> ?T"
  proof (intro allI impI)
    fix a assume a: "?f a \<noteq> 0"
    show "a < offset + ?n \<and> a div 512 \<in> ?T"
    proof (cases "offset \<le> a \<and> a < offset + ?n")
      case True
      then show ?thesis using inside by blast
    next
      case False
      then have "f a \<noteq> 0" using a by (auto simp: store_bytes_def split: if_splits)
      then show ?thesis using I assms(6) by (auto intro: less_le_trans)
    qed
  qed
  show "meets (\<lambda>t. t = (bc, w)) (encrypt_and_pwrite_const lib buf offset)
      (\<lambda>_ (bc, w). ptbw_inv lib d lo hi R m0 ?T ?f (offset + ?n) (bc, w) \<and> pindex w = 0)"
  proof (rule meets_at, rule e, simp only: fst_conv, rule meets_pwrite)
    fix bc1 w1 bc' assume s: "(bc1, w1) = (bc, w)" and ok: "cache_ok bc'" "in_range bc' = in_range bc1"
      and v: "\<And>a. in_range bc1 a \<Longrightarrow> view bc' a = store_bytes ?b offset (view bc1) a"
    have s': "bc1 = bc" "w1 = w" using s by simp_all
    have "view bc' a = (if a div 512 \<in> ?T then coded lib d ?f a else m0 a)" if "R a" for a
    proof -
      have "view bc' a = (if offset \<le> a \<and> a < offset + ?n then coded lib d ?f a else view bc a)"
        using v [of a] that s' I by (simp only: store_map)
      then show ?thesis using I i that c [of a] inside [of a] by auto
    qed
    then have "ptbw_inv lib d lo hi R m0 ?T ?f (offset + ?n) (bc', w1)"
      unfolding ptbw_inv_def prod.case using I i s ok tl z by simp
    then show "case (bc', w1) of (bc, w) \<Rightarrow> ptbw_inv lib d lo hi R m0 ?T ?f (offset + ?n) (bc, w) \<and> pindex w = 0"
      using s i by simp
  qed (use I assms(2,3) in simp_all)
qed

section \<open>The operations\<close>

lemma returns_at:
  assumes "m s = m' s'" and "fst s = fst s'" and "returns m' Q s'"
  shows "returns m Q s"
  using meets_at [of m s m' s' Q, OF assms(1,2)] assms(3) by (simp add: meets_def)

lemma returns_sim:
  assumes "returns m' Q s'" and "fst s = fst s'" and "\<And>x t. m' s' = (Inr x, t) \<Longrightarrow> m s = (Inr x, t)"
    and "\<And>e t. m' s' = (Inl e, t) \<Longrightarrow> \<exists>u. m s = (Inl e, u)"
  shows "returns m Q s"
proof (cases "m' s'" rule: prod.exhaust)
  case (Pair r t)
  show ?thesis
  proof (cases r)
    case (Inl e)
    then obtain u where "m s = (Inl e, u)" using assms(4) Pair by blast
    then show ?thesis using assms(1,2) Pair Inl by (auto simp: returns_def)
  next
    case (Inr x)
    then have "m s = (Inr x, t)" using assms(3) Pair by blast
    then show ?thesis using assms(1,2) Pair Inr by (simp add: returns_def)
  qed
qed

lemma returns_weaken: "returns m Q s \<Longrightarrow> (\<And>x t. Q x t \<Longrightarrow> Q' x t) \<Longrightarrow> returns m Q' s"
  using meets_weaken [of "\<lambda>t. t = s" m Q "\<lambda>t. t = s" Q'] by (simp add: meets_def)

lemma returns_Inr: "returns m Q s" if "m s = (Inr x, t)" "Q x t" "healthy (fst s) \<longrightarrow> healthy (fst t)"
  using that by (simp add: returns_def)

lemma flush_pending_returns:
  assumes "crypto_ok lib d lo hi" and "ptbw_inv lib d lo hi R m0 T f e (bc, w)" and "pindex w = 512"
    and "\<And>bc' w'. ptbw_inv lib d lo hi R m0 T f e (bc', w'\<lparr>pindex := 0\<rparr>) \<Longrightarrow> Q x (bc', w'\<lparr>pindex := 0\<rparr>)"
  shows "returns (ok_then (encrypt_and_pwrite lib) (\<lambda>_ (bc, w). (Inr x, (bc, w\<lparr>pindex := 0\<rparr>)))) Q (bc, w)"
proof (rule returns_ok_then)
  show "returns (encrypt_and_pwrite lib) (\<lambda>_ (bc, w). ptbw_inv lib d lo hi R m0 T f e (bc, w\<lparr>pindex := 0\<rparr>)) (bc, w)"
    using flush_pending [OF assms(1), of R m0 T f e] assms(2,3) by (simp add: meets_def)
next
  fix t :: "block_cache \<times> pad_to_block_writer"
  assume "case t of (bc, w) \<Rightarrow> ptbw_inv lib d lo hi R m0 T f e (bc, w\<lparr>pindex := 0\<rparr>)"
  then show "returns (\<lambda>(bc, w). (Inr x, (bc, w\<lparr>pindex := 0\<rparr>))) Q t"
    using assms(4) by (cases t) (auto intro!: returns_Inr)
qed

lemma ptbw_flush_returns:
  assumes "crypto_ok lib d lo hi" and "ptbw_inv lib d lo hi R m0 T f e (bc, w)"
  shows "returns (ptbw_flush lib) (\<lambda>_ (bc', w'). pindex w' = 0 \<and>
    ptbw_inv lib d lo hi R m0 T f (if pindex w > 0 then poffset w + 512 else e) (bc', w')) (bc, w)"
proof (cases "pindex w = 0")
  case True
  then show ?thesis using assms(2) by (auto intro!: returns_Inr simp: ptbw_flush_def)
next
  case False
  let ?n = "512 - pindex w" and ?w = "add_leftover (replicate (512 - pindex w) 0) w"
  let ?wr = "ok_then (encrypt_and_pwrite lib) (\<lambda>_ (bc, w). (Inr (), (bc, w\<lparr>pindex := 0\<rparr>)))"
  have le: "pindex w \<le> 512" "poffset w + pindex w = e" using assms(2) False by (auto simp: ptbw_inv_def)
  have inv: "ptbw_inv lib d lo hi R m0 T f (e + ?n) (bc, ?w)" using inv_fill [OF assms(2), of ?n] False le(1) by simp
  have e: "e + ?n = poffset w + 512" using le by simp
  have q: "encrypt_and_pwrite lib (bc, w\<lparr>pbuf := b\<rparr>) = (r, (bc', w')) \<Longrightarrow>
      encrypt_and_pwrite lib (bc, w\<lparr>pbuf := b, pindex := n\<rparr>) = (r, (bc', w'\<lparr>pindex := n\<rparr>))" for b n r bc' w'
    by (auto simp: encrypt_and_pwrite_def on_cache_def Let_def split: prod.splits)
  have wr: "returns ?wr (\<lambda>_ (bc', w'). pindex w' = 0 \<and> ptbw_inv lib d lo hi R m0 T f (poffset w + 512) (bc', w')) (bc, ?w)"
    by (rule flush_pending_returns [OF assms(1) inv]) (use False le e in \<open>simp_all add: add_leftover_def\<close>)
  let ?v = "w\<lparr>pbuf := write_at (pindex w) (replicate ?n 0) (pbuf w)\<rparr>"
  obtain r bc' w' where f: "encrypt_and_pwrite lib (bc, ?v) = (r, (bc', w'))" by (cases "encrypt_and_pwrite lib (bc, ?v)")
  have fl: "ptbw_flush lib (bc, w) = (case r of Inl e \<Rightarrow> (Inl e, (bc', w')) | Inr _ \<Rightarrow> (Inr (), (bc', w'\<lparr>pindex := 0\<rparr>)))"
    using False f by (simp add: ptbw_flush_def ok_then_def split: sum.split)
  have "?wr (bc, ?w) = (case r of Inl e \<Rightarrow> (Inl e, (bc', w'\<lparr>pindex := 512\<rparr>)) | Inr _ \<Rightarrow> (Inr (), (bc', w'\<lparr>pindex := 0\<rparr>)))"
    using le(1) q [OF f, of 512] by (simp add: add_leftover_def ok_then_def split: sum.split)
  then have "returns (ptbw_flush lib) (\<lambda>_ (bc', w'). pindex w' = 0 \<and> ptbw_inv lib d lo hi R m0 T f (poffset w + 512) (bc', w')) (bc, w)"
    using fl by (intro returns_sim [OF wr]) (auto split: sum.splits)
  then show ?thesis using False by simp
qed

lemma ptbw_leftovers_returns:
  assumes "crypto_ok lib d lo hi" and "ptbw_inv lib d lo hi R m0 T f e (bc, w)" and "e \<le> offset" and "buf \<noteq> []"
  shows "returns (ptbw_leftovers lib buf offset)
    (\<lambda>r (bc', w'). case r of
       None \<Rightarrow> ptbw_inv lib d lo hi R m0 (T \<union> touched offset (length buf)) (store_bytes buf offset f) (offset + length buf) (bc', w')
     | Some (buf', offset') \<Rightarrow> pindex w' = 0 \<and> (\<exists>n \<le> length buf. buf' = drop n buf \<and> offset' = offset + n \<and>
         (buf' = [] \<longrightarrow> 512 dvd offset') \<and>
         ptbw_inv lib d lo hi R m0 (T \<union> touched offset n) (store_bytes (take n buf) offset f) offset' (bc', w'))) (bc, w)"
    (is "returns _ ?Q _")
proof (cases "pindex w = 0")
  case True
  have "?Q (Some (buf, offset)) (bc, w)"
    using inv_later [OF assms(2) True assms(3)] True assms(4) by (auto intro!: exI [of _ 0])
  then show ?thesis using True by (auto intro!: returns_Inr simp: ptbw_leftovers_def)
next
  case False
  then have p: "pindex w \<le> 512" "poffset w + pindex w = e" "512 dvd poffset w" "poffset w div 512 \<in> T"
    using assms(2) by (auto simp: ptbw_inv_def)
  define w1 where "w1 = fill_hole offset w"
  show ?thesis
  proof (cases "offset = e \<or> offset < poffset w + 512")
    case True
    have "w1 = (if e < offset then add_leftover (replicate (offset - e) 0) w else w)"
      using p(2) True by (auto simp: w1_def fill_hole_def add_leftover_def Let_def)
    then have inv: "ptbw_inv lib d lo hi R m0 T f offset (bc, w1)" and i: "poffset w1 + pindex w1 = offset" "0 < pindex w1"
        "poffset w1 = poffset w" "pindex w1 \<le> 512"
      using inv_fill [OF assms(2), of "offset - e"] assms(2,3) False p True by (auto simp: add_leftover_def)
    define n where "n = min (512 - pindex w1) (length buf)"
    define w2 where "w2 = add_leftover (take n buf) w1"
    have n: "n \<le> length buf" "length (take n buf) = n" "pindex w1 + n \<le> 512" using i(4) by (auto simp: n_def)
    have "touched offset n \<subseteq> {poffset w div 512}"
      using touched_in_block [OF p(3), of offset n] i n(3) by simp
    then have T: "T \<union> touched offset n = T" using p(4) by blast
    have inv2: "ptbw_inv lib d lo hi R m0 (T \<union> touched offset n) (store_bytes (take n buf) offset f) (offset + n) (bc, w2)"
      using inv_add_leftover [OF inv i(2), of "take n buf"] n T by (simp add: w2_def)
    have e: "ptbw_leftovers lib buf offset (bc, w) =
        (if pindex w2 = 512 then ok_then (encrypt_and_pwrite lib)
           (\<lambda>_ (bc, w). (Inr (Some (drop n buf, offset + n)), (bc, w\<lparr>pindex := 0\<rparr>))) (bc, w2)
         else (Inr None, (bc, w2)))"
      using False p(2) assms(3) i(1) by (simp add: ptbw_leftovers_def w1_def [symmetric] n_def [symmetric] w2_def [symmetric])
    show ?thesis
    proof (cases "pindex w2 = 512")
      case full: True
      have "offset + n = poffset w + 512" using full i n(2) by (simp add: w2_def add_leftover_def)
      then have d5: "512 dvd offset + n" using p(3) by simp
      show ?thesis
      proof (rule returns_at)
        show "ptbw_leftovers lib buf offset (bc, w) = ok_then (encrypt_and_pwrite lib)
           (\<lambda>_ (bc, w). (Inr (Some (drop n buf, offset + n)), (bc, w\<lparr>pindex := 0\<rparr>))) (bc, w2)" using e full by simp
        show "returns (ok_then (encrypt_and_pwrite lib)
           (\<lambda>_ (bc, w). (Inr (Some (drop n buf, offset + n)), (bc, w\<lparr>pindex := 0\<rparr>)))) ?Q (bc, w2)"
          by (rule flush_pending_returns [OF assms(1) inv2 full]) (use n(1) d5 in auto)
      qed simp
    next
      case part: False
      then have "n = length buf" using n i by (auto simp: n_def w2_def add_leftover_def)
      then show ?thesis using e part inv2 by (auto intro!: returns_Inr)
    qed
  next
    case skip: False
    then have far: "poffset w + 512 \<le> offset" "poffset w + pindex w \<noteq> offset" "w1 = w"
      using p by (auto simp: w1_def fill_hole_def Let_def)
    have e: "ptbw_leftovers lib buf offset (bc, w) = ok_then (ptbw_flush lib) (\<lambda>_ s. (Inr (Some (buf, offset)), s)) (bc, w)"
      using False p(2) assms(3) far by (simp add: ptbw_leftovers_def w1_def [symmetric])
    show ?thesis
    proof (rule returns_at, rule e, rule refl, rule returns_ok_then [OF ptbw_flush_returns [OF assms(1,2)]])
      fix t :: "block_cache \<times> pad_to_block_writer"
      assume a: "case t of (bc', w') \<Rightarrow> pindex w' = 0 \<and>
          ptbw_inv lib d lo hi R m0 T f (if pindex w > 0 then poffset w + 512 else e) (bc', w')"
      obtain bc' w' where t: "t = (bc', w')" by (cases t)
      have "ptbw_inv lib d lo hi R m0 T f offset (bc', w')"
        using a t False far(1) inv_later [of lib d lo hi R m0 T f "poffset w + 512" bc' w' offset] by simp
      then have "?Q (Some (buf, offset)) t" using a t assms(4) by (auto intro!: exI [of _ 0])
      then show "returns (\<lambda>s. (Inr (Some (buf, offset)), s)) ?Q t" by (auto intro!: returns_Inr)
    qed
  qed
qed

lemma touched_one_block:
  assumes "512 dvd offset" and "0 < n" and "n \<le> 512"
  shows "touched offset n = {offset div 512}"
  using touched_in_block [OF assms(1) order_refl, of n] start_touched [OF assms(2), of offset] assms(3) by auto

lemma keep_rest_returns:
  assumes "ptbw_inv lib d lo hi R m0 T f e (bc, w)" and "pindex w = 0" and "512 dvd offset" and "e \<le> offset"
    and "length buf \<le> 512" and "lo \<le> offset" and "offset + length buf \<le> hi" and "512 dvd hi"
  shows "returns (keep_rest buf offset) (\<lambda>_. ptbw_inv lib d lo hi R m0 (T \<union> touched offset (length buf))
    (store_bytes buf offset f) (offset + length buf)) (bc, w)"
proof (cases "buf = []")
  case True
  then show ?thesis using inv_later [OF assms(1,2,4)] by (auto intro!: returns_Inr simp: keep_rest_def)
next
  case False
  have "offset div 512 \<notin> T"
  proof
    assume "offset div 512 \<in> T"
    then have "512 * (offset div 512) + 512 \<le> e" using assms(1,2) by (auto simp: ptbw_inv_def)
    then show False using assms(3,4) by simp
  qed
  moreover have "offset + 512 \<le> hi"
  proof -
    have "offset < hi" using assms(7) False by (cases buf) auto
    then show ?thesis using assms(3,8) by (auto elim!: dvdE)
  qed
  ultimately have "ptbw_inv lib d lo hi R m0 (insert (offset div 512) T) (store_bytes buf offset f) (offset + length buf)
      (bc, w\<lparr>pbuf := write_at 0 buf (pbuf w), pindex := length buf, poffset := offset\<rparr>)"
    using assms(4-6) False by (intro inv_start [OF assms(1-3)]) auto
  moreover have "touched offset (length buf) = {offset div 512}"
    using touched_one_block [OF assms(3), of "length buf"] assms(5) False by simp
  ultimately show ?thesis using False by (auto intro!: returns_Inr simp: keep_rest_def)
qed

lemma ptbw_blocks_returns:
  assumes "crypto_ok lib d lo hi" and "ptbw_inv lib d lo hi R m0 T f e (bc, w)" and "pindex w = 0" and "512 dvd offset"
    and "e \<le> offset" and "lo \<le> offset" and "offset + length buf \<le> hi" and "512 dvd hi"
  shows "returns (ptbw_blocks lib buf offset) (\<lambda>_. ptbw_inv lib d lo hi R m0 (T \<union> touched offset (length buf))
    (store_bytes buf offset f) (offset + length buf)) (bc, w)"
proof (cases "length buf > 512")
  case False
  then show ?thesis using keep_rest_returns [OF assms(2-5) _ assms(6-8)] by (simp add: ptbw_blocks_def)
next
  case True
  define n where "n = length buf div 512 * 512"
  have n: "n \<le> length buf" "512 dvd n" "length buf - n < 512" "length (take n buf) = n"
    using div_mult_mod_eq [of "length buf" 512] mod_less_divisor [of 512 "length buf"] by (auto simp: n_def)
  have b: "ptbw_blocks lib buf offset = ok_then (encrypt_and_pwrite_const lib (take n buf) offset)
      (\<lambda>_. keep_rest (drop n buf) (offset + n))"
    using True by (simp add: ptbw_blocks_def n_def Let_def)
  show ?thesis unfolding b
  proof (rule returns_ok_then)
    show "returns (encrypt_and_pwrite_const lib (take n buf) offset) (\<lambda>_ (bc, w). ptbw_inv lib d lo hi R m0
        (T \<union> touched offset n) (store_bytes (take n buf) offset f) (offset + n) (bc, w) \<and> pindex w = 0) (bc, w)"
      using write_through [OF assms(1,4), of "take n buf" e R m0 T f] n assms by (simp add: meets_def)
  next
    fix t :: "block_cache \<times> pad_to_block_writer"
    assume a: "case t of (bc, w) \<Rightarrow> ptbw_inv lib d lo hi R m0 (T \<union> touched offset n) (store_bytes (take n buf) offset f)
        (offset + n) (bc, w) \<and> pindex w = 0"
    obtain bc1 w1 where t: "t = (bc1, w1)" by (cases t)
    have "returns (keep_rest (drop n buf) (offset + n)) (\<lambda>_. ptbw_inv lib d lo hi R m0
        (T \<union> touched offset n \<union> touched (offset + n) (length (drop n buf)))
        (store_bytes (drop n buf) (offset + n) (store_bytes (take n buf) offset f)) (offset + n + length (drop n buf))) (bc1, w1)"
      using a t n assms(4,6-8) by (intro keep_rest_returns) auto
    moreover have "T \<union> touched offset n \<union> touched (offset + n) (length (drop n buf)) = T \<union> touched offset (length buf)"
      using touched_split [of offset n "length buf - n"] n(1) by auto
    ultimately show "returns (keep_rest (drop n buf) (offset + n)) (\<lambda>_. ptbw_inv lib d lo hi R m0
        (T \<union> touched offset (length buf)) (store_bytes buf offset f) (offset + length buf)) t"
      using n(1) by (simp add: t store_bytes_take_drop)
  qed
qed

lemma inv_pad_start:
  assumes "ptbw_inv lib d lo hi R m0 T f offset (bc, w)" and "pindex w = 0" and "offset mod 512 \<noteq> 0"
    and "512 dvd lo" and "512 dvd hi" and "lo \<le> offset" and "offset < hi"
  shows "ptbw_inv lib d lo hi R m0 (insert (offset div 512) T) f offset (bc, pad_start offset w)"
proof -
  let ?p = "offset - offset mod 512" and ?xs = "replicate (offset mod 512) (0 :: byte)"
  have p: "?p div 512 = offset div 512" "512 dvd ?p" "?p + offset mod 512 = offset" "offset mod 512 < 512"
    by (simp_all add: minus_mod_eq_mult_div dvd_minus_mod)
  have nT: "offset div 512 \<notin> T"
  proof
    assume "offset div 512 \<in> T"
    then have "512 * (offset div 512) + 512 \<le> offset" using assms(1,2) by (auto simp: ptbw_inv_def)
    moreover have "offset < 512 * (offset div 512) + 512"
      using div_mult_mod_eq [of offset 512] p(4) by linarith
    ultimately show False by simp
  qed
  have bnd: "lo \<le> ?p" "?p + 512 \<le> hi"
  proof -
    obtain L H k where "lo = 512 * L" "hi = 512 * H" "?p = 512 * k" using assms(4,5) p(2) unfolding dvd_def by blast
    moreover have "512 * L < 512 * k + 512" "512 * k < 512 * H"
      using assms(6,7) p(3,4) calculation by linarith+
    ultimately show "lo \<le> ?p" "?p + 512 \<le> hi" by simp_all
  qed
  have z: "store_bytes ?xs ?p f = f"
  proof (rule store_zeros)
    fix a assume "?p \<le> a" and "a < ?p + offset mod 512"
    then have "?p \<le> a \<and> a < ?p + 512" using p(4) by linarith
    then have "a div 512 = offset div 512" using div_block [OF p(2), of a] p(1) by simp
    then show "f a = 0" using nT assms(1) by (auto simp: ptbw_inv_def)
  qed
  have le: "offset \<le> ?p + length ?xs" using p(3) by simp
  have "ptbw_inv lib d lo hi R m0 (insert (?p div 512) T) (store_bytes ?xs ?p f) (?p + length ?xs)
      (bc, w\<lparr>pbuf := write_at 0 ?xs (pbuf w), pindex := length ?xs, poffset := ?p\<rparr>)"
    by (rule inv_start [OF assms(1,2) p(2) le]) (use p nT assms(3) bnd in \<open>simp_all\<close>)
  then show ?thesis using p(3) by (simp only: p(1) z length_replicate pad_start_def)
qed

lemma ptbw_pwrite_returns:
  assumes "crypto_ok lib d lo hi" and "512 dvd lo" and "512 dvd hi" and "ptbw_inv lib d lo hi R m0 T f e (bc, w)"
    and "e \<le> offset" and "buf \<noteq> []" and "lo \<le> offset" and "offset + length buf \<le> hi"
  shows "returns (ptbw_pwrite lib buf offset) (\<lambda>_. ptbw_inv lib d lo hi R m0 (T \<union> touched offset (length buf))
      (store_bytes buf offset f) (offset + length buf)) (bc, w)"
  using assms
proof (induction lib buf offset "(bc, w)" arbitrary: T f e bc w rule: ptbw_pwrite.induct)
  case (1 lib buf offset bc w)
  let ?Q = "\<lambda>_ :: unit. ptbw_inv lib d lo hi R m0 (T \<union> touched offset (length buf)) (store_bytes buf offset f) (offset + length buf)"
  note L = ptbw_leftovers_returns [OF "1.prems"(1,4-6)]
  obtain r bc1 w1 where lo: "ptbw_leftovers lib buf offset (bc, w) = (r, (bc1, w1))"
    by (cases "ptbw_leftovers lib buf offset (bc, w)")
  show ?case
  proof (cases r)
    case (Inl e)
    then show ?thesis using L lo by (simp add: returns_def ptbw_pwrite.simps [of lib buf offset bc w])
  next
    case (Inr o')
    have h: "healthy bc \<longrightarrow> healthy bc1" using L lo Inr by (simp add: returns_def)
    show ?thesis
    proof (cases o')
      case None
      then show ?thesis using L lo Inr by (simp add: returns_def ptbw_pwrite.simps [of lib buf offset bc w])
    next
      case (Some p)
      obtain buf' offset' where p: "p = (buf', offset')" by (cases p)
      obtain n where i: "pindex w1 = 0" and n: "n \<le> length buf" "buf' = drop n buf" "offset' = offset + n"
        "buf' = [] \<longrightarrow> 512 dvd offset'"
        and inv: "ptbw_inv lib d lo hi R m0 (T \<union> touched offset n) (store_bytes (take n buf) offset f) offset' (bc1, w1)"
        using L lo Inr Some p by (auto simp: returns_def)
      have eT: "T \<union> touched offset n \<union> touched offset' (length buf') = T \<union> touched offset (length buf)"
        and ef: "store_bytes buf' offset' (store_bytes (take n buf) offset f) = store_bytes buf offset f"
        and ee: "offset' + length buf' = offset + length buf"
        using touched_split [of offset n "length buf - n"] n by (auto simp: store_bytes_take_drop)
      have rec: "returns (if offset' mod 512 \<noteq> 0 then \<lambda>_. ptbw_pwrite lib buf' offset' (bc1, pad_start offset' w1)
          else ptbw_blocks lib buf' offset') ?Q (bc1, w1)"
      proof (cases "offset' mod 512 = 0")
        case True
        have "returns (ptbw_blocks lib buf' offset') (\<lambda>_. ptbw_inv lib d lo hi R m0
            (T \<union> touched offset n \<union> touched offset' (length buf')) (store_bytes buf' offset' (store_bytes (take n buf) offset f))
            (offset' + length buf')) (bc1, w1)"
          using True n "1.prems" by (intro ptbw_blocks_returns [OF "1.prems"(1) inv i]) auto
        then show ?thesis using True by (simp add: eT ef ee)
      next
        case False
        have ne: "buf' \<noteq> []" using n(4) False by auto
        then have b: "lo \<le> offset'" "offset' < hi" "offset' + length buf' \<le> hi"
          using n(1-3) "1.prems"(7,8) by auto
        note inv' = inv_pad_start [OF inv i False "1.prems"(2,3) b(1,2)]
        have "returns (ptbw_pwrite lib buf' offset') (\<lambda>_. ptbw_inv lib d lo hi R m0
            (insert (offset' div 512) (T \<union> touched offset n) \<union> touched offset' (length buf'))
            (store_bytes buf' offset' (store_bytes (take n buf) offset f)) (offset' + length buf')) (bc1, pad_start offset' w1)"
          by (rule "1.hyps" [OF lo [symmetric] _ _ _ _ False "1.prems"(1-3) inv' order_refl ne b(1,3)])
            (simp_all add: Inr Some p)
        moreover have "insert (offset' div 512) (T \<union> touched offset n) \<union> touched offset' (length buf') = T \<union> touched offset (length buf)"
          using eT start_touched [of "length buf'" offset'] ne by auto
        ultimately have "returns (ptbw_pwrite lib buf' offset') ?Q (bc1, pad_start offset' w1)" by (simp only: ef ee)
        then show ?thesis using False by - (rule returns_at [where s' = "(bc1, pad_start offset' w1)"
              and m' = "ptbw_pwrite lib buf' offset'"], simp_all)
      qed
      have e: "ptbw_pwrite lib buf offset (bc, w) = (if offset' mod 512 \<noteq> 0 then \<lambda>_. ptbw_pwrite lib buf' offset' (bc1, pad_start offset' w1)
          else ptbw_blocks lib buf' offset') (bc1, w1)"
        using lo Inr Some p by (simp add: ptbw_pwrite.simps [of lib buf offset bc w])
      show ?thesis
        using rec h e
        by (cases "ptbw_pwrite lib buf offset (bc, w)" rule: prod.exhaust; cases "fst (ptbw_pwrite lib buf offset (bc, w))")
          (auto simp: returns_def)
    qed
  qed
qed

section \<open>Properties\<close>

text \<open>
  A caller: increasing chunks, as the data of a resource arrives, and the flush at the end.
\<close>

fun ptbw_pwrites :: "aes \<Rightarrow> (byte list \<times> nat) list \<Rightarrow> unit writer" where
  "ptbw_pwrites lib [] s = (Inr (), s)"
| "ptbw_pwrites lib ((buf, offset) # cs) s = ok_then (ptbw_pwrite lib buf offset) (\<lambda>_. ptbw_pwrites lib cs) s"

fun increasing :: "nat \<Rightarrow> nat \<Rightarrow> (byte list \<times> nat) list \<Rightarrow> bool" where
  "increasing lo hi [] = True"
| "increasing lo hi ((buf, offset) # cs) =
     (lo \<le> offset \<and> buf \<noteq> [] \<and> offset + length buf \<le> hi \<and> increasing (offset + length buf) hi cs)"

definition chunk_bytes :: "(byte list \<times> nat) list \<Rightarrow> (nat \<Rightarrow> byte) \<Rightarrow> nat \<Rightarrow> byte" where
  "chunk_bytes cs = fold (\<lambda>(buf, offset). store_bytes buf offset) cs"

definition in_touched_block :: "(byte list \<times> nat) list \<Rightarrow> nat \<Rightarrow> bool" where
  "in_touched_block cs a = list_ex (\<lambda>(buf, offset). offset div 512 \<le> a div 512 \<and> a div 512 \<le> (offset + length buf - 1) div 512) cs"

lemma in_touched: "0 < n \<Longrightarrow> L \<in> touched offset n \<longleftrightarrow> offset div 512 \<le> L \<and> L \<le> (offset + n - 1) div 512"
proof -
  assume n: "0 < n"
  show "L \<in> touched offset n \<longleftrightarrow> offset div 512 \<le> L \<and> L \<le> (offset + n - 1) div 512"
  proof
    assume "L \<in> touched offset n"
    then show "offset div 512 \<le> L \<and> L \<le> (offset + n - 1) div 512"
      by (auto simp: touched_def intro!: div_le_mono)
  next
    assume a: "offset div 512 \<le> L \<and> L \<le> (offset + n - 1) div 512"
    let ?a = "max offset (512 * L)"
    have "512 * L \<le> offset + n - 1" using a by (simp add: less_eq_div_iff_mult_less_eq mult.commute)
    then have "?a \<in> {offset..<offset + n}" using n by auto
    moreover have "?a div 512 = L"
    proof (cases "offset \<le> 512 * L")
      case False
      then have "L \<le> offset div 512" by (simp add: less_eq_div_iff_mult_less_eq mult.commute)
      then show ?thesis using a False by simp
    qed simp
    ultimately show "L \<in> touched offset n" unfolding touched_def by (metis imageI)
  qed
qed

lemma ptbw_pwrites_returns:
  assumes "crypto_ok lib d lo hi" and "512 dvd lo" and "512 dvd hi" and "lo \<le> e"
  shows "ptbw_inv lib d lo hi R m0 T f e (bc, w) \<Longrightarrow> increasing e hi cs \<Longrightarrow>
    returns (ptbw_pwrites lib cs) (\<lambda>_ s. \<exists>e'. ptbw_inv lib d lo hi R m0 (T \<union> {L. in_touched_block cs (512 * L)}) (chunk_bytes cs f) e' s) (bc, w)"
  using assms(4)
proof (induction cs arbitrary: T f e bc w)
  case Nil
  then show ?case by (auto intro!: returns_Inr simp: chunk_bytes_def in_touched_block_def)
next
  case (Cons c cs)
  obtain buf offset where c: "c = (buf, offset)" by (cases c)
  have b: "e \<le> offset" "buf \<noteq> []" "offset + length buf \<le> hi" "increasing (offset + length buf) hi cs"
    using Cons.prems(2) by (simp_all add: c)
  let ?T = "T \<union> touched offset (length buf)" and ?f = "store_bytes buf offset f" and ?e = "offset + length buf"
  have w1: "returns (ptbw_pwrite lib buf offset) (\<lambda>_. ptbw_inv lib d lo hi R m0 ?T ?f ?e) (bc, w)"
    using b(1) Cons.prems(3) by (intro ptbw_pwrite_returns [OF assms(1-3) Cons.prems(1) b(1,2) _ b(3)]) simp
  have e: "ptbw_pwrites lib (c # cs) (bc, w) = ok_then (ptbw_pwrite lib buf offset) (\<lambda>_. ptbw_pwrites lib cs) (bc, w)"
    by (simp add: c)
  have T: "?T \<union> {L. in_touched_block cs (512 * L)} = T \<union> {L. in_touched_block (c # cs) (512 * L)}"
    using in_touched [of "length buf" _ offset] b(2) by (auto simp: in_touched_block_def c)
  have F: "chunk_bytes cs ?f = chunk_bytes (c # cs) f" by (simp add: chunk_bytes_def c)
  show ?case
  proof (rule returns_at, rule e, rule refl, rule returns_ok_then [OF w1])
    fix t assume "ptbw_inv lib d lo hi R m0 ?T ?f ?e t"
    moreover have "lo \<le> ?e" using b(1) Cons.prems(3) by simp
    ultimately have "returns (ptbw_pwrites lib cs) (\<lambda>_ s. \<exists>e'. ptbw_inv lib d lo hi R m0
        (?T \<union> {L. in_touched_block cs (512 * L)}) (chunk_bytes cs ?f) e' s) (fst t, snd t)"
      using b(4) by (intro Cons.IH) simp_all
    then show "returns (ptbw_pwrites lib cs) (\<lambda>_ s. \<exists>e'. ptbw_inv lib d lo hi R m0
        (T \<union> {L. in_touched_block (c # cs) (512 * L)}) (chunk_bytes (c # cs) f) e' s) t"
      by (simp only: T F prod.collapse)
  qed
qed

lemma ptbw_run_returns:
  assumes "cache_ok bc" and "length garbage = 512" and "increasing lo hi cs" and "512 dvd lo" and "512 dvd hi"
    and "crypto_ok lib d lo hi"
  shows "returns (ok_then (ptbw_pwrites lib cs) (\<lambda>_. ptbw_flush lib))
    (\<lambda>_ (bc', w'). cache_ok bc' \<and> (\<forall>a. in_range bc a \<longrightarrow> view bc' a =
       (if in_touched_block cs a then coded lib d (chunk_bytes cs (\<lambda>_. 0)) a else view bc a))) (bc, ptbw_init garbage d)"
proof (rule returns_ok_then)
  have "ptbw_inv lib d lo hi (in_range bc) (view bc) {} (\<lambda>_. 0) lo (bc, ptbw_init garbage d)"
    using assms(1,2) by (simp add: ptbw_inv_def ptbw_init_def)
  from ptbw_pwrites_returns [OF assms(6,4,5) order_refl this assms(3)]
  show "returns (ptbw_pwrites lib cs) (\<lambda>_ s. \<exists>e'. ptbw_inv lib d lo hi (in_range bc) (view bc)
      {L. in_touched_block cs (512 * L)} (chunk_bytes cs (\<lambda>_. 0)) e' s) (bc, ptbw_init garbage d)" by simp
next
  fix t
  assume "\<exists>e'. ptbw_inv lib d lo hi (in_range bc) (view bc) {L. in_touched_block cs (512 * L)} (chunk_bytes cs (\<lambda>_. 0)) e' t"
  then obtain e' bc1 w1 where t: "t = (bc1, w1)" and
    inv: "ptbw_inv lib d lo hi (in_range bc) (view bc) {L. in_touched_block cs (512 * L)} (chunk_bytes cs (\<lambda>_. 0)) e' (bc1, w1)"
    by (cases t) blast
  have b: "in_touched_block cs (512 * (a div 512)) = in_touched_block cs a" for a by (simp add: in_touched_block_def)
  show "returns (ptbw_flush lib) (\<lambda>_ (bc', w'). cache_ok bc' \<and> (\<forall>a. in_range bc a \<longrightarrow> view bc' a =
       (if in_touched_block cs a then coded lib d (chunk_bytes cs (\<lambda>_. 0)) a else view bc a))) t"
    unfolding t
  proof (rule returns_weaken [OF ptbw_flush_returns [OF assms(6) inv]])
    fix u :: "block_cache \<times> pad_to_block_writer"
    assume "case u of (bc', w') \<Rightarrow> pindex w' = 0 \<and> ptbw_inv lib d lo hi (in_range bc) (view bc)
        {L. in_touched_block cs (512 * L)} (chunk_bytes cs (\<lambda>_. 0)) (if pindex w1 > 0 then poffset w1 + 512 else e') (bc', w')"
    then show "case u of (bc', w') \<Rightarrow> cache_ok bc' \<and> (\<forall>a. in_range bc a \<longrightarrow> view bc' a =
       (if in_touched_block cs a then coded lib d (chunk_bytes cs (\<lambda>_. 0)) a else view bc a))"
      by (cases u) (simp add: ptbw_inv_def b)
  qed
qed

text \<open>
  C31: chunks of any size that arrive in the order of their addresses, possibly with holes, and a
  flush at the end produce the image they describe: whenever the calls report success, every
  block that a chunk reaches holds the chunks' bytes and zeros elsewhere, encrypted block by
  block if the writer encrypts, and no other block of the medium changes. It does not matter how
  the data was cut into chunks.
\<close>

theorem ptbw_writes_image:
  assumes "ok_then (ptbw_pwrites lib cs) (\<lambda>_. ptbw_flush lib) (bc, ptbw_init garbage d) = (Inr (), (bc', w'))"
    and "cache_ok bc" and "length garbage = 512" and "increasing lo hi cs" and "512 dvd lo" and "512 dvd hi"
    and "crypto_ok lib d lo hi" and "in_range bc a"
  shows "view bc' a = (if in_touched_block cs a then coded lib d (chunk_bytes cs (\<lambda>_. 0)) a else view bc a)"
  using ptbw_run_returns [OF assms(2-7)] assms(1,8) by (simp add: returns_def)

text \<open>
  On a file without faults the writer never fails, whatever the sizes of the chunks: neither
  the assertion that no chunk goes back nor a write of a partial block stops it.
\<close>

theorem ptbw_succeeds:
  assumes "healthy bc" and "cache_ok bc" and "length garbage = 512" and "increasing lo hi cs" and "512 dvd lo" and "512 dvd hi"
    and "crypto_ok lib d lo hi"
  shows "\<exists>bc' w'. ok_then (ptbw_pwrites lib cs) (\<lambda>_. ptbw_flush lib) (bc, ptbw_init garbage d) = (Inr (), (bc', w')) \<and>
    healthy bc'"
  using ptbw_run_returns [OF assms(2-7)] assms(1) by (auto simp: returns_def split: prod.splits sum.splits)

definition sample_chunks :: "(byte list \<times> nat) list" where
  "sample_chunks = [(replicate 700 1, 1024), (replicate 10 2, 1800), ([3], 9999)]"

lemma sample_chunks_increasing: "increasing 1024 10240 sample_chunks"
  by (simp add: sample_chunks_def)

lemma sample_crypto_ok: "crypto_ok toy_aes (Some sample_dc) 1024 10240"
  by (simp add: crypto_ok_def toy_aes_ok sample_dc_def)

theorem ptbw_succeeds_witness:
  "\<exists>bc' w'. ok_then (ptbw_pwrites toy_aes sample_chunks) (\<lambda>_. ptbw_flush toy_aes)
     (file_cache (\<lambda>_. 9) 20000, ptbw_init (replicate 512 7) (Some sample_dc)) = (Inr (), (bc', w')) \<and> healthy bc'"
  using ptbw_succeeds [OF file_cache_healthy file_cache_ok(1) _ sample_chunks_increasing _ _ sample_crypto_ok,
      of "replicate 512 7" "\<lambda>_. 9" 20000] by simp

theorem ptbw_writes_image_witness:
  "\<exists>bc' w'. ok_then (ptbw_pwrites toy_aes sample_chunks) (\<lambda>_. ptbw_flush toy_aes)
     (file_cache (\<lambda>_. 9) 20000, ptbw_init (replicate 512 7) None) = (Inr (), (bc', w')) \<and>
     view bc' 1030 = 1 \<and> view bc' 1805 = 2 \<and> view bc' 9999 = 3 \<and> view bc' 1750 = 0 \<and> view bc' 5000 = 9"
proof -
  have c: "crypto_ok toy_aes None 1024 10240" by (simp add: crypto_ok_def)
  let ?s = "(file_cache (\<lambda>_. 9) 20000, ptbw_init (replicate 512 7) None)"
  have "returns (ok_then (ptbw_pwrites toy_aes sample_chunks) (\<lambda>_. ptbw_flush toy_aes)) (\<lambda>_ _. True) ?s"
    by (rule returns_weaken [OF ptbw_run_returns [OF file_cache_ok(1) _ sample_chunks_increasing _ _ c]]) simp_all
  then obtain bc' w' where r: "ok_then (ptbw_pwrites toy_aes sample_chunks) (\<lambda>_. ptbw_flush toy_aes) ?s = (Inr (), (bc', w'))"
    using file_cache_healthy [of "\<lambda>_. 9" 20000] by (auto simp: returns_def split: prod.splits sum.splits)
  have v: "view bc' a = (if in_touched_block sample_chunks a then chunk_bytes sample_chunks (\<lambda>_. 0) a
      else view (file_cache (\<lambda>_. 9) 20000) a)" for a
    using ptbw_writes_image [OF r file_cache_ok(1) _ sample_chunks_increasing _ _ c file_cache_ok(2), of a] by simp
  have "view bc' 1030 = 1" "view bc' 1805 = 2" "view bc' 9999 = 3" "view bc' 1750 = 0" "view bc' 5000 = 9"
    by (simp_all add: v in_touched_block_def sample_chunks_def chunk_bytes_def store_bytes_def file_cache_ok(3))
  then show ?thesis using r by blast
qed

end
