(* ===== verification/Progress.thy ===== *)
theory Progress
  imports Util
begin

text \<open>
  Progress reports (\<open>progress.c\<close>). The state is the \<open>struct fwup_progress\<close> and what was printed so
  far; the global \<open>fwup_progress_mode\<close> and the clock are arguments. The text of the progress bar
  in the normal mode is the percentage, the number of equal signs and the amounts that are printed
  as decimals behind it; the two \<open>printf\<close> calls differ in these amounts only.
\<close>

datatype fwup_progress_option = PROGRESS_MODE_OFF | PROGRESS_MODE_NUMERIC | PROGRESS_MODE_NORMAL | PROGRESS_MODE_FRAMING

record fwup_progress =
  total_units :: u64
  current_units :: u64
  last_reported_percent :: int
  low :: int
  range' :: int
  start_time :: int
  input_bytes :: u64

datatype printed =
    Bytes "byte list"
  | Bar int int "((u64 \<times> int) \<times> (u64 \<times> int)) option"
  | Success
  | Elapsed_min int int
  | Elapsed_s int int

definition PROGRESS_BITS :: int where "PROGRESS_BITS = 36"

type_synonym reporter = "fwup_progress \<times> printed list"

definition draw_progress_bar :: "fwup_progress \<Rightarrow> int \<Rightarrow> printed" where
  "draw_progress_bar p percent =
     Bar percent (percent * PROGRESS_BITS div 100)
       (if total_units p \<le> 0 then None
        else Some ((input_bytes p, find_natural_units (uint (input_bytes p))),
                   (current_units p, find_natural_units (uint (current_units p)))))"

definition FRAMING_TYPE_PROGRESS :: "byte list" where
  "FRAMING_TYPE_PROGRESS = string_bytes ''PR''"

definition render :: "fwup_progress_option \<Rightarrow> fwup_progress \<Rightarrow> int \<Rightarrow> printed list" where
  "render mode p percent =
     (case mode of
        PROGRESS_MODE_NUMERIC \<Rightarrow> [Bytes (string_bytes (show_int percent @ [CHR 0x0A]))]
      | PROGRESS_MODE_NORMAL \<Rightarrow> [draw_progress_bar p percent]
      | PROGRESS_MODE_FRAMING \<Rightarrow> [Bytes (fwup_output True False FRAMING_TYPE_PROGRESS (word_of_int percent) [])]
      | PROGRESS_MODE_OFF \<Rightarrow> [])"

definition output_progress :: "fwup_progress_option \<Rightarrow> int \<Rightarrow> reporter \<Rightarrow> reporter" where
  "output_progress mode percent = (\<lambda>(p, out).
     if percent \<le> last_reported_percent p then (p, out)
     else (let p' = p\<lparr>last_reported_percent := percent\<rparr> in (p', out @ render mode p' percent)))"

definition progress_init :: "fwup_progress_option \<Rightarrow> int \<Rightarrow> int \<Rightarrow> reporter" where
  "progress_init mode progress_low progress_high =
     output_progress mode progress_low
       (\<lparr>total_units = 0, current_units = 0, last_reported_percent = - 1, low = progress_low,
         range' = progress_high - progress_low, start_time = 0, input_bytes = 0\<rparr>, [])"

text \<open>
  \<open>progress->current_units * progress->range' / progress->total_units\<close> is computed in 64 bits
  without sign and then converted to \<open>int\<close>.
\<close>

definition progress_amount :: "fwup_progress \<Rightarrow> int" where
  "progress_amount p =
     (let amt = to_int32 (uint (current_units p * word_of_int (range' p) div total_units p)) in
      if amt \<ge> range' p then range' p - 1 else amt)"

definition progress_report :: "fwup_progress_option \<Rightarrow> int \<Rightarrow> u64 \<Rightarrow> reporter \<Rightarrow> reporter" where
  "progress_report mode now units = (\<lambda>(p0, out).
     let p1 = (if mode = PROGRESS_MODE_NORMAL \<and> start_time p0 = 0 \<and> total_units p0 > 0 then p0\<lparr>start_time := now\<rparr> else p0);
         p2 = p1\<lparr>current_units := current_units p1 + units\<rparr>;
         p = (if current_units p2 > total_units p2 then p2\<lparr>current_units := total_units p2\<rparr> else p2);
         to_report = (if total_units p \<noteq> 0 then low p + progress_amount p else low p)
     in output_progress mode to_report (p, out))"

definition progress_report_complete :: "fwup_progress_option \<Rightarrow> int \<Rightarrow> reporter \<Rightarrow> reporter" where
  "progress_report_complete mode now = (\<lambda>(p0, out0).
     let (p, out) = output_progress mode (low p0 + range' p0) (p0, out0) in
     case mode of
       PROGRESS_MODE_NORMAL \<Rightarrow>
         (p, out @ [Success] @
            (if start_time p \<noteq> 0 then
               (let elapsed = now - start_time p in
                if elapsed > 60000 then [Elapsed_min (elapsed div 1000 div 60) (elapsed div 1000 mod 60)]
                else [Elapsed_s (elapsed div 1000) (elapsed mod 1000)])
             else []))
     | _ \<Rightarrow> (p, out))"

section \<open>What is reported\<close>

text \<open>A whole run: the total is known after the first pass, then work is reported in any amounts.\<close>

fun progress_reports :: "fwup_progress_option \<Rightarrow> (int \<times> u64) list \<Rightarrow> reporter \<Rightarrow> reporter" where
  "progress_reports mode [] r = r"
| "progress_reports mode ((now, units) # us) r = progress_reports mode us (progress_report mode now units r)"

definition progress_run :: "fwup_progress_option \<Rightarrow> int \<Rightarrow> int \<Rightarrow> u64 \<Rightarrow> (int \<times> u64) list \<Rightarrow> int \<Rightarrow> reporter" where
  "progress_run mode lo hi units us end_time =
     (let (p, out) = progress_init mode lo hi in
      progress_report_complete mode end_time (progress_reports mode us (p\<lparr>total_units := units\<rparr>, out)))"

lemma progress_amount_bounds:
  assumes "0 < range' p" and "range' p < 2 ^ 31" and "uint (total_units p) * range' p < 2 ^ 64"
    and "current_units p \<le> total_units p" and "total_units p \<noteq> 0"
  shows "0 \<le> progress_amount p" and "progress_amount p < range' p"
proof -
  let ?c = "uint (current_units p)" and ?t = "uint (total_units p)" and ?r = "range' p"
  have ct: "0 \<le> ?c" "?c \<le> ?t" "0 < ?t" using assms(4,5) by (simp_all add: word_le_def uint_0_iff less_le)
  have "?c * ?r \<le> ?t * ?r" using ct(2) assms(1) by (simp add: mult_right_mono)
  then have small: "?c * ?r < 2 ^ 64" using assms(3) by linarith
  have r: "uint (word_of_int ?r :: u64) = ?r" using assms(1,2) by (simp add: uint_word_of_int_eq take_bit_eq_mod)
  have "uint (current_units p * word_of_int ?r) = ?c * ?r"
    using small ct(1) assms(1) by (simp add: uint_word_ariths(3) r)
  then have q: "uint (current_units p * word_of_int ?r div total_units p) = ?c * ?r div ?t"
    by (simp add: uint_div)
  have nn: "0 \<le> ?c * ?r div ?t" using ct assms(1) by (simp add: pos_imp_zdiv_nonneg_iff)
  have "?c * ?r div ?t \<le> ?t * ?r div ?t" using \<open>?c * ?r \<le> ?t * ?r\<close> ct(3) by (rule zdiv_mono1)
  then have le: "?c * ?r div ?t \<le> ?r" using ct(3) by simp
  show "0 \<le> progress_amount p" "progress_amount p < range' p"
  proof -
    let ?a = "to_int32 (?c * ?r div ?t)"
    have pa: "progress_amount p = (if ?a \<ge> ?r then ?r - 1 else ?a)" by (simp add: progress_amount_def q Let_def)
    have "?a = ?c * ?r div ?t" if "?c * ?r div ?t < 2 ^ 31"
      using nn that by (simp add: to_int32_def signed_of_int signed_take_bit_int_eq_self)
    moreover have "?c * ?r div ?t < 2 ^ 31" using le assms(2) by linarith
    ultimately show "0 \<le> progress_amount p" "progress_amount p < range' p"
      using nn assms(1) unfolding pa by auto
  qed
qed

text \<open>The two modes whose output is a function of the percentage.\<close>

definition plain_mode :: "fwup_progress_option \<Rightarrow> bool" where
  "plain_mode mode = (mode = PROGRESS_MODE_NUMERIC \<or> mode = PROGRESS_MODE_FRAMING)"

definition report_bytes :: "fwup_progress_option \<Rightarrow> int \<Rightarrow> byte list" where
  "report_bytes mode percent =
     (if mode = PROGRESS_MODE_NUMERIC then string_bytes (show_int percent @ [CHR 0x0A])
      else fwup_output True False FRAMING_TYPE_PROGRESS (word_of_int percent) [])"

definition reports_inv :: "fwup_progress_option \<Rightarrow> int \<Rightarrow> int \<Rightarrow> u64 \<Rightarrow> reporter \<Rightarrow> int list \<Rightarrow> bool" where
  "reports_inv mode lo hi units = (\<lambda>(p, out) ps.
     out = map (Bytes \<circ> report_bytes mode) ps \<and> ps \<noteq> [] \<and> sorted_wrt (<) ps \<and> hd ps = lo \<and>
     last ps = last_reported_percent p \<and> (\<forall>x \<in> set ps. x < hi) \<and> low p = lo \<and> range' p = hi - lo \<and>
     total_units p = units \<and> current_units p \<le> units)"

lemma render_plain: "plain_mode mode \<Longrightarrow> render mode p v = [Bytes (report_bytes mode v)]"
  by (auto simp: plain_mode_def render_def report_bytes_def)

lemma sorted_wrt_snoc:
  "sorted_wrt (<) ps \<Longrightarrow> ps \<noteq> [] \<Longrightarrow> last ps < (v :: int) \<Longrightarrow> sorted_wrt (<) (ps @ [v])"
proof (induction ps)
  case (Cons a ps)
  show ?case
  proof (cases "ps = []")
    case False
    then have "a < v" using Cons.prems by (auto intro: less_trans [OF _ Cons.prems(3)])
    then show ?thesis using Cons False by auto
  qed (use Cons.prems in simp)
qed simp

lemma output_progress_inv:
  assumes "plain_mode mode" and "reports_inv mode lo hi units (p, out) ps" and "v < hi"
  shows "\<exists>ps'. reports_inv mode lo hi units (output_progress mode v (p, out)) ps'"
proof (cases "v \<le> last_reported_percent p")
  case True
  then show ?thesis using assms(2) by (auto simp: output_progress_def)
next
  case False
  have I: "out = map (Bytes \<circ> report_bytes mode) ps" "ps \<noteq> []" "sorted_wrt (<) ps" "hd ps = lo"
    "last ps = last_reported_percent p" "\<forall>x \<in> set ps. x < hi" "low p = lo" "range' p = hi - lo"
    "total_units p = units" "current_units p \<le> units"
    using assms(2) by (simp_all add: reports_inv_def)
  have o: "output_progress mode v (p, out) = (p\<lparr>last_reported_percent := v\<rparr>, out @ [Bytes (report_bytes mode v)])"
    using False render_plain [OF assms(1)] by (simp add: output_progress_def)
  have "reports_inv mode lo hi units (output_progress mode v (p, out)) (ps @ [v])"
    unfolding o reports_inv_def prod.case
    using I False assms(3) sorted_wrt_snoc [OF I(3,2), of v] by simp
  then show ?thesis by blast
qed

lemma progress_report_inv:
  assumes "plain_mode mode" and "reports_inv mode lo hi units r ps" and "lo < hi" and "hi - lo < 2 ^ 31"
    and "uint units * (hi - lo) < 2 ^ 64"
  shows "\<exists>ps'. reports_inv mode lo hi units (progress_report mode now n r) ps'"
proof -
  obtain p out where r: "r = (p, out)" by (cases r)
  let ?p1 = "p\<lparr>current_units := current_units p + n\<rparr>"
  let ?p = "if current_units ?p1 > total_units ?p1 then ?p1\<lparr>current_units := total_units ?p1\<rparr> else ?p1"
  let ?v = "if total_units ?p \<noteq> 0 then low ?p + progress_amount ?p else low ?p"
  have e: "progress_report mode now n r = output_progress mode ?v (?p, out)"
    using assms(1) by (auto simp: progress_report_def r plain_mode_def Let_def)
  have inv: "reports_inv mode lo hi units (?p, out) ps"
    using assms(2) by (auto simp: reports_inv_def r)
  have q: "low ?p = lo" "range' ?p = hi - lo" "total_units ?p = units" "current_units ?p \<le> units"
    using inv unfolding reports_inv_def prod.case by blast+
  have "?v < hi"
  proof (cases "units = 0")
    case True
    then show ?thesis using q assms(3) by simp
  next
    case False
    have "progress_amount ?p < range' ?p"
      by (rule progress_amount_bounds(2)) (use q assms(3-5) False in \<open>simp_all only:\<close>, simp)
    then show ?thesis using q False by simp
  qed
  from output_progress_inv [OF assms(1) inv this] show ?thesis by (simp only: e)
qed

lemma progress_reports_inv:
  assumes "plain_mode mode" and "lo < hi" and "hi - lo < 2 ^ 31" and "uint units * (hi - lo) < 2 ^ 64"
  shows "reports_inv mode lo hi units r ps \<Longrightarrow> \<exists>ps'. reports_inv mode lo hi units (progress_reports mode us r) ps'"
proof (induction us arbitrary: r ps)
  case (Cons u us)
  obtain now n where u: "u = (now, n)" by (cases u)
  obtain ps' where "reports_inv mode lo hi units (progress_report mode now n r) ps'"
    using progress_report_inv [OF assms(1) Cons.prems assms(2-4)] by blast
  then show ?case using Cons.IH by (simp add: u)
qed auto

text \<open>
  C40: what a front end sees of a run is a strictly increasing sequence of percentages, each of
  them once. It starts with the lowest value of the range, and the highest is reported by
  \<open>progress_report_complete\<close> only and then always: however much work is reported (more than
  announced, or none), a user never sees the end of the range before the run is complete.
\<close>

theorem progress_run_reports:
  assumes "plain_mode mode" and "0 \<le> lo" and "lo < hi" and "hi - lo < 2 ^ 31" and "uint units * (hi - lo) < 2 ^ 64"
  shows "\<exists>ps. snd (progress_run mode lo hi units us t) = map (Bytes \<circ> report_bytes mode) (ps @ [hi]) \<and>
    sorted_wrt (<) (ps @ [hi]) \<and> hd ps = lo \<and> ps \<noteq> []"
proof -
  obtain p out where i: "progress_init mode lo hi = (p, out)" by (cases "progress_init mode lo hi")
  have "reports_inv mode lo hi units (p\<lparr>total_units := units\<rparr>, out) [lo]"
    using i assms(2,3) render_plain [OF assms(1)]
    by (auto simp: progress_init_def output_progress_def reports_inv_def)
  then obtain ps where ps: "reports_inv mode lo hi units (progress_reports mode us (p\<lparr>total_units := units\<rparr>, out)) ps"
    using progress_reports_inv [OF assms(1,3-5)] by blast
  obtain q o' where q: "progress_reports mode us (p\<lparr>total_units := units\<rparr>, out) = (q, o')"
    by (cases "progress_reports mode us (p\<lparr>total_units := units\<rparr>, out)")
  have I: "o' = map (Bytes \<circ> report_bytes mode) ps" "ps \<noteq> []" "sorted_wrt (<) ps" "hd ps = lo"
    "last ps = last_reported_percent q" "\<forall>x \<in> set ps. x < hi" "low q = lo" "range' q = hi - lo"
    using ps by (simp_all add: q reports_inv_def)
  have "last_reported_percent q < hi" using I(2,5,6) last_in_set by metis
  then have "snd (progress_run mode lo hi units us t) = map (Bytes \<circ> report_bytes mode) (ps @ [hi])"
    using assms(1) render_plain [OF assms(1)] I(1,7,8)
    by (auto simp: progress_run_def i q progress_report_complete_def output_progress_def Let_def plain_mode_def)
  then show ?thesis using I sorted_wrt_snoc [OF I(3,2), of hi] \<open>last_reported_percent q < hi\<close> by auto
qed

theorem progress_run_reports_witness:
  "\<exists>ps. snd (progress_run PROGRESS_MODE_NUMERIC 0 100 1000 [(0, 500), (0, 5), (7, 2000)] 0) =
      map (Bytes \<circ> report_bytes PROGRESS_MODE_NUMERIC) (ps @ [100]) \<and>
    sorted_wrt (<) (ps @ [100]) \<and> hd ps = 0 \<and> ps \<noteq> []"
  by (rule progress_run_reports) (simp_all add: plain_mode_def)

end
