(* ===== verification/Sparse_File.thy ===== *)
theory Sparse_File
  imports CLib
begin

text \<open>
  Maps of sparse files (\<open>sparse_file.c\<close>): the lengths of the data segments and holes of a file in
  turn, starting with data. \<open>None\<close> is the null pointer of a map that was not built; the length of
  the list is \<open>map_len\<close>. The operating system is a parameter: a \<open>sparse_fd\<close> answers \<open>lseek\<close>
  (\<open>None\<close> is a failure, that is \<open>-1\<close>) and \<open>pread\<close>.
\<close>

type_synonym sparse_file_map = "int list option"

record sparse_fd =
  seek_data :: "int \<Rightarrow> int option"
  seek_hole :: "int \<Rightarrow> int option"
  seek_end :: "int option"
  fd_pread :: "int \<Rightarrow> int \<Rightarrow> byte list option"

definition SPARSE_FILE_MAP_MAX_LEN :: nat where "SPARSE_FILE_MAP_MAX_LEN = 256"

definition IN_HOLE :: "nat \<Rightarrow> bool" where "IN_HOLE ix = odd ix"

definition sparse_file_init :: sparse_file_map where
  "sparse_file_init = None"

definition map_entries :: "sparse_file_map \<Rightarrow> int list" where
  "map_entries sfm = (case sfm of None \<Rightarrow> [] | Some m \<Rightarrow> m)"

section \<open>Maps in the configuration\<close>

definition sparse_file_get_map_from_resource :: "cfg \<Rightarrow> sparse_file_map res" where
  "sparse_file_get_map_from_resource resource =
     (let ls = cfg_ints resource ''length'' in Inr (Some (if ls = [] then [0] else ls)))"

definition sparse_file_get_map_from_config :: "cfg \<Rightarrow> string \<Rightarrow> sparse_file_map res" where
  "sparse_file_get_map_from_config c resource_name =
     (case cfg_gettsec c ''file-resource'' resource_name of
        None \<Rightarrow> Inl (Msg ''file-resource not found'')
      | Some resource \<Rightarrow> sparse_file_get_map_from_resource resource)"

text \<open>\<open>cfg_setnint\<close> replaces an entry of the list, or appends the next one.\<close>

definition cfg_setnint :: "cfg \<Rightarrow> string \<Rightarrow> int \<Rightarrow> nat \<Rightarrow> cfg" where
  "cfg_setnint c k v i = (let l = cfg_ints c k in
     Cfg (cfg_title c) (cfg_getint c) ((cfg_ints c)(k := if i < length l then l[i := v] else l @ [v]))
       (cfg_getstr c) (cfg_strs c) (cfg_getbool c) (cfg_secs c))"

fun set_map_loop :: "nat \<Rightarrow> int list \<Rightarrow> cfg \<Rightarrow> cfg" where
  "set_map_loop i [] resource = resource"
| "set_map_loop i (v # vs) resource = set_map_loop (Suc i) vs (cfg_setnint resource ''length'' v i)"

definition sparse_file_set_map_in_resource :: "cfg \<Rightarrow> sparse_file_map \<Rightarrow> cfg" where
  "sparse_file_set_map_in_resource resource sfm = set_map_loop 0 (map_entries sfm) resource"

section \<open>Sizes\<close>

fun sum_off_t :: "int \<Rightarrow> int list \<Rightarrow> int res" where
  "sum_off_t acc [] = Inr acc"
| "sum_off_t acc (n # ns) = bind_res (int64 (acc + n)) (\<lambda>s. sum_off_t s ns)"

fun every_other :: "'a list \<Rightarrow> 'a list" where
  "every_other [] = []"
| "every_other [x] = [x]"
| "every_other (x # _ # xs) = x # every_other xs"

definition sparse_file_size :: "sparse_file_map \<Rightarrow> int res" where
  "sparse_file_size sfm = sum_off_t 0 (map_entries sfm)"

definition sparse_file_data_size :: "sparse_file_map \<Rightarrow> int res" where
  "sparse_file_data_size sfm = sum_off_t 0 (every_other (map_entries sfm))"

definition sparse_ending_hole_size :: "sparse_file_map \<Rightarrow> int res" where
  "sparse_ending_hole_size sfm =
     (if length (map_entries sfm) mod 2 = 0
      then (if map_entries sfm = [] then Inl (Undefined ''map[map_len - 1]'') else Inr (last (map_entries sfm)))
      else Inr 0)"

section \<open>Building a map\<close>

text \<open>
  The loop over the segments of a file. \<open>pre\<close> is \<open>map[0..i)\<close>; the result is \<open>Inl m\<close> for a
  map that is complete (the two early returns), and \<open>Inr\<close> of the variables when the entries ran
  out.
\<close>

function map_loop :: "sparse_fd \<Rightarrow> int list \<Rightarrow> int \<Rightarrow> int \<Rightarrow> int \<Rightarrow> int list + int list \<times> int \<times> int \<times> int" where
  "map_loop fd pre offset next leftover =
     (if length pre < SPARSE_FILE_MAP_MAX_LEN - 2 then
        (case (if IN_HOLE (length pre) then seek_data fd offset else seek_hole fd offset) of
           None \<Rightarrow>
             (let e = (case seek_end fd of None \<Rightarrow> - 1 | Some e \<Rightarrow> e) in
              Inl (if e \<noteq> offset then pre @ [e - offset + leftover] else pre))
         | Some n \<Rightarrow>
             if length pre \<ge> 1 \<and> offset = n \<and> last pre = 0 then Inl pre
             else map_loop fd (pre @ [n - offset + leftover]) n n 0)
      else Inr (pre, offset, next, leftover))"
  by pat_completeness auto
termination
  by (relation "measure (\<lambda>(_, pre, _). SPARSE_FILE_MAP_MAX_LEN - length pre)") (auto simp: SPARSE_FILE_MAP_MAX_LEN_def)

declare map_loop.simps [simp del]

definition last_entry :: "sparse_fd \<Rightarrow> int list \<Rightarrow> int \<Rightarrow> int \<Rightarrow> int list res" where
  "last_entry fd pre offset leftover =
     (case seek_end fd of None \<Rightarrow> Inl Quiet
      | Some e \<Rightarrow> if length pre < SPARSE_FILE_MAP_MAX_LEN then Inr (pre @ [e - offset + leftover])
                  else Inl (Undefined ''map[i]''))"

definition sparse_file_build_map_from_fd :: "bool \<Rightarrow> sparse_fd \<Rightarrow> bool \<Rightarrow> sparse_file_map \<Rightarrow> sparse_file_map res" where
  "sparse_file_build_map_from_fd have_sparse_seek fd sparse_file_disabled sfm =
     (let start = (case sfm of None \<Rightarrow> Inr ([], 0)
                   | Some m \<Rightarrow> if m = [] then Inl (Undefined ''map[-1]'') else Inr (butlast m, last m))
      in bind_res start (\<lambda>(pre, leftover).
           if have_sparse_seek \<and> \<not> sparse_file_disabled then
             (case map_loop fd pre 0 0 leftover of
                Inl m \<Rightarrow> Inr (Some m)
              | Inr (pre', offset, next, leftover') \<Rightarrow>
                  if IN_HOLE (length pre') then
                    bind_res (last_entry fd (pre' @ [next - offset + leftover']) next 0) (\<lambda>m. Inr (Some m))
                  else bind_res (last_entry fd pre' offset leftover') (\<lambda>m. Inr (Some m)))
           else bind_res (last_entry fd pre 0 leftover) (\<lambda>m. Inr (Some m))))"

section \<open>Reading the data\<close>

record sparse_file_read_iterator =
  map_ix :: nat
  offset_in_segment :: int

definition sparse_file_start_read :: sparse_file_read_iterator where
  "sparse_file_start_read = \<lparr>map_ix = 0, offset_in_segment = 0\<rparr>"

text \<open>
  The loop past holes and empty segments: \<open>Inl\<close> is a return with nothing read, \<open>Inr\<close> leaves the
  loop in a data segment.
\<close>

type_synonym read_state = "sparse_file_read_iterator \<times> int"

function skip_holes :: "int list \<Rightarrow> sparse_fd \<Rightarrow> sparse_file_read_iterator \<Rightarrow> int \<Rightarrow> (read_state + read_state) res" where
  "skip_holes m fd it offset =
     (if map_ix it \<ge> length m then Inr (Inl (it, offset))
      else (let left = m ! map_ix it - offset_in_segment it; next = \<lparr>map_ix = map_ix it + 1, offset_in_segment = 0\<rparr> in
        if IN_HOLE (map_ix it) then
          (case seek_end fd of None \<Rightarrow> Inl Quiet
           | Some e \<Rightarrow>
               if e - offset < left
               then Inr (Inl (it\<lparr>offset_in_segment := offset_in_segment it + (e - offset)\<rparr>, e))
               else skip_holes m fd next (offset + left))
        else if left \<noteq> 0 then Inr (Inr (it, offset))
        else skip_holes m fd next offset))"
  by pat_completeness auto
termination
  by (relation "measure (\<lambda>(m, _, it, _). length m - map_ix it)") auto

declare skip_holes.simps [simp del]

text \<open>\<open>pread\<close> returns at most the bytes that it is asked for; more would overrun the buffer.\<close>

definition sparse_file_read_next_data :: "int list \<Rightarrow> sparse_fd \<Rightarrow> int \<Rightarrow>
    sparse_file_read_iterator \<Rightarrow> int \<Rightarrow> (byte list \<times> read_state) res" where
  "sparse_file_read_next_data m fd buf_len it0 offset0 =
     bind_res (skip_holes m fd it0 offset0) (\<lambda>r.
       case r of Inl s \<Rightarrow> Inr ([], s)
       | Inr (it, offset) \<Rightarrow>
           (let to_read = min (m ! map_ix it - offset_in_segment it) buf_len in
            case fd_pread fd to_read offset of
              None \<Rightarrow> Inl Quiet
            | Some bytes \<Rightarrow> if int (length bytes) > to_read then Inl (Undefined ''buf'') else
                (let it1 = it\<lparr>offset_in_segment := offset_in_segment it + int (length bytes)\<rparr>;
                     it2 = (if offset_in_segment it1 = m ! map_ix it1
                            then \<lparr>map_ix = map_ix it1 + 1, offset_in_segment = 0\<rparr> else it1)
                 in Inr (bytes, it2, offset + int (length bytes)))))"

section \<open>The file that a map describes\<close>

text \<open>
  \<open>expand True m\<close> says for every byte of the file whether it lies in a data segment. A file with
  data where \<open>is_data\<close> holds is a \<open>file_fd\<close>, with the documented behaviour of \<open>lseek\<close>: the next
  offset with data, or the next hole, where the end of the file counts as a hole.
\<close>

fun expand :: "bool \<Rightarrow> int list \<Rightarrow> bool list" where
  "expand b [] = []"
| "expand b (n # ns) = replicate (nat n) b @ expand (\<not> b) ns"

definition covers :: "bool list \<Rightarrow> bool list \<Rightarrow> bool" where
  "covers xs ys = list_all2 (\<lambda>x y. y \<longrightarrow> x) xs ys"

definition first_from :: "(nat \<Rightarrow> bool) \<Rightarrow> nat \<Rightarrow> nat \<Rightarrow> nat option" where
  "first_from P lo hi = find P [lo..<hi]"

definition file_fd :: "byte list \<Rightarrow> (nat \<Rightarrow> bool) \<Rightarrow> sparse_fd" where
  "file_fd bytes is_data =
     \<lparr>seek_data = (\<lambda>offset. if offset < 0 \<or> int (length bytes) \<le> offset then None
                    else map_option int (first_from is_data (nat offset) (length bytes))),
      seek_hole = (\<lambda>offset. if offset < 0 \<or> int (length bytes) \<le> offset then None
                    else Some (case first_from (\<lambda>p. \<not> is_data p) (nat offset) (length bytes) of
                                 None \<Rightarrow> int (length bytes) | Some p \<Rightarrow> int p)),
      seek_end = Some (int (length bytes)),
      fd_pread = (\<lambda>n offset. Some (take (nat n) (drop (nat offset) bytes)))\<rparr>"

lemma find_upt:
  "find P [lo..<hi] = Some p \<longleftrightarrow> lo \<le> p \<and> p < hi \<and> P p \<and> (\<forall>q. lo \<le> q \<and> q < p \<longrightarrow> \<not> P q)"
proof
  assume "find P [lo..<hi] = Some p"
  then obtain i where i: "i < hi - lo" "P (lo + i)" "p = lo + i" "\<And>j. j < i \<Longrightarrow> \<not> P (lo + j)"
    by (auto simp: find_Some_iff)
  have "\<not> P q" if "lo \<le> q" "q < p" for q using i(4) [of "q - lo"] i(3) that by simp
  then show "lo \<le> p \<and> p < hi \<and> P p \<and> (\<forall>q. lo \<le> q \<and> q < p \<longrightarrow> \<not> P q)" using i by auto
next
  assume "lo \<le> p \<and> p < hi \<and> P p \<and> (\<forall>q. lo \<le> q \<and> q < p \<longrightarrow> \<not> P q)"
  then show "find P [lo..<hi] = Some p" unfolding find_Some_iff by (intro exI [of _ "p - lo"]) auto
qed

lemma first_from_Some:
  "first_from P lo hi = Some p \<longleftrightarrow> lo \<le> p \<and> p < hi \<and> P p \<and> (\<forall>q. lo \<le> q \<and> q < p \<longrightarrow> \<not> P q)"
  by (simp only: first_from_def find_upt)

lemma first_from_None: "first_from P lo hi = None \<longleftrightarrow> (\<forall>q. lo \<le> q \<and> q < hi \<longrightarrow> \<not> P q)"
  by (auto simp: first_from_def find_None_iff)

lemma length_expand: "\<forall>x \<in> set m. 0 \<le> x \<Longrightarrow> int (length (expand b m)) = sum_list m"
  by (induction b m rule: expand.induct) auto

lemma expand_append: "expand b (xs @ ys) = expand b xs @ expand (b = even (length xs)) ys"
proof (induction b xs rule: expand.induct)
  case (2 b n ns)
  then show ?case by (cases b) simp_all
qed simp

lemma covers_refl: "covers xs xs"
  by (simp add: covers_def list_all2_same)

lemma covers_append: "covers xs xs' \<Longrightarrow> covers ys ys' \<Longrightarrow> covers (xs @ ys) (xs' @ ys')"
  by (simp add: covers_def list_all2_appendI)

lemma covers_True: "length ys = n \<Longrightarrow> covers (replicate n True) ys"
  by (simp add: covers_def list_all2_conv_all_nth)

lemma map_upt_const: "(\<And>q. o' \<le> q \<Longrightarrow> q < p \<Longrightarrow> P q = b) \<Longrightarrow> o' \<le> p \<Longrightarrow> map P [o'..<p] = replicate (p - o') b"
  by (rule nth_equalityI) auto

text \<open>The segment that starts at an offset, as the two kinds of \<open>lseek\<close> find it.\<close>

lemma seek_segment:
  assumes "o' < length bytes"
    and "(if odd k then seek_data (file_fd bytes D) (int o') else seek_hole (file_fd bytes D) (int o')) = Some n"
  obtains p where "n = int p" and "o' \<le> p" and "p \<le> length bytes" and "map D [o'..<p] = replicate (p - o') (even k)"
    and "p < length bytes \<longrightarrow> D p = odd k"
proof (cases "odd k")
  case True
  then obtain p where p: "n = int p" "first_from D o' (length bytes) = Some p"
    using assms by (auto simp: file_fd_def split: if_splits)
  then have "o' \<le> p" "p < length bytes" "D p" "\<forall>q. o' \<le> q \<and> q < p \<longrightarrow> \<not> D q" by (simp_all add: first_from_Some)
  then show thesis using that [of p] p(1) True map_upt_const [of o' p D False] by auto
next
  case False
  show thesis
  proof (cases "first_from (\<lambda>p. \<not> D p) o' (length bytes)")
    case None
    then have "\<forall>q. o' \<le> q \<and> q < length bytes \<longrightarrow> D q" by (simp add: first_from_None)
    moreover have "n = int (length bytes)" using assms False None by (simp add: file_fd_def)
    ultimately show thesis using that [of "length bytes"] assms(1) False map_upt_const [of o' "length bytes" D True] by auto
  next
    case (Some p)
    then have "o' \<le> p" "p < length bytes" "\<not> D p" "\<forall>q. o' \<le> q \<and> q < p \<longrightarrow> D q" by (simp_all add: first_from_Some)
    moreover have "n = int p" using assms False Some by (simp add: file_fd_def)
    ultimately show thesis using that [of p] False map_upt_const [of o' p D True] by auto
  qed
qed

lemma seek_none:
  assumes "(if odd k then seek_data (file_fd bytes D) (int o') else seek_hole (file_fd bytes D) (int o')) = None"
    and "o' \<le> length bytes"
  shows "o' = length bytes \<or> (odd k \<and> map D [o'..<length bytes] = replicate (length bytes - o') False)"
proof (cases "o' < length bytes")
  case True
  then have "odd k" "first_from D o' (length bytes) = None"
    using assms by (auto simp: file_fd_def split: if_splits)
  then show ?thesis using map_upt_const [of o' "length bytes" D False] True by (auto simp: first_from_None)
qed (use assms in simp)

section \<open>The map that is built\<close>

text \<open>
  \<open>E\<close> is the expansion of what was read so far. An entry of the map is open while \<open>leftover\<close> bytes
  of an earlier file wait to be added to it.
\<close>

definition build_inv :: "bool list \<Rightarrow> byte list \<Rightarrow> (nat \<Rightarrow> bool) \<Rightarrow> int list \<Rightarrow> nat \<Rightarrow> int \<Rightarrow> bool" where
  "build_inv E bytes D pre o' leftover =
     (expand True pre @ replicate (nat leftover) (even (length pre)) = E @ map D [0..<o'] \<and>
      0 \<le> leftover \<and> (\<forall>x \<in> set pre. 0 \<le> x) \<and> o' \<le> length bytes \<and>
      (o' = length bytes \<longrightarrow> leftover = 0) \<and>
      (pre \<noteq> [] \<and> last pre = 0 \<and> o' < length bytes \<longrightarrow> D o' = even (length pre)))"

definition map_result :: "bool list \<Rightarrow> byte list \<Rightarrow> (nat \<Rightarrow> bool) \<Rightarrow> int list \<Rightarrow> bool" where
  "map_result E bytes D m =
     ((\<forall>x \<in> set m. 0 \<le> x) \<and> covers (expand True m) (E @ map D [0..<length bytes]) \<and> length m \<le> 255 \<and>
      (length m < 255 \<longrightarrow> expand True m = E @ map D [0..<length bytes]))"

lemma upt_split: "o' \<le> p \<Longrightarrow> [0..<p] = [0..<o'] @ [o'..<(p :: nat)]"
  using upt_add_eq_append [of 0 o' "p - o'"] by simp

lemma segment_added:
  assumes "build_inv E bytes D pre o' leftover" and "o' \<le> p" and "map D [o'..<p] = replicate (p - o') (even (length pre))"
  shows "expand True (pre @ [int p - int o' + leftover]) = E @ map D [0..<p]"
proof -
  have l: "0 \<le> leftover" and e: "expand True pre @ replicate (nat leftover) (even (length pre)) = E @ map D [0..<o']"
    using assms(1) by (simp_all add: build_inv_def)
  have "nat (int p - int o' + leftover) = nat leftover + (p - o')" using l assms(2) by simp
  then have "expand True (pre @ [int p - int o' + leftover]) =
      (expand True pre @ replicate (nat leftover) (even (length pre))) @ replicate (p - o') (even (length pre))"
    by (simp add: expand_append replicate_add)
  also have "\<dots> = E @ map D [0..<p]" using assms(2,3) by (simp add: e upt_split [OF assms(2)])
  finally show ?thesis .
qed

lemma map_loop_ok:
  assumes "build_inv E bytes D pre o' leftover" and "length pre \<le> 254"
  shows "case map_loop (file_fd bytes D) pre (int o') next leftover of
      Inl m \<Rightarrow> map_result E bytes D m
    | Inr (pre', offset, next', leftover') \<Rightarrow> length pre' = 254 \<and> (\<exists>p. offset = int p \<and> build_inv E bytes D pre' p leftover')"
  using assms
proof (induction "254 - length pre" arbitrary: pre o' "next" leftover)
  case 0
  then show ?case by (auto simp: map_loop.simps [of _ pre] SPARSE_FILE_MAP_MAX_LEN_def)
next
  case (Suc k)
  then have len: "length pre < 254" by simp
  let ?fd = "file_fd bytes D"
  let ?seek = "if odd (length pre) then seek_data ?fd (int o') else seek_hole ?fd (int o')"
  note I = Suc.prems(1) [unfolded build_inv_def]
  have en: "seek_end ?fd = Some (int (length bytes))" by (simp add: file_fd_def)
  show ?case
  proof (cases ?seek)
    case None
    have r: "map_loop ?fd pre (int o') next leftover =
        Inl (if o' = length bytes then pre else pre @ [int (length bytes) - int o' + leftover])"
      using len None en by (simp add: map_loop.simps [of _ pre] IN_HOLE_def SPARSE_FILE_MAP_MAX_LEN_def)
    have "o' \<le> length bytes" using I by simp
    note sn = seek_none [OF None this]
    show ?thesis
    proof (cases "o' = length bytes")
      case True
      then have "leftover = 0" using I by blast
      then have "expand True pre = E @ map D [0..<length bytes]" using I True by auto
      then show ?thesis using r I True len by (simp add: map_result_def covers_refl)
    next
      case False
      then have "map D [o'..<length bytes] = replicate (length bytes - o') (even (length pre))" using sn by auto
      then have "expand True (pre @ [int (length bytes) - int o' + leftover]) = E @ map D [0..<length bytes]"
        using segment_added [OF Suc.prems(1)] I by simp
      then show ?thesis using r I False len by (simp add: map_result_def covers_refl)
    qed
  next
    case (Some n)
    have o: "o' < length bytes" using Some I by (auto simp: file_fd_def split: if_splits)
    obtain p where p: "n = int p" "o' \<le> p" "p \<le> length bytes" "map D [o'..<p] = replicate (p - o') (even (length pre))"
      "p < length bytes \<longrightarrow> D p = odd (length pre)"
      using seek_segment [OF o Some] by blast
    have ns: "\<not> (length pre \<ge> 1 \<and> int o' = n \<and> last pre = 0)"
    proof
      assume a: "length pre \<ge> 1 \<and> int o' = n \<and> last pre = 0"
      then have "D o' = even (length pre)" using I o by auto
      then show False using p(1,5) a o by simp
    qed
    have r: "map_loop ?fd pre (int o') next leftover = map_loop ?fd (pre @ [int p - int o' + leftover]) (int p) (int p) 0"
      using len Some ns p(1) by (subst map_loop.simps) (auto simp add: IN_HOLE_def SPARSE_FILE_MAP_MAX_LEN_def)
    have "build_inv E bytes D (pre @ [int p - int o' + leftover]) p 0"
      using segment_added [OF Suc.prems(1) p(2,4)] I p(2,3,5) by (auto simp: build_inv_def)
    moreover have "k = 254 - length (pre @ [int p - int o' + leftover])" "length (pre @ [int p - int o' + leftover]) \<le> 254"
      using Suc.hyps(2) len by simp_all
    ultimately show ?thesis unfolding r by (intro Suc.hyps(1))
  qed
qed

lemma last_entry_ok:
  assumes "build_inv E bytes D pre o' leftover" and "length pre = 254"
  shows "\<exists>m. last_entry (file_fd bytes D) pre (int o') leftover = Inr m \<and> map_result E bytes D m"
proof -
  note I = assms(1) [unfolded build_inv_def]
  let ?m = "pre @ [int (length bytes) - int o' + leftover]"
  have "o' \<le> length bytes" "0 \<le> leftover" using I by blast+
  then have n: "nat (int (length bytes) - int o' + leftover) = nat leftover + (length bytes - o')" by arith
  have "expand True ?m = expand True pre @ replicate (nat leftover + (length bytes - o')) True"
    by (simp only: expand_append expand.simps assms(2) n append_Nil2) simp
  also have "\<dots> = (expand True pre @ replicate (nat leftover) True) @ replicate (length bytes - o') True"
    by (simp add: replicate_add)
  also have "\<dots> = (E @ map D [0..<o']) @ replicate (length bytes - o') True" using I assms(2) by simp
  finally have "expand True ?m = (E @ map D [0..<o']) @ replicate (length bytes - o') True" .
  moreover have "E @ map D [0..<length bytes] = (E @ map D [0..<o']) @ map D [o'..<length bytes]"
    using I by (simp add: upt_split [of o' "length bytes"])
  ultimately have "covers (expand True ?m) (E @ map D [0..<length bytes])"
    using covers_append [OF covers_refl [of "E @ map D [0..<o']"] covers_True [of "map D [o'..<length bytes]" "length bytes - o'"]]
    by simp
  then have "map_result E bytes D ?m" using I assms(2) by (auto simp: map_result_def)
  then show ?thesis using assms(2) by (simp add: last_entry_def file_fd_def SPARSE_FILE_MAP_MAX_LEN_def)
qed

text \<open>
  What a continued map needs: an earlier file, at most 255 entries, this file is not empty, and it
  does not begin with data right behind a file that is one hole. Without the last two the code loses
  what it had.
\<close>

definition continues :: "sparse_file_map \<Rightarrow> byte list \<Rightarrow> (nat \<Rightarrow> bool) \<Rightarrow> bool" where
  "continues sfm bytes D = (case sfm of None \<Rightarrow> True
     | Some m \<Rightarrow> m \<noteq> [] \<and> length m \<le> 255 \<and> (\<forall>x \<in> set m. 0 \<le> x) \<and> bytes \<noteq> [] \<and>
         (length m \<ge> 2 \<and> last (butlast m) = 0 \<longrightarrow> D 0 = odd (length m)))"

lemma sparse_map_result:
  assumes "continues sfm bytes D"
  shows "\<exists>m. sparse_file_build_map_from_fd True (file_fd bytes D) False sfm = Inr (Some m) \<and>
    (\<forall>x \<in> set m. 0 \<le> x) \<and> length m \<le> 255 \<and>
    covers (expand True m) (expand True (map_entries sfm) @ map D [0..<length bytes]) \<and>
    (length m < 255 \<longrightarrow> expand True m = expand True (map_entries sfm) @ map D [0..<length bytes])"
proof -
  let ?E = "expand True (map_entries sfm)" and ?fd = "file_fd bytes D"
  obtain pre leftover where st: "(case sfm of None \<Rightarrow> Inr ([], 0)
      | Some m \<Rightarrow> if m = [] then Inl (Undefined ''map[-1]'') else Inr (butlast m, last m)) = Inr (pre, leftover)"
    and inv: "build_inv ?E bytes D pre 0 leftover" and len: "length pre \<le> 254"
  proof (cases sfm)
    case None
    then show ?thesis by (intro that [of "[]" 0]) (simp_all add: build_inv_def map_entries_def)
  next
    case (Some m)
    then have m: "m \<noteq> []" "length m \<le> 255" "\<forall>x \<in> set m. 0 \<le> x" "bytes \<noteq> []"
      "length m \<ge> 2 \<and> last (butlast m) = 0 \<longrightarrow> D 0 = odd (length m)" using assms by (simp_all add: continues_def)
    have l: "0 \<le> last m" using m(1,3) by simp
    have "expand True m = expand True (butlast m) @ replicate (nat (last m)) (even (length (butlast m)))"
      using expand_append [of True "butlast m" "[last m]"] m(1) by simp
    moreover have "D 0 = even (length (butlast m))" if "butlast m \<noteq> []" "last (butlast m) = 0"
    proof -
      have "length m \<ge> 2" using that(1) by (cases m) (auto simp: Suc_le_eq split: if_splits)
      then show ?thesis using m(5) that(2) by auto
    qed
    ultimately have "build_inv ?E bytes D (butlast m) 0 (last m)"
      using m l by (auto simp: build_inv_def map_entries_def Some dest: in_set_butlastD)
    then show ?thesis using m(1,2) Some by (intro that [of "butlast m" "last m"]) simp_all
  qed
  have "\<exists>m. sparse_file_build_map_from_fd True ?fd False sfm = Inr (Some m) \<and> map_result ?E bytes D m"
  proof (cases "map_loop ?fd pre 0 0 leftover")
    case (Inl m)
    then show ?thesis using map_loop_ok [OF inv len, of 0] st by (simp add: sparse_file_build_map_from_fd_def Let_def)
  next
    case (Inr r)
    obtain pre' offset nx leftover' where r: "r = (pre', offset, nx, leftover')" by (cases r) auto
    obtain p where p: "length pre' = 254" "offset = int p" "build_inv ?E bytes D pre' p leftover'"
      using map_loop_ok [OF inv len, of 0] Inr r by auto
    then show ?thesis using last_entry_ok [OF p(3,1)] Inr r st
      by (auto simp: sparse_file_build_map_from_fd_def Let_def IN_HOLE_def)
  qed
  then show ?thesis unfolding map_result_def by blast
qed

text \<open>
  The map of a file, or of several files one after the other, covers it. Every byte that the
  file system reports as data lies in a data segment of the map, the map describes
  exactly as many bytes as the files have, it has at most 255 entries, and as long as the entries do not
  run out it is exact: holes are holes.
\<close>

theorem sparse_map_built:
  assumes "continues sfm bytes D"
  shows "\<exists>m. sparse_file_build_map_from_fd True (file_fd bytes D) False sfm = Inr (Some m) \<and>
    (\<forall>x \<in> set m. 0 \<le> x) \<and> length m \<le> 255 \<and>
    covers (expand True m) (expand True (map_entries sfm) @ map D [0..<length bytes]) \<and>
    (length m < 255 \<longrightarrow> expand True m = expand True (map_entries sfm) @ map D [0..<length bytes])"
  by (rule sparse_map_result [OF assms])

theorem sparse_map_built_witness:
  "\<exists>m. sparse_file_build_map_from_fd True (file_fd (replicate 20 1) (\<lambda>p. p < 8 \<or> 15 \<le> p)) False (Some [4, 6]) = Inr (Some m) \<and>
    (\<forall>x \<in> set m. 0 \<le> x) \<and> length m \<le> 255 \<and>
    covers (expand True m) (expand True (map_entries (Some [4, 6])) @ map (\<lambda>p. p < 8 \<or> 15 \<le> p) [0..<length (replicate 20 (1 :: byte))]) \<and>
    (length m < 255 \<longrightarrow> expand True m = expand True (map_entries (Some [4, 6])) @
        map (\<lambda>p. p < 8 \<or> 15 \<le> p) [0..<length (replicate 20 (1 :: byte))])"
  by (rule sparse_map_built) (simp add: continues_def)

text \<open>
  Files that do not continue an earlier map as they should. An empty file makes the last
  entry of the map disappear with the bytes it stands for. Data behind a file that is one hole
  makes the whole map disappear, so that the resource is stored with length zero.
  A file behind an empty one makes the code access the entry in front of the array.
\<close>

theorem sparse_map_lost:
  "sparse_file_build_map_from_fd True (file_fd [] D) False (Some [10]) = Inr (Some []) \<and>
   sparse_file_build_map_from_fd True (file_fd (b # bs) (\<lambda>_. True)) False (Some [0, 1000]) = Inr (Some [0]) \<and>
   (\<exists>m. sparse_file_build_map_from_fd True (file_fd [] D) False sparse_file_init = Inr m \<and>
      (\<exists>w. sparse_file_build_map_from_fd True fd disabled m = Inl (Undefined w)))"
proof (intro conjI)
  show "sparse_file_build_map_from_fd True (file_fd [] D) False (Some [10]) = Inr (Some [])"
    by (simp add: sparse_file_build_map_from_fd_def map_loop.simps IN_HOLE_def file_fd_def SPARSE_FILE_MAP_MAX_LEN_def Let_def)
  have "first_from (\<lambda>_. True) 0 (length (b # bs)) = Some 0" by (simp add: first_from_Some)
  then have "seek_data (file_fd (b # bs) (\<lambda>_. True)) 0 = Some 0" by (simp add: file_fd_def)
  then show "sparse_file_build_map_from_fd True (file_fd (b # bs) (\<lambda>_. True)) False (Some [0, 1000]) = Inr (Some [0])"
    by (simp add: sparse_file_build_map_from_fd_def map_loop.simps IN_HOLE_def SPARSE_FILE_MAP_MAX_LEN_def Let_def)
  show "\<exists>m. sparse_file_build_map_from_fd True (file_fd [] D) False sparse_file_init = Inr m \<and>
      (\<exists>w. sparse_file_build_map_from_fd True fd disabled m = Inl (Undefined w))"
    by (simp add: sparse_file_build_map_from_fd_def map_loop.simps IN_HOLE_def file_fd_def SPARSE_FILE_MAP_MAX_LEN_def
        sparse_file_init_def Let_def)
qed

section \<open>The data that is read\<close>

text \<open>
  \<open>to_read m it\<close> describes the bytes from the iterator's position on; \<open>select\<close> takes the bytes of
  the data segments.
\<close>

definition ahead :: "int list \<Rightarrow> sparse_file_read_iterator \<Rightarrow> bool list" where
  "ahead m it = (if map_ix it < length m
     then replicate (nat (m ! map_ix it - offset_in_segment it)) (even (map_ix it)) @
          expand (odd (map_ix it)) (drop (Suc (map_ix it)) m)
     else [])"

definition select :: "byte list \<Rightarrow> bool list \<Rightarrow> byte list" where
  "select bs fl = map fst (filter snd (zip bs fl))"

definition iterator_ok :: "int list \<Rightarrow> sparse_file_read_iterator \<Rightarrow> bool" where
  "iterator_ok m it = ((\<forall>x \<in> set m. 0 \<le> x) \<and> 0 \<le> offset_in_segment it \<and>
     (map_ix it < length m \<longrightarrow> offset_in_segment it \<le> m ! map_ix it) \<and> (length m \<le> map_ix it \<longrightarrow> offset_in_segment it = 0))"

lemma select_append: "length bs = length fl \<Longrightarrow> select (bs @ bs') (fl @ fl') = select bs fl @ select bs' fl'"
  by (simp add: select_def)

lemma select_False [simp]: "select bs (replicate n False) = []"
  by (auto simp: select_def filter_empty_conv set_zip)

lemma select_True [simp]: "length bs \<le> n \<Longrightarrow> select bs (replicate n True) = bs"
proof -
  assume "length bs \<le> n"
  then have "filter snd (zip bs (replicate n True)) = zip bs (replicate n True)"
    by (auto simp: filter_id_conv set_zip)
  then show ?thesis using \<open>length bs \<le> n\<close> by (simp add: select_def map_fst_zip_take)
qed

lemma select_drop:
  assumes "n \<le> length bs" and "n \<le> length fl"
  shows "select bs fl = select (take n bs) (take n fl) @ select (drop n bs) (drop n fl)"
  using select_append [of "take n bs" "take n fl" "drop n bs" "drop n fl"] assms by simp

lemma select_Nil [simp]: "select [] fl = []" "select bs [] = []"
  by (simp_all add: select_def)

lemma ahead_next:
  assumes "map_ix it < length m"
  shows "ahead m it = replicate (nat (m ! map_ix it - offset_in_segment it)) (even (map_ix it)) @
    ahead m \<lparr>map_ix = map_ix it + 1, offset_in_segment = 0\<rparr>"
proof (cases "Suc (map_ix it) < length m")
  case True
  then have "drop (Suc (map_ix it)) m = m ! Suc (map_ix it) # drop (Suc (Suc (map_ix it))) m"
    by (simp add: Cons_nth_drop_Suc)
  then show ?thesis using assms True by (simp add: ahead_def)
qed (use assms in \<open>simp add: ahead_def\<close>)

lemma ahead_start: "\<forall>x \<in> set m. 0 \<le> x \<Longrightarrow> ahead m sparse_file_start_read = expand True m"
  by (cases m) (simp_all add: ahead_def sparse_file_start_read_def)

text \<open>
  Past the holes: the data that is still to be read from this file is the same, and the loop ends in
  a data segment, or where the file or the map ends.
\<close>

lemma skip_holes_ok:
  assumes "iterator_ok m it" and "o' \<le> length bs" and "length bs - o' \<le> length (ahead m it)"
  shows "\<exists>r. skip_holes m (file_fd bs D) it (int o') = Inr r \<and>
    (case r of
       Inl (it', p) \<Rightarrow> iterator_ok m it' \<and> select (drop o' bs) (ahead m it) = [] \<and>
         ahead m it' = drop (length bs - o') (ahead m it)
     | Inr (it', p) \<Rightarrow> \<exists>k. p = int k \<and> o' \<le> k \<and> k \<le> length bs \<and> iterator_ok m it' \<and> map_ix it' < length m \<and>
         even (map_ix it') \<and> offset_in_segment it' < m ! map_ix it' \<and> length bs - k \<le> length (ahead m it') \<and>
         select (drop o' bs) (ahead m it) = select (drop k bs) (ahead m it') \<and>
         drop (length bs - k) (ahead m it') = drop (length bs - o') (ahead m it))"
  using assms
proof (induction "length m - map_ix it" arbitrary: it o')
  case 0
  then have "ahead m it = []" by (simp add: ahead_def)
  moreover from this have "o' = length bs" using 0 by simp
  ultimately show ?case using 0 by (simp add: skip_holes.simps [of _ _ it])
next
  case (Suc n)
  then have lt: "map_ix it < length m" by simp
  let ?next = "\<lparr>map_ix = map_ix it + 1, offset_in_segment = 0\<rparr>" and ?left = "m ! map_ix it - offset_in_segment it"
  have nx: "iterator_ok m ?next" using Suc.prems(1) by (auto simp: iterator_ok_def)
  have left: "0 \<le> ?left" using Suc.prems(1) lt by (simp add: iterator_ok_def)
  note an = ahead_next [OF lt]
  have k: "n = length m - map_ix ?next" using Suc.hyps(2) by simp
  have en: "seek_end (file_fd bs D) = Some (int (length bs))" by (simp add: file_fd_def)
  show ?case
  proof (cases "odd (map_ix it)")
    case hole: True
    show ?thesis
    proof (cases "int (length bs) - int o' < ?left")
      case True
      let ?it = "it\<lparr>offset_in_segment := offset_in_segment it + (int (length bs) - int o')\<rparr>"
      have r: "skip_holes m (file_fd bs D) it (int o') = Inr (Inl (?it, int (length bs)))"
        using lt hole True en by (simp add: skip_holes.simps [of _ _ it] IN_HOLE_def Let_def)
      have sz: "length bs - o' \<le> nat ?left" using True Suc.prems(2) by linarith
      have "ahead m it = replicate (length bs - o') False @ replicate (nat ?left - (length bs - o')) False @ ahead m ?next"
        using an hole sz by (simp add: replicate_add [symmetric] flip: append_assoc)
      then have "select (drop o' bs) (ahead m it) = []"
        using select_append [of "drop o' bs" "replicate (length bs - o') False" "[]"] by simp
      moreover have "ahead m ?it = drop (length bs - o') (ahead m it)"
      proof -
        have "ahead m ?it = replicate (nat (?left - (int (length bs) - int o'))) False @ ahead m ?next"
          using ahead_next [of ?it m] lt hole by (simp add: algebra_simps)
        moreover have "nat (?left - (int (length bs) - int o')) = nat ?left - (length bs - o')"
          using True Suc.prems(2) by linarith
        ultimately show ?thesis using an hole sz by simp
      qed
      moreover have "iterator_ok m ?it" using Suc.prems(1,2) lt True by (auto simp: iterator_ok_def)
      ultimately show ?thesis using r by simp
    next
      case False
      let ?o = "o' + nat ?left"
      have le: "?o \<le> length bs" using False left Suc.prems(2) by linarith
      have r: "skip_holes m (file_fd bs D) it (int o') = skip_holes m (file_fd bs D) ?next (int ?o)"
        using lt hole False en left by (simp add: skip_holes.simps [of _ _ it] IN_HOLE_def Let_def)
      have s: "select (drop o' bs) (ahead m it) = select (drop ?o bs) (ahead m ?next)"
        using select_drop [of "nat ?left" "drop o' bs" "ahead m it"] an hole le by (simp add: add.commute)
      have d: "drop (length bs - o') (ahead m it) = drop (length bs - ?o) (ahead m ?next)"
        using an le by (simp add: drop_append)
      have "length bs - ?o \<le> length (ahead m ?next)" using Suc.prems(3) an le by simp
      note IH = Suc.hyps(1) [OF k nx le this]
      then obtain q where q: "skip_holes m (file_fd bs D) ?next (int ?o) = Inr q" by blast
      show ?thesis
      proof (cases q)
        case (Inl a)
        then show ?thesis using IH q r s d by (cases a) simp
      next
        case (Inr a)
        obtain it' p where a: "a = (it', p)" by (cases a)
        then show ?thesis using IH q r s d Inr le by (auto intro: le_trans [of o' ?o])
      qed
    qed
  next
    case data: False
    show ?thesis
    proof (cases "?left = 0")
      case True
      have r: "skip_holes m (file_fd bs D) it (int o') = skip_holes m (file_fd bs D) ?next (int o')"
        using lt data True by (simp add: skip_holes.simps [of _ _ it] IN_HOLE_def Let_def)
      have e: "ahead m it = ahead m ?next" using an True by simp
      have "length bs - o' \<le> length (ahead m ?next)" using Suc.prems(3) e by simp
      from Suc.hyps(1) [OF k nx Suc.prems(2) this] show ?thesis by (simp only: r e)
    next
      case False
      have r: "skip_holes m (file_fd bs D) it (int o') = Inr (Inr (it, int o'))"
        using lt data False by (simp add: skip_holes.simps [of _ _ it] IN_HOLE_def Let_def)
      then show ?thesis using Suc.prems lt data False left by (auto intro!: exI [of _ o'])
    qed
  qed
qed

text \<open>
  One call: a prefix of the data that is left, and nothing only if no data of this file is left.
\<close>

lemma read_next_data_ok:
  assumes "iterator_ok m it" and "o' \<le> length bs" and "length bs - o' \<le> length (ahead m it)" and "0 < buf_len"
  shows "\<exists>chunk it' k. sparse_file_read_next_data m (file_fd bs D) buf_len it (int o') = Inr (chunk, it', k) \<and>
    iterator_ok m it' \<and>
    (if chunk = [] then select (drop o' bs) (ahead m it) = [] \<and> ahead m it' = drop (length bs - o') (ahead m it)
     else \<exists>p. k = int p \<and> o' < p \<and> p \<le> length bs \<and> length bs - p \<le> length (ahead m it') \<and>
       select (drop o' bs) (ahead m it) = chunk @ select (drop p bs) (ahead m it') \<and>
       drop (length bs - p) (ahead m it') = drop (length bs - o') (ahead m it))"
proof -
  obtain r where r: "skip_holes m (file_fd bs D) it (int o') = Inr r"
    using skip_holes_ok [OF assms(1-3)] by blast
  show ?thesis
  proof (cases r)
    case (Inl q)
    then show ?thesis using skip_holes_ok [OF assms(1-3), of D] r
      by (cases q) (simp add: sparse_file_read_next_data_def)
  next
    case (Inr q)
    obtain it1 o1 where q: "q = (it1, o1)" by (cases q)
    obtain k where k: "o1 = int k" "o' \<le> k" "k \<le> length bs" "iterator_ok m it1" "map_ix it1 < length m" "even (map_ix it1)"
      "offset_in_segment it1 < m ! map_ix it1" "length bs - k \<le> length (ahead m it1)"
      "select (drop o' bs) (ahead m it) = select (drop k bs) (ahead m it1)"
      "drop (length bs - k) (ahead m it1) = drop (length bs - o') (ahead m it)"
      using skip_holes_ok [OF assms(1-3), of D] r Inr q by auto
    define n where "n = min (m ! map_ix it1 - offset_in_segment it1) buf_len"
    define chunk where "chunk = take (nat n) (drop k bs)"
    define it2 where "it2 = it1\<lparr>offset_in_segment := offset_in_segment it1 + int (length chunk)\<rparr>"
    define it3 where "it3 = (if offset_in_segment it2 = m ! map_ix it2 then \<lparr>map_ix = map_ix it2 + 1, offset_in_segment = 0\<rparr> else it2)"
    let ?left = "m ! map_ix it1 - offset_in_segment it1"
    have n: "0 < n" "n \<le> ?left" using k(7) assms(4) by (simp_all add: n_def)
    have c: "length chunk = min (nat n) (length bs - k)" by (simp add: chunk_def)
    then have cl: "length chunk \<le> nat ?left" "int (length chunk) \<le> ?left" using n by linarith+
    have fits: "\<not> n < int (length (take (nat n) (drop k bs)))" using n(1) by simp
    have res: "sparse_file_read_next_data m (file_fd bs D) buf_len it (int o') = Inr (chunk, it3, int k + int (length chunk))"
      using r Inr q k(1) fits
      by (simp add: sparse_file_read_next_data_def file_fd_def n_def [symmetric] chunk_def [symmetric] it2_def it3_def Let_def
          del: length_take)
    have ok3: "iterator_ok m it3"
      using k(4,5) cl(2) by (auto simp: iterator_ok_def it3_def it2_def)
    have a3: "ahead m it3 = drop (length chunk) (ahead m it1)"
    proof -
      have "ahead m it2 = replicate (nat (?left - int (length chunk))) True @ ahead m \<lparr>map_ix = map_ix it1 + 1, offset_in_segment = 0\<rparr>"
        using ahead_next [of it2 m] k(5,6) by (simp add: it2_def algebra_simps)
      moreover have "nat (?left - int (length chunk)) = nat ?left - length chunk" using cl(2) by linarith
      ultimately have "ahead m it2 = drop (length chunk) (ahead m it1)"
        using ahead_next [OF k(5)] k(6) cl(1) by (simp add: drop_append)
      moreover have "ahead m it3 = ahead m it2"
        using ahead_next [of it2 m] k(5) by (auto simp: it3_def it2_def)
      ultimately show ?thesis by simp
    qed
    show ?thesis
    proof (cases "chunk = []")
      case True
      then have "k = length bs" using c n(1) k(3) by auto
      then show ?thesis using res ok3 a3 True k(9,10) by (intro exI [of _ chunk] exI [of _ it3]) auto
    next
      case False
      have t: "take (length chunk) (drop k bs) = chunk" "take (length chunk) (ahead m it1) = replicate (length chunk) True"
        using ahead_next [OF k(5)] k(6) cl(1) by (simp_all add: chunk_def min_def)
      have l: "length chunk \<le> length (drop k bs)" "length chunk \<le> length (ahead m it1)"
        using c k(3,8) by auto
      have "select (drop o' bs) (ahead m it) = chunk @ select (drop (k + length chunk) bs) (ahead m it3)"
        using select_drop [OF l] k(9) t by (simp add: a3 add.commute)
      moreover have "drop (length bs - (k + length chunk)) (ahead m it3) = drop (length bs - o') (ahead m it)"
      proof -
        have "length bs - (k + length chunk) + length chunk = length bs - k" using l(1) by simp
        then show ?thesis using k(10) by (simp add: a3)
      qed
      moreover have "length bs - (k + length chunk) \<le> length (ahead m it3)" using k(8) by (simp add: a3)
      moreover have "o' < k + length chunk" "k + length chunk \<le> length bs"
      proof -
        have "0 < length chunk" using False by simp
        then show "o' < k + length chunk" using k(2) by linarith
        show "k + length chunk \<le> length bs" using l(1) k(3) by simp
      qed
      ultimately show ?thesis using res ok3 False
        by (intro exI [of _ chunk] exI [of _ it3] exI [of _ "int k + int (length chunk)"]) (auto intro!: exI [of _ "k + length chunk"])
    qed
  qed
qed

text \<open>A map that is stored in the configuration is found there again.\<close>

lemma set_map_loop_ints:
  "length (cfg_ints c ''length'') \<le> i + length m \<Longrightarrow> i \<le> length (cfg_ints c ''length'') \<Longrightarrow>
   cfg_ints (set_map_loop i m c) ''length'' = take i (cfg_ints c ''length'') @ m"
proof (induction m arbitrary: i c)
  case (Cons v vs)
  let ?l = "cfg_ints c ''length''"
  have n: "cfg_ints (cfg_setnint c ''length'' v i) ''length'' = (if i < length ?l then ?l[i := v] else ?l @ [v])"
    by (simp add: cfg_setnint_def Let_def)
  have "cfg_ints (set_map_loop (Suc i) vs (cfg_setnint c ''length'' v i)) ''length'' =
      take (Suc i) (cfg_ints (cfg_setnint c ''length'' v i) ''length'') @ vs"
    using Cons.prems by (intro Cons.IH) (auto simp: n)
  then show ?case using Cons.prems by (auto simp: n take_Suc_conv_app_nth)
qed simp

lemma sparse_map_config_roundtrip:
  assumes "m \<noteq> []" and "length (cfg_ints resource ''length'') \<le> length m"
  shows "sparse_file_get_map_from_resource (sparse_file_set_map_in_resource resource (Some m)) = Inr (Some m)"
  using set_map_loop_ints [of resource 0 m] assms
  by (simp add: sparse_file_get_map_from_resource_def sparse_file_set_map_in_resource_def map_entries_def Let_def)

end
