(* ===== verification/Archive.thy ===== *)
theory Archive
  imports Util
begin

text \<open>
  Archives as the program reads them (\<open>archive_open.c\<close>, \<open>archive_read_all_data\<close> of \<open>cfgfile.c\<close>) and
  the lists of resources (\<open>resources.c\<close>).

  libarchive is not part of the repository. A reading handle is the answers that it still gives:
  the headers of the entries to come, and for the current entry what its next calls of
  \<open>archive_read_data_block\<close> and \<open>archive_read_data\<close> return. After the last answer a call returns
  \<open>ARCHIVE_EOF\<close>, or no bytes. So a definition over a handle is a definition over every behaviour
  of the library.
\<close>

section \<open>Reading the archive file\<close>

definition DEFAULT_LIBARCHIVE_BLOCK_SIZE :: nat where "DEFAULT_LIBARCHIVE_BLOCK_SIZE = 16384"

text \<open>The answers of \<open>read\<close>.\<close>

datatype read_answer = Interrupted | Read_error | Bytes_read "byte list"

record fwup_archive_data =
  current_frame_remaining :: nat
  is_stdin :: bool
  is_eof :: bool
  ad_name :: string
  ad_input_bytes :: "u64 option"

definition count_input :: "byte list \<Rightarrow> fwup_archive_data \<Rightarrow> fwup_archive_data" where
  "count_input bytes ad = ad\<lparr>ad_input_bytes := map_option (\<lambda>n. n + of_nat (length bytes)) (ad_input_bytes ad)\<rparr>"

fun normal_read :: "(fwup_archive_data \<times> read_answer list, byte list) action" where
  "normal_read (ad, []) = (Inr [], (ad, []))"
| "normal_read (ad, Interrupted # as) = normal_read (ad, as)"
| "normal_read (ad, Read_error # as) =
     (Inl (Msg (if is_stdin ad then ''Error reading stdin'' else ''Error reading file'')), (ad, as))"
| "normal_read (ad, Bytes_read bytes # as) = (Inr bytes, (count_input bytes ad, as))"

text \<open>\<open>fread\<close> from standard input: all that was asked for unless the input ends.\<close>

definition from_bigendian32 :: "byte list \<Rightarrow> u32" where
  "from_bigendian32 b = load_le32 (rev b)"

definition framed_stdin_read :: "(fwup_archive_data \<times> byte list, byte list) action" where
  "framed_stdin_read = (\<lambda>(ad, stdin).
     if is_eof ad then (Inr [], (ad, stdin))
     else
       (let read_frame = (\<lambda>(ad, stdin).
              (let amount_to_read = min (current_frame_remaining ad) DEFAULT_LIBARCHIVE_BLOCK_SIZE;
                   bytes = take amount_to_read stdin; stdin' = drop amount_to_read stdin in
               if bytes = [] then (Inl (Msg ''Received EOF even though framing indicated more bytes''), (ad, stdin'))
               else (Inr bytes, (count_input bytes
                       (ad\<lparr>current_frame_remaining := current_frame_remaining ad - length bytes\<rparr>), stdin')))) in
        if current_frame_remaining ad = 0 then
          (let be_len = take 4 stdin; stdin' = drop 4 stdin in
           if length be_len \<noteq> 4 then (Inl (Msg ''Error reading stdin''), (ad, stdin'))
           else if be_len = [0, 0, 0, 0] then (Inr [], (ad\<lparr>is_eof := True\<rparr>, stdin'))
           else read_frame (ad\<lparr>current_frame_remaining := unat (from_bigendian32 be_len)\<rparr>, stdin'))
        else read_frame (ad, stdin)))"

text \<open>
  \<open>fwup_archive_open_filename\<close>: whether the file could be opened is an argument. The result says
  also if the input is read with \<open>framed_stdin_read\<close>.
\<close>

definition fwup_archive_open_filename :: "bool \<Rightarrow> bool \<Rightarrow> string option \<Rightarrow> u64 option \<Rightarrow> (fwup_archive_data \<times> bool) res" where
  "fwup_archive_open_filename framing open_ok filename progress =
     (let from_stdin = (filename = None \<or> filename = Some []);
          ad = \<lparr>current_frame_remaining = 0, is_stdin = from_stdin, is_eof = False,
                ad_name = (case filename of None \<Rightarrow> [] | Some f \<Rightarrow> take 4095 f), ad_input_bytes = progress\<rparr> in
      if \<not> from_stdin \<and> \<not> open_ok then Inl (Msg ''Failed to open'') else Inr (ad, framing \<and> from_stdin))"

section \<open>Frames\<close>

text \<open>
  A reader that calls until there is no more input. A frame is its length in big-endian order and
  its bytes; four zeros end the input.
\<close>

lemma framed_stdin_read_shorter:
  "framed_stdin_read (ad, s) = (Inr bs, (ad', s')) \<Longrightarrow> bs \<noteq> [] \<Longrightarrow> length s' < length s"
  by (auto simp: framed_stdin_read_def Let_def DEFAULT_LIBARCHIVE_BLOCK_SIZE_def split: if_splits)

function framed_drain :: "fwup_archive_data \<Rightarrow> byte list \<Rightarrow> byte list res \<times> byte list" where
  "framed_drain ad s =
     (case framed_stdin_read (ad, s) of
        (Inl e, (_, s')) \<Rightarrow> (Inl e, s')
      | (Inr bs, (ad', s')) \<Rightarrow>
          if bs = [] then (Inr [], s')
          else (case framed_drain ad' s' of
                  (Inl e, t) \<Rightarrow> (Inl e, t)
                | (Inr bs', t) \<Rightarrow> (Inr (bs @ bs'), t)))"
  by pat_completeness auto
termination
  by (relation "measure (\<lambda>(_, s). length s)") (auto dest!: framed_stdin_read_shorter [OF sym])

declare framed_drain.simps [simp del]

definition frame :: "byte list \<Rightarrow> byte list" where
  "frame f = to_bigendian32 (of_nat (length f)) @ f"

definition frame_ok :: "byte list \<Rightarrow> bool" where
  "frame_ok f = (0 < length f \<and> length f < 2 ^ 32)"

definition frames_end :: "byte list" where
  "frames_end = [0, 0, 0, 0]"

lemma from_to_bigendian32 [simp]: "from_bigendian32 (to_bigendian32 v) = v"
  by (simp add: from_bigendian32_def to_bigendian32_def)

lemma length_to_bigendian32 [simp]: "length (to_bigendian32 v) = 4"
  by (simp add: to_bigendian32_def copy_le32_def)

lemma bit_byte_high [simp]: "8 \<le> k \<Longrightarrow> \<not> bit (b :: byte) (k + n)"
  using bit_imp_le_length [of b "k + n"] by auto

lemma copy_load_le32: "length b = 4 \<Longrightarrow> copy_le32 (load_le32 b) = b"
proof -
  assume "length b = 4"
  then obtain w x y z where b: "b = [w, x, y, z]" by (auto simp: length_Suc_conv numeral_eq_Suc)
  have "ucast (drop_bit k (load_le32 b) AND 255) = b ! (k div 8)" if "k \<in> {0, 8, 16, 24}" for k
    using that unfolding b load_le32_def
    by (auto intro!: bit_word_eqI simp: bit_simps mask8)
  from this [of 0] this [of 8] this [of 16] this [of 24] show ?thesis
    unfolding copy_le32_def by (simp add: b)
qed

lemma to_from_bigendian32: "length b = 4 \<Longrightarrow> to_bigendian32 (from_bigendian32 b) = b"
  by (simp add: from_bigendian32_def to_bigendian32_def copy_load_le32)

lemma to_bigendian32_0: "to_bigendian32 v = [0, 0, 0, 0] \<longleftrightarrow> v = 0"
proof
  assume "to_bigendian32 v = [0, 0, 0, 0]"
  then have "v = from_bigendian32 [0, 0, 0, 0]" by (metis from_to_bigendian32)
  then show "v = 0" by (simp add: from_bigendian32_def load_le32_def)
qed (simp add: to_bigendian32_def copy_le32_def)

text \<open>
  \<open>rest_of_frames r s bs t\<close>: the input \<open>s\<close> is the \<open>r\<close> bytes that are left of a frame, then frames and
  their end; \<open>bs\<close> is their data, \<open>t\<close> follows.
\<close>

definition rest_of_frames :: "nat \<Rightarrow> byte list \<Rightarrow> byte list \<Rightarrow> byte list \<Rightarrow> bool" where
  "rest_of_frames r s bs t = (\<exists>p frames. s = p @ concat (map frame frames) @ frames_end @ t \<and> length p = r \<and>
     list_all frame_ok frames \<and> bs = p @ concat frames)"

lemma rest_of_frames_end: "rest_of_frames 0 (frames_end @ t) [] t"
  unfolding rest_of_frames_def by (intro exI [of _ "[]"]) simp

lemma rest_of_frames_frame:
  assumes "rest_of_frames n s bs t" and "0 < n" and "n < 2 ^ 32"
  shows "rest_of_frames 0 (to_bigendian32 (of_nat n) @ s) bs t"
proof -
  from assms(1) obtain p frames where p: "s = p @ concat (map frame frames) @ frames_end @ t" "length p = n"
      "list_all frame_ok frames" "bs = p @ concat frames"
    by (auto simp: rest_of_frames_def)
  have "list_all frame_ok (p # frames)" using p assms(2,3) by (simp add: frame_ok_def)
  then show ?thesis
    unfolding rest_of_frames_def using p by (intro exI [of _ "[]"] exI [of _ "p # frames"]) (simp add: frame_def)
qed

lemma rest_of_frames_more:
  assumes "rest_of_frames r s bs t"
  shows "rest_of_frames (length b + r) (b @ s) (b @ bs) t"
proof -
  from assms obtain p frames where "s = p @ concat (map frame frames) @ frames_end @ t" "length p = r"
      "list_all frame_ok frames" "bs = p @ concat frames"
    by (auto simp: rest_of_frames_def)
  then show ?thesis
    unfolding rest_of_frames_def by (intro exI [of _ "b @ p"] exI [of _ frames]) simp
qed

text \<open>One call: the end of the input, or bytes of the current or the next frame.\<close>

lemma framed_stdin_read_cases:
  assumes "framed_stdin_read (ad, s) = (Inr x, (ad', s'))" and "\<not> is_eof ad"
  shows "x = [] \<and> current_frame_remaining ad = 0 \<and> s = frames_end @ s' \<or>
    x \<noteq> [] \<and> \<not> is_eof ad' \<and>
    (current_frame_remaining ad = length x + current_frame_remaining ad' \<and> s = x @ s' \<or>
     current_frame_remaining ad = 0 \<and> (\<exists>n. 0 < n \<and> n < 2 ^ 32 \<and> n = length x + current_frame_remaining ad' \<and>
       s = to_bigendian32 (of_nat n) @ x @ s'))"
proof (cases "current_frame_remaining ad = 0")
  case False
  then show ?thesis
    using assms by (auto simp: framed_stdin_read_def Let_def count_input_def split: if_splits)
next
  case True
  have s: "s = take 4 s @ drop 4 s" by simp
  have len: "length (take 4 s) = 4"
    using assms True by (auto simp: framed_stdin_read_def Let_def split: if_splits)
  show ?thesis
  proof (cases "take 4 s = [0, 0, 0, 0]")
    case z: True
    then have "x = [] \<and> s' = drop 4 s"
      using assms True len by (auto simp: framed_stdin_read_def Let_def split: if_splits)
    then show ?thesis using True z s by (metis frames_end_def)
  next
    case nz: False
    let ?n = "unat (from_bigendian32 (take 4 s))"
    let ?m = "min ?n DEFAULT_LIBARCHIVE_BLOCK_SIZE"
    have pre: "to_bigendian32 (of_nat ?n) = take 4 s" using len by (simp add: to_from_bigendian32)
    have n: "0 < ?n" using nz pre to_bigendian32_0 [of "of_nat ?n"] by (auto simp: word_gt_0 unat_gt_0)
    have n32: "?n < 2 ^ 32" using unsigned_less [of "from_bigendian32 (take 4 s)", where 'a = nat] by simp
    have x: "x = take ?m (drop 4 s)" "s' = drop ?m (drop 4 s)" "x \<noteq> []" "\<not> is_eof ad'"
        "current_frame_remaining ad' = ?n - length x"
      using assms True len nz
      by (auto simp: framed_stdin_read_def Let_def count_input_def split: if_splits)
    have "?n = length x + current_frame_remaining ad'" using x by simp
    moreover have "s = to_bigendian32 (of_nat ?n) @ x @ s'" using pre s x(1,2) by (metis append_take_drop_id)
    ultimately show ?thesis using True n n32 x(3,4) by blast
  qed
qed

lemma framed_drain_sound:
  "\<not> is_eof ad \<Longrightarrow> framed_drain ad s = (Inr bs, t) \<Longrightarrow> rest_of_frames (current_frame_remaining ad) s bs t"
proof (induction ad s arbitrary: bs rule: framed_drain.induct)
  case (1 ad s)
  obtain x ad' s' where r: "framed_stdin_read (ad, s) = (Inr x, (ad', s'))"
    using "1.prems"(2) by (subst (asm) framed_drain.simps) (auto split: prod.splits sum.splits)
  show ?case
  proof (cases "x = []")
    case True
    have "bs = [] \<and> t = s'" using "1.prems"(2) r True by (subst (asm) framed_drain.simps) simp
    then show ?thesis
      using framed_stdin_read_cases [OF r "1.prems"(1)] True rest_of_frames_end by auto
  next
    case False
    then obtain bs' where d: "framed_drain ad' s' = (Inr bs', t)" and bs: "bs = x @ bs'"
      using "1.prems"(2) r by (subst (asm) framed_drain.simps) (auto split: prod.splits sum.splits)
    note c = framed_stdin_read_cases [OF r "1.prems"(1)]
    then have e: "\<not> is_eof ad'" using False by blast
    have m: "rest_of_frames (length x + current_frame_remaining ad') (x @ s') bs t"
      unfolding bs by (rule rest_of_frames_more [OF "1.IH" [OF r [symmetric] refl refl False e d]])
    show ?thesis
    proof (cases "current_frame_remaining ad = length x + current_frame_remaining ad' \<and> s = x @ s'")
      case True
      then show ?thesis using m by simp
    next
      case nt: False
      from c False nt have z: "current_frame_remaining ad = 0" by (elim disjE conjE) simp_all
      from c False nt obtain n where n: "0 < n" "n < 2 ^ 32" "n = length x + current_frame_remaining ad'"
          "s = to_bigendian32 (of_nat n) @ x @ s'"
        by (elim disjE conjE exE) simp_all
      have "rest_of_frames n (x @ s') bs t" using m n(3) by simp
      then show ?thesis unfolding z n(4) by (rule rest_of_frames_frame [OF _ n(1,2)])
    qed
  qed
qed

lemma rest_of_frames_0_cases:
  assumes "rest_of_frames 0 s bs t"
  obtains "s = frames_end @ t" and "bs = []"
    | n s1 where "s = to_bigendian32 (of_nat n) @ s1" and "0 < n" and "n < 2 ^ 32" and "rest_of_frames n s1 bs t"
proof -
  from assms obtain frames where f: "s = concat (map frame frames) @ frames_end @ t" "list_all frame_ok frames" "bs = concat frames"
    by (auto simp: rest_of_frames_def)
  show thesis
  proof (cases frames)
    case Nil
    then show thesis using f that(1) by simp
  next
    case (Cons g gs)
    then have "rest_of_frames (length g) (g @ concat (map frame gs) @ frames_end @ t) bs t"
      using f unfolding rest_of_frames_def by (intro exI [of _ g] exI [of _ gs]) simp
    then show thesis using f Cons that(2) by (simp add: frame_def frame_ok_def)
  qed
qed

lemma rest_of_frames_take:
  assumes "rest_of_frames r s bs t" and "m \<le> r"
  shows "length (take m s) = m" and "rest_of_frames (r - m) (drop m s) (drop m bs) t" and "take m s = take m bs"
proof -
  from assms(1) obtain p frames where p: "s = p @ concat (map frame frames) @ frames_end @ t" "length p = r"
      "list_all frame_ok frames" "bs = p @ concat frames"
    by (auto simp: rest_of_frames_def)
  show "length (take m s) = m" "take m s = take m bs" using p assms(2) by simp_all
  show "rest_of_frames (r - m) (drop m s) (drop m bs) t"
    unfolding rest_of_frames_def using p assms(2) by (intro exI [of _ "drop m p"] exI [of _ frames]) simp
qed

lemma framed_drain_complete:
  "\<not> is_eof ad \<Longrightarrow> rest_of_frames (current_frame_remaining ad) s bs t \<Longrightarrow> framed_drain ad s = (Inr bs, t)"
proof (induction ad s arbitrary: bs rule: framed_drain.induct)
  case (1 ad s)
  have more: "framed_drain ad s = (Inr bs, t)"
    if r: "framed_stdin_read (ad, s) = (Inr (take m s1), (ad', drop m s1))" "0 < m" "m \<le> n" "rest_of_frames n s1 bs t"
      "\<not> is_eof ad'" "current_frame_remaining ad' = n - m" for m n s1 ad'
  proof -
    note k = rest_of_frames_take [OF r(4,3)]
    have ne: "take m s1 \<noteq> []" using k(1) r(2) by (metis less_numeral_extra(3) list.size(3))
    have "framed_drain ad' (drop m s1) = (Inr (drop m bs), t)"
      by (rule "1.IH" [OF r(1) [symmetric] refl refl ne r(5)]) (simp add: r(6) k(2))
    then show ?thesis using r(1) ne k(3) by (subst framed_drain.simps) simp
  qed
  show ?case
  proof (cases "current_frame_remaining ad = 0")
    case False
    let ?r = "current_frame_remaining ad" and ?m = "min (current_frame_remaining ad) DEFAULT_LIBARCHIVE_BLOCK_SIZE"
    have m: "0 < ?m" "?m \<le> ?r" using False by (simp_all add: DEFAULT_LIBARCHIVE_BLOCK_SIZE_def)
    have l: "length (take ?m s) = ?m" by (rule rest_of_frames_take(1) [OF "1.prems"(2) m(2)])
    then have "framed_stdin_read (ad, s) = (Inr (take ?m s),
        (count_input (take ?m s) (ad\<lparr>current_frame_remaining := ?r - ?m\<rparr>), drop ?m s))"
      using "1.prems"(1) False m(1) by (auto simp: framed_stdin_read_def Let_def)
    then show ?thesis by (rule more [OF _ m "1.prems"(2)]) (use "1.prems"(1) in \<open>simp_all add: count_input_def\<close>)
  next
    case True
    from "1.prems"(2) have "rest_of_frames 0 s bs t" by (simp add: True)
    then show ?thesis
    proof (cases rule: rest_of_frames_0_cases)
      case 1
      then have "framed_stdin_read (ad, s) = (Inr [], (ad\<lparr>is_eof := True\<rparr>, t))"
        using "1.prems"(1) True by (simp add: framed_stdin_read_def Let_def frames_end_def)
      then show ?thesis using 1 by (subst framed_drain.simps) simp
    next
      case (2 n s1)
      let ?m = "min n DEFAULT_LIBARCHIVE_BLOCK_SIZE" and ?ad = "ad\<lparr>current_frame_remaining := n\<rparr>"
      have m: "0 < ?m" "?m \<le> n" using 2(2) by (simp_all add: DEFAULT_LIBARCHIVE_BLOCK_SIZE_def)
      have l: "length (take ?m s1) = ?m" by (rule rest_of_frames_take(1) [OF 2(4) m(2)])
      have nz: "to_bigendian32 (of_nat n) \<noteq> [0, 0, 0, 0]"
        using 2(2,3) by (simp add: to_bigendian32_0 word_of_nat_eq_0_iff nat_dvd_not_less)
      have u: "unat (of_nat n :: u32) = n" using 2(3) by (simp add: unsigned_of_nat take_bit_eq_mod)
      have "framed_stdin_read (ad, s) = (Inr (take ?m s1),
          (count_input (take ?m s1) (?ad\<lparr>current_frame_remaining := n - ?m\<rparr>), drop ?m s1))"
        using "1.prems"(1) True m(1) l nz u by (auto simp: framed_stdin_read_def Let_def 2(1))
      then show ?thesis by (rule more [OF _ m 2(4)]) (use "1.prems"(1) in \<open>simp_all add: count_input_def\<close>)
    qed
  qed
qed

text \<open>
  C33: framed standard input is taken apart exactly. Reading until the end gives the data \<open>bs\<close> and leaves
  \<open>rest\<close> if and only if the input is a sequence of frames, none of them empty, that hold \<open>bs\<close>, the end
  marker, and \<open>rest\<close>; an input that ends within a frame or without the marker is an error.
\<close>

theorem framed_input_iff:
  "framed_drain \<lparr>current_frame_remaining = 0, is_stdin = True, is_eof = False, ad_name = [], ad_input_bytes = n\<rparr> s = (Inr bs, rest)
   \<longleftrightarrow> (\<exists>frames. s = concat (map frame frames) @ frames_end @ rest \<and> list_all frame_ok frames \<and> bs = concat frames)"
  (is "framed_drain ?ad s = _ \<longleftrightarrow> ?R")
proof -
  have "rest_of_frames 0 s bs rest \<longleftrightarrow> ?R" by (simp add: rest_of_frames_def)
  then show ?thesis using framed_drain_sound [of ?ad s bs rest] framed_drain_complete [of ?ad s bs rest] by auto
qed

section \<open>Entries of an archive\<close>

datatype block_answer = Block "byte list" int | Block_failed string

record archive_entry =
  ae_pathname :: string
  ae_size :: "int option"
  ae_mtime :: "int option"
  ae_blocks :: "block_answer list"
  ae_reads :: "byte list res list"

record archive =
  ar_entries :: "archive_entry list"
  ar_blocks :: "block_answer list"
  ar_reads :: "byte list res list"

text \<open>\<open>None\<close> is every return value but \<open>ARCHIVE_OK\<close>.\<close>

definition archive_read_next_header :: "archive \<Rightarrow> archive_entry option \<times> archive" where
  "archive_read_next_header a = (case ar_entries a of [] \<Rightarrow> (None, a)
     | e # es \<Rightarrow> (Some e, \<lparr>ar_entries = es, ar_blocks = ae_blocks e, ar_reads = ae_reads e\<rparr>))"

text \<open>A size that is not set reads as zero.\<close>

definition archive_entry_size :: "archive_entry \<Rightarrow> int" where
  "archive_entry_size ae = (case ae_size ae of None \<Rightarrow> 0 | Some n \<Rightarrow> n)"

definition archive_entry_size_is_set :: "archive_entry \<Rightarrow> bool" where
  "archive_entry_size_is_set ae = (ae_size ae \<noteq> None)"

text \<open>The next answer that is not an empty block; \<open>None\<close> is \<open>ARCHIVE_EOF\<close>.\<close>

fun next_block :: "block_answer list \<Rightarrow> (byte list \<times> int) option res \<times> block_answer list" where
  "next_block [] = (Inr None, [])"
| "next_block (Block_failed m # as) = (Inl (Msg m), as)"
| "next_block (Block bytes offset # as) = (if bytes = [] then next_block as else (Inr (Some (bytes, offset)), as))"

definition fwup_archive_read_data_block :: "(archive, (byte list \<times> int) option) action" where
  "fwup_archive_read_data_block = (\<lambda>a. case next_block (ar_blocks a) of (r, as) \<Rightarrow> (r, a\<lparr>ar_blocks := as\<rparr>))"

text \<open>An answer that is longer than what was asked for would overrun the buffer.\<close>

fun read_all_loop :: "int \<Rightarrow> byte list \<Rightarrow> byte list res list \<Rightarrow> byte list res \<times> byte list res list" where
  "read_all_loop size_left buf [] = (Inr buf, [])"
| "read_all_loop size_left buf (r # rs) =
     (if size_left \<le> 0 then (Inr buf, r # rs)
      else (case r of Inl _ \<Rightarrow> (Inr buf, rs)
        | Inr bytes \<Rightarrow>
            if bytes = [] then (Inr buf, rs)
            else if int (length bytes) > size_left then (Inl (Undefined ''buf''), rs)
            else read_all_loop (size_left - int (length bytes)) (buf @ bytes) rs))"

definition archive_read_all_data :: "archive_entry \<Rightarrow> int \<Rightarrow> (archive, byte list) action" where
  "archive_read_all_data ae max_size = (\<lambda>a.
     if archive_entry_size_is_set ae \<and> archive_entry_size ae < 0 then (Inl Quiet, a)
     else (let n = (if archive_entry_size_is_set ae \<and> archive_entry_size ae < max_size then archive_entry_size ae else max_size) in
       case read_all_loop n [] (ar_reads a) of (r, rs) \<Rightarrow> (r, a\<lparr>ar_reads := rs\<rparr>)))"

section \<open>Lists of resources\<close>

record resource_item =
  ri_resource :: cfg
  processed :: bool

type_synonym resource_list = "resource_item list"

definition push_resource :: "cfg \<Rightarrow> resource_list \<Rightarrow> resource_list" where
  "push_resource resource list = \<lparr>ri_resource = resource, processed = False\<rparr> # list"

definition rlist_get_all :: "cfg \<Rightarrow> resource_list" where
  "rlist_get_all c = fold push_resource (cfg_secs c ''file-resource'') []"

fun from_task_loop :: "cfg \<Rightarrow> cfg list \<Rightarrow> resource_list \<Rightarrow> resource_list res" where
  "from_task_loop c [] list = Inr list"
| "from_task_loop c (onresource # rest) list =
     (case cfg_gettsec c ''file-resource'' (cfg_title onresource) of
        None \<Rightarrow> Inl (Msg ''Resource used, but metadata is missing. Archive is corrupt.'')
      | Some resource \<Rightarrow> from_task_loop c rest (push_resource resource list))"

definition rlist_get_from_task :: "cfg \<Rightarrow> cfg \<Rightarrow> resource_list res" where
  "rlist_get_from_task c task = from_task_loop c (cfg_secs task ''on-resource'') []"

text \<open>The position of the node in the list.\<close>

fun rlist_find_by_name :: "resource_list \<Rightarrow> string \<Rightarrow> nat option" where
  "rlist_find_by_name [] name = None"
| "rlist_find_by_name (item # list) name =
     (if name = cfg_title (ri_resource item) then Some 0 else map_option Suc (rlist_find_by_name list name))"

definition set_processed :: "nat \<Rightarrow> resource_list \<Rightarrow> resource_list" where
  "set_processed i list = list[i := (list ! i)\<lparr>processed := True\<rparr>]"

lemma fold_push_resource: "fold push_resource rs list = rev (map (\<lambda>r. \<lparr>ri_resource = r, processed = False\<rparr>) rs) @ list"
  by (induction rs arbitrary: list) (simp_all add: push_resource_def)

lemma rlist_find_by_name_Some:
  "rlist_find_by_name list name = Some i \<Longrightarrow>
   i < length list \<and> cfg_title (ri_resource (list ! i)) = name \<and> (\<forall>j < i. cfg_title (ri_resource (list ! j)) \<noteq> name)"
proof (induction list arbitrary: i)
  case (Cons item list)
  show ?case
  proof (cases "name = cfg_title (ri_resource item)")
    case True
    then show ?thesis using Cons.prems by simp
  next
    case False
    then obtain k where "i = Suc k" "rlist_find_by_name list name = Some k" using Cons.prems by auto
    then show ?thesis using Cons.IH [of k] False by (auto simp: less_Suc_eq_0_disj)
  qed
qed simp

lemma rlist_find_by_name_None:
  "rlist_find_by_name list name = None \<longleftrightarrow> (\<forall>item \<in> set list. cfg_title (ri_resource item) \<noteq> name)"
  by (induction list) auto

lemma from_task_loop_Inr:
  "from_task_loop c rs list = Inr out \<Longrightarrow>
   \<exists>found. out = rev (map (\<lambda>r. \<lparr>ri_resource = r, processed = False\<rparr>) found) @ list \<and>
     map Some found = map (\<lambda>r. cfg_gettsec c ''file-resource'' (cfg_title r)) rs"
proof (induction rs arbitrary: list)
  case (Cons r rs)
  then obtain resource where r: "cfg_gettsec c ''file-resource'' (cfg_title r) = Some resource"
      and l: "from_task_loop c rs (push_resource resource list) = Inr out"
    by (auto split: option.splits)
  then obtain found where "out = rev (map (\<lambda>r. \<lparr>ri_resource = r, processed = False\<rparr>) found) @ push_resource resource list"
      "map Some found = map (\<lambda>r. cfg_gettsec c ''file-resource'' (cfg_title r)) rs"
    using Cons.IH by blast
  then show ?case using r by (intro exI [of _ "resource # found"]) (simp add: push_resource_def)
qed simp

end
