(* ===== verification/Xdelta.thy ===== *)
theory Xdelta
  imports CLib
begin

text \<open>
  Decoding of xdelta3 patches (\<open>fwup_xdelta3.c\<close>). The decoder of the xdelta3 library is a
  parameter, a record of its functions over the state \<open>'x\<close> of its stream; the callbacks that read
  the patch and the source are actions on a state \<open>'s\<close>.
\<close>

datatype xd3_code = XD3_INPUT | XD3_OUTPUT | XD3_GETSRCBLK u64 | XD3_GOTHEADER | XD3_WINSTART | XD3_WINFINISH | XD3_FAILED

record xd3_source =
  curblk :: "byte list"
  onblk :: nat
  curblkno :: u64

text \<open>
  \<open>xd3_out\<close> are the \<open>avail_out\<close> bytes at \<open>next_out\<close>. The library writes the number of the block that
  it asks for to \<open>source.getblkno\<close>, here an argument of the code.
\<close>

record 'x xd3_lib =
  xd3_decode_input :: "xd3_source \<Rightarrow> 'x \<Rightarrow> xd3_code \<times> 'x"
  xd3_avail_input :: "byte list \<Rightarrow> 'x \<Rightarrow> 'x"
  xd3_set_flush :: "'x \<Rightarrow> 'x"
  xd3_set_source :: "xd3_source \<Rightarrow> 'x \<Rightarrow> 'x"
  xd3_out :: "'x \<Rightarrow> byte list"
  xd3_consume_output :: "'x \<Rightarrow> 'x"

record 'x xdelta_state =
  xd_stream :: 'x
  xd_source :: xd3_source
  end_of_patch :: bool
  bytes_already_reported :: nat

record 's xdelta_callbacks =
  read_patch :: "('s, byte list) action"
  pread_source :: "nat \<Rightarrow> int \<Rightarrow> ('s, byte list) action"

definition READ_SIZE :: nat where "READ_SIZE = 128 * 1024"

definition MAX_READ_RETURN_SIZE :: nat where "MAX_READ_RETURN_SIZE = 128 * 1024"

text \<open>The stream that \<open>xd3_config_stream\<close> sets up, and the uninitialised block of \<open>malloc\<close>, are arguments.\<close>

definition xdelta_init :: "'x \<Rightarrow> byte list \<Rightarrow> 'x xdelta_state" where
  "xdelta_init stream garbage =
     \<lparr>xd_stream = stream, xd_source = \<lparr>curblk = garbage, onblk = 0, curblkno = 0\<rparr>, end_of_patch = False,
      bytes_already_reported = 0\<rparr>"

definition with_xdelta :: "('s, 'a) action \<Rightarrow> ('s \<times> 'x xdelta_state, 'a) action" where
  "with_xdelta m = (\<lambda>(s, xd). case m s of (r, s') \<Rightarrow> (r, (s', xd)))"

definition xdelta_consume :: "'x xd3_lib \<Rightarrow> ('s \<times> 'x xdelta_state, byte list) action" where
  "xdelta_consume lib = (\<lambda>(s, xd).
     (Inr (drop (bytes_already_reported xd) (xd3_out lib (xd_stream xd))),
      (s, xd\<lparr>xd_stream := xd3_consume_output lib (xd_stream xd), bytes_already_reported := 0\<rparr>)))"

text \<open>\<open>True\<close> is the return value 1, more to do, and \<open>False\<close> is 0.\<close>

definition xdelta_read_more :: "'x xd3_lib \<Rightarrow> 's xdelta_callbacks \<Rightarrow> ('s \<times> 'x xdelta_state, bool) action" where
  "xdelta_read_more lib cbs = (\<lambda>(s, xd).
     if end_of_patch xd then (Inr False, (s, xd))
     else ok_then (with_xdelta (read_patch cbs)) (\<lambda>buffer (s, xd).
       (let x = xd3_avail_input lib buffer (xd_stream xd) in
        if buffer = [] then (Inr True, (s, xd\<lparr>xd_stream := xd3_set_flush lib x, end_of_patch := True\<rparr>))
        else (Inr True, (s, xd\<lparr>xd_stream := x\<rparr>)))) (s, xd))"

text \<open>The bytes that were read overwrite the start of the block.\<close>

definition xdelta_read_source_block :: "'x xd3_lib \<Rightarrow> 's xdelta_callbacks \<Rightarrow> u64 \<Rightarrow> ('s \<times> 'x xdelta_state, unit) action" where
  "xdelta_read_source_block lib cbs blkno =
     ok_then (with_xdelta (pread_source cbs READ_SIZE (sint (of_nat READ_SIZE * blkno)))) (\<lambda>bytes (s, xd).
       (Inr (), (s, xd\<lparr>xd_source := \<lparr>curblk = bytes @ drop (length bytes) (curblk (xd_source xd)),
          onblk = length bytes, curblkno = blkno\<rparr>\<rparr>)))"

text \<open>The result is the bytes that a call returns, or \<open>None\<close> when there is more to do.\<close>

definition xdelta_read_impl :: "'x xd3_lib \<Rightarrow> 's xdelta_callbacks \<Rightarrow> ('s \<times> 'x xdelta_state, byte list option) action" where
  "xdelta_read_impl lib cbs = (\<lambda>(s, xd).
     (let reported = bytes_already_reported xd; pending = drop reported (xd3_out lib (xd_stream xd)) in
      if length pending > MAX_READ_RETURN_SIZE
      then (Inr (Some (take MAX_READ_RETURN_SIZE pending)), (s, xd\<lparr>bytes_already_reported := reported + MAX_READ_RETURN_SIZE\<rparr>))
      else (case xd3_decode_input lib (xd_source xd) (xd_stream xd) of
        (code, x) \<Rightarrow>
          (let st = (s, xd\<lparr>xd_stream := x\<rparr>) in
           case code of
             XD3_INPUT \<Rightarrow> ok_then (xdelta_read_more lib cbs) (\<lambda>more t. (Inr (if more then None else Some []), t)) st
           | XD3_GOTHEADER \<Rightarrow>
               (case xdelta_read_source_block lib cbs 0 st of
                  (Inl (Undefined w), t) \<Rightarrow> (Inl (Undefined w), t)
                | (Inl _, t) \<Rightarrow> (Inl Quiet, t)
                | (Inr _, (s, xd)) \<Rightarrow> (Inr None, (s, xd\<lparr>xd_stream := xd3_set_source lib (xd_source xd) (xd_stream xd)\<rparr>)))
           | XD3_WINSTART \<Rightarrow> (Inr None, st)
           | XD3_WINFINISH \<Rightarrow> (Inr None, st)
           | XD3_GETSRCBLK blkno \<Rightarrow> ok_then (xdelta_read_source_block lib cbs blkno) (\<lambda>_ t. (Inr None, t)) st
           | XD3_OUTPUT \<Rightarrow> ok_then (xdelta_consume lib) (\<lambda>b t. (Inr (Some b), t)) st
           | XD3_FAILED \<Rightarrow> (Inl (Msg ''xdelta3 error''), st)))))"

fun xdelta_read :: "nat \<Rightarrow> 'x xd3_lib \<Rightarrow> 's xdelta_callbacks \<Rightarrow> ('s \<times> 'x xdelta_state, byte list) action" where
  "xdelta_read 0 lib cbs st = (Inl (Undefined ''fuel''), st)"
| "xdelta_read (Suc n) lib cbs st =
     ok_then (xdelta_read_impl lib cbs) (\<lambda>r. case r of None \<Rightarrow> xdelta_read n lib cbs | Some b \<Rightarrow> (\<lambda>t. (Inr b, t))) st"

definition xdelta_read_header_impl :: "'x xd3_lib \<Rightarrow> 's xdelta_callbacks \<Rightarrow> ('s \<times> 'x xdelta_state, bool) action" where
  "xdelta_read_header_impl lib cbs = (\<lambda>(s, xd).
     (case xd3_decode_input lib (xd_source xd) (xd_stream xd) of
        (code, x) \<Rightarrow>
          (let st = (s, xd\<lparr>xd_stream := x\<rparr>) in
           case code of
             XD3_INPUT \<Rightarrow> xdelta_read_more lib cbs st
           | XD3_GOTHEADER \<Rightarrow> (Inr False, st)
           | XD3_WINSTART \<Rightarrow> (Inr True, st)
           | XD3_WINFINISH \<Rightarrow> (Inr True, st)
           | XD3_GETSRCBLK _ \<Rightarrow> (Inl Quiet, st)
           | XD3_OUTPUT \<Rightarrow> (Inl Quiet, st)
           | XD3_FAILED \<Rightarrow> (Inl (Msg ''xdelta3 error''), st))))"

fun xdelta_read_header :: "nat \<Rightarrow> 'x xd3_lib \<Rightarrow> 's xdelta_callbacks \<Rightarrow> ('s \<times> 'x xdelta_state, unit) action" where
  "xdelta_read_header 0 lib cbs st = (Inl (Undefined ''fuel''), st)"
| "xdelta_read_header (Suc n) lib cbs st =
     ok_then (xdelta_read_header_impl lib cbs) (\<lambda>more. if more then xdelta_read_header n lib cbs else (\<lambda>t. (Inr (), t))) st"

section \<open>The output in order\<close>

text \<open>
  What is relied on: \<open>produced x\<close> is all the output that the decoder has made. Decoding appends to
  it and to the pending output, consuming clears the pending output, the other calls change neither.
\<close>

definition xd3_ok :: "'x xd3_lib \<Rightarrow> ('x \<Rightarrow> byte list) \<Rightarrow> bool" where
  "xd3_ok lib produced \<longleftrightarrow>
     (\<forall>src x. \<exists>more. produced (snd (xd3_decode_input lib src x)) = produced x @ more \<and>
                     xd3_out lib (snd (xd3_decode_input lib src x)) = xd3_out lib x @ more) \<and>
     (\<forall>b x. produced (xd3_avail_input lib b x) = produced x \<and> xd3_out lib (xd3_avail_input lib b x) = xd3_out lib x) \<and>
     (\<forall>x. produced (xd3_set_flush lib x) = produced x \<and> xd3_out lib (xd3_set_flush lib x) = xd3_out lib x) \<and>
     (\<forall>src x. produced (xd3_set_source lib src x) = produced x \<and> xd3_out lib (xd3_set_source lib src x) = xd3_out lib x) \<and>
     (\<forall>x. produced (xd3_consume_output lib x) = produced x \<and> xd3_out lib (xd3_consume_output lib x) = [])"

text \<open>\<open>R\<close> has been returned: what was produced is \<open>R\<close> and the pending bytes that were not reported.\<close>

definition returned :: "'x xd3_lib \<Rightarrow> ('x \<Rightarrow> byte list) \<Rightarrow> byte list \<Rightarrow> 'x xdelta_state \<Rightarrow> bool" where
  "returned lib produced R xd \<longleftrightarrow>
     bytes_already_reported xd \<le> length (xd3_out lib (xd_stream xd)) \<and>
     produced (xd_stream xd) = R @ drop (bytes_already_reported xd) (xd3_out lib (xd_stream xd))"

lemma returned_same:
  "returned lib produced R xd \<Longrightarrow> bytes_already_reported xd' = bytes_already_reported xd \<Longrightarrow>
   xd3_out lib (xd_stream xd') = xd3_out lib (xd_stream xd) \<Longrightarrow> produced (xd_stream xd') = produced (xd_stream xd) \<Longrightarrow>
   returned lib produced R xd'"
  by (simp add: returned_def)

lemma returned_decode:
  assumes "xd3_ok lib produced" and "returned lib produced R xd" and "xd3_decode_input lib src (xd_stream xd) = (code, x)"
  shows "returned lib produced R (xd\<lparr>xd_stream := x\<rparr>)"
proof -
  have "\<exists>more. produced (snd (xd3_decode_input lib src (xd_stream xd))) = produced (xd_stream xd) @ more \<and>
      xd3_out lib (snd (xd3_decode_input lib src (xd_stream xd))) = xd3_out lib (xd_stream xd) @ more"
    using assms(1) unfolding xd3_ok_def by blast
  then obtain more where "produced x = produced (xd_stream xd) @ more" "xd3_out lib x = xd3_out lib (xd_stream xd) @ more"
    using assms(3) by auto
  then show ?thesis using assms(2) by (simp add: returned_def)
qed

lemma source_block_returned:
  assumes "returned lib produced R xd" and "xdelta_read_source_block lib cbs n (s, xd) = (Inr u, (s', xd'))"
  shows "returned lib produced R xd'"
  using assms by (auto simp: xdelta_read_source_block_def with_xdelta_def ok_then_def returned_def split: prod.splits sum.splits)

lemma read_more_returned:
  assumes "xd3_ok lib produced" and "returned lib produced R xd" and "xdelta_read_more lib cbs (s, xd) = (Inr u, (s', xd'))"
  shows "returned lib produced R xd'"
proof -
  have "produced (xd_stream xd') = produced (xd_stream xd) \<and> xd3_out lib (xd_stream xd') = xd3_out lib (xd_stream xd) \<and>
      bytes_already_reported xd' = bytes_already_reported xd"
    using assms(1,3)
    by (auto simp: xdelta_read_more_def with_xdelta_def ok_then_def Let_def xd3_ok_def split: prod.splits sum.splits if_splits)
  then show ?thesis by (intro returned_same [OF assms(2)]) simp_all
qed

definition given :: "byte list option \<Rightarrow> byte list" where
  "given r = (case r of None \<Rightarrow> [] | Some b \<Rightarrow> b)"

lemma consume_returned:
  assumes "xd3_ok lib produced" and "returned lib produced R xd" and "xdelta_consume lib (s, xd) = (Inr b, (s', xd'))"
  shows "returned lib produced (R @ b) xd'"
  using assms by (auto simp: xdelta_consume_def returned_def xd3_ok_def)

lemma read_impl_returned:
  assumes ok: "xd3_ok lib produced" and R: "returned lib produced R xd"
    and step: "xdelta_read_impl lib cbs (s, xd) = (Inr r, (s', xd'))"
  shows "returned lib produced (R @ given r) xd'"
proof (cases "length (drop (bytes_already_reported xd) (xd3_out lib (xd_stream xd))) > MAX_READ_RETURN_SIZE")
  case True
  let ?out = "xd3_out lib (xd_stream xd)" and ?n = "bytes_already_reported xd"
  have r: "r = Some (take MAX_READ_RETURN_SIZE (drop ?n ?out))" "xd' = xd\<lparr>bytes_already_reported := ?n + MAX_READ_RETURN_SIZE\<rparr>"
    using step True by (auto simp: xdelta_read_impl_def Let_def)
  have "drop ?n ?out = take MAX_READ_RETURN_SIZE (drop ?n ?out) @ drop (?n + MAX_READ_RETURN_SIZE) ?out"
    by (metis add.commute append_take_drop_id drop_drop)
  then show ?thesis using R r True by (simp add: returned_def given_def)
next
  case False
  obtain code x where d: "xd3_decode_input lib (xd_source xd) (xd_stream xd) = (code, x)" by fastforce
  let ?xd = "xd\<lparr>xd_stream := x\<rparr>"
  have R': "returned lib produced R ?xd" by (rule returned_decode [OF ok R d])
  note step' = step [unfolded xdelta_read_impl_def Let_def, simplified, simplified False [simplified] d, simplified]
  show ?thesis
  proof (cases code)
    case XD3_INPUT
    then obtain more where m: "xdelta_read_more lib cbs (s, ?xd) = (Inr more, (s', xd'))" "r = (if more then None else Some [])"
      using step' by (auto simp: ok_then_def split: prod.splits sum.splits)
    then show ?thesis using read_more_returned [OF ok R' m(1)] by (simp add: given_def)
  next
    case XD3_OUTPUT
    then obtain b where b: "xdelta_consume lib (s, ?xd) = (Inr b, (s', xd'))" "r = Some b"
      using step' by (auto simp: ok_then_def split: prod.splits sum.splits)
    then show ?thesis using consume_returned [OF ok R' b(1)] by (simp add: given_def)
  next
    case (XD3_GETSRCBLK n)
    then obtain u where "xdelta_read_source_block lib cbs n (s, ?xd) = (Inr u, (s', xd'))" "r = None"
      using step' by (auto simp: ok_then_def split: prod.splits sum.splits)
    then show ?thesis using source_block_returned [OF R'] by (simp add: given_def)
  next
    case XD3_GOTHEADER
    then obtain u xd1 where u: "xdelta_read_source_block lib cbs 0 (s, ?xd) = (Inr u, (s', xd1))" "r = None"
        "xd' = xd1\<lparr>xd_stream := xd3_set_source lib (xd_source xd1) (xd_stream xd1)\<rparr>"
      using step' by (auto split: prod.splits sum.splits error.splits)
    have "returned lib produced R xd1" by (rule source_block_returned [OF R' u(1)])
    then have "returned lib produced R xd'"
      by (rule returned_same) (use ok in \<open>simp_all add: u(3) xd3_ok_def\<close>)
    then show ?thesis using u(2) by (simp add: given_def)
  qed (use step' R' in \<open>auto simp: given_def\<close>)
qed

lemma read_returned:
  assumes "xd3_ok lib produced"
  shows "returned lib produced R xd \<Longrightarrow> xdelta_read n lib cbs (s, xd) = (Inr b, (s', xd')) \<Longrightarrow> returned lib produced (R @ b) xd'"
proof (induction n arbitrary: s xd)
  case (Suc n)
  obtain r s1 xd1 where r: "xdelta_read_impl lib cbs (s, xd) = (Inr r, (s1, xd1))"
      "(case r of None \<Rightarrow> xdelta_read n lib cbs | Some b \<Rightarrow> (\<lambda>t. (Inr b, t))) (s1, xd1) = (Inr b, (s', xd'))"
    using Suc.prems(2) by (auto elim!: ok_then_Inr_E)
  have R: "returned lib produced (R @ given r) xd1" by (rule read_impl_returned [OF assms Suc.prems(1) r(1)])
  show ?case
  proof (cases r)
    case None
    then show ?thesis using Suc.IH [of xd1 s1] R r(2) by (simp add: given_def)
  next
    case (Some b')
    then show ?thesis using R r(2) by (simp add: given_def)
  qed
qed simp

fun xdelta_reads :: "nat \<Rightarrow> nat \<Rightarrow> 'x xd3_lib \<Rightarrow> 's xdelta_callbacks \<Rightarrow> ('s \<times> 'x xdelta_state, byte list list) action" where
  "xdelta_reads 0 n lib cbs st = (Inr [], st)"
| "xdelta_reads (Suc k) n lib cbs st =
     ok_then (xdelta_read n lib cbs) (\<lambda>b. ok_then (xdelta_reads k n lib cbs) (\<lambda>bs t. (Inr (b # bs), t))) st"

lemma reads_returned:
  assumes "xd3_ok lib produced"
  shows "returned lib produced R xd \<Longrightarrow> xdelta_reads k n lib cbs (s, xd) = (Inr bs, (s', xd')) \<Longrightarrow>
    returned lib produced (R @ concat bs) xd'"
proof (induction k arbitrary: R s xd bs)
  case (Suc k)
  from Suc.prems(2) obtain b t bs1 where b: "xdelta_read n lib cbs (s, xd) = (Inr b, t)"
      "xdelta_reads k n lib cbs t = (Inr bs1, (s', xd'))" "bs = b # bs1"
    by (auto elim!: ok_then_Inr_E)
  obtain s1 xd1 where t: "t = (s1, xd1)" by fastforce
  show ?case
    using Suc.IH [OF read_returned [OF assms Suc.prems(1) b(1) [unfolded t]] b(2) [unfolded t]] b(3) by simp
qed simp

text \<open>
  C34: the pieces that successive reads return are the output of the decoder, every byte once and
  in order: after any number of reads the decoder has produced their concatenation and the bytes
  that wait in its buffer and were not reported, whether a piece was cut at the limit of
  128 KiB or the window ended.
\<close>

theorem xdelta_reads_in_order:
  assumes "xd3_ok lib produced" and "xd3_out lib x0 = []" and "produced x0 = []"
    and "xdelta_reads k n lib cbs (s, xdelta_init x0 garbage) = (Inr bs, (s', xd'))"
  shows "produced (xd_stream xd') = concat bs @ drop (bytes_already_reported xd') (xd3_out lib (xd_stream xd'))"
proof -
  have "returned lib produced [] (xdelta_init x0 garbage)" using assms(2,3) by (simp add: returned_def xdelta_init_def)
  then show ?thesis using reads_returned [OF assms(1) _ assms(4)] by (auto simp: returned_def)
qed

text \<open>A decoder whose windows are the pieces of the patch and that reads the source first.\<close>

record echo_stream =
  es_step :: nat
  es_out :: "byte list"
  es_made :: "byte list"

definition echo_lib :: "echo_stream xd3_lib" where
  "echo_lib = \<lparr>
     xd3_decode_input = (\<lambda>src x.
       if es_step x = 0 then (XD3_GOTHEADER, x\<lparr>es_step := 1\<rparr>)
       else if es_step x = 1 then (XD3_INPUT, x\<lparr>es_step := 2\<rparr>)
       else if es_step x = 2 then (XD3_WINSTART, x\<lparr>es_step := 3, es_out := es_out x @ take (onblk src) (curblk src),
              es_made := es_made x @ take (onblk src) (curblk src)\<rparr>)
       else (XD3_OUTPUT, x\<lparr>es_step := 1\<rparr>)),
     xd3_avail_input = (\<lambda>b x. x), xd3_set_flush = (\<lambda>x. x), xd3_set_source = (\<lambda>src x. x),
     xd3_out = es_out, xd3_consume_output = (\<lambda>x. x\<lparr>es_out := []\<rparr>)\<rparr>"

lemma echo_lib_ok: "xd3_ok echo_lib es_made"
  by (auto simp: xd3_ok_def echo_lib_def)

definition echo_callbacks :: "nat xdelta_callbacks" where
  "echo_callbacks = \<lparr>read_patch = (\<lambda>n. (Inr (if n = 0 then [1] else []), Suc n)),
     pread_source = (\<lambda>count offset n. (Inr [5, 6, 7], n))\<rparr>"

definition echo_start :: echo_stream where
  "echo_start = \<lparr>es_step = 0, es_out = [], es_made = []\<rparr>"

lemma fuel_numeral:
  "xdelta_read (numeral v) lib cbs st =
     ok_then (xdelta_read_impl lib cbs) (\<lambda>r. case r of None \<Rightarrow> xdelta_read (pred_numeral v) lib cbs | Some b \<Rightarrow> (\<lambda>t. (Inr b, t))) st"
  "xdelta_reads (numeral v) n lib cbs st =
     ok_then (xdelta_read n lib cbs) (\<lambda>b. ok_then (xdelta_reads (pred_numeral v) n lib cbs) (\<lambda>bs t. (Inr (b # bs), t))) st"
  by (simp_all add: numeral_eq_Suc)

lemma echo_reads:
  "fst (xdelta_reads 2 9 echo_lib echo_callbacks (0, xdelta_init echo_start [])) = Inr [[5, 6, 7], [5, 6, 7]]"
  by (simp add: fuel_numeral xdelta_init_def echo_start_def echo_lib_def echo_callbacks_def ok_then_def
      xdelta_read_impl_def xdelta_read_source_block_def with_xdelta_def xdelta_read_more_def xdelta_consume_def Let_def
      MAX_READ_RETURN_SIZE_def)

theorem xdelta_reads_in_order_witness:
  "\<exists>s' xd'. xdelta_reads 2 9 echo_lib echo_callbacks (0, xdelta_init echo_start []) = (Inr [[5, 6, 7], [5, 6, 7]], (s', xd')) \<and>
     es_made (xd_stream xd') = concat [[5, 6, 7], [5, 6, 7]] @ drop (bytes_already_reported xd') (es_out (xd_stream xd'))"
proof -
  obtain s' xd' where r: "xdelta_reads 2 9 echo_lib echo_callbacks (0, xdelta_init echo_start []) = (Inr [[5, 6, 7], [5, 6, 7]], (s', xd'))"
    using echo_reads by (metis prod.collapse)
  have o: "xd3_out echo_lib = es_out" by (simp add: echo_lib_def)
  have e: "xd3_out echo_lib echo_start = []" "es_made echo_start = []" by (simp_all add: echo_lib_def echo_start_def)
  show ?thesis using r xdelta_reads_in_order [OF echo_lib_ok e r] o by simp
qed

end
