(* ===== verification/Fun_Context.thy ===== *)
theory Fun_Context
  imports Pad_Writer Sparse_File Progress Uboot_Env Gpt Mbr Cache_Trim
begin

text \<open>
  The context that the functions of a task run in (\<open>struct fun_context\<close> of \<open>functions.h\<close>), and
  \<open>process_resource\<close>, which reads a resource for them.

  What the functions use of the operating system and of the FAT library is a parameter:
  \<open>fun_env\<close> answers \<open>host_call\<close>s with the integer that the C function returns, and \<open>fat_call\<close>s, which act on
  the output as well, because \<open>fatfs.c\<close> reads and writes through the block cache. \<open>'w\<close> is the state of
  that world and \<open>'d\<close> the cookie of the caller, \<open>struct fwup_apply_data\<close> when an archive is applied.
\<close>

section \<open>The context\<close>

datatype fun_context_type = FUN_CONTEXT_INIT | FUN_CONTEXT_FINISH | FUN_CONTEXT_ERROR | FUN_CONTEXT_FILE

definition FUN_MAX_ARGS :: nat where "FUN_MAX_ARGS = 10"

record ('w, 'd) fun_context =
  fc_type :: fun_context_type
  fc_argv :: "string list"
  fc_cfg :: cfg
  fc_task :: cfg
  fc_on_event :: "cfg option"
  fc_progress :: reporter
  fc_output :: block_cache
  fc_reboot_param_path :: "string option"
  fc_world :: 'w
  fc_cookie :: 'd

datatype fat_call =
    Fat_mkfs u64 u64
  | Fat_attrib u64 string string
  | Fat_truncate u64 string
  | Fat_pwrite u64 string int "byte list"
  | Fat_mv u64 string string string bool
  | Fat_rm u64 string string bool
  | Fat_cp u64 string u64 string
  | Fat_mkdir u64 string
  | Fat_setlabel u64 string
  | Fat_touch u64 string
  | Fat_exists u64 string
  | Fat_file_matches u64 string string
  | Fat_closefs

datatype host_call =
    Fopen string string
  | Fseek int
  | Fwrite "byte list"
  | Fclose
  | Popen string
  | Pclose
  | Ubi_start string int
  | Ubi_write string "byte list"
  | Ubi_finish string
  | System string
  | Warn string
  | Is_path_on_device string string
  | Is_path_at_offset string u64

record 'w fun_env =
  host :: "host_call \<Rightarrow> 'w \<Rightarrow> int \<times> 'w"
  fatfs :: "fat_call \<Rightarrow> (block_cache \<times> 'w, unit) action"
  fwup_unsafe :: bool
  progress_mode :: fwup_progress_option
  current_time_ms :: int
  blake2b_256 :: "byte list \<Rightarrow> byte list"
  aes_lib :: aes
  errno_erange :: bool
  stack_bytes :: "nat \<Rightarrow> byte list"
  read_fuel :: nat

type_synonym ('w, 'd, 'a) step = "(('w, 'd) fun_context, 'a) action"

text \<open>
  \<open>fctx->read\<close>: the bytes of the next piece and their offset in the file; no bytes at the end.
\<close>

type_synonym ('w, 'd) reader = "('w, 'd, byte list \<times> int) step"

definition ret :: "'a \<Rightarrow> ('s, 'a) action" where
  "ret x = (\<lambda>s. (Inr x, s))"

definition err_return :: "string \<Rightarrow> ('s, 'a) action" where
  "err_return m = (\<lambda>s. (Inl (Msg m), s))"

definition on_output :: "(block_cache, 'a) action \<Rightarrow> ('w, 'd, 'a) step" where
  "on_output m = (\<lambda>ctx. case m (fc_output ctx) of (r, bc) \<Rightarrow> (r, ctx\<lparr>fc_output := bc\<rparr>))"

definition call_fat :: "'w fun_env \<Rightarrow> fat_call \<Rightarrow> ('w, 'd, unit) step" where
  "call_fat env c = (\<lambda>ctx. case fatfs env c (fc_output ctx, fc_world ctx) of
     (r, (bc, w)) \<Rightarrow> (r, ctx\<lparr>fc_output := bc, fc_world := w\<rparr>))"

definition call_host :: "'w fun_env \<Rightarrow> host_call \<Rightarrow> ('w, 'd, int) step" where
  "call_host env c = (\<lambda>ctx. case host env c (fc_world ctx) of (n, w) \<Rightarrow> (Inr n, ctx\<lparr>fc_world := w\<rparr>))"

definition report :: "'w fun_env \<Rightarrow> u64 \<Rightarrow> ('w, 'd, unit) step" where
  "report env units = (\<lambda>ctx.
     (Inr (), ctx\<lparr>fc_progress := progress_report (progress_mode env) (current_time_ms env) units (fc_progress ctx)\<rparr>))"

definition add_units :: "u64 \<Rightarrow> ('w, 'd, unit) step" where
  "add_units units = (\<lambda>ctx. (Inr (), ctx\<lparr>fc_progress :=
     (let (p, out) = fc_progress ctx in (p\<lparr>total_units := total_units p + units\<rparr>, out))\<rparr>))"

text \<open>An entry of \<open>argv\<close> past \<open>argc\<close> is a null pointer, and using it undefined.\<close>

definition arg :: "nat \<Rightarrow> ('w, 'd, string) step" where
  "arg i = (\<lambda>ctx. (if i < length (fc_argv ctx) then Inr (fc_argv ctx ! i) else Inl (Undefined ''argv''), ctx))"

definition argc :: "('w, 'd) fun_context \<Rightarrow> nat" where
  "argc ctx = length (fc_argv ctx)"

definition strtoull_value :: "string \<Rightarrow> u64" where
  "strtoull_value s = fst (strtoull s)"

definition strtol_int :: "string \<Rightarrow> int" where
  "strtol_int s = to_int32 (fst (strtoll s))"

definition CHECK_ARG_UINT64 :: "string \<Rightarrow> string \<Rightarrow> ('s, unit) action" where
  "CHECK_ARG_UINT64 a msg = (let (_, endptr, e) = strtoull a in
     if e \<or> a = [] \<or> endptr \<noteq> [] then err_return msg else ret ())"

definition CHECK_ARG_UINT64_RANGE :: "string \<Rightarrow> u64 \<Rightarrow> u64 \<Rightarrow> string \<Rightarrow> ('s, unit) action" where
  "CHECK_ARG_UINT64_RANGE a min_val max_val msg = (let (val, endptr, e) = strtoull a in
     if e \<or> val > max_val \<or> val < min_val \<or> a = [] \<or> endptr \<noteq> [] then err_return msg else ret ())"

text \<open>
  A product of unsigned 64 bit numbers that is used as an \<open>off_t\<close>. The model has no addresses
  below zero: a product that does not fit is left undefined.
\<close>

definition to_offset :: "u64 \<Rightarrow> nat res" where
  "to_offset v = (if unat v < 2 ^ 63 then Inr (unat v) else Inl (Undefined ''offset''))"

definition add_offset :: "nat \<Rightarrow> int \<Rightarrow> nat res" where
  "add_offset dest k = (if 0 \<le> int dest + k \<and> int dest + k < 2 ^ 63 then Inr (nat (int dest + k))
     else Inl (Undefined ''offset''))"

section \<open>Reading a resource\<close>

type_synonym ('w, 'd, 'c, 'a) cb = "(('w, 'd) fun_context \<times> 'c, 'a) action"

definition on_ctx :: "('w, 'd, 'a) step \<Rightarrow> ('w, 'd, 'c, 'a) cb" where
  "on_ctx m = (\<lambda>(ctx, c). case m ctx of (r, ctx') \<Rightarrow> (r, (ctx', c)))"

text \<open>
  The loop of \<open>process_resource\<close>; its result is everything that was read. \<open>prev\<close> is
  \<open>last_offset\<close>. It ends when the reader has no more data; the model stops it after \<open>fuel\<close> pieces.
\<close>

fun process_loop :: "nat \<Rightarrow> 'w fun_env \<Rightarrow> ('w, 'd) reader \<Rightarrow> bool \<Rightarrow> (byte list \<Rightarrow> int \<Rightarrow> ('w, 'd, 'c, unit) cb) \<Rightarrow>
    byte list \<Rightarrow> int \<Rightarrow> ('w, 'd, 'c, byte list) cb" where
  "process_loop 0 env read count_holes pw h prev s = (Inl (Undefined ''fuel''), s)"
| "process_loop (Suc fuel) env read count_holes pw h prev s =
     ok_then (on_ctx read) (\<lambda>(buffer, offset).
       if buffer = [] then ret h
       else ok_then (pw buffer offset) (\<lambda>_.
         (let next = offset + int (length buffer) in
          ok_then (on_ctx (report env (if count_holes then word_of_int (next - prev) else of_nat (length buffer))))
            (\<lambda>_. process_loop fuel env read count_holes pw (h @ buffer) next)))) s"

definition process_resource_compute_progress :: "bool \<Rightarrow> ('w, 'd, unit) step" where
  "process_resource_compute_progress count_holes = (\<lambda>ctx.
     if fc_type ctx \<noteq> FUN_CONTEXT_FILE then (Inl (Undefined ''assertion failed''), ctx)
     else case fc_on_event ctx of None \<Rightarrow> (Inl (Undefined ''assertion failed''), ctx)
     | Some on_event \<Rightarrow>
         ok_then (from_res (bind_res (sparse_file_get_map_from_config (fc_cfg ctx) (cfg_title on_event)) (\<lambda>sfm.
                    if count_holes then sparse_file_size sfm else sparse_file_data_size sfm)))
           (\<lambda>expected_length. add_units (word_of_int expected_length)) ctx)"

definition hash_matches :: "'w fun_env \<Rightarrow> byte list \<Rightarrow> string \<Rightarrow> bool" where
  "hash_matches env h expected_hash = (bytes_to_hex (blake2b_256 env h) = expected_hash)"

definition process_resource :: "'w fun_env \<Rightarrow> ('w, 'd) reader \<Rightarrow> bool \<Rightarrow> (byte list \<Rightarrow> int \<Rightarrow> ('w, 'd, 'c, unit) cb) \<Rightarrow>
    (int \<Rightarrow> int \<Rightarrow> ('w, 'd, 'c, unit) cb) \<Rightarrow> ('w, 'd, 'c, unit) cb" where
  "process_resource env read count_holes pw final_hole = (\<lambda>(ctx, c).
     if fc_type ctx \<noteq> FUN_CONTEXT_FILE then (Inl (Undefined ''assertion failed''), (ctx, c))
     else case fc_on_event ctx of None \<Rightarrow> (Inl (Undefined ''assertion failed''), (ctx, c))
     | Some on_event \<Rightarrow>
       (case cfg_gettsec (fc_cfg ctx) ''file-resource'' (cfg_title on_event) of
          None \<Rightarrow> (Inl (Msg ''can't find file-resource''), (ctx, c))
        | Some resource \<Rightarrow>
           (case cfg_getstr resource ''blake2b-256'' of
              None \<Rightarrow> (Inl (Msg ''invalid blake2b hash''), (ctx, c))
            | Some expected_hash \<Rightarrow>
               if length expected_hash \<noteq> 64 then (Inl (Msg ''invalid blake2b hash''), (ctx, c))
               else
                 ok_then (from_res (bind_res (sparse_file_get_map_from_resource resource)
                            (\<lambda>sfm. bind_res (sparse_file_data_size sfm) (\<lambda>n. Inr (sfm, n)))))
                 (\<lambda>(sfm, expected_data_length).
                   ok_then (process_loop (read_fuel env) env read count_holes pw [] 0) (\<lambda>h.
                   ok_then (from_res (bind_res (sparse_ending_hole_size sfm) (\<lambda>hole.
                              if hole > 0 then bind_res (sparse_file_size sfm) (\<lambda>sz. Inr (hole, sz)) else Inr (hole, 0))))
                   (\<lambda>(ending_hole, file_size).
                     ok_then (if ending_hole > 0 then
                                ok_then (final_hole ending_hole file_size)
                                  (\<lambda>_. if count_holes then on_ctx (report env (word_of_int ending_hole)) else ret ())
                              else ret ())
                     (\<lambda>_. if int (length h) \<noteq> expected_data_length then
                            (if h = [] then err_return ''didn't write anything and was likely called twice''
                             else err_return ''wrote bytes, but should have written'')
                          else if \<not> hash_matches env h expected_hash then err_return ''detected blake2b mismatch''
                          else ret ())))) (ctx, c))))"

end
