(* ===== verification/Functions.thy ===== *)
theory Functions
  imports Fun_Context
begin

text \<open>
  The functions that a task's events call (\<open>functions.c\<close>): for each of them the check of its
  parameters when the archive is made, the work units it announces, and what it does.
\<close>

section \<open>Writing resources\<close>

definition require_file :: "string \<Rightarrow> ('w, 'd, unit) step" where
  "require_file m = (\<lambda>ctx. (if fc_type ctx \<noteq> FUN_CONTEXT_FILE then Inl (Msg m) else Inr (), ctx))"

definition require_argc :: "(nat \<Rightarrow> bool) \<Rightarrow> string \<Rightarrow> ('w, 'd, unit) step" where
  "require_argc P m = (\<lambda>ctx. (if P (argc ctx) then Inr () else Inl (Msg m), ctx))"

definition check_uint :: "nat \<Rightarrow> string \<Rightarrow> ('w, 'd, unit) step" where
  "check_uint i m = ok_then (arg i) (\<lambda>a. CHECK_ARG_UINT64 a m)"

abbreviation and_then :: "('s, unit) action \<Rightarrow> ('s, 'a) action \<Rightarrow> ('s, 'a) action" where
  "and_then a b \<equiv> ok_then a (\<lambda>_. b)"

definition raw_write_validate :: "('w, 'd, unit) step" where
  "raw_write_validate =
     and_then (require_file ''raw_write only usable in on-resource'')
       (and_then (require_argc (\<lambda>n. \<not> n < 2) ''raw_write requires a block offset'')
         (check_uint 1 ''raw_write requires a non-negative integer block offset''))"

definition raw_write_compute_progress :: "('w, 'd, unit) step" where
  "raw_write_compute_progress = process_resource_compute_progress False"

text \<open>The cookie of \<open>raw_write\<close>: the destination and the writer, whose cache is that of the context.\<close>

type_synonym raw_write_cookie = "nat \<times> pad_to_block_writer"

definition on_writer :: "'a writer \<Rightarrow> ('w, 'd, raw_write_cookie, 'a) cb" where
  "on_writer m = (\<lambda>(ctx, (dest, w)). case m (fc_output ctx, w) of
     (r, (bc, w')) \<Rightarrow> (r, (ctx\<lparr>fc_output := bc\<rparr>, (dest, w'))))"

definition raw_write_pwrite_callback :: "'w fun_env \<Rightarrow> byte list \<Rightarrow> int \<Rightarrow> ('w, 'd, raw_write_cookie, unit) cb" where
  "raw_write_pwrite_callback env buf offset = (\<lambda>(ctx, (dest, w)).
     ok_then (from_res (add_offset dest offset)) (\<lambda>a. on_writer (ptbw_pwrite (aes_lib env) buf a)) (ctx, (dest, w)))"

definition raw_write_final_hole_callback :: "'w fun_env \<Rightarrow> int \<Rightarrow> int \<Rightarrow> ('w, 'd, raw_write_cookie, unit) cb" where
  "raw_write_final_hole_callback env hole_size file_size = (\<lambda>(ctx, (dest, w)).
     let to_write = min hole_size 512 in
     ok_then (from_res (add_offset dest (file_size - to_write)))
       (\<lambda>a. on_writer (ptbw_pwrite (aes_lib env) (replicate (nat to_write) 0) a)) (ctx, (dest, w)))"

definition raw_write_run :: "'w fun_env \<Rightarrow> ('w, 'd) reader \<Rightarrow> ('w, 'd, unit) step" where
  "raw_write_run env read =
     ok_then (arg 1) (\<lambda>a. ok_then (from_res (to_offset (strtoull_value a * 512))) (\<lambda>dest ctx.
       ok_then (from_res (if argc ctx > 2
                          then bind_res (disk_crypto_init dest (drop 2 (fc_argv ctx))) (\<lambda>dc. Inr (Some dc))
                          else Inr None))
         (\<lambda>dc ctx.
            case and_then (process_resource env read False (raw_write_pwrite_callback env) (raw_write_final_hole_callback env))
                   (on_writer (ptbw_flush (aes_lib env))) (ctx, (dest, ptbw_init (replicate 512 0) dc)) of
              (r, (ctx', _)) \<Rightarrow> (r, ctx')) ctx))"

definition raw_memset_validate :: "('w, 'd, unit) step" where
  "raw_memset_validate =
     and_then (require_argc (\<lambda>n. n = 4) ''raw_memset requires a block offset, count, and value'')
       (and_then (check_uint 1 ''raw_memset requires a non-negative integer block offset'')
         (ok_then (arg 2) (\<lambda>a. and_then (CHECK_ARG_UINT64_RANGE a 1 ((2 ^ 63 - 1) div 512) ''raw_memset requires a positive integer block count'')
           (ok_then (arg 3) (\<lambda>v. let value = strtol_int v in
              if value < 0 \<or> value > 255 then err_return ''raw_memset requires value to be between 0 and 255'' else ret ())))))"

text \<open>\<open>count * FWUP_BLOCK_SIZE\<close> is a product of \<open>int\<close>s.\<close>

definition raw_memset_compute_progress :: "('w, 'd, unit) step" where
  "raw_memset_compute_progress =
     ok_then (arg 2) (\<lambda>a. let units = strtol_int a * 512 in
       if - (2 ^ 31) \<le> units \<and> units < 2 ^ 31 then add_units (word_of_int units) else from_res (Inl (Undefined ''signed overflow'')))"

fun memset_loop :: "'w fun_env \<Rightarrow> nat \<Rightarrow> byte list \<Rightarrow> nat \<Rightarrow> ('w, 'd, unit) step" where
  "memset_loop env 0 buffer a ctx = (Inr (), ctx)"
| "memset_loop env (Suc n) buffer a ctx =
     and_then (\<lambda>ctx. case on_output (block_cache_pwrite buffer a True) ctx of
                 (r, ctx') \<Rightarrow> (with_msg ''raw_memset couldn't write'' r, ctx'))
       (and_then (report env 512) (memset_loop env n buffer (a + 512))) ctx"

definition raw_memset_run :: "'w fun_env \<Rightarrow> ('w, 'd, unit) step" where
  "raw_memset_run env =
     ok_then (arg 1) (\<lambda>a1. ok_then (arg 2) (\<lambda>a2. ok_then (arg 3) (\<lambda>a3.
       ok_then (from_res (to_offset (strtoull_value a1 * 512))) (\<lambda>dest_offset.
       ok_then (from_res (to_offset (strtoull_value a2 * 512))) (\<lambda>count.
         memset_loop env (count div 512) (replicate 512 (word_of_int (strtol_int a3))) dest_offset)))))"

section \<open>FAT file systems\<close>

text \<open>Work units that count as one block.\<close>

definition one_block :: "('w, 'd, unit) step" where
  "one_block = add_units 512"

definition fat_run :: "'w fun_env \<Rightarrow> fat_call \<Rightarrow> ('w, 'd, unit) step" where
  "fat_run env c = and_then (call_fat env c) (report env 512)"

definition fat_mkfs_validate :: "('w, 'd, unit) step" where
  "fat_mkfs_validate =
     and_then (require_argc (\<lambda>n. n = 3) ''fat_mkfs requires a block offset and block count'')
       (and_then (check_uint 1 ''fat_mkfs requires a non-negative integer block offset'')
         (check_uint 2 ''fat_mkfs requires a non-negative integer block count''))"

definition fat_mkfs_compute_progress :: "('w, 'd, unit) step" where
  "fat_mkfs_compute_progress = one_block"

definition fat_mkfs_run :: "'w fun_env \<Rightarrow> ('w, 'd, unit) step" where
  "fat_mkfs_run env = ok_then (arg 1) (\<lambda>a. ok_then (arg 2) (\<lambda>n. fat_run env (Fat_mkfs (strtoull_value a) (strtoull_value n))))"

definition fat_attrib_validate :: "('w, 'd, unit) step" where
  "fat_attrib_validate =
     and_then (require_argc (\<lambda>n. n = 4) ''fat_attrib requires a block offset, filename, and attributes (SHR)'')
       (and_then (check_uint 1 ''fat_mkfs requires a non-negative integer block offset'')
         (ok_then (arg 3) (\<lambda>attrib. if list_all (\<lambda>c. c \<in> set ''SsHhRr'') attrib then ret ()
            else err_return ''fat_attrib only supports R, H, and S attributes'')))"

definition fat_attrib_compute_progress :: "('w, 'd, unit) step" where
  "fat_attrib_compute_progress = one_block"

text \<open>A failure of \<open>fatfs_attrib\<close> makes the function return 1, which its callers take for success.\<close>

definition fat_attrib_run :: "'w fun_env \<Rightarrow> ('w, 'd, unit) step" where
  "fat_attrib_run env = ok_then (arg 1) (\<lambda>a. ok_then (arg 2) (\<lambda>name. ok_then (arg 3) (\<lambda>attrib ctx.
     (case call_fat env (Fat_attrib (strtoull_value a) name attrib) ctx of
        (Inl (Undefined w), ctx') \<Rightarrow> (Inl (Undefined w), ctx')
      | (Inl _, ctx') \<Rightarrow> (Inr (), ctx')
      | (Inr _, ctx') \<Rightarrow> report env 512 ctx'))))"

definition fat_write_validate :: "('w, 'd, unit) step" where
  "fat_write_validate =
     and_then (require_file ''fat_write only usable in on-resource'')
       (and_then (\<lambda>ctx. if argc ctx = 2 then (Inr (), ctx\<lparr>fc_argv := fc_argv ctx @ [cfg_title (fc_task ctx)]\<rparr>)
                   else if argc ctx \<noteq> 3 then (Inl (Msg ''fat_write requires a block offset and optional destination filename''), ctx)
                   else (Inr (), ctx))
         (check_uint 1 ''fat_write requires a non-negative integer block offset''))"

definition fat_write_compute_progress :: "('w, 'd, unit) step" where
  "fat_write_compute_progress = process_resource_compute_progress True"

text \<open>The offset is converted to \<open>int\<close>.\<close>

definition fat_write_pwrite_callback :: "'w fun_env \<Rightarrow> u64 \<Rightarrow> byte list \<Rightarrow> int \<Rightarrow> ('w, 'd, unit, unit) cb" where
  "fat_write_pwrite_callback env start_block buf offset =
     on_ctx (ok_then (arg 2) (\<lambda>name. call_fat env (Fat_pwrite start_block name (to_int32 offset) buf)))"

definition fat_write_final_hole_callback :: "'w fun_env \<Rightarrow> u64 \<Rightarrow> int \<Rightarrow> int \<Rightarrow> ('w, 'd, unit, unit) cb" where
  "fat_write_final_hole_callback env start_block hole_size file_size =
     on_ctx (ok_then (arg 2) (\<lambda>name. call_fat env (Fat_pwrite start_block name (to_int32 file_size) [])))"

definition fat_write_run :: "'w fun_env \<Rightarrow> ('w, 'd) reader \<Rightarrow> ('w, 'd, unit) step" where
  "fat_write_run env read =
     ok_then (arg 1) (\<lambda>a. ok_then (arg 2) (\<lambda>name.
       let start_block = strtoull_value a in
       and_then (call_fat env (Fat_truncate start_block name))
         (\<lambda>ctx. case process_resource env read True (fat_write_pwrite_callback env start_block)
                  (fat_write_final_hole_callback env start_block) (ctx, ()) of (r, (ctx', _)) \<Rightarrow> (r, ctx'))))"

definition fat_mv_validate :: "('w, 'd, unit) step" where
  "fat_mv_validate =
     and_then (require_argc (\<lambda>n. n = 4) ''fat_mv requires a block offset, old filename, new filename'')
       (check_uint 1 ''fat_mv requires a non-negative integer block offset'')"

definition fat_mv_compute_progress :: "('w, 'd, unit) step" where
  "fat_mv_compute_progress = one_block"

text \<open>\<open>argv[0][6] == '!'\<close>\<close>

definition bang :: "string \<Rightarrow> bool" where
  "bang name = (6 < length name \<and> name ! 6 = CHR ''!'')"

definition fat_mv_run :: "'w fun_env \<Rightarrow> ('w, 'd, unit) step" where
  "fat_mv_run env = ok_then (arg 0) (\<lambda>f. ok_then (arg 1) (\<lambda>a. ok_then (arg 2) (\<lambda>x. ok_then (arg 3) (\<lambda>y.
     fat_run env (Fat_mv (strtoull_value a) f x y (bang f))))))"

definition fat_rm_validate :: "('w, 'd, unit) step" where
  "fat_rm_validate =
     and_then (require_argc (\<lambda>n. n = 3) ''fat_rm requires a block offset and filename'')
       (check_uint 1 ''fat_rm requires a non-negative integer block offset'')"

definition fat_rm_compute_progress :: "('w, 'd, unit) step" where
  "fat_rm_compute_progress = one_block"

definition fat_rm_run :: "'w fun_env \<Rightarrow> ('w, 'd, unit) step" where
  "fat_rm_run env = ok_then (arg 0) (\<lambda>f. ok_then (arg 1) (\<lambda>a. ok_then (arg 2) (\<lambda>x.
     fat_run env (Fat_rm (strtoull_value a) f x (bang f)))))"

definition fat_cp_validate :: "('w, 'd, unit) step" where
  "fat_cp_validate = (\<lambda>ctx.
     if argc ctx = 4 then check_uint 1 ''fat_cp requires a non-negative integer block offset'' ctx
     else if argc ctx = 5 then
       and_then (check_uint 1 ''fat_cp requires a non-negative integer source block offset'')
         (check_uint 3 ''fat_cp requires a non-negative integer destination block offset'') ctx
     else (Inl (Msg ''fat_cp requires either 3 or 4 arguments''), ctx))"

definition fat_cp_compute_progress :: "('w, 'd, unit) step" where
  "fat_cp_compute_progress = one_block"

definition fat_cp_run :: "'w fun_env \<Rightarrow> ('w, 'd, unit) step" where
  "fat_cp_run env = ok_then (arg 1) (\<lambda>a. ok_then (arg 2) (\<lambda>x ctx.
     if argc ctx = 4 then ok_then (arg 3) (\<lambda>y. fat_run env (Fat_cp (strtoull_value a) x (strtoull_value a) y)) ctx
     else ok_then (arg 3) (\<lambda>b. ok_then (arg 4) (\<lambda>y. fat_run env (Fat_cp (strtoull_value a) x (strtoull_value b) y))) ctx))"

definition fat_mkdir_validate :: "('w, 'd, unit) step" where
  "fat_mkdir_validate =
     and_then (require_argc (\<lambda>n. n = 3) ''fat_mkdir requires a block offset and directory name'')
       (check_uint 1 ''fat_mkdir requires a non-negative integer block offset'')"

definition fat_mkdir_compute_progress :: "('w, 'd, unit) step" where
  "fat_mkdir_compute_progress = one_block"

definition fat_mkdir_run :: "'w fun_env \<Rightarrow> ('w, 'd, unit) step" where
  "fat_mkdir_run env = ok_then (arg 1) (\<lambda>a. ok_then (arg 2) (\<lambda>x. fat_run env (Fat_mkdir (strtoull_value a) x)))"

definition fat_setlabel_validate :: "('w, 'd, unit) step" where
  "fat_setlabel_validate =
     and_then (require_argc (\<lambda>n. n = 3) ''fat_setlabel requires a block offset and name'')
       (check_uint 1 ''fat_setlabel requires a non-negative integer block offset'')"

definition fat_setlabel_compute_progress :: "('w, 'd, unit) step" where
  "fat_setlabel_compute_progress = one_block"

definition fat_setlabel_run :: "'w fun_env \<Rightarrow> ('w, 'd, unit) step" where
  "fat_setlabel_run env = ok_then (arg 1) (\<lambda>a. ok_then (arg 2) (\<lambda>x. fat_run env (Fat_setlabel (strtoull_value a) x)))"

definition fat_touch_validate :: "('w, 'd, unit) step" where
  "fat_touch_validate =
     and_then (require_argc (\<lambda>n. n = 3) ''fat_touch requires a block offset and filename'')
       (check_uint 1 ''fat_touch requires a non-negative integer block offset'')"

definition fat_touch_compute_progress :: "('w, 'd, unit) step" where
  "fat_touch_compute_progress = one_block"

definition fat_touch_run :: "'w fun_env \<Rightarrow> ('w, 'd, unit) step" where
  "fat_touch_run env = ok_then (arg 1) (\<lambda>a. ok_then (arg 2) (\<lambda>x. fat_run env (Fat_touch (strtoull_value a) x)))"

section \<open>Partition tables and trimming\<close>

definition GPT_UNITS :: u64 where "GPT_UNITS = of_nat (GPT_SIZE * 2)"

definition require_section :: "string \<Rightarrow> string \<Rightarrow> ('w, 'd, cfg) step" where
  "require_section kind m = ok_then (arg 1) (\<lambda>name ctx.
     (case cfg_gettsec (fc_cfg ctx) kind name of None \<Rightarrow> (Inl (Msg m), ctx) | Some sec \<Rightarrow> (Inr sec, ctx)))"

text \<open>At run time the section is not checked again; a missing one is a null pointer.\<close>

definition the_section :: "string \<Rightarrow> ('w, 'd, cfg) step" where
  "the_section kind = ok_then (arg 1) (\<lambda>name ctx.
     (case cfg_gettsec (fc_cfg ctx) kind name of None \<Rightarrow> (Inl (Undefined ''section''), ctx) | Some sec \<Rightarrow> (Inr sec, ctx)))"

definition output_blocks :: "('w, 'd) fun_context \<Rightarrow> u32" where
  "output_blocks ctx = of_nat (end_offset (fc_output ctx) div 512)"

definition write_output :: "string \<Rightarrow> byte list \<Rightarrow> nat \<Rightarrow> ('w, 'd, unit) step" where
  "write_output m buf a = (\<lambda>ctx. case on_output (block_cache_pwrite buf a False) ctx of (r, ctx') \<Rightarrow> (with_msg m r, ctx'))"

definition gpt_write_validate :: "('w, 'd, unit) step" where
  "gpt_write_validate =
     and_then (require_argc (\<lambda>n. n = 2) ''gpt_write requires a gpt'')
       (ok_then (require_section ''gpt'' ''gpt_write can't find gpt reference'') (\<lambda>_. ret ()))"

definition gpt_write_compute_progress :: "('w, 'd, unit) step" where
  "gpt_write_compute_progress = add_units GPT_UNITS"

definition gpt_write_run :: "'w fun_env \<Rightarrow> ('w, 'd, unit) step" where
  "gpt_write_run env = ok_then (the_section ''gpt'') (\<lambda>gptsec ctx.
     ok_then (from_res (gpt_create_cfg (errno_erange env) gptsec (output_blocks ctx)))
       (\<lambda>(mbr_and_primary_gpt, secondary_gpt, secondary_gpt_offset).
          and_then (write_output ''unexpected error writing protective mbr and primary gpt'' mbr_and_primary_gpt 0)
            (ok_then (from_res (to_offset secondary_gpt_offset)) (\<lambda>a.
               and_then (write_output ''unexpected error writing secondary gpt'' secondary_gpt a) (report env GPT_UNITS)))) ctx)"

definition mbr_write_validate :: "('w, 'd, unit) step" where
  "mbr_write_validate =
     and_then (require_argc (\<lambda>n. n = 2) ''mbr_write requires an mbr'')
       (ok_then (require_section ''mbr'' ''mbr_write can't find mbr reference'') (\<lambda>_. ret ()))"

definition mbr_write_compute_progress :: "('w, 'd, unit) step" where
  "mbr_write_compute_progress = one_block"

fun write_raw :: "mbr_raw_partition list \<Rightarrow> ('w, 'd, unit) step" where
  "write_raw [] ctx = (Inr (), ctx)"
| "write_raw (r # rs) ctx =
     and_then (write_output ''unexpected error writing mbr'' (data r) (raw_block_offset r * 512)) (write_raw rs) ctx"

definition mbr_write_run :: "'w fun_env \<Rightarrow> ('w, 'd, unit) step" where
  "mbr_write_run env = ok_then (the_section ''mbr'') (\<lambda>mbrsec ctx.
     ok_then (from_res (mbr_create_cfg mbrsec (output_blocks ctx) (stack_bytes env)))
       (\<lambda>raw. and_then (write_raw raw) (report env 512)) ctx)"

definition trim_validate :: "('w, 'd, unit) step" where
  "trim_validate =
     and_then (require_argc (\<lambda>n. n = 3) ''trim requires a block offset and count'')
       (and_then (check_uint 1 ''trim requires a non-negative integer block offset'')
         (ok_then (arg 2) (\<lambda>a. CHECK_ARG_UINT64_RANGE a 1 ((2 ^ 63 - 1) div 512) ''trim requires a block count >1'')))"

text \<open>\<open>off_t block_count\<close>, and a signed division.\<close>

definition trim_units :: "string \<Rightarrow> u64" where
  "trim_units a = (let block_count = sint (strtoull_value a) in word_of_int (sgn block_count * (\<bar>block_count\<bar> div 256)))"

definition trim_compute_progress :: "('w, 'd, unit) step" where
  "trim_compute_progress = ok_then (arg 2) (\<lambda>a. add_units (trim_units a))"

definition trim_run :: "'w fun_env \<Rightarrow> ('w, 'd, unit) step" where
  "trim_run env = ok_then (arg 1) (\<lambda>a. ok_then (arg 2) (\<lambda>b.
     ok_then (from_res (byte_offset (sint (strtoull_value a)))) (\<lambda>offset.
     ok_then (from_res (byte_offset (sint (strtoull_value b)))) (\<lambda>count.
       and_then (on_output (block_cache_trim offset count True)) (report env (trim_units b))))))"

section \<open>U-Boot environments\<close>

definition uboot_get_info :: "('w, 'd, cfg) step" where
  "uboot_get_info = (\<lambda>ctx. if argc ctx < 2 then (Inl (Msg ''requires uboot-environment''), ctx)
     else require_section ''uboot-environment'' ''can't find uboot-environment reference'' ctx)"

definition uboot_block_count :: "'w fun_env \<Rightarrow> ('w, 'd) fun_context \<Rightarrow> u64" where
  "uboot_block_count env ctx =
     (case uboot_get_info ctx of
        (Inl _, _) \<Rightarrow> 512
      | (Inr ubootsec, _) \<Rightarrow> word_of_int (uboot_env_block_count (errno_erange env) ubootsec) * 512)"

definition uboot_validate :: "nat \<Rightarrow> string \<Rightarrow> ('w, 'd, unit) step" where
  "uboot_validate n m = and_then (require_argc (\<lambda>k. k = n) m) (ok_then uboot_get_info (\<lambda>_. ret ()))"

definition uboot_recover_validate :: "('w, 'd, unit) step" where
  "uboot_recover_validate = uboot_validate 2 ''uboot_recover requires a uboot-environment reference''"

definition uboot_clearenv_validate :: "('w, 'd, unit) step" where
  "uboot_clearenv_validate = uboot_validate 2 ''uboot_clearenv requires a uboot-environment reference''"

definition uboot_setenv_validate :: "('w, 'd, unit) step" where
  "uboot_setenv_validate = uboot_validate 4 ''uboot_setenv requires a uboot-environment reference, variable name and value''"

definition uboot_unsetenv_validate :: "('w, 'd, unit) step" where
  "uboot_unsetenv_validate = uboot_validate 3 ''uboot_unsetenv requires a uboot-environment reference and a variable name''"

definition uboot_compute_progress :: "'w fun_env \<Rightarrow> ('w, 'd, unit) step" where
  "uboot_compute_progress env = (\<lambda>ctx. add_units (uboot_block_count env ctx) ctx)"

definition uboot_recover_compute_progress :: "'w fun_env \<Rightarrow> ('w, 'd, unit) step" where
  "uboot_recover_compute_progress = uboot_compute_progress"

definition uboot_clearenv_compute_progress :: "'w fun_env \<Rightarrow> ('w, 'd, unit) step" where
  "uboot_clearenv_compute_progress = uboot_compute_progress"

definition uboot_setenv_compute_progress :: "'w fun_env \<Rightarrow> ('w, 'd, unit) step" where
  "uboot_setenv_compute_progress = uboot_compute_progress"

definition uboot_unsetenv_compute_progress :: "'w fun_env \<Rightarrow> ('w, 'd, unit) step" where
  "uboot_unsetenv_compute_progress = uboot_compute_progress"

definition uboot_report :: "'w fun_env \<Rightarrow> ('w, 'd, unit) step" where
  "uboot_report env = (\<lambda>ctx. report env (uboot_block_count env ctx) ctx)"

text \<open>An operation on an environment, with the environment that it leaves.\<close>

definition on_env :: "(block_cache \<times> uboot_env, unit) action \<Rightarrow> uboot_env \<Rightarrow> ('w, 'd, uboot_env) step" where
  "on_env m uenv = (\<lambda>ctx. case m (fc_output ctx, uenv) of
     (r, (bc, uenv')) \<Rightarrow> (bind_res r (\<lambda>_. Inr uenv'), ctx\<lparr>fc_output := bc\<rparr>))"

definition uboot_recover_run :: "'w fun_env \<Rightarrow> ('w, 'd, unit) step" where
  "uboot_recover_run env = ok_then uboot_get_info (\<lambda>ubootsec.
     ok_then (from_res (uboot_env_create_cfg (errno_erange env) ubootsec)) (\<lambda>clean_env.
       and_then
         (\<lambda>ctx. case on_env uboot_env_read clean_env ctx of
            (Inl (Undefined w), ctx') \<Rightarrow> (Inl (Undefined w), ctx')
          | (Inl _, ctx') \<Rightarrow> ok_then (on_env uboot_env_write clean_env) (\<lambda>_. ret ()) ctx'
          | (Inr _, ctx') \<Rightarrow> (Inr (), ctx'))
         (uboot_report env)))"

definition uboot_clearenv_run :: "'w fun_env \<Rightarrow> ('w, 'd, unit) step" where
  "uboot_clearenv_run env = ok_then uboot_get_info (\<lambda>ubootsec.
     ok_then (from_res (uboot_env_create_cfg (errno_erange env) ubootsec)) (\<lambda>uenv.
       and_then (ok_then (on_env uboot_env_write uenv) (\<lambda>_. ret ())) (uboot_report env)))"

definition uboot_edit_run :: "'w fun_env \<Rightarrow> (uboot_env \<Rightarrow> uboot_env) \<Rightarrow> ('w, 'd, unit) step" where
  "uboot_edit_run env f = ok_then uboot_get_info (\<lambda>ubootsec.
     ok_then (from_res (uboot_env_create_cfg (errno_erange env) ubootsec)) (\<lambda>uenv.
       ok_then (on_env uboot_env_read uenv) (\<lambda>uenv'.
         and_then (ok_then (on_env uboot_env_write (f uenv')) (\<lambda>_. ret ())) (uboot_report env))))"

definition uboot_setenv_run :: "'w fun_env \<Rightarrow> ('w, 'd, unit) step" where
  "uboot_setenv_run env = ok_then (arg 2) (\<lambda>name. ok_then (arg 3) (\<lambda>value. uboot_edit_run env (uboot_env_setenv name value)))"

definition uboot_unsetenv_run :: "'w fun_env \<Rightarrow> ('w, 'd, unit) step" where
  "uboot_unsetenv_run env = ok_then (arg 2) (\<lambda>name. uboot_edit_run env (uboot_env_unsetenv name))"

section \<open>Messages, files and commands\<close>

definition error_validate :: "('w, 'd, unit) step" where
  "error_validate = require_argc (\<lambda>n. n = 2) ''error() requires a message parameter''"

definition error_compute_progress :: "('w, 'd, unit) step" where
  "error_compute_progress = ret ()"

definition error_run :: "('w, 'd, unit) step" where
  "error_run = ok_then (arg 1) err_return"

definition info_validate :: "('w, 'd, unit) step" where
  "info_validate = require_argc (\<lambda>n. n = 2) ''info() requires a message parameter''"

definition info_compute_progress :: "('w, 'd, unit) step" where
  "info_compute_progress = ret ()"

definition info_run :: "'w fun_env \<Rightarrow> ('w, 'd, unit) step" where
  "info_run env = ok_then (arg 1) (\<lambda>m. ok_then (call_host env (Warn m)) (\<lambda>_. ret ()))"

definition check_unsafe :: "'w fun_env \<Rightarrow> ('w, 'd, unit) step" where
  "check_unsafe env = (if fwup_unsafe env then ret () else err_return ''requires --unsafe'')"

definition path_write_validate :: "('w, 'd, unit) step" where
  "path_write_validate =
     and_then (require_file ''path_write only usable in on-resource'')
       (require_argc (\<lambda>n. n = 2) ''path_write requires a file path'')"

definition path_write_compute_progress :: "('w, 'd, unit) step" where
  "path_write_compute_progress = process_resource_compute_progress False"

definition path_write_pwrite_callback :: "'w fun_env \<Rightarrow> byte list \<Rightarrow> int \<Rightarrow> ('w, 'd, unit, unit) cb" where
  "path_write_pwrite_callback env buf offset =
     on_ctx (ok_then (call_host env (Fseek offset)) (\<lambda>rc.
       if rc < 0 then err_return ''seek failed''
       else ok_then (call_host env (Fwrite buf)) (\<lambda>written.
         if written \<noteq> int (length buf) then err_return ''path_write failed to write'' else ret ())))"

definition path_write_final_hole_callback :: "'w fun_env \<Rightarrow> int \<Rightarrow> int \<Rightarrow> ('w, 'd, unit, unit) cb" where
  "path_write_final_hole_callback env hole_size file_size = path_write_pwrite_callback env [0] (file_size - 1)"

definition path_write_run :: "'w fun_env \<Rightarrow> ('w, 'd) reader \<Rightarrow> ('w, 'd, unit) step" where
  "path_write_run env read =
     and_then (check_unsafe env) (ok_then (arg 1) (\<lambda>name. ok_then (call_host env (Fopen name ''wb'')) (\<lambda>fp.
       if fp < 0 then err_return ''path_write can't open''
       else (\<lambda>ctx. case process_resource env read False (path_write_pwrite_callback env) (path_write_final_hole_callback env) (ctx, ()) of
               (r, (ctx', _)) \<Rightarrow> ok_then (call_host env Fclose) (\<lambda>_. from_res r) ctx'))))"

definition pipe_write_validate :: "('w, 'd, unit) step" where
  "pipe_write_validate =
     and_then (require_file ''pipe_write only usable in on-resource'')
       (require_argc (\<lambda>n. n = 2) ''pipe_write requires a command to execute'')"

definition pipe_write_compute_progress :: "('w, 'd, unit) step" where
  "pipe_write_compute_progress = process_resource_compute_progress True"

text \<open>
  The gap is filled in pieces of up to one block. The count that \<open>fwrite\<close> returns for a piece is
  compared with the length of the data that follows the gap.
\<close>

function pipe_fill :: "'w fun_env \<Rightarrow> int \<Rightarrow> int \<Rightarrow> ('w, 'd, int, unit) cb" where
  "pipe_fill env len offset (ctx, last_offset) =
     (if last_offset < offset then
        (let to_write = min (offset - last_offset) 512 in
         case call_host env (Fwrite (replicate (nat to_write) 0)) ctx of
           (Inl e, ctx') \<Rightarrow> (Inl e, (ctx', last_offset))
         | (Inr written, ctx') \<Rightarrow>
             if written \<noteq> len then (Inl (Msg ''pipe_write failed to write''), (ctx', last_offset))
             else pipe_fill env len offset (ctx', last_offset + to_write))
      else (Inr (), (ctx, last_offset)))"
  by pat_completeness auto
termination
  by (relation "measure (\<lambda>(_, _, offset, _, last_offset). nat (offset - last_offset))") auto

declare pipe_fill.simps [simp del]

definition pipe_write_pwrite_callback :: "'w fun_env \<Rightarrow> byte list \<Rightarrow> int \<Rightarrow> ('w, 'd, int, unit) cb" where
  "pipe_write_pwrite_callback env buf offset =
     and_then (pipe_fill env (int (length buf)) offset) (\<lambda>(ctx, last_offset).
       case call_host env (Fwrite buf) ctx of
         (Inl e, ctx') \<Rightarrow> (Inl e, (ctx', last_offset))
       | (Inr written, ctx') \<Rightarrow>
           if written \<noteq> int (length buf) then (Inl (Msg ''pipe_write failed to write''), (ctx', last_offset))
           else (Inr (), (ctx', last_offset + int (length buf))))"

definition pipe_write_final_hole_callback :: "'w fun_env \<Rightarrow> int \<Rightarrow> int \<Rightarrow> ('w, 'd, int, unit) cb" where
  "pipe_write_final_hole_callback env hole_size file_size = pipe_write_pwrite_callback env [0] (file_size - 1)"

definition pipe_write_run :: "'w fun_env \<Rightarrow> ('w, 'd) reader \<Rightarrow> ('w, 'd, unit) step" where
  "pipe_write_run env read =
     and_then (check_unsafe env) (ok_then (arg 1) (\<lambda>cmd. ok_then (call_host env (Popen cmd)) (\<lambda>fp.
       if fp < 0 then err_return ''pipe_write can't run''
       else (\<lambda>ctx. case process_resource env read True (pipe_write_pwrite_callback env) (pipe_write_final_hole_callback env) (ctx, 0) of
               (r, (ctx', _)) \<Rightarrow> ok_then (call_host env Pclose)
                  (\<lambda>rc. if rc \<noteq> 0 then err_return ''command returned an error to pipe_write'' else from_res r) ctx'))))"

definition ubi_volume_write_validate :: "('w, 'd, unit) step" where
  "ubi_volume_write_validate =
     and_then (require_file ''ubi_volume_write only usable in on-resource'')
       (require_argc (\<lambda>n. n = 2) ''ubi_volume_write requires a UBI volume path (e.g. /dev/ubi0_3)'')"

definition ubi_volume_write_compute_progress :: "('w, 'd, unit) step" where
  "ubi_volume_write_compute_progress = process_resource_compute_progress True"

text \<open>The cookie is the device and the cursor.\<close>

definition ubi_volume_write_seq :: "'w fun_env \<Rightarrow> byte list \<Rightarrow> ('w, 'd, string \<times> int, unit) cb" where
  "ubi_volume_write_seq env buf = (\<lambda>(ctx, (device, cursor)).
     case call_host env (Ubi_write device buf) ctx of
       (Inl e, ctx') \<Rightarrow> (Inl e, (ctx', (device, cursor)))
     | (Inr rc, ctx') \<Rightarrow> if rc < 0 then (Inl Quiet, (ctx', (device, cursor)))
                       else (Inr (), (ctx', (device, cursor + int (length buf)))))"

function ubi_volume_write_fill_zeros :: "'w fun_env \<Rightarrow> int \<Rightarrow> ('w, 'd, string \<times> int, unit) cb" where
  "ubi_volume_write_fill_zeros env up_to (ctx, (device, cursor)) =
     (if cursor < up_to then
        (let chunk = min (up_to - cursor) 512 in
         case ubi_volume_write_seq env (replicate (nat chunk) 0) (ctx, (device, cursor)) of
           (Inl e, s) \<Rightarrow> (Inl e, s)
         | (Inr _, (ctx', _)) \<Rightarrow> ubi_volume_write_fill_zeros env up_to (ctx', (device, cursor + chunk)))
      else (Inr (), (ctx, (device, cursor))))"
  by pat_completeness auto
termination
  by (relation "measure (\<lambda>(_, up_to, _, _, cursor). nat (up_to - cursor))") auto

declare ubi_volume_write_fill_zeros.simps [simp del]

definition ubi_volume_write_pwrite_callback :: "'w fun_env \<Rightarrow> byte list \<Rightarrow> int \<Rightarrow> ('w, 'd, string \<times> int, unit) cb" where
  "ubi_volume_write_pwrite_callback env buf offset = (\<lambda>(ctx, (device, cursor)).
     if offset < cursor then (Inl (Msg ''unexpected out-of-order write''), (ctx, (device, cursor)))
     else and_then (if offset > cursor then ubi_volume_write_fill_zeros env offset else ret ())
            (ubi_volume_write_seq env buf) (ctx, (device, cursor)))"

definition ubi_volume_write_final_hole_callback :: "'w fun_env \<Rightarrow> int \<Rightarrow> int \<Rightarrow> ('w, 'd, string \<times> int, unit) cb" where
  "ubi_volume_write_final_hole_callback env hole_size file_size = ubi_volume_write_fill_zeros env file_size"

definition ubi_volume_write_run :: "'w fun_env \<Rightarrow> ('w, 'd) reader \<Rightarrow> ('w, 'd, unit) step" where
  "ubi_volume_write_run env read =
     and_then (check_unsafe env) (ok_then (arg 1) (\<lambda>device ctx.
       case fc_on_event ctx of None \<Rightarrow> (Inl (Undefined ''on_event''), ctx)
       | Some on_event \<Rightarrow>
           ok_then (from_res (bind_res (sparse_file_get_map_from_config (fc_cfg ctx) (cfg_title on_event)) sparse_file_size))
             (\<lambda>total_bytes. ok_then (call_host env (Ubi_start device total_bytes)) (\<lambda>ubi.
               if ubi < 0 then from_res (Inl Quiet)
               else (\<lambda>ctx. case process_resource env read True (ubi_volume_write_pwrite_callback env)
                                (ubi_volume_write_final_hole_callback env) (ctx, (device, 0)) of
                      (r, (ctx', (_, cursor))) \<Rightarrow>
                        (let r' = bind_res r (\<lambda>_. if cursor \<noteq> total_bytes then Inl (Msg ''wrote bytes but declared'') else Inr ()) in
                         ok_then (call_host env (Ubi_finish device))
                           (\<lambda>close_rc. from_res (bind_res r' (\<lambda>_. if close_rc < 0 then Inl Quiet else Inr ()))) ctx')))) ctx))"

definition execute_validate :: "('w, 'd, unit) step" where
  "execute_validate = require_argc (\<lambda>n. n = 2) ''execute requires a command to execute''"

definition execute_compute_progress :: "('w, 'd, unit) step" where
  "execute_compute_progress = one_block"

definition assert_on_event :: "('w, 'd, unit) step" where
  "assert_on_event = (\<lambda>ctx. (if fc_on_event ctx = None then Inl (Undefined ''assertion failed'') else Inr (), ctx))"

definition execute_run :: "'w fun_env \<Rightarrow> ('w, 'd, unit) step" where
  "execute_run env =
     and_then assert_on_event (and_then (check_unsafe env) (ok_then (arg 1) (\<lambda>cmd_name.
       ok_then (call_host env (System cmd_name)) (\<lambda>status.
         if status < 0 then err_return ''execute couldn't run''
         else if status \<noteq> 0 then err_return ''failed with exit status''
         else report env 512))))"

definition reboot_param_validate :: "('w, 'd, unit) step" where
  "reboot_param_validate = require_argc (\<lambda>n. n = 2) ''reboot_param requires a single string parameter''"

definition reboot_param_compute_progress :: "('w, 'd, unit) step" where
  "reboot_param_compute_progress = one_block"

definition open_reboot_param :: "'w fun_env \<Rightarrow> ('w, 'd, unit) step" where
  "open_reboot_param env = (\<lambda>ctx.
     (case fc_reboot_param_path ctx of
        Some path \<Rightarrow> ok_then (call_host env (Fopen path ''w''))
          (\<lambda>fp. if fp < 0 then err_return ''reboot-param can't open'' else ret ())
      | None \<Rightarrow> ok_then (call_host env (Fopen ''/run/systemd/reboot-param'' ''w'')) (\<lambda>fp.
          if fp < 0 then ok_then (call_host env (Fopen ''/run/reboot-param'' ''w''))
            (\<lambda>fp. if fp < 0 then err_return ''reboot-param can't open under `/run`'' else ret ())
          else ret ())) ctx)"

definition reboot_param_run :: "'w fun_env \<Rightarrow> ('w, 'd, unit) step" where
  "reboot_param_run env =
     and_then assert_on_event (and_then (open_reboot_param env) (ok_then (arg 1) (\<lambda>param.
       ok_then (call_host env (Fwrite (string_bytes param))) (\<lambda>_. ok_then (call_host env Fclose) (\<lambda>_. report env 512)))))"

end
