(* ===== verification/Function_Table.thy ===== *)
theory Function_Table
  imports Functions
begin

text \<open>
  The table of the functions and the three operations on it (\<open>fun_validate\<close>, \<open>fun_compute_progress\<close>,
  \<open>fun_run\<close>), and \<open>fun_apply_funlist\<close>, which runs one of them on every call of an event. A
  \<open>funlist\<close> holds for every call the number of its words, as a string, and then the words: the
  name of the function and its arguments.
\<close>

record ('w, 'd) fun_info =
  fi_name :: string
  fi_validate :: "('w, 'd, unit) step"
  fi_compute_progress :: "('w, 'd, unit) step"
  fi_run :: "('w, 'd, unit) step"

definition fun_table :: "'w fun_env \<Rightarrow> ('w, 'd) reader \<Rightarrow> ('w, 'd) fun_info list" where
  "fun_table env read =
    [\<lparr>fi_name = ''raw_write'', fi_validate = raw_write_validate, fi_compute_progress = raw_write_compute_progress, fi_run = raw_write_run env read\<rparr>,
     \<lparr>fi_name = ''raw_memset'', fi_validate = raw_memset_validate, fi_compute_progress = raw_memset_compute_progress, fi_run = raw_memset_run env\<rparr>,
     \<lparr>fi_name = ''fat_attrib'', fi_validate = fat_attrib_validate, fi_compute_progress = fat_attrib_compute_progress, fi_run = fat_attrib_run env\<rparr>,
     \<lparr>fi_name = ''fat_mkfs'', fi_validate = fat_mkfs_validate, fi_compute_progress = fat_mkfs_compute_progress, fi_run = fat_mkfs_run env\<rparr>,
     \<lparr>fi_name = ''fat_write'', fi_validate = fat_write_validate, fi_compute_progress = fat_write_compute_progress, fi_run = fat_write_run env read\<rparr>,
     \<lparr>fi_name = ''fat_mv'', fi_validate = fat_mv_validate, fi_compute_progress = fat_mv_compute_progress, fi_run = fat_mv_run env\<rparr>,
     \<lparr>fi_name = ''fat_mv!'', fi_validate = fat_mv_validate, fi_compute_progress = fat_mv_compute_progress, fi_run = fat_mv_run env\<rparr>,
     \<lparr>fi_name = ''fat_rm'', fi_validate = fat_rm_validate, fi_compute_progress = fat_rm_compute_progress, fi_run = fat_rm_run env\<rparr>,
     \<lparr>fi_name = ''fat_rm!'', fi_validate = fat_rm_validate, fi_compute_progress = fat_rm_compute_progress, fi_run = fat_rm_run env\<rparr>,
     \<lparr>fi_name = ''fat_cp'', fi_validate = fat_cp_validate, fi_compute_progress = fat_cp_compute_progress, fi_run = fat_cp_run env\<rparr>,
     \<lparr>fi_name = ''fat_mkdir'', fi_validate = fat_mkdir_validate, fi_compute_progress = fat_mkdir_compute_progress, fi_run = fat_mkdir_run env\<rparr>,
     \<lparr>fi_name = ''fat_setlabel'', fi_validate = fat_setlabel_validate, fi_compute_progress = fat_setlabel_compute_progress, fi_run = fat_setlabel_run env\<rparr>,
     \<lparr>fi_name = ''fat_touch'', fi_validate = fat_touch_validate, fi_compute_progress = fat_touch_compute_progress, fi_run = fat_touch_run env\<rparr>,
     \<lparr>fi_name = ''gpt_write'', fi_validate = gpt_write_validate, fi_compute_progress = gpt_write_compute_progress, fi_run = gpt_write_run env\<rparr>,
     \<lparr>fi_name = ''mbr_write'', fi_validate = mbr_write_validate, fi_compute_progress = mbr_write_compute_progress, fi_run = mbr_write_run env\<rparr>,
     \<lparr>fi_name = ''trim'', fi_validate = trim_validate, fi_compute_progress = trim_compute_progress, fi_run = trim_run env\<rparr>,
     \<lparr>fi_name = ''uboot_clearenv'', fi_validate = uboot_clearenv_validate, fi_compute_progress = uboot_clearenv_compute_progress env, fi_run = uboot_clearenv_run env\<rparr>,
     \<lparr>fi_name = ''uboot_setenv'', fi_validate = uboot_setenv_validate, fi_compute_progress = uboot_setenv_compute_progress env, fi_run = uboot_setenv_run env\<rparr>,
     \<lparr>fi_name = ''uboot_unsetenv'', fi_validate = uboot_unsetenv_validate, fi_compute_progress = uboot_unsetenv_compute_progress env, fi_run = uboot_unsetenv_run env\<rparr>,
     \<lparr>fi_name = ''uboot_recover'', fi_validate = uboot_recover_validate, fi_compute_progress = uboot_recover_compute_progress env, fi_run = uboot_recover_run env\<rparr>,
     \<lparr>fi_name = ''error'', fi_validate = error_validate, fi_compute_progress = error_compute_progress, fi_run = error_run\<rparr>,
     \<lparr>fi_name = ''info'', fi_validate = info_validate, fi_compute_progress = info_compute_progress, fi_run = info_run env\<rparr>,
     \<lparr>fi_name = ''path_write'', fi_validate = path_write_validate, fi_compute_progress = path_write_compute_progress, fi_run = path_write_run env read\<rparr>,
     \<lparr>fi_name = ''pipe_write'', fi_validate = pipe_write_validate, fi_compute_progress = pipe_write_compute_progress, fi_run = pipe_write_run env read\<rparr>,
     \<lparr>fi_name = ''ubi_volume_write'', fi_validate = ubi_volume_write_validate, fi_compute_progress = ubi_volume_write_compute_progress, fi_run = ubi_volume_write_run env read\<rparr>,
     \<lparr>fi_name = ''execute'', fi_validate = execute_validate, fi_compute_progress = execute_compute_progress, fi_run = execute_run env\<rparr>,
     \<lparr>fi_name = ''reboot_param'', fi_validate = reboot_param_validate, fi_compute_progress = reboot_param_compute_progress, fi_run = reboot_param_run env\<rparr>]"

definition fun_lookup :: "'w fun_env \<Rightarrow> ('w, 'd) reader \<Rightarrow> ('w, 'd, ('w, 'd) fun_info) step" where
  "fun_lookup env read = (\<lambda>ctx.
     if argc ctx < 1 then (Inl (Msg ''Not enough parameters''), ctx)
     else case find (\<lambda>f. fc_argv ctx ! 0 = fi_name f) (fun_table env read) of
            None \<Rightarrow> (Inl (Msg ''Unknown function''), ctx) | Some f \<Rightarrow> (Inr f, ctx))"

definition fun_validate :: "'w fun_env \<Rightarrow> ('w, 'd) reader \<Rightarrow> ('w, 'd, unit) step" where
  "fun_validate env read = ok_then (fun_lookup env read) fi_validate"

definition fun_compute_progress :: "'w fun_env \<Rightarrow> ('w, 'd) reader \<Rightarrow> ('w, 'd, unit) step" where
  "fun_compute_progress env read = ok_then (fun_lookup env read) fi_compute_progress"

definition fun_run :: "'w fun_env \<Rightarrow> ('w, 'd) reader \<Rightarrow> ('w, 'd, unit) step" where
  "fun_run env read = ok_then (fun_lookup env read) fi_run"

text \<open>\<open>argc\<close> is the \<open>unsigned long\<close> of \<open>strtoul\<close> converted to \<open>int\<close>.\<close>

definition arity :: "string \<Rightarrow> int" where
  "arity s = to_int32 (uint (strtoull_value s))"

function fun_apply_funlist :: "('w, 'd, unit) step \<Rightarrow> string list \<Rightarrow> ('w, 'd, unit) step" where
  "fun_apply_funlist f [] ctx = (Inr (), ctx)"
| "fun_apply_funlist f (aritystr # rest) ctx =
     (if arity aritystr \<le> 0 \<or> arity aritystr > int FUN_MAX_ARGS
      then (Inl (Msg ''Unexpected argc value in funlist''), ctx)
      else (let n = nat (arity aritystr) in
        if length rest < n then (Inl (Msg ''Unexpected error with funlist''), ctx\<lparr>fc_argv := rest\<rparr>)
        else (case f (ctx\<lparr>fc_argv := take n rest\<rparr>) of
                (Inl e, ctx') \<Rightarrow> (Inl e, ctx')
              | (Inr _, ctx') \<Rightarrow> fun_apply_funlist f (drop n rest) ctx')))"
  by pat_completeness auto
termination by (relation "measure (\<lambda>(_, l, _). length l)") auto

declare fun_apply_funlist.simps [simp del]

section \<open>An environment for examples\<close>

text \<open>Every call succeeds and does nothing.\<close>

definition quiet_env :: "'w fun_env" where
  "quiet_env = \<lparr>host = (\<lambda>_ w. (0, w)), fatfs = (\<lambda>_ s. (Inr (), s)), fwup_unsafe = True, progress_mode = PROGRESS_MODE_OFF,
     current_time_ms = 0, blake2b_256 = (\<lambda>b. replicate 32 (of_nat (length b))), aes_lib = toy_aes, errno_erange = False,
     stack_bytes = (\<lambda>n. replicate n 0), read_fuel = 100\<rparr>"

end
