(* ===== verification/Requirement.thy ===== *)
theory Requirement
  imports Function_Table
begin

text \<open>
  The requirements of a task (\<open>requirement.c\<close>) and the choice of the task that is applied
  (\<open>find_task\<close> of \<open>fwup_apply.c\<close>). A requirement that is not met is the return value -1, with or
  without a message.
\<close>

section \<open>The requirements\<close>

definition require_partition_offset_validate :: "('w, 'd, unit) step" where
  "require_partition_offset_validate =
     and_then (require_argc (\<lambda>n. n = 3) ''require-partition-offset requires a partition number and a block offset'')
       (and_then (ok_then (arg 1) (\<lambda>a. let partition = strtol_int a in
            if partition < 0 \<or> partition \<ge> int MBR_MAX_PRIMARY_PARTITIONS
            then err_return ''require-partition-offset requires the partition number to be 0-3'' else ret ()))
         (check_uint 2 ''require-partition-offset requires a non-negative integer block offset''))"

text \<open>The index into \<open>table.partitions\<close> is checked when an archive is made only.\<close>

definition partition_at :: "mbr_table \<Rightarrow> int \<Rightarrow> mbr_partition res" where
  "partition_at table i = (if 0 \<le> i \<and> i < int (length (partitions table)) then Inr (partitions table ! nat i)
     else Inl (Undefined ''partitions''))"

definition require_partition_offset_requirement_met :: "('w, 'd, unit) step" where
  "require_partition_offset_requirement_met =
     ok_then (arg 1) (\<lambda>a. ok_then (arg 2) (\<lambda>b.
       ok_then (on_output (block_cache_pread 512 0)) (\<lambda>buffer.
       ok_then (from_res (mbr_decode buffer)) (\<lambda>table.
       ok_then (from_res (partition_at table (strtol_int a))) (\<lambda>p.
         if uint (block_offset p) \<noteq> sint (strtoull_value b) then from_res (Inl Quiet) else ret ())))))"

definition require_execute_validate :: "('w, 'd, unit) step" where
  "require_execute_validate = require_argc (\<lambda>n. n = 2) ''require-execute requires a command''"

text \<open>\<open>WIFEXITED\<close> and \<open>WEXITSTATUS\<close> of a wait status.\<close>

definition wifexited :: "int \<Rightarrow> bool" where
  "wifexited status = ((word_of_int status :: u32) AND 0x7f = 0)"

definition wexitstatus :: "int \<Rightarrow> u32" where
  "wexitstatus status = drop_bit 8 (word_of_int status) AND 0xff"

definition require_execute_requirement_met :: "'w fun_env \<Rightarrow> ('w, 'd, unit) step" where
  "require_execute_requirement_met env =
     (if \<not> fwup_unsafe env then from_res (Inl Quiet)
      else ok_then (arg 1) (\<lambda>command.
        if command = [] then from_res (Inl Quiet)
        else ok_then (call_host env (System command)) (\<lambda>r.
          if r = - 1 then from_res (Inl Quiet)
          else if wifexited r then (if wexitstatus r = 0 then ret () else from_res (Inl Quiet))
          else from_res (Inl Quiet))))"

definition require_fat_file_exists_validate :: "('w, 'd, unit) step" where
  "require_fat_file_exists_validate =
     and_then (require_argc (\<lambda>n. n = 3) ''require-fat-file-exists requires a FAT FS block offset and a filename'')
       (check_uint 1 ''require-fat-file-exists requires a non-negative integer block offset'')"

definition when_argc :: "nat \<Rightarrow> ('w, 'd, unit) step \<Rightarrow> ('w, 'd, unit) step" where
  "when_argc n m = (\<lambda>ctx. if argc ctx \<noteq> n then (Inl Quiet, ctx) else m ctx)"

definition require_fat_file_exists_requirement_met :: "'w fun_env \<Rightarrow> ('w, 'd, unit) step" where
  "require_fat_file_exists_requirement_met env =
     when_argc 3 (ok_then (arg 1) (\<lambda>a. ok_then (arg 2) (\<lambda>name. call_fat env (Fat_exists (strtoull_value a) name))))"

definition require_fat_file_match_validate :: "('w, 'd, unit) step" where
  "require_fat_file_match_validate =
     and_then (require_argc (\<lambda>n. n = 4) ''require-fat-file-match requires a FAT FS block offset, a filename, and a pattern'')
       (check_uint 1 ''require-fat-file-match requires a non-negative integer block offset'')"

definition require_fat_file_match_requirement_met :: "'w fun_env \<Rightarrow> ('w, 'd, unit) step" where
  "require_fat_file_match_requirement_met env =
     when_argc 4 (ok_then (arg 1) (\<lambda>a. ok_then (arg 2) (\<lambda>name. ok_then (arg 3) (\<lambda>pattern.
       call_fat env (Fat_file_matches (strtoull_value a) name pattern)))))"

definition require_uboot_variable_validate :: "('w, 'd, unit) step" where
  "require_uboot_variable_validate =
     and_then (require_argc (\<lambda>n. n = 4) ''require-uboot-variable requires a uboot-environment reference, variable name, and value'')
       (ok_then (require_section ''uboot-environment'' ''require-uboot-variable can't find uboot-environment reference'') (\<lambda>_. ret ()))"

definition require_uboot_variable_requirement_met :: "'w fun_env \<Rightarrow> ('w, 'd, unit) step" where
  "require_uboot_variable_requirement_met env =
     when_argc 4 (ok_then (the_section ''uboot-environment'') (\<lambda>ubootsec. ok_then (arg 2) (\<lambda>name. ok_then (arg 3) (\<lambda>value.
       ok_then (from_res (uboot_env_create_cfg (errno_erange env) ubootsec)) (\<lambda>uenv.
       ok_then (on_env uboot_env_read uenv) (\<lambda>uenv'.
       ok_then (from_res (uboot_env_getenv name uenv')) (\<lambda>current_value.
         if current_value \<noteq> value then from_res (Inl Quiet) else ret ())))))))"

definition require_path_on_device_validate :: "('w, 'd, unit) step" where
  "require_path_on_device_validate = require_argc (\<lambda>n. n = 3) ''require-path-on-device requires a path and a device''"

definition met_if_positive :: "int \<Rightarrow> ('s, unit) action" where
  "met_if_positive r = from_res (if r > 0 then Inr () else Inl Quiet)"

definition require_path_on_device_requirement_met :: "'w fun_env \<Rightarrow> ('w, 'd, unit) step" where
  "require_path_on_device_requirement_met env =
     when_argc 3 (ok_then (arg 1) (\<lambda>path. ok_then (arg 2) (\<lambda>device.
       ok_then (call_host env (Is_path_on_device path device)) met_if_positive)))"

definition require_path_at_offset_validate :: "('w, 'd, unit) step" where
  "require_path_at_offset_validate =
     and_then (require_argc (\<lambda>n. n = 3) ''require-path-at-offset requires a path and a block offset'')
       (check_uint 2 ''require-path-at-offset requires a non-negative integer block offset'')"

definition require_path_at_offset_requirement_met :: "'w fun_env \<Rightarrow> ('w, 'd, unit) step" where
  "require_path_at_offset_requirement_met env =
     when_argc 3 (ok_then (arg 1) (\<lambda>path. ok_then (arg 2) (\<lambda>a.
       ok_then (call_host env (Is_path_at_offset path (strtoull_value a))) met_if_positive)))"

section \<open>The table\<close>

record ('w, 'd) req_info =
  req_name :: string
  rq_validate :: "('w, 'd, unit) step"
  rq_requirement_met :: "('w, 'd, unit) step"

definition req_table :: "'w fun_env \<Rightarrow> ('w, 'd) req_info list" where
  "req_table env =
    [\<lparr>req_name = ''require-execute'', rq_validate = require_execute_validate,
      rq_requirement_met = require_execute_requirement_met env\<rparr>,
     \<lparr>req_name = ''require-fat-file-exists'', rq_validate = require_fat_file_exists_validate,
      rq_requirement_met = require_fat_file_exists_requirement_met env\<rparr>,
     \<lparr>req_name = ''require-fat-file-match'', rq_validate = require_fat_file_match_validate,
      rq_requirement_met = require_fat_file_match_requirement_met env\<rparr>,
     \<lparr>req_name = ''require-partition-offset'', rq_validate = require_partition_offset_validate,
      rq_requirement_met = require_partition_offset_requirement_met\<rparr>,
     \<lparr>req_name = ''require-path-on-device'', rq_validate = require_path_on_device_validate,
      rq_requirement_met = require_path_on_device_requirement_met env\<rparr>,
     \<lparr>req_name = ''require-path-at-offset'', rq_validate = require_path_at_offset_validate,
      rq_requirement_met = require_path_at_offset_requirement_met env\<rparr>,
     \<lparr>req_name = ''require-uboot-variable'', rq_validate = require_uboot_variable_validate,
      rq_requirement_met = require_uboot_variable_requirement_met env\<rparr>]"

definition req_lookup :: "'w fun_env \<Rightarrow> ('w, 'd, ('w, 'd) req_info) step" where
  "req_lookup env = (\<lambda>ctx.
     if argc ctx < 1 then (Inl (Msg ''Not enough parameters''), ctx)
     else case find (\<lambda>f. fc_argv ctx ! 0 = req_name f) (req_table env) of
            None \<Rightarrow> (Inl (Msg ''Unknown function''), ctx) | Some f \<Rightarrow> (Inr f, ctx))"

definition req_validate :: "'w fun_env \<Rightarrow> ('w, 'd, unit) step" where
  "req_validate env = ok_then (req_lookup env) rq_validate"

definition req_requirement_met :: "'w fun_env \<Rightarrow> ('w, 'd, unit) step" where
  "req_requirement_met env = ok_then (req_lookup env) rq_requirement_met"

text \<open>The loop is that of \<open>fun_apply_funlist\<close>, with its own messages.\<close>

function req_apply_reqlist :: "('w, 'd, unit) step \<Rightarrow> string list \<Rightarrow> ('w, 'd, unit) step" where
  "req_apply_reqlist f [] ctx = (Inr (), ctx)"
| "req_apply_reqlist f (aritystr # rest) ctx =
     (if arity aritystr \<le> 0 \<or> arity aritystr > int FUN_MAX_ARGS
      then (Inl (Msg ''Unexpected argc value in reqlist''), ctx)
      else (let n = nat (arity aritystr) in
        if length rest < n then (Inl (Msg ''Unexpected error with reqlist''), ctx\<lparr>fc_argv := rest\<rparr>)
        else (case f (ctx\<lparr>fc_argv := take n rest\<rparr>) of
                (Inl e, ctx') \<Rightarrow> (Inl e, ctx')
              | (Inr _, ctx') \<Rightarrow> req_apply_reqlist f (drop n rest) ctx')))"
  by pat_completeness auto
termination by (relation "measure (\<lambda>(_, l, _). length l)") auto

declare req_apply_reqlist.simps [simp del]

section \<open>The task to apply\<close>

text \<open>
  The result of a condition: an undefined execution is kept, every other failure is \<open>false\<close>.
\<close>

definition holds :: "('s, unit) action \<Rightarrow> ('s, bool) action" where
  "holds m = (\<lambda>s. case m s of
     (Inl (Undefined w), s') \<Rightarrow> (Inl (Undefined w), s')
   | (Inl _, s') \<Rightarrow> (Inr False, s')
   | (Inr _, s') \<Rightarrow> (Inr True, s'))"

definition deprecated_task_is_applicable :: "cfg \<Rightarrow> ('w, 'd, bool) step" where
  "deprecated_task_is_applicable task =
     (let part1_offset = to_int32 (cfg_getint task ''require-partition1-offset'') in
      if part1_offset \<ge> 0 then
        holds (ok_then (on_output (block_cache_pread 512 0)) (\<lambda>buffer.
               ok_then (from_res (mbr_decode buffer)) (\<lambda>table.
                 if block_offset (partitions table ! 1) \<noteq> word_of_int part1_offset then from_res (Inl Quiet) else ret ())))
      else ret True)"

definition task_is_applicable :: "'w fun_env \<Rightarrow> cfg \<Rightarrow> ('w, 'd, bool) step" where
  "task_is_applicable env task = holds (req_apply_reqlist (req_requirement_met env) (cfg_strs task ''reqlist''))"

fun find_task_loop :: "'w fun_env \<Rightarrow> string \<Rightarrow> cfg list \<Rightarrow> ('w, 'd, cfg option) step" where
  "find_task_loop env task_prefix [] ctx = (Inr None, ctx)"
| "find_task_loop env task_prefix (task # tasks) ctx =
     ok_then (if has_prefix task_prefix (cfg_title task)
              then ok_then (deprecated_task_is_applicable task) (\<lambda>b. if b then task_is_applicable env task else ret False)
              else ret False)
       (\<lambda>b. if b then ret (Some task) else find_task_loop env task_prefix tasks) ctx"

definition find_task :: "'w fun_env \<Rightarrow> string \<Rightarrow> ('w, 'd, cfg option) step" where
  "find_task env task_prefix = (\<lambda>ctx. find_task_loop env task_prefix (cfg_secs (fc_cfg ctx) ''task'') ctx)"

section \<open>Choosing a task does not change the output\<close>

definition keeps :: "(block_cache \<Rightarrow> bool) \<Rightarrow> ('w, 'd, 'a) step \<Rightarrow> bool" where
  "keeps I m = (\<forall>ctx. I (fc_output ctx) \<longrightarrow> I (fc_output (snd (m ctx))))"

named_theorems keeps_intros \<open>steps that keep a property of the output\<close>

lemma keepsI: "(\<And>ctx. I (fc_output ctx) \<Longrightarrow> I (fc_output (snd (m ctx)))) \<Longrightarrow> keeps I m"
  by (simp add: keeps_def)

lemma keepsD: "keeps I m \<Longrightarrow> I (fc_output ctx) \<Longrightarrow> m ctx = (r, ctx') \<Longrightarrow> I (fc_output ctx')"
  unfolding keeps_def by (metis snd_conv)

lemma keeps_ok_then [keeps_intros]:
  fixes m :: "('w, 'd, 'a) step"
  assumes "keeps I m" and "\<And>x. keeps I (f x)"
  shows "keeps I (ok_then m f)"
proof (rule keepsI)
  fix ctx :: "('w, 'd) fun_context" assume I: "I (fc_output ctx)"
  obtain r ctx1 where m: "m ctx = (r, ctx1)" by fastforce
  have I1: "I (fc_output ctx1)" by (rule keepsD [OF assms(1) I m])
  show "I (fc_output (snd (ok_then m f ctx)))"
    using m I1 assms(2) by (cases r) (auto simp: ok_then_def keeps_def)
qed

lemma keeps_same [keeps_intros]:
  "keeps I (ret x)" "keeps I (from_res r)" "keeps I (err_return m)" "keeps I (arg i)"
  "keeps I (require_argc P m)" "keeps I (require_section k m)" "keeps I (the_section k)" "keeps I (call_host env c)"
  by (auto simp: keeps_def ret_def from_res_def err_return_def arg_def require_argc_def require_section_def
      the_section_def call_host_def ok_then_def split: prod.splits option.splits sum.splits)

lemma keeps_if [keeps_intros]: "(b \<Longrightarrow> keeps I m) \<Longrightarrow> (\<not> b \<Longrightarrow> keeps I m') \<Longrightarrow> keeps I (if b then m else m')"
  by simp

lemma keeps_when_argc [keeps_intros]: "keeps I m \<Longrightarrow> keeps I (when_argc n m)"
  by (simp add: keeps_def when_argc_def)

lemma keeps_holds [keeps_intros]:
  fixes m :: "('w, 'd, unit) step"
  assumes "keeps I m" shows "keeps I (holds m)"
proof (rule keepsI)
  fix ctx :: "('w, 'd) fun_context" assume I: "I (fc_output ctx)"
  obtain r ctx1 where m: "m ctx = (r, ctx1)" by fastforce
  show "I (fc_output (snd (holds m ctx)))"
    using keepsD [OF assms I m] m by (auto simp: holds_def split: sum.splits error.splits)
qed

lemma keeps_met_if_positive [keeps_intros]: "keeps I (met_if_positive r)"
  unfolding met_if_positive_def by (rule keeps_intros)

lemma keeps_on_output:
  "(\<And>bc. I bc \<Longrightarrow> I (snd (m bc))) \<Longrightarrow> keeps I (on_output m)"
  by (auto simp: keeps_def on_output_def split: prod.splits) (metis snd_conv)

text \<open>The output holds the contents of \<open>bc0\<close>, and no operation on it fails.\<close>

definition unchanged :: "block_cache \<Rightarrow> block_cache \<Rightarrow> bool" where
  "unchanged bc0 bc \<longleftrightarrow> healthy bc \<and> cache_ok bc \<and> same_view bc0 bc"

lemma healthy_range: "healthy bc \<Longrightarrow> range_ok bc off n"
  by (auto simp: healthy_def range_ok_def in_range_def hard_end_def)

lemma pread_unchanged:
  assumes "unchanged bc0 bc"
  shows "unchanged bc0 (snd (block_cache_pread n off bc))"
    and "\<exists>out bc'. block_cache_pread n off bc = (Inr out, bc') \<and> unchanged bc0 bc' \<and> out = map (view bc0) [off..<off + n]"
proof -
  have h: "healthy bc" "cache_ok bc" "same_view bc0 bc" using assms by (auto simp: unchanged_def)
  obtain out bc' where r: "block_cache_pread n off bc = (Inr out, bc')" "healthy bc'"
    using block_cache_pread_succeeds h(1) by (rule succeedsD)
  have ok: "cache_ok bc' \<and> same_view bc bc' \<and> out = map (view bc) [off..<off + n]"
    by (rule block_cache_pread_ok [OF r(1) h(2) healthy_range [OF h(1)]])
  have r0: "range_ok bc0 off n"
    using healthy_range [OF h(1)] h(3) by (simp add: range_ok_def same_view_def)
  have "unchanged bc0 bc'" using r(2) ok same_view_trans [OF h(3)] by (auto simp: unchanged_def)
  then show "unchanged bc0 (snd (block_cache_pread n off bc))"
    and "\<exists>out bc'. block_cache_pread n off bc = (Inr out, bc') \<and> unchanged bc0 bc' \<and> out = map (view bc0) [off..<off + n]"
    using r(1) ok same_view_map [OF h(3) r0] by auto
qed

lemma env_pread_unchanged: "unchanged bc0 bc \<Longrightarrow> unchanged bc0 (snd (env_pread m env b bc))"
  using pread_unchanged(1) [of bc0 bc] by (auto simp: env_pread_def split: sum.splits prod.splits) (metis snd_conv)

lemma env_read_unchanged:
  assumes "unchanged bc0 bc"
  shows "unchanged bc0 (fst (snd (uboot_env_read (bc, env))))"
proof (cases "use_redundant env")
  case False
  let ?env = "env\<lparr>write_primary := True, write_secondary := False, env_flags := 0\<rparr>"
  obtain r bc1 where p: "env_pread ''unexpected error reading uboot environment'' ?env (env_block_offset ?env) bc = (r, bc1)"
    by fastforce
  have "unchanged bc0 bc1" using env_pread_unchanged [OF assms] p by (metis snd_conv)
  then show ?thesis
    using False p by (auto simp: uboot_env_read_def uboot_env_read_non_redundant_def Let_def split: sum.splits prod.splits)
next
  case True
  let ?env = "env\<lparr>write_primary := False, write_secondary := False, env_flags := 0\<rparr>"
  obtain r bc1 where p: "env_pread ''unexpected error reading primary uboot environment'' ?env (env_block_offset ?env) bc = (r, bc1)"
    by fastforce
  have u1: "unchanged bc0 bc1" using env_pread_unchanged [OF assms] p by (metis snd_conv)
  obtain r2 bc2 where p2: "env_pread ''unexpected error reading redundant uboot environment'' ?env (redundant_block_offset ?env) bc1 = (r2, bc2)"
    by fastforce
  have "unchanged bc0 bc2" using env_pread_unchanged [OF u1] p2 by (metis snd_conv)
  then show ?thesis
    using True p p2 u1 by (auto simp: uboot_env_read_def uboot_env_read_redundant_def Let_def split: sum.splits prod.splits)
qed

lemma keeps_pread [keeps_intros]: "keeps (unchanged bc0) (on_output (block_cache_pread n off))"
  by (rule keeps_on_output) (rule pread_unchanged(1))

lemma keeps_env_read [keeps_intros]: "keeps (unchanged bc0) (on_env uboot_env_read uenv)"
  using env_read_unchanged [of bc0] by (auto simp: keeps_def on_env_def split: prod.splits) (metis fst_conv snd_conv)

text \<open>What is relied on of \<open>fatfs.c\<close>: its two queries read only.\<close>

definition fat_query :: "fat_call \<Rightarrow> bool" where
  "fat_query c = (case c of Fat_exists _ _ \<Rightarrow> True | Fat_file_matches _ _ _ \<Rightarrow> True | _ \<Rightarrow> False)"

definition fat_queries_read_only :: "'w fun_env \<Rightarrow> bool" where
  "fat_queries_read_only env \<longleftrightarrow> (\<forall>c bc0 bc w. fat_query c \<longrightarrow> unchanged bc0 bc \<longrightarrow> unchanged bc0 (fst (snd (fatfs env c (bc, w)))))"

lemma keeps_fat_query:
  assumes "fat_queries_read_only env" and "fat_query c"
  shows "keeps (unchanged bc0) (call_fat env c)"
  using assms unfolding keeps_def call_fat_def fat_queries_read_only_def
  by (auto split: prod.splits) (metis fst_conv snd_conv)

lemma requirement_keeps:
  assumes "fat_queries_read_only env" and "f \<in> set (req_table env)"
  shows "keeps (unchanged bc0) (rq_requirement_met f)"
  using assms(2)
  by (auto simp: req_table_def require_execute_requirement_met_def require_fat_file_exists_requirement_met_def
      require_fat_file_match_requirement_met_def require_partition_offset_requirement_met_def
      require_path_on_device_requirement_met_def require_path_at_offset_requirement_met_def
      require_uboot_variable_requirement_met_def fat_query_def
      intro!: keeps_intros keeps_fat_query [OF assms(1)])

lemma req_requirement_met_keeps:
  assumes "fat_queries_read_only env"
  shows "keeps (unchanged bc0) (req_requirement_met env)"
  unfolding req_requirement_met_def
proof (rule keepsI)
  fix ctx :: "('a, 'b) fun_context" assume u: "unchanged bc0 (fc_output ctx)"
  obtain r ctx1 where l: "req_lookup env ctx = (r, ctx1)" by fastforce
  have c: "ctx1 = ctx" using l by (auto simp: req_lookup_def split: if_splits option.splits)
  show "unchanged bc0 (fc_output (snd (ok_then (req_lookup env) rq_requirement_met ctx)))"
  proof (cases r)
    case (Inl e)
    then show ?thesis using l c u by (simp add: ok_then_def)
  next
    case (Inr f)
    have "f \<in> set (req_table env)"
      using l Inr by (auto simp: req_lookup_def find_Some_iff in_set_conv_nth split: if_splits option.splits)
    then have "keeps (unchanged bc0) (rq_requirement_met f)" by (rule requirement_keeps [OF assms])
    then show ?thesis using l c u Inr by (simp add: ok_then_def keeps_def)
  qed
qed

lemma reqlist_keeps:
  assumes k: "keeps (unchanged bc0) f"
  shows "keeps (unchanged bc0) (req_apply_reqlist f l)"
proof -
  have "unchanged bc0 (fc_output ctx) \<Longrightarrow> unchanged bc0 (fc_output (snd (req_apply_reqlist f l ctx)))" for ctx
    using k
  proof (induction f l ctx rule: req_apply_reqlist.induct)
    case (2 f aritystr rest ctx)
    let ?n = "nat (arity aritystr)"
    show ?case
    proof (cases "arity aritystr \<le> 0 \<or> arity aritystr > int FUN_MAX_ARGS \<or> length rest < ?n")
      case True
      then show ?thesis using "2.prems"(1) by (auto simp: req_apply_reqlist.simps(2) Let_def)
    next
      case False
      obtain r ctx1 where r: "f (ctx\<lparr>fc_argv := take ?n rest\<rparr>) = (r, ctx1)" by fastforce
      have u: "unchanged bc0 (fc_output ctx1)" by (rule keepsD [OF "2.prems"(2) _ r]) (use "2.prems"(1) in simp)
      then show ?thesis
        using False r "2.IH" [OF _ refl _ r [symmetric] _ u "2.prems"(2)]
        by (cases r) (auto simp: req_apply_reqlist.simps(2) Let_def)
    qed
  qed (simp add: req_apply_reqlist.simps)
  then show ?thesis by (rule keepsI)
qed

lemma deprecated_keeps: "keeps (unchanged bc0) (deprecated_task_is_applicable task)"
  unfolding deprecated_task_is_applicable_def Let_def by (intro keeps_intros)

lemma applicable_keeps: "fat_queries_read_only env \<Longrightarrow> keeps (unchanged bc0) (task_is_applicable env task)"
  unfolding task_is_applicable_def by (intro keeps_holds reqlist_keeps req_requirement_met_keeps)

lemma find_task_loop_keeps:
  "fat_queries_read_only env \<Longrightarrow> keeps (unchanged bc0) (find_task_loop env p tasks :: ('w, 'd, cfg option) step)"
proof (induction tasks)
  case (Cons task tasks)
  have "keeps (unchanged bc0)
    (ok_then (if has_prefix p (cfg_title task)
              then ok_then (deprecated_task_is_applicable task) (\<lambda>b. if b then task_is_applicable env task else ret False)
              else ret False)
       (\<lambda>b. if b then ret (Some task) else find_task_loop env p tasks) :: ('w, 'd, cfg option) step)"
    by (intro keeps_intros deprecated_keeps applicable_keeps Cons.prems Cons.IH)
  then show ?case by (simp add: keeps_def)
qed (simp add: keeps_def)


definition no_cfg :: "string \<Rightarrow> cfg" where
  "no_cfg title = Cfg title (\<lambda>_. - 1) (\<lambda>_. []) (\<lambda>_. None) (\<lambda>_. []) (\<lambda>_. False) (\<lambda>_. [])"

definition require_task :: cfg where
  "require_task = Cfg ''upgrade.a'' (\<lambda>_. - 1) (\<lambda>_. []) (\<lambda>_. None)
     (\<lambda>k. if k = ''reqlist'' then [''3'', ''require-partition-offset'', ''1'', ''77''] else []) (\<lambda>_. False) (\<lambda>_. [])"

definition two_tasks :: cfg where
  "two_tasks = Cfg [] (\<lambda>_. - 1) (\<lambda>_. []) (\<lambda>_. None) (\<lambda>_. []) (\<lambda>_. False)
     (\<lambda>k. if k = ''task'' then [require_task, no_cfg ''upgrade.b''] else [])"

definition sample_ctx :: "cfg \<Rightarrow> (unit, unit) fun_context" where
  "sample_ctx c = \<lparr>fc_type = FUN_CONTEXT_INIT, fc_argv = [], fc_cfg = c, fc_task = no_cfg [], fc_on_event = None,
     fc_progress = progress_init PROGRESS_MODE_OFF 0 100, fc_output = file_cache (\<lambda>_. 0) 4096, fc_reboot_param_path = None,
     fc_world = (), fc_cookie = ()\<rparr>"

lemma quiet_env_read_only: "fat_queries_read_only quiet_env"
  by (simp add: fat_queries_read_only_def quiet_env_def)


text \<open>
  \<open>require-partition-offset\<close> is met exactly when the output has a boot record with a valid
  signature whose partition starts at the given block: the test reads what the cache represents,
  writes that wait in the cache included.
\<close>

theorem partition_requirement_iff:
  assumes "healthy (fc_output ctx)" and "cache_ok (fc_output ctx)"
    and "fc_argv ctx = [name, show_nat i, show_nat n]" and "i < 4" and "n < 2 ^ 32"
  shows "fst (require_partition_offset_requirement_met ctx) = Inr () \<longleftrightarrow>
    view (fc_output ctx) 510 = 0x55 \<and> view (fc_output ctx) 511 = 0xaa \<and>
    load_le32 (map (view (fc_output ctx)) [446 + 16 * i + 8..<446 + 16 * i + 12]) = of_nat n"
proof -
  let ?bc = "fc_output ctx" and ?buf = "map (view (fc_output ctx)) [0..<0 + 512]"
  have u: "unchanged ?bc ?bc" using assms(1,2) by (simp add: unchanged_def same_view_def)
  obtain bc' where r: "block_cache_pread 512 0 ?bc = (Inr ?buf, bc')" using pread_unchanged(2) [OF u] by blast
  have sl: "strtol_int (show_nat i) = int i"
    using strtoll_show_nat [of "[]" i] assms(4) to_int32_small [of "int i" i]
    by (simp add: strtol_int_def ends_number_def unsigned_of_nat take_bit_eq_mod)
  have su: "sint (strtoull_value (show_nat n)) = int n"
    using strtoull_show_nat [of "[]" n] assms(5)
    by (simp add: strtoull_value_def ends_number_def signed_of_nat signed_take_bit_int_eq_self)
  have b: "?buf ! 510 = view ?bc 510" "?buf ! 511 = view ?bc 511" "length ?buf = 512" by simp_all
  let ?p = "load_le32 (map (view ?bc) [446 + 16 * i + 8..<446 + 16 * i + 12])"
  have "read_at 8 4 (read_at (446 + i * 16) 16 ?buf) = map (view ?bc) [446 + 16 * i + 8..<446 + 16 * i + 12]"
    using assms(4) by (intro nth_equalityI) (simp_all add: buf_simps ac_simps)
  then have p: "partition_at \<lparr>partitions = map (\<lambda>i. read_partition (read_at (446 + i * 16) 16 ?buf)) [0..<4] @ replicate 8 zero_partition,
      num_extended_partitions = 0\<rparr> (int i) = Inr (read_partition (read_at (446 + i * 16) 16 ?buf))"
      "block_offset (read_partition (read_at (446 + i * 16) 16 ?buf)) = ?p"
    using assms(4) by (simp_all add: partition_at_def nth_append read_partition_def)
  have w: "uint ?p = int n \<longleftrightarrow> ?p = of_nat n"
  proof
    assume "uint ?p = int n"
    then have "(word_of_int (uint ?p) :: u32) = of_nat n" by simp
    then show "?p = of_nat n" by simp
  qed (use assms(5) in \<open>simp add: unsigned_of_nat take_bit_eq_mod\<close>)
  show ?thesis
    using assms(3) sl su p w
    by (auto simp: require_partition_offset_requirement_met_def ok_then_def arg_def argc_def on_output_def r from_res_def
        mbr_decode_def b(1,2) MBR_MAX_PRIMARY_PARTITIONS_def MBR_MAX_EXTENDED_PARTITIONS_def ret_def)
qed

definition boot_bytes :: "nat \<Rightarrow> byte" where
  "boot_bytes a = (if a = 510 then 0x55 else if a = 511 then 0xaa else if a = 470 then 77 else 0)"

theorem partition_requirement_iff_witness:
  "fst (require_partition_offset_requirement_met ((sample_ctx two_tasks)\<lparr>fc_output := file_cache boot_bytes 4096,
     fc_argv := [''require-partition-offset'', show_nat 1, show_nat 77]\<rparr>)) = Inr ()"
proof -
  let ?ctx = "(sample_ctx two_tasks)\<lparr>fc_output := file_cache boot_bytes 4096,
     fc_argv := [''require-partition-offset'', show_nat 1, show_nat 77]\<rparr>"
  have v: "view (file_cache boot_bytes 4096) a = boot_bytes a" if "a < 4096" for a
    using file_cache_ok(3) [of a boot_bytes 4096] that by simp
  have "map (view (file_cache boot_bytes 4096)) [446 + 16 * 1 + 8..<446 + 16 * 1 + 12] = [77, 0, 0, 0]"
    by (simp add: upt_rec_numeral v boot_bytes_def)
  then show ?thesis
    using partition_requirement_iff [of ?ctx "''require-partition-offset''" 1 77]
    by (simp add: file_cache_healthy file_cache_ok(1) v boot_bytes_def load_le32_def)
qed

end
