(* ===== verification/Fw_Meta.thy ===== *)
theory Fw_Meta
  imports Archive
begin

text \<open>
  The signed metadata of an archive (\<open>cfgfile_parse_fw_ae\<close>, \<open>cfgfile_parse_fw_meta_conf\<close> of
  \<open>cfgfile.c\<close>). The Ed25519 check, the hash and the parser of libconfuse are parameters. The parser gets
  the values that are set before it runs and the text, and returns the configuration together
  with the two environment variables that the caller compares afterwards; \<open>None\<close> is a parse error.
\<close>

record meta_values =
  mv_creation_date :: string
  mv_uuid :: string
  mv_nickname :: string

record meta_env =
  ed25519_check :: "byte list \<Rightarrow> byte list \<Rightarrow> byte list \<Rightarrow> bool"
  blake2b_uuid :: "byte list \<Rightarrow> byte list"
  time_string :: "int \<Rightarrow> string"
  cfg_parse_buf :: "meta_values \<Rightarrow> string \<Rightarrow> (cfg \<times> string option \<times> string option) option"

definition FWUP_SIGNATURE_LEN :: int where "FWUP_SIGNATURE_LEN = 64"

definition MAX_META_CONF_SIZE :: int where "MAX_META_CONF_SIZE = 50000"

fun try_keys :: "meta_env \<Rightarrow> byte list \<Rightarrow> byte list list \<Rightarrow> byte list \<Rightarrow> bool" where
  "try_keys env signature [] meta_conf = False"
| "try_keys env signature (key # keys) meta_conf =
     (if ed25519_check env signature key meta_conf then True else try_keys env signature keys meta_conf)"

definition check_signature :: "meta_env \<Rightarrow> byte list option \<Rightarrow> byte list list \<Rightarrow> byte list \<Rightarrow> unit res" where
  "check_signature env meta_conf_signature public_keys meta_conf =
     (if public_keys \<noteq> [] then
        (case meta_conf_signature of
           None \<Rightarrow> Inl (Msg ''Expecting signed firmware archive.'')
         | Some signature \<Rightarrow>
             if try_keys env signature public_keys meta_conf then Inr ()
             else Inl (Msg ''Firmware archive's meta.conf fails digital signature verification.''))
      else Inr ())"

text \<open>The text is a C string: the parser sees it up to its first NUL.\<close>

definition parse_meta :: "meta_env \<Rightarrow> archive_entry \<Rightarrow> byte list \<Rightarrow> cfg res" where
  "parse_meta env ae meta_conf =
     (let creation_time = (case ae_mtime ae of None \<Rightarrow> 0 | Some t \<Rightarrow> t);
          (uuid, nickname) = calculate_fwup_uuid (blake2b_uuid env) meta_conf in
      case cfg_parse_buf env \<lparr>mv_creation_date = time_string env creation_time, mv_uuid = uuid, mv_nickname = nickname\<rparr>
             (bytes_string (takeWhile (\<lambda>b. b \<noteq> 0) meta_conf)) of
        None \<Rightarrow> Inl (Msg ''Unexpected error parsing meta.conf'')
      | Some (c, env_uuid, env_nickname) \<Rightarrow>
          if cfg_getstr c ''meta-uuid'' \<noteq> Some uuid \<or> env_uuid \<noteq> Some uuid \<or>
             cfg_getstr c ''meta-nickname'' \<noteq> Some nickname \<or> env_nickname \<noteq> Some nickname
          then Inl (Msg ''meta.conf isn't allowed to change 'meta-uuid', 'meta-nickname' ...'')
          else Inr c)"

definition cfgfile_parse_fw_ae :: "meta_env \<Rightarrow> archive_entry \<Rightarrow> byte list option \<Rightarrow> byte list list \<Rightarrow> (archive, cfg) action" where
  "cfgfile_parse_fw_ae env ae meta_conf_signature public_keys =
     ok_then (\<lambda>a. case archive_read_all_data ae MAX_META_CONF_SIZE a of (r, a') \<Rightarrow> (with_msg ''Error reading meta.conf from archive.'' r, a'))
       (\<lambda>meta_conf a.
          if int (length meta_conf) < 10 \<or> int (length meta_conf) \<ge> MAX_META_CONF_SIZE
          then (Inl (Msg ''Unexpected meta.conf size''), a)
          else (bind_res (check_signature env meta_conf_signature public_keys meta_conf) (\<lambda>_. parse_meta env ae meta_conf), a))"

text \<open>
  The start of an archive: the signature, if there is one, and then \<open>meta.conf\<close>. The program has this
  code three times, in \<open>cfgfile_parse_fw_meta_conf\<close>, \<open>fwup_verify\<close> and \<open>fwup_apply\<close>; the messages
  differ.
\<close>

definition next_header :: "string \<Rightarrow> (archive, archive_entry) action" where
  "next_header m = (\<lambda>a. case archive_read_next_header a of
     (None, a') \<Rightarrow> (Inl (Msg m), a') | (Some ae, a') \<Rightarrow> (Inr ae, a'))"

definition read_signature :: "archive_entry \<Rightarrow> (archive, byte list) action" where
  "read_signature ae =
     ok_then (\<lambda>a. case archive_read_all_data ae FWUP_SIGNATURE_LEN a of (r, a') \<Rightarrow> (with_msg ''Error reading meta.conf.ed25519 from archive.'' r, a'))
       (\<lambda>s a. (if int (length s) \<noteq> FWUP_SIGNATURE_LEN then Inl (Msg ''Unexpected meta.conf.ed25519 size'') else Inr s, a))"

definition read_meta :: "meta_env \<Rightarrow> byte list list \<Rightarrow> (archive, cfg) action" where
  "read_meta env public_keys =
     ok_then (next_header ''Corrupt archive'') (\<lambda>ae.
       ok_then (if ae_pathname ae = ''meta.conf.ed25519''
                then ok_then (read_signature ae) (\<lambda>s.
                       ok_then (next_header ''Expecting more than meta.conf.ed25519 in archive'') (\<lambda>ae' a. (Inr (Some s, ae'), a)))
                else (\<lambda>a. (Inr (None, ae), a)))
         (\<lambda>(signature, ae) a.
            if ae_pathname ae \<noteq> ''meta.conf'' then (Inl (Msg ''Expecting meta.conf to be at beginning''), a)
            else cfgfile_parse_fw_ae env ae signature public_keys a))"

definition cfgfile_parse_fw_meta_conf :: "meta_env \<Rightarrow> byte list list \<Rightarrow> archive res \<Rightarrow> cfg res" where
  "cfgfile_parse_fw_meta_conf env public_keys opened = bind_res opened (\<lambda>a. fst (read_meta env public_keys a))"

section \<open>Authenticity\<close>

lemma try_keys_iff: "try_keys env s keys m \<longleftrightarrow> (\<exists>key \<in> set keys. ed25519_check env s key m)"
  by (induction keys) auto

lemma try_keys_False: "\<not> try_keys env s [] m"
  by simp

text \<open>\<open>read_all_loop\<close> delivers a prefix of the data of the entry, and never more than was asked for.\<close>

fun entry_data :: "byte list res list \<Rightarrow> byte list" where
  "entry_data [] = []"
| "entry_data (Inl e # rs) = []"
| "entry_data (Inr b # rs) = (if b = [] then [] else b @ entry_data rs)"

lemma read_all_loop_Inr:
  "read_all_loop n buf rs = (Inr out, rs') \<Longrightarrow> \<exists>k. out = buf @ take k (entry_data rs) \<and> (0 \<le> n \<longrightarrow> int (length out) \<le> int (length buf) + n)"
proof (induction n buf rs rule: read_all_loop.induct)
  case (2 n buf r rs)
  show ?case
  proof (cases "n \<le> 0 \<or> (\<exists>e. r = Inl e) \<or> r = Inr []")
    case True
    then have "out = buf" using "2.prems" by (auto split: if_splits)
    then show ?thesis by (intro exI [of _ 0]) simp
  next
    case False
    then obtain b where b: "r = Inr b" "b \<noteq> []" by (cases r) auto
    have s: "int (length b) \<le> n" and l: "read_all_loop (n - int (length b)) (buf @ b) rs = (Inr out, rs')"
      using "2.prems" b False by (auto split: if_splits)
    obtain k where "out = (buf @ b) @ take k (entry_data rs)" "0 \<le> n - int (length b) \<longrightarrow> int (length out) \<le> int (length (buf @ b)) + (n - int (length b))"
      using "2.IH" [of b] False b s l by auto
    then show ?thesis using b s by (intro exI [of _ "length b + k"]) simp
  qed
qed (auto intro: exI [of _ 0])

lemma read_all_data_Inr:
  assumes "archive_read_all_data ae n a = (Inr out, a')" and "0 \<le> n"
  shows "\<exists>k. out = take k (entry_data (ar_reads a)) \<and> int (length out) \<le> n"
proof -
  let ?n = "if archive_entry_size_is_set ae \<and> archive_entry_size ae < n then archive_entry_size ae else n"
  have c: "\<not> (archive_entry_size_is_set ae \<and> archive_entry_size ae < 0)"
    using assms(1) by (auto simp: archive_read_all_data_def)
  then obtain rs where "read_all_loop ?n [] (ar_reads a) = (Inr out, rs)"
    using assms(1) by (auto simp: archive_read_all_data_def Let_def split: prod.splits)
  from read_all_loop_Inr [OF this] obtain k where
    k: "out = take k (entry_data (ar_reads a))" "0 \<le> ?n \<longrightarrow> int (length out) \<le> ?n" by auto
  then have "int (length out) \<le> n" using c assms(2) by (auto split: if_splits)
  then show ?thesis using k(1) by blast
qed

text \<open>What an accepted start of an archive says about it.\<close>

definition signed_by :: "meta_env \<Rightarrow> byte list list \<Rightarrow> byte list \<Rightarrow> byte list \<Rightarrow> bool" where
  "signed_by env keys s m \<longleftrightarrow> (\<exists>key \<in> set keys. ed25519_check env s key m)"

text \<open>What was read as the text: a prefix of the data of an entry, of an acceptable size.\<close>

definition meta_text :: "byte list \<Rightarrow> byte list \<Rightarrow> bool" where
  "meta_text m available \<longleftrightarrow> (\<exists>k. m = take k available) \<and> 10 \<le> length m \<and> length m < 50000"

lemma parse_fw_ae_Inr:
  assumes "cfgfile_parse_fw_ae env ae signature keys a = (Inr c, a')"
  shows "\<exists>m. meta_text m (entry_data (ar_reads a)) \<and> parse_meta env ae m = Inr c \<and> (keys \<noteq> [] \<longrightarrow> (\<exists>s. signature = Some s \<and> signed_by env keys s m)) \<and>
    ar_entries a' = ar_entries a"
proof -
  obtain m a1 where r: "archive_read_all_data ae MAX_META_CONF_SIZE a = (Inr m, a1)"
    and l: "\<not> (int (length m) < 10 \<or> int (length m) \<ge> MAX_META_CONF_SIZE)"
    and p: "bind_res (check_signature env signature keys m) (\<lambda>_. parse_meta env ae m) = Inr c" "a1 = a'"
    using assms by (auto simp: cfgfile_parse_fw_ae_def ok_then_def split: prod.splits sum.splits if_splits)
  from p(1) have q: "check_signature env signature keys m = Inr ()" "parse_meta env ae m = Inr c"
    by (auto simp: bind_res_eq_Inr)
  have e: "ar_entries a' = ar_entries a"
    using r p(2) by (auto simp: archive_read_all_data_def Let_def split: prod.splits if_splits)
  obtain k where "m = take k (entry_data (ar_reads a))"
    using read_all_data_Inr [OF r] by (auto simp: MAX_META_CONF_SIZE_def)
  moreover have "keys \<noteq> [] \<longrightarrow> (\<exists>s. signature = Some s \<and> signed_by env keys s m)"
    using q(1) by (auto simp: check_signature_def try_keys_iff signed_by_def split: option.splits if_splits)
  moreover have "10 \<le> length m" "length m < 50000" using l by (simp_all add: MAX_META_CONF_SIZE_def)
  ultimately show ?thesis using q(2) e unfolding meta_text_def by blast
qed

lemma read_signature_Inr:
  assumes "read_signature ae a = (Inr s, a')"
  shows "length s = 64 \<and> ar_entries a' = ar_entries a"
  using assms by (auto simp: read_signature_def ok_then_def FWUP_SIGNATURE_LEN_def archive_read_all_data_def Let_def
      split: prod.splits sum.splits if_splits)

text \<open>
  The entries at the start of the archive, the signature if there is one, and the text that was
  read as \<open>meta.conf\<close>: a prefix of the data of that entry.
\<close>

definition meta_of :: "archive \<Rightarrow> byte list option \<Rightarrow> archive_entry \<Rightarrow> byte list \<Rightarrow> archive_entry list \<Rightarrow> bool" where
  "meta_of a signature ae m rest \<longleftrightarrow>
     (case signature of
        None \<Rightarrow> ar_entries a = ae # rest
      | Some s \<Rightarrow> (\<exists>sig_ae. ar_entries a = sig_ae # ae # rest \<and> ae_pathname sig_ae = ''meta.conf.ed25519'' \<and> length s = 64)) \<and>
     ae_pathname ae = ''meta.conf'' \<and> meta_text m (entry_data (ae_reads ae))"

lemma next_header_Inr:
  "next_header msg a = (Inr ae, a') \<longleftrightarrow>
   (\<exists>es. ar_entries a = ae # es \<and> a' = \<lparr>ar_entries = es, ar_blocks = ae_blocks ae, ar_reads = ae_reads ae\<rparr>)"
  by (auto simp: next_header_def archive_read_next_header_def split: list.splits)

lemma read_meta_Inr:
  assumes "read_meta env keys a = (Inr c, a')"
  shows "\<exists>signature ae m. meta_of a signature ae m (ar_entries a') \<and> parse_meta env ae m = Inr c \<and>
    (keys \<noteq> [] \<longrightarrow> (\<exists>s. signature = Some s \<and> signed_by env keys s m))"
proof -
  obtain ae a1 where h: "next_header ''Corrupt archive'' a = (Inr ae, a1)"
    and r: "ok_then (if ae_pathname ae = ''meta.conf.ed25519''
                then ok_then (read_signature ae) (\<lambda>s.
                       ok_then (next_header ''Expecting more than meta.conf.ed25519 in archive'') (\<lambda>ae' a. (Inr (Some s, ae'), a)))
                else (\<lambda>a. (Inr (None, ae), a)))
         (\<lambda>(signature, ae) a.
            if ae_pathname ae \<noteq> ''meta.conf'' then (Inl (Msg ''Expecting meta.conf to be at beginning''), a)
            else cfgfile_parse_fw_ae env ae signature keys a) a1 = (Inr c, a')"
    using assms [unfolded read_meta_def] by (rule ok_then_Inr_E)
  obtain es where es: "ar_entries a = ae # es" "a1 = \<lparr>ar_entries = es, ar_blocks = ae_blocks ae, ar_reads = ae_reads ae\<rparr>"
    using h by (auto simp: next_header_Inr)
  show ?thesis
  proof (cases "ae_pathname ae = ''meta.conf.ed25519''")
    case True
    then obtain s a2 ae' a3 where s: "read_signature ae a1 = (Inr s, a2)"
      and h': "next_header ''Expecting more than meta.conf.ed25519 in archive'' a2 = (Inr ae', a3)"
      and p: "ae_pathname ae' = ''meta.conf''" "cfgfile_parse_fw_ae env ae' (Some s) keys a3 = (Inr c, a')"
      using r by (auto elim!: ok_then_Inr_E split: if_splits)
    note s' = read_signature_Inr [OF s]
    obtain es' where es': "es = ae' # es'" "a3 = \<lparr>ar_entries = es', ar_blocks = ae_blocks ae', ar_reads = ae_reads ae'\<rparr>"
      using h' s' es(2) by (auto simp: next_header_Inr)
    from parse_fw_ae_Inr [OF p(2)] obtain m where
      "meta_text m (entry_data (ae_reads ae'))" "parse_meta env ae' m = Inr c"
      "keys \<noteq> [] \<longrightarrow> signed_by env keys s m" "ar_entries a' = es'"
      by (auto simp: es'(2))
    then show ?thesis using es(1) es'(1) s' p(1) True
      by (intro exI [of _ "Some s"] exI [of _ ae'] exI [of _ m]) (auto simp: meta_of_def)
  next
    case False
    then have p: "ae_pathname ae = ''meta.conf''" "cfgfile_parse_fw_ae env ae None keys a1 = (Inr c, a')"
      using r by (auto simp: ok_then_def split: if_splits)
    from parse_fw_ae_Inr [OF p(2)] obtain m where
      "meta_text m (entry_data (ae_reads ae))" "parse_meta env ae m = Inr c"
      "keys = []" "ar_entries a' = es"
      by (auto simp: es(2))
    then show ?thesis using es(1) p(1)
      by (intro exI [of _ None] exI [of _ ae] exI [of _ m]) (auto simp: meta_of_def)
  qed
qed

lemma parse_meta_uuid:
  "parse_meta env ae m = Inr c \<Longrightarrow> cfg_getstr c ''meta-uuid'' = Some (fst (calculate_fwup_uuid (blake2b_uuid env) m))"
  by (auto simp: parse_meta_def Let_def split: prod.splits option.splits if_splits)

text \<open>
  When public keys are given, metadata is accepted only if it was signed: the archive starts
  with a signature of 64 bytes that is valid under one of the keys for exactly the text that was
  then parsed, and the UUID of the configuration is the hash of that text whatever the text says.
\<close>

theorem accepted_meta_is_signed:
  assumes "cfgfile_parse_fw_meta_conf env public_keys (Inr a) = Inr c" and "public_keys \<noteq> []"
  shows "\<exists>s ae m rest. meta_of a (Some s) ae m rest \<and> signed_by env public_keys s m \<and> parse_meta env ae m = Inr c \<and>
    cfg_getstr c ''meta-uuid'' = Some (fst (calculate_fwup_uuid (blake2b_uuid env) m))"
proof -
  obtain a' where r: "read_meta env public_keys a = (Inr c, a')"
    using assms(1) by (auto simp: cfgfile_parse_fw_meta_conf_def) (metis prod.collapse)
  show ?thesis using read_meta_Inr [OF r] assms(2) parse_meta_uuid by blast
qed

definition toy_cfg :: "meta_values \<Rightarrow> (string \<Rightarrow> cfg list) \<Rightarrow> cfg" where
  "toy_cfg v secs = Cfg [] (\<lambda>_. - 1) (\<lambda>_. [])
     ((\<lambda>_. None)(''meta-uuid'' := Some (mv_uuid v), ''meta-nickname'' := Some (mv_nickname v))) (\<lambda>_. []) (\<lambda>_. False) secs"

definition toy_meta_env :: "(string \<Rightarrow> cfg list) \<Rightarrow> meta_env" where
  "toy_meta_env secs = \<lparr>ed25519_check = (\<lambda>s key m. s = take 64 (map ((+) (hd key)) m @ replicate 64 0)), blake2b_uuid = (\<lambda>m. replicate 20 0),
     time_string = (\<lambda>_. []), cfg_parse_buf = (\<lambda>v text. Some (toy_cfg v secs, Some (mv_uuid v), Some (mv_nickname v)))\<rparr>"

definition toy_signature :: "byte list" where
  "toy_signature = replicate 12 8 @ replicate 52 0"

definition toy_archive :: "archive_entry list \<Rightarrow> archive" where
  "toy_archive data_entries = \<lparr>ar_entries =
     \<lparr>ae_pathname = ''meta.conf.ed25519'', ae_size = Some 64, ae_mtime = None, ae_blocks = [], ae_reads = [Inr (take 40 toy_signature), Inr (drop 40 toy_signature)]\<rparr> #
     \<lparr>ae_pathname = ''meta.conf'', ae_size = None, ae_mtime = Some 7, ae_blocks = [], ae_reads = [Inr (replicate 12 1)]\<rparr> # data_entries,
     ar_blocks = [], ar_reads = []\<rparr>"

lemma toy_parse: "parse_meta (toy_meta_env secs) ae m = Inr (toy_cfg \<lparr>mv_creation_date = [],
    mv_uuid = fst (calculate_fwup_uuid (\<lambda>_. replicate 20 0) m), mv_nickname = snd (calculate_fwup_uuid (\<lambda>_. replicate 20 0) m)\<rparr> secs)"
  by (simp add: parse_meta_def toy_meta_env_def toy_cfg_def Let_def split: prod.splits)

lemma toy_read_meta: "\<exists>c. read_meta (toy_meta_env secs) [[9], [7]] (toy_archive data_entries) =
    (Inr (toy_cfg c secs), \<lparr>ar_entries = data_entries, ar_blocks = [], ar_reads = []\<rparr>)"
proof -
  have e: "ed25519_check (toy_meta_env secs) toy_signature [7] (replicate 12 1)"
    by (simp add: toy_meta_env_def toy_signature_def)
  have l: "length toy_signature = 64" by (simp add: toy_signature_def)
  then show ?thesis using e
    by (auto simp: read_meta_def toy_archive_def ok_then_def next_header_def archive_read_next_header_def read_signature_def
        archive_read_all_data_def archive_entry_size_is_set_def archive_entry_size_def FWUP_SIGNATURE_LEN_def
        cfgfile_parse_fw_ae_def MAX_META_CONF_SIZE_def check_signature_def toy_parse)
qed

theorem accepted_meta_is_signed_witness:
  "\<exists>s ae m rest. meta_of (toy_archive []) (Some s) ae m rest \<and> signed_by (toy_meta_env (\<lambda>_. [])) [[9], [7]] s m"
proof -
  obtain v where "cfgfile_parse_fw_meta_conf (toy_meta_env (\<lambda>_. [])) [[9], [7]] (Inr (toy_archive [])) = Inr (toy_cfg v (\<lambda>_. []))"
    using toy_read_meta [of "\<lambda>_. []" "[]"] by (auto simp: cfgfile_parse_fw_meta_conf_def)
  then show ?thesis using accepted_meta_is_signed [of "toy_meta_env (\<lambda>_. [])" "[[9], [7]]" "toy_archive []"] by blast
qed

end
