(* ===== verification/Fw_Verify.thy ===== *)
theory Fw_Verify
  imports Fw_Meta Xdelta Sparse_File
begin

text \<open>
  The check of an archive (\<open>fwup_verify.c\<close>): the signature of the metadata, and the length and
  the hash of every resource. The hash and the xdelta3 library are parameters.
\<close>

record 'x verify_env =
  ve_meta :: meta_env
  ve_blake2b_256 :: "byte list \<Rightarrow> byte list"
  ve_xd3 :: "'x xd3_lib"
  ve_stream :: 'x
  ve_fuel :: nat

definition on_blocks :: "(block_answer list, 'a) action \<Rightarrow> (archive, 'a) action" where
  "on_blocks m = (\<lambda>a. case m (ar_blocks a) of (r, bl) \<Rightarrow> (r, a\<lparr>ar_blocks := bl\<rparr>))"

section \<open>One resource\<close>

lemma next_block_shorter: "next_block bl = (Inr (Some x), bl') \<Longrightarrow> length bl' < length bl"
proof (induction bl)
  case (Cons b bl)
  then show ?case by (cases b) (auto split: if_splits)
qed simp

text \<open>The loop of \<open>process_entry\<close>; the result is all that was read, in the order of the hash updates.\<close>

function entry_loop :: "int \<Rightarrow> byte list \<Rightarrow> (block_answer list, byte list) action" where
  "entry_loop expected_offset h bl =
     (case next_block bl of
        (Inl e, bl') \<Rightarrow> (Inl e, bl')
      | (Inr None, bl') \<Rightarrow> (Inr h, bl')
      | (Inr (Some (buffer, offset64)), bl') \<Rightarrow>
          if offset64 \<noteq> expected_offset then (Inl (Msg ''Unexpected offset hole when decoding archive''), bl')
          else entry_loop (expected_offset + int (length buffer)) (h @ buffer) bl')"
  by pat_completeness auto
termination
  by (relation "measure (\<lambda>(_, _, bl). length bl)") (auto dest: next_block_shorter [OF sym])

declare entry_loop.simps [simp del]

definition process_entry :: "(archive, byte list) action" where
  "process_entry = on_blocks (entry_loop 0 [])"

definition get_expected_hash :: "resource_item \<Rightarrow> string res" where
  "get_expected_hash item = (case cfg_getstr (ri_resource item) ''blake2b-256'' of
     None \<Rightarrow> Inl (Msg ''invalid blake2b-256 hash'')
   | Some h \<Rightarrow> if length h \<noteq> 64 then Inl (Msg ''invalid blake2b-256 hash'') else Inr h)"

definition check_normal_resource :: "'x verify_env \<Rightarrow> resource_item \<Rightarrow> int \<Rightarrow> (archive, unit) action" where
  "check_normal_resource env item expected_length =
     ok_then process_entry (\<lambda>h a.
       if int (length h) \<noteq> expected_length then (Inl (Msg ''ZIP data length mismatch''), a)
       else (bind_res (get_expected_hash item) (\<lambda>expected_hash.
              if bytes_to_hex (ve_blake2b_256 env h) \<noteq> expected_hash then Inl (Msg ''Detected blake2b digest mismatch'') else Inr ()), a))"

definition xdelta_read_patch_callback :: "(block_answer list, byte list) action" where
  "xdelta_read_patch_callback = (\<lambda>bl. case next_block bl of
     (Inl e, bl') \<Rightarrow> (Inl e, bl') | (Inr None, bl') \<Rightarrow> (Inr [], bl') | (Inr (Some (buffer, _)), bl') \<Rightarrow> (Inr buffer, bl'))"

text \<open>There is no source when an archive is checked: the callback is a null pointer.\<close>

definition verify_callbacks :: "block_answer list xdelta_callbacks" where
  "verify_callbacks = \<lparr>read_patch = xdelta_read_patch_callback, pread_source = (\<lambda>_ _ bl. (Inl (Undefined ''pread_source''), bl))\<rparr>"

definition check_xdelta3_resource :: "'x verify_env \<Rightarrow> resource_item \<Rightarrow> (archive, unit) action" where
  "check_xdelta3_resource env item = (\<lambda>a.
     case get_expected_hash item of Inl e \<Rightarrow> (Inl e, a)
     | Inr _ \<Rightarrow> on_blocks (\<lambda>bl. case xdelta_read_header (ve_fuel env) (ve_xd3 env) verify_callbacks (bl, xdelta_init (ve_stream env) []) of
                  (r, (bl', _)) \<Rightarrow> (r, bl')) a)"

definition check_resource :: "'x verify_env \<Rightarrow> string \<Rightarrow> archive_entry \<Rightarrow> (archive \<times> resource_list, unit) action" where
  "check_resource env file_resource_name ae = (\<lambda>(a, list).
     case rlist_find_by_name list file_resource_name of
       None \<Rightarrow> (Inl (Msg ''Can't find file-resource''), (a, list))
     | Some i \<Rightarrow>
         if processed (list ! i) then (Inl (Msg ''Processing twice. Archive is corrupt.''), (a, list))
         else (let list' = set_processed i list; item = list' ! i in
           case bind_res (sparse_file_get_map_from_resource (ri_resource item)) (\<lambda>sfm.
                  bind_res (sparse_file_data_size sfm) (\<lambda>n. Inr (length (map_entries sfm), n))) of
             Inl e \<Rightarrow> (Inl e, (a, list'))
           | Inr (sparse_segments, expected_length) \<Rightarrow>
               (let archive_length = archive_entry_size ae in
                if archive_length < 0 then (Inl (Msg ''Missing file length in archive''), (a, list'))
                else (case (if sparse_segments = 1 \<and> archive_entry_size_is_set ae \<and> archive_length \<noteq> expected_length
                            then check_xdelta3_resource env item a
                            else if archive_entry_size_is_set ae \<and> archive_length \<noteq> expected_length
                            then (Inl (Msg ''ZIP local header length mismatch''), a)
                            else check_normal_resource env item expected_length a) of
                        (r, a') \<Rightarrow> (r, (a', list'))))))"

section \<open>The archive\<close>

lemma on_blocks_entries: "on_blocks m a = (r, a') \<Longrightarrow> ar_entries a' = ar_entries a"
  by (auto simp: on_blocks_def split: prod.splits)

lemma normal_resource_entries: "check_normal_resource env item n a = (r, a') \<Longrightarrow> ar_entries a' = ar_entries a"
  by (auto simp: check_normal_resource_def process_entry_def ok_then_def dest: on_blocks_entries split: prod.splits sum.splits if_splits)

lemma xdelta3_resource_entries: "check_xdelta3_resource env item a = (r, a') \<Longrightarrow> ar_entries a' = ar_entries a"
  by (auto simp: check_xdelta3_resource_def dest: on_blocks_entries split: sum.splits)

lemma check_resource_entries:
  assumes "check_resource env name ae (a, list) = (r, (a', list'))"
  shows "ar_entries a' = ar_entries a"
  using assms
  by (auto simp: check_resource_def Let_def dest!: normal_resource_entries xdelta3_resource_entries
      split: option.splits if_splits sum.splits prod.splits)

function verify_loop :: "'x verify_env \<Rightarrow> (archive \<times> resource_list, unit) action" where
  "verify_loop env (a, list) =
     (case archive_read_next_header a of
        (None, a') \<Rightarrow> (Inr (), (a', list))
      | (Some ae, a') \<Rightarrow>
          (case archive_filename_to_resource (ae_pathname ae) FWFILE_MAX_ARCHIVE_PATH of
             Inl e \<Rightarrow> (Inl e, (a', list))
           | Inr resource_name \<Rightarrow>
               if resource_name = [] then verify_loop env (a', list)
               else (case check_resource env resource_name ae (a', list) of
                       (Inl e, s) \<Rightarrow> (Inl e, s)
                     | (Inr _, s) \<Rightarrow> verify_loop env s)))"
  by pat_completeness auto
termination
  by (relation "measure (\<lambda>(_, a, _). length (ar_entries a))")
    (auto simp: archive_read_next_header_def dest!: check_resource_entries [OF sym] split: list.splits)

declare verify_loop.simps [simp del]

definition all_processed :: "resource_list \<Rightarrow> unit res" where
  "all_processed list = (if list_all processed list then Inr () else Inl (Msg ''Resource not found in archive''))"

definition success_message :: "bool \<Rightarrow> bool \<Rightarrow> string" where
  "success_message keys has_signature =
     (if keys \<and> has_signature then ''Valid archive with a good signature''
      else if \<not> keys \<and> has_signature then ''Valid archive with an unverified signature. Specify a public key to authenticate.''
      else ''Valid archive without a signature'')"

definition is_signed :: "archive \<Rightarrow> bool" where
  "is_signed a = (case ar_entries a of [] \<Rightarrow> False | ae # _ \<Rightarrow> ae_pathname ae = ''meta.conf.ed25519'')"

definition fwup_verify :: "'x verify_env \<Rightarrow> string option \<Rightarrow> byte list list \<Rightarrow> archive res \<Rightarrow> string res" where
  "fwup_verify env input_filename public_keys opened =
     (if input_filename = None then Inl (Msg ''Specify an input firmware file'')
      else bind_res opened (\<lambda>a.
        fst (ok_then (read_meta (ve_meta env) public_keys) (\<lambda>c a'.
          case verify_loop env (a', rlist_get_all c) of
            (Inl e, (a'', _)) \<Rightarrow> (Inl e, a'')
          | (Inr _, (a'', list)) \<Rightarrow>
              (bind_res (all_processed list) (\<lambda>_. Inr (success_message (public_keys \<noteq> []) (is_signed a))), a'')) a)))"

section \<open>What an accepted archive holds\<close>

text \<open>The data of an entry, and whether all of it can be read.\<close>

definition block_bytes :: "block_answer \<Rightarrow> byte list" where
  "block_bytes b = (case b of Block bytes _ \<Rightarrow> bytes | Block_failed _ \<Rightarrow> [])"

definition readable :: "block_answer list \<Rightarrow> bool" where
  "readable bl = list_all (\<lambda>b. case b of Block _ _ \<Rightarrow> True | Block_failed _ \<Rightarrow> False) bl"

definition data_of :: "block_answer list \<Rightarrow> byte list" where
  "data_of bl = concat (map block_bytes bl)"

lemma next_block_data:
  "next_block bl = (Inr (Some (b, o1)), bl') \<Longrightarrow> data_of bl = b @ data_of bl' \<and> (readable bl \<longleftrightarrow> readable bl')"
  "next_block bl = (Inr None, bl') \<Longrightarrow> data_of bl = [] \<and> readable bl"
proof (induction bl)
  case (Cons x bl)
  { case 1 then show ?case using Cons.IH(1) by (cases x) (auto simp: data_of_def readable_def block_bytes_def split: if_splits) }
  { case 2 then show ?case using Cons.IH(2) by (cases x) (auto simp: data_of_def readable_def block_bytes_def split: if_splits) }
qed (simp_all add: data_of_def readable_def)

lemma entry_loop_data: "entry_loop e h bl = (Inr h', bl') \<Longrightarrow> h' = h @ data_of bl \<and> readable bl"
proof (induction e h bl rule: entry_loop.induct)
  case (1 e h bl)
  obtain r bl1 where n: "next_block bl = (r, bl1)" by fastforce
  from "1.prems" n obtain x where r: "r = Inr x" by (cases r) (auto simp: entry_loop.simps)
  show ?case
  proof (cases x)
    case None
    then show ?thesis using "1.prems" n r next_block_data(2) [of bl bl1] by (auto simp: entry_loop.simps)
  next
    case (Some p)
    obtain b o1 where p: "p = (b, o1)" by fastforce
    have n': "next_block bl = (Inr (Some (b, o1)), bl1)" using n r Some p by simp
    have o1: "o1 = e" and l: "entry_loop (e + int (length b)) (h @ b) bl1 = (Inr h', bl')"
      using "1.prems" n' by (auto simp: entry_loop.simps [of e h bl] split: if_splits)
    have "h' = (h @ b) @ data_of bl1 \<and> readable bl1"
      by (rule "1.IH" [OF n' [symmetric] refl refl refl _ l]) (simp add: o1)
    then show ?thesis using next_block_data(1) [OF n'] by simp
  qed
qed

definition hash_is :: "'x verify_env \<Rightarrow> cfg \<Rightarrow> byte list \<Rightarrow> bool" where
  "hash_is env resource h \<longleftrightarrow> cfg_getstr resource ''blake2b-256'' = Some (bytes_to_hex (ve_blake2b_256 env h))"

definition data_size_is :: "cfg \<Rightarrow> int \<Rightarrow> bool" where
  "data_size_is resource n \<longleftrightarrow> bind_res (sparse_file_get_map_from_resource resource) sparse_file_data_size = Inr n"

text \<open>
  An entry that was accepted for a resource: its data has the length and the hash that the
  metadata gives; or it is a patch, that is it has another length than the single segment of the
  resource and the header of a patch.
\<close>

definition patch_header_ok :: "'x verify_env \<Rightarrow> block_answer list \<Rightarrow> bool" where
  "patch_header_ok env bl = is_ok (fst (xdelta_read_header (ve_fuel env) (ve_xd3 env) verify_callbacks (bl, xdelta_init (ve_stream env) [])))"

definition resource_ok :: "'x verify_env \<Rightarrow> cfg \<Rightarrow> archive_entry \<Rightarrow> bool" where
  "resource_ok env resource ae \<longleftrightarrow> (\<exists>n. data_size_is resource n \<and>
     (readable (ae_blocks ae) \<and> int (length (data_of (ae_blocks ae))) = n \<and> hash_is env resource (data_of (ae_blocks ae)) \<or>
      length (cfg_ints resource ''length'') \<le> 1 \<and> archive_entry_size_is_set ae \<and> archive_entry_size ae \<noteq> n \<and> patch_header_ok env (ae_blocks ae)))"

lemma expected_hash_Inr: "get_expected_hash item = Inr h \<Longrightarrow> cfg_getstr (ri_resource item) ''blake2b-256'' = Some h"
  by (auto simp: get_expected_hash_def split: option.splits if_splits)

lemma normal_resource_ok:
  assumes "check_normal_resource env item n a = (Inr u, a')"
  shows "readable (ar_blocks a) \<and> int (length (data_of (ar_blocks a))) = n \<and> hash_is env (ri_resource item) (data_of (ar_blocks a))"
proof -
  obtain h a1 where h: "process_entry a = (Inr h, a1)" and l: "int (length h) = n"
    and c: "bind_res (get_expected_hash item) (\<lambda>expected_hash.
              if bytes_to_hex (ve_blake2b_256 env h) \<noteq> expected_hash then Inl (Msg ''Detected blake2b digest mismatch'') else Inr ()) = Inr u"
    using assms by (auto simp: check_normal_resource_def ok_then_def split: prod.splits sum.splits if_splits)
  have d: "h = data_of (ar_blocks a) \<and> readable (ar_blocks a)"
    using h entry_loop_data [of 0 "[]" "ar_blocks a" h] by (auto simp: process_entry_def on_blocks_def split: prod.splits)
  have "cfg_getstr (ri_resource item) ''blake2b-256'' = Some (bytes_to_hex (ve_blake2b_256 env h))"
    using c expected_hash_Inr [of item] by (auto simp: bind_res_eq_Inr split: if_splits)
  then show ?thesis using d l by (simp add: hash_is_def)
qed

lemma map_length: "sparse_file_get_map_from_resource r = Inr sfm \<Longrightarrow> length (map_entries sfm) = 1 \<longleftrightarrow> length (cfg_ints r ''length'') \<le> 1"
  by (auto simp: sparse_file_get_map_from_resource_def Let_def map_entries_def le_Suc_eq split: if_splits)

lemma check_resource_ok:
  assumes "check_resource env name ae (a, list) = (Inr u, (a', list'))" and "ar_blocks a = ae_blocks ae"
  obtains i where "rlist_find_by_name list name = Some i" and "\<not> processed (list ! i)" and "list' = set_processed i list"
    and "resource_ok env (ri_resource (list ! i)) ae"
proof -
  obtain i where i: "rlist_find_by_name list name = Some i" and np: "\<not> processed (list ! i)"
    using assms(1) by (auto simp: check_resource_def split: option.splits if_splits)
  have il: "i < length list" using rlist_find_by_name_Some [OF i] by simp
  let ?r = "ri_resource (list ! i)" and ?item = "set_processed i list ! i"
  have item: "ri_resource ?item = ?r" using il by (simp add: set_processed_def)
  obtain sfm n where m: "sparse_file_get_map_from_resource ?r = Inr sfm" "sparse_file_data_size sfm = Inr n"
    using assms(1) i np by (auto simp: check_resource_def Let_def item bind_res_def split: sum.splits)
  have d: "data_size_is ?r n" using m by (simp add: data_size_is_def)
  have step: "(if length (map_entries sfm) = 1 \<and> archive_entry_size_is_set ae \<and> archive_entry_size ae \<noteq> n
                then check_xdelta3_resource env ?item a
                else if archive_entry_size_is_set ae \<and> archive_entry_size ae \<noteq> n
                then (Inl (Msg ''ZIP local header length mismatch''), a)
                else check_normal_resource env ?item n a) = (Inr u, a')" "list' = set_processed i list"
    using assms(1) i np m by (auto simp: check_resource_def Let_def item split: if_splits prod.splits)
  have "resource_ok env ?r ae"
  proof (cases "length (map_entries sfm) = 1 \<and> archive_entry_size_is_set ae \<and> archive_entry_size ae \<noteq> n")
    case True
    then have "check_xdelta3_resource env ?item a = (Inr u, a')" using step(1) by simp
    then have "patch_header_ok env (ae_blocks ae)"
      using assms(2) by (auto simp: check_xdelta3_resource_def patch_header_ok_def on_blocks_def split: sum.splits prod.splits)
    then show ?thesis using True d map_length [OF m(1)] by (auto simp: resource_ok_def)
  next
    case False
    then have "check_normal_resource env ?item n a = (Inr u, a')" using step(1) by (auto split: if_splits)
    from normal_resource_ok [OF this] show ?thesis using d assms(2) item by (auto simp: resource_ok_def)
  qed
  then show thesis using that i np step(2) by blast
qed

text \<open>The entries that belong to a resource, with its name; other names are skipped.\<close>

definition entry_name :: "archive_entry \<Rightarrow> string res" where
  "entry_name ae = archive_filename_to_resource (ae_pathname ae) FWFILE_MAX_ARCHIVE_PATH"

fun resource_entries :: "archive_entry list \<Rightarrow> (string \<times> archive_entry) list" where
  "resource_entries [] = []"
| "resource_entries (ae # es) =
     (case entry_name ae of Inl _ \<Rightarrow> resource_entries es
      | Inr n \<Rightarrow> if n = [] then resource_entries es else (n, ae) # resource_entries es)"

lemma find_cong:
  "map ri_resource l = map ri_resource l' \<Longrightarrow> rlist_find_by_name l n = rlist_find_by_name l' n"
proof (induction l arbitrary: l')
  case (Cons x l)
  then show ?case by (cases l') auto
qed simp

lemma set_processed_resources [simp]: "map ri_resource (set_processed i list) = map ri_resource list"
  by (simp add: set_processed_def map_update) (metis list_update_id map_update nth_map linorder_not_less list_update_beyond length_map)

lemma nth_set_processed:
  "i < length list \<Longrightarrow> j < length list \<Longrightarrow> processed (set_processed i list ! j) \<longleftrightarrow> processed (list ! j) \<or> j = i"
  "j < length list \<Longrightarrow> ri_resource (set_processed i list ! j) = ri_resource (list ! j)"
  by (cases "j = i"; simp add: set_processed_def)+

text \<open>What the loop has established for the entries \<open>es\<close> when it ends.\<close>

definition entries_checked :: "'x verify_env \<Rightarrow> archive_entry list \<Rightarrow> resource_list \<Rightarrow> resource_list \<Rightarrow> bool" where
  "entries_checked env es list list' \<longleftrightarrow>
     list_all (\<lambda>ae. is_ok (entry_name ae)) es \<and> map ri_resource list' = map ri_resource list \<and>
     distinct (map fst (resource_entries es)) \<and>
     (\<forall>(n, ae) \<in> set (resource_entries es). \<exists>i. rlist_find_by_name list n = Some i \<and> \<not> processed (list ! i) \<and>
        resource_ok env (ri_resource (list ! i)) ae) \<and>
     (\<forall>i < length list. processed (list' ! i) \<longleftrightarrow>
        processed (list ! i) \<or> (\<exists>n \<in> fst ` set (resource_entries es). rlist_find_by_name list n = Some i))"

lemma entries_checked_Cons:
  assumes n: "entry_name ae = Inr n" "n \<noteq> []" and i: "rlist_find_by_name list n = Some i" "\<not> processed (list ! i)"
    and ok: "resource_ok env (ri_resource (list ! i)) ae"
    and rest: "entries_checked env es (set_processed i list) list'"
  shows "entries_checked env (ae # es) list list'"
proof -
  have f: "rlist_find_by_name (set_processed i list) m = rlist_find_by_name list m" for m
    by (rule find_cong) simp
  have il: "i < length list" using rlist_find_by_name_Some [OF i(1)] by simp
  have len: "length (set_processed i list) = length list" by (simp add: set_processed_def)
  have r: "\<forall>(m, ae') \<in> set (resource_entries es). \<exists>j. rlist_find_by_name list m = Some j \<and> \<not> processed (set_processed i list ! j) \<and>
        resource_ok env (ri_resource (set_processed i list ! j)) ae'"
    using rest by (auto simp: entries_checked_def f)
  have r': "\<exists>j. rlist_find_by_name list m = Some j \<and> \<not> processed (list ! j) \<and> j \<noteq> i \<and> resource_ok env (ri_resource (list ! j)) ae'"
    if m: "(m, ae') \<in> set (resource_entries es)" for m ae'
  proof -
    obtain j where j: "rlist_find_by_name list m = Some j" "\<not> processed (set_processed i list ! j)"
        "resource_ok env (ri_resource (set_processed i list ! j)) ae'"
      using r m by blast
    have jl: "j < length list" using rlist_find_by_name_Some [OF j(1)] by simp
    show ?thesis using j nth_set_processed(1) [OF il jl] nth_set_processed(2) [OF jl] by auto
  qed
  have "n \<notin> fst ` set (resource_entries es)" using r' i(1) by fastforce
  moreover have "processed (list' ! j) \<longleftrightarrow> processed (list ! j) \<or>
      (\<exists>m \<in> fst ` set (resource_entries (ae # es)). rlist_find_by_name list m = Some j)" if j: "j < length list" for j
    using rest j nth_set_processed(1) [OF il j] n i(1) by (auto simp: entries_checked_def f len)
  moreover have "\<exists>j. rlist_find_by_name list m = Some j \<and> \<not> processed (list ! j) \<and> resource_ok env (ri_resource (list ! j)) ae'"
    if "(m, ae') \<in> set (resource_entries (ae # es))" for m ae'
    using that n i ok r' by (auto split: if_splits)
  ultimately show ?thesis using rest n by (auto simp: entries_checked_def)
qed

lemma verify_loop_checked:
  "verify_loop env (a, list) = (Inr (), (a', list')) \<Longrightarrow> entries_checked env (ar_entries a) list list'"
proof (induction env "(a, list)" arbitrary: a list rule: verify_loop.induct)
  case (1 env a list)
  show ?case
  proof (cases "ar_entries a")
    case Nil
    then show ?thesis using "1.prems" by (auto simp: verify_loop.simps archive_read_next_header_def entries_checked_def)
  next
    case (Cons ae es)
    let ?a = "\<lparr>ar_entries = es, ar_blocks = ae_blocks ae, ar_reads = ae_reads ae\<rparr>"
    have h: "archive_read_next_header a = (Some ae, ?a)" using Cons by (simp add: archive_read_next_header_def)
    note step = "1.prems" [unfolded verify_loop.simps [of env a list] h, simplified]
    obtain n where n: "archive_filename_to_resource (ae_pathname ae) FWFILE_MAX_ARCHIVE_PATH = Inr n"
      using step by (auto split: sum.splits)
    show ?thesis
    proof (cases "n = []")
      case True
      then have "entries_checked env es list list'"
        using "1.hyps"(1) [OF h [symmetric] refl n True] step n by simp
      then show ?thesis using n True by (simp add: Cons entries_checked_def entry_name_def)
    next
      case False
      then obtain u a2 list2 where c: "check_resource env n ae (?a, list) = (Inr u, (a2, list2))"
        and l: "verify_loop env (a2, list2) = (Inr (), (a', list'))"
        using step n by (auto split: prod.splits sum.splits)
      obtain i where i: "rlist_find_by_name list n = Some i" "\<not> processed (list ! i)" "list2 = set_processed i list"
          "resource_ok env (ri_resource (list ! i)) ae"
        by (rule check_resource_ok [OF c]) simp_all
      have e: "ar_entries a2 = es" using check_resource_entries [OF c] by simp
      have "entries_checked env (ar_entries a2) list2 list'"
        by (rule "1.hyps"(2) [OF h [symmetric] refl n False c [symmetric] refl l])
      then show ?thesis
        using entries_checked_Cons [OF _ False i(1,2,4)] n by (simp add: Cons e i(3) entry_name_def)
    qed
  qed
qed

text \<open>The resources of the metadata are the named entries of the archive, one for one, and each entry is fine.\<close>

definition contents_verified :: "'x verify_env \<Rightarrow> cfg \<Rightarrow> archive_entry list \<Rightarrow> bool" where
  "contents_verified env c es \<longleftrightarrow>
     distinct (map cfg_title (cfg_secs c ''file-resource'')) \<and> distinct (map fst (resource_entries es)) \<and>
     fst ` set (resource_entries es) = cfg_title ` set (cfg_secs c ''file-resource'') \<and>
     (\<forall>(n, ae) \<in> set (resource_entries es). \<forall>r \<in> set (cfg_secs c ''file-resource''). cfg_title r = n \<longrightarrow> resource_ok env r ae)"

lemma rlist_get_all_resources: "map ri_resource (rlist_get_all c) = rev (cfg_secs c ''file-resource'')"
  "item \<in> set (rlist_get_all c) \<Longrightarrow> \<not> processed item"
  by (auto simp: rlist_get_all_def fold_push_resource rev_map comp_def)

lemma checked_contents:
  assumes ch: "entries_checked env es (rlist_get_all c) list'" and all: "list_all processed list'"
  shows "contents_verified env c es"
proof -
  let ?l = "rlist_get_all c" and ?secs = "cfg_secs c ''file-resource''" and ?ns = "fst ` set (resource_entries es)"
  let ?t = "\<lambda>i. cfg_title (ri_resource (?l ! i))"
  have len: "length list' = length ?l" using ch unfolding entries_checked_def by (metis length_map)
  have np: "\<not> processed (?l ! i)" if "i < length ?l" for i using rlist_get_all_resources(2) [of "?l ! i" c] that by simp
  have found: "\<exists>n \<in> ?ns. rlist_find_by_name ?l n = Some i" if i: "i < length ?l" for i
  proof -
    have "processed (list' ! i)" using all i len by (simp add: list_all_length)
    then show ?thesis using ch i np [OF i] unfolding entries_checked_def by blast
  qed
  have titles: "map cfg_title ?secs = rev (map ?t [0..<length ?l])"
  proof -
    have "map ?t [0..<length ?l] = map cfg_title (map ri_resource ?l)"
      by (rule nth_equalityI) simp_all
    then show ?thesis by (simp add: rlist_get_all_resources(1) rev_map)
  qed
  have "inj_on ?t {0..<length ?l}"
  proof (rule inj_onI)
    fix i j assume ij: "i \<in> {0..<length ?l}" "j \<in> {0..<length ?l}" "?t i = ?t j"
    have first: "\<not> k < m" if km: "k < length ?l" "m < length ?l" "?t k = ?t m" for k m
    proof -
      obtain n where n: "rlist_find_by_name ?l n = Some m" using found [OF km(2)] by blast
      show ?thesis using rlist_find_by_name_Some [OF n] km(3) by auto
    qed
    show "i = j" using first [of i j] first [of j i] ij by simp
  qed
  then have d: "distinct (map cfg_title ?secs)" by (simp add: titles distinct_map)
  have named: "\<exists>i. i < length ?l \<and> ?t i = n \<and> resource_ok env (ri_resource (?l ! i)) ae" if e: "(n, ae) \<in> set (resource_entries es)" for n ae
  proof -
    obtain i where "rlist_find_by_name ?l n = Some i" "resource_ok env (ri_resource (?l ! i)) ae"
      using ch e unfolding entries_checked_def by blast
    then show ?thesis using rlist_find_by_name_Some by blast
  qed
  have secs: "set ?secs = (\<lambda>i. ri_resource (?l ! i)) ` {0..<length ?l}"
  proof -
    have "set ?secs = ri_resource ` set ?l" by (metis rlist_get_all_resources(1) set_map set_rev)
    also have "set ?l = (!) ?l ` {0..<length ?l}" by (auto simp: set_conv_nth)
    finally show ?thesis by (simp add: image_image)
  qed
  have "?ns = cfg_title ` set ?secs"
  proof
    show "?ns \<subseteq> cfg_title ` set ?secs" using named by (force simp: secs)
    show "cfg_title ` set ?secs \<subseteq> ?ns"
    proof
      fix n assume "n \<in> cfg_title ` set ?secs"
      then obtain i where i: "i < length ?l" "n = ?t i" by (auto simp: secs)
      then obtain m where "m \<in> ?ns" "rlist_find_by_name ?l m = Some i" using found by blast
      then show "n \<in> ?ns" using rlist_find_by_name_Some i(2) by metis
    qed
  qed
  moreover have "resource_ok env r ae" if e: "(n, ae) \<in> set (resource_entries es)" and r: "r \<in> set ?secs" "cfg_title r = n" for n ae r
  proof -
    obtain i where i: "i < length ?l" "?t i = n" "resource_ok env (ri_resource (?l ! i)) ae" using named [OF e] by blast
    have "ri_resource (?l ! i) \<in> set ?secs" using i(1) by (auto simp: secs)
    then have "ri_resource (?l ! i) = r" using d r i(2) by (auto simp: distinct_map inj_on_def)
    then show ?thesis using i(3) by simp
  qed
  ultimately show ?thesis using d ch by (auto simp: contents_verified_def entries_checked_def)
qed


definition one_resource :: cfg where
  "one_resource = Cfg ''rootfs'' (\<lambda>_. - 1) (\<lambda>k. if k = ''length'' then [3, 7, 2] else [])
     (\<lambda>k. if k = ''blake2b-256'' then Some (replicate 64 (CHR ''0'')) else None) (\<lambda>_. []) (\<lambda>_. False) (\<lambda>_. [])"

definition one_entry :: archive_entry where
  "one_entry = \<lparr>ae_pathname = ''data/rootfs'', ae_size = None, ae_mtime = None,
     ae_blocks = [Block [1, 2] 0, Block [] 2, Block [3, 4, 5] 2], ae_reads = []\<rparr>"

definition toy_verify_env :: "echo_stream verify_env" where
  "toy_verify_env = \<lparr>ve_meta = toy_meta_env (\<lambda>k. if k = ''file-resource'' then [one_resource] else []),
     ve_blake2b_256 = (\<lambda>_. replicate 32 0), ve_xd3 = echo_lib, ve_stream = echo_start, ve_fuel = 9\<rparr>"

lemma toy_verify: "fwup_verify toy_verify_env (Some ''a.fw'') [[9], [7]] (Inr (toy_archive [one_entry])) =
    Inr ''Valid archive with a good signature''"
proof -
  let ?secs = "\<lambda>k. if k = ''file-resource'' then [one_resource] else []"
  obtain v where r: "read_meta (ve_meta toy_verify_env) [[9], [7]] (toy_archive [one_entry]) =
      (Inr (toy_cfg v ?secs), \<lparr>ar_entries = [one_entry], ar_blocks = [], ar_reads = []\<rparr>)"
    using toy_read_meta [of ?secs "[one_entry]"] by (auto simp: toy_verify_env_def)
  have l: "rlist_get_all (toy_cfg v ?secs) = [\<lparr>ri_resource = one_resource, processed = False\<rparr>]"
    by (simp add: rlist_get_all_def toy_cfg_def push_resource_def)
  have e: "entry_loop 0 [] (ae_blocks one_entry) = (Inr [1, 2, 3, 4, 5], [])"
    by (simp add: one_entry_def entry_loop.simps)
  have h: "bytes_to_hex (replicate 32 (0 :: byte)) = replicate 64 (CHR ''0'')" by code_simp
  have n: "archive_filename_to_resource (ae_pathname one_entry) FWFILE_MAX_ARCHIVE_PATH = Inr ''rootfs''" by code_simp
  have c: "check_resource toy_verify_env ''rootfs'' one_entry (\<lparr>ar_entries = [], ar_blocks = ae_blocks one_entry, ar_reads = []\<rparr>,
      [\<lparr>ri_resource = one_resource, processed = False\<rparr>]) =
      (Inr (), (\<lparr>ar_entries = [], ar_blocks = [], ar_reads = []\<rparr>, [\<lparr>ri_resource = one_resource, processed = True\<rparr>]))"
    by (simp add: check_resource_def set_processed_def one_resource_def sparse_file_get_map_from_resource_def map_entries_def
        sparse_file_data_size_def int64_def archive_entry_size_def archive_entry_size_is_set_def one_entry_def Let_def
        check_normal_resource_def ok_then_def process_entry_def on_blocks_def e [unfolded one_entry_def, simplified]
        get_expected_hash_def toy_verify_env_def h)
  have sg: "is_signed (toy_archive [one_entry])" by (simp add: is_signed_def toy_archive_def)
  have rd: "ae_reads one_entry = []" by (simp add: one_entry_def)
  show ?thesis
    by (simp add: fwup_verify_def ok_then_def r l verify_loop.simps archive_read_next_header_def n c all_processed_def
        success_message_def sg rd)
qed


end
