(* ===== verification/Apply_Read.thy ===== *)
theory Apply_Read
  imports Fw_Verify Requirement
begin

text \<open>
  How the functions of a task get the data of a resource when an archive is applied (the
  read callbacks of \<open>fwup_apply.c\<close>): plain data, which is cut at the holes of a sparse file, and the
  output of the xdelta3 decoder.

  The cookie of the context is \<open>struct fwup_apply_data\<close> together with the fields of \<open>struct fun_context\<close>
  that belong to a delta update. Of the archive it holds the blocks of the current entry. \<open>xd_source_path\<close>
  is \<open>None\<close> exactly when the source is a raw range.
\<close>

record 'x fwup_apply_data =
  pd_blocks :: "block_answer list"
  pd_sfm :: sparse_file_map
  sparse_map_ix :: nat
  sparse_block_offset :: int
  actual_offset :: int
  sparse_leftover :: "byte list"
  pd_xd :: "'x xdelta_state option"
  xd_source_offset :: nat
  xd_source_count :: nat
  xd_source_path :: "string option"
  xd_source_dc :: "disk_crypto option"

record ('w, 'x) apply_env =
  ap_fun :: "'w fun_env"
  ap_arc :: "'x verify_env"
  ap_fat_pread :: "nat \<Rightarrow> string \<Rightarrow> int \<Rightarrow> nat \<Rightarrow> (block_cache \<times> 'w, byte list) action"

type_synonym ('w, 'x, 'a) apply_step = "('w, 'x fwup_apply_data, 'a) step"

section \<open>Plain data\<close>

definition advance :: "int \<Rightarrow> 'x fwup_apply_data \<Rightarrow> 'x fwup_apply_data res" where
  "advance n p = bind_res (int64 (actual_offset p + n)) (\<lambda>a. Inr (p\<lparr>actual_offset := a\<rparr>))"

text \<open>Over the hole, unless this is the end, to the next data segment.\<close>

definition next_segment :: "'x fwup_apply_data \<Rightarrow> 'x fwup_apply_data res" where
  "next_segment p =
     (let m = map_entries (pd_sfm p); ix = sparse_map_ix p + 1; p' = p\<lparr>sparse_map_ix := ix, sparse_block_offset := 0\<rparr> in
      if ix \<noteq> length m then bind_res (advance (m ! ix) p') (\<lambda>p''. Inr (p''\<lparr>sparse_map_ix := ix + 1\<rparr>)) else Inr p')"

text \<open>The data that an earlier call left over, up to the end of the segment.\<close>

definition read_leftover :: "int \<Rightarrow> ('x fwup_apply_data, byte list \<times> int) action" where
  "read_leftover chunk_len p =
     (let remaining = chunk_len - sparse_block_offset p; left = sparse_leftover p;
          n = (if remaining \<ge> int (length left) then length left else nat remaining) in
      if remaining < 0 then (Inl (Undefined ''len''), p)
      else case bind_res (advance (int n) (p\<lparr>sparse_leftover := drop n left\<rparr>)) (\<lambda>p.
                  let p' = p\<lparr>sparse_block_offset := sparse_block_offset p + int n\<rparr> in
                  if sparse_block_offset p' = chunk_len then next_segment p' else Inr p') of
             Inl e \<Rightarrow> (Inl e, p)
           | Inr p' \<Rightarrow> (Inr (take n left, actual_offset p), p'))"

text \<open>A new block of the archive; what crosses the end of the segment is left over.\<close>

definition take_block :: "int \<Rightarrow> byte list \<Rightarrow> ('x fwup_apply_data, byte list \<times> int) action" where
  "take_block chunk_len buffer p =
     (let remaining = chunk_len - sparse_block_offset p in
      if remaining > int (length buffer) then
        (case advance (int (length buffer)) p of
           Inl e \<Rightarrow> (Inl e, p)
         | Inr p' \<Rightarrow> (Inr (buffer, actual_offset p), p'\<lparr>sparse_block_offset := sparse_block_offset p' + int (length buffer)\<rparr>))
      else if remaining < 0 then (Inl (Undefined ''len''), p)
      else
        (case bind_res (advance remaining p) (\<lambda>p. next_segment (p\<lparr>sparse_leftover := drop (nat remaining) buffer\<rparr>)) of
           Inl e \<Rightarrow> (Inl e, p)
         | Inr p' \<Rightarrow> (Inr (take (nat remaining) buffer, actual_offset p), p')))"

definition read_callback_normal :: "('x fwup_apply_data, byte list \<times> int) action" where
  "read_callback_normal p =
     (let m = map_entries (pd_sfm p); ix = sparse_map_ix p in
      if ix = length m then (Inr ([], 0), p)
      else if ix > length m then (Inl (Undefined ''sfm.map''), p)
      else if sparse_leftover p \<noteq> [] then read_leftover (m ! ix) p
      else case next_block (pd_blocks p) of
             (Inl e, bl) \<Rightarrow> (Inl e, p\<lparr>pd_blocks := bl\<rparr>)
           | (Inr None, bl) \<Rightarrow> (Inr ([], 0), p\<lparr>pd_blocks := bl\<rparr>)
           | (Inr (Some (buffer, _)), bl) \<Rightarrow> take_block (m ! ix) buffer (p\<lparr>pd_blocks := bl\<rparr>))"

section \<open>Patches\<close>

definition with_pd :: "('x fwup_apply_data, 'a) action \<Rightarrow> ('w, 'x, 'a) apply_step" where
  "with_pd m = (\<lambda>ctx. case m (fc_cookie ctx) of (r, p) \<Rightarrow> (r, ctx\<lparr>fc_cookie := p\<rparr>))"

definition apply_read_patch_callback :: "('w, 'x, byte list) apply_step" where
  "apply_read_patch_callback = with_pd (\<lambda>p. case xdelta_read_patch_callback (pd_blocks p) of (r, bl) \<Rightarrow> (r, p\<lparr>pd_blocks := bl\<rparr>))"

definition xdelta_read_source_callback :: "nat \<Rightarrow> int \<Rightarrow> ('w, 'x, byte list) apply_step" where
  "xdelta_read_source_callback count offset = (\<lambda>ctx.
     let size = xd_source_count (fc_cookie ctx) in
     if offset < 0 \<or> offset > int size
     then (Inl (Msg ''xdelta tried to load outside of allowed byte range''), ctx)
     else (let n = (if count > size \<or> nat offset > size - count then size - nat offset else count) in
       ok_then (from_res (add_offset (xd_source_offset (fc_cookie ctx)) offset)) (\<lambda>a. on_output (block_cache_pread n a)) ctx))"

definition xdelta_read_fat_callback :: "('w, 'x) apply_env \<Rightarrow> nat \<Rightarrow> int \<Rightarrow> ('w, 'x, byte list) apply_step" where
  "xdelta_read_fat_callback env count offset = (\<lambda>ctx.
     case xd_source_path (fc_cookie ctx) of
       None \<Rightarrow> (Inl (Undefined ''xd_source_path''), ctx)
     | Some path \<Rightarrow>
         (case ap_fat_pread env (xd_source_offset (fc_cookie ctx) div 512) path (to_int32 offset) count (fc_output ctx, fc_world ctx) of
            (r, (bc, w)) \<Rightarrow> (r, ctx\<lparr>fc_output := bc, fc_world := w\<rparr>)))"

definition apply_callbacks :: "('w, 'x) apply_env \<Rightarrow> 'x fwup_apply_data \<Rightarrow> ('w, 'x fwup_apply_data) fun_context xdelta_callbacks" where
  "apply_callbacks env p = \<lparr>read_patch = apply_read_patch_callback,
     pread_source = (if xd_source_path p = None then xdelta_read_source_callback else xdelta_read_fat_callback env)\<rparr>"

definition read_callback_xdelta :: "('w, 'x) apply_env \<Rightarrow> 'x xdelta_state \<Rightarrow> ('w, 'x, byte list \<times> int) apply_step" where
  "read_callback_xdelta env xd = (\<lambda>ctx.
     if length (map_entries (pd_sfm (fc_cookie ctx))) \<noteq> 1 then (Inl (Msg ''Sparse xdelta not supported''), ctx)
     else (case xdelta_read (ve_fuel (ap_arc env)) (ve_xd3 (ap_arc env)) (apply_callbacks env (fc_cookie ctx)) (ctx, xd) of
        (r, (ctx', xd')) \<Rightarrow>
          ok_then (from_res r) (\<lambda>buffer. with_pd (\<lambda>p. (case advance (int (length buffer)) p of
             Inl e \<Rightarrow> (Inl e, p) | Inr p' \<Rightarrow> (Inr (buffer, actual_offset p), p'))))
            (ctx'\<lparr>fc_cookie := (fc_cookie ctx')\<lparr>pd_xd := Some xd'\<rparr>\<rparr>)))"

definition read_callback :: "('w, 'x) apply_env \<Rightarrow> ('w, 'x, byte list \<times> int) apply_step" where
  "read_callback env = (\<lambda>ctx. case pd_xd (fc_cookie ctx) of
     Some xd \<Rightarrow> read_callback_xdelta env xd ctx
   | None \<Rightarrow> with_pd read_callback_normal ctx)"

text \<open>The start of a resource in \<open>run_task\<close>; a hole at the beginning is skipped.\<close>

definition start_resource :: "sparse_file_map \<Rightarrow> 'x fwup_apply_data \<Rightarrow> 'x fwup_apply_data" where
  "start_resource sfm p =
     (let m = map_entries sfm;
          p' = p\<lparr>pd_sfm := sfm, sparse_map_ix := 0, sparse_block_offset := 0, actual_offset := 0, sparse_leftover := []\<rparr> in
      if m ! 0 = 0 then
        (if length m > 2 then p'\<lparr>sparse_map_ix := 2, actual_offset := m ! 1\<rparr> else p'\<lparr>sparse_map_ix := length m\<rparr>)
      else p')"

section \<open>The pieces put a sparse file together again\<close>

text \<open>
  A map whose segments are not empty, but for the first one, and whose lengths are not negative and add
  up to an \<open>off_t\<close>; and the states of the reader between two calls.
\<close>

definition segments_ok :: "int list \<Rightarrow> bool" where
  "segments_ok m \<longleftrightarrow> m \<noteq> [] \<and> (\<forall>i < length m. 0 \<le> m ! i \<and> (even i \<and> 0 < i \<longrightarrow> 0 < m ! i)) \<and> sum_list m < 2 ^ 63"

definition reader_ok :: "'x fwup_apply_data \<Rightarrow> bool" where
  "reader_ok p \<longleftrightarrow>
     (let m = map_entries (pd_sfm p); ix = sparse_map_ix p in
      segments_ok m \<and> ix \<le> length m \<and>
      (ix < length m \<longrightarrow> even ix \<and> 0 \<le> sparse_block_offset p \<and> sparse_block_offset p < m ! ix \<and>
         actual_offset p = sum_list (take ix m) + sparse_block_offset p))"

definition stream_of :: "'x fwup_apply_data \<Rightarrow> byte list" where
  "stream_of p = sparse_leftover p @ data_of (pd_blocks p)"

text \<open>\<open>n\<close> bytes of the current segment are passed on; at its end the hole is skipped.\<close>

definition consume :: "nat \<Rightarrow> 'x fwup_apply_data \<Rightarrow> 'x fwup_apply_data" where
  "consume n p =
     (let m = map_entries (pd_sfm p); ix = sparse_map_ix p; a = actual_offset p + int n in
      if sparse_block_offset p + int n < m ! ix
      then p\<lparr>actual_offset := a, sparse_block_offset := sparse_block_offset p + int n\<rparr>
      else if ix + 1 < length m then p\<lparr>actual_offset := a + m ! (ix + 1), sparse_map_ix := ix + 2, sparse_block_offset := 0\<rparr>
      else p\<lparr>actual_offset := a, sparse_map_ix := ix + 1, sparse_block_offset := 0\<rparr>)"

lemma sum_take_bounds:
  assumes "segments_ok m"
  shows "0 \<le> sum_list (take i m)" "sum_list (take i m) \<le> sum_list m"
proof -
  have nn: "\<forall>x \<in> set m. 0 \<le> x" using assms by (auto simp: segments_ok_def in_set_conv_nth)
  show "0 \<le> sum_list (take i m)" using nn by (intro sum_list_nonneg) (auto dest: in_set_takeD)
  have "0 \<le> sum_list (drop i m)" using nn by (intro sum_list_nonneg) (auto dest: in_set_dropD)
  then show "sum_list (take i m) \<le> sum_list m" by (metis append_take_drop_id le_add_same_cancel1 sum_list_append)
qed

lemma sum_take_Suc: "i < length m \<Longrightarrow> sum_list (take (Suc i) m) = sum_list (take i m) + (m ! i :: int)"
  by (simp add: take_Suc_conv_app_nth)

lemma advance_Inr: "0 \<le> actual_offset p + n \<Longrightarrow> actual_offset p + n < 2 ^ 63 \<Longrightarrow>
    advance n p = Inr (p\<lparr>actual_offset := actual_offset p + n\<rparr>)"
  by (simp add: advance_def int64_def)

text \<open>Where the reader is, in bounds.\<close>

lemma reader_okD:
  assumes "reader_ok p" and "sparse_map_ix p < length (map_entries (pd_sfm p))"
  defines "m \<equiv> map_entries (pd_sfm p)" and "ix \<equiv> sparse_map_ix p"
  shows "segments_ok m" "even ix" "0 \<le> sparse_block_offset p" "sparse_block_offset p < m ! ix"
    "0 \<le> actual_offset p" "n \<le> m ! ix - sparse_block_offset p \<Longrightarrow> actual_offset p + n < 2 ^ 63"
    "ix + 1 < length m \<Longrightarrow> actual_offset p + (m ! ix - sparse_block_offset p) + m ! (ix + 1) < 2 ^ 63"
    "ix + 1 < length m \<Longrightarrow> 0 \<le> m ! (ix + 1)"
proof -
  have ok: "segments_ok m" "even ix" "0 \<le> sparse_block_offset p" "sparse_block_offset p < m ! ix"
      "actual_offset p = sum_list (take ix m) + sparse_block_offset p"
    using assms by (auto simp: reader_ok_def Let_def)
  then show "segments_ok m" "even ix" "0 \<le> sparse_block_offset p" "sparse_block_offset p < m ! ix" by blast+
  have ix: "ix < length m" using assms(2) by (simp add: m_def ix_def)
  show "0 \<le> actual_offset p" using ok sum_take_bounds(1) [OF ok(1)] by (simp add: add_nonneg_nonneg)
  have s: "sum_list m < 2 ^ 63" using ok(1) by (simp add: segments_ok_def)
  have s1: "sum_list (take ix m) + m ! ix \<le> sum_list m"
    using sum_take_bounds(2) [OF ok(1), of "Suc ix"] ix by (simp add: sum_take_Suc)
  show "n \<le> m ! ix - sparse_block_offset p \<Longrightarrow> actual_offset p + n < 2 ^ 63" using s1 s ok(5) by linarith
  { assume i1: "ix + 1 < length m"
    have "sum_list (take ix m) + m ! ix + m ! (ix + 1) \<le> sum_list m"
      using sum_take_bounds(2) [OF ok(1), of "Suc (Suc ix)"] ix i1 by (simp add: sum_take_Suc)
    then show "actual_offset p + (m ! ix - sparse_block_offset p) + m ! (ix + 1) < 2 ^ 63" using s ok(5) by linarith
    show "0 \<le> m ! (ix + 1)" using ok(1) i1 by (simp add: segments_ok_def) }
qed

lemma next_segment_Inr:
  assumes ok: "reader_ok p" and ix: "sparse_map_ix p < length (map_entries (pd_sfm p))"
    and n: "int n = map_entries (pd_sfm p) ! sparse_map_ix p - sparse_block_offset p"
    and q: "q = p\<lparr>actual_offset := actual_offset p + int n, sparse_leftover := l, sparse_block_offset := b\<rparr>"
  shows "next_segment q = Inr (consume n (p\<lparr>sparse_leftover := l\<rparr>))"
proof (cases "sparse_map_ix p + 1 < length (map_entries (pd_sfm p))")
  case True
  let ?q = "q\<lparr>sparse_map_ix := sparse_map_ix p + 1, sparse_block_offset := 0\<rparr>"
  have "advance (map_entries (pd_sfm p) ! (sparse_map_ix p + 1)) ?q =
      Inr (?q\<lparr>actual_offset := actual_offset ?q + map_entries (pd_sfm p) ! (sparse_map_ix p + 1)\<rparr>)"
    using reader_okD(7) [OF ok ix True] reader_okD(8) [OF ok ix True] reader_okD(5) [OF ok ix] n
    by (intro advance_Inr) (simp_all add: q)
  then show ?thesis using True n by (simp add: next_segment_def consume_def q Let_def)
qed (use ix n in \<open>simp add: next_segment_def consume_def q Let_def\<close>)

lemma consume_ok:
  assumes ok: "reader_ok p" and ix: "sparse_map_ix p < length (map_entries (pd_sfm p))"
    and n: "int n \<le> map_entries (pd_sfm p) ! sparse_map_ix p - sparse_block_offset p"
  shows "reader_ok (consume n p)"
proof -
  let ?m = "map_entries (pd_sfm p)" and ?ix = "sparse_map_ix p"
  note d = reader_okD [OF ok ix]
  have a: "actual_offset p = sum_list (take ?ix ?m) + sparse_block_offset p" using ok ix by (simp add: reader_ok_def Let_def)
  have p2: "0 < ?m ! (?ix + 2)" if "?ix + 2 < length ?m" using d(1,2) that by (simp add: segments_ok_def)
  show ?thesis
    using d(1-4) ix n a p2 by (auto simp: reader_ok_def consume_def Let_def sum_take_Suc)
qed

lemma read_leftover_Inr:
  assumes ok: "reader_ok p" and ix: "sparse_map_ix p < length (map_entries (pd_sfm p))"
    and n: "n = min (length (sparse_leftover p)) (nat (map_entries (pd_sfm p) ! sparse_map_ix p - sparse_block_offset p))"
  shows "read_leftover (map_entries (pd_sfm p) ! sparse_map_ix p) p =
    (Inr (take n (sparse_leftover p), actual_offset p), consume n (p\<lparr>sparse_leftover := drop n (sparse_leftover p)\<rparr>))"
proof -
  let ?c = "map_entries (pd_sfm p) ! sparse_map_ix p" and ?l = "drop n (sparse_leftover p)"
  let ?p = "p\<lparr>sparse_leftover := ?l\<rparr>"
  note d = reader_okD [OF ok ix]
  have le: "int n \<le> ?c - sparse_block_offset p" using d(4) by (simp add: n)
  have n': "(if ?c - sparse_block_offset p \<ge> int (length (sparse_leftover p)) then length (sparse_leftover p)
      else nat (?c - sparse_block_offset p)) = n" using d(4) by (auto simp: n)
  have a: "advance (int n) ?p = Inr (?p\<lparr>actual_offset := actual_offset p + int n\<rparr>)"
    using advance_Inr [of ?p "int n"] d(5) d(6) [OF le] by simp
  show ?thesis
  proof (cases "sparse_block_offset p + int n = ?c")
    case True
    have "next_segment (?p\<lparr>actual_offset := actual_offset p + int n, sparse_block_offset := ?c\<rparr>) = Inr (consume n ?p)"
      by (rule next_segment_Inr [OF ok ix, where b = ?c]) (use True in simp_all)
    then show ?thesis using d(4) True a n' by (simp add: read_leftover_def Let_def)
  next
    case False
    then show ?thesis using d(4) le a n' by (simp add: read_leftover_def Let_def consume_def)
  qed
qed

lemma take_block_Inr:
  assumes ok: "reader_ok p" and ix: "sparse_map_ix p < length (map_entries (pd_sfm p))" and e: "sparse_leftover p = []"
    and n: "n = min (length buffer) (nat (map_entries (pd_sfm p) ! sparse_map_ix p - sparse_block_offset p))"
  shows "take_block (map_entries (pd_sfm p) ! sparse_map_ix p) buffer p =
    (Inr (take n buffer, actual_offset p), consume n (p\<lparr>sparse_leftover := drop n buffer\<rparr>))"
proof -
  let ?c = "map_entries (pd_sfm p) ! sparse_map_ix p" and ?l = "drop n buffer"
  note d = reader_okD [OF ok ix]
  have le: "int n \<le> ?c - sparse_block_offset p" using d(4) by (simp add: n)
  have a: "advance (int n) p = Inr (p\<lparr>actual_offset := actual_offset p + int n\<rparr>)"
    using advance_Inr [of p "int n"] d(5) d(6) [OF le] by simp
  show ?thesis
  proof (cases "?c - sparse_block_offset p > int (length buffer)")
    case True
    then have n': "n = length buffer" by (simp add: n)
    have "p\<lparr>sparse_leftover := []\<rparr> = p" using e by (cases p) simp
    then show ?thesis using True a by (simp add: take_block_def Let_def consume_def n')
  next
    case False
    then have n': "int n = ?c - sparse_block_offset p" using d(4) by (simp add: n)
    have ns: "next_segment (p\<lparr>actual_offset := actual_offset p + int n, sparse_leftover := ?l\<rparr>) = Inr (consume n (p\<lparr>sparse_leftover := ?l\<rparr>))"
      by (rule next_segment_Inr [OF ok ix n', where b = "sparse_block_offset p"]) simp
    have r: "?c - sparse_block_offset p = int n" using n' by simp
    have "\<not> int n > int (length buffer)" using False r by simp
    then show ?thesis unfolding take_block_def Let_def r by (simp add: a ns)
  qed
qed

lemma consume_same [simp]: "pd_sfm (consume n p) = pd_sfm p" "pd_blocks (consume n p) = pd_blocks p"
  "sparse_leftover (consume n p) = sparse_leftover p" "pd_xd (consume n p) = pd_xd p"
  by (simp_all add: consume_def Let_def)

lemma reader_ok_same: "reader_ok p \<Longrightarrow> reader_ok (p\<lparr>sparse_leftover := l\<rparr>)" "reader_ok p \<Longrightarrow> reader_ok (p\<lparr>pd_blocks := bl\<rparr>)"
  by (simp_all add: reader_ok_def)

text \<open>
  One call: nothing when the map or the data is at its end, otherwise bytes of the current
  segment, from the front of the data; an undefined execution is not possible.
\<close>

lemma read_callback_normal_cases:
  assumes ok: "reader_ok p"
  obtains (at_end) p' where "read_callback_normal p = (Inr ([], 0), p')" "p' = p\<lparr>pd_blocks := pd_blocks p'\<rparr>"
      "sparse_map_ix p = length (map_entries (pd_sfm p)) \<or> stream_of p = []"
  | (piece) b p0 where "read_callback_normal p = (Inr (b, actual_offset p), consume (length b) p0)" "b \<noteq> []"
      "sparse_map_ix p < length (map_entries (pd_sfm p))"
      "int (length b) \<le> map_entries (pd_sfm p) ! sparse_map_ix p - sparse_block_offset p"
      "stream_of p = b @ stream_of p0" "readable (pd_blocks p) = readable (pd_blocks p0)"
      "p0 = p\<lparr>pd_blocks := pd_blocks p0, sparse_leftover := sparse_leftover p0\<rparr>"
  | (failed) m p' where "read_callback_normal p = (Inl (Msg m), p')" "\<not> readable (pd_blocks p)" "p' = p\<lparr>pd_blocks := pd_blocks p'\<rparr>"
proof (cases "sparse_map_ix p = length (map_entries (pd_sfm p))")
  case True
  then show thesis using at_end [of p] by (simp add: read_callback_normal_def)
next
  case False
  then have ix: "sparse_map_ix p < length (map_entries (pd_sfm p))" using ok by (simp add: reader_ok_def Let_def)
  let ?c = "map_entries (pd_sfm p) ! sparse_map_ix p"
  note d = reader_okD [OF ok ix]
  show thesis
  proof (cases "sparse_leftover p = []")
    case False
    define n where "n = min (length (sparse_leftover p)) (nat (?c - sparse_block_offset p))"
    let ?p0 = "p\<lparr>sparse_leftover := drop n (sparse_leftover p)\<rparr>"
    have ln: "length (take n (sparse_leftover p)) = n" by (simp add: n_def)
    have "read_callback_normal p = (Inr (take n (sparse_leftover p), actual_offset p), consume n ?p0)"
      using ix False read_leftover_Inr [OF ok ix n_def] by (simp add: read_callback_normal_def Let_def)
    moreover have "take n (sparse_leftover p) \<noteq> []" using False d(4) by (simp add: n_def)
    ultimately show thesis
      using piece [of "take n (sparse_leftover p)" ?p0, unfolded ln] ix d(4) by (simp add: n_def stream_of_def)
  next
    case True
    obtain r bl where nb: "next_block (pd_blocks p) = (r, bl)" by fastforce
    show thesis
    proof (cases r)
      case (Inl e)
      have "\<exists>m. e = Msg m \<and> \<not> readable bk" if "next_block bk = (Inl e, bl)" for bk
        using that by (induction bk rule: next_block.induct) (auto simp: readable_def split: if_splits)
      then obtain m where "e = Msg m" "\<not> readable (pd_blocks p)" using nb Inl by blast
      then show thesis using failed [of m "p\<lparr>pd_blocks := bl\<rparr>"] ix True nb Inl by (simp add: read_callback_normal_def Let_def)
    next
      case r: (Inr x)
      show thesis
      proof (cases x)
        case None
        then have "data_of (pd_blocks p) = []" using next_block_data(2) nb r by blast
        then show thesis using at_end [of "p\<lparr>pd_blocks := bl\<rparr>"] ix True nb r None
          by (simp add: read_callback_normal_def Let_def stream_of_def)
      next
        case (Some y)
        then obtain buffer o1 where nb': "next_block (pd_blocks p) = (Inr (Some (buffer, o1)), bl)"
          using nb r by (cases y) auto
        note db = next_block_data(1) [OF nb']
        have ne: "buffer \<noteq> []" if "next_block bk = (Inr (Some (buffer, o1)), bl)" for bk
          using that by (induction bk rule: next_block.induct) (auto split: if_splits)
        define n where "n = min (length buffer) (nat (?c - sparse_block_offset p))"
        let ?p0 = "p\<lparr>pd_blocks := bl, sparse_leftover := drop n buffer\<rparr>"
        have ln: "length (take n buffer) = n" by (simp add: n_def)
        have "take_block ?c buffer (p\<lparr>pd_blocks := bl\<rparr>) = (Inr (take n buffer, actual_offset p), consume n ?p0)"
          using take_block_Inr [of "p\<lparr>pd_blocks := bl\<rparr>" n buffer] reader_ok_same(2) [OF ok] ix True by (simp add: n_def)
        then have "read_callback_normal p = (Inr (take n buffer, actual_offset p), consume n ?p0)"
          using ix True nb' by (simp add: read_callback_normal_def Let_def)
        moreover have "take n buffer \<noteq> []" using ne [OF nb'] d(4) by (simp add: n_def)
        ultimately show thesis
          using piece [of "take n buffer" ?p0, unfolded ln] ix d(4) db True by (simp add: n_def stream_of_def)
      qed
    qed
  qed
qed

text \<open>The pieces that the calls deliver until the first one without data.\<close>

fun delivers :: "'x fwup_apply_data \<Rightarrow> (byte list \<times> int) list \<Rightarrow> 'x fwup_apply_data \<Rightarrow> bool" where
  "delivers p [] p' = (\<exists>offset. read_callback_normal p = (Inr ([], offset), p'))"
| "delivers p ((b, offset) # cs) p' = (b \<noteq> [] \<and> (\<exists>p1. read_callback_normal p = (Inr (b, offset), p1) \<and> delivers p1 cs p'))"

text \<open>The bytes of the file that are ahead: data or hole.\<close>

definition flags_ahead :: "'x fwup_apply_data \<Rightarrow> bool list" where
  "flags_ahead p = ahead (map_entries (pd_sfm p)) \<lparr>map_ix = sparse_map_ix p, offset_in_segment = sparse_block_offset p\<rparr>"

definition at_dest :: "nat \<Rightarrow> (byte list \<times> int) list \<Rightarrow> (byte list \<times> nat) list" where
  "at_dest dest = map (\<lambda>(b, offset). (b, nat (int dest + offset)))"

lemma at_dest_simps [simp]: "at_dest dest [] = []"
  "at_dest dest ((b, offset) # cs) = (b, nat (int dest + offset)) # at_dest dest cs"
  by (simp_all add: at_dest_def)

lemma flags_ahead_end: "sparse_map_ix p = length (map_entries (pd_sfm p)) \<Longrightarrow> flags_ahead p = []"
  by (simp add: flags_ahead_def ahead_def)

text \<open>Behind the bytes that are passed on there may be a hole before the next piece.\<close>

lemma flags_ahead_consume:
  assumes ok: "reader_ok p" and ix: "sparse_map_ix p < length (map_entries (pd_sfm p))"
    and n: "int n \<le> map_entries (pd_sfm p) ! sparse_map_ix p - sparse_block_offset p"
  shows "\<exists>h. flags_ahead p = replicate n True @ replicate h False @ flags_ahead (consume n p) \<and>
    actual_offset (consume n p) = actual_offset p + int n + int h"
proof -
  let ?m = "map_entries (pd_sfm p)" and ?ix = "sparse_map_ix p"
  let ?it = "\<lparr>map_ix = ?ix, offset_in_segment = sparse_block_offset p\<rparr>"
  let ?next = "\<lparr>map_ix = ?ix + 1, offset_in_segment = 0\<rparr>"
  note d = reader_okD [OF ok ix]
  have fl: "flags_ahead p = replicate (nat (?m ! ?ix - sparse_block_offset p)) True @ ahead ?m ?next"
    using ahead_next [of ?it ?m] ix d(2) by (simp add: flags_ahead_def)
  consider (inside) "sparse_block_offset p + int n < ?m ! ?ix"
    | (hole) "sparse_block_offset p + int n = ?m ! ?ix" "?ix + 1 < length ?m"
    | (last) "sparse_block_offset p + int n = ?m ! ?ix" "?ix + 1 = length ?m"
    using n ix by linarith
  then show ?thesis
  proof cases
    case inside
    let ?r = "nat (?m ! ?ix - (sparse_block_offset p + int n))"
    have k: "nat (?m ! ?ix - sparse_block_offset p) = n + ?r" using inside by simp
    have "flags_ahead (consume n p) = replicate ?r True @ ahead ?m ?next"
      using ahead_next [of "?it\<lparr>offset_in_segment := sparse_block_offset p + int n\<rparr>" ?m] ix d(2) inside
      by (simp add: flags_ahead_def consume_def Let_def)
    moreover have "actual_offset (consume n p) = actual_offset p + int n" using inside by (simp add: consume_def Let_def)
    ultimately show ?thesis using fl unfolding k by (intro exI [of _ 0]) (simp add: replicate_add)
  next
    case hole
    have k: "nat (?m ! ?ix - sparse_block_offset p) = n" using hole(1) by simp
    have "ahead ?m ?next = replicate (nat (?m ! (?ix + 1))) False @ ahead ?m \<lparr>map_ix = ?ix + 2, offset_in_segment = 0\<rparr>"
      using ahead_next [of ?next ?m] hole(2) d(2) by simp
    moreover have "flags_ahead (consume n p) = ahead ?m \<lparr>map_ix = ?ix + 2, offset_in_segment = 0\<rparr>"
      using hole by (simp add: flags_ahead_def consume_def Let_def)
    moreover have "actual_offset (consume n p) = actual_offset p + int n + int (nat (?m ! (?ix + 1)))"
      using hole d(8) by (simp add: consume_def Let_def)
    ultimately show ?thesis using fl unfolding k by (intro exI [of _ "nat (?m ! (?ix + 1))"]) simp
  next
    case last
    have k: "nat (?m ! ?ix - sparse_block_offset p) = n" using last(1) by simp
    have "ahead ?m ?next = []" "flags_ahead (consume n p) = []" "actual_offset (consume n p) = actual_offset p + int n"
      using last by (simp_all add: ahead_def flags_ahead_def consume_def Let_def)
    then show ?thesis using fl unfolding k by (intro exI [of _ 0]) simp
  qed
qed

lemma flags_ahead_same: "flags_ahead (p\<lparr>pd_blocks := bl, sparse_leftover := l\<rparr>) = flags_ahead p"
  by (simp add: flags_ahead_def)

text \<open>What a call leaves for the next ones.\<close>

lemma piece_step:
  assumes ok: "reader_ok p" and r: "read_callback_normal p = (Inr (b, offset), p1)" and b: "b \<noteq> []"
  shows "reader_ok p1" "offset = actual_offset p" "0 \<le> actual_offset p" "stream_of p = b @ stream_of p1" "pd_xd p1 = pd_xd p"
    "readable (pd_blocks p1) = readable (pd_blocks p)"
    "\<exists>h. flags_ahead p = replicate (length b) True @ replicate h False @ flags_ahead p1 \<and>
         actual_offset p1 = actual_offset p + int (length b) + int h"
proof -
  obtain p0 where p0: "p1 = consume (length b) p0" "offset = actual_offset p"
      "sparse_map_ix p < length (map_entries (pd_sfm p))"
      "int (length b) \<le> map_entries (pd_sfm p) ! sparse_map_ix p - sparse_block_offset p"
      "stream_of p = b @ stream_of p0" "readable (pd_blocks p) = readable (pd_blocks p0)"
      and e: "p0 = p\<lparr>pd_blocks := pd_blocks p0, sparse_leftover := sparse_leftover p0\<rparr>"
    by (rule read_callback_normal_cases [OF ok]) (use r b in auto)
  have s: "pd_sfm p0 = pd_sfm p" "sparse_map_ix p0 = sparse_map_ix p" "sparse_block_offset p0 = sparse_block_offset p"
      "actual_offset p0 = actual_offset p" "pd_xd p0 = pd_xd p" "flags_ahead p0 = flags_ahead p"
    by (subst e; simp add: flags_ahead_same)+
  have ok0: "reader_ok p0" using ok s by (simp add: reader_ok_def)
  have ix0: "sparse_map_ix p0 < length (map_entries (pd_sfm p0))" using p0(3) s by simp
  have n0: "int (length b) \<le> map_entries (pd_sfm p0) ! sparse_map_ix p0 - sparse_block_offset p0" using p0(4) s by simp
  show "reader_ok p1" unfolding p0(1) by (rule consume_ok [OF ok0 ix0 n0])
  show "offset = actual_offset p" by (rule p0(2))
  show "0 \<le> actual_offset p" by (rule reader_okD(5) [OF ok p0(3)])
  show "stream_of p = b @ stream_of p1" using p0(1,5) by (simp add: stream_of_def)
  show "pd_xd p1 = pd_xd p" using p0(1) s by simp
  show "readable (pd_blocks p1) = readable (pd_blocks p)" using p0(1,6) by simp
  show "\<exists>h. flags_ahead p = replicate (length b) True @ replicate h False @ flags_ahead p1 \<and>
         actual_offset p1 = actual_offset p + int (length b) + int h"
    using flags_ahead_consume [OF ok0 ix0 n0] s p0(1) by simp
qed

text \<open>
  The file ahead is \<open>F\<close>, its holes are zero, and its data is what is still to come. Then the pieces
  write exactly the data of \<open>F\<close> to where it belongs.
\<close>

lemma delivers_writes:
  assumes "reader_ok p" and "delivers p cs p'" and "length F = length (flags_ahead p)" and "stream_of p = select F (flags_ahead p)"
  shows "chunk_bytes (at_dest dest cs) f a =
    (if dest + nat (actual_offset p) \<le> a \<and> a < dest + nat (actual_offset p) + length F \<and> flags_ahead p ! (a - (dest + nat (actual_offset p)))
     then F ! (a - (dest + nat (actual_offset p))) else f a)"
  using assms
proof (induction cs arbitrary: p F f)
  case Nil
  then obtain offset where r: "read_callback_normal p = (Inr ([], offset), p')" by auto
  have e: "sparse_map_ix p = length (map_entries (pd_sfm p)) \<or> stream_of p = []"
    by (rule read_callback_normal_cases [OF Nil.prems(1)]) (use r in auto)
  have "\<not> flags_ahead p ! i" if i: "i < length F" for i
  proof
    assume fl: "flags_ahead p ! i"
    have "select F (flags_ahead p) = []" using e Nil.prems(3,4) i flags_ahead_end [of p] by auto
    moreover have "(F ! i, True) \<in> set (zip F (flags_ahead p))" using i fl Nil.prems(3) by (auto simp: set_zip)
    ultimately show False by (auto simp: select_def filter_empty_conv)
  qed
  then show ?case by (auto simp: chunk_bytes_def)
next
  case (Cons c cs)
  obtain b offset where c: "c = (b, offset)" by fastforce
  with Cons.prems(2) obtain p1 where b: "b \<noteq> []" and r: "read_callback_normal p = (Inr (b, offset), p1)" and dl: "delivers p1 cs p'"
    by auto
  note st = piece_step [OF Cons.prems(1) r b]
  obtain h where h: "flags_ahead p = replicate (length b) True @ replicate h False @ flags_ahead p1"
      "actual_offset p1 = actual_offset p + int (length b) + int h"
    using st(7) by blast
  let ?o = "nat (actual_offset p)" and ?F1 = "drop (length b + h) F"
  have lF: "length F = length b + h + length (flags_ahead p1)" using Cons.prems(3) h(1) by simp
  have F: "F = take (length b) F @ take h (drop (length b) F) @ ?F1"
    by (metis add.commute append_take_drop_id drop_drop)
  have sel: "select F (flags_ahead p) = take (length b) F @ select ?F1 (flags_ahead p1)"
  proof -
    have "select F (flags_ahead p) = select (take (length b) F @ take h (drop (length b) F) @ ?F1)
        (replicate (length b) True @ replicate h False @ flags_ahead p1)"
      using F h(1) by simp
    also have "\<dots> = select (take (length b) F) (replicate (length b) True) @
        select (take h (drop (length b) F)) (replicate h False) @ select ?F1 (flags_ahead p1)"
      using lF by (simp add: select_append)
    finally show ?thesis by simp
  qed
  have bs: "take (length b) F = b" "stream_of p1 = select ?F1 (flags_ahead p1)"
    using Cons.prems(4) st(4) sel lF by (simp_all add: append_eq_append_conv)
  have o1: "nat (actual_offset p1) = ?o + length b + h" using h(2) st(3) by (simp add: nat_add_distrib)
  have IH: "chunk_bytes (at_dest dest cs) g a =
    (if dest + nat (actual_offset p1) \<le> a \<and> a < dest + nat (actual_offset p1) + length ?F1 \<and>
        flags_ahead p1 ! (a - (dest + nat (actual_offset p1)))
     then ?F1 ! (a - (dest + nat (actual_offset p1))) else g a)" for g
    by (rule Cons.IH [OF st(1) dl _ bs(2)]) (use lF in simp)
  have "chunk_bytes (at_dest dest (c # cs)) f a = chunk_bytes (at_dest dest cs) (store_bytes b (dest + ?o) f) a"
    using st(2,3) by (simp add: c chunk_bytes_def nat_add_distrib)
  also have "\<dots> = (if dest + ?o \<le> a \<and> a < dest + ?o + length F \<and> flags_ahead p ! (a - (dest + ?o))
      then F ! (a - (dest + ?o)) else f a)"
  proof -
    consider (before) "a < dest + ?o" | (piece) k where "a = dest + ?o + k" "k < length b"
      | (hole) k where "a = dest + ?o + length b + k" "k < h" | (rest) k where "a = dest + ?o + length b + h + k"
      by (metis le_add_diff_inverse not_less add.assoc nat_add_left_cancel_less)
    then show ?thesis
    proof cases
      case before
      then show ?thesis unfolding IH by (simp add: o1 store_bytes_def)
    next
      case (piece k)
      have "F ! k = b ! k" using bs(1) piece(2) by (metis nth_take)
      then show ?thesis unfolding IH using piece lF by (simp add: o1 store_bytes_def h(1) nth_append)
    next
      case (hole k)
      then show ?thesis unfolding IH using lF by (simp add: o1 store_bytes_def h(1) nth_append)
    next
      case (rest k)
      have i: "a - (dest + ?o) = length b + h + k" "a - (dest + nat (actual_offset p1)) = k" using rest o1 by simp_all
      show ?thesis unfolding IH i using rest lF by (auto simp: o1 store_bytes_def h(1) nth_append)
    qed
  qed
  finally show ?case .
qed

lemma delivers_exists:
  "reader_ok p \<Longrightarrow> readable (pd_blocks p) \<Longrightarrow> \<exists>cs p'. delivers p cs p' \<and> length cs \<le> length (stream_of p)"
proof (induction "length (stream_of p)" arbitrary: p rule: less_induct)
  case less
  show ?case
  proof (rule read_callback_normal_cases [OF less.prems(1)])
    fix p' assume "read_callback_normal p = (Inr ([], 0), p')"
    then show ?thesis by (intro exI [of _ "[]"] exI [of _ p']) simp
  next
    fix b p0 assume r: "read_callback_normal p = (Inr (b, actual_offset p), consume (length b) p0)" and b: "b \<noteq> []"
    let ?p1 = "consume (length b) p0"
    note st = piece_step [OF less.prems(1) r b]
    have l: "length (stream_of p) = length b + length (stream_of ?p1)" using st(4) by simp
    obtain cs p' where "delivers ?p1 cs p'" "length cs \<le> length (stream_of ?p1)"
      using less.hyps [OF _ st(1)] l b st(6) less.prems(2) by fastforce
    moreover obtain n where "length b = Suc n" using b by (cases b) simp_all
    ultimately show ?thesis using r b l by (intro exI [of _ "(b, actual_offset p) # cs"] exI [of _ p']) simp
  qed (use less.prems(2) in simp)
qed

lemma delivers_stream:
  "reader_ok p \<Longrightarrow> delivers p cs p' \<Longrightarrow> \<exists>rest. stream_of p = concat (map fst cs) @ rest \<and>
     (length (stream_of p) \<le> length (filter (\<lambda>x. x) (flags_ahead p)) \<longrightarrow> rest = [])"
proof (induction cs arbitrary: p)
  case Nil
  then obtain offset where r: "read_callback_normal p = (Inr ([], offset), p')" by auto
  have e: "sparse_map_ix p = length (map_entries (pd_sfm p)) \<or> stream_of p = []"
    by (rule read_callback_normal_cases [OF Nil.prems(1)]) (use r in auto)
  then show ?case using flags_ahead_end [of p] by auto
next
  case (Cons c cs)
  obtain b offset where c: "c = (b, offset)" by fastforce
  with Cons.prems(2) obtain p1 where b: "b \<noteq> []" and r: "read_callback_normal p = (Inr (b, offset), p1)" and dl: "delivers p1 cs p'"
    by auto
  note st = piece_step [OF Cons.prems(1) r b]
  obtain rest where rest: "stream_of p1 = concat (map fst cs) @ rest"
      "length (stream_of p1) \<le> length (filter (\<lambda>x. x) (flags_ahead p1)) \<longrightarrow> rest = []"
    using Cons.IH [OF st(1) dl] by blast
  have "length (filter (\<lambda>x. x) (flags_ahead p)) = length b + length (filter (\<lambda>x. x) (flags_ahead p1))" using st(7) by auto
  then show ?case using rest st(4) by (intro exI [of _ rest]) (auto simp: c)
qed

text \<open>The pieces end where the last byte of data does.\<close>

lemma delivers_increasing:
  "reader_ok p \<Longrightarrow> delivers p cs p' \<Longrightarrow> lo \<le> dest + nat (actual_offset p) \<Longrightarrow>
   (\<And>i. i < length (flags_ahead p) \<Longrightarrow> flags_ahead p ! i \<Longrightarrow> dest + nat (actual_offset p) + i < hi) \<Longrightarrow>
   increasing lo hi (at_dest dest cs)"
proof (induction cs arbitrary: p lo)
  case (Cons c cs)
  obtain b offset where c: "c = (b, offset)" by fastforce
  with Cons.prems(2) obtain p1 where b: "b \<noteq> []" and r: "read_callback_normal p = (Inr (b, offset), p1)" and dl: "delivers p1 cs p'"
    by auto
  note st = piece_step [OF Cons.prems(1) r b]
  obtain h where h: "flags_ahead p = replicate (length b) True @ replicate h False @ flags_ahead p1"
      "nat (actual_offset p1) = nat (actual_offset p) + length b + h"
    using st(3,7) by (auto simp: nat_add_distrib)
  have e: "dest + nat (actual_offset p) + length b \<le> hi"
  proof -
    have lb: "0 < length b" using b by simp
    have "dest + nat (actual_offset p) + (length b - 1) < hi"
      by (rule Cons.prems(4)) (use lb in \<open>simp_all only: h(1) length_append length_replicate nth_append nth_replicate\<close>, simp_all)
    then show ?thesis using lb by linarith
  qed
  have "increasing (dest + nat (actual_offset p) + length b) hi (at_dest dest cs)"
  proof (rule Cons.IH [OF st(1) dl])
    fix i assume "i < length (flags_ahead p1)" "flags_ahead p1 ! i"
    then show "dest + nat (actual_offset p1) + i < hi"
      using Cons.prems(4) [of "length b + h + i"] by (simp add: h nth_append ac_simps)
  qed (simp add: h(2))
  then show ?case using b e Cons.prems(3) st(2,3) by (simp add: c nat_add_distrib)
qed simp

lemma start_resource_same [simp]: "pd_blocks (start_resource sfm p) = pd_blocks p" "pd_sfm (start_resource sfm p) = sfm"
  "sparse_leftover (start_resource sfm p) = []" "pd_xd (start_resource sfm p) = pd_xd p"
  by (simp_all add: start_resource_def Let_def)

lemma start_resource_ok:
  assumes "segments_ok m"
  shows "reader_ok (start_resource (Some m) p)"
    "\<exists>k. expand True m = replicate k False @ flags_ahead (start_resource (Some m) p) \<and>
       (flags_ahead (start_resource (Some m) p) \<noteq> [] \<longrightarrow> nat (actual_offset (start_resource (Some m) p)) = k) \<and>
       nat (actual_offset (start_resource (Some m) p)) \<le> k"
proof -
  have m: "m \<noteq> []" "0 \<le> m ! 0" using assms by (auto simp: segments_ok_def)
  have nn: "\<forall>x \<in> set m. 0 \<le> x" using assms by (auto simp: segments_ok_def in_set_conv_nth)
  consider (plain) "m ! 0 \<noteq> 0" | (hole) h d rest where "m = 0 # h # d # rest" | (short) "m = [0]" | (empty) h where "m = [0, h]"
    using m(1) by (cases m; cases "tl m"; cases "tl (tl m)") auto
  then have "reader_ok (start_resource (Some m) p) \<and>
    (\<exists>k. expand True m = replicate k False @ flags_ahead (start_resource (Some m) p) \<and>
       (flags_ahead (start_resource (Some m) p) \<noteq> [] \<longrightarrow> nat (actual_offset (start_resource (Some m) p)) = k) \<and>
       nat (actual_offset (start_resource (Some m) p)) \<le> k)"
  proof cases
    case plain
    have "expand True m = flags_ahead (start_resource (Some m) p)"
      using ahead_start [OF nn] plain by (simp add: flags_ahead_def start_resource_def map_entries_def sparse_file_start_read_def Let_def)
    then show ?thesis using plain m assms
      by (auto simp: reader_ok_def start_resource_def map_entries_def Let_def intro!: exI [of _ 0])
  next
    case (hole h d rest)
    have "\<forall>i < length m. 0 \<le> m ! i \<and> (even i \<and> 0 < i \<longrightarrow> 0 < m ! i)" using assms by (simp add: segments_ok_def)
    from this [rule_format, of 2] this [rule_format, of 1] have "0 < m ! 2" "0 \<le> m ! 1" using hole by simp_all
    then show ?thesis using assms hole
      by (auto simp: reader_ok_def start_resource_def map_entries_def Let_def flags_ahead_def ahead_def numeral_2_eq_2 intro!: exI [of _ "nat h"])
  next
    case short
    then show ?thesis using assms
      by (auto simp: reader_ok_def start_resource_def map_entries_def Let_def flags_ahead_def ahead_def intro!: exI [of _ 0])
  next
    case (empty h)
    then show ?thesis using assms
      by (auto simp: reader_ok_def start_resource_def map_entries_def Let_def flags_ahead_def ahead_def intro!: exI [of _ "nat h"])
  qed
  then show "reader_ok (start_resource (Some m) p)"
    "\<exists>k. expand True m = replicate k False @ flags_ahead (start_resource (Some m) p) \<and>
       (flags_ahead (start_resource (Some m) p) \<noteq> [] \<longrightarrow> nat (actual_offset (start_resource (Some m) p)) = k) \<and>
       nat (actual_offset (start_resource (Some m) p)) \<le> k" by blast+
qed

text \<open>A file whose holes, by its map, are zero, and the data that the archive has of it.\<close>

lemma sum_off_t_Inr: "sum_off_t acc ns = Inr s \<Longrightarrow> s = acc + sum_list ns"
proof (induction ns arbitrary: acc)
  case (Cons n ns)
  then have "sum_off_t (acc + n) ns = Inr s" by (auto simp: bind_res_eq_Inr int64_def split: if_splits)
  from Cons.IH [OF this] show ?case by simp
qed simp

definition sparse_resource :: "int list \<Rightarrow> byte list \<Rightarrow> block_answer list \<Rightarrow> bool" where
  "sparse_resource m file blocks \<longleftrightarrow>
     segments_ok m \<and> length (expand True m) = length file \<and> (\<forall>a < length file. \<not> expand True m ! a \<longrightarrow> file ! a = 0) \<and>
     readable blocks \<and> data_of blocks = select file (expand True m)"

lemma untouched_same: "\<not> in_touched_block cs a \<Longrightarrow> chunk_bytes cs f a = f a"
proof (induction cs arbitrary: f)
  case (Cons c cs)
  obtain b offset where c: "c = (b, offset)" by fastforce
  have "a < offset \<or> offset + length b \<le> a"
  proof (rule ccontr)
    assume "\<not> ?thesis"
    then have "offset div 512 \<le> a div 512" "a div 512 \<le> (offset + length b - 1) div 512" by (auto intro: div_le_mono)
    then show False using Cons.prems by (simp add: in_touched_block_def c)
  qed
  moreover have "chunk_bytes cs (store_bytes b offset f) a = store_bytes b offset f a"
    using Cons by (simp add: in_touched_block_def)
  ultimately show ?case by (simp add: chunk_bytes_def c store_bytes_other)
qed (simp add: chunk_bytes_def)

lemma resource_pieces:
  assumes "sparse_resource m file (pd_blocks p)"
  shows "stream_of (start_resource (Some m) p) = data_of (pd_blocks p)"
    "delivers (start_resource (Some m) p) cs p' \<Longrightarrow> concat (map fst cs) = data_of (pd_blocks p)"
    "delivers (start_resource (Some m) p) cs p' \<Longrightarrow> (\<And>i. i < length file \<Longrightarrow> f (dest + i) = 0) \<Longrightarrow> a < length file \<Longrightarrow>
       chunk_bytes (at_dest dest cs) f (dest + a) = file ! a"
    "delivers (start_resource (Some m) p) cs p' \<Longrightarrow> (\<And>i. i < length file \<Longrightarrow> expand True m ! i \<Longrightarrow> dest + i < hi) \<Longrightarrow>
       increasing dest hi (at_dest dest cs)"
    "delivers (start_resource (Some m) p) cs p' \<Longrightarrow> a < length file \<Longrightarrow> expand True m ! a \<Longrightarrow> in_touched_block (at_dest dest cs) (dest + a)"
proof -
  let ?p = "start_resource (Some m) p"
  have m: "segments_ok m" and l: "length (expand True m) = length file"
    and z: "\<forall>a < length file. \<not> expand True m ! a \<longrightarrow> file ! a = 0" and d: "data_of (pd_blocks p) = select file (expand True m)"
    using assms by (simp_all add: sparse_resource_def)
  note ok = start_resource_ok(1) [OF m, of p]
  obtain k where k: "expand True m = replicate k False @ flags_ahead ?p" "flags_ahead ?p \<noteq> [] \<longrightarrow> nat (actual_offset ?p) = k"
      "nat (actual_offset ?p) \<le> k"
    using start_resource_ok(2) [OF m, of p] by blast
  show s: "stream_of ?p = data_of (pd_blocks p)" by (simp add: stream_of_def)
  have lk: "length file = k + length (flags_ahead ?p)" using l k(1) by simp
  have sel: "stream_of ?p = select (drop k file) (flags_ahead ?p)"
  proof -
    have "select file (expand True m) = select (take k file) (replicate k False) @ select (drop k file) (flags_ahead ?p)"
      using select_append [of "take k file" "replicate k False" "drop k file" "flags_ahead ?p"] lk k(1) by simp
    then show ?thesis using s d by simp
  qed
  show "concat (map fst cs) = data_of (pd_blocks p)" if dl: "delivers ?p cs p'"
  proof -
    have "length (select xs fl) \<le> length (filter (\<lambda>x. x) fl)" for xs :: "byte list" and fl
      by (induction xs fl rule: list_induct2') (auto simp: select_def)
    then show ?thesis using delivers_stream [OF ok dl] sel s by auto
  qed
  show "increasing dest hi (at_dest dest cs)" if dl: "delivers ?p cs p'" and hi: "\<And>i. i < length file \<Longrightarrow> expand True m ! i \<Longrightarrow> dest + i < hi"
  proof (rule delivers_increasing [OF ok dl])
    fix i assume i: "i < length (flags_ahead ?p)" "flags_ahead ?p ! i"
    then have "nat (actual_offset ?p) = k" using k(2) by (cases "flags_ahead ?p") simp_all
    then show "dest + nat (actual_offset ?p) + i < hi" using hi [of "k + i"] i lk by (simp add: k(1) nth_append ac_simps)
  qed simp
  show "in_touched_block (at_dest dest cs) (dest + a)" if dl: "delivers ?p cs p'" and a: "a < length file" "expand True m ! a"
  proof (rule ccontr)
    assume nt: "\<not> in_touched_block (at_dest dest cs) (dest + a)"
    have ex: "k \<le> a" "flags_ahead ?p ! (a - k)" using a lk by (simp_all add: k(1) nth_append split: if_splits)
    then have o: "nat (actual_offset ?p) = k" using k(2) a(1) lk by (cases "flags_ahead ?p") simp_all
    have "chunk_bytes (at_dest dest cs) f (dest + a) = file ! a" for f
      using delivers_writes [OF ok dl _ sel, of dest f "dest + a"] ex a(1) lk by (simp add: o)
    then have "(0 :: byte) = 1" using untouched_same [OF nt, of "\<lambda>_. 0"] untouched_same [OF nt, of "\<lambda>_. 1"] by simp
    then show False by simp
  qed
  show "chunk_bytes (at_dest dest cs) f (dest + a) = file ! a"
    if dl: "delivers ?p cs p'" and f: "\<And>i. i < length file \<Longrightarrow> f (dest + i) = 0" and a: "a < length file"
  proof -
    have w: "chunk_bytes (at_dest dest cs) f (dest + a) =
      (if dest + nat (actual_offset ?p) \<le> dest + a \<and> dest + a < dest + nat (actual_offset ?p) + length (drop k file) \<and>
          flags_ahead ?p ! (dest + a - (dest + nat (actual_offset ?p)))
       then drop k file ! (dest + a - (dest + nat (actual_offset ?p))) else f (dest + a))"
      by (rule delivers_writes [OF ok dl _ sel]) (use lk in simp)
    have fa: "f (dest + a) = 0" by (rule f [OF a])
    have ex: "expand True m ! a \<longleftrightarrow> k \<le> a \<and> flags_ahead ?p ! (a - k)" using a lk by (simp add: k(1) nth_append)
    show ?thesis
    proof (cases "flags_ahead ?p = []")
      case True
      then have "length file = k" using lk by simp
      then have "\<not> expand True m ! a" using a ex by simp
      then have "file ! a = 0" using z a by simp
      then show ?thesis unfolding w fa using lk True by auto
    next
      case False
      then have o: "nat (actual_offset ?p) = k" using k(2) by simp
      show ?thesis
      proof (cases "expand True m ! a")
        case True
        then show ?thesis unfolding w fa o using ex a lk by simp
      next
        case False
        then have "file ! a = 0" using z a by simp
        then show ?thesis unfolding w fa o using False ex a lk by auto
      qed
    qed
  qed
qed

lemma sparse_file_restored:
  assumes "sparse_resource m file (pd_blocks p)"
  shows "\<exists>cs p'. delivers (start_resource (Some m) p) cs p' \<and> length cs \<le> length (data_of (pd_blocks p)) \<and>
    concat (map fst cs) = data_of (pd_blocks p) \<and> increasing 0 (length file) (at_dest 0 cs) \<and>
    (\<forall>a < length file. chunk_bytes (at_dest 0 cs) (\<lambda>_. 0) a = file ! a)"
proof -
  have "readable (pd_blocks (start_resource (Some m) p))" "segments_ok m" using assms by (simp_all add: sparse_resource_def)
  then obtain cs p' where dl: "delivers (start_resource (Some m) p) cs p'" and l: "length cs \<le> length (data_of (pd_blocks p))"
    using delivers_exists [OF start_resource_ok(1)] resource_pieces(1) [OF assms] by metis
  have "chunk_bytes (at_dest 0 cs) (\<lambda>_. 0) (0 + a) = file ! a" if "a < length file" for a
    by (rule resource_pieces(3) [OF assms dl refl that])
  then show ?thesis using dl l resource_pieces(2) [OF assms dl] resource_pieces(4) [OF assms dl, where dest = 0 and hi = "length file"]
    by (intro exI [of _ cs] exI [of _ p']) simp
qed

text \<open>
  C15: the round trip of sparse files. When the archive holds the data segments of a file, one after
  the other and cut into blocks in any way, the pieces that the read callback delivers are that data,
  and writing each of them at its offset over zeros gives the file again, holes included. There
  are at most as many calls as bytes before the one that reports the end.
\<close>

theorem sparse_file_roundtrip:
  assumes "sparse_resource m file (pd_blocks p)"
  shows "\<exists>cs p'. delivers (start_resource (Some m) p) cs p' \<and> length cs \<le> length (data_of (pd_blocks p)) \<and>
    concat (map fst cs) = data_of (pd_blocks p) \<and> increasing 0 (length file) (at_dest 0 cs) \<and>
    (\<forall>a < length file. chunk_bytes (at_dest 0 cs) (\<lambda>_. 0) a = file ! a)"
  by (rule sparse_file_restored [OF assms])

definition idle_pd :: "'x fwup_apply_data" where
  "idle_pd = \<lparr>pd_blocks = [], pd_sfm = None, sparse_map_ix = 0, sparse_block_offset = 0, actual_offset = 0, sparse_leftover = [],
     pd_xd = None, xd_source_offset = 0, xd_source_count = 0, xd_source_path = None, xd_source_dc = None\<rparr>"

theorem sparse_file_roundtrip_witness:
  "\<exists>cs p'. delivers (start_resource (Some [0, 3, 2, 1, 4, 2]) (idle_pd\<lparr>pd_blocks := [Block [1] 0, Block [2, 3, 4] 1, Block [5, 6] 4]\<rparr>)) cs p' \<and>
     (\<forall>a < 12. chunk_bytes (at_dest 0 cs) (\<lambda>_. 0) a = [0, 0, 0, 1, 2, 0, 3, 4, 5, 6, 0, 0] ! a)"
proof -
  let ?p = "idle_pd\<lparr>pd_blocks := [Block [1] 0, Block [2, 3, 4] 1, Block [5, 6] 4]\<rparr>"
  have e: "expand True [0, 3, 2, 1, 4, 2] = [False, False, False, True, True, False, True, True, True, True, False, False]"
    by (simp add: numeral_eq_Suc)
  have "sparse_resource [0, 3, 2, 1, 4, 2] [0, 0, 0, 1, 2, 0, 3, 4, 5, 6, 0, 0] (pd_blocks ?p)"
    unfolding sparse_resource_def e
    by (simp add: segments_ok_def readable_def data_of_def block_bytes_def select_def All_less_Suc numeral_eq_Suc)
  moreover have "length [0, 0, 0, 1, 2, 0, 3, 4, 5, 6, 0, 0 :: byte] = 12" by simp
  ultimately show ?thesis using sparse_file_roundtrip [of "[0, 3, 2, 1, 4, 2]" "[0, 0, 0, 1, 2, 0, 3, 4, 5, 6, 0, 0]" ?p] by metis
qed

text \<open>
  C20: the state of the reader is well-formed between calls. From a map with non-negative lengths and non-empty
  segments no sequence of calls indexes the map out of its bounds, overflows an offset or cuts more than a
  block holds, whatever the archive delivers: every call keeps the invariant, and it fails only
  when libarchive does.
\<close>

theorem reader_keeps_invariant:
  assumes "reader_ok p" and "read_callback_normal p = (r, p')"
  shows "reader_ok p' \<and> pd_sfm p' = pd_sfm p \<and> (\<forall>w. r \<noteq> Inl (Undefined w)) \<and> (readable (pd_blocks p) \<longrightarrow> is_ok r)"
proof (rule read_callback_normal_cases [OF assms(1)])
  fix q assume q: "read_callback_normal p = (Inr ([], 0), q)" "q = p\<lparr>pd_blocks := pd_blocks q\<rparr>"
  have "reader_ok q" "pd_sfm q = pd_sfm p" using reader_ok_same(2) [OF assms(1)] by (subst q(2); simp)+
  then show ?thesis using assms(2) q(1) by auto
next
  fix m q assume q: "read_callback_normal p = (Inl (Msg m), q)" "\<not> readable (pd_blocks p)" "q = p\<lparr>pd_blocks := pd_blocks q\<rparr>"
  have "reader_ok q" "pd_sfm q = pd_sfm p" using reader_ok_same(2) [OF assms(1)] by (subst q(3); simp)+
  then show ?thesis using assms(2) q(1,2) by auto
next
  fix b p0 assume b: "read_callback_normal p = (Inr (b, actual_offset p), consume (length b) p0)" "b \<noteq> []"
    and e: "p0 = p\<lparr>pd_blocks := pd_blocks p0, sparse_leftover := sparse_leftover p0\<rparr>"
  have "pd_sfm p0 = pd_sfm p" by (subst e) simp
  then show ?thesis using piece_step(1) [OF assms(1) b] assms(2) b(1) by auto
qed

theorem reader_keeps_invariant_witness:
  "reader_ok (snd (read_callback_normal (start_resource (Some [0, 3, 2, 1, 4, 2]) (idle_pd\<lparr>pd_blocks := [Block [2, 3, 4] 1]\<rparr>))))"
proof -
  have "segments_ok [0, 3, 2, 1, 4, 2]" by (simp add: segments_ok_def All_less_Suc numeral_eq_Suc)
  from reader_keeps_invariant [OF start_resource_ok(1) [OF this] surjective_pairing] show ?thesis by blast
qed

end
