(* ===== verification/Apply_Write.thy ===== *)
theory Apply_Write
  imports Apply_Read
begin

text \<open>
  \<open>raw_write\<close> from the archive to the output: the read callback, \<open>process_resource\<close>, the block writer
  and the cache together.
\<close>

lemma ptbw_pwrites_append:
  "ptbw_pwrites lib (cs @ cs') s = ok_then (ptbw_pwrites lib cs) (\<lambda>_. ptbw_pwrites lib cs') s"
proof (induction cs arbitrary: s)
  case (Cons c cs)
  obtain b offset where c: "c = (b, offset)" by fastforce
  obtain r t where p: "ptbw_pwrite lib b offset s = (r, t)" by (metis surj_pair)
  show ?case using Cons.IH by (cases r) (simp_all add: c ok_then_def p)
qed (simp add: ok_then_def)

lemma read_callback_plain:
  assumes "pd_xd (fc_cookie ctx) = None" and "read_callback env ctx = (Inr (b, offset), ctx')"
  obtains p' where "read_callback_normal (fc_cookie ctx) = (Inr (b, offset), p')" "ctx' = ctx\<lparr>fc_cookie := p'\<rparr>"
  using assms by (auto simp: read_callback_def with_pd_def split: prod.splits)

lemma pwrite_callback_Inr:
  assumes "raw_write_pwrite_callback fe buf offset (ctx, (dest, w)) = (Inr u, s)"
  obtains bc' w' where "ptbw_pwrite (aes_lib fe) buf (nat (int dest + offset)) (fc_output ctx, w) = (Inr (), (bc', w'))"
    "s = (ctx\<lparr>fc_output := bc'\<rparr>, (dest, w'))"
  using assms by (auto simp: raw_write_pwrite_callback_def ok_then_def from_res_def add_offset_def on_writer_def split: prod.splits if_splits)

text \<open>Everything the loop reads is written, in order, at its offset behind the destination.\<close>

lemma process_loop_raw:
  assumes "process_loop fuel fe (read_callback env) False (raw_write_pwrite_callback fe) h prev (ctx, (dest, w)) = (Inr h', s)"
    and "reader_ok (fc_cookie ctx)" and "pd_xd (fc_cookie ctx) = None"
  shows "\<exists>cs p' ctx' w'. s = (ctx', (dest, w')) \<and> delivers (fc_cookie ctx) cs p' \<and> h' = h @ concat (map fst cs) \<and>
    ptbw_pwrites (aes_lib fe) (at_dest dest cs) (fc_output ctx, w) = (Inr (), (fc_output ctx', w'))"
  using assms
proof (induction fuel arbitrary: ctx w h prev)
  case (Suc fuel)
  obtain b offset s1 where rd: "on_ctx (read_callback env) (ctx, (dest, w)) = (Inr (b, offset), s1)"
    and rest: "(if b = [] then ret h
       else ok_then (raw_write_pwrite_callback fe b offset) (\<lambda>_.
         (let next = offset + int (length b) in
          ok_then (on_ctx (report (fe) (if False then word_of_int (next - prev) else of_nat (length b))))
            (\<lambda>_. process_loop fuel fe (read_callback env) False (raw_write_pwrite_callback fe) (h @ b) next)))) s1 = (Inr h', s)"
    using Suc.prems(1) by (auto elim!: ok_then_Inr_E)
  from rd obtain ctx1 where rd1: "read_callback env ctx = (Inr (b, offset), ctx1)" and s1: "s1 = (ctx1, (dest, w))"
    by (auto simp: on_ctx_def split: prod.splits)
  obtain p1 where p1: "read_callback_normal (fc_cookie ctx) = (Inr (b, offset), p1)" "ctx1 = ctx\<lparr>fc_cookie := p1\<rparr>"
    by (rule read_callback_plain [OF Suc.prems(3) rd1])
  show ?case
  proof (cases "b = []")
    case True
    then have "h' = h" "s = s1" using rest by (simp_all add: ret_def)
    then show ?thesis using p1 s1 True by (intro exI [of _ "[]"] exI [of _ p1] exI [of _ ctx1] exI [of _ w]) simp
  next
    case False
    have "ok_then (raw_write_pwrite_callback fe b offset) (\<lambda>_. ok_then (on_ctx (report fe (of_nat (length b))))
            (\<lambda>_. process_loop fuel fe (read_callback env) False (raw_write_pwrite_callback fe) (h @ b) (offset + int (length b)))) s1 = (Inr h', s)"
      using rest False by (simp add: Let_def)
    then obtain u s2 where w: "raw_write_pwrite_callback fe b offset s1 = (Inr u, s2)"
      and l: "ok_then (on_ctx (report fe (of_nat (length b))))
            (\<lambda>_. process_loop fuel fe (read_callback env) False (raw_write_pwrite_callback fe) (h @ b) (offset + int (length b))) s2 = (Inr h', s)"
      by (rule ok_then_Inr_E)
    obtain bc' w' where pw: "ptbw_pwrite (aes_lib fe) b (nat (int dest + offset)) (fc_output ctx1, w) = (Inr (), (bc', w'))"
        and s2: "s2 = (ctx1\<lparr>fc_output := bc'\<rparr>, (dest, w'))"
      by (rule pwrite_callback_Inr [OF w [unfolded s1]])
    obtain ctx2 where l2: "process_loop fuel fe (read_callback env) False (raw_write_pwrite_callback fe) (h @ b) (offset + int (length b))
        (ctx2, (dest, w')) = (Inr h', s)" and ctx2: "fc_cookie ctx2 = p1" "fc_output ctx2 = bc'"
      using l by (auto simp: s2 ok_then_def on_ctx_def report_def p1(2))
    note st = piece_step [OF Suc.prems(2) p1(1) False]
    obtain cs p' ctx' w'' where IH: "s = (ctx', (dest, w''))" "delivers p1 cs p'" "h' = (h @ b) @ concat (map fst cs)"
        "ptbw_pwrites (aes_lib fe) (at_dest dest cs) (bc', w') = (Inr (), (fc_output ctx', w''))"
      using Suc.IH [OF l2] st(1,5) Suc.prems(3) ctx2 by auto
    show ?thesis using IH p1 pw False
      by (intro exI [of _ "(b, offset) # cs"] exI [of _ p'] exI [of _ ctx'] exI [of _ w'']) (simp add: ok_then_def)
  qed
qed simp

text \<open>The context of \<open>on-resource\<close> for the resource that \<open>raw_write\<close> is to write.\<close>

definition writes_resource :: "('w, 'd) fun_context \<Rightarrow> cfg \<Rightarrow> int list \<Rightarrow> bool" where
  "writes_resource ctx resource m \<longleftrightarrow>
     (\<exists>on_event. fc_on_event ctx = Some on_event \<and> cfg_gettsec (fc_cfg ctx) ''file-resource'' (cfg_title on_event) = Some resource) \<and>
     sparse_file_get_map_from_resource resource = Inr (Some m)"

text \<open>The hole at the end of the file is represented by zeros in front of its end.\<close>

definition final_chunk :: "int list \<Rightarrow> nat \<Rightarrow> (byte list \<times> nat) list" where
  "final_chunk m dest =
     (let hole = (if even (length m) then last m else 0) in
      if hole > 0 then [(replicate (nat (min hole 512)) 0, nat (int dest + (sum_list m - min hole 512)))] else [])"

lemma ok_then_step: "m s = (Inr x, t) \<Longrightarrow> ok_then m f s = f x t"
  by (simp add: ok_then_def)

text \<open>What is left of \<open>process_resource\<close> when the resource and its map were found.\<close>

lemma process_resource_steps:
  assumes "fc_type ctx = FUN_CONTEXT_FILE" and "fc_on_event ctx = Some on_event"
    and "cfg_gettsec (fc_cfg ctx) ''file-resource'' (cfg_title on_event) = Some resource"
    and "cfg_getstr resource ''blake2b-256'' = Some expected_hash" and "length expected_hash = 64"
    and "sparse_file_get_map_from_resource resource = Inr (Some m)" and "sum_off_t 0 (every_other m) = Inr n"
  shows "process_resource fe read False pw final_hole (ctx, c) =
    ok_then (process_loop (read_fuel fe) fe read False pw [] 0)
      (\<lambda>h. ok_then (from_res (bind_res (sparse_ending_hole_size (Some m)) (\<lambda>hole.
            if hole > 0 then bind_res (sparse_file_size (Some m)) (\<lambda>sz. Inr (hole, sz)) else Inr (hole, 0))))
        (\<lambda>(hole, file_size).
          and_then (if hole > 0 then and_then (final_hole hole file_size) (ret ()) else ret ())
            (if int (length h) \<noteq> n
             then (if h = [] then err_return ''didn't write anything and was likely called twice''
                   else err_return ''wrote bytes, but should have written'')
             else if \<not> hash_matches fe h expected_hash then err_return ''detected blake2b mismatch'' else ret ()))) (ctx, c)"
  using assms by (simp add: process_resource_def from_res_then sparse_file_data_size_def map_entries_def cong: if_cong)

lemma process_resource_raw:
  assumes "process_resource fe (read_callback env) False (raw_write_pwrite_callback fe) (raw_write_final_hole_callback fe) (ctx, (dest, w)) = (Inr u, s)"
    and "writes_resource ctx resource m" and "reader_ok (fc_cookie ctx)" and "pd_xd (fc_cookie ctx) = None"
  shows "\<exists>cs p' ctx' w'. s = (ctx', (dest, w')) \<and> delivers (fc_cookie ctx) cs p' \<and>
    ptbw_pwrites (aes_lib fe) (at_dest dest cs @ final_chunk m dest) (fc_output ctx, w) = (Inr (), (fc_output ctx', w')) \<and>
    sum_off_t 0 (every_other m) = Inr (int (length (concat (map fst cs)))) \<and>
    cfg_getstr resource ''blake2b-256'' = Some (bytes_to_hex (blake2b_256 fe (concat (map fst cs))))"
proof -
  obtain on_event where on_event: "fc_on_event ctx = Some on_event" "cfg_gettsec (fc_cfg ctx) ''file-resource'' (cfg_title on_event) = Some resource"
    and map: "sparse_file_get_map_from_resource resource = Inr (Some m)"
    using assms(2) by (auto simp: writes_resource_def)
  have r: "fc_type ctx = FUN_CONTEXT_FILE" using assms(1) by (auto simp: process_resource_def split: if_splits)
  obtain expected_hash where eh: "cfg_getstr resource ''blake2b-256'' = Some expected_hash" "length expected_hash = 64"
    using assms(1) r on_event by (auto simp: process_resource_def split: option.splits if_splits)
  obtain n where n: "sum_off_t 0 (every_other m) = Inr n"
    using assms(1) r on_event eh map
    by (cases "sum_off_t 0 (every_other m)") (auto simp: process_resource_def ok_then_def from_res_def sparse_file_data_size_def map_entries_def)
  let ?hole = "bind_res (sparse_ending_hole_size (Some m)) (\<lambda>hole.
      if hole > 0 then bind_res (sparse_file_size (Some m)) (\<lambda>sz. Inr (hole, sz)) else Inr (hole, 0))"
  let ?check = "\<lambda>h. if int (length h) \<noteq> n
      then (if h = [] then err_return ''didn't write anything and was likely called twice''
            else err_return ''wrote bytes, but should have written'')
      else if \<not> hash_matches fe h expected_hash then err_return ''detected blake2b mismatch'' else ret ()"
  let ?final = "\<lambda>hole file_size. if hole > 0 then and_then (raw_write_final_hole_callback fe hole file_size) (ret ()) else ret ()"
  have "ok_then (process_loop (read_fuel fe) fe (read_callback env) False (raw_write_pwrite_callback fe) [] 0)
      (\<lambda>h. ok_then (from_res ?hole) (\<lambda>(hole, file_size). ok_then (?final hole file_size) (\<lambda>_. ?check h))) (ctx, (dest, w)) = (Inr u, s)"
    using assms(1) unfolding process_resource_steps [OF r on_event eh map n] .
  then obtain h s1 where
      lp: "process_loop (read_fuel fe) fe (read_callback env) False (raw_write_pwrite_callback fe) [] 0 (ctx, (dest, w)) = (Inr h, s1)"
    and "ok_then (from_res ?hole) (\<lambda>(hole, file_size). ok_then (?final hole file_size) (\<lambda>_. ?check h)) s1 = (Inr u, s)"
    by (rule ok_then_Inr_E)
  then obtain hole file_size where ho: "?hole = Inr (hole, file_size)"
    and "ok_then (?final hole file_size) (\<lambda>_. ?check h) s1 = (Inr u, s)"
    by (auto simp: from_res_then split: sum.splits)
  then obtain u2 s2 where fh: "?final hole file_size s1 = (Inr u2, s2)" and "?check h s2 = (Inr u, s)"
    by (blast elim: ok_then_Inr_E)
  then have hash: "int (length h) = n" "hash_matches fe h expected_hash" "s = s2"
    by (auto simp: err_return_def ret_def split: if_splits)
  obtain cs p' ctx1 w1 where cs: "s1 = (ctx1, (dest, w1))" "delivers (fc_cookie ctx) cs p'" "h = concat (map fst cs)"
      "ptbw_pwrites (aes_lib fe) (at_dest dest cs) (fc_output ctx, w) = (Inr (), (fc_output ctx1, w1))"
    using process_loop_raw [OF lp assms(3,4)] by auto
  have hole: "hole = (if even (length m) then last m else 0)" "m \<noteq> []"
    using ho map by (auto simp: sparse_ending_hole_size_def map_entries_def bind_res_eq_Inr sparse_file_get_map_from_resource_def Let_def even_iff_mod_2_eq_zero split: if_splits)
  have fs: "hole > 0 \<Longrightarrow> file_size = sum_list m"
    using ho by (auto simp: bind_res_eq_Inr sparse_file_size_def map_entries_def dest!: sum_off_t_Inr split: if_splits)
  have "\<exists>ctx' w'. s = (ctx', (dest, w')) \<and>
      ptbw_pwrites (aes_lib fe) (at_dest dest cs @ final_chunk m dest) (fc_output ctx, w) = (Inr (), (fc_output ctx', w'))"
  proof (cases "hole > 0")
    case False
    then show ?thesis using fh cs hash(3) hole by (intro exI [of _ ctx1] exI [of _ w1]) (simp add: final_chunk_def ret_def)
  next
    case True
    then obtain u3 where wr: "raw_write_final_hole_callback fe hole file_size (ctx1, (dest, w1)) = (Inr u3, s)"
      using fh cs(1) hash(3) by (auto simp: ret_def elim!: ok_then_Inr_E)
    obtain bc' w' where "ptbw_pwrite (aes_lib fe) (replicate (nat (min hole 512)) 0) (nat (int dest + (file_size - min hole 512)))
        (fc_output ctx1, w1) = (Inr (), (bc', w'))" "s = (ctx1\<lparr>fc_output := bc'\<rparr>, (dest, w'))"
      using wr by (auto simp: raw_write_final_hole_callback_def Let_def ok_then_def from_res_def add_offset_def on_writer_def
          split: prod.splits if_splits)
    then show ?thesis using cs(4) True fs hole
      by (simp add: final_chunk_def ptbw_pwrites_append ok_then_def Let_def)
  qed
  then show ?thesis using cs(2,3) n hash(1,2) eh(1) by (auto simp: hash_matches_def)
qed

lemma increasing_snoc:
  "increasing lo mid cs \<Longrightarrow> mid \<le> offset \<Longrightarrow> lo \<le> offset \<Longrightarrow> b \<noteq> [] \<Longrightarrow> offset + length b \<le> hi \<Longrightarrow> mid \<le> hi \<Longrightarrow>
   increasing lo hi (cs @ [(b, offset)])"
  by (induction lo mid cs rule: increasing.induct) auto

lemma increasing_mono: "increasing lo hi cs \<Longrightarrow> hi \<le> hi' \<Longrightarrow> increasing lo hi' cs"
  by (induction lo hi cs rule: increasing.induct) auto

text \<open>The last hole of the file is behind all of its data.\<close>

lemma data_before_last_hole:
  assumes "segments_ok m" and "even (length m)" and "i < length (expand True m)" and "expand True m ! i"
  shows "int i < sum_list m - last m"
proof -
  have m: "m \<noteq> []" using assms(1) by (simp add: segments_ok_def)
  then have b: "m = butlast m @ [last m]" by simp
  have nn: "\<forall>x \<in> set m. 0 \<le> x" using assms(1) by (auto simp: segments_ok_def in_set_conv_nth)
  have "odd (length (butlast m))" using assms(2) m by simp
  then have e: "expand True m = expand True (butlast m) @ replicate (nat (last m)) False"
    by (subst b) (simp only: expand_append, simp)
  have "i < length (expand True (butlast m))"
  proof (rule ccontr)
    assume "\<not> ?thesis"
    then show False using assms(3,4) by (simp add: e nth_append)
  qed
  moreover have "int (length (expand True (butlast m))) = sum_list (butlast m)"
    by (rule length_expand) (use nn in \<open>auto dest: in_set_butlastD\<close>)
  moreover have "sum_list m = sum_list (butlast m) + last m" by (subst b) (simp del: append_butlast_last_id)
  ultimately show ?thesis by linarith
qed

lemma pieces_and_final:
  fixes dest :: nat
  assumes sr: "sparse_resource m file (pd_blocks p)" and dl: "delivers (start_resource (Some m) p) cs p'"
  defines "chunks \<equiv> at_dest dest cs @ final_chunk m dest"
  shows "increasing dest (dest + length file) chunks"
    "\<And>i. i < length file \<Longrightarrow> chunk_bytes chunks (\<lambda>_. 0) (dest + i) = file ! i"
    "\<And>i. i < length file \<Longrightarrow> expand True m ! i \<Longrightarrow> in_touched_block chunks (dest + i)"
proof -
  have m: "segments_ok m" and l: "length (expand True m) = length file"
    and z: "\<forall>a < length file. \<not> expand True m ! a \<longrightarrow> file ! a = 0" using sr by (simp_all add: sparse_resource_def)
  have nn: "\<forall>x \<in> set m. 0 \<le> x" using m by (auto simp: segments_ok_def in_set_conv_nth)
  have sum: "sum_list m = int (length file)" using length_expand [OF nn, of True] l by simp
  let ?hole = "if even (length m) then last m else 0"
  have bytes: "chunk_bytes (at_dest dest cs) (\<lambda>_. 0) (dest + i) = file ! i" if "i < length file" for i
    by (rule resource_pieces(3) [OF sr dl refl that])
  have tch: "in_touched_block (at_dest dest cs) (dest + i)" if "i < length file" "expand True m ! i" for i
    by (rule resource_pieces(5) [OF sr dl that])
  have ht: "0 \<le> ?hole" using nn m by (auto simp: segments_ok_def)
  define k where "k = nat (min ?hole 512)"
  define off where "off = dest + (length file - k)"
  have data: "int i < int (length file) - ?hole" if "i < length file" "expand True m ! i" for i
    using data_before_last_hole [OF m _ _ that(2)] that(1) l sum by auto
  have hle: "?hole \<le> int (length file)"
  proof -
    have "last m \<le> sum_list m" using nn m by (intro member_le_sum_list) (auto simp: segments_ok_def)
    then show ?thesis using sum by simp
  qed
  have "nat (int dest + (sum_list m - min ?hole 512)) = off"
    using hle ht by (simp add: off_def k_def sum nat_diff_distrib' flip: of_nat_add)
  then have fc: "final_chunk m dest = (if ?hole > 0 then [(replicate k 0, off)] else [])"
    unfolding final_chunk_def Let_def k_def by simp
  have inc: "increasing dest (dest + nat (int (length file) - ?hole)) (at_dest dest cs)"
    by (rule resource_pieces(4) [OF sr dl]) (use data in force)
  show "increasing dest (dest + length file) chunks"
  proof (cases "?hole > 0")
    case False
    then have "?hole = 0" using ht by linarith
    then show ?thesis using inc by (simp add: chunks_def fc del: if_split_asm)
  next
    case True
    then show ?thesis unfolding chunks_def fc
      using hle by (simp, intro increasing_snoc [OF inc]) (auto simp: off_def k_def)
  qed
  show "in_touched_block chunks (dest + i)" if "i < length file" "expand True m ! i" for i
    using tch [OF that] by (simp add: chunks_def in_touched_block_def)
  show "chunk_bytes chunks (\<lambda>_. 0) (dest + i) = file ! i" if i: "i < length file" for i
  proof (cases "?hole > 0 \<and> off \<le> dest + i")
    case False
    then show ?thesis using bytes [OF i] by (auto simp: chunks_def fc chunk_bytes_def store_bytes_def)
  next
    case True
    have "file ! i = 0"
    proof (rule ccontr)
      assume "file ! i \<noteq> 0"
      then have "expand True m ! i" using z i by auto
      then have "int i < int (length file) - ?hole" by (rule data [OF i])
      moreover have "int (length file) - ?hole \<le> int (length file - k)" using hle True by (auto simp: k_def)
      moreover have "length file - k \<le> i" using True unfolding off_def by linarith
      ultimately show False by linarith
    qed
    then show ?thesis using True bytes [OF i] i
      by (auto simp: chunks_def fc chunk_bytes_def store_bytes_def off_def)
  qed
qed

lemma raw_write_result:
  assumes "raw_write_run fe (read_callback env) ctx = (Inr (), ctx')"
    and "fc_argv ctx = [name, show_nat blk]" and "blk * 512 + length file < 2 ^ 62"
    and "writes_resource ctx resource m" and "fc_cookie ctx = start_resource (Some m) p" and "pd_xd p = None"
    and "sparse_resource m file (pd_blocks p)" and "cache_ok (fc_output ctx)"
  shows "cfg_getstr resource ''blake2b-256'' = Some (bytes_to_hex (blake2b_256 fe (data_of (pd_blocks p))))"
    and "\<And>i. i < length file \<Longrightarrow> in_range (fc_output ctx) (blk * 512 + i) \<Longrightarrow>
      (if expand True m ! i then view (fc_output ctx') (blk * 512 + i) = file ! i
       else view (fc_output ctx') (blk * 512 + i) \<in> {0, view (fc_output ctx) (blk * 512 + i)})"
    and "\<And>a. in_range (fc_output ctx) a \<Longrightarrow> a < blk * 512 \<or> blk * 512 + length file \<le> a div 512 * 512 \<Longrightarrow>
      view (fc_output ctx') a = view (fc_output ctx) a"
proof -
  let ?dest = "blk * 512"
  have "unat (strtoull_value (show_nat blk) * 512) = blk * 512"
  proof -
    have "strtoull_value (show_nat blk) = of_nat blk"
      using strtoull_show_nat [of "[]" blk] assms(3) by (simp add: strtoull_value_def ends_number_def)
    then have "strtoull_value (show_nat blk) * 512 = (of_nat (blk * 512) :: u64)" by simp
    then show ?thesis using assms(3) by (simp only: unat_of_nat) simp
  qed
  then have off: "to_offset (strtoull_value (show_nat blk) * 512) = Inr ?dest" using assms(3) by (simp add: to_offset_def)
  obtain s where run: "and_then (process_resource fe (read_callback env) False (raw_write_pwrite_callback fe) (raw_write_final_hole_callback fe))
      (on_writer (ptbw_flush (aes_lib fe))) (ctx, (?dest, ptbw_init (replicate 512 0) None)) = (Inr (), s)" and s: "ctx' = fst s"
    using assms(1,2) by (auto simp: raw_write_run_def ok_then_def arg_def argc_def from_res_def off split: prod.splits sum.splits)
  obtain u s1 where pr: "process_resource fe (read_callback env) False (raw_write_pwrite_callback fe) (raw_write_final_hole_callback fe)
      (ctx, (?dest, ptbw_init (replicate 512 0) None)) = (Inr u, s1)" and fl: "on_writer (ptbw_flush (aes_lib fe)) s1 = (Inr (), s)"
    using run by (rule ok_then_Inr_E)
  have sm: "segments_ok m" using assms(7) by (simp add: sparse_resource_def)
  obtain cs p' ctx1 w1 where cs: "s1 = (ctx1, (?dest, w1))" "delivers (start_resource (Some m) p) cs p'"
      "ptbw_pwrites (aes_lib fe) (at_dest ?dest cs @ final_chunk m ?dest) (fc_output ctx, ptbw_init (replicate 512 0) None) =
        (Inr (), (fc_output ctx1, w1))"
      "cfg_getstr resource ''blake2b-256'' = Some (bytes_to_hex (blake2b_256 fe (concat (map fst cs))))"
    using process_resource_raw [OF pr assms(4), unfolded assms(5) start_resource_same, OF start_resource_ok(1) [OF sm] assms(6)] by blast
  show "cfg_getstr resource ''blake2b-256'' = Some (bytes_to_hex (blake2b_256 fe (data_of (pd_blocks p))))"
    using cs(4) resource_pieces(2) [OF assms(7) cs(2)] by simp
  define chunks where "chunks = at_dest ?dest cs @ final_chunk m ?dest"
  define hi where "hi = ((?dest + length file) div 512 + 1) * 512"
  note pf = pieces_and_final [OF assms(7) cs(2), where dest = ?dest, folded chunks_def]
  obtain w2 where "ok_then (ptbw_pwrites (aes_lib fe) chunks) (\<lambda>_. ptbw_flush (aes_lib fe)) (fc_output ctx, ptbw_init (replicate 512 0) None) =
      (Inr (), (fc_output ctx', w2))"
    using fl cs(1,3) s by (auto simp: ok_then_def on_writer_def chunks_def split: prod.splits)
  moreover have "512 dvd hi" by (simp add: hi_def)
  moreover have "increasing ?dest hi chunks"
    by (rule increasing_mono [OF pf(1)]) (use dividend_less_div_times [of 512 "?dest + length file"] in \<open>simp add: hi_def\<close>)
  ultimately have img: "view (fc_output ctx') a = (if in_touched_block chunks a then chunk_bytes chunks (\<lambda>_. 0) a else view (fc_output ctx) a)"
    if "in_range (fc_output ctx) a" for a
    using ptbw_run_returns [OF assms(8), of "replicate 512 0" ?dest hi chunks "aes_lib fe" None] that
    by (simp add: returns_def crypto_ok_def)
  show "if expand True m ! i then view (fc_output ctx') (blk * 512 + i) = file ! i
       else view (fc_output ctx') (blk * 512 + i) \<in> {0, view (fc_output ctx) (blk * 512 + i)}"
    if "i < length file" "in_range (fc_output ctx) (blk * 512 + i)" for i
    using img [OF that(2)] pf(2,3) [OF that(1)] assms(7) that(1) by (auto simp: sparse_resource_def)
  show "view (fc_output ctx') a = view (fc_output ctx) a"
    if r: "in_range (fc_output ctx) a" and out: "a < blk * 512 \<or> blk * 512 + length file \<le> a div 512 * 512" for a
  proof -
    have "\<not> in_touched_block cs' a" if "increasing lo (?dest + length file) cs'" "?dest \<le> lo" for lo cs'
      using that
    proof (induction cs' arbitrary: lo)
      case (Cons c cs')
      obtain b o1 where c: "c = (b, o1)" by fastforce
      then have i: "?dest \<le> o1" "b \<noteq> []" "o1 + length b \<le> ?dest + length file" "increasing (o1 + length b) (?dest + length file) cs'"
        using Cons.prems by auto
      have "\<not> (o1 div 512 \<le> a div 512 \<and> a div 512 \<le> (o1 + length b - 1) div 512)"
      proof
        assume h: "o1 div 512 \<le> a div 512 \<and> a div 512 \<le> (o1 + length b - 1) div 512"
        have "blk \<le> o1 div 512" using i(1) by simp
        then have "?dest \<le> a" using h by linarith
        then have "?dest + length file \<le> a div 512 * 512" using out by simp
        moreover have "a div 512 * 512 \<le> o1 + length b - 1" using h by linarith
        moreover have "0 < length b" using i(2) by simp
        ultimately show False using i(3) by linarith
      qed
      then show ?case using Cons.IH [OF i(4)] i(1) by (simp add: in_touched_block_def c)
    qed (simp add: in_touched_block_def)
    then show ?thesis using img [OF r] pf(1) by simp
  qed
qed


section \<open>Success\<close>

lemma process_loop_succeeds:
  "delivers (fc_cookie ctx) cs p' \<Longrightarrow> reader_ok (fc_cookie ctx) \<Longrightarrow> pd_xd (fc_cookie ctx) = None \<Longrightarrow> length cs < fuel \<Longrightarrow>
   (\<And>b offset. (b, offset) \<in> set cs \<Longrightarrow> int dest + offset < 2 ^ 63) \<Longrightarrow>
   ptbw_pwrites (aes_lib fe) (at_dest dest cs) (fc_output ctx, w) = (Inr (), (bc', w')) \<Longrightarrow>
   \<exists>ctx'. process_loop fuel fe (read_callback env) False (raw_write_pwrite_callback fe) h prev (ctx, (dest, w)) =
       (Inr (h @ concat (map fst cs)), (ctx', (dest, w'))) \<and> fc_output ctx' = bc'"
proof (induction cs arbitrary: ctx w h prev fuel)
  case Nil
  then obtain f offset where f: "fuel = Suc f" and r: "read_callback_normal (fc_cookie ctx) = (Inr ([], offset), p')"
    by (cases fuel) auto
  have "on_ctx (read_callback env) (ctx, (dest, w)) = (Inr ([], offset), (ctx\<lparr>fc_cookie := p'\<rparr>, (dest, w)))"
    using r Nil.prems(3) by (simp add: on_ctx_def read_callback_def with_pd_def)
  then show ?case using Nil.prems(6) by (simp add: f ok_then_def ret_def)
next
  case (Cons c cs)
  obtain b offset where c: "c = (b, offset)" by fastforce
  with Cons.prems(1) obtain p1 where b: "b \<noteq> []" and r: "read_callback_normal (fc_cookie ctx) = (Inr (b, offset), p1)" and dl: "delivers p1 cs p'"
    by auto
  obtain f where f: "fuel = Suc f" "length cs < f" using Cons.prems(4) by (cases fuel) auto
  note st = piece_step [OF Cons.prems(2) r b]
  let ?ctx1 = "ctx\<lparr>fc_cookie := p1\<rparr>"
  have rd: "on_ctx (read_callback env) (ctx, (dest, w)) = (Inr (b, offset), (?ctx1, (dest, w)))"
    using r Cons.prems(3) by (simp add: on_ctx_def read_callback_def with_pd_def)
  obtain bc1 w1 where pw: "ptbw_pwrite (aes_lib fe) b (nat (int dest + offset)) (fc_output ctx, w) = (Inr (), (bc1, w1))"
    and rest: "ptbw_pwrites (aes_lib fe) (at_dest dest cs) (bc1, w1) = (Inr (), (bc', w'))"
    using Cons.prems(6) by (auto simp: c ok_then_def split: prod.splits sum.splits)
  have o2: "0 \<le> int dest + offset" "int dest + offset < 2 ^ 63" using st(2,3) Cons.prems(5) [of b offset] by (auto simp: c)
  have wr: "raw_write_pwrite_callback fe b offset (?ctx1, (dest, w)) = (Inr (), (?ctx1\<lparr>fc_output := bc1\<rparr>, (dest, w1)))"
    using o2 pw by (simp add: raw_write_pwrite_callback_def from_res_then add_offset_def on_writer_def)
  let ?rep = "on_ctx (report fe (of_nat (length b))) (?ctx1\<lparr>fc_output := bc1\<rparr>, (dest, w1))"
  obtain ctx2 where rp: "?rep = (Inr (), (ctx2, (dest, w1)))" and ctx2: "fc_cookie ctx2 = p1" "fc_output ctx2 = bc1"
    by (simp add: on_ctx_def report_def)
  obtain ctx' where IH: "process_loop f fe (read_callback env) False (raw_write_pwrite_callback fe) (h @ b) (offset + int (length b)) (ctx2, (dest, w1)) =
       (Inr ((h @ b) @ concat (map fst cs)), (ctx', (dest, w')))" "fc_output ctx' = bc'"
    using Cons.IH [of ctx2 f w1 "h @ b" "offset + int (length b)"] dl st(1,5) Cons.prems(3,5) f(2) rest ctx2 by auto
  show ?case using rd wr rp IH b by (simp add: f(1) c ok_then_def Let_def)
qed

lemma delivers_end:
  "reader_ok p \<Longrightarrow> delivers p cs p' \<Longrightarrow> (b, offset) \<in> set cs \<Longrightarrow> 0 \<le> offset \<and> offset < actual_offset p + int (length (flags_ahead p))"
proof (induction cs arbitrary: p)
  case (Cons c cs)
  obtain b0 o0 where c: "c = (b0, o0)" by fastforce
  with Cons.prems(2) obtain p1 where b: "b0 \<noteq> []" and r: "read_callback_normal p = (Inr (b0, o0), p1)" and dl: "delivers p1 cs p'"
    by auto
  note st = piece_step [OF Cons.prems(1) r b]
  obtain h where h: "length (flags_ahead p) = length b0 + h + length (flags_ahead p1)"
      "actual_offset p1 = actual_offset p + int (length b0) + int h"
    using st(7) by auto
  have "0 < length b0" using b by simp
  show ?case
  proof (cases "(b, offset) = (b0, o0)")
    case True
    then have "offset = o0" by simp
    then show ?thesis using st(2,3) h(1) \<open>0 < length b0\<close> by linarith
  next
    case False
    then have "(b, offset) \<in> set cs" using Cons.prems(3) c by auto
    then show ?thesis using Cons.IH [OF st(1) dl] h by simp
  qed
qed simp

lemma segments_data_size:
  assumes "segments_ok m"
  shows "sum_off_t 0 (every_other m) = Inr (int (length (filter (\<lambda>x. x) (expand True m))))" "sum_off_t 0 m = Inr (sum_list m)"
proof -
  have nn: "\<forall>x \<in> set m. 0 \<le> x" using assms by (auto simp: segments_ok_def in_set_conv_nth)
  have s: "sum_list m < 2 ^ 63" using assms by (simp add: segments_ok_def)
  have run: "sum_off_t acc ns = Inr (acc + sum_list ns)" if "\<forall>x \<in> set ns. 0 \<le> x" "0 \<le> acc" "acc + sum_list ns < 2 ^ 63" for acc ns
    using that
  proof (induction ns arbitrary: acc)
    case (Cons n ns)
    have "0 \<le> sum_list ns" using Cons.prems(1) by (intro sum_list_nonneg) simp
    then show ?case using Cons.IH [of "acc + n"] Cons.prems by (simp add: int64_def)
  qed simp
  have eo: "set (every_other ns) \<subseteq> set ns" for ns :: "int list" by (induction ns rule: every_other.induct) auto
  have el: "int (length (filter (\<lambda>x. x) (expand True ns))) = sum_list (every_other ns)" if "\<forall>x \<in> set ns. 0 \<le> x" for ns :: "int list"
    using that by (induction ns rule: every_other.induct) simp_all
  have "int (length (filter (\<lambda>x. x) (expand True m))) \<le> int (length (expand True m))" by simp
  then have "sum_list (every_other m) \<le> sum_list m" using el [OF nn] length_expand [OF nn, of True] by simp
  then show "sum_off_t 0 (every_other m) = Inr (int (length (filter (\<lambda>x. x) (expand True m))))"
    using run [of "every_other m" 0] eo nn s el [OF nn] by auto
  show "sum_off_t 0 m = Inr (sum_list m)" using run [of m 0] nn s by simp
qed

lemma length_select: "length xs = length fl \<Longrightarrow> length (select xs fl) = length (filter (\<lambda>x. x) fl)"
  by (induction xs fl rule: list_induct2) (auto simp: select_def)

lemma raw_write_total:
  assumes "fc_argv ctx = [name, show_nat blk]" and "blk * 512 + length file < 2 ^ 62"
    and "fc_type ctx = FUN_CONTEXT_FILE" and "writes_resource ctx resource m"
    and "cfg_getstr resource ''blake2b-256'' = Some (bytes_to_hex (blake2b_256 fe (data_of (pd_blocks p))))"
    and "length (blake2b_256 fe (data_of (pd_blocks p))) = 32"
    and "fc_cookie ctx = start_resource (Some m) p" and "pd_xd p = None" and "sparse_resource m file (pd_blocks p)"
    and "length (data_of (pd_blocks p)) < read_fuel fe" and "healthy (fc_output ctx)" and "cache_ok (fc_output ctx)"
  shows "fst (raw_write_run fe (read_callback env) ctx) = Inr ()"
proof -
  let ?dest = "blk * 512"
  have "unat (strtoull_value (show_nat blk) * 512) = blk * 512"
  proof -
    have "strtoull_value (show_nat blk) = of_nat blk"
      using strtoull_show_nat [of "[]" blk] assms(2) by (simp add: strtoull_value_def ends_number_def)
    then have "strtoull_value (show_nat blk) * 512 = (of_nat (blk * 512) :: u64)" by simp
    then show ?thesis using assms(2) by (simp only: unat_of_nat) simp
  qed
  then have off: "to_offset (strtoull_value (show_nat blk) * 512) = Inr ?dest" using assms(2) by (simp add: to_offset_def)
  have sm: "segments_ok m" and fl: "length (expand True m) = length file" and rd: "readable (pd_blocks p)"
    and d: "data_of (pd_blocks p) = select file (expand True m)" using assms(9) by (simp_all add: sparse_resource_def)
  have nn: "\<forall>x \<in> set m. 0 \<le> x" using sm by (auto simp: segments_ok_def in_set_conv_nth)
  have sum: "sum_list m = int (length file)" using length_expand [OF nn, of True] fl by simp
  note ok = start_resource_ok(1) [OF sm, of p]
  obtain cs p' where dl: "delivers (start_resource (Some m) p) cs p'" and lcs: "length cs \<le> length (data_of (pd_blocks p))"
    using delivers_exists [OF ok] rd resource_pieces(1) [OF assms(9)] by auto
  have data: "concat (map fst cs) = data_of (pd_blocks p)" by (rule resource_pieces(2) [OF assms(9) dl])
  define hi where "hi = ((?dest + length file) div 512 + 1) * 512"
  have inc: "increasing ?dest hi (at_dest ?dest cs @ final_chunk m ?dest)"
    by (rule increasing_mono [OF pieces_and_final(1) [OF assms(9) dl]])
      (use dividend_less_div_times [of 512 "?dest + length file"] in \<open>simp add: hi_def\<close>)
  have "returns (ok_then (ptbw_pwrites (aes_lib fe) (at_dest ?dest cs @ final_chunk m ?dest)) (\<lambda>_. ptbw_flush (aes_lib fe)))
      (\<lambda>_ _. True) (fc_output ctx, ptbw_init (replicate 512 0) None)"
    by (rule returns_weaken [OF ptbw_run_returns [OF assms(12) _ inc]]) (simp_all add: hi_def crypto_ok_def)
  then obtain bc2 w2 where pws: "ptbw_pwrites (aes_lib fe) (at_dest ?dest cs @ final_chunk m ?dest) (fc_output ctx, ptbw_init (replicate 512 0) None) =
      (Inr (), (bc2, w2))" and flush: "fst (ptbw_flush (aes_lib fe) (bc2, w2)) = Inr ()"
    using assms(11) by (auto simp: returns_def ok_then_def split: prod.splits sum.splits)
  obtain bc1 w1 where pw1: "ptbw_pwrites (aes_lib fe) (at_dest ?dest cs) (fc_output ctx, ptbw_init (replicate 512 0) None) = (Inr (), (bc1, w1))"
    and pw2: "ptbw_pwrites (aes_lib fe) (final_chunk m ?dest) (bc1, w1) = (Inr (), (bc2, w2))"
    using pws by (auto simp: ptbw_pwrites_append ok_then_def split: prod.splits sum.splits)
  have fits: "int ?dest + offset < 2 ^ 63" if "(b, offset) \<in> set cs" for b offset
  proof -
    obtain k where "expand True m = replicate k False @ flags_ahead (start_resource (Some m) p)"
        "flags_ahead (start_resource (Some m) p) \<noteq> [] \<longrightarrow> nat (actual_offset (start_resource (Some m) p)) = k"
        "nat (actual_offset (start_resource (Some m) p)) \<le> k" using start_resource_ok(2) [OF sm, of p] by blast
    then have "actual_offset (start_resource (Some m) p) + int (length (flags_ahead (start_resource (Some m) p))) \<le> int (length file)"
      using fl by simp
    then show ?thesis using delivers_end [OF ok dl that] assms(2) by simp
  qed
  obtain ctx1 where lp: "process_loop (read_fuel fe) fe (read_callback env) False (raw_write_pwrite_callback fe) [] 0
      (ctx, (?dest, ptbw_init (replicate 512 0) None)) = (Inr (data_of (pd_blocks p)), (ctx1, (?dest, w1)))" and ctx1: "fc_output ctx1 = bc1"
    using process_loop_succeeds [of ctx cs p' "read_fuel fe" ?dest fe "ptbw_init (replicate 512 0) None" bc1 w1 env "[]" 0]
      dl ok lcs assms(7,8,10) fits pw1 data by auto
  obtain on_event where ev: "fc_on_event ctx = Some on_event" "cfg_gettsec (fc_cfg ctx) ''file-resource'' (cfg_title on_event) = Some resource"
    and map: "sparse_file_get_map_from_resource resource = Inr (Some m)" using assms(4) by (auto simp: writes_resource_def)
  have hl: "length (bytes_to_hex (blake2b_256 fe (data_of (pd_blocks p)))) = 64"
    using assms(6) by (simp add: length_bytes_to_hex)
  have hm: "hash_matches fe (data_of (pd_blocks p)) (bytes_to_hex (blake2b_256 fe (data_of (pd_blocks p))))" by (simp add: hash_matches_def)
  have dn: "int (length (data_of (pd_blocks p))) = int (length (filter (\<lambda>x. x) (expand True m)))" using length_select fl d by simp
  let ?hole = "if even (length m) then last m else 0"
  have mne: "m \<noteq> []" using sm by (simp add: segments_ok_def)
  have eh: "sparse_ending_hole_size (Some m) = Inr ?hole"
    using mne by (simp add: sparse_ending_hole_size_def map_entries_def even_iff_mod_2_eq_zero)
  have "\<exists>ctx2. process_resource fe (read_callback env) False (raw_write_pwrite_callback fe) (raw_write_final_hole_callback fe)
      (ctx, (?dest, ptbw_init (replicate 512 0) None)) = (Inr (), (ctx2, (?dest, w2))) \<and> fc_output ctx2 = bc2"
  proof (cases "?hole > 0")
    case False
    then have "final_chunk m ?dest = []" by (simp add: final_chunk_def)
    then have "bc2 = bc1" "w2 = w1" using pw2 by simp_all
    moreover have "0 \<le> ?hole" using nn mne by simp
    then have "?hole = 0" using False by linarith
    then have eh0: "sparse_ending_hole_size (Some m) = Inr 0" using eh by (simp only:)
    ultimately show ?thesis using dn hm ctx1
      unfolding process_resource_steps [OF assms(3) ev assms(5) hl map segments_data_size(1) [OF sm]] ok_then_step [of "process_loop _ _ _ _ _ _ _", OF lp]
      by (simp add: from_res_def eh0 ok_then_def ret_def)
  next
    case True
    have hle: "?hole \<le> int (length file)"
      using member_le_sum_list [of "last m" m] nn mne sum by auto
    have fc: "final_chunk m ?dest = [(replicate (nat (min ?hole 512)) 0, nat (int ?dest + (sum_list m - min ?hole 512)))]"
      using True unfolding final_chunk_def Let_def by (simp only: if_True)
    have pw3: "ptbw_pwrite (aes_lib fe) (replicate (nat (min ?hole 512)) 0) (nat (int ?dest + (sum_list m - min ?hole 512))) (bc1, w1) =
        (Inr (), (bc2, w2))"
      using pw2 unfolding fc by (auto simp: ok_then_def split: prod.splits sum.splits)
    have ad: "add_offset ?dest (sum_list m - min ?hole 512) = Inr (nat (int ?dest + (sum_list m - min ?hole 512)))"
      using hle sum assms(2) True by (auto simp: add_offset_def)
    have fin: "raw_write_final_hole_callback fe ?hole (sum_list m) (ctx1, (?dest, w1)) = (Inr (), (ctx1\<lparr>fc_output := bc2\<rparr>, (?dest, w2)))"
      unfolding raw_write_final_hole_callback_def Let_def using pw3 ad ctx1 by (simp add: from_res_then on_writer_def)
    have fh: "from_res (bind_res (sparse_ending_hole_size (Some m)) (\<lambda>hole.
            if hole > 0 then bind_res (sparse_file_size (Some m)) (\<lambda>sz. Inr (hole, sz)) else Inr (hole, 0))) s =
        (Inr (?hole, sum_list m), s)" for s :: "('a, 'b fwup_apply_data) fun_context \<times> raw_write_cookie"
      using True by (simp add: eh from_res_def sparse_file_size_def map_entries_def segments_data_size(2) [OF sm] del: if_split_asm)
    show ?thesis
      unfolding process_resource_steps [OF assms(3) ev assms(5) hl map segments_data_size(1) [OF sm]] ok_then_step [of "process_loop _ _ _ _ _ _ _", OF lp]
        ok_then_step [OF fh]
      using True fin dn hm by (simp add: ok_then_def ret_def del: if_split_asm)
  qed
  then obtain ctx2 where pr: "process_resource fe (read_callback env) False (raw_write_pwrite_callback fe) (raw_write_final_hole_callback fe)
      (ctx, (?dest, ptbw_init (replicate 512 0) None)) = (Inr (), (ctx2, (?dest, w2)))" "fc_output ctx2 = bc2" by blast
  then show ?thesis using flush assms(1)
    by (auto simp: raw_write_run_def arg_def argc_def from_res_then off ok_then_def on_writer_def from_res_def split: prod.splits)
qed

text \<open>
  C16: on a medium without faults \<open>raw_write\<close> succeeds. A resource that fits, whose data has the hash of
  the metadata, is written whatever its holes are and however the archive cuts it into blocks; one call of the
  read callback for each byte, and one more, are enough.
\<close>

theorem raw_write_succeeds:
  assumes "fc_argv ctx = [name, show_nat blk]" and "blk * 512 + length file < 2 ^ 62"
    and "fc_type ctx = FUN_CONTEXT_FILE" and "writes_resource ctx resource m"
    and "cfg_getstr resource ''blake2b-256'' = Some (bytes_to_hex (blake2b_256 fe (data_of (pd_blocks p))))"
    and "length (blake2b_256 fe (data_of (pd_blocks p))) = 32"
    and "fc_cookie ctx = start_resource (Some m) p" and "pd_xd p = None" and "sparse_resource m file (pd_blocks p)"
    and "length (data_of (pd_blocks p)) < read_fuel fe" and "healthy (fc_output ctx)" and "cache_ok (fc_output ctx)"
  shows "fst (raw_write_run fe (read_callback env) ctx) = Inr ()"
  by (rule raw_write_total [OF assms])

text \<open>A file of 1,300 bytes with holes, in an archive that holds its data in blocks of other sizes.\<close>

definition holed_map :: "int list" where "holed_map = [0, 100, 700, 300, 100, 100]"

definition holed_file :: "byte list" where
  "holed_file = replicate 100 0 @ replicate 700 1 @ replicate 300 0 @ replicate 100 2 @ replicate 100 0"

definition holed_blocks :: "block_answer list" where
  "holed_blocks = [Block (replicate 650 1) 0, Block (replicate 50 1 @ replicate 20 2) 650, Block (replicate 80 2) 720]"

lemma holed_resource: "sparse_resource holed_map holed_file holed_blocks"
proof -
  have e: "expand True holed_map = replicate 100 False @ replicate 700 True @ replicate 300 False @ replicate 100 True @ replicate 100 False"
    by (simp add: holed_map_def)
  have "select holed_file (expand True holed_map) = replicate 700 1 @ replicate 100 2"
    unfolding e holed_file_def by (simp add: select_append)
  moreover have "data_of holed_blocks = replicate 700 1 @ replicate 100 2"
    by (simp add: holed_blocks_def data_of_def block_bytes_def flip: replicate_add append_assoc) (simp flip: replicate_add)
  moreover have "holed_file ! a = 0" if "a < 1300" "\<not> expand True holed_map ! a" for a
    using that by (auto simp: e holed_file_def nth_append split: if_splits)
  moreover have "segments_ok holed_map" by (simp add: segments_ok_def holed_map_def All_less_Suc numeral_eq_Suc)
  ultimately show ?thesis by (simp add: sparse_resource_def e holed_blocks_def readable_def) (simp add: holed_file_def)
qed

definition holed_cfg :: cfg where
  "holed_cfg = Cfg ''rootfs'' (\<lambda>_. - 1) (\<lambda>k. if k = ''length'' then holed_map else [])
     (\<lambda>k. if k = ''blake2b-256'' then Some (bytes_to_hex (replicate 32 32)) else None) (\<lambda>_. []) (\<lambda>_. False) (\<lambda>_. [])"

definition raw_write_ctx :: "(unit, 'x fwup_apply_data) fun_context" where
  "raw_write_ctx = \<lparr>fc_type = FUN_CONTEXT_FILE, fc_argv = [''raw_write'', show_nat 5],
     fc_cfg = Cfg [] (\<lambda>_. - 1) (\<lambda>_. []) (\<lambda>_. None) (\<lambda>_. []) (\<lambda>_. False) (\<lambda>k. if k = ''file-resource'' then [holed_cfg] else []),
     fc_task = no_cfg [], fc_on_event = Some (no_cfg ''rootfs''), fc_progress = progress_init PROGRESS_MODE_OFF 0 100,
     fc_output = file_cache (\<lambda>_. 9) 200000, fc_reboot_param_path = None, fc_world = (),
     fc_cookie = start_resource (Some holed_map) (idle_pd\<lparr>pd_blocks := holed_blocks\<rparr>)\<rparr>"

definition patient_env :: "unit fun_env" where
  "patient_env = quiet_env\<lparr>read_fuel := 2000, blake2b_256 := (\<lambda>b. replicate 32 (of_nat (length b div 25)))\<rparr>"

lemma raw_write_ctx_ok:
  "writes_resource raw_write_ctx holed_cfg holed_map" "length holed_file = 1300" "length (data_of holed_blocks) = 800"
  "cfg_getstr holed_cfg ''blake2b-256'' = Some (bytes_to_hex (blake2b_256 patient_env (data_of holed_blocks)))"
  "length (blake2b_256 patient_env (data_of holed_blocks)) = 32"
proof -
  show "writes_resource raw_write_ctx holed_cfg holed_map"
    by (simp add: writes_resource_def raw_write_ctx_def cfg_gettsec_def no_cfg_def holed_cfg_def sparse_file_get_map_from_resource_def holed_map_def)
  show "length holed_file = 1300" by (simp add: holed_file_def)
  show l: "length (data_of holed_blocks) = 800" by (simp add: holed_blocks_def data_of_def block_bytes_def)
  show "cfg_getstr holed_cfg ''blake2b-256'' = Some (bytes_to_hex (blake2b_256 patient_env (data_of holed_blocks)))"
    by (simp add: holed_cfg_def patient_env_def l)
  show "length (blake2b_256 patient_env (data_of holed_blocks)) = 32" by (simp add: patient_env_def)
qed

definition plain_apply_env :: "(unit, echo_stream) apply_env" where
  "plain_apply_env = \<lparr>ap_fun = patient_env, ap_arc = toy_verify_env, ap_fat_pread = (\<lambda>_ _ _ _ s. (Inr [], s))\<rparr>"

lemma raw_write_ctx_facts:
  "fc_argv raw_write_ctx = [''raw_write'', show_nat 5]" "5 * 512 + length holed_file < 2 ^ 62" "fc_type raw_write_ctx = FUN_CONTEXT_FILE"
  "fc_cookie raw_write_ctx = start_resource (Some holed_map) (idle_pd\<lparr>pd_blocks := holed_blocks\<rparr>)"
  "pd_xd (idle_pd\<lparr>pd_blocks := holed_blocks\<rparr>) = None" "sparse_resource holed_map holed_file (pd_blocks (idle_pd\<lparr>pd_blocks := holed_blocks\<rparr>))"
  "cfg_getstr holed_cfg ''blake2b-256'' = Some (bytes_to_hex (blake2b_256 patient_env (data_of (pd_blocks (idle_pd\<lparr>pd_blocks := holed_blocks\<rparr>)))))"
  "length (blake2b_256 patient_env (data_of (pd_blocks (idle_pd\<lparr>pd_blocks := holed_blocks\<rparr>)))) = 32"
  "length (data_of (pd_blocks (idle_pd\<lparr>pd_blocks := holed_blocks\<rparr>))) < read_fuel patient_env"
  "healthy (fc_output raw_write_ctx)" "cache_ok (fc_output raw_write_ctx)" "fc_output raw_write_ctx = file_cache (\<lambda>_. 9) 200000"
  by (simp_all add: raw_write_ctx_ok holed_resource file_cache_ok(1) file_cache_healthy raw_write_ctx_def)
    (simp_all add: idle_pd_def patient_env_def)

theorem raw_write_succeeds_witness:
  "fst (raw_write_run patient_env (read_callback plain_apply_env) raw_write_ctx) = Inr ()"
  by (rule raw_write_succeeds [OF raw_write_ctx_facts(1-3) raw_write_ctx_ok(1) raw_write_ctx_facts(7,8,4-6,9-11)])


section \<open>Termination\<close>

text \<open>What the loop calls may do anything to the context but to the state of the reader.\<close>

definition keeps_reader :: "('w, 'x fwup_apply_data, 'c, 'a) cb \<Rightarrow> bool" where
  "keeps_reader m \<longleftrightarrow> (\<forall>ctx c. fc_cookie (fst (snd (m (ctx, c)))) = fc_cookie ctx \<and> fst (m (ctx, c)) \<noteq> Inl (Undefined ''fuel''))"

text \<open>
  C21: the loop of \<open>process_resource\<close> ends. Plain data that can be read is used up after at most as many rounds as it has bytes, and
  one more, whatever the function does with the pieces and whether it fails or not.
\<close>

theorem process_loop_terminates:
  assumes "reader_ok (fc_cookie ctx)" and "pd_xd (fc_cookie ctx) = None" and "length (stream_of (fc_cookie ctx)) < fuel"
    and "\<forall>b offset. keeps_reader (pw b offset)"
  shows "fst (process_loop fuel fe (read_callback env) count_holes pw h prev (ctx, c)) \<noteq> Inl (Undefined ''fuel'')"
  using assms(1-3)
proof (induction fuel arbitrary: ctx c h prev)
  case (Suc fuel)
  obtain r p1 where r: "read_callback_normal (fc_cookie ctx) = (r, p1)" by fastforce
  have rd: "on_ctx (read_callback env) (ctx, c) = (r, (ctx\<lparr>fc_cookie := p1\<rparr>, c))"
    using r Suc.prems(2) by (simp add: on_ctx_def read_callback_def with_pd_def)
  have nu: "r \<noteq> Inl (Undefined w)" for w using reader_keeps_invariant [OF Suc.prems(1) r] by blast
  show ?case
  proof (cases r)
    case (Inl e)
    then show ?thesis using rd nu by (auto simp: ok_then_def)
  next
    case (Inr y)
    then obtain b offset where b: "r = Inr (b, offset)" by (cases y) auto
    show ?thesis
    proof (cases "b = []")
      case True
      then show ?thesis using rd b by (simp add: ok_then_def ret_def)
    next
      case False
      note st = piece_step [OF Suc.prems(1) r [unfolded b] False]
      have len: "length (stream_of p1) < fuel" using st(4) Suc.prems(3) False by (cases b) auto
      obtain r2 ctx2 c2 where w: "pw b offset (ctx\<lparr>fc_cookie := p1\<rparr>, c) = (r2, (ctx2, c2))" by (metis surj_pair)
      have k: "fc_cookie ctx2 = p1" "r2 \<noteq> Inl (Undefined ''fuel'')"
        using assms(4) w unfolding keeps_reader_def by (metis fst_conv snd_conv fun_context.select_convs(10) fun_context.surjective fun_context.update_convs(10))+
      show ?thesis
      proof (cases r2)
        case (Inl e)
        then show ?thesis using rd b False w k(2) by (auto simp: ok_then_def)
      next
        case (Inr u)
        let ?n = "if count_holes then word_of_int (offset + int (length b) - prev) else of_nat (length b)"
        obtain ctx3 where rp: "on_ctx (report fe ?n) (ctx2, c2) = (Inr (), (ctx3, c2))" "fc_cookie ctx3 = p1"
          using k(1) by (simp add: on_ctx_def report_def)
        have "process_loop (Suc fuel) fe (read_callback env) count_holes pw h prev (ctx, c) =
            process_loop fuel fe (read_callback env) count_holes pw (h @ b) (offset + int (length b)) (ctx3, c2)"
          using rd b False w Inr rp(1) by (simp add: ok_then_def Let_def)
        then show ?thesis using Suc.IH [of ctx3 "h @ b" "offset + int (length b)" c2] rp(2) st(1,5) Suc.prems(2) len by simp
      qed
    qed
  qed
qed simp

theorem process_loop_terminates_witness:
  "fst (process_loop 2000 quiet_env (read_callback plain_apply_env) True (\<lambda>_ _. ret ()) [] 0 (raw_write_ctx, ())) \<noteq>
     Inl (Undefined ''fuel'')"
proof (rule process_loop_terminates)
  have co: "fc_cookie raw_write_ctx = start_resource (Some holed_map) (idle_pd\<lparr>pd_blocks := holed_blocks\<rparr>)" by (simp add: raw_write_ctx_def)
  have m: "segments_ok holed_map" using holed_resource by (simp add: sparse_resource_def)
  show "reader_ok (fc_cookie raw_write_ctx)" unfolding co by (rule start_resource_ok(1) [OF m])
  show "pd_xd (fc_cookie raw_write_ctx) = None" by (simp add: co idle_pd_def)
  show "length (stream_of (fc_cookie raw_write_ctx)) < 2000" by (simp add: co stream_of_def raw_write_ctx_ok(3))
  show "\<forall>b offset. keeps_reader (ret () :: (unit, echo_stream fwup_apply_data, unit, unit) cb)" by (simp add: keeps_reader_def ret_def)
qed

end
