(* ===== verification/Fw_Apply.thy ===== *)
theory Fw_Apply
  imports Apply_Write
begin

text \<open>
  Applying an archive (\<open>fwup_apply.c\<close>): the events of a task, the setup of delta updates, the error
  path and \<open>fwup_apply\<close> itself.
\<close>

section \<open>Events\<close>

definition set_type :: "fun_context_type \<Rightarrow> ('w, 'd, unit) step" where
  "set_type t = (\<lambda>ctx. (Inr (), ctx\<lparr>fc_type := t\<rparr>))"

definition apply_event :: "string \<Rightarrow> string option \<Rightarrow> ('w, 'd, unit) step \<Rightarrow> ('w, 'd, unit) step" where
  "apply_event event_type event_parameter f = (\<lambda>ctx.
     let event = (case event_parameter of
           Some p \<Rightarrow> cfg_gettsec (fc_task ctx) event_type p | None \<Rightarrow> cfg_getsec (fc_task ctx) event_type) in
     case (case event of None \<Rightarrow> ret () | Some sec \<Rightarrow> fun_apply_funlist f (cfg_strs sec ''funlist''))
            (ctx\<lparr>fc_on_event := event\<rparr>) of
       (r, ctx') \<Rightarrow> (r, ctx'\<lparr>fc_on_event := None\<rparr>))"

fun progress_loop :: "('w, 'd, unit) step \<Rightarrow> cfg list \<Rightarrow> ('w, 'd, unit) step" where
  "progress_loop f [] ctx = (Inr (), ctx)"
| "progress_loop f (sec # secs) ctx =
     (case cfg_gettsec (fc_cfg ctx) ''file-resource'' (cfg_title sec) of
        None \<Rightarrow> progress_loop f secs ctx
      | Some _ \<Rightarrow> and_then (apply_event ''on-resource'' (Some (cfg_title sec)) f) (progress_loop f secs) ctx)"

definition compute_progress :: "('w, 'x) apply_env \<Rightarrow> ('w, 'x, unit) apply_step" where
  "compute_progress env =
     (let f = fun_compute_progress (ap_fun env) (read_callback env) in
      and_then (set_type FUN_CONTEXT_INIT)
        (and_then (apply_event ''on-init'' None f)
          (and_then (set_type FUN_CONTEXT_FILE)
            (and_then (\<lambda>ctx. progress_loop f (cfg_secs (fc_task ctx) ''on-resource'') ctx)
              (and_then (set_type FUN_CONTEXT_FINISH) (apply_event ''on-finish'' None f))))))"

section \<open>Delta updates\<close>

text \<open>The callback for the cache; it decrypts in place.\<close>

definition block_cache_decrypt_wrapper :: "aes \<Rightarrow> disk_crypto \<Rightarrow> (nat \<Rightarrow> byte) \<Rightarrow> nat \<Rightarrow> nat \<Rightarrow> nat \<Rightarrow> byte" where
  "block_cache_decrypt_wrapper lib dc buffer count offset =
     (let plain = disk_crypto_decrypt lib dc (map buffer [0..<count]) (map buffer [0..<count]) offset in
      (\<lambda>k. if k < length plain then plain ! k else buffer k))"

text \<open>\<open>source_raw_count * FWUP_BLOCK_SIZE\<close> is a product of \<open>int\<close>s.\<close>

definition int_blocks :: "int \<Rightarrow> nat res" where
  "int_blocks n = (if 0 \<le> n \<and> n * 512 < 2 ^ 31 then Inr (nat (n * 512)) else Inl (Undefined ''signed overflow''))"

definition start_raw_delta :: "('w, 'x) apply_env \<Rightarrow> string \<Rightarrow> int \<Rightarrow> string option \<Rightarrow> ('w, 'x, unit) apply_step" where
  "start_raw_delta env offset_str blocks options =
     ok_then (from_res (byte_offset (sint (strtoull_value offset_str)))) (\<lambda>source_offset.
     ok_then (case options of
                None \<Rightarrow> ret None
              | Some o1 \<Rightarrow> ok_then (from_res (disk_crypto_init source_offset [o1])) (\<lambda>dc.
                  and_then (on_output (\<lambda>bc. (Inr (), block_cache_set_decrypt (Some (block_cache_decrypt_wrapper (aes_lib (ap_fun env)) dc)) bc)))
                    (ret (Some dc))))
     (\<lambda>dc. ok_then (from_res (int_blocks blocks)) (\<lambda>source_count.
        with_pd (\<lambda>p. (Inr (), p\<lparr>pd_xd := Some (xdelta_init (ve_stream (ap_arc env)) []), xd_source_offset := source_offset,
           xd_source_count := source_count, xd_source_path := None, xd_source_dc := dc\<rparr>)))))"

definition start_fat_delta :: "('w, 'x) apply_env \<Rightarrow> string \<Rightarrow> string \<Rightarrow> ('w, 'x, unit) apply_step" where
  "start_fat_delta env offset_str path =
     ok_then (from_res (byte_offset (sint (strtoull_value offset_str)))) (\<lambda>source_offset.
        with_pd (\<lambda>p. (Inr (), p\<lparr>pd_xd := Some (xdelta_init (ve_stream (ap_arc env)) []), xd_source_offset := source_offset,
           xd_source_count := 0, xd_source_path := Some path, xd_source_dc := None\<rparr>)))"

definition start_delta :: "('w, 'x) apply_env \<Rightarrow> string \<Rightarrow> archive_entry \<Rightarrow> ('w, 'x, unit) apply_step" where
  "start_delta env resource_name ae = (\<lambda>ctx.
     case cfg_gettsec (fc_task ctx) ''on-resource'' resource_name of
       None \<Rightarrow> (Inr (), ctx)
     | Some on_resource \<Rightarrow>
         (let sfm = pd_sfm (fc_cookie ctx) in
          ok_then (from_res (sparse_file_data_size sfm)) (\<lambda>expected_size.
            if length (map_entries sfm) = 1 \<and> archive_entry_size_is_set ae \<and> archive_entry_size ae \<noteq> expected_size then
              (let raw_count = to_int32 (cfg_getint on_resource ''delta-source-raw-count'') in
               case (cfg_getstr on_resource ''delta-source-raw-offset'', cfg_getstr on_resource ''delta-source-fat-offset'',
                     cfg_getstr on_resource ''delta-source-fat-path'') of
                 (raw_offset, fat_offset, fat_path) \<Rightarrow>
                   if raw_count > 0 \<and> raw_offset \<noteq> None
                   then start_raw_delta env (the raw_offset) raw_count (cfg_getstr on_resource ''delta-source-raw-options'')
                   else if fat_offset \<noteq> None \<and> fat_path \<noteq> None
                   then start_fat_delta env (the fat_offset) (the fat_path)
                   else err_return ''File isn't expected size and xdelta3 patch support not enabled on it.'')
            else ret ()) ctx))"

definition finish_delta :: "('w, 'x, unit) apply_step" where
  "finish_delta = (\<lambda>ctx. let p = fc_cookie ctx in
     if pd_xd p \<noteq> None then
       (Inr (), ctx\<lparr>fc_output := (if xd_source_dc p \<noteq> None then block_cache_set_decrypt None (fc_output ctx) else fc_output ctx),
          fc_cookie := p\<lparr>pd_xd := None, xd_source_dc := None\<rparr>\<rparr>)
     else (Inr (), ctx))"

section \<open>Running a task\<close>

text \<open>One resource of the archive that the task uses.\<close>

definition run_resource :: "('w, 'x) apply_env \<Rightarrow> cfg \<Rightarrow> string \<Rightarrow> archive_entry \<Rightarrow> ('w, 'x, unit) apply_step" where
  "run_resource env resource resource_name ae =
     ok_then (from_res (sparse_file_get_map_from_resource resource)) (\<lambda>sfm.
     and_then (with_pd (\<lambda>p. (Inr (), start_resource sfm (p\<lparr>pd_blocks := ae_blocks ae\<rparr>))))
       (and_then (start_delta env resource_name ae)
         (and_then (apply_event ''on-resource'' (Some resource_name) (fun_run (ap_fun env) (read_callback env)))
           finish_delta)))"

text \<open>
  The loop over the entries that are left in the archive. libarchive skips what was not read of an
  entry when it goes to the next one, so the entries do not depend on the functions that run.
\<close>

fun run_entries :: "('w, 'x) apply_env \<Rightarrow> archive_entry list \<Rightarrow> resource_list \<Rightarrow> ('w, 'x, resource_list) apply_step" where
  "run_entries env [] list ctx = (Inr list, ctx)"
| "run_entries env (ae # es) list ctx =
     (case archive_filename_to_resource (ae_pathname ae) FWFILE_MAX_ARCHIVE_PATH of
        Inl e \<Rightarrow> (Inl e, ctx)
      | Inr resource_name \<Rightarrow>
          if resource_name = [] then run_entries env es list ctx
          else (case rlist_find_by_name list resource_name of
                  None \<Rightarrow> run_entries env es list ctx
                | Some i \<Rightarrow> and_then (run_resource env (ri_resource (list ! i)) resource_name ae)
                    (run_entries env es (set_processed i list)) ctx))"

text \<open>\<open>fatfs_closefs\<close> has no result.\<close>

definition closefs :: "('w, 'x) apply_env \<Rightarrow> ('w, 'x, unit) apply_step" where
  "closefs env = (\<lambda>ctx. case call_fat (ap_fun env) Fat_closefs ctx of
     (Inl (Undefined w), ctx') \<Rightarrow> (Inl (Undefined w), ctx') | (_, ctx') \<Rightarrow> (Inr (), ctx'))"

definition reset_output :: "('w, 'd, unit) step" where
  "reset_output = (\<lambda>ctx. (Inr (), ctx\<lparr>fc_output := block_cache_reset (fc_output ctx)\<rparr>))"

text \<open>The events up to \<open>on-finish\<close>; every resource of the task must have been in the archive.\<close>

definition run_resources :: "('w, 'x) apply_env \<Rightarrow> archive_entry list \<Rightarrow> ('w, 'x, unit) apply_step" where
  "run_resources env es =
     ok_then (\<lambda>ctx. (rlist_get_from_task (fc_cfg ctx) (fc_task ctx), ctx)) (\<lambda>resources.
       and_then (set_type FUN_CONTEXT_INIT)
         (and_then (apply_event ''on-init'' None (fun_run (ap_fun env) (read_callback env)))
           (and_then (set_type FUN_CONTEXT_FILE)
             (ok_then (run_entries env es resources) (\<lambda>resources'.
               and_then (from_res (all_processed resources')) (closefs env))))))"

definition run_events :: "('w, 'x) apply_env \<Rightarrow> archive_entry list \<Rightarrow> ('w, 'x, unit) apply_step" where
  "run_events env es =
     and_then (run_resources env es)
       (and_then (set_type FUN_CONTEXT_FINISH) (apply_event ''on-finish'' None (fun_run (ap_fun env) (read_callback env))))"

text \<open>A failure is followed by the error handler; if that fails as well, the cache is dropped again.\<close>

definition on_failure :: "('w, 'x) apply_env \<Rightarrow> ('w, 'x, unit) apply_step" where
  "on_failure env =
     and_then (set_type FUN_CONTEXT_ERROR) (and_then (closefs env) (and_then reset_output (\<lambda>ctx.
       case apply_event ''on-error'' None (fun_run (ap_fun env) (read_callback env)) ctx of
         (Inr _, ctx') \<Rightarrow> (Inr (), ctx')
       | (Inl (Undefined w), ctx') \<Rightarrow> (Inl (Undefined w), ctx')
       | (Inl _, ctx') \<Rightarrow> and_then (closefs env) reset_output ctx')))"

definition run_task :: "('w, 'x) apply_env \<Rightarrow> archive_entry list \<Rightarrow> ('w, 'x, unit) apply_step" where
  "run_task env es = (\<lambda>ctx. case run_events env es ctx of
     (Inr _, ctx') \<Rightarrow> (Inr (), ctx')
   | (Inl (Undefined w), ctx') \<Rightarrow> (Inl (Undefined w), ctx')
   | (Inl e, ctx') \<Rightarrow> (case on_failure env ctx' of
        (Inl (Undefined w), ctx'') \<Rightarrow> (Inl (Undefined w), ctx'') | (_, ctx'') \<Rightarrow> (Inl e, ctx'')))"

section \<open>Applying an archive\<close>

record fwup_apply_options =
  public_keys :: "byte list list"
  enable_trim :: bool
  opt_verify_writes :: bool
  opt_minimize_writes :: bool
  reboot_param_path :: "string option"
  opt_end_offset :: nat
  opt_is_soft_end_offset :: bool

text \<open>The cache size is the \<open>size_t\<close> of a number from the metadata.\<close>

definition cache_size_mb :: "cfg \<Rightarrow> nat" where
  "cache_size_mb c = unat (word_of_int (cfg_getint c ''block-cache-size-mb'') :: u64)"

text \<open>\<open>memset\<close> clears the context and its cookie.\<close>

definition new_context :: "fwup_apply_options \<Rightarrow> cfg \<Rightarrow> reporter \<Rightarrow> block_cache \<Rightarrow> 'w \<Rightarrow> ('w, 'x fwup_apply_data) fun_context" where
  "new_context options c progress bc w =
     \<lparr>fc_type = FUN_CONTEXT_INIT, fc_argv = [], fc_cfg = c, fc_task = Cfg [] (\<lambda>_. 0) (\<lambda>_. []) (\<lambda>_. None) (\<lambda>_. []) (\<lambda>_. False) (\<lambda>_. []),
      fc_on_event = None, fc_progress = progress, fc_output = bc, fc_reboot_param_path = reboot_param_path options,
      fc_world = w, fc_cookie = idle_pd\<rparr>"

definition select_task :: "('w, 'x) apply_env \<Rightarrow> string \<Rightarrow> ('w, 'x, unit) apply_step" where
  "select_task env task_prefix =
     ok_then (find_task (ap_fun env) task_prefix) (\<lambda>t ctx. case t of
       None \<Rightarrow> (Inl (Msg ''Couldn't find applicable task. If task is available, the task's requirements may not be met.''), ctx)
     | Some task \<Rightarrow> (Inr (), ctx\<lparr>fc_task := task\<rparr>))"

definition apply_task :: "('w, 'x) apply_env \<Rightarrow> string \<Rightarrow> archive_entry list \<Rightarrow> ('w, 'x, unit) apply_step" where
  "apply_task env task_prefix es =
     and_then (select_task env task_prefix)
       (and_then (compute_progress env)
         (and_then (run_task env es)
           (and_then (closefs env) (on_output block_cache_flush))))"

text \<open>
  What is done with the output at the end. On success the cache is freed and 100% reported; on a
  failure what the error handler has left is flushed, and errors are ignored.
\<close>

definition close_output :: "('w, 'x) apply_env \<Rightarrow> ('w, 'x, unit) apply_step" where
  "close_output env = and_then (closefs env) (\<lambda>ctx. case on_output block_cache_flush ctx of
     (Inl (Undefined w), ctx') \<Rightarrow> (Inl (Undefined w), ctx') | (_, ctx') \<Rightarrow> on_output block_cache_free ctx')"

definition finish_apply :: "('w, 'x) apply_env \<Rightarrow> unit res \<Rightarrow> ('w, 'x, unit) apply_step" where
  "finish_apply env r = (\<lambda>ctx. case r of
     Inr _ \<Rightarrow> and_then (on_output block_cache_free)
       (\<lambda>ctx. (Inr (), ctx\<lparr>fc_progress := progress_report_complete (progress_mode (ap_fun env)) (current_time_ms (ap_fun env)) (fc_progress ctx)\<rparr>)) ctx
   | Inl (Undefined w) \<Rightarrow> (Inl (Undefined w), ctx)
   | Inl e \<Rightarrow> (case close_output env ctx of (Inl (Undefined w), ctx') \<Rightarrow> (Inl (Undefined w), ctx') | (_, ctx') \<Rightarrow> (Inl e, ctx')))"

record 'w apply_result =
  res_code :: "unit res"
  res_device :: device
  res_progress :: reporter
  res_world :: 'w

text \<open>What happens once the metadata was accepted.\<close>

definition apply_archive :: "('w, 'x) apply_env \<Rightarrow> cfg \<Rightarrow> archive_entry list \<Rightarrow> string \<Rightarrow> device \<Rightarrow> reporter \<Rightarrow> fwup_apply_options \<Rightarrow>
    bool \<Rightarrow> 'w \<Rightarrow> 'w apply_result" where
  "apply_archive env c es task_prefix d progress options pthreads w =
     (case block_cache_init d (opt_end_offset options) (opt_is_soft_end_offset options) (enable_trim options)
             (opt_verify_writes options) (opt_minimize_writes options) (cache_size_mb c) pthreads of
        (r0, bc) \<Rightarrow>
          (case and_then (from_res r0) (apply_task env task_prefix es) (new_context options c progress bc w) of
             (r, ctx) \<Rightarrow> (case finish_apply env r ctx of
                (r', ctx') \<Rightarrow> \<lparr>res_code = r', res_device = fd (fc_output ctx'), res_progress = fc_progress ctx', res_world = fc_world ctx'\<rparr>)))"

definition fwup_apply :: "('w, 'x) apply_env \<Rightarrow> archive res \<Rightarrow> string \<Rightarrow> device \<Rightarrow> reporter \<Rightarrow> fwup_apply_options \<Rightarrow> bool \<Rightarrow> 'w \<Rightarrow> 'w apply_result" where
  "fwup_apply env opened task_prefix d progress options pthreads w =
     (let progress0 = progress_report (progress_mode (ap_fun env)) (current_time_ms (ap_fun env)) 0 progress in
      case bind_res opened (\<lambda>a. case read_meta (ve_meta (ap_arc env)) (public_keys options) a of (r, a') \<Rightarrow> bind_res r (\<lambda>c. Inr (c, ar_entries a'))) of
        Inl e \<Rightarrow> \<lparr>res_code = Inl e, res_device = d, res_progress = progress0, res_world = w\<rparr>
      | Inr (c, es) \<Rightarrow> apply_archive env c es task_prefix d progress0 options pthreads w)"

section \<open>Nothing is written without a valid signature\<close>

text \<open>
  C10: when public keys are given, an archive changes the device, or anything else outside of the program, only
  if it starts with metadata that is signed under one of the keys; what runs then is
  the configuration that the signed text gives, on the entries that follow it.
\<close>

theorem unsigned_archive_changes_nothing:
  assumes "public_keys options \<noteq> []" and "res = fwup_apply env (Inr a) task_prefix d progress options pthreads w"
    and "res_device res \<noteq> d \<or> res_world res \<noteq> w \<or> res_code res = Inr ()"
  shows "\<exists>s ae m rest c. meta_of a (Some s) ae m rest \<and> signed_by (ve_meta (ap_arc env)) (public_keys options) s m \<and>
    parse_meta (ve_meta (ap_arc env)) ae m = Inr c \<and>
    res = apply_archive env c rest task_prefix d
      (progress_report (progress_mode (ap_fun env)) (current_time_ms (ap_fun env)) 0 progress) options pthreads w"
proof -
  obtain r a' where m: "read_meta (ve_meta (ap_arc env)) (public_keys options) a = (r, a')" by fastforce
  show ?thesis
  proof (cases r)
    case (Inl e)
    then show ?thesis using assms(2,3) m by (simp add: fwup_apply_def)
  next
    case (Inr c)
    then obtain s ae t where "meta_of a (Some s) ae t (ar_entries a')" "parse_meta (ve_meta (ap_arc env)) ae t = Inr c"
        "signed_by (ve_meta (ap_arc env)) (public_keys options) s t"
      using read_meta_Inr [OF m [unfolded Inr]] assms(1) by blast
    moreover have "res = apply_archive env c (ar_entries a') task_prefix d
        (progress_report (progress_mode (ap_fun env)) (current_time_ms (ap_fun env)) 0 progress) options pthreads w"
      using assms(2) m Inr by (simp add: fwup_apply_def Let_def)
    ultimately show ?thesis by blast
  qed
qed

section \<open>A finished task has seen all its resources\<close>

definition entry_for :: "archive_entry list \<Rightarrow> string \<Rightarrow> bool" where
  "entry_for es n \<longleftrightarrow> (\<exists>ae \<in> set es. entry_name ae = Inr n)"

lemma run_entries_processed:
  "run_entries env es list ctx = (Inr list', ctx') \<Longrightarrow>
   map ri_resource list' = map ri_resource list \<and>
   (\<forall>i < length list. processed (list' ! i) \<longrightarrow> processed (list ! i) \<or> entry_for es (cfg_title (ri_resource (list ! i))))"
proof (induction env es list ctx rule: run_entries.induct)
  case (2 env ae es list ctx)
  obtain n where n: "archive_filename_to_resource (ae_pathname ae) FWFILE_MAX_ARCHIVE_PATH = Inr n"
    using "2.prems" by (auto split: sum.splits)
  have mono: "entry_for es t \<Longrightarrow> entry_for (ae # es) t" for t by (auto simp: entry_for_def)
  show ?case
  proof (cases "n = [] \<or> rlist_find_by_name list n = None")
    case True
    then have "run_entries env es list ctx = (Inr list', ctx')" using "2.prems" n by (cases "n = []") simp_all
    then have "map ri_resource list' = map ri_resource list \<and>
       (\<forall>i < length list. processed (list' ! i) \<longrightarrow> processed (list ! i) \<or> entry_for es (cfg_title (ri_resource (list ! i))))"
      using "2.IH"(1,2) n True by blast
    then show ?thesis using mono by blast
  next
    case False
    then obtain i where i: "n \<noteq> []" "rlist_find_by_name list n = Some i" by auto
    note found = rlist_find_by_name_Some [OF i(2)]
    obtain u ctx1 where "run_resource env (ri_resource (list ! i)) n ae ctx = (Inr u, ctx1)"
      and l: "run_entries env es (set_processed i list) ctx1 = (Inr list', ctx')"
      using "2.prems" n i by (auto elim!: ok_then_Inr_E)
    have IH: "map ri_resource list' = map ri_resource (set_processed i list)"
       "\<forall>j < length (set_processed i list). processed (list' ! j) \<longrightarrow> processed (set_processed i list ! j) \<or>
          entry_for es (cfg_title (ri_resource (set_processed i list ! j)))"
      using "2.IH"(3) [OF n i l] by blast+
    have len: "length (set_processed i list) = length list" by (simp add: set_processed_def)
    have here: "entry_for (ae # es) (cfg_title (ri_resource (list ! i)))"
      using found n by (auto simp: entry_for_def entry_name_def)
    have "processed (list ! j) \<or> entry_for (ae # es) (cfg_title (ri_resource (list ! j)))"
      if j: "j < length list" "processed (list' ! j)" for j
    proof (cases "j = i")
      case False
      then have "processed (set_processed i list ! j) = processed (list ! j)"
          "ri_resource (set_processed i list ! j) = ri_resource (list ! j)"
        using found j by (simp_all add: nth_set_processed)
      then show ?thesis using IH(2) j len mono by auto
    qed (use here in simp)
    then show ?thesis using IH(1) by simp
  qed
qed auto

lemma from_task_loop_found:
  assumes "rlist_get_from_task c task = Inr resources" and "sec \<in> set (cfg_secs task ''on-resource'')"
  obtains i where "i < length resources" "cfg_title (ri_resource (resources ! i)) = cfg_title sec" "\<not> processed (resources ! i)"
proof -
  obtain found where f: "resources = rev (map (\<lambda>r. \<lparr>ri_resource = r, processed = False\<rparr>) found)"
      "map Some found = map (\<lambda>r. cfg_gettsec c ''file-resource'' (cfg_title r)) (cfg_secs task ''on-resource'')"
    using from_task_loop_Inr [of c "cfg_secs task ''on-resource''" "[]" resources] assms(1) by (auto simp: rlist_get_from_task_def)
  have "cfg_gettsec c ''file-resource'' (cfg_title sec) \<in> set (map Some found)" unfolding f(2) using assms(2) by simp
  then obtain r where r: "r \<in> set found" "cfg_gettsec c ''file-resource'' (cfg_title sec) = Some r" by auto
  then have "cfg_title r = cfg_title sec" by (auto simp: cfg_gettsec_def find_Some_iff)
  moreover have "\<lparr>ri_resource = r, processed = False\<rparr> \<in> set resources" using r(1) f(1) by auto
  ultimately show thesis using that by (auto simp: in_set_conv_nth)
qed

lemma run_resources_Inr:
  assumes "run_resources env es ctx = (Inr u, ctx1)"
  shows "\<exists>resources c3 list' c4. rlist_get_from_task (fc_cfg ctx) (fc_task ctx) = Inr resources \<and>
    run_entries env es resources c3 = (Inr list', c4) \<and> all_processed list' = Inr ()"
proof -
  let ?init = "apply_event ''on-init'' None (fun_run (ap_fun env) (read_callback env))"
  let ?last = "\<lambda>resources'. and_then (from_res (all_processed resources')) (closefs env)"
  from assms obtain resources where res: "rlist_get_from_task (fc_cfg ctx) (fc_task ctx) = Inr resources"
    and "and_then (set_type FUN_CONTEXT_INIT) (and_then ?init (and_then (set_type FUN_CONTEXT_FILE) (ok_then (run_entries env es resources) ?last))) ctx =
      (Inr u, ctx1)"
    unfolding run_resources_def by (rule ok_then_Inr_E) simp
  then obtain x1 c1 where "and_then ?init (and_then (set_type FUN_CONTEXT_FILE) (ok_then (run_entries env es resources) ?last)) c1 = (Inr u, ctx1)"
    by (blast elim: ok_then_Inr_E)
  then obtain x2 c2 where "and_then (set_type FUN_CONTEXT_FILE) (ok_then (run_entries env es resources) ?last) c2 = (Inr u, ctx1)"
    by (blast elim: ok_then_Inr_E)
  then obtain x3 c3 where "ok_then (run_entries env es resources) ?last c3 = (Inr u, ctx1)"
    by (blast elim: ok_then_Inr_E)
  then obtain list' c4 where "run_entries env es resources c3 = (Inr list', c4)" "?last list' c4 = (Inr u, ctx1)"
    by (rule ok_then_Inr_E)
  then show ?thesis using res by (auto simp: from_res_then split: sum.splits)
qed

text \<open>
  C17: when a resource of the task has no entry in the archive the task fails before its \<open>on-finish\<close> event,
  which usually switches to the new firmware; and \<open>run_task\<close> does not report success.
\<close>

theorem finish_needs_all_resources:
  assumes "sec \<in> set (cfg_secs (fc_task ctx) ''on-resource'')" and "\<not> entry_for es (cfg_title sec)"
  shows "\<exists>e ctx1. run_resources env es ctx = (Inl e, ctx1) \<and> run_events env es ctx = (Inl e, ctx1) \<and> fst (run_task env es ctx) \<noteq> Inr ()"
proof -
  obtain r ctx1 where rr: "run_resources env es ctx = (r, ctx1)" by (metis surj_pair)
  have "\<exists>e. r = Inl e"
  proof (rule ccontr)
    assume "\<nexists>e. r = Inl e"
    then obtain u where "run_resources env es ctx = (Inr u, ctx1)" using rr by (cases r) auto
    from run_resources_Inr [OF this] obtain resources c3 list' c4 where
        res: "rlist_get_from_task (fc_cfg ctx) (fc_task ctx) = Inr resources"
      and ent: "run_entries env es resources c3 = (Inr list', c4)" and ap: "all_processed list' = Inr ()" by blast
    note rp = run_entries_processed [OF ent]
    have p: "\<forall>i < length resources. processed (list' ! i) \<longrightarrow> processed (resources ! i) \<or> entry_for es (cfg_title (ri_resource (resources ! i)))"
      using rp by blast
    have l: "length list' = length resources" using rp by (auto dest: map_eq_imp_length_eq)
    have all: "list_all processed list'" using ap by (auto simp: all_processed_def split: if_splits)
    obtain i where i: "i < length resources" "cfg_title (ri_resource (resources ! i)) = cfg_title sec" "\<not> processed (resources ! i)"
      by (rule from_task_loop_found [OF res assms(1)])
    then show False using p l all assms(2) by (auto simp: list_all_length)
  qed
  then obtain e where e: "r = Inl e" by blast
  then have "run_events env es ctx = (Inl e, ctx1)" using rr by (simp add: run_events_def ok_then_def)
  moreover have "fst (run_task env es ctx) \<noteq> Inr ()"
  proof -
    obtain r2 ctx2 where "on_failure env ctx1 = (r2, ctx2)" by (metis surj_pair)
    then have "\<exists>e'. fst (run_task env es ctx) = Inl e'"
      using calculation by (cases e; cases r2; cases "projl r2") (simp_all add: run_task_def)
    then show ?thesis by auto
  qed
  ultimately show ?thesis using rr e by blast
qed

section \<open>The error handler starts from an empty cache\<close>

lemma discard_all:
  "\<not> use_pthreads bc \<Longrightarrow> fd (discard_segments (\<lambda>_. True) is bc) = fd bc \<and> \<not> use_pthreads (discard_segments (\<lambda>_. True) is bc) \<and>
   length (segments (discard_segments (\<lambda>_. True) is bc)) = length (segments bc) \<and>
   (\<forall>j < length (segments bc). in_use (seg_at (discard_segments (\<lambda>_. True) is bc) j) \<longrightarrow> in_use (seg_at bc j) \<and> j \<notin> set is)"
proof (induction "is" arbitrary: bc)
  case (Cons i "is")
  let ?bc = "if in_use (seg_at bc i) then upd_seg i (\<lambda>seg. seg\<lparr>in_use := False\<rparr>) (wait_for_write_completion i bc) else bc"
  have w: "wait_for_write_completion i bc = bc" using Cons.prems by (simp add: wait_for_write_completion_def)
  have "fd ?bc = fd bc" "\<not> use_pthreads ?bc" "length (segments ?bc) = length (segments bc)"
    using Cons.prems by (simp_all add: w upd_seg_def)
  moreover have "in_use (seg_at ?bc j) \<longrightarrow> in_use (seg_at bc j) \<and> j \<noteq> i" if "j < length (segments bc)" for j
    unfolding w using that by (cases "i = j") (auto simp: upd_seg_def)
  ultimately show ?case using Cons.IH [of ?bc] by auto
qed simp

lemma reset_drops_all:
  assumes "\<not> use_pthreads bc"
  shows "fd (block_cache_reset bc) = fd bc" "\<forall>j < length (segments (block_cache_reset bc)). \<not> in_use (seg_at (block_cache_reset bc) j)"
  using discard_all [OF assms, of "[0..<length (segments bc)]"] by (auto simp: block_cache_reset_def)

lemma flush_unused:
  "\<forall>j < length (segments bc). \<not> in_use (seg_at bc j) \<Longrightarrow> block_cache_flush bc = (Inr (), bc)"
proof -
  assume u: "\<forall>j < length (segments bc). \<not> in_use (seg_at bc j)"
  have "flush_segments is bc = (Inr (), bc)" if "set is \<subseteq> {0..<length (segments bc)}" for "is"
    using that
  proof (induction "is")
    case (Cons i "is")
    then show ?case using u by (auto simp: flush_segment_def ok_then_def)
  qed simp
  then show ?thesis by (simp add: block_cache_flush_def)
qed

definition no_handler :: "cfg \<Rightarrow> bool" where
  "no_handler task = (case cfg_getsec task ''on-error'' of None \<Rightarrow> True | Some sec \<Rightarrow> cfg_strs sec ''funlist'' = [])"


section \<open>The source of a patch\<close>

text \<open>
  C19: a patch reads its source and nothing else. Whatever offset and count the decoder asks for, the callback either
  fails or returns the bytes of the source range from that offset, cut at the end of the
  range, and the output stays as it is.
\<close>

theorem xdelta_source_in_bounds:
  assumes "healthy (fc_output ctx)" and "cache_ok (fc_output ctx)"
    and "xd_source_offset (fc_cookie ctx) + xd_source_count (fc_cookie ctx) < 2 ^ 63"
    and "xdelta_read_source_callback count offset ctx = (r, ctx')"
  shows "(if 0 \<le> offset \<and> offset \<le> int (xd_source_count (fc_cookie ctx))
      then r = Inr (map (\<lambda>i. view (fc_output ctx) (xd_source_offset (fc_cookie ctx) + i))
                 [nat offset..<min (nat offset + count) (xd_source_count (fc_cookie ctx))])
      else \<exists>m. r = Inl (Msg m)) \<and>
    unchanged (fc_output ctx) (fc_output ctx') \<and> fc_cookie ctx' = fc_cookie ctx"
proof -
  let ?p = "fc_cookie ctx" and ?bc = "fc_output ctx"
  let ?size = "xd_source_count ?p" and ?base = "xd_source_offset ?p"
  have u: "unchanged ?bc ?bc" using assms(1,2) by (simp add: unchanged_def same_view_def)
  show ?thesis
  proof (cases "0 \<le> offset \<and> offset \<le> int ?size")
    case False
    then have "r = Inl (Msg ''xdelta tried to load outside of allowed byte range'')" "ctx' = ctx"
      using assms(4) by (auto simp: xdelta_read_source_callback_def Let_def)
    then show ?thesis unfolding if_not_P [OF False] using u by simp
  next
    case True
    define n where "n = (if count > ?size \<or> nat offset > ?size - count then ?size - nat offset else count)"
    have n: "nat offset + n = min (nat offset + count) ?size" using True by (auto simp: n_def)
    have a: "add_offset ?base offset = Inr (?base + nat offset)" using True assms(3) by (auto simp: add_offset_def)
    obtain out bc' where rd: "block_cache_pread n (?base + nat offset) ?bc = (Inr out, bc')" "unchanged ?bc bc'"
        "out = map (view ?bc) [?base + nat offset..<?base + nat offset + n]"
      using pread_unchanged(2) [OF u] by blast
    have "(r, ctx') = (Inr out, ctx\<lparr>fc_output := bc'\<rparr>)"
      using assms(4) True a rd(1)
      by (simp add: xdelta_read_source_callback_def Let_def from_res_then on_output_def flip: n_def)
    moreover have "map (view ?bc) [?base + nat offset..<?base + nat offset + n] = map (\<lambda>i. view ?bc (?base + i)) [nat offset..<nat offset + n]"
      by (rule nth_equalityI) (simp_all add: ac_simps)
    ultimately show ?thesis unfolding if_P [OF True] using rd(2,3) n by simp
  qed
qed

section \<open>Examples\<close>

definition toy_apply_env :: "(unit, echo_stream) apply_env" where
  "toy_apply_env = \<lparr>ap_fun = quiet_env, ap_arc = toy_verify_env, ap_fat_pread = (\<lambda>_ _ _ _ s. (Inr [], s))\<rparr>"

definition toy_task :: "string list \<Rightarrow> cfg" where
  "toy_task resources = Cfg ''upgrade'' (\<lambda>_. - 1) (\<lambda>_. []) (\<lambda>_. None) (\<lambda>_. []) (\<lambda>_. False)
     (\<lambda>k. if k = ''on-resource'' then map no_cfg resources else [])"

definition toy_ctx :: "string list \<Rightarrow> string list \<Rightarrow> (unit, echo_stream fwup_apply_data) fun_context" where
  "toy_ctx files resources = \<lparr>fc_type = FUN_CONTEXT_INIT, fc_argv = [],
     fc_cfg = Cfg [] (\<lambda>_. - 1) (\<lambda>_. []) (\<lambda>_. None) (\<lambda>_. []) (\<lambda>_. False) (\<lambda>k. if k = ''file-resource'' then map no_cfg files else []),
     fc_task = toy_task resources, fc_on_event = None, fc_progress = progress_init PROGRESS_MODE_OFF 0 100,
     fc_output = file_cache (\<lambda>_. 9) 200000, fc_reboot_param_path = None, fc_world = (),
     fc_cookie = idle_pd\<lparr>xd_source_offset := 1024, xd_source_count := 4096\<rparr>\<rparr>"

theorem finish_needs_all_resources_witness:
  "fst (run_task toy_apply_env [] (toy_ctx [''rootfs''] [''rootfs''])) \<noteq> Inr ()"
proof -
  have "no_cfg ''rootfs'' \<in> set (cfg_secs (fc_task (toy_ctx [''rootfs''] [''rootfs''])) ''on-resource'')"
      "\<not> entry_for [] (cfg_title (no_cfg ''rootfs''))"
    by (simp_all add: toy_ctx_def toy_task_def entry_for_def)
  from finish_needs_all_resources [OF this, of toy_apply_env] show ?thesis by blast
qed


lemma map_all_same: "\<forall>i \<in> set xs. f i = c \<Longrightarrow> map f xs = replicate (length xs) c"
  by (induction xs) auto

theorem xdelta_source_in_bounds_witness:
  "\<exists>ctx'. xdelta_read_source_callback READ_SIZE 4000 (toy_ctx [] []) = (Inr (replicate 96 9), ctx')"
proof -
  obtain r ctx' where r: "xdelta_read_source_callback READ_SIZE 4000 (toy_ctx [] []) = (r, ctx')" by (metis surj_pair)
  have h: "healthy (fc_output (toy_ctx [] []))" "cache_ok (fc_output (toy_ctx [] []))"
      "xd_source_offset (fc_cookie (toy_ctx [] [])) + xd_source_count (fc_cookie (toy_ctx [] [])) < 2 ^ 63"
    by (simp_all add: toy_ctx_def file_cache_healthy file_cache_ok(1))
  have v: "view (file_cache (\<lambda>_. 9) 200000) a = 9" if "a < 200000" for a using file_cache_ok(3) [of a "\<lambda>_. 9" 200000] that by simp
  have "r = Inr (map (\<lambda>i. view (file_cache (\<lambda>_. 9) 200000) (1024 + i)) [4000..<4096])"
    using xdelta_source_in_bounds [OF h r] by (simp add: toy_ctx_def READ_SIZE_def)
  moreover have "map (\<lambda>i. view (file_cache (\<lambda>_. 9) 200000) (1024 + i)) [4000..<4096] = replicate 96 9"
    using map_all_same [of "[4000..<4096]" "\<lambda>i. view (file_cache (\<lambda>_. 9) 200000) (1024 + i)" 9] v
    by (simp only: set_upt length_upt) simp
  ultimately show ?thesis using r by simp
qed

lemma init_unused:
  "\<exists>bc. block_cache_init d 0 False trim verify minimize mb pthreads = (Inr (), bc) \<and> fd bc = d \<and> use_pthreads bc = pthreads \<and>
     seg_to_write bc = None \<and> (\<forall>j < length (segments bc). \<not> in_use (seg_at bc j))"
  by (simp add: block_cache_init_def Let_def)

text \<open>An archive with a signed task that does nothing.\<close>

definition idle_secs :: "string \<Rightarrow> cfg list" where
  "idle_secs k = (if k = ''task'' then [toy_task []] else [])"

definition signed_apply_env :: "(unit, echo_stream) apply_env" where
  "signed_apply_env = toy_apply_env\<lparr>ap_arc := toy_verify_env\<lparr>ve_meta := toy_meta_env idle_secs\<rparr>\<rparr>"

definition toy_options :: fwup_apply_options where
  "toy_options = \<lparr>public_keys = [[9], [7]], enable_trim = False, opt_verify_writes = True, opt_minimize_writes = False,
     reboot_param_path = None, opt_end_offset = 0, opt_is_soft_end_offset = False\<rparr>"

lemma idle_apply:
  assumes "c = toy_cfg v idle_secs"
  shows "res_code (apply_archive signed_apply_env c [] ''upgrade'' d progress toy_options False ()) = Inr ()"
proof -
  obtain bc where bc: "block_cache_init d 0 False False True False (cache_size_mb c) False = (Inr (), bc)" "fd bc = d"
      "\<not> use_pthreads bc" "\<forall>j < length (segments bc). \<not> in_use (seg_at bc j)"
    using init_unused [of d False True False "cache_size_mb c" False] by auto
  let ?ctx = "new_context toy_options c progress bc ()"
  have ev: "apply_event k None f x = (Inr (), x\<lparr>fc_on_event := None\<rparr>)" if "fc_task x = toy_task []" "k \<noteq> ''on-resource''"
    for k f and x :: "(unit, echo_stream fwup_apply_data) fun_context"
    using that by (simp add: apply_event_def cfg_getsec_def cfg_getnsec_def toy_task_def ret_def)
  have minus: "to_int32 (- 1) = - 1" by (simp add: to_int32_def)
  have sel: "select_task signed_apply_env ''upgrade'' ?ctx = (Inr (), ?ctx\<lparr>fc_task := toy_task []\<rparr>)"
    by (simp add: select_task_def ok_then_def find_task_def new_context_def assms toy_cfg_def idle_secs_def toy_task_def
        deprecated_task_is_applicable_def task_is_applicable_def req_apply_reqlist.simps holds_def ret_def Let_def has_prefix_def minus)
  have prog: "compute_progress signed_apply_env x = (Inr (), x\<lparr>fc_type := FUN_CONTEXT_FINISH, fc_on_event := None\<rparr>)"
    if "fc_task x = toy_task []" for x
  proof -
    have "cfg_secs (toy_task []) ''on-resource'' = []" by (simp add: toy_task_def)
    then show ?thesis using that by (simp add: compute_progress_def Let_def ok_then_def set_type_def ev)
  qed
  have fs: "closefs signed_apply_env x = (Inr (), x)" for x
    by (simp add: closefs_def call_fat_def signed_apply_env_def toy_apply_env_def quiet_env_def)
  have run: "run_task signed_apply_env [] x = (Inr (), x\<lparr>fc_type := FUN_CONTEXT_FINISH, fc_on_event := None\<rparr>)"
    if "fc_task x = toy_task []" for x
  proof -
    have "rlist_get_from_task (fc_cfg x) (toy_task []) = Inr []" by (simp add: rlist_get_from_task_def toy_task_def)
    then show ?thesis using that
      by (simp add: run_task_def run_events_def run_resources_def ok_then_def set_type_def ev fs from_res_def all_processed_def)
  qed
  have "apply_task signed_apply_env ''upgrade'' [] ?ctx =
      (Inr (), ?ctx\<lparr>fc_task := toy_task [], fc_type := FUN_CONTEXT_FINISH, fc_on_event := None\<rparr>)"
    using flush_unused [OF bc(4)]
    by (simp add: apply_task_def ok_then_def sel prog run fs on_output_def) (simp add: new_context_def)
  moreover have "opt_end_offset toy_options = 0" "\<not> opt_is_soft_end_offset toy_options" "\<not> enable_trim toy_options"
      "opt_verify_writes toy_options" "\<not> opt_minimize_writes toy_options" by (simp_all add: toy_options_def)
  ultimately show ?thesis using bc
    by (simp add: apply_archive_def from_res_def finish_apply_def ok_then_def on_output_def block_cache_free_def Let_def)
qed

theorem unsigned_archive_changes_nothing_witness:
  "\<exists>s ae m rest. meta_of (toy_archive []) (Some s) ae m rest \<and> signed_by (ve_meta (ap_arc signed_apply_env)) (public_keys toy_options) s m"
proof -
  let ?r = "fwup_apply signed_apply_env (Inr (toy_archive [])) ''upgrade'' (plain_file (\<lambda>_. 9) 4096) (progress_init PROGRESS_MODE_OFF 0 100)
      toy_options False ()"
  obtain v where "read_meta (ve_meta (ap_arc signed_apply_env)) (public_keys toy_options) (toy_archive []) =
      (Inr (toy_cfg v idle_secs), \<lparr>ar_entries = [], ar_blocks = [], ar_reads = []\<rparr>)"
    using toy_read_meta [of idle_secs "[]"] by (auto simp: signed_apply_env_def toy_options_def)
  then have r: "res_device ?r \<noteq> plain_file (\<lambda>_. 9) 4096 \<or> res_world ?r \<noteq> () \<or> res_code ?r = Inr ()"
    using idle_apply [OF refl] by (simp add: fwup_apply_def Let_def)
  have k: "public_keys toy_options \<noteq> []" by (simp add: toy_options_def)
  show ?thesis using unsigned_archive_changes_nothing [OF k refl r] by blast
qed

end
