(* ===== verification/Cache_Decrypt.thy ===== *)
theory Cache_Decrypt
  imports Cache_Total
begin

text \<open>
  The cache with a decryption callback, as it is set while an encrypted source of a patch is read: what is read to
  complete a segment before it is written is decrypted too.
\<close>

lemma merge_keeps_flags:
  assumes "length (seg_flags seg) = 64" and "b < 256"
  shows "blk_dirty (fold (merge_block temp) [0..<256] seg) b = blk_dirty seg b"
  using merge_loop [OF assms(1), where n = 256 and temp = temp] assms(2) by simp

text \<open>A regular file, written without comparing first.\<close>

definition plain_output :: "block_cache \<Rightarrow> bool" where
  "plain_output bc \<longleftrightarrow> healthy bc \<and> \<not> minimize_writes bc \<and> end_offset bc = 0"

lemma plain_io: "plain_output bc \<Longrightarrow> calculate_io_size off bc = (Inr 131072, bc)"
  by (simp add: calculate_io_size_def plain_output_def)

lemma plain_write_effect:
  assumes "verified_segment_write i bc = (Inr u, bc')" and "plain_output bc" and "k < 131072"
  shows "dev_bytes (fd bc') (seg_offset (seg_at bc i) + k) = seg_data (seg_at bc i) k"
proof -
  let ?off = "seg_offset (seg_at bc i)"
  obtain m d where p: "dev_pwrite (seg_data (seg_at bc i)) 131072 ?off (fd bc) = (m, d)" by fastforce
  have w: "(if m \<noteq> 131072 then (Inl (Msg ''writing failed. Check media size.''), bc\<lparr>fd := d\<rparr>)
      else if verify_writes bc then
        (if dev_pread d 131072 ?off \<noteq> Some 131072 then (Inl (Msg ''read back failed''), bc\<lparr>fd := d\<rparr>)
         else if \<not> same_on_device (bc\<lparr>fd := d\<rparr>) (seg_data (seg_at bc i)) 131072 ?off
           then (Inl (Msg ''write verification failed''), bc\<lparr>fd := d\<rparr>)
         else (Inr (), bc\<lparr>fd := d\<rparr>))
      else (Inr (), bc\<lparr>fd := d\<rparr>)) = (Inr u, bc')"
    using assms(1,2) plain_io [OF assms(2)] p by (simp add: verified_segment_write_def Let_def ok_then_def plain_output_def)
  then have m: "m = 131072" and b: "fd bc' = d" by (auto split: if_splits)
  have "dev_store (fd bc) a x = x" for a x using assms(2) by (simp add: plain_output_def healthy_def faultless_def)
  then show ?thesis using dev_pwrite_effect(1) [OF p [unfolded m] assms(3)] b by simp
qed

text \<open>
  With a decryption callback set, writing a segment back of which only some blocks were written destroys the others: a
  block that nobody wrote is read from the device, decrypted and written back in the clear.
\<close>

theorem decrypted_neighbours_written:
  assumes "flush_segment i bc = (Inr u, bc')" and "plain_output bc" and "decrypt_callback bc = Some f"
    and "i < length (segments bc)" and "in_use (seg_at bc i)" and "length (seg_flags (seg_at bc i)) = 64"
    and "written < 256" and "blk_dirty (seg_at bc i) written" and "blk_valid (seg_at bc i) written"
    and "other < 256" and "\<not> blk_valid (seg_at bc i) other" and "k div 512 = other"
    and "off = seg_offset (seg_at bc i)" and "\<not> is_trimmed bc off" and "off + 131072 \<le> dev_size (fd bc)"
  shows "dev_bytes (fd bc') (off + k) = f (\<lambda>k. if k < 131072 then dev_bytes (fd bc) (off + k) else 0) 131072 off k"
proof -
  let ?s = "seg_at bc i" and ?data = "\<lambda>k. if k < 131072 then dev_bytes (fd bc) (off + k) else 0"
  have k: "k < 131072" using assms(10,12) by (simp add: div_less_iff_less_mult)
  have nv: "check_segment_validity ?s = (False, False)"
    using check_segment_validity_iff [OF assms(6)] assms(7,9,10,11) by auto
  have rd: "dev_pread (fd bc) 131072 off = Some 131072"
    using assms(2,15) by (simp add: dev_pread_def plain_output_def healthy_def faultless_def)
  have rs: "read_segment off bc = (Inr (f ?data 131072 off), bc)"
    using assms(14) plain_io [OF assms(2)] rd assms(3) by (simp add: read_segment_def ok_then_def Let_def)
  let ?m = "fold (merge_block (f ?data 131072 off)) [0..<256] ?s"
  let ?bc1 = "upd_seg i (fold (merge_block (f ?data 131072 off)) [0..<256]) bc"
  have mv: "make_segment_valid i bc = (Inr (), ?bc1)"
    using nv rs by (simp add: make_segment_valid_def ok_then_def assms(13))
  have dirty: "is_segment_dirty ?s" using is_segment_dirty_iff [OF assms(6)] assms(7,8) by blast
  obtain rc bc2 where w: "do_sync_write i ?bc1 = (rc, bc2)" by fastforce
  obtain c bc3 where c: "clear_trimmed (seg_offset ?s) (upd_seg i clear_all_dirty bc2) = (c, bc3)" by fastforce
  have fin: "rc = Inr u" "\<exists>u'. c = Inr u'" "bc3 = bc'"
    using assms(1,5) dirty mv w c by (auto simp: flush_segment_def ok_then_def split: sum.splits)
  have p1: "plain_output ?bc1" using assms(2) by (simp add: plain_output_def healthy_def upd_seg_def)
  have at: "seg_at ?bc1 i = ?m" using assms(4) by (simp add: upd_seg_def)
  note ml = merge_loop [OF assms(6), where n = 256 and temp = "f ?data 131072 off"]
  have "verified_segment_write i ?bc1 = (Inr u, bc2)"
    using w fin(1) p1 by (simp add: do_sync_write_def plain_output_def healthy_def)
  from plain_write_effect [OF this p1 k, unfolded at]
  have "dev_bytes (fd bc2) (seg_offset ?m + k) = seg_data ?m k" .
  moreover have "seg_offset ?m = off" using ml assms(13) by simp
  moreover have "seg_data ?m k = f ?data 131072 off k" using ml k assms(10-12) by simp
  moreover have "fd bc' = fd bc2"
    using c fin by (auto simp: clear_trimmed_def Let_def upd_seg_def enlarge_trim_bitvector_def split: if_splits)
  ultimately show ?thesis by simp
qed

text \<open>One block of a segment was written while the callback was set.\<close>

definition spoiled_cache :: block_cache where
  "spoiled_cache = (file_cache (\<lambda>_. 9) 200000)
     \<lparr>segments := [\<lparr>in_use = True, seg_data = (\<lambda>_. 1), seg_offset = 0, last_access = 0, streamed = True,
        seg_flags = 3 # replicate 63 0\<rparr>], decrypt_callback := Some (\<lambda>bytes n off k. bytes k + 1)\<rparr>"

theorem decrypted_neighbours_written_witness:
  "\<exists>bc'. flush_segment 0 spoiled_cache = (Inr (), bc') \<and> dev_bytes (fd spoiled_cache) 700 = 9 \<and> dev_bytes (fd bc') 700 = 10"
proof -
  have fc: "fd (file_cache (\<lambda>_. 9) 200000) = plain_file (\<lambda>_. 9) 200000" "\<not> use_pthreads (file_cache (\<lambda>_. 9) 200000)"
      "\<not> minimize_writes (file_cache (\<lambda>_. 9) 200000)" "end_offset (file_cache (\<lambda>_. 9) 200000) = 0" "\<not> is_trimmed (file_cache (\<lambda>_. 9) 200000) 0"
      "\<not> trimmed_remainder (file_cache (\<lambda>_. 9) 200000)"
    by (simp_all add: file_cache_def block_cache_init_def Let_def is_trimmed_def)
  have p: "plain_output spoiled_cache"
    using file_cache_healthy [of "\<lambda>_. 9" 200000] fc by (simp add: spoiled_cache_def plain_output_def healthy_def)
  then obtain bc' where r: "flush_segment 0 spoiled_cache = (Inr (), bc')"
    using flush_segment_succeeds [of 0] by (auto simp: succeeds_def plain_output_def)
  have d: "fd spoiled_cache = plain_file (\<lambda>_. 9) 200000" using fc by (simp add: spoiled_cache_def)
  have tr: "\<not> is_trimmed spoiled_cache 0" using fc(5) by (auto simp: is_trimmed_def spoiled_cache_def Let_def split: if_splits)
  have "dev_bytes (fd bc') (0 + 700) = (\<lambda>bytes n off k. bytes k + 1) (\<lambda>k. if k < 131072 then dev_bytes (fd spoiled_cache) (0 + k) else 0) 131072 0 700"
    by (rule decrypted_neighbours_written [OF r p, where written = 0 and other = 1])
      (use tr in \<open>simp_all add: spoiled_cache_def blk_dirty_def blk_valid_def fc plain_file_def\<close>)
  then show ?thesis using r d by (simp add: plain_file_def)
qed

end
