(* ===== verification/Cfg_Print.thy ===== *)
theory Cfg_Print
  imports CLib
begin

text \<open>
  The options of a configuration file (the tables of \<open>cfgfile.c\<close>), strings that grow
  (\<open>simple_string.c\<close>) and the printing of a configuration, which makes the text of \<open>meta.conf\<close>
  (\<open>cfgprint.c\<close>). An option of libconfuse is a constructor with its name and default. The values are those of the
  \<open>cfg\<close>: the options that are not lists have one value.
\<close>

section \<open>Strings that grow\<close>

text \<open>
  \<open>None\<close> is the null pointer after a failed allocation. The text is what is in front of \<open>p\<close>, and the buffer
  has been doubled \<open>ss_doublings\<close> times from its starting size. \<open>malloc\<close> tells which sizes can be
  allocated. The text that \<open>vsnprintf\<close> would print is an argument.
\<close>

record simple_string_buf =
  ss_text :: string
  ss_doublings :: nat

type_synonym simple_string = "simple_string_buf option"

definition ss_size :: "simple_string_buf \<Rightarrow> nat" where
  "ss_size s = 4096 * 2 ^ ss_doublings s"

definition simple_string_init :: "(nat \<Rightarrow> bool) \<Rightarrow> simple_string" where
  "simple_string_init malloc = (if malloc 4096 then Some \<lparr>ss_text = [], ss_doublings = 0\<rparr> else None)"

definition simple_string_enlarge :: "(nat \<Rightarrow> bool) \<Rightarrow> simple_string_buf \<Rightarrow> simple_string" where
  "simple_string_enlarge malloc s =
     (if malloc (ss_size s * 2) then Some (s\<lparr>ss_doublings := ss_doublings s + 1\<rparr>) else None)"

lemma ss_size_text [simp]: "ss_size (s\<lparr>ss_text := t\<rparr>) = ss_size s"
  by (simp add: ss_size_def)

lemma enlarge_Some: "simple_string_enlarge malloc s = Some s' \<Longrightarrow> ss_text s' = ss_text s \<and> ss_size s' = 2 * ss_size s \<and> 0 < ss_size s"
  by (auto simp: simple_string_enlarge_def ss_size_def split: if_splits)

function ssprintf :: "(nat \<Rightarrow> bool) \<Rightarrow> string \<Rightarrow> simple_string \<Rightarrow> simple_string" where
  "ssprintf malloc printed None = None"
| "ssprintf malloc printed (Some s) =
     (let max_len = int (ss_size s) - int (length (ss_text s)) - 1; n = int (length printed) in
      if n < max_len then Some (s\<lparr>ss_text := ss_text s @ printed\<rparr>)
      else ssprintf malloc printed (simple_string_enlarge malloc s))"
  by pat_completeness auto
termination
  by (relation "measure (\<lambda>(_, t, s). case s of None \<Rightarrow> 0
       | Some s \<Rightarrow> Suc (length t + length (ss_text s) + 2 - ss_size s))")
    (auto dest!: enlarge_Some split: option.splits)

function ssappend :: "(nat \<Rightarrow> bool) \<Rightarrow> string \<Rightarrow> simple_string \<Rightarrow> simple_string" where
  "ssappend malloc str None = None"
| "ssappend malloc str (Some s) =
     (let len = int (length str) + 1 in
      if int (ss_size s) - int (length (ss_text s)) < len then ssappend malloc str (simple_string_enlarge malloc s)
      else Some (s\<lparr>ss_text := ss_text s @ str\<rparr>))"
  by pat_completeness auto
termination
  by (relation "measure (\<lambda>(_, t, s). case s of None \<Rightarrow> 0
       | Some s \<Rightarrow> Suc (length t + length (ss_text s) + 1 - ss_size s))")
    (auto dest!: enlarge_Some split: option.splits)

declare ssprintf.simps(2) [simp del] ssappend.simps(2) [simp del]

text \<open>The text fits into the buffer, with its terminating NUL.\<close>

definition ss_ok :: "simple_string_buf \<Rightarrow> bool" where
  "ss_ok s \<longleftrightarrow> length (ss_text s) < ss_size s"

lemma ssprintf_Some:
  "ssprintf malloc printed (Some s) = Some s' \<Longrightarrow> ss_text s' = ss_text s @ printed \<and> ss_ok s'"
proof (induction malloc printed "Some s" arbitrary: s rule: ssprintf.induct)
  case (2 malloc printed s)
  show ?case
  proof (cases "int (length printed) < int (ss_size s) - int (length (ss_text s)) - 1")
    case True
    then show ?thesis using "2.prems" by (auto simp: ssprintf.simps(2) Let_def ss_ok_def)
  next
    case False
    then have r: "ssprintf malloc printed (simple_string_enlarge malloc s) = Some s'"
      using "2.prems" by (simp add: ssprintf.simps(2) Let_def)
    then obtain s1 where s1: "simple_string_enlarge malloc s = Some s1" by (cases "simple_string_enlarge malloc s") auto
    show ?thesis using "2.hyps" [OF refl refl _ s1] False r enlarge_Some [OF s1] by (simp add: s1)
  qed
qed

lemma ssprintf_total: "\<forall>n. malloc n \<Longrightarrow> \<exists>s'. ssprintf malloc printed (Some s) = Some s'"
proof (induction malloc printed "Some s" arbitrary: s rule: ssprintf.induct)
  case (2 malloc printed s)
  obtain s1 where s1: "simple_string_enlarge malloc s = Some s1" using "2.prems" by (simp add: simple_string_enlarge_def)
  show ?case
  proof (cases "int (length printed) < int (ss_size s) - int (length (ss_text s)) - 1")
    case False
    then have "ssprintf malloc printed (Some s) = ssprintf malloc printed (Some s1)"
      by (simp add: ssprintf.simps(2) [of _ _ s] Let_def s1)
    then show ?thesis using "2.hyps" [OF refl refl _ s1 "2.prems"] False by simp
  qed (simp add: ssprintf.simps(2) Let_def)
qed

lemma ssappend_Some: "ssappend malloc str (Some s) = Some s' \<Longrightarrow> ss_text s' = ss_text s @ str \<and> ss_ok s'"
proof (induction malloc str "Some s" arbitrary: s rule: ssappend.induct)
  case (2 malloc str s)
  show ?case
  proof (cases "int (ss_size s) - int (length (ss_text s)) < int (length str) + 1")
    case False
    then show ?thesis using "2.prems" by (auto simp: ssappend.simps(2) Let_def ss_ok_def)
  next
    case True
    then have r: "ssappend malloc str (simple_string_enlarge malloc s) = Some s'"
      using "2.prems" by (simp add: ssappend.simps(2) Let_def)
    then obtain s1 where s1: "simple_string_enlarge malloc s = Some s1" by (cases "simple_string_enlarge malloc s") auto
    show ?thesis using "2.hyps" [OF refl _ s1] True r enlarge_Some [OF s1] by (simp add: s1)
  qed
qed

lemma ssappend_total: "\<forall>n. malloc n \<Longrightarrow> \<exists>s'. ssappend malloc str (Some s) = Some s'"
proof (induction malloc str "Some s" arbitrary: s rule: ssappend.induct)
  case (2 malloc str s)
  obtain s1 where s1: "simple_string_enlarge malloc s = Some s1" using "2.prems" by (simp add: simple_string_enlarge_def)
  show ?case
  proof (cases "int (ss_size s) - int (length (ss_text s)) < int (length str) + 1")
    case True
    then have "ssappend malloc str (Some s) = ssappend malloc str (Some s1)"
      by (simp add: ssappend.simps(2) [of _ _ s] Let_def s1)
    then show ?thesis using "2.hyps" [OF refl _ s1 "2.prems"] True by simp
  qed (simp add: ssappend.simps(2) Let_def)
qed

section \<open>The options\<close>

datatype callback =
    cb_include | cb_define | cb_define_bang | cb_define_eval | cb_define_eval_bang
  | cb_on_init_func | cb_on_finish_func | cb_on_error_func | cb_on_resource_func | cb_task_require_func

text \<open>
  A section has the options of its table; it is either titled and may occur many times
  (\<open>CFGF_MULTI | CFGF_TITLE | CFGF_NO_TITLE_DUPES\<close>) or it is neither. Lengths are in a list of
  integers, as on every platform whose \<open>int\<close> or \<open>off_t\<close> is as wide as its offsets.
\<close>

datatype cfg_opt =
    CFG_STR string "string option"
  | CFG_INT string int
  | CFG_BOOL string bool
  | CFG_INT_LIST string
  | CFG_STR_LIST string
  | CFG_FUNC string callback
  | CFG_SEC string "cfg_opt list" bool

definition INT32_MAX :: int where "INT32_MAX = 2147483647"

definition CFG_IGNORE_UNKNOWN :: cfg_opt where
  "CFG_IGNORE_UNKNOWN = CFG_STR ''__unknown'' None"

definition file_resource_opts :: "cfg_opt list" where
  "file_resource_opts = [CFG_FUNC ''include'' cb_include, CFG_STR ''host-path'' None, CFG_BOOL ''skip-holes'' False,
     CFG_INT_LIST ''length'', CFG_STR ''contents'' None, CFG_STR ''blake2b-256'' None, CFG_STR ''sha256'' None,
     CFG_INT ''assert-size-lte'' (- 1), CFG_INT ''assert-size-gte'' (- 1), CFG_IGNORE_UNKNOWN]"

definition mbr_partition_opts :: "cfg_opt list" where
  "mbr_partition_opts = [CFG_STR ''block-offset'' None, CFG_INT ''block-count'' INT32_MAX, CFG_INT ''type'' (- 1),
     CFG_BOOL ''boot'' False, CFG_BOOL ''expand'' False, CFG_IGNORE_UNKNOWN]"

definition mbr_osii_opts :: "cfg_opt list" where
  "mbr_osii_opts = [CFG_INT ''os-major'' 0, CFG_INT ''os-minor'' 0, CFG_INT ''start-block-offset'' 0, CFG_INT ''ddr-load-address'' 0,
     CFG_INT ''entry-point'' 0, CFG_INT ''image-size-blocks'' 0, CFG_INT ''attribute'' 15, CFG_IGNORE_UNKNOWN]"

definition mbr_opts :: "cfg_opt list" where
  "mbr_opts = [CFG_STR ''bootstrap-code-host-path'' None, CFG_STR ''bootstrap-code'' None, CFG_BOOL ''include-osip'' False,
     CFG_INT ''osip-major'' 1, CFG_INT ''osip-minor'' 0, CFG_INT ''osip-num-pointers'' 1, CFG_STR ''signature'' None,
     CFG_SEC ''partition'' mbr_partition_opts True, CFG_SEC ''osii'' mbr_osii_opts True, CFG_IGNORE_UNKNOWN]"

definition gpt_partition_opts :: "cfg_opt list" where
  "gpt_partition_opts = [CFG_STR ''block-offset'' None, CFG_INT ''block-count'' INT32_MAX, CFG_STR ''type'' None, CFG_STR ''guid'' None,
     CFG_STR ''name'' (Some []), CFG_STR ''flags'' (Some ''0''), CFG_BOOL ''expand'' False, CFG_BOOL ''boot'' False, CFG_IGNORE_UNKNOWN]"

definition gpt_opts :: "cfg_opt list" where
  "gpt_opts = [CFG_STR ''guid'' None, CFG_SEC ''partition'' gpt_partition_opts True, CFG_IGNORE_UNKNOWN]"

definition uboot_environment_opts :: "cfg_opt list" where
  "uboot_environment_opts = [CFG_STR ''block-offset'' None, CFG_INT ''block-count'' INT32_MAX, CFG_STR ''block-offset-redund'' None, CFG_IGNORE_UNKNOWN]"

definition event_functions :: "string list" where
  "event_functions = [''raw_memset'', ''raw_write'', ''fat_mkfs'', ''fat_attrib'', ''fat_write'', ''fat_cp'', ''fat_mv'', ''fat_mv!'', ''fat_rm'',
     ''fat_rm!'', ''fat_mkdir'', ''fat_setlabel'', ''fat_touch'', ''gpt_write'', ''mbr_write'', ''trim'', ''uboot_clearenv'', ''uboot_recover'',
     ''uboot_setenv'', ''uboot_unsetenv'', ''error'', ''info'', ''path_write'', ''pipe_write'', ''ubi_volume_write'', ''execute'', ''reboot_param'']"

definition CFG_ON_EVENT_FUNCTIONS :: "callback \<Rightarrow> cfg_opt list" where
  "CFG_ON_EVENT_FUNCTIONS cb = [CFG_STR_LIST ''funlist'', CFG_FUNC ''include'' cb_include] @ map (\<lambda>f. CFG_FUNC f cb) event_functions"

definition task_on_init_opts :: "cfg_opt list" where "task_on_init_opts = CFG_ON_EVENT_FUNCTIONS cb_on_init_func"
definition task_on_finish_opts :: "cfg_opt list" where "task_on_finish_opts = CFG_ON_EVENT_FUNCTIONS cb_on_finish_func"
definition task_on_error_opts :: "cfg_opt list" where "task_on_error_opts = CFG_ON_EVENT_FUNCTIONS cb_on_error_func"

definition task_on_resource_opts :: "cfg_opt list" where
  "task_on_resource_opts = [CFG_BOOL ''verify-on-the-fly'' False, CFG_STR ''delta-source-raw-offset'' None,
     CFG_INT ''delta-source-raw-count'' INT32_MAX, CFG_STR ''delta-source-raw-options'' None, CFG_STR ''delta-source-fat-offset'' None,
     CFG_STR ''delta-source-fat-path'' None] @ CFG_ON_EVENT_FUNCTIONS cb_on_resource_func"

definition requirement_functions :: "string list" where
  "requirement_functions = [''require-partition-offset'', ''require-fat-file-exists'', ''require-uboot-variable'', ''require-path-on-device'',
     ''require-path-at-offset'', ''require-fat-file-match'', ''require-execute'']"

definition task_opts :: "cfg_opt list" where
  "task_opts = [CFG_FUNC ''include'' cb_include, CFG_STR_LIST ''reqlist''] @ map (\<lambda>f. CFG_FUNC f cb_task_require_func) requirement_functions @
     [CFG_INT ''require-partition1-offset'' (- 1), CFG_BOOL ''require-unmounted-destination'' False, CFG_BOOL ''verify-on-the-fly'' False,
      CFG_SEC ''on-init'' task_on_init_opts False, CFG_SEC ''on-finish'' task_on_finish_opts False, CFG_SEC ''on-error'' task_on_error_opts False,
      CFG_SEC ''on-resource'' task_on_resource_opts True, CFG_IGNORE_UNKNOWN]"

definition opts :: "cfg_opt list" where
  "opts = map (\<lambda>n. CFG_STR n None) [''meta-product'', ''meta-description'', ''meta-version'', ''meta-author'', ''meta-platform'',
       ''meta-architecture'', ''meta-creation-date'', ''meta-fwup-version'', ''meta-vcs-identifier'', ''meta-misc'', ''meta-uuid'', ''meta-nickname''] @
     [CFG_STR ''require-fwup-version'' (Some ''0''), CFG_INT ''block-cache-size-mb'' 8,
      CFG_FUNC ''define'' cb_define, CFG_FUNC ''define!'' cb_define_bang, CFG_FUNC ''define-eval'' cb_define_eval,
      CFG_FUNC ''define-eval!'' cb_define_eval_bang,
      CFG_SEC ''file-resource'' file_resource_opts True, CFG_SEC ''mbr'' mbr_opts True, CFG_SEC ''gpt'' gpt_opts True,
      CFG_SEC ''task'' task_opts True, CFG_SEC ''uboot-environment'' uboot_environment_opts True,
      CFG_FUNC ''include'' cb_include, CFG_IGNORE_UNKNOWN]"

section \<open>Printing\<close>

definition newline :: string where "newline = [CHR 0x0A]"
definition dquote :: char where "dquote = CHR 0x22"
definition backslash :: char where "backslash = CHR 0x5C"

definition ok_char :: "char \<Rightarrow> bool" where
  "ok_char c = (isalnum c \<or> c = CHR ''_'' \<or> c = CHR ''.'')"

definition needs_escaping :: "string \<Rightarrow> bool" where
  "needs_escaping str = (str = [] \<or> (\<exists>c \<in> set str. \<not> ok_char c))"

definition escape_char :: "char \<Rightarrow> string" where
  "escape_char c = (if c = dquote then [backslash, dquote] else if c = backslash then [backslash, backslash] else [c])"

fun ssprintf_escaped_chars :: "(nat \<Rightarrow> bool) \<Rightarrow> string \<Rightarrow> simple_string \<Rightarrow> simple_string" where
  "ssprintf_escaped_chars malloc [] s = s"
| "ssprintf_escaped_chars malloc (c # str) s = ssprintf_escaped_chars malloc str (ssprintf malloc (escape_char c) s)"

definition ssprintf_escaped_string :: "(nat \<Rightarrow> bool) \<Rightarrow> string \<Rightarrow> simple_string \<Rightarrow> simple_string" where
  "ssprintf_escaped_string malloc str s =
     ssprintf malloc [dquote] (ssprintf_escaped_chars malloc str (ssprintf malloc [dquote] s))"

text \<open>A value of an option: a null string is printed like an empty one.\<close>

datatype cfg_value = Vint int | Vstr "string option" | Vbool bool

definition fwup_cfg_opt_nprint_var :: "(nat \<Rightarrow> bool) \<Rightarrow> cfg_value \<Rightarrow> simple_string \<Rightarrow> simple_string" where
  "fwup_cfg_opt_nprint_var malloc v s =
     (case v of
        Vint n \<Rightarrow> ssprintf malloc (show_int n) s
      | Vstr None \<Rightarrow> ssprintf_escaped_string malloc [] s
      | Vstr (Some str) \<Rightarrow> if needs_escaping str then ssprintf_escaped_string malloc str s else ssappend malloc str s
      | Vbool b \<Rightarrow> ssprintf malloc (if b then ''true'' else ''false'') s)"

definition cfg_is_default :: "cfg_opt \<Rightarrow> cfg_value \<Rightarrow> bool" where
  "cfg_is_default opt v =
     (case (opt, v) of
        (CFG_INT _ d, Vint n) \<Rightarrow> d = n
      | (CFG_INT_LIST _, Vint n) \<Rightarrow> n = 0
      | (CFG_STR _ d, Vstr str) \<Rightarrow> str = None \<or> (d \<noteq> None \<and> d = str)
      | (CFG_STR_LIST _, Vstr str) \<Rightarrow> str = None
      | (CFG_BOOL _ d, Vbool b) \<Rightarrow> d = b
      | _ \<Rightarrow> False)"

definition scrubbed_names :: "string list" where
  "scrubbed_names = [''host-path'', ''bootstrap-code-host-path'', ''contents'', ''skip-holes'', ''meta-uuid'', ''meta-nickname'', ''meta-creation-date'']"

definition scrubbed :: "string \<Rightarrow> bool" where
  "scrubbed name \<longleftrightarrow> take 7 name = ''assert-'' \<or> name \<in> set scrubbed_names"

definition print_one :: "(nat \<Rightarrow> bool) \<Rightarrow> bool \<Rightarrow> cfg_opt \<Rightarrow> string \<Rightarrow> cfg_value \<Rightarrow> simple_string \<Rightarrow> simple_string" where
  "print_one malloc scrub opt name v s =
     (if v = Vstr None \<or> v = Vstr (Some []) then s
      else if cfg_is_default opt v then s
      else if scrub \<and> scrubbed name then s
      else ssprintf malloc newline (fwup_cfg_opt_nprint_var malloc v (ssprintf malloc (name @ ''='') s)))"

fun print_rest :: "(nat \<Rightarrow> bool) \<Rightarrow> cfg_value list \<Rightarrow> simple_string \<Rightarrow> simple_string" where
  "print_rest malloc [] s = s"
| "print_rest malloc (v # vs) s = print_rest malloc vs (fwup_cfg_opt_nprint_var malloc v (ssprintf malloc '','' s))"

definition print_list :: "(nat \<Rightarrow> bool) \<Rightarrow> bool \<Rightarrow> cfg_opt \<Rightarrow> string \<Rightarrow> cfg_value list \<Rightarrow> simple_string \<Rightarrow> simple_string" where
  "print_list malloc scrub opt name vs s =
     (case vs of [] \<Rightarrow> s
      | [v] \<Rightarrow> print_one malloc scrub opt name v s
      | v # rest \<Rightarrow> ssprintf malloc (''}'' @ newline)
          (print_rest malloc rest (fwup_cfg_opt_nprint_var malloc v (ssprintf malloc (name @ ''={'') s))))"

definition offset_in :: "simple_string \<Rightarrow> nat" where
  "offset_in s = (case s of None \<Rightarrow> 0 | Some r \<Rightarrow> length (ss_text r))"

definition rewind :: "nat \<Rightarrow> simple_string \<Rightarrow> simple_string" where
  "rewind n s = map_option (\<lambda>r. r\<lparr>ss_text := take n (ss_text r)\<rparr>) s"

definition section_header :: "string \<Rightarrow> bool \<Rightarrow> cfg \<Rightarrow> string" where
  "section_header name titled sec =
     (if titled then name @ '' '' @ [dquote] @ cfg_title sec @ [dquote] @ '' {'' @ newline else name @ '' {'' @ newline)"

definition print_section :: "(nat \<Rightarrow> bool) \<Rightarrow> string \<Rightarrow> bool \<Rightarrow> cfg \<Rightarrow> (simple_string \<Rightarrow> simple_string) \<Rightarrow> simple_string \<Rightarrow> simple_string" where
  "print_section malloc name titled sec body s =
     (let section_start_offset = offset_in s;
          s1 = ssprintf malloc (section_header name titled sec) s;
          before_offset = offset_in s1;
          s2 = body s1
      in if offset_in s2 = before_offset \<and> name \<noteq> ''task'' then rewind section_start_offset s2
         else ssprintf malloc (''}'' @ newline) s2)"

fun fwup_cfg_opt_to_string :: "(nat \<Rightarrow> bool) \<Rightarrow> bool \<Rightarrow> cfg_opt \<Rightarrow> cfg \<Rightarrow> simple_string \<Rightarrow> simple_string"
  and fwup_cfg_print :: "(nat \<Rightarrow> bool) \<Rightarrow> cfg_opt list \<Rightarrow> cfg \<Rightarrow> simple_string \<Rightarrow> simple_string" where
  "fwup_cfg_opt_to_string malloc scrub (CFG_SEC name sub titled) c s =
     fold (\<lambda>sec s. print_section malloc name titled sec (fwup_cfg_print malloc sub sec) s) (cfg_secs c name) s"
| "fwup_cfg_opt_to_string malloc scrub (CFG_FUNC name cb) c s = s"
| "fwup_cfg_opt_to_string malloc scrub (CFG_STR name d) c s = print_one malloc scrub (CFG_STR name d) name (Vstr (cfg_getstr c name)) s"
| "fwup_cfg_opt_to_string malloc scrub (CFG_INT name d) c s = print_one malloc scrub (CFG_INT name d) name (Vint (cfg_getint c name)) s"
| "fwup_cfg_opt_to_string malloc scrub (CFG_BOOL name d) c s = print_one malloc scrub (CFG_BOOL name d) name (Vbool (cfg_getbool c name)) s"
| "fwup_cfg_opt_to_string malloc scrub (CFG_INT_LIST name) c s = print_list malloc scrub (CFG_INT_LIST name) name (map Vint (cfg_ints c name)) s"
| "fwup_cfg_opt_to_string malloc scrub (CFG_STR_LIST name) c s =
     print_list malloc scrub (CFG_STR_LIST name) name (map (\<lambda>str. Vstr (Some str)) (cfg_strs c name)) s"
| "fwup_cfg_print malloc [] c s = s"
| "fwup_cfg_print malloc (opt # rest) c s =
     (if s = None then None else fwup_cfg_print malloc rest c (fwup_cfg_opt_to_string malloc True opt c s))"

definition fwup_cfg_to_string :: "(nat \<Rightarrow> bool) \<Rightarrow> cfg \<Rightarrow> string" where
  "fwup_cfg_to_string malloc c = (case fwup_cfg_print malloc opts c (simple_string_init malloc) of None \<Rightarrow> [] | Some r \<Rightarrow> ss_text r)"

section \<open>The text that is printed\<close>

text \<open>
  The specification: the text as a function of the configuration, without buffers. A section
  without content is left out unless it is a task.
\<close>

definition render_string :: "string \<Rightarrow> string" where
  "render_string str = [dquote] @ concat (map escape_char str) @ [dquote]"

definition render_value :: "cfg_value \<Rightarrow> string" where
  "render_value v = (case v of Vint n \<Rightarrow> show_int n | Vstr None \<Rightarrow> render_string []
     | Vstr (Some str) \<Rightarrow> if needs_escaping str then render_string str else str
     | Vbool b \<Rightarrow> if b then ''true'' else ''false'')"

definition render_one :: "bool \<Rightarrow> cfg_opt \<Rightarrow> string \<Rightarrow> cfg_value \<Rightarrow> string" where
  "render_one scrub opt name v =
     (if v = Vstr None \<or> v = Vstr (Some []) \<or> cfg_is_default opt v \<or> (scrub \<and> scrubbed name) then []
      else name @ ''='' @ render_value v @ newline)"

definition render_list :: "bool \<Rightarrow> cfg_opt \<Rightarrow> string \<Rightarrow> cfg_value list \<Rightarrow> string" where
  "render_list scrub opt name vs =
     (case vs of [] \<Rightarrow> [] | [v] \<Rightarrow> render_one scrub opt name v
      | v # rest \<Rightarrow> name @ ''={'' @ render_value v @ concat (map (\<lambda>v. '','' @ render_value v) rest) @ ''}'' @ newline)"

definition render_section :: "string \<Rightarrow> bool \<Rightarrow> cfg \<Rightarrow> string \<Rightarrow> string" where
  "render_section name titled sec body =
     (if body = [] \<and> name \<noteq> ''task'' then [] else section_header name titled sec @ body @ ''}'' @ newline)"

fun render_opt :: "bool \<Rightarrow> cfg_opt \<Rightarrow> cfg \<Rightarrow> string" and render_opts :: "cfg_opt list \<Rightarrow> cfg \<Rightarrow> string" where
  "render_opt scrub (CFG_SEC name sub titled) c = concat (map (\<lambda>sec. render_section name titled sec (render_opts sub sec)) (cfg_secs c name))"
| "render_opt scrub (CFG_FUNC name cb) c = []"
| "render_opt scrub (CFG_STR name d) c = render_one scrub (CFG_STR name d) name (Vstr (cfg_getstr c name))"
| "render_opt scrub (CFG_INT name d) c = render_one scrub (CFG_INT name d) name (Vint (cfg_getint c name))"
| "render_opt scrub (CFG_BOOL name d) c = render_one scrub (CFG_BOOL name d) name (Vbool (cfg_getbool c name))"
| "render_opt scrub (CFG_INT_LIST name) c = render_list scrub (CFG_INT_LIST name) name (map Vint (cfg_ints c name))"
| "render_opt scrub (CFG_STR_LIST name) c = render_list scrub (CFG_STR_LIST name) name (map (\<lambda>str. Vstr (Some str)) (cfg_strs c name))"
| "render_opts [] c = []"
| "render_opts (opt # rest) c = render_opt True opt c @ render_opts rest c"

definition prints :: "(simple_string \<Rightarrow> simple_string) \<Rightarrow> string \<Rightarrow> bool" where
  "prints f t \<longleftrightarrow> (\<forall>s. \<exists>s'. f (Some s) = Some s' \<and> ss_text s' = ss_text s @ t)"

lemma prints_comp: "prints f t \<Longrightarrow> prints g u \<Longrightarrow> prints (\<lambda>s. g (f s)) (t @ u)"
  unfolding prints_def by (metis append_assoc)

lemma prints_id: "prints (\<lambda>s. s) []"
  by (simp add: prints_def)

lemma prints_ssprintf: "\<forall>n. malloc n \<Longrightarrow> prints (ssprintf malloc t) t"
  using ssprintf_total ssprintf_Some unfolding prints_def by metis

lemma prints_ssappend: "\<forall>n. malloc n \<Longrightarrow> prints (ssappend malloc t) t"
  using ssappend_total ssappend_Some unfolding prints_def by metis

lemma prints_escaped: "\<forall>n. malloc n \<Longrightarrow> prints (ssprintf_escaped_string malloc str) (render_string str)"
proof -
  assume m: "\<forall>n. malloc n"
  have "prints (ssprintf_escaped_chars malloc str) (concat (map escape_char str))"
  proof (induction str)
    case (Cons c str)
    show ?case using prints_comp [OF prints_ssprintf [OF m, of "escape_char c"] Cons] by (simp add: prints_def)
  qed (simp add: prints_id)
  then show ?thesis
    using prints_comp [OF prints_comp [OF prints_ssprintf [OF m, of "[dquote]"]] prints_ssprintf [OF m, of "[dquote]"]]
    by (simp add: ssprintf_escaped_string_def [abs_def] render_string_def)
qed

lemma prints_value: "\<forall>n. malloc n \<Longrightarrow> prints (fwup_cfg_opt_nprint_var malloc v) (render_value v)"
  by (auto simp: fwup_cfg_opt_nprint_var_def [abs_def] render_value_def prints_ssprintf prints_ssappend prints_escaped
      split: cfg_value.splits option.splits)

lemma prints_one:
  assumes "\<forall>n. malloc n"
  shows "prints (print_one malloc scrub opt name v) (render_one scrub opt name v)"
  using prints_comp [OF prints_comp [OF prints_ssprintf [OF assms, of "name @ ''=''"] prints_value [OF assms, of v]]
      prints_ssprintf [OF assms, of newline]]
  by (simp add: print_one_def render_one_def prints_def)

lemma prints_list:
  assumes "\<forall>n. malloc n"
  shows "prints (print_list malloc scrub opt name vs) (render_list scrub opt name vs)"
proof -
  have r: "prints (print_rest malloc rest) (concat (map (\<lambda>v. '','' @ render_value v) rest))" for rest
  proof (induction rest)
    case (Cons v rest)
    show ?case using prints_comp [OF prints_comp [OF prints_ssprintf [OF assms, of "'',''"] prints_value [OF assms, of v]] Cons]
      by (simp add: prints_def)
  qed (simp add: prints_id)
  have "prints (print_list malloc scrub opt name (v # v' # rest)) (render_list scrub opt name (v # v' # rest))" for v v' rest
    using prints_comp [OF prints_comp [OF prints_comp [OF prints_ssprintf [OF assms, of "name @ ''={''"] prints_value [OF assms, of v]] r [of "v' # rest"]]
        prints_ssprintf [OF assms, of "''}'' @ newline"]]
    by (simp add: print_list_def [abs_def] render_list_def)
  then show ?thesis
    by (cases vs rule: remdups_adj.cases) (auto simp: print_list_def [abs_def] render_list_def prints_one [OF assms] prints_id)
qed

lemma prints_section:
  assumes "\<forall>n. malloc n" and "prints body t"
  shows "prints (print_section malloc name titled sec body) (render_section name titled sec t)"
  unfolding prints_def
proof
  fix s
  obtain s1 where s1: "ssprintf malloc (section_header name titled sec) (Some s) = Some s1" "ss_text s1 = ss_text s @ section_header name titled sec"
    using prints_ssprintf [OF assms(1)] unfolding prints_def by blast
  obtain s2 where s2: "body (Some s1) = Some s2" "ss_text s2 = ss_text s1 @ t" using assms(2) unfolding prints_def by blast
  obtain s3 where s3: "ssprintf malloc (''}'' @ newline) (Some s2) = Some s3" "ss_text s3 = ss_text s2 @ ''}'' @ newline"
    using prints_ssprintf [OF assms(1)] unfolding prints_def by blast
  show "\<exists>s'. print_section malloc name titled sec body (Some s) = Some s' \<and> ss_text s' = ss_text s @ render_section name titled sec t"
    using s1 s2 s3 by (simp add: print_section_def Let_def offset_in_def rewind_def render_section_def)
qed

lemma prints_fold:
  "(\<And>x. x \<in> set xs \<Longrightarrow> prints (f x) (g x)) \<Longrightarrow> prints (fold f xs) (concat (map g xs))"
proof (induction xs)
  case (Cons x xs)
  have "prints (fold f xs) (concat (map g xs))" using Cons by simp
  then show ?case using prints_comp [OF Cons.prems [of x]] by (simp add: comp_def)
qed (simp add: prints_def)

lemma prints_opts:
  assumes "\<forall>n. malloc n"
  shows "prints (fwup_cfg_opt_to_string malloc scrub opt c) (render_opt scrub opt c)"
    and "prints (fwup_cfg_print malloc os c) (render_opts os c)"
proof (induction scrub opt c and os c rule: render_opt_render_opts.induct)
  case (1 scrub name sub titled c)
  have "prints (fold (\<lambda>sec s. print_section malloc name titled sec (fwup_cfg_print malloc sub sec) s) (cfg_secs c name))
      (concat (map (\<lambda>sec. render_section name titled sec (render_opts sub sec)) (cfg_secs c name)))"
    by (intro prints_fold prints_section [OF assms] 1)
  then show ?case by (simp add: prints_def)
next
  case (9 opt rest c)
  show ?case using prints_comp [OF 9(1,2)] by (simp add: prints_def)
qed (simp_all add: prints_def [of "\<lambda>s. s"] prints_one [OF assms, unfolded prints_def] prints_list [OF assms, unfolded prints_def] prints_def)

lemma fwup_cfg_to_string_render: "\<forall>n. malloc n \<Longrightarrow> fwup_cfg_to_string malloc c = render_opts opts c"
proof -
  assume m: "\<forall>n. malloc n"
  then obtain s' where "fwup_cfg_print malloc opts c (simple_string_init malloc) = Some s'" "ss_text s' = render_opts opts c"
    using prints_opts(2) [OF m, of opts c] unfolding prints_def simple_string_init_def by fastforce
  then show ?thesis by (simp add: fwup_cfg_to_string_def)
qed

section \<open>What is not printed\<close>

text \<open>
  Two configurations that agree but for the attributes that only matter on the host where
  the archive is made (\<open>scrubbed\<close>), in every section at any depth.
\<close>

inductive same_public :: "cfg \<Rightarrow> cfg \<Rightarrow> bool" where
  same_publicI: "cfg_title c' = cfg_title c \<Longrightarrow> cfg_ints c' = cfg_ints c \<Longrightarrow> cfg_strs c' = cfg_strs c \<Longrightarrow>
   (\<forall>k. \<not> scrubbed k \<longrightarrow> cfg_getstr c' k = cfg_getstr c k \<and> cfg_getint c' k = cfg_getint c k \<and> cfg_getbool c' k = cfg_getbool c k) \<Longrightarrow>
   (\<forall>k. list_all2 same_public (cfg_secs c k) (cfg_secs c' k)) \<Longrightarrow> same_public c c'"

inductive_cases same_publicE: "same_public c c'"

lemma fold_list_all2:
  "list_all2 R xs ys \<Longrightarrow> (\<And>x y. x \<in> set xs \<Longrightarrow> R x y \<Longrightarrow> f y = g x) \<Longrightarrow> fold f ys s = fold g xs s"
proof (induction xs ys arbitrary: s rule: list_all2_induct)
  case (Cons x xs y ys)
  have "f y = g x" by (rule Cons.prems) (simp_all add: Cons.hyps)
  moreover have "fold f ys t = fold g xs t" for t by (rule Cons.IH) (use Cons.prems in simp)
  ultimately show ?case by simp
qed simp

lemma print_one_scrubbed: "scrubbed name \<Longrightarrow> print_one malloc True opt name v s = s"
  by (simp add: print_one_def)

lemma print_same_public:
  "scrub \<Longrightarrow> same_public c c' \<Longrightarrow> fwup_cfg_opt_to_string malloc scrub opt c' s = fwup_cfg_opt_to_string malloc scrub opt c s"
  "same_public c c' \<Longrightarrow> fwup_cfg_print malloc os c' s = fwup_cfg_print malloc os c s"
proof (induction scrub opt c and os c arbitrary: c' s and c' s rule: render_opt_render_opts.induct)
  case (1 scrub name sub titled c)
  have l: "list_all2 same_public (cfg_secs c name) (cfg_secs c' name)" using "1.prems"(2) by (auto elim: same_publicE)
  have "fwup_cfg_print malloc sub y = fwup_cfg_print malloc sub x" if "x \<in> set (cfg_secs c name)" "same_public x y" for x y
    using "1.IH" [OF that] by blast
  moreover have "cfg_title y = cfg_title x" if "same_public x y" for x y using that by (auto elim: same_publicE)
  ultimately have "print_section malloc name titled y (fwup_cfg_print malloc sub y) = print_section malloc name titled x (fwup_cfg_print malloc sub x)"
    if "x \<in> set (cfg_secs c name)" "same_public x y" for x y
    using that by (auto simp: print_section_def section_header_def fun_eq_iff)
  then show ?case by (simp add: fold_list_all2 [OF l])
next
  case (3 scrub name d c)
  then show ?case by (cases "scrubbed name") (auto simp: print_one_scrubbed elim: same_publicE)
next
  case (4 scrub name d c)
  then show ?case by (cases "scrubbed name") (auto simp: print_one_scrubbed elim: same_publicE)
next
  case (5 scrub name d c)
  then show ?case by (cases "scrubbed name") (auto simp: print_one_scrubbed elim: same_publicE)
qed (auto elim: same_publicE)


definition plain_section :: "string \<Rightarrow> (string \<Rightarrow> string option) \<Rightarrow> cfg" where
  "plain_section title strs = Cfg title (\<lambda>k. if k = ''block-cache-size-mb'' then 8 else - 1) (\<lambda>_. []) strs (\<lambda>_. []) (\<lambda>_. False) (\<lambda>_. [])"

definition with_resource :: "cfg \<Rightarrow> cfg" where
  "with_resource r = Cfg [] (\<lambda>k. if k = ''block-cache-size-mb'' then 8 else - 1) (\<lambda>_. []) (\<lambda>_. None) (\<lambda>_. []) (\<lambda>_. False)
     (\<lambda>k. if k = ''file-resource'' then [r] else [])"


section \<open>Reading values back\<close>

text \<open>
  How libconfuse reads a value: a string in double quotes, where a backslash quotes the next
  character, or a word of plain characters. References to environment variables are
  replaced later and are part of the text here.
\<close>

fun read_quoted :: "string \<Rightarrow> string \<Rightarrow> (string \<times> string) option" where
  "read_quoted acc [] = None"
| "read_quoted acc (c # cs) =
     (if c = dquote then Some (acc, cs)
      else if c = backslash then (case cs of [] \<Rightarrow> None | d # ds \<Rightarrow> read_quoted (acc @ [d]) ds)
      else read_quoted (acc @ [c]) cs)"

definition read_value :: "string \<Rightarrow> (string \<times> string) option" where
  "read_value s = (case s of [] \<Rightarrow> None
     | c # cs \<Rightarrow> if c = dquote then read_quoted [] cs
         else if ok_char c then Some (takeWhile ok_char s, dropWhile ok_char s) else None)"

lemma read_quoted_escaped: "read_quoted acc (concat (map escape_char str) @ dquote # rest) = Some (acc @ str, rest)"
proof (induction str arbitrary: acc)
  case (Cons c str)
  have d: "backslash \<noteq> dquote" by (simp add: backslash_def dquote_def)
  show ?case using Cons [of "acc @ [c]"] d by (auto simp: escape_char_def)
qed simp

lemma read_value_rendered:
  assumes "\<not> ok_char d"
  shows "read_value (render_value (Vstr (Some str)) @ d # rest) = Some (str, d # rest)"
proof (cases "needs_escaping str")
  case True
  then show ?thesis using read_quoted_escaped [of "[]" str "d # rest"] by (simp add: render_value_def render_string_def read_value_def)
next
  case False
  then have ok: "str \<noteq> []" "\<forall>c \<in> set str. ok_char c" by (auto simp: needs_escaping_def)
  have q: "\<not> ok_char dquote" by (simp add: ok_char_def isalnum_def dquote_def Let_def)
  obtain c cs where c: "str = c # cs" using ok(1) by (cases str) auto
  have "takeWhile ok_char (str @ d # rest) = str" "dropWhile ok_char (str @ d # rest) = d # rest"
    using ok(2) assms by (simp_all add: takeWhile_append2 dropWhile_append2)
  then show ?thesis using False ok(2) q c by (auto simp: render_value_def read_value_def)
qed



text \<open>A title is printed without escaping: one with a double quote is not read back.\<close>

lemma title_not_escaped:
  "section_header ''task'' True (plain_section [CHR ''a'', dquote, CHR ''b''] Map.empty) = ''task '' @ t \<Longrightarrow>
   read_value t = Some (''a'', CHR ''b'' # dquote # '' {'' @ newline)"
  by (auto simp: section_header_def plain_section_def read_value_def dquote_def backslash_def)

end
