(* ===== verification/Fw_Create.thy ===== *)
theory Fw_Create
  imports Fw_Meta Sparse_File Cfg_Print
begin

text \<open>
  Making an archive (\<open>fwup_create.c\<close>, \<open>fwfile.c\<close>). The host's files, BLAKE2b, Ed25519 and the parser of configurations are parameters, and so are the answers of
  libarchive when it writes: whether it takes a header, and how many of the bytes it is given.
  What it took is the state: the list of the entries in the order they were written.
\<close>

section \<open>The archive that is written\<close>

record zip_entry =
  ze_pathname :: string
  ze_size :: "int option"
  ze_mtime :: "int option"
  ze_data :: "byte list"

record zip_out =
  zo_entries :: "zip_entry list"
  zo_in_entry :: bool

record zip_lib =
  zl_format :: bool
  zl_open :: "string \<Rightarrow> bool"
  zl_store :: "zip_out \<Rightarrow> bool"
  zl_deflate :: "zip_out \<Rightarrow> bool"
  zl_header :: "zip_out \<Rightarrow> zip_entry \<Rightarrow> bool"
  zl_data :: "zip_out \<Rightarrow> byte list \<Rightarrow> int"

definition new_zip :: zip_out where
  "new_zip = \<lparr>zo_entries = [], zo_in_entry = False\<rparr>"

definition new_entry :: "string \<Rightarrow> int option \<Rightarrow> int option \<Rightarrow> zip_entry" where
  "new_entry pathname len mtime = \<lparr>ze_pathname = pathname, ze_size = len, ze_mtime = mtime, ze_data = []\<rparr>"

text \<open>\<open>True\<close> is \<open>ARCHIVE_OK\<close>.\<close>

definition archive_write_header :: "zip_lib \<Rightarrow> zip_entry \<Rightarrow> zip_out \<Rightarrow> bool \<times> zip_out" where
  "archive_write_header lib e zo =
     (if zl_header lib zo e then (True, \<lparr>zo_entries = zo_entries zo @ [e\<lparr>ze_data := []\<rparr>], zo_in_entry = True\<rparr>)
      else (False, zo\<lparr>zo_in_entry := False\<rparr>))"

definition append_data :: "byte list \<Rightarrow> zip_out \<Rightarrow> zip_out" where
  "append_data bytes zo =
     (if zo_in_entry zo \<and> zo_entries zo \<noteq> []
      then zo\<lparr>zo_entries := butlast (zo_entries zo) @
             [(last (zo_entries zo))\<lparr>ze_data := ze_data (last (zo_entries zo)) @ bytes\<rparr>]\<rparr>
      else zo)"

text \<open>The result is the number of bytes that were taken, negative for an error.\<close>

definition archive_write_data :: "zip_lib \<Rightarrow> byte list \<Rightarrow> zip_out \<Rightarrow> int \<times> zip_out" where
  "archive_write_data lib bytes zo = (let n = zl_data lib zo bytes in (n, append_data (take (nat n) bytes) zo))"

section \<open>The host's files\<close>

record create_env =
  ce_open :: "string \<Rightarrow> sparse_fd option"
  ce_filename :: "string \<Rightarrow> string"
  ce_have_sparse_seek :: bool
  ce_blake2b_256 :: "byte list \<Rightarrow> byte list"
  ce_sign :: "byte list \<Rightarrow> byte list \<Rightarrow> byte list \<Rightarrow> byte list"
  ce_creation_time :: int
  ce_malloc :: "nat \<Rightarrow> bool"
  ce_zip :: zip_lib

definition strip_slashes :: "string \<Rightarrow> string" where
  "strip_slashes s = rev (dropWhile (\<lambda>c. c = CHR ''/'') (rev s))"

text \<open>\<open>dirname\<close> of POSIX.\<close>

definition dirname :: "string \<Rightarrow> string" where
  "dirname s =
     (if s = [] then ''.''
      else if strip_slashes s = [] then ''/''
      else (let d = rev (dropWhile (\<lambda>c. c \<noteq> CHR ''/'') (rev (strip_slashes s))) in
        if d = [] then ''.'' else if strip_slashes d = [] then ''/'' else strip_slashes d))"

definition update_relative_path :: "string \<Rightarrow> string \<Rightarrow> string" where
  "update_relative_path fromfile filename =
     (if take 1 filename = ''/'' \<or> take 1 filename = ''~'' then filename
      else dirname fromfile @ ''/'' @ filename)"

text \<open>\<open>strtok\<close> with the delimiter \<open>;\<close>: the parts that are not empty.\<close>

fun split_paths :: "string \<Rightarrow> string \<Rightarrow> string list" where
  "split_paths part [] = (if part = [] then [] else [part])"
| "split_paths part (c # cs) =
     (if c = CHR '';'' then (if part = [] then split_paths [] cs else part # split_paths [] cs)
      else split_paths (part @ [c]) cs)"

fun each_path :: "create_env \<Rightarrow> cfg \<Rightarrow> (sparse_fd \<Rightarrow> ('s, unit) action) \<Rightarrow> string list \<Rightarrow> ('s, unit) action" where
  "each_path env sec func [] = (\<lambda>cookie. (Inr (), cookie))"
| "each_path env sec func (path # paths) = (\<lambda>cookie.
     case ce_open env (update_relative_path (ce_filename env (cfg_title sec)) path) of
       None \<Rightarrow> (Inl (Msg ''can't open path in file-resource''), cookie)
     | Some fd \<Rightarrow> ok_then (func fd) (\<lambda>_. each_path env sec func paths) cookie)"

definition run_on_each_path :: "create_env \<Rightarrow> cfg \<Rightarrow> string \<Rightarrow> (sparse_fd \<Rightarrow> ('s, unit) action) \<Rightarrow> ('s, unit) action" where
  "run_on_each_path env sec paths func = each_path env sec func (split_paths [] paths)"

section \<open>Reading the data of the files\<close>

lemma skip_holes_progress:
  assumes "skip_holes m fd it offset = Inr (Inr (it', offset'))"
  shows "map_ix it' < length m \<and> m ! map_ix it' - offset_in_segment it' \<noteq> 0 \<and>
    (map_ix it < map_ix it' \<or> it' = it)"
  using assms
proof (induction m fd it offset rule: skip_holes.induct)
  case (1 m fd it offset)
  let ?next = "\<lparr>map_ix = map_ix it + 1, offset_in_segment = 0\<rparr>"
  have lt: "map_ix it < length m" using "1.prems" by (simp add: skip_holes.simps [of m fd it] split: if_splits)
  have step: "map_ix it' < length m \<and> m ! map_ix it' - offset_in_segment it' \<noteq> 0 \<and> (map_ix it < map_ix it' \<or> it' = it)"
    if "map_ix it' < length m \<and> m ! map_ix it' - offset_in_segment it' \<noteq> 0 \<and> (map_ix ?next < map_ix it' \<or> it' = ?next)"
    using that by auto
  show ?case
  proof (cases "IN_HOLE (map_ix it)")
    case True
    then obtain e where e: "seek_end fd = Some e" and n: "\<not> e - offset < m ! map_ix it - offset_in_segment it"
      and s: "skip_holes m fd ?next (offset + (m ! map_ix it - offset_in_segment it)) = Inr (Inr (it', offset'))"
      using "1.prems" lt by (auto simp: skip_holes.simps [of m fd it] Let_def split: option.splits if_splits)
    show ?thesis by (rule step, rule "1.IH"(1)) (use lt True e n s in auto)
  next
    case False
    show ?thesis
    proof (cases "m ! map_ix it - offset_in_segment it = 0")
      case True
      then have s: "skip_holes m fd ?next offset = Inr (Inr (it', offset'))"
        using "1.prems" lt False by (simp add: skip_holes.simps [of m fd it] Let_def)
      show ?thesis by (rule step, rule "1.IH"(2)) (use lt False True s in auto)
    next
      case nz: False
      then show ?thesis using "1.prems" lt False by (auto simp: skip_holes.simps [of m fd it] Let_def)
    qed
  qed
qed

definition left_in_segment :: "int list \<Rightarrow> sparse_file_read_iterator \<Rightarrow> nat" where
  "left_in_segment m it = nat (m ! map_ix it - offset_in_segment it)"

lemma read_next_data_progress:
  assumes "sparse_file_read_next_data m fd n it offset = Inr (bytes, it', offset')" and "bytes \<noteq> []"
  shows "length m - map_ix it' < length m - map_ix it \<or>
    length m - map_ix it' = length m - map_ix it \<and> left_in_segment m it' < left_in_segment m it"
proof -
  obtain r where r: "skip_holes m fd it offset = Inr r"
    using assms(1) by (auto simp: sparse_file_read_next_data_def bind_res_eq_Inr)
  show ?thesis
  proof (cases r)
    case (Inl q)
    then show ?thesis using assms r by (simp add: sparse_file_read_next_data_def)
  next
    case (Inr q)
    obtain it1 o1 where q: "q = (it1, o1)" by (cases q)
    note p = skip_holes_progress [OF r [unfolded Inr q]]
    obtain b where b: "fd_pread fd (min (m ! map_ix it1 - offset_in_segment it1) n) o1 = Some b"
      using assms(1) r Inr q by (auto simp: sparse_file_read_next_data_def Let_def split: option.splits)
    then have "b = bytes" and l: "int (length bytes) \<le> m ! map_ix it1 - offset_in_segment it1"
      and i: "it' = (if offset_in_segment it1 + int (length bytes) = m ! map_ix it1 then \<lparr>map_ix = map_ix it1 + 1, offset_in_segment = 0\<rparr>
         else it1\<lparr>offset_in_segment := offset_in_segment it1 + int (length bytes)\<rparr>)"
      using assms(1) r Inr q by (auto simp: sparse_file_read_next_data_def Let_def split: if_splits)
    have "0 < length bytes" using assms(2) by simp
    then show ?thesis using p l i by (auto simp: left_in_segment_def)
  qed
qed

text \<open>The loop of \<open>calc_hash\<close> and \<open>write_file_to_archive\<close>, which differ in what they do with the data.\<close>

function data_loop :: "(byte list \<Rightarrow> ('s, unit) action) \<Rightarrow> int list \<Rightarrow> sparse_fd \<Rightarrow> sparse_file_read_iterator \<Rightarrow> int \<Rightarrow>
    ('s, sparse_file_read_iterator) action" where
  "data_loop use m fd it offset s =
     (case sparse_file_read_next_data m fd 4096 it offset of
        Inl e \<Rightarrow> (Inl e, s)
      | Inr (buffer, it', offset') \<Rightarrow>
          if buffer = [] then (Inr it', s)
          else (case use buffer s of
                  (Inl e, s') \<Rightarrow> (Inl e, s')
                | (Inr _, s') \<Rightarrow> data_loop use m fd it' offset' s'))"
  by pat_completeness auto
termination
proof (relation "measures [\<lambda>(_, m, _, it, _). length m - map_ix it, \<lambda>(_, m, _, it, _). left_in_segment m it]", goal_cases)
  case (2 use m fd it offset s x buffer y it' offset' z e s')
  then have "sparse_file_read_next_data m fd 4096 it offset = Inr (buffer, it', offset')" "buffer \<noteq> []" by auto
  from read_next_data_progress [OF this] show ?case by auto
qed simp

declare data_loop.simps [simp del]

record calc_metadata_state =
  cm_sfm :: sparse_file_map
  cm_read_iterator :: sparse_file_read_iterator
  no_sparse_files :: bool
  hash_state :: "byte list"

definition build_sparse_map :: "create_env \<Rightarrow> sparse_fd \<Rightarrow> (calc_metadata_state, unit) action" where
  "build_sparse_map env fd st =
     (case sparse_file_build_map_from_fd (ce_have_sparse_seek env) fd (no_sparse_files st) (cm_sfm st) of
        Inl e \<Rightarrow> (Inl e, st) | Inr sfm \<Rightarrow> (Inr (), st\<lparr>cm_sfm := sfm\<rparr>))"

text \<open>The hash of a sequence of updates is the hash of the bytes one after the other.\<close>

definition calc_hash :: "sparse_fd \<Rightarrow> (calc_metadata_state, unit) action" where
  "calc_hash fd st =
     (case data_loop (\<lambda>buffer h. (Inr (), h @ buffer)) (map_entries (cm_sfm st)) fd (cm_read_iterator st) 0 (hash_state st) of
        (Inl e, h) \<Rightarrow> (Inl e, st\<lparr>hash_state := h\<rparr>)
      | (Inr it, h) \<Rightarrow> (Inr (), st\<lparr>cm_read_iterator := it, hash_state := h\<rparr>))"

definition write_buffer :: "zip_lib \<Rightarrow> byte list \<Rightarrow> (zip_out, unit) action" where
  "write_buffer lib buffer zo = (case archive_write_data lib buffer zo of (written, zo') \<Rightarrow>
     (if written \<noteq> int (length buffer) then Inl (Msg ''error writing to archive'') else Inr (), zo'))"

definition write_file_to_archive :: "zip_lib \<Rightarrow> sparse_file_map \<Rightarrow> sparse_fd \<Rightarrow> (sparse_file_read_iterator \<times> zip_out, unit) action" where
  "write_file_to_archive lib sfm fd = (\<lambda>(it, zo).
     case data_loop (write_buffer lib) (map_entries sfm) fd it 0 zo of
       (Inl e, zo') \<Rightarrow> (Inl e, (it, zo'))
     | (Inr it', zo') \<Rightarrow> (Inr (), (it', zo')))"

section \<open>The metadata of the resources\<close>

definition resource_metadata :: "create_env \<Rightarrow> cfg \<Rightarrow> cfg res" where
  "resource_metadata env sec =
     (case cfg_getstr sec ''host-path'' of
        Some paths \<Rightarrow>
          (let state = \<lparr>cm_sfm = sparse_file_init, cm_read_iterator = sparse_file_start_read,
                        no_sparse_files = \<not> cfg_getbool sec ''skip-holes'', hash_state = []\<rparr> in
           case run_on_each_path env sec paths (build_sparse_map env) state of
             (Inl e, _) \<Rightarrow> Inl e
           | (Inr _, state1) \<Rightarrow>
               (let sec1 = sparse_file_set_map_in_resource sec (cm_sfm state1) in
                case run_on_each_path env sec1 paths calc_hash
                       (state1\<lparr>hash_state := [], cm_read_iterator := sparse_file_start_read\<rparr>) of
                  (Inl e, _) \<Rightarrow> Inl e
                | (Inr _, state2) \<Rightarrow> Inr (cfg_setstr sec1 ''blake2b-256'' (bytes_to_hex (ce_blake2b_256 env (hash_state state2))))))
      | None \<Rightarrow>
          (case cfg_getstr sec ''contents'' of
             None \<Rightarrow> Inl (Undefined ''assert(contents)'')
           | Some contents \<Rightarrow>
               Inr (cfg_setstr (cfg_setnint sec ''length'' (int (length contents)) 0) ''blake2b-256''
                 (bytes_to_hex (ce_blake2b_256 env (string_bytes contents))))))"

fun metadata_loop :: "create_env \<Rightarrow> cfg list \<Rightarrow> cfg list res" where
  "metadata_loop env [] = Inr []"
| "metadata_loop env (sec # secs) = bind_res (resource_metadata env sec) (\<lambda>sec'.
     bind_res (metadata_loop env secs) (\<lambda>secs'. Inr (sec' # secs')))"

definition cfg_set_secs :: "cfg \<Rightarrow> string \<Rightarrow> cfg list \<Rightarrow> cfg" where
  "cfg_set_secs c k secs = Cfg (cfg_title c) (cfg_getint c) (cfg_ints c) (cfg_getstr c)
     (cfg_strs c) (cfg_getbool c) ((cfg_secs c)(k := secs))"

definition compute_file_metadata :: "create_env \<Rightarrow> cfg \<Rightarrow> cfg res" where
  "compute_file_metadata env c = bind_res (metadata_loop env (cfg_secs c ''file-resource''))
     (\<lambda>secs. Inr (cfg_set_secs c ''file-resource'' secs))"

section \<open>The entries of the resources\<close>

record fwfile_assertions =
  assert_lte :: int
  assert_gte :: int

definition check_assertions :: "fwfile_assertions \<Rightarrow> int \<Rightarrow> unit res" where
  "check_assertions assertions total_len =
     (if assert_gte assertions \<ge> 0 \<and> \<not> total_len \<ge> assert_gte assertions
      then Inl (Msg ''file size assertion failed. It must be >='')
      else if assert_lte assertions \<ge> 0 \<and> \<not> total_len \<le> assert_lte assertions
      then Inl (Msg ''file size assertion failed. It must be <='')
      else Inr ())"

definition add_file_resource :: "create_env \<Rightarrow> cfg \<Rightarrow> string \<Rightarrow> sparse_file_map \<Rightarrow> fwfile_assertions \<Rightarrow> (zip_out, unit) action" where
  "add_file_resource env sec local_paths sfm assertions =
     ok_then (from_res (
       if local_paths = [] then Inl (Msg ''must specify a host-path for resource'')
       else bind_res (sparse_file_size sfm) (\<lambda>total_len.
              bind_res (check_assertions assertions total_len) (\<lambda>_.
                bind_res (resource_name_to_archive_path (cfg_title sec)) (\<lambda>archive_path.
                  bind_res (sparse_file_data_size sfm) (\<lambda>data_len. Inr (archive_path, data_len)))))))
       (\<lambda>(archive_path, data_len) zo.
          case archive_write_header (ce_zip env) (new_entry archive_path (Some data_len) None) zo of (_, zo1) \<Rightarrow>
            (case run_on_each_path env sec local_paths (write_file_to_archive (ce_zip env) sfm) (sparse_file_start_read, zo1) of
               (r, (_, zo2)) \<Rightarrow> (r, zo2)))"

definition add_string_resource :: "create_env \<Rightarrow> string \<Rightarrow> string \<Rightarrow> (zip_out, unit) action" where
  "add_string_resource env resource_name contents =
     ok_then (from_res (resource_name_to_archive_path resource_name)) (\<lambda>archive_path zo.
       case archive_write_header (ce_zip env) (new_entry archive_path (Some (int (length contents))) None) zo of (_, zo1) \<Rightarrow>
         write_buffer (ce_zip env) (string_bytes contents) zo1)"

definition add_one_resource :: "create_env \<Rightarrow> cfg \<Rightarrow> (zip_out, unit) action" where
  "add_one_resource env sec =
     (case cfg_getstr sec ''host-path'' of
        Some hostpath \<Rightarrow>
          ok_then (from_res (bind_res (int64 (cfg_getint sec ''assert-size-lte'' * 512)) (\<lambda>lte.
                     bind_res (int64 (cfg_getint sec ''assert-size-gte'' * 512)) (\<lambda>gte.
                       bind_res (sparse_file_get_map_from_resource sec) (\<lambda>sfm.
                         Inr (sfm, \<lparr>assert_lte = lte, assert_gte = gte\<rparr>))))))
            (\<lambda>(sfm, assertions). add_file_resource env sec hostpath sfm assertions)
      | None \<Rightarrow>
          (case cfg_getstr sec ''contents'' of
             None \<Rightarrow> from_res (Inl (Undefined ''contents''))
           | Some contents \<Rightarrow> add_string_resource env (cfg_title sec) contents))"

fun add_resources_loop :: "create_env \<Rightarrow> cfg list \<Rightarrow> (zip_out, unit) action" where
  "add_resources_loop env [] = (\<lambda>zo. (Inr (), zo))"
| "add_resources_loop env (sec # secs) = ok_then (add_one_resource env sec) (\<lambda>_. add_resources_loop env secs)"

definition add_file_resources :: "create_env \<Rightarrow> cfg \<Rightarrow> (zip_out, unit) action" where
  "add_file_resources env c = add_resources_loop env (cfg_secs c ''file-resource'')"

section \<open>The signature and the metadata\<close>

definition FWUP_PRIVATE_KEY_LEN :: nat where "FWUP_PRIVATE_KEY_LEN = 32"

text \<open>
  An entry that is written whole; what libarchive answers is not looked at. The two settings
  of the compression are.
\<close>

definition write_whole_entry :: "zip_lib \<Rightarrow> zip_entry \<Rightarrow> byte list \<Rightarrow> zip_out \<Rightarrow> zip_out" where
  "write_whole_entry lib e bytes zo = snd (archive_write_data lib bytes (snd (archive_write_header lib e zo)))"

definition write_signature :: "create_env \<Rightarrow> byte list \<Rightarrow> byte list option \<Rightarrow> (zip_out, unit) action" where
  "write_signature env configtxt signing_key = (\<lambda>zo.
     case signing_key of None \<Rightarrow> (Inr (), zo)
     | Some key \<Rightarrow>
         (let signature = ce_sign env (take FWUP_PRIVATE_KEY_LEN key) (drop FWUP_PRIVATE_KEY_LEN key) configtxt in
          if \<not> zl_store (ce_zip env) zo then (Inl (Msg ''archive_error_string''), zo)
          else (Inr (), write_whole_entry (ce_zip env) (new_entry ''meta.conf.ed25519'' (Some FWUP_SIGNATURE_LEN) None) signature zo)))"

definition fwfile_add_meta_conf_str :: "create_env \<Rightarrow> byte list \<Rightarrow> byte list option \<Rightarrow> (zip_out, unit) action" where
  "fwfile_add_meta_conf_str env configtxt signing_key =
     ok_then (write_signature env configtxt signing_key) (\<lambda>_ zo.
       if \<not> zl_deflate (ce_zip env) zo then (Inl (Msg ''archive_error_string''), zo)
       else (Inr (), write_whole_entry (ce_zip env)
               (new_entry ''meta.conf'' (Some (int (length configtxt))) (Some (ce_creation_time env))) configtxt zo))"

definition meta_conf_text :: "create_env \<Rightarrow> cfg \<Rightarrow> byte list" where
  "meta_conf_text env c = (let t = fwup_cfg_to_string (ce_malloc env) c in
     string_bytes (if t = [] then ''# Empty file'' @ newline else t))"

definition fwfile_add_meta_conf :: "create_env \<Rightarrow> cfg \<Rightarrow> byte list option \<Rightarrow> (zip_out, unit) action" where
  "fwfile_add_meta_conf env c signing_key = fwfile_add_meta_conf_str env (meta_conf_text env c) signing_key"

section \<open>Making an archive\<close>

text \<open>
  The second component is the file that is left behind, \<open>None\<close> if it was not opened. A failure does
  not remove it.
\<close>

definition create_archive :: "create_env \<Rightarrow> cfg \<Rightarrow> string \<Rightarrow> byte list option \<Rightarrow> unit res \<times> zip_out option" where
  "create_archive env c filename signing_key =
     (if \<not> zl_format (ce_zip env) then (Inl (Msg ''error configuring libarchive''), None)
      else if \<not> zl_open (ce_zip env) filename then (Inl (Msg ''error creating archive''), None)
      else (case ok_then (fwfile_add_meta_conf env c signing_key) (\<lambda>_. add_file_resources env c) new_zip of
              (r, zo) \<Rightarrow> (r, Some zo)))"

definition fwup_create :: "create_env \<Rightarrow> cfg res \<Rightarrow> string \<Rightarrow> byte list option \<Rightarrow> unit res \<times> zip_out option" where
  "fwup_create env parsed output_firmware signing_key =
     (case bind_res parsed (compute_file_metadata env) of
        Inl e \<Rightarrow> (Inl e, None)
      | Inr c \<Rightarrow> create_archive env c output_firmware signing_key)"

end
