(* ===== verification/Create_Files.thy ===== *)
theory Create_Files
  imports Fw_Create
begin

text \<open>
  What the two passes over the files of a resource do (\<open>fwup_create.c\<close>): the map that the first one
  builds and the data that the second one reads.
\<close>

section \<open>Segments of the map\<close>

text \<open>No segment but the first is empty, as long as the entries of the map do not run out.\<close>

definition positive_inv :: "byte list \<Rightarrow> (nat \<Rightarrow> bool) \<Rightarrow> int list \<Rightarrow> nat \<Rightarrow> int \<Rightarrow> bool" where
  "positive_inv bytes D pre o' leftover \<longleftrightarrow>
     (\<forall>x \<in> set (tl pre). 0 < x) \<and> 0 \<le> leftover \<and> o' \<le> length bytes \<and>
     (pre \<noteq> [] \<and> leftover = 0 \<and> o' < length bytes \<and> length pre < 254 \<longrightarrow> D o' = even (length pre))"

lemma tl_snoc_positive: "\<forall>x \<in> set (tl pre). 0 < x \<Longrightarrow> pre = [] \<or> 0 < v \<Longrightarrow> \<forall>x \<in> set (tl (pre @ [v])). 0 < (x :: int)"
  by (cases pre) auto

lemma map_loop_positive:
  assumes "positive_inv bytes D pre o' leftover" and "length pre \<le> 254"
  shows "case map_loop (file_fd bytes D) pre (int o') next leftover of
      Inl m \<Rightarrow> (\<forall>x \<in> set (tl m). 0 < x) \<and> length pre \<le> length m \<and>
        (o' < length bytes \<and> (pre \<noteq> [] \<and> last pre = 0 \<longrightarrow> D o' = even (length pre)) \<longrightarrow> length pre < length m)
    | Inr (pre', _, _, _) \<Rightarrow> length pre' = 254 \<and> (\<forall>x \<in> set (tl pre'). 0 < x)"
  using assms
proof (induction "254 - length pre" arbitrary: pre o' "next" leftover)
  case 0
  then show ?case by (auto simp: map_loop.simps [of _ pre] SPARSE_FILE_MAP_MAX_LEN_def positive_inv_def)
next
  case (Suc k)
  then have len: "length pre < 254" by simp
  let ?fd = "file_fd bytes D"
  let ?seek = "if odd (length pre) then seek_data ?fd (int o') else seek_hole ?fd (int o')"
  note I = Suc.prems(1) [unfolded positive_inv_def]
  have en: "seek_end ?fd = Some (int (length bytes))" by (simp add: file_fd_def)
  show ?case
  proof (cases ?seek)
    case None
    let ?m = "if o' = length bytes then pre else pre @ [int (length bytes) - int o' + leftover]"
    have r: "map_loop ?fd pre (int o') next leftover = Inl ?m"
      using len None en by (simp add: map_loop.simps [of _ pre] IN_HOLE_def SPARSE_FILE_MAP_MAX_LEN_def)
    have "\<forall>x \<in> set (tl ?m). 0 < x"
    proof (cases "o' = length bytes")
      case False
      then have "0 < int (length bytes) - int o' + leftover" using I by linarith
      then have "\<forall>x \<in> set (tl (pre @ [int (length bytes) - int o' + leftover])). 0 < x"
        using I by (intro tl_snoc_positive) simp_all
      then show ?thesis using False by simp
    qed (use I in simp)
    then show ?thesis using r I by auto
  next
    case (Some n)
    have o: "o' < length bytes" using Some I by (auto simp: file_fd_def split: if_splits)
    obtain p where p: "n = int p" "o' \<le> p" "p \<le> length bytes" "p < length bytes \<longrightarrow> D p = odd (length pre)"
      using seek_segment [OF o Some] by metis
    show ?thesis
    proof (cases "length pre \<ge> 1 \<and> int o' = n \<and> last pre = 0")
      case True
      then have r: "map_loop ?fd pre (int o') next leftover = Inl pre"
        using len Some by (subst map_loop.simps) (auto simp add: IN_HOLE_def SPARSE_FILE_MAP_MAX_LEN_def)
      have "D o' = odd (length pre)" using True p(1,4) o by simp
      then show ?thesis using r I True by auto
    next
      case False
      let ?pre = "pre @ [int p - int o' + leftover]"
      have r: "map_loop ?fd pre (int o') next leftover = map_loop ?fd ?pre (int p) (int p) 0"
        using len Some False p(1) by (subst map_loop.simps) (auto simp add: IN_HOLE_def SPARSE_FILE_MAP_MAX_LEN_def)
      have "0 < int p - int o' + leftover" if "pre \<noteq> []"
      proof (cases "leftover = 0")
        case True
        then have "D o' = even (length pre)" using I that o len by simp
        then have "p \<noteq> o'" using p(4) o by auto
        then show ?thesis using p(2) True by simp
      qed (use I p(2) in linarith)
      then have "\<forall>x \<in> set (tl ?pre). 0 < x" using tl_snoc_positive [of pre] I by blast
      then have i: "positive_inv bytes D ?pre p 0" using p(3,4) by (simp add: positive_inv_def)
      have k: "k = 254 - length ?pre" "length ?pre \<le> 254" using Suc.hyps(2) len by simp_all
      show ?thesis using Suc.hyps(1) [OF k(1) i k(2), of "int p"] unfolding r by (auto split: sum.splits)
    qed
  qed
qed

lemma built_positive:
  assumes "sparse_file_build_map_from_fd True (file_fd bytes D) False sfm = Inr (Some m')"
    and "pre = butlast (map_entries sfm)" and "\<forall>x \<in> set (tl pre). 0 < x" and "length pre \<le> 254" and "sfm \<noteq> Some []"
    and "sfm = None \<or> 0 \<le> last (map_entries sfm)" and "pre \<noteq> [] \<and> length pre < 254 \<longrightarrow> 0 < last (map_entries sfm)"
  shows "(\<forall>x \<in> set (tl (butlast m')). 0 < x) \<and> (length m' < 255 \<longrightarrow> (\<forall>x \<in> set (tl m'). 0 < x)) \<and>
    (bytes \<noteq> [] \<and> (pre \<noteq> [] \<and> last pre = 0 \<longrightarrow> D 0 = even (length pre)) \<longrightarrow> length pre < length m')"
proof -
  let ?fd = "file_fd bytes D"
  define leftover where "leftover = (if sfm = None then 0 else last (map_entries sfm))"
  have st: "(case sfm of None \<Rightarrow> Inr ([], 0)
      | Some m \<Rightarrow> if m = [] then Inl (Undefined ''map[-1]'') else Inr (butlast m, last m)) = Inr (pre, leftover)"
    using assms(2,5) by (cases sfm) (auto simp: map_entries_def leftover_def)
  have pi: "positive_inv bytes D pre 0 leftover"
    using assms(2,3,6,7) by (auto simp: positive_inv_def leftover_def map_entries_def)
  note ml = map_loop_positive [OF pi assms(4), of 0]
  show ?thesis
  proof (cases "map_loop ?fd pre 0 0 leftover")
    case (Inl m)
    then have m: "m' = m" using assms(1) st by (simp add: sparse_file_build_map_from_fd_def Let_def)
    have "\<forall>x \<in> set (tl (butlast m)). 0 < x" using ml Inl by (cases m) (auto dest: in_set_butlastD split: if_splits)
    then show ?thesis using ml Inl unfolding m by auto
  next
    case (Inr r)
    obtain pre' offset nx l' where r: "r = (pre', offset, nx, l')" by (cases r) auto
    have p: "length pre' = 254" "\<forall>x \<in> set (tl pre'). 0 < x" using ml Inr r by auto
    have le: "bind_res (last_entry ?fd pre' offset l') (\<lambda>m. Inr (Some m)) = Inr (Some m')"
      using assms(1) st Inr r p(1) by (simp add: sparse_file_build_map_from_fd_def Let_def IN_HOLE_def)
    then have "m' = pre' @ [int (length bytes) - offset + l']"
      using p(1) by (auto simp: last_entry_def file_fd_def SPARSE_FILE_MAP_MAX_LEN_def)
    then show ?thesis using p assms(4) by simp
  qed
qed

section \<open>The map of several files\<close>

fun each_fd :: "(sparse_fd \<Rightarrow> ('s, unit) action) \<Rightarrow> sparse_fd list \<Rightarrow> ('s, unit) action" where
  "each_fd func [] = (\<lambda>s. (Inr (), s))"
| "each_fd func (fd # fds) = ok_then (func fd) (\<lambda>_. each_fd func fds)"

definition paths_open :: "create_env \<Rightarrow> cfg \<Rightarrow> string list \<Rightarrow> sparse_fd list \<Rightarrow> bool" where
  "paths_open env sec ps fds \<longleftrightarrow>
     list_all2 (\<lambda>path f. ce_open env (update_relative_path (ce_filename env (cfg_title sec)) path) = Some f) ps fds"

lemma paths_open_simps [simp]:
  "paths_open env sec [] fds \<longleftrightarrow> fds = []"
  "paths_open env sec (p # ps) fds \<longleftrightarrow>
     (\<exists>f fds'. fds = f # fds' \<and> ce_open env (update_relative_path (ce_filename env (cfg_title sec)) p) = Some f \<and> paths_open env sec ps fds')"
  by (auto simp: paths_open_def list_all2_Cons1)

lemma paths_open_unique: "paths_open env sec ps fds \<Longrightarrow> paths_open env sec' ps fds' \<Longrightarrow> cfg_title sec' = cfg_title sec \<Longrightarrow> fds' = fds"
  by (induction ps arbitrary: fds fds') auto

lemma each_path_fds: "paths_open env sec ps fds \<Longrightarrow> each_path env sec func ps = each_fd func fds"
  by (induction ps arbitrary: fds) auto

lemma each_path_opens: "each_path env sec func ps s = (Inr u, s') \<Longrightarrow> \<exists>fds. paths_open env sec ps fds"
proof (induction ps arbitrary: s)
  case (Cons p ps)
  from Cons.prems obtain f where f: "ce_open env (update_relative_path (ce_filename env (cfg_title sec)) p) = Some f"
    and r: "ok_then (func f) (\<lambda>_. each_path env sec func ps) s = (Inr u, s')" by (auto split: option.splits)
  from r obtain x t where "each_path env sec func ps t = (Inr u, s')" by (rule ok_then_Inr_E)
  from Cons.IH [OF this] show ?case using f by auto
qed auto

text \<open>
  Files: their bytes, and which of them the file system reports as data. Several files are one
  resource, one after the other.
\<close>

type_synonym host_file = "byte list \<times> (nat \<Rightarrow> bool)"

definition host_fds :: "host_file list \<Rightarrow> sparse_fd list" where
  "host_fds fs = map (\<lambda>(bytes, D). file_fd bytes D) fs"

definition file_bytes :: "host_file list \<Rightarrow> byte list" where
  "file_bytes fs = concat (map fst fs)"

definition file_flags :: "bool \<Rightarrow> host_file list \<Rightarrow> bool list" where
  "file_flags sparse fs = concat (map (\<lambda>(bytes, D). if sparse then map D [0..<length bytes] else replicate (length bytes) True) fs)"

definition map_ok :: "int list \<Rightarrow> bool list \<Rightarrow> bool" where
  "map_ok m E \<longleftrightarrow> m \<noteq> [] \<and> (\<forall>x \<in> set m. 0 \<le> x) \<and> length m \<le> 255 \<and> covers (expand True m) E \<and>
     (\<forall>x \<in> set (tl (butlast m)). 0 < x) \<and> (length m < 255 \<longrightarrow> expand True m = E \<and> (\<forall>x \<in> set (tl m). 0 < x))"

lemma covers_trans: "covers xs ys \<Longrightarrow> covers ys zs \<Longrightarrow> covers xs zs"
  by (auto simp: covers_def list_all2_conv_all_nth)

lemma covers_length: "covers xs ys \<Longrightarrow> length xs = length ys"
  by (simp add: covers_def list_all2_lengthD)

lemma build_first:
  assumes "bytes \<noteq> []"
  shows "\<exists>m. sparse_file_build_map_from_fd True (file_fd bytes D) False None = Inr (Some m) \<and> map_ok m (map D [0..<length bytes])"
proof -
  from sparse_map_result [of None bytes D] obtain m where
    m: "sparse_file_build_map_from_fd True (file_fd bytes D) False None = Inr (Some m)" "\<forall>x \<in> set m. 0 \<le> x" "length m \<le> 255"
      "covers (expand True m) (map D [0..<length bytes])" "length m < 255 \<longrightarrow> expand True m = map D [0..<length bytes]"
    by (auto simp: continues_def map_entries_def)
  show ?thesis using m built_positive [OF m(1), of "[]"] assms by (intro exI [of _ m]) (auto simp: map_ok_def map_entries_def)
qed

text \<open>Two entries or more, the last but one of them zero: all that came before is a hole.\<close>

lemma map_ok_hole:
  assumes "map_ok m E" and "True \<in> set E" and "2 \<le> length m" and "last (butlast m) = 0"
  shows False
proof -
  have p: "\<forall>x \<in> set (tl (butlast m)). 0 < x" using assms(1) by (simp add: map_ok_def)
  have b: "butlast m \<noteq> []" using assms(3) by (cases m) auto
  then have t: "tl (butlast m) = []" using p assms(4) by (metis last_in_set last_tl less_irrefl)
  have "length m = 2"
  proof -
    have "length (tl (butlast m)) = length m - 2" by simp
    then show ?thesis using t assms(3) by simp
  qed
  then obtain x y where m: "m = [x, y]" by (auto simp: numeral_2_eq_2 length_Suc_conv)
  then have "E = replicate (nat y) False" using assms(1,4) by (simp add: map_ok_def)
  then show False using assms(2) by auto
qed

lemma build_next:
  assumes "map_ok m E" and "True \<in> set E" and "bytes \<noteq> []"
  shows "\<exists>m'. sparse_file_build_map_from_fd True (file_fd bytes D) False (Some m) = Inr (Some m') \<and>
    map_ok m' (E @ map D [0..<length bytes])"
proof -
  have mo: "m \<noteq> []" "\<forall>x \<in> set m. 0 \<le> x" "length m \<le> 255" "covers (expand True m) E" "\<forall>x \<in> set (tl (butlast m)). 0 < x"
    "length m < 255 \<longrightarrow> expand True m = E \<and> (\<forall>x \<in> set (tl m). 0 < x)"
    using assms(1) by (auto simp: map_ok_def)
  have nh: "\<not> (2 \<le> length m \<and> last (butlast m) = 0)" using map_ok_hole [OF assms(1,2)] by blast
  have "continues (Some m) bytes D" using mo assms(3) nh by (auto simp: continues_def)
  from sparse_map_result [OF this] obtain m' where
    m': "sparse_file_build_map_from_fd True (file_fd bytes D) False (Some m) = Inr (Some m')" "\<forall>x \<in> set m'. 0 \<le> x" "length m' \<le> 255"
      "covers (expand True m') (expand True m @ map D [0..<length bytes])"
      "length m' < 255 \<longrightarrow> expand True m' = expand True m @ map D [0..<length bytes]"
    by (auto simp: map_entries_def)
  have l: "0 < last m" if "butlast m \<noteq> []" "length (butlast m) < 254"
  proof -
    have t: "last m = last (tl m)" "tl m \<noteq> []" using that(1) mo(1) by (cases m; auto simp: last_tl split: if_splits)+
    have "length m < 255" using that(2) mo(1) by simp
    then have "\<forall>x \<in> set (tl m). 0 < x" using mo(6) by blast
    then show ?thesis using t last_in_set [of "tl m"] by simp
  qed
  have z: "butlast m \<noteq> [] \<and> last (butlast m) = 0 \<longrightarrow> D 0 = even (length (butlast m))"
  proof -
    have "2 \<le> length m" if "butlast m \<noteq> []" using that by (cases m) (auto simp: Suc_le_eq split: if_splits)
    then show ?thesis using nh by blast
  qed
  note b = built_positive [OF m'(1), of "butlast m"]
  have bp: "(\<forall>x \<in> set (tl (butlast m')). 0 < x) \<and> (length m' < 255 \<longrightarrow> (\<forall>x \<in> set (tl m'). 0 < x)) \<and> length (butlast m) < length m'"
    using b mo l z assms(3) by (simp add: map_entries_def)
  have len: "length m \<le> length m'"
  proof -
    have "0 < length m" using mo(1) by simp
    moreover have "length m - 1 < length m'" using bp by (simp only: length_butlast)
    ultimately show ?thesis by linarith
  qed
  have "covers (expand True m') (E @ map D [0..<length bytes])"
    using covers_trans [OF m'(4) covers_append [OF mo(4) covers_refl]] .
  moreover have "m' \<noteq> []" using len mo(1) by auto
  ultimately show ?thesis using m' bp mo(6) len by (intro exI [of _ m']) (auto simp: map_ok_def)
qed

definition files_ok :: "host_file list \<Rightarrow> bool" where
  "files_ok fs \<longleftrightarrow> fs \<noteq> [] \<and> (\<forall>f \<in> set fs. fst f \<noteq> []) \<and>
     (length fs = 1 \<or> (\<exists>a < length (fst (hd fs)). snd (hd fs) a))"

lemma host_fds_simps [simp]:
  "host_fds [] = []" "host_fds ((bytes, D) # fs) = file_fd bytes D # host_fds fs"
  by (simp_all add: host_fds_def)

lemma file_bytes_simps [simp]: "file_bytes [] = []" "file_bytes ((bytes, D) # fs) = bytes @ file_bytes fs"
  by (simp_all add: file_bytes_def)

lemma file_flags_simps [simp]:
  "file_flags sparse [] = []"
  "file_flags sparse ((bytes, D) # fs) =
     (if sparse then map D [0..<length bytes] else replicate (length bytes) True) @ file_flags sparse fs"
  by (simp_all add: file_flags_def)

lemma length_file_flags [simp]: "length (file_flags sparse fs) = length (file_bytes fs)"
  by (induction fs) (auto simp: file_bytes_def split_beta)

definition is_sparse :: "create_env \<Rightarrow> calc_metadata_state \<Rightarrow> bool" where
  "is_sparse env st \<longleftrightarrow> ce_have_sparse_seek env \<and> \<not> no_sparse_files st"

lemma build_map_dense:
  assumes "\<not> (h \<and> \<not> d)"
  shows "sparse_file_build_map_from_fd h (file_fd bytes D) d None = Inr (Some [int (length bytes)])"
    and "sparse_file_build_map_from_fd h (file_fd bytes D) d (Some [n]) = Inr (Some [int (length bytes) + n])"
proof -
  have c: "(h \<and> \<not> d) = False" using assms by simp
  show "sparse_file_build_map_from_fd h (file_fd bytes D) d None = Inr (Some [int (length bytes)])"
    "sparse_file_build_map_from_fd h (file_fd bytes D) d (Some [n]) = Inr (Some [int (length bytes) + n])"
    unfolding sparse_file_build_map_from_fd_def c
    by (simp_all add: last_entry_def file_fd_def SPARSE_FILE_MAP_MAX_LEN_def)
qed

lemma maps_dense:
  assumes "\<not> is_sparse env st" and "cm_sfm st = Some [n]"
  shows "each_fd (build_sparse_map env) (host_fds fs) st = (Inr (), st\<lparr>cm_sfm := Some [n + int (length (file_bytes fs))]\<rparr>)"
  using assms
proof (induction fs arbitrary: st n)
  case (Cons f fs)
  obtain bytes D where f: "f = (bytes, D)" by fastforce
  let ?st = "st\<lparr>cm_sfm := Some [int (length bytes) + n]\<rparr>"
  have r: "build_sparse_map env (file_fd bytes D) st = (Inr (), ?st)"
    using Cons.prems build_map_dense(2) [of "ce_have_sparse_seek env" "no_sparse_files st"]
    by (simp add: build_sparse_map_def is_sparse_def)
  have "each_fd (build_sparse_map env) (host_fds fs) ?st = (Inr (), ?st\<lparr>cm_sfm := Some [int (length bytes) + n + int (length (file_bytes fs))]\<rparr>)"
    using Cons.prems(1) by (intro Cons.IH) (simp_all add: is_sparse_def)
  then show ?case using r by (simp add: f ok_then_def algebra_simps)
qed simp

lemma maps_sparse:
  assumes "is_sparse env st" and "cm_sfm st = Some m" and "map_ok m E" and "True \<in> set E" and "\<forall>f \<in> set fs. fst f \<noteq> []"
  shows "\<exists>m'. each_fd (build_sparse_map env) (host_fds fs) st = (Inr (), st\<lparr>cm_sfm := Some m'\<rparr>) \<and> map_ok m' (E @ file_flags True fs)"
  using assms
proof (induction fs arbitrary: st m E)
  case Nil
  then show ?case by (intro exI [of _ m]) simp
next
  case (Cons f fs)
  obtain bytes D where f: "f = (bytes, D)" by fastforce
  obtain m1 where m1: "sparse_file_build_map_from_fd True (file_fd bytes D) False (Some m) = Inr (Some m1)"
      "map_ok m1 (E @ map D [0..<length bytes])"
    using build_next [OF Cons.prems(3,4), of bytes D] Cons.prems(5) f by auto
  let ?st = "st\<lparr>cm_sfm := Some m1\<rparr>"
  have r: "build_sparse_map env (file_fd bytes D) st = (Inr (), ?st)"
    using Cons.prems(1,2) m1(1) by (simp add: build_sparse_map_def is_sparse_def)
  obtain m' where "each_fd (build_sparse_map env) (host_fds fs) ?st = (Inr (), ?st\<lparr>cm_sfm := Some m'\<rparr>)"
      "map_ok m' ((E @ map D [0..<length bytes]) @ file_flags True fs)"
  proof -
    have "is_sparse env ?st" using Cons.prems(1) by (simp add: is_sparse_def)
    moreover have "True \<in> set (E @ map D [0..<length bytes])" using Cons.prems(4) by simp
    moreover have "\<forall>f \<in> set fs. fst f \<noteq> []" using Cons.prems(5) by simp
    ultimately show thesis using Cons.IH [OF _ _ m1(2)] that by fastforce
  qed
  then show ?case using r by (intro exI [of _ m']) (simp add: f ok_then_def)
qed

lemma files_mapped:
  assumes "cm_sfm st = None" and "files_ok fs"
  shows "\<exists>m. each_fd (build_sparse_map env) (host_fds fs) st = (Inr (), st\<lparr>cm_sfm := Some m\<rparr>) \<and> map_ok m (file_flags (is_sparse env st) fs)"
proof -
  obtain bytes D fs' where fs: "fs = (bytes, D) # fs'" using assms(2) by (cases fs) (auto simp: files_ok_def)
  have ne: "bytes \<noteq> []" "\<forall>f \<in> set fs'. fst f \<noteq> []" using assms(2) fs by (auto simp: files_ok_def)
  show ?thesis
  proof (cases "is_sparse env st")
    case True
    obtain m1 where m1: "sparse_file_build_map_from_fd True (file_fd bytes D) False None = Inr (Some m1)" "map_ok m1 (map D [0..<length bytes])"
      using build_first [OF ne(1)] by blast
    let ?st = "st\<lparr>cm_sfm := Some m1\<rparr>"
    have r: "build_sparse_map env (file_fd bytes D) st = (Inr (), ?st)"
      using True m1(1) assms(1) by (simp add: build_sparse_map_def is_sparse_def)
    show ?thesis
    proof (cases "fs' = []")
      case True
      then show ?thesis using r m1(2) \<open>is_sparse env st\<close> fs by (intro exI [of _ m1]) (simp add: ok_then_def)
    next
      case False
      then have "\<exists>a < length bytes. D a" using assms(2) fs by (auto simp: files_ok_def)
      then have t: "True \<in> set (map D [0..<length bytes])" by force
      have sp: "is_sparse env ?st" using \<open>is_sparse env st\<close> by (simp add: is_sparse_def)
      obtain m' where "each_fd (build_sparse_map env) (host_fds fs') ?st = (Inr (), ?st\<lparr>cm_sfm := Some m'\<rparr>)"
          "map_ok m' (map D [0..<length bytes] @ file_flags True fs')"
        using maps_sparse [OF sp _ m1(2) t ne(2)] by auto
      then show ?thesis using r \<open>is_sparse env st\<close> fs by (intro exI [of _ m']) (simp add: ok_then_def)
    qed
  next
    case False
    let ?st = "st\<lparr>cm_sfm := Some [int (length bytes)]\<rparr>"
    have r: "build_sparse_map env (file_fd bytes D) st = (Inr (), ?st)"
      using False assms(1) build_map_dense(1) [of "ce_have_sparse_seek env" "no_sparse_files st"]
      by (simp add: build_sparse_map_def is_sparse_def)
    have "file_flags False gs = replicate (length (file_bytes gs)) True" for gs
      by (induction gs) (auto simp: replicate_add)
    then have "map_ok [int (length (file_bytes fs))] (file_flags False fs)" by (simp add: map_ok_def covers_refl)
    then have "map_ok [int (length (file_bytes fs))] (file_flags (is_sparse env st) fs)" using False by (simp only:)
    moreover have "each_fd (build_sparse_map env) (host_fds fs') ?st = (Inr (), ?st\<lparr>cm_sfm := Some [int (length bytes) + int (length (file_bytes fs'))]\<rparr>)"
      using False by (intro maps_dense) (simp_all add: is_sparse_def)
    ultimately show ?thesis using r fs
      by (intro exI [of _ "[int (length (file_bytes fs))]"]) (simp add: ok_then_def del: file_flags_simps)
  qed
qed

section \<open>The data that is hashed and written\<close>

abbreviation collect :: "byte list \<Rightarrow> (byte list, unit) action" where
  "collect \<equiv> \<lambda>buffer h. (Inr (), h @ buffer)"

lemma collect_file:
  assumes "iterator_ok m it" and "o' \<le> length bs" and "length bs - o' \<le> length (ahead m it)"
  shows "\<exists>it'. data_loop collect m (file_fd bs D) it (int o') h = (Inr it', h @ select (drop o' bs) (ahead m it)) \<and>
    iterator_ok m it' \<and> ahead m it' = drop (length bs - o') (ahead m it)"
  using assms
proof (induction "length bs - o'" arbitrary: it o' h rule: less_induct)
  case less
  obtain chunk it1 k where r: "sparse_file_read_next_data m (file_fd bs D) 4096 it (int o') = Inr (chunk, it1, k)"
    and ok: "iterator_ok m it1"
    and c: "if chunk = [] then select (drop o' bs) (ahead m it) = [] \<and> ahead m it1 = drop (length bs - o') (ahead m it)
     else \<exists>p. k = int p \<and> o' < p \<and> p \<le> length bs \<and> length bs - p \<le> length (ahead m it1) \<and>
       select (drop o' bs) (ahead m it) = chunk @ select (drop p bs) (ahead m it1) \<and>
       drop (length bs - p) (ahead m it1) = drop (length bs - o') (ahead m it)"
    using read_next_data_ok [OF less.prems, of 4096 D] by auto
  show ?case
  proof (cases "chunk = []")
    case True
    then show ?thesis using r ok c by (subst data_loop.simps) simp
  next
    case False
    then obtain p where p: "k = int p" "o' < p" "p \<le> length bs" "length bs - p \<le> length (ahead m it1)"
        "select (drop o' bs) (ahead m it) = chunk @ select (drop p bs) (ahead m it1)"
        "drop (length bs - p) (ahead m it1) = drop (length bs - o') (ahead m it)" using c by auto
    have "length bs - p < length bs - o'" using p(2,3) by simp
    from less.hyps [OF this ok p(3,4), of "h @ chunk"] show ?thesis
      using r False p(1,5,6) by (subst data_loop.simps) simp
  qed
qed

lemma select_take: "select bs (take (length bs) fl) = select bs fl"
  by (induction bs fl rule: list_induct2') (simp_all add: select_def)

lemma hash_files:
  assumes "cm_sfm st = Some m" and "iterator_ok m (cm_read_iterator st)" and "length (file_bytes fs) \<le> length (ahead m (cm_read_iterator st))"
  shows "\<exists>st'. each_fd calc_hash (host_fds fs) st = (Inr (), st') \<and>
    hash_state st' = hash_state st @ select (file_bytes fs) (ahead m (cm_read_iterator st))"
  using assms
proof (induction fs arbitrary: st)
  case (Cons f fs)
  obtain bytes D where f: "f = (bytes, D)" by fastforce
  let ?a = "ahead m (cm_read_iterator st)"
  obtain it' where l: "data_loop collect m (file_fd bytes D) (cm_read_iterator st) 0 (hash_state st) = (Inr it', hash_state st @ select bytes ?a)"
    and i: "iterator_ok m it'" "ahead m it' = drop (length bytes) ?a"
    using collect_file [OF Cons.prems(2), of 0 bytes D "hash_state st"] Cons.prems(3) f by auto
  let ?st = "st\<lparr>cm_read_iterator := it', hash_state := hash_state st @ select bytes ?a\<rparr>"
  have r: "calc_hash (file_fd bytes D) st = (Inr (), ?st)" using l Cons.prems(1) by (simp add: calc_hash_def map_entries_def)
  have n: "length (file_bytes fs) \<le> length (ahead m it')" using Cons.prems(3) f i(2) by simp
  obtain st' where "each_fd calc_hash (host_fds fs) ?st = (Inr (), st')"
      "hash_state st' = (hash_state st @ select bytes ?a) @ select (file_bytes fs) (drop (length bytes) ?a)"
    using Cons.IH [of ?st] Cons.prems(1) i(1) n unfolding i(2) [symmetric] by auto
  moreover have "select bytes ?a @ select (file_bytes fs) (drop (length bytes) ?a) = select (bytes @ file_bytes fs) ?a"
  proof -
    have "select bytes ?a = select bytes (take (length bytes) ?a)" by (simp only: select_take)
    then show ?thesis using select_append [of bytes "take (length bytes) ?a" "file_bytes fs" "drop (length bytes) ?a"] Cons.prems(3) f by simp
  qed
  ultimately show ?case using r by (simp add: f ok_then_def)
qed (simp add: select_def)

lemma set_map_sel [simp]:
  "cfg_title (sparse_file_set_map_in_resource sec sfm) = cfg_title sec"
  "cfg_getint (sparse_file_set_map_in_resource sec sfm) = cfg_getint sec"
  "cfg_getstr (sparse_file_set_map_in_resource sec sfm) = cfg_getstr sec"
proof -
  have "cfg_title (set_map_loop i m c) = cfg_title c \<and> cfg_getint (set_map_loop i m c) = cfg_getint c \<and>
      cfg_getstr (set_map_loop i m c) = cfg_getstr c" for i m c
    by (induction m arbitrary: i c) (simp_all add: cfg_setnint_def Let_def)
  then show "cfg_title (sparse_file_set_map_in_resource sec sfm) = cfg_title sec"
    "cfg_getint (sparse_file_set_map_in_resource sec sfm) = cfg_getint sec"
    "cfg_getstr (sparse_file_set_map_in_resource sec sfm) = cfg_getstr sec"
    by (simp_all add: sparse_file_set_map_in_resource_def)
qed

lemma iterator_ok_start: "\<forall>x \<in> set m. 0 \<le> x \<Longrightarrow> iterator_ok m sparse_file_start_read"
  by (auto simp: iterator_ok_def sparse_file_start_read_def)

text \<open>The metadata of a resource that consists of files.\<close>

definition resource_sparse :: "create_env \<Rightarrow> cfg \<Rightarrow> bool" where
  "resource_sparse env sec \<longleftrightarrow> ce_have_sparse_seek env \<and> cfg_getbool sec ''skip-holes''"

lemma get_map_setstr: "sparse_file_get_map_from_resource (cfg_setstr sec k v) = sparse_file_get_map_from_resource sec"
  by (simp add: sparse_file_get_map_from_resource_def cfg_setstr_def)

lemma resource_metadata_files:
  assumes "cfg_getstr sec ''host-path'' = Some paths" and "paths_open env sec (split_paths [] paths) (host_fds fs)"
    and "files_ok fs" and "cfg_ints sec ''length'' = []"
  shows "\<exists>m sec'. resource_metadata env sec = Inr sec' \<and> sparse_file_get_map_from_resource sec' = Inr (Some m) \<and>
    map_ok m (file_flags (resource_sparse env sec) fs) \<and> cfg_title sec' = cfg_title sec \<and> cfg_getint sec' = cfg_getint sec \<and>
    cfg_getstr sec' = (cfg_getstr sec)(''blake2b-256'' := Some (bytes_to_hex (ce_blake2b_256 env (select (file_bytes fs) (expand True m)))))"
proof -
  let ?st = "\<lparr>cm_sfm = sparse_file_init, cm_read_iterator = sparse_file_start_read,
                 no_sparse_files = \<not> cfg_getbool sec ''skip-holes'', hash_state = []\<rparr>"
  obtain m where m: "each_fd (build_sparse_map env) (host_fds fs) ?st = (Inr (), ?st\<lparr>cm_sfm := Some m\<rparr>)"
      "map_ok m (file_flags (resource_sparse env sec) fs)"
    using files_mapped [of ?st fs env] assms(3) by (auto simp: sparse_file_init_def is_sparse_def resource_sparse_def)
  have nn: "\<forall>x \<in> set m. 0 \<le> x" and ne: "m \<noteq> []" and cv: "covers (expand True m) (file_flags (resource_sparse env sec) fs)"
    using m(2) by (simp_all add: map_ok_def)
  let ?sec1 = "sparse_file_set_map_in_resource sec (Some m)"
  let ?st1 = "?st\<lparr>cm_sfm := Some m, hash_state := [], cm_read_iterator := sparse_file_start_read\<rparr>"
  have a: "ahead m sparse_file_start_read = expand True m" by (rule ahead_start [OF nn])
  have l: "length (file_bytes fs) = length (expand True m)" using covers_length [OF cv] by simp
  obtain st' where h: "each_fd calc_hash (host_fds fs) ?st1 = (Inr (), st')" "hash_state st' = select (file_bytes fs) (expand True m)"
    using hash_files [of ?st1 m fs] iterator_ok_start [OF nn] a l by auto
  have o1: "paths_open env ?sec1 (split_paths [] paths) (host_fds fs)" using assms(2) by (simp add: paths_open_def)
  have "resource_metadata env sec = Inr (cfg_setstr ?sec1 ''blake2b-256'' (bytes_to_hex (ce_blake2b_256 env (select (file_bytes fs) (expand True m)))))"
    using assms(1) m(1) h
    by (simp add: resource_metadata_def run_on_each_path_def Let_def each_path_fds [OF assms(2)] each_path_fds [OF o1])
  moreover have "sparse_file_get_map_from_resource ?sec1 = Inr (Some m)"
    using sparse_map_config_roundtrip [OF ne, of sec] assms(4) by simp
  ultimately show ?thesis using m(2)
    by (intro exI [of _ m] exI [of _ "cfg_setstr ?sec1 ''blake2b-256'' (bytes_to_hex (ce_blake2b_256 env (select (file_bytes fs) (expand True m))))"])
      (simp add: get_map_setstr)
qed

section \<open>Writing an entry\<close>

definition headers_accepted :: "zip_lib \<Rightarrow> bool" where
  "headers_accepted lib \<longleftrightarrow> (\<forall>zo e. zl_header lib zo e)"

definition in_entry :: "zip_out \<Rightarrow> bool" where
  "in_entry zo \<longleftrightarrow> zo_in_entry zo \<and> zo_entries zo \<noteq> []"

lemma append_data_in_entry [simp]: "in_entry (append_data d zo) \<longleftrightarrow> in_entry zo"
  by (simp add: in_entry_def append_data_def)

lemma append_data_append: "append_data d2 (append_data d1 zo) = append_data (d1 @ d2) zo"
  by (simp add: append_data_def)

lemma append_data_Nil: "append_data [] zo = zo"
  by (simp add: append_data_def)

lemma append_data_new:
  "append_data d \<lparr>zo_entries = es @ [e\<lparr>ze_data := []\<rparr>], zo_in_entry = True\<rparr> = \<lparr>zo_entries = es @ [e\<lparr>ze_data := d\<rparr>], zo_in_entry = True\<rparr>"
  by (simp add: append_data_def)

lemma write_buffer_Inr: "write_buffer lib b zo = (Inr u, zo') \<Longrightarrow> zo' = append_data b zo"
  by (auto simp: write_buffer_def archive_write_data_def Let_def split: if_splits)

text \<open>What the second pass wrote is what the first one hashed, whatever the files are.\<close>

lemma write_loop_collects:
  "data_loop (write_buffer lib) m fd it offset zo = (Inr it', zo') \<Longrightarrow>
   \<exists>d. zo' = append_data d zo \<and> (\<forall>h. data_loop collect m fd it offset h = (Inr it', h @ d))"
proof (induction "write_buffer lib" m fd it offset zo rule: data_loop.induct)
  case (1 m fd it offset zo)
  obtain b it1 o1 where r: "sparse_file_read_next_data m fd 4096 it offset = Inr (b, it1, o1)"
    using "1.prems" by (subst (asm) data_loop.simps) (auto split: sum.splits)
  show ?case
  proof (cases "b = []")
    case True
    then have "it' = it1" "zo' = zo" using "1.prems" r by (simp_all add: data_loop.simps [of _ m fd it offset])
    then show ?thesis using True r by (intro exI [of _ "[]"]) (simp add: append_data_Nil data_loop.simps [of _ m fd it offset])
  next
    case False
    obtain u zo1 where w: "write_buffer lib b zo = (Inr u, zo1)"
      and l: "data_loop (write_buffer lib) m fd it1 o1 zo1 = (Inr it', zo')"
      using "1.prems" r False by (subst (asm) data_loop.simps) (auto split: prod.splits sum.splits)
    from "1.hyps" [OF r refl refl False w [symmetric] refl l] obtain d where
      d: "zo' = append_data d zo1" "\<forall>h. data_loop collect m fd it1 o1 h = (Inr it', h @ d)" by blast
    have "data_loop collect m fd it offset h = (Inr it', h @ b @ d)" for h
      using r False d(2) by (simp add: data_loop.simps [of _ m fd it offset])
    moreover have "zo' = append_data (b @ d) zo" using d(1) write_buffer_Inr [OF w] by (simp add: append_data_append)
    ultimately show ?thesis by blast
  qed
qed

lemma write_files_hash:
  assumes "each_fd (write_file_to_archive lib sfm) fds (it, zo) = (Inr u, (it', zo'))" and "cm_sfm st = sfm" and "cm_read_iterator st = it"
  shows "\<exists>d st'. zo' = append_data d zo \<and> each_fd calc_hash fds st = (Inr (), st') \<and> hash_state st' = hash_state st @ d"
  using assms
proof (induction fds arbitrary: it zo st)
  case Nil
  then show ?case by (intro exI [of _ "[]"] exI [of _ st]) (simp add: append_data_Nil)
next
  case (Cons f fds)
  have "ok_then (write_file_to_archive lib sfm f) (\<lambda>_. each_fd (write_file_to_archive lib sfm) fds) (it, zo) = (Inr u, (it', zo'))"
    using Cons.prems(1) by simp
  then obtain v s1 where w: "write_file_to_archive lib sfm f (it, zo) = (Inr v, s1)"
    and r: "each_fd (write_file_to_archive lib sfm) fds s1 = (Inr u, (it', zo'))" by (rule ok_then_Inr_E)
  obtain it1 zo1 where s1: "s1 = (it1, zo1)" by (cases s1)
  have "data_loop (write_buffer lib) (map_entries sfm) f it 0 zo = (Inr it1, zo1)"
    using w s1 by (auto simp: write_file_to_archive_def split: prod.splits sum.splits)
  from write_loop_collects [OF this] obtain d where
    d: "zo1 = append_data d zo" "\<And>h. data_loop collect (map_entries sfm) f it 0 h = (Inr it1, h @ d)" by blast
  let ?st = "st\<lparr>cm_read_iterator := it1, hash_state := hash_state st @ d\<rparr>"
  have c: "calc_hash f st = (Inr (), ?st)" using d(2) Cons.prems(2,3) by (simp add: calc_hash_def)
  have "cm_sfm ?st = sfm" "cm_read_iterator ?st = it1" using Cons.prems(2) by simp_all
  from Cons.IH [OF r [unfolded s1] this] obtain d' st' where
    "zo' = append_data d' zo1" "each_fd calc_hash fds ?st = (Inr (), st')" "hash_state st' = (hash_state st @ d) @ d'" by auto
  then show ?case using c d(1) by (intro exI [of _ "d @ d'"] exI [of _ st']) (simp add: append_data_append ok_then_def)
qed

text \<open>The entry that a successful \<open>add_file_resource\<close> adds.\<close>

lemma add_file_resource_entry:
  assumes "add_file_resource env sec paths (Some m) assertions zo = (Inr u, zo')" and "headers_accepted (ce_zip env)"
    and "\<forall>x \<in> set m. 0 \<le> x" and "paths_open env sec (split_paths [] paths) (host_fds fs)"
    and "length (expand True m) = length (file_bytes fs)"
  shows "\<exists>ap n. resource_name_to_archive_path (cfg_title sec) = Inr ap \<and> sparse_file_data_size (Some m) = Inr n \<and>
    zo' = \<lparr>zo_entries = zo_entries zo @ [\<lparr>ze_pathname = ap, ze_size = Some n, ze_mtime = None, ze_data = select (file_bytes fs) (expand True m)\<rparr>],
           zo_in_entry = True\<rparr>"
proof -
  obtain ap n where ap: "resource_name_to_archive_path (cfg_title sec) = Inr ap" "sparse_file_data_size (Some m) = Inr n"
    and r: "(case archive_write_header (ce_zip env) (new_entry ap (Some n) None) zo of (_, zo1) \<Rightarrow>
            (case run_on_each_path env sec paths (write_file_to_archive (ce_zip env) (Some m)) (sparse_file_start_read, zo1) of
               (r, (_, zo2)) \<Rightarrow> (r, zo2))) = (Inr u, zo')"
    using assms(1) unfolding add_file_resource_def
    by (auto elim!: ok_then_Inr_E simp: from_res_def bind_res_eq_Inr split: if_splits)
  let ?zo1 = "\<lparr>zo_entries = zo_entries zo @ [(new_entry ap (Some n) None)\<lparr>ze_data := []\<rparr>], zo_in_entry = True\<rparr>"
  obtain it' where w: "each_fd (write_file_to_archive (ce_zip env) (Some m)) (host_fds fs) (sparse_file_start_read, ?zo1) = (Inr u, (it', zo'))"
    using r assms(2)
    by (auto simp: archive_write_header_def headers_accepted_def run_on_each_path_def each_path_fds [OF assms(4)] split: prod.splits)
  define st where "st = \<lparr>cm_sfm = Some m, cm_read_iterator = sparse_file_start_read, no_sparse_files = False, hash_state = []\<rparr>"
  have a: "ahead m sparse_file_start_read = expand True m" by (rule ahead_start [OF assms(3)])
  obtain st1 where h1: "each_fd calc_hash (host_fds fs) st = (Inr (), st1)" "hash_state st1 = select (file_bytes fs) (expand True m)"
    using hash_files [of st m fs] iterator_ok_start [OF assms(3)] a assms(5) by (auto simp: st_def)
  obtain d st2 where "zo' = append_data d ?zo1" "each_fd calc_hash (host_fds fs) st = (Inr (), st2)" "hash_state st2 = d"
    using write_files_hash [OF w, of st] by (auto simp: st_def)
  then have "zo' = append_data (select (file_bytes fs) (expand True m)) ?zo1" using h1 by simp
  then show ?thesis using ap unfolding append_data_new by (intro exI [of _ ap] exI [of _ n]) (simp add: new_entry_def)
qed

end
