(* ===== verification/Fw_Sign.thy ===== *)
theory Fw_Sign
  imports Fw_Create
begin

text \<open>
  Signing an archive that exists (\<open>fwup_sign.c\<close>): its entries are read one after the other and written to a
  temporary file, \<open>meta.conf\<close> with a new signature in front of it and all others as they are. Reading is modelled
  by the answers of libarchive, as in \<open>Archive\<close>, and writing as in \<open>Fw_Create\<close>.
\<close>

section \<open>Signing an archive\<close>

text \<open>The copy of one entry; the result is what is left of the answers of libarchive.\<close>

fun copy_loop :: "zip_lib \<Rightarrow> int \<Rightarrow> byte list res list \<Rightarrow> (zip_out, byte list res list) action" where
  "copy_loop lib size_left [] zo = (if size_left > 0 then Inl (Msg ''Error reading'') else Inr [], zo)"
| "copy_loop lib size_left (r # rs) zo =
     (if \<not> size_left > 0 then (Inr (r # rs), zo)
      else (let to_read = (if 4096 > size_left then size_left else 4096) in
        case r of Inl _ \<Rightarrow> (Inl (Msg ''Error reading''), zo)
        | Inr buffer \<Rightarrow>
            if buffer = [] then (Inl (Msg ''Error reading''), zo)
            else if int (length buffer) > to_read then (Inl (Undefined ''buffer''), zo)
            else (case archive_write_data lib buffer zo of (written, zo') \<Rightarrow>
              if written \<noteq> int (length buffer) then (Inl (Msg ''Error writing''), zo')
              else copy_loop lib (size_left - int (length buffer)) rs zo')))"

definition copy_entry :: "zip_lib \<Rightarrow> archive_entry \<Rightarrow> (archive \<times> zip_out, unit) action" where
  "copy_entry lib in_ae = (\<lambda>(a, zo).
     case archive_write_header lib (new_entry (ae_pathname in_ae) (ae_size in_ae) None) zo of
       (False, zo1) \<Rightarrow> (Inl (Msg ''Error writing header''), (a, zo1))
     | (True, zo1) \<Rightarrow>
         (case copy_loop lib (archive_entry_size in_ae) (ar_reads a) zo1 of
            (Inl e, zo2) \<Rightarrow> (Inl e, (a, zo2))
          | (Inr rs, zo2) \<Rightarrow> (Inr (), (a\<lparr>ar_reads := rs\<rparr>, zo2))))"

definition sign_meta_conf :: "create_env \<Rightarrow> byte list \<Rightarrow> archive_entry \<Rightarrow> (archive \<times> zip_out, byte list) action" where
  "sign_meta_conf env signing_key in_ae = (\<lambda>(a, zo).
     case archive_read_all_data in_ae 50000 a of
       (Inl (Undefined w), a') \<Rightarrow> (Inl (Undefined w), (a', zo))
     | (Inl _, a') \<Rightarrow> (Inl (Msg ''Error reading meta.conf from archive.''), (a', zo))
     | (Inr configtxt, a') \<Rightarrow>
         if int (length configtxt) < 10 \<or> int (length configtxt) \<ge> 50000
         then (Inl (Msg ''Unexpected meta.conf size''), (a', zo))
         else (case fwfile_add_meta_conf_str env configtxt (Some signing_key) zo of
                 (Inl e, zo') \<Rightarrow> (Inl e, (a', zo')) | (Inr _, zo') \<Rightarrow> (Inr configtxt, (a', zo'))))"

text \<open>One pass of the loop; \<open>configtxt\<close> is \<open>None\<close> until \<open>meta.conf\<close> was read.\<close>

definition sign_entry :: "create_env \<Rightarrow> byte list \<Rightarrow> archive_entry \<Rightarrow> byte list option \<Rightarrow>
    (archive \<times> zip_out, byte list option) action" where
  "sign_entry env signing_key in_ae configtxt =
     (if ae_pathname in_ae = ''meta.conf.ed25519'' then (\<lambda>s. (Inr configtxt, s))
      else if ae_pathname in_ae = ''meta.conf'' then
        (if configtxt \<noteq> None then (\<lambda>s. (Inl (Msg ''Invalid firmware. More than one meta.conf found''), s))
         else ok_then (sign_meta_conf env signing_key in_ae) (\<lambda>t s. (Inr (Some t), s)))
      else if configtxt = None then (\<lambda>s. (Inl (Msg ''Invalid firmware. meta.conf must be at the beginning of archive''), s))
      else ok_then (copy_entry (ce_zip env) in_ae) (\<lambda>_ s. (Inr configtxt, s)))"

lemma read_all_data_entries: "archive_read_all_data ae n a = (r, a') \<Longrightarrow> ar_entries a' = ar_entries a"
  by (auto simp: archive_read_all_data_def Let_def split: if_splits prod.splits)

lemma copy_entry_entries: "copy_entry lib ae (a, zo) = (r, (a', zo')) \<Longrightarrow> ar_entries a' = ar_entries a"
  by (auto simp: copy_entry_def split: prod.splits bool.splits sum.splits)

lemma sign_meta_conf_entries: "sign_meta_conf env key ae (a, zo) = (r, (a', zo')) \<Longrightarrow> ar_entries a' = ar_entries a"
  by (auto simp: sign_meta_conf_def dest: read_all_data_entries split: prod.splits sum.splits error.splits if_splits)

lemma sign_entry_entries: "sign_entry env key ae t (a, zo) = (r, (a', zo')) \<Longrightarrow> ar_entries a' = ar_entries a"
  by (auto simp: sign_entry_def ok_then_def dest: copy_entry_entries sign_meta_conf_entries split: prod.splits sum.splits if_splits)

function sign_loop :: "create_env \<Rightarrow> byte list \<Rightarrow> byte list option \<Rightarrow> (archive \<times> zip_out, byte list option) action" where
  "sign_loop env signing_key configtxt (a, zo) =
     (case archive_read_next_header a of
        (None, a') \<Rightarrow> (Inr configtxt, (a', zo))
      | (Some in_ae, a') \<Rightarrow>
          (case sign_entry env signing_key in_ae configtxt (a', zo) of
             (Inl e, s) \<Rightarrow> (Inl e, s)
           | (Inr configtxt', s) \<Rightarrow> sign_loop env signing_key configtxt' s))"
  by pat_completeness auto
termination
  by (relation "measure (\<lambda>(_, _, _, a, _). length (ar_entries a))")
    (auto simp: archive_read_next_header_def dest!: sign_entry_entries [OF sym] split: list.splits)

declare sign_loop.simps [simp del]

text \<open>
  The result is the file that is renamed to the output; after a failure there is none, and the
  temporary file is removed. \<open>renamed\<close> is whether \<open>rename\<close> succeeds.
\<close>

definition fwup_sign :: "create_env \<Rightarrow> bool \<Rightarrow> string option \<Rightarrow> string option \<Rightarrow> byte list option \<Rightarrow> archive res \<Rightarrow> zip_out res" where
  "fwup_sign env renamed input_filename output_filename signing_key opened =
     (if \<not> zl_format (ce_zip env) then Inl (Msg ''error configuring libarchive'')
      else (case (input_filename, output_filename, signing_key) of
        (None, _, _) \<Rightarrow> Inl (Msg ''Specify an input firmware file'')
      | (_, None, _) \<Rightarrow> Inl (Msg ''Specify an output firmware file'')
      | (_, _, None) \<Rightarrow> Inl (Msg ''Specify a signing key'')
      | (Some infile, Some outfile, Some key) \<Rightarrow>
          bind_res opened (\<lambda>a.
            if \<not> zl_open (ce_zip env) (infile @ ''.tmp'') then Inl (Msg ''Error creating archive'')
            else (case sign_loop env key None (a, new_zip) of
                    (Inl e, _) \<Rightarrow> Inl e
                  | (Inr None, _) \<Rightarrow> Inl (Msg ''Invalid firmware. No meta.conf not found'')
                  | (Inr (Some _), (_, zo)) \<Rightarrow> if renamed then Inr zo else Inl (Msg ''Error updating'')))))"

end
