(* ===== verification/Fw_Roundtrip.thy ===== *)
theory Fw_Roundtrip
  imports Create_Files Fw_Sign Fw_Verify Apply_Read
begin

text \<open>
  Archives from their creation to their use: what \<open>fwup_create\<close> writes is accepted by \<open>fwup_verify\<close> and
  gives the files back when it is applied, and what \<open>fwup_sign\<close> writes has the entries of its input
  under a signature.
\<close>

section \<open>A resource gives its files back\<close>

text \<open>The file system returns zeros for a hole.\<close>

definition holes_zero :: "host_file list \<Rightarrow> bool" where
  "holes_zero fs \<longleftrightarrow> (\<forall>(bytes, D) \<in> set fs. \<forall>a < length bytes. \<not> D a \<longrightarrow> bytes ! a = 0)"

lemma flags_zero:
  "holes_zero fs \<Longrightarrow> a < length (file_bytes fs) \<Longrightarrow> \<not> file_flags sparse fs ! a \<Longrightarrow> file_bytes fs ! a = 0"
proof (induction fs arbitrary: a)
  case (Cons f fs)
  obtain bytes D where f: "f = (bytes, D)" by fastforce
  have z: "\<forall>a < length bytes. \<not> D a \<longrightarrow> bytes ! a = 0" "holes_zero fs" using Cons.prems(1) f by (auto simp: holes_zero_def)
  show ?case
  proof (cases "a < length bytes")
    case True
    then show ?thesis using Cons.prems(3) z(1) f by (auto simp: nth_append split: if_splits)
  next
    case False
    then show ?thesis using Cons.IH [OF z(2), of "a - length bytes"] Cons.prems(2,3) f by (auto simp: nth_append split: if_splits)
  qed
qed simp

lemma map_ok_segments:
  assumes "map_ok m (file_flags sparse fs)" and "length m < 255" and "length (file_bytes fs) < 2 ^ 63"
  shows "segments_ok m"
proof -
  have m: "m \<noteq> []" "\<forall>x \<in> set m. 0 \<le> x" "expand True m = file_flags sparse fs" "\<forall>x \<in> set (tl m). 0 < x"
    using assms(1,2) by (auto simp: map_ok_def)
  have "int (length (expand True m)) = sum_list m" by (rule length_expand [OF m(2)])
  then have s: "sum_list m < 2 ^ 63" using m(3) assms(3) by simp
  have "0 < m ! i" if "i < length m" "0 < i" for i
  proof -
    have "m ! i = tl m ! (i - 1)" using that by (simp add: nth_tl)
    then show ?thesis using m(4) that by simp
  qed
  then show ?thesis using m(1,2) s by (auto simp: segments_ok_def)
qed

lemma sparse_resource_of_files:
  assumes "map_ok m (file_flags sparse fs)" and "length m < 255" and "length (file_bytes fs) < 2 ^ 63" and "holes_zero fs"
    and "readable blocks" and "data_of blocks = select (file_bytes fs) (expand True m)"
  shows "sparse_resource m (file_bytes fs) blocks"
proof -
  have e: "expand True m = file_flags sparse fs" using assms(1,2) by (simp add: map_ok_def)
  then show ?thesis
    using map_ok_segments [OF assms(1-3)] flags_zero [OF assms(4)] assms(5,6) by (auto simp: sparse_resource_def)
qed

lemma add_one_resource_files:
  assumes "add_one_resource env sec zo = (Inr u, zo')" and "cfg_getstr sec ''host-path'' = Some paths"
    and "sparse_file_get_map_from_resource sec = Inr (Some m)" and "headers_accepted (ce_zip env)"
    and "map_ok m (file_flags sparse fs)" and "paths_open env sec (split_paths [] paths) (host_fds fs)"
  shows "\<exists>ap n. resource_name_to_archive_path (cfg_title sec) = Inr ap \<and> sparse_file_data_size (Some m) = Inr n \<and>
    zo' = \<lparr>zo_entries = zo_entries zo @ [\<lparr>ze_pathname = ap, ze_size = Some n, ze_mtime = None, ze_data = select (file_bytes fs) (expand True m)\<rparr>],
           zo_in_entry = True\<rparr>"
proof -
  obtain assertions where r: "add_file_resource env sec paths (Some m) assertions zo = (Inr u, zo')"
    using assms(1-3) by (auto simp: add_one_resource_def from_res_def bind_res_eq_Inr elim!: ok_then_Inr_E)
  have "\<forall>x \<in> set m. 0 \<le> x" "length (expand True m) = length (file_bytes fs)"
    using assms(5) covers_length [of "expand True m" "file_flags sparse fs"] by (simp_all add: map_ok_def)
  from add_file_resource_entry [OF r assms(4) this(1) assms(6) this(2)] show ?thesis by blast
qed

text \<open>
  C4: files come back. The map, the data and the hash that are computed for a resource of one or
  more files and the entry that is written for it fit together: reading that entry, in
  blocks of any size, under that map delivers pieces that, written at their offsets over zeros, are the files one after
  the other, holes included; and the hash in the metadata is the hash of the data in the entry.
\<close>

theorem created_resource_restored:
  assumes "resource_metadata env sec = Inr sec'" and "add_one_resource env sec' zo = (Inr u, zo')"
    and "cfg_getstr sec ''host-path'' = Some paths" and "paths_open env sec (split_paths [] paths) (host_fds fs)"
    and "files_ok fs" and "holes_zero fs" and "length (file_bytes fs) < 2 ^ 63"
    and "cfg_ints sec ''length'' = []" and "length (cfg_ints sec' ''length'') < 255" and "headers_accepted (ce_zip env)"
  shows "\<exists>m e. sparse_file_get_map_from_resource sec' = Inr (Some m) \<and> zo_entries zo' = zo_entries zo @ [e] \<and>
    cfg_getstr sec' ''blake2b-256'' = Some (bytes_to_hex (ce_blake2b_256 env (ze_data e))) \<and>
    (\<forall>p. readable (pd_blocks p) \<and> data_of (pd_blocks p) = ze_data e \<longrightarrow>
       (\<exists>cs p'. delivers (start_resource (Some m) p) cs p' \<and> concat (map fst cs) = ze_data e \<and>
          (\<forall>a < length (file_bytes fs). chunk_bytes (at_dest 0 cs) (\<lambda>_. 0) a = file_bytes fs ! a)))"
proof -
  obtain m where m: "sparse_file_get_map_from_resource sec' = Inr (Some m)" "map_ok m (file_flags (resource_sparse env sec) fs)"
    "cfg_title sec' = cfg_title sec"
    "cfg_getstr sec' = (cfg_getstr sec)(''blake2b-256'' := Some (bytes_to_hex (ce_blake2b_256 env (select (file_bytes fs) (expand True m)))))"
    using resource_metadata_files [OF assms(3,4,5,8)] assms(1) by auto
  have hp: "cfg_getstr sec' ''host-path'' = Some paths" using m(4) assms(3) by simp
  have op: "paths_open env sec' (split_paths [] paths) (host_fds fs)" using assms(4) m(3) by (simp add: paths_open_def)
  have l: "length m < 255" using m(1) assms(9) by (auto simp: sparse_file_get_map_from_resource_def Let_def split: if_splits)
  let ?d = "select (file_bytes fs) (expand True m)"
  obtain ap n where z: "zo' = \<lparr>zo_entries = zo_entries zo @ [\<lparr>ze_pathname = ap, ze_size = Some n, ze_mtime = None, ze_data = ?d\<rparr>], zo_in_entry = True\<rparr>"
    using add_one_resource_files [OF assms(2) hp m(1) assms(10) m(2) op] by blast
  have "\<exists>cs p'. delivers (start_resource (Some m) p) cs p' \<and> concat (map fst cs) = ?d \<and>
      (\<forall>a < length (file_bytes fs). chunk_bytes (at_dest 0 cs) (\<lambda>_. 0) a = file_bytes fs ! a)"
    if "readable (pd_blocks p)" "data_of (pd_blocks p) = ?d" for p :: "'a fwup_apply_data"
    using sparse_file_restored [OF sparse_resource_of_files [OF m(2) l assms(7,6) that]] that(2) by metis
  then show ?thesis using m(1,4) z by (intro exI [of _ m]) simp
qed

definition sample_zip :: zip_lib where
  "sample_zip = \<lparr>zl_format = True, zl_open = (\<lambda>_. True), zl_store = (\<lambda>_. True), zl_deflate = (\<lambda>_. True),
     zl_header = (\<lambda>_ _. True), zl_data = (\<lambda>_ bytes. int (length bytes))\<rparr>"

definition sample_fs :: "host_file list" where
  "sample_fs = [([0, 0, 7], \<lambda>a. a = 2)]"

definition sample_env :: create_env where
  "sample_env = \<lparr>ce_open = (\<lambda>path. if path = ''./image'' then Some (file_fd [0, 0, 7] (\<lambda>a. a = 2)) else None),
     ce_filename = (\<lambda>_. ''fwup.conf''), ce_have_sparse_seek = True, ce_blake2b_256 = (\<lambda>bs. replicate 32 (fold (+) bs 0)),
     ce_sign = (\<lambda>sk _ m. take 64 (map ((+) (hd sk)) m @ replicate 64 0)), ce_creation_time = 0, ce_malloc = (\<lambda>_. True),
     ce_zip = sample_zip\<rparr>"

definition sample_sec :: cfg where
  "sample_sec = Cfg ''rootfs'' (\<lambda>_. - 1) (\<lambda>_. []) [''host-path'' \<mapsto> ''image''] (\<lambda>_. []) (\<lambda>k. k = ''skip-holes'') (\<lambda>_. [])"

lemma sample_paths: "split_paths [] ''image'' = [''image'']" "update_relative_path ''fwup.conf'' ''image'' = ''./image''"
  by code_simp+

lemma sample_map: "sparse_file_build_map_from_fd True (file_fd [0, 0, 7] (\<lambda>a. a = 2)) False None = Inr (Some [0, 2, 1])"
  by (simp add: sparse_file_build_map_from_fd_def map_loop.simps IN_HOLE_def SPARSE_FILE_MAP_MAX_LEN_def file_fd_def first_from_def Let_def upt_rec numeral_eq_Suc)

lemma sample_data_read: "data_loop use [0, 2, 1] (file_fd [0, 0, 7] (\<lambda>a. a = 2)) sparse_file_start_read 0 s =
  (case use [7] s of (Inl e, s') \<Rightarrow> (Inl e, s') | (Inr _, s') \<Rightarrow> (Inr \<lparr>map_ix = 3, offset_in_segment = 0\<rparr>, s'))"
  by (simp add: data_loop.simps sparse_file_read_next_data_def skip_holes.simps IN_HOLE_def file_fd_def sparse_file_start_read_def Let_def
    split: prod.splits sum.splits)

definition sample_sec' :: cfg where
  "sample_sec' = cfg_setstr (sparse_file_set_map_in_resource sample_sec (Some [0, 2, 1])) ''blake2b-256'' (bytes_to_hex (replicate 32 7))"

lemma sample_metadata: "resource_metadata sample_env sample_sec = Inr sample_sec'"
  by (simp add: resource_metadata_def sample_env_def sample_sec_def sample_sec'_def run_on_each_path_def sample_paths build_sparse_map_def
      sparse_file_init_def sample_map calc_hash_def sample_data_read map_entries_def ok_then_def Let_def)

lemma sample_ints: "cfg_ints sample_sec' ''length'' = [0, 2, 1]"
  by (simp add: sample_sec'_def sparse_file_set_map_in_resource_def map_entries_def cfg_setnint_def sample_sec_def cfg_setstr_def Let_def)

lemma sample_added_to:
  "add_one_resource sample_env sample_sec' zo =
   (Inr (), \<lparr>zo_entries = zo_entries zo @ [\<lparr>ze_pathname = ''data/rootfs'', ze_size = Some 1, ze_mtime = None, ze_data = [7]\<rparr>], zo_in_entry = True\<rparr>)"
proof -
  have m: "sparse_file_get_map_from_resource sample_sec' = Inr (Some [0, 2, 1])"
    by (simp add: sparse_file_get_map_from_resource_def sample_ints)
  have sel: "cfg_getstr sample_sec' ''host-path'' = Some ''image''" "cfg_title sample_sec' = ''rootfs''" "cfg_getint sample_sec' k = - 1" for k
    by (simp_all add: sample_sec'_def sample_sec_def)
  have ap: "resource_name_to_archive_path ''rootfs'' = Inr ''data/rootfs''"
    by (simp add: resource_name_to_archive_path_def FWFILE_MAX_ARCHIVE_PATH_def)
  show ?thesis
    by (simp add: add_one_resource_def sel m int64_def add_file_resource_def sparse_file_size_def sparse_file_data_size_def map_entries_def
        check_assertions_def ap from_res_def ok_then_def run_on_each_path_def sample_paths sample_env_def write_file_to_archive_def sample_data_read
        write_buffer_def archive_write_data_def archive_write_header_def sample_zip_def new_entry_def append_data_def Let_def)
qed

lemma sample_added:
  "add_one_resource sample_env sample_sec' new_zip =
   (Inr (), \<lparr>zo_entries = [\<lparr>ze_pathname = ''data/rootfs'', ze_size = Some 1, ze_mtime = None, ze_data = [7]\<rparr>], zo_in_entry = True\<rparr>)"
  by (simp add: sample_added_to new_zip_def)

theorem created_resource_restored_witness:
  "\<exists>m e. sparse_file_get_map_from_resource sample_sec' = Inr (Some m) \<and>
    zo_entries \<lparr>zo_entries = [\<lparr>ze_pathname = ''data/rootfs'', ze_size = Some 1, ze_mtime = None, ze_data = [7]\<rparr>], zo_in_entry = True\<rparr> = [e] \<and>
    (\<exists>cs p'. delivers (start_resource (Some m) ((idle_pd :: unit fwup_apply_data)\<lparr>pd_blocks := [Block [7] 0]\<rparr>)) cs p' \<and>
          (\<forall>a < length (file_bytes sample_fs). chunk_bytes (at_dest 0 cs) (\<lambda>_. 0) a = file_bytes sample_fs ! a))"
proof -
  let ?p = "(idle_pd :: unit fwup_apply_data)\<lparr>pd_blocks := [Block [7] 0]\<rparr>"
  have o: "paths_open sample_env sample_sec (split_paths [] ''image'') (host_fds sample_fs)"
    by (simp add: sample_paths sample_env_def sample_fs_def)
  have h: "holes_zero sample_fs" by (simp add: holes_zero_def sample_fs_def less_Suc_eq numeral_3_eq_3)
  have "\<exists>m e. sparse_file_get_map_from_resource sample_sec' = Inr (Some m) \<and>
      zo_entries \<lparr>zo_entries = [\<lparr>ze_pathname = ''data/rootfs'', ze_size = Some 1, ze_mtime = None, ze_data = [7]\<rparr>], zo_in_entry = True\<rparr> = zo_entries new_zip @ [e] \<and>
      cfg_getstr sample_sec' ''blake2b-256'' = Some (bytes_to_hex (ce_blake2b_256 sample_env (ze_data e))) \<and>
      (\<forall>p :: unit fwup_apply_data. readable (pd_blocks p) \<and> data_of (pd_blocks p) = ze_data e \<longrightarrow>
         (\<exists>cs p'. delivers (start_resource (Some m) p) cs p' \<and> concat (map fst cs) = ze_data e \<and>
            (\<forall>a < length (file_bytes sample_fs). chunk_bytes (at_dest 0 cs) (\<lambda>_. 0) a = file_bytes sample_fs ! a)))"
    by (rule created_resource_restored [OF sample_metadata sample_added _ o _ h])
      (simp_all add: sample_sec_def sample_fs_def files_ok_def sample_ints headers_accepted_def sample_env_def sample_zip_def)
  then obtain m e where me: "sparse_file_get_map_from_resource sample_sec' = Inr (Some m)"
      "e = \<lparr>ze_pathname = ''data/rootfs'', ze_size = Some 1, ze_mtime = None, ze_data = [7]\<rparr>"
      "\<forall>p :: unit fwup_apply_data. readable (pd_blocks p) \<and> data_of (pd_blocks p) = ze_data e \<longrightarrow>
         (\<exists>cs p'. delivers (start_resource (Some m) p) cs p' \<and> concat (map fst cs) = ze_data e \<and>
            (\<forall>a < length (file_bytes sample_fs). chunk_bytes (at_dest 0 cs) (\<lambda>_. 0) a = file_bytes sample_fs ! a))"
    by (auto simp: new_zip_def)
  have "readable (pd_blocks ?p)" "data_of (pd_blocks ?p) = ze_data e" by (simp_all add: me(2) readable_def data_of_def block_bytes_def)
  then have "\<exists>cs p'. delivers (start_resource (Some m) ?p) cs p' \<and>
      (\<forall>a < length (file_bytes sample_fs). chunk_bytes (at_dest 0 cs) (\<lambda>_. 0) a = file_bytes sample_fs ! a)"
    using me(3) by blast
  moreover have "zo_entries \<lparr>zo_entries = [\<lparr>ze_pathname = ''data/rootfs'', ze_size = Some 1, ze_mtime = None, ze_data = [7]\<rparr>], zo_in_entry = True\<rparr> = [e]"
    by (simp add: me(2))
  ultimately show ?thesis using me(1) by blast
qed

section \<open>What is written can be read\<close>

text \<open>
  libarchive takes every header, and all the bytes that fit into the size that the header gives. When
  the archive is read again every entry has its name, size, time and data, in blocks without
  gaps or as answers to \<open>archive_read_data\<close>.
\<close>

definition zip_ok :: "zip_lib \<Rightarrow> bool" where
  "zip_ok lib \<longleftrightarrow> headers_accepted lib \<and>
     (\<forall>zo b. in_entry zo \<and>
        (\<forall>n. ze_size (last (zo_entries zo)) = Some n \<longrightarrow> int (length (ze_data (last (zo_entries zo))) + length b) \<le> n) \<longrightarrow>
        zl_data lib zo b = int (length b))"

fun contiguous :: "int \<Rightarrow> block_answer list \<Rightarrow> bool" where
  "contiguous offset [] = True"
| "contiguous offset (Block b o1 # bl) = (o1 = offset \<and> contiguous (offset + int (length b)) bl)"
| "contiguous offset (Block_failed m # bl) = False"

definition reads_hold :: "byte list res list \<Rightarrow> byte list \<Rightarrow> bool" where
  "reads_hold rs d \<longleftrightarrow> (\<exists>ps. rs = map Inr ps \<and> [] \<notin> set ps \<and> concat ps = d)"

definition reads_entry :: "zip_entry \<Rightarrow> archive_entry \<Rightarrow> bool" where
  "reads_entry e ae \<longleftrightarrow> ae_pathname ae = ze_pathname e \<and> ae_size ae = ze_size e \<and> (ze_mtime e \<noteq> None \<longrightarrow> ae_mtime ae = ze_mtime e) \<and>
     contiguous 0 (ae_blocks ae) \<and> data_of (ae_blocks ae) = ze_data e \<and> reads_hold (ae_reads ae) (ze_data e)"

definition reads_zip :: "zip_out \<Rightarrow> archive \<Rightarrow> bool" where
  "reads_zip zo a \<longleftrightarrow> list_all2 reads_entry (zo_entries zo) (ar_entries a)"

lemma contiguous_loop: "contiguous offset bl \<Longrightarrow> entry_loop offset h bl = (Inr (h @ data_of bl), [])"
proof (induction bl arbitrary: offset h)
  case (Cons b bl)
  then obtain bytes where b: "b = Block bytes offset" "contiguous (offset + int (length bytes)) bl" by (cases b) auto
  show ?case
  proof (cases "bytes = []")
    case True
    then have "entry_loop offset h (b # bl) = entry_loop offset h bl"
      by (simp add: b(1) entry_loop.simps [of _ _ "Block [] offset # bl"] entry_loop.simps [of _ _ bl])
    then show ?thesis using Cons.IH [of offset h] b True by (simp add: data_of_def block_bytes_def)
  next
    case False
    then have "entry_loop offset h (b # bl) = entry_loop (offset + int (length bytes)) (h @ bytes) bl"
      by (simp add: b(1) entry_loop.simps [of _ _ "Block bytes offset # bl"])
    then show ?thesis using Cons.IH [OF b(2)] b(1) by (simp add: data_of_def block_bytes_def)
  qed
qed (simp add: entry_loop.simps data_of_def)

lemma read_all_pieces:
  "[] \<notin> set ps \<Longrightarrow> int (length (concat ps)) \<le> n \<Longrightarrow> read_all_loop n buf (map Inr ps) = (Inr (buf @ concat ps), [])"
proof (induction ps arbitrary: n buf)
  case (Cons p ps)
  have "0 < length p" using Cons.prems(1) by auto
  moreover have "int (length p) + int (length (concat ps)) \<le> n" using Cons.prems(2) by simp
  ultimately have "0 < n" "int (length p) \<le> n" by linarith+
  then show ?case using Cons.IH [of "n - int (length p)" "buf @ p"] Cons.prems by auto
qed simp

lemma read_all_entry:
  assumes "reads_entry e ae" and "ze_size e = Some (int (length (ze_data e)))" and "int (length (ze_data e)) \<le> n"
    and "ar_reads a = ae_reads ae"
  shows "archive_read_all_data ae n a = (Inr (ze_data e), a\<lparr>ar_reads := []\<rparr>)"
proof -
  obtain ps where "ae_reads ae = map Inr ps" "[] \<notin> set ps" "concat ps = ze_data e" and sz: "ae_size ae = ze_size e"
    using assms(1) by (auto simp: reads_entry_def reads_hold_def)
  then show ?thesis using assms(2-4) read_all_pieces [of ps _ "[]"]
    by (simp add: archive_read_all_data_def archive_entry_size_is_set_def archive_entry_size_def)
qed

lemma write_whole_entry_ok:
  assumes "zip_ok lib" and "ze_size e = Some (int (length bytes))"
  shows "write_whole_entry lib e bytes zo = \<lparr>zo_entries = zo_entries zo @ [e\<lparr>ze_data := bytes\<rparr>], zo_in_entry = True\<rparr>"
proof -
  let ?zo = "\<lparr>zo_entries = zo_entries zo @ [e\<lparr>ze_data := []\<rparr>], zo_in_entry = True\<rparr>"
  have "zl_data lib ?zo bytes = int (length bytes)"
  proof -
    have "in_entry ?zo" "\<forall>n. ze_size (last (zo_entries ?zo)) = Some n \<longrightarrow> int (length (ze_data (last (zo_entries ?zo))) + length bytes) \<le> n"
      using assms(2) by (simp_all add: in_entry_def)
    then show ?thesis using assms(1) unfolding zip_ok_def by blast
  qed
  then show ?thesis using assms(1) append_data_new [of bytes "zo_entries zo" e]
    by (simp add: write_whole_entry_def archive_write_header_def zip_ok_def headers_accepted_def archive_write_data_def Let_def)
qed

text \<open>The entries in front of the resources.\<close>

definition signature_of :: "create_env \<Rightarrow> byte list \<Rightarrow> byte list \<Rightarrow> byte list" where
  "signature_of env key text = ce_sign env (take FWUP_PRIVATE_KEY_LEN key) (drop FWUP_PRIVATE_KEY_LEN key) text"

definition meta_entries :: "create_env \<Rightarrow> byte list option \<Rightarrow> byte list \<Rightarrow> zip_entry list" where
  "meta_entries env key text =
     (case key of None \<Rightarrow> [] | Some k \<Rightarrow> [\<lparr>ze_pathname = ''meta.conf.ed25519'', ze_size = Some 64, ze_mtime = None, ze_data = signature_of env k text\<rparr>]) @
     [\<lparr>ze_pathname = ''meta.conf'', ze_size = Some (int (length text)), ze_mtime = Some (ce_creation_time env), ze_data = text\<rparr>]"

definition signatures_ok :: "create_env \<Rightarrow> bool" where
  "signatures_ok env \<longleftrightarrow> (\<forall>sk pk text. length (ce_sign env sk pk text) = 64)"

lemma meta_conf_written:
  assumes "fwfile_add_meta_conf_str env text key zo = (Inr u, zo')" and "zip_ok (ce_zip env)" and "signatures_ok env"
  shows "zo' = \<lparr>zo_entries = zo_entries zo @ meta_entries env key text, zo_in_entry = True\<rparr>"
proof -
  obtain v zo1 where s: "write_signature env text key zo = (Inr v, zo1)"
    and m: "zo' = write_whole_entry (ce_zip env) (new_entry ''meta.conf'' (Some (int (length text))) (Some (ce_creation_time env))) text zo1"
    using assms(1) by (auto simp: fwfile_add_meta_conf_str_def ok_then_def split: prod.splits sum.splits if_splits)
  have m': "zo' = \<lparr>zo_entries = zo_entries zo1 @ [\<lparr>ze_pathname = ''meta.conf'', ze_size = Some (int (length text)),
      ze_mtime = Some (ce_creation_time env), ze_data = text\<rparr>], zo_in_entry = True\<rparr>"
    unfolding m by (subst write_whole_entry_ok [OF assms(2)]) (simp_all add: new_entry_def)
  show ?thesis
  proof (cases key)
    case None
    then show ?thesis using s m' by (simp add: write_signature_def meta_entries_def)
  next
    case (Some k)
    have "zo1 = write_whole_entry (ce_zip env) (new_entry ''meta.conf.ed25519'' (Some FWUP_SIGNATURE_LEN) None) (signature_of env k text) zo"
      using s Some by (auto simp: write_signature_def signature_of_def Let_def split: if_splits)
    then have "zo1 = \<lparr>zo_entries = zo_entries zo @ [\<lparr>ze_pathname = ''meta.conf.ed25519'', ze_size = Some 64, ze_mtime = None,
        ze_data = signature_of env k text\<rparr>], zo_in_entry = True\<rparr>"
      using assms(3) by (subst (asm) write_whole_entry_ok [OF assms(2)])
        (simp_all add: new_entry_def signatures_ok_def signature_of_def FWUP_SIGNATURE_LEN_def)
    then show ?thesis using m' Some by (simp add: meta_entries_def)
  qed
qed

definition key_pair :: "meta_env \<Rightarrow> create_env \<Rightarrow> byte list option \<Rightarrow> byte list list \<Rightarrow> bool" where
  "key_pair me env key public_keys \<longleftrightarrow> public_keys = [] \<or>
     (\<exists>k. key = Some k \<and> (\<exists>pk \<in> set public_keys. \<forall>text. ed25519_check me (signature_of env k text) pk text))"

lemma meta_conf_read:
  assumes "list_all2 reads_entry (meta_entries env key text @ es) (ar_entries a)"
    and "signatures_ok env" and "key_pair me env key public_keys" and "10 \<le> length text" and "length text < 50000"
  shows "\<exists>ae a'. read_meta me public_keys a = (parse_meta me ae text, a') \<and> ae_mtime ae = Some (ce_creation_time env) \<and>
    list_all2 reads_entry es (ar_entries a') \<and> is_signed a = (key \<noteq> None)"
proof -
  have parse: "cfgfile_parse_fw_ae me ae sig public_keys b = (parse_meta me ae text, b\<lparr>ar_reads := []\<rparr>)"
    if "reads_entry \<lparr>ze_pathname = ''meta.conf'', ze_size = Some (int (length text)), ze_mtime = Some (ce_creation_time env), ze_data = text\<rparr> ae"
      "ar_reads b = ae_reads ae" "check_signature me sig public_keys text = Inr ()" for ae b sig
    using read_all_entry [OF that(1) _ _ that(2), of MAX_META_CONF_SIZE] that(3) assms(4,5)
    by (simp add: cfgfile_parse_fw_ae_def MAX_META_CONF_SIZE_def ok_then_def)
  show ?thesis
  proof (cases key)
    case None
    then have keys: "public_keys = []" using assms(3) by (simp add: key_pair_def)
    obtain ae rest where ae: "ar_entries a = ae # rest" "list_all2 reads_entry es rest"
      "reads_entry \<lparr>ze_pathname = ''meta.conf'', ze_size = Some (int (length text)), ze_mtime = Some (ce_creation_time env), ze_data = text\<rparr> ae"
      using assms(1) None by (auto simp: meta_entries_def list_all2_Cons1)
    have n: "ae_pathname ae = ''meta.conf''" "ae_mtime ae = Some (ce_creation_time env)" using ae(3) by (auto simp: reads_entry_def)
    let ?a1 = "\<lparr>ar_entries = rest, ar_blocks = ae_blocks ae, ar_reads = ae_reads ae\<rparr>"
    have h: "next_header ''Corrupt archive'' a = (Inr ae, ?a1)" using ae(1) by (simp add: next_header_Inr)
    have "read_meta me public_keys a = (parse_meta me ae text, ?a1\<lparr>ar_reads := []\<rparr>)"
      using h n(1) parse [OF ae(3), of ?a1 None] keys by (simp add: read_meta_def ok_then_def check_signature_def)
    then show ?thesis using n ae None by (auto simp: is_signed_def)
  next
    case (Some k)
    obtain sae ae rest where ae: "ar_entries a = sae # ae # rest" "list_all2 reads_entry es rest"
      "reads_entry \<lparr>ze_pathname = ''meta.conf'', ze_size = Some (int (length text)), ze_mtime = Some (ce_creation_time env), ze_data = text\<rparr> ae"
      "reads_entry \<lparr>ze_pathname = ''meta.conf.ed25519'', ze_size = Some 64, ze_mtime = None, ze_data = signature_of env k text\<rparr> sae"
      using assms(1) Some by (auto simp: meta_entries_def list_all2_Cons1)
    have n: "ae_pathname ae = ''meta.conf''" "ae_mtime ae = Some (ce_creation_time env)" "ae_pathname sae = ''meta.conf.ed25519''"
      using ae(3,4) by (auto simp: reads_entry_def)
    have l: "length (signature_of env k text) = 64" using assms(2) by (simp add: signatures_ok_def signature_of_def)
    let ?a1 = "\<lparr>ar_entries = ae # rest, ar_blocks = ae_blocks sae, ar_reads = ae_reads sae\<rparr>"
    let ?a2 = "\<lparr>ar_entries = rest, ar_blocks = ae_blocks ae, ar_reads = ae_reads ae\<rparr>"
    have h: "next_header ''Corrupt archive'' a = (Inr sae, ?a1)" using ae(1) by (simp add: next_header_Inr)
    have s: "read_signature sae ?a1 = (Inr (signature_of env k text), ?a1\<lparr>ar_reads := []\<rparr>)"
      using read_all_entry [OF ae(4), of 64 ?a1] l by (simp add: read_signature_def ok_then_def FWUP_SIGNATURE_LEN_def)
    have h2: "next_header ''Expecting more than meta.conf.ed25519 in archive'' (?a1\<lparr>ar_reads := []\<rparr>) = (Inr ae, ?a2)"
      by (simp add: next_header_Inr)
    have "check_signature me (Some (signature_of env k text)) public_keys text = Inr ()"
      using assms(3) Some by (auto simp: check_signature_def try_keys_iff key_pair_def)
    then have "read_meta me public_keys a = (parse_meta me ae text, ?a2\<lparr>ar_reads := []\<rparr>)"
      using h h2 s n parse [OF ae(3), of ?a2] by (simp add: read_meta_def ok_then_def)
    then show ?thesis using n ae Some by (auto simp: is_signed_def)
  qed
qed

section \<open>The resources of a new archive\<close>

definition written_resource :: "create_env \<Rightarrow> cfg \<Rightarrow> zip_entry \<Rightarrow> bool" where
  "written_resource env sec e \<longleftrightarrow>
     resource_name_to_archive_path (cfg_title sec) = Inr (ze_pathname e) \<and> ze_size e = Some (int (length (ze_data e))) \<and>
     data_size_is sec (int (length (ze_data e))) \<and>
     cfg_getstr sec ''blake2b-256'' = Some (bytes_to_hex (ce_blake2b_256 env (ze_data e)))"

text \<open>A section as the user wrote it: its files exist and are not empty, or it has contents.\<close>

definition host_ok :: "create_env \<Rightarrow> cfg \<Rightarrow> bool" where
  "host_ok env sec \<longleftrightarrow> cfg_ints sec ''length'' = [] \<and>
     (case cfg_getstr sec ''host-path'' of
        Some paths \<Rightarrow> (\<exists>fs. paths_open env sec (split_paths [] paths) (host_fds fs) \<and> files_ok fs)
      | None \<Rightarrow> (\<forall>contents. cfg_getstr sec ''contents'' = Some contents \<longrightarrow> length contents < 2 ^ 63))"

lemma length_select_count: "length bs = length fl \<Longrightarrow> length (select bs fl) = count_list fl True"
  by (induction bs fl rule: list_induct2) (auto simp: select_def)

lemma count_replicate: "count_list (replicate n b) True = (if b then n else 0)"
  by (induction n) auto

lemma count_expand: "\<forall>x \<in> set m. 0 \<le> x \<Longrightarrow> int (count_list (expand True m) True) = sum_list (every_other m)"
  by (induction m rule: every_other.induct) (auto simp: count_replicate)

lemma written_size:
  assumes "\<forall>x \<in> set m. 0 \<le> x" and "length bs = length (expand True m)" and "sparse_file_data_size (Some m) = Inr n"
  shows "n = int (length (select bs (expand True m)))"
  using sum_off_t_Inr [of 0 "every_other m" n] assms length_select_count [OF assms(2)] count_expand [OF assms(1)]
  by (simp add: sparse_file_data_size_def map_entries_def)

lemma write_buffer_whole:
  assumes "zip_ok lib" and "in_entry zo"
    and "\<forall>n. ze_size (last (zo_entries zo)) = Some n \<longrightarrow> int (length (ze_data (last (zo_entries zo))) + length b) \<le> n"
  shows "write_buffer lib b zo = (Inr (), append_data b zo)"
proof -
  have "zl_data lib zo b = int (length b)" using assms unfolding zip_ok_def by blast
  then show ?thesis by (simp add: write_buffer_def archive_write_data_def Let_def)
qed

lemma string_resource_written:
  assumes "resource_metadata env sec = Inr sec'" and "cfg_getstr sec ''host-path'' = None" and "host_ok env sec"
    and "add_one_resource env sec' zo = (Inr u, zo')" and "zip_ok (ce_zip env)"
  shows "\<exists>e. zo_entries zo' = zo_entries zo @ [e] \<and> written_resource env sec' e \<and> cfg_title sec' = cfg_title sec"
proof -
  obtain contents where c: "cfg_getstr sec ''contents'' = Some contents"
    and s: "sec' = cfg_setstr (cfg_setnint sec ''length'' (int (length contents)) 0) ''blake2b-256''
       (bytes_to_hex (ce_blake2b_256 env (string_bytes contents)))"
    using assms(1,2) by (auto simp: resource_metadata_def split: option.splits)
  have i: "cfg_ints sec ''length'' = []" "length contents < 2 ^ 63" using assms(2,3) c by (auto simp: host_ok_def)
  have sel: "cfg_title sec' = cfg_title sec" "cfg_getstr sec' ''host-path'' = None" "cfg_getstr sec' ''contents'' = Some contents"
    "cfg_getstr sec' ''blake2b-256'' = Some (bytes_to_hex (ce_blake2b_256 env (string_bytes contents)))"
    "cfg_ints sec' ''length'' = [int (length contents)]"
    using assms(2) c i(1) by (simp_all add: s cfg_setnint_def Let_def cfg_setstr_def)
  obtain ap where ap: "resource_name_to_archive_path (cfg_title sec) = Inr ap"
    and r: "write_buffer (ce_zip env) (string_bytes contents)
       \<lparr>zo_entries = zo_entries zo @ [(new_entry ap (Some (int (length contents))) None)\<lparr>ze_data := []\<rparr>], zo_in_entry = True\<rparr> = (Inr u, zo')"
    using assms(4,5) sel(1-3)
    by (auto simp: add_one_resource_def add_string_resource_def from_res_def archive_write_header_def zip_ok_def headers_accepted_def
        elim!: ok_then_Inr_E)
  let ?e = "\<lparr>ze_pathname = ap, ze_size = Some (int (length contents)), ze_mtime = None, ze_data = string_bytes contents\<rparr>"
  have "zo' = \<lparr>zo_entries = zo_entries zo @ [?e], zo_in_entry = True\<rparr>"
    using write_buffer_Inr [OF r] by (simp add: append_data_new new_entry_def append_data_def)
  moreover have "data_size_is sec' (int (length contents))"
    using i(2) by (simp add: data_size_is_def sparse_file_get_map_from_resource_def sel(5) sparse_file_data_size_def map_entries_def int64_def)
  ultimately show ?thesis using ap sel by (intro exI [of _ ?e]) (simp add: written_resource_def)
qed

lemma file_resource_written:
  assumes "resource_metadata env sec = Inr sec'" and "cfg_getstr sec ''host-path'' = Some paths" and "host_ok env sec"
    and "add_one_resource env sec' zo = (Inr u, zo')" and "zip_ok (ce_zip env)"
  shows "\<exists>e. zo_entries zo' = zo_entries zo @ [e] \<and> written_resource env sec' e \<and> cfg_title sec' = cfg_title sec"
proof -
  obtain fs where fs: "paths_open env sec (split_paths [] paths) (host_fds fs)" "files_ok fs" "cfg_ints sec ''length'' = []"
    using assms(2,3) by (auto simp: host_ok_def)
  obtain m where m: "sparse_file_get_map_from_resource sec' = Inr (Some m)" "map_ok m (file_flags (resource_sparse env sec) fs)"
    "cfg_title sec' = cfg_title sec"
    "cfg_getstr sec' = (cfg_getstr sec)(''blake2b-256'' := Some (bytes_to_hex (ce_blake2b_256 env (select (file_bytes fs) (expand True m)))))"
    using resource_metadata_files [OF assms(2) fs] assms(1) by auto
  have hp: "cfg_getstr sec' ''host-path'' = Some paths" using m(4) assms(2) by simp
  have op: "paths_open env sec' (split_paths [] paths) (host_fds fs)" using fs(1) m(3) by (simp add: paths_open_def)
  have h: "headers_accepted (ce_zip env)" using assms(5) by (simp add: zip_ok_def)
  obtain ap n where z: "resource_name_to_archive_path (cfg_title sec') = Inr ap" "sparse_file_data_size (Some m) = Inr n"
    "zo' = \<lparr>zo_entries = zo_entries zo @ [\<lparr>ze_pathname = ap, ze_size = Some n, ze_mtime = None, ze_data = select (file_bytes fs) (expand True m)\<rparr>], zo_in_entry = True\<rparr>"
    using add_one_resource_files [OF assms(4) hp m(1) h m(2) op] by blast
  have "n = int (length (select (file_bytes fs) (expand True m)))"
    using m(2) covers_length [of "expand True m" "file_flags (resource_sparse env sec) fs"]
    by (intro written_size [OF _ _ z(2)]) (simp_all add: map_ok_def)
  then show ?thesis using z m(1,3,4) by (simp add: written_resource_def data_size_is_def)
qed

lemma resources_written:
  "metadata_loop env secs = Inr secs' \<Longrightarrow> add_resources_loop env secs' zo = (Inr u, zo') \<Longrightarrow>
   \<forall>sec \<in> set secs. host_ok env sec \<Longrightarrow> zip_ok (ce_zip env) \<Longrightarrow>
   \<exists>es. zo_entries zo' = zo_entries zo @ es \<and> list_all2 (written_resource env) secs' es \<and> map cfg_title secs' = map cfg_title secs"
proof (induction secs arbitrary: secs' zo)
  case (Cons sec secs)
  obtain sec1 rest where s: "resource_metadata env sec = Inr sec1" "metadata_loop env secs = Inr rest" "secs' = sec1 # rest"
    using Cons.prems(1) by (auto simp: bind_res_eq_Inr)
  have "ok_then (add_one_resource env sec1) (\<lambda>_. add_resources_loop env rest) zo = (Inr u, zo')" using Cons.prems(2) s(3) by simp
  then obtain v zo1 where a: "add_one_resource env sec1 zo = (Inr v, zo1)" and r: "add_resources_loop env rest zo1 = (Inr u, zo')"
    by (rule ok_then_Inr_E)
  have h: "host_ok env sec" using Cons.prems(3) by simp
  obtain e where e: "zo_entries zo1 = zo_entries zo @ [e]" "written_resource env sec1 e" "cfg_title sec1 = cfg_title sec"
    using file_resource_written [OF s(1) _ h a Cons.prems(4)] string_resource_written [OF s(1) _ h a Cons.prems(4)]
    by (cases "cfg_getstr sec ''host-path''") blast+
  obtain es where "zo_entries zo' = zo_entries zo1 @ es" "list_all2 (written_resource env) rest es" "map cfg_title rest = map cfg_title secs"
    using Cons.IH [OF s(2) r _ Cons.prems(4)] Cons.prems(3) by auto
  then show ?case using e s(3) by (intro exI [of _ "e # es"]) simp
qed simp

section \<open>A new archive is accepted\<close>

text \<open>
  The parser of libconfuse reads back what the printer wrote about the resources: titles, lengths
  and hashes.
\<close>

definition same_resource :: "cfg \<Rightarrow> cfg \<Rightarrow> bool" where
  "same_resource r r' \<longleftrightarrow> cfg_title r' = cfg_title r \<and> cfg_ints r' ''length'' = cfg_ints r ''length'' \<and>
     cfg_getstr r' ''blake2b-256'' = cfg_getstr r ''blake2b-256''"

definition same_resources :: "cfg \<Rightarrow> cfg \<Rightarrow> bool" where
  "same_resources c c' \<longleftrightarrow> list_all2 same_resource (cfg_secs c ''file-resource'') (cfg_secs c' ''file-resource'')"

lemma written_same: "written_resource env r e \<Longrightarrow> same_resource r r' \<Longrightarrow> written_resource env r' e"
  by (auto simp: written_resource_def same_resource_def data_size_is_def sparse_file_get_map_from_resource_def)

lemma list_written_same: "list_all2 same_resource rs rs' \<Longrightarrow> list_all2 (written_resource env) rs es \<Longrightarrow> list_all2 (written_resource env) rs' es"
  by (induction rs rs' arbitrary: es rule: list_all2_induct) (auto simp: list_all2_Cons1 intro: written_same)

text \<open>The list of resources when those with the titles \<open>S\<close> have been seen.\<close>

definition seen :: "cfg list \<Rightarrow> string set \<Rightarrow> resource_list" where
  "seen secs S = rev (map (\<lambda>r. \<lparr>ri_resource = r, processed = (cfg_title r \<in> S)\<rparr>) secs)"

lemma rlist_seen: "rlist_get_all c = seen (cfg_secs c ''file-resource'') {}"
  by (simp add: rlist_get_all_def fold_push_resource seen_def)

lemma find_seen:
  assumes "distinct (map cfg_title secs)" and "r \<in> set secs"
  shows "\<exists>i < length (seen secs S). rlist_find_by_name (seen secs S) (cfg_title r) = Some i \<and>
    seen secs S ! i = \<lparr>ri_resource = r, processed = (cfg_title r \<in> S)\<rparr> \<and>
    set_processed i (seen secs S) = seen secs (insert (cfg_title r) S)"
proof -
  have "rlist_find_by_name (seen secs S) (cfg_title r) \<noteq> None"
    using assms(2) by (auto simp: rlist_find_by_name_None seen_def)
  then obtain i where i: "rlist_find_by_name (seen secs S) (cfg_title r) = Some i" by blast
  note f = rlist_find_by_name_Some [OF i]
  then have il: "i < length secs" by (simp add: seen_def)
  define k where "k = length secs - 1 - i"
  have k: "k < length secs" using il by (simp add: k_def)
  have nth: "seen secs T ! i = \<lparr>ri_resource = secs ! k, processed = (cfg_title (secs ! k) \<in> T)\<rparr>" for T
    using il by (simp add: seen_def rev_nth k_def)
  have tk: "cfg_title (secs ! k) = cfg_title r" using f nth [of S] by simp
  then have rk: "secs ! k = r" using assms k
    by (metis distinct_conv_nth in_set_conv_nth length_map nth_map)
  have "set_processed i (seen secs S) = seen secs (insert (cfg_title r) S)"
  proof (rule nth_equalityI)
    fix j assume "j < length (set_processed i (seen secs S))"
    then have j: "j < length secs" by (simp add: set_processed_def seen_def)
    define l where "l = length secs - 1 - j"
    have l: "l < length secs" using j by (simp add: l_def)
    have nj: "seen secs T ! j = \<lparr>ri_resource = secs ! l, processed = (cfg_title (secs ! l) \<in> T)\<rparr>" for T
      using j by (simp add: seen_def rev_nth l_def)
    have "cfg_title (secs ! l) = cfg_title r \<longleftrightarrow> j = i"
    proof -
      have "l = k \<longleftrightarrow> j = i" using j il by (auto simp: l_def k_def)
      moreover have "cfg_title (secs ! l) = cfg_title (secs ! k) \<longleftrightarrow> l = k"
        using assms(1) k l by (simp add: distinct_conv_nth) metis
      ultimately show ?thesis using tk by simp
    qed
    then show "set_processed i (seen secs S) ! j = seen secs (insert (cfg_title r) S) ! j"
    proof (cases "j = i")
      case True
      have "length (seen secs S) = length secs" by (simp add: seen_def)
      then show ?thesis using True nth rk il by (simp add: set_processed_def)
    next
      case False
      then show ?thesis using nj \<open>cfg_title (secs ! l) = cfg_title r \<longleftrightarrow> j = i\<close> by (simp add: set_processed_def)
    qed
  qed (simp add: set_processed_def seen_def)
  then show ?thesis using i f nth [of S] rk by auto
qed

lemma written_accepted:
  assumes "reads_entry e ae" and "written_resource env r e" and "ar_blocks a = ae_blocks ae"
    and "distinct (map cfg_title secs)" and "r \<in> set secs" and "cfg_title r \<notin> S"
    and "ve_blake2b_256 ve = ce_blake2b_256 env" and "\<forall>b. length (ce_blake2b_256 env b) = 32"
  shows "\<exists>a'. check_resource ve (cfg_title r) ae (a, seen secs S) = (Inr (), (a', seen secs (insert (cfg_title r) S))) \<and>
    ar_entries a' = ar_entries a"
proof -
  obtain i where i: "i < length (seen secs S)" "rlist_find_by_name (seen secs S) (cfg_title r) = Some i"
    "seen secs S ! i = \<lparr>ri_resource = r, processed = False\<rparr>" "set_processed i (seen secs S) = seen secs (insert (cfg_title r) S)"
    using find_seen [OF assms(4,5), of S] assms(6) by auto
  have item: "seen secs (insert (cfg_title r) S) ! i = \<lparr>ri_resource = r, processed = True\<rparr>"
    using i(1,3) by (simp flip: i(4) add: set_processed_def)
  obtain sfm where m: "sparse_file_get_map_from_resource r = Inr sfm" "sparse_file_data_size sfm = Inr (int (length (ze_data e)))"
    using assms(2) by (auto simp: written_resource_def data_size_is_def bind_res_eq_Inr)
  have sz: "ae_size ae = Some (int (length (ze_data e)))" "contiguous 0 (ar_blocks a)" "data_of (ar_blocks a) = ze_data e"
    using assms(1-3) by (auto simp: reads_entry_def written_resource_def)
  have h: "cfg_getstr r ''blake2b-256'' = Some (bytes_to_hex (ve_blake2b_256 ve (ze_data e)))"
    using assms(2,7) by (simp add: written_resource_def)
  have l: "length (ve_blake2b_256 ve b) = 32" for b using assms(7,8) by simp
  have p: "process_entry a = (Inr (ze_data e), a\<lparr>ar_blocks := []\<rparr>)"
    using contiguous_loop [OF sz(2), of "[]"] sz(3) by (simp add: process_entry_def on_blocks_def)
  have "check_normal_resource ve \<lparr>ri_resource = r, processed = True\<rparr> (int (length (ze_data e))) a = (Inr (), a\<lparr>ar_blocks := []\<rparr>)"
    using h l by (simp add: check_normal_resource_def ok_then_def p get_expected_hash_def)
  then show ?thesis using i item m sz(1)
    by (simp add: check_resource_def Let_def archive_entry_size_is_set_def archive_entry_size_def)
qed

lemma written_loop:
  assumes "list_all2 (written_resource env) rs es" and "list_all2 reads_entry es (ar_entries a)"
    and "distinct (map cfg_title secs)" and "set rs \<subseteq> set secs" and "distinct (map cfg_title rs)" and "cfg_title ` set rs \<inter> S = {}"
    and "ve_blake2b_256 ve = ce_blake2b_256 env" and "\<forall>b. length (ce_blake2b_256 env b) = 32"
  shows "\<exists>a'. verify_loop ve (a, seen secs S) = (Inr (), (a', seen secs (cfg_title ` set rs \<union> S)))"
  using assms(1,2,4-6)
proof (induction rs arbitrary: es a S)
  case Nil
  then show ?case by (subst verify_loop.simps) (auto simp: archive_read_next_header_def)
next
  case (Cons r rs)
  obtain e es' ae aes where e: "es = e # es'" "written_resource env r e" "list_all2 (written_resource env) rs es'"
    and ae: "ar_entries a = ae # aes" "reads_entry e ae" "list_all2 reads_entry es' aes"
    using Cons.prems(1,2) by (auto simp: list_all2_Cons1)
  let ?a = "\<lparr>ar_entries = aes, ar_blocks = ae_blocks ae, ar_reads = ae_reads ae\<rparr>"
  have t: "archive_filename_to_resource (ae_pathname ae) FWFILE_MAX_ARCHIVE_PATH = Inr (cfg_title r)"
    using archive_path_inverse [of "cfg_title r" "ze_pathname e"] e(2) ae(2) by (auto simp: written_resource_def reads_entry_def)
  have ne: "cfg_title r \<noteq> []" using e(2) by (auto simp: written_resource_def resource_name_to_archive_path_def split: if_splits)
  have rs: "r \<in> set secs" "cfg_title r \<notin> S" using Cons.prems(3,5) by auto
  obtain a' where a': "check_resource ve (cfg_title r) ae (?a, seen secs S) = (Inr (), (a', seen secs (insert (cfg_title r) S)))"
      "ar_entries a' = aes"
    using written_accepted [OF ae(2) e(2) _ assms(3) rs assms(7,8), of ?a] by auto
  have "list_all2 reads_entry es' (ar_entries a')" using ae(3) a'(2) by simp
  moreover have "set rs \<subseteq> set secs" "distinct (map cfg_title rs)" using Cons.prems(3,4) by auto
  moreover have "cfg_title ` set rs \<inter> insert (cfg_title r) S = {}" using Cons.prems(4,5) by auto
  ultimately obtain a'' where
    "verify_loop ve (a', seen secs (insert (cfg_title r) S)) = (Inr (), (a'', seen secs (cfg_title ` set rs \<union> insert (cfg_title r) S)))"
    using Cons.IH [OF e(3)] by blast
  then show ?case using ae(1) t ne a'(1)
    by (subst verify_loop.simps) (simp add: archive_read_next_header_def Un_insert_right)
qed

lemma create_archive_entries:
  assumes "fwup_create env (Inr c0) outfile key = (Inr u, Some zo)" and "compute_file_metadata env c0 = Inr c"
    and "zip_ok (ce_zip env)" and "signatures_ok env" and "\<forall>sec \<in> set (cfg_secs c0 ''file-resource''). host_ok env sec"
  shows "\<exists>es. zo_entries zo = meta_entries env key (meta_conf_text env c) @ es \<and>
    list_all2 (written_resource env) (cfg_secs c ''file-resource'') es \<and>
    map cfg_title (cfg_secs c ''file-resource'') = map cfg_title (cfg_secs c0 ''file-resource'')"
proof -
  have "create_archive env c outfile key = (Inr u, Some zo)" using assms(1,2) by (simp add: fwup_create_def)
  then have "ok_then (fwfile_add_meta_conf env c key) (\<lambda>_. add_file_resources env c) new_zip = (Inr u, zo)"
    by (auto simp: create_archive_def split: if_splits prod.splits)
  then obtain v zo1 where m: "fwfile_add_meta_conf env c key new_zip = (Inr v, zo1)" and r: "add_file_resources env c zo1 = (Inr u, zo)"
    by (rule ok_then_Inr_E)
  have z1: "zo_entries zo1 = meta_entries env key (meta_conf_text env c)"
    using meta_conf_written [OF m [unfolded fwfile_add_meta_conf_def] assms(3,4)] by (simp add: new_zip_def)
  obtain secs where s: "metadata_loop env (cfg_secs c0 ''file-resource'') = Inr secs" "cfg_secs c ''file-resource'' = secs"
    using assms(2) by (auto simp: compute_file_metadata_def bind_res_eq_Inr cfg_set_secs_def)
  from resources_written [OF s(1) r [unfolded add_file_resources_def s(2)] assms(5,3)] show ?thesis using z1 s(2) by auto
qed

lemma created_archive_accepted:
  assumes "fwup_create env (Inr c0) outfile key = (Inr u, Some zo)" and "compute_file_metadata env c0 = Inr c"
    and "zip_ok (ce_zip env)" and "signatures_ok env" and "\<forall>sec \<in> set (cfg_secs c0 ''file-resource''). host_ok env sec"
    and "distinct (map cfg_title (cfg_secs c0 ''file-resource''))"
    and "\<forall>b. length (ce_blake2b_256 env b) = 32" and "ve_blake2b_256 ve = ce_blake2b_256 env"
    and "key_pair (ve_meta ve) env key public_keys"
    and "10 \<le> length (meta_conf_text env c)" and "length (meta_conf_text env c) < 50000"
    and "\<forall>ae. ae_mtime ae = Some (ce_creation_time env) \<longrightarrow>
           (\<exists>c'. parse_meta (ve_meta ve) ae (meta_conf_text env c) = Inr c' \<and> same_resources c c')"
    and "reads_zip zo a"
  shows "fwup_verify ve (Some infile) public_keys (Inr a) = Inr (success_message (public_keys \<noteq> []) (key \<noteq> None))"
proof -
  obtain es where es: "zo_entries zo = meta_entries env key (meta_conf_text env c) @ es"
    "list_all2 (written_resource env) (cfg_secs c ''file-resource'') es"
    "map cfg_title (cfg_secs c ''file-resource'') = map cfg_title (cfg_secs c0 ''file-resource'')"
    using create_archive_entries [OF assms(1-5)] by blast
  have "list_all2 reads_entry (meta_entries env key (meta_conf_text env c) @ es) (ar_entries a)"
    using assms(13) es(1) by (simp add: reads_zip_def)
  from meta_conf_read [OF this assms(4,9-11)] obtain ae a1 where
    r: "read_meta (ve_meta ve) public_keys a = (parse_meta (ve_meta ve) ae (meta_conf_text env c), a1)"
      "ae_mtime ae = Some (ce_creation_time env)" "list_all2 reads_entry es (ar_entries a1)" "is_signed a = (key \<noteq> None)" by blast
  obtain c' where c': "parse_meta (ve_meta ve) ae (meta_conf_text env c) = Inr c'" "same_resources c c'"
    using assms(12) r(2) by blast
  let ?rs = "cfg_secs c' ''file-resource''"
  have sr: "list_all2 same_resource (cfg_secs c ''file-resource'') ?rs" using c'(2) by (simp add: same_resources_def)
  have ts: "map cfg_title ?rs = map cfg_title (cfg_secs c ''file-resource'')"
    using sr by (auto simp: list_all2_conv_all_nth same_resource_def intro: nth_equalityI)
  have w: "list_all2 (written_resource env) ?rs es"
    by (rule list_written_same [OF sr es(2)])
  have d: "distinct (map cfg_title ?rs)" using ts es(3) assms(6) by simp
  obtain a2 where l: "verify_loop ve (a1, seen ?rs {}) = (Inr (), (a2, seen ?rs (cfg_title ` set ?rs \<union> {})))"
    using written_loop [OF w r(3) d _ d _ assms(8,7), of "{}"] by auto
  have "list_all processed (seen ?rs (cfg_title ` set ?rs \<union> {}))" by (auto simp: seen_def list_all_iff)
  then show ?thesis using r(1,4) c'(1) l
    by (simp add: fwup_verify_def ok_then_def rlist_seen all_processed_def)
qed


definition sample_cfg :: "cfg list \<Rightarrow> cfg" where
  "sample_cfg secs = Cfg [] (\<lambda>_. 0) (\<lambda>_. []) (\<lambda>_. None) (\<lambda>_. []) (\<lambda>_. False) (\<lambda>k. if k = ''file-resource'' then secs else [])"

definition sample_meta_cfg :: cfg where
  "sample_meta_cfg = cfg_set_secs (sample_cfg [sample_sec]) ''file-resource'' [sample_sec']"

definition sample_text :: "byte list" where
  "sample_text = string_bytes (''block-cache-size-mb=0'' @ newline @ ''file-resource '' @ [dquote] @ ''rootfs'' @ [dquote] @ '' {'' @ newline @
     ''length={0,2,1}'' @ newline @ ''blake2b-256='' @ bytes_to_hex (replicate 32 7) @ newline @ ''}'' @ newline)"

definition sample_zip_out :: zip_out where
  "sample_zip_out = \<lparr>zo_entries = meta_entries sample_env (Some [7]) sample_text @
     [\<lparr>ze_pathname = ''data/rootfs'', ze_size = Some 1, ze_mtime = None, ze_data = [7]\<rparr>], zo_in_entry = True\<rparr>"

definition sample_archive :: archive where
  "sample_archive = \<lparr>ar_entries =
     [\<lparr>ae_pathname = ''meta.conf.ed25519'', ae_size = Some 64, ae_mtime = None,
        ae_blocks = [Block (signature_of sample_env [7] sample_text) 0], ae_reads = [Inr (signature_of sample_env [7] sample_text)]\<rparr>,
      \<lparr>ae_pathname = ''meta.conf'', ae_size = Some 141, ae_mtime = Some 0, ae_blocks = [Block sample_text 0], ae_reads = [Inr sample_text]\<rparr>,
      \<lparr>ae_pathname = ''data/rootfs'', ae_size = Some 1, ae_mtime = None, ae_blocks = [Block [7] 0], ae_reads = [Inr [7]]\<rparr>],
     ar_blocks = [], ar_reads = []\<rparr>"

definition sample_verify_env :: "echo_stream verify_env" where
  "sample_verify_env = toy_verify_env\<lparr>ve_meta := toy_meta_env (\<lambda>k. if k = ''file-resource'' then [sample_sec'] else []),
     ve_blake2b_256 := ce_blake2b_256 sample_env\<rparr>"

lemma sample_zip_ok: "zip_ok (ce_zip sample_env)"
  by (simp add: zip_ok_def headers_accepted_def sample_env_def sample_zip_def)

lemma sample_signatures: "signatures_ok sample_env"
  by (simp add: signatures_ok_def sample_env_def min_def)

lemma sample_computed: "compute_file_metadata sample_env (sample_cfg [sample_sec]) = Inr sample_meta_cfg"
  by (simp add: compute_file_metadata_def sample_meta_cfg_def sample_cfg_def sample_metadata)

lemma sample_plain_hash: "\<not> needs_escaping (bytes_to_hex (replicate 32 7))" "bytes_to_hex (replicate 32 7) \<noteq> []"
  by code_simp+

lemma sample_show: "show_int 0 = ''0''" "show_int 1 = ''1''" "show_int 2 = ''2''"
  by code_simp+

lemma sample_meta_text: "meta_conf_text sample_env sample_meta_cfg = sample_text" "length sample_text = 141"
proof -
  have m: "\<forall>n. ce_malloc sample_env n" by (simp add: sample_env_def)
  have sec: "cfg_secs sample_meta_cfg k = (if k = ''file-resource'' then [sample_sec'] else [])"
    "cfg_getstr sample_meta_cfg k = None" "cfg_getint sample_meta_cfg k = 0" for k
    by (simp_all add: sample_meta_cfg_def cfg_set_secs_def sample_cfg_def)
  have res: "cfg_getstr sample_sec' k = (if k = ''blake2b-256'' then Some (bytes_to_hex (replicate 32 7)) else if k = ''host-path'' then Some ''image'' else None)"
    "cfg_title sample_sec' = ''rootfs''" "cfg_getint sample_sec' k = - 1" for k
    by (simp_all add: sample_sec'_def sample_sec_def)
  have b: "cfg_getbool sample_sec' k = (k = ''skip-holes'')" for k
    by (simp add: sample_sec'_def sparse_file_set_map_in_resource_def map_entries_def cfg_setnint_def sample_sec_def cfg_setstr_def Let_def)
  show "meta_conf_text sample_env sample_meta_cfg = sample_text"
    by (simp add: meta_conf_text_def fwup_cfg_to_string_render [OF m] sample_text_def opts_def file_resource_opts_def CFG_IGNORE_UNKNOWN_def
        sec res b sample_ints render_one_def render_list_def render_section_def cfg_is_default_def scrubbed_def scrubbed_names_def render_value_def
        section_header_def sample_plain_hash sample_show)
  show "length sample_text = 141" by (simp add: sample_text_def newline_def)
qed

lemma sample_signature: "k \<noteq> [] \<Longrightarrow> hd k = 7 \<Longrightarrow> signature_of sample_env k t = signature_of sample_env [7] t"
  by (cases k) (simp_all add: signature_of_def sample_env_def FWUP_PRIVATE_KEY_LEN_def)

lemma sample_signature_length: "length (signature_of sample_env k t) = 64"
  using sample_signatures by (simp add: signatures_ok_def signature_of_def)

lemma sample_created:
  assumes "k \<noteq> []" and "hd k = 7"
  shows "fwup_create sample_env (Inr (sample_cfg [sample_sec])) name (Some k) = (Inr (), Some sample_zip_out)"
proof -
  let ?c = sample_meta_cfg
  have f: "zl_store (ce_zip sample_env) zo" "zl_deflate (ce_zip sample_env) zo" "zl_format (ce_zip sample_env)" "zl_open (ce_zip sample_env) s" for zo s
    by (simp_all add: sample_env_def sample_zip_def)
  obtain zo1 where m: "fwfile_add_meta_conf sample_env ?c (Some k) new_zip = (Inr (), zo1)"
    by (simp add: fwfile_add_meta_conf_def fwfile_add_meta_conf_str_def write_signature_def ok_then_def f Let_def)
  have z1: "zo1 = \<lparr>zo_entries = meta_entries sample_env (Some [7]) sample_text, zo_in_entry = True\<rparr>"
    using meta_conf_written [OF m [unfolded fwfile_add_meta_conf_def] sample_zip_ok sample_signatures] assms
    by (simp add: sample_meta_text new_zip_def meta_entries_def sample_signature [OF assms])
  have s: "cfg_secs ?c ''file-resource'' = [sample_sec']" by (simp add: sample_meta_cfg_def cfg_set_secs_def)
  have "add_file_resources sample_env ?c zo1 = (Inr (), sample_zip_out)"
    by (simp add: add_file_resources_def s ok_then_def sample_added_to z1 sample_zip_out_def)
  then show ?thesis using m by (simp add: fwup_create_def sample_computed create_archive_def f ok_then_def)
qed

lemma sample_host: "\<forall>sec \<in> set (cfg_secs (sample_cfg [sample_sec]) ''file-resource''). host_ok sample_env sec"
proof -
  have "paths_open sample_env sample_sec [''image''] (host_fds sample_fs)" by (simp add: sample_env_def sample_fs_def sample_paths)
  moreover have "files_ok sample_fs" by (simp add: files_ok_def sample_fs_def)
  moreover have "cfg_getstr sample_sec ''host-path'' = Some ''image''" "cfg_ints sample_sec ''length'' = []" by (simp_all add: sample_sec_def)
  ultimately have "host_ok sample_env sample_sec" unfolding host_ok_def by (auto simp: sample_paths)
  then show ?thesis by (simp add: sample_cfg_def)
qed

lemma sample_checked: "hd k = 7 \<Longrightarrow> ed25519_check (ve_meta sample_verify_env) (signature_of sample_env [7] t) k t"
  by (simp add: sample_verify_env_def toy_meta_env_def signature_of_def sample_env_def FWUP_PRIVATE_KEY_LEN_def)

lemma sample_parsed:
  "\<forall>ae. ae_mtime ae = Some (ce_creation_time sample_env) \<longrightarrow>
     (\<exists>c'. parse_meta (ve_meta sample_verify_env) ae (meta_conf_text sample_env sample_meta_cfg) = Inr c' \<and> same_resources sample_meta_cfg c')"
  by (simp add: sample_verify_env_def toy_parse same_resources_def sample_meta_cfg_def cfg_set_secs_def toy_cfg_def same_resource_def)

lemma sample_read_back: "reads_zip sample_zip_out sample_archive"
proof -
  have sign: "signature_of sample_env [7] sample_text \<noteq> []" using sample_signature_length [of "[7]" sample_text] by auto
  have tl: "sample_text \<noteq> []" using sample_meta_text(2) by auto
  have b: "data_of [Block d 0] = d" "reads_hold [Inr d] d \<longleftrightarrow> d \<noteq> []" for d
    by (auto simp: data_of_def block_bytes_def reads_hold_def intro: exI [of _ "[d]"])
  show ?thesis
    using sample_signature_length sign tl sample_meta_text(2)
    by (simp add: reads_zip_def sample_zip_out_def sample_archive_def meta_entries_def reads_entry_def b sample_env_def [THEN arg_cong [where f = ce_creation_time]])
qed

lemma sample_hashes: "ve_blake2b_256 sample_verify_env = ce_blake2b_256 sample_env" "length (ce_blake2b_256 sample_env b) = 32"
  by (simp_all add: sample_verify_env_def sample_env_def)


section \<open>Signing an archive that exists\<close>

text \<open>An entry and its copy: the same name and size, and as much data as the size says.\<close>

definition signed_copy :: "archive_entry \<Rightarrow> zip_entry \<Rightarrow> bool" where
  "signed_copy ae e \<longleftrightarrow> ze_pathname e = ae_pathname ae \<and> ze_size e = ae_size ae \<and>
     ze_data e = take (nat (archive_entry_size ae)) (entry_data (ae_reads ae)) \<and> length (ze_data e) = nat (archive_entry_size ae)"

lemma copy_loop_Inr:
  "copy_loop lib n rs zo = (Inr rs', zo') \<Longrightarrow>
   zo' = append_data (take (nat n) (entry_data rs)) zo \<and> nat n \<le> length (entry_data rs)"
proof (induction lib n rs zo rule: copy_loop.induct)
  case (1 lib n zo)
  then show ?case by (auto simp: append_data_Nil split: if_splits)
next
  case (2 lib n r rs zo)
  show ?case
  proof (cases "n > 0")
    case False
    then show ?thesis using "2.prems" by (simp add: append_data_Nil)
  next
    case True
    let ?to_read = "if 4096 > n then n else 4096"
    obtain b where r: "r = Inr b" using "2.prems" True by (cases r) (auto simp: Let_def)
    have b: "b \<noteq> []" "int (length b) \<le> ?to_read" using "2.prems" True r by (auto simp: Let_def split: if_splits)
    obtain w zo1 where w: "archive_write_data lib b zo = (w, zo1)" by fastforce
    have l: "w = int (length b)" "copy_loop lib (n - int (length b)) rs zo1 = (Inr rs', zo')"
      using "2.prems" True r b w by (auto simp: Let_def split: if_splits)
    have z1: "zo1 = append_data b zo" using w l(1) by (auto simp: archive_write_data_def Let_def)
    have ih: "zo' = append_data (take (nat (n - int (length b))) (entry_data rs)) zo1 \<and> nat (n - int (length b)) \<le> length (entry_data rs)"
      using "2.IH" [OF _ refl r b(1) _ w [symmetric]] True b(2) l by auto
    have "int (length b) \<le> n" using b(2) by (auto split: if_splits)
    then have s: "nat (n - int (length b)) = nat n - length b" "length b \<le> nat n" by linarith+
    then show ?thesis using ih z1 r b(1) by (auto simp: append_data_append)
  qed
qed

lemma copy_entry_Inr:
  assumes "copy_entry lib ae (a, zo) = (Inr u, (a', zo'))" and "ar_reads a = ae_reads ae"
  shows "\<exists>e. zo_entries zo' = zo_entries zo @ [e] \<and> signed_copy ae e"
proof -
  let ?e = "new_entry (ae_pathname ae) (ae_size ae) None"
  let ?zo = "\<lparr>zo_entries = zo_entries zo @ [?e\<lparr>ze_data := []\<rparr>], zo_in_entry = True\<rparr>"
  have h: "archive_write_header lib ?e zo = (True, ?zo)"
    using assms(1) by (auto simp: copy_entry_def archive_write_header_def split: if_splits)
  obtain rs where l: "copy_loop lib (archive_entry_size ae) (ae_reads ae) ?zo = (Inr rs, zo')"
    using assms h by (auto simp: copy_entry_def split: prod.splits sum.splits)
  note c = copy_loop_Inr [OF l]
  then have "zo_entries zo' = zo_entries zo @ [?e\<lparr>ze_data := take (nat (archive_entry_size ae)) (entry_data (ae_reads ae))\<rparr>]"
    by (simp add: append_data_new)
  then show ?thesis using c by (auto simp: signed_copy_def new_entry_def)
qed

definition is_signature :: "archive_entry \<Rightarrow> bool" where
  "is_signature ae \<longleftrightarrow> ae_pathname ae = ''meta.conf.ed25519''"

lemma sign_loop_after:
  "sign_loop env key (Some t) (a, zo) = (Inr r, (a', zo')) \<Longrightarrow>
   r = Some t \<and> (\<forall>ae \<in> set (ar_entries a). ae_pathname ae \<noteq> ''meta.conf'') \<and>
   (\<exists>es. zo_entries zo' = zo_entries zo @ es \<and> list_all2 signed_copy (filter (\<lambda>ae. \<not> is_signature ae) (ar_entries a)) es)"
proof (induction "ar_entries a" arbitrary: a zo)
  case Nil
  then show ?case by (subst (asm) sign_loop.simps) (auto simp: archive_read_next_header_def)
next
  case (Cons ae aes)
  let ?a = "\<lparr>ar_entries = aes, ar_blocks = ae_blocks ae, ar_reads = ae_reads ae\<rparr>"
  have hd: "archive_read_next_header a = (Some ae, ?a)" using Cons.hyps(2) [symmetric] by (simp add: archive_read_next_header_def)
  obtain t1 a1 zo1 where s: "sign_entry env key ae (Some t) (?a, zo) = (Inr t1, (a1, zo1))"
    and l: "sign_loop env key t1 (a1, zo1) = (Inr r, (a', zo'))"
    using Cons.prems hd by (subst (asm) sign_loop.simps) (auto split: prod.splits sum.splits)
  have e1: "ar_entries a1 = aes" using sign_entry_entries [OF s] by simp
  have t1: "t1 = Some t" and nm: "ae_pathname ae \<noteq> ''meta.conf''"
    using s by (auto simp: sign_entry_def ok_then_def split: if_splits prod.splits sum.splits)
  obtain es where es: "r = Some t" "\<forall>ae \<in> set aes. ae_pathname ae \<noteq> ''meta.conf''" "zo_entries zo' = zo_entries zo1 @ es"
      "list_all2 signed_copy (filter (\<lambda>ae. \<not> is_signature ae) aes) es"
    using Cons.hyps(1) [OF e1 [symmetric] l [unfolded t1]] e1 by auto
  show ?case
  proof (cases "is_signature ae")
    case True
    then have "zo1 = zo" using s by (simp add: sign_entry_def is_signature_def)
    then show ?thesis using es nm True Cons.hyps(2) [symmetric] by auto
  next
    case False
    then have "ok_then (copy_entry (ce_zip env) ae) (\<lambda>_ s. (Inr (Some t), s)) (?a, zo) = (Inr t1, (a1, zo1))"
      using s nm by (simp add: sign_entry_def is_signature_def)
    then obtain u where "copy_entry (ce_zip env) ae (?a, zo) = (Inr u, (a1, zo1))" by (auto elim!: ok_then_Inr_E)
    from copy_entry_Inr [OF this] obtain e where "zo_entries zo1 = zo_entries zo @ [e]" "signed_copy ae e" by auto
    then show ?thesis using es nm False Cons.hyps(2) [symmetric] by (auto intro!: exI [of _ "e # es"])
  qed
qed

lemma sign_meta_conf_Inr:
  assumes "sign_meta_conf env key ae (a, zo) = (Inr t, (a', zo'))" and "ar_reads a = ae_reads ae"
    and "zip_ok (ce_zip env)" and "signatures_ok env"
  shows "meta_text t (entry_data (ae_reads ae)) \<and> zo_entries zo' = zo_entries zo @ meta_entries env (Some key) t"
proof -
  obtain a1 where r: "archive_read_all_data ae 50000 a = (Inr t, a1)" and l: "\<not> (int (length t) < 10 \<or> int (length t) \<ge> 50000)"
    and m: "fwfile_add_meta_conf_str env t (Some key) zo = (Inr (), zo')"
    using assms(1) by (auto simp: sign_meta_conf_def split: prod.splits sum.splits error.splits if_splits)
  obtain k where "t = take k (entry_data (ae_reads ae))" using read_all_data_Inr [OF r] assms(2) by auto
  then have "meta_text t (entry_data (ae_reads ae))" unfolding meta_text_def using l by auto
  then show ?thesis using meta_conf_written [OF m assms(3,4)] by simp
qed

lemma sign_loop_before:
  "sign_loop env key None (a, zo) = (Inr (Some t), (a', zo')) \<Longrightarrow> zip_ok (ce_zip env) \<Longrightarrow> signatures_ok env \<Longrightarrow>
   \<exists>sigs ae rest es. ar_entries a = sigs @ ae # rest \<and> list_all is_signature sigs \<and> ae_pathname ae = ''meta.conf'' \<and>
     meta_text t (entry_data (ae_reads ae)) \<and> (\<forall>x \<in> set rest. ae_pathname x \<noteq> ''meta.conf'') \<and>
     zo_entries zo' = zo_entries zo @ meta_entries env (Some key) t @ es \<and> list_all2 signed_copy (filter (\<lambda>x. \<not> is_signature x) rest) es"
proof (induction "ar_entries a" arbitrary: a zo)
  case Nil
  then show ?case by (subst (asm) sign_loop.simps) (auto simp: archive_read_next_header_def)
next
  case (Cons ae aes)
  let ?a = "\<lparr>ar_entries = aes, ar_blocks = ae_blocks ae, ar_reads = ae_reads ae\<rparr>"
  have hd: "archive_read_next_header a = (Some ae, ?a)" using Cons.hyps(2) [symmetric] by (simp add: archive_read_next_header_def)
  obtain t1 a1 zo1 where s: "sign_entry env key ae None (?a, zo) = (Inr t1, (a1, zo1))"
    and l: "sign_loop env key t1 (a1, zo1) = (Inr (Some t), (a', zo'))"
    using Cons.prems(1) hd by (subst (asm) sign_loop.simps) (auto split: prod.splits sum.splits)
  have e1: "ar_entries a1 = aes" using sign_entry_entries [OF s] by simp
  show ?case
  proof (cases "is_signature ae")
    case True
    then have z: "zo1 = zo" "t1 = None" using s by (simp_all add: sign_entry_def is_signature_def)
    obtain sigs ae' rest es where r: "aes = sigs @ ae' # rest" "list_all is_signature sigs" "ae_pathname ae' = ''meta.conf''"
     "meta_text t (entry_data (ae_reads ae'))" "\<forall>x \<in> set rest. ae_pathname x \<noteq> ''meta.conf''"
     "zo_entries zo' = zo_entries zo @ meta_entries env (Some key) t @ es" "list_all2 signed_copy (filter (\<lambda>x. \<not> is_signature x) rest) es"
      using Cons.hyps(1) [OF e1 [symmetric] l [unfolded z] Cons.prems(2,3)] e1 by auto
    then show ?thesis using True Cons.hyps(2) [symmetric]
      by (intro exI [of _ "ae # sigs"] exI [of _ ae'] exI [of _ rest] exI [of _ es]) simp
  next
    case False
    then have p: "ae_pathname ae = ''meta.conf''"
      and "ok_then (sign_meta_conf env key ae) (\<lambda>t s. (Inr (Some t), s)) (?a, zo) = (Inr t1, (a1, zo1))"
      using s by (auto simp: sign_entry_def is_signature_def split: if_splits)
    from this(2) obtain t2 where m: "sign_meta_conf env key ae (?a, zo) = (Inr t2, (a1, zo1))" "t1 = Some t2"
      by (auto elim!: ok_then_Inr_E)
    note mm = sign_meta_conf_Inr [OF m(1) _ Cons.prems(2,3)]
    obtain es where "t2 = t" "\<forall>x \<in> set aes. ae_pathname x \<noteq> ''meta.conf''" "zo_entries zo' = zo_entries zo1 @ es"
      "list_all2 signed_copy (filter (\<lambda>x. \<not> is_signature x) aes) es"
      using sign_loop_after [OF l [unfolded m(2)]] e1 by auto
    then show ?thesis using mm p Cons.hyps(2) [symmetric]
      by (intro exI [of _ "[]"] exI [of _ ae] exI [of _ aes] exI [of _ es]) simp
  qed
qed


lemma sample_meta_added:
  "fwfile_add_meta_conf_str sample_env t (Some [7]) zo = (Inr (), \<lparr>zo_entries = zo_entries zo @ meta_entries sample_env (Some [7]) t, zo_in_entry = True\<rparr>)"
proof -
  have "\<exists>zo'. fwfile_add_meta_conf_str sample_env t (Some [7]) zo = (Inr (), zo')"
    by (simp add: fwfile_add_meta_conf_str_def write_signature_def ok_then_def sample_env_def sample_zip_def Let_def)
  then show ?thesis using meta_conf_written [OF _ sample_zip_ok sample_signatures] by blast
qed

lemma sample_signed: "fwup_sign sample_env True (Some ''a.fw'') (Some ''b.fw'') (Some [7]) (Inr sample_archive) = Inr sample_zip_out"
proof -
  have h: "zl_header (ce_zip sample_env) zo e" "zl_data (ce_zip sample_env) zo b = int (length b)" "zl_format (ce_zip sample_env)" "zl_open (ce_zip sample_env) p" for zo e b p
    by (simp_all add: sample_env_def sample_zip_def)
  have tl: "0 < length sample_text" using sample_meta_text(2) by simp
  have n: "sample_text \<noteq> []" using tl by auto
  show ?thesis
    by (simp add: fwup_sign_def h sample_archive_def sign_loop.simps archive_read_next_header_def sign_entry_def sign_meta_conf_def ok_then_def
        archive_read_all_data_def archive_entry_size_is_set_def archive_entry_size_def sample_meta_text n sample_meta_added copy_entry_def
        archive_write_header_def archive_write_data_def new_entry_def append_data_def new_zip_def sample_zip_out_def Let_def)
qed


end
