(* ===== verification/Call_List.thy ===== *)
theory Call_List
  imports Requirement
begin

text \<open>
  The interface between the configuration and the lists of calls that a task runs. The
  configuration file notes every accepted call of an event as its number of words and its words; a
  runner takes such a list apart and gives every call to a function. A runner relies on nothing but
  the two laws below, and the functions and the requirements of a task are run by two of them.
\<close>

definition encode_call :: "string list \<Rightarrow> string list" where
  "encode_call argv = show_nat (length argv) # argv"

definition callable :: "string list \<Rightarrow> bool" where
  "callable argv \<longleftrightarrow> argv \<noteq> [] \<and> length argv \<le> FUN_MAX_ARGS"

primrec run_calls :: "('w, 'd, unit) step \<Rightarrow> string list list \<Rightarrow> ('w, 'd, unit) step" where
  "run_calls f [] = ret ()"
| "run_calls f (argv # calls) = (\<lambda>ctx. ok_then f (\<lambda>_. run_calls f calls) (ctx\<lparr>fc_argv := argv\<rparr>))"

locale call_runner =
  fixes run_list :: "('w, 'd, unit) step \<Rightarrow> string list \<Rightarrow> ('w, 'd, unit) step"
  assumes run_end: "run_list f [] ctx = (Inr (), ctx)"
    and run_call: "callable argv \<Longrightarrow>
      run_list f (encode_call argv @ rest) ctx = ok_then f (\<lambda>_. run_list f rest) (ctx\<lparr>fc_argv := argv\<rparr>)"
begin

lemma runs_calls:
  "list_all callable calls \<Longrightarrow> run_list f (concat (map encode_call calls)) ctx = run_calls f calls ctx"
proof (induction calls arbitrary: ctx)
  case Nil
  then show ?case by (simp add: run_end ret_def)
next
  case (Cons argv calls)
  then have "run_list f (encode_call argv @ concat (map encode_call calls)) ctx =
      ok_then f (\<lambda>_. run_list f (concat (map encode_call calls))) (ctx\<lparr>fc_argv := argv\<rparr>)"
    by (simp add: run_call)
  then show ?case using Cons by (simp add: ok_then_def split: prod.splits sum.splits)
qed

end

lemma arity_show_nat: "n < 2 ^ 31 \<Longrightarrow> arity (show_nat n) = int n"
proof -
  assume n: "n < 2 ^ 31"
  have v: "strtoull (show_nat n @ []) = (of_nat n, [], False)"
    by (rule strtoull_show_nat) (use n in \<open>simp_all add: ends_number_def\<close>)
  have "uint (of_nat n :: u64) = int n" using n by (simp add: unsigned_of_nat take_bit_nat_eq_self)
  moreover have "sint (of_nat n :: u32) = int n" using n by (simp add: signed_of_nat signed_take_bit_int_eq_self)
  ultimately show ?thesis using v by (simp add: arity_def strtoull_value_def to_int32_def)
qed

lemma arity_callable: "callable argv \<Longrightarrow> arity (show_nat (length argv)) = int (length argv) \<and> 0 < length argv \<and> length argv \<le> FUN_MAX_ARGS"
  using arity_show_nat [of "length argv"] by (auto simp: callable_def FUN_MAX_ARGS_def)

interpretation function_calls: call_runner fun_apply_funlist
proof
  fix argv rest :: "string list" and f :: "('w, 'd, unit) step" and ctx :: "('w, 'd) fun_context"
  assume "callable argv"
  from arity_callable [OF this]
  show "fun_apply_funlist f (encode_call argv @ rest) ctx = ok_then f (\<lambda>_. fun_apply_funlist f rest) (ctx\<lparr>fc_argv := argv\<rparr>)"
    by (simp add: encode_call_def fun_apply_funlist.simps ok_then_def Let_def split: prod.splits sum.splits)
qed (simp add: fun_apply_funlist.simps)

interpretation requirement_calls: call_runner req_apply_reqlist
proof
  fix argv rest :: "string list" and f :: "('w, 'd, unit) step" and ctx :: "('w, 'd) fun_context"
  assume "callable argv"
  from arity_callable [OF this]
  show "req_apply_reqlist f (encode_call argv @ rest) ctx = ok_then f (\<lambda>_. req_apply_reqlist f rest) (ctx\<lparr>fc_argv := argv\<rparr>)"
    by (simp add: encode_call_def req_apply_reqlist.simps ok_then_def Let_def split: prod.splits sum.splits)
qed (simp add: req_apply_reqlist.simps)

end
