(* ===== verification/Cfg_File.thy ===== *)
theory Cfg_File
  imports Call_List Fw_Create Eval_Math
begin

text \<open>
  Reading a configuration file (\<open>cfgfile.c\<close>). libconfuse reads the text and is a parameter; modelled are
  the callbacks it runs: for every function, which notes the calls of events and requirements
  or changes the environment, and for every section that was read, which checks it.
  A failure of a callback ends the parse.
\<close>

section \<open>Calls of events and requirements\<close>

text \<open>\<open>cfg_addlist\<close> of libconfuse: values are added at the end of a list.\<close>

definition cfg_addlist :: "cfg \<Rightarrow> string \<Rightarrow> string list \<Rightarrow> cfg" where
  "cfg_addlist c k vs = Cfg (cfg_title c) (cfg_getint c) (cfg_ints c) (cfg_getstr c)
     ((cfg_strs c)(k := cfg_strs c k @ vs)) (cfg_getbool c) (cfg_secs c)"

lemma cfg_addlist_sel [simp]: "cfg_strs (cfg_addlist c k vs) k = cfg_strs c k @ vs"
  by (simp add: cfg_addlist_def)

text \<open>
  The check of a call: \<open>zeroed\<close> is the context after \<open>memset\<close>, in which nothing but the type, the
  configuration, the section and the words are set. What the check leaves in the context is dropped.
\<close>

definition check_call :: "('w, 'd, unit) step \<Rightarrow> ('w, 'd) fun_context \<Rightarrow> fun_context_type \<Rightarrow> cfg \<Rightarrow> cfg \<Rightarrow> string \<Rightarrow> string list \<Rightarrow> unit res" where
  "check_call validate zeroed ctype toplevel_cfg c name argv =
     (if length argv + 1 > FUN_MAX_ARGS then Inl (Msg ''Too many arguments passed'')
      else fst (validate (zeroed\<lparr>fc_type := ctype, fc_cfg := toplevel_cfg, fc_task := c, fc_argv := name # argv\<rparr>)))"

definition add_call :: "string \<Rightarrow> cfg \<Rightarrow> string \<Rightarrow> string list \<Rightarrow> cfg" where
  "add_call k c name argv = cfg_addlist (cfg_addlist c k [show_nat (length argv + 1), name]) k argv"

definition cb_func :: "'w fun_env \<Rightarrow> ('w, 'd) reader \<Rightarrow> ('w, 'd) fun_context \<Rightarrow> cfg \<Rightarrow> fun_context_type \<Rightarrow> cfg \<Rightarrow> string \<Rightarrow> string list \<Rightarrow> cfg res" where
  "cb_func env read zeroed toplevel_cfg ctype c name argv =
     bind_res (check_call (fun_validate env read) zeroed ctype toplevel_cfg c name argv) (\<lambda>_. Inr (add_call ''funlist'' c name argv))"

definition cb_on_init_func :: "'w fun_env \<Rightarrow> ('w, 'd) reader \<Rightarrow> ('w, 'd) fun_context \<Rightarrow> cfg \<Rightarrow> cfg \<Rightarrow> string \<Rightarrow> string list \<Rightarrow> cfg res" where
  "cb_on_init_func env read zeroed toplevel_cfg = cb_func env read zeroed toplevel_cfg FUN_CONTEXT_INIT"

definition cb_on_finish_func :: "'w fun_env \<Rightarrow> ('w, 'd) reader \<Rightarrow> ('w, 'd) fun_context \<Rightarrow> cfg \<Rightarrow> cfg \<Rightarrow> string \<Rightarrow> string list \<Rightarrow> cfg res" where
  "cb_on_finish_func env read zeroed toplevel_cfg = cb_func env read zeroed toplevel_cfg FUN_CONTEXT_FINISH"

definition cb_on_error_func :: "'w fun_env \<Rightarrow> ('w, 'd) reader \<Rightarrow> ('w, 'd) fun_context \<Rightarrow> cfg \<Rightarrow> cfg \<Rightarrow> string \<Rightarrow> string list \<Rightarrow> cfg res" where
  "cb_on_error_func env read zeroed toplevel_cfg = cb_func env read zeroed toplevel_cfg FUN_CONTEXT_ERROR"

definition cb_on_resource_func :: "'w fun_env \<Rightarrow> ('w, 'd) reader \<Rightarrow> ('w, 'd) fun_context \<Rightarrow> cfg \<Rightarrow> cfg \<Rightarrow> string \<Rightarrow> string list \<Rightarrow> cfg res" where
  "cb_on_resource_func env read zeroed toplevel_cfg = cb_func env read zeroed toplevel_cfg FUN_CONTEXT_FILE"

text \<open>The type of the context stays zero, which is \<open>FUN_CONTEXT_INIT\<close>.\<close>

definition cb_task_require_func :: "'w fun_env \<Rightarrow> ('w, 'd) fun_context \<Rightarrow> cfg \<Rightarrow> cfg \<Rightarrow> string \<Rightarrow> string list \<Rightarrow> cfg res" where
  "cb_task_require_func env zeroed toplevel_cfg c name argv =
     bind_res (check_call (req_validate env) zeroed FUN_CONTEXT_INIT toplevel_cfg c name argv) (\<lambda>_. Inr (add_call ''reqlist'' c name argv))"

section \<open>Variables\<close>

type_synonym environment = "string \<Rightarrow> string option"

text \<open>\<open>setenv\<close> of POSIX with overwriting.\<close>

definition set_environment :: "string \<Rightarrow> string \<Rightarrow> (environment, unit) action" where
  "set_environment name v = (\<lambda>e.
     if name = [] \<or> CHR ''='' \<in> set name then (Inl Quiet, e) else (Inr (), e(name \<mapsto> v)))"

definition check_param_count :: "string list \<Rightarrow> nat \<Rightarrow> (environment, unit) action" where
  "check_param_count argv required = from_res (if length argv \<noteq> required then Inl (Msg ''requires parameters'') else Inr ())"

definition define_helper :: "string \<Rightarrow> string \<Rightarrow> bool \<Rightarrow> (environment, unit) action" where
  "define_helper k v override = (\<lambda>e.
     if override \<or> e k = None
     then (case set_environment k v e of (Inl _, e') \<Rightarrow> (Inl (Msg ''set_environment failed''), e') | (Inr _, e') \<Rightarrow> (Inr (), e'))
     else (Inr (), e))"

definition cb_define :: "string list \<Rightarrow> (environment, unit) action" where
  "cb_define argv = ok_then (check_param_count argv 2) (\<lambda>_. define_helper (argv ! 0) (argv ! 1) False)"

definition cb_define_bang :: "string list \<Rightarrow> (environment, unit) action" where
  "cb_define_bang argv = ok_then (check_param_count argv 2) (\<lambda>_. define_helper (argv ! 0) (argv ! 1) True)"

definition eval_argument :: "string \<Rightarrow> (environment, string) action" where
  "eval_argument a = from_res (with_msg ''error evaluating'' (eval_math_str a 24))"

definition cb_define_eval :: "string list \<Rightarrow> (environment, unit) action" where
  "cb_define_eval argv = ok_then (check_param_count argv 2) (\<lambda>_.
     ok_then (eval_argument (argv ! 1)) (\<lambda>result_str. define_helper (argv ! 0) result_str False))"

definition cb_define_eval_bang :: "string list \<Rightarrow> (environment, unit) action" where
  "cb_define_eval_bang argv = ok_then (check_param_count argv 2) (\<lambda>_.
     ok_then (eval_argument (argv ! 1)) (\<lambda>result_str. define_helper (argv ! 0) result_str True))"

section \<open>Including files\<close>

text \<open>What \<open>stat\<close> says of a path: its mode and its size.\<close>

record file_stat =
  st_mode :: u32
  st_size :: int

definition S_IFREG :: u32 where "S_IFREG = 0x8000"

definition file_exists :: "(string \<Rightarrow> file_stat option) \<Rightarrow> string \<Rightarrow> bool" where
  "file_exists stat path = (stat path \<noteq> None)"

definition is_regular_file :: "(string \<Rightarrow> file_stat option) \<Rightarrow> string \<Rightarrow> bool" where
  "is_regular_file stat path = (case stat path of None \<Rightarrow> False | Some st \<Rightarrow> st_mode st AND S_IFREG \<noteq> 0)"

text \<open>\<open>cfg_include\<close> of libconfuse goes on with the other file; what that does is an argument.\<close>

definition cb_include :: "(string \<Rightarrow> file_stat option) \<Rightarrow> (string \<Rightarrow> ('s, unit) action) \<Rightarrow> string \<Rightarrow> string list \<Rightarrow> ('s, unit) action" where
  "cb_include stat cfg_include filename argv =
     (if length argv \<noteq> 1 then from_res (Inl (Msg ''requires parameters''))
      else if argv ! 0 = [] then from_res (Inl (Msg ''Cannot include the contents of an undefined variable''))
      else (let updated_path = update_relative_path filename (argv ! 0) in
        if \<not> file_exists stat updated_path then from_res (Inl (Msg ''Cannot include: File not found''))
        else if \<not> is_regular_file stat updated_path then from_res (Inl (Msg ''Cannot include: Not a regular file''))
        else cfg_include updated_path))"

section \<open>Checking sections\<close>

definition variable_char :: "char \<Rightarrow> char" where
  "variable_char c = (if c = CHR ''-'' \<or> c = CHR ''/'' \<or> c = CHR ''.'' then CHR ''_'' else c)"

definition add_file_resource_variables :: "(string \<Rightarrow> file_stat option) \<Rightarrow> string option \<Rightarrow> cfg \<Rightarrow> (environment, unit) action" where
  "add_file_resource_variables stat path sec =
     (case path of None \<Rightarrow> from_res (Inr ())
      | Some p \<Rightarrow>
          (let k = map variable_char (''FWUP_SIZE_'' @ cfg_title sec) in
           case stat p of None \<Rightarrow> from_res (Inr ())
           | Some st \<Rightarrow> set_environment k (show_int (st_size st))))"

definition cb_validate_file_resource :: "(string \<Rightarrow> file_stat option) \<Rightarrow> cfg \<Rightarrow> (environment, unit) action" where
  "cb_validate_file_resource stat sec =
     (let path = cfg_getstr sec ''host-path''; contents = cfg_getstr sec ''contents'' in
      if path = None \<and> contents = None then from_res (Inl (Msg ''host-path or contents must be set for file-resource''))
      else if path \<noteq> None \<and> contents \<noteq> None
      then from_res (Inl (Msg ''only one of host-path or contents should be set for file-resource''))
      else add_file_resource_variables stat path sec)"

text \<open>
  Versions are compared by the vendored semver library: \<open>semver_parse\<close> and \<open>semver_lte\<close> are arguments, as is
  the version of the program.
\<close>

definition cb_validate_require_fwup_version :: "(string \<Rightarrow> 'v option) \<Rightarrow> ('v \<Rightarrow> 'v \<Rightarrow> bool) \<Rightarrow> string \<Rightarrow> string \<Rightarrow> unit res" where
  "cb_validate_require_fwup_version semver_parse semver_lte VERSION version_req_str =
     (case semver_parse VERSION of None \<Rightarrow> Inl (Msg ''Invalid fwup version'')
      | Some current_version \<Rightarrow>
          (case semver_parse version_req_str of None \<Rightarrow> Inl (Msg ''Invalid version passed to require-fwup-version'')
           | Some version_req \<Rightarrow>
               if semver_lte version_req current_version then Inr () else Inl (Msg ''fwup version required'')))"

text \<open>The bytes of the file with the bootstrap code, \<open>None\<close> if it can't be opened.\<close>

definition cb_validate_mbr :: "(string \<Rightarrow> byte list option) \<Rightarrow> cfg \<Rightarrow> cfg res" where
  "cb_validate_mbr fopen sec =
     bind_res (case cfg_getstr sec ''bootstrap-code-host-path'' of
         Some path \<Rightarrow>
           if cfg_getstr sec ''bootstrap-code'' = None then
             (case fopen path of None \<Rightarrow> Inl (Msg ''mbr bootstrap code path required, but can't be read'')
              | Some bytes \<Rightarrow>
                  if length bytes < 440 then Inl (Msg ''mbr bootstrap code should be 440 bytes'')
                  else Inr (cfg_setstr sec ''bootstrap-code'' (bytes_to_hex (take 440 bytes))))
           else Inr sec
       | None \<Rightarrow> Inr sec)
       (\<lambda>sec'. bind_res (mbr_verify_cfg sec') (\<lambda>_. Inr sec'))"

definition cb_validate_gpt :: "bool \<Rightarrow> cfg \<Rightarrow> unit res" where
  "cb_validate_gpt stale sec = gpt_verify_cfg stale sec"

definition cb_validate_uboot :: "bool \<Rightarrow> cfg \<Rightarrow> unit res" where
  "cb_validate_uboot erange sec = uboot_env_verify_cfg erange sec"

fun find_resource :: "string \<Rightarrow> cfg list \<Rightarrow> unit res" where
  "find_resource resource_name [] = Inl (Msg ''unknown resource'')"
| "find_resource resource_name (resource # resources) =
     (if cfg_title resource = resource_name then Inr () else find_resource resource_name resources)"

definition cb_validate_on_resource :: "cfg \<Rightarrow> cfg \<Rightarrow> unit res" where
  "cb_validate_on_resource toplevel_cfg sec = find_resource (cfg_title sec) (cfg_secs toplevel_cfg ''file-resource'')"

section \<open>Parsing a file\<close>

datatype parse_result = CFG_SUCCESS cfg | CFG_FILE_ERROR | CFG_PARSE_ERROR

datatype parse_input = From_stdin | From_file string

text \<open>Whether the two variables could be set is not looked at.\<close>

definition cfgfile_parse_file :: "(parse_input \<Rightarrow> environment \<Rightarrow> parse_result \<times> environment) \<Rightarrow> string \<Rightarrow> (environment, cfg) action" where
  "cfgfile_parse_file cfg_parse filename e =
     (let e1 = snd (set_environment ''FWUP_META_UUID'' ''${FWUP_META_UUID}'' e);
          e2 = snd (set_environment ''FWUP_META_NICKNAME'' ''${FWUP_META_NICKNAME}'' e1) in
      if filename = ''-'' then
        (case cfg_parse From_stdin e2 of (CFG_SUCCESS c, e3) \<Rightarrow> (Inr c, e3)
         | (_, e3) \<Rightarrow> (Inl (Msg ''Error parsing configuration from stdin''), e3))
      else
        (case cfg_parse (From_file filename) e2 of (CFG_SUCCESS c, e3) \<Rightarrow> (Inr c, e3)
         | (CFG_FILE_ERROR, e3) \<Rightarrow> (Inl (Msg ''Error opening configuration file''), e3)
         | (CFG_PARSE_ERROR, e3) \<Rightarrow> (Inl (Msg ''Error parsing configuration file''), e3)))"

section \<open>From the file to the calls that run\<close>

text \<open>A section with several calls: libconfuse runs the callback for each, in order, until one fails.\<close>

primrec note_calls :: "(cfg \<Rightarrow> string \<Rightarrow> string list \<Rightarrow> cfg res) \<Rightarrow> (string \<times> string list) list \<Rightarrow> cfg \<Rightarrow> cfg res" where
  "note_calls cb [] c = Inr c"
| "note_calls cb (call # calls) c = bind_res (cb c (fst call) (snd call)) (note_calls cb calls)"

definition call_words :: "string \<times> string list \<Rightarrow> string list" where
  "call_words call = fst call # snd call"

lemma note_calls_list:
  assumes "\<And>c name argv c'. cb c name argv = Inr c' \<Longrightarrow> length argv + 1 \<le> FUN_MAX_ARGS \<and> c' = add_call k c name argv"
  shows "note_calls cb calls c = Inr c' \<Longrightarrow> list_all callable (map call_words calls) \<and>
    cfg_strs c' k = cfg_strs c k @ concat (map encode_call (map call_words calls))"
proof (induction calls arbitrary: c)
  case (Cons call calls)
  then obtain c1 where c1: "cb c (fst call) (snd call) = Inr c1" and r: "note_calls cb calls c1 = Inr c'"
    by (auto simp: bind_res_eq_Inr)
  have "length (snd call) + 1 \<le> FUN_MAX_ARGS" "c1 = add_call k c (fst call) (snd call)" using assms [OF c1] by auto
  then show ?case using Cons.IH [OF r] by (simp add: callable_def call_words_def encode_call_def add_call_def)
qed simp

lemma cb_func_Inr:
  "cb_func env read zeroed toplevel ctype c name argv = Inr c' \<Longrightarrow>
   length argv + 1 \<le> FUN_MAX_ARGS \<and> c' = add_call ''funlist'' c name argv"
  by (auto simp: cb_func_def check_call_def bind_res_eq_Inr split: if_splits)

lemma cb_task_require_func_Inr:
  "cb_task_require_func env zeroed toplevel c name argv = Inr c' \<Longrightarrow>
   length argv + 1 \<le> FUN_MAX_ARGS \<and> c' = add_call ''reqlist'' c name argv"
  by (auto simp: cb_task_require_func_def check_call_def bind_res_eq_Inr split: if_splits)

lemma cb_func_list:
  "note_calls (cb_func env read zeroed toplevel ctype) calls c = Inr c' \<Longrightarrow> list_all callable (map call_words calls) \<and>
   cfg_strs c' ''funlist'' = cfg_strs c ''funlist'' @ concat (map encode_call (map call_words calls))"
  by (rule note_calls_list) (erule cb_func_Inr)

lemma cb_task_require_func_list:
  "note_calls (cb_task_require_func env zeroed toplevel) calls c = Inr c' \<Longrightarrow> list_all callable (map call_words calls) \<and>
   cfg_strs c' ''reqlist'' = cfg_strs c ''reqlist'' @ concat (map encode_call (map call_words calls))"
  by (rule note_calls_list) (erule cb_task_require_func_Inr)

lemma cb_func_known:
  assumes "cb_func env read zeroed toplevel ctype c name argv = Inr c'"
  shows "\<exists>fi \<in> set (fun_table env read). fi_name fi = name"
proof -
  have "\<exists>fi. find (\<lambda>f. name = fi_name f) (fun_table env read) = Some fi"
    using assms
    by (auto simp: cb_func_def check_call_def bind_res_eq_Inr fun_validate_def fun_lookup_def ok_then_def argc_def split: if_splits option.splits)
  then show ?thesis by (auto simp: find_Some_iff)
qed

lemma note_calls_known:
  "note_calls (cb_func env read zeroed toplevel ctype) calls c = Inr c' \<Longrightarrow>
   call \<in> set calls \<Longrightarrow> \<exists>fi \<in> set (fun_table env read). fi_name fi = fst call"
  by (induction calls arbitrary: c) (auto simp: bind_res_eq_Inr dest: cb_func_known)


definition empty_section :: "string \<Rightarrow> cfg" where
  "empty_section title = Cfg title (\<lambda>_. 0) (\<lambda>_. []) (\<lambda>_. None) (\<lambda>_. []) (\<lambda>_. False) (\<lambda>_. [])"

definition zeroed_ctx :: "(unit, unit) fun_context" where
  "zeroed_ctx = sample_ctx (empty_section [])"

lemma find_sample:
  "find (\<lambda>f. ''info'' = fi_name f) (fun_table env read) =
     Some \<lparr>fi_name = ''info'', fi_validate = info_validate, fi_compute_progress = info_compute_progress, fi_run = info_run env\<rparr>"
  "find (\<lambda>f. ''trim'' = fi_name f) (fun_table env read) =
     Some \<lparr>fi_name = ''trim'', fi_validate = trim_validate, fi_compute_progress = trim_compute_progress, fi_run = trim_run env\<rparr>"
  by (simp_all only: fun_table_def find.simps fun_info.simps list.inject char.inject simp_thms if_False if_True refl)

lemma sample_calls:
  "note_calls (cb_func env read z toplevel FUN_CONTEXT_INIT)
     [(''info'', [''a'']), (''trim'', [''0'', ''8''])] c =
   Inr (add_call ''funlist'' (add_call ''funlist'' c ''info'' [''a'']) ''trim'' [''0'', ''8''])"
proof -
  have d: "show_nat 0 = ''0''" "show_nat 8 = ''8''" by (code_simp, code_simp)
  have n: "strtoull ''0'' = (0, [], False)" "strtoull ''8'' = (8, [], False)"
    using strtoull_show_nat [of "[]" 0] strtoull_show_nat [of "[]" 8] by (simp_all add: d ends_number_def)
  have i: "cb_func env read z toplevel FUN_CONTEXT_INIT c ''info'' [''a''] = Inr (add_call ''funlist'' c ''info'' [''a''])" for c
    by (simp add: cb_func_def check_call_def fun_validate_def fun_lookup_def ok_then_def argc_def FUN_MAX_ARGS_def find_sample
        info_validate_def require_argc_def)
  have t: "cb_func env read z toplevel FUN_CONTEXT_INIT c ''trim'' [''0'', ''8''] = Inr (add_call ''funlist'' c ''trim'' [''0'', ''8''])" for c
    by (simp add: cb_func_def check_call_def fun_validate_def fun_lookup_def ok_then_def argc_def FUN_MAX_ARGS_def find_sample
        trim_validate_def require_argc_def check_uint_def arg_def CHECK_ARG_UINT64_def CHECK_ARG_UINT64_RANGE_def ret_def n word_less_nat_alt)
  show ?thesis by (simp add: i t)
qed


lemma accepted_requirements_run:
  assumes "cfg_strs task ''reqlist'' = []"
    and "note_calls (cb_task_require_func env zeroed toplevel) calls task = Inr task'"
  shows "req_apply_reqlist f (cfg_strs task' ''reqlist'') ctx = run_calls f (map call_words calls) ctx"
  using cb_task_require_func_list [OF assms(2)] requirement_calls.runs_calls [of "map call_words calls" f ctx] assms(1) by simp

section \<open>The options and the tables\<close>

lemma fun_table_names:
  "map fi_name (fun_table env read) =
     [''raw_write'', ''raw_memset'', ''fat_attrib'', ''fat_mkfs'', ''fat_write'', ''fat_mv'', ''fat_mv!'', ''fat_rm'', ''fat_rm!'', ''fat_cp'',
      ''fat_mkdir'', ''fat_setlabel'', ''fat_touch'', ''gpt_write'', ''mbr_write'', ''trim'', ''uboot_clearenv'', ''uboot_setenv'', ''uboot_unsetenv'',
      ''uboot_recover'', ''error'', ''info'', ''path_write'', ''pipe_write'', ''ubi_volume_write'', ''execute'', ''reboot_param'']"
  by (simp only: fun_table_def list.map fun_info.simps)

text \<open>
  The names that a configuration file may use in an event are those of the table of functions, and the requirements that a task may
  have are those of the table of requirements: nothing can be written that can't be run, and nothing that can be run can't be written.
\<close>

theorem offered_functions_exist:
  "set event_functions = fi_name ` set (fun_table env read) \<and> set requirement_functions = req_name ` set (req_table env)"
proof
  show "set event_functions = fi_name ` set (fun_table env read)"
    unfolding set_map [symmetric] fun_table_names event_functions_def by code_simp
  show "set requirement_functions = req_name ` set (req_table env)"
    unfolding set_map [symmetric] requirement_functions_def by (simp only: req_table_def list.map req_info.simps) code_simp
qed

section \<open>Evaluated definitions\<close>

definition in_int64 :: "int \<Rightarrow> bool" where
  "in_int64 v \<longleftrightarrow> - (2 ^ 63) \<le> v \<and> v \<le> 2 ^ 63 - 1"

lemma int64_in_int64: "int64 v = Inr w \<Longrightarrow> in_int64 w"
  by (auto simp: int64_def in_int64_def split: if_splits)

lemma power_loop_in_int64: "power_loop a n r = Inr v \<Longrightarrow> in_int64 r \<Longrightarrow> in_int64 v"
  by (induction a n r rule: power_loop.induct) (auto simp: bind_res_eq_Inr dest: int64_in_int64)

lemma binary_op_in_int64: "binary_op f a b = Inr v \<Longrightarrow> in_int64 v"
  by (auto simp: binary_op_def in_int64_def [of 1] dest: int64_in_int64 power_loop_in_int64 split: op_fun.splits if_splits)

lemma run_op_in_int64: "run_op f as = Inr as' \<Longrightarrow> list_all in_int64 as \<Longrightarrow> list_all in_int64 as'"
  by (auto simp: run_op_def bind_res_eq_Inr dest: int64_in_int64 binary_op_in_int64 split: if_splits list.splits)

abbreviation args_in_int64 :: "eval_state \<Rightarrow> bool" where
  "args_in_int64 s \<equiv> list_all in_int64 (args s)"

lemma pop_operator_in_int64: "pop_operator s = Inr s' \<Longrightarrow> args_in_int64 s \<Longrightarrow> args_in_int64 s'"
  by (auto simp: pop_operator_def bind_res_eq_Inr dest: run_op_in_int64 split: list.splits if_splits)

lemma handle_right_paren_in_int64: "handle_right_paren s = Inr s' \<Longrightarrow> args_in_int64 s \<Longrightarrow> args_in_int64 s'"
proof (induction s rule: handle_right_paren.induct)
  case (1 s)
  then show ?case
    by (auto simp: handle_right_paren.simps [of s] dest: pop_operator_in_int64 split: list.splits if_splits sum.splits)
qed

lemma pop_higher_in_int64: "pop_higher a p s = Inr s' \<Longrightarrow> args_in_int64 s \<Longrightarrow> args_in_int64 s'"
proof (induction a p s rule: pop_higher.induct)
  case (1 a p s)
  then show ?case
    by (auto simp: pop_higher.simps [of a p s] dest: pop_operator_in_int64 split: list.splits if_splits sum.splits)
qed

lemma pop_all_in_int64: "pop_all s = Inr s' \<Longrightarrow> args_in_int64 s \<Longrightarrow> args_in_int64 s'"
proof (induction s rule: pop_all.induct)
  case (1 s)
  then show ?case
    by (auto simp: pop_all.simps [of s] dest: pop_operator_in_int64 split: if_splits sum.splits)
qed

lemma push_operator_in_int64: "push_operator f a p s = Inr s' \<Longrightarrow> args_in_int64 s \<Longrightarrow> args_in_int64 s'"
  by (auto simp: push_operator_def bind_res_eq_Inr dest: pop_higher_in_int64 split: if_splits)

lemma handle_left_paren_in_int64: "handle_left_paren s = Inr s' \<Longrightarrow> args_in_int64 s \<Longrightarrow> args_in_int64 s'"
  by (auto simp: handle_left_paren_def split: if_splits)

lemma handle_suffix_in_int64: "handle_suffix m s = Inr s' \<Longrightarrow> args_in_int64 s \<Longrightarrow> args_in_int64 s'"
  by (auto simp: handle_suffix_def bind_res_eq_Inr dest: int64_in_int64 split: list.splits)

lemmas stack_ops_in_int64 = push_operator_in_int64 handle_left_paren_in_int64 handle_right_paren_in_int64 handle_suffix_in_int64

lemma strtoll_in_int64: "strtoll s = (v, rest, e) \<Longrightarrow> in_int64 v"
  by (auto simp: strtoll_def in_int64_def Let_def split: option.splits if_splits)

lemma parse_number_in_int64: "parse_number s = Inr s' \<Longrightarrow> args_in_int64 s \<Longrightarrow> args_in_int64 s'"
  by (auto simp: parse_number_def Let_def dest: strtoll_in_int64 split: prod.splits if_splits)

lemma parse_step_in_int64:
  assumes "parse_step s = Inr s'" and "args_in_int64 s"
  shows "args_in_int64 s'"
proof -
  have "args_in_int64 u" if "parse_whitespace_before_number s = Inr u" for u
    using that assms(2)
    by (auto simp: parse_whitespace_before_number_def Let_def bind_res_eq_Inr dest!: parse_number_in_int64
        dest: stack_ops_in_int64 split: if_splits)
  moreover have "args_in_int64 u" if "parse_operator s = Inr u" for u
    using that assms(2)
    by (auto simp: parse_operator_def Let_def bind_res_eq_Inr dest: stack_ops_in_int64 split: if_splits)
  ultimately show ?thesis
    using assms parse_number_in_int64 by (auto simp: parse_step_def split: parser.splits)
qed

lemma parse_loop_in_int64: "parse_loop s = Inr s' \<Longrightarrow> args_in_int64 s \<Longrightarrow> args_in_int64 s'"
proof (induction s rule: parse_loop.induct)
  case (1 s)
  then show ?case
    by (auto simp: parse_loop.simps [of s] dest: parse_step_in_int64 split: if_splits sum.splits)
qed

lemma eval_math_in_int64:
  assumes "eval_math s = Inr v" shows "in_int64 v"
proof -
  obtain st st' where "parse_loop \<lparr>parse = parse_whitespace_before_number_state, str = s, args = [], operator_stack = []\<rparr> = Inr st"
    and p: "pop_all st = Inr st'" "args st' = [v]"
    using assms by (auto simp: eval_math_def bind_res_eq_Inr split: list.splits) (metis list.exhaust)
  then have "args_in_int64 st" using parse_loop_in_int64 by fastforce
  then show ?thesis using pop_all_in_int64 [OF p(1)] p(2) by simp
qed

lemma length_show_nat: "n < 10 ^ Suc k \<Longrightarrow> length (show_nat n) \<le> Suc k"
proof (induction k arbitrary: n)
  case 0
  then show ?case by (simp add: show_nat.simps [of n])
next
  case (Suc k)
  then have "n div 10 < 10 ^ Suc k" by auto
  from Suc.IH [OF this] show ?case by (auto simp: show_nat.simps [of n])
qed

lemma length_show_int: "in_int64 v \<Longrightarrow> length (show_int v) \<le> 20"
proof -
  assume v: "in_int64 v"
  have "nat v < 10 ^ Suc 18" "nat (- v) < 10 ^ Suc 18" using v by (auto simp: in_int64_def)
  from this [THEN length_show_nat] show ?thesis by (simp add: show_int_def)
qed

text \<open>
  The 24 characters that \<open>define-eval\<close> has for its result are always enough: the value of an expression that can be evaluated is
  printed whole and never rejected for its length.
\<close>

theorem define_eval_buffer_suffices:
  "eval_math_str s 24 = bind_res (eval_math s) (\<lambda>v. Inr (show_int v))"
  using length_show_int [OF eval_math_in_int64 [of s]] by (cases "eval_math s") (auto simp: eval_math_str_def)

end
