(* ===== verification/Fw_List.thy ===== *)
theory Fw_List
  imports Fw_Meta Cfg_Print "HOL-Library.Char_ord" "HOL-Library.List_Lexorder" "HOL-Library.Multiset"
begin

text \<open>
  What an archive says of itself: the tasks it has (\<open>fwup_list.c\<close>) and its metadata
  (\<open>fwup_metadata.c\<close>). Both read the signed metadata and print a text; the result is the bytes that are
  sent to standard output.
\<close>

definition FRAMING_TYPE_SUCCESS :: "byte list" where "FRAMING_TYPE_SUCCESS = string_bytes ''OK''"

section \<open>Tasks\<close>

text \<open>\<open>strcmp\<close> compares the characters as numbers, and a string comes before its extensions.\<close>

definition strsort :: "string list \<Rightarrow> string list" where
  "strsort tasks = sort tasks"

definition print_tasks :: "(nat \<Rightarrow> bool) \<Rightarrow> string list \<Rightarrow> simple_string \<Rightarrow> simple_string" where
  "print_tasks malloc tasks s = fold (\<lambda>t. ssprintf malloc (t @ newline)) tasks s"

definition send_success :: "bool \<Rightarrow> bool \<Rightarrow> simple_string \<Rightarrow> byte list res" where
  "send_success framing progress_normal s =
     (case s of None \<Rightarrow> Inl (Undefined ''null pointer'')
      | Some r \<Rightarrow> Inr (fwup_output framing progress_normal FRAMING_TYPE_SUCCESS 0 (string_bytes (ss_text r))))"

definition list_tasks :: "(nat \<Rightarrow> bool) \<Rightarrow> bool \<Rightarrow> bool \<Rightarrow> cfg \<Rightarrow> byte list res" where
  "list_tasks malloc framing progress_normal c =
     send_success framing progress_normal
       (print_tasks malloc (strsort (map cfg_title (cfg_secs c ''task''))) (simple_string_init malloc))"

definition fwup_list :: "meta_env \<Rightarrow> (nat \<Rightarrow> bool) \<Rightarrow> bool \<Rightarrow> bool \<Rightarrow> byte list list \<Rightarrow> archive res \<Rightarrow> byte list res" where
  "fwup_list env malloc framing progress_normal public_keys opened =
     bind_res (cfgfile_parse_fw_meta_conf env public_keys opened) (list_tasks malloc framing progress_normal)"

section \<open>Metadata\<close>

definition list_one :: "(nat \<Rightarrow> bool) \<Rightarrow> cfg \<Rightarrow> string \<Rightarrow> simple_string \<Rightarrow> simple_string" where
  "list_one malloc c k s = fwup_cfg_opt_to_string malloc False (CFG_STR k None) c s"

definition metadata_keys :: "string list" where
  "metadata_keys = [''meta-product'', ''meta-description'', ''meta-version'', ''meta-author'', ''meta-platform'', ''meta-architecture'',
     ''meta-creation-date'', ''meta-fwup-version'', ''meta-misc'', ''meta-vcs-identifier'', ''meta-uuid'', ''meta-nickname'']"

definition list_metadata :: "(nat \<Rightarrow> bool) \<Rightarrow> cfg \<Rightarrow> simple_string \<Rightarrow> simple_string" where
  "list_metadata malloc c s = fold (list_one malloc c) metadata_keys s"

text \<open>A key that has no value is a null pointer that is printed, which is undefined.\<close>

definition fwup_metadata :: "meta_env \<Rightarrow> (nat \<Rightarrow> bool) \<Rightarrow> bool \<Rightarrow> bool \<Rightarrow> byte list list \<Rightarrow> string option \<Rightarrow> archive res \<Rightarrow> byte list res" where
  "fwup_metadata env malloc framing progress_normal public_keys metadata_key opened =
     bind_res (cfgfile_parse_fw_meta_conf env public_keys opened) (\<lambda>c.
       case metadata_key of
         Some k \<Rightarrow>
           (case cfg_getstr c k of None \<Rightarrow> Inl (Undefined ''null pointer'')
            | Some v \<Rightarrow> send_success framing progress_normal (ssprintf malloc (v @ newline) (simple_string_init malloc)))
       | None \<Rightarrow> send_success framing progress_normal (list_metadata malloc c (simple_string_init malloc)))"

section \<open>What is printed\<close>

lemma prints_fold_init:
  assumes "\<forall>n. malloc n" and "\<And>x. prints (f x) (g x)"
  shows "send_success framing progress_normal (fold f xs (simple_string_init malloc)) =
    Inr (fwup_output framing progress_normal FRAMING_TYPE_SUCCESS 0 (string_bytes (concat (map g xs))))"
proof -
  have "prints (fold f xs) (concat (map g xs))" by (rule prints_fold) (rule assms(2))
  then obtain s' where "fold f xs (simple_string_init malloc) = Some s'" "ss_text s' = concat (map g xs)"
    using assms(1) by (fastforce simp: prints_def simple_string_init_def)
  then show ?thesis by (simp add: send_success_def)
qed

lemma fwup_metadata_all:
  assumes "\<forall>n. malloc n" and "cfgfile_parse_fw_meta_conf env public_keys opened = Inr c"
  shows "fwup_metadata env malloc framing progress_normal public_keys None opened =
    Inr (fwup_output framing progress_normal FRAMING_TYPE_SUCCESS 0
      (string_bytes (concat (map (\<lambda>k. render_opt False (CFG_STR k None) c) metadata_keys))))"
proof -
  have "prints (list_one malloc c k) (render_opt False (CFG_STR k None) c)" for k
    using prints_opts(1) [OF assms(1), of False "CFG_STR k None" c] by (simp only: list_one_def [abs_def])
  from prints_fold_init [of malloc "list_one malloc c" "\<lambda>k. render_opt False (CFG_STR k None) c", OF assms(1) this, of framing progress_normal metadata_keys]
  show ?thesis by (simp add: fwup_metadata_def assms(2) list_metadata_def)
qed

text \<open>
  C26: the tasks of an archive are listed completely and in order. What is printed are the titles of its
  tasks, each as often as there are tasks with it, one to a line and sorted.
\<close>

theorem fwup_list_sorted:
  assumes "\<forall>n. malloc n" and "cfgfile_parse_fw_meta_conf env public_keys opened = Inr c"
  shows "\<exists>ts. sorted ts \<and> mset ts = mset (map cfg_title (cfg_secs c ''task'')) \<and>
    fwup_list env malloc framing progress_normal public_keys opened =
      Inr (fwup_output framing progress_normal FRAMING_TYPE_SUCCESS 0 (string_bytes (concat (map (\<lambda>t. t @ newline) ts))))"
proof (intro exI conjI)
  show "fwup_list env malloc framing progress_normal public_keys opened =
      Inr (fwup_output framing progress_normal FRAMING_TYPE_SUCCESS 0
        (string_bytes (concat (map (\<lambda>t. t @ newline) (strsort (map cfg_title (cfg_secs c ''task'')))))))"
    using prints_fold_init [OF assms(1) prints_ssprintf [OF assms(1)]]
    by (simp add: fwup_list_def assms(2) list_tasks_def print_tasks_def)
qed (simp_all add: strsort_def)

definition two_titles :: "string \<Rightarrow> cfg list" where
  "two_titles k = (if k = ''task'' then [plain_section ''upgrade'' Map.empty, plain_section ''complete'' Map.empty] else [])"

theorem fwup_list_sorted_witness:
  "fwup_list (toy_meta_env two_titles) (\<lambda>_. True) False False [[9], [7]] (Inr (toy_archive [])) =
   Inr (string_bytes (''complete'' @ newline @ ''upgrade'' @ newline))"
proof -
  obtain v where m: "cfgfile_parse_fw_meta_conf (toy_meta_env two_titles) [[9], [7]] (Inr (toy_archive [])) = Inr (toy_cfg v two_titles)"
    using toy_read_meta [of two_titles "[]"] by (auto simp: cfgfile_parse_fw_meta_conf_def)
  have t: "map cfg_title (cfg_secs (toy_cfg v two_titles) ''task'') = [''upgrade'', ''complete'']"
    by (simp add: toy_cfg_def two_titles_def plain_section_def)
  obtain ts where ts: "sorted ts" "mset ts = mset [''upgrade'', ''complete'']"
    and l: "fwup_list (toy_meta_env two_titles) (\<lambda>_. True) False False [[9], [7]] (Inr (toy_archive [])) =
      Inr (fwup_output False False FRAMING_TYPE_SUCCESS 0 (string_bytes (concat (map (\<lambda>t. t @ newline) ts))))"
    using fwup_list_sorted [of "\<lambda>_. True", OF _ m, unfolded t] by auto
  have "sorted [''complete'', ''upgrade'']" by code_simp
  then have "ts = [''complete'', ''upgrade'']" using properties_for_sort [OF ts(2) ts(1)]
      properties_for_sort [of "[''complete'', ''upgrade'']" "[''upgrade'', ''complete'']"] by (simp add: add_mset_commute)
  then show ?thesis by (simp add: l fwup_output_def)
qed

end
