(* ===== verification/Fat_Fs.thy ===== *)
theory Fat_Fs
  imports Requirement
begin

text \<open>
  FAT file systems on the output (\<open>fatfs.c\<close>): the operations that tasks use, which keep a table of mounted
  volumes and one open file between calls, and the block device that the FatFs library sees.

  FatFs is a vendored library and a parameter: for a call and its own state it runs a program that
  reads and writes sectors and asks for the state of the drive, and ends with a result. What these
  requests do to the output is code of \<open>fatfs.c\<close>.
\<close>

section \<open>What the library is asked and what it asks\<close>

datatype fresult =
    FR_OK | FR_DISK_ERR | FR_INT_ERR | FR_NOT_READY | FR_NO_FILE | FR_NO_PATH | FR_INVALID_NAME | FR_DENIED | FR_EXIST
  | FR_INVALID_OBJECT | FR_WRITE_PROTECTED | FR_INVALID_DRIVE | FR_NOT_ENABLED | FR_NO_FILESYSTEM | FR_MKFS_ABORTED
  | FR_TIMEOUT | FR_LOCKED | FR_NOT_ENOUGH_CORE | FR_TOO_MANY_OPEN_FILES | FR_INVALID_PARAMETER

datatype dresult = RES_OK | RES_ERROR | RES_PARERR

datatype ioctl_cmd = CTRL_SYNC | GET_SECTOR_COUNT | GET_SECTOR_SIZE | GET_BLOCK_SIZE | CTRL_TRIM

text \<open>The objects of type \<open>FIL\<close>: the global one, and the local ones of the operations.\<close>

datatype fil_object = Fil_global | Fil_local | Fil_from | Fil_to

datatype open_mode = FA_READ | FA_WRITE | FA_OPEN_EXISTING | FA_CREATE_ALWAYS | FA_OPEN_ALWAYS

datatype file_attrib = AM_RDO | AM_HID | AM_SYS

datatype ff_call =
    F_mount nat string
  | F_unmount string
  | F_mkfs string
  | F_stat string
  | F_mkdir string
  | F_setlabel string
  | F_unlink string
  | F_rename string string
  | F_chmod string "file_attrib set" "file_attrib set"
  | F_open fil_object string "open_mode set"
  | F_close fil_object
  | F_read fil_object nat
  | F_write fil_object "byte list"
  | F_lseek fil_object u32
  | F_truncate fil_object
  | F_sync fil_object

text \<open>A result: the code, the attribute \<open>AM_DIR\<close> of \<open>f_stat\<close>, the bytes that were read and how many were written.\<close>

record ff_result =
  fr_code :: fresult
  fr_is_dir :: bool
  fr_bytes :: "byte list"
  fr_written :: nat

datatype 'r ff_program =
    Ff_return 'r
  | Ff_initialize nat "bool \<Rightarrow> 'r ff_program"
  | Ff_status nat "bool \<Rightarrow> 'r ff_program"
  | Ff_read nat u32 u32 "dresult \<times> byte list \<Rightarrow> 'r ff_program"
  | Ff_write nat u32 "byte list" "dresult \<Rightarrow> 'r ff_program"
  | Ff_ioctl nat ioctl_cmd "dresult \<times> u32 \<Rightarrow> 'r ff_program"
  | Ff_fattime "u32 \<Rightarrow> 'r ff_program"

record 'f ff_lib =
  ff_run :: "ff_call \<Rightarrow> 'f \<Rightarrow> (ff_result \<times> 'f) ff_program"
  f_tell :: "fil_object \<Rightarrow> 'f \<Rightarrow> u32"
  f_size :: "fil_object \<Rightarrow> 'f \<Rightarrow> u32"
  ff_stack :: "nat \<Rightarrow> byte list"
  ff_fuel :: nat

section \<open>The state of \<open>fatfs.c\<close>\<close>

definition FF_VOLUMES :: nat where "FF_VOLUMES = 4"

definition FATFS_MAX_PATH :: nat where "FATFS_MAX_PATH = 256"

text \<open>
  There is one cache, so the pointer of a slot is either null or that cache. A slot that is not
  mounted keeps the offset and the count of its last use.
\<close>

record mounted_drive =
  md_output :: bool
  md_block_offset :: int
  md_block_count :: u64

record 'f fat_state =
  fattime :: u32
  mounted :: "mounted_drive list"
  next_mount :: nat
  current_file :: "string option"
  ff :: 'f

type_synonym ('f, 'a) fat = "(block_cache \<times> 'f fat_state, 'a) action"

definition fat_init :: "'f \<Rightarrow> 'f fat_state" where
  "fat_init f = \<lparr>fattime = 0, mounted = replicate FF_VOLUMES \<lparr>md_output = False, md_block_offset = 0, md_block_count = 0\<rparr>,
     next_mount = 0, current_file = None, ff = f\<rparr>"

definition get_state :: "('f, 'f fat_state) fat" where
  "get_state = (\<lambda>(bc, g). (Inr g, (bc, g)))"

definition change :: "('f fat_state \<Rightarrow> 'f fat_state) \<Rightarrow> ('f, unit) fat" where
  "change h = (\<lambda>(bc, g). (Inr (), (bc, h g)))"

definition on_cache :: "(block_cache, 'a) action \<Rightarrow> ('f, 'a) fat" where
  "on_cache m = (\<lambda>(bc, g). case m bc of (r, bc') \<Rightarrow> (r, (bc', g)))"

section \<open>The block device of the library\<close>

definition drive_mounted :: "nat \<Rightarrow> 'f fat_state \<Rightarrow> bool" where
  "drive_mounted pdrv g = (pdrv < FF_VOLUMES \<and> md_output (mounted g ! pdrv))"

definition disk_initialize :: "nat \<Rightarrow> 'f fat_state \<Rightarrow> bool" where
  "disk_initialize pdrv g = md_output (mounted g ! pdrv)"

definition disk_status :: "nat \<Rightarrow> 'f fat_state \<Rightarrow> bool" where
  "disk_status pdrv g = md_output (mounted g ! pdrv)"

text \<open>A byte offset as the model has them: one that does not fit or is negative is undefined.\<close>

definition byte_offset :: "int \<Rightarrow> nat res" where
  "byte_offset v = bind_res (int64 v) (\<lambda>n. if n < 0 then Inl (Undefined ''offset'') else Inr (nat n))"

definition sector_offset :: "nat \<Rightarrow> u32 \<Rightarrow> 'f fat_state \<Rightarrow> nat res" where
  "sector_offset pdrv sector g = byte_offset (512 * (md_block_offset (mounted g ! pdrv) + uint sector))"

text \<open>A failure of the cache is the code \<open>RES_ERROR\<close> for the library; an undefined execution stays one.\<close>

definition disk_answer :: "'b \<Rightarrow> ('f, 'b) fat \<Rightarrow> ('f, dresult \<times> 'b) fat" where
  "disk_answer nothing m = (\<lambda>s. case m s of
     (Inl (Undefined w), s') \<Rightarrow> (Inl (Undefined w), s')
   | (Inl _, s') \<Rightarrow> (Inr (RES_ERROR, nothing), s')
   | (Inr x, s') \<Rightarrow> (Inr (RES_OK, x), s'))"

definition disk_read :: "nat \<Rightarrow> u32 \<Rightarrow> u32 \<Rightarrow> ('f, dresult \<times> byte list) fat" where
  "disk_read pdrv sector count = ok_then get_state (\<lambda>g.
     if \<not> drive_mounted pdrv g then from_res (Inr (RES_PARERR, []))
     else disk_answer [] (ok_then (from_res (sector_offset pdrv sector g)) (\<lambda>off.
            on_cache (block_cache_pread (unat (512 * count)) off))))"

definition disk_write :: "nat \<Rightarrow> byte list \<Rightarrow> u32 \<Rightarrow> ('f, dresult \<times> unit) fat" where
  "disk_write pdrv buff sector = ok_then get_state (\<lambda>g.
     if \<not> drive_mounted pdrv g then from_res (Inr (RES_PARERR, ()))
     else (let streamed = (sector > 2048) in
       disk_answer () (ok_then (from_res (sector_offset pdrv sector g)) (\<lambda>off.
         on_cache (block_cache_pwrite buff off streamed)))))"

definition disk_ioctl :: "nat \<Rightarrow> ioctl_cmd \<Rightarrow> 'f fat_state \<Rightarrow> dresult \<times> u32" where
  "disk_ioctl pdrv cmd g =
     (if \<not> drive_mounted pdrv g then (RES_PARERR, 0)
      else case cmd of
        CTRL_SYNC \<Rightarrow> (RES_OK, 0)
      | GET_SECTOR_COUNT \<Rightarrow> (RES_OK, ucast (md_block_count (mounted g ! pdrv)))
      | GET_BLOCK_SIZE \<Rightarrow> (RES_OK, 128 * 1024)
      | GET_SECTOR_SIZE \<Rightarrow> (RES_PARERR, 0)
      | CTRL_TRIM \<Rightarrow> (RES_PARERR, 0))"

definition get_fattime :: "'f fat_state \<Rightarrow> u32" where
  "get_fattime g = fattime g"

text \<open>
  The library runs on this device. It writes whole sectors of mounted or unmounted drives; the index of a
  drive that it initializes or asks for its status is not checked and must be in the table.
\<close>

primrec run_program :: "'r ff_program \<Rightarrow> ('f, 'r) fat" where
  "run_program (Ff_return r) = from_res (Inr r)"
| "run_program (Ff_initialize pdrv k) = (\<lambda>(bc, g).
     if pdrv < FF_VOLUMES then run_program (k (disk_initialize pdrv g)) (bc, g) else (Inl (Undefined ''mounted_''), (bc, g)))"
| "run_program (Ff_status pdrv k) = (\<lambda>(bc, g).
     if pdrv < FF_VOLUMES then run_program (k (disk_status pdrv g)) (bc, g) else (Inl (Undefined ''mounted_''), (bc, g)))"
| "run_program (Ff_read pdrv sector count k) = ok_then (disk_read pdrv sector count) (\<lambda>a. run_program (k a))"
| "run_program (Ff_write pdrv sector buff k) = (\<lambda>s.
     if length buff mod 512 = 0 then ok_then (disk_write pdrv buff sector) (\<lambda>a. run_program (k (fst a))) s
     else (Inl (Undefined ''sector''), s))"
| "run_program (Ff_ioctl pdrv cmd k) = (\<lambda>(bc, g). run_program (k (disk_ioctl pdrv cmd g)) (bc, g))"
| "run_program (Ff_fattime k) = (\<lambda>(bc, g). run_program (k (get_fattime g)) (bc, g))"

definition call_ff :: "'f ff_lib \<Rightarrow> ff_call \<Rightarrow> ('f, ff_result) fat" where
  "call_ff lib c = ok_then get_state (\<lambda>g. ok_then (run_program (ff_run lib c (ff g))) (\<lambda>(r, f).
     ok_then (change (\<lambda>g. g\<lparr>ff := f\<rparr>)) (\<lambda>_. from_res (Inr r))))"

definition fatfs_error_to_string :: "fresult \<Rightarrow> string" where
  "fatfs_error_to_string err = (case err of
     FR_OK \<Rightarrow> ''Succeeded''
   | FR_DISK_ERR \<Rightarrow> ''FATFS: A hard error occurred in the low level disk I/O layer''
   | FR_INT_ERR \<Rightarrow> ''FATFS: Assertion failed (check for corruption)''
   | FR_NOT_READY \<Rightarrow> ''FATFS: The physical drive cannot work''
   | FR_NO_FILE \<Rightarrow> ''FATFS: Could not find the file''
   | FR_NO_PATH \<Rightarrow> ''FATFS: Could not find the path''
   | FR_INVALID_NAME \<Rightarrow> ''FATFS: The path name format is invalid''
   | FR_DENIED \<Rightarrow> ''FATFS: Access denied due to prohibited access or directory full''
   | FR_EXIST \<Rightarrow> ''FATFS: Destination file already exists''
   | FR_INVALID_OBJECT \<Rightarrow> ''FATFS: The file/directory object is invalid''
   | FR_WRITE_PROTECTED \<Rightarrow> ''FATFS: The physical drive is write protected''
   | FR_INVALID_DRIVE \<Rightarrow> ''FATFS: The logical drive number is invalid''
   | FR_NOT_ENABLED \<Rightarrow> ''FATFS: The volume has no work area''
   | FR_NO_FILESYSTEM \<Rightarrow> ''FATFS: There is no valid FAT volume''
   | FR_MKFS_ABORTED \<Rightarrow> ''FATFS: f_mkfs() aborted due to a parameter error. Try adjusting the partition size.''
   | FR_TIMEOUT \<Rightarrow> ''FATFS: Could not get a grant to access the volume within defined period''
   | FR_LOCKED \<Rightarrow> ''FATFS: The operation is rejected according to the file sharing policy''
   | FR_NOT_ENOUGH_CORE \<Rightarrow> ''FATFS: LFN working buffer could not be allocated''
   | FR_TOO_MANY_OPEN_FILES \<Rightarrow> ''FATFS: Number of open files > _FS_SHARE''
   | FR_INVALID_PARAMETER \<Rightarrow> ''FATFS: Invalid parameter'')"

text \<open>The message of a failure; a null file name is printed as nothing.\<close>

definition fatfs_error :: "string \<Rightarrow> string \<Rightarrow> fresult \<Rightarrow> error" where
  "fatfs_error context filename rc = Msg (context @ ''('' @ filename @ ''): '' @ fatfs_error_to_string rc)"

text \<open>\<open>CHECK\<close>: any code but \<open>FR_OK\<close> makes the operation fail.\<close>

definition CHECK :: "'f ff_lib \<Rightarrow> string \<Rightarrow> string \<Rightarrow> ff_call \<Rightarrow> ('f, ff_result) fat" where
  "CHECK lib context filename c = ok_then (call_ff lib c) (\<lambda>r.
     from_res (if fr_code r \<noteq> FR_OK then Inl (fatfs_error context filename (fr_code r)) else Inr r))"

section \<open>Volumes\<close>

definition index_to_mount_path :: "nat \<Rightarrow> string" where
  "index_to_mount_path index = [char_of (48 + index), CHR '':'']"

text \<open>\<open>snprintf\<close> into a buffer of \<open>FATFS_MAX_PATH\<close> characters cuts what does not fit.\<close>

definition fit_path :: "string \<Rightarrow> string" where
  "fit_path path = take (FATFS_MAX_PATH - 1) path"

definition concatenate_path :: "string \<Rightarrow> string \<Rightarrow> string" where
  "concatenate_path path name = fit_path (path @ ''/'' @ name)"

definition find_mount :: "int \<Rightarrow> 'f fat_state \<Rightarrow> nat option" where
  "find_mount blk_offset g =
     find (\<lambda>i. md_output (mounted g ! i) \<and> md_block_offset (mounted g ! i) = blk_offset) [0..<FF_VOLUMES]"

fun next_free :: "nat \<Rightarrow> 'f fat_state \<Rightarrow> nat \<Rightarrow> nat" where
  "next_free 0 g i = i"
| "next_free (Suc n) g i = (if \<not> md_output (mounted g ! i) then i else next_free n g ((i + 1) mod FF_VOLUMES))"

definition set_slot :: "nat \<Rightarrow> (mounted_drive \<Rightarrow> mounted_drive) \<Rightarrow> 'f fat_state \<Rightarrow> 'f fat_state" where
  "set_slot i h g = g\<lparr>mounted := (mounted g)[i := h (mounted g ! i)]\<rparr>"

definition maybe_mount :: "'f ff_lib \<Rightarrow> int \<Rightarrow> u64 \<Rightarrow> ('f, string) fat" where
  "maybe_mount lib blk_offset blk_count = ok_then get_state (\<lambda>g.
     case find_mount blk_offset g of
       Some i \<Rightarrow> ok_then (change (if blk_count \<noteq> 0 then set_slot i (\<lambda>d. d\<lparr>md_block_count := blk_count\<rparr>) else (\<lambda>g. g)))
         (\<lambda>_. from_res (Inr (index_to_mount_path i)))
     | None \<Rightarrow>
         (let i = next_free FF_VOLUMES g (next_mount g) in
          ok_then (change (\<lambda>g. set_slot i (\<lambda>d. d\<lparr>md_output := False\<rparr>) (g\<lparr>next_mount := i\<rparr>))) (\<lambda>_.
          ok_then (CHECK lib ''fat_mount'' [] (F_mount i (index_to_mount_path i))) (\<lambda>_.
          ok_then (change (\<lambda>g. (set_slot i (\<lambda>d. \<lparr>md_output = True, md_block_offset = blk_offset, md_block_count = blk_count\<rparr>) g)
                                \<lparr>next_mount := (i + 1) mod FF_VOLUMES\<rparr>))
            (\<lambda>_. from_res (Inr (index_to_mount_path i)))))))"

definition close_open_files :: "'f ff_lib \<Rightarrow> ('f, unit) fat" where
  "close_open_files lib = ok_then get_state (\<lambda>g.
     if current_file g = None then from_res (Inr ())
     else ok_then (call_ff lib (F_close Fil_global)) (\<lambda>_. change (\<lambda>g. g\<lparr>current_file := None\<rparr>)))"

definition with_file :: "'f ff_lib \<Rightarrow> int \<Rightarrow> string \<Rightarrow> (string \<Rightarrow> ('f, 'a) fat) \<Rightarrow> ('f, 'a) fat" where
  "with_file lib blk_offset filename m =
     ok_then (maybe_mount lib blk_offset 0) (\<lambda>mount_path. m (concatenate_path mount_path filename))"

section \<open>Operations on volumes and names\<close>

text \<open>
  The offset of the last block is computed in the unsigned type \<open>size_t\<close>. All sizes are in blocks
  of 512 bytes.
\<close>

definition last_block_offset :: "int \<Rightarrow> u64 \<Rightarrow> nat res" where
  "last_block_offset blk_offset blk_count = to_offset (512 * (word_of_int blk_offset + blk_count - 1))"

definition fatfs_mkfs :: "'f ff_lib \<Rightarrow> int \<Rightarrow> u64 \<Rightarrow> ('f, unit) fat" where
  "fatfs_mkfs lib blk_offset blk_count =
     ok_then (maybe_mount lib blk_offset blk_count) (\<lambda>mount_path.
     ok_then (from_res (bind_res (byte_offset (blk_offset * 512)) (\<lambda>off. bind_res (to_offset (blk_count * 512)) (\<lambda>n. Inr (off, n)))))
       (\<lambda>(off, n).
     ok_then (\<lambda>s. case on_cache (block_cache_trim off n True) s of (r, s') \<Rightarrow> (with_msg ''Error trimming blocks affected by fat_mkfs'' r, s')) (\<lambda>_.
     ok_then (from_res (last_block_offset blk_offset blk_count)) (\<lambda>lst.
     ok_then (\<lambda>s. case on_cache (block_cache_pwrite (replicate 512 255) lst True) s of (r, s') \<Rightarrow> (with_msg ''Error clearing final FAT sector'' r, s')) (\<lambda>_.
     ok_then (CHECK lib ''fat_mkfs'' [] (F_mkfs mount_path)) (\<lambda>_. from_res (Inr ())))))))"

definition fatfs_mkdir :: "'f ff_lib \<Rightarrow> int \<Rightarrow> string \<Rightarrow> ('f, unit) fat" where
  "fatfs_mkdir lib blk_offset dir =
     ok_then (close_open_files lib) (\<lambda>_. with_file lib blk_offset dir (\<lambda>absolute_dir.
       ok_then (call_ff lib (F_stat absolute_dir)) (\<lambda>info.
         if fr_code info = FR_OK \<and> fr_is_dir info then from_res (Inr ())
         else ok_then (CHECK lib ''fat_mkdir'' dir (F_mkdir absolute_dir)) (\<lambda>_. from_res (Inr ())))))"

definition fatfs_setlabel :: "'f ff_lib \<Rightarrow> int \<Rightarrow> string \<Rightarrow> ('f, unit) fat" where
  "fatfs_setlabel lib blk_offset label =
     ok_then (close_open_files lib) (\<lambda>_. ok_then (maybe_mount lib blk_offset 0) (\<lambda>mount_path.
       ok_then (CHECK lib ''fat_setlabel'' label (F_setlabel (fit_path (mount_path @ label)))) (\<lambda>_. from_res (Inr ()))))"

definition fatfs_rm :: "'f ff_lib \<Rightarrow> int \<Rightarrow> string \<Rightarrow> string \<Rightarrow> bool \<Rightarrow> ('f, unit) fat" where
  "fatfs_rm lib blk_offset cmd filename file_must_exist =
     ok_then (close_open_files lib) (\<lambda>_. with_file lib blk_offset filename (\<lambda>absolute_filename.
       ok_then (call_ff lib (F_unlink absolute_filename)) (\<lambda>r.
         from_res (if fr_code r = FR_OK then Inr ()
           else if (fr_code r = FR_NO_FILE \<or> fr_code r = FR_NO_PATH) \<and> \<not> file_must_exist then Inr ()
           else Inl (fatfs_error cmd filename (fr_code r))))))"

definition fatfs_mv :: "'f ff_lib \<Rightarrow> int \<Rightarrow> string \<Rightarrow> string \<Rightarrow> string \<Rightarrow> bool \<Rightarrow> ('f, unit) fat" where
  "fatfs_mv lib blk_offset cmd from_name to_name force =
     ok_then (close_open_files lib) (\<lambda>_. ok_then (maybe_mount lib blk_offset 0) (\<lambda>mount_path.
       ok_then (if force then fatfs_rm lib blk_offset cmd to_name False else from_res (Inr ())) (\<lambda>_.
       ok_then (CHECK lib cmd from_name (F_rename (concatenate_path mount_path from_name) (concatenate_path mount_path to_name)))
         (\<lambda>_. from_res (Inr ())))))"

definition attrib_bits :: "char \<Rightarrow> file_attrib set" where
  "attrib_bits c = (if c = CHR ''S'' \<or> c = CHR ''s'' then {AM_SYS}
     else if c = CHR ''H'' \<or> c = CHR ''h'' then {AM_HID}
     else if c = CHR ''R'' \<or> c = CHR ''r'' then {AM_RDO} else {})"

definition fatfs_attrib :: "'f ff_lib \<Rightarrow> int \<Rightarrow> string \<Rightarrow> string \<Rightarrow> ('f, unit) fat" where
  "fatfs_attrib lib blk_offset filename attrib =
     with_file lib blk_offset filename (\<lambda>absolute_filename.
       ok_then (CHECK lib ''fat_attrib'' filename (F_chmod absolute_filename (fold (\<lambda>c mode. mode \<union> attrib_bits c) attrib {}) {AM_RDO, AM_HID, AM_SYS}))
         (\<lambda>_. from_res (Inr ())))"

definition fatfs_touch :: "'f ff_lib \<Rightarrow> int \<Rightarrow> string \<Rightarrow> ('f, unit) fat" where
  "fatfs_touch lib blk_offset filename =
     ok_then (close_open_files lib) (\<lambda>_. with_file lib blk_offset filename (\<lambda>absolute_filename.
       ok_then (CHECK lib ''fat_touch'' filename (F_open Fil_local absolute_filename {FA_OPEN_ALWAYS})) (\<lambda>_.
         ok_then (call_ff lib (F_close Fil_local)) (\<lambda>_. from_res (Inr ())))))"

definition fatfs_exists :: "'f ff_lib \<Rightarrow> int \<Rightarrow> string \<Rightarrow> ('f, unit) fat" where
  "fatfs_exists lib blk_offset filename =
     ok_then (close_open_files lib) (\<lambda>_. with_file lib blk_offset filename (\<lambda>absolute_filename.
       ok_then (CHECK lib ''fatfs_exists'' filename (F_open Fil_local absolute_filename {FA_OPEN_EXISTING})) (\<lambda>_.
         ok_then (call_ff lib (F_close Fil_local)) (\<lambda>_. from_res (Inr ())))))"

section \<open>Reading and copying files\<close>

text \<open>
  Copying goes on until the library has no more data for the file; the model stops it after
  \<open>ff_fuel\<close> pieces.
\<close>

definition CHECK_SYNC :: "'f ff_lib \<Rightarrow> string \<Rightarrow> fil_object \<Rightarrow> ('f, unit) fat" where
  "CHECK_SYNC lib filename fil = ok_then (CHECK lib ''sync'' filename (F_sync fil)) (\<lambda>_. from_res (Inr ()))"

primrec cp_loop :: "nat \<Rightarrow> 'f ff_lib \<Rightarrow> string \<Rightarrow> string \<Rightarrow> ('f, unit) fat" where
  "cp_loop 0 lib from_name to_name = from_res (Inl (Undefined ''fuel''))"
| "cp_loop (Suc fuel) lib from_name to_name =
     ok_then (CHECK lib ''fatfs_cp can't read'' from_name (F_read Fil_from 4096)) (\<lambda>r.
       if fr_bytes r = [] then from_res (Inr ())
       else ok_then (CHECK lib ''fatfs_cp can't write'' to_name (F_write Fil_to (fr_bytes r))) (\<lambda>w.
         if length (fr_bytes r) \<noteq> fr_written w then from_res (Inl (Msg ''Error copying file to FAT''))
         else ok_then (CHECK_SYNC lib to_name Fil_to) (\<lambda>_. cp_loop fuel lib from_name to_name)))"

definition fatfs_cp :: "'f ff_lib \<Rightarrow> int \<Rightarrow> string \<Rightarrow> int \<Rightarrow> string \<Rightarrow> ('f, unit) fat" where
  "fatfs_cp lib from_blk from_name to_blk to_name =
     ok_then (close_open_files lib) (\<lambda>_.
     ok_then (maybe_mount lib from_blk 0) (\<lambda>from_mount_path.
     ok_then (maybe_mount lib to_blk 0) (\<lambda>to_mount_path.
     ok_then (CHECK lib ''fatfs_cp can't open file'' from_name (F_open Fil_from (concatenate_path from_mount_path from_name) {FA_READ})) (\<lambda>_.
     ok_then (CHECK lib ''fatfs_cp can't open file'' to_name (F_open Fil_to (concatenate_path to_mount_path to_name) {FA_CREATE_ALWAYS, FA_WRITE})) (\<lambda>_.
     ok_then (CHECK_SYNC lib to_name Fil_to) (\<lambda>_.
     ok_then (cp_loop (ff_fuel lib) lib from_name to_name) (\<lambda>_.
     ok_then (call_ff lib (F_close Fil_from)) (\<lambda>_. ok_then (call_ff lib (F_close Fil_to)) (\<lambda>_. from_res (Inr ()))))))))))"

text \<open>
  \<open>memmem\<close>. Between two reads the end of the data is moved to the front of the buffer with
  \<open>memcpy\<close>, which is undefined if the two places overlap.
\<close>

fun memmem :: "byte list \<Rightarrow> byte list \<Rightarrow> bool" where
  "memmem [] needle = (needle = [])"
| "memmem (b # bs) needle = (take (length needle) (b # bs) = needle \<or> memmem bs needle)"

definition keep_tail :: "nat \<Rightarrow> nat \<Rightarrow> byte list \<Rightarrow> byte list res" where
  "keep_tail br offset buffer =
     (if br - offset < offset then Inl (Undefined ''memcpy'')
      else Inr (write_at 0 (take offset (drop (br - offset) buffer)) buffer))"

primrec match_loop :: "nat \<Rightarrow> 'f ff_lib \<Rightarrow> string \<Rightarrow> byte list \<Rightarrow> byte list \<Rightarrow> nat \<Rightarrow> ('f, unit) fat" where
  "match_loop 0 lib filename pattern buffer offset = from_res (Inl (Undefined ''fuel''))"
| "match_loop (Suc fuel) lib filename pattern buffer offset =
     ok_then (CHECK lib ''fatfs_file_matches'' filename (F_read Fil_local (4096 - offset))) (\<lambda>r.
       let br = length (fr_bytes r); buffer' = write_at offset (fr_bytes r) buffer in
       if br = 0 then from_res (Inl Quiet)
       else if br > 4096 - offset then from_res (Inl (Undefined ''buffer''))
       else if memmem (take br buffer') pattern then from_res (Inr ())
       else if br \<ge> length pattern then
         ok_then (from_res (keep_tail br (length pattern - 1) buffer')) (\<lambda>buffer''.
           match_loop fuel lib filename pattern buffer'' (length pattern - 1))
       else match_loop fuel lib filename pattern buffer' br)"

text \<open>The file is closed whatever the search found.\<close>

definition then_close :: "'f ff_lib \<Rightarrow> ('f, unit) fat \<Rightarrow> ('f, unit) fat" where
  "then_close lib m = (\<lambda>s. case m s of
     (Inl (Undefined w), s') \<Rightarrow> (Inl (Undefined w), s')
   | (r, s') \<Rightarrow> ok_then (call_ff lib (F_close Fil_local)) (\<lambda>_. from_res r) s')"

definition fatfs_file_matches :: "'f ff_lib \<Rightarrow> int \<Rightarrow> string \<Rightarrow> string \<Rightarrow> ('f, unit) fat" where
  "fatfs_file_matches lib blk_offset filename pattern =
     ok_then (close_open_files lib) (\<lambda>_. with_file lib blk_offset filename (\<lambda>absolute_filename.
       ok_then (CHECK lib ''fatfs_file_matches can't open file'' filename (F_open Fil_local absolute_filename {FA_READ})) (\<lambda>_.
         then_close lib (if length pattern \<ge> 4096 then from_res (Inl Quiet)
           else if pattern = [] then from_res (Inr ())
           else match_loop (ff_fuel lib) lib filename (string_bytes pattern) (ff_stack lib 4096) 0))))"

definition fatfs_pread :: "'f ff_lib \<Rightarrow> int \<Rightarrow> string \<Rightarrow> int \<Rightarrow> nat \<Rightarrow> ('f, byte list) fat" where
  "fatfs_pread lib blk_offset filename offset n =
     with_file lib blk_offset filename (\<lambda>absolute_filename.
       ok_then (CHECK lib ''fat_pread can't open file'' filename (F_open Fil_local absolute_filename {FA_READ})) (\<lambda>_.
       ok_then (CHECK lib ''fat_pread can't seek to end of file'' filename (F_lseek Fil_local (word_of_int offset))) (\<lambda>_.
       ok_then (CHECK lib ''fat_read can't read'' filename (F_read Fil_local (n mod 2 ^ 32))) (\<lambda>r.
       ok_then (call_ff lib (F_close Fil_local)) (\<lambda>_. from_res (Inr (fr_bytes r)))))))"

section \<open>Writing files\<close>

text \<open>The file of the last write stays open. Whether it is the right one is decided by its name alone.\<close>

definition close_other_file :: "'f ff_lib \<Rightarrow> string \<Rightarrow> ('f, unit) fat" where
  "close_other_file lib filename = ok_then get_state (\<lambda>g.
     if current_file g \<noteq> None \<and> current_file g \<noteq> Some filename then close_open_files lib else from_res (Inr ()))"

definition open_current :: "'f ff_lib \<Rightarrow> string \<Rightarrow> string \<Rightarrow> string \<Rightarrow> open_mode set \<Rightarrow> ('f, unit) fat" where
  "open_current lib context filename absolute_filename mode =
     ok_then (CHECK lib context filename (F_open Fil_global absolute_filename mode)) (\<lambda>_.
     ok_then (CHECK_SYNC lib filename Fil_global) (\<lambda>_. change (\<lambda>g. g\<lparr>current_file := Some filename\<rparr>)))"

definition fatfs_truncate :: "'f ff_lib \<Rightarrow> int \<Rightarrow> string \<Rightarrow> ('f, unit) fat" where
  "fatfs_truncate lib blk_offset filename =
     ok_then (close_other_file lib filename) (\<lambda>_. with_file lib blk_offset filename (\<lambda>absolute_filename.
       ok_then get_state (\<lambda>g.
         if current_file g = None
         then open_current lib ''Can't open file on FAT partition'' filename absolute_filename {FA_CREATE_ALWAYS, FA_WRITE}
         else ok_then (CHECK lib ''Can't seek to the beginning'' filename (F_lseek Fil_global 0)) (\<lambda>_.
              ok_then (CHECK lib ''Can't truncate file on FAT partition'' filename (F_truncate Fil_global)) (\<lambda>_.
              CHECK_SYNC lib filename Fil_global)))))"

definition write_fil :: "'f ff_lib \<Rightarrow> string \<Rightarrow> byte list \<Rightarrow> ('f, unit) fat" where
  "write_fil lib filename buffer =
     ok_then (CHECK lib ''fat_write can't write'' filename (F_write Fil_global buffer)) (\<lambda>w.
       if length buffer \<noteq> fr_written w then from_res (Inl (Msg ''Error writing file to FAT''))
       else CHECK_SYNC lib filename Fil_global)"

text \<open>The loop ends since every piece but an empty one makes \<open>zero_count\<close> smaller.\<close>

function write_zeros :: "'f ff_lib \<Rightarrow> string \<Rightarrow> nat \<Rightarrow> ('f, unit) fat" where
  "write_zeros lib filename zero_count =
     (if zero_count = 0 then from_res (Inr ())
      else (let btw = (if zero_count < 512 then zero_count else 512) in
        ok_then (write_fil lib filename (replicate btw 0)) (\<lambda>_. write_zeros lib filename (zero_count - btw))))"
  by pat_completeness auto
termination by (relation "measure (\<lambda>(_, _, n). n)") auto

declare write_zeros.simps [simp del]

text \<open>Offsets inside files are 32 bits wide.\<close>

definition seek_fil :: "'f ff_lib \<Rightarrow> string \<Rightarrow> u32 \<Rightarrow> ('f, unit) fat" where
  "seek_fil lib filename desired_offset = ok_then get_state (\<lambda>g.
     if desired_offset = f_tell lib Fil_global (ff g) then from_res (Inr ())
     else if desired_offset > f_size lib Fil_global (ff g) then
       ok_then (CHECK lib ''fat_write can't seek to end of file'' filename (F_lseek Fil_global (f_size lib Fil_global (ff g)))) (\<lambda>_.
       ok_then get_state (\<lambda>g. write_zeros lib filename (unat (desired_offset - f_tell lib Fil_global (ff g)))))
     else ok_then (CHECK lib ''fat_write can't seek in file'' filename (F_lseek Fil_global desired_offset)) (\<lambda>_. from_res (Inr ())))"

definition fatfs_pwrite :: "'f ff_lib \<Rightarrow> int \<Rightarrow> string \<Rightarrow> int \<Rightarrow> byte list \<Rightarrow> ('f, unit) fat" where
  "fatfs_pwrite lib blk_offset filename offset buffer =
     ok_then (close_other_file lib filename) (\<lambda>_. with_file lib blk_offset filename (\<lambda>absolute_filename.
       ok_then (ok_then get_state (\<lambda>g.
         if current_file g = None
         then open_current lib ''fat_write can't open file'' filename absolute_filename {FA_OPEN_ALWAYS, FA_WRITE}
         else from_res (Inr ()))) (\<lambda>_.
       ok_then (seek_fil lib filename (word_of_int offset)) (\<lambda>_.
       write_fil lib filename buffer))))"

section \<open>Closing and the time\<close>

primrec unmount_slots :: "'f ff_lib \<Rightarrow> nat list \<Rightarrow> ('f, unit) fat" where
  "unmount_slots lib [] = from_res (Inr ())"
| "unmount_slots lib (i # is) = ok_then get_state (\<lambda>g.
     ok_then (if md_output (mounted g ! i)
              then ok_then (call_ff lib (F_unmount [])) (\<lambda>_. change (set_slot i (\<lambda>d. d\<lparr>md_output := False\<rparr>)))
              else from_res (Inr ()))
       (\<lambda>_. unmount_slots lib is))"

definition fatfs_closefs :: "'f ff_lib \<Rightarrow> ('f, unit) fat" where
  "fatfs_closefs lib = ok_then (close_open_files lib) (\<lambda>_. ok_then (unmount_slots lib [0..<FF_VOLUMES]) (\<lambda>_.
     change (\<lambda>g. g\<lparr>next_mount := 0\<rparr>)))"

record broken_down_time =
  tm_sec :: int
  tm_min :: int
  tm_hour :: int
  tm_mday :: int
  tm_mon :: int
  tm_year :: int

definition fatfs_set_time :: "broken_down_time \<Rightarrow> ('f, unit) fat" where
  "fatfs_set_time tmp = change (\<lambda>g. g\<lparr>fattime :=
     push_bit 25 (word_of_int (tm_year tmp - 80)) OR push_bit 21 (word_of_int (tm_mon tmp + 1)) OR push_bit 16 (word_of_int (tm_mday tmp)) OR
     push_bit 11 (word_of_int (tm_hour tmp)) OR push_bit 5 (word_of_int (tm_min tmp)) OR word_of_int (drop_bit 1 (tm_sec tmp))\<rparr>)"

section \<open>The calls of the functions of a task\<close>

text \<open>
  How the calls of \<open>functions.c\<close> and \<open>requirement.c\<close> are answered. Their block offsets are unsigned numbers of 64 bits that become
  an \<open>off_t\<close>.
\<close>

definition off_t :: "u64 \<Rightarrow> int" where "off_t v = sint v"

fun fat_answer :: "'f ff_lib \<Rightarrow> fat_call \<Rightarrow> ('f, unit) fat" where
  "fat_answer lib (Fat_mkfs b n) = fatfs_mkfs lib (off_t b) n"
| "fat_answer lib (Fat_attrib b name attrib) = fatfs_attrib lib (off_t b) name attrib"
| "fat_answer lib (Fat_truncate b name) = fatfs_truncate lib (off_t b) name"
| "fat_answer lib (Fat_pwrite b name offset buf) = fatfs_pwrite lib (off_t b) name offset buf"
| "fat_answer lib (Fat_mv b cmd x y force) = fatfs_mv lib (off_t b) cmd x y force"
| "fat_answer lib (Fat_rm b cmd x must_not_exist) = fatfs_rm lib (off_t b) cmd x must_not_exist"
| "fat_answer lib (Fat_cp b x b' y) = fatfs_cp lib (off_t b) x (off_t b') y"
| "fat_answer lib (Fat_mkdir b x) = fatfs_mkdir lib (off_t b) x"
| "fat_answer lib (Fat_setlabel b x) = fatfs_setlabel lib (off_t b) x"
| "fat_answer lib (Fat_touch b x) = fatfs_touch lib (off_t b) x"
| "fat_answer lib (Fat_exists b x) = fatfs_exists lib (off_t b) x"
| "fat_answer lib (Fat_file_matches b x pattern) = fatfs_file_matches lib (off_t b) x pattern"
| "fat_answer lib Fat_closefs = fatfs_closefs lib"

end
