(* ===== verification/Fat_Safety.thy ===== *)
theory Fat_Safety
  imports Fat_Fs
begin

text \<open>
  What the operations on FAT file systems keep and what they do to the open file. The first part holds whatever the
  FatFs library does; the second relies on its documented behaviour for one open file.
\<close>

section \<open>Operations that keep a property\<close>

definition fkeeps :: "(block_cache \<times> 'f fat_state \<Rightarrow> bool) \<Rightarrow> ('f, 'a) fat \<Rightarrow> bool" where
  "fkeeps I m = (\<forall>s. I s \<longrightarrow> I (snd (m s)))"

named_theorems fkeeps_intros \<open>operations on file systems that keep a property\<close>

lemma fkeepsI: "(\<And>s. I s \<Longrightarrow> I (snd (m s))) \<Longrightarrow> fkeeps I m"
  by (simp add: fkeeps_def)

lemma fkeepsD: "fkeeps I m \<Longrightarrow> I s \<Longrightarrow> m s = (r, s') \<Longrightarrow> I s'"
  unfolding fkeeps_def by (metis snd_conv)

lemma fkeeps_ok_then [fkeeps_intros]:
  assumes "fkeeps I m" and "\<And>x. fkeeps I (f x)"
  shows "fkeeps I (ok_then m f)"
proof (rule fkeepsI)
  fix s assume I: "I s"
  obtain r s1 where m: "m s = (r, s1)" by (cases "m s")
  have "I s1" by (rule fkeepsD [OF assms(1) I m])
  moreover have "I (snd (f x s1))" if "I s1" for x using that assms(2) unfolding fkeeps_def by blast
  ultimately show "I (snd (ok_then m f s))" using m by (cases r) (simp_all add: ok_then_def)
qed

lemma fkeeps_simple [fkeeps_intros]: "fkeeps I (from_res r)" "fkeeps I get_state"
  by (auto simp: fkeeps_def from_res_def get_state_def split: sum.splits)

lemma get_state_then [simp]: "ok_then get_state f (bc, g) = f g (bc, g)"
  by (simp add: ok_then_def get_state_def)

lemma change_then [simp]: "ok_then (change h) f (bc, g) = f () (bc, h g)"
  by (simp add: ok_then_def change_def)

declare from_res_then [simp]

lemma fkeeps_if [fkeeps_intros]: "(b \<Longrightarrow> fkeeps I m) \<Longrightarrow> (\<not> b \<Longrightarrow> fkeeps I m') \<Longrightarrow> fkeeps I (if b then m else m')"
  by simp

lemma fkeeps_let [fkeeps_intros]: "fkeeps I (m x) \<Longrightarrow> fkeeps I (let y = x in m y)"
  by simp

lemma fkeeps_prod [fkeeps_intros]: "(\<And>a b. fkeeps I (m a b)) \<Longrightarrow> fkeeps I (case p of (a, b) \<Rightarrow> m a b)"
  by (cases p) simp

lemma fkeeps_disk_answer [fkeeps_intros]:
  assumes "fkeeps I m" shows "fkeeps I (disk_answer x m)"
proof (rule fkeepsI)
  fix s assume "I s"
  then show "I (snd (disk_answer x m s))"
    using fkeepsD [OF assms, of s] by (cases "m s") (auto simp: disk_answer_def split: sum.splits error.splits)
qed

section \<open>Nothing in front of the volumes is touched\<close>

text \<open>
  The cache works and holds the bytes of \<open>bc0\<close> up to block \<open>lo\<close>, and no mounted volume starts
  before that block.
\<close>

definition front_kept :: "nat \<Rightarrow> block_cache \<Rightarrow> block_cache \<times> 'f fat_state \<Rightarrow> bool" where
  "front_kept lo bc0 = (\<lambda>(bc, g). healthy bc \<and> cache_ok bc \<and> (\<forall>a < 512 * lo. view bc a = view bc0 a) \<and>
     length (mounted g) = FF_VOLUMES \<and> next_mount g < FF_VOLUMES \<and>
     (\<forall>i < FF_VOLUMES. md_output (mounted g ! i) \<longrightarrow> int lo \<le> md_block_offset (mounted g ! i)))"

lemma byte_offset_Inr: "byte_offset v = Inr n \<longleftrightarrow> 0 \<le> v \<and> v < 2 ^ 63 \<and> n = nat v"
  by (auto simp: byte_offset_def int64_def bind_res_eq_Inr)

lemma front_kept_read: "fkeeps (front_kept lo bc0) (on_cache (block_cache_pread n off))"
proof (rule fkeepsI)
  fix s :: "block_cache \<times> 'a fat_state" assume I: "front_kept lo bc0 s"
  obtain bc g where s: "s = (bc, g)" by (cases s)
  have h: "healthy bc" "cache_ok bc" using I by (auto simp: s front_kept_def)
  then have "unchanged bc bc" by (simp add: unchanged_def same_view_def)
  from pread_unchanged(2) [OF this, of n off] obtain out bc'
    where r: "block_cache_pread n off bc = (Inr out, bc')" "unchanged bc bc'" by blast
  have "view bc' a = view bc a" for a
    using r(2) healthy_range [OF h(1), of a 1] by (auto simp: unchanged_def same_view_def range_ok_def)
  then show "front_kept lo bc0 (snd (on_cache (block_cache_pread n off) s))"
    using I r by (auto simp: s front_kept_def on_cache_def unchanged_def)
qed

lemma front_kept_write:
  assumes "front_kept lo bc0 (bc, g)" and "512 * lo \<le> off" and "512 dvd off" and "512 dvd length buf"
  shows "front_kept lo bc0 (snd (on_cache (block_cache_pwrite buf off strm) (bc, g)))"
proof -
  have h: "healthy bc" "cache_ok bc" using assms(1) by (auto simp: front_kept_def)
  obtain u bc' where r: "block_cache_pwrite buf off strm bc = (Inr u, bc')" "healthy bc'"
    using block_cache_pwrite_succeeds h(1) by (rule succeedsD)
  note w = cache.wr_law [OF r(1) h(2) assms(3,4)]
  have "view bc' a = view bc a" if "a < 512 * lo" for a
    using w that assms(2) healthy_range [OF h(1), of a 1] by (auto simp: store_bytes_def range_ok_def)
  then show ?thesis using assms(1) r w by (auto simp: front_kept_def on_cache_def)
qed

lemma mounted_front:
  "front_kept lo bc0 (bc, g) \<Longrightarrow> drive_mounted pdrv g \<Longrightarrow> sector_offset pdrv sector g = Inr off \<Longrightarrow> 512 * lo \<le> off \<and> 512 dvd off"
proof -
  assume k: "front_kept lo bc0 (bc, g)" "drive_mounted pdrv g" and o: "sector_offset pdrv sector g = Inr off"
  let ?b = "md_block_offset (mounted g ! pdrv)"
  have b: "int lo \<le> ?b" using k by (auto simp: front_kept_def drive_mounted_def)
  have off: "off = nat (512 * (?b + uint sector))" using o by (simp add: sector_offset_def byte_offset_Inr)
  then have "off = 512 * nat (?b + uint sector)" using b by (simp add: nat_mult_distrib)
  moreover have "int lo \<le> ?b + uint sector" using b uint_ge_0 [of sector] by linarith
  then have "lo \<le> nat (?b + uint sector)" by linarith
  ultimately show ?thesis by simp
qed

lemma fkeeps_disk_read [fkeeps_intros]: "fkeeps (front_kept lo bc0) (disk_read pdrv sector count)"
  unfolding disk_read_def by (intro fkeeps_intros front_kept_read)

lemma fkeeps_disk_write:
  assumes "length buff mod 512 = 0"
  shows "fkeeps (front_kept lo bc0) (disk_write pdrv buff sector)"
proof (rule fkeepsI)
  fix s :: "block_cache \<times> 'a fat_state" assume I: "front_kept lo bc0 s"
  obtain bc g where s: "s = (bc, g)" by (cases s)
  show "front_kept lo bc0 (snd (disk_write pdrv buff sector s))"
  proof (cases "drive_mounted pdrv g \<and> (\<exists>off. sector_offset pdrv sector g = Inr off)")
    case True
    then obtain off where o: "drive_mounted pdrv g" "sector_offset pdrv sector g = Inr off" by blast
    have "front_kept lo bc0 (snd (on_cache (block_cache_pwrite buff off (sector > 2048)) (bc, g)))"
      using front_kept_write [of lo bc0 bc g off buff] I mounted_front [OF _ o] assms by (auto simp: s)
    then show ?thesis using o
      by (auto simp: s disk_write_def ok_then_def get_state_def from_res_def disk_answer_def Let_def split: prod.splits sum.splits error.splits)
  next
    case False
    then show ?thesis using I
      by (auto simp: s disk_write_def ok_then_def get_state_def from_res_def disk_answer_def Let_def split: prod.splits sum.splits error.splits)
  qed
qed

lemma fkeeps_run_program [fkeeps_intros]: "fkeeps (front_kept lo bc0) (run_program p)"
proof (induction p)
  case (Ff_write pdrv sector buff k)
  show ?case
  proof (cases "length buff mod 512 = 0")
    case True
    show ?thesis by (simp only: run_program.simps True simp_thms if_True) (intro fkeeps_ok_then fkeeps_disk_write True Ff_write rangeI)
  qed (simp add: fkeeps_def)
next
  case (Ff_read pdrv sector count k)
  then show ?case by (simp only: run_program.simps) (intro fkeeps_intros, blast)
qed (auto simp: fkeeps_def from_res_def)

lemma fkeeps_change:
  "(\<And>bc g. front_kept lo bc0 (bc, g) \<Longrightarrow> front_kept lo bc0 (bc, h g)) \<Longrightarrow> fkeeps (front_kept lo bc0) (change h)"
  by (auto simp: fkeeps_def change_def)

lemma fkeeps_harmless [fkeeps_intros]:
  "fkeeps (front_kept lo bc0) (change (\<lambda>g. g\<lparr>ff := f\<rparr>))"
  "fkeeps (front_kept lo bc0) (change (\<lambda>g. g\<lparr>current_file := c\<rparr>))"
  "fkeeps (front_kept lo bc0) (change (\<lambda>g. g\<lparr>next_mount := 0\<rparr>))"
  "fkeeps (front_kept lo bc0) (change (\<lambda>g. g))"
  by (intro fkeeps_change; simp add: front_kept_def FF_VOLUMES_def)+

lemma fkeeps_set_slot [fkeeps_intros]:
  "(\<And>d. (md_output d \<longrightarrow> int lo \<le> md_block_offset d) \<Longrightarrow> md_output (h d) \<longrightarrow> int lo \<le> md_block_offset (h d)) \<Longrightarrow>
   fkeeps (front_kept lo bc0) (change (set_slot i h))"
proof (rule fkeeps_change)
  fix bc g assume h: "\<And>d. (md_output d \<longrightarrow> int lo \<le> md_block_offset d) \<Longrightarrow> md_output (h d) \<longrightarrow> int lo \<le> md_block_offset (h d)"
    and k: "front_kept lo bc0 (bc, g)"
  have "md_output ((mounted g)[i := h (mounted g ! i)] ! j) \<longrightarrow> int lo \<le> md_block_offset ((mounted g)[i := h (mounted g ! i)] ! j)"
    if "j < FF_VOLUMES" for j
    using that k h [of "mounted g ! i"] by (cases "j = i") (auto simp: front_kept_def)
  then show "front_kept lo bc0 (bc, set_slot i h g)" using k by (simp add: front_kept_def set_slot_def)
qed

lemma fkeeps_call_ff [fkeeps_intros]: "fkeeps (front_kept lo bc0) (call_ff lib c)"
  unfolding call_ff_def by (intro fkeeps_intros)

lemma fkeeps_CHECK [fkeeps_intros]: "fkeeps (front_kept lo bc0) (CHECK lib context filename c)"
  unfolding CHECK_def by (intro fkeeps_intros)

lemma fkeeps_CHECK_SYNC [fkeeps_intros]: "fkeeps (front_kept lo bc0) (CHECK_SYNC lib filename fil)"
  unfolding CHECK_SYNC_def by (intro fkeeps_intros)

lemma next_free_less: "i < FF_VOLUMES \<Longrightarrow> next_free n g i < FF_VOLUMES"
  by (induction n arbitrary: i) (auto simp: FF_VOLUMES_def)

lemma front_kept_set_slot:
  assumes "front_kept lo bc0 (bc, g)" and "md_output (h (mounted g ! i)) \<longrightarrow> int lo \<le> md_block_offset (h (mounted g ! i))"
  shows "front_kept lo bc0 (bc, set_slot i h g)"
proof -
  have "md_output ((mounted g)[i := h (mounted g ! i)] ! j) \<longrightarrow> int lo \<le> md_block_offset ((mounted g)[i := h (mounted g ! i)] ! j)"
    if "j < FF_VOLUMES" for j
    using that assms by (cases "j = i") (auto simp: front_kept_def)
  then show ?thesis using assms by (simp add: front_kept_def set_slot_def)
qed

lemma fkeeps_free_slot:
  "i < FF_VOLUMES \<Longrightarrow> fkeeps (front_kept lo bc0) (change (\<lambda>g. set_slot i (\<lambda>d. d\<lparr>md_output := False\<rparr>) (g\<lparr>next_mount := i\<rparr>)))"
  by (rule fkeeps_change, rule front_kept_set_slot) (simp_all add: front_kept_def)

lemma fkeeps_use_slot:
  assumes "int lo \<le> b"
  shows "fkeeps (front_kept lo bc0) (change (\<lambda>g. (set_slot i (\<lambda>d. \<lparr>md_output = True, md_block_offset = b, md_block_count = n\<rparr>) g)
      \<lparr>next_mount := (i + 1) mod FF_VOLUMES\<rparr>))"
proof (rule fkeeps_change)
  fix bc g assume "front_kept lo bc0 (bc, g)"
  then have "front_kept lo bc0 (bc, set_slot i (\<lambda>d. \<lparr>md_output = True, md_block_offset = b, md_block_count = n\<rparr>) g)"
    by (rule front_kept_set_slot) (use assms in simp)
  then show "front_kept lo bc0 (bc, (set_slot i (\<lambda>d. \<lparr>md_output = True, md_block_offset = b, md_block_count = n\<rparr>) g)
      \<lparr>next_mount := (i + 1) mod FF_VOLUMES\<rparr>)"
    by (simp add: front_kept_def FF_VOLUMES_def)
qed

lemma find_mount_Some:
  "find_mount b g = Some i \<Longrightarrow> i < FF_VOLUMES \<and> md_output (mounted g ! i) \<and> md_block_offset (mounted g ! i) = b"
  by (auto simp: find_mount_def find_Some_iff)

lemma fkeeps_maybe_mount:
  assumes "int lo \<le> b"
  shows "fkeeps (front_kept lo bc0) (maybe_mount lib b n)"
proof (rule fkeepsI)
  fix s :: "block_cache \<times> 'a fat_state" assume I: "front_kept lo bc0 s"
  obtain bc g where s: "s = (bc, g)" by (cases s)
  let ?i = "next_free FF_VOLUMES g (next_mount g)"
  have i: "?i < FF_VOLUMES" by (rule next_free_less) (use I in \<open>simp add: s front_kept_def\<close>)
  have m: "fkeeps (front_kept lo bc0) (let i = ?i in
      ok_then (change (\<lambda>g. set_slot i (\<lambda>d. d\<lparr>md_output := False\<rparr>) (g\<lparr>next_mount := i\<rparr>))) (\<lambda>_.
      ok_then (CHECK lib ''fat_mount'' [] (F_mount i (index_to_mount_path i))) (\<lambda>_.
      ok_then (change (\<lambda>g. (set_slot i (\<lambda>d. \<lparr>md_output = True, md_block_offset = b, md_block_count = n\<rparr>) g)
                            \<lparr>next_mount := (i + 1) mod FF_VOLUMES\<rparr>))
        (\<lambda>_. from_res (Inr (index_to_mount_path i))))))"
    unfolding Let_def by (intro fkeeps_intros fkeeps_free_slot fkeeps_use_slot i assms)
  show "front_kept lo bc0 (snd (maybe_mount lib b n s))"
  proof (cases "find_mount b g")
    case None
    have "maybe_mount lib b n s = (let i = ?i in
      ok_then (change (\<lambda>g. set_slot i (\<lambda>d. d\<lparr>md_output := False\<rparr>) (g\<lparr>next_mount := i\<rparr>))) (\<lambda>_.
      ok_then (CHECK lib ''fat_mount'' [] (F_mount i (index_to_mount_path i))) (\<lambda>_.
      ok_then (change (\<lambda>g. (set_slot i (\<lambda>d. \<lparr>md_output = True, md_block_offset = b, md_block_count = n\<rparr>) g)
                            \<lparr>next_mount := (i + 1) mod FF_VOLUMES\<rparr>))
        (\<lambda>_. from_res (Inr (index_to_mount_path i)))))) s"
      by (simp only: maybe_mount_def s get_state_then None option.case)
    then show ?thesis using m I by (simp only: fkeeps_def)
  next
    case (Some j)
    then show ?thesis using I find_mount_Some [OF Some] assms
      by (auto simp: maybe_mount_def s from_res_def intro!: front_kept_set_slot)
  qed
qed

lemma fkeeps_close_open_files [fkeeps_intros]: "fkeeps (front_kept lo bc0) (close_open_files lib)"
  unfolding close_open_files_def by (intro fkeeps_intros)

lemma fkeeps_close_other_file [fkeeps_intros]: "fkeeps (front_kept lo bc0) (close_other_file lib filename)"
  unfolding close_other_file_def by (intro fkeeps_intros)

lemma fkeeps_with_file:
  "int lo \<le> b \<Longrightarrow> (\<And>path. fkeeps (front_kept lo bc0) (m path)) \<Longrightarrow> fkeeps (front_kept lo bc0) (with_file lib b filename m)"
  unfolding with_file_def by (intro fkeeps_intros fkeeps_maybe_mount)

lemma fkeeps_open_current [fkeeps_intros]: "fkeeps (front_kept lo bc0) (open_current lib context filename path mode)"
  unfolding open_current_def by (intro fkeeps_intros)

lemma fkeeps_write_fil [fkeeps_intros]: "fkeeps (front_kept lo bc0) (write_fil lib filename buffer)"
  unfolding write_fil_def by (intro fkeeps_intros)

lemma fkeeps_write_zeros [fkeeps_intros]: "fkeeps (front_kept lo bc0) (write_zeros lib filename n)"
proof (induction lib filename n rule: write_zeros.induct)
  case (1 lib filename n)
  show ?case unfolding write_zeros.simps [of lib filename n] Let_def by (intro fkeeps_intros 1 refl)
qed

lemma fkeeps_seek_fil [fkeeps_intros]: "fkeeps (front_kept lo bc0) (seek_fil lib filename offset)"
  unfolding seek_fil_def by (intro fkeeps_intros)

lemma fkeeps_cp_loop [fkeeps_intros]: "fkeeps (front_kept lo bc0) (cp_loop fuel lib x y)"
proof (induction fuel)
  case (Suc fuel)
  show ?case unfolding cp_loop.simps by (intro fkeeps_intros Suc)
qed (simp add: fkeeps_simple)

lemma fkeeps_match_loop [fkeeps_intros]: "fkeeps (front_kept lo bc0) (match_loop fuel lib x pattern buffer offset)"
proof (induction fuel arbitrary: buffer offset)
  case (Suc fuel)
  show ?case unfolding match_loop.simps Let_def by (intro fkeeps_intros Suc)
qed (simp add: fkeeps_simple)

lemma fkeeps_then_close [fkeeps_intros]:
  fixes m :: "('f, unit) fat"
  assumes "fkeeps (front_kept lo bc0) m" shows "fkeeps (front_kept lo bc0) (then_close lib m)"
proof (rule fkeepsI)
  fix s :: "block_cache \<times> 'f fat_state" assume "front_kept lo bc0 s"
  then have I: "front_kept lo bc0 (snd (m s))" using assms by (simp only: fkeeps_def)
  have "fkeeps (front_kept lo bc0) (ok_then (call_ff lib (F_close Fil_local)) (\<lambda>_. from_res (fst (m s))))"
    by (intro fkeeps_intros)
  then have "front_kept lo bc0 (snd (ok_then (call_ff lib (F_close Fil_local)) (\<lambda>_. from_res (fst (m s))) (snd (m s))))"
    using I by (simp only: fkeeps_def)
  then show "front_kept lo bc0 (snd (then_close lib m s))"
    using I by (cases "m s") (auto simp: then_close_def split: sum.splits error.splits)
qed

lemma fkeeps_unmount_slots [fkeeps_intros]: "fkeeps (front_kept lo bc0) (unmount_slots lib is)"
proof (induction "is")
  case (Cons i "is")
  show ?case unfolding unmount_slots.simps by (intro fkeeps_intros Cons) simp
qed (simp add: fkeeps_simple)

lemma fkeeps_rm: "int lo \<le> b \<Longrightarrow> fkeeps (front_kept lo bc0) (fatfs_rm lib b cmd filename e)"
  unfolding fatfs_rm_def by (intro fkeeps_intros fkeeps_with_file)

text \<open>The volumes that a call names start at or behind a block. Making a file system is left out: it has a block count as well.\<close>

fun behind :: "nat \<Rightarrow> fat_call \<Rightarrow> bool" where
  "behind lo (Fat_mkfs b n) = False"
| "behind lo (Fat_attrib b name attrib) = (int lo \<le> off_t b)"
| "behind lo (Fat_truncate b name) = (int lo \<le> off_t b)"
| "behind lo (Fat_pwrite b name offset buf) = (int lo \<le> off_t b)"
| "behind lo (Fat_mv b cmd x y force) = (int lo \<le> off_t b)"
| "behind lo (Fat_rm b cmd x e) = (int lo \<le> off_t b)"
| "behind lo (Fat_cp b x b' y) = (int lo \<le> off_t b \<and> int lo \<le> off_t b')"
| "behind lo (Fat_mkdir b x) = (int lo \<le> off_t b)"
| "behind lo (Fat_setlabel b x) = (int lo \<le> off_t b)"
| "behind lo (Fat_touch b x) = (int lo \<le> off_t b)"
| "behind lo (Fat_exists b x) = (int lo \<le> off_t b)"
| "behind lo (Fat_file_matches b x pattern) = (int lo \<le> off_t b)"
| "behind lo Fat_closefs = True"

lemma fkeeps_fat_answer: "behind lo c \<Longrightarrow> fkeeps (front_kept lo bc0) (fat_answer lib c)"
proof (induction lib c rule: fat_answer.induct)
  case (2 lib b name attrib)
  then show ?case by (simp add: fatfs_attrib_def) (intro fkeeps_intros fkeeps_with_file)
next
  case (3 lib b name)
  then show ?case by (simp add: fatfs_truncate_def) (intro fkeeps_intros fkeeps_with_file)
next
  case (4 lib b name offset buf)
  then show ?case by (simp add: fatfs_pwrite_def) (intro fkeeps_intros fkeeps_with_file)
next
  case (5 lib b cmd x y force)
  then show ?case by (simp only: fat_answer.simps fatfs_mv_def behind.simps) (intro fkeeps_intros fkeeps_maybe_mount fkeeps_rm)
next
  case (6 lib b cmd x e)
  then show ?case by (simp add: fkeeps_rm)
next
  case (7 lib b x b' y)
  then show ?case by (simp add: fatfs_cp_def) (intro fkeeps_intros fkeeps_maybe_mount, simp_all)
next
  case (8 lib b x)
  then show ?case by (simp add: fatfs_mkdir_def) (intro fkeeps_intros fkeeps_with_file)
next
  case (9 lib b x)
  then show ?case by (simp add: fatfs_setlabel_def) (intro fkeeps_intros fkeeps_maybe_mount)
next
  case (10 lib b x)
  then show ?case by (simp add: fatfs_touch_def) (intro fkeeps_intros fkeeps_with_file)
next
  case (11 lib b x)
  then show ?case by (simp add: fatfs_exists_def) (intro fkeeps_intros fkeeps_with_file)
next
  case (12 lib b x pattern)
  then show ?case by (simp only: fat_answer.simps fatfs_file_matches_def behind.simps) (intro fkeeps_intros fkeeps_with_file)
next
  case (13 lib)
  then show ?case by (simp add: fatfs_closefs_def) (intro fkeeps_intros)
qed simp

text \<open>
  C29: whatever the FatFs library does, no operation on files writes in front of the volumes. If all mounted volumes and those that the
  call names start at or behind block \<open>lo\<close>, then every byte before it is the same afterwards, whether the call
  succeeds or not, and this stays so for the volumes that are mounted then.
\<close>

theorem fat_calls_keep_front:
  assumes "healthy bc" and "cache_ok bc"
    and "length (mounted g) = FF_VOLUMES" and "next_mount g < FF_VOLUMES"
    and "\<forall>i < FF_VOLUMES. md_output (mounted g ! i) \<longrightarrow> int lo \<le> md_block_offset (mounted g ! i)"
    and "behind lo c" and "fat_answer lib c (bc, g) = (r, (bc', g'))"
  shows "(\<forall>a < 512 * lo. view bc' a = view bc a) \<and> healthy bc' \<and> cache_ok bc' \<and>
    (\<forall>i < FF_VOLUMES. md_output (mounted g' ! i) \<longrightarrow> int lo \<le> md_block_offset (mounted g' ! i))"
proof -
  have "front_kept lo bc (bc, g)" using assms(1-5) by (simp add: front_kept_def)
  from fkeepsD [OF fkeeps_fat_answer [OF assms(6)] this assms(7)] show ?thesis by (simp add: front_kept_def)
qed

text \<open>A library that ends every call with \<open>FR_OK\<close> after it wrote a sector of ones to the first sector of the first volume.\<close>

definition scribbling_lib :: "unit ff_lib" where
  "scribbling_lib = \<lparr>ff_run = (\<lambda>c f. Ff_write 0 0 (replicate 512 255) (\<lambda>_. Ff_return (\<lparr>fr_code = FR_OK, fr_is_dir = False, fr_bytes = [], fr_written = 0\<rparr>, ()))),
     f_tell = (\<lambda>_ _. 0), f_size = (\<lambda>_ _. 0), ff_stack = (\<lambda>n. replicate n 0), ff_fuel = 10\<rparr>"

theorem fat_calls_keep_front_witness:
  "\<exists>r bc' g'. fat_answer scribbling_lib (Fat_touch 63 ''a'') (file_cache (\<lambda>_. 7) 65536, fat_init ()) = (r, (bc', g')) \<and>
    (\<forall>a < 512 * 63. view bc' a = view (file_cache (\<lambda>_. 7) 65536) a)"
proof -
  obtain r bc' g' where a: "fat_answer scribbling_lib (Fat_touch 63 ''a'') (file_cache (\<lambda>_. 7) 65536, fat_init ()) = (r, (bc', g'))"
    by (cases "fat_answer scribbling_lib (Fat_touch 63 ''a'') (file_cache (\<lambda>_. 7) 65536, fat_init ())") auto
  have "behind 63 (Fat_touch 63 ''a'')" by (simp add: off_t_def)
  from fat_calls_keep_front [OF file_cache_healthy file_cache_ok(1) _ _ _ this a]
  have "\<forall>a < 512 * 63. view bc' a = view (file_cache (\<lambda>_. 7) 65536) a"
    by (simp add: fat_init_def FF_VOLUMES_def)
  then show ?thesis using a by blast
qed

end
