(* ===== verification/Fat_Write.thy ===== *)
theory Fat_Write
  imports Fat_Safety
begin

text \<open>
  What writing a file does: the contents of the open file after it was truncated and written in pieces, on a library that
  follows the documentation of FatFs for one open file, and two places where the code does not do
  what it means to.
\<close>

section \<open>The library as its documentation has it\<close>

text \<open>Bytes stored at an offset; a gap in front of them is filled with zeros.\<close>

definition put :: "nat \<Rightarrow> byte list \<Rightarrow> byte list \<Rightarrow> byte list" where
  "put off buf d = (let d' = d @ replicate (off - length d) 0 in take off d' @ buf @ drop (off + length buf) d')"

lemma put_end: "put (length d) buf d = d @ buf"
  by (simp add: put_def)

lemma put_extended: "put off buf (d @ replicate (off - length d) 0) = put off buf d"
  by (simp add: put_def)

lemma length_put: "length (put off buf d) = max (length d) (off + length buf)"
  by (auto simp: put_def Let_def)

text \<open>
  \<open>dat\<close> and \<open>pos\<close> are the contents of the global \<open>FIL\<close> and its position. The laws are those of calls that
  succeed: a write that is cut short tells so, and a position inside of the file is reached without changing it.
\<close>

fun file_law :: "ff_call \<Rightarrow> ('f \<Rightarrow> byte list) \<Rightarrow> ('f \<Rightarrow> nat) \<Rightarrow> 'f \<Rightarrow> ff_result \<Rightarrow> 'f \<Rightarrow> bool" where
  "file_law (F_write Fil_global buf) dat pos f r f' =
     (fr_written r \<le> length buf \<and> dat f' = put (pos f) (take (fr_written r) buf) (dat f) \<and> pos f' = pos f + fr_written r)"
| "file_law (F_lseek Fil_global n) dat pos f r f' = (unat n \<le> length (dat f) \<longrightarrow> dat f' = dat f \<and> pos f' = unat n)"
| "file_law (F_sync Fil_global) dat pos f r f' = (dat f' = dat f \<and> pos f' = pos f)"
| "file_law (F_truncate Fil_global) dat pos f r f' = (dat f' = take (pos f) (dat f) \<and> pos f' = pos f)"
| "file_law (F_open Fil_global path mode) dat pos f r f' = (FA_CREATE_ALWAYS \<in> mode \<longrightarrow> dat f' = [] \<and> pos f' = 0)"
| "file_law c dat pos f r f' = True"

definition file_lib :: "'f ff_lib \<Rightarrow> ('f \<Rightarrow> byte list) \<Rightarrow> ('f \<Rightarrow> nat) \<Rightarrow> bool" where
  "file_lib lib dat pos \<longleftrightarrow>
     (\<forall>f. f_tell lib Fil_global f = of_nat (pos f) \<and> f_size lib Fil_global f = of_nat (length (dat f))) \<and>
     (\<forall>c bc g r f' s. run_program (ff_run lib c (ff g)) (bc, g) = (Inr (r, f'), s) \<and> fr_code r = FR_OK \<longrightarrow>
        file_law c dat pos (ff g) r f')"

section \<open>Calls of the library\<close>

lemma disk_read_state: "disk_read pdrv sector count (bc, g) = (r, s) \<Longrightarrow> snd s = g"
  by (auto simp: disk_read_def disk_answer_def on_cache_def from_res_def ok_then_def get_state_def split: if_splits prod.splits sum.splits error.splits)

lemma disk_write_state: "disk_write pdrv buff sector (bc, g) = (r, s) \<Longrightarrow> snd s = g"
  by (auto simp: disk_write_def disk_answer_def on_cache_def from_res_def ok_then_def get_state_def Let_def split: if_splits prod.splits sum.splits error.splits)

lemma run_program_state: "run_program p (bc, g) = (r, s) \<Longrightarrow> snd s = g"
proof (induction p arbitrary: bc)
  case (Ff_read pdrv sector count k)
  obtain a s1 where a: "disk_read pdrv sector count (bc, g) = (a, s1)" by (cases "disk_read pdrv sector count (bc, g)")
  have "snd s1 = g" by (rule disk_read_state [OF a])
  then show ?case using Ff_read a by (cases s1) (auto simp: ok_then_def split: sum.splits)
next
  case (Ff_write pdrv sector buff k)
  obtain a s1 where a: "disk_write pdrv buff sector (bc, g) = (a, s1)" by (cases "disk_write pdrv buff sector (bc, g)")
  have "snd s1 = g" by (rule disk_write_state [OF a])
  then show ?case using Ff_write a by (cases s1) (auto simp: ok_then_def split: sum.splits if_splits)
qed (auto simp: from_res_def split: if_splits)

lemma call_ff_Inr:
  assumes "file_lib lib dat pos" and "call_ff lib c (bc, g) = (Inr r, (bc', g'))"
  shows "\<exists>f'. g' = g\<lparr>ff := f'\<rparr> \<and> (fr_code r = FR_OK \<longrightarrow> file_law c dat pos (ff g) r f')"
proof -
  obtain q s1 where q: "run_program (ff_run lib c (ff g)) (bc, g) = (q, s1)" by (cases "run_program (ff_run lib c (ff g)) (bc, g)")
  have g: "snd s1 = g" by (rule run_program_state [OF q])
  obtain f' where q': "q = Inr (r, f')" "g' = g\<lparr>ff := f'\<rparr>"
    using assms(2) q g by (cases s1) (auto simp: call_ff_def ok_then_def change_def get_state_def from_res_def split: sum.splits prod.splits)
  then show ?thesis using assms(1) q unfolding file_lib_def by blast
qed

lemma CHECK_Inr:
  assumes "file_lib lib dat pos" and "CHECK lib context filename c (bc, g) = (Inr r, (bc', g'))"
  shows "\<exists>f'. g' = g\<lparr>ff := f'\<rparr> \<and> file_law c dat pos (ff g) r f'"
proof -
  obtain a s1 where a: "call_ff lib c (bc, g) = (a, s1)" by (cases "call_ff lib c (bc, g)")
  have "a = Inr r" "fr_code r = FR_OK" "s1 = (bc', g')"
    using assms(2) a by (auto simp: CHECK_def ok_then_def from_res_def split: sum.splits if_splits)
  then show ?thesis using call_ff_Inr [OF assms(1)] a by blast
qed

lemma ok_then_Inr_pair:
  assumes "ok_then m f (bc, g) = (Inr y, s')"
  obtains x bc1 g1 where "m (bc, g) = (Inr x, (bc1, g1))" and "f x (bc1, g1) = (Inr y, s')"
  using assms by (cases "m (bc, g)") (auto simp: ok_then_def split: sum.splits)

lemma sync_Inr:
  assumes "file_lib lib dat pos" and "CHECK_SYNC lib filename Fil_global (bc, g) = (Inr u, (bc', g'))"
  shows "\<exists>f'. g' = g\<lparr>ff := f'\<rparr> \<and> dat f' = dat (ff g) \<and> pos f' = pos (ff g)"
proof -
  obtain r bc1 g1 where c: "CHECK lib ''sync'' filename (F_sync Fil_global) (bc, g) = (Inr r, (bc1, g1))" and "(bc1, g1) = (bc', g')"
    using assms(2) unfolding CHECK_SYNC_def by (elim ok_then_Inr_pair) (auto simp: from_res_def)
  then show ?thesis using CHECK_Inr [OF assms(1) c] by auto
qed

lemma write_fil_Inr:
  assumes "file_lib lib dat pos" and "write_fil lib filename buf (bc, g) = (Inr u, (bc', g'))"
  shows "\<exists>f'. g' = g\<lparr>ff := f'\<rparr> \<and> dat f' = put (pos (ff g)) buf (dat (ff g)) \<and> pos f' = pos (ff g) + length buf"
proof -
  obtain w bc1 g1 where w: "CHECK lib ''fat_write can't write'' filename (F_write Fil_global buf) (bc, g) = (Inr w, (bc1, g1))"
    and r: "(if length buf \<noteq> fr_written w then from_res (Inl (Msg ''Error writing file to FAT''))
       else CHECK_SYNC lib filename Fil_global) (bc1, g1) = (Inr u, (bc', g'))"
    using assms(2) unfolding write_fil_def by (elim ok_then_Inr_pair)
  have l: "fr_written w = length buf" and s: "CHECK_SYNC lib filename Fil_global (bc1, g1) = (Inr u, (bc', g'))"
    using r by (auto simp: from_res_def split: if_splits)
  obtain f1 where "g1 = g\<lparr>ff := f1\<rparr>" "dat f1 = put (pos (ff g)) buf (dat (ff g))" "pos f1 = pos (ff g) + length buf"
    using CHECK_Inr [OF assms(1) w] l by auto
  then show ?thesis using sync_Inr [OF assms(1) s] by auto
qed

lemma write_zeros_Inr:
  assumes "file_lib lib dat pos"
  shows "write_zeros lib filename n (bc, g) = (Inr u, (bc', g')) \<Longrightarrow> pos (ff g) = length (dat (ff g)) \<Longrightarrow>
    \<exists>f'. g' = g\<lparr>ff := f'\<rparr> \<and> dat f' = dat (ff g) @ replicate n 0 \<and> pos f' = length (dat f')"
proof (induction n arbitrary: bc g rule: less_induct)
  case (less n)
  show ?case
  proof (cases "n = 0")
    case True
    then show ?thesis using less.prems by (auto simp: write_zeros.simps [of lib filename 0] from_res_def intro!: exI [of _ "ff g"])
  next
    case False
    let ?k = "if n < 512 then n else 512"
    obtain v bc1 g1 where w: "write_fil lib filename (replicate ?k 0) (bc, g) = (Inr v, (bc1, g1))"
      and z: "write_zeros lib filename (n - ?k) (bc1, g1) = (Inr u, (bc', g'))"
      using less.prems(1) False by (simp add: write_zeros.simps [of lib filename n] Let_def) (elim ok_then_Inr_pair, auto)
    obtain f1 where f1: "g1 = g\<lparr>ff := f1\<rparr>" "dat f1 = dat (ff g) @ replicate ?k 0" "pos f1 = length (dat f1)"
      using write_fil_Inr [OF assms w] less.prems(2) by (auto simp: put_end)
    have k: "n - ?k < n" "replicate ?k (0::byte) @ replicate (n - ?k) 0 = replicate n 0"
      using False by (auto simp: replicate_add [symmetric])
    show ?thesis using less.IH [OF k(1) z] f1 k(2) by auto
  qed
qed

section \<open>Writing at an offset\<close>

lemma seek_fil_Inr:
  assumes "file_lib lib dat pos" and "seek_fil lib filename t (bc, g) = (Inr u, (bc', g'))" and "length (dat (ff g)) < 2 ^ 32"
    and "pos (ff g) \<le> length (dat (ff g))"
  shows "\<exists>f'. g' = g\<lparr>ff := f'\<rparr> \<and> dat f' = dat (ff g) @ replicate (unat t - length (dat (ff g))) 0 \<and> pos f' = unat t"
proof -
  have tell: "f_tell lib Fil_global f = of_nat (pos f)" and fsize: "f_size lib Fil_global f = of_nat (length (dat f))" for f
    using assms(1) by (auto simp: file_lib_def)
  have n: "unat (of_nat (pos (ff g)) :: u32) = pos (ff g)" "unat (of_nat (length (dat (ff g))) :: u32) = length (dat (ff g))"
    using assms(3,4) by (simp_all add: unsigned_of_nat take_bit_nat_eq_self)
  consider "t = of_nat (pos (ff g))" | "t \<noteq> of_nat (pos (ff g))" "length (dat (ff g)) < unat t" | "t \<noteq> of_nat (pos (ff g))" "unat t \<le> length (dat (ff g))"
    by linarith
  then show ?thesis
  proof cases
    case 1
    then have "unat t = pos (ff g)" using n(1) by simp
    then show ?thesis using assms(2,4) 1 by (auto simp: seek_fil_def tell from_res_def intro!: exI [of _ "ff g"])
  next
    case 2
    have gt: "t > of_nat (length (dat (ff g)))" using 2(2) n(2) by (simp add: word_less_nat_alt)
    have "ok_then (CHECK lib ''fat_write can't seek to end of file'' filename (F_lseek Fil_global (of_nat (length (dat (ff g))))))
        (\<lambda>_. ok_then get_state (\<lambda>g. write_zeros lib filename (unat (t - f_tell lib Fil_global (ff g))))) (bc, g) = (Inr u, (bc', g'))"
      using assms(2) 2 gt by (simp add: seek_fil_def tell fsize)
    from ok_then_Inr_pair [OF this] obtain r bc1 g1
      where c: "CHECK lib ''fat_write can't seek to end of file'' filename (F_lseek Fil_global (of_nat (length (dat (ff g))))) (bc, g) = (Inr r, (bc1, g1))"
        and z: "ok_then get_state (\<lambda>g. write_zeros lib filename (unat (t - f_tell lib Fil_global (ff g)))) (bc1, g1) = (Inr u, (bc', g'))"
      by metis
    obtain f1 where f1: "g1 = g\<lparr>ff := f1\<rparr>" "dat f1 = dat (ff g)" "pos f1 = length (dat (ff g))"
      using CHECK_Inr [OF assms(1) c] n(2) by auto
    have "unat (t - of_nat (length (dat (ff g)))) = unat t - length (dat (ff g))"
      using gt n(2) by (simp add: unat_sub less_imp_le)
    then have "write_zeros lib filename (unat t - length (dat (ff g))) (bc1, g1) = (Inr u, (bc', g'))"
      using z f1 by (simp add: tell)
    from write_zeros_Inr [OF assms(1) this] show ?thesis using f1 2(2) by auto
  next
    case 3
    have le: "\<not> t > of_nat (length (dat (ff g)))" using 3(2) n(2) by (simp add: word_less_nat_alt)
    obtain r bc1 g1 where c: "CHECK lib ''fat_write can't seek in file'' filename (F_lseek Fil_global t) (bc, g) = (Inr r, (bc1, g1))" and "(bc1, g1) = (bc', g')"
      using assms(2) 3 le by (simp add: seek_fil_def tell fsize) (elim ok_then_Inr_pair, auto simp: from_res_def)
    then show ?thesis using CHECK_Inr [OF assms(1) c] 3(2) by auto
  qed
qed

text \<open>The file is open under this name.\<close>

definition file_open :: "string \<Rightarrow> ('f \<Rightarrow> byte list) \<Rightarrow> ('f \<Rightarrow> nat) \<Rightarrow> 'f fat_state \<Rightarrow> bool" where
  "file_open filename dat pos g \<longleftrightarrow> current_file g = Some filename \<and> pos (ff g) \<le> length (dat (ff g))"

lemma with_file_mounted:
  "find_mount b g = Some i \<Longrightarrow> with_file lib b filename m (bc, g) = m (concatenate_path (index_to_mount_path i) filename) (bc, g)"
  by (auto simp: with_file_def maybe_mount_def ok_then_def get_state_def change_def from_res_def)

lemma fatfs_pwrite_Inr:
  assumes "file_lib lib dat pos" and "fatfs_pwrite lib b filename offset buf (bc, g) = (Inr u, (bc', g'))"
    and "file_open filename dat pos g" and "find_mount b g = Some i" and "length (dat (ff g)) < 2 ^ 32"
    and "0 \<le> offset" and "offset < 2 ^ 31"
  shows "\<exists>f'. g' = g\<lparr>ff := f'\<rparr> \<and> dat f' = put (nat offset) buf (dat (ff g)) \<and> pos f' = nat offset + length buf"
proof -
  have cf: "current_file g = Some filename" "pos (ff g) \<le> length (dat (ff g))" using assms(3) by (auto simp: file_open_def)
  have "ok_then (seek_fil lib filename (word_of_int offset)) (\<lambda>_. write_fil lib filename buf) (bc, g) = (Inr u, (bc', g'))"
    using assms(2) by (simp add: fatfs_pwrite_def close_other_file_def cf with_file_mounted [OF assms(4)]
        ok_then_def [of "ok_then get_state _"] from_res_def)
  then obtain v bc1 g1 where s: "seek_fil lib filename (word_of_int offset) (bc, g) = (Inr v, (bc1, g1))"
    and w: "write_fil lib filename buf (bc1, g1) = (Inr u, (bc', g'))" by (elim ok_then_Inr_pair)
  have t: "unat (word_of_int offset :: u32) = nat offset"
    using assms(6,7) by (simp add: unsigned_of_int take_bit_int_eq_self)
  obtain f1 where f1: "g1 = g\<lparr>ff := f1\<rparr>" "dat f1 = dat (ff g) @ replicate (nat offset - length (dat (ff g))) 0" "pos f1 = nat offset"
    using seek_fil_Inr [OF assms(1) s assms(5) cf(2)] t by auto
  show ?thesis using write_fil_Inr [OF assms(1) w] f1 by (auto simp: put_extended)
qed

lemma fatfs_truncate_open:
  assumes "file_lib lib dat pos" and "fatfs_truncate lib b filename (bc, g) = (Inr u, (bc', g'))" and "find_mount b g = Some i"
    and "current_file g = None \<or> current_file g = Some filename"
  shows "current_file g' = Some filename \<and> mounted g' = mounted g \<and> dat (ff g') = [] \<and> pos (ff g') = 0"
proof -
  let ?path = "concatenate_path (index_to_mount_path i) filename"
  have c: "close_other_file lib filename (bc, g) = (Inr (), (bc, g))"
    using assms(4) by (auto simp: close_other_file_def from_res_def)
  show ?thesis
  proof (cases "current_file g = None")
    case True
    have "open_current lib ''Can't open file on FAT partition'' filename ?path {FA_CREATE_ALWAYS, FA_WRITE} (bc, g) = (Inr u, (bc', g'))"
      using assms(2) c True by (simp add: fatfs_truncate_def with_file_mounted [OF assms(3)] ok_then_def [of "close_other_file lib filename"])
    then obtain r bc1 g1 v bc2 g2 where o: "CHECK lib ''Can't open file on FAT partition'' filename (F_open Fil_global ?path {FA_CREATE_ALWAYS, FA_WRITE}) (bc, g) = (Inr r, (bc1, g1))"
      and s: "CHECK_SYNC lib filename Fil_global (bc1, g1) = (Inr v, (bc2, g2))" and g': "g' = g2\<lparr>current_file := Some filename\<rparr>"
      unfolding open_current_def by (elim ok_then_Inr_pair) (auto simp: change_def)
    show ?thesis using CHECK_Inr [OF assms(1) o] sync_Inr [OF assms(1) s] g' by auto
  next
    case False
    then have cf: "current_file g = Some filename" using assms(4) by auto
    have "ok_then (CHECK lib ''Can't seek to the beginning'' filename (F_lseek Fil_global 0)) (\<lambda>_.
        ok_then (CHECK lib ''Can't truncate file on FAT partition'' filename (F_truncate Fil_global)) (\<lambda>_.
        CHECK_SYNC lib filename Fil_global)) (bc, g) = (Inr u, (bc', g'))"
      using assms(2) c cf by (simp add: fatfs_truncate_def with_file_mounted [OF assms(3)] ok_then_def [of "close_other_file lib filename"])
    then obtain r bc1 g1 v bc2 g2 where a: "CHECK lib ''Can't seek to the beginning'' filename (F_lseek Fil_global 0) (bc, g) = (Inr r, (bc1, g1))"
      and b: "CHECK lib ''Can't truncate file on FAT partition'' filename (F_truncate Fil_global) (bc1, g1) = (Inr v, (bc2, g2))"
      and s: "CHECK_SYNC lib filename Fil_global (bc2, g2) = (Inr u, (bc', g'))"
      by (elim ok_then_Inr_pair)
    obtain f1 where f1: "g1 = g\<lparr>ff := f1\<rparr>" "pos f1 = 0" using CHECK_Inr [OF assms(1) a] by auto
    obtain f2 where f2: "g2 = g\<lparr>ff := f2\<rparr>" "dat f2 = []" "pos f2 = 0" using CHECK_Inr [OF assms(1) b] f1 by auto
    show ?thesis using sync_Inr [OF assms(1) s] f2 cf by auto
  qed
qed

section \<open>Writing a file\<close>

lemma find_mount_mounted: "mounted g' = mounted g \<Longrightarrow> find_mount b g' = find_mount b g"
  by (simp add: find_mount_def)

lemma close_open_files_Inr:
  assumes "file_lib lib dat pos" and "close_open_files lib (bc, g) = (Inr u, (bc', g'))"
  shows "current_file g' = None \<and> mounted g' = mounted g"
proof (cases "current_file g = None")
  case False
  then have "ok_then (call_ff lib (F_close Fil_global)) (\<lambda>_. change (\<lambda>g. g\<lparr>current_file := None\<rparr>)) (bc, g) = (Inr u, (bc', g'))"
    using assms(2) by (simp only: close_open_files_def get_state_then False if_False)
  from ok_then_Inr_pair [OF this] obtain r bc1 g1 where c: "call_ff lib (F_close Fil_global) (bc, g) = (Inr r, (bc1, g1))"
    and "change (\<lambda>g. g\<lparr>current_file := None\<rparr>) (bc1, g1) = (Inr u, (bc', g'))" by metis
  then show ?thesis using call_ff_Inr [OF assms(1) c] by (auto simp: change_def)
qed (use assms(2) in \<open>auto simp: close_open_files_def from_res_def\<close>)

lemma fatfs_truncate_Inr:
  assumes "file_lib lib dat pos" and "fatfs_truncate lib b filename (bc, g) = (Inr u, (bc', g'))" and "find_mount b g = Some i"
  shows "current_file g' = Some filename \<and> mounted g' = mounted g \<and> dat (ff g') = [] \<and> pos (ff g') = 0"
proof (cases "current_file g = None \<or> current_file g = Some filename")
  case True
  then show ?thesis using fatfs_truncate_open [OF assms] by blast
next
  case False
  obtain v bc1 g1 where c: "close_other_file lib filename (bc, g) = (Inr v, (bc1, g1))"
    and r: "with_file lib b filename (\<lambda>absolute_filename. ok_then get_state (\<lambda>g.
         if current_file g = None
         then open_current lib ''Can't open file on FAT partition'' filename absolute_filename {FA_CREATE_ALWAYS, FA_WRITE}
         else ok_then (CHECK lib ''Can't seek to the beginning'' filename (F_lseek Fil_global 0)) (\<lambda>_.
              ok_then (CHECK lib ''Can't truncate file on FAT partition'' filename (F_truncate Fil_global)) (\<lambda>_.
              CHECK_SYNC lib filename Fil_global)))) (bc1, g1) = (Inr u, (bc', g'))"
    using ok_then_Inr_pair [OF assms(2) [unfolded fatfs_truncate_def]] by metis
  have g1: "current_file g1 = None" "mounted g1 = mounted g"
    using close_open_files_Inr [OF assms(1), of bc g v bc1 g1] c False by (auto simp: close_other_file_def)
  then have "close_other_file lib filename (bc1, g1) = (Inr (), (bc1, g1))" by (simp add: close_other_file_def from_res_def)
  then have "fatfs_truncate lib b filename (bc1, g1) = (Inr u, (bc', g'))"
    using r by (simp add: fatfs_truncate_def ok_then_def [of "close_other_file lib filename"])
  from fatfs_truncate_open [OF assms(1) this] show ?thesis
    using g1 assms(3) find_mount_mounted [OF g1(2)] by simp
qed

text \<open>What \<open>fat_write\<close> does: the file is truncated and then written piece by piece.\<close>

primrec write_pieces :: "'f ff_lib \<Rightarrow> int \<Rightarrow> string \<Rightarrow> (int \<times> byte list) list \<Rightarrow> ('f, unit) fat" where
  "write_pieces lib b filename [] = from_res (Inr ())"
| "write_pieces lib b filename (w # ws) = ok_then (fatfs_pwrite lib b filename (fst w) (snd w)) (\<lambda>_. write_pieces lib b filename ws)"

definition piece_ok :: "int \<times> byte list \<Rightarrow> bool" where
  "piece_ok w \<longleftrightarrow> 0 \<le> fst w \<and> fst w < 2 ^ 31 \<and> nat (fst w) + length (snd w) < 2 ^ 32"

lemma write_pieces_Inr:
  assumes "file_lib lib dat pos"
  shows "write_pieces lib b filename ws (bc, g) = (Inr u, (bc', g')) \<Longrightarrow> list_all piece_ok ws \<Longrightarrow>
    file_open filename dat pos g \<Longrightarrow> find_mount b g = Some i \<Longrightarrow> length (dat (ff g)) < 2 ^ 32 \<Longrightarrow>
    dat (ff g') = fold (\<lambda>w. put (nat (fst w)) (snd w)) ws (dat (ff g))"
proof (induction ws arbitrary: bc g)
  case (Cons w ws)
  obtain v bc1 g1 where p: "fatfs_pwrite lib b filename (fst w) (snd w) (bc, g) = (Inr v, (bc1, g1))"
    and r: "write_pieces lib b filename ws (bc1, g1) = (Inr u, (bc', g'))"
    using ok_then_Inr_pair [OF Cons.prems(1) [unfolded write_pieces.simps]] by metis
  have w: "0 \<le> fst w" "fst w < 2 ^ 31" "nat (fst w) + length (snd w) < 2 ^ 32" using Cons.prems(2) by (auto simp: piece_ok_def)
  obtain f1 where f1: "g1 = g\<lparr>ff := f1\<rparr>" "dat f1 = put (nat (fst w)) (snd w) (dat (ff g))" "pos f1 = nat (fst w) + length (snd w)"
    using fatfs_pwrite_Inr [OF assms p Cons.prems(3-5) w(1,2)] by blast
  have "file_open filename dat pos g1" "find_mount b g1 = Some i" "length (dat (ff g1)) < 2 ^ 32"
    using Cons.prems(3-5) w(3) f1 find_mount_mounted [of g1 g b] by (auto simp: file_open_def length_put)
  from Cons.IH [OF r _ this] show ?case using Cons.prems(2) f1 by simp
qed (simp add: from_res_def)


text \<open>A library that keeps the one open file in memory.\<close>

definition ff_ok :: ff_result where
  "ff_ok = \<lparr>fr_code = FR_OK, fr_is_dir = False, fr_bytes = [], fr_written = 0\<rparr>"

fun memory_call :: "ff_call \<Rightarrow> byte list \<times> nat \<Rightarrow> ff_result \<times> byte list \<times> nat" where
  "memory_call (F_write fil buf) (d, p) = (ff_ok\<lparr>fr_written := length buf\<rparr>, (put p buf d, p + length buf))"
| "memory_call (F_read fil n) (d, p) = (ff_ok\<lparr>fr_bytes := take n (drop p d)\<rparr>, (d, p + length (take n (drop p d))))"
| "memory_call (F_lseek fil n) (d, p) = (ff_ok, (d, unat n))"
| "memory_call (F_truncate fil) (d, p) = (ff_ok, (take p d, p))"
| "memory_call (F_open fil path mode) (d, p) = (ff_ok, (if FA_CREATE_ALWAYS \<in> mode then [] else d, 0))"
| "memory_call c (d, p) = (ff_ok, (d, p))"

definition memory_lib :: "(byte list \<times> nat) ff_lib" where
  "memory_lib = \<lparr>ff_run = (\<lambda>c f. Ff_return (memory_call c f)), f_tell = (\<lambda>_ f. of_nat (snd f)), f_size = (\<lambda>_ f. of_nat (length (fst f))),
     ff_stack = (\<lambda>n. replicate n 0), ff_fuel = 10\<rparr>"

lemma memory_file_lib: "file_lib memory_lib fst snd"
proof -
  have "file_law c fst snd f r f'" if "memory_call c f = (r, f')" for c f r f'
    using that
    by (cases "(c, fst :: byte list \<times> nat \<Rightarrow> byte list, snd :: byte list \<times> nat \<Rightarrow> nat, f, r, f')" rule: file_law.cases; cases f)
      (auto simp: ff_ok_def)
  then show ?thesis by (auto simp: file_lib_def memory_lib_def from_res_def)
qed

lemma memory_CHECK: "CHECK memory_lib context filename c (bc, g) = (Inr (fst (memory_call c (ff g))), (bc, g\<lparr>ff := snd (memory_call c (ff g))\<rparr>))"
proof -
  obtain r f' where m: "memory_call c (ff g) = (r, f')" by (cases "memory_call c (ff g)")
  have "fr_code r = FR_OK" using m by (cases "(c, ff g)" rule: memory_call.cases) (auto simp: ff_ok_def)
  then show ?thesis
    using m by (simp add: CHECK_def call_ff_def memory_lib_def ok_then_def get_state_def change_def from_res_def)
qed

lemma memory_sync [simp]: "CHECK_SYNC memory_lib filename fil (bc, g) = (Inr (), (bc, g))"
  by (cases "ff g") (simp add: CHECK_SYNC_def ok_then_def memory_CHECK from_res_def)

lemma memory_write:
  "ff g = (d, p) \<Longrightarrow> write_fil memory_lib filename buf (bc, g) = (Inr (), (bc, g\<lparr>ff := (put p buf d, p + length buf)\<rparr>))"
  by (simp add: write_fil_def ok_then_def memory_CHECK)

lemma memory_seek:
  assumes "0 < unat t" and "unat t < 512"
  shows "seek_fil memory_lib filename t (bc, g\<lparr>ff := ([], 0)\<rparr>) = (Inr (), (bc, g\<lparr>ff := (replicate (unat t) 0, unat t)\<rparr>))"
proof -
  have "write_zeros memory_lib filename (unat t) (bc, g\<lparr>ff := ([], 0)\<rparr>) = (Inr (), (bc, g\<lparr>ff := (replicate (unat t) 0, unat t)\<rparr>))"
    using assms by (simp add: write_zeros.simps [of _ _ "unat t"] write_zeros.simps [of _ _ 0] Let_def ok_then_def memory_write put_def from_res_def)
  moreover have "f_tell memory_lib fil f = of_nat (snd f)" "f_size memory_lib fil f = of_nat (length (fst f))" for fil f
    by (simp_all add: memory_lib_def)
  ultimately show ?thesis using assms
    by (auto simp: seek_fil_def memory_CHECK ok_then_def get_state_def word_less_nat_alt)
qed

definition mounted_state :: "byte list \<Rightarrow> (byte list \<times> nat) fat_state" where
  "mounted_state d = \<lparr>fattime = 0, mounted = [\<lparr>md_output = True, md_block_offset = 63, md_block_count = 0\<rparr>, \<lparr>md_output = True, md_block_offset = 4096, md_block_count = 0\<rparr>,
     \<lparr>md_output = False, md_block_offset = 0, md_block_count = 0\<rparr>, \<lparr>md_output = False, md_block_offset = 0, md_block_count = 0\<rparr>],
     next_mount = 2, current_file = Some ''a'', ff = (d, 0)\<rparr>"

lemma mounted_state_find: "find_mount 63 (mounted_state d) = Some 0" "find_mount 4096 (mounted_state d) = Some 1"
  by (simp_all add: find_mount_def mounted_state_def FF_VOLUMES_def upt_4)

lemma sample_pieces:
  "\<exists>bc' g'. ok_then (fatfs_truncate memory_lib 63 ''a'') (\<lambda>_. write_pieces memory_lib 63 ''a'' [(3, [7, 8])]) (bc, mounted_state [9]) = (Inr (), (bc', g'))"
proof -
  let ?g = "(mounted_state [9])\<lparr>ff := ([], 0)\<rparr>"
  have m: "find_mount 63 ?g = Some 0" using mounted_state_find(1) by (simp add: find_mount_def)
  have c: "current_file (mounted_state [9]) = Some ''a''" by (simp add: mounted_state_def)
  have t: "fatfs_truncate memory_lib 63 ''a'' (bc, mounted_state [9]) = (Inr (), (bc, ?g))"
    by (simp add: fatfs_truncate_def close_other_file_def with_file_mounted [OF mounted_state_find(1)] c ok_then_def get_state_def from_res_def memory_CHECK)
      (simp add: mounted_state_def)
  have "\<exists>g'. fatfs_pwrite memory_lib 63 ''a'' 3 [7, 8] (bc, ?g) = (Inr (), (bc, g'))"
    using memory_seek [of 3 "''a''" bc "mounted_state [9]"] by (simp add: fatfs_pwrite_def close_other_file_def with_file_mounted [OF m] c ok_then_def get_state_def from_res_def memory_write)
  then show ?thesis using t by (auto simp: ok_then_def from_res_def)
qed


section \<open>Reading to the end of a file\<close>

text \<open>
  \<open>rest\<close> is how much the library has still to read: reading any data makes it smaller, and writing to the other file
  of a copy does not make it larger.
\<close>

fun reads_on :: "ff_call \<Rightarrow> ('f \<Rightarrow> nat) \<Rightarrow> 'f \<Rightarrow> ff_result \<Rightarrow> 'f \<Rightarrow> bool" where
  "reads_on (F_read fil n) rest f r f' = (fr_bytes r \<noteq> [] \<longrightarrow> rest f' < rest f)"
| "reads_on (F_write Fil_to buf) rest f r f' = (rest f' \<le> rest f)"
| "reads_on (F_sync Fil_to) rest f r f' = (rest f' \<le> rest f)"
| "reads_on c rest f r f' = True"

definition finite_reads :: "'f ff_lib \<Rightarrow> ('f \<Rightarrow> nat) \<Rightarrow> bool" where
  "finite_reads lib rest \<longleftrightarrow>
     (\<forall>c bc g r f' s. run_program (ff_run lib c (ff g)) (bc, g) = (Inr (r, f'), s) \<and> fr_code r = FR_OK \<longrightarrow> reads_on c rest (ff g) r f')"

lemma CHECK_reads_on:
  assumes "finite_reads lib rest" and "CHECK lib context filename c (bc, g) = (Inr r, (bc', g'))"
  shows "reads_on c rest (ff g) r (ff g')"
proof -
  obtain q s1 where q: "run_program (ff_run lib c (ff g)) (bc, g) = (q, s1)" by (cases "run_program (ff_run lib c (ff g)) (bc, g)")
  have g: "snd s1 = g" by (rule run_program_state [OF q])
  obtain f' where q': "q = Inr (r, f')" "g' = g\<lparr>ff := f'\<rparr>" "fr_code r = FR_OK"
    using assms(2) q g
    by (cases s1) (auto simp: CHECK_def call_ff_def ok_then_def change_def get_state_def from_res_def split: sum.splits prod.splits if_splits)
  then show ?thesis using assms(1) q unfolding finite_reads_def by fastforce
qed

lemma sync_reads_on:
  assumes "finite_reads lib rest" and "CHECK_SYNC lib filename Fil_to (bc, g) = (Inr u, (bc', g'))"
  shows "rest (ff g') \<le> rest (ff g)"
proof -
  obtain r bc1 g1 where c: "CHECK lib ''sync'' filename (F_sync Fil_to) (bc, g) = (Inr r, (bc1, g1))" and "(bc1, g1) = (bc', g')"
    using assms(2) unfolding CHECK_SYNC_def by (elim ok_then_Inr_pair) (auto simp: from_res_def)
  then show ?thesis using CHECK_reads_on [OF assms(1) c] by simp
qed

lemma ok_then_eqI:
  "(\<And>x bc1 g1. m (bc, g) = (Inr x, (bc1, g1)) \<Longrightarrow> f x (bc1, g1) = f' x (bc1, g1)) \<Longrightarrow> ok_then m f (bc, g) = ok_then m f' (bc, g)"
  by (cases "m (bc, g)") (auto simp: ok_then_def split: sum.splits)

lemma match_loop_fuel:
  assumes "finite_reads lib rest"
  shows "rest (ff g) < n \<Longrightarrow> rest (ff g) < n' \<Longrightarrow>
    match_loop n lib filename pattern buffer offset (bc, g) = match_loop n' lib filename pattern buffer offset (bc, g)"
proof (induction n arbitrary: n' buffer offset bc g)
  case (Suc k)
  obtain k' where n': "n' = Suc k'" using Suc.prems(2) by (cases n') auto
  show ?case unfolding n' match_loop.simps
  proof (rule ok_then_eqI)
    fix r bc1 g1 assume c: "CHECK lib ''fatfs_file_matches'' filename (F_read Fil_local (4096 - offset)) (bc, g) = (Inr r, (bc1, g1))"
    have IH: "match_loop k lib filename pattern b o' (bc1, g1) = match_loop k' lib filename pattern b o' (bc1, g1)" if "fr_bytes r \<noteq> []" for b o'
      using CHECK_reads_on [OF assms c] that Suc.prems n' by (intro Suc.IH) auto
    show "(let br = length (fr_bytes r); buffer' = write_at offset (fr_bytes r) buffer in
       if br = 0 then from_res (Inl Quiet)
       else if br > 4096 - offset then from_res (Inl (Undefined ''buffer''))
       else if memmem (take br buffer') pattern then from_res (Inr ())
       else if br \<ge> length pattern then
         ok_then (from_res (keep_tail br (length pattern - 1) buffer')) (\<lambda>buffer''. match_loop k lib filename pattern buffer'' (length pattern - 1))
       else match_loop k lib filename pattern buffer' br) (bc1, g1) =
      (let br = length (fr_bytes r); buffer' = write_at offset (fr_bytes r) buffer in
       if br = 0 then from_res (Inl Quiet)
       else if br > 4096 - offset then from_res (Inl (Undefined ''buffer''))
       else if memmem (take br buffer') pattern then from_res (Inr ())
       else if br \<ge> length pattern then
         ok_then (from_res (keep_tail br (length pattern - 1) buffer')) (\<lambda>buffer''. match_loop k' lib filename pattern buffer'' (length pattern - 1))
       else match_loop k' lib filename pattern buffer' br) (bc1, g1)"
      using IH by (simp add: Let_def split: sum.splits)
  qed
qed simp

lemma cp_loop_fuel:
  assumes "finite_reads lib rest"
  shows "rest (ff g) < n \<Longrightarrow> rest (ff g) < n' \<Longrightarrow> cp_loop n lib x y (bc, g) = cp_loop n' lib x y (bc, g)"
proof (induction n arbitrary: n' bc g)
  case (Suc k)
  obtain k' where n': "n' = Suc k'" using Suc.prems(2) by (cases n') auto
  show ?case unfolding n' cp_loop.simps
  proof (rule ok_then_eqI)
    fix r bc1 g1 assume c: "CHECK lib ''fatfs_cp can't read'' x (F_read Fil_from 4096) (bc, g) = (Inr r, (bc1, g1))"
    show "(if fr_bytes r = [] then from_res (Inr ())
       else ok_then (CHECK lib ''fatfs_cp can't write'' y (F_write Fil_to (fr_bytes r))) (\<lambda>w.
         if length (fr_bytes r) \<noteq> fr_written w then from_res (Inl (Msg ''Error copying file to FAT''))
         else ok_then (CHECK_SYNC lib y Fil_to) (\<lambda>_. cp_loop k lib x y))) (bc1, g1) =
      (if fr_bytes r = [] then from_res (Inr ())
       else ok_then (CHECK lib ''fatfs_cp can't write'' y (F_write Fil_to (fr_bytes r))) (\<lambda>w.
         if length (fr_bytes r) \<noteq> fr_written w then from_res (Inl (Msg ''Error copying file to FAT''))
         else ok_then (CHECK_SYNC lib y Fil_to) (\<lambda>_. cp_loop k' lib x y))) (bc1, g1)"
    proof (cases "fr_bytes r = []")
      case False
      then have less: "rest (ff g1) < rest (ff g)" using CHECK_reads_on [OF assms c] by simp
      show ?thesis unfolding if_not_P [OF False]
      proof (rule ok_then_eqI)
        fix w bc2 g2 assume w: "CHECK lib ''fatfs_cp can't write'' y (F_write Fil_to (fr_bytes r)) (bc1, g1) = (Inr w, (bc2, g2))"
        have le: "rest (ff g2) \<le> rest (ff g1)" using CHECK_reads_on [OF assms w] by simp
        have "ok_then (CHECK_SYNC lib y Fil_to) (\<lambda>_. cp_loop k lib x y) (bc2, g2) = ok_then (CHECK_SYNC lib y Fil_to) (\<lambda>_. cp_loop k' lib x y) (bc2, g2)"
        proof (rule ok_then_eqI)
          fix u bc3 g3 assume "CHECK_SYNC lib y Fil_to (bc2, g2) = (Inr u, (bc3, g3))"
          from sync_reads_on [OF assms this] less le show "cp_loop k lib x y (bc3, g3) = cp_loop k' lib x y (bc3, g3)"
            using Suc.prems n' by (intro Suc.IH) auto
        qed
        then show "(if length (fr_bytes r) \<noteq> fr_written w then from_res (Inl (Msg ''Error copying file to FAT''))
            else ok_then (CHECK_SYNC lib y Fil_to) (\<lambda>_. cp_loop k lib x y)) (bc2, g2) =
          (if length (fr_bytes r) \<noteq> fr_written w then from_res (Inl (Msg ''Error copying file to FAT''))
            else ok_then (CHECK_SYNC lib y Fil_to) (\<lambda>_. cp_loop k' lib x y)) (bc2, g2)" by simp
      qed
    qed simp
  qed
qed simp

text \<open>
  Copying a file and searching in one end. On a library that has only so much to read from a file, both loops
  do the same for every number of rounds above that, so that more than enough changes nothing.
\<close>

theorem fat_loops_end:
  assumes "finite_reads lib rest" and "rest (ff g) < n"
  shows "(\<forall>k. cp_loop (n + k) lib x y (bc, g) = cp_loop n lib x y (bc, g)) \<and>
    (\<forall>k. match_loop (n + k) lib x pattern buffer offset (bc, g) = match_loop n lib x pattern buffer offset (bc, g))"
proof (intro conjI allI)
  fix k
  show "cp_loop (n + k) lib x y (bc, g) = cp_loop n lib x y (bc, g)"
    by (rule cp_loop_fuel [OF assms(1)]) (use assms(2) in simp_all)
  show "match_loop (n + k) lib x pattern buffer offset (bc, g) = match_loop n lib x pattern buffer offset (bc, g)"
    by (rule match_loop_fuel [OF assms(1)]) (use assms(2) in simp_all)
qed

section \<open>Where the code does not do what it means to\<close>

text \<open>
  The file that is open is found by its name alone. When a file of this name is open from an earlier call, truncating and
  writing it on another volume is the same as on the first one: the other volume's file is not touched, and the first one's is
  overwritten.
\<close>

theorem open_file_ignores_volume:
  assumes "current_file g = Some filename" and "find_mount b g = Some i" and "find_mount b' g = Some i'"
  shows "fatfs_truncate lib b' filename (bc, g) = fatfs_truncate lib b filename (bc, g) \<and>
    fatfs_pwrite lib b' filename offset buf (bc, g) = fatfs_pwrite lib b filename offset buf (bc, g)"
  using assms
  by (simp add: fatfs_truncate_def fatfs_pwrite_def close_other_file_def with_file_mounted ok_then_def [of "from_res (Inr ())"]
      ok_then_def [of "ok_then get_state _"] from_res_def)

theorem open_file_ignores_volume_witness:
  "fatfs_truncate memory_lib 4096 ''a'' (file_cache (\<lambda>_. 0) 4096, mounted_state [9]) =
    fatfs_truncate memory_lib 63 ''a'' (file_cache (\<lambda>_. 0) 4096, mounted_state [9])"
proof -
  have "current_file (mounted_state [9]) = Some ''a''" by (simp add: mounted_state_def)
  from open_file_ignores_volume [OF this mounted_state_find(1) mounted_state_find(2)] show ?thesis by blast
qed

lemma memory_call_ff: "\<exists>r s'. call_ff memory_lib c (bc, g) = (Inr r, s')"
  by (cases "memory_call c (ff g)") (simp add: call_ff_def memory_lib_def ok_then_def get_state_def change_def from_res_def)

lemma memory_then_close: "fst (m s) = Inl Quiet \<Longrightarrow> fst (then_close memory_lib m s) = Inl Quiet"
proof -
  assume q: "fst (m s) = Inl Quiet"
  obtain bc g where s': "snd (m s) = (bc, g)" by (cases "snd (m s)")
  obtain r s2 where "call_ff memory_lib (F_close Fil_local) (bc, g) = (Inr r, s2)" using memory_call_ff by blast
  then show ?thesis using q s' by (cases "m s") (auto simp: then_close_def ok_then_def from_res_def)
qed

text \<open>A file of one full buffer of the letter a and the two letters xy.\<close>

definition long_file :: "byte list" where
  "long_file = replicate 4096 97 @ [120, 121]"

lemma memmem_replicate: "\<not> memmem (replicate n 97) [120, 121]"
  by (induction n) auto

lemma memmem_append: "memmem bs needle \<Longrightarrow> memmem (as @ bs) needle"
  by (induction "as") auto

lemma one_then_rest: "replicate 4096 (97::byte) = 97 # replicate 4095 97"
  by (simp add: replicate_Suc [symmetric] del: replicate_Suc)

lemma keep_tail_first: "keep_tail 4096 1 (replicate 4096 97) = Inr (replicate 4096 97)"
  by (simp add: keep_tail_def write_at_def one_then_rest)

lemma match_step:
  assumes "bytes = take (4096 - offset) (drop p d)"
  shows "match_loop (Suc n) memory_lib name pat buffer offset (bc, g\<lparr>ff := (d, p)\<rparr>) =
    (let s = (bc, g\<lparr>ff := (d, p + length bytes)\<rparr>); buffer' = write_at offset bytes buffer in
     if bytes = [] then (Inl Quiet, s)
     else if memmem (take (length bytes) buffer') pat then (Inr (), s)
     else if length bytes \<ge> length pat then
       (case keep_tail (length bytes) (length pat - 1) buffer' of Inl e \<Rightarrow> (Inl e, s)
        | Inr buffer'' \<Rightarrow> match_loop n memory_lib name pat buffer'' (length pat - 1) s)
     else match_loop n memory_lib name pat buffer' (length bytes) s)"
  unfolding assms by (simp add: ok_then_def memory_CHECK from_res_def Let_def split: sum.splits)

declare match_loop.simps(2) [simp del]

text \<open>
  A match behind the first buffer can be missed. The search reads into the buffer behind the bytes that it kept from before, but looks only at as
  many bytes as it read: in this file the pattern is there and not found.
\<close>

theorem match_behind_buffer_missed:
  "memmem long_file (string_bytes ''xy'') \<and>
   fst (fatfs_file_matches memory_lib 63 ''b'' ''xy'' (bc, mounted_state long_file)) = Inl Quiet"
proof
  have p: "string_bytes ''xy'' = [120, 121]" by (simp add: string_bytes_def)
  show "memmem long_file (string_bytes ''xy'')"
    by (simp only: p long_file_def) (rule memmem_append, simp)
  let ?g = "\<lambda>k. (mounted_state long_file)\<lparr>current_file := None, ff := (long_file, k)\<rparr>"
  have m: "find_mount 63 (?g 0) = Some 0" using mounted_state_find(1) [of long_file] by (simp add: find_mount_def)
  have c: "close_open_files memory_lib (bc, mounted_state long_file) = (Inr (), (bc, ?g 0))"
    by (simp add: close_open_files_def get_state_def ok_then_def call_ff_def memory_lib_def change_def from_res_def mounted_state_def)
  have l: "length long_file = 4098" by (simp add: long_file_def)
  have r1: "replicate 4096 97 = take (4096 - 0) (drop 0 long_file)" by (simp add: long_file_def)
  have r2: "[120, 121] = take (4096 - 1) (drop 4096 long_file)" by (simp add: long_file_def)
  have r3: "[] = take (4096 - 1) (drop 4098 long_file)" using l by simp
  have k2: "keep_tail 2 1 (write_at 1 [120, 121] (replicate 4096 97)) = Inr (120 # drop 1 (write_at 1 [120, 121] (replicate 4096 97)))"
    by (simp add: keep_tail_def write_at_def one_then_rest)
  have n2: "\<not> memmem (take 2 (write_at 1 [120, 121] (replicate 4096 97))) [120, 121]"
    by (simp add: write_at_def one_then_rest)
  have third: "fst (match_loop (Suc n) memory_lib ''b'' [120, 121] buf 1 (bc, ?g 4098)) = Inl Quiet" for n buf
    by (simp only: match_step [OF r3]) simp
  have second: "fst (match_loop (Suc (Suc n)) memory_lib ''b'' [120, 121] (replicate 4096 97) 1 (bc, ?g 4096)) = Inl Quiet" for n
    using third [of n] n2 [unfolded numeral_2_eq_2] k2 [unfolded numeral_2_eq_2] by (simp only: match_step [OF r2]) (simp add: Let_def)
  have w1: "write_at 0 (replicate 4096 97) (replicate 4096 0) = replicate 4096 97" by (simp add: write_at_def)
  have first: "fst (match_loop (Suc (Suc (Suc n))) memory_lib ''b'' [120, 121] (replicate 4096 0) 0 (bc, ?g 0)) = Inl Quiet" for n
    using second [of n] keep_tail_first memmem_replicate [of 4096] by (simp only: match_step [OF r1]) (simp add: Let_def w1)
  show "fst (fatfs_file_matches memory_lib 63 ''b'' ''xy'' (bc, mounted_state long_file)) = Inl Quiet"
    using memory_then_close [of "match_loop 10 memory_lib ''b'' [120, 121] (replicate 4096 0) 0" "(bc, ?g 0)"] first [of 7] c
    by (simp add: fatfs_file_matches_def with_file_mounted [OF m] ok_then_def memory_CHECK p)
      (simp add: memory_lib_def)
qed

text \<open>A library whose files are read one byte at a time, and not changed by writing.\<close>

definition counting_lib :: "nat ff_lib" where
  "counting_lib = \<lparr>ff_run = (\<lambda>c k. Ff_return (case c of
       F_read fil n \<Rightarrow> if k = 0 then (ff_ok, 0) else (ff_ok\<lparr>fr_bytes := [7]\<rparr>, k - 1)
     | F_write fil buf \<Rightarrow> (ff_ok\<lparr>fr_written := length buf\<rparr>, k)
     | _ \<Rightarrow> (ff_ok, k))), f_tell = (\<lambda>_ _. 0), f_size = (\<lambda>_ _. 0), ff_stack = (\<lambda>n. replicate n 0), ff_fuel = 10\<rparr>"

theorem fat_loops_end_witness:
  "cp_loop 9 counting_lib ''a'' ''b'' (file_cache (\<lambda>_. 0) 0, fat_init 3) = cp_loop 4 counting_lib ''a'' ''b'' (file_cache (\<lambda>_. 0) 0, fat_init 3)"
proof -
  have "reads_on c id f r f'" if "(case c of F_read fil n \<Rightarrow> if f = 0 then (ff_ok, 0) else (ff_ok\<lparr>fr_bytes := [7]\<rparr>, f - 1)
     | F_write fil buf \<Rightarrow> (ff_ok\<lparr>fr_written := length buf\<rparr>, f) | _ \<Rightarrow> (ff_ok, f)) = (r, f')" for c and f f' :: nat and r
    using that by (cases "(c, id :: nat \<Rightarrow> nat, f, r, f')" rule: reads_on.cases) (auto simp: ff_ok_def split: if_splits)
  then have l: "finite_reads counting_lib id" by (auto simp: finite_reads_def counting_lib_def from_res_def)
  have "id (ff (fat_init 3 :: nat fat_state)) < 4" by (simp add: fat_init_def)
  from fat_loops_end [OF l this, of "''a''" "''b''" "file_cache (\<lambda>_. 0) 0"] have "cp_loop (4 + 5) counting_lib ''a'' ''b'' (file_cache (\<lambda>_. 0) 0, fat_init 3) = cp_loop 4 counting_lib ''a'' ''b'' (file_cache (\<lambda>_. 0) 0, fat_init 3)"
    by blast
  then show ?thesis by simp
qed

end
