(* ===== verification/Os_Util.thy ===== *)
theory Os_Util
  imports Progress
begin

text \<open>
  The rest of \<open>util.c\<close>: the last error, messages and the end of the program, tests of
  files, memory that starts at a page, and the replacements for functions that a platform lacks.
\<close>

unbundle bit_operations_syntax

section \<open>The last error\<close>

text \<open>\<open>printed\<close> is what \<open>vasprintf\<close> makes of the message, \<open>None\<close> if it fails.\<close>

definition set_last_error :: "string option \<Rightarrow> string option \<Rightarrow> string option" where
  "set_last_error printed last_error_message = printed"

definition last_error :: "string option \<Rightarrow> string" where
  "last_error last_error_message = (case last_error_message of None \<Rightarrow> ''none'' | Some m \<Rightarrow> m)"

section \<open>Messages and the end of the program\<close>

text \<open>The settings that the messages depend on, and what went to standard output so far.\<close>

record out_state =
  os_framing :: bool
  os_mode :: fwup_progress_option
  os_verbose :: bool
  os_handshake :: bool
  os_stdout :: "byte list"

definition type_error :: "byte list" where "type_error = string_bytes ''ER''"
definition type_info :: "byte list" where "type_info = string_bytes ''WN''"
definition type_success :: "byte list" where "type_success = string_bytes ''OK''"

definition newline_text :: string where "newline_text = [CHR 0x0A]"

definition send_output :: "byte list \<Rightarrow> u16 \<Rightarrow> string \<Rightarrow> out_state \<Rightarrow> out_state" where
  "send_output type code str s =
     s\<lparr>os_stdout := os_stdout s @ fwup_output (os_framing s) (os_mode s = PROGRESS_MODE_NORMAL) type code (string_bytes str)\<rparr>"

definition message_text :: "bool \<Rightarrow> string \<Rightarrow> string \<Rightarrow> string" where
  "message_text framing msg tail = (if framing then msg else ''fwup: '' @ msg @ tail)"

definition fwup_warnx :: "string \<Rightarrow> out_state \<Rightarrow> out_state" where
  "fwup_warnx msg s = send_output type_info 0 (message_text (os_framing s) msg newline_text) s"

definition INFO :: "string \<Rightarrow> out_state \<Rightarrow> out_state" where
  "INFO msg s = (if os_verbose s then fwup_warnx msg s else s)"

text \<open>
  The handshake sends two bytes and then reads until the other side closes its end: \<open>reads\<close> are the answers of
  \<open>read\<close>, and \<open>None\<close> says that none of them ends the loop.
\<close>

datatype read_answer = Read_bytes nat | Read_interrupted | Read_error

fun handshake_loop :: "read_answer list \<Rightarrow> unit option" where
  "handshake_loop [] = None"
| "handshake_loop (Read_bytes n # reads) = (if n = 0 then Some () else handshake_loop reads)"
| "handshake_loop (Read_interrupted # reads) = handshake_loop reads"
| "handshake_loop (Read_error # reads) = Some ()"

definition handshake_bytes :: "int \<Rightarrow> byte list" where
  "handshake_bytes status = [0x1a, word_of_int status]"

text \<open>What was written to standard output and the exit status; without its end the program waits for ever.\<close>

definition fwup_exit :: "read_answer list \<Rightarrow> int \<Rightarrow> out_state \<Rightarrow> (byte list \<times> int) option" where
  "fwup_exit reads status s =
     (if os_handshake s then map_option (\<lambda>_. (os_stdout s @ handshake_bytes status, status)) (handshake_loop reads)
      else Some (os_stdout s, status))"

definition fwup_errx :: "read_answer list \<Rightarrow> int \<Rightarrow> string \<Rightarrow> out_state \<Rightarrow> (byte list \<times> int) option" where
  "fwup_errx reads status msg s = fwup_exit reads status (send_output type_error 0 (message_text (os_framing s) msg newline_text) s)"

definition fwup_err :: "read_answer list \<Rightarrow> string \<Rightarrow> int \<Rightarrow> string \<Rightarrow> out_state \<Rightarrow> (byte list \<times> int) option" where
  "fwup_err reads strerror status msg s =
     fwup_exit reads status (send_output type_error 0 (message_text (os_framing s) msg ('': '' @ strerror @ newline_text)) s)"

section \<open>Tests of files\<close>

datatype stat_answer = Stat_mode u32 | Stat_missing | Stat_failed

definition S_IFREG :: u32 where "S_IFREG = 0x8000"

definition will_be_regular_file :: "(string \<Rightarrow> stat_answer) \<Rightarrow> string \<Rightarrow> bool" where
  "will_be_regular_file stat path =
     (case stat path of
        Stat_mode m \<Rightarrow> m AND S_IFREG \<noteq> 0
      | Stat_missing \<Rightarrow> \<not> has_prefix ''/dev/'' path
      | Stat_failed \<Rightarrow> False)"

definition is_device_null :: "string \<Rightarrow> bool" where
  "is_device_null path \<longleftrightarrow> path = ''/dev/null''"

definition file_exists :: "(string \<Rightarrow> stat_answer) \<Rightarrow> string \<Rightarrow> bool" where
  "file_exists stat path = (case stat path of Stat_mode m \<Rightarrow> True | _ \<Rightarrow> False)"

definition is_regular_file :: "(string \<Rightarrow> stat_answer) \<Rightarrow> string \<Rightarrow> bool" where
  "is_regular_file stat path = (case stat path of Stat_mode m \<Rightarrow> m AND S_IFREG \<noteq> 0 | _ \<Rightarrow> False)"

text \<open>The type of a file is in four bits of its mode; sockets have the bit of regular files too.\<close>

lemma socket_is_regular: "stat path = Stat_mode 0xC000 \<Longrightarrow> is_regular_file stat path"
  by (simp add: is_regular_file_def S_IFREG_def)

section \<open>Memory that starts at a page\<close>

text \<open>
  Without \<open>posix_memalign\<close>: an address inside of a larger piece of memory that \<open>malloc\<close> gave, which is kept in
  the eight bytes in front of it.
\<close>

definition get_pagesize :: "int \<Rightarrow> nat" where
  "get_pagesize rc = (if rc > 0 then nat rc else 4096)"

definition malloc_size :: "nat \<Rightarrow> nat \<Rightarrow> nat" where
  "malloc_size pagesize count = count + (pagesize + pagesize - 1)"

definition aligned_address :: "nat \<Rightarrow> u64 \<Rightarrow> u64" where
  "aligned_address pagesize original = (original + of_nat (pagesize + pagesize - 1)) AND NOT (of_nat pagesize - 1)"

lemma align_down: "unat (w AND NOT (of_nat (2 ^ k) - 1) :: u64) = unat w - unat w mod 2 ^ k"
proof -
  have "w AND NOT (of_nat (2 ^ k) - 1) = w AND NOT (take_bit k w)"
    by (rule bit_word_eqI) (auto simp: bit_simps mask_eq_exp_minus_1 [symmetric])
  also have "\<dots> = w - take_bit k w" by (rule disjunctive_diff_eq_and_not [symmetric]) (auto intro!: bit_word_eqI simp: bit_simps)
  finally have "unat (w AND NOT (of_nat (2 ^ k) - 1)) = unat (w - take_bit k w)" by (rule arg_cong)
  also have "\<dots> = unat w - unat (take_bit k w)"
    by (rule unat_sub) (simp add: word_le_nat_alt unsigned_take_bit_eq)
  finally show ?thesis unfolding unsigned_take_bit_eq by (simp only: take_bit_nat_def)
qed

text \<open>
  The memory that \<open>alloc_page_aligned\<close> hands out starts at a page, lies inside of what was
  allocated, and has room in front of it for the pointer that is kept there.
\<close>

theorem page_aligned_fits:
  assumes "pagesize = 2 ^ k" and "8 \<le> pagesize" and "unat original + malloc_size pagesize count < 2 ^ 64"
  shows "pagesize dvd unat (aligned_address pagesize original) \<and>
    unat original + 8 \<le> unat (aligned_address pagesize original) \<and>
    unat (aligned_address pagesize original) + count \<le> unat original + malloc_size pagesize count"
proof -
  let ?sum = "original + of_nat (pagesize + pagesize - 1)"
  have sum: "unat ?sum = unat original + (pagesize + pagesize - 1)"
    using assms(3) by (simp add: unat_word_ariths unat_of_nat malloc_size_def)
  have a: "unat (aligned_address pagesize original) = unat ?sum - unat ?sum mod pagesize"
    unfolding aligned_address_def assms(1) by (rule align_down)
  have "unat ?sum mod pagesize < pagesize" using assms(1) by simp
  moreover have "pagesize dvd unat ?sum - unat ?sum mod pagesize" by (rule dvd_minus_mod)
  moreover have "unat ?sum mod pagesize \<le> unat ?sum" by simp
  ultimately have "pagesize dvd unat (aligned_address pagesize original) \<and>
      unat original + pagesize \<le> unat (aligned_address pagesize original) \<and> unat (aligned_address pagesize original) \<le> unat ?sum"
    unfolding a using sum assms(2) by linarith
  then show ?thesis unfolding malloc_size_def using sum assms(2) by linarith
qed

theorem page_aligned_fits_witness: "4096 dvd unat (aligned_address 4096 100000)"
  using page_aligned_fits [of 4096 12 100000 1] by (simp add: malloc_size_def)

section \<open>Replacements\<close>

text \<open>
  \<open>pread\<close> and \<open>pwrite\<close> move the position of the file, and \<open>strndup\<close> copies up to the first NUL. \<open>memmem\<close>
  does not look at the last place where the needle could be, and with a needle that is longer than the haystack it
  never meets its end.
\<close>

definition pread_fallback :: "(int \<Rightarrow> 's \<Rightarrow> int \<times> 's) \<Rightarrow> (nat \<Rightarrow> 's \<Rightarrow> 'b option \<times> 's) \<Rightarrow> nat \<Rightarrow> int \<Rightarrow> 's \<Rightarrow> 'b option \<times> 's" where
  "pread_fallback lseek read count offset s = (case lseek offset s of (r, s') \<Rightarrow> if 0 \<le> r then read count s' else (None, s'))"

definition pwrite_fallback :: "(int \<Rightarrow> 's \<Rightarrow> int \<times> 's) \<Rightarrow> (byte list \<Rightarrow> 's \<Rightarrow> int \<times> 's) \<Rightarrow> byte list \<Rightarrow> int \<Rightarrow> 's \<Rightarrow> int \<times> 's" where
  "pwrite_fallback lseek write buf offset s = (case lseek offset s of (r, s') \<Rightarrow> if 0 \<le> r then write buf s' else (-1, s'))"

definition set_environment_fallback :: "string \<Rightarrow> string \<Rightarrow> (string \<Rightarrow> string option) \<Rightarrow> string \<Rightarrow> string option" where
  "set_environment_fallback key v env = env(key \<mapsto> v)"

definition strndup_fallback :: "string \<Rightarrow> nat \<Rightarrow> string" where
  "strndup_fallback s n = take (if length s < n then length s else n) s"

definition memmem_fallback :: "byte list \<Rightarrow> byte list \<Rightarrow> nat option res" where
  "memmem_fallback haystack needle =
     (if length haystack < length needle then Inl (Undefined ''haystack'')
      else Inr (find (\<lambda>p. read_at p (length needle) haystack = needle) [0..<length haystack - length needle]))"

text \<open>The whole haystack is not found in itself.\<close>

lemma memmem_fallback_misses: "memmem_fallback bs bs = Inr None"
  by (simp add: memmem_fallback_def)

section \<open>Messages keep their frame\<close>

text \<open>With framing, a message is one frame: its length, counted without the length itself, and then as many bytes.\<close>

lemma framed_message:
  assumes "os_framing s" and "length type = 2"
  shows "\<exists>frame. os_stdout (send_output type code str s) = os_stdout s @ to_bigendian32 (of_nat (length frame)) @ frame"
  using assms by (intro exI [of _ "type @ to_bigendian16 code @ string_bytes str"])
    (simp add: send_output_def fwup_output_def to_bigendian16_def add.commute)

text \<open>The handshake ends the output, and the program ends once the other side is closed.\<close>

lemma exit_with_handshake:
  "os_handshake s \<Longrightarrow> Read_bytes 0 \<in> set reads \<Longrightarrow> fwup_exit reads status s = Some (os_stdout s @ [0x1a, word_of_int status], status)"
proof -
  have "Read_bytes 0 \<in> set reads \<Longrightarrow> handshake_loop reads = Some ()" by (induction reads rule: handshake_loop.induct) auto
  then show "os_handshake s \<Longrightarrow> Read_bytes 0 \<in> set reads \<Longrightarrow> fwup_exit reads status s = Some (os_stdout s @ [0x1a, word_of_int status], status)"
    by (simp add: fwup_exit_def handshake_bytes_def)
qed

end
