(* ===== verification/Mmc_Linux.thy ===== *)
theory Mmc_Linux
  imports Util Block_Cache
begin

text \<open>
  Memory cards on Linux (\<open>mmc_linux.c\<close>): finding them, their sizes, whether a path is on one, and
  unmounting, and the volumes of \<open>ubi_linux.c\<close>. What the kernel answers about files is a parameter (\<open>mmc_os\<close>);
  the calls that change something go through \<open>mo_call\<close> with a world of its own. \<open>asprintf\<close> and \<open>malloc\<close> do not fail.
\<close>

unbundle bit_operations_syntax

section \<open>What the kernel answers\<close>

record dev_stat =
  st_dev :: u64
  st_rdev :: u64

datatype mmc_call = Exec string string | Umount string | Blkdiscard u64 u64 | Warnx string

record 'w mmc_os =
  mo_stat :: "string \<Rightarrow> dev_stat option"
  mo_read :: "string \<Rightarrow> string option"
  mo_end :: "string \<Rightarrow> int option"
  mo_scandir :: "string \<Rightarrow> string list"
  mo_mtab :: bool
  mo_has_umount :: bool
  mo_call :: "mmc_call \<Rightarrow> 'w \<Rightarrow> int \<times> 'w"

definition c_string :: "string \<Rightarrow> string" where
  "c_string s = takeWhile (\<lambda>c. c \<noteq> nul) s"

definition snprintf :: "nat \<Rightarrow> string \<Rightarrow> string" where
  "snprintf n s = take (n - 1) s"

text \<open>\<open>major\<close> and \<open>minor\<close> of the C library.\<close>

definition major :: "u64 \<Rightarrow> u32" where
  "major dev = ucast ((drop_bit 8 dev AND 0xFFF) OR (drop_bit 32 dev AND NOT 0xFFF))"

definition minor :: "u64 \<Rightarrow> u32" where
  "minor dev = ucast ((dev AND 0xFF) OR (drop_bit 12 dev AND NOT 0xFF))"

definition MMC_BLOCK_MAJOR :: u32 where "MMC_BLOCK_MAJOR = 179"

section \<open>Devices and their sizes\<close>

record mmc_device_info =
  devpath :: string
  device_size :: int
  info_st :: dev_stat
  removable :: bool

record mmc_device =
  md_path :: string
  md_size :: int

definition MMC_MAX_DEVICES :: nat where "MMC_MAX_DEVICES = 16"

definition MMC_MIN_AUTODETECTED_SIZE :: int where "MMC_MIN_AUTODETECTED_SIZE = ONE_MiB"

text \<open>The result is the buffer; the length that is returned is its length. The last byte that was read is cut off.\<close>

definition readsysfs :: "'w mmc_os \<Rightarrow> string \<Rightarrow> nat \<Rightarrow> string" where
  "readsysfs os path maxlen = (case mo_read os path of None \<Rightarrow> [] | Some s \<Rightarrow> butlast (take maxlen s))"

text \<open>The product fits: the number has at most fourteen characters.\<close>

definition mmc_device_size_sysfs :: "'w mmc_os \<Rightarrow> string \<Rightarrow> int" where
  "mmc_device_size_sysfs os name =
     (let sizestr = readsysfs os (snprintf 32 (''/sys/block/'' @ name @ ''/size'')) 16 in
      if sizestr = [] then 0 else fst (strtoll (c_string sizestr)) * 512)"

definition mmc_device_removable_sysfs :: "'w mmc_os \<Rightarrow> string \<Rightarrow> bool" where
  "mmc_device_removable_sysfs os name =
     (let sizestr = readsysfs os (snprintf 32 (''/sys/block/'' @ name @ ''/removable'')) 4 in
      if sizestr = [] then False else hd sizestr = CHR ''1'')"

definition mmc_device_size_raw :: "'w mmc_os \<Rightarrow> string \<Rightarrow> int" where
  "mmc_device_size_raw os path = (case mo_end os path of None \<Rightarrow> 0 | Some len \<Rightarrow> if len < 0 then 0 else len)"

definition mmc_get_device_stats :: "'w mmc_os \<Rightarrow> string \<Rightarrow> mmc_device_info option" where
  "mmc_get_device_stats os name =
     (let path = snprintf 16 (''/dev/'' @ name) in
      case mo_stat os path of
        None \<Rightarrow> None
      | Some st \<Rightarrow>
          (let raw = mmc_device_size_raw os path in
           Some \<lparr>devpath = path, device_size = (if raw = 0 then mmc_device_size_sysfs os name else raw), info_st = st,
             removable = (major (st_rdev st) = MMC_BLOCK_MAJOR \<or> mmc_device_removable_sysfs os name)\<rparr>))"

definition is_autodetectable_mmc_device :: "mmc_device_info \<Rightarrow> u64 \<Rightarrow> bool" where
  "is_autodetectable_mmc_device info rootdev \<longleftrightarrow>
     st_rdev (info_st info) \<noteq> rootdev \<and> MMC_MIN_AUTODETECTED_SIZE \<le> device_size info \<and> removable info"

fun scan_names :: "'w mmc_os \<Rightarrow> string list \<Rightarrow> mmc_device_info list \<Rightarrow> mmc_device_info list" where
  "scan_names os [] found = found"
| "scan_names os (name # names) found =
     (if length found < MMC_MAX_DEVICES then
        (case mmc_get_device_stats os name of
           None \<Rightarrow> scan_names os names found
         | Some info \<Rightarrow> scan_names os names (found @ [info]))
      else found)"

text \<open>The names from \<open>sda\<close> to \<open>sdy\<close>: the loop ends in front of z.\<close>

definition sd_names :: "string list" where
  "sd_names = map (\<lambda>i. ''sd'' @ [char_of i]) [97..<122]"

definition mmcblk_names :: "string list" where
  "mmcblk_names = map (\<lambda>i. ''mmcblk'' @ show_nat i) [0..<16]"

text \<open>The list that an earlier call made is kept.\<close>

definition enumerate_mmc_devices :: "'w mmc_os \<Rightarrow> mmc_device_info list option \<Rightarrow> mmc_device_info list" where
  "enumerate_mmc_devices os known =
     (case known of Some found \<Rightarrow> found | None \<Rightarrow> scan_names os mmcblk_names (scan_names os sd_names []))"

definition root_disk_device :: "'w mmc_os \<Rightarrow> u64" where
  "root_disk_device os = (case mo_stat os ''/'' of None \<Rightarrow> 0 | Some st \<Rightarrow> st_dev st AND 0xFFF0)"

definition mmc_scan_for_devices :: "'w mmc_os \<Rightarrow> mmc_device_info list option \<Rightarrow> nat \<Rightarrow> mmc_device list" where
  "mmc_scan_for_devices os known max_devices =
     take max_devices (map (\<lambda>info. \<lparr>md_path = devpath info, md_size = device_size info\<rparr>)
       (filter (\<lambda>info. is_autodetectable_mmc_device info (root_disk_device os)) (enumerate_mmc_devices os known)))"

definition mmc_device_size :: "'w mmc_os \<Rightarrow> string \<Rightarrow> bool \<times> int" where
  "mmc_device_size os path = (let n = mmc_device_size_raw os path in (0 < n, n))"

section \<open>Whether a path is on a device\<close>

text \<open>The number of a device is passed as an \<open>int\<close> and printed with \<open>%d\<close>.\<close>

definition dev_to_string :: "u64 \<Rightarrow> string" where
  "dev_to_string d =
     (let dev = scast (ucast d :: u32) in snprintf 16 (show_int (sint (major dev)) @ '':'' @ show_int (sint (minor dev))))"

definition slaves :: "'w mmc_os \<Rightarrow> string \<Rightarrow> string list" where
  "slaves os current =
     (let slaves_path = ''/sys/dev/block/'' @ current @ ''/slaves'' in
      map c_string (filter (\<lambda>next. next \<noteq> [])
        (map (\<lambda>name. readsysfs os (slaves_path @ ''/'' @ name @ ''/dev'') 16)
          (filter (\<lambda>name. take 1 name \<noteq> ''.'') (mo_scandir os slaves_path)))))"

primrec traverse_devices :: "'w mmc_os \<Rightarrow> string \<Rightarrow> nat \<Rightarrow> string \<Rightarrow> bool" where
  "traverse_devices os goal 0 = (\<lambda>current. current = goal)"
| "traverse_devices os goal (Suc depth_left) =
     (\<lambda>current. current = goal \<or> list_ex (traverse_devices os goal depth_left) (slaves os current))"

definition mmc_is_path_on_device :: "'w mmc_os \<Rightarrow> string \<Rightarrow> string \<Rightarrow> int" where
  "mmc_is_path_on_device os file_path device_path =
     (case mo_stat os file_path of
        None \<Rightarrow> -1
      | Some sb \<Rightarrow>
          (case mo_stat os device_path of
             None \<Rightarrow> -1
           | Some sb' \<Rightarrow> if traverse_devices os (dev_to_string (st_rdev sb')) 3 (dev_to_string (st_dev sb)) then 1 else 0))"

definition mmc_is_path_at_device_offset :: "'w mmc_os \<Rightarrow> string \<Rightarrow> int \<Rightarrow> int" where
  "mmc_is_path_at_device_offset os file_path offset =
     (case mo_stat os file_path of
        None \<Rightarrow> -1
      | Some st \<Rightarrow>
          (let path = snprintf 64 (''/sys/dev/block/'' @ show_int (sint (major (st_dev st))) @ '':'' @
                 show_int (sint (minor (st_dev st))) @ ''/start'');
               start = readsysfs os path 16 in
           if start = [] then -1 else if sint (fst (strtoull (c_string start))) = offset then 1 else 0))"

section \<open>Unmounting\<close>

definition backslash :: char where "backslash = CHR 0x5C"

definition is_octal :: "char \<Rightarrow> bool" where
  "is_octal c = (let n = of_char c :: nat in 48 \<le> n \<and> n \<le> 55)"

text \<open>
  \<open>input\<close> behind a backslash: what is stored and how many characters are taken. Of the two characters
  behind an octal digit those that are octal are counted, and as many are taken, whichever they are.
\<close>

definition octal_digits :: "string \<Rightarrow> nat" where
  "octal_digits input =
     (if char_at input 1 \<noteq> nul \<and> is_octal (char_at input 1) then 1 else 0) +
     (if char_at input 1 \<noteq> nul \<and> char_at input 2 \<noteq> nul \<and> is_octal (char_at input 2) then 1 else 0)"

definition octal_value :: "string \<Rightarrow> int" where
  "octal_value s = foldl (\<lambda>r c. r * 8 + (int (of_char c) - 48)) 0 s"

definition escaped_char :: "string \<Rightarrow> char \<times> nat" where
  "escaped_char input =
     (let c = hd input in
      if c = CHR ''a'' then (char_of (7 :: nat), 1) else if c = CHR ''b'' then (char_of (8 :: nat), 1)
      else if c = CHR ''f'' then (char_of (12 :: nat), 1) else if c = CHR ''n'' then (char_of (10 :: nat), 1)
      else if c = CHR ''r'' then (char_of (13 :: nat), 1) else if c = CHR ''t'' then (char_of (9 :: nat), 1)
      else if c = CHR ''v'' then (char_of (11 :: nat), 1)
      else if is_octal c then (let n = octal_digits input + 1 in (char_of (nat (octal_value (take n input) mod 256)), n))
      else (c, 1))"

lemma escaped_char_taken: "0 < snd (escaped_char input)"
  by (simp add: escaped_char_def Let_def)

text \<open>A backslash at the end takes the NUL as well, and what is read then is behind the string.\<close>

function unescape_string :: "string \<Rightarrow> string res" where
  "unescape_string [] = Inr []"
| "unescape_string (c # cs) =
     (if c \<noteq> backslash then bind_res (unescape_string cs) (\<lambda>r. Inr (c # r))
      else if cs = [] then Inl (Undefined ''input'')
      else (let (p, n) = escaped_char cs in bind_res (unescape_string (drop n cs)) (\<lambda>r. Inr (p # r))))"
  by pat_completeness auto
termination
  by (relation "measure length") auto

declare unescape_string.simps(2) [simp del]

text \<open>\<open>fgets\<close> with a buffer of 512 bytes: a line that is longer comes in pieces.\<close>

function fgets_lines :: "nat \<Rightarrow> string \<Rightarrow> string list" where
  "fgets_lines n [] = []"
| "fgets_lines n (c # cs) =
     (let line = takeWhile (\<lambda>c. c \<noteq> CHR 0x0A) (c # cs);
          len = min (Suc n) (if length line < length (c # cs) then length line + 1 else length line) in
      take len (c # cs) # fgets_lines n (drop len (c # cs)))"
  by pat_completeness auto
termination
  by (relation "measure (\<lambda>(n, s). length s)") auto

declare fgets_lines.simps(2) [simp del]

text \<open>\<open>sscanf\<close> with \<open>%63s %255s\<close>, \<open>None\<close> if it finds fewer than two.\<close>

definition scan_word :: "nat \<Rightarrow> string \<Rightarrow> string \<times> string" where
  "scan_word n s =
     (let s' = dropWhile isspace s; w = take n (takeWhile (\<lambda>c. \<not> isspace c) s') in (w, drop (length w) s'))"

definition scan_mount :: "string \<Rightarrow> (string \<times> string) option" where
  "scan_mount line =
     (let (devname, rest) = scan_word 63 (c_string line); (mountpoint, _) = scan_word 255 rest in
      if devname = [] \<or> mountpoint = [] then None else Some (devname, mountpoint))"

fun mounts_todo :: "string \<Rightarrow> string list \<Rightarrow> string list \<Rightarrow> string list res" where
  "mounts_todo mmc_device [] todo = Inr todo"
| "mounts_todo mmc_device (line # lines) todo =
     (case scan_mount line of
        None \<Rightarrow> mounts_todo mmc_device lines todo
      | Some (devname, mountpoint) \<Rightarrow>
          if has_prefix mmc_device devname then
            (if length todo = 64 then Inl (Msg ''Device mounted too many times'')
             else bind_res (unescape_string mountpoint) (\<lambda>m. mounts_todo mmc_device lines (todo @ [m])))
          else mounts_todo mmc_device lines todo)"

definition mmc_call_os :: "'w mmc_os \<Rightarrow> mmc_call \<Rightarrow> ('w, int) action" where
  "mmc_call_os os c = (\<lambda>w. case mo_call os c w of (n, w') \<Rightarrow> (Inr n, w'))"

text \<open>The result of one call, 0 or -1; a platform without \<open>umount\<close> only warns.\<close>

definition umount_one :: "'w mmc_os \<Rightarrow> string \<Rightarrow> ('w, int) action" where
  "umount_one os m =
     (if mo_mtab os then
        ok_then (mmc_call_os os (Exec ''/bin/umount'' m)) (\<lambda>rc.
          if rc \<noteq> 0 then ok_then (mmc_call_os os (Warnx (''Error calling umount on '' @ [CHR 0x27] @ m @ [CHR 0x27]))) (\<lambda>_. from_res (Inr (-1))) else from_res (Inr 0))
      else if mo_has_umount os then
        ok_then (mmc_call_os os (Umount m)) (\<lambda>rc.
          if rc < 0 then ok_then (mmc_call_os os (Warnx (''umount '' @ m))) (\<lambda>_. from_res (Inr (-1))) else from_res (Inr 0))
      else ok_then (mmc_call_os os (Warnx (''umount '' @ m @ '': not supported''))) (\<lambda>_. from_res (Inr 0)))"

fun umount_each :: "'w mmc_os \<Rightarrow> string list \<Rightarrow> int \<Rightarrow> ('w, int) action" where
  "umount_each os [] ultimate_rc = from_res (Inr ultimate_rc)"
| "umount_each os (m # ms) ultimate_rc =
     ok_then (umount_one os m) (\<lambda>rc. umount_each os ms (if rc < 0 then -1 else ultimate_rc))"

definition mmc_umount_all :: "'w mmc_os \<Rightarrow> string \<Rightarrow> ('w, int) action" where
  "mmc_umount_all os mmc_device =
     (case mo_read os ''/proc/mounts'' of
        None \<Rightarrow> from_res (Inl (Msg ''/proc/mounts''))
      | Some s \<Rightarrow> ok_then (from_res (mounts_todo mmc_device (fgets_lines 510 s) [])) (\<lambda>todo. umount_each os todo 0))"

section \<open>Trimming\<close>

text \<open>The failure of the request is only reported. The sum of the two offsets is one of unsigned words.\<close>

definition mmc_trim_ioctl :: "'w mmc_os \<Rightarrow> u64 \<Rightarrow> u64 \<Rightarrow> ('w, int) action" where
  "mmc_trim_ioctl os offset count =
     ok_then (mmc_call_os os (Blkdiscard offset (offset + count))) (\<lambda>rc.
       if rc \<noteq> 0 then ok_then (mmc_call_os os (Warnx ''BLKDISCARD (TRIM command) failed'')) (\<lambda>_. from_res (Inr 0))
       else from_res (Inr 0))"

section \<open>Children\<close>

text \<open>
  The side of the parent: \<open>pid\<close> is what \<open>fork\<close> returned, and \<open>answer\<close> what \<open>waitpid\<close> did with it, the process it
  waited for and the status it stored, if it stored one. When there can be no child, \<open>fork\<close> and
  \<open>waitpid\<close> both return -1, and the status that was never stored is returned.
\<close>

definition fork_exec :: "int \<Rightarrow> int \<times> int option \<Rightarrow> int res" where
  "fork_exec pid answer =
     (case answer of (waited, status) \<Rightarrow>
        if waited \<noteq> pid then Inr (-1) else (case status of None \<Rightarrow> Inl (Undefined ''status'') | Some st \<Rightarrow> Inr st))"

text \<open>A child that ran and was waited for gives its status, and anything else is no success.\<close>

lemma fork_exec_success:
  assumes "pid > 0" and "fork_exec pid (waited, status) = Inr 0"
  shows "waited = pid \<and> status = Some 0"
  using assms by (auto simp: fork_exec_def split: if_splits option.splits)

lemma fork_exec_no_child: "fork_exec (-1) (-1, None) = Inl (Undefined ''status'')"
  by (simp add: fork_exec_def)

section \<open>UBI volumes\<close>

datatype write_answer = Wrote nat | Interrupted | Failed

text \<open>
  An update starts with an \<open>ioctl\<close> that announces the number of bytes, on a descriptor that is closed again if it is
  refused. \<open>opened\<close> and \<open>accepted\<close> are the answers, and the list holds the descriptors that were closed. The
  texts of \<open>strerror\<close> are left out.
\<close>

definition ubi_volume_update_start :: "(string \<Rightarrow> int) \<Rightarrow> (int \<Rightarrow> int \<Rightarrow> bool) \<Rightarrow> string \<Rightarrow> int \<Rightarrow> int res \<times> int list" where
  "ubi_volume_update_start opened accepted path total_bytes =
     (let handle = opened path in
      if handle < 0 then (Inl (Msg (''ubi_volume_write can't open '' @ path)), [])
      else if \<not> accepted handle total_bytes then (Inl (Msg (''UBI_IOCVOLUP failed on '' @ path)), [handle])
      else (Inr handle, []))"

definition ubi_volume_update_finish :: "(int \<Rightarrow> int) \<Rightarrow> string \<Rightarrow> int \<Rightarrow> unit res" where
  "ubi_volume_update_finish closed path handle = (if closed handle < 0 then Inl (Msg (''close failed: '' @ path)) else Inr ())"

text \<open>No descriptor is lost: the one that was opened is returned or closed.\<close>

lemma ubi_start_keeps_no_descriptor:
  "ubi_volume_update_start opened accepted path n = (r, closed) \<Longrightarrow> opened path \<ge> 0 \<Longrightarrow>
   (r = Inr (opened path) \<and> closed = []) \<or> (\<exists>e. r = Inl e \<and> closed = [opened path])"
  by (auto simp: ubi_volume_update_start_def Let_def split: if_splits)

text \<open>
  The loop of \<open>ubi_volume_update_write\<close> on what \<open>write\<close> answers, one after the other: the bytes that were
  written and the result, \<open>None\<close> while it is not yet over.
\<close>

fun ubi_volume_update_write :: "write_answer list \<Rightarrow> byte list \<Rightarrow> byte list \<times> unit res option" where
  "ubi_volume_update_write answers [] = ([], Some (Inr ()))"
| "ubi_volume_update_write [] buf = ([], None)"
| "ubi_volume_update_write (Failed # answers) buf = ([], Some (Inl (Msg ''write failed'')))"
| "ubi_volume_update_write (Interrupted # answers) buf = ubi_volume_update_write answers buf"
| "ubi_volume_update_write (Wrote n # answers) buf =
     (case ubi_volume_update_write answers (drop n buf) of (bytes, r) \<Rightarrow> (take n buf @ bytes, r))"

section \<open>What automatic detection offers\<close>

lemma get_device_stats_Some:
  assumes "mmc_get_device_stats os name = Some info"
  shows "mo_stat os (devpath info) = Some (info_st info)" and "devpath info = snprintf 16 (''/dev/'' @ name)"
    and "removable info \<longleftrightarrow> major (st_rdev (info_st info)) = MMC_BLOCK_MAJOR \<or> mmc_device_removable_sysfs os name"
  using assms by (auto simp: mmc_get_device_stats_def Let_def split: option.splits)

text \<open>
  Every card that is offered for automatic selection was found by \<open>stat\<close>, is not the device that holds the root file
  system, has at least a megabyte, and is an MMC block device or one that the kernel calls removable.
\<close>

lemma scan_offers_cards:
  assumes "d \<in> set (mmc_scan_for_devices os None n)"
  shows "\<exists>name st. mo_stat os (md_path d) = Some st \<and> md_path d = snprintf 16 (''/dev/'' @ name) \<and> name \<in> set (sd_names @ mmcblk_names) \<and>
    st_rdev st \<noteq> root_disk_device os \<and> 1048576 \<le> md_size d \<and>
    (major (st_rdev st) = MMC_BLOCK_MAJOR \<or> mmc_device_removable_sysfs os name)"
proof -
  have scan: "info \<in> set (scan_names os names found) \<Longrightarrow> info \<in> set found \<or> (\<exists>name \<in> set names. mmc_get_device_stats os name = Some info)"
    for info names found
    by (induction os names found rule: scan_names.induct) (auto split: if_splits option.splits)
  obtain info where info: "info \<in> set (enumerate_mmc_devices os None)" "is_autodetectable_mmc_device info (root_disk_device os)"
    and d: "d = \<lparr>md_path = devpath info, md_size = device_size info\<rparr>"
    using assms by (auto simp: mmc_scan_for_devices_def dest!: in_set_takeD)
  obtain name where n: "name \<in> set (sd_names @ mmcblk_names)" "mmc_get_device_stats os name = Some info"
    using info(1) scan [of info mmcblk_names] scan [of info sd_names "[]"] by (auto simp: enumerate_mmc_devices_def)
  have "1048576 \<le> device_size info" "st_rdev (info_st info) \<noteq> root_disk_device os" "removable info"
    using info(2) by (simp_all add: is_autodetectable_mmc_device_def MMC_MIN_AUTODETECTED_SIZE_def ONE_MiB_def ONE_KiB_def)
  then show ?thesis using n(1) get_device_stats_Some [OF n(2)] unfolding d by auto
qed

section \<open>Device-mapper chains\<close>

text \<open>
  A path counts as being on a device exactly if at most three steps from a device to one of its slaves lead from the
  device of the path to that one.
\<close>

lemma traverse_devices_iff:
  "traverse_devices os goal n current \<longleftrightarrow> (\<exists>k \<le> n. (current, goal) \<in> {(a, b). b \<in> set (slaves os a)} ^^ k)" (is "_ \<longleftrightarrow> (\<exists>k \<le> n. _ \<in> ?R ^^ k)")
proof (induction n arbitrary: current)
  case (Suc n)
  have *: "(\<exists>k \<le> Suc n. (current, goal) \<in> ?R ^^ k) \<longleftrightarrow> current = goal \<or> (\<exists>k \<le> n. (current, goal) \<in> ?R ^^ Suc k)"
    by (metis (no_types, lifting) Suc_le_mono bot_nat_0.extremum not0_implies_Suc relpow_0_E relpow_0_I)
  have "(current, goal) \<in> ?R ^^ Suc k \<longleftrightarrow> (\<exists>x \<in> set (slaves os current). (x, goal) \<in> ?R ^^ k)" for k
    by (auto simp del: relpow.simps dest!: relpow_Suc_D2 intro: relpow_Suc_I2)
  then show ?case unfolding * by (auto simp: Suc.IH list_ex_iff simp del: relpow.simps)
qed auto

section \<open>The mounts of the kernel\<close>

text \<open>
  A line of \<open>/proc/mounts\<close> as the kernel documents it: the device, the mount point and the rest, with blanks, tabs,
  newlines and backslashes of a mount point as three octal digits behind a backslash.
\<close>

definition kernel_escape_char :: "char \<Rightarrow> string" where
  "kernel_escape_char c =
     (if c \<in> {CHR 0x20, CHR 0x09, CHR 0x0A, CHR 0x5C}
      then (let n = of_char c :: nat in [backslash, digit_char (n div 64), digit_char (n div 8 mod 8), digit_char (n mod 8)])
      else [c])"

definition kernel_escape :: "string \<Rightarrow> string" where
  "kernel_escape s = concat (map kernel_escape_char s)"

lemma kernel_escapes:
  "kernel_escape_char (CHR 0x20) = backslash # ''040''" "kernel_escape_char (CHR 0x09) = backslash # ''011''"
  "kernel_escape_char (CHR 0x0A) = backslash # ''012''" "kernel_escape_char (CHR 0x5C) = backslash # ''134''"
  by (simp_all add: kernel_escape_char_def digit_char_def char_of_def bit_Suc_0_iff)

lemma octal_digits_three: "is_octal b \<Longrightarrow> is_octal c \<Longrightarrow> octal_digits (a # b # c # s) = 2"
  by (auto simp: octal_digits_def char_at_def is_octal_def nul_def)

lemma escaped_char_octal:
  "escaped_char (''040'' @ s) = (CHR 0x20, 3)" "escaped_char (''011'' @ s) = (CHR 0x09, 3)"
  "escaped_char (''012'' @ s) = (CHR 0x0A, 3)" "escaped_char (''134'' @ s) = (CHR 0x5C, 3)"
  by (simp_all add: escaped_char_def Let_def octal_digits_three is_octal_def octal_value_def char_of_def bit_Suc_0_iff)

lemma unescape_backslash:
  "escaped_char cs = (p, n) \<Longrightarrow> cs \<noteq> [] \<Longrightarrow> unescape_string (backslash # cs) = bind_res (unescape_string (drop n cs)) (\<lambda>r. Inr (p # r))"
  by (simp add: unescape_string.simps(2))

lemma unescape_kernel_char: "unescape_string (kernel_escape_char c @ s) = bind_res (unescape_string s) (\<lambda>r. Inr (c # r))"
proof (cases "c \<in> {CHR 0x20, CHR 0x09, CHR 0x0A, CHR 0x5C}")
  case True
  then show ?thesis
    using unescape_backslash [OF escaped_char_octal(1) [of s]] unescape_backslash [OF escaped_char_octal(2) [of s]]
      unescape_backslash [OF escaped_char_octal(3) [of s]] unescape_backslash [OF escaped_char_octal(4) [of s]]
    by (auto simp: kernel_escapes)
next
  case False
  then show ?thesis by (auto simp: kernel_escape_char_def unescape_string.simps(2) backslash_def)
qed

lemma unescape_kernel_escape: "unescape_string (kernel_escape s) = Inr s"
  by (induction s) (simp_all add: kernel_escape_def unescape_kernel_char)

lemma fgets_lines_concat:
  "list_all (\<lambda>t. CHR 0x0A \<notin> set t \<and> length t \<le> n) ts \<Longrightarrow>
   fgets_lines n (concat (map (\<lambda>t. t @ [CHR 0x0A]) ts)) = map (\<lambda>t. t @ [CHR 0x0A]) ts"
proof (induction ts)
  case (Cons t ts)
  obtain c cs where c: "t @ CHR 0x0A # concat (map (\<lambda>t. t @ [CHR 0x0A]) ts) = c # cs"
    by (cases "t @ CHR 0x0A # concat (map (\<lambda>t. t @ [CHR 0x0A]) ts)") auto
  have line: "takeWhile (\<lambda>c. c \<noteq> CHR 0x0A) (c # cs) = t"
    unfolding c [symmetric] using Cons.prems by (subst takeWhile_append2) auto
  have "length t < length (c # cs)" unfolding c [symmetric] by simp
  moreover have "min (Suc n) (length t + 1) = length t + 1" using Cons.prems by simp
  ultimately have "fgets_lines n (c # cs) = take (length t + 1) (c # cs) # fgets_lines n (drop (length t + 1) (c # cs))"
    unfolding fgets_lines.simps(2) line Let_def by simp
  then show ?case using Cons unfolding c [symmetric] by simp
qed simp

text \<open>A word that \<open>sscanf\<close> reads whole.\<close>

definition plain_word :: "nat \<Rightarrow> string \<Rightarrow> bool" where
  "plain_word n s \<longleftrightarrow> s \<noteq> [] \<and> length s \<le> n \<and> list_all (\<lambda>c. \<not> isspace c \<and> c \<noteq> nul) s"

lemma scan_word_plain:
  assumes "plain_word n w" and "isspace c"
  shows "scan_word n (w @ c # rest) = (w, c # rest)"
proof -
  have "dropWhile isspace (w @ c # rest) = w @ c # rest" using assms(1) by (cases w) (auto simp: plain_word_def)
  moreover have "takeWhile (\<lambda>c. \<not> isspace c) (w @ c # rest) = w"
    using assms by (subst takeWhile_append2) (auto simp: plain_word_def list_all_iff)
  ultimately show ?thesis using assms(1) by (simp add: scan_word_def plain_word_def)
qed

lemma scan_word_space: "isspace c \<Longrightarrow> scan_word n (c # s) = scan_word n s"
  by (simp add: scan_word_def)

text \<open>The lines that the kernel writes for mounts that fit into the buffers.\<close>

definition kernel_line :: "string \<times> string \<times> string \<Rightarrow> string" where
  "kernel_line = (\<lambda>(dev, mnt, rest). dev @ '' '' @ kernel_escape mnt @ '' '' @ rest)"

definition kernel_mount :: "string \<times> string \<times> string \<Rightarrow> bool" where
  "kernel_mount = (\<lambda>(dev, mnt, rest). plain_word 63 dev \<and> plain_word 255 (kernel_escape mnt) \<and>
     CHR 0x0A \<notin> set rest \<and> length (kernel_line (dev, mnt, rest)) \<le> 510)"

definition proc_mounts :: "(string \<times> string \<times> string) list \<Rightarrow> string" where
  "proc_mounts ms = concat (map (\<lambda>t. t @ [CHR 0x0A]) (map kernel_line ms))"

definition mounts_of :: "string \<Rightarrow> (string \<times> string \<times> string) list \<Rightarrow> string list" where
  "mounts_of mmc_device ms = map (\<lambda>(dev, mnt, rest). mnt) (filter (\<lambda>(dev, mnt, rest). has_prefix mmc_device dev) ms)"

lemma isspace_space: "isspace (CHR 0x20)" "isspace (CHR 0x0A)"
  by (simp_all add: isspace_def Let_def)

lemma plain_word_no_newline: "plain_word n w \<Longrightarrow> CHR 0x0A \<notin> set w \<and> nul \<notin> set w"
  using isspace_space by (auto simp: plain_word_def list_all_iff)

lemma c_string_append: "nul \<notin> set s \<Longrightarrow> c_string (s @ t) = s @ c_string t"
  unfolding c_string_def by (subst takeWhile_append2) auto

lemma scan_kernel_line:
  assumes "kernel_mount (dev, mnt, rest)"
  shows "scan_mount (kernel_line (dev, mnt, rest) @ [CHR 0x0A]) = Some (dev, kernel_escape mnt)"
proof -
  have w: "plain_word 63 dev" "plain_word 255 (kernel_escape mnt)" using assms by (simp_all add: kernel_mount_def)
  have "nul \<notin> set (dev @ '' '' @ kernel_escape mnt @ '' '')" using w [THEN plain_word_no_newline] by (simp add: nul_def char_of_def)
  then have "c_string (kernel_line (dev, mnt, rest) @ [CHR 0x0A]) =
      dev @ CHR 0x20 # kernel_escape mnt @ CHR 0x20 # c_string (rest @ [CHR 0x0A])"
    using c_string_append [of "dev @ '' '' @ kernel_escape mnt @ '' ''" "rest @ [CHR 0x0A]"] by (simp add: kernel_line_def)
  then show ?thesis
    using w by (simp add: scan_mount_def scan_word_plain isspace_space scan_word_space plain_word_def)
qed

lemma mounts_todo_kernel:
  assumes "list_all kernel_mount ms" and "length todo + length (mounts_of mmc_device ms) \<le> 64"
  shows "mounts_todo mmc_device (map (\<lambda>t. t @ [CHR 0x0A]) (map kernel_line ms)) todo = Inr (todo @ mounts_of mmc_device ms)"
  using assms
proof (induction ms arbitrary: todo)
  case (Cons m ms)
  obtain dev mnt rest where m: "m = (dev, mnt, rest)" by (cases m)
  show ?case
    using Cons.IH [of "if has_prefix mmc_device dev then todo @ [mnt] else todo"] Cons.prems
    by (auto simp: m scan_kernel_line unescape_kernel_escape mounts_of_def)
qed (simp add: mounts_of_def)

lemma proc_mounts_todo:
  assumes "list_all kernel_mount ms" and "length (mounts_of mmc_device ms) \<le> 64"
  shows "mounts_todo mmc_device (fgets_lines 510 (proc_mounts ms)) [] = Inr (mounts_of mmc_device ms)"
proof -
  have "list_all (\<lambda>t. CHR 0x0A \<notin> set t \<and> length t \<le> 510) (map kernel_line ms)"
    using assms(1) by (auto simp: list_all_iff kernel_mount_def kernel_line_def dest!: bspec plain_word_no_newline)
  then show ?thesis
    using mounts_todo_kernel [OF assms(1), of "[]"] assms(2) by (simp only: proc_mounts_def fgets_lines_concat) simp
qed

text \<open>A system that notes every call and answers it by what is called.\<close>

definition noting :: "(mmc_call \<Rightarrow> int) \<Rightarrow> mmc_call list mmc_os \<Rightarrow> mmc_call list mmc_os" where
  "noting answer os = os\<lparr>mo_call := \<lambda>c w. (answer c, w @ [c])\<rparr>"

definition umounts_in :: "mmc_call list \<Rightarrow> string list" where
  "umounts_in w = concat (map (\<lambda>c. case c of Exec p m \<Rightarrow> (if p = ''/bin/umount'' then [m] else []) | Umount m \<Rightarrow> [m] | _ \<Rightarrow> []) w)"

lemma umounts_in_append [simp]: "umounts_in (w @ w') = umounts_in w @ umounts_in w'"
  by (simp add: umounts_in_def)

definition umounted :: "(mmc_call \<Rightarrow> int) \<Rightarrow> 'w mmc_os \<Rightarrow> string \<Rightarrow> bool" where
  "umounted answer os m \<longleftrightarrow> (if mo_mtab os then answer (Exec ''/bin/umount'' m) = 0 else 0 \<le> answer (Umount m))"

lemma umount_one_noting:
  assumes "mo_has_umount os \<or> mo_mtab os"
  shows "\<exists>w'. umount_one (noting answer os) m w = (Inr (if umounted answer os m then 0 else -1), w') \<and> umounts_in w' = umounts_in w @ [m]"
  using assms
  by (auto simp: umount_one_def noting_def mmc_call_os_def ok_then_def from_res_def umounted_def umounts_in_def)

lemma umount_each_noting:
  assumes "mo_has_umount os \<or> mo_mtab os"
  shows "\<exists>w'. umount_each (noting answer os) ms rc w = (Inr (if list_all (umounted answer os) ms then rc else -1), w') \<and>
    umounts_in w' = umounts_in w @ ms"
proof (induction ms arbitrary: rc w)
  case (Cons m ms)
  obtain w1 where 1: "umount_one (noting answer os) m w = (Inr (if umounted answer os m then 0 else -1), w1)" "umounts_in w1 = umounts_in w @ [m]"
    using umount_one_noting [OF assms] by blast
  show ?case using Cons.IH [of "if umounted answer os m then rc else -1" w1] 1 by (auto simp: ok_then_def split: if_splits)
qed (simp add: from_res_def)

text \<open>
  C22: with the mounts of the kernel, unmounting a device calls for each file system that is mounted from a
  device whose name starts with the given one, in the order of the mounts and under its own name, and reports success exactly if every call did.
\<close>

theorem umount_all_kernel_mounts:
  assumes "mo_read os ''/proc/mounts'' = Some (proc_mounts ms)" and "list_all kernel_mount ms"
    and "length (mounts_of mmc_device ms) \<le> 64" and "mo_has_umount os \<or> mo_mtab os"
  shows "\<exists>w'. mmc_umount_all (noting answer os) mmc_device w =
      (Inr (if list_all (umounted answer os) (mounts_of mmc_device ms) then 0 else -1), w') \<and>
    umounts_in w' = umounts_in w @ mounts_of mmc_device ms"
proof -
  have "mo_read (noting answer os) ''/proc/mounts'' = Some (proc_mounts ms)" using assms(1) by (simp add: noting_def)
  then show ?thesis
    using umount_each_noting [OF assms(4), of answer "mounts_of mmc_device ms" 0 w]
    by (simp add: mmc_umount_all_def proc_mounts_todo [OF assms(2,3)] from_res_then)
qed

definition sample_os :: "mmc_call list mmc_os" where
  "sample_os = \<lparr>mo_stat = (\<lambda>_. None), mo_read = (\<lambda>_. Some (proc_mounts [(''/dev/sdb1'', ''/my card'', ''vfat''), (''/dev/sda1'', ''/'', ''ext4'')])),
     mo_end = (\<lambda>_. None), mo_scandir = (\<lambda>_. []), mo_mtab = False, mo_has_umount = True, mo_call = (\<lambda>c w. (0, w))\<rparr>"

theorem umount_all_kernel_mounts_witness:
  "\<exists>w'. mmc_umount_all (noting (\<lambda>_. -1) sample_os) ''/dev/sdb'' [] = (Inr (-1), w') \<and> umounts_in w' = [''/my card'']"
proof -
  let ?ms = "[(''/dev/sdb1'', ''/my card'', ''vfat''), (''/dev/sda1'', ''/'', ''ext4'')]"
  have k: "list_all kernel_mount ?ms"
    by (simp add: kernel_mount_def plain_word_def kernel_line_def kernel_escape_def kernel_escape_char_def kernel_escapes isspace_def nul_def
        char_of_def digit_char_def backslash_def bit_Suc_0_iff Let_def)
  have m: "mounts_of ''/dev/sdb'' ?ms = [''/my card'']" by (simp add: mounts_of_def has_prefix_def)
  have "\<exists>w'. mmc_umount_all (noting (\<lambda>_. -1) sample_os) ''/dev/sdb'' [] =
      (Inr (if list_all (umounted (\<lambda>_. -1) sample_os) (mounts_of ''/dev/sdb'' ?ms) then 0 else -1), w') \<and>
    umounts_in w' = umounts_in [] @ mounts_of ''/dev/sdb'' ?ms"
    by (rule umount_all_kernel_mounts [OF _ k]) (simp_all add: m sample_os_def)
  then show ?thesis by (simp add: m umounted_def sample_os_def umounts_in_def)
qed

section \<open>The root disk\<close>

text \<open>With sixteen numbers to a disk, the disk that holds the root file system is not offered.\<close>

lemma root_disk_masked:
  assumes "mo_stat os ''/'' = Some st" and "st_dev st = disk OR k" and "disk AND 0xFFF0 = disk" and "k AND 0xF = k"
  shows "root_disk_device os = disk"
proof -
  have "k AND 0xFFF0 = (k AND 0xF) AND 0xFFF0" using assms(4) by simp
  also have "\<dots> = 0" by (simp add: and.assoc)
  finally have "k AND 0xFFF0 = 0" .
  then show ?thesis using assms(1-3) by (simp add: root_disk_device_def and.commute [of _ "0xFFF0"] bit.conj_disj_distrib)
qed

section \<open>Trimming reaches too far\<close>

text \<open>
  \<open>BLKDISCARD\<close> takes the start and the length of a range; what is passed is its start and its end. Where the device has
  room, the bytes behind the range are discarded as well, as many as there are in front of it.
\<close>

definition blkdiscard :: "u64 \<Rightarrow> u64 \<Rightarrow> device \<Rightarrow> device" where
  "blkdiscard start len d = mmc_trim (unat start) (unat len) d"

definition discarding :: "device mmc_os \<Rightarrow> device mmc_os" where
  "discarding os = os\<lparr>mo_call := \<lambda>c d. case c of Blkdiscard start len \<Rightarrow> (0, blkdiscard start len d) | _ \<Rightarrow> (0, d)\<rparr>"

theorem trim_discards_behind:
  "snd (mmc_trim_ioctl (discarding os) offset count d) = mmc_trim (unat offset) (unat (offset + count)) d"
  by (simp add: mmc_trim_ioctl_def mmc_call_os_def discarding_def ok_then_def from_res_def blkdiscard_def)

section \<open>Writing a UBI volume\<close>

text \<open>What is written is a part of the data from its start, and all of it when the loop ends well.\<close>

lemma ubi_write_prefix:
  "ubi_volume_update_write answers buf = (bytes, r) \<Longrightarrow> (\<exists>rest. buf = bytes @ rest) \<and> (r = Some (Inr ()) \<longrightarrow> bytes = buf)"
proof (induction answers buf arbitrary: bytes rule: ubi_volume_update_write.induct)
  case (5 n answers b buf)
  obtain bytes' where r: "ubi_volume_update_write answers (drop n (b # buf)) = (bytes', r)" and bytes: "bytes = take n (b # buf) @ bytes'"
    using "5.prems" by (auto split: prod.splits)
  from "5.IH" [OF r] bytes show ?case by (metis append.assoc append_take_drop_id)
qed auto

text \<open>It ends once the counts add up to the length.\<close>

lemma ubi_write_ends:
  "list_all (\<lambda>a. a \<noteq> Failed) answers \<Longrightarrow> length buf \<le> sum_list (map (\<lambda>a. case a of Wrote n \<Rightarrow> n | _ \<Rightarrow> 0) answers) \<Longrightarrow>
   ubi_volume_update_write answers buf = (buf, Some (Inr ()))"
  by (induction answers buf rule: ubi_volume_update_write.induct) (auto split: prod.splits)

end
