(* ===== verification/Key_Files.thy ===== *)
theory Key_Files
  imports Base64 Fw_Create
begin

text \<open>
  The files with the keys: \<open>fwup_genkeys.c\<close> writes them, \<open>load_key\<close>, \<open>parse_key\<close> and
  \<open>decode_key\<close> of \<open>fwup.c\<close> read them. The random numbers, the public key of Ed25519 and the
  answers of \<open>open\<close> and \<open>write\<close> are parameters; the state is the contents of the files. What is shown is that the keys
  that are made are the keys that are loaded later, and that no file is overwritten.
\<close>

section \<open>Reading keys\<close>

definition FWUP_PUBLIC_KEY_LEN :: nat where "FWUP_PUBLIC_KEY_LEN = 32"

definition decode_key :: "byte list \<Rightarrow> nat \<Rightarrow> byte list option" where
  "decode_key buffer key_len =
     (if length buffer = key_len then Some buffer
      else if length buffer \<ge> base64_raw_to_unpadded_count key_len then
        (case from_base64 key_len (bytes_string buffer) of
           None \<Rightarrow> None
         | Some (key, _) \<Rightarrow> if length key = key_len then Some key else None)
      else None)"

definition quoted :: "string \<Rightarrow> string" where
  "quoted s = [CHR 0x27] @ s @ [CHR 0x27]"

text \<open>
  What is read of the file: at most as many bytes as the key has with padding. The text that \<open>strerror\<close> adds to the
  first message, and to those of \<open>save_key\<close>, is left out.
\<close>

definition load_key :: "(string \<Rightarrow> byte list option) \<Rightarrow> string \<Rightarrow> string \<Rightarrow> nat \<Rightarrow> byte list res" where
  "load_key files path key_type key_len =
     (case files path of
        None \<Rightarrow> Inl (Msg (''Error opening '' @ key_type @ '' key file '' @ quoted path))
      | Some contents \<Rightarrow>
          (case decode_key (take (base64_raw_to_encoded_count key_len) contents) key_len of
             None \<Rightarrow> Inl (Msg (''Error reading or decoding '' @ key_type @ '' key from file '' @ quoted path))
           | Some key \<Rightarrow> Inr key))"

definition parse_key :: "string \<Rightarrow> string \<Rightarrow> nat \<Rightarrow> byte list res" where
  "parse_key buffer key_type key_len =
     (case decode_key (string_bytes buffer) key_len of
        None \<Rightarrow> Inl (Msg (''Error decoding '' @ key_type @ '' key'')) | Some key \<Rightarrow> Inr key)"

definition load_public_key :: "(string \<Rightarrow> byte list option) \<Rightarrow> string \<Rightarrow> byte list res" where
  "load_public_key files path = load_key files path ''public'' FWUP_PUBLIC_KEY_LEN"

definition parse_public_key :: "string \<Rightarrow> byte list res" where
  "parse_public_key buffer = parse_key buffer ''public'' FWUP_PUBLIC_KEY_LEN"

definition load_signing_key :: "(string \<Rightarrow> byte list option) \<Rightarrow> string \<Rightarrow> byte list res" where
  "load_signing_key files path = load_key files path ''private'' (FWUP_PRIVATE_KEY_LEN + FWUP_PUBLIC_KEY_LEN)"

definition parse_signing_key :: "string \<Rightarrow> byte list res" where
  "parse_signing_key buffer = parse_key buffer ''private'' (FWUP_PRIVATE_KEY_LEN + FWUP_PUBLIC_KEY_LEN)"

section \<open>Writing keys\<close>

text \<open>
  \<open>gk_create\<close> is whether a file that does not exist can be created, \<open>gk_write\<close> the answer of \<open>write\<close>. A path
  that does not fit into \<open>PATH_MAX\<close> bytes overflows the buffer of \<open>fwup_genkeys\<close>.
\<close>

type_synonym key_files = "string \<Rightarrow> byte list option"

record key_env =
  gk_random :: "byte list option"
  gk_public_key :: "byte list \<Rightarrow> byte list"
  gk_create :: "string \<Rightarrow> bool"
  gk_write :: "string \<Rightarrow> byte list \<Rightarrow> int"

definition PATH_MAX :: nat where "PATH_MAX = 4096"

definition key_text :: "byte list \<Rightarrow> string res" where
  "key_text key =
     (let encoded_len = base64_raw_to_encoded_count (length key) in
      case to_base64 encoded_len key of
        None \<Rightarrow> Inl (Undefined ''buffer'')
      | Some text \<Rightarrow> Inr (text @ replicate (encoded_len - length text) (CHR ''='')))"

definition save_key :: "key_env \<Rightarrow> string \<Rightarrow> byte list \<Rightarrow> (key_files, unit) action" where
  "save_key env name key = (\<lambda>files.
     if files name \<noteq> None \<or> \<not> gk_create env name then (Inl (Msg (''Couldn't create '' @ quoted name)), files)
     else (case key_text key of
         Inl e \<Rightarrow> (Inl e, files(name \<mapsto> []))
       | Inr text \<Rightarrow>
           (let buffer = string_bytes text; written = gk_write env name buffer in
            (if written < 0 \<or> nat written \<noteq> length buffer then Inl (Msg (''Couldn't write to '' @ quoted name)) else Inr (),
             files(name \<mapsto> take (nat written) buffer)))))"

definition basename :: "string \<Rightarrow> string" where
  "basename path = rev (takeWhile (\<lambda>c. c \<noteq> CHR ''/'') (rev path))"

definition keys_message :: "string \<Rightarrow> string \<Rightarrow> string" where
  "keys_message pubkey_path privkey_path =
     (let pub = take 32 (take 63 (basename pubkey_path)); priv = take 32 (basename privkey_path); quote = [CHR 0x27]; newline = [CHR 0x0A] in
      ''Firmware signing keys created and saved to '' @ quote @ pub @ quote @ '' and '' @ quote @ priv @ quote @ newline @ newline @
      ''Distribute '' @ quote @ pub @ quote @ '' with your system so that firmware updates can be'' @ newline @
      ''authenticated. Keep '' @ quote @ priv @ quote @ '' in a safe location.'' @ newline)"

definition fwup_genkeys :: "key_env \<Rightarrow> string option \<Rightarrow> (key_files, string) action" where
  "fwup_genkeys env output_prefix = (\<lambda>files.
     case gk_random env of
       None \<Rightarrow> (Inl (Msg ''Could not get enough random bytes''), files)
     | Some random \<Rightarrow>
         (let pk = gk_public_key env random; sk = random @ pk;
              prefix = (case output_prefix of None \<Rightarrow> ''fwup-key'' | Some p \<Rightarrow> p);
              pubkey_path = prefix @ ''.pub''; privkey_path = prefix @ ''.priv'' in
          if length privkey_path \<ge> PATH_MAX then (Inl (Undefined ''sprintf''), files)
          else ok_then (save_key env pubkey_path pk) (\<lambda>_.
                 ok_then (save_key env privkey_path sk) (\<lambda>_ files. (Inr (keys_message pubkey_path privkey_path), files))) files))"

section \<open>The keys that are made are the keys that are loaded\<close>

lemma decode_key_text:
  assumes "key_text key = Inr text" and "length key = n" and "0 < n" and "n mod 3 \<noteq> 0"
  shows "decode_key (string_bytes text) n = Some key" and "length text = base64_raw_to_encoded_count n"
proof -
  let ?count = "base64_raw_to_encoded_count n"
  obtain t where t: "to_base64 ?count key = Some t" and tx: "text = t @ replicate (?count - length t) (CHR ''='')"
    using assms(1,2) by (auto simp: key_text_def Let_def split: option.splits)
  have len: "length t = encoded_length n" using t assms(2) by (auto simp: to_base64_def encode_loop_length split: if_splits)
  have lt: "encoded_length n < ?count" using t assms(2) by (simp add: to_base64_def split: if_splits)
  then show l: "length text = ?count" using len by (simp add: tx)
  have "n < ?count" using assms(3) by (simp add: base64_raw_to_encoded_count_def)
  moreover have "from_base64 n (t @ replicate (?count - length t) (CHR ''='')) = Some (key, replicate (?count - length t) (CHR ''=''))"
    using from_to_base64 [OF t _ ends_base64_padding] assms(2) by simp
  ultimately show "decode_key (string_bytes text) n = Some key"
    using l lt assms(2) by (simp add: decode_key_def unpadded_count tx)
qed

lemma save_key_Inr:
  assumes "save_key env name key files = (Inr (), files')"
  shows "files name = None \<and> (\<exists>text. key_text key = Inr text \<and> files' = files(name \<mapsto> string_bytes text))"
  using assms by (auto simp: save_key_def Let_def split: if_splits sum.splits)

lemma load_saved_key:
  assumes "key_text key = Inr text" and "length key = n" and "0 < n" and "n mod 3 \<noteq> 0" and "files path = Some (string_bytes text)"
  shows "load_key files path key_type n = Inr key"
  using decode_key_text [OF assms(1-4)] assms(5) by (simp add: load_key_def)

lemma genkeys_texts:
  assumes "gk_random env = Some random" and "fwup_genkeys env (Some prefix) files = (Inr msg, files')"
  shows "\<exists>t1 t2. key_text (gk_public_key env random) = Inr t1 \<and> key_text (random @ gk_public_key env random) = Inr t2 \<and>
    files' (prefix @ ''.pub'') = Some (string_bytes t1) \<and> files' (prefix @ ''.priv'') = Some (string_bytes t2)"
proof -
  obtain files1 where s1: "save_key env (prefix @ ''.pub'') (gk_public_key env random) files = (Inr (), files1)"
    and s2: "save_key env (prefix @ ''.priv'') (random @ gk_public_key env random) files1 = (Inr (), files')"
    using assms by (auto simp: fwup_genkeys_def Let_def split: if_splits elim!: ok_then_Inr_E)
  obtain t1 where t1: "key_text (gk_public_key env random) = Inr t1" "files1 (prefix @ ''.pub'') = Some (string_bytes t1)"
    using save_key_Inr [OF s1] by auto
  obtain t2 where "key_text (random @ gk_public_key env random) = Inr t2" "files' = files1(prefix @ ''.priv'' \<mapsto> string_bytes t2)"
    using save_key_Inr [OF s2] by auto
  with t1 show ?thesis by auto
qed

text \<open>
  C14: the key files that are made are read back as the keys they were made from: the public key as it was derived
  from the random bytes, and the signing key as these bytes with the public key behind them. The check of a signature under
  the loaded public key thus is one under the key that belongs to the loaded signing key.
\<close>

theorem generated_keys_load:
  assumes "gk_random env = Some random" and "length random = FWUP_PRIVATE_KEY_LEN"
    and "length (gk_public_key env random) = FWUP_PUBLIC_KEY_LEN"
    and "fwup_genkeys env (Some prefix) files = (Inr msg, files')"
  shows "load_public_key files' (prefix @ ''.pub'') = Inr (gk_public_key env random) \<and>
    load_signing_key files' (prefix @ ''.priv'') = Inr (random @ gk_public_key env random)"
  using genkeys_texts [OF assms(1,4)] assms(2,3)
  by (auto simp: load_public_key_def load_signing_key_def load_saved_key FWUP_PRIVATE_KEY_LEN_def FWUP_PUBLIC_KEY_LEN_def)

text \<open>A generator that counts, a public key that is the random bytes reversed, and a disk that takes what it is given.\<close>

definition sample_key_env :: key_env where
  "sample_key_env = \<lparr>gk_random = Some (map word_of_nat [0..<32]), gk_public_key = rev, gk_create = (\<lambda>_. True), gk_write = (\<lambda>_ buf. int (length buf))\<rparr>"

lemma encoded_length_less: "n mod 3 \<noteq> 0 \<Longrightarrow> encoded_length n < base64_raw_to_encoded_count n"
proof -
  assume n: "n mod 3 \<noteq> 0"
  obtain q r where q: "n = 3 * q + r" and r: "r = n mod 3" by (metis mult_div_mod_eq)
  have "r = 1 \<or> r = 2" using n r by presburger
  then show ?thesis unfolding q by (auto simp: encoded_length_def base64_raw_to_encoded_count_def)
qed

lemma key_text_defined: "length key = n \<Longrightarrow> n mod 3 \<noteq> 0 \<Longrightarrow> \<exists>text. key_text key = Inr text"
  using encoded_length_less [of n] by (simp add: key_text_def to_base64_def Let_def)

lemma sample_genkeys: "\<exists>msg files'. fwup_genkeys sample_key_env (Some ''key'') (\<lambda>_. None) = (Inr msg, files')"
proof -
  let ?r = "map word_of_nat [0..<32]"
  obtain t1 where "key_text (rev ?r) = Inr t1" using key_text_defined [of "rev ?r" 32] by auto
  moreover obtain t2 where "key_text (?r @ rev ?r) = Inr t2" using key_text_defined [of "?r @ rev ?r" 64] by auto
  ultimately show ?thesis
    by (simp add: fwup_genkeys_def sample_key_env_def save_key_def ok_then_def PATH_MAX_def Let_def)
qed

theorem generated_keys_load_witness:
  "\<exists>files'. load_public_key files' ''key.pub'' = Inr (rev (map word_of_nat [0..<32])) \<and>
    load_signing_key files' ''key.priv'' = Inr (map word_of_nat [0..<32] @ rev (map word_of_nat [0..<32]))"
proof -
  obtain msg files' where "fwup_genkeys sample_key_env (Some ''key'') (\<lambda>_. None) = (Inr msg, files')" using sample_genkeys by blast
  from generated_keys_load [OF _ _ _ this, of "map word_of_nat [0..<32]"] show ?thesis
    by (auto simp: sample_key_env_def FWUP_PRIVATE_KEY_LEN_def FWUP_PUBLIC_KEY_LEN_def)
qed

text \<open>No file that exists is changed, whether or not making the keys succeeds.\<close>

lemma save_key_keeps: "files path = Some x \<Longrightarrow> snd (save_key env name key files) path = Some x"
  by (auto simp: save_key_def Let_def split: sum.splits)

theorem genkeys_keeps_files: "files path = Some x \<Longrightarrow> snd (fwup_genkeys env output_prefix files) path = Some x"
proof -
  assume f: "files path = Some x"
  have "snd (ok_then (save_key env a pk) (\<lambda>_. ok_then (save_key env b sk) (\<lambda>_ files. (Inr m, files))) files) path = Some x" for a b pk sk and m :: string
    using save_key_keeps [where files = files and name = a and key = pk and env = env, OF f] save_key_keeps [where path = path and x = x and name = b and key = sk and env = env]
    by (auto simp: ok_then_def split: prod.splits sum.splits) (metis snd_conv)+
  then show ?thesis using f by (simp add: fwup_genkeys_def Let_def split: option.splits)
qed

end
