(* ===== verification/Creation_Time.thy ===== *)
theory Creation_Time
  imports CLib
begin

text \<open>
  The time at which an archive is made (\<open>get_creation_timestamp\<close> and its helpers in \<open>util.c\<close>), with
  what it uses of the C library: \<open>gmtime\<close>, \<open>timegm\<close>, and \<open>strftime\<close> and \<open>strptime\<close> with the one format of the
  source, the latter as in the GNU C library. The state are the two static variables and the environment. That the time is
  reproducible from \<open>SOURCE_DATE_EPOCH\<close> and from \<open>NOW\<close> is what is shown.
\<close>

section \<open>The calendar\<close>

record tm =
  tm_year :: int
  tm_mon :: nat
  tm_mday :: nat
  tm_hour :: nat
  tm_min :: nat
  tm_sec :: nat

definition leap :: "int \<Rightarrow> bool" where
  "leap y \<longleftrightarrow> y mod 4 = 0 \<and> (y mod 100 \<noteq> 0 \<or> y mod 400 = 0)"

definition days_in_year :: "int \<Rightarrow> nat" where
  "days_in_year y = (if leap y then 366 else 365)"

definition days_in_month :: "int \<Rightarrow> nat \<Rightarrow> nat" where
  "days_in_month y m = (if m = 2 then (if leap y then 29 else 28) else if m \<in> {4, 6, 9, 11} then 30 else 31)"

lemma days_positive [simp]: "0 < days_in_year y" "0 < days_in_month y m"
  by (simp_all add: days_in_year_def days_in_month_def)

function split_years :: "int \<Rightarrow> nat \<Rightarrow> int \<times> nat" where
  "split_years y d = (if d < days_in_year y then (y, d) else split_years (y + 1) (d - days_in_year y))"
  by pat_completeness auto
termination
  by (relation "measure snd") (auto simp: days_in_year_def)

function split_months :: "int \<Rightarrow> nat \<Rightarrow> nat \<Rightarrow> nat \<times> nat" where
  "split_months y m d = (if 12 \<le> m \<or> d < days_in_month y m then (m, d) else split_months y (m + 1) (d - days_in_month y m))"
  by pat_completeness auto
termination
  by (relation "measure (\<lambda>(_, m, _). 12 - m)") auto

declare split_years.simps [simp del] split_months.simps [simp del]

text \<open>
  Every 400 years the calendar repeats, after 146097 days; the cycles are counted from the year 2000, which
  starts 10957 days after the epoch. \<open>gmtime\<close> fails when the year, counted from 1900, is not an \<open>int\<close>.
\<close>

definition gmtime :: "int \<Rightarrow> tm option" where
  "gmtime t =
     (let days = t div 86400 - 10957; secs = nat (t mod 86400);
          (y, doy) = split_years (2000 + 400 * (days div 146097)) (nat (days mod 146097));
          (m, d) = split_months y 1 doy in
      if - (2 ^ 31) \<le> y - 1900 \<and> y - 1900 < 2 ^ 31
      then Some \<lparr>tm_year = y, tm_mon = m, tm_mday = d + 1, tm_hour = secs div 3600, tm_min = secs div 60 mod 60, tm_sec = secs mod 60\<rparr>
      else None)"

function days_of_years :: "int \<Rightarrow> int \<Rightarrow> nat" where
  "days_of_years y0 y = (if y \<le> y0 then 0 else days_of_years y0 (y - 1) + days_in_year (y - 1))"
  by pat_completeness auto
termination
  by (relation "measure (\<lambda>(y0, y). nat (y - y0))") auto

declare days_of_years.simps [simp del]

fun days_of_months :: "int \<Rightarrow> nat \<Rightarrow> nat" where
  "days_of_months y 0 = 0"
| "days_of_months y (Suc m) = (if m = 0 then 0 else days_of_months y m + days_in_month y m)"

definition timegm :: "tm \<Rightarrow> int" where
  "timegm t =
     (let y = tm_year t; cycle = (y - 2000) div 400 in
      (10957 + 146097 * cycle + int (days_of_years (2000 + 400 * cycle) y + days_of_months y (tm_mon t)) + int (tm_mday t) - 1) * 86400
      + int (tm_hour t) * 3600 + int (tm_min t) * 60 + int (tm_sec t))"

section \<open>The format of a time\<close>

definition two_digits :: "nat \<Rightarrow> string" where
  "two_digits n = [digit_char (n div 10), digit_char (n mod 10)]"

definition strftime :: "tm \<Rightarrow> string" where
  "strftime t = show_int (tm_year t) @ ''-'' @ two_digits (tm_mon t) @ ''-'' @ two_digits (tm_mday t) @ ''T'' @
     two_digits (tm_hour t) @ '':'' @ two_digits (tm_min t) @ '':'' @ two_digits (tm_sec t) @ ''Z''"

text \<open>
  A number of the C library's \<open>strptime\<close>: at most \<open>n\<close> digits behind white space, and no more once another one
  would exceed the largest value.
\<close>

fun more_digits :: "nat \<Rightarrow> nat \<Rightarrow> nat \<Rightarrow> string \<Rightarrow> nat \<times> string" where
  "more_digits limit 0 v s = (v, s)"
| "more_digits limit (Suc n) v [] = (v, [])"
| "more_digits limit (Suc n) v (c # cs) =
     (if v * 10 \<le> limit \<and> isdigit c then more_digits limit n (v * 10 + digit_val c) cs else (v, c # cs))"

definition get_number :: "nat \<Rightarrow> nat \<Rightarrow> nat \<Rightarrow> string \<Rightarrow> (nat \<times> string) option" where
  "get_number lo limit n s =
     (case dropWhile isspace s of
        [] \<Rightarrow> None
      | c # cs \<Rightarrow>
          if \<not> isdigit c then None
          else (let (v, rest) = more_digits limit (n - 1) (digit_val c) cs in if v < lo \<or> limit < v then None else Some (v, rest)))"

definition match_char :: "char \<Rightarrow> string \<Rightarrow> string option" where
  "match_char c s = (case s of [] \<Rightarrow> None | c' # cs \<Rightarrow> if c = c' then Some cs else None)"

text \<open>A number and the character behind it.\<close>

definition get_field :: "nat \<Rightarrow> nat \<Rightarrow> nat \<Rightarrow> char \<Rightarrow> string \<Rightarrow> (nat \<times> string) option" where
  "get_field lo limit n c s =
     (case get_number lo limit n s of None \<Rightarrow> None | Some (v, s') \<Rightarrow> map_option (Pair v) (match_char c s'))"

definition strptime :: "string \<Rightarrow> (tm \<times> string) option" where
  "strptime s =
     Option.bind (get_field 0 9999 4 (CHR ''-'') s) (\<lambda>(y, s).
     Option.bind (get_field 1 12 2 (CHR ''-'') s) (\<lambda>(m, s).
     Option.bind (get_field 1 31 2 (CHR ''T'') s) (\<lambda>(d, s).
     Option.bind (get_field 0 23 2 (CHR '':'') s) (\<lambda>(h, s).
     Option.bind (get_field 0 59 2 (CHR '':'') s) (\<lambda>(mi, s).
     Option.bind (get_field 0 61 2 (CHR ''Z'') s) (\<lambda>(sec, s).
       Some (\<lparr>tm_year = int y, tm_mon = m, tm_mday = d, tm_hour = h, tm_min = mi, tm_sec = sec\<rparr>, s)))))))"

section \<open>The creation time\<close>

record time_state =
  ts_string :: string
  ts_now :: int
  ts_env :: "string \<Rightarrow> string option"

text \<open>What is stored into the buffer of 200 bytes; \<open>strftime\<close> always finds room there.\<close>

definition time_t_to_string :: "int \<Rightarrow> string res" where
  "time_t_to_string t = (case gmtime t of None \<Rightarrow> Inl (Msg ''gmtime'') | Some tm \<Rightarrow> Inr (strftime tm))"

definition timestamp_to_tm :: "string \<Rightarrow> tm res" where
  "timestamp_to_tm timestamp = (case strptime timestamp of None \<Rightarrow> Inl (Msg ''error parsing timestamp'') | Some (t, _) \<Rightarrow> Inr t)"

definition use_time :: "int \<Rightarrow> (time_state, string) action" where
  "use_time t = (\<lambda>s.
     case time_t_to_string t of
       Inl e \<Rightarrow> (Inl e, s\<lparr>ts_now := t\<rparr>)
     | Inr str \<Rightarrow> (Inr str, s\<lparr>ts_now := t, ts_string := str, ts_env := (ts_env s)(''NOW'' \<mapsto> str)\<rparr>))"

text \<open>\<open>clock\<close> is the answer of \<open>time\<close>. A value of \<open>NOW\<close> that is not used leaves its first 199 characters in the buffer.\<close>

definition get_creation_timestamp :: "int \<Rightarrow> (time_state, string) action" where
  "get_creation_timestamp clock = (\<lambda>s.
     if ts_string s \<noteq> [] then (Inr (ts_string s), s)
     else (case ts_env s ''SOURCE_DATE_EPOCH'' of
         Some epoch \<Rightarrow> use_time (sint (fst (strtoull epoch))) s
       | None \<Rightarrow>
           (case ts_env s ''NOW'' of
              None \<Rightarrow> use_time clock s
            | Some now \<Rightarrow>
                (case strptime now of
                   None \<Rightarrow> use_time clock s
                 | Some (t, _) \<Rightarrow>
                     if length now < 200 then (Inr now, s\<lparr>ts_string := now, ts_now := timegm t\<rparr>)
                     else use_time clock (s\<lparr>ts_string := take 199 now\<rparr>)))))"

definition get_creation_time_t :: "int \<Rightarrow> (time_state, int) action" where
  "get_creation_time_t clock = (\<lambda>s.
     if ts_now s = 0 then (case get_creation_timestamp clock s of (Inl e, s') \<Rightarrow> (Inl e, s') | (Inr _, s') \<Rightarrow> (Inr (ts_now s'), s'))
     else (Inr (ts_now s), s))"

section \<open>Back from a calendar date\<close>

lemma days_of_years_start [simp]: "days_of_years y y = 0"
  by (simp add: days_of_years.simps)

lemma days_of_years_step: "y0 \<le> y \<Longrightarrow> days_of_years y0 (y + 1) = days_of_years y0 y + days_in_year y"
  by (simp add: days_of_years.simps [of y0 "y + 1"])

lemma days_of_years_first: "y0 < y \<Longrightarrow> days_of_years y0 y = days_in_year y0 + days_of_years (y0 + 1) y"
proof (induction y0 y rule: days_of_years.induct)
  case (1 y0 y)
  show ?case
  proof (cases "y0 = y - 1")
    case True
    then show ?thesis by (simp add: days_of_years.simps [of "y - 1" y])
  next
    case False
    then show ?thesis using 1 by (simp add: days_of_years.simps [of y0 y] days_of_years.simps [of "y0 + 1" y])
  qed
qed

lemma split_years_sum:
  "split_years y d = (y', d') \<Longrightarrow> y \<le> y' \<and> d' < days_in_year y' \<and> d = days_of_years y y' + d'"
proof (induction y d rule: split_years.induct)
  case (1 y d)
  show ?case
  proof (cases "d < days_in_year y")
    case True
    then show ?thesis using "1.prems" by (simp add: split_years.simps [of y d])
  next
    case False
    then have "split_years (y + 1) (d - days_in_year y) = (y', d')" using "1.prems" by (simp add: split_years.simps [of y d])
    from "1.IH" [OF False this] False show ?thesis by (auto simp: days_of_years_first)
  qed
qed

lemma split_months_sum:
  "split_months y m d = (m', d') \<Longrightarrow> 0 < m \<Longrightarrow> m \<le> 12 \<Longrightarrow>
   m \<le> m' \<and> m' \<le> 12 \<and> days_of_months y m + d = days_of_months y m' + d' \<and> (m' < 12 \<longrightarrow> d' < days_in_month y m')"
proof (induction y m d rule: split_months.induct)
  case (1 y m d)
  show ?case
  proof (cases "12 \<le> m \<or> d < days_in_month y m")
    case True
    then show ?thesis using "1.prems" by (auto simp: split_months.simps [of y m d])
  next
    case False
    then have "split_months y (m + 1) (d - days_in_month y m) = (m', d')" using "1.prems" by (simp add: split_months.simps [of y m d])
    from "1.IH" [OF False this] False "1.prems"(2,3) show ?thesis by auto
  qed
qed

lemma days_of_december: "days_of_months y 12 + 31 = days_in_year y"
proof -
  note steps = days_of_months.simps(2) [of y 11, simplified] days_of_months.simps(2) [of y 10, simplified]
    days_of_months.simps(2) [of y 9, simplified] days_of_months.simps(2) [of y 8, simplified] days_of_months.simps(2) [of y 7, simplified]
    days_of_months.simps(2) [of y 6, simplified] days_of_months.simps(2) [of y 5, simplified] days_of_months.simps(2) [of y 4, simplified]
    days_of_months.simps(2) [of y 3, simplified] days_of_months.simps(2) [of y 2, simplified] days_of_months.simps(2) [of y 1, simplified]
    days_of_months.simps(2) [of y 0, simplified]
  show ?thesis unfolding steps by (simp add: days_in_month_def days_in_year_def numeral_2_eq_2)
qed

lemma split_months_day:
  assumes "split_months y 1 d = (m, d')" and "d < days_in_year y"
  shows "1 \<le> m \<and> m \<le> 12 \<and> d = days_of_months y m + d' \<and> d' < days_in_month y m"
  using split_months_sum [OF assms(1)] assms(2) days_of_december [of y]
  by (cases "m = 12") (auto simp: days_in_month_def)

text \<open>One cycle of 400 years.\<close>

lemma leap_cycle: "leap (y + 400 * c) = leap y"
proof -
  have "(y + 4 * (100 * c)) mod 4 = y mod 4" "(y + 100 * (4 * c)) mod 100 = y mod 100" "(y + 400 * c) mod 400 = y mod 400"
    by (simp_all only: mod_mult_self2)
  then show ?thesis by (simp add: leap_def)
qed

lemma days_of_years_cycle: "days_of_years (y0 + 400 * c) (y + 400 * c) = days_of_years y0 y"
proof (induction y0 y rule: days_of_years.induct)
  case (1 y0 y)
  have e: "y + 400 * c - 1 = y - 1 + 400 * c" by simp
  show ?case
  proof (cases "y \<le> y0")
    case False
    then show ?thesis
      using 1 by (simp add: days_of_years.simps [of y0 y] days_of_years.simps [of "y0 + 400 * c" "y + 400 * c"] e leap_cycle days_in_year_def del: diff_add_eq)
  qed (simp add: days_of_years.simps)
qed

lemma leap_2000: "leap (2000 + int n) \<longleftrightarrow> n mod 4 = 0 \<and> (n mod 100 \<noteq> 0 \<or> n mod 400 = 0)"
proof -
  have "(2000 + int n) mod 4 = int (n mod 4)" "(2000 + int n) mod 100 = int (n mod 100)" "(2000 + int n) mod 400 = int (n mod 400)"
    using mod_mult_self3 [of 500 4 "int n"] mod_mult_self3 [of 20 100 "int n"] mod_mult_self3 [of 5 400 "int n"] by (simp_all add: zmod_int)
  then show ?thesis by (simp add: leap_def)
qed

lemma leap_count:
  fixes d d' a a' b b' c c' di n :: nat
  assumes "d + b = 365 * n + a + c" and "d' = d + di" and "a' = a + (if p then 1 else 0)" and "b' = b + (if q then 1 else 0)"
    and "c' = c + (if r then 1 else 0)" and "di = (if p \<and> (\<not> q \<or> r) then 366 else 365)" and "r \<Longrightarrow> q" and "q \<Longrightarrow> p"
  shows "d' + b' = 365 * Suc n + a' + c'"
  using assms by (cases p; cases q; cases r) simp_all

lemma days_from_2000: "days_of_years 2000 (2000 + int n) + (n + 99) div 100 = 365 * n + (n + 3) div 4 + (n + 399) div 400"
proof (induction n)
  case (Suc n)
  have "2000 + int (Suc n) = 2000 + int n + 1" by simp
  then have "days_of_years 2000 (2000 + int (Suc n)) = days_of_years 2000 (2000 + int n) + days_in_year (2000 + int n)"
    by (simp only: days_of_years_step)
  moreover have "(Suc n + 3) div 4 = (n + 3) div 4 + (if n mod 4 = 0 then 1 else 0)"
      "(Suc n + 99) div 100 = (n + 99) div 100 + (if n mod 100 = 0 then 1 else 0)"
      "(Suc n + 399) div 400 = (n + 399) div 400 + (if n mod 400 = 0 then 1 else 0)"
    using div_Suc [of "n + 3" 4] div_Suc [of "n + 99" 100] div_Suc [of "n + 399" 400] mod_add_self2 [of n 4] mod_add_self2 [of n 100] mod_add_self2 [of n 400]
    by simp_all
  moreover have "days_in_year (2000 + int n) = (if n mod 4 = 0 \<and> (\<not> n mod 100 = 0 \<or> n mod 400 = 0) then 366 else 365)"
    by (simp add: days_in_year_def leap_2000)
  moreover have "n mod 400 = 0 \<Longrightarrow> n mod 100 = 0" "n mod 100 = 0 \<Longrightarrow> n mod 4 = 0"
    using mod_mod_cancel [of 100 400 n] mod_mod_cancel [of 4 100 n] by auto
  ultimately show ?case by (rule leap_count [OF Suc])
qed simp

lemma days_of_cycle: "days_of_years 2000 2400 = 146097"
  using days_from_2000 [of 400] by simp

lemma days_of_years_mono: "y \<le> y' \<Longrightarrow> days_of_years y0 y \<le> days_of_years y0 y'"
proof (induction y0 y' rule: days_of_years.induct)
  case (1 y0 y')
  then show ?case by (cases "y = y'") (auto simp: days_of_years.simps [of y0 y'] days_of_years.simps [of y0 y])
qed

lemma split_cycle:
  assumes "split_years (2000 + 400 * c) d = (y, d')" and "d < 146097"
  shows "(y - 2000) div 400 = c"
proof -
  have s: "2000 + 400 * c \<le> y" "d = days_of_years (2000 + 400 * c) y + d'" using split_years_sum [OF assms(1)] by auto
  have "y < 2400 + 400 * c"
  proof (rule ccontr)
    assume "\<not> y < 2400 + 400 * c"
    then have "days_of_years (2000 + 400 * c) (2400 + 400 * c) \<le> days_of_years (2000 + 400 * c) y" by (simp add: days_of_years_mono)
    then show False using s(2) assms(2) by (simp add: days_of_years_cycle days_of_cycle)
  qed
  with s(1) have "y - 2000 = 400 * c + (y - 2000 - 400 * c)" "0 \<le> y - 2000 - 400 * c" "y - 2000 - 400 * c < 400" by linarith+
  then show ?thesis by (metis int_div_pos_eq)
qed

lemma timegm_gmtime:
  assumes "gmtime t = Some x"
  shows "timegm x = t"
proof -
  define days secs where "days = t div 86400 - 10957" and "secs = nat (t mod 86400)"
  obtain y doy where y: "split_years (2000 + 400 * (days div 146097)) (nat (days mod 146097)) = (y, doy)" by fastforce
  obtain m d where m: "split_months y 1 doy = (m, d)" by fastforce
  have x: "x = \<lparr>tm_year = y, tm_mon = m, tm_mday = d + 1, tm_hour = secs div 3600, tm_min = secs div 60 mod 60, tm_sec = secs mod 60\<rparr>"
    using assms y m by (simp add: gmtime_def Let_def days_def secs_def split: if_splits)
  have c: "(y - 2000) div 400 = days div 146097" by (rule split_cycle [OF y]) (simp add: nat_less_iff)
  note sy = split_years_sum [OF y]
  have sm: "doy = days_of_months y m + d" using split_months_day [OF m] sy by blast
  have "int (days_of_years (2000 + 400 * (days div 146097)) y + doy) = days mod 146097" using sy by (metis int_nat_eq pos_mod_sign zero_less_numeral)
  then have day: "10957 + 146097 * (days div 146097) + int (days_of_years (2000 + 400 * (days div 146097)) y + days_of_months y m) + int (d + 1) - 1
      = t div 86400"
    using sm by (simp add: days_def)
  have "secs div 3600 = secs div 60 div 60" by (simp add: div_mult2_eq [symmetric])
  then have "secs div 3600 * 3600 + secs div 60 mod 60 * 60 + secs mod 60 = secs"
    using div_mult_mod_eq [of "secs div 60" 60] div_mult_mod_eq [of secs 60] by linarith
  then have sec: "int (secs div 3600 * 3600 + secs div 60 mod 60 * 60 + secs mod 60) = t mod 86400" by (simp add: secs_def)
  have "timegm x = (t div 86400) * 86400 + int (secs div 3600) * 3600 + int (secs div 60 mod 60) * 60 + int (secs mod 60)"
    unfolding day [symmetric] by (simp only: x timegm_def Let_def c tm.select_convs)
  also have "\<dots> = (t div 86400) * 86400 + t mod 86400" unfolding sec [symmetric] by simp
  finally show ?thesis by simp
qed

section \<open>A printed time is read back\<close>

lemma isdigit_digit_char [simp]: "d < 10 \<Longrightarrow> isdigit (digit_char d)"
  by (simp add: isdigit_def of_char_digit_char Let_def)

lemma two_digit_field:
  assumes "lo \<le> v" and "v \<le> limit" and "v < 100"
  shows "get_field lo limit 2 c (two_digits v @ c # rest) = Some (v, rest)"
proof -
  have "v div 10 < 10" "v div 10 * 10 \<le> limit" using assms by linarith+
  then show ?thesis using assms by (simp add: get_field_def get_number_def two_digits_def match_char_def numeral_2_eq_2 Let_def)
qed

lemma show_nat_digit: "n < 10 \<Longrightarrow> show_nat n = [digit_char n]"
  by (simp add: show_nat.simps)

lemma show_nat_more: "10 \<le> n \<Longrightarrow> show_nat n = show_nat (n div 10) @ [digit_char (n mod 10)]"
  by (simp add: show_nat.simps [of n])

lemma show_nat_short:
  "n < 10 \<Longrightarrow> show_nat n = [digit_char n]"
  "10 \<le> n \<Longrightarrow> n < 100 \<Longrightarrow> show_nat n = [digit_char (n div 10), digit_char (n mod 10)]"
  "100 \<le> n \<Longrightarrow> n < 1000 \<Longrightarrow> show_nat n = [digit_char (n div 100), digit_char (n div 10 mod 10), digit_char (n mod 10)]"
  "1000 \<le> n \<Longrightarrow> n < 10000 \<Longrightarrow> show_nat n = [digit_char (n div 1000), digit_char (n div 100 mod 10), digit_char (n div 10 mod 10), digit_char (n mod 10)]"
proof -
  show one: "n < 10 \<Longrightarrow> show_nat n = [digit_char n]" for n by (rule show_nat_digit)
  show two: "10 \<le> n \<Longrightarrow> n < 100 \<Longrightarrow> show_nat n = [digit_char (n div 10), digit_char (n mod 10)]" for n
    using one [of "n div 10"] by (simp add: show_nat_more less_mult_imp_div_less)
  show three: "100 \<le> n \<Longrightarrow> n < 1000 \<Longrightarrow> show_nat n = [digit_char (n div 100), digit_char (n div 10 mod 10), digit_char (n mod 10)]" for n
    using two [of "n div 10"] by (simp add: show_nat_more less_mult_imp_div_less less_eq_div_iff_mult_less_eq div_mult2_eq [symmetric])
  show "1000 \<le> n \<Longrightarrow> n < 10000 \<Longrightarrow> show_nat n = [digit_char (n div 1000), digit_char (n div 100 mod 10), digit_char (n div 10 mod 10), digit_char (n mod 10)]"
    using three [of "n div 10"] by (simp add: show_nat_more less_mult_imp_div_less less_eq_div_iff_mult_less_eq div_mult2_eq [symmetric])
qed

lemma dash_no_digit: "\<not> isdigit (CHR ''-'')"
  by (simp add: isdigit_def Let_def)

lemma decimal_parts: "n div 1000 * 10 + n div 100 mod 10 = n div (100 :: nat)" "n div 100 * 10 + n div 10 mod 10 = n div (10 :: nat)"
    "n div 10 * 10 + n mod 10 = (n :: nat)"
  using div_mult_mod_eq [of "n div 100" 10] div_mult_mod_eq [of "n div 10" 10] div_mult_mod_eq [of n 10] by (simp_all add: div_mult2_eq [symmetric])

lemma year_field:
  assumes "y \<le> 9999"
  shows "get_field 0 9999 4 (CHR ''-'') (show_nat y @ CHR ''-'' # rest) = Some (y, rest)"
proof -
  note defs = get_field_def get_number_def match_char_def dash_no_digit numeral_3_eq_3
  consider "y < 10" | "10 \<le> y" "y < 100" | "100 \<le> y" "y < 1000" | "1000 \<le> y" "y < 10000" using assms by linarith
  then show ?thesis
  proof cases
    case 1
    then show ?thesis by (simp add: show_nat_short defs)
  next
    case 2
    then have "y div 10 < 10" by linarith
    then show ?thesis using 2 decimal_parts(3) [of y] by (simp add: show_nat_short defs)
  next
    case 3
    then have "y div 100 < 10" "y div 10 < 100" by linarith+
    then show ?thesis using 3 decimal_parts(2,3) [of y] by (simp add: show_nat_short defs)
  next
    case 4
    then have "y div 1000 < 10" "y div 100 < 100" "y div 10 < 1000" by linarith+
    then show ?thesis using 4 decimal_parts [of y] by (simp add: show_nat_short defs)
  qed
qed

definition valid_tm :: "tm \<Rightarrow> bool" where
  "valid_tm t \<longleftrightarrow> 0 \<le> tm_year t \<and> tm_year t \<le> 9999 \<and> 1 \<le> tm_mon t \<and> tm_mon t \<le> 12 \<and> 1 \<le> tm_mday t \<and> tm_mday t \<le> 31 \<and>
     tm_hour t < 24 \<and> tm_min t < 60 \<and> tm_sec t < 60"

lemma strptime_strftime:
  assumes "valid_tm t"
  shows "strptime (strftime t) = Some (t, [])"
proof -
  have "show_int (tm_year t) = show_nat (nat (tm_year t))" "nat (tm_year t) \<le> 9999" using assms by (auto simp: show_int_def valid_tm_def)
  with assms show ?thesis
    by (simp add: strptime_def strftime_def year_field two_digit_field valid_tm_def)
qed

lemma gmtime_valid: "gmtime t = Some x \<Longrightarrow> 0 \<le> tm_year x \<Longrightarrow> tm_year x \<le> 9999 \<Longrightarrow> valid_tm x"
proof -
  assume g: "gmtime t = Some x" "0 \<le> tm_year x" "tm_year x \<le> 9999"
  obtain y doy where y: "split_years (2000 + 400 * ((t div 86400 - 10957) div 146097)) (nat ((t div 86400 - 10957) mod 146097)) = (y, doy)" by fastforce
  obtain m d where m: "split_months y 1 doy = (m, d)" by fastforce
  have "1 \<le> m \<and> m \<le> 12 \<and> d < days_in_month y m" using split_months_day [OF m] split_years_sum [OF y] by blast
  moreover have "days_in_month y m \<le> 31" by (simp add: days_in_month_def)
  moreover have "nat (t mod 86400) div 3600 < 24"
  proof -
    have "nat (t mod 86400) < 24 * 3600" by (simp add: nat_less_iff)
    then show ?thesis by (simp only: less_mult_imp_div_less)
  qed
  moreover have "x = \<lparr>tm_year = y, tm_mon = m, tm_mday = d + 1, tm_hour = nat (t mod 86400) div 3600, tm_min = nat (t mod 86400) div 60 mod 60,
      tm_sec = nat (t mod 86400) mod 60\<rparr>"
    using g(1) y m by (simp add: gmtime_def Let_def split: if_splits)
  ultimately show ?thesis using g(2,3) by (simp add: valid_tm_def)
qed

section \<open>Reproducible archives\<close>

lemma use_time_Inr:
  assumes "use_time t s = (Inr ts, s')"
  obtains x where "gmtime t = Some x" and "ts = strftime x" and "s' = s\<lparr>ts_now := t, ts_string := ts, ts_env := (ts_env s)(''NOW'' \<mapsto> ts)\<rparr>"
  using assms by (auto simp: use_time_def time_t_to_string_def split: sum.splits option.splits)

lemma strftime_not_Nil [simp]: "strftime x \<noteq> []"
  by (simp add: strftime_def)

lemma strptime_Nil [simp]: "strptime [] = None"
  by (simp add: strptime_def get_field_def get_number_def)

lemma creation_timestamp_cases:
  assumes "get_creation_timestamp clock s = (Inr ts, s')" and "ts_string s = []"
  obtains x where "gmtime (ts_now s') = Some x" and "ts = strftime x" and "ts_string s' = ts"
  | x rest where "strptime ts = Some (x, rest)" and "length ts < 200" and "ts_now s' = timegm x" and "ts_string s' = ts"
  using assms by (auto simp: get_creation_timestamp_def split: option.splits if_splits elim!: use_time_Inr)

text \<open>
  C23: once the creation time is known it stays what it is, whatever the clock says; and a run that gets
  this time as \<open>NOW\<close> uses the same time, as text and as a number, so that archives can be made again.
  The year has to have at most four digits.
\<close>

theorem creation_time_reproduced:
  assumes "get_creation_timestamp clock s = (Inr ts, s')" and "ts_string s = []"
    and "\<And>x. gmtime (ts_now s') = Some x \<Longrightarrow> 0 \<le> tm_year x \<and> tm_year x \<le> 9999"
    and "env ''SOURCE_DATE_EPOCH'' = None" and "env ''NOW'' = Some ts"
  shows "get_creation_timestamp clock' s' = (Inr ts, s') \<and>
    get_creation_timestamp clock' \<lparr>ts_string = [], ts_now = 0, ts_env = env\<rparr> =
      (Inr ts, \<lparr>ts_string = ts, ts_now = ts_now s', ts_env = env\<rparr>)"
  using assms(1,2)
proof (cases rule: creation_timestamp_cases)
  case (1 x)
  then have v: "valid_tm x" using gmtime_valid assms(3) by blast
  have "length (show_int (tm_year x)) \<le> 4"
  proof -
    have "show_int (tm_year x) = show_nat (nat (tm_year x))" "nat (tm_year x) < 10000" using v by (auto simp: show_int_def valid_tm_def)
    moreover have "length (show_nat n) \<le> 4" if "n < 10000" for n
      using that by (cases "n < 10"; cases "n < 100"; cases "n < 1000") (auto simp: show_nat_short)
    ultimately show ?thesis by simp
  qed
  then have "length ts < 200" by (simp add: 1(2) strftime_def two_digits_def)
  then show ?thesis using 1 strptime_strftime [OF v] timegm_gmtime [OF 1(1)] assms(4,5) by (simp add: get_creation_timestamp_def)
next
  case (2 x rest)
  then have "ts \<noteq> []" by auto
  then show ?thesis using 2 assms(4,5) by (simp add: get_creation_timestamp_def)
qed

lemma gmtime_2000:
  "gmtime 946684800 = Some \<lparr>tm_year = 2000, tm_mon = 1, tm_mday = 1, tm_hour = 0, tm_min = 0, tm_sec = 0\<rparr>"
proof -
  have "split_years 2000 0 = (2000, 0)" "split_months 2000 1 0 = (1, 0)" by (simp_all add: split_years.simps split_months.simps)
  then show ?thesis by (simp add: gmtime_def)
qed

theorem creation_time_reproduced_witness:
  "\<exists>ts. get_creation_timestamp 5 \<lparr>ts_string = [], ts_now = 0, ts_env = [''NOW'' \<mapsto> ts]\<rparr> =
    (Inr ts, \<lparr>ts_string = ts, ts_now = 946684800, ts_env = [''NOW'' \<mapsto> ts]\<rparr>)"
proof -
  let ?s = "\<lparr>ts_string = [], ts_now = 0, ts_env = \<lambda>_. None\<rparr>"
  let ?x = "\<lparr>tm_year = 2000, tm_mon = 1, tm_mday = 1, tm_hour = 0, tm_min = 0, tm_sec = 0\<rparr>"
  have "get_creation_timestamp 946684800 ?s =
      (Inr (strftime ?x), \<lparr>ts_string = strftime ?x, ts_now = 946684800, ts_env = [''NOW'' \<mapsto> strftime ?x]\<rparr>)"
    by (simp add: get_creation_timestamp_def use_time_def time_t_to_string_def gmtime_2000)
  from creation_time_reproduced [OF this, of "[''NOW'' \<mapsto> strftime ?x]" 5] show ?thesis by (auto simp: gmtime_2000)
qed

end
