(* ===== verification/Fwup_Main.thy ===== *)
theory Fwup_Main
  imports Os_Util Mmc_Linux Key_Files Creation_Time Fw_Sign Fw_List Fw_Apply Cfg_File
begin

text \<open>
  The program itself (\<open>fwup.c\<close>, in the build for Linux with all features): its options, the choice of the
  output, and the command that is run. What \<open>getopt_long\<close> finds is a parameter: the options in their
  order, each with its argument, and the parameters that are left. Output other than that of the progress reports goes to
  \<open>os_stdout\<close> in the order it is written; what goes to standard error is left out.
\<close>

section \<open>Options\<close>

datatype option_code =
    Short char
  | OPTION_NO_EJECT | OPTION_ENABLE_TRIM | OPTION_EXIT_HANDSHAKE | OPTION_MAX_SIZE | OPTION_METADATA_KEY | OPTION_MINIMIZE_WRITES
  | OPTION_NO_MINIMIZE_WRITES | OPTION_PRIVATE_KEY | OPTION_PUBLIC_KEY | OPTION_PROGRESS_LOW | OPTION_PROGRESS_HIGH
  | OPTION_REBOOT_PARAM_PATH | OPTION_SPARSE_CHECK | OPTION_SPARSE_CHECK_SIZE | OPTION_UNSAFE | OPTION_VERSION | OPTION_VERIFY_WRITES
  | OPTION_NO_VERIFY_WRITES

definition short_options :: string where
  "short_options = ''acd:DEf:Fghi:lmno:p:qSs:t:VvUuyZz123456789''"

definition long_options :: "(string \<times> bool \<times> option_code) list" where
  "long_options = [
     (''apply'', False, Short (CHR ''a'')),
     (''create'', False, Short (CHR ''c'')),
     (''detect'', False, Short (CHR ''D'')),
     (''eject'', False, Short (CHR ''E'')),
     (''no-eject'', False, OPTION_NO_EJECT),
     (''enable-trim'', False, OPTION_ENABLE_TRIM),
     (''exit-handshake'', False, OPTION_EXIT_HANDSHAKE),
     (''framing'', False, Short (CHR ''F'')),
     (''gen-keys'', False, Short (CHR ''g'')),
     (''help'', False, Short (CHR ''h'')),
     (''metadata-key'', True, OPTION_METADATA_KEY),
     (''list'', False, Short (CHR ''l'')),
     (''max-size'', True, OPTION_MAX_SIZE),
     (''metadata'', False, Short (CHR ''m'')),
     (''minimize-writes'', False, OPTION_MINIMIZE_WRITES),
     (''no-minimize-writes'', False, OPTION_NO_MINIMIZE_WRITES),
     (''private-key'', True, OPTION_PRIVATE_KEY),
     (''private-key-file'', True, Short (CHR ''s'')),
     (''public-key'', True, OPTION_PUBLIC_KEY),
     (''public-key-file '', True, Short (CHR ''p'')),
     (''progress-low'', True, OPTION_PROGRESS_LOW),
     (''progress-high'', True, OPTION_PROGRESS_HIGH),
     (''quiet'', False, Short (CHR ''q'')),
     (''reboot-param-path'', True, OPTION_REBOOT_PARAM_PATH),
     (''sparse-check'', True, OPTION_SPARSE_CHECK),
     (''sparse-check-size'', True, OPTION_SPARSE_CHECK_SIZE),
     (''sign'', False, Short (CHR ''S'')),
     (''task'', True, Short (CHR ''t'')),
     (''unmount'', False, Short (CHR ''u'')),
     (''no-unmount'', False, Short (CHR ''U'')),
     (''unsafe'', False, OPTION_UNSAFE),
     (''verbose'', False, Short (CHR ''v'')),
     (''verify'', False, Short (CHR ''V'')),
     (''verify-writes'', False, OPTION_VERIFY_WRITES),
     (''no-verify-writes'', False, OPTION_NO_VERIFY_WRITES),
     (''version'', False, OPTION_VERSION)]"

definition example_sd :: string where "example_sd = ''/dev/sdc''"

definition usage_lines :: "string \<Rightarrow> string list" where
  "usage_lines program_name = [
     program_name @ '' is a self-contained utility for creating and applying firmware update files.'',
     ''Firmware update (.fw) files are nothing more than zip archives containing metadata,'',
     ''a limited set of instructions, and data. On an embedded device or on a host PC, fwup'',
     ''is used to write nonvolatile memory (eMMC, SDCards, etc.) in such a way as to upgrade'',
     ''the firmware on the device or to completely initialize it.'',
     [],
     ''Usage: '' @ program_name @ '' [OPTION]...'',
     [],
     ''Options:'',
     ''  -a, --apply   Apply the firmware update'',
     ''  -c, --create  Create the firmware update'',
     ''  -d <file> Device file for the memory card'',
     ''  -D, --detect List attached SDCards or MMC devices and their sizes'',
     ''  -E, --eject Eject removable media after successfully writing firmware.'',
     ''  --no-eject Do not eject media after writing firmware'',
     ''  --enable-trim Enable use of the hardware TRIM command'',
     ''  --exit-handshake Send a Ctrl+Z on exit and wait for stdin to close (Erlang)'',
     ''  -f <fwup.conf> Specify the firmware update configuration file'',
     ''  -F, --framing Apply framing on stdin/stdout'',
     ''  -g, --gen-keys Generate firmware signing keys (fwup-key.pub and fwup-key.priv, or specify with -o)'',
     ''  -i <input.fw> Specify the input firmware update file (Use - for stdin)'',
     ''  -l, --list   List the available tasks in a firmware update'',
     ''  --max-size <blocks> Max size of the destination in 512-byte blocks (usually automatic)'',
     ''  -m, --metadata   Print metadata in the firmware update'',
     ''  --metadata-key <key> Only output the specified key's value when printing metadata'',
     ''  --minimize-writes Skip write if contents match destination'',
     ''  --no-minimize-writes Don't try to minimize writes when applying firmware updates (default)'',
     ''  -n   Report numeric progress'',
     ''  -o <output.fw> Specify the output file when creating an update (Use - for stdout)'',
     ''  -p, --public-key-file <keyfile> A public key file for verifying firmware updates (can specify multiple times)'',
     ''  --private-key <key> A private key for signing firmware updates'',
     ''  --progress-low <number> When displaying progress, this is the lowest number (normally 0 for 0%)'',
     ''  --progress-high <number> When displaying progress, this is the highest number (normally 100 for 100%)'',
     ''  --public-key <key> A public key for verifying firmware updates (can specify multiple times)'',
     ''  -q, --quiet   Quiet'',
     ''  --reboot-param-path Path to write reboot parameters (defaults to systemd and Nerves locations)'',
     ''  -s, --private-key-file <keyfile> A private key file for signing firmware updates'',
     ''  -S, --sign Sign an existing firmware file (specify -i and -o)'',
     ''  --sparse-check <path> Check if the OS and file system supports sparse files at path'',
     ''  --sparse-check-size <bytes> Hole size to check for --sparse-check'',
     ''  -t, --task <task> Task to apply within the firmware update'',
     ''  -u, --unmount Unmount all partitions on device first'',
     ''  -U, --no-unmount Do not try to unmount partitions on device'',
     ''  --unsafe Allow unsafe commands (consider applying only signed archives)'',
     ''  -v, --verbose   Verbose'',
     ''  -V, --verify  Verify an existing firmware file (specify -i)'',
     ''  --verify-writes Verify writes when applying firmware updates to detect corruption (default for writing to device files)'',
     ''  --no-verify-writes Do not verify writes when applying firmware updates (default for regular files)'',
     ''  --version Print out the version'',
     ''  -y   Accept automatically found memory card when applying a firmware update'',
     ''  -z   Print the memory card that would be automatically detected and exit'',
     ''  -1   Fast compression (for create)'',
     ''  -9   Best compression (default)'',
     [],
     ''Examples:'',
     [],
     ''Initialize an attached SDCard using all of the default options:'',
     [],
     ''  $ '' @ program_name @ '' myfirmware.fw'',
     [],
     ''Create a firmware update archive:'',
     [],
     ''  $ '' @ program_name @ '' -c -f fwup.conf -o myfirmware.fw'',
     [],
     ''Apply the firmware to an attached SDCard. This would normally be run on the host'',
     ''where it would auto-detect an SDCard and initialize it using the 'complete' task:'',
     [],
     ''  $ '' @ program_name @ '' -a -i myfirmware.fw -t complete'',
     [],
     ''Apply the firmware update to '' @ example_sd @ '' and specify the 'upgrade' task:'',
     [],
     ''  $ '' @ program_name @ '' -a -d '' @ example_sd @ '' -i myfirmware.fw -t upgrade'',
     [],
     ''Create an image file from a .fw file for use with dd(1):'',
     [],
     ''  $ '' @ program_name @ '' -a -d myimage.img -i myfirmware.fw -t complete'',
     [],
     ''Generate a public/private key pair:'',
     [],
     ''  $ '' @ program_name @ '' -g'',
     [],
     ''Store fwup-key.priv in a safe place and fwup-key.pub on the target. To sign'',
     ''an existing archive run:'',
     [],
     ''  $ '' @ program_name @ '' -S -s fwup-key.priv -i myfirmware.fw -o signedfirmware.fw'',
     [],
     ''Also see the unit tests that come with fwup source code for more examples.'',
     ''Obtain source code and report bugs at https://github.com/fwup-home/fwup.'']"

datatype command = CMD_NONE | CMD_APPLY | CMD_CREATE | CMD_LIST | CMD_METADATA | CMD_GENERATE_KEYS | CMD_SIGN | CMD_VERIFY | CMD_SPARSE_CHECK

record main_state =
  ms_command :: command
  mmc_device_path :: "string option"
  input_filename :: "string option"
  output_filename :: "string option"
  ms_task :: "string option"
  configfile :: string
  sparse_check :: string
  sparse_check_size :: int
  compression_level :: nat
  accept_found_device :: bool
  ms_signing_key :: "byte list option"
  ms_public_keys :: "byte list list"
  ms_metadata_key :: "string option"
  eject_on_success :: bool
  ms_enable_trim :: bool
  unmount_first :: bool
  easy_mode :: bool
  numeric_progress :: bool
  progress_low :: int
  progress_high :: int
  ms_verify_writes :: int
  ms_minimize_writes :: bool
  ms_reboot_param_path :: "string option"
  max_size_blocks :: u32
  quiet :: bool
  ms_unsafe :: bool
  ms_out :: out_state

definition initial_state :: main_state where
  "initial_state =
     \<lparr>ms_command = CMD_NONE, mmc_device_path = None, input_filename = None, output_filename = None, ms_task = None,
      configfile = ''fwupdate.conf'', sparse_check = [], sparse_check_size = 4096, compression_level = 9, accept_found_device = False,
      ms_signing_key = None, ms_public_keys = [], ms_metadata_key = None, eject_on_success = False, ms_enable_trim = False,
      unmount_first = True, easy_mode = True, numeric_progress = False, progress_low = 0, progress_high = 100, ms_verify_writes = -1,
      ms_minimize_writes = False, ms_reboot_param_path = None, max_size_blocks = 0, quiet = False, ms_unsafe = False,
      ms_out = \<lparr>os_framing = False, os_mode = PROGRESS_MODE_OFF, os_verbose = False, os_handshake = False, os_stdout = []\<rparr>\<rparr>"

text \<open>The program goes on, or it calls \<open>fwup_exit\<close> with a status and what was printed.\<close>

datatype 'a flow = Exit int out_state | Go 'a | Undef string

fun go_on :: "'a flow \<Rightarrow> ('a \<Rightarrow> 'b flow) \<Rightarrow> 'b flow" where
  "go_on (Exit status out) f = Exit status out"
| "go_on (Undef w) f = Undef w"
| "go_on (Go x) f = f x"

definition errx :: "string \<Rightarrow> out_state \<Rightarrow> 'a flow" where
  "errx msg out = Exit 1 (send_output type_error 0 (message_text (os_framing out) msg newline_text) out)"

text \<open>A failure that the program ends with, and its message.\<close>

definition or_errx :: "'a res \<Rightarrow> out_state \<Rightarrow> 'a flow" where
  "or_errx r out = (case r of Inl (Undefined w) \<Rightarrow> Undef w | Inl (Msg m) \<Rightarrow> errx m out | Inl Quiet \<Rightarrow> errx ''none'' out | Inr x \<Rightarrow> Go x)"

definition FWUP_MAX_PUBLIC_KEYS :: nat where "FWUP_MAX_PUBLIC_KEYS = 10"

definition print_stdout :: "string \<Rightarrow> out_state \<Rightarrow> out_state" where
  "print_stdout s out = out\<lparr>os_stdout := os_stdout out @ string_bytes s\<rparr>"

definition set_out :: "out_state \<Rightarrow> main_state \<Rightarrow> main_state" where
  "set_out out s = s\<lparr>ms_out := out\<rparr>"

definition print_usage :: "string \<Rightarrow> out_state \<Rightarrow> out_state" where
  "print_usage program_name = print_stdout (concat (map (\<lambda>l. l @ newline_text) (usage_lines program_name)))"

definition print_version :: "string \<Rightarrow> out_state \<Rightarrow> out_state" where
  "print_version package_version = print_stdout (package_version @ newline_text)"

text \<open>A key is added, unless there are ten already.\<close>

definition add_public_key :: "byte list res \<Rightarrow> (main_state \<Rightarrow> main_state) \<Rightarrow> main_state \<Rightarrow> main_state flow" where
  "add_public_key key f s =
     (if length (ms_public_keys s) < FWUP_MAX_PUBLIC_KEYS
      then go_on (or_errx key (ms_out s)) (\<lambda>k. Go (f (s\<lparr>ms_public_keys := ms_public_keys s @ [k]\<rparr>)))
      else Go (set_out (fwup_warnx ''Ignoring public key since only 10 supported'' (ms_out s)) s))"

section \<open>What the system answers\<close>

record ('w, 'x) main_env =
  me_program :: string
  me_version :: string
  me_files :: "string \<Rightarrow> byte list option"
  me_stat :: "string \<Rightarrow> stat_answer"
  me_mmc :: "'w mmc_os"
  me_open_regular :: "string \<Rightarrow> (device \<times> (u32 \<times> nat) option) option"
  me_open_null :: "string \<Rightarrow> device option"
  me_mmc_open :: "string \<Rightarrow> device option"
  me_open_archive :: "string option \<Rightarrow> archive res"
  me_apply :: "('w, 'x) apply_env"
  me_pthreads :: bool
  me_create :: create_env
  me_cfg_parse :: "parse_input \<Rightarrow> environment \<Rightarrow> parse_result \<times> environment"
  me_environment :: environment
  me_renamed :: bool
  me_genkeys :: key_env
  me_sparse_open :: "string \<Rightarrow> bool"
  me_sparse_pwrite :: "int \<Rightarrow> int"
  me_sparse_seek_data :: int
  me_stdin :: "char option"

section \<open>Memory cards\<close>

definition device_lines :: "mmc_device list \<Rightarrow> string" where
  "device_lines ds = concat (map (\<lambda>d. md_path d @ '','' @ show_int (md_size d) @ newline_text) ds)"

definition print_detected_devices :: "('w, 'x) main_env \<Rightarrow> out_state \<Rightarrow> out_state" where
  "print_detected_devices env out = send_output type_success 0 (device_lines (mmc_scan_for_devices (me_mmc env) None 16)) out"

text \<open>The list of the cards that were found and the question go to standard error.\<close>

definition autoselect_mmc_device :: "('w, 'x) main_env \<Rightarrow> out_state \<Rightarrow> mmc_device flow" where
  "autoselect_mmc_device env out =
     (case mmc_scan_for_devices (me_mmc env) None 16 of
        [d] \<Rightarrow> Go d
      | [] \<Rightarrow> errx ''No memory cards found. Try reinserting the card.'' out
      | _ \<Rightarrow> Exit 1 out)"

definition autoselect_and_confirm_mmc_device :: "('w, 'x) main_env \<Rightarrow> bool \<Rightarrow> string option \<Rightarrow> out_state \<Rightarrow> string flow" where
  "autoselect_and_confirm_mmc_device env accept input_firmware out =
     go_on (autoselect_mmc_device env out) (\<lambda>d.
       if accept then Go (md_path d)
       else if input_firmware = None
         then errx (''Cannot confirm use of '' @ md_path d @ '' when using stdin.'' @ newline_text @ ''Rerun with -y if location is correct.'') out
       else if me_stdin env = Some (CHR ''y'') \<or> me_stdin env = Some (CHR ''Y'') then Go (md_path d)
       else errx ''aborted by user'' out)"

definition print_selected_device :: "('w, 'x) main_env \<Rightarrow> out_state \<Rightarrow> out_state flow" where
  "print_selected_device env out =
     go_on (autoselect_mmc_device env out) (\<lambda>d. Go (send_output type_success 0 (md_path d @ newline_text) out))"

section \<open>Reading the options\<close>

definition not_easy :: "main_state \<Rightarrow> main_state" where
  "not_easy s = s\<lparr>easy_mode := False\<rparr>"

definition set_command :: "command \<Rightarrow> main_state \<Rightarrow> main_state flow" where
  "set_command c s = Go (not_easy (s\<lparr>ms_command := c\<rparr>))"

definition strtol_arg :: "string \<Rightarrow> int" where
  "strtol_arg s = to_int32 (fst (strtoll s))"

definition short_option :: "('w, 'x) main_env \<Rightarrow> char \<Rightarrow> string \<Rightarrow> main_state \<Rightarrow> main_state flow" where
  "short_option env c optarg s =
     (if c = CHR ''a'' then set_command CMD_APPLY s
      else if c = CHR ''c'' then set_command CMD_CREATE s
      else if c = CHR ''f'' then Go (not_easy (s\<lparr>configfile := optarg\<rparr>))
      else if c = CHR ''g'' then set_command CMD_GENERATE_KEYS s
      else if c = CHR ''S'' then set_command CMD_SIGN s
      else if c = CHR ''s'' then
        go_on (or_errx (load_signing_key (me_files env) optarg) (ms_out s)) (\<lambda>k. Go (not_easy (s\<lparr>ms_signing_key := Some k\<rparr>)))
      else if c = CHR ''z'' then go_on (print_selected_device env (ms_out s)) (\<lambda>out. Exit 0 out)
      else if c \<in> set ''123456789'' then Go (s\<lparr>compression_level := of_char c - 48\<rparr>)
      else if c = CHR ''d'' then Go (s\<lparr>mmc_device_path := Some optarg\<rparr>)
      else if c = CHR ''D'' then Exit 0 (print_detected_devices env (ms_out s))
      else if c = CHR ''E'' then Go (s\<lparr>eject_on_success := True\<rparr>)
      else if c = CHR ''F'' then Go (not_easy (set_out ((ms_out s)\<lparr>os_framing := True\<rparr>) s))
      else if c = CHR ''h'' then Exit 0 (print_usage (me_program env) (ms_out s))
      else if c = CHR ''i'' then Go (not_easy (s\<lparr>input_filename := Some optarg\<rparr>))
      else if c = CHR ''l'' then set_command CMD_LIST s
      else if c = CHR ''m'' then set_command CMD_METADATA s
      else if c = CHR ''o'' then Go (not_easy (s\<lparr>output_filename := Some optarg\<rparr>))
      else if c = CHR ''p'' then add_public_key (load_public_key (me_files env) optarg) not_easy s
      else if c = CHR ''n'' then Go (s\<lparr>numeric_progress := True\<rparr>)
      else if c = CHR ''q'' then Go (s\<lparr>quiet := True\<rparr>)
      else if c = CHR ''t'' then Go (s\<lparr>ms_task := Some optarg\<rparr>)
      else if c = CHR ''v'' then Go (set_out ((ms_out s)\<lparr>os_verbose := True\<rparr>) s)
      else if c = CHR ''V'' then set_command CMD_VERIFY s
      else if c = CHR ''u'' then Go (s\<lparr>unmount_first := True\<rparr>)
      else if c = CHR ''U'' then Go (s\<lparr>unmount_first := False\<rparr>)
      else if c = CHR ''y'' then Go (s\<lparr>accept_found_device := True\<rparr>)
      else Exit 1 (print_usage (me_program env) (ms_out s)))"

fun option_step :: "('w, 'x) main_env \<Rightarrow> option_code \<Rightarrow> string \<Rightarrow> main_state \<Rightarrow> main_state flow" where
  "option_step env (Short c) optarg s = short_option env c optarg s"
| "option_step env OPTION_SPARSE_CHECK optarg s = set_command CMD_SPARSE_CHECK (s\<lparr>sparse_check := optarg\<rparr>)"
| "option_step env OPTION_SPARSE_CHECK_SIZE optarg s = Go (s\<lparr>sparse_check_size := strtol_arg optarg\<rparr>)"
| "option_step env OPTION_PRIVATE_KEY optarg s =
     go_on (or_errx (parse_signing_key optarg) (ms_out s)) (\<lambda>k. Go (not_easy (s\<lparr>ms_signing_key := Some k\<rparr>)))"
| "option_step env OPTION_METADATA_KEY optarg s = Go (s\<lparr>ms_metadata_key := Some optarg\<rparr>)"
| "option_step env OPTION_UNSAFE optarg s = Go (s\<lparr>ms_unsafe := True\<rparr>)"
| "option_step env OPTION_ENABLE_TRIM optarg s = Go (s\<lparr>ms_enable_trim := True\<rparr>)"
| "option_step env OPTION_VERSION optarg s = Exit 0 (print_version (me_version env) (ms_out s))"
| "option_step env OPTION_NO_EJECT optarg s = Go (s\<lparr>eject_on_success := False\<rparr>)"
| "option_step env OPTION_PROGRESS_LOW optarg s = Go (s\<lparr>progress_low := strtol_arg optarg\<rparr>)"
| "option_step env OPTION_PROGRESS_HIGH optarg s = Go (s\<lparr>progress_high := strtol_arg optarg\<rparr>)"
| "option_step env OPTION_PUBLIC_KEY optarg s = add_public_key (parse_public_key optarg) id s"
| "option_step env OPTION_REBOOT_PARAM_PATH optarg s = Go (s\<lparr>ms_reboot_param_path := Some optarg\<rparr>)"
| "option_step env OPTION_EXIT_HANDSHAKE optarg s = Go (set_out ((ms_out s)\<lparr>os_handshake := True\<rparr>) s)"
| "option_step env OPTION_VERIFY_WRITES optarg s = Go (s\<lparr>ms_verify_writes := 1\<rparr>)"
| "option_step env OPTION_NO_VERIFY_WRITES optarg s = Go (s\<lparr>ms_verify_writes := 0\<rparr>)"
| "option_step env OPTION_MINIMIZE_WRITES optarg s = Go (s\<lparr>ms_minimize_writes := True\<rparr>)"
| "option_step env OPTION_NO_MINIMIZE_WRITES optarg s = Go (s\<lparr>ms_minimize_writes := False\<rparr>)"
| "option_step env OPTION_MAX_SIZE optarg s = Go (s\<lparr>max_size_blocks := ucast (fst (strtoull optarg))\<rparr>)"

fun options_loop :: "('w, 'x) main_env \<Rightarrow> (option_code \<times> string) list \<Rightarrow> main_state \<Rightarrow> main_state flow" where
  "options_loop env [] s = Go s"
| "options_loop env ((code, optarg) # found) s = go_on (option_step env code optarg s) (options_loop env found)"

text \<open>\<open>-\<close> stands for standard input or output.\<close>

definition unless_dash :: "string option \<Rightarrow> string option" where
  "unless_dash f = (if f = Some ''-'' then None else f)"

text \<open>The easy mode: only the name of an archive, and options that do not end it.\<close>

definition easy_input :: "main_state \<Rightarrow> string list \<Rightarrow> main_state \<times> string list" where
  "easy_input s rest =
     (case rest of
        [f] \<Rightarrow> if easy_mode s then (s\<lparr>ms_command := CMD_APPLY, input_filename := Some f,
                  ms_task := (if ms_task s = None then Some ''complete'' else ms_task s)\<rparr>, []) else (s, rest)
      | _ \<Rightarrow> (s, rest))"

definition parse_options :: "('w, 'x) main_env \<Rightarrow> nat \<Rightarrow> (option_code \<times> string) list \<Rightarrow> string list \<Rightarrow> main_state flow" where
  "parse_options env argument_count found rest =
     (if argument_count = 1 then Exit 1 (print_usage (me_program env) (ms_out initial_state))
      else go_on (options_loop env found initial_state) (\<lambda>s.
        if quiet s \<and> numeric_progress s then errx ''pick either -n or -q, but not both'' (ms_out s)
        else (let (s, rest) = easy_input s rest in
          if rest \<noteq> [] then errx (''unexpected parameter: '' @ hd rest) (ms_out s)
          else Go (s\<lparr>input_filename := unless_dash (input_filename s), output_filename := unless_dash (output_filename s)\<rparr>))))"

section \<open>The output of an update\<close>

text \<open>The device that is written, and what the command line and the kind of the output make of the settings.\<close>

record output_choice =
  oc_fd :: "device option"
  oc_regular :: bool
  oc_end_offset :: nat
  oc_soft :: bool
  oc_trim :: bool
  oc_verify :: int
  oc_minimize :: bool
  oc_out :: out_state

text \<open>The product is one of unsigned 32 bit numbers.\<close>

definition max_size_bytes :: "main_state \<Rightarrow> nat" where
  "max_size_bytes s = unat (512 * max_size_blocks s)"

text \<open>A file without any permission to write is not used, even if it could be opened.\<close>

definition regular_output :: "('w, 'x) main_env \<Rightarrow> string \<Rightarrow> main_state \<Rightarrow> output_choice" where
  "regular_output env path s =
     (let fd = (case me_open_regular env path of
            Some (d, Some (mode, len)) \<Rightarrow> if mode AND 0x92 = 0 then None else Some d
          | _ \<Rightarrow> None);
          file_size = (case me_open_regular env path of Some (d, Some (mode, len)) \<Rightarrow> len | _ \<Rightarrow> 0) in
      \<lparr>oc_fd = fd, oc_regular = True,
       oc_end_offset = (if max_size_blocks s > 0 then max_size_bytes s else file_size),
       oc_soft = (if max_size_blocks s > 0 then False else file_size > 0),
       oc_trim = False, oc_verify = ms_verify_writes s, oc_minimize = ms_minimize_writes s,
       oc_out = (if ms_enable_trim s then fwup_warnx ''ignoring --enable-trim since operating on a regular file'' (ms_out s) else ms_out s)\<rparr>)"

definition null_output :: "('w, 'x) main_env \<Rightarrow> string \<Rightarrow> main_state \<Rightarrow> output_choice" where
  "null_output env path s =
     \<lparr>oc_fd = me_open_null env path, oc_regular = False, oc_end_offset = 0, oc_soft = False, oc_trim = ms_enable_trim s,
      oc_verify = 0, oc_minimize = False, oc_out = ms_out s\<rparr>"

text \<open>The size of the device is one of \<open>lseek\<close>; an error makes it zero.\<close>

definition card_output :: "('w, 'x) main_env \<Rightarrow> string \<Rightarrow> main_state \<Rightarrow> output_choice" where
  "card_output env path s =
     (let (ok, n) = mmc_device_size (me_mmc env) path;
          end_offset = (if max_size_blocks s > 0 \<and> (n = 0 \<or> int (max_size_bytes s) < n) then max_size_bytes s else nat n) in
      \<lparr>oc_fd = me_mmc_open env path, oc_regular = False, oc_end_offset = end_offset, oc_soft = False, oc_trim = ms_enable_trim s,
       oc_verify = ms_verify_writes s, oc_minimize = ms_minimize_writes s,
       oc_out = (if ok then ms_out s else fwup_warnx (''Error determining the size of '' @ path) (ms_out s))\<rparr>)"

definition choose_output :: "('w, 'x) main_env \<Rightarrow> string \<Rightarrow> main_state \<Rightarrow> 'w \<Rightarrow> output_choice flow \<times> 'w" where
  "choose_output env path s w =
     (if will_be_regular_file (me_stat env) path then (Go (regular_output env path s), w)
      else if is_device_null path then (Go (null_output env path s), w)
      else if unmount_first s then
        (case mmc_umount_all (me_mmc env) path w of
           (Inl e, w') \<Rightarrow> (or_errx (Inl e) (ms_out s), w')
         | (Inr rc, w') \<Rightarrow> if rc < 0 then (Exit 1 (ms_out s), w') else (Go (card_output env path s), w'))
      else (Go (card_output env path s), w))"

definition the_output :: "('w, 'x) main_env \<Rightarrow> string \<Rightarrow> output_choice \<Rightarrow> device flow" where
  "the_output env path oc =
     (case oc_fd oc of
        Some d \<Rightarrow> Go d
      | None \<Rightarrow>
          if Os_Util.file_exists (me_stat env) path
          then errx (''Cannot open '' @ quoted path @ '' for output.'' @ newline_text @ ''Check file permissions or the read-only tab if this is an SD Card.'') (oc_out oc)
          else errx (''Cannot create '' @ quoted path @ ''.'' @ newline_text @ ''Check the path and permissions on the containing directory.'') (oc_out oc))"

definition apply_options :: "main_state \<Rightarrow> output_choice \<Rightarrow> fwup_apply_options" where
  "apply_options s oc =
     \<lparr>public_keys = ms_public_keys s, enable_trim = oc_trim oc,
      opt_verify_writes = (if oc_verify oc < 0 then \<not> oc_regular oc else oc_verify oc \<noteq> 0),
      opt_minimize_writes = oc_minimize oc, reboot_param_path = ms_reboot_param_path s,
      opt_end_offset = oc_end_offset oc, opt_is_soft_end_offset = oc_soft oc\<rparr>"

section \<open>The commands\<close>

text \<open>How the program ends, what it printed, and what it did to the world outside of it.\<close>

record 'w main_result =
  mr_flow :: "unit flow"
  mr_out :: out_state
  mr_reports :: "printed list"
  mr_device :: "device option"
  mr_archive :: "zip_out option"
  mr_files :: "string \<Rightarrow> byte list option"
  mr_world :: 'w

definition ended :: "('w, 'x) main_env \<Rightarrow> unit flow \<Rightarrow> out_state \<Rightarrow> 'w \<Rightarrow> 'w main_result" where
  "ended env fl out w = \<lparr>mr_flow = fl, mr_out = out, mr_reports = [], mr_device = None, mr_archive = None, mr_files = me_files env, mr_world = w\<rparr>"

text \<open>What all commands but that of an update share: an error ends the program, otherwise it exits with success.\<close>

definition finish :: "'a res \<Rightarrow> ('a \<Rightarrow> out_state \<Rightarrow> out_state) \<Rightarrow> out_state \<Rightarrow> unit flow" where
  "finish r f out = go_on (or_errx r out) (\<lambda>x. Exit 0 (f x out))"

definition progress_mode_of :: "main_state \<Rightarrow> fwup_progress_option" where
  "progress_mode_of s =
     (if quiet s then PROGRESS_MODE_OFF else if os_framing (ms_out s) then PROGRESS_MODE_FRAMING
      else if numeric_progress s then PROGRESS_MODE_NUMERIC else PROGRESS_MODE_NORMAL)"

definition with_settings :: "main_state \<Rightarrow> ('w, 'x) apply_env \<Rightarrow> ('w, 'x) apply_env" where
  "with_settings s env = env\<lparr>ap_fun := (ap_fun env)\<lparr>progress_mode := progress_mode_of s, fwup_unsafe := ms_unsafe s\<rparr>\<rparr>"

definition apply_to :: "('w, 'x) main_env \<Rightarrow> string \<Rightarrow> main_state \<Rightarrow> output_choice \<Rightarrow> device \<Rightarrow> reporter \<Rightarrow> 'w \<Rightarrow> 'w main_result" where
  "apply_to env task s oc d progress w =
     (let r = fwup_apply (with_settings s (me_apply env)) (me_open_archive env (input_filename s)) task d progress (apply_options s oc)
                (me_pthreads env) w in
      (ended env (finish (res_code r) (\<lambda>_. send_output type_success 0 []) (oc_out oc)) (oc_out oc) (res_world r))
        \<lparr>mr_device := Some (res_device r), mr_reports := snd (res_progress r)\<rparr>)"

definition cmd_apply :: "('w, 'x) main_env \<Rightarrow> main_state \<Rightarrow> 'w \<Rightarrow> 'w main_result" where
  "cmd_apply env s w =
     (case ms_task s of
        None \<Rightarrow> ended env (errx ''specify a task (-t)'' (ms_out s)) (ms_out s) w
      | Some task \<Rightarrow>
          (case (case mmc_device_path s of Some p \<Rightarrow> Go p
                 | None \<Rightarrow> autoselect_and_confirm_mmc_device env (accept_found_device s) (input_filename s) (ms_out s)) of
             Exit n out \<Rightarrow> ended env (Exit n out) out w
           | Undef e \<Rightarrow> ended env (Undef e) (ms_out s) w
           | Go path \<Rightarrow>
               (let mode = progress_mode_of s; progress = progress_init mode (progress_low s) (progress_high s);
                    s' = set_out ((ms_out s)\<lparr>os_mode := mode\<rparr>) s in
                case choose_output env path s' w of (chosen, w') \<Rightarrow>
                (case go_on chosen (\<lambda>oc. go_on (the_output env path oc) (\<lambda>d. Go (oc, d))) of
                   Exit n out \<Rightarrow> (ended env (Exit n out) out w')\<lparr>mr_reports := snd progress\<rparr>
                 | Undef e \<Rightarrow> ended env (Undef e) (ms_out s') w'
                 | Go (oc, d) \<Rightarrow> apply_to env task s' oc d progress w'))))"

text \<open>\<open>sparse_file_is_supported\<close>; the four bytes are those of the file handle.\<close>

definition sparse_file_is_supported :: "('w, 'x) main_env \<Rightarrow> string \<Rightarrow> int \<Rightarrow> unit res" where
  "sparse_file_is_supported env testfile min_hole_size =
     (if \<not> ce_have_sparse_seek (me_create env) then Inl (Msg ''Sparse file supported not compiled into fwup.'')
      else if \<not> me_sparse_open env testfile then Inl (Msg (''Couldn't create sparse test file: '' @ testfile))
      else if me_sparse_pwrite env min_hole_size \<noteq> 4 then Inl (Msg (''Sparse check write to offset '' @ show_int min_hole_size @ '' failed.''))
      else if me_sparse_seek_data env \<noteq> min_hole_size then Inl (Msg (''Hole of '' @ show_int min_hole_size @ '' bytes not created on filesystem''))
      else Inr ())"

definition file_or_stdout :: "string option \<Rightarrow> string" where
  "file_or_stdout f = (case f of None \<Rightarrow> [] | Some p \<Rightarrow> p)"

definition append_bytes :: "byte list \<Rightarrow> out_state \<Rightarrow> out_state" where
  "append_bytes bs out = out\<lparr>os_stdout := os_stdout out @ bs\<rparr>"

definition run_command :: "('w, 'x) main_env \<Rightarrow> main_state \<Rightarrow> 'w \<Rightarrow> 'w main_result" where
  "run_command env s w =
     (let out = ms_out s; meta = ve_meta (ap_arc (me_apply env)); opened = me_open_archive env (input_filename s); malloc = ce_malloc (me_create env) in
      case ms_command s of
        CMD_NONE \<Rightarrow> ended env (errx ''specify one of -a, -c, -l, -m, -S, -V, or -z'' out) out w
      | CMD_APPLY \<Rightarrow> cmd_apply env s w
      | CMD_CREATE \<Rightarrow>
          (case fwup_create (me_create env) (fst (cfgfile_parse_file (me_cfg_parse env) (configfile s) (me_environment env)))
                  (file_or_stdout (output_filename s)) (ms_signing_key s) of
             (r, zo) \<Rightarrow> (ended env (finish r (\<lambda>_. id) out) out w)\<lparr>mr_archive := zo\<rparr>)
      | CMD_GENERATE_KEYS \<Rightarrow>
          (case fwup_genkeys (me_genkeys env) (output_filename s) (me_files env) of
             (r, files) \<Rightarrow> (ended env (finish r (\<lambda>msg. send_output type_success 0 msg) out) out w)\<lparr>mr_files := files\<rparr>)
      | CMD_SIGN \<Rightarrow>
          (let r = fwup_sign (me_create env) (me_renamed env) (input_filename s) (output_filename s) (ms_signing_key s) opened in
           (ended env (finish r (\<lambda>_. id) out) out w)\<lparr>mr_archive := (case r of Inl _ \<Rightarrow> None | Inr zo \<Rightarrow> Some zo)\<rparr>)
      | CMD_SPARSE_CHECK \<Rightarrow>
          ended env (finish (sparse_file_is_supported env (sparse_check s) (sparse_check_size s))
            (\<lambda>_. send_output type_success 0 (''Sparse files supported'' @ newline_text)) out) out w
      | CMD_LIST \<Rightarrow> ended env (finish (fwup_list meta malloc (os_framing out) False (ms_public_keys s) opened) append_bytes out) out w
      | CMD_METADATA \<Rightarrow>
          ended env (finish (fwup_metadata meta malloc (os_framing out) False (ms_public_keys s) (ms_metadata_key s) opened) append_bytes out) out w
      | CMD_VERIFY \<Rightarrow>
          ended env (finish (fwup_verify (ap_arc (me_apply env)) (input_filename s) (ms_public_keys s) opened)
            (\<lambda>msg. send_output type_success 0 (msg @ newline_text)) out) out w)"

text \<open>The whole program.\<close>

definition main_program :: "('w, 'x) main_env \<Rightarrow> nat \<Rightarrow> (option_code \<times> string) list \<Rightarrow> string list \<Rightarrow> 'w \<Rightarrow> 'w main_result" where
  "main_program env argument_count found rest w =
     (case parse_options env argument_count found rest of
        Exit n out \<Rightarrow> ended env (Exit n out) out w
      | Undef e \<Rightarrow> ended env (Undef e) (ms_out initial_state) w
      | Go s \<Rightarrow> run_command env s w)"

section \<open>The options as given are the options that are used\<close>

lemma go_on_Go [simp]: "go_on m f = Go y \<longleftrightarrow> (\<exists>x. m = Go x \<and> f x = Go y)"
  by (cases m) auto

lemma or_errx_Go [simp]: "or_errx r out = Go x \<longleftrightarrow> r = Inr x"
  by (auto simp: or_errx_def errx_def split: sum.splits error.splits)

lemma errx_not_Go [simp]: "errx m out \<noteq> Go x"
  by (simp add: errx_def)

text \<open>What the options with public keys say, in their order.\<close>

fun given_keys :: "('w, 'x) main_env \<Rightarrow> (option_code \<times> string) list \<Rightarrow> byte list res list" where
  "given_keys env [] = []"
| "given_keys env ((code, optarg) # found) =
     (if code = Short (CHR ''p'') then load_public_key (me_files env) optarg # given_keys env found
      else if code = OPTION_PUBLIC_KEY then parse_public_key optarg # given_keys env found
      else given_keys env found)"

definition keeps_keys :: "main_state \<Rightarrow> main_state flow \<Rightarrow> bool" where
  "keeps_keys s m \<longleftrightarrow> (\<forall>s'. m = Go s' \<longrightarrow> ms_public_keys s' = ms_public_keys s)"

lemma keeps_keys_if: "(b \<Longrightarrow> keeps_keys s m) \<Longrightarrow> (\<not> b \<Longrightarrow> keeps_keys s m') \<Longrightarrow> keeps_keys s (if b then m else m')"
  by simp

lemma short_option_keys:
  assumes "c \<noteq> CHR ''p''"
  shows "keeps_keys s (short_option env c optarg s)"
  unfolding short_option_def
  by (intro keeps_keys_if) (use assms in \<open>auto simp: keeps_keys_def set_command_def not_easy_def set_out_def\<close>)

lemma option_step_keys:
  assumes "option_step env code optarg s = Go s'" and "code \<noteq> Short (CHR ''p'')" and "code \<noteq> OPTION_PUBLIC_KEY"
  shows "ms_public_keys s' = ms_public_keys s"
proof (cases code)
  case (Short c)
  then show ?thesis using assms short_option_keys [of c s env optarg] by (simp add: keeps_keys_def)
qed (use assms in \<open>auto simp: set_command_def not_easy_def set_out_def\<close>)

lemma add_public_key_Go:
  "add_public_key key f s = Go s' \<Longrightarrow> (\<And>t. ms_public_keys (f t) = ms_public_keys t) \<Longrightarrow>
   if length (ms_public_keys s) < 10 then (\<exists>k. key = Inr k \<and> ms_public_keys s' = ms_public_keys s @ [k]) else ms_public_keys s' = ms_public_keys s"
  by (auto simp: add_public_key_def FWUP_MAX_PUBLIC_KEYS_def set_out_def split: if_splits)

lemma option_step_key:
  assumes "option_step env code optarg s = Go s'" and "code = Short (CHR ''p'') \<or> code = OPTION_PUBLIC_KEY"
  shows "if length (ms_public_keys s) < 10
    then (\<exists>k. given_keys env [(code, optarg)] = [Inr k] \<and> ms_public_keys s' = ms_public_keys s @ [k])
    else ms_public_keys s' = ms_public_keys s"
  using assms(2)
proof
  assume p: "code = Short (CHR ''p'')"
  then have "add_public_key (load_public_key (me_files env) optarg) not_easy s = Go s'" using assms(1) by (simp add: short_option_def)
  from add_public_key_Go [OF this] show ?thesis by (simp add: p not_easy_def)
next
  assume p: "code = OPTION_PUBLIC_KEY"
  then have "add_public_key (parse_public_key optarg) id s = Go s'" using assms(1) by simp
  from add_public_key_Go [OF this] show ?thesis by (simp add: p)
qed

lemma options_loop_keys:
  assumes "options_loop env found s = Go s'" and "length (ms_public_keys s) \<le> 10"
  shows "map Inr (ms_public_keys s') = map Inr (ms_public_keys s) @ take (10 - length (ms_public_keys s)) (given_keys env found)"
  using assms
proof (induction env found s rule: options_loop.induct)
  case (2 env code optarg found s)
  obtain s1 where s1: "option_step env code optarg s = Go s1" "options_loop env found s1 = Go s'" using "2.prems"(1) by auto
  show ?case
  proof (cases "code = Short (CHR ''p'') \<or> code = OPTION_PUBLIC_KEY")
    case False
    then have "ms_public_keys s1 = ms_public_keys s" using option_step_keys [OF s1(1)] by blast
    then show ?thesis using "2.IH" [OF s1(2)] "2.prems"(2) False by auto
  next
    case True
    note k = option_step_key [OF s1(1) True]
    show ?thesis
    proof (cases "length (ms_public_keys s) < 10")
      case less: True
      then obtain key where key: "given_keys env [(code, optarg)] = [Inr key]" "ms_public_keys s1 = ms_public_keys s @ [key]" using k by auto
      have "given_keys env ((code, optarg) # found) = Inr key # given_keys env found" using key(1) True by auto
      moreover have "10 - length (ms_public_keys s) = Suc (10 - length (ms_public_keys s1))" using less key(2) by simp
      ultimately show ?thesis using "2.IH" [OF s1(2)] key(2) less by simp
    next
      case False
      then show ?thesis using k "2.IH" [OF s1(2)] "2.prems"(2) by simp
    qed
  qed
qed auto

text \<open>
  The public keys that the program uses are the first ten of those on the command line, in their
  order; if one of these cannot be read, the program does not get to its command.
\<close>

theorem public_keys_as_given:
  assumes "parse_options env n found rest = Go s"
  shows "map Inr (ms_public_keys s) = take 10 (given_keys env found)"
proof -
  obtain s1 where s1: "options_loop env found initial_state = Go s1" and k: "ms_public_keys s = ms_public_keys s1"
    using assms by (auto simp: parse_options_def easy_input_def Let_def split: if_splits list.splits)
  show ?thesis using options_loop_keys [OF s1] by (simp add: k initial_state_def)
qed

text \<open>A listing with a key of 32 letters k.\<close>

theorem public_keys_as_given_witness:
  "\<forall>env :: (unit, unit) main_env. \<exists>s. parse_options env 4 [(Short (CHR ''l''), []), (OPTION_PUBLIC_KEY, replicate 32 (CHR ''k''))] [] = Go s \<and>
     ms_public_keys s = [replicate 32 107]"
proof
  fix env :: "(unit, unit) main_env"
  let ?found = "[(Short (CHR ''l''), []), (OPTION_PUBLIC_KEY, replicate 32 (CHR ''k''))]"
  have k: "parse_public_key (replicate 32 (CHR ''k'')) = Inr (replicate 32 107)"
    by (simp add: parse_public_key_def parse_key_def decode_key_def FWUP_PUBLIC_KEY_LEN_def string_bytes_def)
  obtain s where s: "parse_options env 4 ?found [] = Go s"
    by (simp add: parse_options_def short_option_def set_command_def not_easy_def add_public_key_def k initial_state_def
        FWUP_MAX_PUBLIC_KEYS_def easy_input_def or_errx_def)
  from public_keys_as_given [OF this] show "\<exists>s. parse_options env 4 ?found [] = Go s \<and> ms_public_keys s = [replicate 32 107]"
    using s by (auto simp: k)
qed

section \<open>The easy mode\<close>

lemma max_size_easy: "max_size_bytes (s\<lparr>easy_mode := b\<rparr>) = max_size_bytes s"
  by (simp add: max_size_bytes_def)

lemma outputs_easy:
  "regular_output env path (s\<lparr>easy_mode := b\<rparr>) = regular_output env path s"
  "null_output env path (s\<lparr>easy_mode := b\<rparr>) = null_output env path s"
  "card_output env path (s\<lparr>easy_mode := b\<rparr>) = card_output env path s"
  by (simp_all add: regular_output_def null_output_def card_output_def max_size_easy cong: if_cong prod.case_cong)

lemma easy_mode_ignored:
  "choose_output env path (s\<lparr>easy_mode := b\<rparr>) w = choose_output env path s w"
  "apply_options (s\<lparr>easy_mode := b\<rparr>) oc = apply_options s oc"
  "progress_mode_of (s\<lparr>easy_mode := b\<rparr>) = progress_mode_of s"
  "with_settings (s\<lparr>easy_mode := b\<rparr>) e = with_settings s e"
  "set_out out (s\<lparr>easy_mode := b\<rparr>) = (set_out out s)\<lparr>easy_mode := b\<rparr>"
  by (simp_all add: choose_output_def outputs_easy apply_options_def progress_mode_of_def with_settings_def set_out_def
      cong: if_cong prod.case_cong sum.case_cong)

lemma cmd_apply_easy: "cmd_apply env (s\<lparr>easy_mode := b\<rparr>) w = cmd_apply env s w"
  by (simp add: cmd_apply_def apply_to_def easy_mode_ignored Let_def cong: if_cong prod.case_cong flow.case_cong option.case_cong)

text \<open>
  Giving nothing but the name of an archive does what applying its task \<open>complete\<close> does:
  the printed output, the exit status and everything that is changed are the same.
\<close>

theorem easy_mode_is_apply:
  "main_program env 2 [] [archive_name] w =
   main_program env 6 [(Short (CHR ''a''), []), (Short (CHR ''i''), archive_name), (Short (CHR ''t''), ''complete'')] [] w"
proof -
  let ?s = "initial_state\<lparr>ms_command := CMD_APPLY, input_filename := unless_dash (Some archive_name), ms_task := Some ''complete''\<rparr>"
  have "parse_options env 2 [] [archive_name] = Go ?s"
    by (simp add: parse_options_def easy_input_def initial_state_def unless_dash_def)
  moreover have "parse_options env 6 [(Short (CHR ''a''), []), (Short (CHR ''i''), archive_name), (Short (CHR ''t''), ''complete'')] [] =
      Go (?s\<lparr>easy_mode := False\<rparr>)"
    by (simp add: parse_options_def easy_input_def initial_state_def unless_dash_def short_option_def set_command_def not_easy_def)
  ultimately show ?thesis
    using cmd_apply_easy [where env = env and s = ?s and b = False and w = w] by (simp add: main_program_def run_command_def Let_def)
qed

section \<open>An update that succeeds was signed\<close>

lemma fwup_apply_Inr:
  assumes "res_code (fwup_apply env opened task d progress options pthreads w) = Inr ()"
  obtains a c a' where "opened = Inr a" and "read_meta (ve_meta (ap_arc env)) (public_keys options) a = (Inr c, a')"
proof -
  have "\<exists>a c a'. opened = Inr a \<and> read_meta (ve_meta (ap_arc env)) (public_keys options) a = (Inr c, a')"
    using assms by (cases opened) (auto simp: fwup_apply_def Let_def bind_res_def split: prod.splits sum.splits)
  then show ?thesis using that by blast
qed

lemma finish_Exit: "finish r f out = Exit 0 out' \<Longrightarrow> \<exists>x. r = Inr x \<and> out' = f x out"
  by (auto simp: finish_def or_errx_def errx_def split: sum.splits error.splits)

lemma no_exit_zero:
  "errx m out \<noteq> Exit 0 out'" "or_errx (Inl e) out \<noteq> Exit 0 out'"
  "autoselect_and_confirm_mmc_device env acc inp out \<noteq> Exit 0 out'"
  "the_output env path oc \<noteq> Exit 0 out'" "choose_output env path s w \<noteq> (Exit 0 out', w')"
  by (auto simp: errx_def or_errx_def autoselect_and_confirm_mmc_device_def autoselect_mmc_device_def the_output_def choose_output_def
      split: error.splits list.splits option.splits sum.splits prod.splits if_splits)

lemma go_on_Exit: "go_on m f = Exit n out \<longleftrightarrow> m = Exit n out \<or> (\<exists>x. m = Go x \<and> f x = Exit n out)"
  by (cases m) auto

text \<open>The update that ran, when the command exits with status 0.\<close>

lemma cmd_apply_success:
  assumes "mr_flow (cmd_apply env s w) = Exit 0 out"
  obtains task d progress oc w' options where "ms_task s = Some task" and "public_keys options = ms_public_keys s"
    and "res_code (fwup_apply (with_settings s (me_apply env)) (me_open_archive env (input_filename s)) task d progress options (me_pthreads env) w') = Inr ()"
    and "mr_device (cmd_apply env s w) = Some (res_device (fwup_apply (with_settings s (me_apply env)) (me_open_archive env (input_filename s))
       task d progress options (me_pthreads env) w'))"
proof -
  obtain task where task: "ms_task s = Some task"
    using assms by (cases "ms_task s") (auto simp: cmd_apply_def ended_def no_exit_zero)
  let ?card = "case mmc_device_path s of Some p \<Rightarrow> Go p
    | None \<Rightarrow> autoselect_and_confirm_mmc_device env (accept_found_device s) (input_filename s) (ms_out s)"
  let ?mode = "progress_mode_of s"
  let ?progress = "progress_init ?mode (progress_low s) (progress_high s)"
  let ?s = "set_out ((ms_out s)\<lparr>os_mode := ?mode\<rparr>) s"
  obtain path where path: "?card = Go path"
    using assms task by (cases ?card) (auto simp: cmd_apply_def ended_def no_exit_zero split: option.splits)
  obtain chosen w' where c: "choose_output env path ?s w = (chosen, w')" by fastforce
  obtain oc d where oc: "go_on chosen (\<lambda>oc. go_on (the_output env path oc) (\<lambda>d. Go (oc, d))) = Go (oc, d)"
  proof (cases "go_on chosen (\<lambda>oc. go_on (the_output env path oc) (\<lambda>d. Go (oc, d)))")
    case (Exit n out1)
    then have n: "n = 0" using assms task path c by (simp add: cmd_apply_def ended_def Let_def)
    have "chosen \<noteq> Exit 0 out1" using c no_exit_zero(5) by metis
    then show ?thesis using Exit n no_exit_zero(4) unfolding go_on_Exit by blast
  next
    case (Undef e)
    then show ?thesis using assms task path c by (simp add: cmd_apply_def ended_def Let_def)
  qed auto
  have r: "cmd_apply env s w = apply_to env task ?s oc d ?progress w'" using task path c oc by (simp add: cmd_apply_def Let_def)
  have w: "with_settings ?s (me_apply env) = with_settings s (me_apply env)"
    by (simp add: with_settings_def progress_mode_of_def set_out_def)
  have i: "input_filename ?s = input_filename s" by (simp add: set_out_def)
  have "\<exists>u. res_code (fwup_apply (with_settings s (me_apply env)) (me_open_archive env (input_filename s)) task d ?progress (apply_options ?s oc) (me_pthreads env) w') = Inr u"
    using assms unfolding r apply_to_def Let_def w i by (auto simp: ended_def dest!: finish_Exit)
  moreover have "public_keys (apply_options ?s oc) = ms_public_keys s" by (simp add: apply_options_def set_out_def)
  ultimately show ?thesis using that task r unfolding r apply_to_def Let_def w i by auto
qed

text \<open>
  C12: when public keys were given, an update exits with success only if the archive starts with metadata that is signed under
  one of the first ten of them.
\<close>

theorem update_needs_signature:
  assumes "parse_options env n found rest = Go s" and "ms_command s = CMD_APPLY" and "given_keys env found \<noteq> []"
    and "mr_flow (main_program env n found rest w) = Exit 0 out"
  shows "\<exists>a signature ae m entries key. me_open_archive env (input_filename s) = Inr a \<and> meta_of a (Some signature) ae m entries \<and>
    Inr key \<in> set (take 10 (given_keys env found)) \<and> ed25519_check (ve_meta (ap_arc (me_apply env))) signature key m"
proof -
  have keys: "map Inr (ms_public_keys s) = take 10 (given_keys env found)"
  proof -
    obtain s1 where s1: "options_loop env found initial_state = Go s1" and k: "ms_public_keys s = ms_public_keys s1"
      using assms(1) by (auto simp: parse_options_def easy_input_def Let_def split: if_splits list.splits)
    show ?thesis using options_loop_keys [OF s1] by (simp add: k initial_state_def)
  qed
  have "mr_flow (cmd_apply env s w) = Exit 0 out" using assms by (simp add: main_program_def run_command_def Let_def)
  then obtain task d progress options w' where p: "public_keys options = ms_public_keys s"
    and r: "res_code (fwup_apply (with_settings s (me_apply env)) (me_open_archive env (input_filename s)) task d progress options (me_pthreads env) w') = Inr ()"
    by (rule cmd_apply_success) blast
  have "ap_arc (with_settings s (me_apply env)) = ap_arc (me_apply env)" by (simp add: with_settings_def)
  then obtain a c a' where a: "me_open_archive env (input_filename s) = Inr a"
    and m: "read_meta (ve_meta (ap_arc (me_apply env))) (ms_public_keys s) a = (Inr c, a')"
    using fwup_apply_Inr [OF r] p by metis
  have "ms_public_keys s \<noteq> []" using keys assms(3) by auto
  with read_meta_Inr [OF m] obtain sg ae t key where "meta_of a (Some sg) ae t (ar_entries a')" "key \<in> set (ms_public_keys s)"
      "ed25519_check (ve_meta (ap_arc (me_apply env))) sg key t"
    by (auto simp: signed_by_def)
  moreover have "Inr key \<in> set (take 10 (given_keys env found))" if "key \<in> set (ms_public_keys s)" for key
    unfolding keys [symmetric] using that by simp
  ultimately show ?thesis using a by blast
qed

text \<open>A signed task that does nothing, applied to a card under a key that is read from a file.\<close>

definition sample_create_env :: create_env where
  "sample_create_env = \<lparr>ce_open = (\<lambda>_. None), ce_filename = id, ce_have_sparse_seek = False, ce_blake2b_256 = id, ce_sign = (\<lambda>_ _ _. []),
     ce_creation_time = 0, ce_malloc = (\<lambda>_. True),
     ce_zip = \<lparr>zl_format = True, zl_open = (\<lambda>_. True), zl_store = (\<lambda>_. True), zl_deflate = (\<lambda>_. True), zl_header = (\<lambda>_ _. True),
       zl_data = (\<lambda>_ bs. int (length bs))\<rparr>\<rparr>"

definition sample_card :: "unit mmc_os" where
  "sample_card = \<lparr>mo_stat = (\<lambda>_. None), mo_read = (\<lambda>_. None), mo_end = (\<lambda>_. None), mo_scandir = (\<lambda>_. []), mo_mtab = False,
     mo_has_umount = True, mo_call = (\<lambda>_ w. (0, w))\<rparr>"

definition sample_main_env :: "(unit, echo_stream) main_env" where
  "sample_main_env = \<lparr>me_program = ''fwup'', me_version = ''1'', me_files = [''key'' \<mapsto> replicate 32 7], me_stat = (\<lambda>_. Stat_mode 0x6000),
     me_mmc = sample_card, me_open_regular = (\<lambda>_. None), me_open_null = (\<lambda>_. None), me_mmc_open = (\<lambda>_. Some (plain_file (\<lambda>_. 9) 4096)),
     me_open_archive = (\<lambda>_. Inr (toy_archive [])), me_apply = signed_apply_env, me_pthreads = False, me_create = sample_create_env,
     me_cfg_parse = (\<lambda>_ e. (CFG_FILE_ERROR, e)), me_environment = (\<lambda>_. None), me_renamed = True, me_genkeys = sample_key_env,
     me_sparse_open = (\<lambda>_. True), me_sparse_pwrite = (\<lambda>_. 4), me_sparse_seek_data = 0, me_stdin = None\<rparr>"

definition sample_options :: "(option_code \<times> string) list" where
  "sample_options = [(Short (CHR ''a''), []), (Short (CHR ''i''), ''a.fw''), (Short (CHR ''t''), ''upgrade''), (Short (CHR ''d''), ''/dev/sdc''),
     (Short (CHR ''q''), []), (Short (CHR ''U''), []), (OPTION_UNSAFE, []), (Short (CHR ''p''), ''key'')]"

definition sample_state :: main_state where
  "sample_state = initial_state\<lparr>ms_command := CMD_APPLY, easy_mode := False, input_filename := Some ''a.fw'', ms_task := Some ''upgrade'',
     mmc_device_path := Some ''/dev/sdc'', quiet := True, unmount_first := False, ms_unsafe := True, ms_public_keys := [replicate 32 7]\<rparr>"

lemma sample_parse: "parse_options sample_main_env 13 sample_options [] = Go sample_state"
  by (simp add: parse_options_def sample_options_def short_option_def set_command_def not_easy_def add_public_key_def load_public_key_def
      load_key_def decode_key_def FWUP_PUBLIC_KEY_LEN_def base64_raw_to_encoded_count_def sample_main_env_def FWUP_MAX_PUBLIC_KEYS_def
      or_errx_def easy_input_def unless_dash_def initial_state_def sample_state_def)

lemma toy_read_meta_one: "\<exists>c. read_meta (toy_meta_env secs) [replicate 32 7] (toy_archive data_entries) =
    (Inr (toy_cfg c secs), \<lparr>ar_entries = data_entries, ar_blocks = [], ar_reads = []\<rparr>)"
proof -
  have e: "ed25519_check (toy_meta_env secs) toy_signature (replicate 32 7) (replicate 12 1)"
    by (simp add: toy_meta_env_def toy_signature_def)
  have l: "length toy_signature = 64" by (simp add: toy_signature_def)
  then show ?thesis using e
    by (auto simp: read_meta_def toy_archive_def ok_then_def next_header_def archive_read_next_header_def read_signature_def
        archive_read_all_data_def archive_entry_size_is_set_def archive_entry_size_def FWUP_SIGNATURE_LEN_def
        cfgfile_parse_fw_ae_def MAX_META_CONF_SIZE_def check_signature_def toy_parse)
qed

lemma apply_archive_keys:
  "apply_archive env c es task d progress (options\<lparr>public_keys := ks\<rparr>) pthreads w = apply_archive env c es task d progress options pthreads w"
  by (simp add: apply_archive_def new_context_def cong: prod.case_cong)

lemma sample_flow: "\<exists>out. mr_flow (main_program sample_main_env 13 sample_options [] ()) = Exit 0 out"
proof -
  let ?s = "set_out ((ms_out sample_state)\<lparr>os_mode := PROGRESS_MODE_OFF\<rparr>) sample_state"
  let ?oc = "card_output sample_main_env ''/dev/sdc'' ?s"
  let ?d = "plain_file (\<lambda>_. 9) 4096"
  have st: "ms_task sample_state = Some ''upgrade''" "mmc_device_path sample_state = Some ''/dev/sdc''" "ms_command sample_state = CMD_APPLY"
      "progress_mode_of sample_state = PROGRESS_MODE_OFF" "unmount_first ?s = False"
    by (simp_all add: sample_state_def initial_state_def progress_mode_of_def set_out_def)
  have w: "with_settings ?s signed_apply_env = signed_apply_env"
    by (simp add: with_settings_def signed_apply_env_def toy_apply_env_def quiet_env_def progress_mode_of_def set_out_def sample_state_def)
  have o: "apply_options ?s ?oc = toy_options\<lparr>public_keys := [replicate 32 7]\<rparr>"
    by (simp add: apply_options_def card_output_def toy_options_def set_out_def sample_state_def initial_state_def sample_main_env_def
        mmc_device_size_def mmc_device_size_raw_def sample_card_def Let_def)
  obtain v where m: "read_meta (ve_meta (ap_arc signed_apply_env)) [replicate 32 7] (toy_archive []) =
      (Inr (toy_cfg v idle_secs), \<lparr>ar_entries = [], ar_blocks = [], ar_reads = []\<rparr>)"
    using toy_read_meta_one [of idle_secs "[]"] by (auto simp: signed_apply_env_def)
  have a: "res_code (fwup_apply signed_apply_env (Inr (toy_archive [])) ''upgrade'' ?d progress (toy_options\<lparr>public_keys := [replicate 32 7]\<rparr>) False ()) = Inr ()" for progress
    using idle_apply [OF refl] by (simp add: fwup_apply_def m Let_def apply_archive_keys)
  have c: "choose_output sample_main_env ''/dev/sdc'' ?s () = (Go ?oc, ())"
    by (simp add: choose_output_def will_be_regular_file_def is_device_null_def sample_main_env_def Os_Util.S_IFREG_def set_out_def sample_state_def)
  have "the_output sample_main_env ''/dev/sdc'' ?oc = Go ?d"
    by (simp add: the_output_def card_output_def sample_main_env_def mmc_device_size_def Let_def)
  then have "cmd_apply sample_main_env sample_state () = apply_to sample_main_env ''upgrade'' ?s ?oc ?d
      (progress_init PROGRESS_MODE_OFF (progress_low sample_state) (progress_high sample_state)) ()"
    by (simp add: cmd_apply_def st c Let_def)
  moreover have "me_apply sample_main_env = signed_apply_env" "me_open_archive sample_main_env x = Inr (toy_archive [])" "me_pthreads sample_main_env = False" for x
    by (simp_all add: sample_main_env_def)
  ultimately have "\<exists>out. mr_flow (cmd_apply sample_main_env sample_state ()) = Exit 0 out"
    by (simp add: apply_to_def w o a ended_def finish_def or_errx_def Let_def)
  then show ?thesis by (simp add: main_program_def sample_parse run_command_def st Let_def)
qed

theorem update_needs_signature_witness:
  "\<exists>signature ae m entries. meta_of (toy_archive []) (Some signature) ae m entries \<and> ed25519_check (toy_meta_env idle_secs) signature (replicate 32 7) m"
proof -
  obtain out where f: "mr_flow (main_program sample_main_env 13 sample_options [] ()) = Exit 0 out" using sample_flow by blast
  have k: "given_keys sample_main_env sample_options = [Inr (replicate 32 7)]"
    by (simp add: sample_options_def load_public_key_def load_key_def decode_key_def FWUP_PUBLIC_KEY_LEN_def base64_raw_to_encoded_count_def
        sample_main_env_def)
  have c: "ms_command sample_state = CMD_APPLY" by (simp add: sample_state_def)
  have "me_open_archive sample_main_env x = Inr (toy_archive [])" "ve_meta (ap_arc (me_apply sample_main_env)) = toy_meta_env idle_secs" for x
    by (simp_all add: sample_main_env_def signed_apply_env_def)
  with update_needs_signature [OF sample_parse c _ f] show ?thesis by (auto simp: k)
qed

section \<open>A card that was not named\<close>

lemma autoselect_Go:
  assumes "autoselect_and_confirm_mmc_device env acc inp out = Go path"
  shows "\<exists>len. mmc_scan_for_devices (me_mmc env) None 16 = [\<lparr>md_path = path, md_size = len\<rparr>] \<and>
    (acc \<or> inp \<noteq> None \<and> me_stdin env \<in> {Some (CHR ''y''), Some (CHR ''Y'')})"
proof -
  obtain d where d: "mmc_scan_for_devices (me_mmc env) None 16 = [d]" and p: "path = md_path d"
    and a: "acc \<or> inp \<noteq> None \<and> me_stdin env \<in> {Some (CHR ''y''), Some (CHR ''Y'')}"
    using assms by (auto simp: autoselect_and_confirm_mmc_device_def autoselect_mmc_device_def errx_def split: list.splits if_splits)
  have "d = \<lparr>md_path = path, md_size = md_size d\<rparr>" using p by simp
  then show ?thesis using d a by metis
qed


definition one_card :: "unit mmc_os" where
  "one_card = sample_card\<lparr>mo_stat := (\<lambda>p. if p = ''/dev/sdc'' then Some \<lparr>st_dev = 5, st_rdev = 0x820\<rparr> else None), mo_end := (\<lambda>_. Some 4194304),
     mo_read := (\<lambda>_. Some [CHR ''1'', CHR 0x0A])\<rparr>"

lemma scan_one_card: "mmc_scan_for_devices one_card None 16 = [\<lparr>md_path = ''/dev/sdc'', md_size = 4194304\<rparr>]"
proof -
  have none: "mmc_get_device_stats one_card name = None" if "snprintf 16 (''/dev/'' @ name) \<noteq> ''/dev/sdc''" for name
    using that by (simp add: mmc_get_device_stats_def one_card_def sample_card_def Let_def)
  have some: "mmc_get_device_stats one_card ''sdc'' = Some \<lparr>devpath = ''/dev/sdc'', device_size = 4194304, info_st = \<lparr>st_dev = 5, st_rdev = 0x820\<rparr>, removable = True\<rparr>"
    by (simp add: mmc_get_device_stats_def one_card_def sample_card_def snprintf_def mmc_device_size_raw_def mmc_device_removable_sysfs_def
        readsysfs_def Let_def)
  have skip: "scan_names one_card names l = l" if "list_all (\<lambda>name. snprintf 16 (''/dev/'' @ name) \<noteq> ''/dev/sdc'') names" for names l
    using that by (induction names) (auto simp: none)
  have m: "list_all (\<lambda>name. snprintf 16 (''/dev/'' @ name) \<noteq> ''/dev/sdc'') mmcblk_names" by (simp add: mmcblk_names_def snprintf_def list_all_iff)
  define more where "more = map (\<lambda>i. ''sd'' @ [char_of i]) [100..<122]"
  have sd: "sd_names = [''sda'', ''sdb'', ''sdc''] @ more"
    by (simp add: sd_names_def more_def upt_conv_Cons char_of_def bit_Suc_0_iff)
  have "char_of i \<noteq> CHR ''c''" if "100 \<le> i" "i < 122" for i :: nat
  proof
    assume "char_of i = CHR ''c''"
    then have "of_char (char_of i :: char) = (99 :: nat)" by simp
    then show False using that by simp
  qed
  then have t: "list_all (\<lambda>name. snprintf 16 (''/dev/'' @ name) \<noteq> ''/dev/sdc'') more" by (simp add: snprintf_def list_all_iff more_def)
  have "scan_names one_card sd_names [] = [\<lparr>devpath = ''/dev/sdc'', device_size = 4194304, info_st = \<lparr>st_dev = 5, st_rdev = 0x820\<rparr>, removable = True\<rparr>]"
    unfolding sd by (simp add: none some snprintf_def MMC_MAX_DEVICES_def skip [OF t])
  moreover have "root_disk_device one_card = 0" by (simp add: root_disk_device_def one_card_def)
  ultimately show ?thesis
    by (simp add: mmc_scan_for_devices_def enumerate_mmc_devices_def skip [OF m] is_autodetectable_mmc_device_def MMC_MIN_AUTODETECTED_SIZE_def
        ONE_MiB_def ONE_KiB_def)
qed

definition one_card_env :: "(unit, echo_stream) main_env" where
  "one_card_env = sample_main_env\<lparr>me_mmc := one_card\<rparr>"

definition one_card_options :: "(option_code \<times> string) list" where
  "one_card_options = [(Short (CHR ''a''), []), (Short (CHR ''t''), ''upgrade''), (Short (CHR ''U''), []), (Short (CHR ''y''), [])]"


section \<open>The size of the output\<close>

text \<open>A size that is given is the limit of what is written, as long as it is below four gigabytes; from there on its product wraps around.\<close>

lemma max_size_fits: "unat (max_size_blocks s) < 2 ^ 23 \<Longrightarrow> max_size_bytes s = 512 * unat (max_size_blocks s)"
  by (simp add: max_size_bytes_def unat_word_ariths)

lemma max_size_wraps: "max_size_blocks s = 0x800000 \<Longrightarrow> max_size_bytes s = 0 \<and> oc_end_offset (regular_output env path s) = 0"
  by (simp add: max_size_bytes_def regular_output_def)

text \<open>Of the short options, \<open>Z\<close> is announced to \<open>getopt_long\<close> but not known to the program.\<close>

lemma option_Z_is_usage: "CHR ''Z'' \<in> set short_options \<and> option_step env (Short (CHR ''Z'')) optarg s = Exit 1 (print_usage (me_program env) (ms_out s))"
  by (simp add: short_options_def short_option_def)

end
