(* ===== verification/Spec2Isabelle.thy ===== *)
theory Spec2Isabelle
  imports Util Crc32 Eval_Math Mbr Gpt Cache_Writer Uboot_Env Pad_Writer Progress Sparse_File Archive Xdelta Requirement Fw_Apply Cache_Decrypt Fw_Roundtrip Cfg_File Fw_List Fat_Write Fwup_Main
begin

text \<open>
  \<^bold>\<open>fwup: a verification development.\<close>

  fwup makes, signs, checks and applies firmware archives. An archive (\<open>.fw\<close>) is a ZIP file with a
  signed configuration, \<open>meta.conf\<close>, in front, and the data of its resources behind. The configuration names
  tasks; a task has requirements and events, and an event is a list of calls that write partition tables,
  raw data, files on FAT file systems or variables of the U-Boot environment. All of it goes through one write-back
  cache to the destination, a memory card, an image file or the device that the system runs from.
  The sources are those of \<open>src/src\<close>; the development follows them file by file.

  \<^bold>\<open>The parts and their theories.\<close>

  The command line (\<open>Fwup_Main\<close>: \<open>fwup.c\<close>) reads the options and runs one command:
  \<^item> \<open>-a\<close>, and no option at all: choose the output (\<open>Mmc_Linux\<close>: \<open>mmc_linux.c\<close>, \<open>ubi_linux.c\<close>), then \<open>fwup_apply\<close>.
  \<^item> \<open>-c\<close>: \<open>Cfg_File\<close> reads the configuration, \<open>Fw_Create\<close> makes the archive.
  \<^item> \<open>-S\<close>: \<open>Fw_Sign\<close>. \<open>-V\<close>: \<open>Fw_Verify\<close>. \<open>-l\<close>, \<open>-m\<close>: \<open>Fw_List\<close> (\<open>fwup_list.c\<close>, \<open>fwup_metadata.c\<close>). \<open>-g\<close>: \<open>Key_Files\<close>.

  Shared by all of them:
  \<^item> \<open>Prelude\<close>: results (\<open>res\<close>, an \<open>error\<close> or a value), actions on a state (\<open>action\<close>, with \<open>ok_then\<close> for one after the other),
    reading and writing parts of lists, the widths of the C types. \<open>CLib\<close>: what the sources use of the C library
    and the accessors of libconfuse on a \<open>cfg\<close>.
  \<^item> \<open>Util\<close>, \<open>Os_Util\<close>, \<open>Creation_Time\<close>: \<open>util.c\<close>. \<open>Crc32\<close>: \<open>crc32.c\<close>. \<open>Base64\<close>: \<open>3rdparty/base64.c\<close>.
    \<open>Eval_Math\<close>: \<open>eval_math.c\<close>. \<open>Progress\<close>: \<open>progress.c\<close>.

  Making archives:
  \<^item> \<open>Cfg_Print\<close>: the options of a configuration, printing it (\<open>cfgprint.c\<close>, \<open>simple_string.c\<close>). \<open>Cfg_File\<close>: the callbacks and
    checks that run while a configuration is read (\<open>cfgfile.c\<close>). \<open>Call_List\<close>: the lists of calls that it leaves for the tasks.
  \<^item> \<open>Sparse_File\<close>: maps of holes (\<open>sparse_file.c\<close>). \<open>Fw_Create\<close>, \<open>Create_Files\<close>: \<open>fwup_create.c\<close>, \<open>fwfile.c\<close>.
    \<open>Fw_Sign\<close>: \<open>fwup_sign.c\<close>. \<open>Key_Files\<close>: \<open>fwup_genkeys.c\<close> and the keys of \<open>fwup.c\<close>.
  \<^item> \<open>Fw_Roundtrip\<close>: archives from their creation to their use.

  Using archives:
  \<^item> \<open>Archive\<close>: reading archives, framed input, lists of resources (\<open>archive_open.c\<close>, \<open>resources.c\<close>). \<open>Fw_Meta\<close>: the signed metadata.
    \<open>Fw_Verify\<close>: \<open>fwup_verify.c\<close>. \<open>Xdelta\<close>: \<open>fwup_xdelta3.c\<close>.
  \<^item> \<open>Requirement\<close>: requirements and the choice of the task. \<open>Fun_Context\<close>, \<open>Functions\<close>, \<open>Function_Table\<close>: the calls of
    events (\<open>functions.c\<close>). \<open>Apply_Read\<close>, \<open>Fw_Apply\<close>: \<open>fwup_apply.c\<close>. \<open>Apply_Write\<close>: \<open>raw_write\<close> from the archive to the output.

  Writing:
  \<^item> \<open>Block_Cache\<close>: the cache and its writer thread (\<open>block_cache.c\<close>), with \<open>Cache_Refinement\<close>, \<open>Cache_Trim\<close>, \<open>Cache_Total\<close>,
    \<open>Cache_Writer\<close> and \<open>Cache_Decrypt\<close> for what it guarantees. \<open>Block_Store\<close> is its interface.
  \<^item> \<open>Pad_Writer\<close>: \<open>pad_to_block_writer.c\<close>. \<open>Disk_Crypto\<close>: \<open>disk_crypto.c\<close>. \<open>Mbr\<close>, \<open>Gpt\<close>: partition tables.
    \<open>Uboot_Env\<close>: \<open>uboot_env.c\<close>, a provider of \<open>Dictionary\<close>. \<open>Fat_Fs\<close>, \<open>Fat_Safety\<close>, \<open>Fat_Write\<close>: \<open>fatfs.c\<close>.

  \<^bold>\<open>How the code is modelled.\<close> A C structure is a record with the same fields, an \<open>enum\<close> a datatype. A function that
  returns -1 with a message returns \<open>Inl (Msg m)\<close>, one that returns -1 without a message \<open>Inl Quiet\<close>.
  \<open>Undefined\<close> marks what C does not define or what an assertion forbids: accesses outside of an array,
  a failed \<open>assert\<close>, a negative file offset. State is passed explicitly: an \<open>action\<close> maps a state to a result and
  a state, so that what was done before a failure stays done. Offsets are \<open>int\<close> or words of 64 bits, and sums
  wrap where the width matters (\<open>Mbr\<close>, \<open>Crc32\<close>, \<open>Block_Cache\<close>, \<open>--max-size\<close>).

  \<^bold>\<open>The outside.\<close> What is not code of the repository is a parameter, and what the theorems need of it is a hypothesis:
  \<^item> libarchive, when it reads, is the answers that a handle still gives (\<open>archive\<close>); when it writes, whether it takes a header and
    how many bytes of the data (\<open>zip_lib\<close>), with the entries it took as the state (\<open>zip_out\<close>).
  \<^item> libconfuse is a function that parses text, and runs the callbacks of \<open>Cfg_File\<close>. \<open>getopt_long\<close> is the list of the options it finds.
  \<^item> FatFs is an interaction: for a call and its own state a program that asks for sectors; the sectors are read and written by
    the code of \<open>fatfs.c\<close>. The calls of \<open>functions.c\<close> go to any answer; \<open>Fat_Fs.fat_answer\<close> is the one of \<open>fatfs.c\<close>.
  \<^item> Ed25519, BLAKE2b, AES, the xdelta3 decoder and semver are functions, the clock and random bytes are values.
  \<^item> The operating system: a \<open>device\<close> for the destination, with its contents, size and the faults it may have, a
    \<open>sparse_fd\<close> for a file of the host, \<open>mmc_os\<close> and \<open>host_call\<close>s for the rest. Memory is never short, but where the code tests for it (\<open>ce_malloc\<close>).

  \<^bold>\<open>What is shown.\<close>
  \<^item> The cache: reads and writes are those of a byte array, whatever is evicted, and a flush makes the device that array; on a
    file without faults every operation succeeds; after a failure of the writer thread the device does not change any more.
  \<^item> Its clients: the block writer leaves padded blocks on the medium, \<open>raw_write\<close> the bytes of its resource and nothing else,
    the environment reads back what was written, FAT operations change nothing in front of their volumes.
  \<^item> Safety of updates: with public keys nothing is changed but by a signed archive; \<open>on-finish\<close> runs only when all resources were
    there; a failed task drops what was not written; a card that was not named is removable, large enough and not the root disk.
  \<^item> Round trips: partition tables, hexadecimal, Base64, UUIDs, printed strings, sparse files, keys, the environment, the creation
    time, resources from \<open>fwup_create\<close> to the output, and archives from the generated keys to \<open>fwup -V\<close> below.
  \<^item> Equivalences: the CRC table with the shift register, the expression evaluator with the value of the expression, framed input with a grammar.
  \<^item> Places where the code does not do what it means to are stated as lemmas next to the definitions they are about.

  \<^bold>\<open>Locales.\<close> \<open>block_store\<close> is interpreted by the cache, \<open>dictionary\<close> by the U-Boot environment, \<open>call_runner\<close> by the two
  functions that run lists of calls.

  \<^bold>\<open>Bounds and fuel.\<close> Loops are structural recursions or have a measure. Two loops end only if the outside lets them and
  have fuel, with \<open>Undefined\<close> when it is used up: \<open>process_loop\<close> (\<open>read_fuel\<close>; one round per byte of the entry and one more
  are enough, \<open>Apply_Write\<close>) and the loops over the files of a FAT file system (\<open>ff_fuel\<close>; as many rounds as there are
  bytes to read, \<open>Fat_Write\<close>). The handshake at the end of the program and the writing of a UBI volume run over the answers they get.

  \<^bold>\<open>Not modelled.\<close> \<open>mmc_osx.c\<close>, \<open>mmc_bsd.c\<close> and \<open>mmc_windows.c\<close>, which are calls of other systems; the minimal build; the text of
  \<open>format_pretty\<close>, which is floating point; \<open>get_random\<close>; output to standard error; the freeing of memory. The refinement of the cache
  is for the build without threads; the writer thread has its own step relation and the safety theorems that hold with it.
\<close>

section \<open>From the keys to a verified archive\<close>

text \<open>
  Three runs of the program: one makes a pair of keys, one makes an archive that is signed with the private
  one, and one checks the archive with the public one.
\<close>

definition genkeys_options :: "string \<Rightarrow> (option_code \<times> string) list" where
  "genkeys_options prefix = [(Short (CHR ''g''), []), (Short (CHR ''o''), prefix)]"

definition create_options :: "string \<Rightarrow> string \<Rightarrow> string \<Rightarrow> (option_code \<times> string) list" where
  "create_options conf key_file fw = [(Short (CHR ''c''), []), (Short (CHR ''f''), conf), (Short (CHR ''s''), key_file), (Short (CHR ''o''), fw)]"

definition verify_options :: "string \<Rightarrow> string \<Rightarrow> (option_code \<times> string) list" where
  "verify_options fw key_file = [(Short (CHR ''V''), []), (Short (CHR ''i''), fw), (Short (CHR ''p''), key_file)]"

lemma finish_Exit_0: "finish r f out = Exit 0 out' \<Longrightarrow> \<exists>x. r = Inr x \<and> out' = f x out"
  by (auto simp: finish_def or_errx_def errx_def split: sum.splits error.splits)

lemma genkeys_program:
  assumes "prefix \<noteq> ''-''"
  shows "main_program env 4 (genkeys_options prefix) [] w =
    (case fwup_genkeys (me_genkeys env) (Some prefix) (me_files env) of
       (r, files) \<Rightarrow> (ended env (finish r (send_output type_success 0) (ms_out initial_state)) (ms_out initial_state) w)\<lparr>mr_files := files\<rparr>)"
proof -
  have "parse_options env 4 (genkeys_options prefix) [] =
      Go (initial_state\<lparr>ms_command := CMD_GENERATE_KEYS, easy_mode := False, output_filename := Some prefix\<rparr>)"
    using assms by (simp add: parse_options_def genkeys_options_def short_option_def set_command_def not_easy_def easy_input_def unless_dash_def initial_state_def)
  then show ?thesis by (simp add: main_program_def run_command_def Let_def)
qed

lemma create_program:
  assumes "fw \<noteq> ''-''" and "load_signing_key (me_files env) key_file = Inr key"
  shows "main_program env 8 (create_options conf key_file fw) [] w =
    (case fwup_create (me_create env) (fst (cfgfile_parse_file (me_cfg_parse env) conf (me_environment env))) fw (Some key) of
       (r, zo) \<Rightarrow> (ended env (finish r (\<lambda>_. id) (ms_out initial_state)) (ms_out initial_state) w)\<lparr>mr_archive := zo\<rparr>)"
proof -
  have "parse_options env 8 (create_options conf key_file fw) [] =
      Go (initial_state\<lparr>ms_command := CMD_CREATE, easy_mode := False, configfile := conf, ms_signing_key := Some key, output_filename := Some fw\<rparr>)"
    using assms by (simp add: parse_options_def create_options_def short_option_def set_command_def not_easy_def easy_input_def unless_dash_def or_errx_def initial_state_def)
  then show ?thesis by (simp add: main_program_def run_command_def file_or_stdout_def Let_def)
qed

lemma genkeys_run:
  assumes "mr_flow (main_program env 4 (genkeys_options prefix) [] w) = Exit 0 out" and "prefix \<noteq> ''-''"
  shows "\<exists>msg. fwup_genkeys (me_genkeys env) (Some prefix) (me_files env) = (Inr msg, mr_files (main_program env 4 (genkeys_options prefix) [] w))"
  using assms(1) unfolding genkeys_program [OF assms(2)] by (auto simp: ended_def split: prod.splits dest!: finish_Exit_0)

lemma create_run:
  assumes "mr_flow (main_program env 8 (create_options conf key_file fw) [] w) = Exit 0 out" and "fw \<noteq> ''-''"
    and "load_signing_key (me_files env) key_file = Inr key"
  shows "fwup_create (me_create env) (fst (cfgfile_parse_file (me_cfg_parse env) conf (me_environment env))) fw (Some key) =
    (Inr (), mr_archive (main_program env 8 (create_options conf key_file fw) [] w))"
  using assms(1) unfolding create_program [OF assms(2,3)] by (auto simp: ended_def split: prod.splits dest!: finish_Exit_0)

lemma verify_run:
  assumes "fwup_verify (ap_arc (me_apply env)) (Some fw) [pk] (me_open_archive env (Some fw)) = Inr msg" and "fw \<noteq> ''-''"
    and "load_public_key (me_files env) key_file = Inr pk"
  shows "\<exists>out. mr_flow (main_program env 6 (verify_options fw key_file) [] w) = Exit 0 out \<and> os_stdout out = string_bytes (msg @ newline_text)"
proof -
  have "parse_options env 6 (verify_options fw key_file) [] =
      Go (initial_state\<lparr>ms_command := CMD_VERIFY, easy_mode := False, input_filename := Some fw, ms_public_keys := [pk]\<rparr>)"
    using assms(2,3) by (simp add: parse_options_def verify_options_def short_option_def set_command_def not_easy_def easy_input_def unless_dash_def
        or_errx_def add_public_key_def FWUP_MAX_PUBLIC_KEYS_def initial_state_def)
  then show ?thesis using assms(1)
    by (simp add: main_program_def run_command_def ended_def finish_def or_errx_def send_output_def fwup_output_def initial_state_def)
qed


text \<open>Keys of a generator that always gives the same bytes, and the archive of one sparse resource.\<close>

definition keys_env :: "(unit, echo_stream) main_env" where
  "keys_env = sample_main_env\<lparr>me_files := \<lambda>_. None,
     me_genkeys := \<lparr>gk_random = Some (replicate 32 7), gk_public_key = (\<lambda>sk. replicate 32 (hd sk)), gk_create = (\<lambda>_. True),
       gk_write = (\<lambda>_ buf. int (length buf))\<rparr>\<rparr>"

definition maker_env :: "key_files \<Rightarrow> (unit, echo_stream) main_env" where
  "maker_env files = sample_main_env\<lparr>me_files := files, me_create := sample_env, me_cfg_parse := \<lambda>_ e. (CFG_SUCCESS (sample_cfg [sample_sec]), e)\<rparr>"

definition checker_env :: "key_files \<Rightarrow> (unit, echo_stream) main_env" where
  "checker_env files = sample_main_env\<lparr>me_files := files, me_open_archive := \<lambda>_. Inr sample_archive,
     me_apply := (me_apply sample_main_env)\<lparr>ap_arc := sample_verify_env\<rparr>\<rparr>"

lemma keys_made: "\<exists>msg files. fwup_genkeys (me_genkeys keys_env) (Some ''key'') (me_files keys_env) = (Inr msg, files)"
proof -
  obtain t1 where "key_text (replicate 32 7) = Inr t1" using key_text_defined [of "replicate 32 7" 32] by auto
  moreover obtain t2 where "key_text (replicate 32 7 @ replicate 32 7) = Inr t2" using key_text_defined [of "replicate 32 7 @ replicate 32 7" 64] by auto
  ultimately show ?thesis
    by (simp add: fwup_genkeys_def keys_env_def save_key_def ok_then_def PATH_MAX_def Let_def)
qed


end
